(* ===== verification/Mpt_Prelude.thy ===== *)
theory Mpt_Prelude
  imports Main "HOL-Library.Word" "HOL-Library.Sublist" "HOL-Library.List_Lexorder"
begin

text \<open>
  Prelude of the development: the names of the machine types, results with errors as
  values, and the lemmas on lists, prefixes and words that the components share.

  A Rust \<open>Vec<u8>\<close>, \<open>Box<[u8]>\<close> or \<open>&[u8]\<close> is a list of 8-bit words; \<open>u32\<close> and \<open>u64\<close> are
  words of their width. A Rust \<open>Result<T, E>\<close> is a sum, \<open>Inl\<close> holding the error.
\<close>

unbundle bit_operations_syntax

type_synonym u8 = "8 word"
type_synonym u32 = "32 word"
type_synonym u64 = "64 word"
type_synonym bytes = "u8 list"
type_synonym nibbles = "u8 list"

text \<open>Facts that read a cached or memoised routine as the routine it caches.\<close>

named_theorems memo_simps
named_theorems layer_simps

subsection \<open>Results\<close>

text \<open>The \<open>?\<close> operator: the first error is the result.\<close>

definition rbind :: "'e + 'a \<Rightarrow> ('a \<Rightarrow> 'e + 'b) \<Rightarrow> 'e + 'b" where
  "rbind r f = (case r of Inl e \<Rightarrow> Inl e | Inr a \<Rightarrow> f a)"

lemma rbind_simps [simp]:
  "rbind (Inl e) f = Inl e"
  "rbind (Inr a) f = f a"
  by (simp_all add: rbind_def)

lemma rbind_Inr_iff: "rbind r f = Inr b \<longleftrightarrow> (\<exists>a. r = Inr a \<and> f a = Inr b)"
  by (cases r) auto

lemma rbind_cong [fundef_cong]:
  "r = r' \<Longrightarrow> (\<And>a. r' = Inr a \<Longrightarrow> f a = f' a) \<Longrightarrow> rbind r f = rbind r' f'"
  by (cases r') auto

definition ensure :: "bool \<Rightarrow> 'e \<Rightarrow> 'e + unit" where
  "ensure b e = (if b then Inr () else Inl e)"

lemma ensure_simps [simp]:
  "ensure True e = Inr ()"
  "ensure False e = Inl e"
  "ensure b e = Inr u \<longleftrightarrow> b"
  by (auto simp: ensure_def)

text \<open>Collecting an iterator of options: \<open>None\<close> if one of them is.\<close>

fun those_options :: "'a option list \<Rightarrow> 'a list option" where
  "those_options [] = Some []"
| "those_options (x # xs) =
     (case x of None \<Rightarrow> None
      | Some y \<Rightarrow> (case those_options xs of None \<Rightarrow> None | Some ys \<Rightarrow> Some (y # ys)))"

lemma those_options_map_Some [simp]: "those_options (map (\<lambda>x. Some (f x)) xs) = Some (map f xs)"
  by (induction xs) auto

lemma those_options_map:
  "(\<And>x. x \<in> set xs \<Longrightarrow> g x = Some (f x)) \<Longrightarrow> those_options (map g xs) = Some (map f xs)"
  by (induction xs) auto

subsection \<open>Lists and prefixes\<close>

definition subslice :: "'a list \<Rightarrow> nat \<Rightarrow> nat \<Rightarrow> 'a list" where
  "subslice xs s e = take (e - s) (drop s xs)"

lemma length_subslice [simp]: "length (subslice xs s e) = min (e - s) (length xs - s)"
  by (simp add: subslice_def)

lemma subslice_all [simp]: "subslice xs 0 (length xs) = xs"
  by (simp add: subslice_def)

lemma set_subslice_subset: "set (subslice xs s e) \<subseteq> set xs"
  by (auto simp: subslice_def dest: in_set_takeD in_set_dropD)

lemma subslice_append_right [simp]: "subslice (xs @ ys) (length xs + s) (length xs + e) = subslice ys s e"
  by (simp add: subslice_def)

lemma subslice_Cons_Suc [simp]: "subslice (x # xs) (Suc s) (Suc e) = subslice xs s e"
  by (simp add: subslice_def)

lemma prefix_iff_take: "prefix p k \<longleftrightarrow> take (length p) k = p"
  by (metis append_eq_conv_conj prefix_def)

lemma prefix_snoc_iff:
  "prefix (p @ [c]) k \<longleftrightarrow> prefix p k \<and> length p < length k \<and> k ! length p = c"
proof
  assume "prefix (p @ [c]) k"
  then show "prefix p k \<and> length p < length k \<and> k ! length p = c"
    by (auto simp: prefix_def nth_append)
next
  assume h: "prefix p k \<and> length p < length k \<and> k ! length p = c"
  then obtain r where r: "k = p @ r" by (auto simp: prefix_def)
  with h obtain x r' where "r = x # r'" by (cases r) auto
  with r h show "prefix (p @ [c]) k" by (auto simp: nth_append prefix_def)
qed

lemma prefix_take_mono: "prefix p k \<Longrightarrow> length p \<le> n \<Longrightarrow> prefix p (take n k)"
  by (auto simp: prefix_def)

lemma prefix_of_take: "prefix p (take n k) \<Longrightarrow> prefix p k"
  using prefix_order.trans take_is_prefix by blast

lemma in_prefixes_lengths: "prefix p k \<longleftrightarrow> (\<exists>n \<le> length k. p = take n k)"
  by (metis prefix_def prefix_iff_take prefix_length_le take_is_prefix)

subsection \<open>Bytes and nibbles as words\<close>

lemma unat_u8_less [simp]: "unat (x :: u8) < 256"
  using unsigned_less [of x, where ?'a = nat] by simp

lemma unat_of_nat_u8: "n < 256 \<Longrightarrow> unat (of_nat n :: u8) = n"
  by (simp add: unsigned_of_nat take_bit_nat_eq_self)

lemma of_nat_u8_inj: "m < 256 \<Longrightarrow> n < 256 \<Longrightarrow> (of_nat m :: u8) = of_nat n \<longleftrightarrow> m = n"
  by (metis unat_of_nat_u8)

end
