(* ===== verification/Btree_Map.thy ===== *)
theory Btree_Map
  imports Mpt_Prelude
begin

text \<open>
  The standard library's ordered and hashed containers as the sources use them: \<open>BTreeMap\<close>
  and \<open>FxHashMap\<close> are association lists kept strictly ascending by key (the order of a
  hash map is never observed by the modelled code), \<open>BTreeSet\<close> is a map to \<open>unit\<close>.
  \<open>kv_map\<close> is the interface the other components use, interpreted here on the list.
\<close>

type_synonym ('k, 'v) btree = "('k \<times> 'v) list"

definition bt_wf :: "('k::linorder, 'v) btree \<Rightarrow> bool" where
  "bt_wf m \<longleftrightarrow> sorted_wrt (<) (map fst m)"

definition bt_get :: "('k, 'v) btree \<Rightarrow> 'k \<Rightarrow> 'v option" where
  "bt_get m k = map_of m k"

fun bt_insert :: "'k::linorder \<Rightarrow> 'v \<Rightarrow> ('k, 'v) btree \<Rightarrow> ('k, 'v) btree" where
  "bt_insert k v [] = [(k, v)]"
| "bt_insert k v ((a, b) # m) =
     (if k < a then (k, v) # (a, b) # m
      else if k = a then (k, v) # m
      else (a, b) # bt_insert k v m)"

fun bt_remove :: "'k \<Rightarrow> ('k, 'v) btree \<Rightarrow> ('k, 'v) btree" where
  "bt_remove k [] = []"
| "bt_remove k ((a, b) # m) = (if k = a then m else (a, b) # bt_remove k m)"

text \<open>\<open>range(lo..hi)\<close> and \<open>range(lo..)\<close>, in key order.\<close>

definition bt_range :: "('k::linorder, 'v) btree \<Rightarrow> 'k \<Rightarrow> 'k \<Rightarrow> ('k, 'v) btree" where
  "bt_range m lo hi = filter (\<lambda>kv. lo \<le> fst kv \<and> fst kv < hi) m"

definition bt_range_from :: "('k::linorder, 'v) btree \<Rightarrow> 'k \<Rightarrow> ('k, 'v) btree" where
  "bt_range_from m lo = filter (\<lambda>kv. lo \<le> fst kv) m"

text \<open>\<open>collect()\<close> and \<open>extend\<close>: a later pair replaces an earlier one with its key.\<close>

definition bt_extend :: "('k::linorder, 'v) btree \<Rightarrow> ('k \<times> 'v) list \<Rightarrow> ('k, 'v) btree" where
  "bt_extend m kvs = fold (\<lambda>kv. bt_insert (fst kv) (snd kv)) kvs m"

definition bt_collect :: "('k::linorder \<times> 'v) list \<Rightarrow> ('k, 'v) btree" where
  "bt_collect kvs = bt_extend [] kvs"

lemma bt_wf_Nil [simp, intro]: "bt_wf []"
  by (simp add: bt_wf_def)

lemma bt_wf_Cons: "bt_wf ((a, b) # m) \<longleftrightarrow> (\<forall>kv \<in> set m. a < fst kv) \<and> bt_wf m"
  by (auto simp: bt_wf_def)

lemma bt_wf_distinct: "bt_wf m \<Longrightarrow> distinct (map fst m)"
  by (simp add: bt_wf_def strict_sorted_iff)

lemma bt_wf_filter [intro]: "bt_wf m \<Longrightarrow> bt_wf (filter P m)"
  by (induction m) (auto simp: bt_wf_Cons)

lemma bt_get_Nil [simp]: "bt_get [] k = None"
  by (simp add: bt_get_def)

lemma bt_get_Cons [simp]: "bt_get ((a, b) # m) k = (if k = a then Some b else bt_get m k)"
  by (simp add: bt_get_def)

lemma bt_get_SomeD: "bt_get m k = Some v \<Longrightarrow> (k, v) \<in> set m"
  by (simp add: bt_get_def map_of_SomeD)

lemma bt_get_iff: "bt_wf m \<Longrightarrow> bt_get m k = Some v \<longleftrightarrow> (k, v) \<in> set m"
  by (simp add: bt_get_def bt_wf_distinct)

lemma bt_get_None_iff: "bt_get m k = None \<longleftrightarrow> k \<notin> fst ` set m"
  by (simp add: bt_get_def map_of_eq_None_iff)

lemma bt_get_insert [simp]:
  "bt_get (bt_insert k v m) k' = (if k' = k then Some v else bt_get m k')"
  by (induction m) auto

lemma bt_get_remove [simp]:
  "bt_wf m \<Longrightarrow> bt_get (bt_remove k m) k' = (if k' = k then None else bt_get m k')"
proof (induction m)
  case (Cons kv m)
  obtain a b where kv: "kv = (a, b)" by (cases kv)
  have "a \<notin> fst ` set m" using Cons.prems by (auto simp: kv bt_wf_Cons)
  then have "bt_get m a = None" by (simp add: bt_get_None_iff)
  with Cons show ?case by (auto simp: kv bt_wf_Cons)
qed simp

lemma set_bt_insert_subset: "set (bt_insert k v m) \<subseteq> insert (k, v) (set m)"
  by (induction m) (auto split: if_splits)

lemma keys_bt_insert: "fst ` set (bt_insert k v m) = insert k (fst ` set m)"
proof -
  have "k' \<in> fst ` set (bt_insert k v m) \<longleftrightarrow> k' = k \<or> k' \<in> fst ` set m" for k'
    by (metis bt_get_None_iff bt_get_insert option.distinct(1))
  then show ?thesis by blast
qed

lemma set_bt_remove_subset: "set (bt_remove k m) \<subseteq> set m"
  by (induction m) (auto split: if_splits)

lemma bt_wf_insert [simp, intro]: "bt_wf m \<Longrightarrow> bt_wf (bt_insert k v m)"
proof (induction m)
  case (Cons kv m)
  obtain a b where kv: "kv = (a, b)" by (cases kv)
  have "\<forall>x \<in> set (bt_insert k v m). a < fst x" if "a < k"
    using Cons.prems that set_bt_insert_subset [of k v m] by (auto simp: kv bt_wf_Cons)
  with Cons show ?case by (auto simp: kv bt_wf_Cons)
qed (simp add: bt_wf_Cons)

lemma bt_wf_remove [simp, intro]: "bt_wf m \<Longrightarrow> bt_wf (bt_remove k m)"
proof (induction m)
  case (Cons kv m)
  then show ?case
    using set_bt_remove_subset [of k m] by (cases kv) (auto simp: bt_wf_Cons)
qed simp

lemma bt_wf_extend [simp, intro]: "bt_wf m \<Longrightarrow> bt_wf (bt_extend m kvs)"
  by (induction kvs arbitrary: m) (simp_all add: bt_extend_def)

lemma bt_wf_collect [simp, intro]: "bt_wf (bt_collect kvs)"
  by (simp add: bt_collect_def)

text \<open>Two ascending lists with the same lookups are the same list.\<close>

lemma bt_get_ext:
  assumes "bt_wf m" "bt_wf m'" "\<And>k. bt_get m k = bt_get m' k"
  shows "m = m'"
proof (rule map_sorted_distinct_set_unique)
  show s: "set m = set m'"
    using assms by (metis bt_get_iff surj_pair subsetI subset_antisym)
  show "inj_on fst (set m \<union> set m')"
    using bt_wf_distinct [OF assms(1)] by (simp add: distinct_map s [symmetric])
qed (use assms(1,2) in \<open>auto simp: bt_wf_def strict_sorted_iff\<close>)

lemma bt_insert_above:
  "\<forall>kv \<in> set m. fst kv < k \<Longrightarrow> bt_insert k v m = m @ [(k, v)]"
  by (induction m) auto

text \<open>Collecting an ascending list gives it back.\<close>

lemma bt_extend_above:
  "bt_wf (m @ kvs) \<Longrightarrow> bt_extend m kvs = m @ kvs"
proof (induction kvs arbitrary: m)
  case (Cons kv kvs)
  have "\<forall>x \<in> set m. fst x < fst kv"
    using Cons.prems by (auto simp: bt_wf_def sorted_wrt_append)
  then have "bt_insert (fst kv) (snd kv) m = m @ [kv]"
    by (simp add: bt_insert_above)
  then show ?case
    using Cons.IH [of "m @ [kv]"] Cons.prems by (simp add: bt_extend_def)
qed (simp add: bt_extend_def)

lemma bt_collect_sorted: "bt_wf kvs \<Longrightarrow> bt_collect kvs = kvs"
  by (simp add: bt_collect_def bt_extend_above)

lemma bt_get_extend_notin: "k \<notin> fst ` set kvs \<Longrightarrow> bt_get (bt_extend m kvs) k = bt_get m k"
  by (induction kvs arbitrary: m) (auto simp: bt_extend_def)

lemma bt_get_extend:
  "distinct (map fst kvs) \<Longrightarrow>
   bt_get (bt_extend m kvs) k = (case map_of kvs k of Some v \<Rightarrow> Some v | None \<Rightarrow> bt_get m k)"
proof (induction kvs arbitrary: m)
  case (Cons kv kvs)
  obtain a b where kv: "kv = (a, b)" by (cases kv)
  have e: "bt_extend m (kv # kvs) = bt_extend (bt_insert a b m) kvs"
    by (simp add: bt_extend_def kv)
  show ?case
  proof (cases "k = a")
    case True
    then have "k \<notin> fst ` set kvs" "map_of kvs k = None"
      using Cons.prems by (auto simp: kv map_of_eq_None_iff image_iff)
    then show ?thesis by (simp add: e [unfolded kv] kv bt_get_extend_notin)
  next
    case False
    then show ?thesis
      unfolding e using Cons by (simp add: kv split: option.split)
  qed
qed (simp add: bt_extend_def)

lemma bt_wf_map_values: "bt_wf m \<Longrightarrow> bt_wf (map (\<lambda>kv. (fst kv, f (snd kv))) m)"
  by (simp add: bt_wf_def comp_def)

lemma bt_get_map_values:
  "bt_get (map (\<lambda>kv. (fst kv, f (snd kv))) m) k = map_option f (bt_get m k)"
  by (induction m) auto

subsection \<open>The interface of a key-value map\<close>

locale kv_map =
  fixes lookup :: "'m \<Rightarrow> 'k \<Rightarrow> 'v option"
    and update :: "'k \<Rightarrow> 'v \<Rightarrow> 'm \<Rightarrow> 'm"
    and delete :: "'k \<Rightarrow> 'm \<Rightarrow> 'm"
    and invar :: "'m \<Rightarrow> bool"
  assumes lookup_update: "invar m \<Longrightarrow> lookup (update k v m) = (lookup m)(k \<mapsto> v)"
    and lookup_delete: "invar m \<Longrightarrow> lookup (delete k m) = (lookup m)(k := None)"
    and invar_update: "invar m \<Longrightarrow> invar (update k v m)"
    and invar_delete: "invar m \<Longrightarrow> invar (delete k m)"
begin

text \<open>One update of a batch: write a value or delete the key.\<close>

definition apply_update :: "'k \<times> 'v option \<Rightarrow> 'm \<Rightarrow> 'm" where
  "apply_update u m = (case snd u of Some v \<Rightarrow> update (fst u) v m | None \<Rightarrow> delete (fst u) m)"

lemma apply_update_invar: "invar m \<Longrightarrow> invar (apply_update u m)"
  by (auto simp: apply_update_def invar_update invar_delete split: option.split)

lemma apply_update_lookup: "invar m \<Longrightarrow> lookup (apply_update u m) = (lookup m)(fst u := snd u)"
  by (auto simp: apply_update_def lookup_update lookup_delete split: option.split)

lemma batch_invar: "invar m \<Longrightarrow> invar (fold apply_update us m)"
  by (induction us arbitrary: m) (auto simp: apply_update_invar)

lemma batch_lookup_notin:
  "invar m \<Longrightarrow> k \<notin> fst ` set us \<Longrightarrow> lookup (fold apply_update us m) k = lookup m k"
  by (induction us arbitrary: m) (auto simp: apply_update_invar apply_update_lookup)

text \<open>A batch whose keys are distinct acts on each key by its own update.\<close>

lemma batch_lookup:
  "invar m \<Longrightarrow> distinct (map fst us) \<Longrightarrow>
   lookup (fold apply_update us m) k =
     (case map_of us k of Some w \<Rightarrow> w | None \<Rightarrow> lookup m k)"
proof (induction us arbitrary: m)
  case (Cons u us)
  show ?case
  proof (cases "k = fst u")
    case True
    then have n: "k \<notin> fst ` set us" using Cons.prems by auto
    then have "lookup (fold apply_update us (apply_update u m)) k = lookup (apply_update u m) k"
      by (intro batch_lookup_notin apply_update_invar Cons.prems)
    with True show ?thesis by (simp add: apply_update_lookup Cons.prems(1))
  next
    case False
    then show ?thesis
      using Cons by (simp add: apply_update_invar apply_update_lookup split: option.split)
  qed
qed simp

end

interpretation bt: kv_map bt_get bt_insert bt_remove bt_wf
  by unfold_locales (auto simp: fun_eq_iff)

end
