(* ===== verification/Mpt_Types.thy ===== *)
theory Mpt_Types
  imports Btree_Map
begin

text \<open>
  \<open>crates/minimal-mpt/src/types.rs\<close>: 32-byte hashes, spaces, errors and the root that a
  commit returns. \<open>[u8; 32]\<close> is the type of the byte lists of length 32, so that its
  length is a fact of the type as it is in Rust. The Keccak-256 function is not in the
  repository (crate \<open>tiny_keccak\<close>); every definition that hashes takes it as an argument
  \<open>kc\<close> of type \<open>bytes \<Rightarrow> h256\<close>, of which nothing is assumed.
\<close>

typedef h256 = "{bs :: bytes. length bs = 32}"
  morphisms as_bytes H256
  by (rule exI [of _ "replicate 32 0"]) simp

setup_lifting type_definition_h256

lemma length_as_bytes [simp]: "length (as_bytes h) = 32"
  using as_bytes [of h] by simp

lemma as_bytes_H256 [simp]: "length bs = 32 \<Longrightarrow> as_bytes (H256 bs) = bs"
  by (simp add: H256_inverse)

lemma H256_as_bytes [simp]: "H256 (as_bytes h) = h"
  by (rule as_bytes_inverse)

lemma as_bytes_eq_iff [simp]: "as_bytes a = as_bytes b \<longleftrightarrow> a = b"
  by (rule as_bytes_inject)

instantiation h256 :: equal
begin

definition equal_h256 :: "h256 \<Rightarrow> h256 \<Rightarrow> bool" where
  "equal_h256 a b \<longleftrightarrow> as_bytes a = as_bytes b"

instance by standard (simp add: equal_h256_def)

end

text \<open>The derived order of the newtype: the lexicographic order of its bytes.\<close>

instantiation h256 :: linorder
begin

definition less_eq_h256 :: "h256 \<Rightarrow> h256 \<Rightarrow> bool" where
  "less_eq_h256 a b \<longleftrightarrow> as_bytes a \<le> as_bytes b"

definition less_h256 :: "h256 \<Rightarrow> h256 \<Rightarrow> bool" where
  "less_h256 a b \<longleftrightarrow> as_bytes a < as_bytes b"

instance
  by standard (auto simp: less_eq_h256_def less_h256_def less_le)

end

lift_definition H256_zero :: h256 is "replicate 32 (0 :: u8)"
  by simp

lift_definition MERKLE_NULL_NODE :: h256 is
  "[0xc5, 0xd2, 0x46, 0x01, 0x86, 0xf7, 0x23, 0x3c, 0x92, 0x7e, 0x7d, 0xb2, 0xdc, 0xc7, 0x03, 0xc0,
    0xe5, 0x00, 0xb6, 0x53, 0xca, 0x82, 0x27, 0x3b, 0x7b, 0xfa, 0xd8, 0x04, 0x5d, 0x85, 0xa4, 0x70]
    :: u8 list"
  by simp

datatype space = Native | Ethereum

text \<open>
  \<open>Error\<close> of the source, and beside it the panics (\<open>expect\<close>, an index out of range),
  which end the program instead of returning.
\<close>

datatype mpt_error = InvalidKey string | Io string | Codec string

datatype failure = Err mpt_error | Panic string

type_synonym 'a result = "failure + 'a"

type_synonym mpt_key_value = "bytes \<times> bytes"

record commit_root =
  cr_snapshot_root :: h256
  cr_intermediate_delta_root :: h256
  cr_delta_root :: h256
  cr_state_root_hash :: h256
  cr_delta_mpt_key_padding :: h256

definition commit_root_new ::
  "(bytes \<Rightarrow> h256) \<Rightarrow> h256 \<Rightarrow> h256 \<Rightarrow> h256 \<Rightarrow> h256 \<Rightarrow> commit_root" where
  "commit_root_new kc snapshot_root intermediate_delta_root delta_root padding =
     (let buf = as_bytes snapshot_root @ as_bytes intermediate_delta_root @ as_bytes delta_root
      in \<lparr>cr_snapshot_root = snapshot_root,
          cr_intermediate_delta_root = intermediate_delta_root,
          cr_delta_root = delta_root,
          cr_state_root_hash = kc buf,
          cr_delta_mpt_key_padding = padding\<rparr>)"

lemma commit_root_new_sel [simp]:
  "cr_snapshot_root (commit_root_new kc s i d p) = s"
  "cr_intermediate_delta_root (commit_root_new kc s i d p) = i"
  "cr_delta_root (commit_root_new kc s i d p) = d"
  "cr_state_root_hash (commit_root_new kc s i d p) = kc (as_bytes s @ as_bytes i @ as_bytes d)"
  "cr_delta_mpt_key_padding (commit_root_new kc s i d p) = p"
  by (simp_all add: commit_root_new_def Let_def)

end
