(* ===== verification/Mpt_Trie.thy ===== *)
theory Mpt_Trie
  imports Mpt_Types
begin

text \<open>
  \<open>crates/minimal-mpt/src/trie.rs\<close>: the stateless Merkle root. The definitions return
  \<open>None\<close> where the code would panic (an \<open>expect\<close>, an index out of range); that this never
  happens is part of the theorems of \<open>Trie_Spec\<close>.
\<close>

definition CHILDREN :: nat where
  "CHILDREN = 16"

definition PARALLEL_HASH_THRESHOLD :: nat where
  "PARALLEL_HASH_THRESHOLD = 4096"

datatype mpt_value = MptSome bytes | Tombstone

fun visible_value :: "mpt_value \<Rightarrow> bytes option" where
  "visible_value (MptSome v) = Some v"
| "visible_value Tombstone = None"

fun merkle_value :: "mpt_value \<Rightarrow> bytes" where
  "merkle_value (MptSome v) = v"
| "merkle_value Tombstone = []"

fun is_tombstone :: "mpt_value \<Rightarrow> bool" where
  "is_tombstone Tombstone = True"
| "is_tombstone (MptSome v) = False"

type_synonym entries = "(nibbles \<times> mpt_value) list"

definition bytes_to_nibbles :: "bytes \<Rightarrow> nibbles" where
  "bytes_to_nibbles bs = concat (map (\<lambda>b. [drop_bit 4 b, b AND 0x0f]) bs)"

subsection \<open>Hashing one node\<close>

definition compute_node_merkle ::
  "(bytes \<Rightarrow> h256) \<Rightarrow> h256 list option \<Rightarrow> bytes option \<Rightarrow> h256" where
  "compute_node_merkle kc children_merkles maybe_value =
     (let children = (case children_merkles of Some c \<Rightarrow> c
                      | None \<Rightarrow> replicate CHILDREN MERKLE_NULL_NODE)
      in kc (0x6e # concat (map as_bytes children)
             @ (case maybe_value of None \<Rightarrow> [] | Some v \<Rightarrow> 0x76 # v)))"

text \<open>\<open>rest.chunks(2)\<close>: pairs of nibbles, a last single one padded with 0.\<close>

fun pack_nibbles :: "nibbles \<Rightarrow> bytes" where
  "pack_nibbles [] = []"
| "pack_nibbles [hi] = [push_bit 4 hi OR 0]"
| "pack_nibbles (hi # lo # rest) = (push_bit 4 hi OR lo) # pack_nibbles rest"

definition compress_nibbles :: "nibbles \<Rightarrow> bool \<Rightarrow> bytes option" where
  "compress_nibbles nibs without_first_nibble =
     (if without_first_nibble then
        (case nibs of [] \<Rightarrow> None | first # rest \<Rightarrow> Some (first # pack_nibbles rest))
      else Some (pack_nibbles nibs))"

definition path_info :: "nibbles \<Rightarrow> nat \<Rightarrow> u8" where
  "path_info path_nibbles start_depth =
     128 + 64 * of_bool (start_depth mod 2 = 1) + (of_nat (length path_nibbles) mod 63)"

definition compute_path_merkle ::
  "(bytes \<Rightarrow> h256) \<Rightarrow> nibbles \<Rightarrow> nat \<Rightarrow> h256 \<Rightarrow> h256 option" where
  "compute_path_merkle kc path_nibbles start_depth node_merkle =
     (if path_nibbles = [] then Some node_merkle
      else (case compress_nibbles path_nibbles (start_depth mod 2 = 1) of None \<Rightarrow> None
            | Some compressed \<Rightarrow>
                Some (kc (path_info path_nibbles start_depth # compressed
                          @ as_bytes node_merkle))))"

subsection \<open>The recursive walk over sorted entries\<close>

text \<open>\<open>slice.get(i)\<close>.\<close>

definition get_nth :: "'a list \<Rightarrow> nat \<Rightarrow> 'a option" where
  "get_nth xs i = (if i < length xs then Some (xs ! i) else None)"

definition entries_common_prefix_len :: "entries \<Rightarrow> nat \<Rightarrow> nat" where
  "entries_common_prefix_len es depth =
     (case es of [] \<Rightarrow> 0
      | (first, _) # rest \<Rightarrow>
          if length first < depth then 0
          else length (takeWhile
                 (\<lambda>idx. list_all (\<lambda>kv. get_nth (fst kv) idx = Some (first ! idx)) rest)
                 [depth..<length first]))"

text \<open>
  The partition of the entries by their nibble at \<open>node_depth\<close>: triples of the nibble and
  the first and one-past-last index, from the peekable enumeration of the loop. A key
  shorter than \<open>node_depth\<close> is an index out of range.
\<close>

function trie_ranges :: "nat \<Rightarrow> (nibbles \<times> 'v) list \<Rightarrow> nat \<Rightarrow> (nat \<times> nat \<times> nat) list option" where
  "trie_ranges start [] node_depth = Some []"
| "trie_ranges start ((key, v) # rest) node_depth =
     (if length key = node_depth then trie_ranges (Suc start) rest node_depth
      else if length key < node_depth then None
      else
        (let child = unat (key ! node_depth);
             run = takeWhile (\<lambda>kv. node_depth < length (fst kv)
                                    \<and> unat (fst kv ! node_depth) = child) rest;
             end_idx = Suc start + length run
         in map_option ((#) (child, start, end_idx))
              (trie_ranges end_idx (drop (length run) rest) node_depth)))"
  by pat_completeness auto
termination by (relation "measure (\<lambda>(_, es, _). length es)") auto

text \<open>\<open>children[child] = hash\<close> for every computed child; the array has 16 slots.\<close>

fun fill_children :: "(nat \<times> h256) list \<Rightarrow> h256 list \<Rightarrow> h256 list option" where
  "fill_children [] slots = Some slots"
| "fill_children ((child, hash) # hs) slots =
     (if child < length slots then fill_children hs (slots[child := hash]) else None)"

definition has_children :: "h256 list \<Rightarrow> bool" where
  "has_children children = list_ex (\<lambda>h. h \<noteq> MERKLE_NULL_NODE) children"

text \<open>The same partition as the groups themselves, for the proofs.\<close>

function trie_groups :: "nat \<Rightarrow> (nibbles \<times> 'v) list \<Rightarrow> (nat \<times> (nibbles \<times> 'v) list) list" where
  "trie_groups d [] = []"
| "trie_groups d ((key, v) # rest) =
     (if length key \<le> d then trie_groups d rest
      else
        (let child = unat (key ! d);
             run = takeWhile (\<lambda>kv. d < length (fst kv) \<and> unat (fst kv ! d) = child) rest
         in (child, (key, v) # run) # trie_groups d (drop (length run) rest)))"
  by pat_completeness auto
termination by (relation "measure (\<lambda>(_, es). length es)") auto

lemma trie_ranges_groups:
  "trie_ranges (length pre) es d = Some rs \<Longrightarrow>
   map (\<lambda>(c, s, e). (c, subslice (pre @ es) s e)) rs = trie_groups d es"
proof (induction d es arbitrary: pre rs rule: trie_groups.induct)
  case (2 d key v rest)
  show ?case
  proof (cases "length key \<le> d")
    case True
    with 2 have "trie_ranges (length (pre @ [(key, v)])) rest d = Some rs"
      by (auto split: if_splits)
    from "2.IH"(1) [OF True this] True show ?thesis by simp
  next
    case False
    define c where "c = unat (key ! d)"
    define run where "run = takeWhile (\<lambda>kv. d < length (fst kv) \<and> unat (fst kv ! d) = c) rest"
    let ?n = "length run"
    define pre' where "pre' = pre @ (key, v) # run"
    have split: "run @ drop ?n rest = rest"
      unfolding run_def by (metis dropWhile_eq_drop takeWhile_dropWhile_id)
    from False "2.prems" obtain rs' where
      rs': "trie_ranges (length pre') (drop ?n rest) d = Some rs'"
      and rs: "rs = (c, length pre, length pre') # rs'"
      by (auto simp: Let_def c_def run_def pre'_def)
    have "map (\<lambda>(c, s, e). (c, subslice (pre' @ drop ?n rest) s e)) rs' = trie_groups d (drop ?n rest)"
      by (rule "2.IH"(2) [OF False c_def run_def rs'])
    moreover have "pre' @ drop ?n rest = pre @ (key, v) # rest"
      by (simp add: pre'_def split)
    moreover have "subslice (pre @ (key, v) # rest) (length pre) (length pre') = (key, v) # run"
      by (simp add: subslice_def pre'_def) (metis append_eq_conv_conj split)
    ultimately show ?thesis using False by (simp add: rs Let_def c_def run_def)
  qed
qed simp

lemma trie_groups_mem:
  "(c, g) \<in> set (trie_groups d es) \<Longrightarrow>
   g \<noteq> [] \<and> set g \<subseteq> set es \<and> (\<forall>kv \<in> set g. d < length (fst kv) \<and> unat (fst kv ! d) = c)"
proof (induction d es rule: trie_groups.induct)
  case (2 d key v rest)
  show ?case
  proof (cases "length key \<le> d")
    case True
    with 2 show ?thesis by auto
  next
    case False
    define run where
      "run = takeWhile (\<lambda>kv. d < length (fst kv) \<and> unat (fst kv ! d) = unat (key ! d)) rest"
    have run: "set run \<subseteq> set rest" "\<forall>kv \<in> set run. d < length (fst kv) \<and> unat (fst kv ! d) = unat (key ! d)"
      unfolding run_def by (auto dest: set_takeWhileD)
    from False have g: "trie_groups d ((key, v) # rest) =
        (unat (key ! d), (key, v) # run) # trie_groups d (drop (length run) rest)"
      by (simp add: Let_def run_def)
    show ?thesis
    proof (cases "(c, g) = (unat (key ! d), (key, v) # run)")
      case True
      with run False show ?thesis by auto
    next
      case f: False
      with "2.prems" have "(c, g) \<in> set (trie_groups d (drop (length run) rest))"
        by (simp only: g set_simps insert_iff) blast
      with "2.IH"(2) [OF False refl run_def] show ?thesis
        by (auto dest: in_set_dropD)
    qed
  qed
qed simp

definition max_key_len :: "(nibbles \<times> 'v) list \<Rightarrow> nat" where
  "max_key_len es = foldr (\<lambda>kv. max (length (fst kv))) es 0"

lemma max_key_len_ge: "kv \<in> set es \<Longrightarrow> length (fst kv) \<le> max_key_len es"
  by (induction es) (auto simp: max_key_len_def)

lemma max_key_len_mono: "set es \<subseteq> set es' \<Longrightarrow> max_key_len es \<le> max_key_len es'"
proof (induction es)
  case (Cons kv es)
  then show ?case using max_key_len_ge [of kv es'] by (auto simp: max_key_len_def)
qed (simp add: max_key_len_def)

lemma trie_ranges_decrease:
  assumes "trie_ranges 0 es d = Some rs" "(c, s, e) \<in> set rs"
  shows "max_key_len (subslice es s e) \<le> max_key_len es" "d < max_key_len (subslice es s e)"
proof -
  have "(c, subslice es s e) \<in> set (trie_groups d es)"
    using trie_ranges_groups [of "[]" es d rs, symmetric] assms by (simp add: rev_image_eqI)
  then have g: "subslice es s e \<noteq> []" "set (subslice es s e) \<subseteq> set es"
    "\<forall>kv \<in> set (subslice es s e). d < length (fst kv)"
    using trie_groups_mem by blast+
  then show "max_key_len (subslice es s e) \<le> max_key_len es" by (simp add: max_key_len_mono)
  from g obtain kv where "kv \<in> set (subslice es s e)" by (meson last_in_set)
  with g(3) show "d < max_key_len (subslice es s e)" by (meson max_key_len_ge order_less_le_trans)
qed

function merkle_for_node ::
  "(bytes \<Rightarrow> h256) \<Rightarrow> entries \<Rightarrow> nat \<Rightarrow> bool \<Rightarrow> bool \<Rightarrow> h256 option" where
  "merkle_for_node kc es depth par allow_path_compression =
     (let common = (if allow_path_compression then entries_common_prefix_len es depth else 0);
          node_depth = depth + common;
          maybe_value = map_option (\<lambda>kv. merkle_value (snd kv))
                          (find (\<lambda>kv. length (fst kv) = node_depth) es)
      in (case trie_ranges 0 es node_depth of None \<Rightarrow> None
          | Some ranges \<Rightarrow>
              (let go_parallel = (par \<and> PARALLEL_HASH_THRESHOLD \<le> length es);
                   child_hashes =
                     map (\<lambda>(child, start, end_idx).
                            map_option (Pair child)
                              (merkle_for_node kc (subslice es start end_idx) (node_depth + 1)
                                 go_parallel True)) ranges
               in (case those_options child_hashes of None \<Rightarrow> None
                   | Some hs \<Rightarrow>
                       (case fill_children hs (replicate CHILDREN MERKLE_NULL_NODE) of
                          None \<Rightarrow> None
                        | Some children \<Rightarrow>
                            (let node_hash =
                                   compute_node_merkle kc
                                     (if has_children children then Some children else None)
                                     maybe_value
                             in (case es of [] \<Rightarrow> None
                                 | (first, _) # _ \<Rightarrow>
                                     if length first < node_depth then None
                                     else compute_path_merkle kc
                                            (subslice first depth node_depth) depth
                                            node_hash)))))))"
  by pat_completeness auto
termination
proof (relation "measure (\<lambda>(kc, es, depth, _). Suc (max_key_len es) - depth)", goal_cases)
  case (2 kc es depth par ac common node_depth maybe_value ranges go_parallel t c p s e)
  then show ?case
    using trie_ranges_decrease [of es node_depth ranges c s e] by auto
qed simp

declare merkle_for_node.simps [simp del]

definition root_for_entries :: "(bytes \<Rightarrow> h256) \<Rightarrow> entries \<Rightarrow> h256 option" where
  "root_for_entries kc es =
     (if es = [] then Some MERKLE_NULL_NODE
      else merkle_for_node kc es 0 (PARALLEL_HASH_THRESHOLD \<le> length es) False)"

definition trie_root :: "(bytes \<Rightarrow> h256) \<Rightarrow> (bytes, mpt_value) btree \<Rightarrow> h256 option" where
  "trie_root kc kv =
     (if kv = [] then Some MERKLE_NULL_NODE
      else root_for_entries kc (map (\<lambda>e. (bytes_to_nibbles (fst e), snd e)) kv))"

end
