(* ===== verification/Trie_Spec.thy ===== *)
theory Trie_Spec
  imports Mpt_Trie
begin

text \<open>
  The reference for every trie walk of the sources: the hash of the subtree at a routing
  prefix, by recursion on the prefix over the set of keys below it, as \<open>docs/SPEC.md\<close>
  sections 2.2 to 2.6 give it, with the two hashing primitives as arguments. The walks of
  \<open>Mpt_Trie\<close> and \<open>Mpt_Incremental\<close> are proved to compute it.
\<close>

subsection \<open>Blocks of keys with a common prefix\<close>

definition block :: "(nibbles \<times> 'v) list \<Rightarrow> nibbles \<Rightarrow> (nibbles \<times> 'v) list" where
  "block es p = filter (\<lambda>kv. prefix p (fst kv)) es"

definition nibble_keys :: "(nibbles \<times> 'v) list \<Rightarrow> bool" where
  "nibble_keys es \<longleftrightarrow> (\<forall>kv \<in> set es. \<forall>x \<in> set (fst kv). x < 16)"

lemma set_block: "kv \<in> set (block es p) \<longleftrightarrow> kv \<in> set es \<and> prefix p (fst kv)"
  by (auto simp: block_def)

lemma block_Nil_prefix [simp]: "block es [] = es"
  by (simp add: block_def)

lemma block_Nil [simp]: "block [] p = []"
  by (simp add: block_def)

lemma bt_wf_block [intro, simp]: "bt_wf es \<Longrightarrow> bt_wf (block es p)"
  by (auto simp: block_def)

lemma nibble_keys_block [intro, simp]: "nibble_keys es \<Longrightarrow> nibble_keys (block es p)"
  by (auto simp: nibble_keys_def set_block)

lemma nibble_keys_Nil [simp]: "nibble_keys []"
  by (simp add: nibble_keys_def)

lemma block_block: "prefix p q \<Longrightarrow> block (block es p) q = block es q"
  by (auto simp: block_def intro!: filter_cong dest: prefix_order.trans)

lemma block_max_key_len: "block es q \<noteq> [] \<Longrightarrow> length q \<le> max_key_len es"
  by (metis le_trans list.set_intros(1) max_key_len_ge neq_Nil_conv prefix_length_le set_block)

lemma append_less_cancel [simp]: "(p :: u8 list) @ r < p @ r' \<longleftrightarrow> r < r'"
  by (induction p) auto

lemma prefix_upper_iff:
  "\<forall>x \<in> set k. x < 16 \<Longrightarrow> (rp \<le> k \<and> k < rp @ [16]) \<longleftrightarrow> prefix rp (k :: nibbles)"
proof (induction rp arbitrary: k)
  case Nil
  then show ?case by (cases k) auto
next
  case (Cons a rp)
  then show ?case by (cases k) auto
qed

lemma range_is_block: "nibble_keys es \<Longrightarrow> bt_range es rp (rp @ [16]) = block es rp"
  unfolding bt_range_def block_def
  by (rule filter_cong) (simp_all add: nibble_keys_def prefix_upper_iff)

lemma prefix_between:
  "prefix p a \<Longrightarrow> prefix p b \<Longrightarrow> a \<le> k \<Longrightarrow> k \<le> b \<Longrightarrow> prefix (p :: nibbles) k"
proof (induction p arbitrary: a b k)
  case (Cons x p)
  obtain a' where a: "a = x # a'" "prefix p a'"
    using Cons.prems(1) by (cases a) simp_all
  obtain b' where b: "b = x # b'" "prefix p b'"
    using Cons.prems(2) by (cases b) simp_all
  obtain y k' where k: "k = y # k'"
    using Cons.prems(3) a by (cases k) simp_all
  have "y = x" "a' \<le> k'" "k' \<le> b'"
    using Cons.prems(3,4) unfolding a b k by auto
  then show ?case
    using Cons.IH [of a' b' k'] a b k by simp
qed simp

subsection \<open>The hash of a subtree\<close>

definition node_prefix :: "(nibbles \<times> 'v) list \<Rightarrow> nibbles \<Rightarrow> nibbles" where
  "node_prefix es rp =
     (if rp = [] then [] else Longest_common_prefix (fst ` set (block es rp)))"

lemma node_prefix_extends: "block es rp \<noteq> [] \<Longrightarrow> prefix rp (node_prefix es rp)"
  unfolding node_prefix_def
  by (auto simp: set_block intro!: Longest_common_prefix_max_prefix)

lemma node_prefix_common: "kv \<in> set (block es rp) \<Longrightarrow> prefix (node_prefix es rp) (fst kv)"
  unfolding node_prefix_def by (auto intro: Longest_common_prefix_prefix)

lemma block_node_prefix: "block es rp \<noteq> [] \<Longrightarrow> block es (node_prefix es rp) = block es rp"
  unfolding block_def
  by (rule filter_cong)
    (use node_prefix_common [of _ es rp] node_prefix_extends [of es rp] in
      \<open>auto simp: set_block block_def dest: prefix_order.trans\<close>)

function subtree_hash ::
  "(h256 list \<Rightarrow> bytes option \<Rightarrow> h256) \<Rightarrow> (nibbles \<Rightarrow> nat \<Rightarrow> h256 \<Rightarrow> h256) \<Rightarrow>
   entries \<Rightarrow> nibbles \<Rightarrow> h256" where
  "subtree_hash node path es rp =
     (if block es rp = [] then MERKLE_NULL_NODE
      else
        (let fp = node_prefix es rp;
             children = map (\<lambda>c. if block es (fp @ [of_nat c]) = [] then MERKLE_NULL_NODE
                                 else subtree_hash node path es (fp @ [of_nat c])) [0..<CHILDREN];
             value = map_option merkle_value (bt_get es fp)
         in path (drop (length rp) fp) (length rp) (node children value)))"
  by pat_completeness auto
termination
proof (relation "measure (\<lambda>(_, _, es, rp). Suc (max_key_len es) - length rp)", goal_cases)
  case (2 node path es rp fp c)
  then have "length rp \<le> length fp"
    using node_prefix_extends [of es rp] by (simp add: prefix_length_le)
  with 2 show ?case
    using block_max_key_len [of es "fp @ [of_nat c]"] by simp
qed simp

declare subtree_hash.simps [simp del]

lemma subtree_hash_empty: "block es rp = [] \<Longrightarrow> subtree_hash node path es rp = MERKLE_NULL_NODE"
  by (simp add: subtree_hash.simps)

lemma subtree_hash_step:
  "block es rp \<noteq> [] \<Longrightarrow> fp = node_prefix es rp \<Longrightarrow>
   subtree_hash node path es rp =
     path (drop (length rp) fp) (length rp)
       (node (map (\<lambda>c. subtree_hash node path es (fp @ [of_nat c])) [0..<CHILDREN])
         (map_option merkle_value (bt_get es fp)))"
  by (subst subtree_hash.simps)
    (auto simp: Let_def subtree_hash_empty intro!: arg_cong [where f = "path _ _"]
       arg_cong [where f = "\<lambda>x. node x _"])

text \<open>The value at a node is found among the keys of the node's block.\<close>

lemma bt_get_block: "bt_get (block es p) k = (if prefix p k then bt_get es k else None)"
  by (induction es) (auto simp: block_def)

text \<open>The hash of a subtree depends on the keys below its prefix only.\<close>

lemma subtree_hash_local:
  "block es rp = block es' rp \<Longrightarrow> subtree_hash node path es rp = subtree_hash node path es' rp"
proof (induction node path es rp arbitrary: es' rule: subtree_hash.induct)
  case (1 node path es rp)
  show ?case
  proof (cases "block es rp = []")
    case True
    then show ?thesis using "1.prems" by (simp add: subtree_hash_empty)
  next
    case ne: False
    let ?fp = "node_prefix es rp"
    have fp: "node_prefix es' rp = ?fp" using "1.prems" by (simp add: node_prefix_def)
    have ext: "prefix rp ?fp" using ne by (rule node_prefix_extends)
    have below: "block es q = block es' q" if "prefix ?fp q" for q
      using block_block [of rp q es] block_block [of rp q es'] "1.prems" ext that
      by (metis prefix_order.trans)
    have sub: "subtree_hash node path es (?fp @ [of_nat c]) = subtree_hash node path es' (?fp @ [of_nat c])"
      if "c \<in> set [0..<CHILDREN]" for c
    proof (cases "block es (?fp @ [of_nat c]) = []")
      case True
      then show ?thesis using below [of "?fp @ [of_nat c]"] by (simp add: subtree_hash_empty)
    next
      case False
      show ?thesis
        by (rule "1.IH" [OF ne refl that False]) (simp add: below)
    qed
    have get: "bt_get es ?fp = bt_get es' ?fp"
      using bt_get_block [of es rp ?fp] bt_get_block [of es' rp ?fp] "1.prems" ext by simp
    have kids: "map (\<lambda>c. subtree_hash node path es (?fp @ [of_nat c])) [0..<CHILDREN]
        = map (\<lambda>c. subtree_hash node path es' (?fp @ [of_nat c])) [0..<CHILDREN]"
      by (rule map_cong) (simp_all add: sub)
    have "subtree_hash node path es rp = path (drop (length rp) ?fp) (length rp)
        (node (map (\<lambda>c. subtree_hash node path es (?fp @ [of_nat c])) [0..<CHILDREN])
          (map_option merkle_value (bt_get es ?fp)))"
      by (rule subtree_hash_step [OF ne refl])
    also have "\<dots> = subtree_hash node path es' rp"
      unfolding get kids using ne "1.prems" fp by (intro subtree_hash_step [symmetric]) simp_all
    finally show ?thesis .
  qed
qed

end
