(* ===== verification/Trie_Correct.thy ===== *)
theory Trie_Correct
  imports Trie_Spec
begin

text \<open>
  The stateless walk \<open>merkle_for_node\<close> computes the reference hash and never reaches a
  panic: the partition of sorted entries into children is the partition by blocks, the
  path that all entries share is the longest common prefix, and the value of the node is
  the entry whose key ends there.
\<close>

subsection \<open>Groups of a sorted block\<close>

lemma next_nibble_mono:
  assumes "k < (k' :: nibbles)" "prefix fp k" "prefix fp k'" "length fp < length k"
  shows "length fp < length k' \<and> k ! length fp \<le> k' ! length fp"
proof -
  obtain r r' where r: "k = fp @ r" "k' = fp @ r'" using assms(2,3) by (auto simp: prefix_def)
  with assms(1) have "r < r'" by simp
  moreover obtain x s where "r = x # s" using assms(4) r by (cases r) auto
  ultimately show ?thesis using r by (cases r') (auto simp: nth_append)
qed

definition in_child :: "nat \<Rightarrow> nat \<Rightarrow> nibbles \<times> 'v \<Rightarrow> bool" where
  "in_child d c kv \<longleftrightarrow> d < length (fst kv) \<and> unat (fst kv ! d) = c"

lemma trie_groups_step:
  "d < length key \<Longrightarrow>
   trie_groups d ((key, v) # rest) =
     (unat (key ! d), (key, v) # takeWhile (in_child d (unat (key ! d))) rest)
       # trie_groups d (dropWhile (in_child d (unat (key ! d))) rest)"
  by (simp add: Let_def in_child_def [abs_def] dropWhile_eq_drop)

text \<open>In a sorted block the entries of one child are contiguous.\<close>

lemma run_is_filter:
  assumes "bt_wf ((key, v) # rest)" "\<forall>kv \<in> set ((key, v) # rest). prefix fp (fst kv)"
    and "length fp < length key" "c = unat (key ! length fp)"
  shows "takeWhile (in_child (length fp) c) rest = filter (in_child (length fp) c) rest"
proof -
  have "\<And>lo. \<lbrakk>bt_wf rest; \<forall>kv \<in> set rest. prefix fp (fst kv) \<and> lo < fst kv;
          prefix fp lo; length fp < length lo; unat (lo ! length fp) \<ge> c\<rbrakk>
        \<Longrightarrow> takeWhile (in_child (length fp) c) rest = filter (in_child (length fp) c) rest"
  proof (induction rest)
    case (Cons kv rest)
    obtain k w where kv: "kv = (k, w)" by (cases kv)
    have nib: "length fp < length k" "lo ! length fp \<le> k ! length fp"
      using next_nibble_mono [of lo k fp] Cons.prems by (auto simp: kv)
    then have ge: "c \<le> unat (k ! length fp)"
      using Cons.prems(5) by (simp add: word_le_nat_alt)
    have IH: "takeWhile (in_child (length fp) c) rest = filter (in_child (length fp) c) rest"
      by (rule Cons.IH [of k]) (use Cons.prems nib ge in \<open>auto simp: kv bt_wf_Cons\<close>)
    show ?case
    proof (cases "in_child (length fp) c kv")
      case True
      with IH show ?thesis by simp
    next
      case False
      with nib ge have gt: "c < unat (k ! length fp)" by (auto simp: kv in_child_def)
      have "\<not> in_child (length fp) c kv'" if "kv' \<in> set rest" for kv'
      proof -
        have "k ! length fp \<le> fst kv' ! length fp"
          using next_nibble_mono [of k "fst kv'" fp] Cons.prems nib that
          by (auto simp: kv bt_wf_Cons)
        with gt show ?thesis by (auto simp: in_child_def word_le_nat_alt)
      qed
      with False show ?thesis by (simp add: filter_False)
    qed
  qed simp
  from this [of key] assms show ?thesis by (auto simp: bt_wf_Cons)
qed

lemma filter_dropWhile_other:
  "(\<And>x. x \<in> set xs \<Longrightarrow> P x \<Longrightarrow> \<not> Q x) \<Longrightarrow> filter Q (dropWhile P xs) = filter Q xs"
  by (induction xs) auto

lemma filter_dropWhile_same: "takeWhile P xs = filter P xs \<Longrightarrow> filter P (dropWhile P xs) = []"
  by (induction xs) (auto split: if_splits)

lemma bt_wf_dropWhile [intro]: "bt_wf m \<Longrightarrow> bt_wf (dropWhile P m)"
  by (induction m) (auto simp: bt_wf_Cons)

lemma trie_groups_filter:
  assumes "bt_wf es" "\<forall>kv \<in> set es. prefix fp (fst kv)"
  shows "(c, g) \<in> set (trie_groups (length fp) es)
           \<longleftrightarrow> g \<noteq> [] \<and> g = filter (in_child (length fp) c) es"
    and "distinct (map fst (trie_groups (length fp) es))"
proof -
  have "((c, g) \<in> set (trie_groups d es) \<longleftrightarrow> g \<noteq> [] \<and> g = filter (in_child d c) es)
        \<and> distinct (map fst (trie_groups d es))" if "d = length fp" for d c g
    using assms that
  proof (induction d es arbitrary: c g rule: trie_groups.induct)
    case (2 d key v rest)
    have rest: "bt_wf rest" "\<forall>kv \<in> set rest. prefix fp (fst kv)"
      using "2.prems" by (auto simp: bt_wf_Cons)
    show ?case
    proof (cases "length key \<le> d")
      case True
      then have "\<not> in_child d c (key, v)" for c by (simp add: in_child_def)
      with True "2.IH"(1) [OF True rest "2.prems"(3)] show ?thesis by simp
    next
      case False
      define c0 where "c0 = unat (key ! d)"
      let ?run = "takeWhile (in_child d c0) rest"
      let ?tl = "dropWhile (in_child d c0) rest"
      have tl: "drop (length ?run) rest = ?tl" by (simp add: dropWhile_eq_drop)
      have lam: "(\<lambda>kv. d < length (fst kv) \<and> unat (fst kv ! d) = c0) = in_child d c0"
        by (simp add: in_child_def fun_eq_iff)
      have wf: "bt_wf ?tl" "\<forall>kv \<in> set ?tl. prefix fp (fst kv)"
        using rest by (auto dest: set_dropWhileD)
      have IH: "((c, g) \<in> set (trie_groups d ?tl) \<longleftrightarrow> g \<noteq> [] \<and> g = filter (in_child d c) ?tl)
                \<and> distinct (map fst (trie_groups d ?tl))" for c g
        by (rule "2.IH"(2) [OF False c0_def refl, unfolded lam tl, OF wf "2.prems"(3)])
      have run: "?run = filter (in_child d c0) rest"
        using run_is_filter [OF "2.prems"(1,2), of c0] False "2.prems"(3) by (simp add: c0_def)
      have c0: "filter (in_child d c0) ?tl = []"
        by (rule filter_dropWhile_same [OF run])
      have other: "filter (in_child d c) ?tl = filter (in_child d c) rest" if "c \<noteq> c0" for c
        by (rule filter_dropWhile_other) (use that in \<open>auto simp: in_child_def\<close>)
      have hd: "in_child d c (key, v) \<longleftrightarrow> c = c0" for c
        using False by (auto simp: in_child_def c0_def)
      have g: "trie_groups d ((key, v) # rest) = (c0, (key, v) # ?run) # trie_groups d ?tl"
        using False trie_groups_step [of d key v rest] by (simp add: c0_def)
      have "c0 \<notin> fst ` set (trie_groups d ?tl)"
        using IH c0 by fastforce
      then show ?thesis
        unfolding g using IH [of c g] other [of c] c0 run
        by (cases "c = c0") (auto simp: hd simp del: trie_groups.simps)
    qed
  qed simp
  from this [OF refl] show "(c, g) \<in> set (trie_groups (length fp) es)
           \<longleftrightarrow> g \<noteq> [] \<and> g = filter (in_child (length fp) c) es"
    "distinct (map fst (trie_groups (length fp) es))" by auto
qed

lemma prefix_nth: "prefix p k \<Longrightarrow> i < length p \<Longrightarrow> k ! i = p ! i \<and> i < length k"
  by (auto simp: prefix_def nth_append)

lemma u8_eq_of_nat: "c < 256 \<Longrightarrow> unat (x :: u8) = c \<longleftrightarrow> x = of_nat c"
  using unat_of_nat_u8 [of c] by auto

lemma child_block:
  assumes "\<forall>kv \<in> set (block es rp). prefix fp (fst kv)" "prefix rp fp" "c < 256"
  shows "filter (in_child (length fp) c) (block es rp) = block es (fp @ [of_nat c])"
proof -
  have "filter (in_child (length fp) c) (block es rp)
      = filter (\<lambda>kv. prefix (fp @ [of_nat c]) (fst kv)) (block es rp)"
    by (rule filter_cong) (use assms in \<open>auto simp: in_child_def prefix_snoc_iff u8_eq_of_nat\<close>)
  also have "\<dots> = block es (fp @ [of_nat c])"
    using block_block [of rp "fp @ [of_nat c]" es] assms(2)
    by (simp add: block_def prefix_def) (metis append_assoc)
  finally show ?thesis .
qed

lemma trie_ranges_total:
  "\<forall>kv \<in> set es. d \<le> length (fst kv) \<Longrightarrow> \<exists>rs. trie_ranges start es d = Some rs"
proof (induction start es d rule: trie_ranges.induct)
  case (2 start key v rest d)
  show ?case
  proof (cases "length key = d")
    case True
    with 2 show ?thesis by simp
  next
    case False
    let ?run = "takeWhile (\<lambda>kv. d < length (fst kv) \<and> unat (fst kv ! d) = unat (key ! d)) rest"
    have "\<forall>kv \<in> set (drop (length ?run) rest). d \<le> length (fst kv)"
      using "2.prems" by (auto dest: in_set_dropD)
    with False "2.prems" "2.IH"(2) [OF False _ refl refl refl] show ?thesis
      by (auto simp: Let_def)
  qed
qed simp

lemma fill_children_get:
  "\<lbrakk>\<forall>ch \<in> set hs. fst ch < length slots; distinct (map fst hs)\<rbrakk> \<Longrightarrow>
   fill_children hs slots =
     Some (map (\<lambda>c. case map_of hs c of Some h \<Rightarrow> h | None \<Rightarrow> slots ! c) [0..<length slots])"
proof (induction hs arbitrary: slots)
  case Nil
  then show ?case by (simp add: map_nth)
next
  case (Cons ch hs)
  obtain c h where ch: "ch = (c, h)" by (cases ch)
  have n: "map_of hs c = None"
    using Cons.prems(2) by (auto simp: ch map_of_eq_None_iff)
  have "fill_children hs (slots[c := h]) =
      Some (map (\<lambda>i. case map_of hs i of Some h \<Rightarrow> h | None \<Rightarrow> slots[c := h] ! i) [0..<length slots])"
    using Cons.IH [of "slots[c := h]"] Cons.prems by simp
  then show ?case
    using Cons.prems n by (auto simp: ch split: option.split)
qed

lemma find_fst: "map_option f (find (\<lambda>kv. fst kv = k) m) = map_option (\<lambda>v. f (k, v)) (bt_get m k)"
  by (induction m) auto

lemma find_cong_set: "(\<And>x. x \<in> set xs \<Longrightarrow> P x = Q x) \<Longrightarrow> find P xs = find Q xs"
  by (induction xs) auto

text \<open>The entry that ends at the node is the one at the node's full prefix.\<close>

lemma node_value_found:
  assumes "\<forall>kv \<in> set (block es rp). prefix fp (fst kv)" "prefix rp fp"
  shows "map_option (\<lambda>kv. merkle_value (snd kv)) (find (\<lambda>kv. length (fst kv) = length fp) (block es rp))
       = map_option merkle_value (bt_get es fp)"
proof -
  have "find (\<lambda>kv. length (fst kv) = length fp) (block es rp) = find (\<lambda>kv. fst kv = fp) (block es rp)"
    by (rule find_cong_set) (use assms(1) in \<open>auto simp: prefix_def\<close>)
  then show ?thesis
    by (simp add: find_fst bt_get_block assms(2))
qed

text \<open>The shared nibbles counted by \<open>trie.rs\<close> reach to the longest common prefix.\<close>

lemma entries_common_prefix_len_LCP:
  assumes ne: "es \<noteq> []" and rp: "\<forall>kv \<in> set es. prefix rp (fst kv)"
  shows "length rp + entries_common_prefix_len es (length rp)
       = length (Longest_common_prefix (fst ` set es))"
proof -
  obtain first v rest where es: "es = (first, v) # rest" using ne by (cases es) auto
  define Q where "Q idx = list_all (\<lambda>kv. get_nth (fst kv) idx = Some (first ! idx)) rest" for idx
  define n where "n = length (takeWhile Q [length rp..<length first])"
  have le: "length rp \<le> length first" using rp by (auto simp: es prefix_length_le)
  have ecl: "entries_common_prefix_len es (length rp) = n"
    using le by (simp add: entries_common_prefix_len_def es n_def Q_def [abs_def])
  have n_le: "length rp + n \<le> length first"
    using length_takeWhile_le [of Q "[length rp..<length first]"] le by (simp add: n_def)
  have Q: "Q idx" if "length rp \<le> idx" "idx < length rp + n" for idx
  proof -
    have "takeWhile Q [length rp..<length first] ! (idx - length rp) = idx"
      using that n_le by (subst takeWhile_nth) (simp_all add: n_def)
    then have "idx \<in> set (takeWhile Q [length rp..<length first])"
      using that by (metis add_diff_inverse_nat n_def nat_add_left_cancel_less not_le nth_mem)
    then show ?thesis by (rule set_takeWhileD [THEN conjunct2])
  qed
  have "Longest_common_prefix (fst ` set es) = take (length rp + n) first"
  proof (rule Longest_common_prefix_eq)
    show "fst ` set es \<noteq> {}" by (simp add: es)
    show "\<forall>xs \<in> fst ` set es. prefix (take (length rp + n) first) xs"
    proof
      fix k assume "k \<in> fst ` set es"
      then consider "k = first" | kv where "kv \<in> set rest" "k = fst kv" by (auto simp: es)
      then show "prefix (take (length rp + n) first) k"
      proof cases
        case 2
        then have r: "prefix rp k" "prefix rp first" using rp by (auto simp: es)
        have nth: "idx < length k \<and> k ! idx = first ! idx" if "length rp \<le> idx" "idx < length rp + n" for idx
          using Q [OF that] 2 by (auto simp: Q_def list_all_iff get_nth_def split: if_splits)
        have len: "length rp + n \<le> length k"
          using nth [of "length rp + n - 1"] prefix_length_le [OF r(1)] by (cases n) auto
        have "take (length rp + n) first = take (length rp + n) k"
        proof (rule nth_equalityI)
          fix i assume i: "i < length (take (length rp + n) first)"
          show "take (length rp + n) first ! i = take (length rp + n) k ! i"
          proof (cases "i < length rp")
            case True
            then show ?thesis using prefix_nth [OF r(1) True] prefix_nth [OF r(2) True] by simp
          next
            case False
            then show ?thesis using nth [of i] i by simp
          qed
        qed (use len n_le in simp)
        then show ?thesis by (simp add: take_is_prefix)
      qed (simp add: take_is_prefix)
    qed
    show "\<forall>qs. (\<forall>xs \<in> fst ` set es. prefix qs xs) \<longrightarrow> length qs \<le> length (take (length rp + n) first)"
    proof (intro allI impI, rule ccontr)
      fix qs assume qs: "\<forall>xs \<in> fst ` set es. prefix qs xs"
        and "\<not> length qs \<le> length (take (length rp + n) first)"
      then have gt: "length rp + n < length qs" using n_le by simp
      have qf: "prefix qs first" using qs by (simp add: es)
      have "Q (length rp + n)"
        unfolding Q_def list_all_iff get_nth_def
      proof
        fix kv assume "kv \<in> set rest"
        then have "prefix qs (fst kv)" using qs by (auto simp: es)
        from prefix_nth [OF this gt] prefix_nth [OF qf gt]
        show "(if length rp + n < length (fst kv) then Some (fst kv ! (length rp + n)) else None)
            = Some (first ! (length rp + n))"
          by simp
      qed
      moreover have lt: "length rp + n < length first"
        using gt prefix_length_le [OF qf] by simp
      ultimately show False
        using nth_length_takeWhile [of Q "[length rp..<length first]"]
        by (simp add: n_def less_diff_conv add.commute)
    qed
  qed
  then show ?thesis using n_le by (simp add: ecl)
qed

subsection \<open>The walk computes the reference hash\<close>

abbreviation code_node :: "(bytes \<Rightarrow> h256) \<Rightarrow> h256 list \<Rightarrow> bytes option \<Rightarrow> h256" where
  "code_node kc children value \<equiv> compute_node_merkle kc (Some children) value"

definition code_path :: "(bytes \<Rightarrow> h256) \<Rightarrow> nibbles \<Rightarrow> nat \<Rightarrow> h256 \<Rightarrow> h256" where
  "code_path kc p d h = the (compute_path_merkle kc p d h)"

abbreviation code_subtree :: "(bytes \<Rightarrow> h256) \<Rightarrow> entries \<Rightarrow> nibbles \<Rightarrow> h256" where
  "code_subtree kc \<equiv> subtree_hash (code_node kc) (code_path kc)"

lemma compute_path_merkle_total [simp]:
  "compute_path_merkle kc p d h = Some (code_path kc p d h)"
  by (cases p) (auto simp: code_path_def compute_path_merkle_def compress_nibbles_def)

text \<open>An array of 16 null children is hashed as no children are.\<close>

lemma node_merkle_has_children [simp]:
  "length children = CHILDREN \<Longrightarrow>
   compute_node_merkle kc (if has_children children then Some children else None) value
     = code_node kc children value"
proof (cases "has_children children")
  case False
  assume "length children = CHILDREN"
  with False have "children = replicate CHILDREN MERKLE_NULL_NODE"
    by (auto simp: has_children_def list_ex_iff intro!: replicate_eqI)
  with False show ?thesis by (simp add: compute_node_merkle_def)
qed simp

lemma fill_from_blocks:
  assumes "\<forall>c < CHILDREN. map_of hs c = (if block es (fp @ [of_nat c]) = [] then None
              else Some (f (fp @ [of_nat c])))"
    and "\<forall>ch \<in> set hs. fst ch < CHILDREN" "distinct (map fst hs)"
    and "\<And>q. block es q = [] \<Longrightarrow> f q = MERKLE_NULL_NODE"
  shows "fill_children hs (replicate CHILDREN MERKLE_NULL_NODE)
       = Some (map (\<lambda>c. f (fp @ [of_nat c])) [0..<CHILDREN])"
  using assms by (subst fill_children_get) (auto split: option.split)

text \<open>
  The partition of a node's block: each range is the block of one child, and filling the
  16 slots with a function of the children's prefixes gives it at every child, a missing
  child being the null hash.
\<close>

lemma ranges_children:
  assumes wf: "bt_wf es" and nk: "nibble_keys es" and ne: "block es rp \<noteq> []"
    and fp: "fp = node_prefix es rp"
  obtains rs where "trie_ranges 0 (block es rp) (length fp) = Some rs"
    and "\<forall>c s e. (c, s, e) \<in> set rs \<longrightarrow>
      c < CHILDREN \<and> subslice (block es rp) s e = block es (fp @ [of_nat c])
      \<and> block es (fp @ [of_nat c]) \<noteq> []"
    and "fill_children (map (\<lambda>(c, s, e). (c, code_subtree kc es (fp @ [of_nat c]))) rs)
           (replicate CHILDREN MERKLE_NULL_NODE)
         = Some (map (\<lambda>c. code_subtree kc es (fp @ [of_nat c])) [0..<CHILDREN])"
proof -
  define B where "B = block es rp"
  have wfB: "bt_wf B" using wf by (simp add: B_def)
  have ext: "prefix rp fp" unfolding fp by (rule node_prefix_extends [OF ne])
  have all: "\<forall>kv \<in> set B. prefix fp (fst kv)"
    by (simp add: B_def fp node_prefix_common)
  obtain rs where rs: "trie_ranges 0 B (length fp) = Some rs"
    using trie_ranges_total [of B "length fp" 0] all by (auto simp: prefix_length_le)
  have groups: "map (\<lambda>(c, s, e). (c, subslice B s e)) rs = trie_groups (length fp) B"
    using trie_ranges_groups [of "[]" B "length fp" rs] rs by simp
  have child: "c < CHILDREN \<and> subslice B s e = block es (fp @ [of_nat c])
      \<and> block es (fp @ [of_nat c]) \<noteq> []"
    if "(c, s, e) \<in> set rs" for c s e
  proof -
    have g: "(c, subslice B s e) \<in> set (trie_groups (length fp) B)"
      using that by (force simp flip: groups)
    from trie_groups_filter(1) [OF wfB all] g
    have f: "subslice B s e \<noteq> []" "subslice B s e = filter (in_child (length fp) c) B" by auto
    then obtain kv where kv: "kv \<in> set B" "in_child (length fp) c kv"
      by (metis filter_empty_conv)
    with nk have c: "c < 16"
      by (auto simp: in_child_def B_def set_block nibble_keys_def word_less_nat_alt)
    then show ?thesis
      using f child_block [of es rp fp c] all ext by (simp add: B_def CHILDREN_def)
  qed
  have present: "\<exists>s e. (c, s, e) \<in> set rs"
    if "c < CHILDREN" "block es (fp @ [of_nat c]) \<noteq> []" for c
  proof -
    have "filter (in_child (length fp) c) B \<noteq> []"
      using that child_block [of es rp fp c] all ext by (simp add: B_def CHILDREN_def)
    then have "(c, filter (in_child (length fp) c) B) \<in> set (trie_groups (length fp) B)"
      using trie_groups_filter(1) [OF wfB all] by simp
    then show ?thesis unfolding groups [symmetric] by auto
  qed
  have dist: "distinct (map fst rs)"
    using trie_groups_filter(2) [OF wfB all]
    by (simp add: comp_def case_prod_beta flip: groups)
  let ?f = "\<lambda>q. code_subtree kc es q"
  let ?hs = "map (\<lambda>(c, s, e). (c, ?f (fp @ [of_nat c]))) rs"
  have "fill_children ?hs (replicate CHILDREN MERKLE_NULL_NODE)
      = Some (map (\<lambda>c. ?f (fp @ [of_nat c])) [0..<CHILDREN])"
  proof (rule fill_from_blocks)
    show d: "distinct (map fst ?hs)" using dist by (simp add: comp_def case_prod_beta)
    show "\<forall>ch \<in> set ?hs. fst ch < CHILDREN" using child by auto
    show "\<forall>c < CHILDREN. map_of ?hs c = (if block es (fp @ [of_nat c]) = [] then None
              else Some (?f (fp @ [of_nat c])))"
    proof (intro allI impI)
      fix c assume c: "c < CHILDREN"
      show "map_of ?hs c = (if block es (fp @ [of_nat c]) = [] then None
              else Some (?f (fp @ [of_nat c])))"
      proof (cases "block es (fp @ [of_nat c]) = []")
        case True
        then show ?thesis using child by (force simp: map_of_eq_None_iff)
      next
        case False
        with present [OF c] have "(c, ?f (fp @ [of_nat c])) \<in> set ?hs" by force
        then show ?thesis using d False by (simp only: map_of_is_SomeI if_False)
      qed
    qed
  qed (rule subtree_hash_empty)
  then show thesis using rs child unfolding B_def by (intro that) auto
qed

lemma node_hash_is_subtree:
  assumes "block es rp \<noteq> []" "fp = node_prefix es rp"
  shows "compute_path_merkle kc (drop (length rp) fp) (length rp)
           (compute_node_merkle kc
              (if has_children (map (\<lambda>c. code_subtree kc es (fp @ [of_nat c])) [0..<CHILDREN])
               then Some (map (\<lambda>c. code_subtree kc es (fp @ [of_nat c])) [0..<CHILDREN]) else None)
              (map_option merkle_value (bt_get es fp)))
         = Some (code_subtree kc es rp)"
  using subtree_hash_step [OF assms] by (subst node_merkle_has_children) simp_all

text \<open>The first key of a block spells the node's prefix.\<close>

lemma block_first_key:
  assumes "block es rp \<noteq> []" "fp = node_prefix es rp"
  shows "length fp \<le> length (fst (hd (block es rp)))"
    "take (length fp) (fst (hd (block es rp))) = fp"
    "subslice (fst (hd (block es rp))) (length rp) (length fp) = drop (length rp) fp"
proof -
  have hd: "prefix fp (fst (hd (block es rp)))"
    unfolding assms(2) by (rule node_prefix_common [of _ es rp]) (use assms in simp)
  have ext: "prefix rp fp" unfolding assms(2) by (rule node_prefix_extends [OF assms(1)])
  show "length fp \<le> length (fst (hd (block es rp)))" by (rule prefix_length_le [OF hd])
  show "take (length fp) (fst (hd (block es rp))) = fp" using hd by (simp add: prefix_iff_take)
  show "subslice (fst (hd (block es rp))) (length rp) (length fp) = drop (length rp) fp"
    using hd ext by (auto simp: subslice_def prefix_def)
qed

lemma block_value:
  assumes "block es rp \<noteq> []" "fp = node_prefix es rp"
  shows "map_option (\<lambda>kv. merkle_value (snd kv)) (find (\<lambda>kv. length (fst kv) = length fp) (block es rp))
      = map_option merkle_value (bt_get es fp)"
  using node_value_found [of es rp fp] assms node_prefix_common [of _ es rp]
    node_prefix_extends [of es rp] by simp

lemma case_first_key:
  "xs \<noteq> [] \<Longrightarrow> (case xs of [] \<Rightarrow> a | (k, v) # rest \<Rightarrow> g k) = g (fst (hd xs))"
  by (cases xs) auto

lemma merkle_for_node_correct:
  "\<lbrakk>bt_wf es; nibble_keys es; block es rp \<noteq> []; ac \<longleftrightarrow> rp \<noteq> []\<rbrakk> \<Longrightarrow>
   merkle_for_node kc (block es rp) (length rp) par ac = Some (code_subtree kc es rp)"
proof (induction "code_node kc" "code_path kc" es rp arbitrary: par ac rule: subtree_hash.induct)
  case (1 es rp)
  note ne = "1.prems"(3)
  define fp where "fp = node_prefix es rp"
  let ?B = "block es rp" and ?f = "\<lambda>q. code_subtree kc es q"
  have depth: "length rp + (if ac then entries_common_prefix_len ?B (length rp) else 0) = length fp"
    using entries_common_prefix_len_LCP [of ?B rp] ne "1.prems"(4)
    by (auto simp: fp_def node_prefix_def set_block)
  obtain rs where rs: "trie_ranges 0 ?B (length fp) = Some rs"
    and child: "\<forall>c s e. (c, s, e) \<in> set rs \<longrightarrow> c < CHILDREN
      \<and> subslice ?B s e = block es (fp @ [of_nat c]) \<and> block es (fp @ [of_nat c]) \<noteq> []"
    and fill: "fill_children (map (\<lambda>(c, s, e). (c, ?f (fp @ [of_nat c]))) rs)
        (replicate CHILDREN MERKLE_NULL_NODE)
      = Some (map (\<lambda>c. ?f (fp @ [of_nat c])) [0..<CHILDREN])"
    by (rule ranges_children [OF "1.prems"(1-3) fp_def, of kc])
  let ?go = "par \<and> PARALLEL_HASH_THRESHOLD \<le> length ?B"
  have IH: "merkle_for_node kc (subslice ?B s e) (Suc (length fp)) ?go True = Some (?f (fp @ [of_nat c]))"
    if "(c, s, e) \<in> set rs" for c s e
  proof -
    from child that have c: "c < CHILDREN"
      and sl: "subslice ?B s e = block es (fp @ [of_nat c])"
      and bne: "block es (fp @ [of_nat c]) \<noteq> []" by auto
    have "merkle_for_node kc (block es (fp @ [of_nat c])) (length (fp @ [of_nat c])) ?go True
        = Some (?f (fp @ [of_nat c]))"
      by (rule "1.hyps" [OF ne fp_def _ bne "1.prems"(1,2) bne]) (use c in simp_all)
    then show ?thesis by (simp only: sl) simp
  qed
  have hs: "those_options (map (\<lambda>(child, start, end_idx).
        map_option (Pair child)
          (merkle_for_node kc (subslice ?B start end_idx) (Suc (length fp)) ?go True)) rs)
      = Some (map (\<lambda>(c, s, e). (c, ?f (fp @ [of_nat c]))) rs)"
    by (rule those_options_map) (auto simp: IH)
  note key = block_first_key [OF ne fp_def]
  have len: "\<not> length (fst (hd ?B)) < length fp" using key(1) by simp
  show ?case
    by (subst merkle_for_node.simps)
      (simp only: Let_def depth rs hs fill block_value [OF ne fp_def] option.case
        Suc_eq_plus1 [symmetric] case_first_key [OF ne] len key(3) if_False
        node_hash_is_subtree [OF ne fp_def])
qed

lemma root_for_entries_correct:
  "bt_wf es \<Longrightarrow> nibble_keys es \<Longrightarrow> root_for_entries kc es = Some (code_subtree kc es [])"
  using merkle_for_node_correct [of es "[]" False kc "PARALLEL_HASH_THRESHOLD \<le> length es"]
  by (simp add: root_for_entries_def subtree_hash_empty split: if_split)

end
