(* ===== verification/Nibbles.thy ===== *)
theory Nibbles
  imports Trie_Correct
begin

text \<open>
  Keys as nibbles: the conversion is injective, keeps the order of the keys and their
  prefixes, and \<open>nibbles_to_bytes\<close> (\<open>incremental.rs\<close>) undoes it. The stateless root of a
  byte-keyed map is the reference hash at the empty prefix of its nibble-keyed entries.
\<close>

fun nibbles_to_bytes :: "nibbles \<Rightarrow> bytes" where
  "nibbles_to_bytes (hi # lo # rest) = (push_bit 4 hi OR lo) # nibbles_to_bytes rest"
| "nibbles_to_bytes _ = []"

lemma bytes_to_nibbles_simps [simp]:
  "bytes_to_nibbles [] = []"
  "bytes_to_nibbles (b # bs) = drop_bit 4 b # (b AND 0x0f) # bytes_to_nibbles bs"
  by (simp_all add: bytes_to_nibbles_def)

lemma bytes_to_nibbles_append: "bytes_to_nibbles (a @ b) = bytes_to_nibbles a @ bytes_to_nibbles b"
  by (induction a) auto

lemma length_bytes_to_nibbles [simp]: "length (bytes_to_nibbles bs) = 2 * length bs"
  by (induction bs) auto

lemma unat_high: "unat (drop_bit 4 (b :: u8)) = unat b div 16"
  by (simp add: drop_bit_eq_div unat_div_distrib)

lemma low_nibble_take_bit: "(b :: u8) AND 0x0f = take_bit 4 b"
  by (simp add: take_bit_eq_mask mask_eq_exp_minus_1)

lemma unat_low: "unat ((b :: u8) AND 0x0f) = unat b mod 16"
  by (simp only: low_nibble_take_bit unsigned_take_bit_eq) (simp add: take_bit_eq_mod)

lemma byte_of_halves: "push_bit 4 (drop_bit 4 (b :: u8)) OR (b AND 0x0f) = b"
  unfolding low_nibble_take_bit
  by (rule bit_eqI) (auto simp: bit_simps)

lemma nibble_lt_16: "x \<in> set (bytes_to_nibbles bs) \<Longrightarrow> x < 16"
proof (induction bs)
  case (Cons b bs)
  have "unat b div 16 < 16" using unat_u8_less [of b] by linarith
  with Cons show ?case by (auto simp: word_less_nat_alt unat_high unat_low)
qed simp

lemma byte_less_iff:
  "(a :: u8) < b \<longleftrightarrow> drop_bit 4 a < drop_bit 4 b
     \<or> drop_bit 4 a = drop_bit 4 b \<and> (a AND 0x0f) < (b AND 0x0f)"
proof -
  have "unat a = 16 * (unat a div 16) + unat a mod 16" "unat b = 16 * (unat b div 16) + unat b mod 16"
    by simp_all
  moreover have "unat a mod 16 < 16" "unat b mod 16 < 16" by simp_all
  ultimately have "unat a < unat b \<longleftrightarrow> unat a div 16 < unat b div 16
      \<or> unat a div 16 = unat b div 16 \<and> unat a mod 16 < unat b mod 16"
    by linarith
  then show ?thesis
    by (simp add: word_less_nat_alt word_unat_eq_iff unat_high unat_low)
qed

lemma nibbles_to_bytes_inverse [simp]: "nibbles_to_bytes (bytes_to_nibbles bs) = bs"
  by (induction bs) (simp_all add: byte_of_halves)

lemma bytes_to_nibbles_inj [simp]: "bytes_to_nibbles a = bytes_to_nibbles b \<longleftrightarrow> a = b"
  by (metis nibbles_to_bytes_inverse)

lemma bytes_to_nibbles_less [simp]: "bytes_to_nibbles a < bytes_to_nibbles b \<longleftrightarrow> a < b"
proof (induction a arbitrary: b)
  case Nil
  then show ?case by (cases b) auto
next
  case (Cons x a)
  show ?case
  proof (cases b)
    case (Cons y b')
    have "x = y \<longleftrightarrow> drop_bit 4 x = drop_bit 4 y \<and> (x AND 0x0f) = (y AND 0x0f)"
      by (metis byte_of_halves)
    then show ?thesis using Cons.IH [of b'] by (auto simp: Cons byte_less_iff [of x y])
  qed simp
qed

lemma prefix_nibbles [simp]: "prefix (bytes_to_nibbles p) (bytes_to_nibbles k) \<longleftrightarrow> prefix p k"
proof (induction p arbitrary: k)
  case (Cons x p)
  show ?case
  proof (cases k)
    case (Cons y k')
    have "x = y \<longleftrightarrow> drop_bit 4 x = drop_bit 4 y \<and> (x AND 0x0f) = (y AND 0x0f)"
      by (metis byte_of_halves)
    then show ?thesis using Cons.IH [of k'] by (auto simp: Cons)
  qed simp
qed simp

subsection \<open>Byte-keyed maps as nibble-keyed entries\<close>

definition nibble_entries :: "(bytes, 'v) btree \<Rightarrow> (nibbles, 'v) btree" where
  "nibble_entries kv = map (\<lambda>e. (bytes_to_nibbles (fst e), snd e)) kv"

definition byte_entries :: "(nibbles, 'v) btree \<Rightarrow> (bytes, 'v) btree" where
  "byte_entries es = map (\<lambda>e. (nibbles_to_bytes (fst e), snd e)) es"

definition byte_aligned :: "(nibbles, 'v) btree \<Rightarrow> bool" where
  "byte_aligned es \<longleftrightarrow> (\<forall>kv \<in> set es. \<exists>b. fst kv = bytes_to_nibbles b)"

lemma nibble_entries_wf [simp]: "bt_wf (nibble_entries kv) \<longleftrightarrow> bt_wf kv"
  by (simp add: bt_wf_def nibble_entries_def comp_def sorted_wrt_map)

lemma nibble_entries_keys [simp]: "nibble_keys (nibble_entries kv)"
  by (auto simp: nibble_keys_def nibble_entries_def dest: nibble_lt_16)

lemma nibble_entries_aligned [simp]: "byte_aligned (nibble_entries kv)"
  by (auto simp: byte_aligned_def nibble_entries_def)

lemma byte_entries_nibble_entries [simp]: "byte_entries (nibble_entries kv) = kv"
  by (simp add: byte_entries_def nibble_entries_def comp_def)

lemma nibble_entries_byte_entries [simp]:
  "byte_aligned es \<Longrightarrow> nibble_entries (byte_entries es) = es"
  by (induction es) (auto simp: byte_aligned_def byte_entries_def nibble_entries_def)

lemma byte_aligned_nibble_keys: "byte_aligned es \<Longrightarrow> nibble_keys es"
  by (metis nibble_entries_byte_entries nibble_entries_keys)

lemma byte_entries_wf: "byte_aligned es \<Longrightarrow> bt_wf (byte_entries es) \<longleftrightarrow> bt_wf es"
  by (metis nibble_entries_byte_entries nibble_entries_wf)

lemma bt_get_nibble_entries [simp]:
  "bt_get (nibble_entries kv) (bytes_to_nibbles k) = bt_get kv k"
  by (induction kv) (auto simp: nibble_entries_def)

lemma bt_get_byte_entries:
  "byte_aligned es \<Longrightarrow> bt_get (byte_entries es) k = bt_get es (bytes_to_nibbles k)"
  by (metis bt_get_nibble_entries nibble_entries_byte_entries)

lemma nibble_entries_insert:
  "nibble_entries (bt_insert k v kv) = bt_insert (bytes_to_nibbles k) v (nibble_entries kv)"
  by (induction kv) (auto simp: nibble_entries_def)

lemma nibble_entries_remove:
  "nibble_entries (bt_remove k kv) = bt_remove (bytes_to_nibbles k) (nibble_entries kv)"
  by (induction kv) (auto simp: nibble_entries_def)

lemma trie_root_correct:
  "bt_wf kv \<Longrightarrow> trie_root kc kv = Some (code_subtree kc (nibble_entries kv) [])"
proof (cases "kv = []")
  case True
  then show ?thesis by (simp add: trie_root_def nibble_entries_def subtree_hash_empty)
next
  case False
  assume "bt_wf kv"
  then show ?thesis
    using False root_for_entries_correct [of "nibble_entries kv" kc]
    by (simp add: trie_root_def) (simp add: nibble_entries_def)
qed

end
