(* ===== verification/Mpt_Incremental.thy ===== *)
theory Mpt_Incremental
  imports Nibbles
begin

text \<open>
  \<open>crates/minimal-mpt/src/incremental.rs\<close>: the trie that keeps the hashes of the subtrees
  between two roots. A write marks its key as dirty, the next root evicts every prefix of
  the dirty keys and walks the rest with the cache. As in \<open>Mpt_Trie\<close>, \<open>None\<close> stands for
  a panic of the walk. The hash map \<open>Cache\<close> is a \<open>btree\<close>: its order is never observed.
\<close>

definition PARALLEL_REBUILD_THRESHOLD :: nat where
  "PARALLEL_REBUILD_THRESHOLD = 4096"

definition PARALLEL_REBUILD_DEPTH :: nat where
  "PARALLEL_REBUILD_DEPTH = 3"

type_synonym cache = "(nibbles, h256) btree"

datatype cache_policy = Full | SkipSingleton

record incremental_trie =
  it_entries :: "(nibbles, mpt_value) btree"
  it_cache :: cache
  it_dirty :: "(nibbles, unit) btree"

definition prefix_upper :: "nibbles \<Rightarrow> nibbles" where
  "prefix_upper rp = rp @ [of_nat CHILDREN]"

text \<open>\<open>zip\<close>, \<open>skip\<close>, \<open>take_while\<close>, \<open>count\<close>.\<close>

definition common_prefix_len :: "nibbles \<Rightarrow> nibbles \<Rightarrow> nat \<Rightarrow> nat" where
  "common_prefix_len first_key last_key depth =
     length (takeWhile (\<lambda>(a, b). a = b) (drop depth (zip first_key last_key)))"

subsection \<open>The cached walk\<close>

lemma prefix_below_upper: "rp \<le> k \<Longrightarrow> k < rp @ [x] \<Longrightarrow> prefix rp (k :: nibbles)"
proof (induction rp arbitrary: k)
  case (Cons a rp)
  then show ?case by (cases k) auto
qed simp

lemma bt_range_prefix_upper:
  "bt_range es rp (prefix_upper rp) \<noteq> [] \<Longrightarrow> length rp \<le> max_key_len es"
proof -
  assume "bt_range es rp (prefix_upper rp) \<noteq> []"
  then obtain kv where kv: "kv \<in> set es" "rp \<le> fst kv" "fst kv < rp @ [16]"
    by (auto simp: bt_range_def filter_empty_conv prefix_upper_def CHILDREN_def)
  then have "prefix rp (fst kv)" by (auto intro: prefix_below_upper)
  then show ?thesis using kv(1) max_key_len_ge by (meson order_trans prefix_length_le)
qed

function memo_node ::
    "(bytes \<Rightarrow> h256) \<Rightarrow> (nibbles, mpt_value) btree \<Rightarrow> nibbles \<Rightarrow> bool \<Rightarrow> cache \<Rightarrow> cache_policy
     \<Rightarrow> (h256 \<times> cache) option"
  and memo_children ::
    "(bytes \<Rightarrow> h256) \<Rightarrow> (nibbles, mpt_value) btree \<Rightarrow> nibbles \<Rightarrow> nat list \<Rightarrow> cache \<Rightarrow> cache_policy
     \<Rightarrow> (h256 list \<times> cache) option" where
  "memo_node kc es rp allow_path_compression cache policy =
     (case bt_get cache rp of Some hash \<Rightarrow> Some (hash, cache)
      | None \<Rightarrow>
        (let depth = length rp;
             node_block = bt_range es rp (prefix_upper rp)
         in if node_block = [] then None
            else
            (let first_key = fst (hd node_block);
                 last_key = (if allow_path_compression \<or> policy = SkipSingleton
                             then fst (last node_block) else first_key);
                 is_singleton = (first_key = last_key);
                 common = (if allow_path_compression
                           then common_prefix_len first_key last_key depth else 0);
                 node_depth = depth + common
             in if length first_key < node_depth then None
                else
                (let full_prefix = take node_depth first_key;
                     maybe_value = map_option merkle_value (bt_get es full_prefix)
                 in (case memo_children kc es full_prefix [0..<CHILDREN] cache policy of
                       None \<Rightarrow> None
                     | Some (children, cache') \<Rightarrow>
                         (let node_hash =
                                compute_node_merkle kc
                                  (if has_children children then Some children else None)
                                  maybe_value
                          in map_option
                               (\<lambda>hash. (hash, if policy = Full \<or> \<not> is_singleton
                                              then bt_insert rp hash cache' else cache'))
                               (compute_path_merkle kc (subslice first_key depth node_depth)
                                  depth node_hash)))))))"
| "memo_children kc es full_prefix [] cache policy = Some ([], cache)"
| "memo_children kc es full_prefix (c # cs) cache policy =
     (let child_rp = full_prefix @ [of_nat c]
      in (case (case bt_get cache child_rp of Some hash \<Rightarrow> Some (hash, cache)
                | None \<Rightarrow>
                    if bt_range es child_rp (prefix_upper child_rp) \<noteq> []
                    then memo_node kc es child_rp True cache policy
                    else Some (MERKLE_NULL_NODE, cache)) of
            None \<Rightarrow> None
          | Some (hash, cache') \<Rightarrow>
              map_option (apfst ((#) hash)) (memo_children kc es full_prefix cs cache' policy)))"
  by pat_completeness auto
termination
proof (relation "measures
    [\<lambda>x. case x of Inl (kc, es, rp, _) \<Rightarrow> Suc (max_key_len es) - length rp
                 | Inr (kc, es, fp, _) \<Rightarrow> Suc (max_key_len es) - length fp,
     \<lambda>x. case x of Inl _ \<Rightarrow> 17 | Inr (kc, es, fp, cs, _) \<Rightarrow> length cs]", goal_cases)
  case (3 kc es full_prefix c cs cache policy x)
  then show ?case using bt_range_prefix_upper [of es x] by auto
qed (auto simp: CHILDREN_def)

declare memo_node.simps [simp del]

subsection \<open>The cold rebuild over a slice\<close>

datatype entry_value_ref = MptRef mpt_value | LiveRef bytes

fun entry_merkle_value :: "entry_value_ref \<Rightarrow> bytes" where
  "entry_merkle_value (MptRef v) = merkle_value v"
| "entry_merkle_value (LiveRef v) = v"

text \<open>The inner loop of \<open>child_ranges\<close>: the first index past the run of \<open>child\<close>.\<close>

function run_end :: "(nibbles \<times> 'v) list \<Rightarrow> nat \<Rightarrow> nat \<Rightarrow> nat \<Rightarrow> nat" where
  "run_end es node_depth child idx =
     (if idx < length es \<and> node_depth < length (fst (es ! idx))
         \<and> unat (fst (es ! idx) ! node_depth) = child
      then run_end es node_depth child (Suc idx) else idx)"
  by pat_completeness auto
termination by (relation "measure (\<lambda>(es, _, _, idx). length es - idx)") auto

declare run_end.simps [simp del]

lemma run_end_ge: "idx \<le> run_end es node_depth child idx"
proof (induction es node_depth child idx rule: run_end.induct)
  case (1 es node_depth child idx)
  then show ?case by (subst run_end.simps) (auto dest: Suc_leD)
qed

function child_ranges_from :: "(nibbles \<times> 'v) list \<Rightarrow> nat \<Rightarrow> nat \<Rightarrow> (nat \<times> nat \<times> nat) list option" where
  "child_ranges_from es node_depth idx =
     (if idx < length es then
        (let key = fst (es ! idx)
         in if length key = node_depth then child_ranges_from es node_depth (Suc idx)
            else if length key < node_depth then None
            else
              (let child = unat (key ! node_depth);
                   start = idx;
                   end_idx = run_end es node_depth child (Suc idx)
               in map_option ((#) (child, start, end_idx)) (child_ranges_from es node_depth end_idx)))
      else Some [])"
  by pat_completeness auto
termination
proof (relation "measure (\<lambda>(es, _, idx). length es - idx)", goal_cases)
  case (3 es node_depth idx key child start end_idx)
  then show ?case using run_end_ge [of "Suc idx" es node_depth child] by auto
qed auto

declare child_ranges_from.simps [simp del]

definition child_ranges :: "(nibbles \<times> 'v) list \<Rightarrow> nat \<Rightarrow> (nat \<times> nat \<times> nat) list option" where
  "child_ranges es node_depth = child_ranges_from es node_depth 0"


lemma run_end_takeWhile:
  "run_end es d child idx =
     idx + length (takeWhile (\<lambda>kv. d < length (fst kv) \<and> unat (fst kv ! d) = child) (drop idx es))"
proof (induction es d child idx rule: run_end.induct)
  case (1 es d child idx)
  show ?case
  proof (cases "idx < length es")
    case True
    then have "drop idx es = es ! idx # drop (Suc idx) es" by (simp add: Cons_nth_drop_Suc)
    with 1 True show ?thesis by (subst run_end.simps) auto
  qed (simp add: run_end.simps)
qed

lemma child_ranges_from_trie_ranges:
  "child_ranges_from es d idx = trie_ranges idx (drop idx es) d"
proof (induction es d idx rule: child_ranges_from.induct)
  case (1 es d idx)
  show ?case
  proof (cases "idx < length es")
    case True
    obtain key v where kv: "es ! idx = (key, v)" by (cases "es ! idx")
    have d: "drop idx es = (key, v) # drop (Suc idx) es"
      using True by (simp add: Cons_nth_drop_Suc flip: kv)
    show ?thesis
      unfolding d
      by (subst child_ranges_from.simps)
        (use 1 True in \<open>auto simp: kv Let_def run_end_takeWhile add.commute split: if_splits\<close>)
  qed (simp add: child_ranges_from.simps)
qed

text \<open>The index loop and the peekable iterator of \<open>trie.rs\<close> give the same partition.\<close>

lemma child_ranges_trie_ranges: "child_ranges es d = trie_ranges 0 es d"
  by (simp add: child_ranges_def child_ranges_from_trie_ranges)

function memo_node_rebuild ::
  "(bytes \<Rightarrow> h256) \<Rightarrow> (nibbles \<times> entry_value_ref) list \<Rightarrow> nibbles \<Rightarrow> bool \<Rightarrow> cache_policy \<Rightarrow> nat
   \<Rightarrow> (h256 \<times> (nibbles \<times> h256) list) option" where
  "memo_node_rebuild kc es rp allow_path_compression policy parallel_depth =
     (if es = [] then None
      else
        (let depth = length rp;
             first_key = fst (hd es);
             last_key = fst (last es);
             is_singleton = (first_key = last_key);
             common = (if allow_path_compression
                       then common_prefix_len first_key last_key depth else 0);
             node_depth = depth + common
         in if length first_key < node_depth then None
            else
            (let full_prefix = take node_depth first_key;
                 maybe_value = map_option (\<lambda>kv. entry_merkle_value (snd kv))
                                 (find (\<lambda>kv. length (fst kv) = node_depth) es)
             in (case child_ranges es node_depth of None \<Rightarrow> None
                 | Some ranges \<Rightarrow>
                     (let go_parallel = (0 < parallel_depth
                            \<and> PARALLEL_REBUILD_THRESHOLD \<le> length es \<and> 1 < length ranges);
                          child_depth = (if go_parallel then parallel_depth - 1 else 0);
                          results = map (\<lambda>(child, start, end_idx).
                             map_option (Pair child)
                               (memo_node_rebuild kc (subslice es start end_idx)
                                  (full_prefix @ [of_nat child]) True policy child_depth)) ranges
                      in (case those_options results of None \<Rightarrow> None
                          | Some rs \<Rightarrow>
                              (let child_hashes = map (\<lambda>(child, hash, _). (child, hash)) rs;
                                   cache_entries = concat (map (\<lambda>(_, _, ces). ces) rs)
                               in (case fill_children child_hashes
                                          (replicate CHILDREN MERKLE_NULL_NODE) of
                                     None \<Rightarrow> None
                                   | Some children \<Rightarrow>
                                       (let node_hash =
                                              compute_node_merkle kc
                                                (if has_children children then Some children
                                                 else None) maybe_value
                                        in map_option
                                             (\<lambda>hash. (hash, cache_entries @
                                                (if policy = Full \<or> \<not> is_singleton
                                                 then [(rp, hash)] else [])))
                                             (compute_path_merkle kc
                                                (subslice first_key depth node_depth)
                                                depth node_hash))))))))))"
  by pat_completeness auto
termination
proof (relation "measure (\<lambda>(kc, es, rp, _). Suc (max_key_len es) - length rp)", goal_cases)
  case (2 kc es rp ac policy pd depth fk lk sing common node_depth fp mv ranges gp cd t c p s e)
  then show ?case
    using trie_ranges_decrease [of es node_depth ranges c s e]
    by (auto simp: child_ranges_trie_ranges)
qed simp

declare memo_node_rebuild.simps [simp del]

definition rebuild_snapshot_root_cache ::
  "(bytes \<Rightarrow> h256) \<Rightarrow> (bytes, bytes) btree \<Rightarrow> cache_policy \<Rightarrow> (h256 \<times> cache) option" where
  "rebuild_snapshot_root_cache kc snapshot policy =
     (if snapshot = [] then Some (MERKLE_NULL_NODE, [])
      else map_option (apsnd bt_collect)
             (memo_node_rebuild kc
                (map (\<lambda>e. (bytes_to_nibbles (fst e), LiveRef (snd e))) snapshot)
                [] False policy PARALLEL_REBUILD_DEPTH))"

subsection \<open>The operations\<close>

definition from_delta :: "(bytes, mpt_value) btree \<Rightarrow> incremental_trie" where
  "from_delta delta =
     \<lparr>it_entries = bt_collect (map (\<lambda>e. (bytes_to_nibbles (fst e), snd e)) delta),
      it_cache = [], it_dirty = []\<rparr>"

definition it_default :: incremental_trie where
  "it_default = \<lparr>it_entries = [], it_cache = [], it_dirty = []\<rparr>"

definition it_insert :: "bytes \<Rightarrow> mpt_value \<Rightarrow> incremental_trie \<Rightarrow> incremental_trie" where
  "it_insert key value t =
     (let nibbles = bytes_to_nibbles key
      in t\<lparr>it_dirty := bt_insert nibbles () (it_dirty t),
           it_entries := bt_insert nibbles value (it_entries t)\<rparr>)"

definition it_remove :: "bytes \<Rightarrow> incremental_trie \<Rightarrow> incremental_trie" where
  "it_remove key t =
     (let nibbles = bytes_to_nibbles key
      in t\<lparr>it_entries := bt_remove nibbles (it_entries t),
           it_dirty := bt_insert nibbles () (it_dirty t)\<rparr>)"

definition it_clear :: "incremental_trie \<Rightarrow> incremental_trie" where
  "it_clear t = t\<lparr>it_entries := [], it_cache := [], it_dirty := []\<rparr>"

text \<open>The loop of \<open>root_with_policy\<close> that evicts the prefixes of the dirty keys.\<close>

definition evict_key :: "nibbles \<Rightarrow> cache \<Rightarrow> cache" where
  "evict_key nibbles cache = fold (\<lambda>n c. bt_remove (take n nibbles) c) [0..<Suc (length nibbles)] cache"

definition evict :: "(nibbles, unit) btree \<Rightarrow> cache \<Rightarrow> cache" where
  "evict dirty cache = fold (\<lambda>d. evict_key (fst d)) dirty cache"

definition root_with_policy ::
  "(bytes \<Rightarrow> h256) \<Rightarrow> cache_policy \<Rightarrow> incremental_trie \<Rightarrow> (h256 \<times> incremental_trie) option" where
  "root_with_policy kc policy t =
     (if it_entries t = [] then Some (MERKLE_NULL_NODE, t\<lparr>it_cache := [], it_dirty := []\<rparr>)
      else
        (let cache = evict (it_dirty t) (it_cache t);
             t' = t\<lparr>it_dirty := []\<rparr>
         in if cache = [] \<and> PARALLEL_REBUILD_THRESHOLD \<le> length (it_entries t)
            then map_option (\<lambda>(root, ces). (root, t'\<lparr>it_cache := bt_extend cache ces\<rparr>))
                   (memo_node_rebuild kc (map (apsnd MptRef) (it_entries t)) [] False policy
                      PARALLEL_REBUILD_DEPTH)
            else map_option (\<lambda>(root, cache'). (root, t'\<lparr>it_cache := cache'\<rparr>))
                   (memo_node kc (it_entries t) [] False cache policy)))"

definition it_root :: "(bytes \<Rightarrow> h256) \<Rightarrow> incremental_trie \<Rightarrow> (h256 \<times> incremental_trie) option" where
  "it_root kc t = root_with_policy kc Full t"

definition from_snapshot :: "(bytes, bytes) btree \<Rightarrow> incremental_trie" where
  "from_snapshot snapshot =
     \<lparr>it_entries = bt_collect (map (\<lambda>e. (bytes_to_nibbles (fst e), MptSome (snd e))) snapshot),
      it_cache = [], it_dirty = []\<rparr>"

definition snapshot_get :: "incremental_trie \<Rightarrow> bytes \<Rightarrow> bytes option" where
  "snapshot_get t canonical =
     Option.bind (bt_get (it_entries t) (bytes_to_nibbles canonical)) visible_value"

definition visible_pairs :: "(nibbles \<times> mpt_value) list \<Rightarrow> (bytes \<times> bytes) list" where
  "visible_pairs es =
     List.map_filter (\<lambda>kv. map_option (Pair (nibbles_to_bytes (fst kv))) (visible_value (snd kv))) es"

definition snapshot_scan_prefix :: "incremental_trie \<Rightarrow> bytes \<Rightarrow> (bytes \<times> bytes) list" where
  "snapshot_scan_prefix t canonical_prefix =
     (let nibble_prefix = bytes_to_nibbles canonical_prefix
      in visible_pairs (bt_range (it_entries t) nibble_prefix (prefix_upper nibble_prefix)))"

definition to_canonical_map :: "incremental_trie \<Rightarrow> (bytes, bytes) btree" where
  "to_canonical_map t = bt_collect (visible_pairs (it_entries t))"

definition it_len :: "incremental_trie \<Rightarrow> nat" where
  "it_len t = length (it_entries t)"

end
