(* ===== verification/Incremental_Correct.thy ===== *)
theory Incremental_Correct
  imports Mpt_Incremental
begin

text \<open>
  The cached walk and the cold rebuild of \<open>Mpt_Incremental\<close> compute the reference hash and
  leave a cache that is right for the entries; hence the invariant of the incremental trie,
  which every operation keeps, and its root: the stateless root of the same map.
\<close>

subsection \<open>The endpoints of a sorted block give its common prefix\<close>

lemma takeWhile_zip_lcp:
  "length (takeWhile (\<lambda>(a, b). a = b) (zip xs ys)) = length (longest_common_prefix xs ys)"
  by (induction xs ys rule: longest_common_prefix.induct) auto

lemma longest_common_prefix_append [simp]:
  "longest_common_prefix (p @ xs) (p @ ys) = p @ longest_common_prefix xs ys"
  by (induction p) auto

lemma common_prefix_len_lcp:
  assumes "prefix rp first" "prefix rp last_key"
  shows "length rp + common_prefix_len first last_key (length rp)
       = length (longest_common_prefix first last_key)"
  using assms by (auto simp: prefix_def common_prefix_len_def takeWhile_zip_lcp drop_zip)

lemma bt_wf_hd_last:
  assumes "bt_wf m" "kv \<in> set m"
  shows "fst (hd m) \<le> fst kv \<and> fst kv \<le> fst (last m)"
  using assms
proof (induction m)
  case (Cons a m)
  then show ?case
    by (cases a; cases "m = []") (force simp: bt_wf_Cons dest: last_in_set)+
qed simp

lemma lcp_endpoints:
  assumes wf: "bt_wf (B :: (nibbles, 'v) btree)" and ne: "B \<noteq> []"
  shows "longest_common_prefix (fst (hd B)) (fst (last B)) = Longest_common_prefix (fst ` set B)"
    (is "?l = ?L")
proof (rule prefix_order.antisym)
  have mem: "fst (hd B) \<in> fst ` set B" "fst (last B) \<in> fst ` set B" using ne by auto
  show "prefix ?L ?l"
    by (intro longest_common_prefix_max_prefix Longest_common_prefix_prefix mem)
  show "prefix ?l ?L"
  proof (rule Longest_common_prefix_max_prefix)
    show "\<forall>k \<in> fst ` set B. prefix ?l k"
      using bt_wf_hd_last [OF wf] prefix_between
      by (metis (no_types, lifting) imageE longest_common_prefix_prefix1 longest_common_prefix_prefix2)
  qed (use ne in auto)
qed

lemma common_prefix_len_node_prefix:
  assumes "bt_wf es" "block es rp \<noteq> []" "ac \<longleftrightarrow> rp \<noteq> []"
  shows "length rp + (if ac then common_prefix_len (fst (hd (block es rp)))
            (fst (last (block es rp))) (length rp) else 0) = length (node_prefix es rp)"
proof (cases "rp = []")
  case False
  have p: "prefix rp (fst kv)" if "kv \<in> set (block es rp)" for kv
    using that by (simp add: set_block)
  show ?thesis
    using False assms common_prefix_len_lcp [OF p p] lcp_endpoints [of "block es rp"]
    by (simp add: node_prefix_def)
qed (use assms in \<open>simp add: node_prefix_def\<close>)

subsection \<open>The cached walk\<close>

definition coherent :: "(bytes \<Rightarrow> h256) \<Rightarrow> entries \<Rightarrow> cache \<Rightarrow> bool" where
  "coherent kc es cache \<longleftrightarrow>
     bt_wf cache \<and> (\<forall>p h. bt_get cache p = Some h \<longrightarrow> h = code_subtree kc es p)"

lemma coherent_Nil [simp]: "coherent kc es []"
  by (simp add: coherent_def)

lemma coherent_insert:
  "coherent kc es cache \<Longrightarrow> coherent kc es (bt_insert rp (code_subtree kc es rp) cache)"
  by (simp add: coherent_def)

lemma coherent_get: "coherent kc es cache \<Longrightarrow> bt_get cache p = Some h \<Longrightarrow> h = code_subtree kc es p"
  by (simp add: coherent_def)

lemma memo_walk:
  "bt_wf es \<Longrightarrow> nibble_keys es \<Longrightarrow> coherent kc es cache \<Longrightarrow> block es rp \<noteq> [] \<Longrightarrow>
     ac \<longleftrightarrow> rp \<noteq> [] \<Longrightarrow>
   \<exists>cache'. memo_node kc es rp ac cache policy = Some (code_subtree kc es rp, cache')
          \<and> coherent kc es cache'"
  "bt_wf es \<Longrightarrow> nibble_keys es \<Longrightarrow> coherent kc es cache \<Longrightarrow>
   \<exists>cache'. memo_children kc es fp cs cache policy
              = Some (map (\<lambda>c. code_subtree kc es (fp @ [of_nat c])) cs, cache')
          \<and> coherent kc es cache'"
proof (induction kc es rp ac cache policy and kc es fp cs cache policy
    rule: memo_node_memo_children.induct)
  case (1 kc es rp ac cache policy)
  define B where "B = block es rp"
  define fp where "fp = node_prefix es rp"
  note wf = "1.prems"(1) and nk = "1.prems"(2) and coh = "1.prems"(3) and ac = "1.prems"(5)
  have rng: "bt_range es rp (prefix_upper rp) = B"
    using range_is_block [OF nk] by (simp add: B_def prefix_upper_def CHILDREN_def)
  have ne: "B \<noteq> []" using "1.prems"(4) by (simp add: B_def)
  have depth: "length rp + (if ac then common_prefix_len (fst (hd B)) (fst (last B)) (length rp) else 0)
      = length fp"
    using common_prefix_len_node_prefix [OF wf "1.prems"(4) ac] by (simp only: B_def fp_def)
  show ?case
  proof (cases "bt_get cache rp")
    case (Some h)
    with coh show ?thesis by (subst memo_node.simps) (auto dest: coherent_get)
  next
    case None
    let ?last = "if ac \<or> policy = SkipSingleton then fst (last B) else fst (hd B)"
    have depth': "length rp + (if ac then common_prefix_len (fst (hd B)) ?last (length rp) else 0)
        = length fp" using depth by (cases ac) simp_all
    note key = block_first_key [OF "1.prems"(4) fp_def, folded B_def]
    have len: "\<not> length (fst (hd B)) < length fp" using key(1) by simp
    have kids: "\<exists>cache'. memo_children kc es fp [0..<CHILDREN] cache policy
              = Some (map (\<lambda>c. code_subtree kc es (fp @ [of_nat c])) [0..<CHILDREN], cache')
          \<and> coherent kc es cache'"
      using "1.IH" [OF None refl rng [symmetric] ne refl refl refl refl refl]
        wf nk coh len key(2) depth' by metis
    then obtain cache' where
      c: "memo_children kc es fp [0..<CHILDREN] cache policy
              = Some (map (\<lambda>c. code_subtree kc es (fp @ [of_nat c])) [0..<CHILDREN], cache')"
      "coherent kc es cache'" by blast
    show ?thesis
      using None ne len c(2)
      by (subst memo_node.simps)
        (simp only: Let_def rng depth' key(2,3) c(1) option.case prod.case if_False
          node_hash_is_subtree [OF "1.prems"(4) fp_def], auto intro: coherent_insert)
  qed
next
  case (3 kc es fp c cs cache policy)
  let ?rp = "fp @ [of_nat c]"
  let ?step = "case bt_get cache ?rp of Some hash \<Rightarrow> Some (hash, cache)
                | None \<Rightarrow> if bt_range es ?rp (prefix_upper ?rp) \<noteq> []
                          then memo_node kc es ?rp True cache policy
                          else Some (MERKLE_NULL_NODE, cache)"
  have rng: "bt_range es ?rp (prefix_upper ?rp) = block es ?rp"
    using range_is_block [OF "3.prems"(2), of ?rp] by (simp add: prefix_upper_def CHILDREN_def)
  have "\<exists>cache'. ?step = Some (code_subtree kc es ?rp, cache') \<and> coherent kc es cache'"
  proof (cases "bt_get cache ?rp")
    case None
    show ?thesis
    proof (cases "block es ?rp = []")
      case True
      with None "3.prems" show ?thesis by (simp add: rng subtree_hash_empty)
    next
      case False
      then show ?thesis
        using "3.IH"(1) [OF refl None] "3.prems" None by (simp add: rng)
    qed
  next
    case (Some h)
    with "3.prems" show ?thesis by (auto dest: coherent_get)
  qed
  then obtain cache' where s: "?step = Some (code_subtree kc es ?rp, cache')" "coherent kc es cache'"
    by blast
  from "3.IH"(2) [OF refl s(1) refl "3.prems"(1,2) s(2)] obtain cache'' where
    "memo_children kc es fp cs cache' policy
       = Some (map (\<lambda>c. code_subtree kc es (fp @ [of_nat c])) cs, cache'')" "coherent kc es cache''"
    by blast
  with s show ?case by (subst memo_children.simps) (simp only: Let_def option.case prod.case, simp)
qed simp


subsection \<open>The cold rebuild\<close>

fun ref_value :: "entry_value_ref \<Rightarrow> mpt_value" where
  "ref_value (MptRef v) = v"
| "ref_value (LiveRef v) = MptSome v"

lemma entry_merkle_value_ref: "entry_merkle_value r = merkle_value (ref_value r)"
  by (cases r) auto

lemma trie_ranges_map_values: "trie_ranges n (map (apsnd f) es) d = trie_ranges n es d"
proof (induction n es d rule: trie_ranges.induct)
  case (2 start key v rest d)
  then show ?case
    by (auto simp: Let_def takeWhile_map comp_def drop_map simp del: apsnd_conv
        simp add: apsnd_conv [of f])
qed simp

lemma subslice_map: "subslice (map f xs) s e = map f (subslice xs s e)"
  by (simp add: subslice_def take_map drop_map)

lemma rebuild_walk:
  "\<lbrakk>bt_wf es; nibble_keys es; block es rp \<noteq> []; ac \<longleftrightarrow> rp \<noteq> [];
    map (apsnd ref_value) refs = block es rp\<rbrakk> \<Longrightarrow>
   \<exists>ces. memo_node_rebuild kc refs rp ac policy pd = Some (code_subtree kc es rp, ces)
       \<and> (\<forall>ph \<in> set ces. snd ph = code_subtree kc es (fst ph))"
proof (induction "code_node kc" "code_path kc" es rp arbitrary: refs pd ac rule: subtree_hash.induct)
  case (1 es rp)
  note ne = "1.prems"(3) and refs = "1.prems"(5)
  define fp where "fp = node_prefix es rp"
  let ?B = "block es rp" and ?f = "\<lambda>q. code_subtree kc es q"
  have refs_ne: "refs \<noteq> []" using refs ne by auto
  have hd: "fst (hd refs) = fst (hd ?B)" and last: "fst (last refs) = fst (last ?B)"
    using refs_ne by (simp_all add: refs [symmetric] hd_map last_map)
  have depth: "length rp + (if ac then common_prefix_len (fst (hd ?B)) (fst (last ?B)) (length rp) else 0)
      = length fp"
    using common_prefix_len_node_prefix [OF "1.prems"(1) ne "1.prems"(4)] by (simp only: fp_def)
  obtain rs where rs: "trie_ranges 0 ?B (length fp) = Some rs"
    and child: "\<forall>c s e. (c, s, e) \<in> set rs \<longrightarrow> c < CHILDREN
      \<and> subslice ?B s e = block es (fp @ [of_nat c]) \<and> block es (fp @ [of_nat c]) \<noteq> []"
    and fill: "fill_children (map (\<lambda>(c, s, e). (c, ?f (fp @ [of_nat c]))) rs)
        (replicate CHILDREN MERKLE_NULL_NODE)
      = Some (map (\<lambda>c. ?f (fp @ [of_nat c])) [0..<CHILDREN])"
    by (rule ranges_children [OF "1.prems"(1-3) fp_def, of kc])
  have ranges: "child_ranges refs (length fp) = Some rs"
    using rs by (simp add: child_ranges_trie_ranges trie_ranges_map_values flip: refs)
  define cd where "cd = (if 0 < pd \<and> PARALLEL_REBUILD_THRESHOLD \<le> length refs \<and> 1 < length rs
                         then pd - 1 else 0)"
  let ?rec = "\<lambda>(c, s, e). memo_node_rebuild kc (subslice refs s e) (fp @ [of_nat c]) True policy cd"
  have IH: "\<exists>ces. ?rec r = Some (?f (fp @ [of_nat (fst r)]), ces)
       \<and> (\<forall>ph \<in> set ces. snd ph = code_subtree kc es (fst ph))" if "r \<in> set rs" for r
  proof -
    obtain c s e where r: "r = (c, s, e)" by (cases r)
    from child that have c: "c < CHILDREN"
      and sl: "subslice ?B s e = block es (fp @ [of_nat c])"
      and bne: "block es (fp @ [of_nat c]) \<noteq> []" by (auto simp: r)
    have "map (apsnd ref_value) (subslice refs s e) = block es (fp @ [of_nat c])"
      by (simp add: refs sl flip: subslice_map)
    from "1.hyps" [OF ne fp_def _ bne "1.prems"(1,2) bne _ this, of True cd] c
    show ?thesis by (simp add: r)
  qed
  define ces where "ces = (\<lambda>r. snd (the (?rec r)))"
  have rec: "?rec r = Some (?f (fp @ [of_nat (fst r)]), ces r)" if "r \<in> set rs" for r
    using IH [OF that] by (auto simp: ces_def)
  have ces: "\<forall>ph \<in> set (ces r). snd ph = code_subtree kc es (fst ph)" if "r \<in> set rs" for r
    using IH [OF that] rec [OF that] by auto
  have hs: "those_options (map (\<lambda>(child, start, end_idx).
        map_option (Pair child)
          (memo_node_rebuild kc (subslice refs start end_idx) (fp @ [of_nat child]) True policy cd)) rs)
      = Some (map (\<lambda>r. (fst r, ?f (fp @ [of_nat (fst r)]), ces r)) rs)"
    by (rule those_options_map) (use rec in fastforce)
  have fill': "fill_children (map (\<lambda>(child, hash, _). (child, hash))
        (map (\<lambda>r. (fst r, ?f (fp @ [of_nat (fst r)]), ces r)) rs)) (replicate CHILDREN MERKLE_NULL_NODE)
      = Some (map (\<lambda>c. ?f (fp @ [of_nat c])) [0..<CHILDREN])"
    by (rule trans [OF _ fill], rule arg_cong [where f = "\<lambda>hs. fill_children hs _"]) auto
  note key = block_first_key [OF ne fp_def]
  have len: "\<not> length (fst (hd ?B)) < length fp" using key(1) by simp
  have val: "map_option (\<lambda>kv. entry_merkle_value (snd kv)) (find (\<lambda>kv. length (fst kv) = length fp) refs)
      = map_option merkle_value (bt_get es fp)"
  proof -
    have "find (\<lambda>kv. length (fst kv) = length fp) ?B
        = map_option (apsnd ref_value) (find (\<lambda>kv. length (fst kv) = length fp) refs)"
      unfolding refs [symmetric] by (induction refs) auto
    then show ?thesis
      unfolding block_value [OF ne fp_def, symmetric]
      by (simp add: option.map_comp comp_def entry_merkle_value_ref)
  qed
  have "memo_node_rebuild kc refs rp ac policy pd = Some (?f rp,
      concat (map (\<lambda>(_, _, ces). ces) (map (\<lambda>r. (fst r, ?f (fp @ [of_nat (fst r)]), ces r)) rs))
      @ (if policy = Full \<or> fst (hd ?B) \<noteq> fst (last ?B) then [(rp, ?f rp)] else []))"
    by (subst memo_node_rebuild.simps)
      (simp only: Let_def refs_ne hd last depth ranges cd_def [symmetric] hs fill' val option.case
        option.map len key(2,3) if_False node_hash_is_subtree [OF ne fp_def])
  then show ?case by (auto simp: ces split: if_splits)
qed


subsection \<open>Eviction\<close>

lemma get_remove_prefixes:
  "bt_wf cache \<Longrightarrow>
   bt_wf (fold (\<lambda>n c. bt_remove (take n d) c) ns cache)
   \<and> bt_get (fold (\<lambda>n c. bt_remove (take n d) c) ns cache) p =
       (if \<exists>n \<in> set ns. p = take n d then None else bt_get cache p)"
  by (induction ns arbitrary: cache) auto

lemma get_evict_key:
  assumes "bt_wf cache"
  shows "bt_wf (evict_key d cache)"
    "bt_get (evict_key d cache) p = (if prefix p d then None else bt_get cache p)"
proof -
  have "(\<exists>n \<in> set [0..<Suc (length d)]. p = take n d) \<longleftrightarrow> prefix p d"
    by (auto simp del: upt_Suc simp: in_prefixes_lengths less_Suc_eq_le intro: exI)
  with get_remove_prefixes [OF assms, of d "[0..<Suc (length d)]"]
  show "bt_wf (evict_key d cache)"
    "bt_get (evict_key d cache) p = (if prefix p d then None else bt_get cache p)"
    by (simp_all add: evict_key_def del: upt_Suc)
qed

lemma get_evict:
  "bt_wf cache \<Longrightarrow>
   bt_wf (evict dirty cache)
   \<and> bt_get (evict dirty cache) p =
       (if \<exists>d \<in> fst ` set dirty. prefix p d then None else bt_get cache p)"
proof (induction dirty arbitrary: cache)
  case (Cons d dirty)
  have e: "evict (d # dirty) cache = evict dirty (evict_key (fst d) cache)"
    by (simp add: evict_def)
  show ?case
    unfolding e using Cons.IH [OF get_evict_key(1) [OF Cons.prems]] Cons.prems
    by (auto simp: get_evict_key)
qed (simp add: evict_def)

subsection \<open>The invariant\<close>

definition it_inv :: "(bytes \<Rightarrow> h256) \<Rightarrow> incremental_trie \<Rightarrow> bool" where
  "it_inv kc t \<longleftrightarrow>
     bt_wf (it_entries t) \<and> byte_aligned (it_entries t) \<and> bt_wf (it_cache t)
     \<and> (\<forall>p h. bt_get (it_cache t) p = Some h \<longrightarrow>
           (\<exists>d \<in> fst ` set (it_dirty t). prefix p d) \<or> h = code_subtree kc (it_entries t) p)"

text \<open>The map that an incremental trie stands for.\<close>

definition it_contents :: "incremental_trie \<Rightarrow> (bytes, mpt_value) btree" where
  "it_contents t = byte_entries (it_entries t)"

definition it_lookup :: "incremental_trie \<Rightarrow> bytes \<Rightarrow> mpt_value option" where
  "it_lookup t k = bt_get (it_entries t) (bytes_to_nibbles k)"

lemma it_contents_wf: "it_inv kc t \<Longrightarrow> bt_wf (it_contents t)"
  by (simp add: it_inv_def it_contents_def byte_entries_wf)

lemma bt_get_it_contents: "it_inv kc t \<Longrightarrow> bt_get (it_contents t) k = it_lookup t k"
  by (simp add: it_inv_def it_contents_def it_lookup_def bt_get_byte_entries)

lemma it_contents_entries: "it_inv kc t \<Longrightarrow> nibble_entries (it_contents t) = it_entries t"
  by (simp add: it_inv_def it_contents_def)

lemma byte_aligned_insert:
  "byte_aligned es \<Longrightarrow> byte_aligned (bt_insert (bytes_to_nibbles k) v es)"
  using set_bt_insert_subset [of "bytes_to_nibbles k" v es] by (auto simp: byte_aligned_def)

lemma byte_aligned_remove: "byte_aligned es \<Longrightarrow> byte_aligned (bt_remove k es)"
  using set_bt_remove_subset [of k es] by (auto simp: byte_aligned_def)

text \<open>A write changes the blocks of the prefixes of its key only.\<close>

lemma block_insert:
  "bt_wf es \<Longrightarrow> \<not> prefix p k \<Longrightarrow> block (bt_insert k v es) p = block es p"
  by (rule bt_get_ext) (auto simp: bt_get_block)

lemma block_remove:
  "bt_wf es \<Longrightarrow> \<not> prefix p k \<Longrightarrow> block (bt_remove k es) p = block es p"
  by (rule bt_get_ext) (auto simp: bt_get_block)

lemma it_inv_write:
  assumes inv: "it_inv kc t" and es: "bt_wf es" "byte_aligned es"
    and same: "\<And>p. \<not> prefix p d \<Longrightarrow> block es p = block (it_entries t) p"
  shows "it_inv kc (t\<lparr>it_entries := es, it_dirty := bt_insert d () (it_dirty t)\<rparr>)"
  unfolding it_inv_def
proof (intro conjI allI impI)
  fix p h
  assume h: "bt_get (it_cache (t\<lparr>it_entries := es, it_dirty := bt_insert d () (it_dirty t)\<rparr>)) p = Some h"
  show "(\<exists>d' \<in> fst ` set (it_dirty (t\<lparr>it_entries := es, it_dirty := bt_insert d () (it_dirty t)\<rparr>)).
            prefix p d')
      \<or> h = code_subtree kc (it_entries (t\<lparr>it_entries := es, it_dirty := bt_insert d () (it_dirty t)\<rparr>)) p"
  proof (cases "prefix p d")
    case False
    from same [OF False] have "code_subtree kc es p = code_subtree kc (it_entries t) p"
      by (rule subtree_hash_local)
    with inv h show ?thesis by (auto simp: it_inv_def keys_bt_insert)
  qed (auto simp: keys_bt_insert)
qed (use inv es in \<open>auto simp: it_inv_def\<close>)

lemma it_inv_insert: "it_inv kc t \<Longrightarrow> it_inv kc (it_insert k v t)"
  using it_inv_write [of kc t "bt_insert (bytes_to_nibbles k) v (it_entries t)" "bytes_to_nibbles k"]
  by (simp add: it_insert_def Let_def it_inv_def byte_aligned_insert block_insert)

lemma it_inv_remove: "it_inv kc t \<Longrightarrow> it_inv kc (it_remove k t)"
  using it_inv_write [of kc t "bt_remove (bytes_to_nibbles k) (it_entries t)" "bytes_to_nibbles k"]
  by (simp add: it_remove_def Let_def it_inv_def byte_aligned_remove block_remove)

lemma it_inv_default [simp]: "it_inv kc it_default"
  by (simp add: it_inv_def it_default_def byte_aligned_def)

lemma it_inv_clear [simp]: "it_inv kc (it_clear t)"
  by (simp add: it_inv_def it_clear_def byte_aligned_def)

lemma from_delta_entries: "bt_wf delta \<Longrightarrow> it_entries (from_delta delta) = nibble_entries delta"
  by (simp add: from_delta_def bt_collect_sorted flip: nibble_entries_def)

lemma from_snapshot_entries:
  "bt_wf m \<Longrightarrow> it_entries (from_snapshot m) = nibble_entries (map (\<lambda>e. (fst e, MptSome (snd e))) m)"
proof -
  assume wf: "bt_wf m"
  have e: "map (\<lambda>e. (bytes_to_nibbles (fst e), MptSome (snd e))) m
      = nibble_entries (map (\<lambda>e. (fst e, MptSome (snd e))) m)"
    by (simp add: nibble_entries_def)
  show ?thesis
    unfolding from_snapshot_def e using wf by (simp add: bt_collect_sorted bt_wf_map_values)
qed

lemma it_inv_fresh:
  "bt_wf es \<Longrightarrow> byte_aligned es \<Longrightarrow> it_inv kc \<lparr>it_entries = es, it_cache = [], it_dirty = ds\<rparr>"
  by (simp add: it_inv_def)

lemma it_inv_from_delta: "bt_wf delta \<Longrightarrow> it_inv kc (from_delta delta)"
  using from_delta_entries [of delta] by (simp add: it_inv_def) (simp add: from_delta_def)

lemma it_inv_from_snapshot: "bt_wf m \<Longrightarrow> it_inv kc (from_snapshot m)"
  using from_snapshot_entries [of m] bt_wf_map_values [of m MptSome]
  by (simp add: it_inv_def) (simp add: from_snapshot_def)

subsection \<open>The root\<close>

lemma it_inv_evicted:
  assumes "it_inv kc t"
  shows "coherent kc (it_entries t) (evict (it_dirty t) (it_cache t))"
  using assms get_evict [of "it_cache t" "it_dirty t"]
  by (auto simp: coherent_def it_inv_def split: if_splits)

lemma coherent_extend:
  "coherent kc es cache \<Longrightarrow> \<forall>ph \<in> set ces. snd ph = code_subtree kc es (fst ph) \<Longrightarrow>
   coherent kc es (bt_extend cache ces)"
proof (induction ces arbitrary: cache)
  case (Cons ph ces)
  have "bt_extend cache (ph # ces) = bt_extend (bt_insert (fst ph) (code_subtree kc es (fst ph)) cache) ces"
    using Cons.prems by (simp add: bt_extend_def)
  then show ?case
    using Cons.IH [OF coherent_insert [OF Cons.prems(1)]] Cons.prems(2) by simp
qed (simp add: bt_extend_def)

lemma root_with_policy_correct:
  assumes inv: "it_inv kc t"
  shows "\<exists>cache'. root_with_policy kc policy t
           = Some (code_subtree kc (it_entries t) [], t\<lparr>it_cache := cache', it_dirty := []\<rparr>)
         \<and> coherent kc (it_entries t) cache'"
proof (cases "it_entries t = []")
  case True
  then show ?thesis by (auto simp: root_with_policy_def subtree_hash_empty intro: exI [of _ "[]"])
next
  case False
  define cache where "cache = evict (it_dirty t) (it_cache t)"
  have coh: "coherent kc (it_entries t) cache"
    using it_inv_evicted [OF inv] by (simp add: cache_def)
  have wf: "bt_wf (it_entries t)" and nk: "nibble_keys (it_entries t)"
    using inv by (auto simp: it_inv_def byte_aligned_nibble_keys)
  have ne: "block (it_entries t) [] \<noteq> []" using False by simp
  show ?thesis
  proof (cases "cache = [] \<and> PARALLEL_REBUILD_THRESHOLD \<le> length (it_entries t)")
    case True
    have "map (apsnd ref_value) (map (apsnd MptRef) (it_entries t)) = block (it_entries t) []"
      by (simp add: comp_def apsnd_def map_prod_def case_prod_beta)
    from rebuild_walk [OF wf nk ne _ this, of False kc policy PARALLEL_REBUILD_DEPTH]
    obtain ces where
      c: "memo_node_rebuild kc (map (apsnd MptRef) (it_entries t)) [] False policy PARALLEL_REBUILD_DEPTH
        = Some (code_subtree kc (it_entries t) [], ces)"
      "\<forall>ph \<in> set ces. snd ph = code_subtree kc (it_entries t) (fst ph)" by auto
    have "root_with_policy kc policy t = Some (code_subtree kc (it_entries t) [],
        t\<lparr>it_cache := bt_extend cache ces, it_dirty := []\<rparr>)"
      using False True c(1) by (simp add: root_with_policy_def Let_def flip: cache_def)
    then show ?thesis using coherent_extend [OF coh c(2)] by blast
  next
    case serial: False
    from memo_walk(1) [OF wf nk coh ne, of False policy] obtain cache' where
      c: "memo_node kc (it_entries t) [] False cache policy = Some (code_subtree kc (it_entries t) [], cache')"
      "coherent kc (it_entries t) cache'" by auto
    have "root_with_policy kc policy t = Some (code_subtree kc (it_entries t) [],
        t\<lparr>it_cache := cache', it_dirty := []\<rparr>)"
      using False serial c(1) by (simp only: root_with_policy_def Let_def cache_def [symmetric]) simp
    then show ?thesis using c(2) by blast
  qed
qed

lemma root_is_trie_root:
  assumes inv: "it_inv kc t"
  shows "\<exists>t'. root_with_policy kc policy t = Some (the (trie_root kc (it_contents t)), t')
         \<and> it_inv kc t' \<and> it_contents t' = it_contents t"
proof -
  obtain cache' where c: "root_with_policy kc policy t
      = Some (code_subtree kc (it_entries t) [], t\<lparr>it_cache := cache', it_dirty := []\<rparr>)"
    "coherent kc (it_entries t) cache'"
    using root_with_policy_correct [OF inv] by blast
  have "the (trie_root kc (it_contents t)) = code_subtree kc (it_entries t) []"
    using trie_root_correct [OF it_contents_wf [OF inv]] it_contents_entries [OF inv] by simp
  moreover have "it_inv kc (t\<lparr>it_cache := cache', it_dirty := []\<rparr>)"
    using inv c(2) by (simp add: it_inv_def coherent_def)
  ultimately show ?thesis using c(1) by (simp add: it_contents_def)
qed

end
