(* ===== verification/Merkle_Map.thy ===== *)
theory Merkle_Map
  imports Incremental_Correct
begin

text \<open>
  The interface of a map with a Merkle root, which the state relies on for both of its
  layers, and its interpretation on the incremental trie of \<open>incremental.rs\<close>. A client that
  uses the interface gets the roots of the stateless \<open>trie_root\<close>, whatever is cached.
\<close>

locale merkle_map = kv_map lookup update delete invar
  for lookup :: "'m \<Rightarrow> bytes \<Rightarrow> mpt_value option"
    and update :: "bytes \<Rightarrow> mpt_value \<Rightarrow> 'm \<Rightarrow> 'm"
    and delete :: "bytes \<Rightarrow> 'm \<Rightarrow> 'm"
    and invar :: "'m \<Rightarrow> bool" +
  fixes kc :: "bytes \<Rightarrow> h256"
    and contents :: "'m \<Rightarrow> (bytes, mpt_value) btree"
    and root :: "'m \<Rightarrow> (h256 \<times> 'm) option"
  assumes contents_wf: "invar m \<Longrightarrow> bt_wf (contents m)"
    and contents_lookup: "invar m \<Longrightarrow> bt_get (contents m) = lookup m"
    and root_law: "invar m \<Longrightarrow>
      \<exists>m'. root m = Some (the (trie_root kc (contents m)), m') \<and> invar m' \<and> contents m' = contents m"
begin

lemma root_invar: "invar m \<Longrightarrow> root m = Some (h, m') \<Longrightarrow> invar m' \<and> contents m' = contents m"
  using root_law [of m] by auto

lemma root_total: "invar m \<Longrightarrow> root m \<noteq> None"
  using root_law [of m] by auto

lemma root_lookup: "invar m \<Longrightarrow> root m = Some (h, m') \<Longrightarrow> lookup m' = lookup m"
  using root_invar contents_lookup by metis

text \<open>Two maps with the same lookups have the same root, whatever their histories.\<close>

lemma contents_determined:
  "invar m \<Longrightarrow> invar m' \<Longrightarrow> lookup m = lookup m' \<Longrightarrow> contents m = contents m'"
  by (rule bt_get_ext) (simp_all add: contents_wf contents_lookup)

lemma root_determined:
  assumes "invar m" "invar m'" "lookup m = lookup m'"
  shows "map_option fst (root m) = map_option fst (root m')"
  using root_law [OF assms(1)] root_law [OF assms(2)] contents_determined [OF assms] by auto

lemma contents_update: "invar m \<Longrightarrow> contents (update k v m) = bt_insert k v (contents m)"
  by (rule bt_get_ext)
    (simp_all add: contents_wf contents_lookup invar_update lookup_update)

lemma contents_delete: "invar m \<Longrightarrow> contents (delete k m) = bt_remove k (contents m)"
  by (rule bt_get_ext)
    (simp_all add: contents_wf contents_lookup invar_delete lookup_delete)

lemma contents_root:
  "invar m \<Longrightarrow> bt_wf es \<Longrightarrow> contents m = es \<Longrightarrow> \<exists>m'. root m = Some (the (trie_root kc es), m')"
  using root_law [of m] by auto

end

subsection \<open>The incremental trie is such a map\<close>

lemma it_lookup_insert: "it_lookup (it_insert k v t) = (it_lookup t)(k \<mapsto> v)"
  by (auto simp: it_lookup_def it_insert_def Let_def)

lemma it_lookup_remove: "it_inv kc t \<Longrightarrow> it_lookup (it_remove k t) = (it_lookup t)(k := None)"
  by (auto simp: it_lookup_def it_remove_def Let_def it_inv_def)

interpretation it: merkle_map it_lookup it_insert it_remove "it_inv kc" kc it_contents "root_with_policy kc policy"
  for kc policy
  by unfold_locales
    (auto simp: it_lookup_insert it_lookup_remove it_inv_insert it_inv_remove it_contents_wf
       bt_get_it_contents root_is_trie_root)

lemmas it_contents_simps = it.contents_update it.contents_delete

lemma it_contents_default [simp]: "it_contents it_default = []" "it_contents (it_clear t) = []"
  by (simp_all add: it_contents_def it_default_def it_clear_def byte_entries_def)

lemma it_contents_from_delta: "bt_wf delta \<Longrightarrow> it_contents (from_delta delta) = delta"
  by (simp add: it_contents_def from_delta_entries)

lemma it_contents_from_snapshot:
  "bt_wf m \<Longrightarrow> it_contents (from_snapshot m) = map (\<lambda>e. (fst e, MptSome (snd e))) m"
  by (simp add: it_contents_def from_snapshot_entries)

subsection \<open>Runs of operations\<close>

datatype trie_op = OpInsert bytes mpt_value | OpRemove bytes | OpClear | OpRoot cache_policy

text \<open>The roots that a run of operations returns, on the trie and on the plain map.\<close>

fun run_trie :: "(bytes \<Rightarrow> h256) \<Rightarrow> trie_op list \<Rightarrow> incremental_trie \<Rightarrow> h256 option list" where
  "run_trie kc [] t = []"
| "run_trie kc (OpInsert k v # ops) t = run_trie kc ops (it_insert k v t)"
| "run_trie kc (OpRemove k # ops) t = run_trie kc ops (it_remove k t)"
| "run_trie kc (OpClear # ops) t = run_trie kc ops (it_clear t)"
| "run_trie kc (OpRoot policy # ops) t =
     (case root_with_policy kc policy t of None \<Rightarrow> [None]
      | Some (h, t') \<Rightarrow> Some h # run_trie kc ops t')"

fun run_map :: "(bytes \<Rightarrow> h256) \<Rightarrow> trie_op list \<Rightarrow> (bytes, mpt_value) btree \<Rightarrow> h256 option list" where
  "run_map kc [] m = []"
| "run_map kc (OpInsert k v # ops) m = run_map kc ops (bt_insert k v m)"
| "run_map kc (OpRemove k # ops) m = run_map kc ops (bt_remove k m)"
| "run_map kc (OpClear # ops) m = run_map kc ops []"
| "run_map kc (OpRoot policy # ops) m = trie_root kc m # run_map kc ops m"

lemma trie_root_total: "bt_wf kv \<Longrightarrow> trie_root kc kv = Some (the (trie_root kc kv))"
  by (simp add: trie_root_correct)

lemma run_trie_map: "it_inv kc t \<Longrightarrow> run_trie kc ops t = run_map kc ops (it_contents t)"
proof (induction ops arbitrary: t)
  case (Cons op ops)
  show ?case
  proof (cases op)
    case (OpRoot policy)
    obtain t' where "root_with_policy kc policy t = Some (the (trie_root kc (it_contents t)), t')"
      "it_inv kc t'" "it_contents t' = it_contents t"
      using it.root_law [OF Cons.prems, of policy] by auto
    then show ?thesis
      using Cons.IH [of t'] trie_root_total [OF it.contents_wf [OF Cons.prems], of kc]
      by (simp add: OpRoot)
  qed (use Cons in \<open>simp_all add: it_contents_simps it_inv_insert it_inv_remove\<close>)
qed simp

text \<open>
  C2: for every sequence of inserts, removes, clears and roots under either cache policy,
  started on an empty \<open>IncrementalTrie\<close>, each root returned is the stateless \<open>trie_root\<close> of
  the map that the writes have built so far, and no call panics: the dirty-prefix eviction
  never leaves a stale subtree hash.
\<close>

theorem incremental_root_is_stateless_root:
  "run_trie kc ops it_default = run_map kc ops []
   \<and> None \<notin> set (run_trie kc ops it_default)"
proof -
  have "bt_wf m \<Longrightarrow> None \<notin> set (run_map kc ops m)" for m
    by (induction kc ops m rule: run_map.induct) (auto simp: trie_root_correct)
  then show ?thesis using run_trie_map [of kc it_default ops] by simp
qed

end
