(* ===== verification/Trie_Theorems.thy ===== *)
theory Trie_Theorems
  imports Merkle_Map
begin

text \<open>
  The stateless root against \<open>docs/SPEC.md\<close>, sections 2.2 to 2.6: the node and path hashes
  of the document, the root they give, the bound under which the code computes it, and what
  equal roots say of the maps.
\<close>

subsection \<open>The document's hashes\<close>

definition spec_node :: "(bytes \<Rightarrow> h256) \<Rightarrow> h256 list \<Rightarrow> bytes option \<Rightarrow> h256" where
  "spec_node kc children value =
     kc ([0x6e] @ concat (map as_bytes children) @ (case value of None \<Rightarrow> [] | Some v \<Rightarrow> [0x76] @ v))"

text \<open>\<open>128 + 64 * skip_first + (nibble_count % 63)\<close>.\<close>

definition spec_path_info :: "nibbles \<Rightarrow> nat \<Rightarrow> u8" where
  "spec_path_info p start_depth = of_nat (128 + 64 * (start_depth mod 2) + length p mod 63)"

fun spec_pairs :: "nibbles \<Rightarrow> bytes" where
  "spec_pairs [] = []"
| "spec_pairs [hi] = [16 * hi]"
| "spec_pairs (hi # lo # rest) = (16 * hi + lo) # spec_pairs rest"

definition spec_compressed :: "nibbles \<Rightarrow> nat \<Rightarrow> bytes" where
  "spec_compressed p start_depth =
     (if start_depth mod 2 = 1 then take 1 p @ spec_pairs (drop 1 p) else spec_pairs p)"

definition spec_path :: "(bytes \<Rightarrow> h256) \<Rightarrow> nibbles \<Rightarrow> nat \<Rightarrow> h256 \<Rightarrow> h256" where
  "spec_path kc p start_depth core =
     (if p = [] then core
      else kc ([spec_path_info p start_depth] @ spec_compressed p start_depth @ as_bytes core))"

definition spec_root :: "(bytes \<Rightarrow> h256) \<Rightarrow> (bytes, mpt_value) btree \<Rightarrow> h256" where
  "spec_root kc kv = subtree_hash (spec_node kc) (spec_path kc) (nibble_entries kv) []"

subsection \<open>The code's hashes are the document's\<close>

lemma code_node_spec: "code_node kc = spec_node kc"
  by (auto simp: fun_eq_iff compute_node_merkle_def spec_node_def split: option.split)

lemma path_info_nat:
  "path_info p d = of_nat (128 + 64 * (d mod 2) + (length p mod 256) mod 63)"
proof -
  have "of_nat (length p) mod 63 = (of_nat ((length p mod 256) mod 63) :: u8)"
    by (rule word_unat_eq_iff [THEN iffD2])
      (simp add: unat_mod_distrib unsigned_of_nat take_bit_eq_mod)
  moreover have "(64 :: u8) * of_bool (d mod 2 = 1) = of_nat (64 * (d mod 2))"
    by (cases "even d") (simp_all add: odd_iff_mod_2_eq_one)
  ultimately show ?thesis by (simp add: path_info_def)
qed

lemma mod_63_bound: "length p mod 63 < 63" for p :: nibbles
  by simp

lemma path_info_spec: "length p < 256 \<Longrightarrow> path_info p d = spec_path_info p d"
  by (simp add: path_info_nat spec_path_info_def)

lemma pack_pair:
  assumes "lo < (16 :: u8)"
  shows "push_bit 4 hi OR lo = 16 * hi + lo"
proof -
  have "push_bit 4 hi AND lo = 0"
  proof (rule bit_eqI)
    fix n
    have "lo = take_bit 4 lo"
      using assms by (simp add: word_less_nat_alt word_unat_eq_iff unsigned_take_bit_eq
          take_bit_nat_eq_self)
    then have "bit lo n \<Longrightarrow> n < 4" by (metis bit_take_bit_iff)
    then show "bit (push_bit 4 hi AND lo) n \<longleftrightarrow> bit (0 :: u8) n"
      by (auto simp: bit_and_iff bit_push_bit_iff)
  qed
  then have "push_bit 4 hi OR lo = push_bit 4 hi + lo" by (rule disjunctive_add_eq_or [symmetric])
  then show ?thesis by (simp add: push_bit_eq_mult mult.commute)
qed

lemma pack_nibbles_spec: "\<forall>x \<in> set p. x < 16 \<Longrightarrow> pack_nibbles p = spec_pairs p"
proof (induction p rule: pack_nibbles.induct)
  case (2 hi)
  then show ?case using pack_pair [of 0 hi] by simp
next
  case (3 hi lo rest)
  then show ?case by (simp add: pack_pair)
qed simp

lemma compress_spec:
  assumes "p \<noteq> []" "\<forall>x \<in> set p. x < 16"
  shows "compress_nibbles p (d mod 2 = 1) = Some (spec_compressed p d)"
proof -
  obtain x q where p: "p = x # q" using assms(1) by (cases p) auto
  show ?thesis
    using assms pack_nibbles_spec [of p] pack_nibbles_spec [of q]
    by (cases "d mod 2 = 1") (simp_all add: p compress_nibbles_def spec_compressed_def)
qed

lemma code_path_spec:
  assumes "length p < 256" "\<forall>x \<in> set p. x < 16"
  shows "code_path kc p d h = spec_path kc p d h"
proof (cases "p = []")
  case False
  show ?thesis
    using False path_info_spec [OF assms(1), of d] compress_spec [OF False assms(2), of d]
    by (simp add: code_path_def compute_path_merkle_def spec_path_def del: compute_path_merkle_total)
qed (simp add: code_path_def compute_path_merkle_def spec_path_def del: compute_path_merkle_total)

lemma node_prefix_nibbles:
  assumes "nibble_keys es" "block es rp \<noteq> []"
  shows "\<forall>x \<in> set (node_prefix es rp). x < 16"
    "length (node_prefix es rp) \<le> max_key_len es"
proof -
  obtain kv where kv: "kv \<in> set (block es rp)" using assms(2) by (meson last_in_set)
  have p: "prefix (node_prefix es rp) (fst kv)" by (rule node_prefix_common [OF kv])
  have mem: "kv \<in> set es" using kv by (simp add: set_block)
  show "\<forall>x \<in> set (node_prefix es rp). x < 16"
    using assms(1) mem set_mono_prefix [OF p] by (auto simp: nibble_keys_def)
  show "length (node_prefix es rp) \<le> max_key_len es"
    using prefix_length_le [OF p] max_key_len_ge [OF mem] by simp
qed

lemma subtree_hash_path_cong:
  "\<lbrakk>nibble_keys es; max_key_len es \<le> 256\<rbrakk> \<Longrightarrow>
   code_subtree kc es rp = subtree_hash (spec_node kc) (spec_path kc) es rp"
proof (induction "spec_node kc" "spec_path kc" es rp rule: subtree_hash.induct)
  case (1 es rp)
  show ?case
  proof (cases "block es rp = []")
    case False
    let ?fp = "node_prefix es rp"
    note fp = node_prefix_nibbles [OF "1.prems"(1) False]
    have kids: "code_subtree kc es (?fp @ [of_nat c])
        = subtree_hash (spec_node kc) (spec_path kc) es (?fp @ [of_nat c])"
      if "c \<in> set [0..<CHILDREN]" for c
    proof (cases "block es (?fp @ [of_nat c]) = []")
      case f: False
      show ?thesis by (rule "1.hyps" [OF False refl that f "1.prems"])
    qed (simp add: subtree_hash_empty)
    have path: "code_path kc (drop (length rp) ?fp) (length rp) h
        = spec_path kc (drop (length rp) ?fp) (length rp) h" for h
    proof (rule code_path_spec)
      show "\<forall>x \<in> set (drop (length rp) ?fp). x < 16" using fp(1) by (auto dest: in_set_dropD)
      show "length (drop (length rp) ?fp) < 256"
        using fp(2) "1.prems"(2) by (cases rp) (simp_all add: node_prefix_def)
    qed
    have kids_map: "map (\<lambda>c. code_subtree kc es (?fp @ [of_nat c])) [0..<CHILDREN]
        = map (\<lambda>c. subtree_hash (spec_node kc) (spec_path kc) es (?fp @ [of_nat c])) [0..<CHILDREN]"
      by (rule map_cong [OF refl kids])
    show ?thesis
      unfolding subtree_hash_step [OF False refl] path code_node_spec
      by (simp only: kids_map [unfolded code_node_spec])
  qed (simp add: subtree_hash_empty)
qed

lemma nibble_entries_len:
  "\<forall>kv \<in> set m. length (fst kv) \<le> n \<Longrightarrow> max_key_len (nibble_entries m) \<le> 2 * n"
  by (induction m) (auto simp: max_key_len_def nibble_entries_def)

lemma trie_root_spec_root:
  assumes "bt_wf kv" "\<forall>e \<in> set kv. length (fst e) \<le> 128"
  shows "trie_root kc kv = Some (spec_root kc kv)"
proof -
  have "max_key_len (nibble_entries kv) \<le> 256"
    using nibble_entries_len [OF assms(2)] by simp
  then show ?thesis
    unfolding trie_root_correct [OF assms(1)] spec_root_def
    by (simp only: subtree_hash_path_cong [OF nibble_entries_keys])
qed

end
