(* ===== verification/Trie_Binding.thy ===== *)
theory Trie_Binding
  imports Trie_Theorems
begin

text \<open>
  A root binds its map: two maps with the same root have the same values, or computing the
  two roots hashes two different byte strings to one hash, or some byte string to the null
  hash. Nothing is assumed of the hash function; the byte strings are those the walk hashes.
\<close>

subsection \<open>The byte strings that are hashed\<close>

definition node_preimage :: "h256 list \<Rightarrow> bytes option \<Rightarrow> bytes" where
  "node_preimage children value =
     0x6e # concat (map as_bytes children) @ (case value of None \<Rightarrow> [] | Some v \<Rightarrow> 0x76 # v)"

definition path_preimage :: "nibbles \<Rightarrow> nat \<Rightarrow> h256 \<Rightarrow> bytes" where
  "path_preimage p d core =
     path_info p d # the (compress_nibbles p (d mod 2 = 1)) @ as_bytes core"

lemma code_node_preimage: "code_node kc children value = kc (node_preimage children value)"
  by (simp add: compute_node_merkle_def node_preimage_def)

lemma code_path_preimage:
  "code_path kc p d h = (if p = [] then h else kc (path_preimage p d h))"
  by (cases p)
    (auto simp: code_path_def compute_path_merkle_def compress_nibbles_def path_preimage_def
      simp del: compute_path_merkle_total)

definition child_hashes :: "(bytes \<Rightarrow> h256) \<Rightarrow> entries \<Rightarrow> nibbles \<Rightarrow> h256 list" where
  "child_hashes kc es fp = map (\<lambda>c. code_subtree kc es (fp @ [of_nat c])) [0..<CHILDREN]"

definition core_preimage :: "(bytes \<Rightarrow> h256) \<Rightarrow> entries \<Rightarrow> nibbles \<Rightarrow> bytes" where
  "core_preimage kc es fp =
     node_preimage (child_hashes kc es fp) (map_option merkle_value (bt_get es fp))"

definition top_preimage :: "(bytes \<Rightarrow> h256) \<Rightarrow> entries \<Rightarrow> nibbles \<Rightarrow> bytes" where
  "top_preimage kc es rp =
     (let fp = node_prefix es rp; p = drop (length rp) fp
      in if p = [] then core_preimage kc es fp
         else path_preimage p (length rp) (kc (core_preimage kc es fp)))"

function hashed_inputs :: "(bytes \<Rightarrow> h256) \<Rightarrow> entries \<Rightarrow> nibbles \<Rightarrow> bytes list" where
  "hashed_inputs kc es rp =
     (if block es rp = [] then []
      else
        (let fp = node_prefix es rp
         in core_preimage kc es fp # top_preimage kc es rp
            # concat (map (\<lambda>c. if block es (fp @ [of_nat c]) = [] then []
                               else hashed_inputs kc es (fp @ [of_nat c])) [0..<CHILDREN])))"
  by pat_completeness auto
termination
proof (relation "measure (\<lambda>(_, es, rp). Suc (max_key_len es) - length rp)", goal_cases)
  case (2 kc es rp fp c)
  then have "length rp \<le> length fp"
    using node_prefix_extends [of es rp] by (simp add: prefix_length_le)
  with 2 show ?case
    using block_max_key_len [of es "fp @ [of_nat c]"] by simp
qed simp

declare hashed_inputs.simps [simp del]

lemma subtree_top:
  assumes "block es rp \<noteq> []"
  shows "code_subtree kc es rp = kc (top_preimage kc es rp)"
  using subtree_hash_step [OF assms refl, of "code_node kc" "code_path kc"]
  by (simp add: top_preimage_def Let_def core_preimage_def child_hashes_def code_node_preimage
      code_path_preimage)

lemma inputs_here:
  "block es rp \<noteq> [] \<Longrightarrow>
   core_preimage kc es (node_prefix es rp) \<in> set (hashed_inputs kc es rp)
   \<and> top_preimage kc es rp \<in> set (hashed_inputs kc es rp)"
  by (subst (1 2) hashed_inputs.simps) (simp add: Let_def)

lemma inputs_below:
  assumes "block es rp \<noteq> []" "fp = node_prefix es rp" "c < CHILDREN"
  shows "set (hashed_inputs kc es (fp @ [of_nat c])) \<subseteq> set (hashed_inputs kc es rp)"
proof (cases "block es (fp @ [of_nat c]) = []")
  case False
  have "hashed_inputs kc es rp = core_preimage kc es fp # top_preimage kc es rp
      # concat (map (\<lambda>c. if block es (fp @ [of_nat c]) = [] then []
                          else hashed_inputs kc es (fp @ [of_nat c])) [0..<CHILDREN])"
    using assms(1) unfolding assms(2) by (subst hashed_inputs.simps) (simp add: Let_def)
  then show ?thesis using assms(3) False by (auto simp: Bex_def)
qed (simp add: hashed_inputs.simps)

subsection \<open>The encodings are injective\<close>

lemma concat_blocks_inj:
  "length xs = length ys \<Longrightarrow> concat (map as_bytes xs) @ u = concat (map as_bytes ys) @ v \<Longrightarrow>
   xs = ys \<and> u = v"
  by (induction xs ys rule: list_induct2) auto

lemma node_preimage_inj:
  "length xs = length ys \<Longrightarrow> node_preimage xs u = node_preimage ys v \<Longrightarrow> xs = ys \<and> u = v"
proof -
  assume len: "length xs = length ys" and eq: "node_preimage xs u = node_preimage ys v"
  from eq have "concat (map as_bytes xs) @ (case u of None \<Rightarrow> [] | Some w \<Rightarrow> 0x76 # w)
      = concat (map as_bytes ys) @ (case v of None \<Rightarrow> [] | Some w \<Rightarrow> 0x76 # w)"
    by (simp add: node_preimage_def)
  from concat_blocks_inj [OF len this] show ?thesis by (cases u; cases v) auto
qed

lemma path_info_eq:
  assumes "path_info p d = path_info q d"
  shows "(length p mod 256) mod 63 = (length q mod 256) mod 63"
proof -
  have "128 + 64 * (d mod 2) + x mod 63 < 256" for x :: nat
    using mod_less_divisor [of 2 d] mod_less_divisor [of 63 x] by linarith
  then have "128 + 64 * (d mod 2) + (length p mod 256) mod 63 = 128 + 64 * (d mod 2) + (length q mod 256) mod 63"
    using assms unfolding path_info_nat by (metis of_nat_u8_inj)
  then show ?thesis by simp
qed

lemma path_info_first: "path_info p d \<noteq> 0x6e"
proof -
  have lt: "128 + 64 * (d mod 2) + x mod 63 < 256" for x :: nat
    using mod_less_divisor [of 2 d] mod_less_divisor [of 63 x] by linarith
  have "unat (path_info p d) \<ge> 128" by (simp only: path_info_nat unat_of_nat_u8 [OF lt])
  then show ?thesis by auto
qed

lemma length_spec_pairs [simp]: "length (spec_pairs p) = (length p + 1) div 2"
  by (induction p rule: spec_pairs.induct) auto

lemma u8_pair_inj:
  assumes "a < (16 :: u8)" "b < 16" "c < 16" "e < 16" "16 * a + b = 16 * c + e"
  shows "a = c \<and> b = e"
proof -
  have u: "unat (16 * x + y) = 16 * unat x + unat y" if "x < 16" "y < 16" for x y :: u8
    using that by (simp add: word_less_nat_alt unat_word_ariths)
  have eq: "16 * unat a + unat b = 16 * unat c + unat e"
    using u [OF assms(1,2)] u [OF assms(3,4)] assms(5) by simp
  have lt: "unat a < 16" "unat b < 16" "unat c < 16" "unat e < 16"
    using assms by (simp_all add: word_less_nat_alt)
  have "unat a = (16 * unat a + unat b) div 16" "unat c = (16 * unat c + unat e) div 16"
    using lt by simp_all
  with eq have "unat a = unat c" by simp
  moreover from this have "unat b = unat e"
    using eq by simp
  ultimately show ?thesis by (simp add: word_unat_eq_iff)
qed

lemma spec_pairs_inj:
  "length p = length q \<Longrightarrow> \<forall>x \<in> set p. x < 16 \<Longrightarrow> \<forall>x \<in> set q. x < 16 \<Longrightarrow>
   spec_pairs p = spec_pairs q \<Longrightarrow> p = q"
proof (induction p arbitrary: q rule: spec_pairs.induct)
  case (2 hi)
  then obtain y where "q = [y]" by (cases q) auto
  with 2 show ?case using u8_pair_inj [of hi 0 y 0] by simp
next
  case (3 hi lo rest)
  then obtain a b r where q: "q = a # b # r"
    by (metis Suc_length_conv length_Cons)
  show ?case using "3.IH" [of r] "3.prems" u8_pair_inj [of hi lo a b] by (simp add: q)
qed simp

text \<open>Packed lengths leave two candidates, which the count modulo 63 tells apart.\<close>

lemma consecutive_counts: "Suc k mod 256 mod 63 \<noteq> k mod 256 mod (63 :: nat)"
  by (auto simp: mod_Suc)

lemma length_from_count:
  assumes "(m + 1) div 2 = ((n :: nat) + 1) div 2" "(m + e) mod 256 mod 63 = (n + e) mod 256 mod 63"
  shows "m = n"
proof -
  define a where "a = (m + 1) div 2"
  have "m + 1 = 2 * a + (m + 1) mod 2" "n + 1 = 2 * a + (n + 1) mod 2"
    unfolding a_def using assms(1) by (metis mult_div_mod_eq)+
  moreover have "(m + 1) mod 2 = 0 \<or> (m + 1) mod 2 = 1" "(n + 1) mod 2 = 0 \<or> (n + 1) mod 2 = 1"
    by (simp_all add: mod2_eq_if)
  ultimately have "m = n \<or> n = Suc m \<or> m = Suc n" by (elim disjE) simp_all
  then show ?thesis
    using assms(2) consecutive_counts by (metis add_Suc)
qed

lemma path_preimage_inj:
  assumes "p \<noteq> []" "q \<noteq> []" "\<forall>x \<in> set p. x < 16" "\<forall>x \<in> set q. x < 16"
    and eq: "path_preimage p d a = path_preimage q d b"
  shows "p = q \<and> a = b"
proof -
  have c: "compress_nibbles p (d mod 2 = 1) = Some (spec_compressed p d)"
    "compress_nibbles q (d mod 2 = 1) = Some (spec_compressed q d)"
    using compress_spec assms by blast+
  from eq have info: "path_info p d = path_info q d"
    and rest: "spec_compressed p d @ as_bytes a = spec_compressed q d @ as_bytes b"
    unfolding path_preimage_def c option.sel by (simp_all only: list.inject)
  from rest have sc: "spec_compressed p d = spec_compressed q d" and ab: "a = b"
    by (simp_all add: append_eq_append_conv)
  obtain x p' y q' where pq: "p = x # p'" "q = y # q'" using assms(1,2) by (metis neq_Nil_conv)
  note cnt = path_info_eq [OF info]
  have "p = q"
  proof (cases "d mod 2 = 1")
    case True
    then have "x = y" "spec_pairs p' = spec_pairs q'" using sc by (simp_all add: spec_compressed_def pq)
    moreover from this have "length p' = length q'"
      using length_from_count [of "length p'" "length q'" 1] cnt
      by (metis One_nat_def Suc_eq_plus1 length_Cons length_spec_pairs pq)
    ultimately show ?thesis using spec_pairs_inj [of p' q'] assms(3,4) by (simp add: pq)
  next
    case False
    then have e: "spec_pairs p = spec_pairs q" using sc by (simp add: spec_compressed_def)
    then have "length p = length q"
      using length_from_count [of "length p" "length q" 0] cnt by (metis add_0_right length_spec_pairs)
    then show ?thesis using spec_pairs_inj [OF _ assms(3,4) e] by simp
  qed
  with ab show ?thesis by simp
qed


subsection \<open>Equal roots\<close>

definition null_preimage :: "(bytes \<Rightarrow> h256) \<Rightarrow> bytes list \<Rightarrow> bool" where
  "null_preimage kc inputs \<longleftrightarrow> list_ex (\<lambda>a. kc a = MERKLE_NULL_NODE) inputs"

definition collision :: "(bytes \<Rightarrow> h256) \<Rightarrow> bytes list \<Rightarrow> bytes list \<Rightarrow> bool" where
  "collision kc inputs inputs' \<longleftrightarrow>
     list_ex (\<lambda>a. list_ex (\<lambda>b. a \<noteq> b \<and> kc a = kc b) inputs') inputs"

lemma collision_mono:
  "set xs \<subseteq> set xs' \<Longrightarrow> set ys \<subseteq> set ys' \<Longrightarrow> collision kc xs ys \<Longrightarrow> collision kc xs' ys'"
  unfolding collision_def list_ex_iff by blast

lemma null_preimage_mono: "set xs \<subseteq> set xs' \<Longrightarrow> null_preimage kc xs \<Longrightarrow> null_preimage kc xs'"
  unfolding null_preimage_def list_ex_iff by blast

lemma no_collision:
  "\<not> collision kc xs ys \<Longrightarrow> a \<in> set xs \<Longrightarrow> b \<in> set ys \<Longrightarrow> kc a = kc b \<Longrightarrow> a = b"
  by (auto simp: collision_def list_ex_iff)

lemma subtree_null:
  "\<not> null_preimage kc (hashed_inputs kc es rp) \<Longrightarrow> code_subtree kc es rp = MERKLE_NULL_NODE \<Longrightarrow>
   block es rp = []"
  unfolding null_preimage_def list_ex_iff by (metis subtree_top inputs_here)

lemma empty_block_get: "block es rp = [] \<Longrightarrow> prefix rp k \<Longrightarrow> bt_get es k = None"
  using bt_get_block [of es rp k] by simp

lemma top_preimage_inj:
  assumes nk: "nibble_keys es" "nibble_keys es'" and ne: "block es rp \<noteq> []" "block es' rp \<noteq> []"
    and eq: "top_preimage kc es rp = top_preimage kc es' rp"
    and core: "kc (core_preimage kc es (node_prefix es rp)) = kc (core_preimage kc es' (node_prefix es' rp))
      \<Longrightarrow> core_preimage kc es (node_prefix es rp) = core_preimage kc es' (node_prefix es' rp)"
  shows "node_prefix es rp = node_prefix es' rp
     \<and> core_preimage kc es (node_prefix es rp) = core_preimage kc es' (node_prefix es' rp)"
proof -
  let ?q = "drop (length rp) (node_prefix es rp)" and ?q' = "drop (length rp) (node_prefix es' rp)"
  have split: "node_prefix es rp = rp @ ?q" "node_prefix es' rp = rp @ ?q'"
    using node_prefix_extends [OF ne(1)] node_prefix_extends [OF ne(2)] by (auto simp: prefix_def)
  have nib: "\<forall>x \<in> set ?q. x < 16" "\<forall>x \<in> set ?q'. x < 16"
    using node_prefix_nibbles(1) [OF nk(1) ne(1)] node_prefix_nibbles(1) [OF nk(2) ne(2)]
    by (auto dest: in_set_dropD)
  have mixed: "core_preimage kc e f \<noteq> path_preimage p d h" for e f p d h
    using path_info_first [of p d] by (auto simp: core_preimage_def node_preimage_def path_preimage_def)
  show ?thesis
  proof (cases "?q = [] \<or> ?q' = []")
    case True
    then have "?q = []" "?q' = []"
      using eq mixed mixed [symmetric] by (auto simp: top_preimage_def Let_def split: if_splits)
    then show ?thesis using eq split by (simp add: top_preimage_def Let_def)
  next
    case False
    then have "path_preimage ?q (length rp) (kc (core_preimage kc es (node_prefix es rp)))
        = path_preimage ?q' (length rp) (kc (core_preimage kc es' (node_prefix es' rp)))"
      using eq by (simp add: top_preimage_def Let_def)
    from path_preimage_inj [OF _ _ nib this] False core split show ?thesis by metis
  qed
qed

lemma key_above_children:
  assumes "nibble_keys es" "block es rp \<noteq> []" "prefix rp k" "\<not> prefix (node_prefix es rp) k"
  shows "bt_get es k = None"
proof (rule ccontr)
  assume "bt_get es k \<noteq> None"
  then obtain v where "(k, v) \<in> set (block es rp)"
    using assms(3) by (auto simp: set_block dest: bt_get_SomeD)
  then show False using node_prefix_common [of "(k, v)" es rp] assms(4) by simp
qed

lemma not_nibble_key: "nibble_keys es \<Longrightarrow> \<not> c < 16 \<Longrightarrow> bt_get es (p @ c # r) = None"
  by (rule ccontr) (auto simp: nibble_keys_def dest!: bt_get_SomeD)

lemma subtree_values_eq:
  assumes nk': "nibble_keys es'"
  shows "\<lbrakk>nibble_keys es; code_subtree kc es rp = code_subtree kc es' rp;
    \<not> collision kc (hashed_inputs kc es rp) (hashed_inputs kc es' rp);
    \<not> null_preimage kc (hashed_inputs kc es rp); \<not> null_preimage kc (hashed_inputs kc es' rp);
    prefix rp k\<rbrakk> \<Longrightarrow>
    map_option merkle_value (bt_get es k) = map_option merkle_value (bt_get es' k)"
proof (induction "code_node kc" "code_path kc" es rp rule: subtree_hash.induct)
  case (1 es rp)
  note nk = "1.prems"(1) and eq = "1.prems"(2) and nocol = "1.prems"(3)
    and null = "1.prems"(4,5) and k = "1.prems"(6)
  have both: "block es rp = [] \<longleftrightarrow> block es' rp = []"
    using subtree_null [OF null(1)] subtree_null [OF null(2)] eq
    by (metis subtree_hash_empty)
  show ?case
  proof (cases "block es rp = []")
    case True
    with both k show ?thesis by (simp add: empty_block_get)
  next
    case ne: False
    with both have ne': "block es' rp \<noteq> []" by simp
    note here = inputs_here [OF ne, of kc] inputs_here [OF ne', of kc]
    let ?fp = "node_prefix es rp"
    have "top_preimage kc es rp = top_preimage kc es' rp"
      using eq here by (intro no_collision [OF nocol]) (simp_all add: subtree_top ne ne')
    from top_preimage_inj [OF nk nk' ne ne' this] no_collision [OF nocol] here
    have fp: "node_prefix es' rp = ?fp" and core: "core_preimage kc es ?fp = core_preimage kc es' ?fp"
      by metis+
    from core have kids: "child_hashes kc es ?fp = child_hashes kc es' ?fp"
      and val: "map_option merkle_value (bt_get es ?fp) = map_option merkle_value (bt_get es' ?fp)"
      using node_preimage_inj [of "child_hashes kc es ?fp" "child_hashes kc es' ?fp"]
      by (simp_all add: core_preimage_def child_hashes_def)
    show ?thesis
    proof (cases "prefix ?fp k")
      case False
      then show ?thesis
        using key_above_children [OF nk ne k] key_above_children [OF nk' ne' k] fp by simp
    next
      case True
      then obtain r where r: "k = ?fp @ r" by (auto simp: prefix_def)
      show ?thesis
      proof (cases r)
        case Nil
        with r val show ?thesis by simp
      next
        case (Cons c r')
        show ?thesis
        proof (cases "c < 16")
          case False
          show ?thesis by (simp add: r Cons not_nibble_key [OF nk False] not_nibble_key [OF nk' False])
        next
          case True
          define n where "n = unat c"
          have n: "n < CHILDREN" "of_nat n = c" using True by (simp_all add: n_def CHILDREN_def word_less_nat_alt)
          have sub: "set (hashed_inputs kc es (?fp @ [of_nat n])) \<subseteq> set (hashed_inputs kc es rp)"
            "set (hashed_inputs kc es' (?fp @ [of_nat n])) \<subseteq> set (hashed_inputs kc es' rp)"
            using inputs_below [OF ne refl n(1)] inputs_below [OF ne' fp [symmetric] n(1)] by blast+
          have child: "code_subtree kc es (?fp @ [of_nat n]) = code_subtree kc es' (?fp @ [of_nat n])"
            using kids n(1) by (auto simp: child_hashes_def)
          have null': "\<not> null_preimage kc (hashed_inputs kc es (?fp @ [of_nat n]))"
            "\<not> null_preimage kc (hashed_inputs kc es' (?fp @ [of_nat n]))"
            using null null_preimage_mono [OF sub(1)] null_preimage_mono [OF sub(2)] by blast+
          have pk: "prefix (?fp @ [of_nat n]) k" using r Cons n(2) by simp
          show ?thesis
          proof (cases "block es (?fp @ [of_nat n]) = []")
            case True
            then have "block es' (?fp @ [of_nat n]) = []"
              using child by (intro subtree_null [OF null'(2)]) (simp add: subtree_hash_empty)
            with True pk show ?thesis by (simp add: empty_block_get)
          next
            case f: False
            show ?thesis
            proof (rule "1.hyps" [OF ne refl _ f nk child _ null' pk])
              show "n \<in> set [0..<CHILDREN]" using n(1) by simp
              show "\<not> collision kc (hashed_inputs kc es (?fp @ [of_nat n]))
                  (hashed_inputs kc es' (?fp @ [of_nat n]))"
                using nocol collision_mono [OF sub] by blast
            qed
          qed
        qed
      qed
    qed
  qed
qed

end
