(* ===== verification/Mpt_Snapshot.thy ===== *)
theory Mpt_Snapshot
  imports Merkle_Map
begin

text \<open>
  \<open>crates/minimal-mpt/src/snapshot.rs\<close>, the in-memory backend: the bottom layer of the
  state, an incremental trie over canonical keys that holds live values only. The interface
  \<open>snapshot_layer\<close> is what the state uses of it.
\<close>

record snapshot_trie =
  st_inner :: incremental_trie

definition st_default :: snapshot_trie where
  "st_default = \<lparr>st_inner = it_default\<rparr>"

definition st_from_snapshot :: "(bytes, bytes) btree \<Rightarrow> snapshot_trie" where
  "st_from_snapshot snapshot = \<lparr>st_inner = from_snapshot snapshot\<rparr>"

definition st_insert :: "bytes \<Rightarrow> mpt_value \<Rightarrow> snapshot_trie \<Rightarrow> snapshot_trie" where
  "st_insert key value s = s\<lparr>st_inner := it_insert key value (st_inner s)\<rparr>"

definition st_remove :: "bytes \<Rightarrow> snapshot_trie \<Rightarrow> snapshot_trie" where
  "st_remove key s = s\<lparr>st_inner := it_remove key (st_inner s)\<rparr>"

definition st_apply_updates :: "(bytes \<times> mpt_value) list \<Rightarrow> snapshot_trie \<Rightarrow> snapshot_trie" where
  "st_apply_updates updates s =
     fold (\<lambda>u. case snd u of MptSome value \<Rightarrow> st_insert (fst u) (MptSome value)
               | Tombstone \<Rightarrow> st_remove (fst u)) updates s"

definition st_root_with_policy ::
  "(bytes \<Rightarrow> h256) \<Rightarrow> cache_policy \<Rightarrow> snapshot_trie \<Rightarrow> (h256 \<times> snapshot_trie) option" where
  "st_root_with_policy kc policy s =
     map_option (\<lambda>(h, t). (h, s\<lparr>st_inner := t\<rparr>)) (root_with_policy kc policy (st_inner s))"

definition snapshot_get_owned :: "snapshot_trie \<Rightarrow> bytes \<Rightarrow> bytes option" where
  "snapshot_get_owned s canonical = snapshot_get (st_inner s) canonical"

definition st_scan_prefix :: "snapshot_trie \<Rightarrow> bytes \<Rightarrow> (bytes \<times> bytes) list" where
  "st_scan_prefix s canonical_prefix = snapshot_scan_prefix (st_inner s) canonical_prefix"

definition st_to_canonical_map :: "snapshot_trie \<Rightarrow> (bytes, bytes) btree" where
  "st_to_canonical_map s = to_canonical_map (st_inner s)"

definition st_len :: "snapshot_trie \<Rightarrow> nat" where
  "st_len s = it_len (st_inner s)"

subsection \<open>The interface of the snapshot layer\<close>

definition live_values :: "(bytes, bytes) btree \<Rightarrow> (bytes, mpt_value) btree" where
  "live_values m = map (\<lambda>e. (fst e, MptSome (snd e))) m"

lemma live_values_wf [simp]: "bt_wf (live_values m) \<longleftrightarrow> bt_wf m"
  by (simp add: live_values_def bt_wf_def comp_def)

lemma bt_get_live_values: "bt_get (live_values m) k = map_option MptSome (bt_get m k)"
  by (simp add: live_values_def bt_get_map_values)

locale snapshot_layer = kv_map lookup update delete invar
  for lookup :: "'m \<Rightarrow> bytes \<Rightarrow> bytes option"
    and update :: "bytes \<Rightarrow> bytes \<Rightarrow> 'm \<Rightarrow> 'm"
    and delete :: "bytes \<Rightarrow> 'm \<Rightarrow> 'm"
    and invar :: "'m \<Rightarrow> bool" +
  fixes kc :: "bytes \<Rightarrow> h256"
    and load :: "(bytes, bytes) btree \<Rightarrow> 'm"
    and canonical_map :: "'m \<Rightarrow> (bytes, bytes) btree"
    and scan :: "'m \<Rightarrow> bytes \<Rightarrow> (bytes \<times> bytes) list"
    and root :: "'m \<Rightarrow> (h256 \<times> 'm) option"
  assumes load_law: "bt_wf kv \<Longrightarrow> invar (load kv) \<and> canonical_map (load kv) = kv"
    and map_wf: "invar m \<Longrightarrow> bt_wf (canonical_map m)"
    and map_lookup: "invar m \<Longrightarrow> bt_get (canonical_map m) = lookup m"
    and scan_law: "invar m \<Longrightarrow> scan m p = filter (\<lambda>kv. prefix p (fst kv)) (canonical_map m)"
    and root_law: "invar m \<Longrightarrow>
      \<exists>m'. root m = Some (the (trie_root kc (live_values (canonical_map m))), m')
         \<and> invar m' \<and> canonical_map m' = canonical_map m"
begin

lemma canonical_map_determined:
  "invar m \<Longrightarrow> bt_wf kv \<Longrightarrow> (\<And>k. lookup m k = bt_get kv k) \<Longrightarrow> canonical_map m = kv"
  by (rule bt_get_ext) (simp_all add: map_wf map_lookup)

lemma map_update: "invar m \<Longrightarrow> canonical_map (update k v m) = bt_insert k v (canonical_map m)"
  by (rule canonical_map_determined)
    (simp_all add: invar_update map_wf lookup_update map_lookup)

lemma map_delete: "invar m \<Longrightarrow> canonical_map (delete k m) = bt_remove k (canonical_map m)"
  by (rule canonical_map_determined)
    (simp_all add: invar_delete map_wf lookup_delete map_lookup)

text \<open>Any change of the layer followed by a reload of its map is not observed by reads.\<close>

lemma reload_lookup: "invar m \<Longrightarrow> lookup (load (canonical_map m)) = lookup m"
  using load_law [OF map_wf, of m] by (simp add: fun_eq_iff flip: map_lookup)

lemma reload_root:
  assumes "invar m"
  shows "map_option fst (root (load (canonical_map m))) = map_option fst (root m)"
  using root_law [OF assms] load_law [OF map_wf [OF assms]] root_law [of "load (canonical_map m)"]
  by auto

lemma root_eq:
  "invar m \<Longrightarrow> root m = Some (h, m') \<Longrightarrow>
   h = the (trie_root kc (live_values (canonical_map m))) \<and> invar m' \<and> canonical_map m' = canonical_map m"
  using root_law [of m] by auto

end

subsection \<open>The in-memory backend\<close>

definition all_live :: "(nibbles, mpt_value) btree \<Rightarrow> bool" where
  "all_live es \<longleftrightarrow> list_all (\<lambda>kv. \<not> is_tombstone (snd kv)) es"

definition st_inv :: "(bytes \<Rightarrow> h256) \<Rightarrow> snapshot_trie \<Rightarrow> bool" where
  "st_inv kc s \<longleftrightarrow> it_inv kc (st_inner s) \<and> all_live (it_entries (st_inner s))"

lemma all_live_insert: "all_live es \<Longrightarrow> all_live (bt_insert k (MptSome v) es)"
  using set_bt_insert_subset [of k "MptSome v" es] by (auto simp: all_live_def list_all_iff)

lemma all_live_remove: "all_live es \<Longrightarrow> all_live (bt_remove k es)"
  using set_bt_remove_subset [of k es] by (auto simp: all_live_def list_all_iff)

lemma not_tombstone: "\<not> is_tombstone v \<Longrightarrow> v = MptSome (merkle_value v)"
  by (cases v) auto

lemma visible_pairs_live:
  "all_live es \<Longrightarrow>
   visible_pairs es = map (\<lambda>kv. (nibbles_to_bytes (fst kv), merkle_value (snd kv))) es"
proof (induction es)
  case (Cons kv es)
  then show ?case
    by (cases kv; cases "snd kv") (auto simp: visible_pairs_def all_live_def List.map_filter_simps)
qed (simp add: visible_pairs_def List.map_filter_simps)

lemma visible_pairs_wf:
  assumes "bt_wf es" "byte_aligned es" "all_live es"
  shows "bt_wf (visible_pairs es)"
  using assms byte_entries_wf [of es]
  by (simp add: visible_pairs_live bt_wf_def byte_entries_def comp_def)

lemma st_map_visible:
  assumes "st_inv kc s"
  shows "st_to_canonical_map s = visible_pairs (it_entries (st_inner s))"
  using assms unfolding st_to_canonical_map_def to_canonical_map_def st_inv_def it_inv_def
  by (intro bt_collect_sorted visible_pairs_wf) auto

lemma live_values_map:
  assumes "st_inv kc s"
  shows "live_values (st_to_canonical_map s) = it_contents (st_inner s)"
proof -
  have l: "all_live (it_entries (st_inner s))" using assms by (simp add: st_inv_def)
  have "map (\<lambda>kv. (nibbles_to_bytes (fst kv), MptSome (merkle_value (snd kv)))) es
      = map (\<lambda>kv. (nibbles_to_bytes (fst kv), snd kv)) es" if "all_live es" for es
    using that by (auto simp: all_live_def list_all_iff simp flip: not_tombstone)
  with l show ?thesis
    by (simp add: st_map_visible [OF assms] visible_pairs_live live_values_def it_contents_def
        byte_entries_def comp_def)
qed

lemma st_lookup_map:
  assumes "st_inv kc s"
  shows "bt_get (st_to_canonical_map s) k = snapshot_get_owned s k"
proof -
  have "map_option MptSome (bt_get (st_to_canonical_map s) k) = it_lookup (st_inner s) k"
    using assms live_values_map [OF assms] bt_get_it_contents [of kc "st_inner s" k]
      bt_get_live_values [of "st_to_canonical_map s" k] by (simp add: st_inv_def)
  then have l: "bt_get (it_entries (st_inner s)) (bytes_to_nibbles k)
      = map_option MptSome (bt_get (st_to_canonical_map s) k)" by (simp add: it_lookup_def)
  show ?thesis
    by (cases "bt_get (st_to_canonical_map s) k")
      (simp_all add: snapshot_get_owned_def snapshot_get_def l)
qed

lemma filter_map_visible:
  "all_live es \<Longrightarrow> byte_aligned es \<Longrightarrow>
   visible_pairs (filter (\<lambda>kv. prefix (bytes_to_nibbles p) (fst kv)) es)
     = filter (\<lambda>kv. prefix p (fst kv)) (visible_pairs es)"
proof -
  assume a: "all_live es" "byte_aligned es"
  then have "all_live (filter (\<lambda>kv. prefix (bytes_to_nibbles p) (fst kv)) es)"
    by (simp add: all_live_def list_all_iff)
  then show ?thesis
    using a by (auto simp: visible_pairs_live filter_map comp_def byte_aligned_def
        intro!: arg_cong [where f = "map _"] filter_cong)
qed

lemma st_scan_map:
  assumes "st_inv kc s"
  shows "st_scan_prefix s p = filter (\<lambda>kv. prefix p (fst kv)) (st_to_canonical_map s)"
proof -
  let ?es = "it_entries (st_inner s)"
  have i: "bt_wf ?es" "byte_aligned ?es" "all_live ?es"
    using assms by (auto simp: st_inv_def it_inv_def)
  have "bt_range ?es (bytes_to_nibbles p) (prefix_upper (bytes_to_nibbles p))
      = filter (\<lambda>kv. prefix (bytes_to_nibbles p) (fst kv)) ?es"
    using range_is_block [OF byte_aligned_nibble_keys [OF i(2)], of "bytes_to_nibbles p"]
    by (simp add: prefix_upper_def CHILDREN_def block_def)
  then show ?thesis
    using filter_map_visible [OF i(3,2)]
    by (simp add: st_scan_prefix_def snapshot_scan_prefix_def Let_def st_map_visible [OF assms])
qed

lemma st_inv_load: "bt_wf m \<Longrightarrow> st_inv kc (st_from_snapshot m)"
  by (simp add: st_inv_def st_from_snapshot_def it_inv_from_snapshot from_snapshot_entries
      all_live_def list_all_iff nibble_entries_def)

lemma st_inv_default [simp]: "st_inv kc st_default"
  using st_inv_load [of "[]" kc]
  by (simp add: st_default_def st_from_snapshot_def from_snapshot_def it_default_def bt_collect_def
      bt_extend_def)

lemma st_default_map [simp]: "st_to_canonical_map st_default = []"
  by (simp add: st_default_def st_to_canonical_map_def to_canonical_map_def it_default_def
      visible_pairs_def List.map_filter_simps bt_collect_def bt_extend_def)

lemma st_map_load: "bt_wf m \<Longrightarrow> st_to_canonical_map (st_from_snapshot m) = m"
proof -
  assume m: "bt_wf m"
  have "live_values (st_to_canonical_map (st_from_snapshot m)) = live_values m"
    using live_values_map [OF st_inv_load [OF m]] it_contents_from_snapshot [OF m]
    by (simp add: st_from_snapshot_def live_values_def)
  then have "map (\<lambda>kv. (fst kv, merkle_value (snd kv))) (live_values (st_to_canonical_map (st_from_snapshot m)))
      = map (\<lambda>kv. (fst kv, merkle_value (snd kv))) (live_values m)" by simp
  then show ?thesis by (simp add: live_values_def comp_def)
qed

lemma st_inv_insert: "st_inv kc s \<Longrightarrow> st_inv kc (st_insert k (MptSome v) s)"
  using it_inv_insert [of kc "st_inner s" k "MptSome v"]
  by (simp add: st_inv_def st_insert_def) (simp add: it_insert_def Let_def all_live_insert)

lemma st_inv_remove: "st_inv kc s \<Longrightarrow> st_inv kc (st_remove k s)"
  using it_inv_remove [of kc "st_inner s" k]
  by (simp add: st_inv_def st_remove_def) (simp add: it_remove_def Let_def all_live_remove)

lemma st_lookup_insert:
  "snapshot_get_owned (st_insert k (MptSome v) s) = (snapshot_get_owned s)(k \<mapsto> v)"
  by (auto simp: snapshot_get_owned_def snapshot_get_def st_insert_def it_insert_def Let_def)

lemma st_lookup_remove:
  "st_inv kc s \<Longrightarrow> snapshot_get_owned (st_remove k s) = (snapshot_get_owned s)(k := None)"
  by (auto simp: snapshot_get_owned_def snapshot_get_def st_remove_def it_remove_def Let_def
      st_inv_def it_inv_def)

lemma st_root_law:
  assumes "st_inv kc s"
  shows "\<exists>s'. st_root_with_policy kc policy s
           = Some (the (trie_root kc (live_values (st_to_canonical_map s))), s')
         \<and> st_inv kc s' \<and> st_to_canonical_map s' = st_to_canonical_map s"
proof -
  have i: "it_inv kc (st_inner s)" using assms by (simp add: st_inv_def)
  obtain t where t: "root_with_policy kc policy (st_inner s)
      = Some (the (trie_root kc (it_contents (st_inner s))), t)" "it_inv kc t"
    "it_contents t = it_contents (st_inner s)"
    using it.root_law [OF i] by blast
  have e: "it_entries t = it_entries (st_inner s)"
    using it_contents_entries [OF t(2)] it_contents_entries [OF i] t(3) by simp
  show ?thesis
    using assms t e live_values_map [OF assms]
    by (simp add: st_root_with_policy_def st_inv_def st_to_canonical_map_def to_canonical_map_def)
qed

interpretation snap: snapshot_layer snapshot_get_owned "\<lambda>k v. st_insert k (MptSome v)" st_remove
  "st_inv kc" kc st_from_snapshot st_to_canonical_map st_scan_prefix "st_root_with_policy kc policy"
  for kc policy
proof unfold_locales
  fix m assume "st_inv kc m"
  then show "bt_wf (st_to_canonical_map m)"
    unfolding st_map_visible [OF \<open>st_inv kc m\<close>]
    by (auto simp: st_inv_def it_inv_def intro: visible_pairs_wf)
qed (simp_all add: fun_eq_iff st_lookup_insert st_lookup_remove st_inv_insert st_inv_remove st_inv_load
       st_map_load st_lookup_map st_scan_map st_root_law)

text \<open>A batch of updates acts on the canonical map.\<close>

definition map_updates :: "(bytes \<times> mpt_value) list \<Rightarrow> (bytes, bytes) btree \<Rightarrow> (bytes, bytes) btree" where
  "map_updates us m =
     fold (\<lambda>u. case snd u of MptSome v \<Rightarrow> bt_insert (fst u) v | Tombstone \<Rightarrow> bt_remove (fst u)) us m"

lemma st_updates_map:
  "st_inv kc s \<Longrightarrow>
   st_inv kc (st_apply_updates us s)
   \<and> st_to_canonical_map (st_apply_updates us s) = map_updates us (st_to_canonical_map s)"
proof (induction us arbitrary: s)
  case (Cons u us)
  then show ?case
    by (cases "snd u")
      (simp_all add: st_apply_updates_def map_updates_def snap.map_update snap.map_delete
        st_inv_insert st_inv_remove)
qed (simp add: st_apply_updates_def map_updates_def)

lemma map_updates_wf [simp]: "bt_wf m \<Longrightarrow> bt_wf (map_updates us m)"
  by (induction us arbitrary: m) (auto simp: map_updates_def split: mpt_value.split)

lemma map_updates_get:
  "bt_wf m \<Longrightarrow> distinct (map fst us) \<Longrightarrow>
   bt_get (map_updates us m) k =
     (case map_of us k of Some v \<Rightarrow> visible_value v | None \<Rightarrow> bt_get m k)"
proof -
  assume a: "bt_wf m" "distinct (map fst us)"
  have e: "map_updates us m = fold bt.apply_update (map (apsnd visible_value) us) m"
    unfolding map_updates_def fold_map
    by (rule arg_cong2 [where f = "\<lambda>f. fold f us", OF _ refl])
      (auto simp: fun_eq_iff bt.apply_update_def split: mpt_value.split)
  have "map_of (map (apsnd visible_value) us) k = map_option visible_value (map_of us k)"
    by (induction us) auto
  then show ?thesis
    unfolding e using bt.batch_lookup [OF a(1), of "map (apsnd visible_value) us" k] a(2)
    by (simp add: comp_def split: option.split)
qed

end
