(* ===== verification/Mpt_Key_Codec.thy ===== *)
theory Mpt_Key_Codec
  imports Mpt_Types
begin

text \<open>
  \<open>crates/minimal-mpt/src/key_codec.rs\<close>: storage keys, their canonical bytes (the keys of
  the snapshot) and their delta bytes (the keys of the intermediate and delta layers, which
  depend on the padding of the layer), the two decoders, and the cache of account keys.
  A function that takes the cache returns it, as the \<open>&mut\<close> argument leaves it.
\<close>

definition ACCOUNT_BYTES :: nat where "ACCOUNT_BYTES = 20"
definition ACCOUNT_KEYPART_BYTES :: nat where "ACCOUNT_KEYPART_BYTES = 32"
definition ACCOUNT_PADDING_BYTES :: nat where "ACCOUNT_PADDING_BYTES = 12"
definition KEY_PADDING_BYTES :: nat where "KEY_PADDING_BYTES = 32"
definition EVM_SPACE_TYPE :: u8 where "EVM_SPACE_TYPE = 0x81"
definition STORAGE_PREFIX :: bytes where "STORAGE_PREFIX = [0x64, 0x61, 0x74, 0x61]"
definition CODE_HASH_PREFIX :: bytes where "CODE_HASH_PREFIX = [0x63, 0x6f, 0x64, 0x65]"
definition DEPOSIT_LIST_PREFIX :: bytes where
  "DEPOSIT_LIST_PREFIX = [0x64, 0x65, 0x70, 0x6f, 0x73, 0x69, 0x74]"
definition VOTE_LIST_PREFIX :: bytes where "VOTE_LIST_PREFIX = [0x76, 0x6f, 0x74, 0x65]"

lemmas key_sizes = ACCOUNT_BYTES_def ACCOUNT_KEYPART_BYTES_def ACCOUNT_PADDING_BYTES_def
  KEY_PADDING_BYTES_def

lemmas key_prefixes = EVM_SPACE_TYPE_def STORAGE_PREFIX_def CODE_HASH_PREFIX_def
  DEPOSIT_LIST_PREFIX_def VOTE_LIST_PREFIX_def

datatype storage_key =
    Account bytes
  | StorageRoot bytes
  | Storage bytes bytes
  | CodeRoot bytes
  | Code bytes bytes
  | DepositList bytes
  | VoteList bytes
  | EmptyKey
  | AddressPrefix bytes

record storage_key_with_space =
  sk_key :: storage_key
  sk_space :: space

type_synonym delta_mpt_key_padding = h256

definition native :: "storage_key \<Rightarrow> storage_key_with_space" where
  "native k = \<lparr>sk_key = k, sk_space = Native\<rparr>"

definition ethereum :: "storage_key \<Rightarrow> storage_key_with_space" where
  "ethereum k = \<lparr>sk_key = k, sk_space = Ethereum\<rparr>"

definition from_roots :: "(bytes \<Rightarrow> h256) \<Rightarrow> h256 \<Rightarrow> h256 \<Rightarrow> delta_mpt_key_padding" where
  "from_roots kc snapshot_root intermediate_delta_root =
     kc (as_bytes snapshot_root @ as_bytes intermediate_delta_root)"

definition genesis :: "(bytes \<Rightarrow> h256) \<Rightarrow> delta_mpt_key_padding" where
  "genesis kc = from_roots kc MERKLE_NULL_NODE MERKLE_NULL_NODE"

definition checked_address :: "bytes \<Rightarrow> bytes result" where
  "checked_address address =
     (if length address = ACCOUNT_BYTES then Inr address
      else Inl (Err (InvalidKey ''address must be 20 bytes'')))"

definition append_prefix :: "bytes \<Rightarrow> bytes \<Rightarrow> bytes" where
  "append_prefix address pre = address @ pre"

text \<open>\<open>Vec::splice(i..i, [b])\<close>.\<close>

definition splice_at :: "nat \<Rightarrow> u8 \<Rightarrow> bytes \<Rightarrow> bytes" where
  "splice_at i b key = take i key @ b # drop i key"

definition add_space_to_snapshot_key :: "bytes \<Rightarrow> space \<Rightarrow> bytes" where
  "add_space_to_snapshot_key key sp =
     (if sp = Ethereum then splice_at ACCOUNT_BYTES EVM_SPACE_TYPE key else key)"

definition add_space_to_delta_key :: "bytes \<Rightarrow> space \<Rightarrow> bytes" where
  "add_space_to_delta_key key sp =
     (if sp = Ethereum then splice_at ACCOUNT_KEYPART_BYTES EVM_SPACE_TYPE key else key)"

subsection \<open>Canonical keys\<close>

definition to_key_bytes :: "storage_key_with_space \<Rightarrow> bytes result" where
  "to_key_bytes k =
     (let with_space = \<lambda>key. Inr (add_space_to_snapshot_key key (sk_space k)) in
      case sk_key k of
        Account address \<Rightarrow>
          if length address < ACCOUNT_BYTES then Inr address
          else rbind (checked_address address) with_space
      | StorageRoot address \<Rightarrow>
          rbind (checked_address address) (\<lambda>a. with_space (append_prefix a STORAGE_PREFIX))
      | Storage address skey \<Rightarrow>
          rbind (checked_address address) (\<lambda>a. with_space (append_prefix a STORAGE_PREFIX @ skey))
      | CodeRoot address \<Rightarrow>
          rbind (checked_address address) (\<lambda>a. with_space (append_prefix a CODE_HASH_PREFIX))
      | Code address code_hash \<Rightarrow>
          rbind (checked_address address)
            (\<lambda>a. with_space (append_prefix a CODE_HASH_PREFIX @ code_hash))
      | DepositList address \<Rightarrow>
          rbind (checked_address address) (\<lambda>a. with_space (append_prefix a DEPOSIT_LIST_PREFIX))
      | VoteList address \<Rightarrow>
          rbind (checked_address address) (\<lambda>a. with_space (append_prefix a VOTE_LIST_PREFIX))
      | EmptyKey \<Rightarrow> Inr []
      | AddressPrefix pre \<Rightarrow> Inr pre)"

subsection \<open>Account keys and their cache\<close>

record account_key_cache =
  ac_built_for :: delta_mpt_key_padding
  ac_map :: "(bytes, bytes) btree"

definition ac_default :: "(bytes \<Rightarrow> h256) \<Rightarrow> account_key_cache" where
  "ac_default kc = \<lparr>ac_built_for = genesis kc, ac_map = []\<rparr>"

definition account_key_uncached :: "(bytes \<Rightarrow> h256) \<Rightarrow> bytes \<Rightarrow> delta_mpt_key_padding \<Rightarrow> bytes" where
  "account_key_uncached kc address padding =
     (let padded = take ACCOUNT_PADDING_BYTES (as_bytes padding) @ address;
          hash = kc padded
      in take ACCOUNT_PADDING_BYTES (as_bytes hash) @ address)"

definition new_account_key ::
  "(bytes \<Rightarrow> h256) \<Rightarrow> bytes \<Rightarrow> delta_mpt_key_padding \<Rightarrow> account_key_cache option
   \<Rightarrow> bytes \<times> account_key_cache option" where
  "new_account_key kc address padding cache =
     (case cache of
        None \<Rightarrow> (account_key_uncached kc address padding, None)
      | Some c \<Rightarrow>
          (let c = (if ac_built_for c \<noteq> padding
                    then c\<lparr>ac_map := [], ac_built_for := padding\<rparr> else c)
           in (case bt_get (ac_map c) address of
                 Some hit \<Rightarrow> (hit, Some c)
               | None \<Rightarrow>
                   (let key = account_key_uncached kc address padding
                    in (key, Some (c\<lparr>ac_map := bt_insert address key (ac_map c)\<rparr>))))))"

definition storage_key_padding ::
  "(bytes \<Rightarrow> h256) \<Rightarrow> bytes \<Rightarrow> delta_mpt_key_padding \<Rightarrow> delta_mpt_key_padding" where
  "storage_key_padding kc skey padding = kc (as_bytes padding @ skey)"

subsection \<open>Delta keys\<close>

definition to_delta_mpt_key_bytes ::
  "(bytes \<Rightarrow> h256) \<Rightarrow> storage_key_with_space \<Rightarrow> delta_mpt_key_padding \<Rightarrow> account_key_cache option
   \<Rightarrow> bytes result \<times> account_key_cache option" where
  "to_delta_mpt_key_bytes kc k padding cache =
     (let keyed = \<lambda>address suffix.
            (case checked_address address of
               Inl e \<Rightarrow> (Inl e, cache)
             | Inr a \<Rightarrow>
                 (let (key, cache') = new_account_key kc a padding cache
                  in (Inr (add_space_to_delta_key (key @ suffix) (sk_space k)), cache')))
      in case sk_key k of
        Account address \<Rightarrow>
          if length address < ACCOUNT_BYTES then (Inr address, cache) else keyed address []
      | StorageRoot address \<Rightarrow> keyed address STORAGE_PREFIX
      | Storage address skey \<Rightarrow>
          keyed address
            (STORAGE_PREFIX
             @ drop (length STORAGE_PREFIX) (as_bytes (storage_key_padding kc skey padding)) @ skey)
      | CodeRoot address \<Rightarrow> keyed address CODE_HASH_PREFIX
      | Code address code_hash \<Rightarrow> keyed address (CODE_HASH_PREFIX @ code_hash)
      | DepositList address \<Rightarrow> keyed address DEPOSIT_LIST_PREFIX
      | VoteList address \<Rightarrow> keyed address VOTE_LIST_PREFIX
      | EmptyKey \<Rightarrow> (Inr [], cache)
      | AddressPrefix pre \<Rightarrow> (Inr [], cache))"

subsection \<open>The decoders\<close>

definition from_delta_mpt_key :: "bytes \<Rightarrow> storage_key_with_space result" where
  "from_delta_mpt_key raw =
     (if length raw < ACCOUNT_KEYPART_BYTES then Inr (native (Account raw))
      else
      (let address = subslice raw ACCOUNT_PADDING_BYTES ACCOUNT_KEYPART_BYTES in
       if length raw = ACCOUNT_KEYPART_BYTES then Inr (native (Account address))
       else if length raw = ACCOUNT_KEYPART_BYTES + 1
               \<and> raw ! ACCOUNT_KEYPART_BYTES = EVM_SPACE_TYPE
       then Inr (ethereum (Account address))
       else
         rbind
           (if raw ! ACCOUNT_KEYPART_BYTES AND 0x80 \<noteq> 0 then
              (if raw ! ACCOUNT_KEYPART_BYTES \<noteq> EVM_SPACE_TYPE
               then Inl (Err (InvalidKey ''unknown delta space marker''))
               else Inr (Ethereum, drop (ACCOUNT_KEYPART_BYTES + 1) raw))
            else Inr (Native, drop ACCOUNT_KEYPART_BYTES raw))
           (\<lambda>(sp, rest).
             rbind
               (if prefix STORAGE_PREFIX rest then
                  (if length rest = length STORAGE_PREFIX then Inr (StorageRoot address)
                   else if length rest < KEY_PADDING_BYTES
                   then Inl (Err (InvalidKey ''storage delta key missing padded storage key''))
                   else Inr (Storage address (drop KEY_PADDING_BYTES rest)))
                else if prefix CODE_HASH_PREFIX rest then
                  (let code_hash = drop (length CODE_HASH_PREFIX) rest
                   in if code_hash = [] then Inr (CodeRoot address)
                      else Inr (Code address code_hash))
                else if prefix DEPOSIT_LIST_PREFIX rest then Inr (DepositList address)
                else if prefix VOTE_LIST_PREFIX rest then Inr (VoteList address)
                else Inl (Err (InvalidKey ''unknown delta key suffix'')))
               (\<lambda>key. Inr \<lparr>sk_key = key, sk_space = sp\<rparr>))))"

definition from_key_bytes :: "bytes \<Rightarrow> storage_key_with_space result" where
  "from_key_bytes raw =
     (if raw = [] then Inr (native EmptyKey)
      else if length raw < ACCOUNT_BYTES then Inr (native (AddressPrefix raw))
      else
      (let (sp, address, rest) =
             (if length raw > ACCOUNT_BYTES \<and> raw ! ACCOUNT_BYTES = EVM_SPACE_TYPE
              then (Ethereum, take ACCOUNT_BYTES raw, drop (ACCOUNT_BYTES + 1) raw)
              else (Native, take ACCOUNT_BYTES raw, drop ACCOUNT_BYTES raw))
       in rbind
            (if rest = [] then Inr (Account address)
             else if prefix STORAGE_PREFIX rest then
               (let suffix = drop (length STORAGE_PREFIX) rest
                in if suffix = [] then Inr (StorageRoot address) else Inr (Storage address suffix))
             else if prefix CODE_HASH_PREFIX rest then
               (let suffix = drop (length CODE_HASH_PREFIX) rest
                in if suffix = [] then Inr (CodeRoot address) else Inr (Code address suffix))
             else if rest = DEPOSIT_LIST_PREFIX then Inr (DepositList address)
             else if rest = VOTE_LIST_PREFIX then Inr (VoteList address)
             else Inl (Err (InvalidKey ''unknown snapshot key suffix'')))
            (\<lambda>key. Inr \<lparr>sk_key = key, sk_space = sp\<rparr>)))"

subsection \<open>The account-key cache\<close>

text \<open>Every cached key is the one the cache's padding gives.\<close>

definition ac_ok :: "(bytes \<Rightarrow> h256) \<Rightarrow> account_key_cache \<Rightarrow> bool" where
  "ac_ok kc c \<longleftrightarrow>
     (\<forall>a key. bt_get (ac_map c) a = Some key \<longrightarrow> key = account_key_uncached kc a (ac_built_for c))"

lemma ac_ok_default [simp]: "ac_ok kc (ac_default kc)"
  by (simp add: ac_ok_def ac_default_def)

lemma new_account_key_cached [memo_simps]:
  "ac_ok kc c \<Longrightarrow>
   \<exists>c'. new_account_key kc a p (Some c) = (account_key_uncached kc a p, Some c') \<and> ac_ok kc c'"
  by (auto simp: new_account_key_def ac_ok_def Let_def split: option.split)

lemma new_account_key_None [simp]:
  "new_account_key kc a p None = (account_key_uncached kc a p, None)"
  by (simp add: new_account_key_def)

text \<open>The delta key of a storage key without a cache.\<close>

definition delta_key :: "(bytes \<Rightarrow> h256) \<Rightarrow> delta_mpt_key_padding \<Rightarrow> storage_key_with_space \<Rightarrow> bytes result" where
  "delta_key kc p k = fst (to_delta_mpt_key_bytes kc k p None)"

lemma to_delta_uncached: "to_delta_mpt_key_bytes kc k p None = (delta_key kc p k, None)"
  by (cases "sk_key k")
    (simp_all add: delta_key_def to_delta_mpt_key_bytes_def Let_def checked_address_def)

lemma to_delta_cached [memo_simps]:
  assumes "ac_ok kc c"
  shows "\<exists>c'. to_delta_mpt_key_bytes kc k p (Some c) = (delta_key kc p k, Some c') \<and> ac_ok kc c'"
proof -
  have "\<exists>c'. \<forall>a. new_account_key kc a p (Some c) = (account_key_uncached kc a p, Some (c' a))
      \<and> ac_ok kc (c' a)"
    using new_account_key_cached [OF assms] by (intro choice) blast
  then obtain c' where "\<forall>a. new_account_key kc a p (Some c) = (account_key_uncached kc a p, Some (c' a))
      \<and> ac_ok kc (c' a)" ..
  then show ?thesis
    using assms
    by (cases "sk_key k")
      (auto simp: delta_key_def to_delta_mpt_key_bytes_def Let_def checked_address_def)
qed

end
