(* ===== verification/Key_Codec_Correct.thy ===== *)
theory Key_Codec_Correct
  imports Mpt_Key_Codec
begin

text \<open>
  What the layers rely on of the key codec: a delta key decodes to a key with the same
  canonical bytes whatever the padding, and two keys share a delta key exactly when they
  share a canonical key. The cache of account keys is not observable.
\<close>

subsection \<open>The shape of the encoded keys\<close>

fun key_address :: "storage_key \<Rightarrow> bytes option" where
  "key_address (Account a) = Some a"
| "key_address (StorageRoot a) = Some a"
| "key_address (Storage a s) = Some a"
| "key_address (CodeRoot a) = Some a"
| "key_address (Code a h) = Some a"
| "key_address (DepositList a) = Some a"
| "key_address (VoteList a) = Some a"
| "key_address EmptyKey = None"
| "key_address (AddressPrefix p) = None"

fun canonical_suffix :: "storage_key \<Rightarrow> bytes" where
  "canonical_suffix (StorageRoot a) = STORAGE_PREFIX"
| "canonical_suffix (Storage a s) = STORAGE_PREFIX @ s"
| "canonical_suffix (CodeRoot a) = CODE_HASH_PREFIX"
| "canonical_suffix (Code a h) = CODE_HASH_PREFIX @ h"
| "canonical_suffix (DepositList a) = DEPOSIT_LIST_PREFIX"
| "canonical_suffix (VoteList a) = VOTE_LIST_PREFIX"
| "canonical_suffix _ = []"

definition slot_padding :: "(bytes \<Rightarrow> h256) \<Rightarrow> delta_mpt_key_padding \<Rightarrow> bytes \<Rightarrow> bytes" where
  "slot_padding kc p s = drop (length STORAGE_PREFIX) (as_bytes (storage_key_padding kc s p))"

fun delta_suffix :: "(bytes \<Rightarrow> h256) \<Rightarrow> delta_mpt_key_padding \<Rightarrow> storage_key \<Rightarrow> bytes" where
  "delta_suffix kc p (Storage a s) = STORAGE_PREFIX @ slot_padding kc p s @ s"
| "delta_suffix kc p k = canonical_suffix k"

definition space_mark :: "space \<Rightarrow> bytes" where
  "space_mark sp = (if sp = Ethereum then [EVM_SPACE_TYPE] else [])"

lemma length_slot_padding [simp]: "length (slot_padding kc p s) = 28"
  by (simp add: slot_padding_def STORAGE_PREFIX_def)

lemma account_key_shape:
  "\<exists>h. length h = 12 \<and> account_key_uncached kc a p = h @ a"
  by (auto simp: account_key_uncached_def key_sizes Let_def)

lemma length_account_key: "length (account_key_uncached kc a p) = 12 + length a"
  using account_key_shape [of kc a p] by auto

lemma to_key_bytes_shape:
  "key_address (sk_key k) = Some a \<Longrightarrow> length a = 20 \<Longrightarrow>
   to_key_bytes k = Inr (a @ space_mark (sk_space k) @ canonical_suffix (sk_key k))"
  by (cases "sk_key k")
    (simp_all add: to_key_bytes_def Let_def checked_address_def add_space_to_snapshot_key_def
      splice_at_def append_prefix_def space_mark_def key_sizes)

lemma delta_key_shape:
  "key_address (sk_key k) = Some a \<Longrightarrow> length a = 20 \<Longrightarrow>
   delta_key kc p k
     = Inr (account_key_uncached kc a p @ space_mark (sk_space k) @ delta_suffix kc p (sk_key k))"
  by (cases "sk_key k")
    (simp_all add: delta_key_def to_delta_mpt_key_bytes_def Let_def checked_address_def
      add_space_to_delta_key_def splice_at_def space_mark_def key_sizes length_account_key
      slot_padding_def)

text \<open>A key with an address of another length (a short account apart) is refused.\<close>

lemma wrong_address_refused:
  "key_address (sk_key k) = Some a \<Longrightarrow> length a \<noteq> 20 \<Longrightarrow>
   \<not> (\<exists>b. sk_key k = Account b \<and> length b < 20) \<Longrightarrow>
   to_key_bytes k = Inl (Err (InvalidKey ''address must be 20 bytes''))
   \<and> delta_key kc p k = Inl (Err (InvalidKey ''address must be 20 bytes''))"
  by (cases "sk_key k")
    (auto simp: to_key_bytes_def delta_key_def to_delta_mpt_key_bytes_def Let_def
      checked_address_def key_sizes)

subsection \<open>Decoding\<close>

fun decoded_key :: "storage_key \<Rightarrow> storage_key" where
  "decoded_key (Code a []) = CodeRoot a"
| "decoded_key k = k"

lemma decode_delta:
  assumes h: "length h = 12" and a: "length a = 20" and k: "key_address key = Some a"
  shows "from_delta_mpt_key (h @ a @ space_mark sp @ delta_suffix kc p key)
       = Inr \<lparr>sk_key = decoded_key key, sk_space = sp\<rparr>"
proof -
  have addr: "subslice (h @ a @ r) 12 32 = a" for r
    using h a by (simp add: subslice_def)
  note addr0 = addr [of "[]", simplified]
  have at32: "(h @ a @ x # r) ! 32 = x" for x r
    using h a by (simp add: nth_append)
  have rest: "drop 32 (h @ a @ r) = r" "drop 33 (h @ a @ x # r) = r" for x r
    using h a by simp_all
  show ?thesis
    using h a k
    by (cases key; cases sp)
      (auto simp: from_delta_mpt_key_def key_sizes key_prefixes Let_def native_def ethereum_def
        addr addr0 at32 rest space_mark_def neq_Nil_conv split: list.split elim: decoded_key.elims)
qed

lemma decode_canonical:
  assumes a: "length a = 20" and k: "key_address key = Some a"
    and s: "\<And>b. key \<noteq> Storage b []"
  shows "from_key_bytes (a @ space_mark sp @ canonical_suffix key)
       = Inr \<lparr>sk_key = decoded_key key, sk_space = sp\<rparr>"
proof -
  have at20: "(a @ x # r) ! 20 = x" for x r
    using a by (simp add: nth_append)
  have "\<exists>y ys. a = y # ys" using a by (cases a) auto
  then show ?thesis
    using a k s
    by (cases key; cases sp)
      (auto simp: from_key_bytes_def key_sizes key_prefixes Let_def native_def ethereum_def
        at20 space_mark_def neq_Nil_conv split: list.split elim: decoded_key.elims)
qed


lemma address_decoded [simp]: "key_address (decoded_key key) = key_address key"
  by (cases key rule: decoded_key.cases) auto

lemma suffix_decoded [simp]:
  "canonical_suffix (decoded_key key) = canonical_suffix key"
  "delta_suffix kc p (decoded_key key) = delta_suffix kc p key"
  by (cases key rule: decoded_key.cases; simp)+

lemma to_key_bytes_decoded:
  "key_address (sk_key k) = Some a \<Longrightarrow> length a = 20 \<Longrightarrow>
   to_key_bytes \<lparr>sk_key = decoded_key (sk_key k), sk_space = sk_space k\<rparr> = to_key_bytes k"
  by (simp add: to_key_bytes_shape)

subsection \<open>The keys a state is used with\<close>

text \<open>
  The keys that name one entry: any key of a 20-byte address, a short account, or the empty
  key. Left out are \<open>AddressPrefix\<close>, which is a query and is encoded as the empty delta
  key, and a storage slot with an empty slot key, whose canonical bytes are those of the
  storage root of its address.
\<close>

definition plain_key :: "storage_key_with_space \<Rightarrow> bool" where
  "plain_key k \<longleftrightarrow>
     (case sk_key k of
        Account a \<Rightarrow> length a \<le> 20
      | Storage a s \<Rightarrow> length a = 20 \<and> s \<noteq> []
      | EmptyKey \<Rightarrow> True
      | AddressPrefix p \<Rightarrow> False
      | key \<Rightarrow> (\<exists>a. key_address key = Some a \<and> length a = 20))"

lemma plain_key_cases:
  assumes "plain_key k"
  obtains (full) a where "key_address (sk_key k) = Some a" "length a = 20"
      "\<And>b. sk_key k \<noteq> Storage b []"
    | (short) a where "sk_key k = Account a" "length a < 20"
    | (empty) "sk_key k = EmptyKey"
  using assms
  by (cases "sk_key k") (auto simp: plain_key_def le_less)

lemma short_key:
  "sk_key k = Account a \<Longrightarrow> length a < 20 \<Longrightarrow> to_key_bytes k = Inr a \<and> delta_key kc p k = Inr a"
  "sk_key k = EmptyKey \<Longrightarrow> to_key_bytes k = Inr [] \<and> delta_key kc p k = Inr []"
  by (simp_all add: to_key_bytes_def delta_key_def to_delta_mpt_key_bytes_def key_sizes)

lemma short_raw:
  "length raw < 20 \<Longrightarrow> rbind (from_delta_mpt_key raw) to_key_bytes = Inr raw"
  by (simp add: from_delta_mpt_key_def native_def to_key_bytes_def key_sizes)

text \<open>What the rotation and the prefix reads compute of a raw delta key.\<close>

definition canonical_of :: "bytes \<Rightarrow> bytes result" where
  "canonical_of raw = rbind (from_delta_mpt_key raw) to_key_bytes"

definition canonical_key :: "storage_key_with_space \<Rightarrow> bytes" where
  "canonical_key k = projr (to_key_bytes k)"

definition raw_of :: "(bytes \<Rightarrow> h256) \<Rightarrow> delta_mpt_key_padding \<Rightarrow> storage_key_with_space \<Rightarrow> bytes" where
  "raw_of kc p k = projr (delta_key kc p k)"

lemma plain_key_encodes:
  assumes "plain_key k"
  shows "to_key_bytes k = Inr (canonical_key k)" "delta_key kc p k = Inr (raw_of kc p k)"
  using assms
  by (cases k rule: plain_key_cases;
      auto simp: canonical_key_def raw_of_def short_key to_key_bytes_shape delta_key_shape)+

lemma raw_key_full:
  assumes "key_address (sk_key k) = Some a" "length a = 20"
  shows "raw_of kc p k = account_key_uncached kc a p @ space_mark (sk_space k) @ delta_suffix kc p (sk_key k)"
    "canonical_key k = a @ space_mark (sk_space k) @ canonical_suffix (sk_key k)"
    "from_delta_mpt_key (raw_of kc p k) = Inr \<lparr>sk_key = decoded_key (sk_key k), sk_space = sk_space k\<rparr>"
proof -
  show r: "raw_of kc p k = account_key_uncached kc a p @ space_mark (sk_space k) @ delta_suffix kc p (sk_key k)"
    and "canonical_key k = a @ space_mark (sk_space k) @ canonical_suffix (sk_key k)"
    using assms by (simp_all add: raw_of_def canonical_key_def delta_key_shape to_key_bytes_shape)
  obtain h where h: "length h = 12" "account_key_uncached kc a p = h @ a"
    using account_key_shape by blast
  show "from_delta_mpt_key (raw_of kc p k) = Inr \<lparr>sk_key = decoded_key (sk_key k), sk_space = sk_space k\<rparr>"
    using decode_delta [OF h(1) assms(2,1)] by (simp add: r h(2))
qed

text \<open>A delta key carries the canonical key, whatever the padding and the hash are.\<close>

lemma canonical_of_raw_key:
  assumes "plain_key k"
  shows "canonical_of (raw_of kc p k) = Inr (canonical_key k)"
  using assms
proof (cases k rule: plain_key_cases)
  case (full a)
  then show ?thesis
    using raw_key_full [OF full(1,2)] plain_key_encodes(1) [OF assms] to_key_bytes_decoded [OF full(1,2)]
    by (simp add: canonical_of_def)
next
  case (short a)
  then show ?thesis
    using short_key(1) [OF short] short_raw [of a]
    by (simp add: canonical_of_def raw_of_def canonical_key_def)
next
  case empty
  then show ?thesis
    using short_key(2) [OF empty] short_raw [of "[]"]
    by (simp add: canonical_of_def raw_of_def canonical_key_def)
qed

lemma canonical_key_length:
  "key_address (sk_key k) = Some a \<Longrightarrow> length a = 20 \<Longrightarrow> 20 \<le> length (canonical_key k)"
  by (simp add: raw_key_full(2))

lemma canonical_key_short:
  "sk_key k = Account a \<Longrightarrow> length a < 20 \<Longrightarrow> canonical_key k = a \<and> raw_of kc p k = a"
  "sk_key k = EmptyKey \<Longrightarrow> canonical_key k = [] \<and> raw_of kc p k = []"
  by (simp_all add: canonical_key_def raw_of_def short_key)

text \<open>Equal canonical keys have equal delta keys under one padding, and conversely.\<close>

lemma raw_key_full_eq:
  assumes "key_address (sk_key k) = Some a" "length a = 20" "\<And>b. sk_key k \<noteq> Storage b []"
    and "key_address (sk_key k') = Some a'" "length a' = 20" "\<And>b. sk_key k' \<noteq> Storage b []"
    and eq: "canonical_key k = canonical_key k'"
  shows "raw_of kc p k = raw_of kc p k'"
proof -
  have "from_key_bytes (canonical_key k) = Inr \<lparr>sk_key = decoded_key (sk_key k), sk_space = sk_space k\<rparr>"
    using decode_canonical [OF assms(2,1,3)] assms(1,2) by (simp add: raw_key_full(2))
  moreover have "from_key_bytes (canonical_key k')
      = Inr \<lparr>sk_key = decoded_key (sk_key k'), sk_space = sk_space k'\<rparr>"
    using decode_canonical [OF assms(5,4,6)] assms(4,5) by (simp add: raw_key_full(2))
  ultimately have e: "decoded_key (sk_key k) = decoded_key (sk_key k')" "sk_space k = sk_space k'"
    using eq by simp_all
  then have "a = a'" by (metis address_decoded assms(1,4) option.inject)
  moreover have "delta_suffix kc p (sk_key k) = delta_suffix kc p (sk_key k')"
    using e(1) by (metis suffix_decoded(2))
  ultimately show ?thesis using assms e(2) by (simp add: raw_key_full(1))
qed

lemma raw_key_eq_iff:
  assumes "plain_key k" "plain_key k'"
  shows "raw_of kc p k = raw_of kc p k' \<longleftrightarrow> canonical_key k = canonical_key k'"
proof
  assume "raw_of kc p k = raw_of kc p k'"
  then show "canonical_key k = canonical_key k'"
    using canonical_of_raw_key [OF assms(1), of kc p] canonical_of_raw_key [OF assms(2), of kc p]
    by simp
next
  assume eq: "canonical_key k = canonical_key k'"
  show "raw_of kc p k = raw_of kc p k'"
    using assms(1)
  proof (cases k rule: plain_key_cases)
    case (full a)
    show ?thesis
      using assms(2)
    proof (cases k' rule: plain_key_cases)
      case full': (full a')
      show ?thesis by (rule raw_key_full_eq [OF full full' eq])
    next
      case (short b)
      then show ?thesis using canonical_key_length [OF full(1,2)] eq canonical_key_short(1) [OF short] by simp
    next
      case empty
      then show ?thesis using canonical_key_length [OF full(1,2)] eq canonical_key_short(2) [OF empty] by simp
    qed
  next
    case (short a)
    show ?thesis
      using assms(2)
      by (cases k' rule: plain_key_cases)
        (use eq short canonical_key_short(1) [OF short] canonical_key_length [of k'] canonical_key_short [of k']
          in \<open>fastforce+\<close>)
  next
    case empty
    show ?thesis
      using assms(2)
      by (cases k' rule: plain_key_cases)
        (use eq empty canonical_key_short(2) [OF empty] canonical_key_length [of k'] canonical_key_short [of k']
          in \<open>fastforce+\<close>)
  qed
qed

text \<open>What \<open>from_key_bytes\<close> accepts, it reads back exactly.\<close>

lemma to_key_bytes_from_key_bytes:
  assumes "from_key_bytes raw = Inr k"
  shows "to_key_bytes k = Inr raw"
proof (cases "length raw < 20")
  case True
  then show ?thesis
    using assms by (auto simp: from_key_bytes_def key_sizes native_def to_key_bytes_def split: if_splits)
next
  case False
  define a where "a = take 20 raw"
  have a: "length a = 20" using False by (simp add: a_def)
  define sp where "sp = (if length raw > 20 \<and> raw ! 20 = EVM_SPACE_TYPE then Ethereum else Native)"
  define rest where "rest = drop (20 + length (space_mark sp)) raw"
  have raw: "raw = a @ space_mark sp @ rest"
    using id_take_nth_drop [of 20 raw] by (auto simp: a_def sp_def rest_def space_mark_def)
  have ne: "raw \<noteq> []" using False by auto
  have dec: "from_key_bytes raw = rbind
      (if rest = [] then Inr (Account a)
       else if prefix STORAGE_PREFIX rest then
         (let suffix = drop (length STORAGE_PREFIX) rest
          in if suffix = [] then Inr (StorageRoot a) else Inr (Storage a suffix))
       else if prefix CODE_HASH_PREFIX rest then
         (let suffix = drop (length CODE_HASH_PREFIX) rest
          in if suffix = [] then Inr (CodeRoot a) else Inr (Code a suffix))
       else if rest = DEPOSIT_LIST_PREFIX then Inr (DepositList a)
       else if rest = VOTE_LIST_PREFIX then Inr (VoteList a)
       else Inl (Err (InvalidKey ''unknown snapshot key suffix'')))
      (\<lambda>key. Inr \<lparr>sk_key = key, sk_space = sp\<rparr>)"
  proof (cases "length raw > 20 \<and> raw ! 20 = EVM_SPACE_TYPE")
    case True
    then have "sp = Ethereum" "rest = drop (20 + 1) raw"
      by (simp_all add: sp_def rest_def space_mark_def)
    with True show ?thesis
      by (simp only: from_key_bytes_def key_sizes ne False a_def if_False if_True simp_thms
          Let_def prod.case)
  next
    case f: False
    then have "sp = Native" "rest = drop 20 raw"
      by (auto simp: sp_def rest_def space_mark_def)
    then show ?thesis
      by (simp only: from_key_bytes_def key_sizes ne False a_def if_False f simp_thms
          Let_def prod.case)
  qed
  have "key_address (sk_key k) = Some a \<and> sk_space k = sp \<and> canonical_suffix (sk_key k) = rest"
    using assms unfolding dec
    by (auto simp: Let_def prefix_def rbind_Inr_iff split: if_splits)
  then show ?thesis using to_key_bytes_shape [of k a] a raw by simp
qed

end
