(* ===== verification/Mpt_State.thy ===== *)
theory Mpt_State
  imports Mpt_Snapshot Key_Codec_Correct
begin

text \<open>
  \<open>crates/minimal-mpt/src/state/\<close>: the three-layer state (\<open>mod.rs\<close>), its prefix reads and
  deletes (\<open>prefix.rs\<close>) and the rotation at a period boundary (\<open>rotation.rs\<close>). A method
  with \<open>&mut self\<close>, or one that fills a cache behind a \<open>RefCell\<close>, returns its result with
  the state it leaves, also when the result is an error. Timing output is left out.
\<close>

definition DEFAULT_SNAPSHOT_EPOCH_COUNT :: u32 where
  "DEFAULT_SNAPSHOT_EPOCH_COUNT = 2000"

record state =
  s_snapshot :: snapshot_trie
  s_intermediate :: "(bytes, mpt_value) btree"
  s_delta :: "(bytes, mpt_value) btree"
  s_snapshot_root :: h256
  s_intermediate_root :: h256
  s_intermediate_padding :: delta_mpt_key_padding
  s_delta_padding :: delta_mpt_key_padding
  s_height :: u64
  s_snapshot_epoch_count :: u32
  s_last_root :: "commit_root option"
  s_delta_inc :: incremental_trie
  s_delta_account_cache :: account_key_cache
  s_intermediate_account_cache :: account_key_cache

text \<open>A panic of a called function ends the caller too.\<close>

definition or_panic :: "string \<Rightarrow> 'a option \<Rightarrow> 'a result" where
  "or_panic msg r = (case r of None \<Rightarrow> Inl (Panic msg) | Some a \<Rightarrow> Inr a)"

lemma or_panic_simps [simp]: "or_panic msg (Some a) = Inr a" "or_panic msg None = Inl (Panic msg)"
  by (simp_all add: or_panic_def)

subsection \<open>Construction\<close>

definition state_new :: "(bytes \<Rightarrow> h256) \<Rightarrow> state" where
  "state_new kc =
     \<lparr>s_snapshot = st_default,
      s_intermediate = [],
      s_delta = [],
      s_snapshot_root = MERKLE_NULL_NODE,
      s_intermediate_root = MERKLE_NULL_NODE,
      s_intermediate_padding = genesis kc,
      s_delta_padding = genesis kc,
      s_height = 0,
      s_snapshot_epoch_count = DEFAULT_SNAPSHOT_EPOCH_COUNT,
      s_last_root = None,
      s_delta_inc = it_default,
      s_delta_account_cache = ac_default kc,
      s_intermediate_account_cache = ac_default kc\<rparr>"

definition with_snapshot_epoch_count :: "(bytes \<Rightarrow> h256) \<Rightarrow> u32 \<Rightarrow> state" where
  "with_snapshot_epoch_count kc n = (state_new kc)\<lparr>s_snapshot_epoch_count := max n 1\<rparr>"

definition state_from_snapshot :: "(bytes \<Rightarrow> h256) \<Rightarrow> (bytes, bytes) btree \<Rightarrow> state result" where
  "state_from_snapshot kc snapshot =
     rbind (or_panic ''snapshot root'' (st_root_with_policy kc SkipSingleton (st_from_snapshot snapshot)))
       (\<lambda>(snapshot_root, snapshot_inc).
         Inr ((state_new kc)
           \<lparr>s_snapshot := snapshot_inc,
            s_snapshot_root := snapshot_root,
            s_delta_padding := from_roots kc snapshot_root MERKLE_NULL_NODE\<rparr>))"

definition put_intermediate_raw ::
  "(bytes \<Rightarrow> h256) \<Rightarrow> bytes \<Rightarrow> mpt_value \<Rightarrow> state \<Rightarrow> state result" where
  "put_intermediate_raw kc raw_key value s =
     (let intermediate = bt_insert raw_key value (s_intermediate s)
      in rbind (or_panic ''intermediate root'' (trie_root kc intermediate))
           (\<lambda>r. Inr (s\<lparr>s_intermediate := intermediate,
                      s_intermediate_root := r,
                      s_delta_padding := from_roots kc (s_snapshot_root s) r\<rparr>)))"

subsection \<open>Reads and writes of one key\<close>

definition state_get ::
  "(bytes \<Rightarrow> h256) \<Rightarrow> storage_key_with_space \<Rightarrow> state \<Rightarrow> bytes option result \<times> state" where
  "state_get kc key s =
     (let (r1, c1) = to_delta_mpt_key_bytes kc key (s_delta_padding s) (Some (s_delta_account_cache s));
          s1 = s\<lparr>s_delta_account_cache := the c1\<rparr>
      in (case r1 of Inl e \<Rightarrow> (Inl e, s1)
          | Inr dkey \<Rightarrow>
              (case bt_get (s_delta s1) dkey of
                 Some value \<Rightarrow> (Inr (visible_value value), s1)
               | None \<Rightarrow>
                   (let (r2, c2) = to_delta_mpt_key_bytes kc key (s_intermediate_padding s1)
                                     (Some (s_intermediate_account_cache s1));
                        s2 = s1\<lparr>s_intermediate_account_cache := the c2\<rparr>
                    in (case r2 of Inl e \<Rightarrow> (Inl e, s2)
                        | Inr ikey \<Rightarrow>
                            (case bt_get (s_intermediate s2) ikey of
                               Some value \<Rightarrow> (Inr (visible_value value), s2)
                             | None \<Rightarrow>
                                 (rbind (to_key_bytes key)
                                    (\<lambda>ck. Inr (snapshot_get_owned (s_snapshot s2) ck)), s2)))))))"

definition state_set ::
  "(bytes \<Rightarrow> h256) \<Rightarrow> storage_key_with_space \<Rightarrow> bytes \<Rightarrow> state \<Rightarrow> unit result \<times> state" where
  "state_set kc key value s =
     (let (r, c) = to_delta_mpt_key_bytes kc key (s_delta_padding s) (Some (s_delta_account_cache s));
          s1 = s\<lparr>s_delta_account_cache := the c\<rparr>
      in (case r of Inl e \<Rightarrow> (Inl e, s1)
          | Inr raw \<Rightarrow>
              (let value = (if value = [] then Tombstone else MptSome value)
               in (Inr (),
                   s1\<lparr>s_delta_inc := it_insert raw value (s_delta_inc s1),
                      s_delta := bt_insert raw value (s_delta s1)\<rparr>))))"

subsection \<open>Prefix reads\<close>

text \<open>\<open>map.range(prefix..).take_while(|k| k.starts_with(prefix))\<close>.\<close>

definition scan_prefix :: "(bytes, mpt_value) btree \<Rightarrow> bytes \<Rightarrow> (bytes \<times> mpt_value) list" where
  "scan_prefix m pre = takeWhile (\<lambda>kv. prefix pre (fst kv)) (bt_range_from m pre)"

definition address_prefix_filter :: "storage_key_with_space \<Rightarrow> bytes option" where
  "address_prefix_filter pre =
     (case sk_key pre of AddressPrefix p \<Rightarrow> Some p | _ \<Rightarrow> None)"

definition filtered_out :: "bytes option \<Rightarrow> bytes \<Rightarrow> bool" where
  "filtered_out address_prefix canonical =
     (case address_prefix of None \<Rightarrow> False | Some p \<Rightarrow> \<not> prefix p canonical)"

definition push_visible :: "(bytes \<times> bytes) list \<Rightarrow> bytes \<Rightarrow> mpt_value \<Rightarrow> (bytes \<times> bytes) list" where
  "push_visible result canonical value =
     (case visible_value value of Some v \<Rightarrow> result @ [(canonical, v)] | None \<Rightarrow> result)"

type_synonym found = "bytes set \<times> (bytes \<times> bytes) list"

text \<open>The loop over the delta: the first layer, so it does not look at \<open>seen\<close>.\<close>

fun read_delta :: "bytes option \<Rightarrow> (bytes \<times> mpt_value) list \<Rightarrow> found \<Rightarrow> found result" where
  "read_delta address_prefix [] acc = Inr acc"
| "read_delta address_prefix ((raw_key, value) # kvs) (seen, result) =
     rbind (rbind (from_delta_mpt_key raw_key) to_key_bytes)
       (\<lambda>canonical.
         if filtered_out address_prefix canonical then read_delta address_prefix kvs (seen, result)
         else read_delta address_prefix kvs
                (insert canonical seen, push_visible result canonical value))"

fun read_intermediate :: "bytes option \<Rightarrow> (bytes \<times> mpt_value) list \<Rightarrow> found \<Rightarrow> found result" where
  "read_intermediate address_prefix [] acc = Inr acc"
| "read_intermediate address_prefix ((raw_key, value) # kvs) (seen, result) =
     rbind (rbind (from_delta_mpt_key raw_key) to_key_bytes)
       (\<lambda>canonical.
         if filtered_out address_prefix canonical
         then read_intermediate address_prefix kvs (seen, result)
         else if canonical \<notin> seen
         then read_intermediate address_prefix kvs
                (insert canonical seen, push_visible result canonical value)
         else read_intermediate address_prefix kvs (seen, result))"

fun read_snapshot :: "(bytes \<times> bytes) list \<Rightarrow> found \<Rightarrow> found" where
  "read_snapshot [] acc = acc"
| "read_snapshot ((key, value) # kvs) (seen, result) =
     (if key \<notin> seen then read_snapshot kvs (insert key seen, result @ [(key, value)])
      else read_snapshot kvs (seen, result))"

definition read_prefix ::
  "(bytes \<Rightarrow> h256) \<Rightarrow> storage_key_with_space \<Rightarrow> state \<Rightarrow> (bytes \<times> bytes) list result" where
  "read_prefix kc pre s =
     rbind (to_key_bytes pre) (\<lambda>canonical_prefix.
     rbind (fst (to_delta_mpt_key_bytes kc pre (s_delta_padding s) None)) (\<lambda>delta_prefix.
     rbind (fst (to_delta_mpt_key_bytes kc pre (s_intermediate_padding s) None)) (\<lambda>intermediate_prefix.
       let address_prefix = address_prefix_filter pre in
       rbind (read_delta address_prefix (scan_prefix (s_delta s) delta_prefix) ({}, [])) (\<lambda>acc.
       rbind (read_intermediate address_prefix
                (scan_prefix (s_intermediate s) intermediate_prefix) acc) (\<lambda>acc.
       Inr (snd (read_snapshot (st_scan_prefix (s_snapshot s) canonical_prefix) acc)))))))"

definition get_all_by_prefix ::
  "(bytes \<Rightarrow> h256) \<Rightarrow> storage_key_with_space \<Rightarrow> state \<Rightarrow> (bytes \<times> bytes) list option result" where
  "get_all_by_prefix kc pre s =
     rbind (read_prefix kc pre s) (\<lambda>values. Inr (if values \<noteq> [] then Some values else None))"

subsection \<open>Prefix deletes\<close>

text \<open>The removal of the matching delta keys, from the map and from its trie.\<close>

fun remove_delta ::
  "bytes list \<Rightarrow> state \<Rightarrow> (bytes \<times> mpt_value) list \<times> state" where
  "remove_delta [] s = ([], s)"
| "remove_delta (raw_key # keys) s =
     (case bt_get (s_delta s) raw_key of
        None \<Rightarrow> remove_delta keys s
      | Some value \<Rightarrow>
          (let s1 = s\<lparr>s_delta := bt_remove raw_key (s_delta s),
                      s_delta_inc := it_remove raw_key (s_delta_inc s)\<rparr>
           in apfst ((#) (raw_key, value)) (remove_delta keys s1)))"

fun delete_intermediate ::
  "(bytes \<Rightarrow> h256) \<Rightarrow> bytes option \<Rightarrow> (bytes \<times> mpt_value) list \<Rightarrow> found \<Rightarrow> state
   \<Rightarrow> found result \<times> state" where
  "delete_intermediate kc address_prefix [] acc s = (Inr acc, s)"
| "delete_intermediate kc address_prefix ((raw_key, value) # kvs) (seen, result) s =
     (case from_delta_mpt_key raw_key of Inl e \<Rightarrow> (Inl e, s)
      | Inr skey \<Rightarrow>
        (case to_key_bytes skey of Inl e \<Rightarrow> (Inl e, s)
         | Inr canonical \<Rightarrow>
           (if filtered_out address_prefix canonical
            then delete_intermediate kc address_prefix kvs (seen, result) s
            else
              (case (if visible_value value \<noteq> None then state_set kc skey [] s else (Inr (), s)) of
                 (Inl e, s1) \<Rightarrow> (Inl e, s1)
               | (Inr _, s1) \<Rightarrow>
                   (if canonical \<notin> seen
                    then delete_intermediate kc address_prefix kvs
                           (insert canonical seen, push_visible result canonical value) s1
                    else delete_intermediate kc address_prefix kvs (seen, result) s1)))))"

fun delete_snapshot ::
  "(bytes \<Rightarrow> h256) \<Rightarrow> (bytes \<times> bytes) list \<Rightarrow> found \<Rightarrow> state \<Rightarrow> found result \<times> state" where
  "delete_snapshot kc [] acc s = (Inr acc, s)"
| "delete_snapshot kc ((canonical, value) # kvs) (seen, result) s =
     (case from_key_bytes canonical of Inl e \<Rightarrow> (Inl e, s)
      | Inr skey \<Rightarrow>
        (case state_set kc skey [] s of
           (Inl e, s1) \<Rightarrow> (Inl e, s1)
         | (Inr _, s1) \<Rightarrow>
             (if canonical \<notin> seen
              then delete_snapshot kc kvs (insert canonical seen, result @ [(canonical, value)]) s1
              else delete_snapshot kc kvs (seen, result) s1)))"

definition delete_prefix ::
  "(bytes \<Rightarrow> h256) \<Rightarrow> storage_key_with_space \<Rightarrow> state
   \<Rightarrow> (bytes \<times> bytes) list result \<times> state" where
  "delete_prefix kc pre s =
     (case to_key_bytes pre of Inl e \<Rightarrow> (Inl e, s)
      | Inr canonical_prefix \<Rightarrow>
     (case fst (to_delta_mpt_key_bytes kc pre (s_delta_padding s) None) of Inl e \<Rightarrow> (Inl e, s)
      | Inr delta_prefix \<Rightarrow>
     (case fst (to_delta_mpt_key_bytes kc pre (s_intermediate_padding s) None) of Inl e \<Rightarrow> (Inl e, s)
      | Inr intermediate_prefix \<Rightarrow>
     (let address_prefix = address_prefix_filter pre;
          delta_keys = map fst (scan_prefix (s_delta s) delta_prefix);
          (delta_kvs, s1) = remove_delta delta_keys s;
          intermediate_kvs = scan_prefix (s_intermediate s1) intermediate_prefix;
          snapshot_kvs = st_scan_prefix (s_snapshot s1) canonical_prefix
      in (case read_delta address_prefix delta_kvs ({}, []) of Inl e \<Rightarrow> (Inl e, s1)
          | Inr acc \<Rightarrow>
         (case delete_intermediate kc address_prefix intermediate_kvs acc s1 of
            (Inl e, s2) \<Rightarrow> (Inl e, s2)
          | (Inr acc, s2) \<Rightarrow>
            (case delete_snapshot kc snapshot_kvs acc s2 of
               (Inl e, s3) \<Rightarrow> (Inl e, s3)
             | (Inr acc, s3) \<Rightarrow> (Inr (snd acc), s3))))))))"

definition delete_all_by_prefix ::
  "(bytes \<Rightarrow> h256) \<Rightarrow> storage_key_with_space \<Rightarrow> state
   \<Rightarrow> (bytes \<times> bytes) list option result \<times> state" where
  "delete_all_by_prefix kc pre s =
     apfst (\<lambda>r. rbind r (\<lambda>values. Inr (if values \<noteq> [] then Some values else None)))
       (delete_prefix kc pre s)"

subsection \<open>Commit and rotation\<close>

text \<open>The merge loop's re-keying of the intermediate, up to the first key that fails.\<close>

fun snapshot_updates :: "(bytes \<times> mpt_value) list \<Rightarrow> (bytes \<times> mpt_value) list result" where
  "snapshot_updates [] = Inr []"
| "snapshot_updates ((raw_key, value) # kvs) =
     rbind (rbind (from_delta_mpt_key raw_key) to_key_bytes)
       (\<lambda>canonical. rbind (snapshot_updates kvs) (\<lambda>us. Inr ((canonical, value) # us)))"

definition at_boundary :: "state \<Rightarrow> bool" where
  "at_boundary s \<longleftrightarrow>
     s_height s \<noteq> 0 \<and> s_height s mod ucast (s_snapshot_epoch_count s) = 0"

definition advance_after_commit ::
  "(bytes \<Rightarrow> h256) \<Rightarrow> h256 \<Rightarrow> state \<Rightarrow> unit result \<times> state" where
  "advance_after_commit kc delta_root s =
     (if \<not> at_boundary s then (Inr (), s)
      else
        (let s1 = s\<lparr>s_intermediate := []\<rparr>
         in (case snapshot_updates (s_intermediate s) of Inl e \<Rightarrow> (Inl e, s1)
             | Inr us \<Rightarrow>
                 (let s2 = s1\<lparr>s_snapshot := st_apply_updates us (s_snapshot s1)\<rparr>
                  in (case st_root_with_policy kc SkipSingleton (s_snapshot s2) of
                        None \<Rightarrow> (Inl (Panic ''snapshot root''), s2)
                      | Some (snapshot_root, snapshot) \<Rightarrow>
                          (Inr (),
                           s2\<lparr>s_snapshot := snapshot,
                              s_snapshot_root := snapshot_root,
                              s_intermediate := s_delta s2,
                              s_delta := [],
                              s_delta_inc := it_clear (s_delta_inc s2),
                              s_intermediate_root := delta_root,
                              s_intermediate_padding := s_delta_padding s2,
                              s_delta_padding := from_roots kc snapshot_root delta_root,
                              s_intermediate_account_cache := s_delta_account_cache s2,
                              s_delta_account_cache := ac_default kc\<rparr>))))))"

definition state_commit :: "(bytes \<Rightarrow> h256) \<Rightarrow> state \<Rightarrow> commit_root result \<times> state" where
  "state_commit kc s =
     (case it_root kc (s_delta_inc s) of
        None \<Rightarrow> (Inl (Panic ''delta root''), s)
      | Some (delta_root, inc) \<Rightarrow>
          (let root = commit_root_new kc (s_snapshot_root s) (s_intermediate_root s) delta_root
                        (s_delta_padding s);
               s1 = s\<lparr>s_delta_inc := inc, s_last_root := Some root, s_height := s_height s + 1\<rparr>
           in (case advance_after_commit kc delta_root s1 of
                 (Inl e, s2) \<Rightarrow> (Inl e, s2)
               | (Inr _, s2) \<Rightarrow> (Inr root, s2))))"

end
