(* ===== verification/State_Correct.thy ===== *)
theory State_Correct
  imports Mpt_State
begin

text \<open>
  The three layers stand for one map from canonical keys to values: the first layer that
  has a key decides, a tombstone hides the layers below. The invariant of the state, and
  that reads, writes, commits and rotations implement this map.
\<close>

subsection \<open>A delta layer as a map of canonical keys\<close>

definition layer_ok :: "(bytes \<Rightarrow> h256) \<Rightarrow> delta_mpt_key_padding \<Rightarrow> (bytes, mpt_value) btree \<Rightarrow> bool" where
  "layer_ok kc p m \<longleftrightarrow> bt_wf m \<and> (\<forall>kv \<in> set m. \<exists>k. plain_key k \<and> fst kv = raw_of kc p k)"

definition rekeyed :: "(bytes \<times> mpt_value) list \<Rightarrow> (bytes \<times> mpt_value) list" where
  "rekeyed m = map (\<lambda>kv. (projr (canonical_of (fst kv)), snd kv)) m"

definition layer_map :: "(bytes, mpt_value) btree \<Rightarrow> bytes \<Rightarrow> mpt_value option" where
  "layer_map m ck = map_of (rekeyed m) ck"

lemma layer_map_Nil [simp]: "layer_map [] ck = None"
  by (simp add: layer_map_def rekeyed_def)

lemma layer_ok_Nil [simp]: "layer_ok kc p []"
  by (simp add: layer_ok_def)

lemma canonical_of_eq:
  assumes "plain_key k" "plain_key k'" "raw = raw_of kc p k'"
  shows "projr (canonical_of raw) = canonical_key k \<longleftrightarrow> raw = raw_of kc p k"
  using canonical_of_raw_key [OF assms(2), of kc p] raw_key_eq_iff [OF assms(2,1), of kc p] assms(3)
  by simp

lemma layer_get:
  assumes "layer_ok kc p m" "plain_key k"
  shows "bt_get m (raw_of kc p k) = layer_map m (canonical_key k)"
proof -
  have "bt_get m (raw_of kc p k) = map_of (rekeyed m) (canonical_key k)"
    if "\<forall>kv \<in> set m. \<exists>k'. plain_key k' \<and> fst kv = raw_of kc p k'" for m :: "(bytes, mpt_value) btree"
    using that
  proof (induction m)
    case (Cons kv m)
    obtain raw v where kv: "kv = (raw, v)" by (cases kv)
    with Cons.prems obtain k' where "plain_key k'" "raw = raw_of kc p k'" by auto
    from canonical_of_eq [OF assms(2) this]
    have e: "projr (canonical_of raw) = canonical_key k \<longleftrightarrow> raw = raw_of kc p k" .
    have IH: "bt_get m (raw_of kc p k) = map_of (rekeyed m) (canonical_key k)"
      using Cons by simp
    have r: "rekeyed ((raw, v) # m) = (projr (canonical_of raw), v) # rekeyed m"
      by (simp add: rekeyed_def)
    show ?case
      unfolding kv r
      by (cases "raw = raw_of kc p k") (use e IH in \<open>auto simp: bt_get_def\<close>)
  qed (simp add: rekeyed_def)
  with assms(1) show ?thesis by (simp add: layer_ok_def layer_map_def)
qed

lemma layer_ok_insert:
  "layer_ok kc p m \<Longrightarrow> plain_key k \<Longrightarrow> layer_ok kc p (bt_insert (raw_of kc p k) v m)"
  using set_bt_insert_subset [of "raw_of kc p k" v m] by (fastforce simp: layer_ok_def)

lemma layer_ok_remove: "layer_ok kc p m \<Longrightarrow> layer_ok kc p (bt_remove raw m)"
  using set_bt_remove_subset [of raw m] by (auto simp: layer_ok_def)

lemma layer_ok_filter: "layer_ok kc p m \<Longrightarrow> layer_ok kc p (filter P m)"
  by (auto simp: layer_ok_def)

text \<open>A canonical key that no plain key has is in no layer.\<close>

lemma layer_map_plain:
  assumes "layer_ok kc p m" "layer_map m ck = Some v"
  shows "\<exists>k. plain_key k \<and> ck = canonical_key k \<and> (raw_of kc p k, v) \<in> set m"
proof -
  from assms(2) have "(ck, v) \<in> set (rekeyed m)" unfolding layer_map_def by (rule map_of_SomeD)
  then obtain kv where kv: "kv \<in> set m" "ck = projr (canonical_of (fst kv))" "v = snd kv"
    by (auto simp: rekeyed_def)
  with assms(1) obtain k where k: "plain_key k" "fst kv = raw_of kc p k" by (auto simp: layer_ok_def)
  then have "ck = canonical_key k" "kv = (raw_of kc p k, v)"
    using kv by (simp_all add: canonical_of_raw_key prod_eq_iff)
  with kv(1) k(1) show ?thesis by auto
qed

lemma layer_map_iff:
  assumes "layer_ok kc p m"
  shows "layer_map m ck = Some v \<longleftrightarrow>
    (\<exists>k. plain_key k \<and> ck = canonical_key k \<and> (raw_of kc p k, v) \<in> set m)"
proof
  assume "\<exists>k. plain_key k \<and> ck = canonical_key k \<and> (raw_of kc p k, v) \<in> set m"
  then obtain k where k: "plain_key k" "ck = canonical_key k" "(raw_of kc p k, v) \<in> set m" by blast
  then have "bt_get m (raw_of kc p k) = Some v" using assms by (simp add: layer_ok_def bt_get_iff)
  then show "layer_map m ck = Some v" using layer_get [OF assms k(1)] k(2) by simp
qed (rule layer_map_plain [OF assms])

lemma layer_map_insert:
  assumes "layer_ok kc p m" "plain_key k"
  shows "layer_map (bt_insert (raw_of kc p k) v m) = (layer_map m)(canonical_key k \<mapsto> v)"
proof (rule ext)
  fix ck
  let ?m = "bt_insert (raw_of kc p k) v m"
  note ok' = layer_ok_insert [OF assms, of v]
  show "layer_map ?m ck = ((layer_map m)(canonical_key k \<mapsto> v)) ck"
  proof (cases "\<exists>k'. plain_key k' \<and> ck = canonical_key k'")
    case True
    then obtain k' where k': "plain_key k'" "ck = canonical_key k'" by blast
    have "layer_map ?m ck = bt_get ?m (raw_of kc p k')" using layer_get [OF ok' k'(1)] k'(2) by simp
    also have "\<dots> = ((layer_map m)(canonical_key k \<mapsto> v)) ck"
      using layer_get [OF assms(1) k'(1)] raw_key_eq_iff [OF k'(1) assms(2), of kc p] k'(2) by simp
    finally show ?thesis .
  next
    case False
    then have "layer_map ?m ck = None" "layer_map m ck = None" "ck \<noteq> canonical_key k"
      using layer_map_plain [OF ok', of ck] layer_map_plain [OF assms(1), of ck] assms(2)
      by (metis not_None_eq)+
    then show ?thesis by simp
  qed
qed

lemma rekeyed_distinct:
  assumes "layer_ok kc p m"
  shows "distinct (map fst (rekeyed m))"
proof -
  have "inj_on (\<lambda>raw. projr (canonical_of raw)) (fst ` set m)"
  proof (rule inj_onI)
    fix x y
    assume "x \<in> fst ` set m" "y \<in> fst ` set m"
      and eq: "projr (canonical_of x) = projr (canonical_of y)"
    then obtain k l where k: "plain_key k" "x = raw_of kc p k" and l: "plain_key l" "y = raw_of kc p l"
      using assms unfolding layer_ok_def by (metis imageE)
    have "projr (canonical_of x) = canonical_key k" by (simp add: k(2) canonical_of_raw_key [OF k(1)])
    with eq have "projr (canonical_of y) = canonical_key k" by (rule subst)
    then have "y = raw_of kc p k" by (rule canonical_of_eq [OF k(1) l, THEN iffD1])
    with k(2) show "x = y" by (rule trans [OF _ sym])
  qed
  then show ?thesis
    using assms bt_wf_distinct [of m]
    by (simp add: rekeyed_def comp_def layer_ok_def distinct_map inj_on_def)
qed

lemma snapshot_updates_rekeyed:
  "layer_ok kc p m \<Longrightarrow> snapshot_updates m = Inr (rekeyed m)"
proof (induction m)
  case (Cons kv m)
  obtain raw v where kv: "kv = (raw, v)" by (cases kv)
  have ok: "layer_ok kc p m" using Cons.prems by (auto simp: layer_ok_def kv bt_wf_Cons)
  from Cons.prems obtain k where "plain_key k" "raw = raw_of kc p k" by (auto simp: layer_ok_def kv)
  then have "rbind (from_delta_mpt_key raw) to_key_bytes = Inr (canonical_key k)"
    using canonical_of_raw_key [of k kc p] by (simp add: canonical_of_def)
  then show ?case using Cons.IH [OF ok] by (simp add: kv rekeyed_def canonical_of_def)
qed (simp add: rekeyed_def)

subsection \<open>The invariant\<close>

definition canonical_keys :: "(bytes \<times> 'v) list \<Rightarrow> bool" where
  "canonical_keys m \<longleftrightarrow> (\<forall>kv \<in> set m. \<exists>k. plain_key k \<and> fst kv = canonical_key k)"

definition caches_ok :: "(bytes \<Rightarrow> h256) \<Rightarrow> state \<Rightarrow> bool" where
  "caches_ok kc s \<longleftrightarrow>
     st_inv kc (s_snapshot s) \<and> it_inv kc (s_delta_inc s)
     \<and> it_contents (s_delta_inc s) = s_delta s
     \<and> ac_ok kc (s_delta_account_cache s) \<and> ac_ok kc (s_intermediate_account_cache s)"

definition layers_ok :: "(bytes \<Rightarrow> h256) \<Rightarrow> state \<Rightarrow> bool" where
  "layers_ok kc s \<longleftrightarrow>
     layer_ok kc (s_delta_padding s) (s_delta s)
     \<and> layer_ok kc (s_intermediate_padding s) (s_intermediate s)
     \<and> canonical_keys (st_to_canonical_map (s_snapshot s))"

definition roots_ok :: "(bytes \<Rightarrow> h256) \<Rightarrow> state \<Rightarrow> bool" where
  "roots_ok kc s \<longleftrightarrow>
     s_snapshot_root s = the (trie_root kc (live_values (st_to_canonical_map (s_snapshot s))))
     \<and> s_intermediate_root s = the (trie_root kc (s_intermediate s))
     \<and> s_delta_padding s = from_roots kc (s_snapshot_root s) (s_intermediate_root s)"

definition state_inv :: "(bytes \<Rightarrow> h256) \<Rightarrow> state \<Rightarrow> bool" where
  "state_inv kc s \<longleftrightarrow> caches_ok kc s \<and> layers_ok kc s \<and> roots_ok kc s"

lemmas state_inv_defs = state_inv_def caches_ok_def layers_ok_def roots_ok_def

definition layered :: "mpt_value option \<Rightarrow> bytes option \<Rightarrow> bytes option" where
  "layered here below = (case here of Some v \<Rightarrow> visible_value v | None \<Rightarrow> below)"

lemma layered_simps [simp]: "layered (Some v) b = visible_value v" "layered None b = b"
  by (simp_all add: layered_def)

definition state_view :: "state \<Rightarrow> bytes \<Rightarrow> bytes option" where
  "state_view s ck =
     layered (layer_map (s_delta s) ck)
       (layered (layer_map (s_intermediate s) ck) (snapshot_get_owned (s_snapshot s) ck))"

text \<open>The fields that are not caches.\<close>

definition same_core :: "state \<Rightarrow> state \<Rightarrow> bool" where
  "same_core s s' \<longleftrightarrow>
     s_snapshot s' = s_snapshot s \<and> s_intermediate s' = s_intermediate s \<and> s_delta s' = s_delta s
     \<and> s_snapshot_root s' = s_snapshot_root s \<and> s_intermediate_root s' = s_intermediate_root s
     \<and> s_intermediate_padding s' = s_intermediate_padding s \<and> s_delta_padding s' = s_delta_padding s
     \<and> s_height s' = s_height s \<and> s_snapshot_epoch_count s' = s_snapshot_epoch_count s
     \<and> s_last_root s' = s_last_root s \<and> s_delta_inc s' = s_delta_inc s"

lemma same_core_inv:
  "same_core s s' \<Longrightarrow> ac_ok kc (s_delta_account_cache s') \<Longrightarrow> ac_ok kc (s_intermediate_account_cache s') \<Longrightarrow>
   state_inv kc s \<Longrightarrow> state_inv kc s' \<and> state_view s' = state_view s"
  by (auto simp: same_core_def state_inv_defs state_view_def fun_eq_iff)

lemma empty_trie_root [simp]: "trie_root kc [] = Some MERKLE_NULL_NODE"
  by (simp add: trie_root_def)

lemma state_new_inv: "state_inv kc (state_new kc)"
  by (simp add: state_inv_defs state_new_def canonical_keys_def live_values_def genesis_def)

lemma with_snapshot_epoch_count_inv:
  "state_inv kc (with_snapshot_epoch_count kc n)"
  "state_view (with_snapshot_epoch_count kc n) = Map.empty"
proof -
  show "state_inv kc (with_snapshot_epoch_count kc n)"
    by (simp add: with_snapshot_epoch_count_def state_inv_defs state_new_def canonical_keys_def
        live_values_def genesis_def)
  show "state_view (with_snapshot_epoch_count kc n) = Map.empty"
    by (simp add: with_snapshot_epoch_count_def state_view_def state_new_def snapshot_get_owned_def
        snapshot_get_def st_default_def it_default_def fun_eq_iff)
qed

subsection \<open>Reads and writes\<close>

lemma state_get_correct:
  assumes inv: "state_inv kc s" and k: "plain_key k"
  shows "\<exists>s'. state_get kc k s = (Inr (state_view s (canonical_key k)), s')
       \<and> same_core s s' \<and> state_inv kc s'"
proof -
  obtain c1 where c1: "to_delta_mpt_key_bytes kc k (s_delta_padding s) (Some (s_delta_account_cache s))
      = (Inr (raw_of kc (s_delta_padding s) k), Some c1)" "ac_ok kc c1"
    using to_delta_cached [of kc "s_delta_account_cache s" k "s_delta_padding s"] inv
      plain_key_encodes(2) [OF k] by (auto simp: state_inv_defs)
  obtain c2 where c2: "to_delta_mpt_key_bytes kc k (s_intermediate_padding s)
        (Some (s_intermediate_account_cache s))
      = (Inr (raw_of kc (s_intermediate_padding s) k), Some c2)" "ac_ok kc c2"
    using to_delta_cached [of kc "s_intermediate_account_cache s" k "s_intermediate_padding s"] inv
      plain_key_encodes(2) [OF k] by (auto simp: state_inv_defs)
  have l: "bt_get (s_delta s) (raw_of kc (s_delta_padding s) k) = layer_map (s_delta s) (canonical_key k)"
    "bt_get (s_intermediate s) (raw_of kc (s_intermediate_padding s) k)
      = layer_map (s_intermediate s) (canonical_key k)"
    using inv k by (auto simp: state_inv_defs intro!: layer_get)
  define s' where "s' = (if layer_map (s_delta s) (canonical_key k) = None
    then s\<lparr>s_delta_account_cache := c1, s_intermediate_account_cache := c2\<rparr>
    else s\<lparr>s_delta_account_cache := c1\<rparr>)"
  have "state_get kc k s = (Inr (state_view s (canonical_key k)), s')"
    by (auto simp: state_get_def Let_def c1 c2 l plain_key_encodes(1) [OF k] state_view_def s'_def
        split: option.split)
  moreover have core: "same_core s s'" by (auto simp: s'_def same_core_def)
  moreover have "state_inv kc s'"
    using same_core_inv [OF core _ _ inv] inv c1(2) c2(2) by (auto simp: s'_def state_inv_defs)
  ultimately show ?thesis by blast
qed

definition stored_value :: "bytes \<Rightarrow> mpt_value" where
  "stored_value v = (if v = [] then Tombstone else MptSome v)"

lemma visible_stored [simp]: "visible_value (stored_value v) = (if v = [] then None else Some v)"
  by (simp add: stored_value_def)

lemma state_set_eq:
  assumes inv: "state_inv kc s" and k: "plain_key k"
  shows "\<exists>c. ac_ok kc c \<and> state_set kc k v s = (Inr (),
      s\<lparr>s_delta_account_cache := c,
        s_delta_inc := it_insert (raw_of kc (s_delta_padding s) k) (stored_value v) (s_delta_inc s),
        s_delta := bt_insert (raw_of kc (s_delta_padding s) k) (stored_value v) (s_delta s)\<rparr>)"
proof -
  obtain c where "to_delta_mpt_key_bytes kc k (s_delta_padding s) (Some (s_delta_account_cache s))
      = (Inr (raw_of kc (s_delta_padding s) k), Some c)" "ac_ok kc c"
    using to_delta_cached [of kc "s_delta_account_cache s" k "s_delta_padding s"] inv
      plain_key_encodes(2) [OF k] by (auto simp: state_inv_defs)
  then show ?thesis by (auto simp: state_set_def stored_value_def Let_def)
qed

text \<open>What a write leaves alone.\<close>

definition same_below :: "state \<Rightarrow> state \<Rightarrow> bool" where
  "same_below s s' \<longleftrightarrow>
     s_snapshot s' = s_snapshot s \<and> s_intermediate s' = s_intermediate s
     \<and> s_snapshot_root s' = s_snapshot_root s \<and> s_intermediate_root s' = s_intermediate_root s
     \<and> s_intermediate_padding s' = s_intermediate_padding s \<and> s_delta_padding s' = s_delta_padding s
     \<and> s_height s' = s_height s \<and> s_snapshot_epoch_count s' = s_snapshot_epoch_count s
     \<and> s_last_root s' = s_last_root s"

lemma same_below_refl [simp]: "same_below s s"
  by (simp add: same_below_def)

lemma same_below_trans: "same_below s s' \<Longrightarrow> same_below s' s'' \<Longrightarrow> same_below s s''"
  by (simp add: same_below_def)

lemma state_set_correct:
  assumes inv: "state_inv kc s" and k: "plain_key k"
  shows "\<exists>s'. state_set kc k v s = (Inr (), s') \<and> state_inv kc s' \<and> same_below s s'
       \<and> layer_map (s_delta s') = (layer_map (s_delta s))(canonical_key k \<mapsto> stored_value v)"
proof -
  obtain c where c: "ac_ok kc c" "state_set kc k v s = (Inr (),
      s\<lparr>s_delta_account_cache := c,
        s_delta_inc := it_insert (raw_of kc (s_delta_padding s) k) (stored_value v) (s_delta_inc s),
        s_delta := bt_insert (raw_of kc (s_delta_padding s) k) (stored_value v) (s_delta s)\<rparr>)"
    using state_set_eq [OF inv k] by blast
  have i: "it_inv kc (s_delta_inc s)" and lo: "layer_ok kc (s_delta_padding s) (s_delta s)"
    using inv by (auto simp: state_inv_defs)
  have "state_inv kc (snd (state_set kc k v s))"
    using inv c(1) layer_ok_insert [OF lo k] it_inv_insert [OF i] it.contents_update [OF i]
    by (simp add: c(2) state_inv_defs)
  then show ?thesis
    using layer_map_insert [OF lo k] by (auto simp: c(2) same_below_def)
qed

lemma state_set_view:
  assumes inv: "state_inv kc s" and k: "plain_key k"
  shows "\<exists>s'. state_set kc k v s = (Inr (), s') \<and> state_inv kc s'
       \<and> state_view s' = (state_view s)(canonical_key k := (if v = [] then None else Some v))"
  using state_set_correct [OF assms, of v]
  by (auto simp: state_view_def same_below_def fun_eq_iff)

end
