(* ===== verification/State_Commit.thy ===== *)
theory State_Commit
  imports State_Correct
begin

text \<open>
  Commits and rotations: the root returned is made of the stateless roots of the three
  layers, no rotation of a good state fails, and none is visible to reads. Hence a run of
  gets, sets and commits answers as a plain map does.
\<close>

subsection \<open>Rotation\<close>

lemma canonical_keys_updates:
  assumes "canonical_keys m" "layer_ok kc p l"
  shows "canonical_keys (map_updates (rekeyed l) m)"
proof -
  have "set (map_updates us m) \<subseteq> set m \<union> {kv. fst kv \<in> fst ` set us}" for us
  proof (induction us arbitrary: m)
    case (Cons u us)
    define m' where "m' = (case snd u of MptSome v \<Rightarrow> bt_insert (fst u) v m | Tombstone \<Rightarrow> bt_remove (fst u) m)"
    have "set m' \<subseteq> set m \<union> {kv. fst kv = fst u}"
      by (cases "snd u")
        (auto simp: m'_def dest!: subsetD [OF set_bt_insert_subset] subsetD [OF set_bt_remove_subset])
    moreover have "map_updates (u # us) m = map_updates us m'"
      by (cases "snd u") (simp_all add: map_updates_def m'_def)
    ultimately show ?case using Cons.IH [of m'] by auto
  qed (simp add: map_updates_def)
  then have sub: "kv \<in> set m \<or> fst kv \<in> fst ` set (rekeyed l)" if "kv \<in> set (map_updates (rekeyed l) m)" for kv
    using that by blast
  have "\<exists>k. plain_key k \<and> ck = canonical_key k" if "ck \<in> fst ` set (rekeyed l)" for ck
  proof -
    from that obtain kv where kv: "kv \<in> set l" "ck = projr (canonical_of (fst kv))"
      by (auto simp: rekeyed_def)
    with assms(2) obtain k where "plain_key k" "fst kv = raw_of kc p k" by (auto simp: layer_ok_def)
    with kv(2) show ?thesis using canonical_of_raw_key [of k kc p] by auto
  qed
  with sub assms(1) show ?thesis unfolding canonical_keys_def by (metis imageE)
qed

text \<open>The state after a rotation, and that it is reached.\<close>

definition rotated :: "(bytes \<Rightarrow> h256) \<Rightarrow> h256 \<Rightarrow> state \<Rightarrow> state \<Rightarrow> bool" where
  "rotated kc delta_root s s' \<longleftrightarrow>
     st_to_canonical_map (s_snapshot s')
       = map_updates (rekeyed (s_intermediate s)) (st_to_canonical_map (s_snapshot s))
     \<and> s_intermediate s' = s_delta s \<and> s_delta s' = []
     \<and> s_intermediate_padding s' = s_delta_padding s
     \<and> s_intermediate_root s' = delta_root
     \<and> s_delta_padding s' = from_roots kc (s_snapshot_root s') delta_root"

lemma advance_correct:
  assumes inv: "state_inv kc s" and root: "delta_root = the (trie_root kc (s_delta s))"
    and b: "at_boundary s"
  shows "\<exists>s'. advance_after_commit kc delta_root s = (Inr (), s') \<and> state_inv kc s'
       \<and> rotated kc delta_root s s' \<and> s_height s' = s_height s
       \<and> s_snapshot_epoch_count s' = s_snapshot_epoch_count s \<and> s_last_root s' = s_last_root s"
proof -
  have lo: "layer_ok kc (s_intermediate_padding s) (s_intermediate s)"
    and st: "st_inv kc (s_snapshot s)" and ck: "canonical_keys (st_to_canonical_map (s_snapshot s))"
    using inv by (auto simp: state_inv_defs)
  define us where "us = rekeyed (s_intermediate s)"
  note upd = st_updates_map [OF st, of us]
  obtain snap where r: "st_root_with_policy kc SkipSingleton (st_apply_updates us (s_snapshot s))
      = Some (the (trie_root kc (live_values (map_updates us (st_to_canonical_map (s_snapshot s))))), snap)"
    "st_inv kc snap" "st_to_canonical_map snap = map_updates us (st_to_canonical_map (s_snapshot s))"
    using snap.root_law [of kc "st_apply_updates us (s_snapshot s)" SkipSingleton] upd by auto
  have keys: "canonical_keys (map_updates us (st_to_canonical_map (s_snapshot s)))"
    unfolding us_def by (rule canonical_keys_updates [OF ck lo])
  have u: "snapshot_updates (s_intermediate s) = Inr us"
    unfolding us_def by (rule snapshot_updates_rekeyed [OF lo])
  define s' where "s' = snd (advance_after_commit kc delta_root s)"
  have a: "advance_after_commit kc delta_root s = (Inr (), s')"
    using b by (simp add: s'_def advance_after_commit_def u Let_def r(1))
  have s': "s' = s\<lparr>s_snapshot := snap,
      s_snapshot_root := the (trie_root kc (live_values (map_updates us (st_to_canonical_map (s_snapshot s))))),
      s_intermediate := s_delta s, s_delta := [], s_delta_inc := it_clear (s_delta_inc s),
      s_intermediate_root := delta_root, s_intermediate_padding := s_delta_padding s,
      s_delta_padding := from_roots kc
        (the (trie_root kc (live_values (map_updates us (st_to_canonical_map (s_snapshot s)))))) delta_root,
      s_intermediate_account_cache := s_delta_account_cache s,
      s_delta_account_cache := ac_default kc\<rparr>"
    using b by (simp add: s'_def advance_after_commit_def u Let_def r(1))
  have "state_inv kc s'"
    using inv keys r(2) by (auto simp: s' state_inv_defs r(3) root)
  then show ?thesis
    using a by (auto simp: s' rotated_def r(3) us_def)
qed

lemma rotated_view:
  assumes inv: "state_inv kc s" and rot: "rotated kc h s s'" and inv': "state_inv kc s'"
  shows "state_view s' = state_view s"
proof (rule ext)
  fix ck
  have st: "st_inv kc (s_snapshot s)" "st_inv kc (s_snapshot s')"
    and lo: "layer_ok kc (s_intermediate_padding s) (s_intermediate s)"
    using inv inv' by (auto simp: state_inv_defs)
  have "snapshot_get_owned (s_snapshot s') ck = bt_get (st_to_canonical_map (s_snapshot s')) ck"
    by (simp add: snap.map_lookup [OF st(2)])
  also have "\<dots> = (case map_of (rekeyed (s_intermediate s)) ck of Some v \<Rightarrow> visible_value v
      | None \<Rightarrow> bt_get (st_to_canonical_map (s_snapshot s)) ck)"
    using rot map_updates_get [OF snap.map_wf [OF st(1)] rekeyed_distinct [OF lo]]
    by (simp add: rotated_def)
  also have "\<dots> = layered (layer_map (s_intermediate s) ck) (snapshot_get_owned (s_snapshot s) ck)"
    by (simp add: layered_def layer_map_def snap.map_lookup [OF st(1)] split: option.split)
  finally show "state_view s' ck = state_view s ck"
    using rot by (simp add: state_view_def rotated_def)
qed

subsection \<open>Commit\<close>

definition committed_root :: "(bytes \<Rightarrow> h256) \<Rightarrow> state \<Rightarrow> commit_root" where
  "committed_root kc s =
     commit_root_new kc
       (the (trie_root kc (live_values (st_to_canonical_map (s_snapshot s)))))
       (the (trie_root kc (s_intermediate s)))
       (the (trie_root kc (s_delta s)))
       (s_delta_padding s)"

definition commit_due :: "state \<Rightarrow> bool" where
  "commit_due s \<longleftrightarrow>
     s_height s + 1 \<noteq> 0 \<and> (s_height s + 1) mod ucast (s_snapshot_epoch_count s) = 0"

lemma state_commit_correct:
  assumes inv: "state_inv kc s"
  shows "\<exists>s'. state_commit kc s = (Inr (committed_root kc s), s') \<and> state_inv kc s'
       \<and> state_view s' = state_view s
       \<and> s_height s' = s_height s + 1 \<and> s_last_root s' = Some (committed_root kc s)
       \<and> s_snapshot_epoch_count s' = s_snapshot_epoch_count s
       \<and> (if commit_due s then rotated kc (the (trie_root kc (s_delta s))) s s'
          else s_delta s' = s_delta s \<and> s_intermediate s' = s_intermediate s
               \<and> s_snapshot s' = s_snapshot s \<and> s_delta_padding s' = s_delta_padding s
               \<and> s_intermediate_padding s' = s_intermediate_padding s)"
proof -
  have i: "it_inv kc (s_delta_inc s)" "it_contents (s_delta_inc s) = s_delta s"
    using inv by (auto simp: state_inv_defs)
  define h where "h = the (trie_root kc (s_delta s))"
  obtain inc where r: "it_root kc (s_delta_inc s) = Some (h, inc)"
    "it_inv kc inc" "it_contents inc = s_delta s"
    using it.root_law [OF i(1), of Full] i(2) by (auto simp: it_root_def h_def)
  have root: "commit_root_new kc (s_snapshot_root s) (s_intermediate_root s) h (s_delta_padding s)
      = committed_root kc s"
    using inv by (simp add: committed_root_def state_inv_defs h_def)
  define s1 where "s1 = s\<lparr>s_delta_inc := inc, s_last_root := Some (committed_root kc s),
      s_height := s_height s + 1\<rparr>"
  have inv1: "state_inv kc s1" using inv r by (auto simp: s1_def state_inv_defs)
  have view1: "state_view s1 = state_view s" by (simp add: s1_def state_view_def fun_eq_iff)
  have due: "at_boundary s1 \<longleftrightarrow> commit_due s" by (simp add: at_boundary_def commit_due_def s1_def)
  have commit: "state_commit kc s = (case advance_after_commit kc h s1 of
      (Inl e, s2) \<Rightarrow> (Inl e, s2) | (Inr _, s2) \<Rightarrow> (Inr (committed_root kc s), s2))"
    unfolding state_commit_def r(1) s1_def Let_def option.case prod.case root by (rule refl)
  show ?thesis
  proof (cases "commit_due s")
    case True
    obtain s' where s': "advance_after_commit kc h s1 = (Inr (), s')" "state_inv kc s'"
      "rotated kc h s1 s'" "s_height s' = s_height s1"
      "s_snapshot_epoch_count s' = s_snapshot_epoch_count s1" "s_last_root s' = s_last_root s1"
      using advance_correct [OF inv1, of h] True due by (auto simp: h_def s1_def)
    have "rotated kc h s s'" using s'(3) by (simp add: rotated_def s1_def)
    then show ?thesis
      using True s' commit rotated_view [OF inv1 s'(3,2)] view1 by (auto simp: s1_def h_def)
  next
    case False
    then have "advance_after_commit kc h s1 = (Inr (), s1)"
      using due by (simp add: advance_after_commit_def)
    then show ?thesis using False commit inv1 view1 by (simp add: s1_def)
  qed
qed

subsection \<open>Other ways to a state\<close>

lemma state_from_snapshot_correct:
  assumes "bt_wf m" "canonical_keys m"
  shows "\<exists>s. state_from_snapshot kc m = Inr s \<and> state_inv kc s \<and> state_view s = bt_get m
       \<and> s_snapshot_root s = the (trie_root kc (live_values m))"
proof -
  have l: "st_inv kc (st_from_snapshot m)" "st_to_canonical_map (st_from_snapshot m) = m"
    using snap.load_law [OF assms(1)] by auto
  obtain s' where r: "st_root_with_policy kc SkipSingleton (st_from_snapshot m)
      = Some (the (trie_root kc (live_values m)), s')" "st_inv kc s'" "st_to_canonical_map s' = m"
    using snap.root_law [OF l(1), of SkipSingleton] l(2) by auto
  have "bt_get m = snapshot_get_owned s'"
    using snap.map_lookup [OF r(2)] r(3) by simp
  then show ?thesis
    using assms r by (auto simp: state_from_snapshot_def state_inv_defs state_new_def state_view_def)
qed

lemma put_intermediate_raw_correct:
  assumes inv: "state_inv kc s" and empty: "s_delta s = []" and k: "plain_key k"
  shows "\<exists>s'. put_intermediate_raw kc (raw_of kc (s_intermediate_padding s) k) v s = Inr s'
       \<and> state_inv kc s'
       \<and> state_view s' = (state_view s)(canonical_key k := visible_value v)"
proof -
  let ?m = "bt_insert (raw_of kc (s_intermediate_padding s) k) v (s_intermediate s)"
  have lo: "layer_ok kc (s_intermediate_padding s) (s_intermediate s)"
    using inv by (simp add: state_inv_defs)
  note lo' = layer_ok_insert [OF lo k, of v]
  have r: "trie_root kc ?m = Some (the (trie_root kc ?m))"
    using lo' by (intro trie_root_total) (simp add: layer_ok_def)
  define s' where "s' = s\<lparr>s_intermediate := ?m, s_intermediate_root := the (trie_root kc ?m),
      s_delta_padding := from_roots kc (s_snapshot_root s) (the (trie_root kc ?m))\<rparr>"
  have "put_intermediate_raw kc (raw_of kc (s_intermediate_padding s) k) v s = Inr s'"
    unfolding put_intermediate_raw_def Let_def by (subst r) (simp add: s'_def)
  moreover have "state_inv kc s'"
    using inv lo' empty by (simp add: s'_def state_inv_defs)
  moreover have "state_view s' = (state_view s)(canonical_key k := visible_value v)"
    using empty layer_map_insert [OF lo k, of v]
    by (auto simp: s'_def state_view_def fun_eq_iff)
  ultimately show ?thesis by blast
qed

subsection \<open>Runs\<close>

datatype state_op = OpGet storage_key_with_space | OpSet storage_key_with_space bytes | OpCommit

fun op_key :: "state_op \<Rightarrow> storage_key_with_space option" where
  "op_key (OpGet k) = Some k"
| "op_key (OpSet k v) = Some k"
| "op_key OpCommit = None"

text \<open>The answers of a run: a read its value, a write and a commit that they succeeded.\<close>

fun run_state ::
  "(bytes \<Rightarrow> h256) \<Rightarrow> state_op list \<Rightarrow> state \<Rightarrow> bytes option result list" where
  "run_state kc [] s = []"
| "run_state kc (OpGet k # ops) s =
     (let (r, s') = state_get kc k s in r # run_state kc ops s')"
| "run_state kc (OpSet k v # ops) s =
     (let (r, s') = state_set kc k v s in map_sum id (\<lambda>_. None) r # run_state kc ops s')"
| "run_state kc (OpCommit # ops) s =
     (let (r, s') = state_commit kc s in map_sum id (\<lambda>_. None) r # run_state kc ops s')"

fun run_plain_map :: "state_op list \<Rightarrow> (bytes \<rightharpoonup> bytes) \<Rightarrow> bytes option list" where
  "run_plain_map [] m = []"
| "run_plain_map (OpGet k # ops) m = m (canonical_key k) # run_plain_map ops m"
| "run_plain_map (OpSet k v # ops) m =
     None # run_plain_map ops (m(canonical_key k := (if v = [] then None else Some v)))"
| "run_plain_map (OpCommit # ops) m = None # run_plain_map ops m"

lemma run_state_view:
  "state_inv kc s \<Longrightarrow> list_all (\<lambda>op. pred_option plain_key (op_key op)) ops \<Longrightarrow>
   run_state kc ops s = map Inr (run_plain_map ops (state_view s))"
proof (induction ops arbitrary: s)
  case (Cons op ops)
  show ?case
  proof (cases op)
    case (OpGet k)
    obtain s' where s': "state_get kc k s = (Inr (state_view s (canonical_key k)), s')"
      "same_core s s'" "state_inv kc s'"
      using state_get_correct [OF Cons.prems(1), of k] Cons.prems(2) by (auto simp: OpGet)
    have "state_view s' = state_view s"
      using s'(2) by (simp add: same_core_def state_view_def fun_eq_iff)
    then show ?thesis using Cons s' by (simp add: OpGet)
  next
    case (OpSet k v)
    obtain s' where "state_set kc k v s = (Inr (), s')" "state_inv kc s'"
      "state_view s' = (state_view s)(canonical_key k := (if v = [] then None else Some v))"
      using state_set_view [OF Cons.prems(1), of k v] Cons.prems(2) by (auto simp: OpSet)
    then show ?thesis using Cons by (simp add: OpSet)
  next
    case OpCommit
    obtain s' where "state_commit kc s = (Inr (committed_root kc s), s')" "state_inv kc s'"
      "state_view s' = state_view s"
      using state_commit_correct [OF Cons.prems(1)] by blast
    then show ?thesis using Cons by (simp add: OpCommit)
  qed
qed simp

end
