(* ===== verification/State_Prefix.thy ===== *)
theory State_Prefix
  imports State_Commit
begin

text \<open>
  Prefix reads and deletes (\<open>state/prefix.rs\<close>): for the prefixes that are encoded at the
  boundary of a hashed field, a read returns exactly the visible entries below the prefix,
  each once, and a delete returns the same entries and hides them, short accounts apart.
\<close>

subsection \<open>Scanning a sorted map\<close>

lemma prefix_le: "prefix p k \<Longrightarrow> p \<le> (k :: bytes)"
proof (induction p arbitrary: k)
  case (Cons x p)
  then show ?case by (cases k) auto
qed simp

lemma bytes_prefix_between:
  "prefix p b \<Longrightarrow> p \<le> k \<Longrightarrow> k \<le> b \<Longrightarrow> prefix (p :: bytes) k"
  using prefix_between [of p p b k] by simp

lemma takeWhile_is_filter:
  "sorted_wrt R xs \<Longrightarrow> (\<And>x y. x \<in> set xs \<Longrightarrow> y \<in> set xs \<Longrightarrow> R x y \<Longrightarrow> P y \<Longrightarrow> P x) \<Longrightarrow>
   takeWhile P xs = filter P xs"
proof (induction xs)
  case (Cons x xs)
  show ?case
  proof (cases "P x")
    case True
    have "takeWhile P xs = filter P xs"
    proof (rule Cons.IH)
      show "sorted_wrt R xs" using Cons.prems(1) by simp
      show "P u" if "u \<in> set xs" "v \<in> set xs" "R u v" "P v" for u v
        using that by (intro Cons.prems(2) [of u v]) simp_all
    qed
    with True show ?thesis by simp
  next
    case False
    have "\<not> P y" if "y \<in> set xs" for y
      using Cons.prems(2) [of x y] Cons.prems(1) that False by auto
    with False show ?thesis by (simp add: filter_empty_conv)
  qed
qed simp

lemma scan_prefix_filter:
  assumes "bt_wf m"
  shows "scan_prefix m pre = filter (\<lambda>kv. prefix pre (fst kv)) m"
proof -
  have s: "sorted_wrt (\<lambda>x y. fst x < fst y) (bt_range_from m pre)"
    using assms by (simp add: bt_wf_def sorted_wrt_map bt_range_from_def sorted_wrt_filter)
  have "scan_prefix m pre = filter (\<lambda>kv. prefix pre (fst kv)) (bt_range_from m pre)"
    unfolding scan_prefix_def
    by (rule takeWhile_is_filter [OF s])
      (auto simp: bt_range_from_def intro: bytes_prefix_between order_less_imp_le)
  also have "\<dots> = filter (\<lambda>kv. prefix pre (fst kv)) m"
    by (auto simp: bt_range_from_def prefix_le intro!: filter_cong)
  finally show ?thesis .
qed

subsection \<open>Prefixes that fall on the boundary of a hashed field\<close>

definition aligned_prefix :: "storage_key_with_space \<Rightarrow> bool" where
  "aligned_prefix k \<longleftrightarrow>
     (case sk_key k of
        Storage a s \<Rightarrow> False
      | EmptyKey \<Rightarrow> True
      | AddressPrefix p \<Rightarrow> True
      | key \<Rightarrow> (\<exists>a. key_address key = Some a \<and> length a = 20))"

lemma aligned_prefix_cases:
  assumes "aligned_prefix k"
  obtains (full) a where "key_address (sk_key k) = Some a" "length a = 20"
      "\<And>b s. sk_key k \<noteq> Storage b s"
    | (empty) "sk_key k = EmptyKey"
    | (address) p where "sk_key k = AddressPrefix p"
  using assms by (cases "sk_key k") (auto simp: aligned_prefix_def)

lemma aligned_suffix:
  assumes "\<And>b s. pkey \<noteq> Storage b s"
  shows "prefix (space_mark sp @ canonical_suffix pkey) (space_mark sp' @ delta_suffix kc p key)
     \<longleftrightarrow> prefix (space_mark sp @ canonical_suffix pkey) (space_mark sp' @ canonical_suffix key)"
  using assms
  by (cases key; cases pkey; cases sp; cases sp'; simp add: space_mark_def key_prefixes)

lemma delta_suffix_not_storage:
  "(\<And>b s. key \<noteq> Storage b s) \<Longrightarrow> delta_suffix kc p key = canonical_suffix key"
  by (cases key) auto

lemma same_length_prefix_append:
  "length x = length y \<Longrightarrow> prefix (x @ u) (y @ v) \<longleftrightarrow> x = y \<and> prefix u v"
  by (auto simp: prefix_def)

lemma account_key_inj:
  "account_key_uncached kc a p = account_key_uncached kc b p \<Longrightarrow> a = b"
  by (auto simp: account_key_uncached_def Let_def key_sizes)

lemma aligned_prefix_raw:
  assumes pk: "key_address (sk_key pk) = Some a" "length a = 20" "\<And>b s. sk_key pk \<noteq> Storage b s"
    and k: "plain_key k"
  shows "prefix (raw_of kc p pk) (raw_of kc p k) \<longleftrightarrow> prefix (canonical_key pk) (canonical_key k)"
  using k
proof (cases k rule: plain_key_cases)
  case (full b)
  have "prefix (raw_of kc p pk) (raw_of kc p k) \<longleftrightarrow>
      a = b \<and> prefix (space_mark (sk_space pk) @ canonical_suffix (sk_key pk))
                (space_mark (sk_space k) @ delta_suffix kc p (sk_key k))"
    using pk full(1,2) account_key_inj [of kc a p b]
    by (auto simp: raw_key_full(1) same_length_prefix_append length_account_key
        delta_suffix_not_storage)
  then show ?thesis
    using pk full(1,2) aligned_suffix [OF pk(3)]
    by (simp add: raw_key_full(2) same_length_prefix_append)
next
  case (short b)
  have "length (raw_of kc p pk) > length b" "length (canonical_key pk) > length b"
    using pk short by (simp_all add: raw_key_full(1,2) length_account_key)
  then show ?thesis
    using canonical_key_short(1) [OF short] by (auto dest: prefix_length_le)
next
  case empty
  have "raw_of kc p pk \<noteq> []" "canonical_key pk \<noteq> []"
    using pk by (auto simp: raw_key_full(1,2) dest: arg_cong [where f = length] simp: length_account_key)
  then show ?thesis using canonical_key_short(2) [OF empty] by simp
qed

text \<open>The three encodings of an aligned prefix, and what they select of a layer.\<close>

lemma aligned_prefix_encodes:
  assumes "aligned_prefix pk"
  shows "to_key_bytes pk = Inr (canonical_key pk)" "delta_key kc p pk = Inr (raw_of kc p pk)"
  using assms
  by (cases pk rule: aligned_prefix_cases;
      simp add: canonical_key_def raw_of_def short_key to_key_bytes_shape delta_key_shape;
      simp add: to_key_bytes_def delta_key_def to_delta_mpt_key_bytes_def)+

definition selected :: "bytes \<Rightarrow> (bytes \<times> 'v) list \<Rightarrow> (bytes \<times> 'v) list" where
  "selected cp rs = filter (\<lambda>kv. prefix cp (fst kv)) rs"

definition unfiltered :: "bytes option \<Rightarrow> (bytes \<times> 'v) list \<Rightarrow> (bytes \<times> 'v) list" where
  "unfiltered ap rs = filter (\<lambda>kv. \<not> filtered_out ap (fst kv)) rs"

lemma selected_layer:
  assumes pk: "aligned_prefix pk" and lo: "layer_ok kc p m"
  shows "unfiltered (address_prefix_filter pk) (rekeyed (scan_prefix m (raw_of kc p pk)))
       = selected (canonical_key pk) (rekeyed m)"
proof -
  have sc: "scan_prefix m (raw_of kc p pk) = filter (\<lambda>kv. prefix (raw_of kc p pk) (fst kv)) m"
    using lo by (simp add: layer_ok_def scan_prefix_filter)
  show ?thesis
    using pk
  proof (cases pk rule: aligned_prefix_cases)
    case (full a)
    have ap: "address_prefix_filter pk = None"
      using full(1) by (cases "sk_key pk") (auto simp: address_prefix_filter_def)
    have "prefix (raw_of kc p pk) (fst kv) \<longleftrightarrow> prefix (canonical_key pk) (projr (canonical_of (fst kv)))"
      if "kv \<in> set m" for kv
      using that lo aligned_prefix_raw [OF full] canonical_of_raw_key unfolding layer_ok_def
      by (metis sum.sel(2))
    then show ?thesis
      unfolding ap sc unfiltered_def selected_def rekeyed_def filtered_out_def
      by (simp add: filter_map comp_def cong: filter_cong)
  next
    case empty
    then show ?thesis
      unfolding sc unfiltered_def selected_def
      by (simp add: address_prefix_filter_def filtered_out_def canonical_key_short(2))
  next
    case (address q)
    have "raw_of kc p pk = []" "canonical_key pk = q"
      using address by (simp_all add: raw_of_def delta_key_def to_delta_mpt_key_bytes_def
          canonical_key_def to_key_bytes_def)
    then show ?thesis
      unfolding sc unfiltered_def selected_def
      by (simp add: address_prefix_filter_def filtered_out_def address)
  qed
qed

subsection \<open>The loops\<close>

definition visible_entries :: "(bytes \<times> mpt_value) list \<Rightarrow> (bytes \<times> bytes) list" where
  "visible_entries rs = List.map_filter (\<lambda>kv. map_option (Pair (fst kv)) (visible_value (snd kv))) rs"

lemma visible_entries_Nil [simp]: "visible_entries [] = []"
  by (simp add: visible_entries_def List.map_filter_simps)

lemma push_visible_entries:
  "push_visible result ck v @ visible_entries rs = result @ visible_entries ((ck, v) # rs)"
  by (auto simp: push_visible_def visible_entries_def List.map_filter_simps split: option.split)

lemma set_visible_entries:
  "(ck, w) \<in> set (visible_entries rs) \<longleftrightarrow> (\<exists>v. (ck, v) \<in> set rs \<and> visible_value v = Some w)"
  by (induction rs) (auto simp: visible_entries_def List.map_filter_simps split: option.splits)

lemma visible_keys:
  "ck \<in> fst ` set (visible_entries rs) \<longleftrightarrow> (\<exists>v w. (ck, v) \<in> set rs \<and> visible_value v = Some w)"
proof -
  have "ck \<in> fst ` set (visible_entries rs) \<longleftrightarrow> (\<exists>w. (ck, w) \<in> set (visible_entries rs))"
    by (simp add: image_iff Bex_def)
  then show ?thesis unfolding set_visible_entries by blast
qed

lemma visible_entries_distinct:
  "distinct (map fst rs) \<Longrightarrow> distinct (map fst (visible_entries rs))"
proof (induction rs)
  case (Cons r rs)
  have "fst r \<notin> fst ` set (visible_entries rs)"
    using Cons.prems by (fastforce simp: set_visible_entries image_iff)
  with Cons show ?case
    by (auto simp: visible_entries_def List.map_filter_simps split: option.split)
qed simp

definition encoded :: "(bytes \<times> mpt_value) list \<Rightarrow> bool" where
  "encoded kvs \<longleftrightarrow> (\<forall>kv \<in> set kvs. \<exists>k. plain_key k \<and> canonical_of (fst kv) = Inr (canonical_key k))"

lemma encoded_layer: "layer_ok kc p m \<Longrightarrow> encoded m"
  unfolding encoded_def layer_ok_def by (metis canonical_of_raw_key)

lemma encoded_scan: "layer_ok kc p m \<Longrightarrow> encoded (scan_prefix m pre)"
proof (rule encoded_layer [of kc p])
  assume lo: "layer_ok kc p m"
  then have "scan_prefix m pre = filter (\<lambda>kv. prefix pre (fst kv)) m"
    by (simp add: layer_ok_def scan_prefix_filter)
  with lo show "layer_ok kc p (scan_prefix m pre)" by (simp add: layer_ok_filter)
qed

lemma encoded_Cons:
  "encoded ((raw, v) # kvs) \<longleftrightarrow>
   (\<exists>k. plain_key k \<and> canonical_of raw = Inr (canonical_key k)) \<and> encoded kvs"
  by (auto simp: encoded_def)

lemma rekeyed_Cons [simp]: "rekeyed ((raw, v) # kvs) = (projr (canonical_of raw), v) # rekeyed kvs"
  by (simp add: rekeyed_def)

lemma unfiltered_Cons:
  "unfiltered ap ((ck, v) # rs) = (if filtered_out ap ck then unfiltered ap rs else (ck, v) # unfiltered ap rs)"
  by (simp add: unfiltered_def)

lemma unfiltered_Nil [simp]: "unfiltered ap [] = []" "unfiltered ap (rekeyed []) = []"
  by (simp_all add: unfiltered_def rekeyed_def)

lemma read_delta_loop:
  "encoded kvs \<Longrightarrow>
   read_delta ap kvs (seen, result) =
     Inr (seen \<union> fst ` set (unfiltered ap (rekeyed kvs)),
          result @ visible_entries (unfiltered ap (rekeyed kvs)))"
proof (induction kvs arbitrary: seen result)
  case (Cons kv kvs)
  obtain raw v where kv: "kv = (raw, v)" by (cases kv)
  with Cons.prems obtain k where c: "canonical_of raw = Inr (canonical_key k)" "encoded kvs"
    by (auto simp: encoded_Cons)
  then show ?case
    using Cons.IH [OF c(2)]
    by (simp add: kv unfiltered_Cons push_visible_entries flip: canonical_of_def)
qed simp

definition unseen :: "bytes set \<Rightarrow> (bytes \<times> 'v) list \<Rightarrow> (bytes \<times> 'v) list" where
  "unseen seen rs = filter (\<lambda>kv. fst kv \<notin> seen) rs"

lemma unseen_Nil [simp]: "unseen seen [] = []"
  by (simp add: unseen_def)

lemma unseen_Cons_distinct:
  "distinct (map fst ((ck, v) # rs)) \<Longrightarrow>
   unseen seen ((ck, v) # rs) = (if ck \<in> seen then unseen seen rs else (ck, v) # unseen (insert ck seen) rs)
   \<and> unseen (insert ck seen) rs = unseen seen rs"
  by (auto simp: unseen_def image_iff intro!: filter_cong)

lemma distinct_unfiltered: "distinct (map fst rs) \<Longrightarrow> distinct (map fst (unfiltered ap rs))"
  by (simp add: unfiltered_def distinct_map_filter)

lemma read_intermediate_loop:
  "encoded kvs \<Longrightarrow> distinct (map fst (rekeyed kvs)) \<Longrightarrow>
   read_intermediate ap kvs (seen, result) =
     Inr (seen \<union> fst ` set (unfiltered ap (rekeyed kvs)),
          result @ visible_entries (unseen seen (unfiltered ap (rekeyed kvs))))"
proof (induction kvs arbitrary: seen result)
  case (Cons kv kvs)
  obtain raw v where kv: "kv = (raw, v)" by (cases kv)
  with Cons.prems obtain k where c: "canonical_of raw = Inr (canonical_key k)" "encoded kvs"
    by (auto simp: encoded_Cons)
  let ?rs = "unfiltered ap (rekeyed kvs)"
  have d: "distinct (map fst (rekeyed kvs))" using Cons.prems(2) by (simp add: kv)
  show ?case
  proof (cases "filtered_out ap (canonical_key k)")
    case True
    then show ?thesis
      using Cons.IH [OF c(2) d] c(1) by (simp add: kv unfiltered_Cons flip: canonical_of_def)
  next
    case False
    have "distinct (map fst ((canonical_key k, v) # ?rs))"
      using Cons.prems(2) c(1) False distinct_unfiltered [of "(canonical_key k, v) # rekeyed kvs" ap]
      by (simp add: kv unfiltered_Cons)
    from unseen_Cons_distinct [OF this, of seen] show ?thesis
      using Cons.IH [OF c(2) d] c(1) False
      by (simp add: kv unfiltered_Cons push_visible_entries insert_absorb flip: canonical_of_def)
  qed
qed simp

lemma read_snapshot_loop:
  "distinct (map fst kvs) \<Longrightarrow>
   snd (read_snapshot kvs (seen, result)) = result @ unseen seen kvs"
proof (induction kvs arbitrary: seen result)
  case (Cons kv kvs)
  obtain ck v where kv: "kv = (ck, v)" by (cases kv)
  from unseen_Cons_distinct [of ck v kvs seen] Cons show ?case by (simp add: kv)
qed simp


subsection \<open>Prefix reads\<close>

lemma distinct_selected: "distinct (map fst rs) \<Longrightarrow> distinct (map fst (selected cp rs))"
  by (simp add: selected_def distinct_map_filter)

lemma rekeyed_scan_distinct:
  assumes "layer_ok kc p m"
  shows "distinct (map fst (rekeyed (scan_prefix m pre)))"
proof -
  have "layer_ok kc p (scan_prefix m pre)"
    using assms layer_ok_filter [OF assms] by (simp add: layer_ok_def scan_prefix_filter)
  then show ?thesis by (rule rekeyed_distinct)
qed

text \<open>The pairs that a prefix operation returns, layer by layer.\<close>

definition prefix_pairs :: "bytes \<Rightarrow> state \<Rightarrow> (bytes \<times> bytes) list" where
  "prefix_pairs cp s =
     (let d = selected cp (rekeyed (s_delta s));
          i = selected cp (rekeyed (s_intermediate s));
          b = selected cp (st_to_canonical_map (s_snapshot s))
      in visible_entries d @ visible_entries (unseen (fst ` set d) i)
         @ unseen (fst ` set d \<union> fst ` set i) b)"

lemma in_selected: "kv \<in> set (selected cp rs) \<longleftrightarrow> kv \<in> set rs \<and> prefix cp (fst kv)"
  by (auto simp: selected_def)

lemma in_unseen: "kv \<in> set (unseen seen rs) \<longleftrightarrow> kv \<in> set rs \<and> fst kv \<notin> seen"
  by (auto simp: unseen_def)

lemma rekeyed_iff:
  "layer_ok kc p m \<Longrightarrow> (ck, v) \<in> set (rekeyed m) \<longleftrightarrow> layer_map m ck = Some v"
  unfolding layer_map_def by (rule map_of_eq_Some_iff [symmetric]) (rule rekeyed_distinct)

lemma rekeyed_keys:
  "layer_ok kc p m \<Longrightarrow> ck \<in> fst ` set (selected cp (rekeyed m)) \<longleftrightarrow> prefix cp ck \<and> layer_map m ck \<noteq> None"
  using rekeyed_iff [of kc p m] by (force simp: in_selected image_iff)

lemma prefix_pairs_view:
  assumes inv: "state_inv kc s"
  shows "(ck, v) \<in> set (prefix_pairs cp s) \<longleftrightarrow> prefix cp ck \<and> state_view s ck = Some v"
    "distinct (map fst (prefix_pairs cp s))"
proof -
  have lo: "layer_ok kc (s_delta_padding s) (s_delta s)"
    "layer_ok kc (s_intermediate_padding s) (s_intermediate s)" and st: "st_inv kc (s_snapshot s)"
    using inv by (auto simp: state_inv_defs)
  let ?b = "st_to_canonical_map (s_snapshot s)"
  have b: "(ck, v) \<in> set ?b \<longleftrightarrow> snapshot_get_owned (s_snapshot s) ck = Some v" for ck v
    using bt_get_iff [OF snap.map_wf [OF st], of ck v] by (simp add: snap.map_lookup [OF st])
  show "(ck, v) \<in> set (prefix_pairs cp s) \<longleftrightarrow> prefix cp ck \<and> state_view s ck = Some v"
    unfolding prefix_pairs_def Let_def set_append Un_iff set_visible_entries in_unseen in_selected
      rekeyed_keys [OF lo(1)] rekeyed_keys [OF lo(2)] rekeyed_iff [OF lo(1)] rekeyed_iff [OF lo(2)] b
      fst_conv
    by (cases "layer_map (s_delta s) ck"; cases "layer_map (s_intermediate s) ck")
      (auto simp: state_view_def)
  let ?d = "selected cp (rekeyed (s_delta s))"
  let ?i = "selected cp (rekeyed (s_intermediate s))"
  have dist: "distinct (map fst ?d)" "distinct (map fst ?i)" "distinct (map fst (selected cp ?b))"
    using rekeyed_distinct [OF lo(1)] rekeyed_distinct [OF lo(2)] bt_wf_distinct [OF snap.map_wf [OF st]]
    by (simp_all add: distinct_selected)
  let ?D = "fst ` set ?d" and ?I = "fst ` set ?i"
  let ?v1 = "visible_entries ?d" and ?v2 = "visible_entries (unseen ?D ?i)"
    and ?v3 = "unseen (?D \<union> ?I) (selected cp ?b)"
  have d3: "distinct (map fst ?v1)" "distinct (map fst ?v2)" "distinct (map fst ?v3)"
    using dist by (simp_all add: visible_entries_distinct unseen_def distinct_map_filter)
  have sub: "fst ` set (visible_entries rs) \<subseteq> fst ` set rs" for rs
    by (force simp: set_visible_entries)
  have un: "fst ` set (unseen seen rs) \<subseteq> fst ` set rs - seen" for seen and rs :: "(bytes \<times> 'x) list"
    by (auto simp: in_unseen)
  have k1: "fst ` set ?v1 \<subseteq> ?D" by (rule sub)
  have k2: "fst ` set ?v2 \<subseteq> ?I - ?D" by (rule order_trans [OF sub un])
  have k3: "fst ` set ?v3 \<subseteq> UNIV - (?D \<union> ?I)"
    by (rule order_trans [OF un Diff_mono]) simp_all
  have disj: "A \<inter> B = {} \<and> A \<inter> C = {} \<and> B \<inter> C = {}"
    if "A \<subseteq> D" "B \<subseteq> I - D" "C \<subseteq> UNIV - (D \<union> I)" for A B C D I :: "bytes set"
    using that by blast
  from disj [OF k1 k2 k3] have "fst ` set ?v1 \<inter> fst ` set ?v2 = {}"
    "fst ` set ?v1 \<inter> fst ` set ?v3 = {}" "fst ` set ?v2 \<inter> fst ` set ?v3 = {}" by blast+
  then show "distinct (map fst (prefix_pairs cp s))"
    unfolding prefix_pairs_def Let_def map_append distinct_append set_append set_map
    using d3 by (simp add: Int_Un_distrib)
qed

lemma read_prefix_pairs:
  assumes inv: "state_inv kc s" and pk: "aligned_prefix pk"
  shows "read_prefix kc pk s = Inr (prefix_pairs (canonical_key pk) s)"
proof -
  have lo: "layer_ok kc (s_delta_padding s) (s_delta s)"
    "layer_ok kc (s_intermediate_padding s) (s_intermediate s)" and st: "st_inv kc (s_snapshot s)"
    using inv by (auto simp: state_inv_defs)
  have "distinct (map fst (selected (canonical_key pk) (st_to_canonical_map (s_snapshot s))))"
    by (intro distinct_selected bt_wf_distinct snap.map_wf [OF st])
  then show ?thesis
    by (simp add: read_prefix_def aligned_prefix_encodes [OF pk] Let_def delta_key_def [symmetric]
        read_delta_loop [OF encoded_scan [OF lo(1)]] selected_layer [OF pk lo(1)]
        read_intermediate_loop [OF encoded_scan [OF lo(2)] rekeyed_scan_distinct [OF lo(2)]]
        selected_layer [OF pk lo(2)] snap.scan_law [OF st] read_snapshot_loop prefix_pairs_def
        flip: selected_def)
qed

subsection \<open>Prefix deletes\<close>

lemma remove_delta_loop:
  assumes "state_inv kc s" "bt_wf m" "set m \<subseteq> set (s_delta s)"
  shows "\<exists>s'. remove_delta (map fst m) s = (m, s') \<and> state_inv kc s' \<and> same_below s s'
     \<and> (\<forall>raw. bt_get (s_delta s') raw = (if raw \<in> fst ` set m then None else bt_get (s_delta s) raw))"
  using assms
proof (induction m arbitrary: s)
  case (Cons kv m)
  obtain raw v where kv: "kv = (raw, v)" by (cases kv)
  have i: "it_inv kc (s_delta_inc s)" "it_contents (s_delta_inc s) = s_delta s"
    and lo: "layer_ok kc (s_delta_padding s) (s_delta s)"
    using Cons.prems(1) by (auto simp: state_inv_defs)
  have wf: "bt_wf (s_delta s)" using lo by (simp add: layer_ok_def)
  have get: "bt_get (s_delta s) raw = Some v"
    using Cons.prems(3) by (simp add: bt_get_iff [OF wf] kv)
  define s1 where "s1 = s\<lparr>s_delta := bt_remove raw (s_delta s), s_delta_inc := it_remove raw (s_delta_inc s)\<rparr>"
  have inv1: "state_inv kc s1"
    using Cons.prems(1) it_inv_remove [OF i(1)] it.contents_delete [OF i(1)] i(2) layer_ok_remove [OF lo]
    by (auto simp: s1_def state_inv_defs)
  have below1: "same_below s s1" by (simp add: s1_def same_below_def)
  have wfm: "bt_wf m" and gt: "\<forall>x \<in> set m. raw < fst x" using Cons.prems(2) by (simp_all add: kv bt_wf_Cons)
  have sub: "set m \<subseteq> set (s_delta s1)"
  proof
    fix x assume x: "x \<in> set m"
    then have "bt_get (s_delta s) (fst x) = Some (snd x)"
      using Cons.prems(3) by (auto simp: bt_get_iff [OF wf] kv)
    then have "bt_get (s_delta s1) (fst x) = Some (snd x)"
      using wf gt x by (auto simp: s1_def)
    then show "x \<in> set (s_delta s1)" by (auto dest: bt_get_SomeD)
  qed
  obtain s' where s': "remove_delta (map fst m) s1 = (m, s')" "state_inv kc s'" "same_below s1 s'"
    "\<forall>raw. bt_get (s_delta s') raw = (if raw \<in> fst ` set m then None else bt_get (s_delta s1) raw)"
    using Cons.IH [OF inv1 wfm sub] by blast
  have "remove_delta (map fst (kv # m)) s = (kv # m, s')"
    using get s'(1) by (simp add: kv s1_def)
  moreover have "bt_get (s_delta s') r = (if r \<in> fst ` set (kv # m) then None else bt_get (s_delta s) r)" for r
    using s'(4) wf by (simp add: s1_def kv)
  ultimately show ?case using s'(2) same_below_trans [OF below1 s'(3)] by blast
qed auto

text \<open>The key that a raw key decodes to names the same entry.\<close>

lemma plain_decoded:
  assumes "plain_key k"
  shows "\<exists>k'. from_delta_mpt_key (raw_of kc p k) = Inr k' \<and> plain_key k' \<and> canonical_key k' = canonical_key k"
  using assms
proof (cases k rule: plain_key_cases)
  case (full a)
  have "plain_key \<lparr>sk_key = decoded_key (sk_key k), sk_space = sk_space k\<rparr>"
    using full by (cases "sk_key k" rule: decoded_key.cases) (auto simp: plain_key_def)
  then show ?thesis
    using raw_key_full(3) [OF full(1,2)] full(1,2) to_key_bytes_decoded [OF full(1,2)]
    by (simp add: canonical_key_def)
next
  case (short a)
  then show ?thesis
    using canonical_key_short(1) [OF short]
    by (simp add: from_delta_mpt_key_def key_sizes native_def plain_key_def canonical_key_def to_key_bytes_def)
next
  case empty
  then show ?thesis
    using canonical_key_short(2) [OF empty]
    by (simp add: from_delta_mpt_key_def key_sizes native_def plain_key_def canonical_key_def to_key_bytes_def)
qed

definition tombstoned :: "bytes set \<Rightarrow> (bytes \<rightharpoonup> mpt_value) \<Rightarrow> (bytes \<rightharpoonup> mpt_value)" where
  "tombstoned cks m = (\<lambda>ck. if ck \<in> cks then Some Tombstone else m ck)"

lemma tombstoned_empty [simp]: "tombstoned {} m = m"
  by (simp add: tombstoned_def)

lemma tombstoned_twice: "tombstoned a (tombstoned b m) = tombstoned (a \<union> b) m"
  by (auto simp: tombstoned_def)

lemma set_tombstone:
  assumes "state_inv kc s" "plain_key k"
  shows "\<exists>s'. state_set kc k [] s = (Inr (), s') \<and> state_inv kc s' \<and> same_below s s'
     \<and> layer_map (s_delta s') = tombstoned {canonical_key k} (layer_map (s_delta s))"
  using state_set_correct [OF assms, of "[]"] by (auto simp: tombstoned_def stored_value_def fun_eq_iff)

text \<open>Entries of a layer that decode to a plain key of their canonical key.\<close>

definition decodable :: "(bytes \<times> 'v) list \<Rightarrow> bool" where
  "decodable kvs \<longleftrightarrow> (\<forall>kv \<in> set kvs. \<exists>k. from_delta_mpt_key (fst kv) = Inr k \<and> plain_key k)"

lemma decodable_layer: "layer_ok kc p m \<Longrightarrow> decodable m"
  unfolding decodable_def layer_ok_def by (metis plain_decoded)

lemma delete_intermediate_loop:
  assumes "decodable kvs" "distinct (map fst (rekeyed kvs))" "state_inv kc s"
  shows "\<exists>s'. delete_intermediate kc ap kvs (seen, result) s =
     (Inr (seen \<union> fst ` set (unfiltered ap (rekeyed kvs)),
           result @ visible_entries (unseen seen (unfiltered ap (rekeyed kvs)))), s')
     \<and> state_inv kc s' \<and> same_below s s'
     \<and> layer_map (s_delta s')
       = tombstoned (fst ` set (visible_entries (unfiltered ap (rekeyed kvs)))) (layer_map (s_delta s))"
  using assms
proof (induction kvs arbitrary: seen result s)
  case (Cons kv kvs)
  obtain raw v where kv: "kv = (raw, v)" by (cases kv)
  obtain k where k: "from_delta_mpt_key raw = Inr k" "plain_key k"
    using Cons.prems(1) by (auto simp: decodable_def kv)
  have c: "to_key_bytes k = Inr (canonical_key k)" "canonical_of raw = Inr (canonical_key k)"
    using plain_key_encodes(1) [OF k(2)] k(1) by (simp_all add: canonical_of_def)
  have dec: "decodable kvs" and d: "distinct (map fst (rekeyed kvs))"
    using Cons.prems by (simp_all add: kv decodable_def)
  let ?rs = "unfiltered ap (rekeyed kvs)"
  show ?case
  proof (cases "filtered_out ap (canonical_key k)")
    case True
    then show ?thesis
      using Cons.IH [OF dec d Cons.prems(3), of seen result] k c by (simp add: kv unfiltered_Cons)
  next
    case False
    have "distinct (map fst ((canonical_key k, v) # ?rs))"
      using Cons.prems(2) c(2) False distinct_unfiltered [of "(canonical_key k, v) # rekeyed kvs" ap]
      by (simp add: kv unfiltered_Cons)
    note un = unseen_Cons_distinct [OF this, of seen]
    define s1 where "s1 = snd (if visible_value v \<noteq> None then state_set kc k [] s else (Inr (), s))"
    have s1: "(if visible_value v \<noteq> None then state_set kc k [] s else (Inr (), s)) = (Inr (), s1)"
      "state_inv kc s1" "same_below s s1"
      "layer_map (s_delta s1) = tombstoned (if visible_value v \<noteq> None then {canonical_key k} else {})
         (layer_map (s_delta s))"
      using set_tombstone [OF Cons.prems(3) k(2)] Cons.prems(3) by (auto simp: s1_def)
    let ?seen = "insert (canonical_key k) seen"
    let ?result = "if canonical_key k \<in> seen then result else push_visible result (canonical_key k) v"
    obtain s' where s': "delete_intermediate kc ap kvs (?seen, ?result) s1 =
        (Inr (?seen \<union> fst ` set ?rs, ?result @ visible_entries (unseen ?seen ?rs)), s')"
      "state_inv kc s'" "same_below s1 s'"
      "layer_map (s_delta s') = tombstoned (fst ` set (visible_entries ?rs)) (layer_map (s_delta s1))"
      using Cons.IH [OF dec d s1(2), of ?seen ?result] by blast
    have run: "delete_intermediate kc ap (kv # kvs) (seen, result) s
        = delete_intermediate kc ap kvs (?seen, ?result) s1"
      using k(1) c(1) False s1(1) by (simp add: kv insert_absorb)
    have res: "?result @ visible_entries (unseen ?seen ?rs)
        = result @ visible_entries (unseen seen (unfiltered ap (rekeyed (kv # kvs))))"
      using un c(2) False by (simp add: kv unfiltered_Cons push_visible_entries)
    have keys: "fst ` set (visible_entries ((ck, v) # rs))
        = (if visible_value v \<noteq> None then {ck} else {}) \<union> fst ` set (visible_entries rs)" for ck rs
      by (auto simp: visible_entries_def List.map_filter_simps)
    have "layer_map (s_delta s') = tombstoned (fst ` set (visible_entries (unfiltered ap (rekeyed (kv # kvs)))))
        (layer_map (s_delta s))"
      using s'(4) s1(4) c(2) False
      by (simp add: tombstoned_twice kv unfiltered_Cons keys Un_commute)
    then show ?thesis
      using s'(2) same_below_trans [OF s1(3) s'(3)] run s'(1) res c(2) False
      by (simp add: kv unfiltered_Cons)
  qed
qed simp

text \<open>A write of nothing to the key that a stored key decodes to hides \<open>ck\<close>.\<close>

definition hides :: "(bytes \<Rightarrow> h256) \<Rightarrow> bytes \<Rightarrow> bytes \<Rightarrow> bool" where
  "hides kc stored ck \<longleftrightarrow> (\<exists>k. from_key_bytes stored = Inr k \<and>
     (\<forall>s. state_inv kc s \<longrightarrow> (\<exists>s'. state_set kc k [] s = (Inr (), s') \<and> state_inv kc s' \<and> same_below s s'
        \<and> layer_map (s_delta s') = tombstoned {ck} (layer_map (s_delta s)))))"

lemma delete_snapshot_hides:
  assumes "\<forall>kv \<in> set kvs. hides kc (fst kv) (f (fst kv))"
    and "distinct (map fst kvs)" "state_inv kc s"
  shows "\<exists>seen' s'. delete_snapshot kc kvs (seen, result) s = (Inr (seen', result @ unseen seen kvs), s')
     \<and> state_inv kc s' \<and> same_below s s'
     \<and> layer_map (s_delta s') = tombstoned (f ` fst ` set kvs) (layer_map (s_delta s))"
  using assms
proof (induction kvs arbitrary: seen result s)
  case (Cons kv kvs)
  obtain ck v where kv: "kv = (ck, v)" by (cases kv)
  obtain k s1 where k: "from_key_bytes ck = Inr k"
    and s1: "state_set kc k [] s = (Inr (), s1)" "state_inv kc s1" "same_below s s1"
      "layer_map (s_delta s1) = tombstoned {f ck} (layer_map (s_delta s))"
    using Cons.prems(1,3) by (auto simp: kv hides_def)
  let ?seen = "insert ck seen" and ?result = "if ck \<in> seen then result else result @ [(ck, v)]"
  obtain seen' s' where s': "delete_snapshot kc kvs (?seen, ?result) s1
      = (Inr (seen', ?result @ unseen ?seen kvs), s')" "state_inv kc s'" "same_below s1 s'"
    "layer_map (s_delta s') = tombstoned (f ` fst ` set kvs) (layer_map (s_delta s1))"
    using Cons.IH [of s1 ?seen ?result] Cons.prems s1(2) by auto
  have "delete_snapshot kc (kv # kvs) (seen, result) s = delete_snapshot kc kvs (?seen, ?result) s1"
    using k s1(1) by (simp add: kv insert_absorb)
  moreover have "?result @ unseen ?seen kvs = result @ unseen seen (kv # kvs)"
    using unseen_Cons_distinct [of ck v kvs seen] Cons.prems(2) by (simp add: kv)
  moreover have "layer_map (s_delta s') = tombstoned (f ` fst ` set (kv # kvs)) (layer_map (s_delta s))"
    using s'(4) s1(4) by (simp add: tombstoned_twice kv)
  ultimately show ?case using s' same_below_trans [OF s1(3) s'(3)] by auto
qed simp

lemma hides_plain:
  assumes "from_key_bytes ck = Inr k" "plain_key k"
  shows "hides kc ck ck"
proof -
  have "canonical_key k = ck"
    using to_key_bytes_from_key_bytes [OF assms(1)] by (simp add: canonical_key_def)
  with assms show ?thesis using set_tombstone [OF _ assms(2)] by (auto simp: hides_def)
qed

text \<open>What a write to a key that is a query does: it writes the entry of the empty key.\<close>

lemma set_address_prefix:
  "state_set kc \<lparr>sk_key = AddressPrefix q, sk_space = sp\<rparr> v s = state_set kc (native EmptyKey) v s"
  by (simp add: state_set_def to_delta_mpt_key_bytes_def native_def)

lemma short_bytes_decode: "0 < length a \<Longrightarrow> length a < 20 \<Longrightarrow> from_key_bytes a = Inr (native (AddressPrefix a))"
  by (auto simp: from_key_bytes_def key_sizes)

text \<open>A short account is read back as a prefix, and its tombstone goes to the empty key.\<close>

lemma hides_short:
  assumes "0 < length a" "length a < 20"
  shows "hides kc a []"
proof -
  have empty: "plain_key (native EmptyKey)" "canonical_key (native EmptyKey) = []"
    by (simp_all add: plain_key_def native_def canonical_key_short)
  have "state_set kc (native (AddressPrefix a)) [] s = state_set kc (native EmptyKey) [] s" for s
    using set_address_prefix [of kc a Native] by (simp add: native_def)
  then show ?thesis
    using short_bytes_decode [OF assms] set_tombstone [OF _ empty(1), unfolded empty(2)] by (auto simp: hides_def)
qed

lemma delete_snapshot_loop:
  assumes "\<forall>kv \<in> set kvs. \<exists>k. from_key_bytes (fst kv) = Inr k \<and> plain_key k"
    and "distinct (map fst kvs)" "state_inv kc s"
  shows "\<exists>seen' s'. delete_snapshot kc kvs (seen, result) s = (Inr (seen', result @ unseen seen kvs), s')
     \<and> state_inv kc s' \<and> same_below s s'
     \<and> layer_map (s_delta s') = tombstoned (fst ` set kvs) (layer_map (s_delta s))"
  using delete_snapshot_hides [of kvs kc "\<lambda>ck. ck"] hides_plain assms by fastforce

lemma aligned_not_address:
  assumes "aligned_prefix pk" "address_prefix_filter pk = None" "plain_key k"
  shows "prefix (raw_of kc p pk) (raw_of kc p k) \<longleftrightarrow> prefix (canonical_key pk) (canonical_key k)"
  using assms(1)
proof (cases pk rule: aligned_prefix_cases)
  case (full a)
  then show ?thesis by (rule aligned_prefix_raw [OF _ _ _ assms(3)])
next
  case empty
  then show ?thesis by (simp add: canonical_key_short(2))
next
  case (address q)
  with assms(2) show ?thesis by (simp add: address_prefix_filter_def)
qed

lemma address_prefix_raw: "address_prefix_filter pk = Some q \<Longrightarrow> raw_of kc p pk = [] \<and> canonical_key pk = q"
  by (cases "sk_key pk")
    (auto simp: address_prefix_filter_def raw_of_def delta_key_def to_delta_mpt_key_bytes_def
      canonical_key_def to_key_bytes_def)

text \<open>The delta that remains after the matching entries are removed.\<close>

definition delta_left :: "storage_key_with_space \<Rightarrow> state \<Rightarrow> bytes \<Rightarrow> mpt_value option" where
  "delta_left pk s ck =
     (if address_prefix_filter pk \<noteq> None \<or> prefix (canonical_key pk) ck then None
      else layer_map (s_delta s) ck)"

lemma removed_layer:
  assumes pk: "aligned_prefix pk" and lo: "layer_ok kc p m" and lo': "layer_ok kc p m'"
    and get: "\<forall>raw. bt_get m' raw = (if raw \<in> fst ` set (scan_prefix m (raw_of kc p pk)) then None
                 else bt_get m raw)"
  shows "layer_map m' ck = (if address_prefix_filter pk \<noteq> None \<or> prefix (canonical_key pk) ck then None
      else layer_map m ck)"
proof -
  have wf: "bt_wf m" using lo by (simp add: layer_ok_def)
  have get': "bt_get m' raw = (if prefix (raw_of kc p pk) raw then None else bt_get m raw)" for raw
  proof -
    have "raw \<in> fst ` set (scan_prefix m (raw_of kc p pk))
        \<longleftrightarrow> prefix (raw_of kc p pk) raw \<and> bt_get m raw \<noteq> None"
      by (auto simp: scan_prefix_filter [OF wf] bt_get_None_iff)
    then show ?thesis using get by auto
  qed
  show ?thesis
  proof (cases "\<exists>k. plain_key k \<and> ck = canonical_key k")
    case True
    then obtain k where k: "plain_key k" "ck = canonical_key k" by blast
    have "layer_map m' ck = (if prefix (raw_of kc p pk) (raw_of kc p k) then None else layer_map m ck)"
      unfolding k(2) layer_get [OF lo' k(1), symmetric] layer_get [OF lo k(1), symmetric] by (rule get')
    also have "\<dots> = (if address_prefix_filter pk \<noteq> None \<or> prefix (canonical_key pk) ck then None
        else layer_map m ck)"
      using aligned_not_address [OF pk _ k(1)] address_prefix_raw [of pk] k(2) by fastforce
    finally show ?thesis .
  next
    case False
    then have "layer_map m' ck = None" "layer_map m ck = None"
      using layer_map_plain [OF lo'] layer_map_plain [OF lo] by (meson not_None_eq)+
    then show ?thesis by simp
  qed
qed

lemma snapshot_key_decodes:
  assumes "plain_key k" "length (canonical_key k) = 0 \<or> 20 \<le> length (canonical_key k)"
  shows "\<exists>k'. from_key_bytes (canonical_key k) = Inr k' \<and> plain_key k'"
  using assms(1)
proof (cases k rule: plain_key_cases)
  case (full a)
  have "plain_key \<lparr>sk_key = decoded_key (sk_key k), sk_space = sk_space k\<rparr>"
    using full by (cases "sk_key k" rule: decoded_key.cases) (auto simp: plain_key_def)
  then show ?thesis
    using decode_canonical [OF full(2,1,3), of "sk_space k"] raw_key_full(2) [OF full(1,2)] by simp
next
  case (short a)
  then have "canonical_key k = []" using canonical_key_short(1) [OF short] assms(2) by auto
  then show ?thesis by (simp add: from_key_bytes_def native_def plain_key_def)
next
  case empty
  then have "canonical_key k = []" using canonical_key_short(2) [OF empty] by auto
  then show ?thesis by (simp add: from_key_bytes_def native_def plain_key_def)
qed

text \<open>
  Short accounts that the snapshot stores below a prefix: \<open>from_key_bytes\<close> reads such a key as a prefix.
\<close>

definition short_bytes :: "bytes \<Rightarrow> bool" where
  "short_bytes ck \<longleftrightarrow> 0 < length ck \<and> length ck < 20"

definition short_stored :: "bytes \<Rightarrow> state \<Rightarrow> bool" where
  "short_stored cp s \<longleftrightarrow>
     list_ex (\<lambda>kv. prefix cp (fst kv) \<and> short_bytes (fst kv)) (st_to_canonical_map (s_snapshot s))"

definition hidden_key :: "bytes \<Rightarrow> bytes" where
  "hidden_key ck = (if short_bytes ck then [] else ck)"

lemma hides_stored:
  assumes "canonical_keys m" "kv \<in> set m"
  shows "hides kc (fst kv) (hidden_key (fst kv))"
proof -
  obtain k where k: "plain_key k" "fst kv = canonical_key k"
    using assms by (auto simp: canonical_keys_def)
  show ?thesis
  proof (cases "short_bytes (fst kv)")
    case True
    then show ?thesis using hides_short [of "fst kv"] by (simp add: hidden_key_def short_bytes_def)
  next
    case False
    then have "length (canonical_key k) = 0 \<or> 20 \<le> length (canonical_key k)"
      by (auto simp: short_bytes_def k(2))
    then show ?thesis using snapshot_key_decodes [OF k(1)] hides_plain False by (auto simp: hidden_key_def k(2))
  qed
qed

text \<open>What the two lower layers answer, below a delta.\<close>

definition view_below :: "state \<Rightarrow> bytes \<Rightarrow> bytes option" where
  "view_below s ck =
     layered (layer_map (s_intermediate s) ck) (snapshot_get_owned (s_snapshot s) ck)"

lemma delete_prefix_correct:
  assumes inv: "state_inv kc s" and pk: "aligned_prefix pk"
  shows "\<exists>s'. delete_prefix kc pk s = (Inr (prefix_pairs (canonical_key pk) s), s')
     \<and> state_inv kc s' \<and> same_below s s'
     \<and> state_view s' = (\<lambda>ck.
          if prefix (canonical_key pk) ck then
            (if short_bytes ck \<and> layer_map (s_intermediate s) ck = None then snapshot_get_owned (s_snapshot s) ck else None)
          else if ck = [] \<and> short_stored (canonical_key pk) s then None
          else if address_prefix_filter pk \<noteq> None then view_below s ck else state_view s ck)"
proof -
  let ?cp = "canonical_key pk"
  have lo: "layer_ok kc (s_delta_padding s) (s_delta s)"
    "layer_ok kc (s_intermediate_padding s) (s_intermediate s)" and st: "st_inv kc (s_snapshot s)"
    and keys: "canonical_keys (st_to_canonical_map (s_snapshot s))"
    using inv by (auto simp: state_inv_defs)
  let ?dk = "scan_prefix (s_delta s) (raw_of kc (s_delta_padding s) pk)"
  let ?ik = "scan_prefix (s_intermediate s) (raw_of kc (s_intermediate_padding s) pk)"
  let ?b = "selected ?cp (st_to_canonical_map (s_snapshot s))"
  have dk: "bt_wf ?dk" "set ?dk \<subseteq> set (s_delta s)"
    using lo(1) by (auto simp: layer_ok_def scan_prefix_filter)
  obtain s1 where s1: "remove_delta (map fst ?dk) s = (?dk, s1)" "state_inv kc s1" "same_below s s1"
    "\<forall>raw. bt_get (s_delta s1) raw = (if raw \<in> fst ` set ?dk then None else bt_get (s_delta s) raw)"
    using remove_delta_loop [OF inv dk] by blast
  have lo1: "layer_ok kc (s_delta_padding s) (s_delta s1)"
    using s1(2,3) by (auto simp: state_inv_defs same_below_def)
  have left: "layer_map (s_delta s1) = delta_left pk s"
    using removed_layer [OF pk lo(1) lo1 s1(4)] by (auto simp: delta_left_def fun_eq_iff)
  define D where "D = selected ?cp (rekeyed (s_delta s))"
  define I where "I = selected ?cp (rekeyed (s_intermediate s))"
  have acc: "read_delta (address_prefix_filter pk) ?dk ({}, []) = Inr (fst ` set D, visible_entries D)"
    by (simp add: read_delta_loop [OF encoded_scan [OF lo(1)]] selected_layer [OF pk lo(1)] D_def)
  have "decodable ?ik" using decodable_layer [OF lo(2)] lo(2)
    by (auto simp: decodable_def layer_ok_def scan_prefix_filter)
  from delete_intermediate_loop [OF this rekeyed_scan_distinct [OF lo(2)] s1(2),
      of "address_prefix_filter pk" "fst ` set D" "visible_entries D"]
  obtain s2 where s2: "delete_intermediate kc (address_prefix_filter pk) ?ik (fst ` set D, visible_entries D) s1
      = (Inr (fst ` set D \<union> fst ` set I, visible_entries D @ visible_entries (unseen (fst ` set D) I)), s2)"
    "state_inv kc s2" "same_below s1 s2"
    "layer_map (s_delta s2) = tombstoned (fst ` set (visible_entries I)) (layer_map (s_delta s1))"
    unfolding selected_layer [OF pk lo(2)] I_def [symmetric] by blast
  have "\<forall>kv \<in> set ?b. hides kc (fst kv) (hidden_key (fst kv))"
    using hides_stored [OF keys] by (simp add: in_selected)
  moreover have "distinct (map fst ?b)"
    by (intro distinct_selected bt_wf_distinct snap.map_wf [OF st])
  ultimately obtain seen' s3 where s3: "delete_snapshot kc ?b
        (fst ` set D \<union> fst ` set I, visible_entries D @ visible_entries (unseen (fst ` set D) I)) s2
      = (Inr (seen', (visible_entries D @ visible_entries (unseen (fst ` set D) I))
            @ unseen (fst ` set D \<union> fst ` set I) ?b), s3)"
    "state_inv kc s3" "same_below s2 s3"
    "layer_map (s_delta s3) = tombstoned (hidden_key ` fst ` set ?b) (layer_map (s_delta s2))"
    using delete_snapshot_hides [OF _ _ s2(2)] by metis
  have below: "s_intermediate s1 = s_intermediate s" "s_snapshot s1 = s_snapshot s"
    using s1(3) by (simp_all add: same_below_def)
  have pairs: "prefix_pairs ?cp s = (visible_entries D @ visible_entries (unseen (fst ` set D) I))
      @ unseen (fst ` set D \<union> fst ` set I) ?b"
    by (simp add: prefix_pairs_def D_def I_def Let_def)
  have scan: "st_scan_prefix (s_snapshot s) ?cp = ?b"
    by (simp add: snap.scan_law [OF st] selected_def)
  have run: "delete_prefix kc pk s = (Inr (prefix_pairs ?cp s), s3)"
    unfolding delete_prefix_def aligned_prefix_encodes [OF pk] delta_key_def [symmetric] sum.case
      Let_def s1(1) prod.case below acc s2(1) scan s3(1) pairs snd_conv by (rule refl)
  have sb: "same_below s s3" using s1(3) s2(3) s3(3) by (blast intro: same_below_trans)
  have visible: "ck \<in> fst ` set (visible_entries I)
      \<longleftrightarrow> prefix ?cp ck \<and> (\<exists>v w. layer_map (s_intermediate s) ck = Some v \<and> visible_value v = Some w)" for ck
    unfolding visible_keys I_def in_selected rekeyed_iff [OF lo(2)] fst_conv by blast
  have snapk: "ck \<in> fst ` set ?b \<longleftrightarrow> prefix ?cp ck \<and> snapshot_get_owned (s_snapshot s) ck \<noteq> None" for ck
    using bt_get_None_iff [of "st_to_canonical_map (s_snapshot s)" ck]
    by (force simp: in_selected snap.map_lookup [OF st] image_iff)
  have hidden: "ck \<in> hidden_key ` fst ` set ?b \<longleftrightarrow>
      \<not> short_bytes ck \<and> (prefix ?cp ck \<and> snapshot_get_owned (s_snapshot s) ck \<noteq> None \<or> ck = [] \<and> short_stored ?cp s)" for ck
  proof -
    have "ck \<in> hidden_key ` fst ` set ?b \<longleftrightarrow> \<not> short_bytes ck \<and> (ck \<in> fst ` set ?b \<or> ck = [] \<and> (\<exists>x \<in> fst ` set ?b. short_bytes x))"
      by (auto simp: hidden_key_def short_bytes_def image_iff split: if_splits)
    moreover have "(\<exists>x \<in> fst ` set ?b. short_bytes x) \<longleftrightarrow> short_stored ?cp s"
      by (force simp: short_stored_def list_ex_iff in_selected)
    ultimately show ?thesis unfolding snapk by blast
  qed
  have delta: "layer_map (s_delta s3) ck
      = (if ck \<in> hidden_key ` fst ` set ?b \<or> ck \<in> fst ` set (visible_entries I) then Some Tombstone
         else delta_left pk s ck)" for ck
    using s3(4) s2(4) left by (simp add: tombstoned_def)
  have "state_view s3 ck =
      (if prefix ?cp ck then
         (if short_bytes ck \<and> layer_map (s_intermediate s) ck = None then snapshot_get_owned (s_snapshot s) ck else None)
       else if ck = [] \<and> short_stored ?cp s then None
       else if address_prefix_filter pk \<noteq> None then view_below s ck else state_view s ck)" for ck
  proof (cases "prefix ?cp ck")
    case True
    have below_view: "view_below s ck = (if short_bytes ck \<and> layer_map (s_intermediate s) ck = None
        then snapshot_get_owned (s_snapshot s) ck else None)"
      if "ck \<notin> hidden_key ` fst ` set ?b" "ck \<notin> fst ` set (visible_entries I)"
      using that True unfolding visible hidden
      by (cases "layer_map (s_intermediate s) ck"; cases "snapshot_get_owned (s_snapshot s) ck")
        (auto simp: view_below_def)
    have covered: "\<not> (short_bytes ck \<and> layer_map (s_intermediate s) ck = None)"
      if "ck \<in> hidden_key ` fst ` set ?b \<or> ck \<in> fst ` set (visible_entries I)"
      using that unfolding visible hidden by auto
    show ?thesis
    proof (cases "ck \<in> hidden_key ` fst ` set ?b \<or> ck \<in> fst ` set (visible_entries I)")
      case hit: True
      then have "state_view s3 ck = None" unfolding state_view_def delta by simp
      with covered [OF hit] True show ?thesis by auto
    next
      case miss: False
      then have "state_view s3 ck = view_below s ck"
        using True sb unfolding state_view_def delta by (auto simp: delta_left_def view_below_def same_below_def)
      with below_view miss True show ?thesis by simp
    qed
  next
    case False
    then have miss: "ck \<notin> fst ` set (visible_entries I)" unfolding visible by blast
    show ?thesis
    proof (cases "ck \<in> hidden_key ` fst ` set ?b")
      case True
      then have "ck = [] \<and> short_stored ?cp s" using False unfolding hidden by blast
      moreover have "state_view s3 ck = None" unfolding state_view_def delta using True by simp
      ultimately show ?thesis using False by simp
    next
      case unhidden: False
      then have "\<not> (ck = [] \<and> short_stored ?cp s)" unfolding hidden by (auto simp: short_bytes_def)
      moreover have "state_view s3 ck = (if address_prefix_filter pk \<noteq> None then view_below s ck else state_view s ck)"
        using False unhidden miss sb unfolding state_view_def delta
        by (auto simp: delta_left_def view_below_def same_below_def)
      ultimately show ?thesis using False by auto
    qed
  qed
  then show ?thesis using run s3(2) sb by blast
qed

end
