(* ===== verification/Mpt_Store.thy ===== *)
theory Mpt_Store
  imports State_Prefix
begin

text \<open>
  \<open>store.rs\<close> and the persistence of \<open>state/mod.rs\<close>: what of a state is saved, how it is
  loaded, the in-memory and the file store, and the state manager. The serializer (crate
  \<open>bincode\<close>) is a parameter; the file system is the map from paths to contents, with
  \<open>exists\<close>, \<open>read\<close>, \<open>write\<close> and \<open>rename\<close> of the standard library acting on it.
\<close>

datatype mpt_value_disk = DiskSome bytes | DiskTombstone

fun to_disk :: "mpt_value \<Rightarrow> mpt_value_disk" where
  "to_disk (MptSome v) = DiskSome v"
| "to_disk Tombstone = DiskTombstone"

fun from_disk :: "mpt_value_disk \<Rightarrow> mpt_value" where
  "from_disk (DiskSome v) = MptSome v"
| "from_disk DiskTombstone = Tombstone"

lemma from_disk_to_disk [simp]: "from_disk (to_disk v) = v" "to_disk (from_disk d) = d"
  by (cases v; simp) (cases d; simp)

record persisted_state =
  p_snapshot :: "(bytes, bytes) btree"
  p_intermediate :: "(bytes, mpt_value_disk) btree"
  p_delta :: "(bytes, mpt_value_disk) btree"
  p_intermediate_mpt_key_padding :: h256
  p_delta_mpt_key_padding :: h256
  p_height :: u64
  p_snapshot_epoch_count :: u32
  p_last_root :: "commit_root option"

definition persisted_default :: "(bytes \<Rightarrow> h256) \<Rightarrow> persisted_state" where
  "persisted_default kc =
     \<lparr>p_snapshot = [], p_intermediate = [], p_delta = [],
      p_intermediate_mpt_key_padding = genesis kc, p_delta_mpt_key_padding = genesis kc,
      p_height = 0, p_snapshot_epoch_count = DEFAULT_SNAPSHOT_EPOCH_COUNT, p_last_root = None\<rparr>"

definition from_persisted :: "(bytes \<Rightarrow> h256) \<Rightarrow> persisted_state \<Rightarrow> state result" where
  "from_persisted kc p =
     (let intermediate = bt_collect (map (apsnd from_disk) (p_intermediate p));
          delta = bt_collect (map (apsnd from_disk) (p_delta p))
      in rbind (or_panic ''snapshot root''
                  (st_root_with_policy kc SkipSingleton (st_from_snapshot (p_snapshot p))))
           (\<lambda>(snapshot_root, snapshot_inc).
         rbind (or_panic ''intermediate root'' (trie_root kc intermediate))
           (\<lambda>intermediate_root.
         Inr \<lparr>s_snapshot = snapshot_inc,
              s_intermediate = intermediate,
              s_delta = delta,
              s_snapshot_root = snapshot_root,
              s_intermediate_root = intermediate_root,
              s_intermediate_padding = p_intermediate_mpt_key_padding p,
              s_delta_padding = p_delta_mpt_key_padding p,
              s_height = p_height p,
              s_snapshot_epoch_count =
                (if p_snapshot_epoch_count p = 0 then DEFAULT_SNAPSHOT_EPOCH_COUNT
                 else p_snapshot_epoch_count p),
              s_last_root = p_last_root p,
              s_delta_inc = from_delta delta,
              s_delta_account_cache = ac_default kc,
              s_intermediate_account_cache = ac_default kc\<rparr>)))"

definition persisted :: "state \<Rightarrow> persisted_state" where
  "persisted s =
     \<lparr>p_snapshot = st_to_canonical_map (s_snapshot s),
      p_intermediate = bt_collect (map (apsnd to_disk) (s_intermediate s)),
      p_delta = bt_collect (map (apsnd to_disk) (s_delta s)),
      p_intermediate_mpt_key_padding = s_intermediate_padding s,
      p_delta_mpt_key_padding = s_delta_padding s,
      p_height = s_height s,
      p_snapshot_epoch_count = s_snapshot_epoch_count s,
      p_last_root = s_last_root s\<rparr>"

subsection \<open>The stores\<close>

text \<open>The contract of \<open>StateStore\<close>: what was saved last is loaded.\<close>

locale state_store =
  fixes load_latest :: "'st \<Rightarrow> persisted_state option result"
    and save_latest :: "persisted_state \<Rightarrow> 'st \<Rightarrow> 'st result"
  assumes load_save: "save_latest p st = Inr st' \<Longrightarrow> load_latest st' = Inr (Some p)"
begin

lemma save_twice:
  "save_latest p st = Inr st1 \<Longrightarrow> save_latest q st1 = Inr st2 \<Longrightarrow> load_latest st2 = Inr (Some q)"
  by (rule load_save)

lemma save_injective:
  "save_latest p st = Inr st' \<Longrightarrow> save_latest q st = Inr st' \<Longrightarrow> p = q"
  using load_save [of p st st'] load_save [of q st st'] by simp

end

type_synonym memory_store = "persisted_state option"

definition memory_store_new :: memory_store where
  "memory_store_new = None"

definition memory_load_latest :: "memory_store \<Rightarrow> persisted_state option result" where
  "memory_load_latest st = Inr st"

definition memory_save_latest :: "persisted_state \<Rightarrow> memory_store \<Rightarrow> memory_store result" where
  "memory_save_latest p st = Inr (Some p)"

interpretation memory: state_store memory_load_latest memory_save_latest
  by unfold_locales (auto simp: memory_load_latest_def memory_save_latest_def)

text \<open>
  The file store: \<open>fs_files\<close> maps a path to the contents of its file; a save writes the
  temporary path and renames it. Failures of the file system and the creation of the parent
  directory are left out. \<open>Path::with_extension\<close> is a parameter.
\<close>

type_synonym file_system = "string \<rightharpoonup> bytes"

record file_store =
  fs_path :: string
  fs_files :: file_system

definition file_load_latest ::
  "(bytes \<Rightarrow> persisted_state result) \<Rightarrow> file_store \<Rightarrow> persisted_state option result" where
  "file_load_latest deserialize st =
     (case fs_files st (fs_path st) of
        None \<Rightarrow> Inr None
      | Some contents \<Rightarrow> rbind (deserialize contents) (\<lambda>p. Inr (Some p)))"

definition file_save_latest ::
  "(persisted_state \<Rightarrow> bytes result) \<Rightarrow> (string \<Rightarrow> string) \<Rightarrow> persisted_state \<Rightarrow> file_store
   \<Rightarrow> file_store result" where
  "file_save_latest serialize with_extension_tmp p st =
     (let tmp = with_extension_tmp (fs_path st)
      in rbind (serialize p) (\<lambda>contents.
           let written = (fs_files st)(tmp \<mapsto> contents);
               renamed = written(tmp := None, fs_path st := written tmp)
           in Inr (st\<lparr>fs_files := renamed\<rparr>)))"

subsection \<open>The state manager\<close>

record 'st state_manager =
  sm_state :: state
  sm_store :: 'st

definition state_manager_new ::
  "(bytes \<Rightarrow> h256) \<Rightarrow> ('st \<Rightarrow> persisted_state option result) \<Rightarrow> 'st \<Rightarrow> 'st state_manager result" where
  "state_manager_new kc load st =
     rbind (load st) (\<lambda>p.
       rbind (case p of Some p \<Rightarrow> from_persisted kc p | None \<Rightarrow> Inr (state_new kc))
         (\<lambda>s. Inr \<lparr>sm_state = s, sm_store = st\<rparr>))"

definition state_manager_with_epoch_count ::
  "(bytes \<Rightarrow> h256) \<Rightarrow> ('st \<Rightarrow> persisted_state option result) \<Rightarrow> 'st \<Rightarrow> u32
   \<Rightarrow> 'st state_manager result" where
  "state_manager_with_epoch_count kc load st n =
     rbind (state_manager_new kc load st)
       (\<lambda>m. Inr (m\<lparr>sm_state := (sm_state m)\<lparr>s_snapshot_epoch_count := max n 1\<rparr>\<rparr>))"

definition state_manager_commit ::
  "(bytes \<Rightarrow> h256) \<Rightarrow> (persisted_state \<Rightarrow> 'st \<Rightarrow> 'st result) \<Rightarrow> 'st state_manager
   \<Rightarrow> commit_root result \<times> 'st state_manager" where
  "state_manager_commit kc save m =
     (case state_commit kc (sm_state m) of
        (Inl e, s) \<Rightarrow> (Inl e, m\<lparr>sm_state := s\<rparr>)
      | (Inr root, s) \<Rightarrow>
          (case save (persisted s) (sm_store m) of
             Inl e \<Rightarrow> (Inl e, m\<lparr>sm_state := s\<rparr>)
           | Inr st \<Rightarrow> (Inr root, m\<lparr>sm_state := s, sm_store := st\<rparr>)))"

text \<open>The manager as a \<open>StateTrait\<close>: every operation but \<open>commit\<close> is that of its state.\<close>

definition on_state :: "'a \<times> state \<Rightarrow> 'st state_manager \<Rightarrow> 'a \<times> 'st state_manager" where
  "on_state r m = (fst r, m\<lparr>sm_state := snd r\<rparr>)"

lemma on_state_simps [simp]:
  "fst (on_state r m) = fst r"
  "sm_state (snd (on_state r m)) = snd r"
  "sm_store (snd (on_state r m)) = sm_store m"
  by (simp_all add: on_state_def)

definition manager_get ::
  "(bytes \<Rightarrow> h256) \<Rightarrow> storage_key_with_space \<Rightarrow> 'st state_manager \<Rightarrow> bytes option result \<times> 'st state_manager" where
  "manager_get kc key m = on_state (state_get kc key (sm_state m)) m"

definition manager_set ::
  "(bytes \<Rightarrow> h256) \<Rightarrow> storage_key_with_space \<Rightarrow> bytes \<Rightarrow> 'st state_manager \<Rightarrow> unit result \<times> 'st state_manager" where
  "manager_set kc key value m = on_state (state_set kc key value (sm_state m)) m"

definition manager_get_all_by_prefix ::
  "(bytes \<Rightarrow> h256) \<Rightarrow> storage_key_with_space \<Rightarrow> 'st state_manager \<Rightarrow> (bytes \<times> bytes) list option result" where
  "manager_get_all_by_prefix kc pre m = get_all_by_prefix kc pre (sm_state m)"

definition manager_delete_all_by_prefix ::
  "(bytes \<Rightarrow> h256) \<Rightarrow> storage_key_with_space \<Rightarrow> 'st state_manager
   \<Rightarrow> (bytes \<times> bytes) list option result \<times> 'st state_manager" where
  "manager_delete_all_by_prefix kc pre m = on_state (delete_all_by_prefix kc pre (sm_state m)) m"

subsection \<open>Saving and loading a state\<close>

text \<open>The fields of a state that a restart keeps; what is left out are the caches.\<close>

definition equivalent_states :: "state \<Rightarrow> state \<Rightarrow> bool" where
  "equivalent_states s s' \<longleftrightarrow>
     st_to_canonical_map (s_snapshot s') = st_to_canonical_map (s_snapshot s)
     \<and> s_intermediate s' = s_intermediate s \<and> s_delta s' = s_delta s
     \<and> s_snapshot_root s' = s_snapshot_root s \<and> s_intermediate_root s' = s_intermediate_root s
     \<and> s_intermediate_padding s' = s_intermediate_padding s \<and> s_delta_padding s' = s_delta_padding s
     \<and> s_height s' = s_height s \<and> s_snapshot_epoch_count s' = s_snapshot_epoch_count s
     \<and> s_last_root s' = s_last_root s"

lemma map_apsnd_wf [simp]: "bt_wf (map (apsnd f) m) \<longleftrightarrow> bt_wf m"
  by (simp add: bt_wf_def comp_def)

lemma from_persisted_persisted:
  assumes inv: "state_inv kc s" and n: "s_snapshot_epoch_count s \<noteq> 0"
  shows "\<exists>s'. from_persisted kc (persisted s) = Inr s' \<and> state_inv kc s' \<and> equivalent_states s s'"
proof -
  have wf: "bt_wf (s_delta s)" "bt_wf (s_intermediate s)" and st: "st_inv kc (s_snapshot s)"
    using inv by (auto simp: state_inv_defs layer_ok_def)
  let ?m = "st_to_canonical_map (s_snapshot s)"
  have l: "st_inv kc (st_from_snapshot ?m)" "st_to_canonical_map (st_from_snapshot ?m) = ?m"
    using snap.load_law [OF snap.map_wf [OF st]] by auto
  obtain sn where r: "st_root_with_policy kc SkipSingleton (st_from_snapshot ?m)
      = Some (the (trie_root kc (live_values ?m)), sn)" "st_inv kc sn" "st_to_canonical_map sn = ?m"
    using snap.root_law [OF l(1), of SkipSingleton] l(2) by auto
  have reload: "bt_collect (map (apsnd from_disk) (bt_collect (map (apsnd to_disk) m))) = m"
    if "bt_wf m" for m :: "(bytes, mpt_value) btree"
  proof -
    have "map (apsnd from_disk) (map (apsnd to_disk) m) = m" by (induction m) auto
    with that show ?thesis by (simp add: bt_collect_sorted del: map_map)
  qed
  have i: "trie_root kc (s_intermediate s) = Some (s_intermediate_root s)"
    using trie_root_total [OF wf(2), of kc] inv by (simp add: state_inv_defs)
  define s' where "s' = s\<lparr>s_snapshot := sn, s_delta_inc := from_delta (s_delta s),
      s_delta_account_cache := ac_default kc, s_intermediate_account_cache := ac_default kc\<rparr>"
  have "from_persisted kc (persisted s) = Inr s'"
    using n inv by (simp add: from_persisted_def persisted_def Let_def reload wf i r(1) s'_def state_inv_defs)
  moreover have "state_inv kc s'"
    using inv r it_inv_from_delta [OF wf(1)] it_contents_from_delta [OF wf(1)]
    by (auto simp: s'_def state_inv_defs)
  moreover have "equivalent_states s s'" by (simp add: s'_def equivalent_states_def r(3))
  ultimately show ?thesis by blast
qed

text \<open>Equivalent states answer alike and stay equivalent.\<close>

lemma equivalent_view:
  assumes "state_inv kc s" "state_inv kc s'" "equivalent_states s s'"
  shows "state_view s' = state_view s"
proof -
  have st: "st_inv kc (s_snapshot s)" "st_inv kc (s_snapshot s')"
    using assms by (auto simp: state_inv_defs)
  have "snapshot_get_owned (s_snapshot s') = snapshot_get_owned (s_snapshot s)"
    using assms(3) unfolding equivalent_states_def
    by (simp only: snap.map_lookup [OF st(1), symmetric] snap.map_lookup [OF st(2), symmetric])
  then show ?thesis using assms(3) by (simp add: state_view_def equivalent_states_def fun_eq_iff)
qed

lemma equivalent_set:
  assumes "state_inv kc s" "state_inv kc s'" "equivalent_states s s'" "plain_key k"
  shows "equivalent_states (snd (state_set kc k v s)) (snd (state_set kc k v s'))"
  using state_set_eq [OF assms(1,4), of v] state_set_eq [OF assms(2,4), of v] assms(3)
  by (auto simp: equivalent_states_def)

lemma rotated_determined:
  assumes "rotated kc h s t" "rotated kc h s' t'" "equivalent_states s s'"
    and "state_inv kc t" "state_inv kc t'"
    and "s_height t' = s_height t" "s_snapshot_epoch_count t' = s_snapshot_epoch_count t"
      "s_last_root t' = s_last_root t"
  shows "equivalent_states t t'"
  using assms by (auto simp: equivalent_states_def rotated_def state_inv_def roots_ok_def)

lemma equivalent_commit:
  assumes "state_inv kc s" "state_inv kc s'" "equivalent_states s s'"
  shows "fst (state_commit kc s') = fst (state_commit kc s)"
    "equivalent_states (snd (state_commit kc s)) (snd (state_commit kc s'))"
proof -
  obtain t where t: "state_commit kc s = (Inr (committed_root kc s), t)" "state_inv kc t"
    "s_height t = s_height s + 1" "s_last_root t = Some (committed_root kc s)"
    "s_snapshot_epoch_count t = s_snapshot_epoch_count s"
    "if commit_due s then rotated kc (the (trie_root kc (s_delta s))) s t
          else s_delta t = s_delta s \<and> s_intermediate t = s_intermediate s
               \<and> s_snapshot t = s_snapshot s \<and> s_delta_padding t = s_delta_padding s
               \<and> s_intermediate_padding t = s_intermediate_padding s"
    using state_commit_correct [OF assms(1)] by blast
  obtain t' where t': "state_commit kc s' = (Inr (committed_root kc s'), t')" "state_inv kc t'"
    "s_height t' = s_height s' + 1" "s_last_root t' = Some (committed_root kc s')"
    "s_snapshot_epoch_count t' = s_snapshot_epoch_count s'"
    "if commit_due s' then rotated kc (the (trie_root kc (s_delta s'))) s' t'
          else s_delta t' = s_delta s' \<and> s_intermediate t' = s_intermediate s'
               \<and> s_snapshot t' = s_snapshot s' \<and> s_delta_padding t' = s_delta_padding s'
               \<and> s_intermediate_padding t' = s_intermediate_padding s'"
    using state_commit_correct [OF assms(2)] by blast
  have root: "committed_root kc s' = committed_root kc s" and due: "commit_due s' = commit_due s"
    using assms(3) by (simp_all add: committed_root_def equivalent_states_def commit_due_def)
  then show "fst (state_commit kc s') = fst (state_commit kc s)" using t(1) t'(1) by simp
  have "equivalent_states t t'"
  proof (cases "commit_due s")
    case True
    then show ?thesis
      using rotated_determined [OF _ _ assms(3) t(2) t'(2), of "the (trie_root kc (s_delta s))"]
        t t' due root assms(3) by (simp add: equivalent_states_def)
  next
    case False
    then show ?thesis
      using t t' due root assms(3) t(2) t'(2)
      by (auto simp: equivalent_states_def state_inv_def roots_ok_def)
  qed
  then show "equivalent_states (snd (state_commit kc s)) (snd (state_commit kc s'))"
    using t(1) t'(1) by simp
qed

text \<open>The answers of a run, with the roots its commits return.\<close>

datatype answer = Answered "bytes option result" | Wrote "unit result" | Committed "commit_root result"

fun run_with_roots :: "(bytes \<Rightarrow> h256) \<Rightarrow> state_op list \<Rightarrow> state \<Rightarrow> answer list" where
  "run_with_roots kc [] s = []"
| "run_with_roots kc (OpGet k # ops) s =
     (let (r, s') = state_get kc k s in Answered r # run_with_roots kc ops s')"
| "run_with_roots kc (OpSet k v # ops) s =
     (let (r, s') = state_set kc k v s in Wrote r # run_with_roots kc ops s')"
| "run_with_roots kc (OpCommit # ops) s =
     (let (r, s') = state_commit kc s in Committed r # run_with_roots kc ops s')"

lemma equivalent_runs:
  "state_inv kc s \<Longrightarrow> state_inv kc s' \<Longrightarrow> equivalent_states s s' \<Longrightarrow>
   list_all (\<lambda>op. pred_option plain_key (op_key op)) ops \<Longrightarrow>
   run_with_roots kc ops s' = run_with_roots kc ops s"
proof (induction ops arbitrary: s s')
  case (Cons op ops)
  note prems = Cons.prems(1-3)
  have IH: "run_with_roots kc ops t' = run_with_roots kc ops t"
    if "state_inv kc t" "state_inv kc t'" "equivalent_states t t'" for t t'
    by (rule Cons.IH [OF that]) (use Cons.prems(4) in simp)
  show ?case
  proof (cases op)
    case (OpGet k)
    have k: "plain_key k" using Cons.prems(4) by (simp add: OpGet)
    obtain t where t: "state_get kc k s = (Inr (state_view s (canonical_key k)), t)"
      "same_core s t" "state_inv kc t" using state_get_correct [OF prems(1) k] by blast
    obtain t' where t': "state_get kc k s' = (Inr (state_view s' (canonical_key k)), t')"
      "same_core s' t'" "state_inv kc t'" using state_get_correct [OF prems(2) k] by blast
    have "equivalent_states t t'"
      using t(2) t'(2) prems(3) by (simp add: equivalent_states_def same_core_def)
    from IH [OF t(3) t'(3) this] show ?thesis
      using t(1) t'(1) equivalent_view [OF prems] by (simp add: OpGet)
  next
    case (OpSet k v)
    have k: "plain_key k" using Cons.prems(4) by (simp add: OpSet)
    obtain t where t: "state_set kc k v s = (Inr (), t)" "state_inv kc t"
      using state_set_view [OF prems(1) k] by blast
    obtain t' where t': "state_set kc k v s' = (Inr (), t')" "state_inv kc t'"
      using state_set_view [OF prems(2) k] by blast
    have "equivalent_states t t'" using equivalent_set [OF prems k, of v] t(1) t'(1) by simp
    from IH [OF t(2) t'(2) this] show ?thesis using t(1) t'(1) by (simp add: OpSet)
  next
    case OpCommit
    obtain t where t: "state_commit kc s = (Inr (committed_root kc s), t)" "state_inv kc t"
      using state_commit_correct [OF prems(1)] by blast
    obtain t' where t': "state_commit kc s' = (Inr (committed_root kc s'), t')" "state_inv kc t'"
      using state_commit_correct [OF prems(2)] by blast
    have "equivalent_states t t'" "committed_root kc s' = committed_root kc s"
      using equivalent_commit [OF prems] t(1) t'(1) by simp_all
    with IH [OF t(2) t'(2)] show ?thesis using t(1) t'(1) by (simp add: OpCommit)
  qed
qed simp


subsection \<open>A restart of the manager\<close>

lemma epoch_count_kept:
  assumes "state_inv kc s"
  shows "s_snapshot_epoch_count (snd (state_commit kc s)) = s_snapshot_epoch_count s"
  using state_commit_correct [OF assms] by auto

context state_store begin

text \<open>
  After a commit that was saved, a manager started on the store has a state that answers as
  the running one.
\<close>

lemma reload_after_commit:
  assumes inv: "state_inv kc (sm_state m)" and n: "s_snapshot_epoch_count (sm_state m) \<noteq> 0"
    and c: "state_manager_commit kc save_latest m = (Inr root, m')"
  shows "state_inv kc (sm_state m') \<and> root = committed_root kc (sm_state m) \<and>
    (\<exists>m''. state_manager_new kc load_latest (sm_store m') = Inr m''
       \<and> state_inv kc (sm_state m'') \<and> equivalent_states (sm_state m') (sm_state m''))"
proof -
  obtain s where s: "state_commit kc (sm_state m) = (Inr (committed_root kc (sm_state m)), s)"
    "state_inv kc s" "s_snapshot_epoch_count s = s_snapshot_epoch_count (sm_state m)"
    using state_commit_correct [OF inv] by blast
  from c s(1) obtain st where st: "save_latest (persisted s) (sm_store m) = Inr st"
    and m': "m' = m\<lparr>sm_state := s, sm_store := st\<rparr>" and root: "root = committed_root kc (sm_state m)"
    by (auto simp: state_manager_commit_def split: sum.splits)
  obtain s' where "from_persisted kc (persisted s) = Inr s'" "state_inv kc s'" "equivalent_states s s'"
    using from_persisted_persisted [OF s(2)] s(3) n by auto
  then show ?thesis
    using load_save [OF st] s(2) root by (simp add: m' state_manager_new_def)
qed

end

end
