(* ===== verification/Mpt_Theorems.thy ===== *)
theory Mpt_Theorems
  imports Trie_Binding Mpt_Store
begin

text \<open>
  The properties of \<open>crates/minimal-mpt\<close> that span its components, each with an instance
  at concrete inputs where it has hypotheses. \<open>sample_hash\<close> is a hash function for the
  instances only: the first 32 bytes, padded with zeros.
\<close>

definition sample_hash :: "bytes \<Rightarrow> h256" where
  "sample_hash bs = H256 (take 32 (bs @ replicate 32 0))"

definition sample_key :: storage_key_with_space where
  "sample_key = native (Account (replicate 20 1))"

definition sample_slot :: storage_key_with_space where
  "sample_slot = ethereum (Storage (replicate 20 1) [2])"

lemma sample_plain [simp]: "plain_key sample_key" "plain_key sample_slot"
  by (simp_all add: sample_key_def sample_slot_def native_def ethereum_def plain_key_def)

lemma sample_aligned [simp]: "aligned_prefix sample_key"
  by (simp add: sample_key_def native_def aligned_prefix_def)

subsection \<open>The trie\<close>

text \<open>
  C3: for keys of at most 128 bytes the recursive walk of \<open>trie_root\<close> returns the root
  that sections 2.2 to 2.6 of the specification define (nodes, path compression with the
  nibble count modulo 63, no compression at the root, the null hash for an empty map), and
  never panics.
\<close>

theorem trie_root_is_spec_root:
  assumes "bt_wf kv" "\<forall>e \<in> set kv. length (fst e) \<le> 128"
  shows "trie_root kc kv = Some (spec_root kc kv)"
  by (rule trie_root_spec_root [OF assms])

theorem trie_root_is_spec_root_witness:
  "trie_root sample_hash [([0x12], MptSome [1]), ([0x12, 0x34], Tombstone)]
     = Some (spec_root sample_hash [([0x12], MptSome [1]), ([0x12, 0x34], Tombstone)])"
  by (rule trie_root_is_spec_root) (simp_all add: bt_wf_def)

text \<open>
  C38: the byte \<open>path_info\<close> of the code takes the length of the path as \<open>u8\<close> before it
  reduces it modulo 63, so it is the byte of the specification exactly for the lengths whose
  quotient by 256 is a multiple of 63: never for 256 to 511 nibbles.
\<close>

theorem path_info_agrees_iff:
  "path_info p d = spec_path_info p d \<longleftrightarrow> (length p div 256) mod 63 = 0"
proof -
  have lt: "128 + 64 * (d mod 2) + x mod 63 < 256" for x :: nat
    using mod_less_divisor [of 2 d] mod_less_divisor [of 63 x] by linarith
  have "path_info p d = spec_path_info p d \<longleftrightarrow> (length p mod 256) mod 63 = length p mod 63"
    unfolding path_info_nat spec_path_info_def by (subst of_nat_u8_inj [OF lt lt]) simp
  also have "\<dots> \<longleftrightarrow> 63 dvd length p - length p mod 256"
    by (metis mod_eq_dvd_iff_nat mod_less_eq_dividend)
  also have "length p - length p mod 256 = 256 * (length p div 256)"
    by (simp add: minus_mod_eq_mult_div)
  also have "63 dvd 256 * (length p div 256) \<longleftrightarrow> 63 dvd length p div 256"
    by (rule coprime_dvd_mult_right_iff) (simp add: coprime_iff_gcd_eq_1 gcd_non_0_nat)
  finally show ?thesis by (simp add: dvd_eq_mod_eq_0)
qed

text \<open>
  C4: roots bind: if two maps have one root, then they have the same key set and the same
  Merkle values, or the two computations hash two different strings to one hash, or one of
  them hashes a string to the null hash. (A tombstone and an empty value have the same
  Merkle value.)
\<close>

theorem root_binds_map:
  assumes "bt_wf m" "bt_wf m'" "trie_root kc m = trie_root kc m'"
  shows "collision kc (hashed_inputs kc (nibble_entries m) []) (hashed_inputs kc (nibble_entries m') [])
    \<or> null_preimage kc (hashed_inputs kc (nibble_entries m) [] @ hashed_inputs kc (nibble_entries m') [])
    \<or> (\<forall>k. map_option merkle_value (bt_get m k) = map_option merkle_value (bt_get m' k))"
proof -
  have eq: "code_subtree kc (nibble_entries m) [] = code_subtree kc (nibble_entries m') []"
    using assms by (simp add: trie_root_correct)
  have "null_preimage kc (xs @ ys) \<longleftrightarrow> null_preimage kc xs \<or> null_preimage kc ys" for xs ys
    by (simp add: null_preimage_def)
  then show ?thesis
    using subtree_values_eq [OF nibble_entries_keys nibble_entries_keys eq] bt_get_nibble_entries
    by (metis Nil_prefix)
qed

theorem root_binds_map_witness:
  "let m = [([0x12], MptSome [1])] in
   collision sample_hash (hashed_inputs sample_hash (nibble_entries m) [])
      (hashed_inputs sample_hash (nibble_entries m) [])
    \<or> null_preimage sample_hash (hashed_inputs sample_hash (nibble_entries m) []
        @ hashed_inputs sample_hash (nibble_entries m) [])
    \<or> (\<forall>k. map_option merkle_value (bt_get m k) = map_option merkle_value (bt_get m k))"
  unfolding Let_def by (rule root_binds_map) (simp_all add: bt_wf_def)

text \<open>
  A snapshot layer that was loaded and then updated is the updated canonical map: its
  flattening, its reads and its prefix scans are those of the map, in key order.
\<close>

theorem snapshot_layer_is_map:
  assumes "bt_wf m"
  shows "let s = st_apply_updates us (st_from_snapshot m); m' = map_updates us m in
     st_to_canonical_map s = m' \<and> snapshot_get_owned s = bt_get m'
     \<and> st_scan_prefix s p = filter (\<lambda>kv. prefix p (fst kv)) m'"
proof -
  have st: "st_inv (\<lambda>_. H256_zero) (st_from_snapshot m)" "st_to_canonical_map (st_from_snapshot m) = m"
    using snap.load_law [OF assms] by auto
  have inv: "st_inv (\<lambda>_. H256_zero) (st_apply_updates us (st_from_snapshot m))"
    and map: "st_to_canonical_map (st_apply_updates us (st_from_snapshot m)) = map_updates us m"
    using st_updates_map [OF st(1), of us] st(2) by simp_all
  show ?thesis
    by (simp add: Let_def map snap.scan_law [OF inv] flip: snap.map_lookup [OF inv])
qed

theorem snapshot_layer_is_map_witness:
  "let s = st_apply_updates [([1], Tombstone), ([3], MptSome [7])] (st_from_snapshot [([1], [5]), ([1, 2], [6])]);
       m' = map_updates [([1], Tombstone), ([3], MptSome [7])] [([1], [5]), ([1, 2], [6])] in
     st_to_canonical_map s = m' \<and> snapshot_get_owned s = bt_get m'
     \<and> st_scan_prefix s [1] = filter (\<lambda>kv. prefix [1] (fst kv)) m'"
  by (rule snapshot_layer_is_map) (simp add: bt_wf_def)


subsection \<open>The key codec\<close>

text \<open>
  C32: a delta key decodes, whatever padding and hash function it was made with, to a key
  with the canonical bytes of the key that was encoded; so a rotation moves every entry of
  the intermediate to its own canonical key.
\<close>

theorem delta_key_keeps_canonical_key:
  assumes "plain_key k"
  shows "rbind (fst (to_delta_mpt_key_bytes kc k p None))
           (\<lambda>raw. rbind (from_delta_mpt_key raw) to_key_bytes) = to_key_bytes k"
  using canonical_of_raw_key [OF assms, of kc p] plain_key_encodes(1) [OF assms] plain_key_encodes(2) [OF assms, of kc p]
  by (simp add: canonical_of_def flip: delta_key_def)

theorem delta_key_keeps_canonical_key_witness:
  "rbind (fst (to_delta_mpt_key_bytes sample_hash sample_slot H256_zero None))
     (\<lambda>raw. rbind (from_delta_mpt_key raw) to_key_bytes) = to_key_bytes sample_slot"
  by (rule delta_key_keeps_canonical_key) simp

text \<open>
  Under one padding two keys share their delta key exactly when they share their
  canonical key: no two entries of a layer collide, and no entry has two delta keys.
\<close>

theorem delta_keys_equal_iff_canonical:
  assumes "plain_key k" "plain_key k'"
  shows "fst (to_delta_mpt_key_bytes kc k p None) = fst (to_delta_mpt_key_bytes kc k' p None)
     \<longleftrightarrow> to_key_bytes k = to_key_bytes k'"
  using raw_key_eq_iff [OF assms, of kc p] plain_key_encodes(1) [OF assms(1)] plain_key_encodes(2) [OF assms(1), of kc p]
    plain_key_encodes(1) [OF assms(2)]
    plain_key_encodes(2) [OF assms(2), of kc p] by (simp flip: delta_key_def)

theorem delta_keys_equal_iff_canonical_witness:
  "fst (to_delta_mpt_key_bytes sample_hash sample_key H256_zero None)
      = fst (to_delta_mpt_key_bytes sample_hash sample_slot H256_zero None)
     \<longleftrightarrow> to_key_bytes sample_key = to_key_bytes sample_slot"
  by (rule delta_keys_equal_iff_canonical) simp_all

text \<open>
  A key of a 20-byte address that is neither a slot with an empty slot key nor code with
  an empty hash is read back exactly by both decoders, its space included.
\<close>

theorem key_round_trips:
  assumes "key_address (sk_key k) = Some a" "length a = 20"
    and "\<forall>b. sk_key k \<noteq> Storage b [] \<and> sk_key k \<noteq> Code b []"
  shows "rbind (to_key_bytes k) from_key_bytes = Inr k
     \<and> rbind (fst (to_delta_mpt_key_bytes kc k p None)) from_delta_mpt_key = Inr k"
proof -
  have d: "decoded_key (sk_key k) = sk_key k"
    using assms(3) by (cases "sk_key k" rule: decoded_key.cases) auto
  have "to_key_bytes k = Inr (canonical_key k)" "delta_key kc p k = Inr (raw_of kc p k)"
    using assms(1,2) by (simp_all add: canonical_key_def raw_of_def to_key_bytes_shape delta_key_shape)
  then show ?thesis
    using raw_key_full(2) [OF assms(1,2)] raw_key_full(3) [OF assms(1,2), of kc p] decode_canonical [OF assms(2,1), of "sk_space k"]
      assms(3) d by (simp flip: delta_key_def)
qed

theorem key_round_trips_witness:
  "rbind (to_key_bytes sample_slot) from_key_bytes = Inr sample_slot
     \<and> rbind (fst (to_delta_mpt_key_bytes sample_hash sample_slot H256_zero None)) from_delta_mpt_key
       = Inr sample_slot"
  by (rule key_round_trips [of _ "replicate 20 1"]) (simp_all add: sample_slot_def ethereum_def)

text \<open>
  Whatever canonical bytes \<open>from_key_bytes\<close> accepts, its key encodes to exactly these
  bytes.
\<close>

theorem from_key_bytes_exact:
  assumes "from_key_bytes raw = Inr k"
  shows "to_key_bytes k = Inr raw"
  by (rule to_key_bytes_from_key_bytes [OF assms])

theorem from_key_bytes_exact_witness:
  "to_key_bytes (native (VoteList (replicate 20 1)))
     = Inr (replicate 20 1 @ [0x76, 0x6f, 0x74, 0x65])"
  by (rule from_key_bytes_exact)
    (simp add: from_key_bytes_def native_def key_sizes key_prefixes nth_append)

text \<open>
  C37: a storage slot with an empty slot key has the canonical bytes of the storage root of
  its address, but another delta key: the delta layers keep the two apart, the snapshot
  merges them.
\<close>

theorem empty_slot_shares_canonical_key:
  assumes "length a = 20"
  shows "to_key_bytes \<lparr>sk_key = Storage a [], sk_space = sp\<rparr>
       = to_key_bytes \<lparr>sk_key = StorageRoot a, sk_space = sp\<rparr>
     \<and> fst (to_delta_mpt_key_bytes kc \<lparr>sk_key = Storage a [], sk_space = sp\<rparr> p None)
       \<noteq> fst (to_delta_mpt_key_bytes kc \<lparr>sk_key = StorageRoot a, sk_space = sp\<rparr> p None)"
proof -
  have "slot_padding kc p [] \<noteq> []" by (metis length_slot_padding list.size(3) zero_neq_numeral)
  then show ?thesis
    using assms to_key_bytes_shape [of "\<lparr>sk_key = Storage a [], sk_space = sp\<rparr>" a]
      to_key_bytes_shape [of "\<lparr>sk_key = StorageRoot a, sk_space = sp\<rparr>" a]
      delta_key_shape [of "\<lparr>sk_key = Storage a [], sk_space = sp\<rparr>" a kc p]
      delta_key_shape [of "\<lparr>sk_key = StorageRoot a, sk_space = sp\<rparr>" a kc p]
    by (simp flip: delta_key_def)
qed

theorem empty_slot_shares_canonical_key_witness:
  "to_key_bytes \<lparr>sk_key = Storage (replicate 20 1) [], sk_space = Native\<rparr>
       = to_key_bytes \<lparr>sk_key = StorageRoot (replicate 20 1), sk_space = Native\<rparr>
   \<and> fst (to_delta_mpt_key_bytes sample_hash \<lparr>sk_key = Storage (replicate 20 1) [], sk_space = Native\<rparr> H256_zero None)
       \<noteq> fst (to_delta_mpt_key_bytes sample_hash \<lparr>sk_key = StorageRoot (replicate 20 1), sk_space = Native\<rparr> H256_zero None)"
  by (rule empty_slot_shares_canonical_key) simp

text \<open>Encodings that go through one account-key cache, one after the other.\<close>

fun encode_all ::
  "(bytes \<Rightarrow> h256) \<Rightarrow> (storage_key_with_space \<times> delta_mpt_key_padding) list \<Rightarrow> account_key_cache
   \<Rightarrow> bytes result list" where
  "encode_all kc [] c = []"
| "encode_all kc ((k, p) # reqs) c =
     (let (r, c') = to_delta_mpt_key_bytes kc k p (Some c) in r # encode_all kc reqs (the c'))"

lemma encode_all_uncached:
  "ac_ok kc c \<Longrightarrow> encode_all kc reqs c = map (\<lambda>(k, p). fst (to_delta_mpt_key_bytes kc k p None)) reqs"
proof (induction reqs arbitrary: c)
  case (Cons req reqs)
  obtain k p where req: "req = (k, p)" by (cases req)
  obtain c' where "to_delta_mpt_key_bytes kc k p (Some c) = (delta_key kc p k, Some c')" "ac_ok kc c'"
    using to_delta_cached [OF Cons.prems] by blast
  then show ?case using Cons.IH [of c'] by (simp add: req to_delta_uncached)
qed simp

text \<open>
  The account-key cache is not observable: any sequence of encodings through one cache,
  with the paddings changing in any order, gives the keys that are computed without it.
\<close>

theorem account_key_cache_transparent:
  "encode_all kc reqs (ac_default kc) = map (\<lambda>(k, p). fst (to_delta_mpt_key_bytes kc k p None)) reqs"
  by (rule encode_all_uncached [OF ac_ok_default])

subsection \<open>The state\<close>

text \<open>
  C1: reads, writes and commits on a fresh state, with any snapshot epoch count, so with any
  number of rotations in between, answer as a plain map from canonical keys to values in
  which writing an empty value deletes; no operation fails.
\<close>

theorem state_answers_as_map:
  assumes "list_all (\<lambda>op. pred_option plain_key (op_key op)) ops"
  shows "run_state kc ops (with_snapshot_epoch_count kc n) = map Inr (run_plain_map ops Map.empty)"
  using run_state_view [OF with_snapshot_epoch_count_inv(1) assms]
  by (simp add: with_snapshot_epoch_count_inv(2))

theorem state_answers_as_map_witness:
  "run_state sample_hash
     [OpSet sample_key [7], OpCommit, OpCommit, OpCommit, OpGet sample_key, OpSet sample_key [], OpGet sample_key]
     (with_snapshot_epoch_count sample_hash 1)
   = map Inr [None, None, None, None, Some [7], None, None]"
  by (subst state_answers_as_map) simp_all

text \<open>
  C17: a commit of a good state succeeds. It returns the stateless roots of the three layers
  and their hash, changes no read, and rotates exactly at a multiple of the epoch count:
  then the re-keyed intermediate is merged into the snapshot, the delta becomes the
  intermediate, and the next padding is made of the roots after the rotation.
\<close>

theorem commit_correct:
  assumes "state_inv kc s"
  shows "\<exists>s'. state_commit kc s = (Inr (committed_root kc s), s') \<and> state_inv kc s'
       \<and> state_view s' = state_view s
       \<and> s_height s' = s_height s + 1 \<and> s_last_root s' = Some (committed_root kc s)
       \<and> s_snapshot_epoch_count s' = s_snapshot_epoch_count s
       \<and> (if commit_due s then rotated kc (the (trie_root kc (s_delta s))) s s'
          else s_delta s' = s_delta s \<and> s_intermediate s' = s_intermediate s
               \<and> s_snapshot s' = s_snapshot s \<and> s_delta_padding s' = s_delta_padding s
               \<and> s_intermediate_padding s' = s_intermediate_padding s)"
  by (rule state_commit_correct [OF assms])

theorem commit_correct_witness:
  "\<exists>s'. state_commit sample_hash (with_snapshot_epoch_count sample_hash 1)
          = (Inr (committed_root sample_hash (with_snapshot_epoch_count sample_hash 1)), s')
     \<and> rotated sample_hash (the (trie_root sample_hash [])) (with_snapshot_epoch_count sample_hash 1) s'"
proof -
  have due: "commit_due (with_snapshot_epoch_count sample_hash 1)"
    and empty: "s_delta (with_snapshot_epoch_count sample_hash 1) = []"
    by (simp_all add: with_snapshot_epoch_count_def state_new_def commit_due_def)
  from commit_correct [OF with_snapshot_epoch_count_inv(1) [of sample_hash 1]] show ?thesis
    unfolding empty if_P [OF due] by blast
qed

text \<open>The state after a run.\<close>

fun state_after :: "(bytes \<Rightarrow> h256) \<Rightarrow> state_op list \<Rightarrow> state \<Rightarrow> state" where
  "state_after kc [] s = s"
| "state_after kc (OpGet k # ops) s = state_after kc ops (snd (state_get kc k s))"
| "state_after kc (OpSet k v # ops) s = state_after kc ops (snd (state_set kc k v s))"
| "state_after kc (OpCommit # ops) s = state_after kc ops (snd (state_commit kc s))"

lemma state_after_inv:
  "state_inv kc s \<Longrightarrow> list_all (\<lambda>op. pred_option plain_key (op_key op)) ops \<Longrightarrow>
   state_inv kc (state_after kc ops s)
   \<and> s_snapshot_epoch_count (state_after kc ops s) = s_snapshot_epoch_count s"
proof (induction ops arbitrary: s)
  case (Cons op ops)
  show ?case
  proof (cases op)
    case (OpGet k)
    then obtain s' where "state_get kc k s = (Inr (state_view s (canonical_key k)), s')"
      "same_core s s'" "state_inv kc s'"
      using state_get_correct [OF Cons.prems(1), of k] Cons.prems(2) by auto
    then show ?thesis using Cons.IH [of s'] Cons.prems(2) by (simp add: OpGet same_core_def)
  next
    case (OpSet k v)
    then obtain s' where "state_set kc k v s = (Inr (), s')" "state_inv kc s'" "same_below s s'"
      using state_set_correct [OF Cons.prems(1), of k v] Cons.prems(2) by auto
    then show ?thesis using Cons.IH [of s'] Cons.prems(2) by (simp add: OpSet same_below_def)
  next
    case OpCommit
    obtain s' where "state_commit kc s = (Inr (committed_root kc s), s')" "state_inv kc s'"
      "s_snapshot_epoch_count s' = s_snapshot_epoch_count s"
      using state_commit_correct [OF Cons.prems(1)] by blast
    then show ?thesis using Cons.IH [of s'] Cons.prems(2) by (simp add: OpCommit)
  qed
qed simp

text \<open>
  C18: saving a state that any run has reached and loading it gives a state that answers
  every further run alike, the roots of its commits included: what is not saved (the
  subtree hashes, the account keys, the two recomputed roots) makes no difference.
\<close>

theorem restart_is_not_observable:
  assumes "list_all (\<lambda>op. pred_option plain_key (op_key op)) ops"
    and "list_all (\<lambda>op. pred_option plain_key (op_key op)) ops'"
  shows "let s = state_after kc ops (with_snapshot_epoch_count kc n) in
     \<exists>s'. from_persisted kc (persisted s) = Inr s'
        \<and> run_with_roots kc ops' s' = run_with_roots kc ops' s"
proof -
  let ?s = "state_after kc ops (with_snapshot_epoch_count kc n)"
  have inv: "state_inv kc ?s"
    and n: "s_snapshot_epoch_count ?s = s_snapshot_epoch_count (with_snapshot_epoch_count kc n)"
    using state_after_inv [OF with_snapshot_epoch_count_inv(1) assms(1)] by auto
  have "1 \<le> max n (1 :: u32)" by (rule max.cobounded2)
  then have "max n 1 \<noteq> (0 :: u32)" by (auto simp: word_le_nat_alt)
  then have "s_snapshot_epoch_count ?s \<noteq> 0"
    unfolding n by (simp add: with_snapshot_epoch_count_def)
  from from_persisted_persisted [OF inv this] equivalent_runs [OF inv _ _ assms(2)]
  show ?thesis by (auto simp: Let_def)
qed

theorem restart_is_not_observable_witness:
  "let s = state_after sample_hash [OpSet sample_key [7], OpCommit] (with_snapshot_epoch_count sample_hash 1) in
     \<exists>s'. from_persisted sample_hash (persisted s) = Inr s'
        \<and> run_with_roots sample_hash [OpCommit, OpGet sample_key] s'
          = run_with_roots sample_hash [OpCommit, OpGet sample_key] s"
  by (rule restart_is_not_observable) simp_all

text \<open>
  C19: a prefix read at the boundary of a hashed field succeeds and returns exactly the
  visible entries whose canonical key has the canonical prefix, each key once, whatever
  layers they are in.
\<close>

theorem prefix_read_exact:
  assumes "state_inv kc s" "aligned_prefix pk"
  shows "\<exists>kvs. read_prefix kc pk s = Inr kvs \<and> distinct (map fst kvs)
     \<and> (\<forall>ck v. (ck, v) \<in> set kvs \<longleftrightarrow> prefix (canonical_key pk) ck \<and> state_view s ck = Some v)"
  using read_prefix_pairs [OF assms] prefix_pairs_view [OF assms(1)] by blast

theorem prefix_read_exact_witness:
  "\<exists>s. fst (state_set sample_hash sample_key [7] (state_new sample_hash)) = Inr ()
     \<and> snd (state_set sample_hash sample_key [7] (state_new sample_hash)) = s
     \<and> (\<exists>kvs. read_prefix sample_hash sample_key s = Inr kvs \<and> distinct (map fst kvs)
          \<and> (\<forall>ck v. (ck, v) \<in> set kvs \<longleftrightarrow>
               prefix (canonical_key sample_key) ck \<and> state_view s ck = Some v))"
  using state_set_view [OF state_new_inv, of sample_key sample_hash "[7]"]
    prefix_read_exact [OF _ sample_aligned, of sample_hash] by fastforce







text \<open>
  C36: the delete loop over the snapshot does not hide a short account: its canonical key is
  read back as an address prefix, so the tombstone goes to the empty delta key, and the
  account is still read after it was reported as deleted.
\<close>

theorem short_account_survives_delete:
  assumes "state_inv kc s" "0 < length a" "length a < 20" "state_view s a = Some v"
  shows "\<exists>seen s'. delete_snapshot kc [(a, v)] ({}, []) s = (Inr (seen, [(a, v)]), s')
     \<and> state_inv kc s' \<and> state_view s' a = Some v"
proof -
  have "from_key_bytes a = Inr (native (AddressPrefix a))"
    using assms(2,3) by (auto simp: from_key_bytes_def key_sizes)
  moreover obtain s' where "state_set kc (native EmptyKey) [] s = (Inr (), s')" "state_inv kc s'"
    "state_view s' = (state_view s)(canonical_key (native EmptyKey) := None)"
    using state_set_view [OF assms(1), of "native EmptyKey" "[]"] by (auto simp: plain_key_def native_def)
  moreover have "canonical_key (native EmptyKey) = []" by (simp add: canonical_key_short native_def)
  ultimately show ?thesis
    using assms(2,4) set_address_prefix [of kc a Native "[]" s] by (auto simp: native_def)
qed

theorem short_account_survives_delete_witness:
  "\<exists>s seen s'. state_from_snapshot sample_hash [([5], [9])] = Inr s
     \<and> delete_snapshot sample_hash [([5], [9])] ({}, []) s = (Inr (seen, [([5], [9])]), s')
     \<and> state_view s' [5] = Some [9]"
proof -
  have k: "canonical_keys [([5 :: u8], [9 :: u8])]"
    unfolding canonical_keys_def
    by (auto intro!: exI [of _ "native (Account [5])"]
        simp: native_def plain_key_def canonical_key_def to_key_bytes_def key_sizes)
  obtain s where s: "state_from_snapshot sample_hash [([5], [9])] = Inr s" "state_inv sample_hash s"
    "state_view s = bt_get [([5], [9])]"
    using state_from_snapshot_correct [OF _ k, of sample_hash] by (auto simp: bt_wf_def)
  from short_account_survives_delete [OF s(2), of "[5]" "[9]"] s show ?thesis by auto
qed

subsection \<open>The stores\<close>

text \<open>
  A manager over the in-memory store that has committed can be replaced by one started
  on its store: the commit returned the stateless roots, and the new manager's state agrees
  with the running one in everything but its caches.
\<close>

theorem memory_manager_reloads:
  assumes "state_inv kc (sm_state m)" "s_snapshot_epoch_count (sm_state m) \<noteq> 0"
    and "state_manager_commit kc memory_save_latest m = (Inr root, m')"
  shows "state_inv kc (sm_state m') \<and> root = committed_root kc (sm_state m) \<and>
    (\<exists>m''. state_manager_new kc memory_load_latest (sm_store m') = Inr m''
       \<and> state_inv kc (sm_state m'') \<and> equivalent_states (sm_state m') (sm_state m''))"
  by (rule memory.reload_after_commit [OF assms])

theorem memory_manager_reloads_witness:
  "\<exists>root m' m''. state_manager_commit sample_hash memory_save_latest
        \<lparr>sm_state = state_new sample_hash, sm_store = memory_store_new\<rparr> = (Inr root, m')
     \<and> state_manager_new sample_hash memory_load_latest (sm_store m') = Inr m''
     \<and> equivalent_states (sm_state m') (sm_state m'')"
proof -
  let ?m = "\<lparr>sm_state = state_new sample_hash, sm_store = memory_store_new\<rparr>"
  obtain s where "state_commit sample_hash (state_new sample_hash)
      = (Inr (committed_root sample_hash (state_new sample_hash)), s)"
    using state_commit_correct [OF state_new_inv] by blast
  then have c: "state_manager_commit sample_hash memory_save_latest ?m
      = (Inr (committed_root sample_hash (state_new sample_hash)), ?m\<lparr>sm_state := s, sm_store := Some (persisted s)\<rparr>)"
    by (simp add: state_manager_commit_def memory_save_latest_def)
  have "s_snapshot_epoch_count (sm_state ?m) \<noteq> 0"
    by (simp add: state_new_def DEFAULT_SNAPSHOT_EPOCH_COUNT_def)
  from memory_manager_reloads [OF _ this c] state_new_inv c show ?thesis by auto
qed

text \<open>
  The file store loads what it saved last, when the serializer reads its own output back
  and the temporary path differs from the store's; no other file is changed but the
  temporary one, which is gone.
\<close>

theorem file_store_loads_saved:
  assumes "file_save_latest serialize with_tmp p st = Inr st'"
    and "\<And>contents. serialize p = Inr contents \<Longrightarrow> deserialize contents = Inr p"
    and "with_tmp (fs_path st) \<noteq> fs_path st"
  shows "file_load_latest deserialize st' = Inr (Some p)
     \<and> fs_files st' (with_tmp (fs_path st)) = None
     \<and> (\<forall>q. q \<noteq> fs_path st \<longrightarrow> q \<noteq> with_tmp (fs_path st) \<longrightarrow> fs_files st' q = fs_files st q)"
  using assms by (auto simp: file_save_latest_def Let_def rbind_Inr_iff file_load_latest_def)

theorem file_store_loads_saved_witness:
  "\<exists>st'. file_save_latest (\<lambda>_. Inr [1]) (\<lambda>path. path @ ''.tmp'') (persisted_default sample_hash)
        \<lparr>fs_path = ''state'', fs_files = Map.empty\<rparr> = Inr st'
     \<and> file_load_latest (\<lambda>_. Inr (persisted_default sample_hash)) st' = Inr (Some (persisted_default sample_hash))"
proof -
  obtain st' where st': "file_save_latest (\<lambda>_. Inr [1]) (\<lambda>path. path @ ''.tmp'')
      (persisted_default sample_hash) \<lparr>fs_path = ''state'', fs_files = Map.empty\<rparr> = Inr st'"
    by (simp add: file_save_latest_def Let_def)
  from file_store_loads_saved [OF st', of "\<lambda>_. Inr (persisted_default sample_hash)"] st'
  show ?thesis by simp
qed

text \<open>
  Keys survive the conversion to nibbles and back, and the conversion keeps the order
  and the prefixes of keys, so a sorted byte-keyed map is a sorted nibble-keyed one.
\<close>

theorem nibble_conversion:
  "nibbles_to_bytes (bytes_to_nibbles a) = a
   \<and> (bytes_to_nibbles a < bytes_to_nibbles b \<longleftrightarrow> a < b)
   \<and> (prefix (bytes_to_nibbles a) (bytes_to_nibbles b) \<longleftrightarrow> prefix a b)
   \<and> length (bytes_to_nibbles a) = 2 * length a"
  by simp

end
