(* ===== verification/Mpt_Lmdb.thy ===== *)
theory Mpt_Lmdb
  imports Mpt_Snapshot
begin

text \<open>
  \<open>crates/minimal-mpt/src/snapshot.rs\<close>, the backend behind the feature \<open>snapshot-lmdb\<close>: the
  snapshot lives in an LMDB database keyed by nibbles, and the walk reads it through cursors. LMDB
  (crate \<open>heed\<close>) is the record \<open>lmdb_lib\<close> of the calls used; every failure of one is a panic,
  as each of them is unwrapped with \<open>expect\<close>. As in \<open>Mpt_Trie\<close>, \<open>None\<close> stands for a panic.
\<close>

text \<open>
  The environment and the view that a transaction has of it have one type \<open>'d\<close>: a write
  transaction starts with a view, its writes return the view they leave, and the commit returns the
  environment. A cursor is the list of what it yields.
\<close>

record 'd lmdb_lib =
  lm_open :: "string + 'd"
  lm_write_txn :: "'d \<Rightarrow> string + 'd"
  lm_create_database :: "'d \<Rightarrow> string + 'd"
  lm_commit :: "'d \<Rightarrow> string + 'd"
  lm_read_txn :: "'d \<Rightarrow> string + 'd"
  lm_get :: "'d \<Rightarrow> nibbles \<Rightarrow> string + bytes option"
  lm_put :: "nibbles \<Rightarrow> bytes \<Rightarrow> 'd \<Rightarrow> string + 'd"
  lm_delete :: "nibbles \<Rightarrow> 'd \<Rightarrow> string + (bool \<times> 'd)"
  lm_iter :: "'d \<Rightarrow> string + (string + (nibbles \<times> bytes)) list"
  lm_prefix_iter :: "'d \<Rightarrow> nibbles \<Rightarrow> string + (string + (nibbles \<times> bytes)) list"
  lm_rev_iter :: "'d \<Rightarrow> string + (string + (nibbles \<times> bytes)) list"
  lm_rev_prefix_iter :: "'d \<Rightarrow> nibbles \<Rightarrow> string + (string + (nibbles \<times> bytes)) list"

text \<open>\<open>expect\<close>.\<close>

definition expecting :: "string + 'a \<Rightarrow> 'a option" where
  "expecting r = (case r of Inl _ \<Rightarrow> None | Inr x \<Rightarrow> Some x)"

record 'd lmdb_snapshot =
  ls_db :: 'd
  ls_cache :: cache
  ls_dirty :: "(nibbles, unit) btree"
  ls_len :: nat

subsection \<open>Writes\<close>

text \<open>The writes of \<open>from_snapshot\<close>.\<close>

fun load_entries :: "'d lmdb_lib \<Rightarrow> (bytes, bytes) btree \<Rightarrow> 'd \<Rightarrow> 'd option" where
  "load_entries L [] wtxn = Some wtxn"
| "load_entries L ((key, v) # es) wtxn =
     Option.bind (expecting (lm_put L (bytes_to_nibbles key) v wtxn)) (load_entries L es)"

definition lmdb_from_snapshot ::
  "(bytes \<Rightarrow> h256) \<Rightarrow> 'd lmdb_lib \<Rightarrow> (bytes, bytes) btree \<Rightarrow> 'd lmdb_snapshot option" where
  "lmdb_from_snapshot kc L snapshot =
     Option.bind (expecting (lm_open L)) (\<lambda>env.
     Option.bind (expecting (lm_write_txn L env)) (\<lambda>wtxn.
     Option.bind (expecting (lm_create_database L wtxn)) (\<lambda>wtxn.
     Option.bind (load_entries L snapshot wtxn) (\<lambda>wtxn.
     Option.bind (expecting (lm_commit L wtxn)) (\<lambda>db.
     Option.bind (rebuild_snapshot_root_cache kc snapshot SkipSingleton) (\<lambda>(_, cache).
       Some \<lparr>ls_db = db, ls_cache = cache, ls_dirty = [], ls_len = length snapshot\<rparr>))))))"

definition lmdb_default :: "(bytes \<Rightarrow> h256) \<Rightarrow> 'd lmdb_lib \<Rightarrow> 'd lmdb_snapshot option" where
  "lmdb_default kc L = lmdb_from_snapshot kc L []"

text \<open>One write within a transaction: the view, and the number of entries.\<close>

definition txn_put :: "'d lmdb_lib \<Rightarrow> nibbles \<Rightarrow> bytes \<Rightarrow> 'd \<times> nat \<Rightarrow> ('d \<times> nat) option" where
  "txn_put L nibbles v t =
     (let (wtxn, len) = t
      in Option.bind (expecting (lm_get L wtxn nibbles)) (\<lambda>found.
         Option.bind (expecting (lm_put L nibbles v wtxn)) (\<lambda>wtxn'.
           Some (wtxn', if found = None then len + 1 else len))))"

definition txn_delete :: "'d lmdb_lib \<Rightarrow> nibbles \<Rightarrow> 'd \<times> nat \<Rightarrow> ('d \<times> nat) option" where
  "txn_delete L nibbles t =
     (let (wtxn, len) = t
      in Option.bind (expecting (lm_delete L nibbles wtxn)) (\<lambda>(removed, wtxn').
           Some (wtxn', if removed then len - 1 else len)))"

definition lmdb_remove :: "'d lmdb_lib \<Rightarrow> bytes \<Rightarrow> 'd lmdb_snapshot \<Rightarrow> 'd lmdb_snapshot option" where
  "lmdb_remove L key s =
     (let nibbles = bytes_to_nibbles key
      in Option.bind (expecting (lm_write_txn L (ls_db s))) (\<lambda>wtxn.
         Option.bind (txn_delete L nibbles (wtxn, ls_len s)) (\<lambda>(wtxn, len).
         Option.bind (expecting (lm_commit L wtxn)) (\<lambda>db.
           Some (s\<lparr>ls_db := db, ls_len := len, ls_dirty := bt_insert nibbles () (ls_dirty s)\<rparr>)))))"

definition lmdb_insert :: "'d lmdb_lib \<Rightarrow> bytes \<Rightarrow> mpt_value \<Rightarrow> 'd lmdb_snapshot \<Rightarrow> 'd lmdb_snapshot option" where
  "lmdb_insert L key mv s =
     (case mv of
        MptSome v \<Rightarrow>
          (let nibbles = bytes_to_nibbles key
           in Option.bind (expecting (lm_write_txn L (ls_db s))) (\<lambda>wtxn.
              Option.bind (txn_put L nibbles v (wtxn, ls_len s)) (\<lambda>(wtxn, len).
              Option.bind (expecting (lm_commit L wtxn)) (\<lambda>db.
                Some (s\<lparr>ls_db := db, ls_len := len, ls_dirty := bt_insert nibbles () (ls_dirty s)\<rparr>)))))
      | Tombstone \<Rightarrow> lmdb_remove L key s)"

text \<open>The loop of \<open>apply_updates\<close>: one transaction for all updates.\<close>

fun apply_in_txn ::
  "'d lmdb_lib \<Rightarrow> (bytes \<times> mpt_value) list \<Rightarrow> ('d \<times> nat) \<times> (nibbles, unit) btree \<Rightarrow>
   (('d \<times> nat) \<times> (nibbles, unit) btree) option" where
  "apply_in_txn L [] st = Some st"
| "apply_in_txn L ((key, mv) # us) (t, dirty) =
     (let nibbles = bytes_to_nibbles key
      in Option.bind (case mv of MptSome v \<Rightarrow> txn_put L nibbles v t | Tombstone \<Rightarrow> txn_delete L nibbles t)
           (\<lambda>t'. apply_in_txn L us (t', bt_insert nibbles () dirty)))"

definition lmdb_apply_updates ::
  "'d lmdb_lib \<Rightarrow> (bytes \<times> mpt_value) list \<Rightarrow> 'd lmdb_snapshot \<Rightarrow> 'd lmdb_snapshot option" where
  "lmdb_apply_updates L updates s =
     Option.bind (expecting (lm_write_txn L (ls_db s))) (\<lambda>wtxn.
     Option.bind (apply_in_txn L updates ((wtxn, ls_len s), ls_dirty s)) (\<lambda>((wtxn, len), dirty).
     Option.bind (expecting (lm_commit L wtxn)) (\<lambda>db.
       Some (s\<lparr>ls_db := db, ls_len := len, ls_dirty := dirty\<rparr>))))"

subsection \<open>Reads\<close>

definition lmdb_get_owned :: "'d lmdb_lib \<Rightarrow> 'd lmdb_snapshot \<Rightarrow> bytes \<Rightarrow> bytes option option" where
  "lmdb_get_owned L s canonical =
     Option.bind (expecting (lm_read_txn L (ls_db s))) (\<lambda>rtxn.
       expecting (lm_get L rtxn (bytes_to_nibbles canonical)))"

text \<open>The entries that a cursor yields, with the keys back in bytes.\<close>

definition cursor_pairs :: "(string + (nibbles \<times> bytes)) list \<Rightarrow> (bytes \<times> bytes) list option" where
  "cursor_pairs items =
     those_options (map (\<lambda>item. map_option (\<lambda>(key, v). (nibbles_to_bytes key, v)) (expecting item)) items)"

definition lmdb_scan_prefix :: "'d lmdb_lib \<Rightarrow> 'd lmdb_snapshot \<Rightarrow> bytes \<Rightarrow> (bytes \<times> bytes) list option" where
  "lmdb_scan_prefix L s canonical_prefix =
     (let nibble_prefix = bytes_to_nibbles canonical_prefix
      in Option.bind (expecting (lm_read_txn L (ls_db s))) (\<lambda>rtxn.
           if nibble_prefix = [] then Option.bind (expecting (lm_iter L rtxn)) cursor_pairs
           else Option.bind (expecting (lm_prefix_iter L rtxn nibble_prefix)) cursor_pairs))"

definition lmdb_to_canonical_map :: "'d lmdb_lib \<Rightarrow> 'd lmdb_snapshot \<Rightarrow> (bytes, bytes) btree option" where
  "lmdb_to_canonical_map L s =
     Option.bind (expecting (lm_read_txn L (ls_db s))) (\<lambda>rtxn.
     Option.bind (expecting (lm_iter L rtxn)) (\<lambda>items. map_option bt_collect (cursor_pairs items)))"

definition lmdb_len :: "'d lmdb_snapshot \<Rightarrow> nat" where
  "lmdb_len s = ls_len s"

text \<open>The next item of a cursor; the outer \<open>option\<close> is the panic of an item that is an error.\<close>

definition next_key :: "(string + (nibbles \<times> bytes)) list \<Rightarrow> nibbles option option" where
  "next_key items =
     (case items of [] \<Rightarrow> Some None | item # _ \<Rightarrow> map_option (\<lambda>(key, _). Some key) (expecting item))"

definition first_with_prefix :: "'d lmdb_lib \<Rightarrow> 'd \<Rightarrow> nibbles \<Rightarrow> nibbles option option" where
  "first_with_prefix L rtxn p =
     (if p = [] then Option.bind (expecting (lm_iter L rtxn)) next_key
      else Option.bind (expecting (lm_prefix_iter L rtxn p)) next_key)"

definition last_with_prefix :: "'d lmdb_lib \<Rightarrow> 'd \<Rightarrow> nibbles \<Rightarrow> nibbles option option" where
  "last_with_prefix L rtxn p =
     (if p = [] then Option.bind (expecting (lm_rev_iter L rtxn)) next_key
      else Option.bind (expecting (lm_rev_prefix_iter L rtxn p)) next_key)"

definition prefix_has_key :: "'d lmdb_lib \<Rightarrow> 'd \<Rightarrow> nibbles \<Rightarrow> bool option" where
  "prefix_has_key L rtxn p = map_option (\<lambda>k. k \<noteq> None) (first_with_prefix L rtxn p)"

subsection \<open>The walk\<close>

text \<open>
  The loop over the children, with the recursive call as \<open>walk\<close>. The recursion of
  \<open>memo_node_lmdb\<close> counts down a fuel, because nothing is known of the keys that a cursor yields;
  \<open>None\<close> is a panic or the end of the fuel.
\<close>

fun lmdb_children ::
  "(nibbles \<Rightarrow> cache \<Rightarrow> (h256 \<times> cache) option) \<Rightarrow> 'd lmdb_lib \<Rightarrow> 'd \<Rightarrow> nibbles \<Rightarrow> nat list \<Rightarrow> cache \<Rightarrow>
   (h256 list \<times> cache) option" where
  "lmdb_children walk L rtxn full_prefix [] cache = Some ([], cache)"
| "lmdb_children walk L rtxn full_prefix (c # cs) cache =
     (let child_rp = full_prefix @ [of_nat c]
      in Option.bind
           (case bt_get cache child_rp of Some hash \<Rightarrow> Some (hash, cache)
            | None \<Rightarrow> Option.bind (prefix_has_key L rtxn child_rp) (\<lambda>has.
                if has then walk child_rp cache else Some (MERKLE_NULL_NODE, cache)))
           (\<lambda>(hash, cache'). map_option (apfst ((#) hash)) (lmdb_children walk L rtxn full_prefix cs cache')))"

primrec memo_node_lmdb ::
  "nat \<Rightarrow> (bytes \<Rightarrow> h256) \<Rightarrow> 'd lmdb_lib \<Rightarrow> 'd \<Rightarrow> nibbles \<Rightarrow> bool \<Rightarrow> cache \<Rightarrow> cache_policy \<Rightarrow>
   (h256 \<times> cache) option" where
  "memo_node_lmdb 0 kc L rtxn rp allow_path_compression cache policy = None"
| "memo_node_lmdb (Suc fuel) kc L rtxn rp allow_path_compression cache policy =
     (case bt_get cache rp of Some hash \<Rightarrow> Some (hash, cache)
      | None \<Rightarrow>
        (let depth = length rp
         in Option.bind (Option.bind (first_with_prefix L rtxn rp) id) (\<lambda>first_key.
            Option.bind (if allow_path_compression \<or> policy = SkipSingleton
                         then Option.bind (last_with_prefix L rtxn rp) id else Some first_key) (\<lambda>last_key.
            let is_singleton = (first_key = last_key);
                common = (if allow_path_compression then common_prefix_len first_key last_key depth else 0);
                node_depth = depth + common
            in if length first_key < node_depth then None
               else
                 (let full_prefix = take node_depth first_key
                  in Option.bind (if full_prefix = [] then Some None else expecting (lm_get L rtxn full_prefix))
                       (\<lambda>maybe_value.
                     Option.bind
                       (lmdb_children (\<lambda>child_rp cache. memo_node_lmdb fuel kc L rtxn child_rp True cache policy)
                          L rtxn full_prefix [0..<CHILDREN] cache) (\<lambda>(children, cache').
                     let node_hash = compute_node_merkle kc (if has_children children then Some children else None)
                                       maybe_value
                     in map_option
                          (\<lambda>hash. (hash, if policy = Full \<or> \<not> is_singleton then bt_insert rp hash cache' else cache'))
                          (compute_path_merkle kc (subslice first_key depth node_depth) depth node_hash))))))))"

text \<open>The longest key plus one is fuel enough: every step goes to a longer prefix of a key.\<close>

definition walk_fuel :: "'d lmdb_lib \<Rightarrow> 'd \<Rightarrow> nat" where
  "walk_fuel L rtxn =
     (case Option.bind (expecting (lm_iter L rtxn)) (\<lambda>items. those_options (map expecting items)) of
        None \<Rightarrow> 1 | Some es \<Rightarrow> Suc (max_key_len es))"

definition lmdb_root_with_policy ::
  "(bytes \<Rightarrow> h256) \<Rightarrow> 'd lmdb_lib \<Rightarrow> cache_policy \<Rightarrow> 'd lmdb_snapshot \<Rightarrow> (h256 \<times> 'd lmdb_snapshot) option" where
  "lmdb_root_with_policy kc L policy s =
     (if ls_len s = 0 then Some (MERKLE_NULL_NODE, s\<lparr>ls_cache := [], ls_dirty := []\<rparr>)
      else
        (let cache = evict (ls_dirty s) (ls_cache s)
         in Option.bind (expecting (lm_read_txn L (ls_db s))) (\<lambda>rtxn.
              map_option (\<lambda>(hash, cache'). (hash, s\<lparr>ls_cache := cache', ls_dirty := []\<rparr>))
                (memo_node_lmdb (walk_fuel L rtxn) kc L rtxn [] False cache policy))))"

end
