(* ===== verification/Lmdb_Correct.thy ===== *)
theory Lmdb_Correct
  imports Mpt_Lmdb
begin

text \<open>
  The LMDB backend of \<open>snapshot.rs\<close> refines the in-memory one: the walk over cursors is the walk
  over the entries, an update keeps the invariant of the trie and the number of entries, and every
  run of operations answers as the in-memory layer does, for the keys that LMDB takes.
\<close>

text \<open>
  What LMDB documents: a key has 1 to 511 bytes, other keys are refused when they are written; a
  cursor yields the entries in the order of their keys. \<open>contents\<close> is what a view holds.
\<close>

definition lmdb_key :: "nibbles \<Rightarrow> bool" where
  "lmdb_key k \<longleftrightarrow> k \<noteq> [] \<and> length k \<le> 511"

definition lmdb_law :: "'d lmdb_lib \<Rightarrow> ('d \<Rightarrow> (nibbles, bytes) btree) \<Rightarrow> bool" where
  "lmdb_law L contents \<longleftrightarrow>
     (\<exists>env w d. lm_open L = Inr env \<and> lm_write_txn L env = Inr w \<and> lm_create_database L w = Inr d \<and>
        contents d = []) \<and>
     (\<forall>d. (\<exists>w. lm_write_txn L d = Inr w \<and> contents w = contents d) \<and>
          (\<exists>w. lm_commit L d = Inr w \<and> contents w = contents d) \<and>
          (\<exists>w. lm_read_txn L d = Inr w \<and> contents w = contents d)) \<and>
     (\<forall>d k. lmdb_key k \<longrightarrow> lm_get L d k = Inr (bt_get (contents d) k)) \<and>
     (\<forall>d k v. lmdb_key k \<longrightarrow> (\<exists>w. lm_put L k v d = Inr w \<and> contents w = bt_insert k v (contents d))) \<and>
     (\<forall>d k v. \<not> lmdb_key k \<longrightarrow> (\<exists>e. lm_put L k v d = Inl e)) \<and>
     (\<forall>d k. lmdb_key k \<longrightarrow> (\<exists>w. lm_delete L k d = Inr (bt_get (contents d) k \<noteq> None, w) \<and>
        contents w = bt_remove k (contents d))) \<and>
     (\<forall>d. lm_iter L d = Inr (map Inr (contents d)) \<and> lm_rev_iter L d = Inr (map Inr (rev (contents d)))) \<and>
     (\<forall>d p. lmdb_key p \<longrightarrow> lm_prefix_iter L d p = Inr (map Inr (block (contents d) p)) \<and>
        lm_rev_prefix_iter L d p = Inr (map Inr (rev (block (contents d) p))))"

lemma expecting_simps [simp]: "expecting (Inl e) = None" "expecting (Inr x) = Some x"
  by (simp_all add: expecting_def)

lemma lmdb_reads:
  assumes "lmdb_law L contents"
  shows "lmdb_key k \<Longrightarrow> lm_get L d k = Inr (bt_get (contents d) k)"
    "lm_iter L d = Inr (map Inr (contents d))" "lm_rev_iter L d = Inr (map Inr (rev (contents d)))"
    "lmdb_key p \<Longrightarrow> lm_prefix_iter L d p = Inr (map Inr (block (contents d) p))"
    "lmdb_key p \<Longrightarrow> lm_rev_prefix_iter L d p = Inr (map Inr (rev (block (contents d) p)))"
  using assms by (auto simp: lmdb_law_def)

lemma lmdb_txns:
  assumes "lmdb_law L contents"
  obtains w where "lm_write_txn L d = Inr w" "contents w = contents d"
  using assms unfolding lmdb_law_def by blast

lemma lmdb_commits:
  assumes "lmdb_law L contents"
  obtains w where "lm_commit L d = Inr w" "contents w = contents d"
  using assms unfolding lmdb_law_def by blast

lemma lmdb_views:
  assumes "lmdb_law L contents"
  obtains w where "lm_read_txn L d = Inr w" "contents w = contents d"
  using assms unfolding lmdb_law_def by blast

lemma lmdb_puts:
  assumes "lmdb_law L contents" "lmdb_key k"
  obtains w where "lm_put L k v d = Inr w" "contents w = bt_insert k v (contents d)"
  using assms unfolding lmdb_law_def by blast

lemma lmdb_deletes:
  assumes "lmdb_law L contents" "lmdb_key k"
  obtains w where "lm_delete L k d = Inr (bt_get (contents d) k \<noteq> None, w)" "contents w = bt_remove k (contents d)"
  using assms unfolding lmdb_law_def by blast

subsection \<open>The walk\<close>

text \<open>The entries of the in-memory trie that hold the same values.\<close>

definition live_entries :: "(nibbles, bytes) btree \<Rightarrow> entries" where
  "live_entries es = map (apsnd MptSome) es"

lemma live_entries_simps [simp]:
  "fst ` set (live_entries es) = fst ` set es" "live_entries es = [] \<longleftrightarrow> es = []"
  "length (live_entries es) = length es" "bt_wf (live_entries es) \<longleftrightarrow> bt_wf es"
  by (auto simp: live_entries_def bt_wf_def comp_def image_image)

lemma live_entries_block: "block (live_entries es) p = live_entries (block es p)"
  by (simp add: live_entries_def block_def filter_map comp_def)

lemma live_entries_get: "map_option merkle_value (bt_get (live_entries es) k) = bt_get es k"
  by (induction es) (auto simp: live_entries_def)

lemma live_entries_update:
  "live_entries (bt_insert k v es) = bt_insert k (MptSome v) (live_entries es)"
  "live_entries (bt_remove k es) = bt_remove k (live_entries es)"
  by (induction es) (auto simp: live_entries_def)

lemma max_key_len_live [simp]: "max_key_len (live_entries es) = max_key_len es"
  by (simp add: max_key_len_def live_entries_def foldr_map comp_def)

definition keys_fit :: "(nibbles \<times> 'v) list \<Rightarrow> bool" where
  "keys_fit es \<longleftrightarrow> (\<forall>k \<in> fst ` set es. k \<noteq> [] \<and> length k \<le> 510)"

lemma first_last_with_prefix:
  assumes "lmdb_law L contents" "length p \<le> 511"
  shows "first_with_prefix L d p = Some (if block (contents d) p = [] then None else Some (fst (hd (block (contents d) p))))"
    "last_with_prefix L d p = Some (if block (contents d) p = [] then None else Some (fst (last (block (contents d) p))))"
    "prefix_has_key L d p = Some (block (contents d) p \<noteq> [])"
proof -
  have next_key: "next_key (map Inr es) = Some (if es = [] then None else Some (fst (hd es)))" for es
    by (cases es) (auto simp: next_key_def)
  have p: "lmdb_key p" if "p \<noteq> []" using that assms(2) by (simp add: lmdb_key_def)
  show f: "first_with_prefix L d p = Some (if block (contents d) p = [] then None else Some (fst (hd (block (contents d) p))))"
    using lmdb_reads(2,4) [OF assms(1)] p by (auto simp: first_with_prefix_def next_key)
  show "last_with_prefix L d p = Some (if block (contents d) p = [] then None else Some (fst (last (block (contents d) p))))"
    using lmdb_reads(3,5) [OF assms(1)] p by (auto simp: last_with_prefix_def next_key hd_rev)
  show "prefix_has_key L d p = Some (block (contents d) p \<noteq> [])"
    by (simp add: prefix_has_key_def f)
qed

text \<open>With fuel for the keys below the prefix, the walk over cursors is the walk over the entries.\<close>

lemma memo_node_lmdb_eq:
  assumes law: "lmdb_law L contents"
  shows "es = live_entries (contents d) \<Longrightarrow> nibble_keys es \<Longrightarrow> keys_fit es \<Longrightarrow> block es rp \<noteq> [] \<Longrightarrow>
      max_key_len es < fuel + length rp \<Longrightarrow>
      memo_node_lmdb fuel kc L d rp ac cache policy = memo_node kc es rp ac cache policy"
    and "es = live_entries (contents d) \<Longrightarrow> nibble_keys es \<Longrightarrow> keys_fit es \<Longrightarrow> length fp \<le> 510 \<Longrightarrow>
      max_key_len es \<le> fuel + length fp \<Longrightarrow>
      lmdb_children (\<lambda>rp cache. memo_node_lmdb fuel kc L d rp True cache policy) L d fp cs cache =
        memo_children kc es fp cs cache policy"
proof (induction kc es rp ac cache policy and kc es fp cs cache policy arbitrary: fuel and fuel
    rule: memo_node_memo_children.induct)
  case (1 kc es rp ac cache policy)
  let ?B = "block es rp" and ?C = "block (contents d) rp"
  have rng: "bt_range es rp (prefix_upper rp) = ?B"
    using range_is_block [OF "1.prems"(2)] by (simp add: prefix_upper_def CHILDREN_def)
  have B: "?B = live_entries ?C" and ne: "?B \<noteq> []" "?C \<noteq> []"
    using "1.prems"(1,4) by (auto simp: live_entries_block)
  have ends: "fst (hd ?B) = fst (hd ?C)" "fst (last ?B) = fst (last ?C)"
    using ne(2) by (simp_all add: B live_entries_def hd_map last_map)
  have first: "fst (hd ?B) \<noteq> []" "length (fst (hd ?B)) \<le> 510" "length (fst (hd ?B)) \<le> max_key_len es"
    "prefix rp (fst (hd ?B))"
    using "1.prems"(3) hd_in_set [OF ne(1)] max_key_len_ge [of "hd ?B" es] by (auto simp: keys_fit_def set_block)
  from prefix_length_le [OF first(4)] first(2,3) have len: "length rp \<le> 511" "length rp \<le> max_key_len es" by linarith+
  with "1.prems"(5) obtain n where fuel: "fuel = Suc n" "max_key_len es \<le> n + length rp"
    by (cases fuel) auto
  note cursor = first_last_with_prefix [OF law len(1), of d, unfolded if_not_P [OF ne(2)], folded ends]
  show ?case
  proof (cases "bt_get cache rp")
    case None
    define last_key where "last_key = (if ac \<or> policy = SkipSingleton then fst (last ?B) else fst (hd ?B))"
    define node_depth where
      "node_depth = length rp + (if ac then common_prefix_len (fst (hd ?B)) last_key (length rp) else 0)"
    let ?fp = "take node_depth (fst (hd ?B))"
    have last: "(if ac \<or> policy = SkipSingleton then Option.bind (last_with_prefix L d rp) id else Some (fst (hd ?B)))
        = Some last_key"
      by (simp add: last_key_def cursor(2) ends)
    have val: "(if ?fp = [] then Some None else expecting (lm_get L d ?fp)) = Some (map_option merkle_value (bt_get es ?fp))"
    proof (cases "?fp = []")
      case True
      have "bt_get es [] = None" using "1.prems"(3) by (auto simp: bt_get_None_iff keys_fit_def)
      then show ?thesis unfolding True by simp
    next
      case False
      have "lmdb_key ?fp" using False first(2) by (auto simp: lmdb_key_def)
      from lmdb_reads(1) [OF law this] False show ?thesis by (simp add: "1.prems"(1) live_entries_get)
    qed
    have kids: "lmdb_children (\<lambda>rp cache. memo_node_lmdb n kc L d rp True cache policy) L d ?fp [0..<CHILDREN] cache
        = memo_children kc es ?fp [0..<CHILDREN] cache policy" if "\<not> length (fst (hd ?B)) < node_depth"
    proof -
      have "length ?fp = node_depth" using that by simp
      then have "length ?fp \<le> 510" "max_key_len es \<le> n + length ?fp"
        using that first(2) fuel(2) by (auto simp: node_depth_def)
      with that show ?thesis
        by (intro "1.IH" [OF None refl rng [symmetric] ne(1) refl refl refl refl refl, where fuel = n,
              folded last_key_def, folded node_depth_def]) (use "1.prems"(1-3) in \<open>simp_all\<close>)
    qed
    let ?walk = "\<lambda>rp cache. memo_node_lmdb n kc L d rp True cache policy"
    show ?thesis
    proof (cases "length (fst (hd ?B)) < node_depth")
      case True
      then show ?thesis
        by (subst memo_node.simps)
          (simp only: fuel(1) memo_node_lmdb.simps None option.case Let_def rng ne(1) if_False cursor(1) Option.bind.simps
            id_apply last last_key_def [symmetric] node_depth_def [symmetric] if_True)
    next
      case False
      show ?thesis
        by (subst memo_node.simps)
          (simp only: fuel(1) memo_node_lmdb.simps None option.case Let_def rng ne(1) if_False cursor(1) Option.bind.simps
            id_apply last last_key_def [symmetric] node_depth_def [symmetric] val kids [OF False] False,
           simp split: option.split)
    qed
  qed (subst memo_node.simps, simp add: fuel)
next
  case (3 kc es fp c cs cache policy)
  let ?rp = "fp @ [of_nat c]" and ?walk = "\<lambda>rp cache. memo_node_lmdb fuel kc L d rp True cache policy"
  have rng: "bt_range es ?rp (prefix_upper ?rp) = block es ?rp"
    using range_is_block [OF "3.prems"(2), of ?rp] by (simp add: prefix_upper_def CHILDREN_def)
  have has: "prefix_has_key L d ?rp = Some (block es ?rp \<noteq> [])"
    using first_last_with_prefix(3) [OF law, of ?rp d] "3.prems"(1,4) by (simp add: live_entries_block)
  have step: "(case bt_get cache ?rp of Some hash \<Rightarrow> Some (hash, cache)
        | None \<Rightarrow> Option.bind (prefix_has_key L d ?rp) (\<lambda>has.
            if has then ?walk ?rp cache else Some (MERKLE_NULL_NODE, cache))) =
      (case bt_get cache ?rp of Some hash \<Rightarrow> Some (hash, cache)
        | None \<Rightarrow> if bt_range es ?rp (prefix_upper ?rp) \<noteq> [] then memo_node kc es ?rp True cache policy
                  else Some (MERKLE_NULL_NODE, cache))"
  proof (cases "bt_get cache ?rp")
    case None
    show ?thesis
    proof (cases "block es ?rp = []")
      case False
      have "?walk ?rp cache = memo_node kc es ?rp True cache policy"
        by (rule "3.IH"(1) [OF refl None _ "3.prems"(1-3) False]) (use False "3.prems"(5) rng in auto)
      with None False show ?thesis by (simp add: has rng)
    qed (simp add: None has rng)
  qed simp
  have rest: "lmdb_children ?walk L d fp cs cache' = memo_children kc es fp cs cache' policy"
    if "(case bt_get cache ?rp of Some hash \<Rightarrow> Some (hash, cache)
        | None \<Rightarrow> if bt_range es ?rp (prefix_upper ?rp) \<noteq> [] then memo_node kc es ?rp True cache policy
                  else Some (MERKLE_NULL_NODE, cache)) = Some (h, cache')" for h cache'
    by (rule "3.IH"(2) [OF refl that refl "3.prems"])
  show ?case
  proof (cases "case bt_get cache ?rp of Some hash \<Rightarrow> Some (hash, cache)
        | None \<Rightarrow> if bt_range es ?rp (prefix_upper ?rp) \<noteq> [] then memo_node kc es ?rp True cache policy
                  else Some (MERKLE_NULL_NODE, cache)")
    case None
    then show ?thesis unfolding lmdb_children.simps memo_children.simps Let_def step by simp
  next
    case (Some r)
    obtain h cache' where r: "r = (h, cache')" by (cases r)
    from Some show ?thesis
      unfolding lmdb_children.simps memo_children.simps Let_def step by (simp add: r rest)
  qed
qed simp

subsection \<open>The operations\<close>

definition key_fits :: "bytes \<Rightarrow> bool" where
  "key_fits k \<longleftrightarrow> k \<noteq> [] \<and> length k \<le> 255"

lemma nibble_key [simp]: "lmdb_key (bytes_to_nibbles k) \<longleftrightarrow> key_fits k"
  using length_bytes_to_nibbles [of k] by (auto simp: lmdb_key_def key_fits_def simp del: length_bytes_to_nibbles)

lemma nibbles_Nil [simp]: "bytes_to_nibbles k = [] \<longleftrightarrow> k = []"
  by (cases k) simp_all

text \<open>The in-memory trie with the entries, the cache and the dirty keys of a snapshot.\<close>

definition as_trie :: "('d \<Rightarrow> (nibbles, bytes) btree) \<Rightarrow> 'd lmdb_snapshot \<Rightarrow> incremental_trie" where
  "as_trie contents s =
     \<lparr>it_entries = live_entries (contents (ls_db s)), it_cache = ls_cache s, it_dirty = ls_dirty s\<rparr>"

definition lmdb_inv :: "(bytes \<Rightarrow> h256) \<Rightarrow> ('d \<Rightarrow> (nibbles, bytes) btree) \<Rightarrow> 'd lmdb_snapshot \<Rightarrow> bool" where
  "lmdb_inv kc contents s \<longleftrightarrow>
     it_inv kc (as_trie contents s) \<and> keys_fit (contents (ls_db s)) \<and> ls_len s = length (contents (ls_db s))"

definition lmdb_map :: "('d \<Rightarrow> (nibbles, bytes) btree) \<Rightarrow> 'd lmdb_snapshot \<Rightarrow> (bytes, bytes) btree" where
  "lmdb_map contents s = byte_entries (contents (ls_db s))"

lemma as_trie_simps [simp]:
  "it_entries (as_trie contents s) = live_entries (contents (ls_db s))"
  "it_cache (as_trie contents s) = ls_cache s" "it_dirty (as_trie contents s) = ls_dirty s"
  by (simp_all add: as_trie_def)

lemma byte_aligned_live [simp]: "byte_aligned (live_entries es) \<longleftrightarrow> byte_aligned es"
  by (auto simp: byte_aligned_def live_entries_def)

lemma lmdb_inv_entries:
  assumes "lmdb_inv kc contents s"
  shows "bt_wf (contents (ls_db s))" "byte_aligned (contents (ls_db s))" "bt_wf (lmdb_map contents s)"
    "contents (ls_db s) = nibble_entries (lmdb_map contents s)" "ls_len s = length (lmdb_map contents s)"
    "keys_fit (contents (ls_db s))"
proof -
  show e: "bt_wf (contents (ls_db s))" "byte_aligned (contents (ls_db s))" "keys_fit (contents (ls_db s))"
    using assms by (auto simp: lmdb_inv_def it_inv_def)
  then show "bt_wf (lmdb_map contents s)" "contents (ls_db s) = nibble_entries (lmdb_map contents s)"
    by (simp_all add: lmdb_map_def byte_entries_wf)
  show "ls_len s = length (lmdb_map contents s)"
    using assms by (simp add: lmdb_inv_def lmdb_map_def byte_entries_def)
qed

lemma length_after_insert: "length (bt_insert k v m) = (if bt_get m k = None then Suc (length m) else length m)"
  if "bt_wf m"
proof -
  have "set (map fst (bt_insert k v m)) = insert k (set (map fst m))"
    using keys_bt_insert [of k v m] by (simp only: set_map)
  moreover have "card (set (map fst m')) = length m'" if "bt_wf m'" for m' :: "('a, 'b) btree"
    using distinct_card [OF bt_wf_distinct [OF that]] by simp
  ultimately have "length (bt_insert k v m) = card (insert k (set (map fst m)))" "length m = card (set (map fst m))"
    using that by (metis bt_wf_insert)+
  then show ?thesis by (auto simp: bt_get_None_iff card_insert_if image_iff)
qed

lemma length_after_remove: "length (bt_remove k m) = (if bt_get m k = None then length m else length m - 1)"
proof (induction m)
  case (Cons kv m)
  then show ?case by (cases kv; cases m) auto
qed simp

lemma lmdb_invI:
  "as_trie contents s = t \<Longrightarrow> it_inv kc t \<Longrightarrow> keys_fit (contents (ls_db s)) \<Longrightarrow>
   ls_len s = length (contents (ls_db s)) \<Longrightarrow> lmdb_inv kc contents s"
  by (simp add: lmdb_inv_def)

lemma lmdb_inv_trie: "lmdb_inv kc contents s \<Longrightarrow> it_inv kc (as_trie contents s)"
  by (simp add: lmdb_inv_def)

text \<open>A transaction keeps the invariant of the snapshot it will leave.\<close>

lemma txn_put_inv:
  assumes "lmdb_law L contents" "lmdb_inv kc contents (s\<lparr>ls_db := w, ls_len := len, ls_dirty := dirty\<rparr>)" "key_fits k"
  obtains w' len' where "txn_put L (bytes_to_nibbles k) v (w, len) = Some (w', len')"
    "lmdb_inv kc contents (s\<lparr>ls_db := w', ls_len := len', ls_dirty := bt_insert (bytes_to_nibbles k) () dirty\<rparr>)"
    "byte_entries (contents w') = bt_insert k v (byte_entries (contents w))"
proof -
  let ?k = "bytes_to_nibbles k" and ?s = "s\<lparr>ls_db := w, ls_len := len, ls_dirty := dirty\<rparr>"
  have k: "lmdb_key ?k" using assms(3) by simp
  obtain w' where w': "lm_put L ?k v w = Inr w'" "contents w' = bt_insert ?k v (contents w)"
    by (rule lmdb_puts [OF assms(1) k])
  define len' where "len' = (if bt_get (contents w) ?k = None then len + 1 else len)"
  let ?s' = "s\<lparr>ls_db := w', ls_len := len', ls_dirty := bt_insert ?k () dirty\<rparr>"
  have put: "txn_put L ?k v (w, len) = Some (w', len')"
    by (simp add: txn_put_def lmdb_reads(1) [OF assms(1) k] w'(1) len'_def)
  have wf: "bt_wf (contents w)" "byte_aligned (contents w)" "keys_fit (contents w)" "len = length (contents w)"
    using lmdb_inv_entries(1,2,6) [OF assms(2)] assms(2) by (simp_all add: lmdb_inv_def)
  have "as_trie contents ?s' = it_insert k (MptSome v) (as_trie contents ?s)"
    by (simp add: as_trie_def it_insert_def Let_def w'(2) live_entries_update)
  moreover have "keys_fit (contents w')"
    using wf(3) assms(3) nibbles_Nil [of k] by (simp add: w'(2) keys_fit_def key_fits_def keys_bt_insert)
  moreover have "len' = length (contents w')" using wf by (simp add: w'(2) len'_def length_after_insert)
  ultimately have inv: "lmdb_inv kc contents ?s'"
    by (intro lmdb_invI [OF _ it_inv_insert [OF lmdb_inv_trie [OF assms(2)]]]) simp_all
  have "byte_entries (contents w') = bt_insert k v (byte_entries (contents w))"
  proof -
    have "nibble_entries (bt_insert k v (byte_entries (contents w))) = contents w'"
      using wf(2) by (simp add: w'(2) nibble_entries_insert)
    then show ?thesis by (metis byte_entries_nibble_entries)
  qed
  with put inv show ?thesis by (rule that)
qed

lemma txn_delete_inv:
  assumes "lmdb_law L contents" "lmdb_inv kc contents (s\<lparr>ls_db := w, ls_len := len, ls_dirty := dirty\<rparr>)" "key_fits k"
  obtains w' len' where "txn_delete L (bytes_to_nibbles k) (w, len) = Some (w', len')"
    "lmdb_inv kc contents (s\<lparr>ls_db := w', ls_len := len', ls_dirty := bt_insert (bytes_to_nibbles k) () dirty\<rparr>)"
    "byte_entries (contents w') = bt_remove k (byte_entries (contents w))"
proof -
  let ?k = "bytes_to_nibbles k" and ?s = "s\<lparr>ls_db := w, ls_len := len, ls_dirty := dirty\<rparr>"
  have k: "lmdb_key ?k" using assms(3) by simp
  obtain w' where w': "lm_delete L ?k w = Inr (bt_get (contents w) ?k \<noteq> None, w')"
    "contents w' = bt_remove ?k (contents w)"
    by (rule lmdb_deletes [OF assms(1) k])
  define len' where "len' = (if bt_get (contents w) ?k \<noteq> None then len - 1 else len)"
  let ?s' = "s\<lparr>ls_db := w', ls_len := len', ls_dirty := bt_insert ?k () dirty\<rparr>"
  have del: "txn_delete L ?k (w, len) = Some (w', len')"
    by (simp add: txn_delete_def w'(1) len'_def)
  have wf: "byte_aligned (contents w)" "keys_fit (contents w)" "len = length (contents w)"
    using lmdb_inv_entries(2,6) [OF assms(2)] assms(2) by (simp_all add: lmdb_inv_def)
  have "as_trie contents ?s' = it_remove k (as_trie contents ?s)"
    by (simp add: as_trie_def it_remove_def Let_def w'(2) live_entries_update)
  moreover have "keys_fit (contents w')"
    using wf(2) set_bt_remove_subset [of ?k "contents w"] by (auto simp: w'(2) keys_fit_def)
  moreover have "len' = length (contents w')" using wf(3) by (simp add: w'(2) len'_def length_after_remove)
  ultimately have inv: "lmdb_inv kc contents ?s'"
    by (intro lmdb_invI [OF _ it_inv_remove [OF lmdb_inv_trie [OF assms(2)]]]) simp_all
  have "nibble_entries (bt_remove k (byte_entries (contents w))) = contents w'"
    using wf(1) by (simp add: w'(2) nibble_entries_remove)
  then have "byte_entries (contents w') = bt_remove k (byte_entries (contents w))"
    by (metis byte_entries_nibble_entries)
  with del inv show ?thesis by (rule that)
qed

definition updates_fit :: "(bytes \<times> 'v) list \<Rightarrow> bool" where
  "updates_fit us \<longleftrightarrow> (\<forall>u \<in> set us. key_fits (fst u))"

lemma apply_in_txn_inv:
  assumes "lmdb_law L contents"
  shows "lmdb_inv kc contents (s\<lparr>ls_db := w, ls_len := len, ls_dirty := dirty\<rparr>) \<Longrightarrow> updates_fit us \<Longrightarrow>
    \<exists>w' len' dirty'. apply_in_txn L us ((w, len), dirty) = Some ((w', len'), dirty') \<and>
      lmdb_inv kc contents (s\<lparr>ls_db := w', ls_len := len', ls_dirty := dirty'\<rparr>) \<and>
      byte_entries (contents w') = map_updates us (byte_entries (contents w))"
proof (induction us arbitrary: w len dirty)
  case (Cons u us)
  obtain k mv where u: "u = (k, mv)" by (cases u)
  have k: "key_fits k" and us: "updates_fit us" using Cons.prems(2) by (auto simp: u updates_fit_def)
  obtain w' len' where step:
    "(case mv of MptSome v \<Rightarrow> txn_put L (bytes_to_nibbles k) v (w, len) | Tombstone \<Rightarrow> txn_delete L (bytes_to_nibbles k) (w, len))
       = Some (w', len')"
    "lmdb_inv kc contents (s\<lparr>ls_db := w', ls_len := len', ls_dirty := bt_insert (bytes_to_nibbles k) () dirty\<rparr>)"
    "byte_entries (contents w') = map_updates [u] (byte_entries (contents w))"
  proof (cases mv)
    case (MptSome v)
    obtain w' len' where "txn_put L (bytes_to_nibbles k) v (w, len) = Some (w', len')"
      "lmdb_inv kc contents (s\<lparr>ls_db := w', ls_len := len', ls_dirty := bt_insert (bytes_to_nibbles k) () dirty\<rparr>)"
      "byte_entries (contents w') = bt_insert k v (byte_entries (contents w))"
      by (rule txn_put_inv [OF assms Cons.prems(1) k])
    then show ?thesis by (intro that) (simp_all add: MptSome u map_updates_def)
  next
    case Tombstone
    obtain w' len' where "txn_delete L (bytes_to_nibbles k) (w, len) = Some (w', len')"
      "lmdb_inv kc contents (s\<lparr>ls_db := w', ls_len := len', ls_dirty := bt_insert (bytes_to_nibbles k) () dirty\<rparr>)"
      "byte_entries (contents w') = bt_remove k (byte_entries (contents w))"
      by (rule txn_delete_inv [OF assms Cons.prems(1) k])
    then show ?thesis by (intro that) (simp_all add: Tombstone u map_updates_def)
  qed
  from Cons.IH [OF step(2) us] step show ?case by (auto simp: u map_updates_def)
qed (simp add: map_updates_def)

text \<open>Only what a view holds matters, so a commit changes nothing.\<close>

lemma lmdb_inv_view:
  assumes "lmdb_inv kc contents (s\<lparr>ls_db := w, ls_len := len, ls_dirty := dirty\<rparr>)" "contents w' = contents w"
  shows "lmdb_inv kc contents (s\<lparr>ls_db := w', ls_len := len, ls_dirty := dirty\<rparr>)"
  using assms by (simp add: lmdb_inv_def as_trie_def)

lemma lmdb_inv_begin:
  "lmdb_inv kc contents s \<Longrightarrow> contents w = contents (ls_db s) \<Longrightarrow>
   lmdb_inv kc contents (s\<lparr>ls_db := w, ls_len := ls_len s, ls_dirty := ls_dirty s\<rparr>)"
  by (simp add: lmdb_inv_def as_trie_def)

lemma lmdb_apply_updates_inv:
  assumes law: "lmdb_law L contents" and inv: "lmdb_inv kc contents s" and us: "updates_fit us"
  shows "\<exists>s'. lmdb_apply_updates L us s = Some s' \<and> lmdb_inv kc contents s' \<and>
    lmdb_map contents s' = map_updates us (lmdb_map contents s)"
proof -
  obtain w where w: "lm_write_txn L (ls_db s) = Inr w" "contents w = contents (ls_db s)" by (rule lmdb_txns [OF law])
  from apply_in_txn_inv [OF law lmdb_inv_begin [OF inv w(2)] us] obtain w' len' dirty' where
    step: "apply_in_txn L us ((w, ls_len s), ls_dirty s) = Some ((w', len'), dirty')"
    "lmdb_inv kc contents (s\<lparr>ls_db := w', ls_len := len', ls_dirty := dirty'\<rparr>)"
    "byte_entries (contents w') = map_updates us (byte_entries (contents w))" by blast
  obtain db where db: "lm_commit L w' = Inr db" "contents db = contents w'" by (rule lmdb_commits [OF law])
  show ?thesis
    using lmdb_inv_view [OF step(2) db(2)] step(3)
    by (simp add: lmdb_apply_updates_def w(1) step(1) db lmdb_map_def w(2))
qed

text \<open>A single write is a batch of one update.\<close>

lemma lmdb_write_is_update:
  "lmdb_insert L k mv s = lmdb_apply_updates L [(k, mv)] s"
  "lmdb_remove L k s = lmdb_apply_updates L [(k, Tombstone)] s"
  by (simp_all add: lmdb_insert_def lmdb_remove_def lmdb_apply_updates_def Let_def case_prod_unfold
      split: mpt_value.split)

subsection \<open>Loading and the root\<close>

text \<open>
  The cold rebuild that a snapshot of live values is loaded with returns the stateless
  root, and every hash it puts into the cache is the hash of the subtree at its prefix,
  under both cache policies and at every parallel depth the recursion reaches.
\<close>

lemma rebuild_root_and_cache:
  assumes "bt_wf m"
  shows "\<exists>cache. rebuild_snapshot_root_cache kc m policy
           = Some (the (trie_root kc (live_values m)), cache)
         \<and> coherent kc (nibble_entries (live_values m)) cache"
proof (cases "m = []")
  case True
  then show ?thesis
    by (simp add: rebuild_snapshot_root_cache_def live_values_def trie_root_correct nibble_entries_def subtree_hash_empty)
next
  case False
  let ?es = "nibble_entries (live_values m)"
  have refs: "map (apsnd ref_value) (map (\<lambda>e. (bytes_to_nibbles (fst e), LiveRef (snd e))) m)
      = block ?es []"
    by (simp add: nibble_entries_def live_values_def)
  have wf: "bt_wf ?es" using assms by simp
  have ne: "block ?es [] \<noteq> []" using False by (simp add: nibble_entries_def live_values_def)
  from rebuild_walk [OF wf nibble_entries_keys ne _ refs, of False kc policy PARALLEL_REBUILD_DEPTH]
  obtain ces where c: "memo_node_rebuild kc (map (\<lambda>e. (bytes_to_nibbles (fst e), LiveRef (snd e))) m)
      [] False policy PARALLEL_REBUILD_DEPTH = Some (code_subtree kc ?es [], ces)"
    "\<forall>ph \<in> set ces. snd ph = code_subtree kc ?es (fst ph)" by auto
  have "coherent kc ?es (bt_collect ces)"
    unfolding bt_collect_def by (rule coherent_extend [OF coherent_Nil c(2)])
  then show ?thesis
    using False c(1) assms by (simp add: rebuild_snapshot_root_cache_def trie_root_correct)
qed

lemma load_entries_contents:
  assumes "lmdb_law L contents"
  shows "updates_fit m \<Longrightarrow> \<exists>w'. load_entries L m w = Some w' \<and> contents w' = bt_extend (contents w) (nibble_entries m)"
proof (induction m arbitrary: w)
  case (Cons e m)
  obtain k v where e: "e = (k, v)" by (cases e)
  have k: "lmdb_key (bytes_to_nibbles k)" and m: "updates_fit m" using Cons.prems by (auto simp: e updates_fit_def)
  obtain w' where w': "lm_put L (bytes_to_nibbles k) v w = Inr w'" "contents w' = bt_insert (bytes_to_nibbles k) v (contents w)"
    by (rule lmdb_puts [OF assms k])
  from Cons.IH [OF m, of w'] w' show ?case by (auto simp: e bt_extend_def nibble_entries_def)
qed (simp add: bt_extend_def nibble_entries_def)

lemma lmdb_from_snapshot_inv:
  assumes law: "lmdb_law L contents" and wf: "bt_wf m" and fit: "updates_fit m"
  shows "\<exists>s. lmdb_from_snapshot kc L m = Some s \<and> lmdb_inv kc contents s \<and> lmdb_map contents s = m"
proof -
  obtain env w d where o: "lm_open L = Inr env" "lm_write_txn L env = Inr w" "lm_create_database L w = Inr d"
    "contents d = []"
    using law unfolding lmdb_law_def by blast
  from load_entries_contents [OF law fit, of d] obtain w' where
    w': "load_entries L m d = Some w'" "contents w' = bt_collect (nibble_entries m)"
    by (auto simp: o(4) bt_collect_def)
  obtain db where db: "lm_commit L w' = Inr db" "contents db = contents w'" by (rule lmdb_commits [OF law])
  from rebuild_root_and_cache [OF wf, of kc SkipSingleton] obtain cache where
    c: "rebuild_snapshot_root_cache kc m SkipSingleton = Some (the (trie_root kc (live_values m)), cache)"
    "coherent kc (nibble_entries (live_values m)) cache" by blast
  let ?s = "\<lparr>ls_db = db, ls_cache = cache, ls_dirty = [], ls_len = length m\<rparr>"
  have contents: "contents db = nibble_entries m" using wf by (simp add: db(2) w'(2) bt_collect_sorted)
  have live: "live_entries (nibble_entries m) = nibble_entries (live_values m)"
    by (simp add: live_entries_def nibble_entries_def live_values_def)
  have "it_inv kc (as_trie contents ?s)"
    using wf c(2) by (simp add: it_inv_def contents live coherent_def)
  moreover have "keys_fit (nibble_entries m)"
    using fit by (auto simp: keys_fit_def nibble_entries_def updates_fit_def key_fits_def)
  ultimately have "lmdb_inv kc contents ?s" by (simp add: lmdb_inv_def contents) (simp add: nibble_entries_def)
  then show ?thesis by (simp add: lmdb_from_snapshot_def o(1-3) w'(1) db(1) c(1) lmdb_map_def contents)
qed

lemma lmdb_root_inv:
  assumes law: "lmdb_law L contents" and inv: "lmdb_inv kc contents s"
  shows "\<exists>s'. lmdb_root_with_policy kc L policy s = Some (the (trie_root kc (live_values (lmdb_map contents s))), s') \<and>
    lmdb_inv kc contents s' \<and> lmdb_map contents s' = lmdb_map contents s"
proof -
  let ?m = "lmdb_map contents s" and ?es = "live_entries (contents (ls_db s))"
  note entries = lmdb_inv_entries [OF inv]
  have es: "?es = nibble_entries (live_values ?m)"
    unfolding entries(4) by (simp add: live_entries_def nibble_entries_def live_values_def lmdb_map_def byte_entries_def)
  have root: "the (trie_root kc (live_values ?m)) = code_subtree kc ?es []"
    using trie_root_correct [of "live_values ?m" kc] entries(3) by (simp add: es)
  have keep: "lmdb_inv kc contents (s\<lparr>ls_cache := cache, ls_dirty := []\<rparr>)" if "coherent kc ?es cache" for cache
    using inv that by (simp add: lmdb_inv_def it_inv_def coherent_def)
  show ?thesis
  proof (cases "ls_len s = 0")
    case True
    then have "?es = []" using entries(5) by (simp add: entries(4)) (simp add: nibble_entries_def)
    with True have "lmdb_root_with_policy kc L policy s =
        Some (the (trie_root kc (live_values ?m)), s\<lparr>ls_cache := [], ls_dirty := []\<rparr>)"
      unfolding root by (simp add: lmdb_root_with_policy_def subtree_hash_empty)
    with keep [of "[]"] show ?thesis by (auto simp: lmdb_map_def)
  next
    case False
    obtain rtxn where r: "lm_read_txn L (ls_db s) = Inr rtxn" "contents rtxn = contents (ls_db s)"
      by (rule lmdb_views [OF law])
    have es': "?es = live_entries (contents rtxn)" by (simp add: r(2))
    have ne: "block ?es [] \<noteq> []" using False entries(5) by (simp add: lmdb_map_def byte_entries_def)
    have nk: "nibble_keys ?es" and fit: "keys_fit ?es"
      using entries(2,6) by (simp_all add: byte_aligned_nibble_keys keys_fit_def)
    have coh: "coherent kc ?es (evict (ls_dirty s) (ls_cache s))"
      using it_inv_evicted [OF lmdb_inv_trie [OF inv]] by simp
    have wf: "bt_wf ?es" using entries(1) by simp
    have fuel: "walk_fuel L rtxn = Suc (max_key_len ?es)"
      by (simp add: walk_fuel_def lmdb_reads(2) [OF law] comp_def r(2))
    from memo_walk(1) [OF wf nk coh ne, of False policy] obtain cache' where
      c: "memo_node kc ?es [] False (evict (ls_dirty s) (ls_cache s)) policy = Some (code_subtree kc ?es [], cache')"
      "coherent kc ?es cache'" by auto
    have "memo_node_lmdb (walk_fuel L rtxn) kc L rtxn [] False (evict (ls_dirty s) (ls_cache s)) policy
        = Some (code_subtree kc ?es [], cache')"
      using memo_node_lmdb_eq(1) [OF law es' nk fit ne, of "walk_fuel L rtxn" kc False] c(1) by (simp add: fuel)
    then have "lmdb_root_with_policy kc L policy s = Some (code_subtree kc ?es [], s\<lparr>ls_cache := cache', ls_dirty := []\<rparr>)"
      using False r(1) by (simp add: lmdb_root_with_policy_def Let_def)
    with keep [OF c(2)] show ?thesis unfolding root by (auto simp: lmdb_map_def)
  qed
qed

subsection \<open>Reads\<close>

lemma cursor_pairs_eq: "cursor_pairs (map Inr es) = Some (byte_entries es)"
  by (simp add: cursor_pairs_def comp_def byte_entries_def case_prod_beta)

lemma byte_entries_block:
  "byte_aligned es \<Longrightarrow> byte_entries (block es (bytes_to_nibbles p)) = filter (\<lambda>kv. prefix p (fst kv)) (byte_entries es)"
  unfolding block_def byte_entries_def filter_map comp_def
  by (rule arg_cong [where f = "map _"], rule filter_cong) (auto simp: byte_aligned_def)

lemma lmdb_reads_map:
  assumes law: "lmdb_law L contents" and inv: "lmdb_inv kc contents s"
  shows "key_fits k \<Longrightarrow> lmdb_get_owned L s k = Some (bt_get (lmdb_map contents s) k)"
    "length p \<le> 255 \<Longrightarrow> lmdb_scan_prefix L s p = Some (filter (\<lambda>kv. prefix p (fst kv)) (lmdb_map contents s))"
    "lmdb_to_canonical_map L s = Some (lmdb_map contents s)" "lmdb_len s = length (lmdb_map contents s)"
proof -
  note entries = lmdb_inv_entries [OF inv]
  obtain r where r: "lm_read_txn L (ls_db s) = Inr r" "contents r = contents (ls_db s)" by (rule lmdb_views [OF law])
  show "lmdb_get_owned L s k = Some (bt_get (lmdb_map contents s) k)" if "key_fits k"
  proof -
    from that have "lmdb_key (bytes_to_nibbles k)" by simp
    from lmdb_reads(1) [OF law this] entries(2) show ?thesis
      by (simp add: lmdb_get_owned_def r lmdb_map_def bt_get_byte_entries)
  qed
  show "lmdb_scan_prefix L s p = Some (filter (\<lambda>kv. prefix p (fst kv)) (lmdb_map contents s))" if "length p \<le> 255"
  proof (cases "p = []")
    case False
    with that have "lmdb_key (bytes_to_nibbles p)" by (simp add: key_fits_def)
    from lmdb_reads(4) [OF law this] False entries(2) show ?thesis
      by (simp add: lmdb_scan_prefix_def Let_def r cursor_pairs_eq lmdb_map_def byte_entries_block)
  qed (simp add: lmdb_scan_prefix_def r lmdb_reads(2) [OF law] cursor_pairs_eq lmdb_map_def)
  show "lmdb_to_canonical_map L s = Some (lmdb_map contents s)"
    using entries(3) by (simp add: lmdb_to_canonical_map_def r lmdb_reads(2) [OF law] cursor_pairs_eq lmdb_map_def bt_collect_sorted)
  show "lmdb_len s = length (lmdb_map contents s)" by (simp add: lmdb_len_def entries(5))
qed

subsection \<open>Runs of operations on either backend\<close>

datatype snapshot_op = SUpdates "(bytes \<times> mpt_value) list" | SInsert bytes bytes | SRemove bytes
  | SRoot cache_policy | SGet bytes | SScan bytes | SMap | SLen

datatype snapshot_answer = ARoot h256 | AValue "bytes option" | APairs "(bytes \<times> bytes) list" | ALen nat

fun run_memory :: "(bytes \<Rightarrow> h256) \<Rightarrow> snapshot_op list \<Rightarrow> snapshot_trie \<Rightarrow> snapshot_answer list option" where
  "run_memory kc [] s = Some []"
| "run_memory kc (SUpdates us # ops) s = run_memory kc ops (st_apply_updates us s)"
| "run_memory kc (SInsert k v # ops) s = run_memory kc ops (st_insert k (MptSome v) s)"
| "run_memory kc (SRemove k # ops) s = run_memory kc ops (st_remove k s)"
| "run_memory kc (SRoot policy # ops) s =
     Option.bind (st_root_with_policy kc policy s) (\<lambda>(h, s'). map_option ((#) (ARoot h)) (run_memory kc ops s'))"
| "run_memory kc (SGet k # ops) s = map_option ((#) (AValue (snapshot_get_owned s k))) (run_memory kc ops s)"
| "run_memory kc (SScan p # ops) s = map_option ((#) (APairs (st_scan_prefix s p))) (run_memory kc ops s)"
| "run_memory kc (SMap # ops) s = map_option ((#) (APairs (st_to_canonical_map s))) (run_memory kc ops s)"
| "run_memory kc (SLen # ops) s = map_option ((#) (ALen (st_len s))) (run_memory kc ops s)"

fun run_lmdb :: "(bytes \<Rightarrow> h256) \<Rightarrow> 'd lmdb_lib \<Rightarrow> snapshot_op list \<Rightarrow> 'd lmdb_snapshot \<Rightarrow> snapshot_answer list option" where
  "run_lmdb kc L [] s = Some []"
| "run_lmdb kc L (SUpdates us # ops) s = Option.bind (lmdb_apply_updates L us s) (run_lmdb kc L ops)"
| "run_lmdb kc L (SInsert k v # ops) s = Option.bind (lmdb_insert L k (MptSome v) s) (run_lmdb kc L ops)"
| "run_lmdb kc L (SRemove k # ops) s = Option.bind (lmdb_remove L k s) (run_lmdb kc L ops)"
| "run_lmdb kc L (SRoot policy # ops) s =
     Option.bind (lmdb_root_with_policy kc L policy s) (\<lambda>(h, s'). map_option ((#) (ARoot h)) (run_lmdb kc L ops s'))"
| "run_lmdb kc L (SGet k # ops) s =
     Option.bind (lmdb_get_owned L s k) (\<lambda>v. map_option ((#) (AValue v)) (run_lmdb kc L ops s))"
| "run_lmdb kc L (SScan p # ops) s =
     Option.bind (lmdb_scan_prefix L s p) (\<lambda>kvs. map_option ((#) (APairs kvs)) (run_lmdb kc L ops s))"
| "run_lmdb kc L (SMap # ops) s =
     Option.bind (lmdb_to_canonical_map L s) (\<lambda>kvs. map_option ((#) (APairs kvs)) (run_lmdb kc L ops s))"
| "run_lmdb kc L (SLen # ops) s = map_option ((#) (ALen (lmdb_len s))) (run_lmdb kc L ops s)"

text \<open>The answers as a function of the map.\<close>

fun snapshot_answers :: "(bytes \<Rightarrow> h256) \<Rightarrow> snapshot_op list \<Rightarrow> (bytes, bytes) btree \<Rightarrow> snapshot_answer list" where
  "snapshot_answers kc [] m = []"
| "snapshot_answers kc (SUpdates us # ops) m = snapshot_answers kc ops (map_updates us m)"
| "snapshot_answers kc (SInsert k v # ops) m = snapshot_answers kc ops (bt_insert k v m)"
| "snapshot_answers kc (SRemove k # ops) m = snapshot_answers kc ops (bt_remove k m)"
| "snapshot_answers kc (SRoot policy # ops) m =
     ARoot (the (trie_root kc (live_values m))) # snapshot_answers kc ops m"
| "snapshot_answers kc (SGet k # ops) m = AValue (bt_get m k) # snapshot_answers kc ops m"
| "snapshot_answers kc (SScan p # ops) m = APairs (filter (\<lambda>kv. prefix p (fst kv)) m) # snapshot_answers kc ops m"
| "snapshot_answers kc (SMap # ops) m = APairs m # snapshot_answers kc ops m"
| "snapshot_answers kc (SLen # ops) m = ALen (length m) # snapshot_answers kc ops m"

text \<open>The operations whose keys LMDB takes.\<close>

fun op_fits :: "snapshot_op \<Rightarrow> bool" where
  "op_fits (SUpdates us) \<longleftrightarrow> updates_fit us"
| "op_fits (SInsert k v) \<longleftrightarrow> key_fits k"
| "op_fits (SRemove k) \<longleftrightarrow> key_fits k"
| "op_fits (SGet k) \<longleftrightarrow> key_fits k"
| "op_fits (SScan p) \<longleftrightarrow> length p \<le> 255"
| "op_fits _ \<longleftrightarrow> True"

lemma st_len_map: "st_inv kc s \<Longrightarrow> st_len s = length (st_to_canonical_map s)"
  using arg_cong [OF live_values_map, of kc s length]
  by (simp add: st_len_def it_len_def it_contents_def byte_entries_def live_values_def)

lemma run_memory_answers: "st_inv kc s \<Longrightarrow> run_memory kc ops s = Some (snapshot_answers kc ops (st_to_canonical_map s))"
proof (induction ops arbitrary: s)
  case (Cons op ops)
  show ?case
  proof (cases op)
    case (SRoot policy)
    obtain s' where "st_root_with_policy kc policy s = Some (the (trie_root kc (live_values (st_to_canonical_map s))), s')"
      "st_inv kc s'" "st_to_canonical_map s' = st_to_canonical_map s"
      using st_root_law [OF Cons.prems] by blast
    with Cons.IH [of s'] SRoot show ?thesis by simp
  qed (use Cons st_updates_map [OF Cons.prems] in
      \<open>simp_all add: snap.map_update snap.map_delete st_inv_insert st_inv_remove st_len_map st_lookup_map st_scan_map\<close>)
qed simp

lemma run_lmdb_answers:
  assumes law: "lmdb_law L contents"
  shows "lmdb_inv kc contents s \<Longrightarrow> list_all op_fits ops \<Longrightarrow>
    run_lmdb kc L ops s = Some (snapshot_answers kc ops (lmdb_map contents s))"
proof (induction ops arbitrary: s)
  case (Cons op ops)
  have update: "Option.bind (lmdb_apply_updates L us s) (run_lmdb kc L ops)
      = Some (snapshot_answers kc ops (map_updates us (lmdb_map contents s)))" if "updates_fit us" for us
  proof -
    from lmdb_apply_updates_inv [OF law Cons.prems(1) that] obtain s' where
      "lmdb_apply_updates L us s = Some s'" "lmdb_inv kc contents s'"
      "lmdb_map contents s' = map_updates us (lmdb_map contents s)" by blast
    with Cons show ?thesis by simp
  qed
  show ?case
  proof (cases op)
    case (SInsert k v)
    with update [of "[(k, MptSome v)]"] Cons.prems(2) show ?thesis
      by (simp add: lmdb_write_is_update updates_fit_def map_updates_def)
  next
    case (SRemove k)
    with update [of "[(k, Tombstone)]"] Cons.prems(2) show ?thesis
      by (simp add: lmdb_write_is_update updates_fit_def map_updates_def)
  next
    case (SRoot policy)
    from lmdb_root_inv [OF law Cons.prems(1)] obtain s' where
      "lmdb_root_with_policy kc L policy s = Some (the (trie_root kc (live_values (lmdb_map contents s))), s')"
      "lmdb_inv kc contents s'" "lmdb_map contents s' = lmdb_map contents s" by blast
    with Cons SRoot show ?thesis by simp
  qed (use Cons update lmdb_reads_map [OF law Cons.prems(1)] in simp_all)
qed simp

end
