(* ===== verification/Lmdb_Theorems.thy ===== *)
theory Lmdb_Theorems
  imports Lmdb_Correct
begin

text \<open>
  The properties of the LMDB backend of \<open>crates/minimal-mpt/src/snapshot.rs\<close>, with a database
  that is an ordered list as their instance.
\<close>

subsection \<open>A database\<close>

definition ex_lmdb :: "(nibbles, bytes) btree lmdb_lib" where
  "ex_lmdb = \<lparr>lm_open = Inr [], lm_write_txn = Inr, lm_create_database = Inr, lm_commit = Inr, lm_read_txn = Inr,
     lm_get = (\<lambda>d k. if lmdb_key k then Inr (bt_get d k) else Inl ''MDB_BAD_VALSIZE''),
     lm_put = (\<lambda>k v d. if lmdb_key k then Inr (bt_insert k v d) else Inl ''MDB_BAD_VALSIZE''),
     lm_delete = (\<lambda>k d. if lmdb_key k then Inr (bt_get d k \<noteq> None, bt_remove k d) else Inl ''MDB_BAD_VALSIZE''),
     lm_iter = (\<lambda>d. Inr (map Inr d)), lm_prefix_iter = (\<lambda>d p. Inr (map Inr (block d p))),
     lm_rev_iter = (\<lambda>d. Inr (map Inr (rev d))), lm_rev_prefix_iter = (\<lambda>d p. Inr (map Inr (rev (block d p))))\<rparr>"

lemma ex_lmdb_law: "lmdb_law ex_lmdb (\<lambda>d. d)"
  by (simp add: lmdb_law_def ex_lmdb_def)

definition plain_hash :: "bytes \<Rightarrow> h256" where
  "plain_hash bs = H256 (take 32 (bs @ replicate 32 1))"

subsection \<open>The properties\<close>

text \<open>
  C33: the two backends of the snapshot cannot be told apart. Loaded with the same map, any run of
  batches of updates, single writes, roots under either cache policy, reads, prefix scans,
  flattenings and counts gives the same answers on the LMDB backend as on the in-memory one, and
  neither panics, as long as the keys have 1 to 255 bytes.
\<close>

theorem lmdb_backend_agrees:
  assumes "lmdb_law L contents" "bt_wf m" "updates_fit m" "list_all op_fits ops"
  shows "Option.bind (lmdb_from_snapshot kc L m) (run_lmdb kc L ops) = run_memory kc ops (st_from_snapshot m) \<and>
    run_memory kc ops (st_from_snapshot m) \<noteq> None"
proof -
  from lmdb_from_snapshot_inv [OF assms(1-3)] obtain s where
    "lmdb_from_snapshot kc L m = Some s" "lmdb_inv kc contents s" "lmdb_map contents s = m" by blast
  then show ?thesis
    using run_lmdb_answers [OF assms(1) _ assms(4)] run_memory_answers [of kc "st_from_snapshot m" ops]
      snap.load_law [OF assms(2)] by simp
qed

theorem lmdb_backend_agrees_witness:
  "Option.bind (lmdb_from_snapshot plain_hash ex_lmdb [([1], [5]), ([1, 2], [6])])
     (run_lmdb plain_hash ex_lmdb [SUpdates [([1], Tombstone), ([3], MptSome [7])], SScan [], SLen])
   = Some [APairs [([1, 2], [6]), ([3], [7])], ALen 2]"
proof -
  have "bt_wf [([1], [5]), ([1, 2] :: bytes, [6] :: bytes)]" by (simp add: bt_wf_def)
  note run = run_memory_answers [OF st_inv_load [OF this], of plain_hash, unfolded st_map_load [OF this]]
    and agrees = lmdb_backend_agrees [OF ex_lmdb_law this, of "[SUpdates [([1], Tombstone), ([3], MptSome [7])], SScan [], SLen]" plain_hash]
  from agrees show ?thesis unfolding run by (simp add: updates_fit_def key_fits_def map_updates_def)
qed

text \<open>
  C34: LMDB takes keys of 1 to 511 bytes, and the backend writes one byte for every nibble. So every
  write of an empty key or of a key of more than 255 bytes panics, alone, in a batch or in the map
  that is loaded, where the in-memory backend stores it.
\<close>

theorem lmdb_refuses_keys:
  assumes "lmdb_law L contents" "k = [] \<or> 255 < length k"
  shows "lmdb_insert L k (MptSome v) s = None \<and>
    ((k, MptSome v) \<in> set us \<longrightarrow> lmdb_apply_updates L us s = None) \<and>
    ((k, v) \<in> set m \<longrightarrow> lmdb_from_snapshot kc L m = None) \<and>
    snapshot_get_owned (st_insert k (MptSome v) t) k = Some v"
proof -
  have "\<not> lmdb_key (bytes_to_nibbles k)" using assms(2) by (auto simp: key_fits_def)
  then have put: "expecting (lm_put L (bytes_to_nibbles k) v w) = None" for w
    using assms(1) unfolding lmdb_law_def by (metis expecting_simps(1))
  then have txn: "txn_put L (bytes_to_nibbles k) v t = None" for t
    by (cases t) (auto simp: txn_put_def split: Option.bind_split)
  have batch: "apply_in_txn L us (t, dirty) = None" if "(k, MptSome v) \<in> set us" for us t dirty
    using that
  proof (induction us arbitrary: t dirty)
    case (Cons u us)
    then show ?case by (cases u) (auto simp: txn Let_def split: Option.bind_split mpt_value.split)
  qed simp
  have updates: "lmdb_apply_updates L us s = None" if "(k, MptSome v) \<in> set us" for us
    by (auto simp: lmdb_apply_updates_def batch [OF that] split: Option.bind_split)
  have load: "load_entries L m w = None" if "(k, v) \<in> set m" for m w
    using that
  proof (induction m arbitrary: w)
    case (Cons e m)
    then show ?case by (cases e) (auto simp: put split: Option.bind_split)
  qed simp
  show ?thesis
    using updates [of us] updates [of "[(k, MptSome v)]"]
    by (auto simp: lmdb_write_is_update lmdb_from_snapshot_def load st_lookup_insert split: Option.bind_split)
qed

theorem lmdb_refuses_keys_witness:
  "lmdb_insert ex_lmdb (replicate 256 7) (MptSome [1]) \<lparr>ls_db = [], ls_cache = [], ls_dirty = [], ls_len = 0\<rparr> = None \<and>
   lmdb_from_snapshot plain_hash ex_lmdb [([], [1])] = None"
  using lmdb_refuses_keys [OF ex_lmdb_law, of "replicate 256 7" "[1]" "\<lparr>ls_db = [], ls_cache = [], ls_dirty = [], ls_len = 0\<rparr>"]
    lmdb_refuses_keys [OF ex_lmdb_law, of "[]" "[1]" _ "[]" "[([], [1])]" plain_hash] by simp

end
