(* ===== verification/Pack_Prelude.thy ===== *)
theory Pack_Prelude
  imports Mpt_Prelude
begin

text \<open>
  Shared notions of the \<open>cfxpack\<close> theories: errors as values, slices and \<open>usize\<close> arithmetic
  as Rust has them, fixed-width integers as bytes, and the contract of one wire field.

  \<open>anyhow::Error\<close> is \<open>Bail\<close> with its message; a panic (an index or slice out of range) is
  \<open>Pack_Panic\<close>. A \<open>usize\<close> is a natural number, and a sum that can pass \<open>2 ^ 64\<close> is written
  with the wrap-around of a release build.
\<close>

datatype pack_failure = Bail string | Pack_Panic string

type_synonym 'a pack_result = "pack_failure + 'a"
type_synonym u16 = "16 word"
type_synonym u256 = "256 word"
type_synonym i64 = "64 word"

text \<open>When a checked computation returns: one rule per construct.\<close>

named_theorems returns

definition usize_add :: "nat \<Rightarrow> nat \<Rightarrow> nat" where
  "usize_add a b = (a + b) mod 2 ^ 64"

definition usize_mul :: "nat \<Rightarrow> nat \<Rightarrow> nat" where
  "usize_mul a b = (a * b) mod 2 ^ 64"

lemma usize_add_exact [simp]: "a + b < 2 ^ 64 \<Longrightarrow> usize_add a b = a + b"
  by (simp add: usize_add_def)

lemma usize_mul_exact [simp]: "a * b < 2 ^ 64 \<Longrightarrow> usize_mul a b = a * b"
  by (simp add: usize_mul_def)

text \<open>\<open>&xs[s..e]\<close> and \<open>xs[i]\<close>.\<close>

definition slice_of :: "'a list \<Rightarrow> nat \<Rightarrow> nat \<Rightarrow> 'a list pack_result" where
  "slice_of xs s e =
     (if s \<le> e \<and> e \<le> length xs then Inr (subslice xs s e)
      else Inl (Pack_Panic ''slice index out of range''))"

definition index_at :: "'a list \<Rightarrow> nat \<Rightarrow> 'a pack_result" where
  "index_at xs i = (if i < length xs then Inr (xs ! i) else Inl (Pack_Panic ''index out of bounds''))"

lemma slice_of_ok [simp]: "s \<le> e \<Longrightarrow> e \<le> length xs \<Longrightarrow> slice_of xs s e = Inr (subslice xs s e)"
  by (simp add: slice_of_def)

lemma index_at_ok [simp]: "i < length xs \<Longrightarrow> index_at xs i = Inr (xs ! i)"
  by (simp add: index_at_def)

lemma slice_of_middle:
  "length a = s \<Longrightarrow> e = s + length b \<Longrightarrow> slice_of (a @ b @ c) s e = Inr b"
  by (auto simp: slice_of_def subslice_def)

lemma slice_of_prefix_middle:
  assumes "prefix (a @ b) xs" "length a = s" "e = s + length b"
  shows "slice_of xs s e = Inr b"
proof -
  from assms(1) obtain zs where "xs = a @ b @ zs" by (auto simp: prefix_def)
  then show ?thesis using slice_of_middle [OF assms(2,3)] by simp
qed

definition ok_or :: "'a option \<Rightarrow> 'e \<Rightarrow> 'e + 'a" where
  "ok_or x e = (case x of None \<Rightarrow> Inl e | Some a \<Rightarrow> Inr a)"

lemma ok_or_simps [simp]:
  "ok_or None e = Inl e"
  "ok_or (Some a) e = Inr a"
  "ok_or x e = Inr a \<longleftrightarrow> x = Some a"
  by (auto simp: ok_or_def split: option.splits)

lemma ensure_returns [returns]: "ensure b e = Inr u \<longleftrightarrow> b"
  by simp

lemma ok_or_returns [returns]: "ok_or x e = Inr a \<longleftrightarrow> x = Some a"
  by simp

lemma slice_of_returns [returns]:
  "slice_of xs s e = Inr ys \<longleftrightarrow> s \<le> e \<and> e \<le> length xs \<and> ys = subslice xs s e"
  by (auto simp: slice_of_def)

lemma index_at_returns [returns]: "index_at xs i = Inr x \<longleftrightarrow> i < length xs \<and> x = xs ! i"
  by (auto simp: index_at_def)

declare rbind_Inr_iff [returns]

text \<open>A loop with \<open>?\<close> in its body: the results in order, or the first error.\<close>

fun traverse :: "('a \<Rightarrow> 'e + 'b) \<Rightarrow> 'a list \<Rightarrow> 'e + 'b list" where
  "traverse f [] = Inr []"
| "traverse f (x # xs) = rbind (f x) (\<lambda>y. rbind (traverse f xs) (\<lambda>ys. Inr (y # ys)))"

lemma traverse_map_Inr: "(\<And>x. x \<in> set xs \<Longrightarrow> f x = Inr (g x)) \<Longrightarrow> traverse f xs = Inr (map g xs)"
  by (induction xs) auto

lemma traverse_map [simp]: "traverse f (map g xs) = traverse (\<lambda>x. f (g x)) xs"
  by (induction xs) auto

lemma traverse_Inr_iff:
  "traverse f xs = Inr ys \<longleftrightarrow> list_all2 (\<lambda>x y. f x = Inr y) xs ys"
  by (induction xs arbitrary: ys) (auto simp: rbind_Inr_iff list_all2_Cons1)

lemma traverse_cong [fundef_cong]:
  "xs = ys \<Longrightarrow> (\<And>x. x \<in> set ys \<Longrightarrow> f x = g x) \<Longrightarrow> traverse f xs = traverse g ys"
  by (induction ys arbitrary: xs) auto

subsection \<open>Integers as bytes\<close>

fun le_nat :: "bytes \<Rightarrow> nat" where
  "le_nat [] = 0"
| "le_nat (b # bs) = unat b + 256 * le_nat bs"

fun le_digits :: "nat \<Rightarrow> nat \<Rightarrow> bytes" where
  "le_digits 0 x = []"
| "le_digits (Suc n) x = of_nat (x mod 256) # le_digits n (x div 256)"

definition be_nat :: "bytes \<Rightarrow> nat" where
  "be_nat bs = le_nat (rev bs)"

text \<open>\<open>to_le_bytes\<close> and \<open>from_le_bytes\<close>; \<open>U256::to_big_endian\<close> and \<open>from_big_endian\<close>.\<close>

definition to_le_bytes :: "nat \<Rightarrow> 'a :: len word \<Rightarrow> bytes" where
  "to_le_bytes n w = le_digits n (unat w)"

definition from_le_bytes :: "bytes \<Rightarrow> 'a :: len word" where
  "from_le_bytes bs = of_nat (le_nat bs)"

definition to_big_endian :: "u256 \<Rightarrow> bytes" where
  "to_big_endian w = rev (to_le_bytes 32 w)"

definition from_big_endian :: "bytes \<Rightarrow> u256" where
  "from_big_endian bs = of_nat (be_nat bs)"

lemma length_le_digits [simp]: "length (le_digits n x) = n"
  by (induction n arbitrary: x) auto

lemma length_to_le_bytes [simp]: "length (to_le_bytes n w) = n"
  by (simp add: to_le_bytes_def)

lemma length_to_big_endian [simp]: "length (to_big_endian w) = 32"
  by (simp add: to_big_endian_def)

lemma le_nat_bound: "le_nat bs < 256 ^ length bs"
proof (induction bs)
  case (Cons b bs)
  define p :: nat where "p = 256 ^ length bs"
  have "le_nat bs < p" "unat b < 256" using Cons by (simp_all add: p_def)
  then have "unat b + 256 * le_nat bs < 256 * p" by linarith
  then show ?case by (simp add: p_def)
qed simp

lemma be_nat_bound: "be_nat bs < 256 ^ length bs"
  using le_nat_bound [of "rev bs"] by (simp add: be_nat_def)

lemma le_nat_digits: "x < 256 ^ n \<Longrightarrow> le_nat (le_digits n x) = x"
proof (induction n arbitrary: x)
  case (Suc n)
  then have "x div 256 < 256 ^ n" by (simp add: less_mult_imp_div_less mult.commute)
  then show ?case using Suc.IH by (simp add: unat_of_nat_u8)
qed simp

lemma le_digits_nat: "length bs = n \<Longrightarrow> le_digits n (le_nat bs) = bs"
proof (induction bs arbitrary: n)
  case (Cons b bs)
  then obtain m where n: "n = Suc m" by auto
  have "(unat b + 256 * le_nat bs) mod 256 = unat b" "(unat b + 256 * le_nat bs) div 256 = le_nat bs"
    by auto
  with Cons n show ?case by simp
qed simp

lemma from_to_le_bytes:
  assumes "2 ^ LENGTH('a) \<le> (256 :: nat) ^ n"
  shows "from_le_bytes (to_le_bytes n (w :: 'a :: len word)) = w"
proof -
  have "unat w < 256 ^ n" by (rule less_le_trans [OF unsigned_less assms])
  then show ?thesis by (simp add: from_le_bytes_def to_le_bytes_def le_nat_digits)
qed

lemma from_to_big_endian [simp]: "from_big_endian (to_big_endian w) = w"
proof -
  have "unat w < 2 ^ 256" using unsigned_less [of w, where ?'a = nat] by simp
  also have "(2 :: nat) ^ 256 = 256 ^ 32" by simp
  finally show ?thesis
    by (simp add: from_big_endian_def be_nat_def to_big_endian_def to_le_bytes_def le_nat_digits)
qed

lemma be_nat_to_big_endian: "be_nat (to_big_endian w) = unat w"
proof -
  have "unat w < 2 ^ 256" using unsigned_less [of w, where ?'a = nat] by simp
  also have "(2 :: nat) ^ 256 = 256 ^ 32" by simp
  finally show ?thesis
    by (simp add: be_nat_def to_big_endian_def to_le_bytes_def le_nat_digits)
qed

lemma le_nat_append: "le_nat (xs @ ys) = le_nat xs + 256 ^ length xs * le_nat ys"
  by (induction xs) (auto simp: algebra_simps)

lemma le_nat_zeros [simp]: "le_nat (replicate n 0) = 0"
  by (induction n) auto

lemma be_nat_simps [simp]:
  "be_nat [] = 0"
  "be_nat (b # bs) = unat b * 256 ^ length bs + be_nat bs"
  "be_nat (replicate n 0 @ bs) = be_nat bs"
  by (simp_all add: be_nat_def le_nat_append)

lemma unat_of_nat_u64: "n < 2 ^ 64 \<Longrightarrow> unat (of_nat n :: u64) = n"
  by (simp add: unsigned_of_nat take_bit_nat_eq_self)

lemma unat_of_nat_u32: "n < 2 ^ 32 \<Longrightarrow> unat (of_nat n :: u32) = n"
  by (simp add: unsigned_of_nat take_bit_nat_eq_self)

lemma unat_u64_less: "unat (v :: u64) < 2 ^ 64"
  using unsigned_less [of v, where ?'a = nat] by simp

lemma unat_u32_less: "unat (v :: u32) < 2 ^ 32"
  using unsigned_less [of v, where ?'a = nat] by simp

subsection \<open>The contract of a wire field\<close>

text \<open>
  What the encoder and the decoder of one field promise each other: writing appends, and
  reading any buffer that starts with what was written returns the value and the offset
  behind it.
\<close>

locale wire_field =
  fixes put_field :: "bytes \<Rightarrow> 'a \<Rightarrow> bytes pack_result"
    and get_field :: "bytes \<Rightarrow> nat \<Rightarrow> ('a \<times> nat) pack_result"
  assumes put_appends: "put_field out v = Inr out' \<Longrightarrow> prefix out out' \<and> out' \<noteq> out"
    and get_put: "put_field out v = Inr out' \<Longrightarrow> prefix out' data \<Longrightarrow>
                  get_field data (length out) = Inr (v, length out')"
begin

lemma put_prefix: "put_field out v = Inr out' \<Longrightarrow> prefix out out'"
  using put_appends by blast

lemma put_longer: "put_field out v = Inr out' \<Longrightarrow> length out < length out'"
  using put_appends [of out v out'] by (auto simp: prefix_def)

lemma put_prefix_of: "put_field out v = Inr out' \<Longrightarrow> prefix out' data \<Longrightarrow> prefix out data"
  using put_prefix prefix_order.trans by blast

lemma put_injective: "put_field out v = Inr out' \<Longrightarrow> put_field out w = Inr out' \<Longrightarrow> v = w"
  using get_put by (metis Inr_inject prefix_order.refl prod.inject)

lemma no_field_inside_another:
  assumes "put_field out v = Inr a" "put_field out w = Inr b" "prefix a b"
  shows "a = b \<and> v = w"
proof -
  have "Inr (v, length a) = (Inr (w, length b) :: ('a \<times> nat) pack_result)"
    using get_put [OF assms(1,3)] get_put [OF assms(2) prefix_order.refl] by (metis (no_types))
  with assms show ?thesis by (metis Inr_inject prod.inject)
qed

end

end
