(* ===== verification/Pack_Codec.thy ===== *)
theory Pack_Codec
  imports Pack_Prelude
begin

text \<open>
  \<open>crates/cfxpack/src/codec.rs\<close>: the integer encodings of the packet format. A writer
  takes the buffer \<open>out\<close> and returns it extended; a reader takes the buffer and the offset
  and returns the value and the offset behind it, which is what \<open>&mut usize\<close> holds after
  the call. \<open>U256\<close> is a 256-bit word, \<open>i64\<close> a 64-bit word read with \<open>sint\<close>.
\<close>

subsection \<open>Fixed-width integers\<close>

definition put_u32_le :: "bytes \<Rightarrow> u32 \<Rightarrow> bytes" where
  "put_u32_le out value = out @ to_le_bytes 4 value"

definition put_u64_le :: "bytes \<Rightarrow> u64 \<Rightarrow> bytes" where
  "put_u64_le out value = out @ to_le_bytes 8 value"

definition read_u32_le :: "bytes \<Rightarrow> nat \<Rightarrow> u32 pack_result" where
  "read_u32_le data offset =
     rbind (ensure (offset + 4 \<le> length data) (Bail ''u32 read out of bounds'')) (\<lambda>_.
       Inr (from_le_bytes (subslice data offset (offset + 4))))"

definition read_u64_le :: "bytes \<Rightarrow> nat \<Rightarrow> u64 pack_result" where
  "read_u64_le data offset =
     rbind (ensure (offset + 8 \<le> length data) (Bail ''u64 read out of bounds'')) (\<lambda>_.
       Inr (from_le_bytes (subslice data offset (offset + 8))))"

subsection \<open>LEB128\<close>

lemma unat_drop_bit_7: "unat (drop_bit 7 (v :: u64)) = unat v div 128"
  by (simp add: drop_bit_eq_div unat_div_distrib)

lemma drop_bit_7_less:
  assumes "v \<noteq> (0 :: u64)"
  shows "unat (drop_bit 7 v) < unat v"
proof -
  from assms have "0 < unat v" by (simp add: unat_gt_0)
  then show ?thesis by (simp only: unat_drop_bit_7)
qed

function put_uleb128 :: "bytes \<Rightarrow> u64 \<Rightarrow> bytes" where
  "put_uleb128 out value =
     (let byte = ucast (value AND 0x7f) :: u8;
          value' = drop_bit 7 value;
          byte' = (if value' \<noteq> 0 then byte OR 0x80 else byte);
          out' = out @ [byte']
      in if value' = 0 then out' else put_uleb128 out' value')"
  by auto
termination
  by (relation "measure (\<lambda>(out, value). unat value)") (auto intro: drop_bit_7_less)

declare put_uleb128.simps [simp del]

function read_uleb128_from :: "bytes \<Rightarrow> nat \<Rightarrow> nat \<Rightarrow> u64 \<Rightarrow> (u64 \<times> nat) pack_result" where
  "read_uleb128_from data offset shift value =
     (if \<not> offset < length data then Inl (Bail ''uleb128 read out of bounds'')
      else let byte = data ! offset;
               offset' = offset + 1;
               value' = value OR push_bit shift (ucast (byte AND 0x7f))
           in if byte AND 0x80 = 0 then Inr (value', offset')
              else if shift + 7 < 64 then read_uleb128_from data offset' (shift + 7) value'
              else Inl (Bail ''uleb128 overflow''))"
  by auto
termination
  by (relation "measure (\<lambda>(data, offset, shift, value). length data - offset)") auto

declare read_uleb128_from.simps [simp del]

definition read_uleb128 :: "bytes \<Rightarrow> nat \<Rightarrow> (u64 \<times> nat) pack_result" where
  "read_uleb128 data offset = read_uleb128_from data offset 0 0"

function uleb128_len_from :: "nat \<Rightarrow> u64 \<Rightarrow> nat" where
  "uleb128_len_from len value =
     (if 0x80 \<le> value then uleb128_len_from (len + 1) (drop_bit 7 value) else len)"
  by auto
termination
  by (relation "measure (\<lambda>(len, value). unat value)") (auto intro!: drop_bit_7_less simp: word_le_nat_alt)

declare uleb128_len_from.simps [simp del]

definition uleb128_len :: "u64 \<Rightarrow> nat" where
  "uleb128_len value = uleb128_len_from 1 value"

subsection \<open>ZigZag\<close>

definition zigzag_encode :: "i64 \<Rightarrow> u64" where
  "zigzag_encode value = push_bit 1 value XOR signed_drop_bit 63 value"

definition zigzag_decode :: "u64 \<Rightarrow> i64" where
  "zigzag_decode value = drop_bit 1 value XOR - (value AND 1)"

subsection \<open>Compact integers with a two-bit mode\<close>

definition u256_to_be :: "u256 \<Rightarrow> bytes" where
  "u256_to_be value = to_big_endian value"

definition leading_zeros :: "u8 \<Rightarrow> nat" where
  "leading_zeros b = length (takeWhile (\<lambda>i. \<not> bit b i) (rev [0..<8]))"

definition bit_len :: "bytes \<Rightarrow> nat" where
  "bit_len bytes = (case bytes of [] \<Rightarrow> 0
     | first # _ \<Rightarrow> (length bytes - 1) * 8 + (8 - leading_zeros first))"

definition first_non_zero :: "bytes \<Rightarrow> nat" where
  "first_non_zero bytes = length (takeWhile (\<lambda>b. b = 0) bytes)"

definition compact_be :: "u256 \<Rightarrow> bytes" where
  "compact_be value = (let bytes = u256_to_be value in drop (first_non_zero bytes) bytes)"

text \<open>The loop over \<open>(mode, total_len, max_bits)\<close>; \<open>None\<close> when no mode fits.\<close>

fun put_modes :: "(u8 \<times> nat \<times> nat) list \<Rightarrow> bytes \<Rightarrow> bytes \<Rightarrow> string \<Rightarrow> bytes option pack_result" where
  "put_modes [] out compact msg = Inr None"
| "put_modes ((mode, total_len, max_bits) # rest) out compact msg =
     (if bit_len compact \<le> max_bits then
        (if total_len < length compact then Inl (Pack_Panic ''subtract with overflow'')
         else let payload = replicate (total_len - length compact) 0 @ compact
              in rbind (ensure (hd payload AND 0xc0 = 0) (Bail msg)) (\<lambda>_.
                   Inr (Some (out @ (hd payload OR push_bit 6 mode) # tl payload))))
      else put_modes rest out compact msg)"

definition qc8_modes :: "(u8 \<times> nat \<times> nat) list" where
  "qc8_modes = [(0, 8, 62), (1, 9, 70), (2, 10, 78), (3, 11, 86)]"

definition qc5e_modes :: "(u8 \<times> nat \<times> nat) list" where
  "qc5e_modes = [(1, 5, 38), (2, 6, 46), (3, 7, 54)]"

definition put_qc8 :: "bytes \<Rightarrow> u256 \<Rightarrow> bytes pack_result" where
  "put_qc8 out value =
     rbind (put_modes qc8_modes out (compact_be value) ''qc8 value exceeds payload bits'')
       (\<lambda>r. ok_or r (Bail ''qc8 value exceeds 86 bits''))"

definition put_qc5e :: "bytes \<Rightarrow> u256 \<Rightarrow> u8 option \<Rightarrow> bytes pack_result" where
  "put_qc5e out value enum_value =
     (case enum_value of
        Some v \<Rightarrow> rbind (ensure (v < 64) (Bail ''qc5e enum value out of range'')) (\<lambda>_. Inr (out @ [v]))
      | None \<Rightarrow>
          rbind (put_modes qc5e_modes out (compact_be value) ''qc5e value exceeds payload bits'')
            (\<lambda>r. ok_or r (Bail ''qc5e value exceeds 54 bits'')))"

definition read_qc8 :: "bytes \<Rightarrow> nat \<Rightarrow> (u256 \<times> nat) pack_result" where
  "read_qc8 data offset =
     rbind (ensure (offset < length data) (Bail ''qc8 read out of bounds'')) (\<lambda>_.
       let mode = drop_bit 6 (data ! offset);
           len = (if mode = 0 then 8 else if mode = 1 then 9 else if mode = 2 then 10 else 11)
       in rbind (ensure (offset + len \<le> length data) (Bail ''qc8 exceeds buffer'')) (\<lambda>_.
            let bytes = subslice data offset (offset + len);
                bytes = (hd bytes AND 0x3f) # tl bytes
            in Inr (from_big_endian bytes, offset + len)))"

datatype qc5e_value = Enum u8 | Integer u256

definition read_qc5e :: "bytes \<Rightarrow> nat \<Rightarrow> (qc5e_value \<times> nat) pack_result" where
  "read_qc5e data offset =
     rbind (ensure (offset < length data) (Bail ''qc5e read out of bounds'')) (\<lambda>_.
       let first = data ! offset; mode = drop_bit 6 first
       in if mode = 0 then Inr (Enum (first AND 0x3f), offset + 1)
          else let len = (if mode = 1 then 5 else if mode = 2 then 6 else 7)
               in rbind (ensure (offset + len \<le> length data) (Bail ''qc5e exceeds buffer'')) (\<lambda>_.
                    let bytes = subslice data offset (offset + len);
                        bytes = (hd bytes AND 0x3f) # tl bytes
                    in Inr (Integer (from_big_endian bytes), offset + len)))"

fun gas_limit :: "qc5e_value \<Rightarrow> u256" where
  "gas_limit (Enum e) = (if e = 1 then 30000000 else if e = 2 then 60000000 else 0)"
| "gas_limit (Integer v) = v"

fun base_price :: "qc5e_value \<Rightarrow> bool \<Rightarrow> u256" where
  "base_price (Enum e) espace =
     (if e = 0 then 0
      else if e = 1 \<and> espace then 20000000000
      else if e = 1 then 1000000000
      else 0)"
| "base_price (Integer v) espace = v"

definition qc5e_gas_limit_enum :: "u256 \<Rightarrow> u8 option" where
  "qc5e_gas_limit_enum v =
     (if v = 30000000 then Some 1 else if v = 60000000 then Some 2
      else if v = 0 then Some 0 else None)"

definition qc5e_base_price_enum :: "u256 \<Rightarrow> bool \<Rightarrow> u8 option" where
  "qc5e_base_price_enum v espace =
     (let dflt = (if espace then 20000000000 else 1000000000)
      in if v = 0 then Some 0 else if v = dflt then Some 1 else None)"

subsection \<open>Padding\<close>

definition align_to :: "bytes \<Rightarrow> nat \<Rightarrow> bytes" where
  "align_to out align =
     (let pad = (align - length out mod align) mod align in out @ replicate pad 0)"

end
