(* ===== verification/Pack_Codec_Correct.thy ===== *)
theory Pack_Codec_Correct
  imports Pack_Codec
begin

text \<open>
  The encodings of \<open>codec.rs\<close> are inverse to each other: every field satisfies the contract
  \<open>wire_field\<close> of \<open>Pack_Prelude\<close>, the bounds of the compact encodings are exact, and ZigZag is a
  bijection that keeps small magnitudes small.
\<close>

subsection \<open>Fixed-width integers\<close>

lemma prefix_subslice:
  assumes "prefix (out @ enc) data"
  shows "length out + length enc \<le> length data"
    and "subslice data (length out) (length out + length enc) = enc"
  using assms by (auto simp: prefix_def subslice_def)

lemma from_to_le_u16 [simp]: "from_le_bytes (to_le_bytes 2 (v :: u16)) = v"
  by (rule from_to_le_bytes) simp

lemma from_to_le_u32 [simp]: "from_le_bytes (to_le_bytes 4 (v :: u32)) = v"
  by (rule from_to_le_bytes) simp

lemma from_to_le_u64 [simp]: "from_le_bytes (to_le_bytes 8 (v :: u64)) = v"
  by (rule from_to_le_bytes) simp

lemma read_put_u32_le:
  assumes "prefix (put_u32_le out v) data"
  shows "read_u32_le data (length out) = Inr v"
  using prefix_subslice [of out "to_le_bytes 4 v" data] assms
  by (simp add: put_u32_le_def read_u32_le_def)

lemma read_put_u64_le:
  assumes "prefix (put_u64_le out v) data"
  shows "read_u64_le data (length out) = Inr v"
  using prefix_subslice [of out "to_le_bytes 8 v" data] assms
  by (simp add: put_u64_le_def read_u64_le_def)

interpretation u32_field: wire_field "\<lambda>out v. Inr (put_u32_le out v)"
  "\<lambda>data offset. rbind (read_u32_le data offset) (\<lambda>v. Inr (v, offset + 4))"
  by unfold_locales (auto simp: read_put_u32_le, auto simp: put_u32_le_def to_le_bytes_def
      dest!: arg_cong [where f = length])

interpretation u64_field: wire_field "\<lambda>out v. Inr (put_u64_le out v)"
  "\<lambda>data offset. rbind (read_u64_le data offset) (\<lambda>v. Inr (v, offset + 8))"
  by unfold_locales (auto simp: read_put_u64_le, auto simp: put_u64_le_def to_le_bytes_def
      dest!: arg_cong [where f = length])

subsection \<open>LEB128\<close>

lemma put_uleb128_append: "put_uleb128 (out @ out') v = out @ put_uleb128 out' v"
proof (induction out' v rule: put_uleb128.induct)
  case (1 out' v)
  then show ?case by (subst (1 2) put_uleb128.simps) (simp add: Let_def)
qed

lemma put_uleb128_Nil: "put_uleb128 out v = out @ put_uleb128 [] v"
  using put_uleb128_append [of out "[]" v] by simp

lemma put_uleb128_Nil_simps:
  "put_uleb128 [] v =
     (if drop_bit 7 v = 0 then [ucast (v AND 0x7f)]
      else (ucast (v AND 0x7f) OR 0x80) # put_uleb128 [] (drop_bit 7 v))"
  by (subst put_uleb128.simps) (simp add: Let_def put_uleb128_Nil [of "[_]"])

lemma put_uleb128_not_Nil [simp]: "put_uleb128 [] v \<noteq> []"
  by (subst put_uleb128_Nil_simps) simp

lemma uleb_groups: "(v :: u64) = (v AND 0x7f) OR push_bit 7 (drop_bit 7 v)"
proof -
  have "(0x7f :: u64) = mask 7" by (simp add: mask_eq_exp_minus_1)
  then show ?thesis by (simp only:) (auto simp: bit_eq_iff bit_simps)
qed

lemma bit_128: "bit (0x80 :: u8) n \<longleftrightarrow> n = 7"
proof -
  have "(0x80 :: u8) = push_bit 7 1" by simp
  then show ?thesis by (simp only: bit_push_bit_iff) (auto simp: bit_simps)
qed

lemma uleb_low_byte:
  "(ucast (v AND 0x7f :: u64) :: u8) AND 0x80 = 0"
  "(ucast (ucast (v AND 0x7f :: u64) AND (0x7f :: u8)) :: u64) = v AND 0x7f"
  "((ucast (v AND 0x7f :: u64) OR 0x80) :: u8) AND 0x80 \<noteq> 0"
  "(ucast ((ucast (v AND 0x7f :: u64) OR 0x80) AND (0x7f :: u8)) :: u64) = v AND 0x7f"
proof -
  have m: "(0x7f :: u64) = mask 7" "(0x7f :: u8) = mask 7" "(0x80 :: u8) = push_bit 7 1"
    by (simp_all add: mask_eq_exp_minus_1)
  show "(ucast (v AND 0x7f :: u64) :: u8) AND 0x80 = 0"
    by (rule bit_eqI) (simp only: bit_and_iff bit_128 m(1), auto simp: bit_simps)
  show "(ucast (ucast (v AND 0x7f :: u64) AND (0x7f :: u8)) :: u64) = v AND 0x7f"
    unfolding m by (auto simp: bit_eq_iff bit_simps)
  show "(ucast ((ucast (v AND 0x7f :: u64) OR 0x80) AND (0x7f :: u8)) :: u64) = v AND 0x7f"
    by (rule bit_eqI)
      (simp only: bit_unsigned_iff bit_and_iff bit_or_iff bit_128 m(1,2), auto simp: bit_simps)
  have "bit (((ucast (v AND 0x7f :: u64) OR 0x80) :: u8) AND 0x80) 7"
    unfolding m by (simp add: bit_simps)
  then show "((ucast (v AND 0x7f :: u64) OR 0x80) :: u8) AND 0x80 \<noteq> 0" by auto
qed

lemma read_uleb128_from_put:
  assumes "unat v < 2 ^ (64 - shift)" "shift < 64"
    and "drop off data = put_uleb128 [] v @ rest"
  shows "read_uleb128_from data off shift acc =
     Inr (acc OR push_bit shift v, off + length (put_uleb128 [] v))"
  using assms
proof (induction "unat v" arbitrary: v shift off acc rule: less_induct)
  case less
  from less.prems(3) have "drop off data \<noteq> []" by simp
  then have off: "off < length data" by simp
  with less.prems(3) have nth: "data ! off = hd (put_uleb128 [] v)"
    by (metis hd_append2 hd_drop_conv_nth put_uleb128_not_Nil)
  have tl: "drop (off + 1) data = tl (put_uleb128 [] v) @ rest"
    using less.prems(3) by (metis Suc_eq_plus1 drop_Suc put_uleb128_not_Nil tl_append2 tl_drop)
  show ?case
  proof (cases "drop_bit 7 v = 0")
    case True
    then have "v = v AND 0x7f" using uleb_groups [of v] by simp
    moreover have "put_uleb128 [] v = [ucast (v AND 0x7f)]"
      using True by (subst put_uleb128_Nil_simps) simp
    ultimately show ?thesis using off nth uleb_low_byte [of v]
      by (subst read_uleb128_from.simps) simp
  next
    case False
    let ?w = "drop_bit 7 v"
    have enc: "put_uleb128 [] v = (ucast (v AND 0x7f) OR 0x80) # put_uleb128 [] ?w"
      using False by (subst put_uleb128_Nil_simps) simp
    have v128: "128 \<le> unat v"
      using False by (metis div_eq_0_iff not_less unat_drop_bit_7 unat_eq_zero zero_neq_numeral)
    have sh: "shift + 7 < 64"
    proof (rule ccontr)
      assume "\<not> shift + 7 < 64"
      then have "(2 :: nat) ^ (64 - shift) \<le> 2 ^ 7" by (intro power_increasing) auto
      with v128 less.prems(1) show False by simp
    qed
    have "unat ?w < 2 ^ (64 - (shift + 7))"
    proof -
      have "(2 :: nat) ^ (64 - shift) = 2 ^ (64 - (shift + 7)) * 128"
        using sh power_add [of "2 :: nat" "64 - (shift + 7)" 7] by simp
      with less.prems(1) show ?thesis by (simp add: unat_drop_bit_7 less_mult_imp_div_less)
    qed
    moreover have "unat ?w < unat v" using False drop_bit_7_less [of v] by fastforce
    moreover have "drop (off + 1) data = put_uleb128 [] ?w @ rest" using tl enc by simp
    ultimately have IH: "read_uleb128_from data (off + 1) (shift + 7) acc' =
        Inr (acc' OR push_bit (shift + 7) ?w, off + 1 + length (put_uleb128 [] ?w))" for acc'
      using less.hyps sh by blast
    have "push_bit shift (v AND 0x7f) OR push_bit (shift + 7) ?w = push_bit shift v"
      by (subst (3) uleb_groups) (simp add: push_bit_or add.commute)
    with off nth enc sh IH show ?thesis
      by (subst read_uleb128_from.simps) (simp add: uleb_low_byte or.assoc Let_def)
  qed
qed

lemma read_put_uleb128:
  assumes "prefix (put_uleb128 out v) data"
  shows "read_uleb128 data (length out) = Inr (v, length (put_uleb128 out v))"
proof -
  from assms obtain rest where "data = out @ put_uleb128 [] v @ rest"
    by (auto simp: prefix_def put_uleb128_Nil [of out])
  moreover have "unat v < 2 ^ (64 - 0)" using unsigned_less [of v, where ?'a = nat] by simp
  ultimately show ?thesis
    using read_uleb128_from_put [of v 0 "length out" data rest 0]
    by (simp add: read_uleb128_def put_uleb128_Nil [of out])
qed

interpretation uleb128_field: wire_field "\<lambda>out v. Inr (put_uleb128 out v)" read_uleb128
proof unfold_locales
  fix out v out' data
  assume "Inr (put_uleb128 out v) = (Inr out' :: bytes pack_result)"
  then have o: "out' = put_uleb128 out v" by simp
  then show "prefix out out' \<and> out' \<noteq> out" by (simp add: put_uleb128_Nil [of out])
  assume "prefix out' data"
  with o show "read_uleb128 data (length out) = Inr (v, length out')"
    by (simp add: read_put_uleb128)
qed

lemma uleb_continues: "0x80 \<le> (v :: u64) \<longleftrightarrow> drop_bit 7 v \<noteq> 0"
proof -
  have "drop_bit 7 v = 0 \<longleftrightarrow> unat v div 128 = 0"
    by (metis unat_drop_bit_7 unat_eq_zero)
  then show ?thesis by (auto simp: word_le_nat_alt)
qed

lemma uleb128_len_from_put: "uleb128_len_from len v + 1 = len + length (put_uleb128 [] v)"
proof (induction len v rule: uleb128_len_from.induct)
  case (1 len v)
  then show ?case
    by (subst uleb128_len_from.simps, subst put_uleb128_Nil_simps) (auto simp: uleb_continues)
qed

lemma uleb128_len_put: "uleb128_len v = length (put_uleb128 [] v)"
  using uleb128_len_from_put [of 1 v] by (simp add: uleb128_len_def)

lemma read_uleb128_from_bounds:
  "read_uleb128_from data off shift acc = Inr (v, off') \<Longrightarrow> shift < 64 \<Longrightarrow>
     off < off' \<and> off' \<le> length data \<and> shift + 7 * (off' - off) < 71"
proof (induction data off shift acc rule: read_uleb128_from.induct)
  case (1 data off shift acc)
  show ?case
  proof (cases "off < length data \<and> data ! off AND 0x80 \<noteq> 0 \<and> shift + 7 < 64")
    case True
    with 1 show ?thesis
      by (subst (asm) (2) read_uleb128_from.simps) (force simp: Let_def)
  next
    case False
    with "1.prems" show ?thesis
      by (subst (asm) read_uleb128_from.simps) (auto simp: Let_def split: if_splits)
  qed
qed

lemma read_uleb128_bounds:
  "read_uleb128 data off = Inr (v, off') \<Longrightarrow> off < off' \<and> off' \<le> length data \<and> off' \<le> off + 10"
  using read_uleb128_from_bounds [of data off 0 0 v off'] by (auto simp: read_uleb128_def)

lemma read_uleb128_from_no_panic: "read_uleb128_from data off shift acc \<noteq> Inl (Pack_Panic m)"
proof (induction data off shift acc rule: read_uleb128_from.induct)
  case (1 data off shift acc)
  then show ?case by (subst read_uleb128_from.simps) (auto simp: Let_def)
qed

lemma read_uleb128_no_panic: "read_uleb128 data off \<noteq> Inl (Pack_Panic m)"
  by (simp add: read_uleb128_def read_uleb128_from_no_panic)

subsection \<open>ZigZag\<close>

lemma minus_low_bit: "- ((u :: 64 word) AND 1) = (if bit u 0 then - 1 else 0)"
  by (simp add: bit_0 and_one_eq mod2_eq_if)

lemma bit_zigzag_encode: "bit (zigzag_encode v) n \<longleftrightarrow> n < 64 \<and> ((0 < n \<and> bit v (n - 1)) \<noteq> bit v 63)"
  unfolding zigzag_encode_def bit_xor_iff bit_push_bit_iff bit_signed_drop_bit_iff
  by (cases "n = 0") (auto simp: Suc_le_eq dest: bit_imp_le_length)

lemma bit_zigzag_decode: "bit (zigzag_decode u) n \<longleftrightarrow> n < 64 \<and> (bit u (n + 1) \<noteq> bit u 0)"
  by (cases "bit u 0") (auto simp: zigzag_decode_def bit_simps minus_low_bit dest: bit_imp_le_length)

lemma zigzag_decode_encode [simp]: "zigzag_decode (zigzag_encode v) = v"
proof (rule bit_eqI)
  fix n
  assume "possible_bit TYPE(64 word) n"
  then have "n < 64" by (simp add: possible_bit_def)
  moreover have "n \<noteq> 63 \<Longrightarrow> n + 1 < 64" using \<open>n < 64\<close> by simp
  ultimately show "bit (zigzag_decode (zigzag_encode v)) n \<longleftrightarrow> bit v n"
    by (cases "n = 63") (auto simp: bit_zigzag_encode bit_zigzag_decode)
qed

lemma zigzag_encode_decode [simp]: "zigzag_encode (zigzag_decode u) = u"
proof (rule bit_eqI)
  fix n
  assume "possible_bit TYPE(64 word) n"
  then have "n < 64" by (simp add: possible_bit_def)
  then show "bit (zigzag_encode (zigzag_decode u)) n \<longleftrightarrow> bit u n"
    by (cases n) (auto simp: bit_zigzag_encode bit_zigzag_decode dest: bit_imp_le_length)
qed

lemma uint_of_small_int: "0 \<le> i \<Longrightarrow> i < 2 ^ 64 \<Longrightarrow> uint (word_of_int i :: u64) = i"
  by (simp add: uint_word_of_int_eq take_bit_int_eq_self)

lemma zigzag_magnitude:
  "uint (zigzag_encode v) = (if 0 \<le> sint v then 2 * sint v else - (2 * sint v) - 1)"
proof -
  have range: "- (2 ^ 63) \<le> sint v" "sint v < 2 ^ 63"
    using sint_ge [of v] sint_lt [of v] by simp_all
  have sign: "bit v 63 \<longleftrightarrow> sint v < 0" using bit_last_iff [of v] by simp
  have v: "word_of_int (sint v) = v" by simp
  show ?thesis
  proof (cases "0 \<le> sint v")
    case True
    have "zigzag_encode v = push_bit 1 v"
      by (intro bit_word_eqI, simp only: bit_zigzag_encode bit_push_bit_iff) (use True sign in auto)
    also have "\<dots> = word_of_int (2 * sint v)" by simp
    finally show ?thesis using True range uint_of_small_int [of "2 * sint v"] by (simp only:) simp
  next
    case False
    have "zigzag_encode v = NOT (push_bit 1 v)"
      by (intro bit_word_eqI, simp only: bit_zigzag_encode bit_push_bit_iff bit_not_iff)
        (use False sign in auto)
    also have "\<dots> = word_of_int (- (2 * sint v) - 1)" by (simp add: not_eq_complement)
    finally show ?thesis using False range uint_of_small_int [of "- (2 * sint v) - 1"]
      by (simp only:) simp
  qed
qed

subsection \<open>Compact integers\<close>

lemma leading_zeros_below:
  assumes "b \<noteq> 0" "unat (b :: u8) < 2 ^ k"
  shows "length (takeWhile (\<lambda>i. \<not> bit b i) (rev [0..<k])) < k \<and>
    unat b div 2 ^ (k - 1 - length (takeWhile (\<lambda>i. \<not> bit b i) (rev [0..<k]))) = 1"
  using assms(2)
proof (induction k)
  case 0
  with assms(1) show ?case by (simp add: unat_eq_0)
next
  case (Suc k)
  have top: "bit b k \<longleftrightarrow> odd (unat b div 2 ^ k)"
    by (metis bit_iff_odd bit_unsigned_iff bit_imp_le_length possible_bit_nat unsigned_0 bit_nat_iff)
  have less2: "unat b div 2 ^ k < 2" using Suc.prems by (simp add: less_mult_imp_div_less)
  show ?case
  proof (cases "bit b k")
    case True
    with top less2 have "unat b div 2 ^ k = 1" by (auto simp: less_2_cases_iff)
    with True show ?thesis by simp
  next
    case False
    with top less2 have "unat b div 2 ^ k = 0" by (auto simp: less_2_cases_iff)
    then have "unat b < 2 ^ k" by (simp add: div_eq_0_iff)
    with Suc.IH False show ?thesis by simp
  qed
qed

lemma leading_zeros_bounds:
  assumes "b \<noteq> 0"
  shows "2 ^ (7 - leading_zeros b) \<le> unat b" "unat b < 2 ^ (8 - leading_zeros b)" "leading_zeros b < 8"
proof -
  have z: "leading_zeros b < 8" and q: "unat b div 2 ^ (7 - leading_zeros b) = 1"
    using leading_zeros_below [OF assms, of 8] by (simp_all add: leading_zeros_def)
  show "leading_zeros b < 8" by (rule z)
  show "2 ^ (7 - leading_zeros b) \<le> unat b"
    using q by (metis div_less not_less zero_neq_one)
  have "unat b < 2 ^ (7 - leading_zeros b) * 2"
    using q dividend_less_times_div [of "2 ^ (7 - leading_zeros b)" "unat b"] by simp
  also have "\<dots> = 2 ^ (8 - leading_zeros b)"
  proof -
    have "8 - leading_zeros b = Suc (7 - leading_zeros b)" using z by simp
    then show ?thesis by (simp only: power_Suc2)
  qed
  finally show "unat b < 2 ^ (8 - leading_zeros b)" .
qed

lemma bit_len_le_iff:
  assumes "bs = [] \<or> hd bs \<noteq> 0"
  shows "bit_len bs \<le> n \<longleftrightarrow> be_nat bs < 2 ^ n"
proof (cases bs)
  case (Cons b r)
  let ?k = "length r" let ?w = "8 - leading_zeros b"
  have b: "2 ^ (?w - 1) \<le> unat b" "unat b < 2 ^ ?w" "0 < ?w"
    using leading_zeros_bounds [of b] Cons assms by (simp_all add: diff_right_commute)
  have k: "(256 :: nat) ^ ?k = 2 ^ (8 * ?k)" by (simp add: power_mult)
  have r: "be_nat r < 2 ^ (8 * ?k)" using be_nat_bound [of r] k by simp
  have len: "bit_len bs = 8 * ?k + ?w" using Cons by (simp add: bit_len_def)
  have low: "2 ^ (8 * ?k + ?w - 1) \<le> be_nat bs"
  proof -
    have "(2 :: nat) ^ (8 * ?k + ?w - 1) = 2 ^ (?w - 1) * 2 ^ (8 * ?k)"
      using b(3) by (simp flip: power_add)
    also have "\<dots> \<le> unat b * 2 ^ (8 * ?k)" using b(1) by simp
    finally show ?thesis using Cons k by simp
  qed
  have high: "be_nat bs < 2 ^ (8 * ?k + ?w)"
  proof -
    have "be_nat bs < (unat b + 1) * 2 ^ (8 * ?k)" using Cons k r by simp
    also have "\<dots> \<le> 2 ^ ?w * 2 ^ (8 * ?k)" using b(2) by (intro mult_right_mono) auto
    finally show ?thesis by (simp add: power_add mult.commute)
  qed
  show ?thesis
  proof
    assume "bit_len bs \<le> n"
    with len have "(2 :: nat) ^ (8 * ?k + ?w) \<le> 2 ^ n" by (intro power_increasing) auto
    with high show "be_nat bs < 2 ^ n" by linarith
  next
    assume "be_nat bs < 2 ^ n"
    with low have "(2 :: nat) ^ (8 * ?k + ?w - 1) < 2 ^ n" by linarith
    then have "8 * ?k + ?w - 1 < n" by (rule power_less_imp_less_exp [rotated]) simp
    with len b(3) show "bit_len bs \<le> n" by linarith
  qed
qed (simp add: bit_len_def)

lemma compact_be_dropWhile: "compact_be v = dropWhile (\<lambda>b. b = 0) (to_big_endian v)"
  by (simp add: compact_be_def first_non_zero_def u256_to_be_def Let_def dropWhile_eq_drop)

lemma compact_be_hd: "compact_be v = [] \<or> hd (compact_be v) \<noteq> 0"
  using hd_dropWhile [of "\<lambda>b. b = 0" "to_big_endian v"] by (auto simp: compact_be_dropWhile)

lemma be_nat_dropWhile_zero: "be_nat (dropWhile (\<lambda>b. b = 0) bs) = be_nat bs"
  by (induction bs) auto

lemma be_nat_compact [simp]: "be_nat (compact_be v) = unat v"
  by (simp add: compact_be_dropWhile be_nat_dropWhile_zero be_nat_to_big_endian)

definition mode_payload :: "u8 \<Rightarrow> nat \<Rightarrow> bytes \<Rightarrow> bytes" where
  "mode_payload mode total_len compact =
     (let payload = replicate (total_len - length compact) 0 @ compact
      in (hd payload OR push_bit 6 mode) # tl payload)"

definition valid_mode :: "u8 \<times> nat \<times> nat \<Rightarrow> bool" where
  "valid_mode m = (case m of (mode, total_len, max_bits) \<Rightarrow> mode < 4 \<and> 0 < total_len \<and> max_bits + 2 \<le> 8 * total_len)"

lemma compact_length:
  assumes "bs = [] \<or> hd bs \<noteq> 0" "be_nat bs < 2 ^ max_bits" "max_bits + 2 \<le> 8 * total_len"
  shows "length bs \<le> total_len"
proof (cases bs)
  case (Cons b r)
  have "bit_len bs \<le> max_bits" using bit_len_le_iff [OF assms(1)] assms(2) by simp
  moreover have "leading_zeros b < 8" using leading_zeros_bounds(3) [of b] Cons assms(1) by simp
  ultimately show ?thesis using Cons assms(3) by (simp add: bit_len_def)
qed simp

lemma small_head:
  assumes "be_nat (b # r) < 2 ^ max_bits" "max_bits + 2 \<le> 8 * Suc (length r)"
  shows "unat b < 64"
proof (rule ccontr)
  assume "\<not> unat b < 64"
  then have "64 * 256 ^ length r \<le> be_nat (b # r)" by (simp add: mult_le_mono1 trans_le_add1)
  moreover have "(2 :: nat) ^ max_bits \<le> 2 ^ (6 + 8 * length r)"
    using assms(2) by (intro power_increasing) auto
  moreover have "(2 :: nat) ^ (6 + 8 * length r) = 64 * 256 ^ length r"
    by (simp add: power_add power_mult)
  ultimately show False using assms(1) by linarith
qed

lemma small_byte_bits: "unat (b :: u8) < 64 \<Longrightarrow> bit b n \<Longrightarrow> n < 6"
proof (rule ccontr)
  assume b: "unat b < 64" "bit b n" "\<not> n < 6"
  have "take_bit 6 b = b"
    using b(1) by (simp add: take_bit_eq_mod word_unat_eq_iff unat_mod_distrib)
  with b(2,3) show False by (metis bit_take_bit_iff)
qed

lemma mode_byte:
  assumes "unat b < 64" "mode < (4 :: u8)"
  shows "b AND 0xc0 = 0" "drop_bit 6 (b OR push_bit 6 mode) = mode" "(b OR push_bit 6 mode) AND 0x3f = b"
proof -
  have m: "bit mode n \<Longrightarrow> n < 2" for n
  proof (rule ccontr)
    assume h: "bit mode n" "\<not> n < 2"
    have "take_bit 2 mode = mode"
      using assms(2) by (simp add: take_bit_eq_mod word_unat_eq_iff unat_mod_distrib word_less_nat_alt)
    with h show False by (metis bit_take_bit_iff)
  qed
  have c0: "bit (0xc0 :: u8) n \<Longrightarrow> 6 \<le> n" for n
  proof -
    assume "bit (0xc0 :: u8) n"
    moreover have "(0xc0 :: u8) = push_bit 6 3" by simp
    ultimately show ?thesis by (metis bit_push_bit_iff)
  qed
  have f: "(0x3f :: u8) = mask 6" by (simp add: mask_eq_exp_minus_1)
  show "b AND 0xc0 = 0"
  proof (rule bit_eqI)
    fix n
    have "\<not> bit (b AND 0xc0) n"
      using small_byte_bits [OF assms(1), of n] c0 [of n] unfolding bit_and_iff by linarith
    then show "bit (b AND 0xc0) n = bit (0 :: u8) n" by simp
  qed
  show "drop_bit 6 (b OR push_bit 6 mode) = mode"
    using small_byte_bits [OF assms(1)] m
    by (intro bit_eqI) (simp only: bit_drop_bit_eq bit_or_iff bit_push_bit_iff o_apply, fastforce)
  show "(b OR push_bit 6 mode) AND 0x3f = b" unfolding f
    using small_byte_bits [OF assms(1)]
    by (intro bit_eqI) (simp only: bit_and_iff bit_or_iff bit_push_bit_iff bit_mask_iff, fastforce simp: possible_bit_def)
qed

lemma put_modes_find:
  assumes c: "compact = [] \<or> hd compact \<noteq> 0" and valid: "list_all valid_mode modes"
  shows "put_modes modes out compact msg =
    (case find (\<lambda>(m, l, b). be_nat compact < 2 ^ b) modes of
       None \<Rightarrow> Inr None | Some (m, l, b) \<Rightarrow> Inr (Some (out @ mode_payload m l compact)))"
  using valid
proof (induction modes)
  case (Cons mode_len_bits modes)
  obtain m l b where mlb: "mode_len_bits = (m, l, b)" by (cases mode_len_bits) auto
  show ?case
  proof (cases "be_nat compact < 2 ^ b")
    case True
    with Cons.prems mlb have l: "length compact \<le> l" "0 < l" "b + 2 \<le> 8 * l"
      using compact_length [OF c True] by (auto simp: valid_mode_def)
    define p where "p = replicate (l - length compact) 0 @ compact"
    have p: "length p = l" "be_nat p = be_nat compact" using l by (simp_all add: p_def)
    with l obtain h t where ht: "p = h # t" by (cases p) auto
    have "h AND 0xc0 = 0" using small_head [of h t b] mode_byte(1) [of h 0] p ht True l by simp
    with True mlb l ht show ?thesis
      by (simp add: bit_len_le_iff [OF c] Let_def mode_payload_def flip: p_def)
  next
    case False
    with Cons mlb show ?thesis by (simp add: bit_len_le_iff [OF c])
  qed
qed simp

lemma mode_payload_read:
  assumes "compact = [] \<or> hd compact \<noteq> 0" "be_nat compact < 2 ^ b" "valid_mode (m, l, b)"
  obtains h t where "mode_payload m l compact = h # t" "length t + 1 = l" "drop_bit 6 h = m"
    "be_nat ((h AND 0x3f) # t) = be_nat compact"
proof -
  from assms(3) have v: "m < 4" "0 < l" "b + 2 \<le> 8 * l" by (auto simp: valid_mode_def)
  have len: "length compact \<le> l" using compact_length [OF assms(1,2) v(3)] .
  define p where "p = replicate (l - length compact) 0 @ compact"
  have p: "length p = l" "be_nat p = be_nat compact" using len by (simp_all add: p_def)
  with v obtain h t where ht: "p = h # t" by (cases p) auto
  have h: "unat h < 64" using small_head [of h t b] p ht assms(2) v by simp
  show thesis
  proof (rule that)
    show "mode_payload m l compact = (h OR push_bit 6 m) # t"
      using ht by (simp add: mode_payload_def Let_def flip: p_def)
    show "length t + 1 = l" using p ht by simp
    show "drop_bit 6 (h OR push_bit 6 m) = m" by (rule mode_byte(2) [OF h v(1)])
    show "be_nat (((h OR push_bit 6 m) AND 0x3f) # t) = be_nat compact"
      using p ht by (simp only: mode_byte(3) [OF h v(1)])
  qed
qed

lemma qc8_modes_valid: "list_all valid_mode qc8_modes"
  by (simp add: qc8_modes_def valid_mode_def)

lemma qc5e_modes_valid: "list_all valid_mode qc5e_modes"
  by (simp add: qc5e_modes_def valid_mode_def)

lemma put_qc8_eq:
  "put_qc8 out v =
    (case find (\<lambda>(m, l, b). unat v < 2 ^ b) qc8_modes of
       None \<Rightarrow> Inl (Bail ''qc8 value exceeds 86 bits'')
     | Some (m, l, b) \<Rightarrow> Inr (out @ mode_payload m l (compact_be v)))"
  unfolding put_qc8_def put_modes_find [OF compact_be_hd qc8_modes_valid]
  by (auto split: option.splits)

lemma put_qc5e_eq:
  "put_qc5e out v None =
    (case find (\<lambda>(m, l, b). unat v < 2 ^ b) qc5e_modes of
       None \<Rightarrow> Inl (Bail ''qc5e value exceeds 54 bits'')
     | Some (m, l, b) \<Rightarrow> Inr (out @ mode_payload m l (compact_be v)))"
  unfolding put_qc5e_def put_modes_find [OF compact_be_hd qc5e_modes_valid]
  by (auto split: option.splits)

lemma put_qc8_ok_iff: "(\<exists>out'. put_qc8 out v = Inr out') \<longleftrightarrow> unat v < 2 ^ 86"
  by (auto simp: put_qc8_eq qc8_modes_def)

lemma put_qc5e_ok_iff: "(\<exists>out'. put_qc5e out v None = Inr out') \<longleftrightarrow> unat v < 2 ^ 54"
  by (auto simp: put_qc5e_eq qc5e_modes_def)

lemma prefix_field:
  assumes "prefix (out @ h # t) data"
  shows "length out < length data" "data ! length out = h" "length out + Suc (length t) \<le> length data"
    "subslice data (length out) (length out + Suc (length t)) = h # t"
  using assms by (auto simp: prefix_def subslice_def)

lemma found_mode:
  assumes "find (\<lambda>(m, l, b). be_nat c < 2 ^ b) modes = Some (m, l, b)" "list_all valid_mode modes"
  shows "be_nat c < 2 ^ b" "valid_mode (m, l, b)" "(m, l, b) \<in> set modes"
  using assms by (auto simp: find_Some_iff list_all_length in_set_conv_nth)

lemma read_put_qc8:
  assumes "put_qc8 out v = Inr out'" "prefix out' data"
  shows "read_qc8 data (length out) = Inr (v, length out')"
proof -
  from assms(1) obtain m l b where f: "find (\<lambda>(m, l, b). be_nat (compact_be v) < 2 ^ b) qc8_modes = Some (m, l, b)"
    and o: "out' = out @ mode_payload m l (compact_be v)"
    by (auto simp: put_qc8_eq split: option.splits)
  note found = found_mode [OF f qc8_modes_valid]
  obtain h t where ht: "mode_payload m l (compact_be v) = h # t" "length t + 1 = l" "drop_bit 6 h = m"
    "be_nat ((h AND 0x3f) # t) = be_nat (compact_be v)"
    by (rule mode_payload_read [OF compact_be_hd found(1,2)])
  have l: "(if m = 0 then 8 else if m = 1 then 9 else if m = 2 then 10 else 11) = l"
    using found(3) by (auto simp: qc8_modes_def)
  note pf = prefix_field [OF assms(2) [unfolded o ht(1)]]
  have "from_big_endian ((h AND 0x3f) # t) = v" using ht(4) by (simp only: from_big_endian_def) simp
  moreover have "subslice data (length out) (length out + l) = h # t" "length out + l \<le> length data"
    using pf(3,4) by (simp_all flip: ht(2))
  ultimately show ?thesis using pf(1) ht(2)
    unfolding read_qc8_def Let_def pf(2) ht(1,3) l o by simp
qed

lemma read_put_qc5e:
  assumes "put_qc5e out v None = Inr out'" "prefix out' data"
  shows "read_qc5e data (length out) = Inr (Integer v, length out')"
proof -
  from assms(1) obtain m l b where f: "find (\<lambda>(m, l, b). be_nat (compact_be v) < 2 ^ b) qc5e_modes = Some (m, l, b)"
    and o: "out' = out @ mode_payload m l (compact_be v)"
    by (auto simp: put_qc5e_eq split: option.splits)
  note found = found_mode [OF f qc5e_modes_valid]
  obtain h t where ht: "mode_payload m l (compact_be v) = h # t" "length t + 1 = l" "drop_bit 6 h = m"
    "be_nat ((h AND 0x3f) # t) = be_nat (compact_be v)"
    by (rule mode_payload_read [OF compact_be_hd found(1,2)])
  have l: "(if m = 1 then 5 else if m = 2 then 6 else 7) = l" "m \<noteq> 0"
    using found(3) by (auto simp: qc5e_modes_def)
  note pf = prefix_field [OF assms(2) [unfolded o ht(1)]]
  have "from_big_endian ((h AND 0x3f) # t) = v" using ht(4) by (simp only: from_big_endian_def) simp
  moreover have "subslice data (length out) (length out + l) = h # t" "length out + l \<le> length data"
    using pf(3,4) by (simp_all flip: ht(2))
  ultimately show ?thesis using pf(1) ht(2) l(2)
    unfolding read_qc5e_def Let_def pf(2) ht(1,3) l(1) o by simp
qed

lemma read_put_qc5e_enum:
  assumes "e < 64" "prefix (out @ [e]) data"
  shows "read_qc5e data (length out) = Inr (Enum e, length out + 1)"
proof -
  have e: "unat e < 64" using assms(1) by (simp add: word_less_nat_alt)
  have "drop_bit 6 e = 0" "e AND 0x3f = e"
    using mode_byte(2,3) [OF e, of 0] by simp_all
  with prefix_field [of out e "[]" data] assms(2) show ?thesis
    by (simp add: read_qc5e_def Let_def)
qed

lemma put_qc5e_appends: "put_qc5e out v e = Inr out' \<Longrightarrow> prefix out out' \<and> out' \<noteq> out"
proof (cases e)
  case None
  then show "put_qc5e out v e = Inr out' \<Longrightarrow> prefix out out' \<and> out' \<noteq> out"
    by (auto simp: put_qc5e_eq mode_payload_def Let_def split: option.splits)
qed (auto simp: put_qc5e_def rbind_Inr_iff)

interpretation qc8_field: wire_field put_qc8 read_qc8
  by unfold_locales
    (auto simp: read_put_qc8, auto simp: put_qc8_eq mode_payload_def Let_def split: option.splits)

text \<open>The three uses of \<open>qc5e\<close> in a block record: gas limit and the two base prices.\<close>

definition put_gas_limit :: "bytes \<Rightarrow> u256 \<Rightarrow> bytes pack_result" where
  "put_gas_limit out v = put_qc5e out v (qc5e_gas_limit_enum v)"

definition read_gas_limit :: "bytes \<Rightarrow> nat \<Rightarrow> (u256 \<times> nat) pack_result" where
  "read_gas_limit data offset = rbind (read_qc5e data offset) (\<lambda>(q, offset). Inr (gas_limit q, offset))"

definition put_base_price :: "bool \<Rightarrow> bytes \<Rightarrow> u256 \<Rightarrow> bytes pack_result" where
  "put_base_price espace out v = put_qc5e out v (qc5e_base_price_enum v espace)"

definition read_base_price :: "bool \<Rightarrow> bytes \<Rightarrow> nat \<Rightarrow> (u256 \<times> nat) pack_result" where
  "read_base_price espace data offset =
     rbind (read_qc5e data offset) (\<lambda>(q, offset). Inr (base_price q espace, offset))"

interpretation gas_limit_field: wire_field put_gas_limit read_gas_limit
proof unfold_locales
  fix out v out' data
  assume p: "put_gas_limit out v = Inr out'"
  then show "prefix out out' \<and> out' \<noteq> out"
    unfolding put_gas_limit_def by (rule put_qc5e_appends)
  assume d: "prefix out' data"
  show "read_gas_limit data (length out) = Inr (v, length out')"
  proof (cases "qc5e_gas_limit_enum v")
    case None
    with p d read_put_qc5e [of out v out' data] show ?thesis
      by (simp add: put_gas_limit_def read_gas_limit_def)
  next
    case (Some e)
    then have e: "e < 64" "gas_limit (Enum e) = v"
      by (auto simp: qc5e_gas_limit_enum_def split: if_splits)
    with p Some have "out' = out @ [e]" by (simp add: put_gas_limit_def put_qc5e_def)
    with e d read_put_qc5e_enum [OF e(1), of out data] show ?thesis
      by (simp add: read_gas_limit_def del: gas_limit.simps)
  qed
qed

interpretation base_price_field: wire_field "put_base_price espace" "read_base_price espace" for espace
proof unfold_locales
  fix out v out' data
  assume p: "put_base_price espace out v = Inr out'"
  then show "prefix out out' \<and> out' \<noteq> out"
    unfolding put_base_price_def by (rule put_qc5e_appends)
  assume d: "prefix out' data"
  show "read_base_price espace data (length out) = Inr (v, length out')"
  proof (cases "qc5e_base_price_enum v espace")
    case None
    with p d read_put_qc5e [of out v out' data] show ?thesis
      by (simp add: put_base_price_def read_base_price_def)
  next
    case (Some e)
    then have e: "e < 64" "base_price (Enum e) espace = v"
      by (auto simp: qc5e_base_price_enum_def Let_def split: if_splits)
    with p Some have "out' = out @ [e]" by (simp add: put_base_price_def put_qc5e_def)
    with e d read_put_qc5e_enum [OF e(1), of out data] show ?thesis
      by (simp add: read_base_price_def del: base_price.simps)
  qed
qed

subsection \<open>Padding\<close>

lemma align_to_props:
  assumes "0 < align"
  shows "align dvd length (align_to out align)" "prefix out (align_to out align)"
    "length (align_to out align) < length out + align"
proof -
  let ?r = "length out mod align"
  have r: "?r < align" using assms by simp
  have "length (align_to out align) = (length out - ?r) + (if ?r = 0 then 0 else align)"
    using r by (cases "?r = 0") (simp_all add: align_to_def Let_def)
  moreover have "align dvd (length out - ?r) + (if ?r = 0 then 0 else align)"
    by (intro dvd_add dvd_minus_mod) simp
  ultimately show "align dvd length (align_to out align)" by (simp only:)
  show "prefix out (align_to out align)" by (simp add: align_to_def Let_def)
  show "length (align_to out align) < length out + align"
    using assms by (simp add: align_to_def Let_def)
qed

end
