(* ===== verification/Packet_Types.thy ===== *)
theory Packet_Types
  imports Pack_Codec_Correct Mpt_Types
begin

text \<open>
  \<open>crates/cfxpack/src/packet/mod.rs\<close>: the packet, its blocks and their flags, and the code the
  packet format uses from other crates.

  \<open>SignedTransaction\<close> (crate \<open>primitives\<close>) is a type parameter \<open>'t\<close>; \<open>AccessListItem\<close> and
  \<open>AuthorizationListItem\<close> are \<open>'acc\<close> and \<open>'auth\<close>; the methods that are called on them, the RLP
  library and the snappy codec are the fields of the records \<open>tx_lib\<close>, \<open>rlp_lib\<close> and \<open>snap_lib\<close>, of
  which nothing is assumed here. \<open>cfx_types::Address\<close> is the type of the lists of 20 bytes.
\<close>

typedef address = "{bs :: bytes. length bs = 20}"
  morphisms address_bytes Address
  by (rule exI [of _ "replicate 20 0"]) simp

setup_lifting type_definition_address

lemma length_address_bytes [simp]: "length (address_bytes a) = 20"
  using address_bytes [of a] by simp

lemma address_bytes_Address [simp]: "length bs = 20 \<Longrightarrow> address_bytes (Address bs) = bs"
  by (simp add: Address_inverse)

lemma Address_address_bytes [simp]: "Address (address_bytes a) = a"
  by (rule address_bytes_inverse)

lemma address_bytes_eq_iff [simp]: "address_bytes a = address_bytes b \<longleftrightarrow> a = b"
  by (rule address_bytes_inject)

instantiation address :: equal
begin

definition equal_address :: "address \<Rightarrow> address \<Rightarrow> bool" where
  "equal_address a b \<longleftrightarrow> address_bytes a = address_bytes b"

instance by standard (simp add: equal_address_def)

end

lift_definition Address_zero :: address is "replicate 20 (0 :: u8)"
  by simp

subsection \<open>Constants\<close>

definition PACKET_EPOCHS :: u64 where "PACKET_EPOCHS = 2000"
definition HEADER_FIXED_LEN :: nat where "HEADER_FIXED_LEN = 93"
definition HEADER_OFFSET_COUNT :: nat where "HEADER_OFFSET_COUNT = 8"
definition HEADER_LEN :: nat where "HEADER_LEN = HEADER_FIXED_LEN + HEADER_OFFSET_COUNT * 4"

definition FLAG_ADAPTIVE :: u8 where "FLAG_ADAPTIVE = push_bit 0 1"
definition FLAG_PIVOT :: u8 where "FLAG_PIVOT = push_bit 1 1"
definition FLAG_ESPACE :: u8 where "FLAG_ESPACE = push_bit 2 1"
definition FLAG_HAS_TRANSACTIONS :: u8 where "FLAG_HAS_TRANSACTIONS = push_bit 3 1"
definition FLAG_TX_COMPRESSED :: u8 where "FLAG_TX_COMPRESSED = push_bit 4 1"
definition FLAG_SKIPPED_EXECUTION :: u8 where "FLAG_SKIPPED_EXECUTION = push_bit 5 1"
definition FLAG_ZERO_TOTAL_REWARD :: u8 where "FLAG_ZERO_TOTAL_REWARD = push_bit 6 1"

lemma header_lens [simp]:
  "HEADER_FIXED_LEN = 93" "HEADER_OFFSET_COUNT = 8" "HEADER_LEN = 125"
  by (simp_all add: HEADER_FIXED_LEN_def HEADER_OFFSET_COUNT_def HEADER_LEN_def)

subsection \<open>Packets\<close>

record pos_lookup_entry =
  pl_hash :: h256
  pl_height_offset :: u16

record sender_base_nonce =
  sn_sender_index :: nat
  sn_base_nonce :: u64

record pos_reward_account =
  pra_address :: address
  pra_pos_identifier :: h256
  pra_reward :: u256

record pos_reward_entry =
  pre_account_rewards :: "pos_reward_account list"
  pre_execution_epoch_hash :: h256

record unlock_entry =
  ue_identifier :: h256
  ue_unlocked :: u64

record 't block =
  b_epoch :: u64
  b_index :: nat
  b_hash :: h256
  b_deferred_state_root :: h256
  b_deferred_receipts_root :: h256
  b_deferred_logs_bloom_hash :: h256
  b_flags :: u8
  b_author :: address
  b_timestamp :: u64
  b_difficulty :: u256
  b_gas_limit :: u256
  b_base_price_core :: u256
  b_base_price_espace :: u256
  b_height :: u64
  b_blame :: u64
  b_finalized_epoch :: u64
  b_base_reward :: u256
  b_transactions :: "'t list"
  b_transaction_refs :: "(nat \<times> nat) option list"
  b_pos_rewards :: "pos_reward_entry list"
  b_unlock_events :: "unlock_entry list"
  b_pos_view :: "u64 option"

record 't packet =
  p_prev_last_hash :: h256
  p_prev_last_deferred_state_root :: h256
  p_first_block_number :: u64
  p_min_timestamp :: u64
  p_min_height :: u64
  p_min_pos_height :: u64
  p_addresses :: "address list"
  p_pos_entries :: "pos_lookup_entry list"
  p_difficulties :: "u256 list"
  p_sender_base_nonces :: "sender_base_nonce list"
  p_gas_prices :: "u256 list"
  p_blocks :: "'t block list"

subsection \<open>Transactions as the sources build and read them\<close>

datatype action = Create | Call address

record native_transaction =
  nt_nonce :: u256
  nt_gas_price :: u256
  nt_gas :: u256
  nt_action :: action
  nt_value :: u256
  nt_storage_limit :: u64
  nt_epoch_height :: u64
  nt_chain_id :: u32
  nt_data :: bytes

record ethereum_fields =
  et_nonce :: u256
  et_gas_price :: u256
  et_gas :: u256
  et_value :: u256
  et_data :: bytes

text \<open>
  \<open>Cip1559 tx priority accs\<close> holds \<open>max_fee_per_gas\<close> in \<open>nt_gas_price\<close> and
  \<open>max_priority_fee_per_gas\<close> in \<open>priority\<close>; likewise \<open>Eip1559\<close> and \<open>Eip7702\<close>. The chain ids are the
  constants the decoder writes: 0, and \<open>None\<close> for \<open>Eip155\<close>.
\<close>

datatype 'acc typed_native_transaction =
    Cip155 native_transaction
  | Cip2930 native_transaction "'acc list"
  | Cip1559 native_transaction u256 "'acc list"

datatype ('acc, 'auth) ethereum_transaction =
    Eip155 ethereum_fields action
  | Eip2930 ethereum_fields action "'acc list"
  | Eip1559 ethereum_fields action u256 "'acc list"
  | Eip7702 ethereum_fields address u256 "'acc list" "'auth list"

text \<open>
  The methods of \<open>SignedTransaction\<close>: \<open>tl_native\<close> is \<open>Some (epoch_height, storage_limit)\<close> when
  \<open>transaction.unsigned\<close> is \<open>Native\<close>, and \<open>None\<close> when it is \<open>Ethereum\<close>. The last two are
  \<open>fake_sign_rpc\<close> in the native space and in the EVM space.
\<close>

record ('t, 'acc, 'auth) tx_lib =
  tl_hash :: "'t \<Rightarrow> h256"
  tl_sender :: "'t \<Rightarrow> address"
  tl_nonce :: "'t \<Rightarrow> u256"
  tl_native :: "'t \<Rightarrow> (u64 \<times> u64) option"
  tl_type_id :: "'t \<Rightarrow> u64"
  tl_gas_price :: "'t \<Rightarrow> u256"
  tl_max_priority_gas_price :: "'t \<Rightarrow> u256"
  tl_gas :: "'t \<Rightarrow> u256"
  tl_action :: "'t \<Rightarrow> action"
  tl_value :: "'t \<Rightarrow> u256"
  tl_data :: "'t \<Rightarrow> bytes"
  tl_access_list :: "'t \<Rightarrow> 'acc list option"
  tl_authorization_list :: "'t \<Rightarrow> 'auth list option"
  tl_sign_native :: "'acc typed_native_transaction \<Rightarrow> address \<Rightarrow> 't"
  tl_sign_ethereum :: "('acc, 'auth) ethereum_transaction \<Rightarrow> address \<Rightarrow> 't"

subsection \<open>RLP and snappy\<close>

text \<open>
  What is appended to an \<open>RlpStream\<close>: \<open>Rlp_list n items\<close> is \<open>begin_list(n)\<close> and the items that
  follow it. A reader \<open>'r\<close> is a \<open>Rlp\<close> view; \<open>val_at(i)\<close> is \<open>at(i)\<close> and the conversion to the type
  that is asked for.
\<close>

datatype ('acc, 'auth) rlp_item =
    Rlp_u8 u8
  | Rlp_u64 u64
  | Rlp_bytes bytes
  | Rlp_access_list "'acc list"
  | Rlp_authorization_list "'auth list"
  | Rlp_list nat "('acc, 'auth) rlp_item list"

record ('r, 'acc, 'auth) rlp_lib =
  rlp_out :: "('acc, 'auth) rlp_item \<Rightarrow> bytes"
  rlp_new :: "bytes \<Rightarrow> 'r"
  rlp_item_count :: "'r \<Rightarrow> nat pack_result"
  rlp_at :: "'r \<Rightarrow> nat \<Rightarrow> 'r pack_result"
  rlp_u8 :: "'r \<Rightarrow> u8 pack_result"
  rlp_u64 :: "'r \<Rightarrow> u64 pack_result"
  rlp_bytes :: "'r \<Rightarrow> bytes pack_result"
  rlp_access_list :: "'r \<Rightarrow> 'acc list pack_result"
  rlp_authorization_list :: "'r \<Rightarrow> 'auth list pack_result"

record snap_lib =
  snap_compress :: "bytes \<Rightarrow> bytes pack_result"
  snap_decompress :: "bytes \<Rightarrow> bytes pack_result"

definition val_u8 :: "('r, 'acc, 'auth) rlp_lib \<Rightarrow> 'r \<Rightarrow> nat \<Rightarrow> u8 pack_result" where
  "val_u8 R item i = rbind (rlp_at R item i) (rlp_u8 R)"

definition val_u64 :: "('r, 'acc, 'auth) rlp_lib \<Rightarrow> 'r \<Rightarrow> nat \<Rightarrow> u64 pack_result" where
  "val_u64 R item i = rbind (rlp_at R item i) (rlp_u64 R)"

definition val_bytes :: "('r, 'acc, 'auth) rlp_lib \<Rightarrow> 'r \<Rightarrow> nat \<Rightarrow> bytes pack_result" where
  "val_bytes R item i = rbind (rlp_at R item i) (rlp_bytes R)"

text \<open>Two words of the standard library on \<open>u64\<close>.\<close>

definition checked_sub :: "u64 \<Rightarrow> u64 \<Rightarrow> u64 option" where
  "checked_sub a b = (if b \<le> a then Some (a - b) else None)"

definition saturating_sub :: "u64 \<Rightarrow> u64 \<Rightarrow> u64" where
  "saturating_sub a b = (if b \<le> a then a - b else 0)"

text \<open>\<open>iter().position(P)\<close>, and the test that finds the pivot of an epoch group.\<close>

fun first_index :: "('a \<Rightarrow> bool) \<Rightarrow> 'a list \<Rightarrow> nat option" where
  "first_index P [] = None"
| "first_index P (x # xs) = (if P x then Some 0 else map_option Suc (first_index P xs))"

lemma first_index_Some:
  "first_index P xs = Some i \<longleftrightarrow> i < length xs \<and> P (xs ! i) \<and> (\<forall>j < i. \<not> P (xs ! j))"
proof (induction xs arbitrary: i)
  case (Cons x xs)
  then show ?case by (cases i) (auto simp: nth_Cons' split: nat.splits)
qed simp

lemma first_index_None: "first_index P xs = None \<longleftrightarrow> (\<forall>x \<in> set xs. \<not> P x)"
  by (induction xs) auto

definition is_pivot :: "'t block \<Rightarrow> bool" where
  "is_pivot b \<longleftrightarrow> b_flags b AND FLAG_PIVOT \<noteq> 0"

end
