(* ===== verification/Packet_Encode.thy ===== *)
theory Packet_Encode
  imports Packet_Types
begin

text \<open>
  \<open>crates/cfxpack/src/packet/encode.rs\<close>: the encoder. A \<open>HashMap\<close> is a partial function; the
  output buffer is passed and returned.
\<close>

subsection \<open>Tables\<close>

text \<open>\<open>enumerate\<close> and \<open>collect\<close> into a \<open>HashMap\<close>: the last of equal values wins.\<close>

definition index_table :: "'a list \<Rightarrow> 'a \<Rightarrow> nat option" where
  "index_table values = map_of (rev (zip values [0..<length values]))"

definition index_addresses :: "address list \<Rightarrow> address \<Rightarrow> nat option" where
  "index_addresses values = index_table values"

definition index_u256 :: "u256 list \<Rightarrow> u256 \<Rightarrow> nat option" where
  "index_u256 values = index_table values"

definition sender_nonce_index_of :: "sender_base_nonce list \<Rightarrow> nat \<Rightarrow> u64 option" where
  "sender_nonce_index_of ns = map_of (rev (map (\<lambda>x. (sn_sender_index x, sn_base_nonce x)) ns))"

subsection \<open>Validation\<close>

definition check_block :: "nat \<Rightarrow> u64 \<Rightarrow> 't block \<Rightarrow> unit pack_result" where
  "check_block expected_index epoch b =
     rbind (ensure (b_index b = expected_index) (Bail ''block index is not sequential'')) (\<lambda>_.
     rbind (ensure (b_flags b AND 0x80 = 0) (Bail ''reserved block flag bit (bit 7) must be zero'')) (\<lambda>_.
       ensure (b_epoch b = epoch) (Bail ''block epoch must match its pivot block height'')))"

fun check_blocks :: "nat \<Rightarrow> u64 \<Rightarrow> 't block list \<Rightarrow> unit pack_result" where
  "check_blocks expected_index epoch [] = Inr ()"
| "check_blocks expected_index epoch (b # bs) =
     rbind (check_block expected_index epoch b) (\<lambda>_. check_blocks (Suc expected_index) epoch bs)"

text \<open>The loop over the epoch groups; \<open>bs\<close> is \<open>blocks[group_start..]\<close>.\<close>

function validate_groups :: "nat \<Rightarrow> 't block list \<Rightarrow> unit pack_result" where
  "validate_groups expected_index bs =
     (if bs = [] then Inr ()
      else case first_index is_pivot bs of
             None \<Rightarrow> Inl (Bail ''packet input epoch group has no pivot block'')
           | Some pivot \<Rightarrow>
               rbind (check_blocks expected_index (b_height (bs ! pivot)) (take (Suc pivot) bs)) (\<lambda>_.
                 validate_groups (expected_index + Suc pivot) (drop (Suc pivot) bs)))"
  by auto
termination
  by (relation "measure (\<lambda>(_, bs). length bs)") auto

declare validate_groups.simps [simp del]

definition validate_input :: "'t packet \<Rightarrow> unit pack_result" where
  "validate_input p =
     rbind (ensure (p_blocks p \<noteq> []) (Bail ''packet has no blocks'')) (\<lambda>_.
     rbind (ensure (b_epoch (hd (p_blocks p)) \<le> b_epoch (hd (p_blocks p)) + PACKET_EPOCHS)
              (Bail ''invalid epoch range'')) (\<lambda>_.
       validate_groups 0 (p_blocks p)))"

subsection \<open>Block records\<close>

definition encode_block_record ::
  "'t block \<Rightarrow> u8 \<Rightarrow> u64 \<Rightarrow> 't packet \<Rightarrow> (address \<Rightarrow> nat option) \<Rightarrow> (u256 \<Rightarrow> nat option) \<Rightarrow> bytes pack_result" where
  "encode_block_record b flags tx_segment_offset input address_index difficulty_index =
     (let out = as_bytes (b_hash b)
            @ take 4 (as_bytes (b_deferred_state_root b))
            @ take 4 (as_bytes (b_deferred_receipts_root b))
            @ take 4 (as_bytes (b_deferred_logs_bloom_hash b)) @ [flags]
      in rbind (ok_or (address_index (b_author b)) (Bail ''missing author in address table'')) (\<lambda>author.
         let out = put_uleb128 out (of_nat author) in
         rbind (ok_or (checked_sub (b_timestamp b) (p_min_timestamp input))
                  (Bail ''timestamp below min_timestamp'')) (\<lambda>timestamp.
         let out = put_uleb128 out timestamp in
         rbind (ok_or (difficulty_index (b_difficulty b))
                  (Bail ''missing difficulty in lookup table'')) (\<lambda>difficulty.
         let out = put_uleb128 out (of_nat difficulty) in
         rbind (put_qc5e out (b_gas_limit b) (qc5e_gas_limit_enum (b_gas_limit b))) (\<lambda>out.
         rbind (put_qc5e out (b_base_price_core b)
                  (qc5e_base_price_enum (b_base_price_core b) False)) (\<lambda>out.
         rbind (put_qc5e out (b_base_price_espace b)
                  (qc5e_base_price_enum (b_base_price_espace b) True)) (\<lambda>out.
         rbind (ok_or (checked_sub (b_height b) (p_min_height input))
                  (Bail ''height below min_height'')) (\<lambda>height.
         let out = put_uleb128 out height;
             out = put_uleb128 out (b_blame b);
             out = put_uleb128 out (b_finalized_epoch b);
             out = put_uleb128 out tx_segment_offset in
         rbind (put_qc8 out (b_base_reward b)) (\<lambda>out.
           Inr (case b_pos_view b of
                  Some pos_view \<Rightarrow> put_uleb128 out (saturating_sub pos_view (p_min_pos_height input))
                | None \<Rightarrow> out))))))))))"

subsection \<open>Transaction payloads\<close>

definition encode_action :: "(address \<Rightarrow> nat option) \<Rightarrow> action \<Rightarrow> ('acc, 'auth) rlp_item pack_result" where
  "encode_action address_index a =
     (case a of
        Create \<Rightarrow> Inr (Rlp_list 1 [Rlp_u8 0])
      | Call addr \<Rightarrow>
          rbind (ok_or (address_index addr) (Bail ''missing action address in address table''))
            (\<lambda>i. Inr (Rlp_list 2 [Rlp_u8 1, Rlp_u64 (of_nat i)])))"

definition encode_price :: "u256 \<Rightarrow> (u256 \<Rightarrow> nat option) \<Rightarrow> ('acc, 'auth) rlp_item" where
  "encode_price v gas_price_index =
     (case gas_price_index v of
        Some i \<Rightarrow> Rlp_list 2 [Rlp_u8 0, Rlp_u64 (of_nat i)]
      | None \<Rightarrow> Rlp_list 2 [Rlp_u8 1, Rlp_bytes (u256_to_be v)])"

definition low_u64 :: "u256 \<Rightarrow> u64" where
  "low_u64 v = ucast v"

definition encode_tx ::
  "('t, 'acc, 'auth) tx_lib \<Rightarrow> u64 \<Rightarrow> 't \<Rightarrow> (address \<Rightarrow> nat option) \<Rightarrow> (u256 \<Rightarrow> nat option) \<Rightarrow>
   (nat \<Rightarrow> u64 option) \<Rightarrow> ('acc, 'auth) rlp_item pack_result" where
  "encode_tx T block_epoch tx address_index gas_price_index sender_nonce_index =
     rbind (ok_or (address_index (tl_sender T tx)) (Bail ''missing sender in address table'')) (\<lambda>sender.
       let nonce = low_u64 (tl_nonce T tx);
           encoded_nonce = (case sender_nonce_index sender of
                              Some base \<Rightarrow> saturating_sub nonce base | None \<Rightarrow> nonce);
           access = (case tl_access_list T tx of Some l \<Rightarrow> [Rlp_access_list l] | None \<Rightarrow> []);
           auths = (case tl_authorization_list T tx of Some l \<Rightarrow> [Rlp_authorization_list l] | None \<Rightarrow> [])
       in case tl_native T tx of
            Some (epoch_height, storage_limit) \<Rightarrow>
              rbind (encode_action address_index (tl_action T tx)) (\<lambda>act.
                let epoch_delta = epoch_height - block_epoch
                in Inr (Rlp_list (if tl_access_list T tx \<noteq> None then 13 else 12)
                     ([Rlp_u8 0, Rlp_u64 (tl_type_id T tx), Rlp_u64 (of_nat sender), Rlp_u64 encoded_nonce,
                       encode_price (tl_gas_price T tx) gas_price_index,
                       encode_price (tl_max_priority_gas_price T tx) gas_price_index,
                       Rlp_u64 (low_u64 (tl_gas T tx)), act, Rlp_bytes (u256_to_be (tl_value T tx)),
                       Rlp_u64 storage_limit, Rlp_u64 (zigzag_encode epoch_delta),
                       Rlp_bytes (tl_data T tx)] @ access)))
          | None \<Rightarrow>
              rbind (encode_action address_index (tl_action T tx)) (\<lambda>act.
                Inr (Rlp_list (10 + (if tl_access_list T tx \<noteq> None then 1 else 0)
                                  + (if tl_authorization_list T tx \<noteq> None then 1 else 0))
                     ([Rlp_u8 2, Rlp_u64 (tl_type_id T tx), Rlp_u64 (of_nat sender), Rlp_u64 encoded_nonce,
                       encode_price (tl_gas_price T tx) gas_price_index,
                       encode_price (tl_max_priority_gas_price T tx) gas_price_index,
                       Rlp_u64 (low_u64 (tl_gas T tx)), act, Rlp_bytes (u256_to_be (tl_value T tx)),
                       Rlp_bytes (tl_data T tx)] @ access @ auths))))"

definition encode_pos_reward :: "pos_reward_entry \<Rightarrow> ('acc, 'auth) rlp_item" where
  "encode_pos_reward e =
     Rlp_list 3
       [Rlp_u8 3,
        Rlp_list (length (pre_account_rewards e))
          (map (\<lambda>r. Rlp_list 3 [Rlp_bytes (address_bytes (pra_address r)),
                               Rlp_bytes (as_bytes (pra_pos_identifier r)),
                               Rlp_bytes (u256_to_be (pra_reward r))]) (pre_account_rewards e)),
        Rlp_bytes (as_bytes (pre_execution_epoch_hash e))]"

definition encode_unlock_event :: "unlock_entry \<Rightarrow> ('acc, 'auth) rlp_item" where
  "encode_unlock_event e =
     Rlp_list 3 [Rlp_u8 4, Rlp_bytes (as_bytes (ue_identifier e)), Rlp_u64 (ue_unlocked e)]"

definition encode_ref :: "nat \<times> nat \<Rightarrow> ('acc, 'auth) rlp_item" where
  "encode_ref r = Rlp_list 3 [Rlp_u8 1, Rlp_u64 (of_nat (fst r)), Rlp_u64 (of_nat (snd r))]"

text \<open>The transactions of a block from \<open>tx_index\<close> on, with the first places of the hashes seen.\<close>

type_synonym seen = "h256 \<Rightarrow> (nat \<times> nat) option"

fun encode_txs ::
  "('t, 'acc, 'auth) tx_lib \<Rightarrow> 't block \<Rightarrow> (address \<Rightarrow> nat option) \<Rightarrow> (u256 \<Rightarrow> nat option) \<Rightarrow>
   (nat \<Rightarrow> u64 option) \<Rightarrow> nat \<Rightarrow> 't list \<Rightarrow> seen \<Rightarrow> (('acc, 'auth) rlp_item list \<times> seen) pack_result" where
  "encode_txs T b ai gi ni tx_index [] seen_txs = Inr ([], seen_txs)"
| "encode_txs T b ai gi ni tx_index (tx # txs) seen_txs =
     (let encoded_refs = length (b_transaction_refs b) = length (b_transactions b);
          duplicate_ref = (if encoded_refs then b_transaction_refs b ! tx_index
                           else seen_txs (tl_hash T tx))
      in case duplicate_ref of
           Some r \<Rightarrow>
             rbind (encode_txs T b ai gi ni (Suc tx_index) txs seen_txs) (\<lambda>(items, seen_txs).
               Inr (encode_ref r # items, seen_txs))
         | None \<Rightarrow>
             (let seen_txs = (if encoded_refs then seen_txs
                              else seen_txs(tl_hash T tx \<mapsto> (b_index b, tx_index)))
              in rbind (encode_tx T (b_epoch b) tx ai gi ni) (\<lambda>item.
                 rbind (encode_txs T b ai gi ni (Suc tx_index) txs seen_txs) (\<lambda>(items, seen_txs).
                   Inr (item # items, seen_txs)))))"

definition encode_tx_payload ::
  "('t, 'acc, 'auth) tx_lib \<Rightarrow> ('r, 'acc, 'auth) rlp_lib \<Rightarrow> 't block \<Rightarrow> (address \<Rightarrow> nat option) \<Rightarrow>
   (u256 \<Rightarrow> nat option) \<Rightarrow> (nat \<Rightarrow> u64 option) \<Rightarrow> seen \<Rightarrow> (bytes \<times> seen) pack_result" where
  "encode_tx_payload T R b ai gi ni seen_txs =
     (if b_transactions b = [] \<and> b_pos_rewards b = [] \<and> b_unlock_events b = []
      then Inr ([], seen_txs)
      else rbind (encode_txs T b ai gi ni 0 (b_transactions b) seen_txs) (\<lambda>(items, seen_txs).
        Inr (rlp_out R
               (Rlp_list (length (b_transactions b) + length (b_pos_rewards b) + length (b_unlock_events b))
                 (items @ map encode_pos_reward (b_pos_rewards b)
                        @ map encode_unlock_event (b_unlock_events b))),
             seen_txs)))"

fun encode_payloads ::
  "('t, 'acc, 'auth) tx_lib \<Rightarrow> ('r, 'acc, 'auth) rlp_lib \<Rightarrow> (address \<Rightarrow> nat option) \<Rightarrow>
   (u256 \<Rightarrow> nat option) \<Rightarrow> (nat \<Rightarrow> u64 option) \<Rightarrow> 't block list \<Rightarrow> seen \<Rightarrow> bytes list pack_result" where
  "encode_payloads T R ai gi ni [] seen_txs = Inr []"
| "encode_payloads T R ai gi ni (b # bs) seen_txs =
     rbind (encode_tx_payload T R b ai gi ni seen_txs) (\<lambda>(payload, seen_txs).
     rbind (encode_payloads T R ai gi ni bs seen_txs) (\<lambda>payloads.
       Inr (payload # payloads)))"

subsection \<open>Records and the transaction segment\<close>

text \<open>One block of the second loop: its flags, its offset and the segment behind it.\<close>

definition place_payload :: "snap_lib \<Rightarrow> u8 \<Rightarrow> bytes \<Rightarrow> bytes \<Rightarrow> (u8 \<times> u64 \<times> bytes) pack_result" where
  "place_payload S block_flags tx_payload tx_segment =
     (let flags = block_flags AND NOT (FLAG_HAS_TRANSACTIONS OR FLAG_TX_COMPRESSED)
      in if tx_payload = [] then Inr (flags, 0, tx_segment)
         else
           let flags = flags OR FLAG_HAS_TRANSACTIONS;
               tx_segment = align_to tx_segment 4;
               offset = length tx_segment div 4
           in rbind (if 512 < length tx_payload
                     then rbind (snap_compress S tx_payload) (\<lambda>c. Inr (flags OR FLAG_TX_COMPRESSED, c))
                     else Inr (flags, tx_payload)) (\<lambda>(flags, payload).
                Inr (flags, of_nat offset,
                     put_uleb128 tx_segment (of_nat (length payload)) @ payload)))"

fun encode_records ::
  "snap_lib \<Rightarrow> 't packet \<Rightarrow> (address \<Rightarrow> nat option) \<Rightarrow> (u256 \<Rightarrow> nat option) \<Rightarrow>
   ('t block \<times> bytes) list \<Rightarrow> bytes \<Rightarrow> (bytes list \<times> bytes) pack_result" where
  "encode_records S input ai di [] tx_segment = Inr ([], tx_segment)"
| "encode_records S input ai di ((b, payload) # rest) tx_segment =
     rbind (place_payload S (b_flags b) payload tx_segment) (\<lambda>(flags, offset, tx_segment).
     rbind (encode_block_record b flags offset input ai di) (\<lambda>record.
     rbind (encode_records S input ai di rest tx_segment) (\<lambda>(records, tx_segment).
       Inr (record # records, tx_segment))))"

definition encode_blocks ::
  "('t, 'acc, 'auth) tx_lib \<Rightarrow> ('r, 'acc, 'auth) rlp_lib \<Rightarrow> snap_lib \<Rightarrow> 't packet \<Rightarrow>
   (address \<Rightarrow> nat option) \<Rightarrow> (u256 \<Rightarrow> nat option) \<Rightarrow> (nat \<Rightarrow> u64 option) \<Rightarrow> (u256 \<Rightarrow> nat option) \<Rightarrow>
   (bytes list \<times> bytes) pack_result" where
  "encode_blocks T R S input ai gi ni di =
     rbind (encode_payloads T R ai gi ni (p_blocks input) Map.empty) (\<lambda>tx_payloads.
       encode_records S input ai di (zip (p_blocks input) tx_payloads) [])"

subsection \<open>Layout\<close>

text \<open>The share \<open>p\<close> of the records that fit is compared exactly: \<open>p < 0.90\<close> is \<open>10 * fit < 9 * len\<close>.\<close>

function choose_prefix_size_from :: "bytes list \<Rightarrow> nat \<Rightarrow> nat" where
  "choose_prefix_size_from records n =
     (let fit = length (filter (\<lambda>r. length r \<le> n) records); len = length records
      in if n < 80 \<and> 10 * fit < 9 * len then choose_prefix_size_from records (n + 8)
         else if n < 96 \<and> 80 \<le> n \<and> 10 * fit < 7 * len then choose_prefix_size_from records (n + 8)
         else n)"
  by auto
termination
  by (relation "measure (\<lambda>(_, n). 96 - n)") auto

declare choose_prefix_size_from.simps [simp del]

definition choose_prefix_size :: "bytes list \<Rightarrow> nat" where
  "choose_prefix_size records = choose_prefix_size_from records 64"

fun pack_records :: "nat \<Rightarrow> nat \<Rightarrow> bytes list \<Rightarrow> bytes \<Rightarrow> bytes \<Rightarrow> bytes \<Rightarrow> bytes \<times> bytes \<times> bytes" where
  "pack_records prefix_size i [] bitmap body overflow = (bitmap, body, overflow)"
| "pack_records prefix_size i (record # records) bitmap body overflow =
     (let long = prefix_size < length record;
          bitmap = (if long then bitmap[i div 8 := bitmap ! (i div 8) OR push_bit (i mod 8) 1] else bitmap);
          prefix_len = min (length record) prefix_size;
          body = body @ take prefix_len record @ replicate (prefix_size - prefix_len) 0;
          rest = drop prefix_size record;
          overflow = (if long then put_uleb128 overflow (of_nat (length rest)) @ rest else overflow)
      in pack_records prefix_size (Suc i) records bitmap body overflow)"

definition pack_block_body :: "bytes list \<Rightarrow> nat \<Rightarrow> bytes \<times> bytes" where
  "pack_block_body records prefix_size =
     (let bitmap = replicate ((length records + 7) div 8) 0;
          (bitmap, body, overflow) = pack_records prefix_size 0 records bitmap [] []
      in (body @ overflow, bitmap))"

text \<open>\<open>out[pos..pos + n].copy_from_slice(bs)\<close> with \<open>n\<close> the length of \<open>bs\<close>.\<close>

definition copy_into :: "bytes \<Rightarrow> nat \<Rightarrow> bytes \<Rightarrow> bytes" where
  "copy_into out pos bs = take pos out @ bs @ drop (pos + length bs) out"

definition packet_header :: "'t packet \<Rightarrow> nat \<Rightarrow> bytes" where
  "packet_header input prefix_size =
     (let out = replicate HEADER_LEN 0;
          out = copy_into out 0 (as_bytes (p_prev_last_hash input));
          out = copy_into out 32 (as_bytes (p_prev_last_deferred_state_root input));
          out = copy_into out 64 (to_le_bytes 8 (p_first_block_number input));
          out = copy_into out 72 (to_le_bytes 8 (p_min_timestamp input));
          out = copy_into out 80 (to_le_bytes 8 (p_min_height input));
          out = copy_into out 88 (to_le_bytes 4 (ucast (p_min_pos_height input) :: u32))
      in out[92 := of_nat prefix_size])"

definition put_sender_nonce :: "sender_base_nonce \<Rightarrow> bytes \<Rightarrow> bytes" where
  "put_sender_nonce e out = put_uleb128 (put_uleb128 out (of_nat (sn_sender_index e))) (sn_base_nonce e)"

fun write_offsets :: "nat \<Rightarrow> nat list \<Rightarrow> bytes \<Rightarrow> bytes pack_result" where
  "write_offsets i [] out = Inr out"
| "write_offsets i (offset # offsets) out =
     (if offset < 2 ^ 32
      then write_offsets (Suc i) offsets
             (copy_into out (HEADER_FIXED_LEN + i * 4) (to_le_bytes 4 (of_nat offset :: u32)))
      else Inl (Bail ''packet offset exceeds u32''))"

definition assemble_packet ::
  "'t packet \<Rightarrow> nat \<Rightarrow> nat \<Rightarrow> bytes \<Rightarrow> bytes \<Rightarrow> bytes \<Rightarrow> bytes pack_result" where
  "assemble_packet input prefix_size block_count extension_bitmap block_body tx_segment =
     (let o0 = packet_header input prefix_size;
          o1 = o0 @ concat (map address_bytes (p_addresses input));
          o2 = o1 @ concat (map (\<lambda>e. as_bytes (pl_hash e) @ to_le_bytes 2 (pl_height_offset e))
                              (p_pos_entries input));
          o3 = o2 @ concat (map u256_to_be (p_difficulties input));
          o4 = fold put_sender_nonce (p_sender_base_nonces input) o3;
          o5 = align_to (o4 @ concat (map u256_to_be (p_gas_prices input))) 32;
          o6 = align_to (put_u32_le o5 (of_nat block_count) @ extension_bitmap) 32;
          o7 = align_to (o6 @ block_body) 64;
          out = o7 @ tx_segment;
          offsets = [length o0, length o1, length o2, length o3, length o4, length o5, length o6, length o7]
      in rbind (ensure (length offsets = HEADER_OFFSET_COUNT) (Bail ''internal offset count mismatch''))
           (\<lambda>_. write_offsets 0 offsets out))"

definition encode_packet ::
  "('t, 'acc, 'auth) tx_lib \<Rightarrow> ('r, 'acc, 'auth) rlp_lib \<Rightarrow> snap_lib \<Rightarrow> 't packet \<Rightarrow> bytes pack_result" where
  "encode_packet T R S input =
     rbind (validate_input input) (\<lambda>_.
       let ai = index_addresses (p_addresses input);
           di = index_u256 (p_difficulties input);
           gi = index_u256 (p_gas_prices input);
           ni = sender_nonce_index_of (p_sender_base_nonces input)
       in rbind (encode_blocks T R S input ai gi ni di) (\<lambda>(records, tx_segment).
            let prefix_size = choose_prefix_size records;
                (block_body, extension_bitmap) = pack_block_body records prefix_size
            in assemble_packet input prefix_size (length records) extension_bitmap block_body tx_segment))"

end
