(* ===== verification/Packet_Decode.thy ===== *)
theory Packet_Decode
  imports Packet_Types
begin

text \<open>
  \<open>crates/cfxpack/src/decode/mod.rs\<close> and \<open>decode/tx.rs\<close>: the decoder. Every error is a \<open>Bail\<close> and
  every index or slice that Rust checks at run time is a \<open>Pack_Panic\<close> when it is out of range.
\<close>

subsection \<open>Tables\<close>

definition table_get :: "'a list \<Rightarrow> nat \<Rightarrow> 'a pack_result" where
  "table_get table i =
     (if i < length table then Inr (table ! i) else Inl (Bail ''lookup table index out of bounds''))"

lemma table_get_returns [returns]: "table_get table i = Inr x \<longleftrightarrow> i < length table \<and> x = table ! i"
  by (auto simp: table_get_def)

text \<open>\<open>chunks_exact(n)\<close>: a last shorter chunk is dropped.\<close>

function chunks_exact :: "nat \<Rightarrow> bytes \<Rightarrow> bytes list" where
  "chunks_exact n data =
     (if n = 0 \<or> length data < n then [] else take n data # chunks_exact n (drop n data))"
  by auto
termination
  by (relation "measure (\<lambda>(n, data). length data)") auto

declare chunks_exact.simps [simp del]

definition decode_addresses :: "bytes \<Rightarrow> address list pack_result" where
  "decode_addresses data =
     rbind (ensure (length data mod 20 = 0) (Bail ''address table has trailing bytes'')) (\<lambda>_.
       Inr (map Address (chunks_exact 20 data)))"

definition decode_pos_entries :: "bytes \<Rightarrow> pos_lookup_entry list pack_result" where
  "decode_pos_entries data =
     rbind (ensure (length data mod 34 = 0) (Bail ''PoS table has trailing bytes'')) (\<lambda>_.
       Inr (map (\<lambda>chunk. \<lparr>pl_hash = H256 (take 32 chunk),
                          pl_height_offset = from_le_bytes [chunk ! 32, chunk ! 33]\<rparr>)
             (chunks_exact 34 data)))"

definition trim_zero_padding :: "bytes \<Rightarrow> nat \<Rightarrow> bytes pack_result" where
  "trim_zero_padding data alignment =
     (let trailing = length data mod alignment
      in if trailing = 0 then Inr data
         else let split = length data - trailing
              in rbind (ensure (list_all (\<lambda>b. b = 0) (drop split data)) (Bail ''non-zero table padding''))
                   (\<lambda>_. Inr (take split data)))"

definition decode_u256_table :: "bytes \<Rightarrow> u256 list pack_result" where
  "decode_u256_table data =
     rbind (trim_zero_padding data 32) (\<lambda>data.
     rbind (ensure (length data mod 32 = 0) (Bail ''U256 table has trailing bytes'')) (\<lambda>_.
       Inr (map from_big_endian (chunks_exact 32 data))))"

function decode_sender_base_nonces_from :: "bytes \<Rightarrow> nat \<Rightarrow> sender_base_nonce list pack_result" where
  "decode_sender_base_nonces_from data offset =
     (if offset < length data then
        rbind (read_uleb128 data offset) (\<lambda>(sender_index, offset1).
        rbind (read_uleb128 data offset1) (\<lambda>(base_nonce, offset2).
        rbind (decode_sender_base_nonces_from data offset2) (\<lambda>out.
          Inr (\<lparr>sn_sender_index = unat sender_index, sn_base_nonce = base_nonce\<rparr> # out))))
      else Inr [])"
  by auto
termination
  by (relation "measure (\<lambda>(data, offset). length data - offset)")
    (auto dest!: read_uleb128_bounds)

declare decode_sender_base_nonces_from.simps [simp del]

definition decode_sender_base_nonces :: "bytes \<Rightarrow> sender_base_nonce list pack_result" where
  "decode_sender_base_nonces data = decode_sender_base_nonces_from data 0"

definition decode_u256_bytes :: "bytes \<Rightarrow> u256 pack_result" where
  "decode_u256_bytes bytes =
     rbind (ensure (length bytes \<le> 32) (Bail ''U256 byte value exceeds 32 bytes'')) (\<lambda>_.
       Inr (from_big_endian bytes))"

definition h256_prefix :: "bytes \<Rightarrow> h256" where
  "h256_prefix pre = H256 (pre @ replicate (32 - length pre) 0)"

subsection \<open>Offsets\<close>

definition read_offsets :: "bytes \<Rightarrow> nat list pack_result" where
  "read_offsets data =
     traverse (\<lambda>i. rbind (read_u32_le data (HEADER_FIXED_LEN + i * 4)) (\<lambda>v. Inr (unat v)))
       [0..<HEADER_OFFSET_COUNT]"

fun ensure_offsets_from :: "nat \<Rightarrow> nat list \<Rightarrow> nat \<Rightarrow> unit pack_result" where
  "ensure_offsets_from previous [] len = Inr ()"
| "ensure_offsets_from previous (offset # offsets) len =
     rbind (ensure (previous \<le> offset) (Bail ''offset table is not monotonic'')) (\<lambda>_.
     rbind (ensure (offset \<le> len) (Bail ''offset exceeds packet length'')) (\<lambda>_.
       ensure_offsets_from offset offsets len))"

definition ensure_offsets :: "nat list \<Rightarrow> nat \<Rightarrow> unit pack_result" where
  "ensure_offsets offsets len = ensure_offsets_from HEADER_LEN offsets len"

definition valid_prefix_size :: "nat \<Rightarrow> bool" where
  "valid_prefix_size n \<longleftrightarrow> n = 64 \<or> n = 72 \<or> n = 80 \<or> n = 88 \<or> n = 96"

definition div_ceil8 :: "nat \<Rightarrow> nat" where
  "div_ceil8 n = (n + 7) div 8"

subsection \<open>Block records\<close>

definition peek_tx_offset_units :: "bytes \<Rightarrow> u64 pack_result" where
  "peek_tx_offset_units record =
     (let u = (\<lambda>offset. rbind (read_uleb128 record offset) (\<lambda>(_, offset). Inr offset));
          q = (\<lambda>offset. rbind (read_qc5e record offset) (\<lambda>(_, offset). Inr offset))
      in rbind (u 45) (\<lambda>offset. rbind (u offset) (\<lambda>offset. rbind (u offset) (\<lambda>offset.
         rbind (q offset) (\<lambda>offset. rbind (q offset) (\<lambda>offset. rbind (q offset) (\<lambda>offset.
         rbind (u offset) (\<lambda>offset. rbind (u offset) (\<lambda>offset. rbind (u offset) (\<lambda>offset.
         rbind (read_uleb128 record offset) (\<lambda>(v, _). Inr v)))))))))))"

record decoded_record =
  dr_bytes :: bytes
  dr_tx_offset_units :: u64

definition bitmap_bit :: "bytes \<Rightarrow> nat \<Rightarrow> bool" where
  "bitmap_bit bitmap i \<longleftrightarrow> bitmap ! (i div 8) AND push_bit (i mod 8) 1 \<noteq> 0"

text \<open>
  The record of one block: its prefix, and the overflow behind the offset where the bitmap has
  its bit.
\<close>

definition read_record :: "bytes \<Rightarrow> nat \<Rightarrow> nat \<Rightarrow> nat \<Rightarrow> bytes \<Rightarrow> nat \<Rightarrow> nat \<Rightarrow> (bytes \<times> nat) pack_result" where
  "read_record data block_body_offset tx_segment_offset prefix_size bitmap index overflow_offset =
     rbind (slice_of data (block_body_offset + index * prefix_size)
              (block_body_offset + (index + 1) * prefix_size)) (\<lambda>bytes.
       if bitmap_bit bitmap index then
         rbind (read_uleb128 data overflow_offset) (\<lambda>(len, overflow_offset).
           let end_offset = usize_add overflow_offset (unat len)
           in rbind (ensure (end_offset \<le> tx_segment_offset) (Bail ''block overflow exceeds tx segment'')) (\<lambda>_.
              rbind (slice_of data overflow_offset end_offset) (\<lambda>rest.
                Inr (bytes @ rest, end_offset))))
       else Inr (bytes, overflow_offset))"

fun decode_records_from ::
  "bytes \<Rightarrow> nat \<Rightarrow> nat \<Rightarrow> nat \<Rightarrow> bytes \<Rightarrow> nat \<Rightarrow> nat \<Rightarrow> nat \<Rightarrow> decoded_record list pack_result" where
  "decode_records_from data body_off tx_off prefix_size bitmap index overflow_offset 0 = Inr []"
| "decode_records_from data body_off tx_off prefix_size bitmap index overflow_offset (Suc n) =
     rbind (read_record data body_off tx_off prefix_size bitmap index overflow_offset) (\<lambda>(bytes, overflow_offset).
     rbind (peek_tx_offset_units bytes) (\<lambda>units.
     rbind (decode_records_from data body_off tx_off prefix_size bitmap (Suc index) overflow_offset n) (\<lambda>out.
       Inr (\<lparr>dr_bytes = bytes, dr_tx_offset_units = units\<rparr> # out))))"

definition decode_block_records ::
  "bytes \<Rightarrow> nat \<Rightarrow> nat \<Rightarrow> nat \<Rightarrow> nat \<Rightarrow> decoded_record list pack_result" where
  "decode_block_records data block_header_offset block_body_offset tx_segment_offset prefix_size =
     rbind (read_u32_le data block_header_offset) (\<lambda>v.
       let block_count = unat v; bitmap_len = div_ceil8 block_count
       in rbind (slice_of data (block_header_offset + 4) (block_header_offset + 4 + bitmap_len)) (\<lambda>bitmap.
          rbind (ensure (block_count * prefix_size < 2 ^ 64) (Bail ''block prefix size overflow'')) (\<lambda>_.
            let prefix_total = block_count * prefix_size
            in rbind (ensure (block_body_offset + prefix_total \<le> tx_segment_offset)
                        (Bail ''block prefix area exceeds tx segment'')) (\<lambda>_.
               decode_records_from data block_body_offset tx_segment_offset prefix_size bitmap 0
                 (block_body_offset + prefix_total) block_count))))"

definition decode_block_record ::
  "bytes \<Rightarrow> nat \<Rightarrow> u64 \<Rightarrow> u64 \<Rightarrow> u64 \<Rightarrow> u64 \<Rightarrow> address list \<Rightarrow> u256 list \<Rightarrow> 't block pack_result" where
  "decode_block_record record index min_timestamp min_height min_pos_height
     pos_reference_enable_height addresses difficulties =
     rbind (ensure (45 \<le> length record) (Bail ''block record too short'')) (\<lambda>_.
       let hash = H256 (subslice record 0 32);
           deferred_state_root = h256_prefix (subslice record 32 36);
           deferred_receipts_root = h256_prefix (subslice record 36 40);
           deferred_logs_bloom_hash = h256_prefix (subslice record 40 44);
           flags = record ! 44
       in rbind (read_uleb128 record 45) (\<lambda>(v, offset).
          rbind (table_get addresses (unat v)) (\<lambda>author.
          rbind (read_uleb128 record offset) (\<lambda>(v, offset).
          let timestamp = min_timestamp + v in
          rbind (read_uleb128 record offset) (\<lambda>(v, offset).
          rbind (table_get difficulties (unat v)) (\<lambda>difficulty.
          rbind (read_qc5e record offset) (\<lambda>(q, offset).
          let gas = gas_limit q in
          rbind (read_qc5e record offset) (\<lambda>(q, offset).
          let base_price_core = base_price q False in
          rbind (read_qc5e record offset) (\<lambda>(q, offset).
          let base_price_espace = base_price q True in
          rbind (read_uleb128 record offset) (\<lambda>(v, offset).
          let height = min_height + v in
          rbind (read_uleb128 record offset) (\<lambda>(blame, offset).
          rbind (read_uleb128 record offset) (\<lambda>(finalized_epoch, offset).
          rbind (read_uleb128 record offset) (\<lambda>(_, offset).
          rbind (read_qc8 record offset) (\<lambda>(base_reward, offset).
          rbind (if pos_reference_enable_height \<le> height
                 then rbind (read_uleb128 record offset) (\<lambda>(v, _). Inr (Some (min_pos_height + v)))
                 else Inr None) (\<lambda>pos_view.
            Inr \<lparr>b_epoch = 0, b_index = index, b_hash = hash,
                 b_deferred_state_root = deferred_state_root,
                 b_deferred_receipts_root = deferred_receipts_root,
                 b_deferred_logs_bloom_hash = deferred_logs_bloom_hash,
                 b_flags = flags, b_author = author, b_timestamp = timestamp,
                 b_difficulty = difficulty, b_gas_limit = gas,
                 b_base_price_core = base_price_core, b_base_price_espace = base_price_espace,
                 b_height = height, b_blame = blame, b_finalized_epoch = finalized_epoch,
                 b_base_reward = base_reward, b_transactions = [], b_transaction_refs = [],
                 b_pos_rewards = [], b_unlock_events = [], b_pos_view = pos_view\<rparr>)))))))))))))))"

subsection \<open>Epochs\<close>

text \<open>The loop over the epoch groups; the groups before \<open>bs\<close> are done.\<close>

function assign_epoch_from_pivots :: "'t block list \<Rightarrow> 't block list pack_result" where
  "assign_epoch_from_pivots bs =
     (if bs = [] then Inr []
      else case first_index is_pivot bs of
             None \<Rightarrow> Inl (Bail ''packet block list has no pivot for final epoch group'')
           | Some pivot \<Rightarrow>
               let epoch = b_height (bs ! pivot)
               in rbind (assign_epoch_from_pivots (drop (Suc pivot) bs)) (\<lambda>rest.
                    Inr (map (\<lambda>b. b\<lparr>b_epoch := epoch\<rparr>) (take (Suc pivot) bs) @ rest)))"
  by auto
termination
  by (relation "measure length") auto

declare assign_epoch_from_pivots.simps [simp del]

subsection \<open>Transactions\<close>

definition decode_price :: "('r, 'acc, 'auth) rlp_lib \<Rightarrow> 'r \<Rightarrow> u256 list \<Rightarrow> u256 pack_result" where
  "decode_price R item gas_prices =
     rbind (val_u8 R item 0) (\<lambda>mode.
       if mode = 0 then rbind (val_u64 R item 1) (\<lambda>i. table_get gas_prices (unat i))
       else if mode = 1 then rbind (val_bytes R item 1) decode_u256_bytes
       else Inl (Bail ''invalid gas price mode''))"

definition decode_action :: "('r, 'acc, 'auth) rlp_lib \<Rightarrow> 'r \<Rightarrow> address list \<Rightarrow> action pack_result" where
  "decode_action R item addresses =
     rbind (val_u8 R item 0) (\<lambda>mode.
       if mode = 0 then Inr Create
       else if mode = 1 then
         rbind (val_u64 R item 1) (\<lambda>i. rbind (table_get addresses (unat i)) (\<lambda>a. Inr (Call a)))
       else Inl (Bail ''invalid action mode''))"

definition optional_access_list :: "('r, 'acc, 'auth) rlp_lib \<Rightarrow> 'r \<Rightarrow> nat \<Rightarrow> 'acc list pack_result" where
  "optional_access_list R item i =
     rbind (rlp_item_count R item) (\<lambda>n.
       if i < n then rbind (rlp_at R item i) (rlp_access_list R) else Inr [])"

definition optional_authorization_list :: "('r, 'acc, 'auth) rlp_lib \<Rightarrow> 'r \<Rightarrow> nat \<Rightarrow> 'auth list pack_result" where
  "optional_authorization_list R item i =
     rbind (rlp_item_count R item) (\<lambda>n.
       if i < n then rbind (rlp_at R item i) (rlp_authorization_list R) else Inr [])"

definition decode_native_tx ::
  "('t, 'acc, 'auth) tx_lib \<Rightarrow> ('r, 'acc, 'auth) rlp_lib \<Rightarrow> 'r \<Rightarrow> u64 \<Rightarrow> address \<Rightarrow> u64 \<Rightarrow>
   u256 \<Rightarrow> u256 \<Rightarrow> u256 \<Rightarrow> u256 \<Rightarrow> action \<Rightarrow> u256 \<Rightarrow> 't pack_result" where
  "decode_native_tx T R item type_id sender block_epoch nonce gas_price priority_price gas action v =
     rbind (val_u64 R item 9) (\<lambda>storage_limit.
     rbind (val_u64 R item 10) (\<lambda>z.
     let epoch_delta = zigzag_decode z in
     rbind (val_bytes R item 11) (\<lambda>data.
     rbind (optional_access_list R item 12) (\<lambda>access_list.
     let epoch_height = block_epoch + epoch_delta;
         fields = \<lparr>nt_nonce = nonce, nt_gas_price = gas_price, nt_gas = gas, nt_action = action,
                   nt_value = v, nt_storage_limit = storage_limit, nt_epoch_height = epoch_height,
                   nt_chain_id = 0, nt_data = data\<rparr>
     in rbind (if type_id = 0 then Inr (Cip155 fields)
               else if type_id = 1 then Inr (Cip2930 fields access_list)
               else if type_id = 2 then Inr (Cip1559 fields priority_price access_list)
               else Inl (Bail ''unsupported native tx type'')) (\<lambda>tx.
          Inr (tl_sign_native T tx sender))))))"

definition decode_ethereum_tx ::
  "('t, 'acc, 'auth) tx_lib \<Rightarrow> ('r, 'acc, 'auth) rlp_lib \<Rightarrow> 'r \<Rightarrow> u64 \<Rightarrow> address \<Rightarrow>
   u256 \<Rightarrow> u256 \<Rightarrow> u256 \<Rightarrow> u256 \<Rightarrow> action \<Rightarrow> u256 \<Rightarrow> 't pack_result" where
  "decode_ethereum_tx T R item type_id sender nonce gas_price priority_price gas action v =
     rbind (val_bytes R item 9) (\<lambda>data.
     rbind (optional_access_list R item 10) (\<lambda>access_list.
     let fields = \<lparr>et_nonce = nonce, et_gas_price = gas_price, et_gas = gas, et_value = v, et_data = data\<rparr>
     in rbind (if type_id = 0 then Inr (Eip155 fields action)
               else if type_id = 1 then Inr (Eip2930 fields action access_list)
               else if type_id = 2 then Inr (Eip1559 fields action priority_price access_list)
               else if type_id = 4 then
                 rbind (optional_authorization_list R item 11) (\<lambda>auths.
                   Inr (Eip7702 fields (case action of Call a \<Rightarrow> a | Create \<Rightarrow> Address_zero)
                          priority_price access_list auths))
               else Inl (Bail ''unsupported ethereum tx type'')) (\<lambda>tx.
          Inr (tl_sign_ethereum T tx sender))))"

definition base_nonce_of :: "sender_base_nonce list \<Rightarrow> nat \<Rightarrow> u64" where
  "base_nonce_of ns sender_index =
     (case find (\<lambda>e. sn_sender_index e = sender_index) ns of
        Some e \<Rightarrow> sn_base_nonce e | None \<Rightarrow> 0)"

definition decode_tx_item ::
  "('t, 'acc, 'auth) tx_lib \<Rightarrow> ('r, 'acc, 'auth) rlp_lib \<Rightarrow> 'r \<Rightarrow> u64 \<Rightarrow> address list \<Rightarrow> u256 list \<Rightarrow>
   sender_base_nonce list \<Rightarrow> 't pack_result" where
  "decode_tx_item T R item block_epoch addresses gas_prices sender_base_nonces =
     rbind (val_u8 R item 0) (\<lambda>space_marker.
     rbind (val_u64 R item 1) (\<lambda>type_id.
     rbind (val_u64 R item 2) (\<lambda>s.
     let sender_index = unat s in
     rbind (table_get addresses sender_index) (\<lambda>sender.
     let base_nonce = base_nonce_of sender_base_nonces sender_index in
     rbind (val_u64 R item 3) (\<lambda>n.
     let nonce = (ucast (base_nonce + n) :: u256) in
     rbind (rbind (rlp_at R item 4) (\<lambda>i. decode_price R i gas_prices)) (\<lambda>gas_price.
     rbind (rbind (rlp_at R item 5) (\<lambda>i. decode_price R i gas_prices)) (\<lambda>priority_price.
     rbind (val_u64 R item 6) (\<lambda>g.
     let gas = (ucast g :: u256) in
     rbind (rbind (rlp_at R item 7) (\<lambda>i. decode_action R i addresses)) (\<lambda>action.
     rbind (rbind (val_bytes R item 8) decode_u256_bytes) (\<lambda>v.
       if space_marker = 0 then
         decode_native_tx T R item type_id sender block_epoch nonce gas_price priority_price gas action v
       else if space_marker = 2 then
         decode_ethereum_tx T R item type_id sender nonce gas_price priority_price gas action v
       else Inl (Bail ''unsupported tx space marker'')))))))))))"

definition decode_pos_reward_account :: "('r, 'acc, 'auth) rlp_lib \<Rightarrow> 'r \<Rightarrow> pos_reward_account pack_result" where
  "decode_pos_reward_account R r =
     rbind (val_bytes R r 0) (\<lambda>addr_bytes.
     rbind (ensure (length addr_bytes = 20) (Bail ''pos reward address not 20 bytes'')) (\<lambda>_.
     rbind (val_bytes R r 1) (\<lambda>id_bytes.
     rbind (ensure (length id_bytes = 32) (Bail ''pos reward identifier not 32 bytes'')) (\<lambda>_.
     rbind (rbind (val_bytes R r 2) decode_u256_bytes) (\<lambda>reward.
       Inr \<lparr>pra_address = Address addr_bytes, pra_pos_identifier = H256 id_bytes,
            pra_reward = reward\<rparr>)))))"

definition decode_pos_reward :: "('r, 'acc, 'auth) rlp_lib \<Rightarrow> 'r \<Rightarrow> pos_reward_entry pack_result" where
  "decode_pos_reward R item =
     rbind (rlp_at R item 1) (\<lambda>rewards.
     rbind (rlp_item_count R rewards) (\<lambda>n.
     rbind (traverse (\<lambda>j. rbind (rlp_at R rewards j) (decode_pos_reward_account R)) [0..<n]) (\<lambda>account_rewards.
     rbind (val_bytes R item 2) (\<lambda>exec_bytes.
     rbind (ensure (length exec_bytes = 32) (Bail ''execution_epoch_hash not 32 bytes'')) (\<lambda>_.
       Inr \<lparr>pre_account_rewards = account_rewards, pre_execution_epoch_hash = H256 exec_bytes\<rparr>)))))"

definition decode_unlock_event :: "('r, 'acc, 'auth) rlp_lib \<Rightarrow> 'r \<Rightarrow> unlock_entry pack_result" where
  "decode_unlock_event R item =
     rbind (val_bytes R item 1) (\<lambda>id_bytes.
     rbind (ensure (length id_bytes = 32) (Bail ''unlock identifier not 32 bytes'')) (\<lambda>_.
     rbind (val_u64 R item 2) (\<lambda>unlocked.
       Inr \<lparr>ue_identifier = H256 id_bytes, ue_unlocked = unlocked\<rparr>)))"

text \<open>The four vectors the loop fills.\<close>

record 't payload =
  pl_transactions :: "'t list"
  pl_refs :: "(nat \<times> nat) option list"
  pl_pos_rewards :: "pos_reward_entry list"
  pl_unlock_events :: "unlock_entry list"

definition empty_payload :: "'t payload" where
  "empty_payload = \<lparr>pl_transactions = [], pl_refs = [], pl_pos_rewards = [], pl_unlock_events = []\<rparr>"

definition get_ref :: "'t list list \<Rightarrow> nat \<Rightarrow> nat \<Rightarrow> 't option" where
  "get_ref previous i j =
     (if i < length previous \<and> j < length (previous ! i) then Some (previous ! i ! j) else None)"

definition decode_item ::
  "('t, 'acc, 'auth) tx_lib \<Rightarrow> ('r, 'acc, 'auth) rlp_lib \<Rightarrow> u64 \<Rightarrow> address list \<Rightarrow> u256 list \<Rightarrow>
   sender_base_nonce list \<Rightarrow> 't list list \<Rightarrow> 'r \<Rightarrow> 't payload \<Rightarrow> 't payload pack_result" where
  "decode_item T R block_epoch addresses gas_prices ns previous item p =
     rbind (val_u8 R item 0) (\<lambda>marker.
       if marker = 1 then
         rbind (val_u64 R item 1) (\<lambda>i. rbind (val_u64 R item 2) (\<lambda>j.
         rbind (ok_or (get_ref previous (unat i) (unat j)) (Bail ''duplicate tx reference out of range'')) (\<lambda>tx.
           Inr (p\<lparr>pl_transactions := pl_transactions p @ [tx],
                  pl_refs := pl_refs p @ [Some (unat i, unat j)]\<rparr>))))
       else if marker = 3 then
         rbind (decode_pos_reward R item) (\<lambda>e. Inr (p\<lparr>pl_pos_rewards := pl_pos_rewards p @ [e]\<rparr>))
       else if marker = 4 then
         rbind (decode_unlock_event R item) (\<lambda>e. Inr (p\<lparr>pl_unlock_events := pl_unlock_events p @ [e]\<rparr>))
       else
         rbind (decode_tx_item T R item block_epoch addresses gas_prices ns) (\<lambda>tx.
           Inr (p\<lparr>pl_transactions := pl_transactions p @ [tx], pl_refs := pl_refs p @ [None]\<rparr>)))"

fun decode_items ::
  "('t, 'acc, 'auth) tx_lib \<Rightarrow> ('r, 'acc, 'auth) rlp_lib \<Rightarrow> u64 \<Rightarrow> address list \<Rightarrow> u256 list \<Rightarrow>
   sender_base_nonce list \<Rightarrow> 't list list \<Rightarrow> 'r \<Rightarrow> nat list \<Rightarrow> 't payload \<Rightarrow> 't payload pack_result" where
  "decode_items T R e as gs ns previous r [] p = Inr p"
| "decode_items T R e as gs ns previous r (i # is) p =
     rbind (rlp_at R r i) (\<lambda>item.
     rbind (decode_item T R e as gs ns previous item p) (\<lambda>p.
       decode_items T R e as gs ns previous r is p))"

definition locate_payload :: "bytes \<Rightarrow> nat \<Rightarrow> u64 \<Rightarrow> bytes pack_result" where
  "locate_payload data tx_segment_offset tx_offset_units =
     (let absolute = usize_add tx_segment_offset (usize_mul (unat tx_offset_units) 4)
      in rbind (ensure (absolute < length data) (Bail ''tx payload offset out of bounds'')) (\<lambda>_.
         rbind (read_uleb128 data absolute) (\<lambda>(len, offset).
         rbind (ensure (usize_add offset (unat len) \<le> length data) (Bail ''tx payload exceeds packet'')) (\<lambda>_.
           slice_of data offset (usize_add offset (unat len))))))"

definition unpack_payload :: "snap_lib \<Rightarrow> u8 \<Rightarrow> bytes \<Rightarrow> bytes pack_result" where
  "unpack_payload S flags payload =
     (if flags AND FLAG_TX_COMPRESSED \<noteq> 0 then snap_decompress S payload else Inr payload)"

definition decode_tx_payload ::
  "('t, 'acc, 'auth) tx_lib \<Rightarrow> ('r, 'acc, 'auth) rlp_lib \<Rightarrow> snap_lib \<Rightarrow> bytes \<Rightarrow> nat \<Rightarrow> u64 \<Rightarrow> u8 \<Rightarrow> u64 \<Rightarrow>
   address list \<Rightarrow> u256 list \<Rightarrow> sender_base_nonce list \<Rightarrow> 't list list \<Rightarrow> 't payload pack_result" where
  "decode_tx_payload T R S data tx_segment_offset tx_offset_units flags block_epoch addresses
     gas_prices sender_base_nonces previous_blocks =
     rbind (locate_payload data tx_segment_offset tx_offset_units) (\<lambda>payload.
     rbind (unpack_payload S flags payload) (\<lambda>decoded.
       let r = rlp_new R decoded
       in rbind (rlp_item_count R r) (\<lambda>n.
            decode_items T R block_epoch addresses gas_prices sender_base_nonces previous_blocks r
              [0..<n] empty_payload)))"

subsection \<open>Packets\<close>

fun decode_block_records_all ::
  "decoded_record list \<Rightarrow> nat \<Rightarrow> u64 \<Rightarrow> u64 \<Rightarrow> u64 \<Rightarrow> u64 \<Rightarrow> address list \<Rightarrow> u256 list \<Rightarrow> 't block list pack_result" where
  "decode_block_records_all [] index mt mh mp pe as ds = Inr []"
| "decode_block_records_all (r # rs) index mt mh mp pe as ds =
     rbind (decode_block_record (dr_bytes r) index mt mh mp pe as ds) (\<lambda>b.
     rbind (decode_block_records_all rs (Suc index) mt mh mp pe as ds) (\<lambda>bs. Inr (b # bs)))"

text \<open>The second loop; \<open>decoded_txs\<close> are the transactions of the blocks before.\<close>

fun decode_transactions ::
  "('t, 'acc, 'auth) tx_lib \<Rightarrow> ('r, 'acc, 'auth) rlp_lib \<Rightarrow> snap_lib \<Rightarrow> bytes \<Rightarrow> nat \<Rightarrow> address list \<Rightarrow>
   u256 list \<Rightarrow> sender_base_nonce list \<Rightarrow> (decoded_record \<times> 't block) list \<Rightarrow> 't list list \<Rightarrow>
   't block list pack_result" where
  "decode_transactions T R S data tx_off as gs ns [] decoded_txs = Inr []"
| "decode_transactions T R S data tx_off as gs ns ((r, b) # rest) decoded_txs =
     rbind (if b_flags b AND FLAG_HAS_TRANSACTIONS \<noteq> 0
            then rbind (decode_tx_payload T R S data tx_off (dr_tx_offset_units r) (b_flags b)
                          (b_epoch b) as gs ns decoded_txs) (\<lambda>p.
                   Inr (b\<lparr>b_transactions := pl_transactions p, b_transaction_refs := pl_refs p,
                          b_pos_rewards := pl_pos_rewards p, b_unlock_events := pl_unlock_events p\<rparr>))
            else Inr b) (\<lambda>b.
     rbind (decode_transactions T R S data tx_off as gs ns rest (decoded_txs @ [b_transactions b])) (\<lambda>bs.
       Inr (b # bs)))"

definition decode_packet_ext ::
  "('t, 'acc, 'auth) tx_lib \<Rightarrow> ('r, 'acc, 'auth) rlp_lib \<Rightarrow> snap_lib \<Rightarrow> bytes \<Rightarrow> u64 \<Rightarrow> 't packet pack_result" where
  "decode_packet_ext T R S data pos_reference_enable_height =
     rbind (ensure (HEADER_LEN \<le> length data) (Bail ''packet shorter than header'')) (\<lambda>_.
     let prev_last_hash = H256 (subslice data 0 32);
         prev_last_deferred_state_root = H256 (subslice data 32 64) in
     rbind (read_u64_le data 64) (\<lambda>first_block_number.
     rbind (read_u64_le data 72) (\<lambda>min_timestamp.
     rbind (read_u64_le data 80) (\<lambda>min_height.
     rbind (read_u32_le data 88) (\<lambda>v.
     let min_pos_height = (ucast v :: u64); block_prefix_size = unat (data ! 92) in
     rbind (ensure (valid_prefix_size block_prefix_size) (Bail ''invalid block_prefix_size'')) (\<lambda>_.
     rbind (read_offsets data) (\<lambda>offsets.
     rbind (ensure_offsets offsets (length data)) (\<lambda>_.
     rbind (rbind (slice_of data (offsets ! 0) (offsets ! 1)) decode_addresses) (\<lambda>addresses.
     rbind (rbind (slice_of data (offsets ! 1) (offsets ! 2)) decode_pos_entries) (\<lambda>pos_entries.
     rbind (rbind (slice_of data (offsets ! 2) (offsets ! 3)) decode_u256_table) (\<lambda>difficulties.
     rbind (rbind (slice_of data (offsets ! 3) (offsets ! 4)) decode_sender_base_nonces) (\<lambda>sender_base_nonces.
     rbind (rbind (slice_of data (offsets ! 4) (offsets ! 5)) decode_u256_table) (\<lambda>gas_prices.
     rbind (decode_block_records data (offsets ! 5) (offsets ! 6) (offsets ! 7) block_prefix_size) (\<lambda>records.
     rbind (decode_block_records_all records 0 min_timestamp min_height min_pos_height
              pos_reference_enable_height addresses difficulties) (\<lambda>blocks.
     rbind (assign_epoch_from_pivots blocks) (\<lambda>blocks.
     rbind (decode_transactions T R S data (offsets ! 7) addresses gas_prices sender_base_nonces
              (zip records blocks) []) (\<lambda>blocks.
       Inr \<lparr>p_prev_last_hash = prev_last_hash,
            p_prev_last_deferred_state_root = prev_last_deferred_state_root,
            p_first_block_number = first_block_number, p_min_timestamp = min_timestamp,
            p_min_height = min_height, p_min_pos_height = min_pos_height,
            p_addresses = addresses, p_pos_entries = pos_entries, p_difficulties = difficulties,
            p_sender_base_nonces = sender_base_nonces, p_gas_prices = gas_prices,
            p_blocks = blocks\<rparr>)))))))))))))))))"

definition decode_packet ::
  "('t, 'acc, 'auth) tx_lib \<Rightarrow> ('r, 'acc, 'auth) rlp_lib \<Rightarrow> snap_lib \<Rightarrow> bytes \<Rightarrow> 't packet pack_result" where
  "decode_packet T R S data = decode_packet_ext T R S data (- 1)"

subsection \<open>Flag sites\<close>

definition block_flag_sites :: "bytes \<Rightarrow> (nat \<times> h256) list pack_result" where
  "block_flag_sites data =
     rbind (ensure (HEADER_LEN \<le> length data) (Bail ''packet shorter than header'')) (\<lambda>_.
     let block_prefix_size = unat (data ! 92) in
     rbind (ensure (valid_prefix_size block_prefix_size) (Bail ''invalid block_prefix_size'')) (\<lambda>_.
     rbind (read_offsets data) (\<lambda>offsets.
     rbind (ensure_offsets offsets (length data)) (\<lambda>_.
     rbind (read_u32_le data (offsets ! 5)) (\<lambda>v.
     let block_count = unat v in
     rbind (ensure (block_count * block_prefix_size < 2 ^ 64) (Bail ''block prefix size overflow'')) (\<lambda>_.
     rbind (ensure (offsets ! 6 + block_count * block_prefix_size \<le> offsets ! 7)
              (Bail ''block prefix area exceeds tx segment'')) (\<lambda>_.
       traverse (\<lambda>index.
         let record = offsets ! 6 + index * block_prefix_size
         in rbind (slice_of data record (record + 32)) (\<lambda>h. Inr (record + 44, H256 h)))
         [0..<block_count])))))))"

end
