(* ===== verification/Packet_Verify.thy ===== *)
theory Packet_Verify
  imports Packet_Decode
begin

text \<open>
  \<open>crates/cfxpack/src/verify.rs\<close>: the structural verifier. Its \<open>read_offsets\<close> and \<open>ensure_offsets\<close>
  are copies of those of \<open>decode/mod.rs\<close> and are not repeated here.
\<close>

record verify_report =
  vr_packet_bytes :: nat
  vr_first_block_number :: u64
  vr_min_timestamp :: u64
  vr_min_height :: u64
  vr_min_pos_height :: u32
  vr_block_prefix_size :: u8
  vr_block_count :: u32
  vr_transaction_blocks :: u32
  vr_transaction_items :: u32

fun collect_records_from ::
  "bytes \<Rightarrow> nat \<Rightarrow> nat \<Rightarrow> nat \<Rightarrow> bytes \<Rightarrow> nat \<Rightarrow> nat \<Rightarrow> nat \<Rightarrow> (bytes list \<times> nat) pack_result" where
  "collect_records_from data body_off tx_off prefix_size bitmap index overflow_offset 0 =
     Inr ([], overflow_offset)"
| "collect_records_from data body_off tx_off prefix_size bitmap index overflow_offset (Suc n) =
     rbind (slice_of data (body_off + index * prefix_size) (body_off + (index + 1) * prefix_size)) (\<lambda>record.
     rbind (if bitmap_bit bitmap index then
              rbind (read_uleb128 data overflow_offset) (\<lambda>(len, overflow_offset).
                let end_offset = usize_add overflow_offset (unat len)
                in rbind (ensure (end_offset \<le> tx_off) (Bail ''block overflow exceeds tx segment'')) (\<lambda>_.
                   rbind (slice_of data overflow_offset end_offset) (\<lambda>rest.
                     Inr (record @ rest, end_offset))))
            else Inr (record, overflow_offset)) (\<lambda>(record, overflow_offset).
     rbind (collect_records_from data body_off tx_off prefix_size bitmap (Suc index) overflow_offset n)
       (\<lambda>(records, overflow_offset). Inr (record # records, overflow_offset))))"

definition collect_block_records :: "bytes \<Rightarrow> nat \<Rightarrow> nat \<Rightarrow> nat \<Rightarrow> nat \<Rightarrow> bytes \<Rightarrow> bytes list pack_result" where
  "collect_block_records data block_body_offset tx_segment_offset block_count prefix_size bitmap =
     rbind (collect_records_from data block_body_offset tx_segment_offset prefix_size bitmap 0
              (block_body_offset + block_count * prefix_size) block_count) (\<lambda>(records, overflow_offset).
     rbind (ensure (overflow_offset \<le> tx_segment_offset) (Bail ''block overflow parser passed tx segment''))
       (\<lambda>_. Inr records))"

definition skip_uleb :: "bytes \<Rightarrow> nat \<Rightarrow> nat pack_result" where
  "skip_uleb data offset = rbind (read_uleb128 data offset) (\<lambda>(_, offset). Inr offset)"

definition skip_qc5e :: "bytes \<Rightarrow> nat \<Rightarrow> nat pack_result" where
  "skip_qc5e data offset =
     rbind (ensure (offset < length data) (Bail ''qc5e read out of bounds'')) (\<lambda>_.
       let mode = drop_bit 6 (data ! offset);
           len = (if mode = 0 then 1 else if mode = 1 then 5 else if mode = 2 then 6 else 7)
       in rbind (ensure (offset + len \<le> length data) (Bail ''qc5e exceeds block record'')) (\<lambda>_.
            Inr (offset + len)))"

text \<open>The offset of the payload of one record, and the number of its items.\<close>

definition tx_offset_units_of :: "bytes \<Rightarrow> u64 pack_result" where
  "tx_offset_units_of record =
     rbind (skip_uleb record 45) (\<lambda>offset. rbind (skip_uleb record offset) (\<lambda>offset.
     rbind (skip_uleb record offset) (\<lambda>offset.
     rbind (skip_qc5e record offset) (\<lambda>offset. rbind (skip_qc5e record offset) (\<lambda>offset.
     rbind (skip_qc5e record offset) (\<lambda>offset.
     rbind (skip_uleb record offset) (\<lambda>offset. rbind (skip_uleb record offset) (\<lambda>offset.
     rbind (skip_uleb record offset) (\<lambda>offset.
     rbind (read_uleb128 record offset) (\<lambda>(v, _). Inr v))))))))))"

definition count_items ::
  "('r, 'acc, 'auth) rlp_lib \<Rightarrow> snap_lib \<Rightarrow> bytes \<Rightarrow> u8 \<Rightarrow> bytes \<Rightarrow> nat \<Rightarrow> nat pack_result" where
  "count_items R S data flags record tx_segment_offset =
     rbind (tx_offset_units_of record) (\<lambda>units.
       let absolute = usize_add tx_segment_offset (usize_mul (unat units) 4)
       in rbind (ensure (absolute < length data) (Bail ''tx payload offset out of bounds'')) (\<lambda>_.
          rbind (read_uleb128 data absolute) (\<lambda>(payload_len, payload_offset).
          let payload_end = usize_add payload_offset (unat payload_len) in
          rbind (ensure (payload_end \<le> length data) (Bail ''tx payload exceeds packet'')) (\<lambda>_.
          rbind (slice_of data payload_offset payload_end) (\<lambda>payload.
          rbind (if flags AND FLAG_TX_COMPRESSED \<noteq> 0 then snap_decompress S payload else Inr payload)
            (\<lambda>decoded. rlp_item_count R (rlp_new R decoded)))))))"

fun count_transactions_from ::
  "('r, 'acc, 'auth) rlp_lib \<Rightarrow> snap_lib \<Rightarrow> bytes \<Rightarrow> bytes list \<Rightarrow> nat \<Rightarrow> u32 \<Rightarrow> u32 \<Rightarrow> (u32 \<times> u32) pack_result" where
  "count_transactions_from R S data [] tx_off blocks items = Inr (blocks, items)"
| "count_transactions_from R S data (record # records) tx_off blocks items =
     rbind (ensure (45 \<le> length record) (Bail ''block record too short'')) (\<lambda>_.
       let flags = record ! 44
       in if flags AND FLAG_HAS_TRANSACTIONS = 0
          then count_transactions_from R S data records tx_off blocks items
          else rbind (count_items R S data flags record tx_off) (\<lambda>n.
                 count_transactions_from R S data records tx_off (blocks + 1) (items + of_nat n)))"

definition count_transactions ::
  "('r, 'acc, 'auth) rlp_lib \<Rightarrow> snap_lib \<Rightarrow> bytes \<Rightarrow> bytes list \<Rightarrow> nat \<Rightarrow> (u32 \<times> u32) pack_result" where
  "count_transactions R S data records tx_off = count_transactions_from R S data records tx_off 0 0"

definition verify_packet ::
  "('r, 'acc, 'auth) rlp_lib \<Rightarrow> snap_lib \<Rightarrow> bytes \<Rightarrow> verify_report pack_result" where
  "verify_packet R S data =
     rbind (ensure (HEADER_LEN \<le> length data) (Bail ''packet shorter than header'')) (\<lambda>_.
     rbind (read_u64_le data 64) (\<lambda>first_block_number.
     rbind (read_u64_le data 72) (\<lambda>min_timestamp.
     rbind (read_u64_le data 80) (\<lambda>min_height.
     rbind (read_u32_le data 88) (\<lambda>min_pos_height.
     let prefix_byte = data ! 92; prefix_size = unat prefix_byte in
     rbind (ensure (valid_prefix_size prefix_size) (Bail ''invalid block_prefix_size'')) (\<lambda>_.
     rbind (read_offsets data) (\<lambda>offsets.
     rbind (ensure_offsets offsets (length data)) (\<lambda>_.
     rbind (ensure (offsets ! 5 mod 32 = 0) (Bail ''block header offset is not 32-byte aligned'')) (\<lambda>_.
     rbind (ensure (offsets ! 7 mod 64 = 0) (Bail ''tx segment offset is not 64-byte aligned'')) (\<lambda>_.
     rbind (ensure (offsets ! 5 + 4 \<le> length data) (Bail ''missing block_count'')) (\<lambda>_.
     rbind (read_u32_le data (offsets ! 5)) (\<lambda>v.
     let block_count = unat v; bitmap_len = div_ceil8 block_count in
     rbind (ensure (offsets ! 5 + 4 + bitmap_len \<le> offsets ! 6)
              (Bail ''block extension bitmap exceeds block body offset'')) (\<lambda>_.
     rbind (slice_of data (offsets ! 5 + 4) (offsets ! 5 + 4 + bitmap_len)) (\<lambda>bitmap.
     rbind (ensure (block_count * prefix_size < 2 ^ 64) (Bail ''block prefix size overflow'')) (\<lambda>_.
     rbind (ensure (offsets ! 6 + block_count * prefix_size \<le> offsets ! 7)
              (Bail ''block prefix area exceeds tx segment'')) (\<lambda>_.
     rbind (collect_block_records data (offsets ! 6) (offsets ! 7) block_count prefix_size bitmap) (\<lambda>records.
     rbind (count_transactions R S data records (offsets ! 7)) (\<lambda>(transaction_blocks, transaction_items).
       Inr \<lparr>vr_packet_bytes = length data, vr_first_block_number = first_block_number,
            vr_min_timestamp = min_timestamp, vr_min_height = min_height,
            vr_min_pos_height = min_pos_height, vr_block_prefix_size = prefix_byte,
            vr_block_count = of_nat block_count, vr_transaction_blocks = transaction_blocks,
            vr_transaction_items = transaction_items\<rparr>))))))))))))))))))"

end
