(* ===== verification/Packet_Records.thy ===== *)
theory Packet_Records
  imports Packet_Encode Packet_Verify
begin

text \<open>
  Block records: what \<open>encode_block_record\<close> writes, \<open>decode_block_record\<close> reads back, whatever
  follows the record; the decoder and the verifier find the same transaction offset in it.
  Everything rests on the contract \<open>wire_field\<close> of the fields.
\<close>

subsection \<open>Lookup tables\<close>

lemma index_table_Some: "index_table xs x = Some i \<Longrightarrow> i < length xs \<and> xs ! i = x"
  unfolding index_table_def by (drule map_of_SomeD) (auto simp: set_zip)

lemma index_table_None: "index_table xs x = None \<longleftrightarrow> x \<notin> set xs"
proof -
  have "fst ` set (zip xs [0..<length xs]) = set xs" by (simp flip: set_map)
  then show ?thesis by (simp add: index_table_def map_of_eq_None_iff)
qed

lemma index_table_distinct: "distinct xs \<Longrightarrow> i < length xs \<Longrightarrow> index_table xs (xs ! i) = Some i"
  by (metis index_table_None index_table_Some nth_eq_iff_index_eq nth_mem option.exhaust)

lemma table_get_index:
  assumes "index_table xs x = Some i" "length xs < 2 ^ 64"
  shows "table_get xs (unat (of_nat i :: u64)) = Inr x"
proof -
  have "i < length xs" "xs ! i = x" using index_table_Some [OF assms(1)] by auto
  then show ?thesis using assms(2) by (simp add: unat_of_nat_u64 table_get_def)
qed

lemma checked_sub_add: "checked_sub a b = Some d \<Longrightarrow> b + d = a"
  by (auto simp: checked_sub_def split: if_splits)

lemma saturating_sub_add: "b \<le> a \<Longrightarrow> b + saturating_sub a b = a"
  by (simp add: saturating_sub_def)

subsection \<open>Reading the fields of a written record\<close>

lemma read_qc5e_gas_limit:
  assumes "put_qc5e out v (qc5e_gas_limit_enum v) = Inr out'" "prefix out' data"
  obtains q where "read_qc5e data (length out) = Inr (q, length out')" "gas_limit q = v"
proof -
  have "read_gas_limit data (length out) = Inr (v, length out')"
    using assms by (intro gas_limit_field.get_put) (simp_all add: put_gas_limit_def)
  with that show thesis by (auto simp: read_gas_limit_def rbind_Inr_iff)
qed

lemma read_qc5e_base_price:
  assumes "put_qc5e out v (qc5e_base_price_enum v espace) = Inr out'" "prefix out' data"
  obtains q where "read_qc5e data (length out) = Inr (q, length out')" "base_price q espace = v"
proof -
  have "read_base_price espace data (length out) = Inr (v, length out')"
    using assms by (intro base_price_field.get_put) (simp_all add: put_base_price_def)
  with that show thesis by (auto simp: read_base_price_def rbind_Inr_iff)
qed

lemma read_uleb: "prefix (put_uleb128 out v) data \<Longrightarrow>
    read_uleb128 data (length out) = Inr (v, length (put_uleb128 out v))"
  by (rule read_put_uleb128)

lemma prefix_uleb: "prefix (put_uleb128 out v) data \<Longrightarrow> prefix out data"
  using uleb128_field.put_prefix_of [OF refl] .

lemma prefix_qc5e: "put_qc5e out v e = Inr out' \<Longrightarrow> prefix out' data \<Longrightarrow> prefix out data"
  using put_qc5e_appends prefix_order.trans by blast

definition record_head :: "'t block \<Rightarrow> u8 \<Rightarrow> bytes" where
  "record_head b flags = as_bytes (b_hash b)
     @ take 4 (as_bytes (b_deferred_state_root b)) @ take 4 (as_bytes (b_deferred_receipts_root b))
     @ take 4 (as_bytes (b_deferred_logs_bloom_hash b)) @ [flags]"

lemma length_record_head [simp]: "length (record_head b flags) = 45"
  by (simp add: record_head_def)

lemma record_head_parts:
  assumes "prefix (record_head b flags) data"
  shows "45 \<le> length data" "subslice data 0 32 = as_bytes (b_hash b)"
    "subslice data 32 36 = take 4 (as_bytes (b_deferred_state_root b))"
    "subslice data 36 40 = take 4 (as_bytes (b_deferred_receipts_root b))"
    "subslice data 40 44 = take 4 (as_bytes (b_deferred_logs_bloom_hash b))" "data ! 44 = flags"
proof -
  from assms obtain r where data: "data = record_head b flags @ r" by (auto simp: prefix_def)
  show "45 \<le> length data" by (simp add: data)
  show "subslice data 0 32 = as_bytes (b_hash b)"
    "subslice data 32 36 = take 4 (as_bytes (b_deferred_state_root b))"
    "subslice data 36 40 = take 4 (as_bytes (b_deferred_receipts_root b))"
    "subslice data 40 44 = take 4 (as_bytes (b_deferred_logs_bloom_hash b))" "data ! 44 = flags"
    by (simp_all add: data record_head_def subslice_def nth_append)
qed

text \<open>A written record, field by field.\<close>

record written =
  wr_author :: nat
  wr_timestamp :: u64
  wr_difficulty :: nat
  wr_height :: u64
  wr_after_gas :: bytes
  wr_after_core :: bytes
  wr_after_espace :: bytes
  wr_after_reward :: bytes

definition written_by ::
  "'t block \<Rightarrow> u8 \<Rightarrow> u64 \<Rightarrow> 't packet \<Rightarrow> (address \<Rightarrow> nat option) \<Rightarrow> (u256 \<Rightarrow> nat option) \<Rightarrow> bytes \<Rightarrow> written \<Rightarrow> bool" where
  "written_by b flags off input ai di record w \<longleftrightarrow>
     (let o1 = put_uleb128 (record_head b flags) (of_nat (wr_author w));
          o2 = put_uleb128 o1 (wr_timestamp w);
          o3 = put_uleb128 o2 (of_nat (wr_difficulty w));
          o7 = put_uleb128 (wr_after_espace w) (wr_height w);
          o10 = put_uleb128 (put_uleb128 (put_uleb128 o7 (b_blame b)) (b_finalized_epoch b)) off
      in ai (b_author b) = Some (wr_author w) \<and> di (b_difficulty b) = Some (wr_difficulty w) \<and>
         checked_sub (b_timestamp b) (p_min_timestamp input) = Some (wr_timestamp w) \<and>
         checked_sub (b_height b) (p_min_height input) = Some (wr_height w) \<and>
         put_qc5e o3 (b_gas_limit b) (qc5e_gas_limit_enum (b_gas_limit b)) = Inr (wr_after_gas w) \<and>
         put_qc5e (wr_after_gas w) (b_base_price_core b)
           (qc5e_base_price_enum (b_base_price_core b) False) = Inr (wr_after_core w) \<and>
         put_qc5e (wr_after_core w) (b_base_price_espace b)
           (qc5e_base_price_enum (b_base_price_espace b) True) = Inr (wr_after_espace w) \<and>
         put_qc8 o10 (b_base_reward b) = Inr (wr_after_reward w) \<and>
         record = (case b_pos_view b of
                     Some v \<Rightarrow> put_uleb128 (wr_after_reward w) (saturating_sub v (p_min_pos_height input))
                   | None \<Rightarrow> wr_after_reward w))"

lemma encode_block_record_written:
  assumes "encode_block_record b flags off input ai di = Inr record"
  obtains w where "written_by b flags off input ai di record w"
proof -
  from assms obtain author timestamp difficulty height o4 o5 o6 o11 where
    "written_by b flags off input ai di record
       \<lparr>wr_author = author, wr_timestamp = timestamp, wr_difficulty = difficulty, wr_height = height,
        wr_after_gas = o4, wr_after_core = o5, wr_after_espace = o6, wr_after_reward = o11\<rparr>"
    unfolding encode_block_record_def written_by_def Let_def
    by (auto simp: rbind_Inr_iff record_head_def split: option.splits)
  then show thesis by (rule that)
qed

lemma written_prefix:
  assumes "written_by b flags off input ai di record w" "prefix record data"
  shows "prefix (wr_after_reward w) data" "prefix (record_head b flags) data"
    "\<And>v. b_pos_view b = Some v \<Longrightarrow>
       prefix (put_uleb128 (wr_after_reward w) (saturating_sub v (p_min_pos_height input))) data"
proof -
  show r: "prefix (wr_after_reward w) data"
    using assms by (auto simp: written_by_def Let_def split: option.splits dest: prefix_uleb)
  show "prefix (record_head b flags) data"
    using assms(1) r unfolding written_by_def Let_def
    by (meson prefix_qc5e prefix_uleb qc8_field.put_prefix_of)
  show "\<And>v. b_pos_view b = Some v \<Longrightarrow>
       prefix (put_uleb128 (wr_after_reward w) (saturating_sub v (p_min_pos_height input))) data"
    using assms by (auto simp: written_by_def Let_def)
qed

text \<open>The reads of a decoder on any buffer that starts with the record, in order.\<close>

lemma written_reads:
  assumes w: "written_by b flags off input ai di record w" and data: "prefix record data"
  obtains n1 n2 n3 n4 n5 n6 n7 n8 n9 n10 n11 q4 q5 q6 where
    "read_uleb128 data 45 = Inr (of_nat (wr_author w), n1)"
    "read_uleb128 data n1 = Inr (wr_timestamp w, n2)"
    "read_uleb128 data n2 = Inr (of_nat (wr_difficulty w), n3)"
    "read_qc5e data n3 = Inr (q4, n4)" "gas_limit q4 = b_gas_limit b"
    "read_qc5e data n4 = Inr (q5, n5)" "base_price q5 False = b_base_price_core b"
    "read_qc5e data n5 = Inr (q6, n6)" "base_price q6 True = b_base_price_espace b"
    "read_uleb128 data n6 = Inr (wr_height w, n7)"
    "read_uleb128 data n7 = Inr (b_blame b, n8)"
    "read_uleb128 data n8 = Inr (b_finalized_epoch b, n9)"
    "read_uleb128 data n9 = Inr (off, n10)"
    "read_qc8 data n10 = Inr (b_base_reward b, n11)"
    "\<And>v. b_pos_view b = Some v \<Longrightarrow>
       \<exists>n. read_uleb128 data n11 = Inr (saturating_sub v (p_min_pos_height input), n)"
proof -
  define o1 where "o1 = put_uleb128 (record_head b flags) (of_nat (wr_author w))"
  define o2 where "o2 = put_uleb128 o1 (wr_timestamp w)"
  define o3 where "o3 = put_uleb128 o2 (of_nat (wr_difficulty w))"
  define o7 where "o7 = put_uleb128 (wr_after_espace w) (wr_height w)"
  define o8 where "o8 = put_uleb128 o7 (b_blame b)"
  define o9 where "o9 = put_uleb128 o8 (b_finalized_epoch b)"
  define o10 where "o10 = put_uleb128 o9 off"
  note os = o1_def o2_def o3_def o7_def o8_def o9_def o10_def
  have puts: "put_qc5e o3 (b_gas_limit b) (qc5e_gas_limit_enum (b_gas_limit b)) = Inr (wr_after_gas w)"
    "put_qc5e (wr_after_gas w) (b_base_price_core b) (qc5e_base_price_enum (b_base_price_core b) False)
       = Inr (wr_after_core w)"
    "put_qc5e (wr_after_core w) (b_base_price_espace b) (qc5e_base_price_enum (b_base_price_espace b) True)
       = Inr (wr_after_espace w)"
    "put_qc8 o10 (b_base_reward b) = Inr (wr_after_reward w)"
    using w by (simp_all add: written_by_def Let_def os)
  have p11: "prefix (wr_after_reward w) data" by (rule written_prefix(1) [OF w data])
  have p10: "prefix o10 data" by (rule qc8_field.put_prefix_of [OF puts(4) p11])
  have p9: "prefix o9 data" using p10 unfolding o10_def by (rule prefix_uleb)
  have p8: "prefix o8 data" using p9 unfolding o9_def by (rule prefix_uleb)
  have p7: "prefix o7 data" using p8 unfolding o8_def by (rule prefix_uleb)
  have p6: "prefix (wr_after_espace w) data" using p7 unfolding o7_def by (rule prefix_uleb)
  have p5: "prefix (wr_after_core w) data" by (rule prefix_qc5e [OF puts(3) p6])
  have p4: "prefix (wr_after_gas w) data" by (rule prefix_qc5e [OF puts(2) p5])
  have p3: "prefix o3 data" by (rule prefix_qc5e [OF puts(1) p4])
  have p2: "prefix o2 data" using p3 unfolding o3_def by (rule prefix_uleb)
  have p1: "prefix o1 data" using p2 unfolding o2_def by (rule prefix_uleb)
  obtain q4 where q4: "read_qc5e data (length o3) = Inr (q4, length (wr_after_gas w))"
    "gas_limit q4 = b_gas_limit b" by (rule read_qc5e_gas_limit [OF puts(1) p4])
  obtain q5 where q5: "read_qc5e data (length (wr_after_gas w)) = Inr (q5, length (wr_after_core w))"
    "base_price q5 False = b_base_price_core b" by (rule read_qc5e_base_price [OF puts(2) p5])
  obtain q6 where q6: "read_qc5e data (length (wr_after_core w)) = Inr (q6, length (wr_after_espace w))"
    "base_price q6 True = b_base_price_espace b" by (rule read_qc5e_base_price [OF puts(3) p6])
  have r1: "read_uleb128 data 45 = Inr (of_nat (wr_author w), length o1)"
    using read_uleb [OF p1 [unfolded o1_def]] by (simp add: o1_def)
  note r2 = read_uleb [OF p2 [unfolded o2_def], folded o2_def]
    and r3 = read_uleb [OF p3 [unfolded o3_def], folded o3_def]
    and r7 = read_uleb [OF p7 [unfolded o7_def], folded o7_def]
    and r8 = read_uleb [OF p8 [unfolded o8_def], folded o8_def]
    and r9 = read_uleb [OF p9 [unfolded o9_def], folded o9_def]
    and r10 = read_uleb [OF p10 [unfolded o10_def], folded o10_def]
    and r11 = qc8_field.get_put [OF puts(4) p11]
  have r12: "\<exists>n. read_uleb128 data (length (wr_after_reward w)) =
      Inr (saturating_sub v (p_min_pos_height input), n)" if "b_pos_view b = Some v" for v
    using read_uleb [OF written_prefix(3) [OF w data that]] by blast
  show thesis by (rule that [OF r1 r2 r3 q4 q5 q6 r7 r8 r9 r10 r11 r12])
qed

lemma peek_written:
  assumes "written_by b flags off input ai di record w" "prefix record data"
  shows "peek_tx_offset_units data = Inr off"
  by (rule written_reads [OF assms]) (simp add: peek_tx_offset_units_def)

text \<open>The verifier skips a field exactly as the decoder reads it.\<close>

lemma skip_qc5e_read: "read_qc5e data n = Inr (q, n') \<Longrightarrow> skip_qc5e data n = Inr n'"
  by (auto simp: read_qc5e_def skip_qc5e_def Let_def rbind_Inr_iff split: if_splits)

lemma tx_offset_units_written:
  assumes "written_by b flags off input ai di record w" "prefix record data"
  shows "tx_offset_units_of data = Inr off"
  by (rule written_reads [OF assms]) (simp add: tx_offset_units_of_def skip_uleb_def skip_qc5e_read)

text \<open>What a record keeps of its block: 4 bytes of each root, and neither epoch nor transactions.\<close>

definition stored_root :: "h256 \<Rightarrow> h256" where
  "stored_root h = h256_prefix (take 4 (as_bytes h))"

definition stored_block :: "'t block \<Rightarrow> u8 \<Rightarrow> nat \<Rightarrow> 't block" where
  "stored_block b flags index = b\<lparr>b_epoch := 0, b_index := index, b_flags := flags,
     b_deferred_state_root := stored_root (b_deferred_state_root b),
     b_deferred_receipts_root := stored_root (b_deferred_receipts_root b),
     b_deferred_logs_bloom_hash := stored_root (b_deferred_logs_bloom_hash b),
     b_transactions := [], b_transaction_refs := [], b_pos_rewards := [], b_unlock_events := []\<rparr>"

text \<open>The decoder reads a PoS view exactly for the blocks at and above the given height.\<close>

definition pos_view_ok :: "u64 \<Rightarrow> u64 \<Rightarrow> 't block \<Rightarrow> bool" where
  "pos_view_ok min_pos_height pe b \<longleftrightarrow>
     (if pe \<le> b_height b then \<exists>v. b_pos_view b = Some v \<and> min_pos_height \<le> v else b_pos_view b = None)"

lemma decode_written:
  assumes w: "written_by b flags off input (index_addresses (p_addresses input))
      (index_u256 (p_difficulties input)) record w"
    and data: "prefix record data"
    and sizes: "length (p_addresses input) < 2 ^ 64" "length (p_difficulties input) < 2 ^ 64"
    and pos: "pos_view_ok (p_min_pos_height input) pe b"
  shows "decode_block_record data index (p_min_timestamp input) (p_min_height input)
    (p_min_pos_height input) pe (p_addresses input) (p_difficulties input) = Inr (stored_block b flags index)"
proof -
  have tables: "table_get (p_addresses input) (unat (of_nat (wr_author w) :: u64)) = Inr (b_author b)"
    "table_get (p_difficulties input) (unat (of_nat (wr_difficulty w) :: u64)) = Inr (b_difficulty b)"
    using w sizes
    by (auto simp: written_by_def Let_def index_addresses_def index_u256_def intro!: table_get_index)
  have sums: "p_min_timestamp input + wr_timestamp w = b_timestamp b"
    "p_min_height input + wr_height w = b_height b"
    using w by (auto simp: written_by_def Let_def intro: checked_sub_add)
  note head = record_head_parts [OF written_prefix(2) [OF w data]]
  show ?thesis
  proof (rule written_reads [OF w data], goal_cases)
    case (1 n1 n2 n3 n4 n5 n6 n7 n8 n9 n10 n11 q4 q5 q6)
    note reads = 1(1-14)
    have view: "(if pe \<le> b_height b
        then rbind (read_uleb128 data n11) (\<lambda>(v, _). Inr (Some (p_min_pos_height input + v))) else Inr None)
      = Inr (b_pos_view b)"
      using pos 1(15) by (auto simp: pos_view_ok_def saturating_sub_add split: if_splits)
    show ?thesis
      unfolding decode_block_record_def
      by (simp add: head reads tables sums view Let_def stored_block_def stored_root_def)
  qed
qed

end
