(* ===== verification/Packet_Body.thy ===== *)
theory Packet_Body
  imports Packet_Records
begin

text \<open>
  The block body: \<open>pack_block_body\<close> cuts every record at the prefix size, and the decoder and the
  verifier put it together again from the prefix area, the extension bitmap and the overflow.
\<close>

subsection \<open>The extension bitmap\<close>

lemma bitmap_bit_iff: "bitmap_bit bitmap i \<longleftrightarrow> bit (bitmap ! (i div 8)) (i mod 8)"
  by (simp add: bitmap_bit_def bit_iff_and_push_bit_not_eq_0)

lemma bitmap_bit_set:
  assumes "i div 8 < length bitmap"
  shows "bitmap_bit (bitmap[i div 8 := bitmap ! (i div 8) OR push_bit (i mod 8) 1]) j \<longleftrightarrow>
    j = i \<or> bitmap_bit bitmap j"
proof (cases "j div 8 = i div 8")
  case True
  have "j mod 8 = i mod 8 \<longleftrightarrow> j = i" using True by (metis div_mult_mod_eq)
  moreover have "bit (push_bit (i mod 8) (1 :: u8)) (j mod 8) \<longleftrightarrow> j mod 8 = i mod 8"
    by (simp only: bit_push_bit_iff) (auto simp: bit_simps)
  ultimately show ?thesis using True assms by (auto simp: bitmap_bit_iff bit_or_iff)
qed (auto simp: bitmap_bit_iff)

lemma bitmap_bit_empty: "i div 8 < n \<Longrightarrow> \<not> bitmap_bit (replicate n 0) i"
  by (simp add: bitmap_bit_iff)

subsection \<open>Cutting\<close>

definition long_record :: "nat \<Rightarrow> bytes \<Rightarrow> bool" where
  "long_record n r \<longleftrightarrow> n < length r"

definition prefix_part :: "nat \<Rightarrow> bytes \<Rightarrow> bytes" where
  "prefix_part n r = take (min (length r) n) r @ replicate (n - min (length r) n) 0"

definition overflow_part :: "nat \<Rightarrow> bytes \<Rightarrow> bytes" where
  "overflow_part n r =
     (if long_record n r then put_uleb128 [] (of_nat (length (drop n r))) @ drop n r else [])"

text \<open>The record as the readers reassemble it: a short record keeps its padding.\<close>

definition padded :: "nat \<Rightarrow> bytes \<Rightarrow> bytes" where
  "padded n r = (if long_record n r then r else prefix_part n r)"

lemma length_prefix_part [simp]: "length (prefix_part n r) = n"
  by (simp add: prefix_part_def)

lemma prefix_padded: "prefix r (padded n r)"
  by (auto simp: padded_def prefix_part_def long_record_def)

lemma padded_long: "padded n r = prefix_part n r @ (if long_record n r then drop n r else [])"
  by (simp add: padded_def prefix_part_def long_record_def)

lemma pack_records_eq:
  assumes "i + length rs \<le> 8 * length bitmap"
  shows "\<exists>bitmap'. pack_records n i rs bitmap body overflow =
      (bitmap', body @ concat (map (prefix_part n) rs), overflow @ concat (map (overflow_part n) rs)) \<and>
    length bitmap' = length bitmap \<and>
    (\<forall>j. bitmap_bit bitmap' j \<longleftrightarrow>
       bitmap_bit bitmap j \<or> (i \<le> j \<and> j < i + length rs \<and> long_record n (rs ! (j - i))))"
  using assms
proof (induction rs arbitrary: i bitmap body overflow)
  case (Cons r rs)
  let ?bm = "if long_record n r then bitmap[i div 8 := bitmap ! (i div 8) OR push_bit (i mod 8) 1] else bitmap"
  have i: "i div 8 < length bitmap" using Cons.prems by (simp add: div_less_iff_less_mult)
  have step: "pack_records n i (r # rs) bitmap body overflow =
    pack_records n (Suc i) rs ?bm (body @ prefix_part n r) (overflow @ overflow_part n r)"
    by (simp add: Let_def long_record_def prefix_part_def overflow_part_def put_uleb128_Nil [of overflow])
  have "Suc i + length rs \<le> 8 * length ?bm" using Cons.prems by simp
  then obtain bm' where bm': "pack_records n (Suc i) rs ?bm (body @ prefix_part n r) (overflow @ overflow_part n r) =
      (bm', (body @ prefix_part n r) @ concat (map (prefix_part n) rs),
        (overflow @ overflow_part n r) @ concat (map (overflow_part n) rs))"
    "length bm' = length ?bm"
    "\<And>j. bitmap_bit bm' j \<longleftrightarrow>
       bitmap_bit ?bm j \<or> (Suc i \<le> j \<and> j < Suc i + length rs \<and> long_record n (rs ! (j - Suc i)))"
    using Cons.IH [of "Suc i" ?bm "body @ prefix_part n r" "overflow @ overflow_part n r"] by blast
  have first: "bitmap_bit ?bm j \<longleftrightarrow> bitmap_bit bitmap j \<or> (j = i \<and> long_record n r)" for j
    using bitmap_bit_set [OF i, of j] by auto
  have "bitmap_bit bm' j \<longleftrightarrow>
      bitmap_bit bitmap j \<or> (i \<le> j \<and> j < i + length (r # rs) \<and> long_record n ((r # rs) ! (j - i)))" for j
    unfolding bm'(3) first by (cases "j = i") (auto simp: nth_Cons' not_less_eq_eq le_eq_less_or_eq)
  moreover have "length bm' = length bitmap" using bm'(2) by simp
  ultimately show ?case using bm'(1) step by simp
qed auto

lemma pack_block_body_eq:
  obtains bitmap where
    "pack_block_body rs n = (concat (map (prefix_part n) rs) @ concat (map (overflow_part n) rs), bitmap)"
    "length bitmap = div_ceil8 (length rs)"
    "\<And>j. j < length rs \<Longrightarrow> bitmap_bit bitmap j \<longleftrightarrow> long_record n (rs ! j)"
proof -
  let ?bm = "replicate ((length rs + 7) div 8) 0"
  have "0 + length rs \<le> 8 * length ?bm" by simp
  from pack_records_eq [OF this, of n "[]" "[]"] obtain bm where
    "pack_records n 0 rs ?bm [] [] =
       (bm, concat (map (prefix_part n) rs), concat (map (overflow_part n) rs))"
    "length bm = (length rs + 7) div 8"
    and bits: "\<And>j. bitmap_bit bm j \<longleftrightarrow> bitmap_bit ?bm j \<or> (j < length rs \<and> long_record n (rs ! j))"
    by auto
  moreover have "\<not> bitmap_bit ?bm j" if "j < length rs" for j
    using that by (intro bitmap_bit_empty) (simp add: div_less_iff_less_mult less_Suc_eq_le)
  ultimately show thesis
    by (intro that [of bm]) (auto simp: pack_block_body_def div_ceil8_def)
qed

subsection \<open>Reassembling\<close>

text \<open>
  \<open>body_in data off n rs tx\<close>: the packed body of the records \<open>rs\<close> stands at \<open>off\<close> in \<open>data\<close>, before \<open>tx\<close>.
\<close>

definition body_in :: "bytes \<Rightarrow> nat \<Rightarrow> nat \<Rightarrow> bytes list \<Rightarrow> nat \<Rightarrow> bool" where
  "body_in data off n rs tx \<longleftrightarrow>
     (\<exists>pre rest. data = pre @ concat (map (prefix_part n) rs) @ concat (map (overflow_part n) rs) @ rest \<and>
        length pre = off \<and>
        off + n * length rs + length (concat (map (overflow_part n) rs)) \<le> tx) \<and>
     tx \<le> length data \<and> length data < 2 ^ 64"

lemma length_concat_prefix_parts: "length (concat (map (prefix_part n) rs)) = n * length rs"
  by (induction rs) simp_all

lemma concat_map_split: "i < length xs \<Longrightarrow>
    concat (map f xs) = concat (map f (take i xs)) @ f (xs ! i) @ concat (map f (drop (Suc i) xs))"
  by (subst id_take_nth_drop [of i xs]) simp_all

abbreviation overflow_at :: "nat \<Rightarrow> nat \<Rightarrow> bytes list \<Rightarrow> nat \<Rightarrow> nat" where
  "overflow_at off n rs i \<equiv> off + n * length rs + length (concat (map (overflow_part n) (take i rs)))"

lemma body_in_prefix_slice:
  assumes "body_in data off n rs tx" "i < length rs"
  shows "slice_of data (off + i * n) (off + (i + 1) * n) = Inr (prefix_part n (rs ! i))"
proof -
  from assms(1) obtain pre rest where data: "data = pre @ concat (map (prefix_part n) rs) @ rest"
    and off: "length pre = off" by (auto simp: body_in_def)
  let ?a = "pre @ concat (map (prefix_part n) (take i rs))"
  have "data = ?a @ prefix_part n (rs ! i) @ concat (map (prefix_part n) (drop (Suc i) rs)) @ rest"
    using data by (simp add: concat_map_split [OF assms(2), of "prefix_part n"])
  moreover have "length ?a = off + i * n"
    using assms(2) by (simp add: off length_concat_prefix_parts mult.commute)
  moreover have "off + (i + 1) * n = length ?a + length (prefix_part n (rs ! i))"
    using calculation(2) by simp
  ultimately show ?thesis by (metis slice_of_middle)
qed

lemma body_in_overflow:
  assumes "body_in data off n rs tx" "i < length rs" "long_record n (rs ! i)"
  shows "\<exists>o1. read_uleb128 data (overflow_at off n rs i) = Inr (of_nat (length (drop n (rs ! i))), o1) \<and>
    slice_of data o1 (overflow_at off n rs (Suc i)) = Inr (drop n (rs ! i)) \<and>
    o1 + length (drop n (rs ! i)) = overflow_at off n rs (Suc i)"
proof -
  let ?r = "drop n (rs ! i)"
  from assms(1) obtain pre rest where
    data: "data = pre @ concat (map (prefix_part n) rs) @ concat (map (overflow_part n) rs) @ rest"
    and off: "length pre = off" by (auto simp: body_in_def)
  let ?a = "pre @ concat (map (prefix_part n) rs) @ concat (map (overflow_part n) (take i rs))"
  have split: "concat (map (overflow_part n) rs) = concat (map (overflow_part n) (take i rs)) @
      overflow_part n (rs ! i) @ concat (map (overflow_part n) (drop (Suc i) rs))"
    by (rule concat_map_split [OF assms(2)])
  have pre: "prefix (put_uleb128 ?a (of_nat (length ?r)) @ ?r) data"
    unfolding data split by (simp add: overflow_part_def assms(3) put_uleb128_Nil [of ?a] append_assoc)
  have a: "length ?a = overflow_at off n rs i" by (simp add: off length_concat_prefix_parts)
  let ?o = "length (put_uleb128 ?a (of_nat (length ?r)))"
  have "read_uleb128 data (length ?a) = Inr (of_nat (length ?r), ?o)"
    by (rule read_uleb [OF append_prefixD [OF pre]])
  moreover have e: "?o + length ?r = overflow_at off n rs (Suc i)"
    using assms(2,3) a
    by (simp add: put_uleb128_Nil [of ?a] take_Suc_conv_app_nth overflow_part_def)
  moreover have "slice_of data ?o (?o + length ?r) = Inr ?r"
    by (rule slice_of_prefix_middle [OF pre refl refl])
  ultimately show ?thesis unfolding a by metis
qed

lemma overflow_at_bound:
  assumes "body_in data off n rs tx"
  shows "overflow_at off n rs i \<le> tx"
proof -
  have "concat (map (overflow_part n) rs) =
      concat (map (overflow_part n) (take i rs)) @ concat (map (overflow_part n) (drop i rs))"
    by (metis append_take_drop_id concat_append map_append)
  then have "length (concat (map (overflow_part n) (take i rs))) \<le> length (concat (map (overflow_part n) rs))"
    by simp
  with assms show ?thesis unfolding body_in_def by linarith
qed

lemma read_record_body:
  assumes "body_in data off n rs tx" "i < length rs"
    and "bitmap_bit bitmap i \<longleftrightarrow> long_record n (rs ! i)"
  shows "read_record data off tx n bitmap i (overflow_at off n rs i) =
    Inr (padded n (rs ! i), overflow_at off n rs (Suc i))"
proof (cases "long_record n (rs ! i)")
  case True
  let ?r = "drop n (rs ! i)"
  obtain o1 where o1: "read_uleb128 data (overflow_at off n rs i) = Inr (of_nat (length ?r), o1)"
    "slice_of data o1 (overflow_at off n rs (Suc i)) = Inr ?r"
    "o1 + length ?r = overflow_at off n rs (Suc i)"
    using body_in_overflow [OF assms(1,2) True] by blast
  have tx: "overflow_at off n rs (Suc i) \<le> tx" by (rule overflow_at_bound [OF assms(1)])
  moreover have "tx < 2 ^ 64" using assms(1) by (auto simp: body_in_def)
  ultimately have lt: "overflow_at off n rs (Suc i) < 2 ^ 64" by linarith
  then have "length ?r < 2 ^ 64" using o1(3) by linarith
  then have u: "unat (of_nat (length ?r) :: u64) = length ?r" by (rule unat_of_nat_u64)
  have "usize_add o1 (length ?r) = overflow_at off n rs (Suc i)"
    using lt unfolding o1(3) [symmetric] by (rule usize_add_exact)
  then show ?thesis
    using True assms(3) o1(1,2) tx u body_in_prefix_slice [OF assms(1,2)]
    unfolding read_record_def by (simp add: Let_def padded_long)
next
  case False
  then have "overflow_at off n rs (Suc i) = overflow_at off n rs i"
    using assms(2) by (simp add: take_Suc_conv_app_nth overflow_part_def)
  with False assms(3) body_in_prefix_slice [OF assms(1,2)] show ?thesis
    unfolding read_record_def by (simp add: padded_long)
qed

end
