(* ===== verification/Packet_Layout.thy ===== *)
theory Packet_Layout
  imports Packet_Body
begin

text \<open>
  The sections of an assembled packet: \<open>assemble_packet\<close> writes the header, the offset table and
  the sections so that every reader finds them. \<open>packet_layout\<close> collects what the decoder, the
  verifier and the flag patcher need.
\<close>

subsection \<open>The header and the offset table\<close>

lemma copy_into_zeros:
  "length a = pos \<Longrightarrow> length bs \<le> m \<Longrightarrow>
     copy_into (a @ replicate m 0) pos bs = (a @ bs) @ replicate (m - length bs) 0"
  by (simp add: copy_into_def)

definition fixed_header :: "'t packet \<Rightarrow> nat \<Rightarrow> bytes" where
  "fixed_header input n =
     as_bytes (p_prev_last_hash input) @ as_bytes (p_prev_last_deferred_state_root input)
     @ to_le_bytes 8 (p_first_block_number input) @ to_le_bytes 8 (p_min_timestamp input)
     @ to_le_bytes 8 (p_min_height input) @ to_le_bytes 4 (ucast (p_min_pos_height input) :: u32) @ [of_nat n]"

lemma length_fixed_header [simp]: "length (fixed_header input n) = 93"
  by (simp add: fixed_header_def)

lemma packet_header_eq: "packet_header input n = fixed_header input n @ replicate 32 0"
proof -
  let ?h = "as_bytes (p_prev_last_hash input)" and ?r = "as_bytes (p_prev_last_deferred_state_root input)"
  let ?b = "to_le_bytes 8 (p_first_block_number input)" and ?t = "to_le_bytes 8 (p_min_timestamp input)"
  let ?m = "to_le_bytes 8 (p_min_height input)" and ?p = "to_le_bytes 4 (ucast (p_min_pos_height input) :: u32)"
  have "copy_into (replicate 125 0) 0 ?h = ?h @ replicate 93 0"
    using copy_into_zeros [of "[]" 0 ?h 125] by simp
  moreover have "copy_into (?h @ replicate 93 0) 32 ?r = (?h @ ?r) @ replicate 61 0"
    using copy_into_zeros [of ?h 32 ?r 93] by simp
  moreover have "copy_into ((?h @ ?r) @ replicate 61 0) 64 ?b = (?h @ ?r @ ?b) @ replicate 53 0"
    using copy_into_zeros [of "?h @ ?r" 64 ?b 61] by simp
  moreover have "copy_into ((?h @ ?r @ ?b) @ replicate 53 0) 72 ?t = (?h @ ?r @ ?b @ ?t) @ replicate 45 0"
    using copy_into_zeros [of "?h @ ?r @ ?b" 72 ?t 53] by simp
  moreover have "copy_into ((?h @ ?r @ ?b @ ?t) @ replicate 45 0) 80 ?m = (?h @ ?r @ ?b @ ?t @ ?m) @ replicate 37 0"
    using copy_into_zeros [of "?h @ ?r @ ?b @ ?t" 80 ?m 45] by simp
  moreover have "copy_into ((?h @ ?r @ ?b @ ?t @ ?m) @ replicate 37 0) 88 ?p =
      (?h @ ?r @ ?b @ ?t @ ?m @ ?p) @ replicate 33 0"
    using copy_into_zeros [of "?h @ ?r @ ?b @ ?t @ ?m" 88 ?p 37] by simp
  moreover have "((?h @ ?r @ ?b @ ?t @ ?m @ ?p) @ replicate 33 0)[92 := x] =
      (?h @ ?r @ ?b @ ?t @ ?m @ ?p) @ x # replicate 32 0" for x
    using list_update_append [of "?h @ ?r @ ?b @ ?t @ ?m @ ?p" "replicate 33 0" 92 x]
    by (simp add: numeral_eq_Suc)
  ultimately show ?thesis
    unfolding packet_header_def Let_def header_lens by (simp only: fixed_header_def) simp
qed

definition offset_table :: "nat list \<Rightarrow> bytes" where
  "offset_table offsets = concat (map (\<lambda>x. to_le_bytes 4 (of_nat x :: u32)) offsets)"

lemma length_offset_table [simp]: "length (offset_table offsets) = 4 * length offsets"
  by (induction offsets) (simp_all add: offset_table_def)

lemma write_offsets_eq:
  "write_offsets i offsets out = Inr data \<Longrightarrow> 93 + 4 * (i + length offsets) \<le> length out \<Longrightarrow>
     data = take (93 + 4 * i) out @ offset_table offsets @ drop (93 + 4 * (i + length offsets)) out \<and>
     (\<forall>x \<in> set offsets. x < 2 ^ 32)"
proof (induction i offsets out rule: write_offsets.induct)
  case (2 i offset offsets out)
  let ?out = "copy_into out (93 + i * 4) (to_le_bytes 4 (of_nat offset :: u32))"
  have o: "offset < 2 ^ 32" "write_offsets (Suc i) offsets ?out = Inr data"
    using "2.prems"(1) by (auto split: if_splits)
  have len: "length ?out = length out" using "2.prems"(2) by (simp add: copy_into_def)
  have "data = take (93 + 4 * Suc i) ?out @ offset_table offsets @ drop (93 + 4 * (Suc i + length offsets)) ?out"
    and small: "\<forall>x \<in> set offsets. x < 2 ^ 32"
    using "2.IH" [of] o "2.prems"(2) len by simp_all
  moreover have "take (93 + 4 * Suc i) ?out = take (93 + 4 * i) out @ to_le_bytes 4 (of_nat offset :: u32)"
    using "2.prems"(2) by (simp add: copy_into_def mult.commute)
  moreover have "drop (93 + 4 * (Suc i + length offsets)) ?out = drop (93 + 4 * (Suc i + length offsets)) out"
    using "2.prems"(2) by (simp add: copy_into_def algebra_simps)
  ultimately show ?case using o(1) by (simp add: offset_table_def)
qed (simp add: offset_table_def)

lemma read_u32_le_at:
  assumes "data = a @ to_le_bytes 4 v @ b" "length a = pos"
  shows "read_u32_le data pos = Inr v"
  using read_put_u32_le [of a v data] assms by (simp add: put_u32_le_def)

lemma read_u64_le_at:
  assumes "data = a @ to_le_bytes 8 v @ b" "length a = pos"
  shows "read_u64_le data pos = Inr v"
  using read_put_u64_le [of a v data] assms by (simp add: put_u64_le_def)

lemma read_offsets_eq:
  assumes "data = h @ offset_table offsets @ rest" "length h = 93" "length offsets = 8"
    and "\<forall>x \<in> set offsets. x < 2 ^ 32"
  shows "read_offsets data = Inr offsets"
proof -
  have "rbind (read_u32_le data (93 + i * 4)) (\<lambda>v. Inr (unat v)) = Inr (offsets ! i)" if "i < 8" for i
  proof -
    have i: "i < length offsets" using that assms(3) by simp
    let ?a = "h @ offset_table (take i offsets)"
    have "data = ?a @ to_le_bytes 4 (of_nat (offsets ! i) :: u32) @ offset_table (drop (Suc i) offsets) @ rest"
      unfolding assms(1) offset_table_def by (simp add: concat_map_split [OF i, of "\<lambda>x. to_le_bytes 4 (of_nat x :: u32)"])
    then have "read_u32_le data (93 + i * 4) = Inr (of_nat (offsets ! i) :: u32)"
      by (rule read_u32_le_at) (use that assms(2,3) in \<open>simp\<close>)
    moreover have "offsets ! i < 2 ^ 32" using i assms(4) by simp
    ultimately show ?thesis by (simp add: unat_of_nat_u32)
  qed
  then have "read_offsets data = Inr (map ((!) offsets) [0..<8])"
    unfolding read_offsets_def header_lens by (intro traverse_map_Inr) auto
  also have "map ((!) offsets) [0..<8] = offsets" using assms(3) by (metis map_nth)
  finally show ?thesis .
qed

lemma ensure_offsets_sorted:
  "ensure_offsets_from prev offsets len = Inr () \<longleftrightarrow>
     sorted (prev # offsets) \<and> (\<forall>x \<in> set offsets. x \<le> len)"
proof (induction offsets arbitrary: prev)
  case (Cons x offsets)
  then show ?case by (auto simp: rbind_Inr_iff)
qed simp

subsection \<open>Tables\<close>

lemma chunks_exact_concat:
  "0 < n \<Longrightarrow> (\<And>x. x \<in> set xs \<Longrightarrow> length x = n) \<Longrightarrow> chunks_exact n (concat xs) = xs"
proof (induction xs)
  case Nil
  then show ?case by (subst chunks_exact.simps) simp
next
  case (Cons x xs)
  then show ?case by (subst chunks_exact.simps) simp
qed

lemma length_concat_same: "(\<And>x. x \<in> set xs \<Longrightarrow> length x = n) \<Longrightarrow> length (concat xs) = n * length xs"
  by (induction xs) auto

lemma decode_addresses_eq: "decode_addresses (concat (map address_bytes as)) = Inr as"
proof -
  have "length (concat (map address_bytes as)) = 20 * length as"
    by (subst length_concat_same [where n = 20]) auto
  moreover have "chunks_exact 20 (concat (map address_bytes as)) = map address_bytes as"
    by (rule chunks_exact_concat) auto
  ultimately show ?thesis by (simp add: decode_addresses_def comp_def)
qed

abbreviation pos_entry_bytes :: "pos_lookup_entry \<Rightarrow> bytes" where
  "pos_entry_bytes e \<equiv> as_bytes (pl_hash e) @ to_le_bytes 2 (pl_height_offset e)"

lemma decode_pos_entries_eq: "decode_pos_entries (concat (map pos_entry_bytes es)) = Inr es"
proof -
  have len: "length (concat (map pos_entry_bytes es)) = 34 * length es"
    by (subst length_concat_same [where n = 34]) auto
  have two: "[c ! 0, c ! 1] = c" if "length c = 2" for c :: bytes
    using that by (auto simp: length_Suc_conv numeral_2_eq_2)
  have "(\<lambda>chunk. \<lparr>pl_hash = H256 (take 32 chunk), pl_height_offset = from_le_bytes [chunk ! 32, chunk ! 33]\<rparr>)
      (pos_entry_bytes e) = e" for e
    using two [of "to_le_bytes 2 (pl_height_offset e)"] by (simp add: nth_append)
  moreover have "chunks_exact 34 (concat (map pos_entry_bytes es)) = map pos_entry_bytes es"
    by (rule chunks_exact_concat) auto
  ultimately show ?thesis
    using len by (simp only: decode_pos_entries_def map_map comp_def) simp
qed

lemma decode_u256_table_eq:
  assumes "k < 32"
  shows "decode_u256_table (concat (map u256_to_be vs) @ replicate k 0) = Inr vs"
proof -
  let ?c = "concat (map u256_to_be vs)"
  have len: "length ?c = 32 * length vs"
    by (subst length_concat_same [where n = 32]) (auto simp: u256_to_be_def)
  have "trim_zero_padding (?c @ replicate k 0) 32 = Inr ?c"
    using assms len by (simp add: trim_zero_padding_def Let_def list_all_iff)
  moreover have "chunks_exact 32 ?c = map u256_to_be vs"
    by (rule chunks_exact_concat) (auto simp: u256_to_be_def)
  ultimately show ?thesis using len by (simp add: decode_u256_table_def u256_to_be_def comp_def)
qed

lemma fold_put_sender_nonce:
  "fold put_sender_nonce ns out = out @ fold put_sender_nonce ns []"
proof (induction ns arbitrary: out)
  case (Cons e ns)
  have "put_sender_nonce e out = out @ put_sender_nonce e []"
    by (simp add: put_sender_nonce_def put_uleb128_Nil [of out] put_uleb128_append)
  then show ?case by (metis Cons append_assoc fold_simps(2))
qed simp

lemma decode_sender_base_nonces_eq:
  assumes "\<And>e. e \<in> set ns \<Longrightarrow> sn_sender_index e < 2 ^ 64"
  shows "decode_sender_base_nonces_from (fold put_sender_nonce ns pre) (length pre) = Inr ns"
  using assms
proof (induction ns arbitrary: pre)
  case Nil
  then show ?case by (subst decode_sender_base_nonces_from.simps) simp
next
  case (Cons e ns)
  let ?data = "fold put_sender_nonce (e # ns) pre"
  let ?o1 = "put_uleb128 pre (of_nat (sn_sender_index e))" and ?o2 = "put_sender_nonce e pre"
  have data: "?data = ?o2 @ fold put_sender_nonce ns []"
    using fold_put_sender_nonce [of ns ?o2] by simp
  have p2: "prefix (put_uleb128 ?o1 (sn_base_nonce e)) ?data"
    unfolding data by (simp add: put_sender_nonce_def)
  have r1: "read_uleb128 ?data (length pre) = Inr (of_nat (sn_sender_index e), length ?o1)"
    by (rule read_uleb [OF prefix_uleb [OF p2]])
  have r2: "read_uleb128 ?data (length ?o1) = Inr (sn_base_nonce e, length ?o2)"
    using read_uleb [OF p2] by (simp add: put_sender_nonce_def)
  have rest: "decode_sender_base_nonces_from ?data (length ?o2) = Inr ns"
    using Cons.IH [of ?o2] Cons.prems by simp
  have "length pre < length ?data"
    using read_uleb128_bounds [OF r1] by simp
  then show ?case
    using r1 r2 rest Cons.prems [of e]
    by (subst decode_sender_base_nonces_from.simps) (simp add: unat_of_nat_u64)
qed

subsection \<open>All sections\<close>

definition packet_layout ::
  "'t packet \<Rightarrow> bytes \<Rightarrow> nat \<Rightarrow> bytes list \<Rightarrow> bytes \<Rightarrow> bytes \<Rightarrow> nat list \<Rightarrow> bool" where
  "packet_layout input data n rs bitmap seg offs \<longleftrightarrow>
     (\<exists>rest. data = fixed_header input n @ offset_table offs @ rest) \<and>
     read_offsets data = Inr offs \<and> ensure_offsets offs (length data) = Inr () \<and>
     rbind (slice_of data (offs ! 0) (offs ! 1)) decode_addresses = Inr (p_addresses input) \<and>
     rbind (slice_of data (offs ! 1) (offs ! 2)) decode_pos_entries = Inr (p_pos_entries input) \<and>
     rbind (slice_of data (offs ! 2) (offs ! 3)) decode_u256_table = Inr (p_difficulties input) \<and>
     rbind (slice_of data (offs ! 3) (offs ! 4)) decode_sender_base_nonces = Inr (p_sender_base_nonces input) \<and>
     rbind (slice_of data (offs ! 4) (offs ! 5)) decode_u256_table = Inr (p_gas_prices input) \<and>
     read_u32_le data (offs ! 5) = Inr (of_nat (length rs)) \<and> length rs < 2 ^ 32 \<and>
     slice_of data (offs ! 5 + 4) (offs ! 5 + 4 + div_ceil8 (length rs)) = Inr bitmap \<and>
     offs ! 5 + 4 + div_ceil8 (length rs) \<le> offs ! 6 \<and>
     body_in data (offs ! 6) n rs (offs ! 7) \<and> drop (offs ! 7) data = seg \<and>
     offs ! 5 mod 32 = 0 \<and> offs ! 7 mod 64 = 0 \<and> length offs = 8"

lemma align_to_pad:
  assumes "0 < k"
  obtains p where "align_to out k = out @ replicate p 0" "p < k" "(length out + p) mod k = 0"
proof -
  let ?p = "(k - length out mod k) mod k"
  have "align_to out k = out @ replicate ?p 0" by (simp add: align_to_def Let_def)
  moreover have "?p < k" using assms by simp
  moreover have "(length out + ?p) mod k = 0"
    using align_to_props(1) [OF assms, of out] calculation(1) by (simp add: mod_eq_0_iff_dvd)
  ultimately show thesis by (rule that)
qed

lemma slice_at:
  assumes "data = a @ b @ c" "length a = s" "e = s + length b"
  shows "slice_of data s e = Inr b"
  using slice_of_middle [OF assms(2,3), of c] assms(1) by simp

lemma assemble_packet_layout:
  assumes data: "assemble_packet input n (length rs) bitmap body seg = Inr data"
    and body: "body = concat (map (prefix_part n) rs) @ concat (map (overflow_part n) rs)"
    and bitmap: "length bitmap = div_ceil8 (length rs)"
    and n: "0 < n" and size: "length data < 2 ^ 64"
    and nonces: "\<And>e. e \<in> set (p_sender_base_nonces input) \<Longrightarrow> sn_sender_index e < 2 ^ 64"
  shows "\<exists>offs. packet_layout input data n rs bitmap seg offs"
proof -
  define H where "H = packet_header input n"
  define A where "A = concat (map address_bytes (p_addresses input))"
  define P where "P = concat (map pos_entry_bytes (p_pos_entries input))"
  define D where "D = concat (map u256_to_be (p_difficulties input))"
  define N where "N = fold put_sender_nonce (p_sender_base_nonces input) []"
  define G where "G = concat (map u256_to_be (p_gas_prices input))"
  define C where "C = to_le_bytes 4 (of_nat (length rs) :: u32)"
  have H: "length H = 125" by (simp add: H_def packet_header_eq)
  have C: "length C = 4" by (simp add: C_def)
  obtain g where g: "align_to (H @ A @ P @ D @ N @ G) 32 = (H @ A @ P @ D @ N @ G) @ replicate g 0" "g < 32"
    "(length (H @ A @ P @ D @ N @ G) + g) mod 32 = 0" by (rule align_to_pad [of 32 "H @ A @ P @ D @ N @ G"]) simp_all
  define X5 where "X5 = A @ P @ D @ N @ G @ replicate g 0"
  obtain h where h: "align_to (H @ X5 @ C @ bitmap) 32 = (H @ X5 @ C @ bitmap) @ replicate h 0"
    by (rule align_to_pad [of 32 "H @ X5 @ C @ bitmap"]) simp_all
  define X6 where "X6 = X5 @ C @ bitmap @ replicate h 0"
  obtain k where k: "align_to (H @ X6 @ body) 64 = (H @ X6 @ body) @ replicate k 0"
    "(length (H @ X6 @ body) + k) mod 64 = 0" by (rule align_to_pad [of 64 "H @ X6 @ body"]) simp_all
  define X7 where "X7 = X6 @ body @ replicate k 0"
  define offs where "offs = [125, 125 + length A, 125 + length A + length P,
    125 + length A + length P + length D, 125 + length A + length P + length D + length N,
    125 + length X5, 125 + length X6, 125 + length X7]"
  have "fold put_sender_nonce (p_sender_base_nonces input) (H @ A @ P @ D) = H @ A @ P @ D @ N"
    using fold_put_sender_nonce [of "p_sender_base_nonces input" "H @ A @ P @ D"] by (simp add: N_def)
  note steps = this g(1) [unfolded append_assoc] h [unfolded X5_def append_assoc]
    k(1) [unfolded X6_def X5_def append_assoc]
  have "write_offsets 0 offs (H @ X7 @ seg) = Inr data"
    using data unfolding assemble_packet_def Let_def put_u32_le_def
    unfolding H_def [symmetric] A_def [symmetric] P_def [symmetric] D_def [symmetric] G_def [symmetric]
      C_def [symmetric] append_assoc steps
    by (simp add: offs_def X7_def X6_def X5_def H add.assoc del: write_offsets.simps)
  then have d: "data = fixed_header input n @ offset_table offs @ X7 @ seg"
    and small: "\<forall>x \<in> set offs. x < 2 ^ 32"
    using write_offsets_eq [of 0 offs "H @ X7 @ seg" data]
    by (simp_all add: offs_def H_def packet_header_eq)
  define F where "F = fixed_header input n @ offset_table offs"
  have F: "length F = 125" by (simp add: F_def offs_def)
  have dF: "data = F @ X7 @ seg" by (simp add: d F_def)
  have len: "length data = 125 + length X7 + length seg" by (simp add: dF F)
  have ro: "read_offsets data = Inr offs"
    by (rule read_offsets_eq [OF d _ _ small]) (simp_all add: offs_def)
  have eo: "ensure_offsets offs (length data) = Inr ()"
    by (simp add: ensure_offsets_def ensure_offsets_sorted offs_def len X7_def X6_def X5_def)
  have sa: "slice_of data (offs ! 0) (offs ! 1) = Inr A"
    by (rule slice_at [of _ F A "drop (length A) X7 @ seg"]) (simp_all add: dF F offs_def X7_def X6_def X5_def)
  have sp: "slice_of data (offs ! 1) (offs ! 2) = Inr P"
    by (rule slice_at [of _ "F @ A" P "drop (length A + length P) X7 @ seg"])
      (simp_all add: dF F offs_def X7_def X6_def X5_def)
  have sd: "slice_of data (offs ! 2) (offs ! 3) = Inr D"
    by (rule slice_at [of _ "F @ A @ P" D "drop (length A + length P + length D) X7 @ seg"])
      (simp_all add: dF F offs_def X7_def X6_def X5_def)
  have sn: "slice_of data (offs ! 3) (offs ! 4) = Inr N"
    by (rule slice_at [of _ "F @ A @ P @ D" N "drop (length A + length P + length D + length N) X7 @ seg"])
      (simp_all add: dF F offs_def X7_def X6_def X5_def)
  have sg: "slice_of data (offs ! 4) (offs ! 5) = Inr (G @ replicate g 0)"
    by (rule slice_at [of _ "F @ A @ P @ D @ N" _ "C @ bitmap @ replicate h 0 @ body @ replicate k 0 @ seg"])
      (simp_all add: dF F offs_def X7_def X6_def X5_def)
  have rc: "read_u32_le data (offs ! 5) = Inr (of_nat (length rs))"
    by (rule read_u32_le_at [of _ "F @ X5" _ "bitmap @ replicate h 0 @ body @ replicate k 0 @ seg"])
      (simp_all add: dF F offs_def X7_def X6_def C_def)
  have sb: "slice_of data (offs ! 5 + 4) (offs ! 5 + 4 + div_ceil8 (length rs)) = Inr bitmap"
    by (rule slice_at [of _ "F @ X5 @ C" _ "replicate h 0 @ body @ replicate k 0 @ seg"])
      (simp_all add: dF F C offs_def X7_def X6_def bitmap)
  have bl: "length body = n * length rs + length (concat (map (overflow_part n) rs))"
    by (simp add: body length_concat_prefix_parts)
  have count: "length rs < 2 ^ 32"
  proof -
    have "1 * length rs \<le> n * length rs" using n by (intro mult_le_mono1) simp
    moreover have "offs ! 7 = 125 + length X6 + length body + k" by (simp add: offs_def X7_def)
    ultimately have "length rs \<le> offs ! 7" using bl by linarith
    also have "\<dots> < 2 ^ 32" using small by (simp add: offs_def)
    finally show ?thesis .
  qed
  have bi: "body_in data (offs ! 6) n rs (offs ! 7)"
    unfolding body_in_def
  proof (intro conjI exI)
    show "data = (F @ X6) @ concat (map (prefix_part n) rs) @ concat (map (overflow_part n) rs) @ replicate k 0 @ seg"
      by (simp add: dF X7_def body)
    show "length (F @ X6) = offs ! 6" by (simp add: F offs_def)
    show "offs ! 6 + n * length rs + length (concat (map (overflow_part n) rs)) \<le> offs ! 7"
      using bl by (simp add: offs_def X7_def)
    show "offs ! 7 \<le> length data" using len by (simp add: offs_def)
  qed (rule size)
  have "drop (offs ! 7) data = seg" by (simp add: dF F offs_def)
  moreover have "offs ! 5 mod 32 = 0" "offs ! 7 mod 64 = 0"
    using g(3) k(2) H by (simp_all add: offs_def X5_def X7_def add.assoc)
  moreover have "offs ! 5 + 4 + div_ceil8 (length rs) \<le> offs ! 6"
    using bitmap C by (simp add: offs_def X6_def)
  moreover have "decode_sender_base_nonces N = Inr (p_sender_base_nonces input)"
    using decode_sender_base_nonces_eq [of "p_sender_base_nonces input" "[]"] nonces
    by (simp add: decode_sender_base_nonces_def N_def)
  moreover have "decode_u256_table D = Inr (p_difficulties input)"
    using decode_u256_table_eq [of 0 "p_difficulties input"] by (simp add: D_def)
  moreover have "decode_addresses A = Inr (p_addresses input)" "decode_pos_entries P = Inr (p_pos_entries input)"
    "decode_u256_table (G @ replicate g 0) = Inr (p_gas_prices input)"
    by (simp_all only: A_def P_def G_def decode_addresses_eq decode_pos_entries_eq decode_u256_table_eq [OF g(2)])
  ultimately have "packet_layout input data n rs bitmap seg offs"
    unfolding packet_layout_def using d ro eo sa sp sd sn sg rc sb bi count
    by (auto simp: offs_def simp del: One_nat_def)
  then show ?thesis ..
qed

end
