(* ===== verification/Packet_Segment.thy ===== *)
theory Packet_Segment
  imports Packet_Layout
begin

text \<open>
  The transaction segment: where \<open>encode_records\<close> places the payload of a block, \<open>locate_payload\<close>
  finds it and \<open>unpack_payload\<close> returns it. The snappy codec is a parameter; the only fact used of
  it is \<open>snap_law\<close>, that decompressing what it compressed gives the input back.
\<close>

definition snap_law :: "snap_lib \<Rightarrow> bool" where
  "snap_law S \<longleftrightarrow> (\<forall>p c. snap_compress S p = Inr c \<longrightarrow> snap_decompress S c = Inr p)"

definition tx_flags :: u8 where
  "tx_flags = FLAG_HAS_TRANSACTIONS OR FLAG_TX_COMPRESSED"

lemma flag_bits:
  "f AND FLAG_HAS_TRANSACTIONS \<noteq> 0 \<longleftrightarrow> bit f 3" "f AND FLAG_TX_COMPRESSED \<noteq> 0 \<longleftrightarrow> bit f 4"
  "f AND FLAG_PIVOT \<noteq> 0 \<longleftrightarrow> bit f 1" "f AND FLAG_ZERO_TOTAL_REWARD \<noteq> 0 \<longleftrightarrow> bit f 6"
  unfolding FLAG_HAS_TRANSACTIONS_def FLAG_TX_COMPRESSED_def FLAG_PIVOT_def FLAG_ZERO_TOTAL_REWARD_def
  by (simp_all only: bit_iff_and_push_bit_not_eq_0)

lemma bit_flags:
  "bit FLAG_HAS_TRANSACTIONS n \<longleftrightarrow> n = 3" "bit FLAG_TX_COMPRESSED n \<longleftrightarrow> n = 4"
  "bit FLAG_ZERO_TOTAL_REWARD n \<longleftrightarrow> n = 6" "bit FLAG_PIVOT n \<longleftrightarrow> n = 1"
  unfolding FLAG_HAS_TRANSACTIONS_def FLAG_TX_COMPRESSED_def FLAG_ZERO_TOTAL_REWARD_def FLAG_PIVOT_def
  by (simp_all only: bit_push_bit_iff) (auto simp: bit_simps)

definition flags_without_tx :: "u8 \<Rightarrow> u8" where
  "flags_without_tx f = f AND NOT (FLAG_HAS_TRANSACTIONS OR FLAG_TX_COMPRESSED)"

lemma bit_flags_without_tx: "bit (flags_without_tx f) n \<longleftrightarrow> bit f n \<and> n \<noteq> 3 \<and> n \<noteq> 4"
  unfolding flags_without_tx_def bit_and_iff bit_not_iff bit_or_iff bit_flags
  by (auto dest: bit_imp_le_length)

text \<open>\<open>placed S b payload seg f off\<close>: the payload of a block with flags \<open>b\<close> stands in the segment.\<close>

definition stored_at :: "bytes \<Rightarrow> u64 \<Rightarrow> bytes \<Rightarrow> bool" where
  "stored_at seg off stored \<longleftrightarrow>
     (\<exists>pre. length pre = 4 * unat off \<and> prefix (put_uleb128 pre (of_nat (length stored)) @ stored) seg)"

definition final_flags :: "u8 \<Rightarrow> bytes \<Rightarrow> u8" where
  "final_flags f payload =
     (if payload = [] then flags_without_tx f
      else if 512 < length payload
        then flags_without_tx f OR FLAG_HAS_TRANSACTIONS OR FLAG_TX_COMPRESSED
      else flags_without_tx f OR FLAG_HAS_TRANSACTIONS)"

lemma final_flags_bits:
  "bit (final_flags f payload) 3 \<longleftrightarrow> payload \<noteq> []"
  "bit (final_flags f payload) 4 \<longleftrightarrow> 512 < length payload"
  "n \<noteq> 3 \<Longrightarrow> n \<noteq> 4 \<Longrightarrow> bit (final_flags f payload) n \<longleftrightarrow> bit f n"
  by (auto simp: final_flags_def bit_or_iff bit_flags bit_flags_without_tx)

lemma flags_without_tx_final [simp]: "flags_without_tx (final_flags f payload) = flags_without_tx f"
  by (rule bit_eqI) (auto simp: bit_flags_without_tx final_flags_bits)

lemma final_flags_cong: "flags_without_tx f = flags_without_tx g \<Longrightarrow> final_flags f p = final_flags g p"
  by (simp add: final_flags_def)

lemma place_payload_stored:
  assumes "place_payload S f payload seg = Inr (f', off, seg')" "snap_law S" "length seg' < 2 ^ 64"
  shows "f' = final_flags f payload \<and> prefix seg seg' \<and>
    (payload \<noteq> [] \<longrightarrow> (\<exists>stored. stored_at seg' off stored \<and> unpack_payload S f' stored = Inr payload))"
proof (cases "payload = []")
  case True
  with assms(1) show ?thesis
    by (simp add: place_payload_def final_flags_def flags_without_tx_def Let_def)
next
  case False
  let ?seg = "align_to seg 4"
  from assms(1) False obtain stored where
    o: "off = of_nat (length ?seg div 4)" "seg' = put_uleb128 ?seg (of_nat (length stored)) @ stored"
    and f: "f' = final_flags f payload"
    and u: "if 512 < length payload then snap_compress S payload = Inr stored else stored = payload"
    by (auto simp: place_payload_def Let_def rbind_Inr_iff final_flags_def flags_without_tx_def or.assoc split: if_splits)
  have al: "4 dvd length ?seg" "prefix seg ?seg" using align_to_props [of 4 seg] by simp_all
  have "unpack_payload S f' stored = Inr payload"
  proof (cases "512 < length payload")
    case True
    then have "bit f' 4" by (simp add: f final_flags_bits)
    with True u assms(2) show ?thesis by (auto simp: unpack_payload_def flag_bits snap_law_def)
  next
    case False
    then have "\<not> bit f' 4" by (simp add: f final_flags_bits)
    with False u flag_bits(2) [of f'] show ?thesis by (auto simp: unpack_payload_def)
  qed
  moreover have "length ?seg div 4 < 2 ^ 64"
    using assms(3) by (simp add: o(2) put_uleb128_Nil [of ?seg])
  then have "unat off = length ?seg div 4" unfolding o(1) by (rule unat_of_nat_u64)
  then have "length ?seg = 4 * unat off" using al(1) by simp
  then have "stored_at seg' off stored" unfolding stored_at_def o(2) by blast
  moreover have "prefix seg seg'"
    using al(2) by (auto simp: o(2) put_uleb128_Nil [of ?seg] prefix_def)
  ultimately show ?thesis using f by blast
qed

lemma stored_at_mono: "stored_at seg off stored \<Longrightarrow> prefix seg seg' \<Longrightarrow> stored_at seg' off stored"
  unfolding stored_at_def using prefix_order.trans by blast

lemma locate_stored:
  assumes "stored_at seg off stored" "drop tx data = seg" "tx \<le> length data" "length data < 2 ^ 64"
  shows "locate_payload data tx off = Inr stored"
proof -
  from assms(1) obtain pre where pre: "length pre = 4 * unat off"
    "prefix (put_uleb128 pre (of_nat (length stored)) @ stored) seg" by (auto simp: stored_at_def)
  define a where "a = take tx data @ pre"
  have "data = take tx data @ seg" using assms(2) by (metis append_take_drop_id)
  then have data: "prefix (put_uleb128 a (of_nat (length stored)) @ stored) data"
    using pre(2) by (auto simp: a_def put_uleb128_append prefix_def)
  have len: "length a = tx + 4 * unat off" using assms(3) pre(1) by (simp add: a_def)
  let ?o = "length (put_uleb128 a (of_nat (length stored)))"
  have bound: "?o + length stored \<le> length data"
    using prefix_length_le [OF data] by simp
  have lt: "length a < ?o" by (simp add: put_uleb128_Nil [of a])
  have abs: "usize_add tx (usize_mul (unat off) 4) = length a"
    using len bound lt assms(4) by (subst usize_mul_exact) simp_all
  have "read_uleb128 data (length a) = Inr (of_nat (length stored), ?o)"
    by (rule read_uleb [OF append_prefixD [OF data]])
  moreover have "unat (of_nat (length stored) :: u64) = length stored"
    using bound assms(4) by (intro unat_of_nat_u64) linarith
  moreover have "usize_add ?o (length stored) = ?o + length stored"
    using bound assms(4) by (intro usize_add_exact) linarith
  moreover have "slice_of data ?o (?o + length stored) = Inr stored"
    by (rule slice_of_prefix_middle [OF data refl refl])
  ultimately show ?thesis
    using bound lt unfolding locate_payload_def abs Let_def by simp
qed

subsection \<open>All records of a packet\<close>

text \<open>
  \<open>record_of\<close> relates a block and its payload to its flags, its offset and its record, in a given
  segment.
\<close>

definition record_of ::
  "snap_lib \<Rightarrow> 't packet \<Rightarrow> bytes \<Rightarrow> 't block \<times> bytes \<Rightarrow> u64 \<times> bytes \<Rightarrow> bool" where
  "record_of S input seg = (\<lambda>(b, payload) (off, record).
     encode_block_record b (final_flags (b_flags b) payload) off input (index_addresses (p_addresses input))
       (index_u256 (p_difficulties input)) = Inr record \<and>
     (payload \<noteq> [] \<longrightarrow> (\<exists>stored. stored_at seg off stored \<and>
        unpack_payload S (final_flags (b_flags b) payload) stored = Inr payload)))"

lemma record_of_mono: "record_of S input seg bp r \<Longrightarrow> prefix seg seg' \<Longrightarrow> record_of S input seg' bp r"
  unfolding record_of_def by (auto split: prod.splits) (metis stored_at_mono)

lemma encode_records_prefix:
  "encode_records S input ai di bps seg = Inr (records, seg') \<Longrightarrow> prefix seg seg'"
proof (induction S input ai di bps seg arbitrary: records seg' rule: encode_records.induct)
  case (2 S input ai di b payload rest seg)
  then obtain f off seg1 rcd records1 where
    p: "place_payload S (b_flags b) payload seg = Inr (f, off, seg1)"
    "encode_block_record b f off input ai di = Inr rcd"
    "encode_records S input ai di rest seg1 = Inr (records1, seg')"
    by (auto simp: rbind_Inr_iff)
  have "prefix seg seg1"
    using p(1) align_to_props(2) [of 4 seg]
    by (auto simp: place_payload_def Let_def rbind_Inr_iff put_uleb128_append prefix_def split: if_splits)
  moreover have "prefix seg1 seg'" using "2.IH" p by simp
  ultimately show ?case by (rule prefix_order.trans)
qed simp

lemma encode_records_related:
  assumes "encode_records S input (index_addresses (p_addresses input)) (index_u256 (p_difficulties input)) bps seg
      = Inr (records, seg')"
    and "snap_law S" "length seg' < 2 ^ 64"
  shows "\<exists>offs. list_all2 (record_of S input seg') bps (zip offs records) \<and> length offs = length records"
  using assms
proof (induction bps arbitrary: seg records)
  case (Cons bp bps)
  obtain b payload where bp: "bp = (b, payload)" by (cases bp)
  from Cons.prems(1) bp obtain f off seg1 rcd records1 where
    p: "place_payload S (b_flags b) payload seg = Inr (f, off, seg1)"
    "encode_block_record b f off input (index_addresses (p_addresses input)) (index_u256 (p_difficulties input)) = Inr rcd"
    "encode_records S input (index_addresses (p_addresses input)) (index_u256 (p_difficulties input)) bps seg1
       = Inr (records1, seg')"
    and r: "records = rcd # records1"
    by (auto simp: rbind_Inr_iff)
  have pre: "prefix seg1 seg'" by (rule encode_records_prefix [OF p(3)])
  then have "length seg1 < 2 ^ 64" using Cons.prems(3) prefix_length_le le_less_trans by blast
  from place_payload_stored [OF p(1) Cons.prems(2) this]
  have "record_of S input seg1 bp (off, rcd)" using p(2) by (auto simp: bp record_of_def)
  then have "record_of S input seg' bp (off, rcd)" by (rule record_of_mono [OF _ pre])
  moreover obtain offs where "list_all2 (record_of S input seg') bps (zip offs records1)"
    "length offs = length records1"
    using Cons.IH [OF p(3) Cons.prems(2,3)] by blast
  ultimately have "list_all2 (record_of S input seg') (bp # bps) (zip (off # offs) records) \<and>
      length (off # offs) = length records" by (simp add: r)
  then show ?case by blast
qed auto

end
