(* ===== verification/Packet_Tx.thy ===== *)
theory Packet_Tx
  imports Packet_Segment
begin

text \<open>
  Transactions: the items of a payload are read back by the decoder. Of the RLP library only
  \<open>rlp_law\<close> is used: a view of what was written has the items that were appended, each read at the
  type it was written with.
\<close>

subsection \<open>The law of the RLP library\<close>

fun rlp_wf :: "('acc, 'auth) rlp_item \<Rightarrow> bool" where
  "rlp_wf (Rlp_list n items) \<longleftrightarrow> n = length items \<and> list_all rlp_wf items"
| "rlp_wf _ \<longleftrightarrow> True"

definition rlp_repr ::
  "('r, 'acc, 'auth) rlp_lib \<Rightarrow> ('r \<Rightarrow> ('acc, 'auth) rlp_item \<Rightarrow> bool) \<Rightarrow> bool" where
  "rlp_repr R repr \<longleftrightarrow>
     (\<forall>t. rlp_wf t \<longrightarrow> repr (rlp_new R (rlp_out R t)) t) \<and>
     (\<forall>n items. rlp_wf (Rlp_list n items) \<longrightarrow> rlp_out R (Rlp_list n items) \<noteq> []) \<and>
     (\<forall>r n items. repr r (Rlp_list n items) \<longrightarrow>
        rlp_item_count R r = Inr (length items) \<and>
        (\<forall>i < length items. \<exists>r'. rlp_at R r i = Inr r' \<and> repr r' (items ! i))) \<and>
     (\<forall>r x. repr r (Rlp_u8 x) \<longrightarrow> rlp_u8 R r = Inr x) \<and>
     (\<forall>r x. repr r (Rlp_u64 x) \<longrightarrow> rlp_u64 R r = Inr x) \<and>
     (\<forall>r x. repr r (Rlp_bytes x) \<longrightarrow> rlp_bytes R r = Inr x) \<and>
     (\<forall>r x. repr r (Rlp_access_list x) \<longrightarrow> rlp_access_list R r = Inr x) \<and>
     (\<forall>r x. repr r (Rlp_authorization_list x) \<longrightarrow> rlp_authorization_list R r = Inr x)"

definition rlp_law :: "('r, 'acc, 'auth) rlp_lib \<Rightarrow> bool" where
  "rlp_law R \<longleftrightarrow> (\<exists>repr. rlp_repr R repr)"

lemma repr_new: "rlp_repr R repr \<Longrightarrow> rlp_wf t \<Longrightarrow> repr (rlp_new R (rlp_out R t)) t"
  by (simp add: rlp_repr_def)

lemma repr_out: "rlp_repr R repr \<Longrightarrow> rlp_wf (Rlp_list n items) \<Longrightarrow> rlp_out R (Rlp_list n items) \<noteq> []"
  unfolding rlp_repr_def by blast

lemma repr_count: "rlp_repr R repr \<Longrightarrow> repr r (Rlp_list n items) \<Longrightarrow> rlp_item_count R r = Inr (length items)"
  unfolding rlp_repr_def by blast

lemma repr_at:
  assumes "rlp_repr R repr" "repr r (Rlp_list n items)" "i < length items"
  obtains r' where "rlp_at R r i = Inr r'" "repr r' (items ! i)"
  using assms unfolding rlp_repr_def by blast

lemma repr_leaf:
  assumes "rlp_repr R repr"
  shows "repr r (Rlp_u8 x) \<Longrightarrow> rlp_u8 R r = Inr x" "repr r (Rlp_u64 y) \<Longrightarrow> rlp_u64 R r = Inr y"
    "repr r (Rlp_bytes z) \<Longrightarrow> rlp_bytes R r = Inr z"
    "repr r (Rlp_access_list a) \<Longrightarrow> rlp_access_list R r = Inr a"
    "repr r (Rlp_authorization_list b) \<Longrightarrow> rlp_authorization_list R r = Inr b"
  using assms unfolding rlp_repr_def by blast+

lemma repr_val:
  assumes "rlp_repr R repr" "repr r (Rlp_list n items)" "i < length items"
  shows "items ! i = Rlp_u8 x \<Longrightarrow> val_u8 R r i = Inr x" "items ! i = Rlp_u64 y \<Longrightarrow> val_u64 R r i = Inr y"
    "items ! i = Rlp_bytes z \<Longrightarrow> val_bytes R r i = Inr z"
proof -
  obtain r' where r': "rlp_at R r i = Inr r'" "repr r' (items ! i)" by (rule repr_at [OF assms])
  show "items ! i = Rlp_u8 x \<Longrightarrow> val_u8 R r i = Inr x" "items ! i = Rlp_u64 y \<Longrightarrow> val_u64 R r i = Inr y"
    "items ! i = Rlp_bytes z \<Longrightarrow> val_bytes R r i = Inr z"
    using r' repr_leaf [OF assms(1), of r'] by (auto simp: val_u8_def val_u64_def val_bytes_def)
qed

lemma repr_sub:
  assumes "rlp_repr R repr" "repr r (Rlp_list n items)" "i < length items"
    and "\<And>r'. repr r' (items ! i) \<Longrightarrow> f r' = Inr x"
  shows "rbind (rlp_at R r i) f = Inr x"
  by (rule repr_at [OF assms(1-3)]) (simp add: assms(4))

lemma repr_optional_access:
  assumes "rlp_repr R repr" "repr r (Rlp_list n items)"
  shows "length items \<le> i \<Longrightarrow> optional_access_list R r i = Inr []"
    "i < length items \<Longrightarrow> items ! i = Rlp_access_list a \<Longrightarrow> optional_access_list R r i = Inr a"
  using repr_count [OF assms] repr_sub [OF assms, of i "rlp_access_list R" a] repr_leaf(4) [OF assms(1)]
  by (simp_all add: optional_access_list_def)

lemma repr_optional_authorization:
  assumes "rlp_repr R repr" "repr r (Rlp_list n items)"
  shows "i < length items \<Longrightarrow> items ! i = Rlp_authorization_list a \<Longrightarrow>
    optional_authorization_list R r i = Inr a"
  using repr_count [OF assms] repr_sub [OF assms, of i "rlp_authorization_list R" a] repr_leaf(5) [OF assms(1)]
  by (simp add: optional_authorization_list_def)

subsection \<open>Prices and actions\<close>

lemma decode_u256_bytes_be [simp]: "decode_u256_bytes (u256_to_be v) = Inr v"
  by (simp add: decode_u256_bytes_def u256_to_be_def)

lemma decode_encode_price:
  assumes "rlp_repr R repr" "repr r (encode_price v (index_u256 gs))" "length gs < 2 ^ 64"
  shows "decode_price R r gs = Inr v"
proof (cases "index_u256 gs v")
  case None
  with assms(2) have "repr r (Rlp_list 2 [Rlp_u8 1, Rlp_bytes (u256_to_be v)])"
    by (simp add: encode_price_def)
  from repr_val [OF assms(1) this] show ?thesis by (simp add: decode_price_def)
next
  case (Some i)
  with assms(2) have "repr r (Rlp_list 2 [Rlp_u8 0, Rlp_u64 (of_nat i)])"
    by (simp add: encode_price_def)
  note vals = repr_val [OF assms(1) this]
  have "table_get gs (unat (of_nat i :: u64)) = Inr v"
    using Some assms(3) by (intro table_get_index) (simp_all add: index_u256_def)
  with vals show ?thesis by (simp add: decode_price_def)
qed

lemma encode_action_wf: "encode_action ai a = Inr item \<Longrightarrow> rlp_wf item"
  by (auto simp: encode_action_def rbind_Inr_iff split: action.splits)

lemma encode_price_wf: "rlp_wf (encode_price v gi)"
  by (auto simp: encode_price_def split: option.splits)

lemma decode_encode_action:
  assumes "rlp_repr R repr" "encode_action (index_addresses as) a = Inr item" "repr r item"
    and "length as < 2 ^ 64"
  shows "decode_action R r as = Inr a"
proof (cases a)
  case Create
  with assms(2,3) have "repr r (Rlp_list 1 [Rlp_u8 0])" by (simp add: encode_action_def)
  from repr_val [OF assms(1) this] Create show ?thesis by (simp add: decode_action_def)
next
  case (Call addr)
  then obtain i where i: "index_table as addr = Some i" "item = Rlp_list 2 [Rlp_u8 1, Rlp_u64 (of_nat i)]"
    using assms(2) by (auto simp: encode_action_def rbind_Inr_iff index_addresses_def)
  note vals = repr_val [OF assms(1) assms(3) [unfolded i(2)]]
  have "table_get as (unat (of_nat i :: u64)) = Inr addr" by (rule table_get_index [OF i(1) assms(4)])
  with vals Call show ?thesis by (simp add: decode_action_def)
qed

subsection \<open>Transactions\<close>

text \<open>What the decoder builds from a transaction: its own fields, without chain id.\<close>

definition native_fields :: "('t, 'acc, 'auth) tx_lib \<Rightarrow> 't \<Rightarrow> u64 \<Rightarrow> u64 \<Rightarrow> native_transaction" where
  "native_fields T tx epoch_height storage_limit =
     \<lparr>nt_nonce = tl_nonce T tx, nt_gas_price = tl_gas_price T tx, nt_gas = tl_gas T tx,
      nt_action = tl_action T tx, nt_value = tl_value T tx, nt_storage_limit = storage_limit,
      nt_epoch_height = epoch_height, nt_chain_id = 0, nt_data = tl_data T tx\<rparr>"

definition ethereum_fields_of :: "('t, 'acc, 'auth) tx_lib \<Rightarrow> 't \<Rightarrow> ethereum_fields" where
  "ethereum_fields_of T tx =
     \<lparr>et_nonce = tl_nonce T tx, et_gas_price = tl_gas_price T tx, et_gas = tl_gas T tx,
      et_value = tl_value T tx, et_data = tl_data T tx\<rparr>"

definition list_or_empty :: "'a list option \<Rightarrow> 'a list" where
  "list_or_empty l = (case l of Some xs \<Rightarrow> xs | None \<Rightarrow> [])"

definition canonical_tx :: "('t, 'acc, 'auth) tx_lib \<Rightarrow> 't \<Rightarrow> 't" where
  "canonical_tx T tx =
     (let acc = list_or_empty (tl_access_list T tx); auths = list_or_empty (tl_authorization_list T tx);
          prio = tl_max_priority_gas_price T tx; ty = tl_type_id T tx; sender = tl_sender T tx
      in case tl_native T tx of
           Some (eh, sl) \<Rightarrow>
             (let f = native_fields T tx eh sl
              in tl_sign_native T (if ty = 0 then Cip155 f else if ty = 1 then Cip2930 f acc
                                   else Cip1559 f prio acc) sender)
         | None \<Rightarrow>
             (let f = ethereum_fields_of T tx; a = tl_action T tx
              in tl_sign_ethereum T
                   (if ty = 0 then Eip155 f a else if ty = 1 then Eip2930 f a acc
                    else if ty = 2 then Eip1559 f a prio acc
                    else Eip7702 f (case a of Call d \<Rightarrow> d | Create \<Rightarrow> Address_zero) prio acc auths) sender))"

text \<open>
  The transactions the format can carry: nonce and gas of 64 bits, no nonce below the base of its
  sender, and a type whose lists are there.
\<close>

definition type_ok :: "('t, 'acc, 'auth) tx_lib \<Rightarrow> 't \<Rightarrow> bool" where
  "type_ok T tx \<longleftrightarrow>
     (if tl_native T tx \<noteq> None then tl_type_id T tx < 3
      else (tl_type_id T tx < 3 \<or> tl_type_id T tx = 4) \<and>
           (tl_authorization_list T tx \<noteq> None \<longleftrightarrow> tl_type_id T tx = 4)) \<and>
     (tl_access_list T tx = None \<longleftrightarrow> tl_type_id T tx = 0)"

definition base_nonce_for :: "'t packet \<Rightarrow> address \<Rightarrow> u64" where
  "base_nonce_for input sender =
     (case index_addresses (p_addresses input) sender of
        Some i \<Rightarrow> base_nonce_of (p_sender_base_nonces input) i | None \<Rightarrow> 0)"

definition tx_encodable :: "('t, 'acc, 'auth) tx_lib \<Rightarrow> 't packet \<Rightarrow> 't \<Rightarrow> bool" where
  "tx_encodable T input tx \<longleftrightarrow>
     unat (tl_nonce T tx) < 2 ^ 64 \<and> unat (tl_gas T tx) < 2 ^ 64 \<and>
     base_nonce_for input (tl_sender T tx) \<le> low_u64 (tl_nonce T tx) \<and> type_ok T tx"

lemma u256_low: "unat v < 2 ^ 64 \<Longrightarrow> ucast (low_u64 v) = v"
  by (simp add: low_u64_def word_unat_eq_iff unsigned_ucast_eq unsigned_take_bit_eq take_bit_nat_eq_self)

lemma sender_nonce_index_find:
  assumes "distinct (map sn_sender_index ns)"
  shows "sender_nonce_index_of ns i = map_option sn_base_nonce (find (\<lambda>e. sn_sender_index e = i) ns)"
proof -
  have "distinct (map fst (map (\<lambda>x. (sn_sender_index x, sn_base_nonce x)) ns))"
    using assms by (simp add: comp_def)
  then have "sender_nonce_index_of ns = map_of (map (\<lambda>x. (sn_sender_index x, sn_base_nonce x)) ns)"
    unfolding sender_nonce_index_of_def by (subst map_of_inject_set) (simp_all flip: rev_map)
  moreover have "map_of (map (\<lambda>x. (sn_sender_index x, sn_base_nonce x)) ns) i =
      map_option sn_base_nonce (find (\<lambda>e. sn_sender_index e = i) ns)"
    by (induction ns) auto
  ultimately show ?thesis by simp
qed

lemma nonce_round_trip:
  assumes "distinct (map sn_sender_index ns)" "base_nonce_of ns i \<le> nonce"
  shows "base_nonce_of ns i +
    (case sender_nonce_index_of ns i of Some base \<Rightarrow> saturating_sub nonce base | None \<Rightarrow> nonce) = nonce"
  using assms(2) unfolding sender_nonce_index_find [OF assms(1)] base_nonce_of_def
  by (auto simp: saturating_sub_add split: option.splits)

lemma encode_tx_native:
  assumes "tl_native T tx = Some (eh, sl)" "encode_tx T e tx ai gi ni = Inr item"
  obtains sender act where "ai (tl_sender T tx) = Some sender" "encode_action ai (tl_action T tx) = Inr act"
    "item = Rlp_list (if tl_access_list T tx \<noteq> None then 13 else 12)
       ([Rlp_u8 0, Rlp_u64 (tl_type_id T tx), Rlp_u64 (of_nat sender),
         Rlp_u64 (case ni sender of Some base \<Rightarrow> saturating_sub (low_u64 (tl_nonce T tx)) base
                  | None \<Rightarrow> low_u64 (tl_nonce T tx)),
         encode_price (tl_gas_price T tx) gi, encode_price (tl_max_priority_gas_price T tx) gi,
         Rlp_u64 (low_u64 (tl_gas T tx)), act, Rlp_bytes (u256_to_be (tl_value T tx)),
         Rlp_u64 sl, Rlp_u64 (zigzag_encode (eh - e)), Rlp_bytes (tl_data T tx)]
        @ (case tl_access_list T tx of Some l \<Rightarrow> [Rlp_access_list l] | None \<Rightarrow> []))"
  using assms by (auto simp: encode_tx_def rbind_Inr_iff Let_def)

lemma encode_tx_ethereum:
  assumes "tl_native T tx = None" "encode_tx T e tx ai gi ni = Inr item"
  obtains sender act where "ai (tl_sender T tx) = Some sender" "encode_action ai (tl_action T tx) = Inr act"
    "item = Rlp_list (10 + (if tl_access_list T tx \<noteq> None then 1 else 0)
                         + (if tl_authorization_list T tx \<noteq> None then 1 else 0))
       ([Rlp_u8 2, Rlp_u64 (tl_type_id T tx), Rlp_u64 (of_nat sender),
         Rlp_u64 (case ni sender of Some base \<Rightarrow> saturating_sub (low_u64 (tl_nonce T tx)) base
                  | None \<Rightarrow> low_u64 (tl_nonce T tx)),
         encode_price (tl_gas_price T tx) gi, encode_price (tl_max_priority_gas_price T tx) gi,
         Rlp_u64 (low_u64 (tl_gas T tx)), act, Rlp_bytes (u256_to_be (tl_value T tx)),
         Rlp_bytes (tl_data T tx)]
        @ (case tl_access_list T tx of Some l \<Rightarrow> [Rlp_access_list l] | None \<Rightarrow> [])
        @ (case tl_authorization_list T tx of Some l \<Rightarrow> [Rlp_authorization_list l] | None \<Rightarrow> []))"
  using assms by (auto simp: encode_tx_def rbind_Inr_iff Let_def)

lemma encode_tx_wf:
  assumes "encode_tx T e tx ai gi ni = Inr item"
  shows "rlp_wf item"
proof (cases "tl_native T tx")
  case (Some p)
  obtain eh sl where p: "p = (eh, sl)" by (cases p)
  show ?thesis
    by (rule encode_tx_native [OF Some [unfolded p] assms])
      (auto simp: encode_price_wf dest: encode_action_wf split: option.splits)
next
  case None
  show ?thesis
    by (rule encode_tx_ethereum [OF None assms])
      (auto simp: encode_price_wf dest: encode_action_wf split: option.splits)
qed

text \<open>The fields that both kinds of transaction share, at the head of the item.\<close>

lemma decode_tx_head:
  fixes input :: "'t packet"
  assumes R: "rlp_repr R repr" "repr r (Rlp_list n items)" "10 \<le> length items"
    and items: "items ! 0 = Rlp_u8 marker" "items ! 1 = Rlp_u64 (tl_type_id T tx)" "items ! 2 = Rlp_u64 (of_nat sender)"
      "items ! 3 = Rlp_u64 (case sender_nonce_index_of (p_sender_base_nonces input) sender of
          Some base \<Rightarrow> saturating_sub (low_u64 (tl_nonce T tx)) base | None \<Rightarrow> low_u64 (tl_nonce T tx))"
      "items ! 4 = encode_price (tl_gas_price T tx) (index_u256 (p_gas_prices input))"
      "items ! 5 = encode_price (tl_max_priority_gas_price T tx) (index_u256 (p_gas_prices input))"
      "items ! 6 = Rlp_u64 (low_u64 (tl_gas T tx))" "items ! 7 = act"
      "items ! 8 = Rlp_bytes (u256_to_be (tl_value T tx))"
    and enc: "index_addresses (p_addresses input) (tl_sender T tx) = Some sender"
      "encode_action (index_addresses (p_addresses input)) (tl_action T tx) = Inr act"
    and ok: "tx_encodable T input tx" "distinct (map sn_sender_index (p_sender_base_nonces input))"
      "length (p_addresses input) < 2 ^ 64" "length (p_gas_prices input) < 2 ^ 64"
  shows "decode_tx_item T R r e (p_addresses input) (p_gas_prices input) (p_sender_base_nonces input) =
    (if marker = 0 then
       decode_native_tx T R r (tl_type_id T tx) (tl_sender T tx) e (tl_nonce T tx) (tl_gas_price T tx)
         (tl_max_priority_gas_price T tx) (tl_gas T tx) (tl_action T tx) (tl_value T tx)
     else if marker = 2 then
       decode_ethereum_tx T R r (tl_type_id T tx) (tl_sender T tx) (tl_nonce T tx) (tl_gas_price T tx)
         (tl_max_priority_gas_price T tx) (tl_gas T tx) (tl_action T tx) (tl_value T tx)
     else Inl (Bail ''unsupported tx space marker''))"
proof -
  let ?as = "p_addresses input" and ?gs = "p_gas_prices input" and ?ns = "p_sender_base_nonces input"
  have tab: "table_get ?as (unat (of_nat sender :: u64)) = Inr (tl_sender T tx)"
    using enc(1) ok(3) by (intro table_get_index) (simp_all add: index_addresses_def)
  have "sender < length ?as" using enc(1) index_table_Some by (fastforce simp: index_addresses_def)
  then have s: "unat (of_nat sender :: u64) = sender" using ok(3) by (intro unat_of_nat_u64) simp
  have nonce: "ucast (base_nonce_of ?ns sender + (case sender_nonce_index_of ?ns sender of
      Some base \<Rightarrow> saturating_sub (low_u64 (tl_nonce T tx)) base | None \<Rightarrow> low_u64 (tl_nonce T tx)))
    = tl_nonce T tx"
    using ok(1) enc(1) by (subst nonce_round_trip [OF ok(2)]) (simp_all add: tx_encodable_def base_nonce_for_def u256_low)
  have gas: "ucast (low_u64 (tl_gas T tx)) = tl_gas T tx"
    using ok(1) by (simp add: tx_encodable_def u256_low)
  have len: "\<And>i. i < 10 \<Longrightarrow> i < length items" using R(3) by simp
  note val = repr_val [OF R(1,2)]
  have vals: "val_u8 R r 0 = Inr marker" by (rule val(1) [OF len items(1)]) simp
  have val1: "val_u64 R r 1 = Inr (tl_type_id T tx)" by (rule val(2) [OF len items(2)]) simp
  have val2: "val_u64 R r 2 = Inr (of_nat sender)" by (rule val(2) [OF len items(3)]) simp
  have val3: "val_u64 R r 3 = Inr (case sender_nonce_index_of ?ns sender of
      Some base \<Rightarrow> saturating_sub (low_u64 (tl_nonce T tx)) base | None \<Rightarrow> low_u64 (tl_nonce T tx))"
    by (rule val(2) [OF len items(4)]) simp
  have val6: "val_u64 R r 6 = Inr (low_u64 (tl_gas T tx))" by (rule val(2) [OF len items(7)]) simp
  have val8: "val_bytes R r 8 = Inr (u256_to_be (tl_value T tx))" by (rule val(3) [OF len items(9)]) simp
  have price: "rbind (rlp_at R r 4) (\<lambda>i. decode_price R i ?gs) = Inr (tl_gas_price T tx)"
    by (rule repr_sub [OF R(1,2) len]) (auto simp: items intro: decode_encode_price [OF R(1) _ ok(4)])
  have prio: "rbind (rlp_at R r 5) (\<lambda>i. decode_price R i ?gs) = Inr (tl_max_priority_gas_price T tx)"
    by (rule repr_sub [OF R(1,2) len]) (auto simp: items intro: decode_encode_price [OF R(1) _ ok(4)])
  have action: "rbind (rlp_at R r 7) (\<lambda>i. decode_action R i ?as) = Inr (tl_action T tx)"
    by (rule repr_sub [OF R(1,2) len]) (auto simp: items intro: decode_encode_action [OF R(1) enc(2) _ ok(3)])
  show ?thesis
    unfolding decode_tx_item_def
    by (simp only: vals val1 val2 val3 val6 val8 tab [unfolded s] s price prio action rbind_simps Let_def nonce gas decode_u256_bytes_be)
qed

lemma decode_encode_tx:
  fixes input :: "'t packet" and T :: "('t, 'acc, 'auth) tx_lib" and item :: "('acc, 'auth) rlp_item"
  assumes R: "rlp_repr R repr" "repr r item"
    and enc: "encode_tx T e tx (index_addresses (p_addresses input)) (index_u256 (p_gas_prices input))
      (sender_nonce_index_of (p_sender_base_nonces input)) = Inr item"
    and ok: "tx_encodable T input tx" "distinct (map sn_sender_index (p_sender_base_nonces input))"
      "length (p_addresses input) < 2 ^ 64" "length (p_gas_prices input) < 2 ^ 64"
  shows "decode_tx_item T R r e (p_addresses input) (p_gas_prices input) (p_sender_base_nonces input) =
    Inr (canonical_tx T tx)"
proof (cases "tl_native T tx")
  case (Some p)
  obtain eh sl where p: "p = (eh, sl)" by (cases p)
  note native = Some [unfolded p]
  let ?ty = "tl_type_id T tx"
  have ty: "?ty = 0 \<or> ?ty = 1 \<or> ?ty = 2" "tl_access_list T tx = None \<longleftrightarrow> ?ty = 0"
  proof -
    have "?ty < 3" using ok(1) native by (simp add: tx_encodable_def type_ok_def)
    then have "unat ?ty < 3" by (simp add: word_less_nat_alt)
    then show "?ty = 0 \<or> ?ty = 1 \<or> ?ty = 2" by (auto simp: word_unat_eq_iff)
    show "tl_access_list T tx = None \<longleftrightarrow> ?ty = 0" using ok(1) by (simp add: tx_encodable_def type_ok_def)
  qed
  show ?thesis
  proof (rule encode_tx_native [OF native enc])
    fix sender and act :: "('acc, 'auth) rlp_item"
    let ?items = "[Rlp_u8 0, Rlp_u64 ?ty, Rlp_u64 (of_nat sender),
         Rlp_u64 (case sender_nonce_index_of (p_sender_base_nonces input) sender of
             Some base \<Rightarrow> saturating_sub (low_u64 (tl_nonce T tx)) base | None \<Rightarrow> low_u64 (tl_nonce T tx)),
         encode_price (tl_gas_price T tx) (index_u256 (p_gas_prices input)),
         encode_price (tl_max_priority_gas_price T tx) (index_u256 (p_gas_prices input)),
         Rlp_u64 (low_u64 (tl_gas T tx)), act, Rlp_bytes (u256_to_be (tl_value T tx)),
         Rlp_u64 sl, Rlp_u64 (zigzag_encode (eh - e)), Rlp_bytes (tl_data T tx)]
        @ (case tl_access_list T tx of Some l \<Rightarrow> [Rlp_access_list l] | None \<Rightarrow> [])"
    assume s: "index_addresses (p_addresses input) (tl_sender T tx) = Some sender"
      "encode_action (index_addresses (p_addresses input)) (tl_action T tx) = Inr act"
      and item: "item = Rlp_list (if tl_access_list T tx \<noteq> None then 13 else 12) ?items"
    note rep = R(2) [unfolded item]
    have "decode_tx_item T R r e (p_addresses input) (p_gas_prices input) (p_sender_base_nonces input) =
       decode_native_tx T R r ?ty (tl_sender T tx) e (tl_nonce T tx) (tl_gas_price T tx)
         (tl_max_priority_gas_price T tx) (tl_gas T tx) (tl_action T tx) (tl_value T tx)"
      by (subst decode_tx_head [OF R(1) rep, where marker = 0 and T = T and tx = tx]) (use s ok in simp_all)
    also have "\<dots> = Inr (canonical_tx T tx)"
    proof -
      note val = repr_val [OF R(1) rep]
      have "val_u64 R r 9 = Inr sl" "val_u64 R r 10 = Inr (zigzag_encode (eh - e))"
        "val_bytes R r 11 = Inr (tl_data T tx)" by (auto intro!: val)
      moreover have "optional_access_list R r 12 = Inr (list_or_empty (tl_access_list T tx))"
        using repr_optional_access [OF R(1) rep, of 12] by (cases "tl_access_list T tx") (simp_all add: list_or_empty_def)
      ultimately show ?thesis
        using ty(1) native
        by (auto simp: decode_native_tx_def Let_def canonical_tx_def native_fields_def)
    qed
    finally show ?thesis .
  qed
next
  case None
  let ?ty = "tl_type_id T tx"
  have ty: "?ty = 0 \<or> ?ty = 1 \<or> ?ty = 2 \<or> ?ty = 4" "tl_access_list T tx = None \<longleftrightarrow> ?ty = 0"
    "tl_authorization_list T tx \<noteq> None \<longleftrightarrow> ?ty = 4"
  proof -
    have "?ty < 3 \<or> ?ty = 4" using ok(1) None by (simp add: tx_encodable_def type_ok_def)
    then have "unat ?ty < 3 \<or> ?ty = 4" by (simp add: word_less_nat_alt)
    then show "?ty = 0 \<or> ?ty = 1 \<or> ?ty = 2 \<or> ?ty = 4" by (auto simp: word_unat_eq_iff)
    show "tl_access_list T tx = None \<longleftrightarrow> ?ty = 0" "tl_authorization_list T tx \<noteq> None \<longleftrightarrow> ?ty = 4"
      using ok(1) None by (simp_all add: tx_encodable_def type_ok_def)
  qed
  show ?thesis
  proof (rule encode_tx_ethereum [OF None enc])
    fix sender and act :: "('acc, 'auth) rlp_item"
    let ?items = "[Rlp_u8 2, Rlp_u64 ?ty, Rlp_u64 (of_nat sender),
         Rlp_u64 (case sender_nonce_index_of (p_sender_base_nonces input) sender of
             Some base \<Rightarrow> saturating_sub (low_u64 (tl_nonce T tx)) base | None \<Rightarrow> low_u64 (tl_nonce T tx)),
         encode_price (tl_gas_price T tx) (index_u256 (p_gas_prices input)),
         encode_price (tl_max_priority_gas_price T tx) (index_u256 (p_gas_prices input)),
         Rlp_u64 (low_u64 (tl_gas T tx)), act, Rlp_bytes (u256_to_be (tl_value T tx)),
         Rlp_bytes (tl_data T tx)]
        @ (case tl_access_list T tx of Some l \<Rightarrow> [Rlp_access_list l] | None \<Rightarrow> [])
        @ (case tl_authorization_list T tx of Some l \<Rightarrow> [Rlp_authorization_list l] | None \<Rightarrow> [])"
    assume s: "index_addresses (p_addresses input) (tl_sender T tx) = Some sender"
      "encode_action (index_addresses (p_addresses input)) (tl_action T tx) = Inr act"
      and item: "item = Rlp_list (10 + (if tl_access_list T tx \<noteq> None then 1 else 0)
                         + (if tl_authorization_list T tx \<noteq> None then 1 else 0)) ?items"
    note rep = R(2) [unfolded item]
    have "decode_tx_item T R r e (p_addresses input) (p_gas_prices input) (p_sender_base_nonces input) =
       decode_ethereum_tx T R r ?ty (tl_sender T tx) (tl_nonce T tx) (tl_gas_price T tx)
         (tl_max_priority_gas_price T tx) (tl_gas T tx) (tl_action T tx) (tl_value T tx)"
      by (subst decode_tx_head [OF R(1) rep, where marker = 2 and T = T and tx = tx]) (use s ok in simp_all)
    also have "\<dots> = Inr (canonical_tx T tx)"
    proof -
      have data: "val_bytes R r 9 = Inr (tl_data T tx)" by (rule repr_val(3) [OF R(1) rep]) simp_all
      have acc: "optional_access_list R r 10 = Inr (list_or_empty (tl_access_list T tx))"
        using repr_optional_access [OF R(1) rep, of 10] ty
        by (cases "tl_access_list T tx"; cases "tl_authorization_list T tx") (auto simp: list_or_empty_def)
      show ?thesis
      proof (cases "?ty = 4")
        case True
        then obtain a b where ab: "tl_access_list T tx = Some a" "tl_authorization_list T tx = Some b" using ty by auto
        have "optional_authorization_list R r 11 = Inr b"
          using repr_optional_authorization [OF R(1) rep, of 11 b] ab by simp
        with data acc True None ab show ?thesis
          by (simp add: decode_ethereum_tx_def Let_def canonical_tx_def ethereum_fields_of_def list_or_empty_def)
      next
        case False
        with ty(1) data acc None show ?thesis
          by (auto simp: decode_ethereum_tx_def Let_def canonical_tx_def ethereum_fields_of_def)
      qed
    qed
    finally show ?thesis .
  qed
qed

end
