(* ===== verification/Packet_Payload.thy ===== *)
theory Packet_Payload
  imports Packet_Tx
begin

text \<open>
  Payloads: the transactions, the PoS rewards and the unlock events of a block are decoded from
  its payload, with every duplicate reference resolved in the blocks before. \<open>expected_blocks\<close> says
  what the decoder must return for the blocks that were encoded.
\<close>

subsection \<open>Rewards and unlock events\<close>

lemma decode_encode_unlock:
  assumes "rlp_repr R repr" "repr r (encode_unlock_event e)"
  shows "decode_unlock_event R r = Inr e" "val_u8 R r 0 = Inr 4"
  using repr_val [OF assms(1) assms(2) [unfolded encode_unlock_event_def]]
  by (simp_all add: decode_unlock_event_def)

abbreviation account_item :: "pos_reward_account \<Rightarrow> ('acc, 'auth) rlp_item" where
  "account_item a \<equiv> Rlp_list 3 [Rlp_bytes (address_bytes (pra_address a)),
     Rlp_bytes (as_bytes (pra_pos_identifier a)), Rlp_bytes (u256_to_be (pra_reward a))]"

lemma decode_encode_account:
  assumes "rlp_repr R repr" "repr r (account_item a)"
  shows "decode_pos_reward_account R r = Inr a"
  using repr_val [OF assms] by (simp add: decode_pos_reward_account_def)

lemma decode_encode_pos_reward:
  assumes R: "rlp_repr R repr" and r: "repr r (encode_pos_reward e)"
  shows "decode_pos_reward R r = Inr e" "val_u8 R r 0 = Inr 3"
proof -
  let ?accs = "pre_account_rewards e"
  let ?items = "[Rlp_u8 3, Rlp_list (length ?accs) (map account_item ?accs),
    Rlp_bytes (as_bytes (pre_execution_epoch_hash e))]"
  have rep: "repr r (Rlp_list 3 ?items)" using r by (simp add: encode_pos_reward_def)
  note val = repr_val [OF R rep]
  show "val_u8 R r 0 = Inr 3" using val by simp
  obtain r1 where r1: "rlp_at R r 1 = Inr r1" "repr r1 (Rlp_list (length ?accs) (map account_item ?accs))"
    using repr_at [OF R rep, of 1] by auto
  have "rbind (rlp_at R r1 j) (decode_pos_reward_account R) = Inr (?accs ! j)" if "j < length ?accs" for j
    by (rule repr_sub [OF R r1(2)]) (use that in \<open>auto intro: decode_encode_account [OF R]\<close>)
  then have "traverse (\<lambda>j. rbind (rlp_at R r1 j) (decode_pos_reward_account R)) [0..<length ?accs] =
      Inr (map ((!) ?accs) [0..<length ?accs])" by (intro traverse_map_Inr) simp
  moreover have "map ((!) ?accs) [0..<length ?accs] = ?accs" by (rule map_nth)
  ultimately have "traverse (\<lambda>j. rbind (rlp_at R r1 j) (decode_pos_reward_account R)) [0..<length ?accs] = Inr ?accs"
    by simp
  moreover have "val_bytes R r 2 = Inr (as_bytes (pre_execution_epoch_hash e))" using val by simp
  ultimately show "decode_pos_reward R r = Inr e"
    using r1(1) repr_count [OF R r1(2)] by (simp add: decode_pos_reward_def)
qed

lemma encode_pos_reward_wf: "rlp_wf (encode_pos_reward e)"
  by (simp add: encode_pos_reward_def list_all_iff)

lemma encode_unlock_wf: "rlp_wf (encode_unlock_event e)"
  by (simp add: encode_unlock_event_def)

lemma encode_ref_wf: "rlp_wf (encode_ref r)"
  by (simp add: encode_ref_def)

subsection \<open>Items and what they add\<close>

definition add_tx :: "'t \<Rightarrow> (nat \<times> nat) option \<Rightarrow> 't payload \<Rightarrow> 't payload" where
  "add_tx tx ref p = p\<lparr>pl_transactions := pl_transactions p @ [tx], pl_refs := pl_refs p @ [ref]\<rparr>"

definition add_reward :: "pos_reward_entry \<Rightarrow> 't payload \<Rightarrow> 't payload" where
  "add_reward e p = p\<lparr>pl_pos_rewards := pl_pos_rewards p @ [e]\<rparr>"

definition add_unlock :: "unlock_entry \<Rightarrow> 't payload \<Rightarrow> 't payload" where
  "add_unlock e p = p\<lparr>pl_unlock_events := pl_unlock_events p @ [e]\<rparr>"

lemma fold_adds:
  "fold (\<lambda>f. f) (map2 add_tx txs refs @ map add_reward rs @ map add_unlock us) empty_payload =
     \<lparr>pl_transactions = map fst (zip txs refs), pl_refs = map snd (zip txs refs), pl_pos_rewards = rs,
      pl_unlock_events = us\<rparr>"
proof -
  have txs: "fold (\<lambda>f. f) (map2 add_tx txs refs) p = p\<lparr>
      pl_transactions := pl_transactions p @ map fst (zip txs refs), pl_refs := pl_refs p @ map snd (zip txs refs)\<rparr>" for p
    by (induction txs refs arbitrary: p rule: list_induct2') (simp_all add: add_tx_def)
  have rs: "fold (\<lambda>f. f) (map add_reward rs) p = p\<lparr>pl_pos_rewards := pl_pos_rewards p @ rs\<rparr>" for p :: "'a payload"
    by (induction rs arbitrary: p) (simp_all add: add_reward_def)
  have us: "fold (\<lambda>f. f) (map add_unlock us) p = p\<lparr>pl_unlock_events := pl_unlock_events p @ us\<rparr>" for p :: "'a payload"
    by (induction us arbitrary: p) (simp_all add: add_unlock_def)
  show ?thesis by (simp add: txs rs us empty_payload_def)
qed

text \<open>\<open>adds t f\<close>: decoding the item \<open>t\<close> changes the payload by \<open>f\<close>, whatever was decoded before.\<close>

definition adds ::
  "('t, 'acc, 'auth) tx_lib \<Rightarrow> ('r, 'acc, 'auth) rlp_lib \<Rightarrow> ('r \<Rightarrow> ('acc, 'auth) rlp_item \<Rightarrow> bool) \<Rightarrow> u64 \<Rightarrow>
   't packet \<Rightarrow> 't list list \<Rightarrow> ('acc, 'auth) rlp_item \<Rightarrow> ('t payload \<Rightarrow> 't payload) \<Rightarrow> bool" where
  "adds T R repr e input prev t f \<longleftrightarrow>
     (\<forall>r p. repr r t \<longrightarrow>
        decode_item T R e (p_addresses input) (p_gas_prices input) (p_sender_base_nonces input) prev r p = Inr (f p))"

lemma decode_items_adds:
  assumes R: "rlp_repr R repr" and r: "repr r (Rlp_list n items)"
    and all: "list_all2 (adds T R repr e input prev) (drop k items) fs" and k: "k \<le> length items"
  shows "decode_items T R e (p_addresses input) (p_gas_prices input) (p_sender_base_nonces input) prev r
    [k..<length items] p = Inr (fold (\<lambda>f. f) fs p)"
  using all k
proof (induction fs arbitrary: k p rule: list.induct)
  case (Nil k p)
  from Nil.prems(1) have "drop k items = []" by simp
  with Nil.prems(2) have "k = length items" by (metis drop_eq_Nil le_antisym)
  then show ?case by simp
next
  case (Cons f fs)
  then have lt: "k < length items" by (metis drop_all list.rel_distinct(2) list_all2_Nil not_less)
  have d: "drop k items = items ! k # drop (Suc k) items" using lt by (simp add: Cons_nth_drop_Suc)
  obtain r' where r': "rlp_at R r k = Inr r'" "repr r' (items ! k)" by (rule repr_at [OF R r lt])
  have a: "adds T R repr e input prev (items ! k) f" "list_all2 (adds T R repr e input prev) (drop (Suc k) items) fs"
    using Cons.prems(1) unfolding d by simp_all
  have "decode_item T R e (p_addresses input) (p_gas_prices input) (p_sender_base_nonces input) prev r' p = Inr (f p)"
    using a(1) r'(2) by (simp add: adds_def)
  then show ?case
    using r'(1) Cons.IH [OF a(2)] lt by (simp add: upt_rec [of k])
qed

lemma adds_reward:
  assumes "rlp_repr R repr"
  shows "adds T R repr e input prev (encode_pos_reward x) (add_reward x)"
  using decode_encode_pos_reward [OF assms] by (auto simp: adds_def decode_item_def add_reward_def)

lemma adds_unlock:
  assumes "rlp_repr R repr"
  shows "adds T R repr e input prev (encode_unlock_event x) (add_unlock x)"
  using decode_encode_unlock [OF assms] by (auto simp: adds_def decode_item_def add_unlock_def)

lemma adds_ref:
  assumes R: "rlp_repr R repr" and get: "get_ref prev i j = Some tx"
    and prev: "length prev < 2 ^ 64" "\<forall>xs \<in> set prev. length xs < 2 ^ 64"
  shows "adds T R repr e input prev (encode_ref (i, j)) (add_tx tx (Some (i, j)))"
proof -
  have ij: "i < length prev" "j < length (prev ! i)" using get by (auto simp: get_ref_def split: if_splits)
  have "i < 2 ^ 64" by (rule less_trans [OF ij(1) prev(1)])
  moreover have "j < 2 ^ 64" using ij prev(2) by (meson less_trans nth_mem)
  ultimately have u: "unat (of_nat i :: u64) = i" "unat (of_nat j :: u64) = j"
    by (simp_all only: unat_of_nat_u64)
  have "decode_item T R e (p_addresses input) (p_gas_prices input) (p_sender_base_nonces input) prev r p =
      Inr (add_tx tx (Some (i, j)) p)" if "repr r (encode_ref (i, j))" for r p
    using repr_val [OF R that [unfolded encode_ref_def]] get u by (simp add: decode_item_def add_tx_def)
  then show ?thesis by (simp add: adds_def)
qed

lemma encode_tx_marker:
  assumes "encode_tx T e tx ai gi ni = Inr item"
  obtains n m items where "item = Rlp_list n (Rlp_u8 m # items)" "m = 0 \<or> m = 2"
  using assms by (auto simp: encode_tx_def rbind_Inr_iff Let_def split: option.splits)

definition nonce_table_ok :: "'t packet \<Rightarrow> bool" where
  "nonce_table_ok input \<longleftrightarrow> distinct (map sn_sender_index (p_sender_base_nonces input)) \<and>
     length (p_addresses input) < 2 ^ 64 \<and> length (p_gas_prices input) < 2 ^ 64"

lemma adds_tx:
  assumes R: "rlp_repr R repr" and enc: "encode_tx T e tx (index_addresses (p_addresses input))
      (index_u256 (p_gas_prices input)) (sender_nonce_index_of (p_sender_base_nonces input)) = Inr item"
    and ok: "tx_encodable T input tx" "nonce_table_ok input"
  shows "adds T R repr e input prev item (add_tx (canonical_tx T tx) None)"
proof -
  obtain n m items where item: "item = Rlp_list n (Rlp_u8 m # items)" "m = 0 \<or> m = 2"
    by (rule encode_tx_marker [OF enc])
  have "decode_item T R e (p_addresses input) (p_gas_prices input) (p_sender_base_nonces input) prev r p =
      Inr (add_tx (canonical_tx T tx) None p)" if "repr r item" for r p
  proof -
    have "val_u8 R r 0 = Inr m" using repr_val(1) [OF R that [unfolded item(1)], of 0 m] by simp
    moreover have "decode_tx_item T R r e (p_addresses input) (p_gas_prices input) (p_sender_base_nonces input)
        = Inr (canonical_tx T tx)"
      using ok(2) by (intro decode_encode_tx [OF R that enc ok(1)]) (simp_all add: nonce_table_ok_def)
    ultimately show ?thesis using item(2) by (auto simp: decode_item_def add_tx_def)
  qed
  then show ?thesis by (simp add: adds_def)
qed

subsection \<open>The transactions of a block\<close>

text \<open>The references the encoder writes, and the transactions they stand for.\<close>

fun tx_refs :: "('t, 'acc, 'auth) tx_lib \<Rightarrow> 't block \<Rightarrow> nat \<Rightarrow> 't list \<Rightarrow> seen \<Rightarrow> (nat \<times> nat) option list \<times> seen" where
  "tx_refs T b i [] seen_txs = ([], seen_txs)"
| "tx_refs T b i (tx # txs) seen_txs =
     (let encoded_refs = length (b_transaction_refs b) = length (b_transactions b);
          r = (if encoded_refs then b_transaction_refs b ! i else seen_txs (tl_hash T tx));
          seen_txs = (if encoded_refs \<or> r \<noteq> None then seen_txs else seen_txs(tl_hash T tx \<mapsto> (b_index b, i)));
          (rs, seen_txs) = tx_refs T b (Suc i) txs seen_txs
      in (r # rs, seen_txs))"

definition resolve :: "('t, 'acc, 'auth) tx_lib \<Rightarrow> 't list list \<Rightarrow> 't \<Rightarrow> (nat \<times> nat) option \<Rightarrow> 't option" where
  "resolve T prev tx r =
     (case r of None \<Rightarrow> Some (canonical_tx T tx) | Some (i, j) \<Rightarrow> get_ref prev i j)"

fun expected_blocks ::
  "('t, 'acc, 'auth) tx_lib \<Rightarrow> 't block list \<Rightarrow> seen \<Rightarrow> 't list list \<Rightarrow>
   ('t list \<times> (nat \<times> nat) option list) list option" where
  "expected_blocks T [] seen_txs prev = Some []"
| "expected_blocks T (b # bs) seen_txs prev =
     (let (refs, seen_txs) = tx_refs T b 0 (b_transactions b) seen_txs
      in case those_options (map2 (resolve T prev) (b_transactions b) refs) of
           None \<Rightarrow> None
         | Some txs \<Rightarrow> map_option (\<lambda>rest. (txs, refs) # rest) (expected_blocks T bs seen_txs (prev @ [txs])))"

lemma encode_txs_shape:
  "encode_txs T b ai gi ni i txs s = Inr (items, s') \<Longrightarrow> list_all rlp_wf items \<and> length items = length txs"
proof (induction txs arbitrary: i s items s')
  case (Cons tx txs)
  then show ?case
    by (auto simp: Let_def rbind_Inr_iff encode_ref_wf split: option.splits if_splits dest: encode_tx_wf)
qed simp

lemma length_tx_refs: "length (fst (tx_refs T b i txs s)) = length txs"
proof (induction txs arbitrary: i s)
  case (Cons tx txs)
  have IH: "tx_refs T b (Suc i) txs s' = (rs, s'') \<Longrightarrow> length rs = length txs" for s' rs s''
    using Cons.IH [of "Suc i" s'] by simp
  show ?case by (auto simp: Let_def split: prod.split dest!: IH)
qed simp

lemma length_those_options: "those_options xs = Some ys \<Longrightarrow> length ys = length xs"
  by (induction xs arbitrary: ys) (auto split: option.splits)

lemma encode_txs_adds:
  assumes R: "rlp_repr R repr" and ok: "nonce_table_ok input"
    and prev: "length prev < 2 ^ 64" "\<forall>xs \<in> set prev. length xs < 2 ^ 64"
  shows "encode_txs T b (index_addresses (p_addresses input)) (index_u256 (p_gas_prices input))
      (sender_nonce_index_of (p_sender_base_nonces input)) i txs s = Inr (items, s') \<Longrightarrow>
    (\<forall>tx \<in> set txs. tx_encodable T input tx) \<Longrightarrow>
    those_options (map2 (resolve T prev) txs (fst (tx_refs T b i txs s))) = Some out \<Longrightarrow>
    s' = snd (tx_refs T b i txs s) \<and> list_all rlp_wf items \<and> length items = length txs \<and>
    list_all2 (adds T R repr (b_epoch b) input prev) items (map2 add_tx out (fst (tx_refs T b i txs s)))"
proof (induction txs arbitrary: i s items out)
  case Nil
  then show ?case by simp
next
  case (Cons tx txs)
  let ?er = "length (b_transaction_refs b) = length (b_transactions b)"
  let ?r = "if ?er then b_transaction_refs b ! i else s (tl_hash T tx)"
  let ?s = "if ?er \<or> ?r \<noteq> None then s else s(tl_hash T tx \<mapsto> (b_index b, i))"
  have refs: "tx_refs T b i (tx # txs) s = (?r # fst (tx_refs T b (Suc i) txs ?s), snd (tx_refs T b (Suc i) txs ?s))"
    by (simp add: Let_def split: prod.splits)
  from Cons.prems(3) obtain tx' out' where out: "out = tx' # out'" "resolve T prev tx ?r = Some tx'"
    "those_options (map2 (resolve T prev) txs (fst (tx_refs T b (Suc i) txs ?s))) = Some out'"
    unfolding refs by (auto split: option.splits)
  show ?case
  proof (cases ?r)
    case None
    then have s: "?s = (if ?er then s else s(tl_hash T tx \<mapsto> (b_index b, i)))" by simp
    obtain item items' where enc: "encode_tx T (b_epoch b) tx (index_addresses (p_addresses input))
        (index_u256 (p_gas_prices input)) (sender_nonce_index_of (p_sender_base_nonces input)) = Inr item"
      "encode_txs T b (index_addresses (p_addresses input)) (index_u256 (p_gas_prices input))
        (sender_nonce_index_of (p_sender_base_nonces input)) (Suc i) txs ?s = Inr (items', s')"
      "items = item # items'"
      using Cons.prems(1) None unfolding s by (auto simp: Let_def rbind_Inr_iff split: if_splits)
    have tx': "tx' = canonical_tx T tx" using out(2) None by (simp add: resolve_def)
    have "adds T R repr (b_epoch b) input prev item (add_tx tx' ?r)"
      unfolding tx' None using Cons.prems(2) by (intro adds_tx [OF R enc(1) _ ok]) simp
    with Cons.IH [OF enc(2) _ out(3)] Cons.prems(2) encode_tx_wf [OF enc(1)] show ?thesis
      unfolding refs out(1) enc(3) by simp
  next
    case (Some ij)
    obtain i' j' where ij: "ij = (i', j')" by (cases ij)
    have s: "?s = s" using Some by auto
    obtain items' where enc: "encode_txs T b (index_addresses (p_addresses input)) (index_u256 (p_gas_prices input))
        (sender_nonce_index_of (p_sender_base_nonces input)) (Suc i) txs ?s = Inr (items', s')"
      "items = encode_ref (i', j') # items'"
      using Cons.prems(1) Some ij unfolding s by (auto simp: Let_def rbind_Inr_iff split: if_splits)
    have "get_ref prev i' j' = Some tx'" using out(2) Some ij by (simp add: resolve_def)
    then have "adds T R repr (b_epoch b) input prev (encode_ref (i', j')) (add_tx tx' ?r)"
      unfolding Some ij by (rule adds_ref [OF R _ prev])
    with Cons.IH [OF enc(1) _ out(3)] Cons.prems(2) show ?thesis
      unfolding refs out(1) enc(2) by (simp add: encode_ref_wf)
  qed
qed

subsection \<open>A whole payload\<close>

definition decode_payload ::
  "('t, 'acc, 'auth) tx_lib \<Rightarrow> ('r, 'acc, 'auth) rlp_lib \<Rightarrow> u64 \<Rightarrow> 't packet \<Rightarrow> 't list list \<Rightarrow> bytes \<Rightarrow> 't payload pack_result" where
  "decode_payload T R e input prev payload =
     (let r = rlp_new R payload
      in rbind (rlp_item_count R r) (\<lambda>n.
           decode_items T R e (p_addresses input) (p_gas_prices input) (p_sender_base_nonces input) prev r
             [0..<n] empty_payload))"

lemma decode_encode_payload:
  assumes R: "rlp_repr R repr" and ok: "nonce_table_ok input"
    and prev: "length prev < 2 ^ 64" "\<forall>xs \<in> set prev. length xs < 2 ^ 64"
    and enc: "encode_tx_payload T R b (index_addresses (p_addresses input)) (index_u256 (p_gas_prices input))
      (sender_nonce_index_of (p_sender_base_nonces input)) s = Inr (payload, s')"
    and txs: "\<forall>tx \<in> set (b_transactions b). tx_encodable T input tx"
    and refs: "tx_refs T b 0 (b_transactions b) s = (refs, s1)"
    and out: "those_options (map2 (resolve T prev) (b_transactions b) refs) = Some out"
  shows "s' = s1 \<and>
    (if b_transactions b = [] \<and> b_pos_rewards b = [] \<and> b_unlock_events b = [] then payload = [] \<and> out = [] \<and> refs = []
     else payload \<noteq> [] \<and> decode_payload T R (b_epoch b) input prev payload =
       Inr \<lparr>pl_transactions = out, pl_refs = refs, pl_pos_rewards = b_pos_rewards b,
            pl_unlock_events = b_unlock_events b\<rparr>)"
proof (cases "b_transactions b = [] \<and> b_pos_rewards b = [] \<and> b_unlock_events b = []")
  case True
  with enc refs out show ?thesis by (simp add: encode_tx_payload_def)
next
  case False
  let ?n = "length (b_transactions b) + length (b_pos_rewards b) + length (b_unlock_events b)"
  from False enc obtain items where items: "encode_txs T b (index_addresses (p_addresses input))
      (index_u256 (p_gas_prices input)) (sender_nonce_index_of (p_sender_base_nonces input)) 0 (b_transactions b) s
      = Inr (items, s')"
    and payload: "payload = rlp_out R (Rlp_list ?n (items @ map encode_pos_reward (b_pos_rewards b)
      @ map encode_unlock_event (b_unlock_events b)))"
    by (auto simp: encode_tx_payload_def rbind_Inr_iff split: if_splits)
  let ?all = "items @ map encode_pos_reward (b_pos_rewards b) @ map encode_unlock_event (b_unlock_events b)"
  have t: "s' = s1" "list_all rlp_wf items" "length items = length (b_transactions b)"
    "list_all2 (adds T R repr (b_epoch b) input prev) items (map2 add_tx out refs)"
    using encode_txs_adds [OF R ok prev items txs] refs out by simp_all
  have wf: "rlp_wf (Rlp_list ?n ?all)"
    using t(2,3) by (auto simp: list_all_iff encode_pos_reward_wf encode_unlock_wf)
  have "list_all2 (adds T R repr (b_epoch b) input prev) (map encode_pos_reward rs) (map add_reward rs)" for rs
    by (induction rs) (simp_all add: adds_reward [OF R])
  moreover have "list_all2 (adds T R repr (b_epoch b) input prev) (map encode_unlock_event us) (map add_unlock us)" for us
    by (induction us) (simp_all add: adds_unlock [OF R])
  ultimately have all: "list_all2 (adds T R repr (b_epoch b) input prev) (drop 0 ?all)
      (map2 add_tx out refs @ map add_reward (b_pos_rewards b) @ map add_unlock (b_unlock_events b))"
    using t(4) by (simp add: list_all2_appendI)
  note rep = repr_new [OF R wf]
  have "length refs = length (b_transactions b)" using length_tx_refs [of T b 0 "b_transactions b" s] refs by simp
  moreover have "length out = length (b_transactions b)"
    using length_those_options [OF out] calculation by simp
  ultimately have "map fst (zip out refs) = out" "map snd (zip out refs) = refs" by simp_all
  then have "decode_payload T R (b_epoch b) input prev payload =
       Inr \<lparr>pl_transactions = out, pl_refs = refs, pl_pos_rewards = b_pos_rewards b,
            pl_unlock_events = b_unlock_events b\<rparr>"
    using repr_count [OF R rep]
    unfolding decode_payload_def payload Let_def
    by (simp only: rbind_simps decode_items_adds [OF R rep all le0] fold_adds)
  moreover have "payload \<noteq> []" unfolding payload by (rule repr_out [OF R wf])
  ultimately show ?thesis using t(1) False by simp
qed

subsection \<open>References that do not resolve\<close>

abbreviation unresolved :: pack_failure where
  "unresolved \<equiv> Bail ''duplicate tx reference out of range''"

definition fails ::
  "('t, 'acc, 'auth) tx_lib \<Rightarrow> ('r, 'acc, 'auth) rlp_lib \<Rightarrow> ('r \<Rightarrow> ('acc, 'auth) rlp_item \<Rightarrow> bool) \<Rightarrow> u64 \<Rightarrow>
   't packet \<Rightarrow> 't list list \<Rightarrow> ('acc, 'auth) rlp_item \<Rightarrow> bool" where
  "fails T R repr e input prev t \<longleftrightarrow>
     (\<forall>r p. repr r t \<longrightarrow> decode_item T R e (p_addresses input) (p_gas_prices input) (p_sender_base_nonces input)
        prev r p = Inl unresolved)"

lemma fails_ref:
  assumes R: "rlp_repr R repr" and get: "get_ref prev i j = None" and ij: "i < 2 ^ 64" "j < 2 ^ 64"
  shows "fails T R repr e input prev (encode_ref (i, j))"
proof -
  have "unat (of_nat i :: u64) = i" "unat (of_nat j :: u64) = j"
    using ij by (simp_all only: unat_of_nat_u64)
  then have "decode_item T R e (p_addresses input) (p_gas_prices input) (p_sender_base_nonces input) prev r p =
      Inl unresolved" if "repr r (encode_ref (i, j))" for r p
    using repr_val [OF R that [unfolded encode_ref_def]] get by (simp add: decode_item_def)
  then show ?thesis by (simp add: fails_def)
qed

lemma decode_items_fails:
  assumes R: "rlp_repr R repr" and r: "repr r (Rlp_list n items)"
    and all: "list_all2 (adds T R repr e input prev) (take (length fs) (drop k items)) fs"
    and fail: "fails T R repr e input prev (items ! (k + length fs))" and k: "k + length fs < length items"
  shows "decode_items T R e (p_addresses input) (p_gas_prices input) (p_sender_base_nonces input) prev r
    [k..<length items] p = Inl unresolved"
  using all fail k
proof (induction fs arbitrary: k p rule: list.induct)
  case (Nil k p)
  obtain r' where r': "rlp_at R r k = Inr r'" "repr r' (items ! k)"
    by (rule repr_at [OF R r, of k]) (use Nil.prems(3) in simp)
  have "decode_item T R e (p_addresses input) (p_gas_prices input) (p_sender_base_nonces input) prev r' p = Inl unresolved"
    using Nil.prems(2) r'(2) by (simp add: fails_def)
  then show ?case using r'(1) Nil.prems(3) by (simp add: upt_rec [of k])
next
  case (Cons f fs)
  then have lt: "k < length items" by simp
  have d: "drop k items = items ! k # drop (Suc k) items" using lt by (simp add: Cons_nth_drop_Suc)
  obtain r' where r': "rlp_at R r k = Inr r'" "repr r' (items ! k)" by (rule repr_at [OF R r lt])
  have a: "adds T R repr e input prev (items ! k) f"
    "list_all2 (adds T R repr e input prev) (take (length fs) (drop (Suc k) items)) fs"
    using Cons.prems(1) unfolding d by simp_all
  have "decode_item T R e (p_addresses input) (p_gas_prices input) (p_sender_base_nonces input) prev r' p = Inr (f p)"
    using a(1) r'(2) by (simp add: adds_def)
  then show ?case
    using r'(1) Cons.IH [OF a(2)] Cons.prems(2,3) lt by (simp add: upt_rec [of k])
qed

text \<open>References are pairs of \<open>usize\<close>.\<close>

definition refs_small :: "(nat \<times> nat) option list \<Rightarrow> bool" where
  "refs_small refs \<longleftrightarrow> (\<forall>i j. Some (i, j) \<in> set refs \<longrightarrow> i < 2 ^ 64 \<and> j < 2 ^ 64)"

lemma encode_txs_fails:
  assumes R: "rlp_repr R repr" and ok: "nonce_table_ok input"
    and prev: "length prev < 2 ^ 64" "\<forall>xs \<in> set prev. length xs < 2 ^ 64"
  shows "encode_txs T b (index_addresses (p_addresses input)) (index_u256 (p_gas_prices input))
      (sender_nonce_index_of (p_sender_base_nonces input)) i txs s = Inr (items, s') \<Longrightarrow>
    (\<forall>tx \<in> set txs. tx_encodable T input tx) \<Longrightarrow> refs_small (fst (tx_refs T b i txs s)) \<Longrightarrow>
    those_options (map2 (resolve T prev) txs (fst (tx_refs T b i txs s))) = None \<Longrightarrow>
    \<exists>fs. length fs < length items \<and> list_all2 (adds T R repr (b_epoch b) input prev) (take (length fs) items) fs \<and>
      fails T R repr (b_epoch b) input prev (items ! length fs)"
proof (induction txs arbitrary: i s items)
  case Nil
  then show ?case by simp
next
  case (Cons tx txs)
  let ?er = "length (b_transaction_refs b) = length (b_transactions b)"
  let ?r = "if ?er then b_transaction_refs b ! i else s (tl_hash T tx)"
  let ?s = "if ?er \<or> ?r \<noteq> None then s else s(tl_hash T tx \<mapsto> (b_index b, i))"
  have refs: "tx_refs T b i (tx # txs) s = (?r # fst (tx_refs T b (Suc i) txs ?s), snd (tx_refs T b (Suc i) txs ?s))"
    by (simp add: Let_def split: prod.splits)
  have small: "refs_small (fst (tx_refs T b (Suc i) txs ?s))"
    using Cons.prems(3) unfolding refs by (auto simp: refs_small_def)
  have later: ?case
    if item: "items = item # items'" "adds T R repr (b_epoch b) input prev item f"
      and enc: "encode_txs T b (index_addresses (p_addresses input)) (index_u256 (p_gas_prices input))
        (sender_nonce_index_of (p_sender_base_nonces input)) (Suc i) txs ?s = Inr (items', s')"
      and none: "those_options (map2 (resolve T prev) txs (fst (tx_refs T b (Suc i) txs ?s))) = None"
    for item items' f
  proof -
    obtain fs where "length fs < length items'"
      "list_all2 (adds T R repr (b_epoch b) input prev) (take (length fs) items') fs"
      "fails T R repr (b_epoch b) input prev (items' ! length fs)"
      using Cons.IH [OF enc _ small none] Cons.prems(2) by auto
    with item show ?thesis by (intro exI [of _ "f # fs"]) simp
  qed
  show ?case
  proof (cases ?r)
    case None
    then have s: "?s = (if ?er then s else s(tl_hash T tx \<mapsto> (b_index b, i)))" by simp
    obtain item items' where enc: "encode_tx T (b_epoch b) tx (index_addresses (p_addresses input))
        (index_u256 (p_gas_prices input)) (sender_nonce_index_of (p_sender_base_nonces input)) = Inr item"
      "encode_txs T b (index_addresses (p_addresses input)) (index_u256 (p_gas_prices input))
        (sender_nonce_index_of (p_sender_base_nonces input)) (Suc i) txs ?s = Inr (items', s')"
      "items = item # items'"
      using Cons.prems(1) None unfolding s by (auto simp: Let_def rbind_Inr_iff split: if_splits)
    have "those_options (map2 (resolve T prev) txs (fst (tx_refs T b (Suc i) txs ?s))) = None"
      using Cons.prems(4) None unfolding refs by (auto simp: resolve_def split: option.splits)
    from later [OF enc(3) adds_tx [OF R enc(1) _ ok] enc(2) this] Cons.prems(2) show ?thesis by simp
  next
    case (Some ij)
    obtain i' j' where ij: "ij = (i', j')" by (cases ij)
    have s: "?s = s" using Some by auto
    obtain items' where enc: "encode_txs T b (index_addresses (p_addresses input)) (index_u256 (p_gas_prices input))
        (sender_nonce_index_of (p_sender_base_nonces input)) (Suc i) txs ?s = Inr (items', s')"
      "items = encode_ref (i', j') # items'"
      using Cons.prems(1) Some ij unfolding s by (auto simp: Let_def rbind_Inr_iff split: if_splits)
    show ?thesis
    proof (cases "get_ref prev i' j'")
      case None
      have "i' < 2 ^ 64" "j' < 2 ^ 64"
        using Cons.prems(3) unfolding refs Some ij by (auto simp: refs_small_def)
      from fails_ref [OF R None this] show ?thesis unfolding enc(2) by (intro exI [of _ "[]"]) simp
    next
      case get: (Some tx')
      have "those_options (map2 (resolve T prev) txs (fst (tx_refs T b (Suc i) txs ?s))) = None"
        using Cons.prems(4) Some ij get unfolding refs by (auto simp: resolve_def split: option.splits)
      from later [OF enc(2) adds_ref [OF R get prev] enc(1) this] show ?thesis .
    qed
  qed
qed

lemma decode_encode_payload_fails:
  assumes R: "rlp_repr R repr" and ok: "nonce_table_ok input"
    and prev: "length prev < 2 ^ 64" "\<forall>xs \<in> set prev. length xs < 2 ^ 64"
    and enc: "encode_tx_payload T R b (index_addresses (p_addresses input)) (index_u256 (p_gas_prices input))
      (sender_nonce_index_of (p_sender_base_nonces input)) s = Inr (payload, s')"
    and txs: "\<forall>tx \<in> set (b_transactions b). tx_encodable T input tx"
    and refs: "tx_refs T b 0 (b_transactions b) s = (refs, s1)" "refs_small refs"
    and out: "those_options (map2 (resolve T prev) (b_transactions b) refs) = None"
  shows "payload \<noteq> [] \<and> decode_payload T R (b_epoch b) input prev payload = Inl unresolved"
proof -
  let ?n = "length (b_transactions b) + length (b_pos_rewards b) + length (b_unlock_events b)"
  have "b_transactions b \<noteq> []" using out by auto
  with enc obtain items where items: "encode_txs T b (index_addresses (p_addresses input))
      (index_u256 (p_gas_prices input)) (sender_nonce_index_of (p_sender_base_nonces input)) 0 (b_transactions b) s
      = Inr (items, s')"
    and payload: "payload = rlp_out R (Rlp_list ?n (items @ map encode_pos_reward (b_pos_rewards b)
      @ map encode_unlock_event (b_unlock_events b)))"
    by (auto simp: encode_tx_payload_def rbind_Inr_iff split: if_splits)
  let ?all = "items @ map encode_pos_reward (b_pos_rewards b) @ map encode_unlock_event (b_unlock_events b)"
  obtain fs where fs: "length fs < length items"
    "list_all2 (adds T R repr (b_epoch b) input prev) (take (length fs) items) fs"
    "fails T R repr (b_epoch b) input prev (items ! length fs)"
    using encode_txs_fails [OF R ok prev items txs] refs out by auto
  have wf: "rlp_wf (Rlp_list ?n ?all)"
    using encode_txs_shape [OF items] by (auto simp: list_all_iff encode_pos_reward_wf encode_unlock_wf)
  note rep = repr_new [OF R wf]
  have "decode_items T R (b_epoch b) (p_addresses input) (p_gas_prices input) (p_sender_base_nonces input) prev
      (rlp_new R (rlp_out R (Rlp_list ?n ?all))) [0..<length ?all] empty_payload = Inl unresolved"
    by (rule decode_items_fails [OF R rep, where fs = fs]) (use fs in \<open>simp_all add: nth_append\<close>)
  then have "decode_payload T R (b_epoch b) input prev payload = Inl unresolved"
    using repr_count [OF R rep] unfolding decode_payload_def payload Let_def by (simp only: rbind_simps)
  moreover have "payload \<noteq> []" unfolding payload by (rule repr_out [OF R wf])
  ultimately show ?thesis by simp
qed

end
