(* ===== verification/Packet_Roundtrip.thy ===== *)
theory Packet_Roundtrip
  imports Packet_Payload
begin

text \<open>
  Whole packets: \<open>decode_packet_ext\<close> reads what \<open>encode_packet\<close> wrote. The blocks come back with
  the flags that describe their payload, with 4 bytes of each root and with their transactions in
  the decoder's canonical form; everything else is as it was.
\<close>

subsection \<open>Epochs\<close>

lemma first_index_rel:
  "list_all2 (\<lambda>x y. P x \<longleftrightarrow> Q y) xs ys \<Longrightarrow> first_index P xs = first_index Q ys"
  by (induction xs ys rule: list_all2_induct) auto

lemma check_blocks_Inr:
  "check_blocks k e bs = Inr () \<longleftrightarrow>
     (\<forall>i < length bs. b_index (bs ! i) = k + i \<and> b_flags (bs ! i) AND 0x80 = 0 \<and> b_epoch (bs ! i) = e)"
proof (induction bs arbitrary: k)
  case (Cons b bs)
  show ?case
    by (auto simp: rbind_Inr_iff check_block_def Cons.IH returns All_less_Suc2)
qed simp

text \<open>Blocks that agree on pivot flag and height get the epochs that validation checked.\<close>

lemma assign_epoch_validated:
  assumes "validate_groups k bs = Inr ()"
    and "list_all2 (\<lambda>b c. is_pivot b = is_pivot c \<and> b_height b = b_height c) bs cs"
  shows "assign_epoch_from_pivots cs = Inr (map2 (\<lambda>b c. c\<lparr>b_epoch := b_epoch b\<rparr>) bs cs) \<and>
    (\<forall>i < length bs. b_index (bs ! i) = k + i \<and> b_flags (bs ! i) AND 0x80 = 0)"
  using assms
proof (induction k bs arbitrary: cs rule: validate_groups.induct)
  case (1 k bs)
  have len: "length bs = length cs" using "1.prems"(2) by (rule list_all2_lengthD)
  show ?case
  proof (cases "bs = []")
    case True
    with len show ?thesis by (subst assign_epoch_from_pivots.simps) simp
  next
    case False
    then obtain p where p: "first_index is_pivot bs = Some p"
      using "1.prems"(1) by (subst (asm) validate_groups.simps) (auto split: option.splits)
    then have v: "check_blocks k (b_height (bs ! p)) (take (Suc p) bs) = Inr ()"
      "validate_groups (k + Suc p) (drop (Suc p) bs) = Inr ()"
      using "1.prems"(1) False
      by (subst (asm) validate_groups.simps, simp add: rbind_Inr_iff)+
    have pl: "p < length bs" using p by (simp add: first_index_Some)
    have "list_all2 (\<lambda>b c. is_pivot b = is_pivot c \<and> b_height b = b_height c) (drop (Suc p) bs) (drop (Suc p) cs)"
      using "1.prems"(2) by (rule list_all2_dropI)
    then have rest: "assign_epoch_from_pivots (drop (Suc p) cs) =
        Inr (map2 (\<lambda>b c. c\<lparr>b_epoch := b_epoch b\<rparr>) (drop (Suc p) bs) (drop (Suc p) cs))"
      "\<forall>i < length (drop (Suc p) bs). b_index (drop (Suc p) bs ! i) = k + Suc p + i \<and>
         b_flags (drop (Suc p) bs ! i) AND 0x80 = 0"
      using "1.IH" [OF False p _ v(2)] v(1) by blast+
    have "first_index is_pivot cs = Some p"
      using first_index_rel [of is_pivot is_pivot bs cs] p
        list_all2_mono [OF "1.prems"(2), of "\<lambda>b c. is_pivot b = is_pivot c"] by simp
    moreover have h: "b_height (cs ! p) = b_height (bs ! p)"
      using list_all2_nthD [OF "1.prems"(2) pl] by simp
    moreover have "cs \<noteq> []" using False len by auto
    ultimately have "assign_epoch_from_pivots cs =
        Inr (map (\<lambda>c. c\<lparr>b_epoch := b_height (bs ! p)\<rparr>) (take (Suc p) cs)
             @ map2 (\<lambda>b c. c\<lparr>b_epoch := b_epoch b\<rparr>) (drop (Suc p) bs) (drop (Suc p) cs))"
      using rest(1) by (subst assign_epoch_from_pivots.simps) (simp add: Let_def)
    moreover have "map (\<lambda>c. c\<lparr>b_epoch := b_height (bs ! p)\<rparr>) (take (Suc p) cs) =
        map2 (\<lambda>b c. c\<lparr>b_epoch := b_epoch b\<rparr>) (take (Suc p) bs) (take (Suc p) cs)"
      using v(1) len pl by (intro nth_equalityI) (simp_all add: check_blocks_Inr)
    moreover have "map2 f (take (Suc p) bs) (take (Suc p) cs) @ map2 f (drop (Suc p) bs) (drop (Suc p) cs) =
        map2 f bs cs" for f :: "'a block \<Rightarrow> 'b block \<Rightarrow> 'b block"
      by (simp flip: take_zip drop_zip take_map drop_map)
    ultimately have "assign_epoch_from_pivots cs = Inr (map2 (\<lambda>b c. c\<lparr>b_epoch := b_epoch b\<rparr>) bs cs)"
      by simp
    moreover have "b_index (bs ! i) = k + i \<and> b_flags (bs ! i) AND 0x80 = 0" if "i < length bs" for i
    proof (cases "i < Suc p")
      case True
      with v(1) that show ?thesis by (simp add: check_blocks_Inr)
    next
      case False
      then obtain j where "i = Suc p + j" using le_Suc_ex not_less by blast
      with rest(2) that show ?thesis by auto
    qed
    ultimately show ?thesis by blast
  qed
qed

lemma validate_input_groups: "validate_input input = Inr () \<Longrightarrow> validate_groups 0 (p_blocks input) = Inr ()"
  by (auto simp: validate_input_def rbind_Inr_iff)

subsection \<open>The prefix size\<close>

lemma choose_prefix_size_from_valid:
  "valid_prefix_size n \<Longrightarrow> valid_prefix_size (choose_prefix_size_from records n)"
proof (induction records n rule: choose_prefix_size_from.induct)
  case (1 records n)
  have next_n: "n < 96 \<Longrightarrow> valid_prefix_size (n + 8)"
    using "1.prems" by (auto simp: valid_prefix_size_def)
  show ?case
    using "1.IH" [OF refl refl] "1.prems" next_n
    by (subst choose_prefix_size_from.simps) (simp add: Let_def)
qed

lemma choose_prefix_size_valid: "valid_prefix_size (choose_prefix_size records)"
  unfolding choose_prefix_size_def by (rule choose_prefix_size_from_valid) (simp add: valid_prefix_size_def)

lemma valid_prefix_size_bounds: "valid_prefix_size n \<Longrightarrow> 64 \<le> n \<and> n \<le> 96"
  by (auto simp: valid_prefix_size_def)

subsection \<open>The header\<close>

lemma layout_header:
  assumes "packet_layout input data n rs bitmap seg offs" "n < 256"
  shows "125 \<le> length data" "H256 (subslice data 0 32) = p_prev_last_hash input"
    "H256 (subslice data 32 64) = p_prev_last_deferred_state_root input"
    "read_u64_le data 64 = Inr (p_first_block_number input)"
    "read_u64_le data 72 = Inr (p_min_timestamp input)"
    "read_u64_le data 80 = Inr (p_min_height input)"
    "read_u32_le data 88 = Inr (ucast (p_min_pos_height input))"
    "data ! 92 = of_nat n" "unat (data ! 92) = n"
proof -
  from assms(1) obtain rest where d: "data = fixed_header input n @ offset_table offs @ rest"
    and len: "length offs = 8" by (auto simp: packet_layout_def)
  show "125 \<le> length data" by (simp add: d len)
  show "H256 (subslice data 0 32) = p_prev_last_hash input"
    "H256 (subslice data 32 64) = p_prev_last_deferred_state_root input"
    by (simp_all add: d fixed_header_def subslice_def)
  let ?h = "as_bytes (p_prev_last_hash input) @ as_bytes (p_prev_last_deferred_state_root input)"
  let ?h1 = "?h @ to_le_bytes 8 (p_first_block_number input)"
  let ?h2 = "?h1 @ to_le_bytes 8 (p_min_timestamp input)"
  let ?h3 = "?h2 @ to_le_bytes 8 (p_min_height input)"
  let ?h4 = "?h3 @ to_le_bytes 4 (ucast (p_min_pos_height input) :: u32)"
  let ?t = "[of_nat n] @ offset_table offs @ rest"
  show "read_u64_le data 64 = Inr (p_first_block_number input)"
    by (rule read_u64_le_at [of _ ?h _ "drop 72 data"]) (simp_all add: d fixed_header_def)
  show "read_u64_le data 72 = Inr (p_min_timestamp input)"
    by (rule read_u64_le_at [of _ ?h1 _ "drop 80 data"]) (simp_all add: d fixed_header_def)
  show "read_u64_le data 80 = Inr (p_min_height input)"
    by (rule read_u64_le_at [of _ ?h2 _ "drop 88 data"]) (simp_all add: d fixed_header_def)
  show "read_u32_le data 88 = Inr (ucast (p_min_pos_height input))"
    by (rule read_u32_le_at [of _ ?h3 _ ?t]) (simp_all add: d fixed_header_def)
  have "data = ?h4 @ of_nat n # offset_table offs @ rest" by (simp add: d fixed_header_def)
  moreover have "length ?h4 = 92" by simp
  ultimately show byte: "data ! 92 = of_nat n" by (metis nth_append_length)
  show "unat (data ! 92) = n" unfolding byte by (rule unat_of_nat_u8 [OF assms(2)])
qed

lemma length_chunks_exact: "length (chunks_exact n data) \<le> length data"
proof (induction n data rule: chunks_exact.induct)
  case (1 n data)
  show ?case
  proof (cases "n = 0 \<or> length data < n")
    case True
    then show ?thesis by (subst chunks_exact.simps) simp
  next
    case False
    with "1.IH" have "length (chunks_exact n (drop n data)) \<le> length data - n" by simp
    with False have "Suc (length (chunks_exact n (drop n data))) \<le> length data" by arith
    with False show ?thesis by (subst chunks_exact.simps) simp
  qed
qed

text \<open>The tables of a packet are no longer than the packet.\<close>

lemma layout_table_lengths:
  assumes "packet_layout input data n rs bitmap seg offs" "length data < 2 ^ 64"
  shows "length (p_addresses input) < 2 ^ 64" "length (p_difficulties input) < 2 ^ 64"
    "length (p_gas_prices input) < 2 ^ 64"
proof -
  have sub: "length xs < 2 ^ 64"
    if "rbind (slice_of data i j) f = Inr xs" "\<And>d. f d = Inr xs \<Longrightarrow> length xs \<le> length d"
    for i j and f :: "bytes \<Rightarrow> 'b list pack_result" and xs
  proof -
    from that(1) obtain d where d: "slice_of data i j = Inr d" "f d = Inr xs" by (auto simp: rbind_Inr_iff)
    have "length d \<le> length data" using d(1) by (auto simp: returns)
    with that(2) [OF d(2)] assms(2) show ?thesis by linarith
  qed
  have addresses: "length as \<le> length d" if "decode_addresses d = Inr as" for d as
    using that length_chunks_exact [of 20 d] by (auto simp: decode_addresses_def rbind_Inr_iff)
  have table: "length vs \<le> length d" if "decode_u256_table d = Inr vs" for d vs
  proof -
    from that obtain t where t: "trim_zero_padding d 32 = Inr t" "vs = map from_big_endian (chunks_exact 32 t)"
      by (auto simp: decode_u256_table_def rbind_Inr_iff)
    moreover have "length t \<le> length d"
      using t(1) by (auto simp: trim_zero_padding_def Let_def rbind_Inr_iff split: if_splits)
    ultimately show ?thesis using length_chunks_exact [of 32 t] by simp
  qed
  have l: "rbind (slice_of data (offs ! 0) (offs ! 1)) decode_addresses = Inr (p_addresses input)"
    "rbind (slice_of data (offs ! 2) (offs ! 3)) decode_u256_table = Inr (p_difficulties input)"
    "rbind (slice_of data (offs ! 4) (offs ! 5)) decode_u256_table = Inr (p_gas_prices input)"
    using assms(1) unfolding packet_layout_def by blast+
  show "length (p_addresses input) < 2 ^ 64" by (rule sub [OF l(1) addresses])
  show "length (p_difficulties input) < 2 ^ 64" by (rule sub [OF l(2) table])
  show "length (p_gas_prices input) < 2 ^ 64" by (rule sub [OF l(3) table])
qed

subsection \<open>Block records\<close>

lemma decode_records_from_body:
  assumes body: "body_in data off n rs tx"
    and bitmap: "\<And>j. j < length rs \<Longrightarrow> bitmap_bit bitmap j \<longleftrightarrow> long_record n (rs ! j)"
    and peek: "\<And>j. j < length rs \<Longrightarrow> peek_tx_offset_units (padded n (rs ! j)) = Inr (us ! j)"
  shows "i + m = length rs \<Longrightarrow>
    decode_records_from data off tx n bitmap i (overflow_at off n rs i) m =
      Inr (map (\<lambda>j. \<lparr>dr_bytes = padded n (rs ! j), dr_tx_offset_units = us ! j\<rparr>) [i..<length rs])"
proof (induction m arbitrary: i)
  case (Suc m)
  then have i: "i < length rs" by simp
  have "[i..<length rs] = i # [Suc i..<length rs]" using i by (rule upt_conv_Cons)
  then show ?case
    using Suc.IH [of "Suc i"] Suc.prems read_record_body [OF body i bitmap [OF i]] peek [OF i]
    by simp
qed simp

lemma collect_records_from_body:
  assumes body: "body_in data off n rs tx"
    and bitmap: "\<And>j. j < length rs \<Longrightarrow> bitmap_bit bitmap j \<longleftrightarrow> long_record n (rs ! j)"
  shows "i + m = length rs \<Longrightarrow>
    collect_records_from data off tx n bitmap i (overflow_at off n rs i) m =
      Inr (map (\<lambda>j. padded n (rs ! j)) [i..<length rs], overflow_at off n rs (length rs))"
proof (induction m arbitrary: i)
  case (Suc m)
  then have i: "i < length rs" by simp
  have step: "collect_records_from data off tx n bitmap i (overflow_at off n rs i) (Suc m) =
      rbind (read_record data off tx n bitmap i (overflow_at off n rs i)) (\<lambda>(r, overflow_offset).
      rbind (collect_records_from data off tx n bitmap (Suc i) overflow_offset m)
        (\<lambda>(rs, overflow_offset). Inr (r # rs, overflow_offset)))"
    unfolding collect_records_from.simps read_record_def
    by (auto simp: rbind_def Let_def split: sum.splits prod.splits)
  have "[i..<length rs] = i # [Suc i..<length rs]" using i by (rule upt_conv_Cons)
  then show ?case
    using Suc.IH [of "Suc i"] Suc.prems read_record_body [OF body i bitmap [OF i]]
    unfolding step by simp
qed simp

subsection \<open>Blocks\<close>

lemma length_encode_payloads:
  "encode_payloads T R ai gi ni bs seen_txs = Inr payloads \<Longrightarrow> length payloads = length bs"
  by (induction bs arbitrary: seen_txs payloads) (auto simp: rbind_Inr_iff)

lemma length_expected_blocks:
  "expected_blocks T bs seen_txs prev = Some ex \<Longrightarrow> length ex = length bs"
  by (induction bs arbitrary: seen_txs prev ex) (auto split: prod.splits option.splits)

text \<open>What \<open>encode_packet\<close> has written when it returns.\<close>

lemma encoded_packet:
  fixes input :: "'t packet"
  assumes enc: "encode_packet T R S input = Inr data" and S: "snap_law S" and size: "length data < 2 ^ 64"
    and nonces: "\<forall>e \<in> set (p_sender_base_nonces input). sn_sender_index e < 2 ^ 64"
  obtains payloads rs us seg offs bitmap where
    "validate_groups 0 (p_blocks input) = Inr ()"
    "encode_payloads T R (index_addresses (p_addresses input)) (index_u256 (p_gas_prices input))
       (sender_nonce_index_of (p_sender_base_nonces input)) (p_blocks input) Map.empty = Inr payloads"
    "length payloads = length (p_blocks input)" "length rs = length (p_blocks input)"
    "length us = length (p_blocks input)"
    "packet_layout input data (choose_prefix_size rs) rs bitmap seg offs"
    "\<And>j. j < length rs \<Longrightarrow> bitmap_bit bitmap j \<longleftrightarrow> long_record (choose_prefix_size rs) (rs ! j)"
    "\<And>j. j < length rs \<Longrightarrow> record_of S input seg (p_blocks input ! j, payloads ! j) (us ! j, rs ! j)"
    "encode_blocks T R S input (index_addresses (p_addresses input)) (index_u256 (p_gas_prices input))
       (sender_nonce_index_of (p_sender_base_nonces input)) (index_u256 (p_difficulties input)) = Inr (rs, seg)"
    "\<exists>body. pack_block_body rs (choose_prefix_size rs) = (body, bitmap) \<and>
       assemble_packet input (choose_prefix_size rs) (length rs) bitmap body seg = Inr data"
proof -
  from enc obtain payloads rs seg where v: "validate_input input = Inr ()"
    and p: "encode_payloads T R (index_addresses (p_addresses input)) (index_u256 (p_gas_prices input))
       (sender_nonce_index_of (p_sender_base_nonces input)) (p_blocks input) Map.empty = Inr payloads"
    and r: "encode_records S input (index_addresses (p_addresses input)) (index_u256 (p_difficulties input))
       (zip (p_blocks input) payloads) [] = Inr (rs, seg)"
    and a: "(case pack_block_body rs (choose_prefix_size rs) of (body, bitmap) \<Rightarrow>
       assemble_packet input (choose_prefix_size rs) (length rs) bitmap body seg) = Inr data"
    by (auto simp: encode_packet_def encode_blocks_def rbind_Inr_iff Let_def)
  note n = valid_prefix_size_bounds [OF choose_prefix_size_valid [of rs]]
  obtain bitmap where b: "pack_block_body rs (choose_prefix_size rs) =
      (concat (map (prefix_part (choose_prefix_size rs)) rs) @ concat (map (overflow_part (choose_prefix_size rs)) rs), bitmap)"
    "length bitmap = div_ceil8 (length rs)"
    "\<And>j. j < length rs \<Longrightarrow> bitmap_bit bitmap j \<longleftrightarrow> long_record (choose_prefix_size rs) (rs ! j)"
    by (rule pack_block_body_eq [where rs = rs and n = "choose_prefix_size rs"]) (rule that)
  have a': "assemble_packet input (choose_prefix_size rs) (length rs) bitmap
      (concat (map (prefix_part (choose_prefix_size rs)) rs) @ concat (map (overflow_part (choose_prefix_size rs)) rs)) seg
    = Inr data" using a b(1) by simp
  obtain offs where l: "packet_layout input data (choose_prefix_size rs) rs bitmap seg offs"
    using assemble_packet_layout [OF a' refl b(2) _ size] n nonces by auto
  have "drop (offs ! 7) data = seg" using l unfolding packet_layout_def by blast
  then have "length seg < 2 ^ 64" using size by auto
  from encode_records_related [OF r S this] obtain us where
    us: "list_all2 (record_of S input seg) (zip (p_blocks input) payloads) (zip us rs)" "length us = length rs" by blast
  have lp: "length payloads = length (p_blocks input)" by (rule length_encode_payloads [OF p])
  have lr: "length rs = length (p_blocks input)" using list_all2_lengthD [OF us(1)] us(2) lp by simp
  show thesis
  proof (rule that [OF validate_input_groups [OF v] p lp lr _ l b(3)])
    show "length us = length (p_blocks input)" using us(2) lr by simp
    show "record_of S input seg (p_blocks input ! j, payloads ! j) (us ! j, rs ! j)" if "j < length rs" for j
      using list_all2_nthD [OF us(1), of j] that lp lr us(2) by simp
    show "encode_blocks T R S input (index_addresses (p_addresses input)) (index_u256 (p_gas_prices input))
       (sender_nonce_index_of (p_sender_base_nonces input)) (index_u256 (p_difficulties input)) = Inr (rs, seg)"
      using p r by (simp add: encode_blocks_def)
    show "\<exists>body. pack_block_body rs (choose_prefix_size rs) = (body, bitmap) \<and>
       assemble_packet input (choose_prefix_size rs) (length rs) bitmap body seg = Inr data"
      using b(1) a' by blast
  qed
qed

text \<open>The block the decoder returns, and its state before its transactions are decoded.\<close>

definition decoded_block :: "'t block \<Rightarrow> bytes \<Rightarrow> 't list \<times> (nat \<times> nat) option list \<Rightarrow> 't block" where
  "decoded_block b payload out = b\<lparr>b_flags := final_flags (b_flags b) payload,
     b_deferred_state_root := stored_root (b_deferred_state_root b),
     b_deferred_receipts_root := stored_root (b_deferred_receipts_root b),
     b_deferred_logs_bloom_hash := stored_root (b_deferred_logs_bloom_hash b),
     b_transactions := fst out, b_transaction_refs := snd out\<rparr>"

definition bare_block :: "'t block \<Rightarrow> bytes \<Rightarrow> 't block" where
  "bare_block b payload =
     (stored_block b (final_flags (b_flags b) payload) (b_index b))\<lparr>b_epoch := b_epoch b\<rparr>"

lemma record_of_written:
  assumes "record_of S input seg (b, payload) (u, r)"
  obtains w where "written_by b (final_flags (b_flags b) payload) u input (index_addresses (p_addresses input))
      (index_u256 (p_difficulties input)) r w"
  using assms unfolding record_of_def by (auto intro: encode_block_record_written)

lemma decode_block_records_all_map:
  assumes "\<And>j. j < length rs \<Longrightarrow>
    decode_block_record (dr_bytes (rs ! j)) (i + j) mt mh mp pe as ds = Inr (f (i + j))"
  shows "decode_block_records_all rs i mt mh mp pe as ds = Inr (map f [i..<i + length rs])"
  using assms
proof (induction rs arbitrary: i)
  case (Cons r rs)
  have "decode_block_record (dr_bytes r) i mt mh mp pe as ds = Inr (f i)" using Cons.prems [of 0] by simp
  moreover have "decode_block_records_all rs (Suc i) mt mh mp pe as ds = Inr (map f [Suc i..<Suc i + length rs])"
    using Cons.prems [of "Suc _"] by (intro Cons.IH) simp
  moreover have "[i..<i + length (r # rs)] = i # [Suc i..<Suc i + length rs]" by (simp add: upt_rec)
  ultimately show ?case by simp
qed simp

text \<open>What the second loop needs of the record of each block.\<close>

definition payload_stored :: "snap_lib \<Rightarrow> bytes \<Rightarrow> 't block \<times> bytes \<Rightarrow> decoded_record \<Rightarrow> bool" where
  "payload_stored S seg = (\<lambda>(b, payload) r. payload \<noteq> [] \<longrightarrow>
     (\<exists>stored. stored_at seg (dr_tx_offset_units r) stored \<and>
        unpack_payload S (final_flags (b_flags b) payload) stored = Inr payload))"

text \<open>One turn of the second loop, with the transactions of the blocks before in \<open>prev\<close>.\<close>

definition decode_block_txs ::
  "('t, 'acc, 'auth) tx_lib \<Rightarrow> ('r, 'acc, 'auth) rlp_lib \<Rightarrow> snap_lib \<Rightarrow> 't packet \<Rightarrow> bytes \<Rightarrow> nat \<Rightarrow>
   't list list \<Rightarrow> decoded_record \<Rightarrow> 't block \<Rightarrow> 't block pack_result" where
  "decode_block_txs T R S input data tx_off prev r b =
     (if b_flags b AND FLAG_HAS_TRANSACTIONS \<noteq> 0
      then rbind (decode_tx_payload T R S data tx_off (dr_tx_offset_units r) (b_flags b) (b_epoch b)
             (p_addresses input) (p_gas_prices input) (p_sender_base_nonces input) prev) (\<lambda>p.
             Inr (b\<lparr>b_transactions := pl_transactions p, b_transaction_refs := pl_refs p,
                    b_pos_rewards := pl_pos_rewards p, b_unlock_events := pl_unlock_events p\<rparr>))
      else Inr b)"

lemma decode_bare_block:
  assumes seg: "drop tx_off data = seg" "tx_off \<le> length data" "length data < 2 ^ 64"
    and r: "payload_stored S seg (b, payload) r"
  shows "decode_block_txs T R S input data tx_off prev r (bare_block b payload) =
    (if payload = [] then Inr (bare_block b payload)
     else rbind (decode_payload T R (b_epoch b) input prev payload) (\<lambda>p.
       Inr ((bare_block b payload)\<lparr>b_transactions := pl_transactions p, b_transaction_refs := pl_refs p,
              b_pos_rewards := pl_pos_rewards p, b_unlock_events := pl_unlock_events p\<rparr>)))"
proof -
  let ?bare = "bare_block b payload"
  have bare: "b_flags ?bare = final_flags (b_flags b) payload" "b_epoch ?bare = b_epoch b"
    by (simp_all add: bare_block_def stored_block_def)
  have flag: "b_flags ?bare AND FLAG_HAS_TRANSACTIONS \<noteq> 0 \<longleftrightarrow> payload \<noteq> []"
    by (simp add: bare flag_bits final_flags_bits)
  show ?thesis
  proof (cases "payload = []")
    case True
    with flag show ?thesis by (simp add: decode_block_txs_def)
  next
    case False
    then obtain stored where st: "stored_at seg (dr_tx_offset_units r) stored"
      "unpack_payload S (final_flags (b_flags b) payload) stored = Inr payload"
      using r by (auto simp: payload_stored_def)
    have "decode_tx_payload T R S data tx_off (dr_tx_offset_units r) (b_flags ?bare) (b_epoch ?bare)
        (p_addresses input) (p_gas_prices input) (p_sender_base_nonces input) prev =
      decode_payload T R (b_epoch b) input prev payload"
      unfolding decode_tx_payload_def locate_stored [OF st(1) seg] bare decode_payload_def
      by (simp add: st(2))
    with False flag show ?thesis by (simp add: decode_block_txs_def)
  qed
qed

text \<open>
  The blocks that the decoder must return, from the blocks that were encoded; when a reference does
  not resolve in the blocks before, decoding fails there.
\<close>

definition txs_fit :: "('t, 'acc, 'auth) tx_lib \<Rightarrow> 't packet \<Rightarrow> 't block list \<Rightarrow> bool" where
  "txs_fit T input bs \<longleftrightarrow> (\<forall>b \<in> set bs. length (b_transactions b) < 2 ^ 64 \<and>
     (\<forall>tx \<in> set (b_transactions b). tx_encodable T input tx))"

fun refs_fit :: "('t, 'acc, 'auth) tx_lib \<Rightarrow> 't block list \<Rightarrow> seen \<Rightarrow> bool" where
  "refs_fit T [] seen_txs \<longleftrightarrow> True"
| "refs_fit T (b # bs) seen_txs \<longleftrightarrow>
     (let (refs, seen_txs) = tx_refs T b 0 (b_transactions b) seen_txs in refs_small refs \<and> refs_fit T bs seen_txs)"

definition decoded_blocks ::
  "'t block list \<Rightarrow> bytes list \<Rightarrow> ('t list \<times> (nat \<times> nat) option list) list option \<Rightarrow> 't block list pack_result" where
  "decoded_blocks bs payloads ex =
     (case ex of
        Some outs \<Rightarrow> Inr (map2 (\<lambda>(b, payload). decoded_block b payload) (zip bs payloads) outs)
      | None \<Rightarrow> Inl unresolved)"

lemma decode_transactions_encoded:
  fixes input :: "'t packet"
  assumes R: "rlp_repr R repr" and ok: "nonce_table_ok input"
    and seg: "drop tx_off data = seg" "tx_off \<le> length data" "length data < 2 ^ 64"
  shows "encode_payloads T R (index_addresses (p_addresses input)) (index_u256 (p_gas_prices input))
       (sender_nonce_index_of (p_sender_base_nonces input)) bs seen_txs = Inr payloads \<Longrightarrow>
    list_all2 (payload_stored S seg) (zip bs payloads) recs \<Longrightarrow> txs_fit T input bs \<Longrightarrow> refs_fit T bs seen_txs \<Longrightarrow>
    length prev + length bs < 2 ^ 64 \<Longrightarrow> \<forall>xs \<in> set prev. length xs < 2 ^ 64 \<Longrightarrow>
    decode_transactions T R S data tx_off (p_addresses input) (p_gas_prices input) (p_sender_base_nonces input)
      (zip recs (map2 bare_block bs payloads)) prev =
    decoded_blocks bs payloads (expected_blocks T bs seen_txs prev)"
proof (induction bs arbitrary: seen_txs payloads prev recs)
  case Nil
  then show ?case by (simp add: decoded_blocks_def)
next
  case (Cons b bs)
  from Cons.prems(1) obtain payload seen1 payloads' where
    p: "encode_tx_payload T R b (index_addresses (p_addresses input)) (index_u256 (p_gas_prices input))
       (sender_nonce_index_of (p_sender_base_nonces input)) seen_txs = Inr (payload, seen1)"
    "encode_payloads T R (index_addresses (p_addresses input)) (index_u256 (p_gas_prices input))
       (sender_nonce_index_of (p_sender_base_nonces input)) bs seen1 = Inr payloads'"
    and payloads: "payloads = payload # payloads'"
    by (auto simp: rbind_Inr_iff)
  obtain refs seen2 where refs: "tx_refs T b 0 (b_transactions b) seen_txs = (refs, seen2)" by fastforce
  from Cons.prems(2) payloads obtain r recs' where recs: "recs = r # recs'"
    and r: "payload_stored S seg (b, payload) r" and rs: "list_all2 (payload_stored S seg) (zip bs payloads') recs'"
    by (auto simp: list_all2_Cons1)
  have lp: "length prev < 2 ^ 64" using Cons.prems(5) by simp
  have enc: "\<forall>tx \<in> set (b_transactions b). tx_encodable T input tx" using Cons.prems(3) by (simp add: txs_fit_def)
  have small: "refs_small refs" "refs_fit T bs seen2" using Cons.prems(4) refs by simp_all
  let ?bare = "bare_block b payload"
  note bare = decode_bare_block [OF seg r, of T R input prev]
  have step: "decode_transactions T R S data tx_off (p_addresses input) (p_gas_prices input)
      (p_sender_base_nonces input) (zip recs (map2 bare_block (b # bs) payloads)) prev =
    rbind (decode_block_txs T R S input data tx_off prev r ?bare) (\<lambda>b.
      rbind (decode_transactions T R S data tx_off (p_addresses input) (p_gas_prices input)
        (p_sender_base_nonces input) (zip recs' (map2 bare_block bs payloads')) (prev @ [b_transactions b]))
        (\<lambda>bs. Inr (b # bs)))"
    by (simp add: recs payloads decode_block_txs_def)
  show ?case
  proof (cases "those_options (map2 (resolve T prev) (b_transactions b) refs)")
    case None
    from decode_encode_payload_fails [OF R ok lp Cons.prems(6) p(1) enc refs small(1) None]
    have "decode_block_txs T R S input data tx_off prev r ?bare = Inl unresolved" using bare by simp
    then show ?thesis unfolding step using refs None by (simp add: decoded_blocks_def)
  next
    case (Some txs)
    let ?done = "decoded_block b payload (txs, refs)"
    note dec = decode_encode_payload [OF R ok lp Cons.prems(6) p(1) enc refs Some]
    have "length refs = length (b_transactions b)"
      using length_tx_refs [of T b 0 "b_transactions b" seen_txs] refs by simp
    then have "length txs = length (b_transactions b)" using length_those_options [OF Some] by simp
    then have ltx: "length txs < 2 ^ 64" using Cons.prems(3) by (simp add: txs_fit_def)
    have block: "decode_block_txs T R S input data tx_off prev r ?bare = Inr ?done"
    proof (cases "payload = []")
      case True
      with dec have "b_transactions b = []" "b_pos_rewards b = []" "b_unlock_events b = []" "txs = []" "refs = []"
        by (auto split: if_splits)
      then have "?bare = ?done"
        by (simp add: bare_block_def stored_block_def decoded_block_def)
      with True bare show ?thesis by simp
    next
      case False
      have "decode_payload T R (b_epoch b) input prev payload = Inr \<lparr>pl_transactions = txs, pl_refs = refs,
          pl_pos_rewards = b_pos_rewards b, pl_unlock_events = b_unlock_events b\<rparr>"
        using dec False by (auto split: if_splits)
      moreover have "?bare\<lparr>b_transactions := txs, b_transaction_refs := refs,
          b_pos_rewards := b_pos_rewards b, b_unlock_events := b_unlock_events b\<rparr> = ?done"
        by (simp add: bare_block_def stored_block_def decoded_block_def)
      ultimately show ?thesis using False bare by simp
    qed
    have seen: "seen1 = seen2" using dec by simp
    have "decode_transactions T R S data tx_off (p_addresses input) (p_gas_prices input) (p_sender_base_nonces input)
        (zip recs' (map2 bare_block bs payloads')) (prev @ [txs]) =
      decoded_blocks bs payloads' (expected_blocks T bs seen2 (prev @ [txs]))"
      using p(2) Cons.prems(3,5,6) ltx small(2) unfolding seen
      by (intro Cons.IH [OF _ rs]) (simp_all add: txs_fit_def)
    moreover have "b_transactions ?done = txs" by (simp add: decoded_block_def)
    ultimately show ?thesis
      unfolding step block using refs Some
      by (simp add: decoded_blocks_def payloads split: option.split)
  qed
qed

subsection \<open>Packets\<close>

text \<open>
  The packets the format carries: sender indexes are \<open>usize\<close> and name each sender once, the PoS
  base fits the 32 bits of the header, and every block satisfies what its record and its payload
  need.
\<close>

definition packet_ok :: "('t, 'acc, 'auth) tx_lib \<Rightarrow> u64 \<Rightarrow> 't packet \<Rightarrow> bool" where
  "packet_ok T pe input \<longleftrightarrow>
     distinct (map sn_sender_index (p_sender_base_nonces input)) \<and>
     (\<forall>e \<in> set (p_sender_base_nonces input). sn_sender_index e < 2 ^ 64) \<and>
     p_min_pos_height input < 2 ^ 32 \<and>
     (\<forall>b \<in> set (p_blocks input). pos_view_ok (p_min_pos_height input) pe b) \<and>
     txs_fit T input (p_blocks input) \<and> refs_fit T (p_blocks input) Map.empty"

lemma ucast_u32_u64:
  assumes "v < (2 ^ 32 :: u64)"
  shows "(ucast (ucast v :: u32) :: u64) = v"
proof -
  have "unat v < 2 ^ 32" using assms by (simp add: word_less_nat_alt)
  then show ?thesis
    by (simp add: word_unat_eq_iff unsigned_ucast_eq unsigned_take_bit_eq take_bit_nat_eq_self_iff)
qed

text \<open>What decoding the encoding of \<open>input\<close> returns.\<close>

definition decoded_packet ::
  "('t, 'acc, 'auth) tx_lib \<Rightarrow> 't packet \<Rightarrow> bytes list \<Rightarrow> 't packet pack_result" where
  "decoded_packet T input payloads =
     rbind (decoded_blocks (p_blocks input) payloads (expected_blocks T (p_blocks input) Map.empty []))
       (\<lambda>bs. Inr (input\<lparr>p_blocks := bs\<rparr>))"

lemma decode_layout_blocks:
  fixes input :: "'t packet"
  assumes lengths: "length payloads = length (p_blocks input)" "length rs = length (p_blocks input)"
    and v: "validate_groups 0 (p_blocks input) = Inr ()"
    and rec: "\<And>j. j < length rs \<Longrightarrow> record_of S input seg (p_blocks input ! j, payloads ! j) (us ! j, rs ! j)"
    and sizes: "length (p_addresses input) < 2 ^ 64" "length (p_difficulties input) < 2 ^ 64"
    and pos: "\<forall>b \<in> set (p_blocks input). pos_view_ok (p_min_pos_height input) pe b"
  shows "rbind (decode_block_records_all
      (map (\<lambda>j. \<lparr>dr_bytes = padded n (rs ! j), dr_tx_offset_units = us ! j\<rparr>) [0..<length rs]) 0
      (p_min_timestamp input) (p_min_height input) (p_min_pos_height input) pe (p_addresses input)
      (p_difficulties input)) assign_epoch_from_pivots = Inr (map2 bare_block (p_blocks input) payloads)"
proof -
  let ?bs = "p_blocks input"
  let ?st = "\<lambda>j. stored_block (?bs ! j) (final_flags (b_flags (?bs ! j)) (payloads ! j)) j"
  let ?recs = "map (\<lambda>j. \<lparr>dr_bytes = padded n (rs ! j), dr_tx_offset_units = us ! j\<rparr>) [0..<length rs]"
  have "decode_block_records_all ?recs 0 (p_min_timestamp input) (p_min_height input) (p_min_pos_height input) pe
      (p_addresses input) (p_difficulties input) = Inr (map ?st [0..<0 + length ?recs])"
  proof (rule decode_block_records_all_map)
    fix j assume j: "j < length ?recs"
    obtain w where "written_by (?bs ! j) (final_flags (b_flags (?bs ! j)) (payloads ! j)) (us ! j) input
        (index_addresses (p_addresses input)) (index_u256 (p_difficulties input)) (rs ! j) w"
      using j by (auto intro: record_of_written [OF rec])
    from decode_written [OF this prefix_padded [of "rs ! j" n] sizes, of pe j] pos j lengths
    show "decode_block_record (dr_bytes (?recs ! j)) (0 + j) (p_min_timestamp input) (p_min_height input)
        (p_min_pos_height input) pe (p_addresses input) (p_difficulties input) = Inr (?st (0 + j))"
      by simp
  qed
  moreover have "assign_epoch_from_pivots (map ?st [0..<length rs]) =
      Inr (map2 (\<lambda>b c. c\<lparr>b_epoch := b_epoch b\<rparr>) ?bs (map ?st [0..<length rs]))"
    and index: "\<forall>i < length ?bs. b_index (?bs ! i) = i"
  proof -
    have "list_all2 (\<lambda>b c. is_pivot b = is_pivot c \<and> b_height b = b_height c) ?bs (map ?st [0..<length rs])"
      using lengths by (auto simp: list_all2_conv_all_nth stored_block_def is_pivot_def flag_bits final_flags_bits)
    from assign_epoch_validated [OF v this]
    show "assign_epoch_from_pivots (map ?st [0..<length rs]) =
        Inr (map2 (\<lambda>b c. c\<lparr>b_epoch := b_epoch b\<rparr>) ?bs (map ?st [0..<length rs]))"
      "\<forall>i < length ?bs. b_index (?bs ! i) = i" by simp_all
  qed
  moreover have "map2 (\<lambda>b c. c\<lparr>b_epoch := b_epoch b\<rparr>) ?bs (map ?st [0..<length rs]) = map2 bare_block ?bs payloads"
    using lengths index by (intro nth_equalityI) (simp_all add: bare_block_def)
  ultimately show ?thesis by simp
qed

lemma decode_encode_packet:
  fixes input :: "'t packet"
  assumes enc: "encode_packet T R S input = Inr data" and size: "length data < 2 ^ 64"
    and libs: "rlp_law R" "snap_law S" and ok: "packet_ok T pe input"
    and p: "encode_payloads T R (index_addresses (p_addresses input)) (index_u256 (p_gas_prices input))
       (sender_nonce_index_of (p_sender_base_nonces input)) (p_blocks input) Map.empty = Inr payloads"
  shows "decode_packet_ext T R S data pe = decoded_packet T input payloads"
proof -
  from libs(1) obtain repr where R: "rlp_repr R repr" by (auto simp: rlp_law_def)
  have nonces: "\<forall>e \<in> set (p_sender_base_nonces input). sn_sender_index e < 2 ^ 64"
    using ok by (simp add: packet_ok_def)
  obtain payloads' rs us seg offs bitmap where
    v: "validate_groups 0 (p_blocks input) = Inr ()"
    and p': "encode_payloads T R (index_addresses (p_addresses input)) (index_u256 (p_gas_prices input))
       (sender_nonce_index_of (p_sender_base_nonces input)) (p_blocks input) Map.empty = Inr payloads'"
    and lengths: "length payloads' = length (p_blocks input)" "length rs = length (p_blocks input)"
    "length us = length (p_blocks input)"
    and layout: "packet_layout input data (choose_prefix_size rs) rs bitmap seg offs"
    and bitmap: "\<And>j. j < length rs \<Longrightarrow> bitmap_bit bitmap j \<longleftrightarrow> long_record (choose_prefix_size rs) (rs ! j)"
    and rec: "\<And>j. j < length rs \<Longrightarrow> record_of S input seg (p_blocks input ! j, payloads' ! j) (us ! j, rs ! j)"
    by (rule encoded_packet [OF enc libs(2) size nonces]) (rule that)
  let ?n = "choose_prefix_size rs"
  let ?recs = "map (\<lambda>j. \<lparr>dr_bytes = padded ?n (rs ! j), dr_tx_offset_units = us ! j\<rparr>) [0..<length rs]"
  have pp: "payloads' = payloads" using p p' by simp
  note valid = choose_prefix_size_valid [of rs]
  note n = valid_prefix_size_bounds [OF valid]
  then have n256: "?n < 256" by simp
  note head = layout_header [OF layout n256]
  note sizes = layout_table_lengths [OF layout size]
  have body: "body_in data (offs ! 6) ?n rs (offs ! 7)" and seg: "drop (offs ! 7) data = seg"
    and count: "read_u32_le data (offs ! 5) = Inr (of_nat (length rs))" "length rs < 2 ^ 32"
    and bm: "slice_of data (offs ! 5 + 4) (offs ! 5 + 4 + div_ceil8 (length rs)) = Inr bitmap"
    and table: "read_offsets data = Inr offs" "ensure_offsets offs (length data) = Inr ()"
     "rbind (slice_of data (offs ! 0) (offs ! 1)) decode_addresses = Inr (p_addresses input)"
     "rbind (slice_of data (offs ! 1) (offs ! 2)) decode_pos_entries = Inr (p_pos_entries input)"
     "rbind (slice_of data (offs ! 2) (offs ! 3)) decode_u256_table = Inr (p_difficulties input)"
     "rbind (slice_of data (offs ! 3) (offs ! 4)) decode_sender_base_nonces = Inr (p_sender_base_nonces input)"
     "rbind (slice_of data (offs ! 4) (offs ! 5)) decode_u256_table = Inr (p_gas_prices input)"
    using layout unfolding packet_layout_def by blast+
  have tx_off: "offs ! 7 \<le> length data" "offs ! 6 + length rs * ?n \<le> offs ! 7"
    using body by (auto simp: body_in_def mult.commute)
  have peek: "peek_tx_offset_units (padded ?n (rs ! j)) = Inr (us ! j)" if "j < length rs" for j
    by (rule record_of_written [OF rec [OF that]]) (rule peek_written [OF _ prefix_padded])
  have records: "decode_block_records data (offs ! 5) (offs ! 6) (offs ! 7) ?n = Inr ?recs"
  proof -
    have "decode_records_from data (offs ! 6) (offs ! 7) ?n bitmap 0 (overflow_at (offs ! 6) ?n rs 0) (length rs) = Inr ?recs"
      by (rule decode_records_from_body [OF body bitmap peek]) simp_all
    then have "decode_records_from data (offs ! 6) (offs ! 7) ?n bitmap 0 (offs ! 6 + length rs * ?n) (length rs) = Inr ?recs"
      by (simp add: mult.commute)
    moreover have "length rs * ?n < 2 ^ 64" using tx_off size by linarith
    ultimately show ?thesis
      unfolding decode_block_records_def count(1) rbind_simps Let_def unat_of_nat_u32 [OF count(2)] bm
      using tx_off(2) by simp
  qed
  have blocks: "rbind (decode_block_records_all ?recs 0 (p_min_timestamp input) (p_min_height input)
      (p_min_pos_height input) pe (p_addresses input) (p_difficulties input)) assign_epoch_from_pivots =
      Inr (map2 bare_block (p_blocks input) payloads)"
    using ok by (intro decode_layout_blocks [OF lengths(1,2) [unfolded pp] v rec [unfolded pp] sizes(1,2)])
      (simp_all add: packet_ok_def)
  have nt: "nonce_table_ok input" using ok sizes by (simp add: packet_ok_def nonce_table_ok_def)
  have txs: "decode_transactions T R S data (offs ! 7) (p_addresses input) (p_gas_prices input)
      (p_sender_base_nonces input) (zip ?recs (map2 bare_block (p_blocks input) payloads)) [] =
    decoded_blocks (p_blocks input) payloads (expected_blocks T (p_blocks input) Map.empty [])"
  proof (rule decode_transactions_encoded [OF R nt seg tx_off(1) size p])
    show "list_all2 (payload_stored S seg) (zip (p_blocks input) payloads) ?recs"
      using rec lengths unfolding pp
      by (auto simp: list_all2_conv_all_nth payload_stored_def record_of_def split: prod.splits)
    show "length [] + length (p_blocks input) < (2::nat) ^ 64" using count(2) lengths(2) by simp
  qed (use ok in \<open>simp_all add: packet_ok_def\<close>)
  have mp: "(ucast (ucast (p_min_pos_height input) :: u32) :: u64) = p_min_pos_height input"
    using ok by (intro ucast_u32_u64) (simp add: packet_ok_def)
  obtain bs where bs: "decode_block_records_all ?recs 0 (p_min_timestamp input) (p_min_height input)
      (p_min_pos_height input) pe (p_addresses input) (p_difficulties input) = Inr bs"
    "assign_epoch_from_pivots bs = Inr (map2 bare_block (p_blocks input) payloads)"
    using blocks by (auto simp: rbind_Inr_iff)
  have e: "ensure (HEADER_LEN \<le> length data) x = Inr ()" for x :: pack_failure using head(1) by simp
  have eq: "\<lparr>p_prev_last_hash = p_prev_last_hash input,
      p_prev_last_deferred_state_root = p_prev_last_deferred_state_root input,
      p_first_block_number = p_first_block_number input, p_min_timestamp = p_min_timestamp input,
      p_min_height = p_min_height input, p_min_pos_height = p_min_pos_height input,
      p_addresses = p_addresses input, p_pos_entries = p_pos_entries input, p_difficulties = p_difficulties input,
      p_sender_base_nonces = p_sender_base_nonces input, p_gas_prices = p_gas_prices input,
      p_blocks = bs\<rparr> = input\<lparr>p_blocks := bs\<rparr>" for bs by (cases input) simp
  show ?thesis
    unfolding decode_packet_ext_def e head(2-7) head(9) rbind_simps Let_def mp table records bs txs eq
    by (simp add: valid decoded_packet_def)
qed

end
