(* ===== verification/Packet_Agreement.thy ===== *)
theory Packet_Agreement
  imports Packet_Roundtrip
begin

text \<open>
  The other readers of a packet: the structural verifier accepts what the encoder wrote and counts
  it right, and \<open>block_flag_sites\<close> finds the flags byte of every block.
\<close>

subsection \<open>Payloads as the verifier sees them\<close>

definition item_count :: "'t block \<Rightarrow> nat" where
  "item_count b = length (b_transactions b) + length (b_pos_rewards b) + length (b_unlock_events b)"

lemma item_count_0: "item_count b = 0 \<longleftrightarrow> b_transactions b = [] \<and> b_pos_rewards b = [] \<and> b_unlock_events b = []"
  by (simp add: item_count_def)

definition payload_counted :: "('r, 'acc, 'auth) rlp_lib \<Rightarrow> 't block \<Rightarrow> bytes \<Rightarrow> bool" where
  "payload_counted R b payload \<longleftrightarrow>
     (if item_count b = 0 then payload = []
      else payload \<noteq> [] \<and> rlp_item_count R (rlp_new R payload) = Inr (item_count b))"

lemma encode_tx_payload_items:
  assumes "rlp_repr R repr" "encode_tx_payload T R b ai gi ni s = Inr (payload, s')"
  shows "payload_counted R b payload"
proof (cases "item_count b = 0")
  case True
  with assms(2) show ?thesis by (simp add: payload_counted_def encode_tx_payload_def item_count_0)
next
  case False
  with assms(2) obtain items where items: "encode_txs T b ai gi ni 0 (b_transactions b) s = Inr (items, s')"
    and payload: "payload = rlp_out R (Rlp_list (item_count b) (items @ map encode_pos_reward (b_pos_rewards b)
      @ map encode_unlock_event (b_unlock_events b)))"
    by (auto simp: encode_tx_payload_def rbind_Inr_iff item_count_def split: if_splits)
  let ?all = "items @ map encode_pos_reward (b_pos_rewards b) @ map encode_unlock_event (b_unlock_events b)"
  have len: "length ?all = item_count b" using encode_txs_shape [OF items] by (simp add: item_count_def)
  then have wf: "rlp_wf (Rlp_list (item_count b) ?all)"
    using encode_txs_shape [OF items]
    by (simp only: rlp_wf.simps) (auto simp: list_all_iff encode_pos_reward_wf encode_unlock_wf)
  have "rlp_item_count R (rlp_new R payload) = Inr (length ?all)"
    unfolding payload by (rule repr_count [OF assms(1) repr_new [OF assms(1) wf]])
  moreover have "payload \<noteq> []" unfolding payload by (rule repr_out [OF assms(1) wf])
  ultimately show ?thesis using False len by (simp add: payload_counted_def)
qed

lemma encode_payloads_items:
  assumes "rlp_repr R repr"
  shows "encode_payloads T R ai gi ni bs s = Inr payloads \<Longrightarrow> j < length bs \<Longrightarrow>
    payload_counted R (bs ! j) (payloads ! j)"
proof (induction bs arbitrary: s payloads j)
  case (Cons b bs)
  from Cons.prems(1) obtain p s1 ps where p: "encode_tx_payload T R b ai gi ni s = Inr (p, s1)"
    "encode_payloads T R ai gi ni bs s1 = Inr ps" "payloads = p # ps"
    by (auto simp: rbind_Inr_iff)
  show ?case
    using encode_tx_payload_items [OF assms p(1)] Cons.IH [OF p(2)] Cons.prems(2) p(3)
    by (cases j) simp_all
qed simp

subsection \<open>The verifier\<close>

lemma count_items_stored:
  assumes w: "written_by b f u input ai di r w" and st: "stored_at seg u stored"
    and unpack: "unpack_payload S f stored = Inr payload"
    and seg: "drop tx_off data = seg" "tx_off \<le> length data" "length data < 2 ^ 64"
    and items: "rlp_item_count R (rlp_new R payload) = Inr k"
  shows "count_items R S data f (padded n r) tx_off = Inr k"
proof -
  have "count_items R S data f (padded n r) tx_off =
      rbind (locate_payload data tx_off u) (\<lambda>payload. rbind (unpack_payload S f payload)
        (\<lambda>decoded. rlp_item_count R (rlp_new R decoded)))"
    unfolding count_items_def tx_offset_units_written [OF w prefix_padded] locate_payload_def unpack_payload_def
    by (auto simp: rbind_def Let_def split: sum.splits prod.splits)
  then show ?thesis by (simp add: locate_stored [OF st seg] unpack items)
qed

lemma padded_flags:
  assumes "written_by b f u input ai di r w"
  shows "45 \<le> length (padded n r)" "padded n r ! 44 = f"
  using record_head_parts [OF written_prefix(2) [OF assms prefix_padded]] by simp_all

lemma count_transactions_encoded:
  assumes R: "rlp_repr R repr" and seg: "drop tx_off data = seg" "tx_off \<le> length data" "length data < 2 ^ 64"
  shows "length us = length bs \<Longrightarrow> length rs = length bs \<Longrightarrow> length payloads = length bs \<Longrightarrow>
    (\<And>j. j < length bs \<Longrightarrow> record_of S input seg (bs ! j, payloads ! j) (us ! j, rs ! j)) \<Longrightarrow>
    (\<And>j. j < length bs \<Longrightarrow> payload_counted R (bs ! j) (payloads ! j)) \<Longrightarrow>
    count_transactions_from R S data (map (padded n) rs) tx_off blocks items =
      Inr (blocks + of_nat (length (filter (\<lambda>b. item_count b \<noteq> 0) bs)),
           items + of_nat (sum_list (map item_count bs)))"
proof (induction bs arbitrary: us rs payloads blocks items)
  case Nil
  then show ?case by simp
next
  case (Cons b bs)
  from Cons.prems(1-3) obtain u us' r rs' p ps' where
    l: "us = u # us'" "rs = r # rs'" "payloads = p # ps'"
    "length us' = length bs" "length rs' = length bs" "length ps' = length bs"
    by (auto simp: length_Suc_conv)
  have rec: "record_of S input seg (b, p) (u, r)" using Cons.prems(4) [of 0] l by simp
  have its: "payload_counted R b p" using Cons.prems(5) [of 0] l by simp
  have IH: "count_transactions_from R S data (map (padded n) rs') tx_off k m =
      Inr (k + of_nat (length (filter (\<lambda>b. item_count b \<noteq> 0) bs)), m + of_nat (sum_list (map item_count bs)))" for k m
    using Cons.prems(4) [of "Suc _"] Cons.prems(5) [of "Suc _"] l by (intro Cons.IH [OF l(4-6)]) simp_all
  obtain w where w: "written_by b (final_flags (b_flags b) p) u input (index_addresses (p_addresses input))
      (index_u256 (p_difficulties input)) r w" by (rule record_of_written [OF rec])
  have flag: "padded n r ! 44 AND FLAG_HAS_TRANSACTIONS \<noteq> 0 \<longleftrightarrow> p \<noteq> []"
    unfolding padded_flags [OF w] flag_bits final_flags_bits ..
  show ?case
  proof (cases "item_count b = 0")
    case True
    with its flag IH padded_flags(1) [OF w] show ?thesis by (simp add: l payload_counted_def)
  next
    case False
    with its obtain stored where "stored_at seg u stored"
      "unpack_payload S (final_flags (b_flags b) p) stored = Inr p" using rec by (auto simp: record_of_def payload_counted_def)
    moreover have "rlp_item_count R (rlp_new R p) = Inr (item_count b)"
      using its False by (simp add: payload_counted_def)
    ultimately have "count_items R S data (padded n r ! 44) (padded n r) tx_off = Inr (item_count b)"
      unfolding padded_flags(2) [OF w] by (intro count_items_stored [OF w _ _ seg])
    with False its flag IH padded_flags(1) [OF w] show ?thesis by (simp add: l payload_counted_def add.assoc)
  qed
qed

lemma verify_encode_packet:
  fixes input :: "'t packet"
  assumes enc: "encode_packet T R S input = Inr data" and size: "length data < 2 ^ 64"
    and libs: "rlp_law R" "snap_law S"
    and nonces: "\<forall>e \<in> set (p_sender_base_nonces input). sn_sender_index e < 2 ^ 64"
  shows "\<exists>n. valid_prefix_size n \<and> verify_packet R S data = Inr
    \<lparr>vr_packet_bytes = length data, vr_first_block_number = p_first_block_number input,
     vr_min_timestamp = p_min_timestamp input, vr_min_height = p_min_height input,
     vr_min_pos_height = ucast (p_min_pos_height input), vr_block_prefix_size = of_nat n,
     vr_block_count = of_nat (length (p_blocks input)),
     vr_transaction_blocks = of_nat (length (filter (\<lambda>b. item_count b \<noteq> 0) (p_blocks input))),
     vr_transaction_items = of_nat (sum_list (map item_count (p_blocks input)))\<rparr>"
proof -
  from libs(1) obtain repr where R: "rlp_repr R repr" by (auto simp: rlp_law_def)
  obtain payloads rs us seg offs bitmap where
    p: "encode_payloads T R (index_addresses (p_addresses input)) (index_u256 (p_gas_prices input))
       (sender_nonce_index_of (p_sender_base_nonces input)) (p_blocks input) Map.empty = Inr payloads"
    and lengths: "length payloads = length (p_blocks input)" "length rs = length (p_blocks input)"
    "length us = length (p_blocks input)"
    and layout: "packet_layout input data (choose_prefix_size rs) rs bitmap seg offs"
    and bitmap: "\<And>j. j < length rs \<Longrightarrow> bitmap_bit bitmap j \<longleftrightarrow> long_record (choose_prefix_size rs) (rs ! j)"
    and rec: "\<And>j. j < length rs \<Longrightarrow> record_of S input seg (p_blocks input ! j, payloads ! j) (us ! j, rs ! j)"
    by (rule encoded_packet [OF enc libs(2) size nonces]) (rule that)
  define n where "n = choose_prefix_size rs"
  have valid: "valid_prefix_size n" unfolding n_def by (rule choose_prefix_size_valid)
  have n256: "n < 256" using valid_prefix_size_bounds [OF valid] by simp
  note layout = layout [folded n_def] and bitmap = bitmap [folded n_def]
  note head = layout_header [OF layout n256]
  have body: "body_in data (offs ! 6) n rs (offs ! 7)" and seg: "drop (offs ! 7) data = seg"
    and count: "read_u32_le data (offs ! 5) = Inr (of_nat (length rs))" "length rs < 2 ^ 32"
    and bm: "slice_of data (offs ! 5 + 4) (offs ! 5 + 4 + div_ceil8 (length rs)) = Inr bitmap"
    and table: "read_offsets data = Inr offs" "ensure_offsets offs (length data) = Inr ()"
    and place: "offs ! 5 + 4 + div_ceil8 (length rs) \<le> offs ! 6" "offs ! 5 mod 32 = 0" "offs ! 7 mod 64 = 0"
    using layout unfolding packet_layout_def by blast+
  have off: "offs ! 7 \<le> length data" "offs ! 6 + length rs * n \<le> offs ! 7"
    using body by (auto simp: body_in_def mult.commute)
  then have small: "length rs * n < 2 ^ 64" "offs ! 5 + 4 \<le> length data" using size place(1) by linarith+
  have "collect_records_from data (offs ! 6) (offs ! 7) n bitmap 0 (overflow_at (offs ! 6) n rs 0) (length rs) =
      Inr (map (\<lambda>j. padded n (rs ! j)) [0..<length rs], overflow_at (offs ! 6) n rs (length rs))"
    by (rule collect_records_from_body [OF body bitmap]) simp_all
  moreover have "map (\<lambda>j. padded n (rs ! j)) [0..<length rs] = map (padded n) rs"
    by (rule nth_equalityI) simp_all
  moreover have "overflow_at (offs ! 6) n rs 0 = offs ! 6 + length rs * n" by (simp add: mult.commute)
  ultimately have collect: "collect_block_records data (offs ! 6) (offs ! 7) (length rs) n bitmap = Inr (map (padded n) rs)"
    using overflow_at_bound [OF body, of "length rs"] by (simp only: collect_block_records_def) simp
  have counts: "count_transactions R S data (map (padded n) rs) (offs ! 7) =
      Inr (of_nat (length (filter (\<lambda>b. item_count b \<noteq> 0) (p_blocks input))), of_nat (sum_list (map item_count (p_blocks input))))"
    using count_transactions_encoded [OF R seg off(1) size lengths(3,2,1) rec [unfolded lengths(2)]
      encode_payloads_items [OF R p], where n = n and blocks = 0 and items = 0]
    by (simp add: count_transactions_def)
  have e: "ensure (HEADER_LEN \<le> length data) x = Inr ()" for x :: pack_failure using head(1) by simp
  have "verify_packet R S data = Inr
    \<lparr>vr_packet_bytes = length data, vr_first_block_number = p_first_block_number input,
     vr_min_timestamp = p_min_timestamp input, vr_min_height = p_min_height input,
     vr_min_pos_height = ucast (p_min_pos_height input), vr_block_prefix_size = of_nat n,
     vr_block_count = of_nat (length (p_blocks input)),
     vr_transaction_blocks = of_nat (length (filter (\<lambda>b. item_count b \<noteq> 0) (p_blocks input))),
     vr_transaction_items = of_nat (sum_list (map item_count (p_blocks input)))\<rparr>"
    unfolding verify_packet_def e head(4-7) head(9) rbind_simps Let_def table count(1)
      unat_of_nat_u32 [OF count(2)] bm collect counts head(8) lengths(2) [symmetric]
    using valid place off small by (simp add: collect counts unat_of_nat_u8 [OF n256])
  with valid show ?thesis by blast
qed

end
