(* ===== verification/Packet_Plain.thy ===== *)
theory Packet_Plain
  imports Packet_Agreement
begin

text \<open>
  Packets without references from the caller: the encoder finds the duplicates by hash. When no
  block holds a hash twice, every reference resolves and the decoder returns every transaction.
\<close>

definition plain_block :: "('t, 'acc, 'auth) tx_lib \<Rightarrow> 't block \<Rightarrow> bool" where
  "plain_block T b \<longleftrightarrow> (b_transactions b = [] \<or> length (b_transaction_refs b) \<noteq> length (b_transactions b)) \<and>
     distinct (map (tl_hash T) (b_transactions b))"

lemma tx_refs_plain:
  assumes "length (b_transaction_refs b) \<noteq> length (b_transactions b)"
  shows "distinct (map (tl_hash T) txs) \<Longrightarrow>
    fst (tx_refs T b i txs s) = map (\<lambda>tx. s (tl_hash T tx)) txs \<and>
    (\<forall>h. snd (tx_refs T b i txs s) h =
       (if s h = None then map_option (\<lambda>k. (b_index b, i + k)) (first_index (\<lambda>tx. tl_hash T tx = h) txs) else s h))"
proof (induction txs arbitrary: i s)
  case (Cons tx txs)
  let ?h = "tl_hash T tx"
  let ?s = "if s ?h = None then s(?h \<mapsto> (b_index b, i)) else s"
  have step: "tx_refs T b i (tx # txs) s = (s ?h # fst (tx_refs T b (Suc i) txs ?s), snd (tx_refs T b (Suc i) txs ?s))"
    using assms by (cases "s ?h") (simp_all add: Let_def split: prod.splits)
  have IH: "fst (tx_refs T b (Suc i) txs ?s) = map (\<lambda>tx. ?s (tl_hash T tx)) txs"
    "\<And>h. snd (tx_refs T b (Suc i) txs ?s) h = (if ?s h = None
       then map_option (\<lambda>k. (b_index b, Suc i + k)) (first_index (\<lambda>tx. tl_hash T tx = h) txs) else ?s h)"
    using Cons.IH [of "Suc i" ?s] Cons.prems by simp_all
  have "map (\<lambda>tx. ?s (tl_hash T tx)) txs = map (\<lambda>tx. s (tl_hash T tx)) txs"
    using Cons.prems by (intro map_cong) (auto simp: image_iff)
  moreover have "snd (tx_refs T b (Suc i) txs ?s) h = (if s h = None
      then map_option (\<lambda>k. (b_index b, i + k)) (first_index (\<lambda>tx. tl_hash T tx = h) (tx # txs)) else s h)" for h
    unfolding IH(2) by (auto simp: option.map_comp comp_def split: option.splits)
  ultimately show ?case unfolding step IH(1) by simp
qed simp

text \<open>Every hash that was seen stands for a transaction of an earlier block.\<close>

definition seen_ok :: "('t, 'acc, 'auth) tx_lib \<Rightarrow> 't set \<Rightarrow> seen \<Rightarrow> 't list list \<Rightarrow> bool" where
  "seen_ok T A s prev \<longleftrightarrow> (\<forall>h i j. s h = Some (i, j) \<longrightarrow>
     i < length prev \<and> (\<exists>tx \<in> A. tl_hash T tx = h \<and> get_ref prev i j = Some (canonical_tx T tx)))"

lemma seen_okD:
  "seen_ok T A s prev \<Longrightarrow> s h = Some (i, j) \<Longrightarrow>
     i < length prev \<and> (\<exists>tx \<in> A. tl_hash T tx = h \<and> get_ref prev i j = Some (canonical_tx T tx))"
  unfolding seen_ok_def by blast

lemma seen_ok_resolve:
  assumes "seen_ok T A s prev" "inj_on (tl_hash T) A" "tx \<in> A"
  shows "resolve T prev tx (s (tl_hash T tx)) = Some (canonical_tx T tx)"
proof (cases "s (tl_hash T tx)")
  case (Some ij)
  obtain i j where ij: "ij = (i, j)" by (cases ij)
  from seen_okD [OF assms(1) Some [unfolded ij]] obtain tx' where "tx' \<in> A" "tl_hash T tx' = tl_hash T tx"
    "get_ref prev i j = Some (canonical_tx T tx')" by blast
  moreover from this assms(2,3) have "tx' = tx" by (auto dest: inj_onD)
  ultimately show ?thesis using Some ij by (simp add: resolve_def)
qed (simp add: resolve_def)

lemma get_ref_append: "i < length prev \<Longrightarrow> get_ref (prev @ [txs]) i j = get_ref prev i j"
  by (simp add: get_ref_def nth_append)

lemma seen_ok_append: "seen_ok T A s prev \<Longrightarrow> seen_ok T A s (prev @ [txs])"
  unfolding seen_ok_def by (metis get_ref_append length_append less_SucI length_append_singleton)

lemma plain_block_step:
  assumes ok: "seen_ok T A s prev" and inj: "inj_on (tl_hash T) A" and b: "plain_block T b"
    and sub: "set (b_transactions b) \<subseteq> A" and index: "b_index b = length prev"
  obtains refs s' where "tx_refs T b 0 (b_transactions b) s = (refs, s')"
    "those_options (map2 (resolve T prev) (b_transactions b) refs) = Some (map (canonical_tx T) (b_transactions b))"
    "seen_ok T A s' (prev @ [map (canonical_tx T) (b_transactions b)])"
    "\<forall>r \<in> set refs. \<forall>i j. r = Some (i, j) \<longrightarrow> i < length prev \<and> (\<exists>xs \<in> set prev. j < length xs)"
proof (cases "b_transactions b = []")
  case True
  with that [of "[]" s] seen_ok_append [OF ok] show ?thesis by simp
next
  case False
  let ?txs = "b_transactions b"
  let ?refs = "map (\<lambda>tx. s (tl_hash T tx)) ?txs"
  define s' where "s' = snd (tx_refs T b 0 ?txs s)"
  from False b have er: "length (b_transaction_refs b) \<noteq> length ?txs" and d: "distinct (map (tl_hash T) ?txs)"
    by (simp_all add: plain_block_def)
  note refs = tx_refs_plain [OF er d, of 0 s]
  have pair: "tx_refs T b 0 ?txs s = (?refs, s')" using refs by (simp add: s'_def prod_eq_iff)
  have "map2 (resolve T prev) ?txs ?refs = map (\<lambda>tx. resolve T prev tx (s (tl_hash T tx))) ?txs"
    by (simp add: zip_map2 zip_same_conv_map)
  also have "\<dots> = map (\<lambda>tx. Some (canonical_tx T tx)) ?txs"
    using seen_ok_resolve [OF ok inj] sub by (intro map_cong) auto
  finally have res: "those_options (map2 (resolve T prev) ?txs ?refs) = Some (map (canonical_tx T) ?txs)" by simp
  have "seen_ok T A s' (prev @ [map (canonical_tx T) ?txs])"
    unfolding seen_ok_def
  proof (intro allI impI)
    fix h i j assume h: "s' h = Some (i, j)"
    show "i < length (prev @ [map (canonical_tx T) ?txs]) \<and> (\<exists>tx \<in> A. tl_hash T tx = h \<and>
        get_ref (prev @ [map (canonical_tx T) ?txs]) i j = Some (canonical_tx T tx))"
    proof (cases "s h")
      case None
      with h refs obtain k where k: "first_index (\<lambda>tx. tl_hash T tx = h) ?txs = Some k" "i = b_index b" "j = k"
        by (auto simp: s'_def)
      then have "k < length ?txs" "tl_hash T (?txs ! k) = h" by (auto simp: first_index_Some)
      moreover from this sub have "?txs ! k \<in> A" by auto
      ultimately show ?thesis using k(2,3) index
        by (intro conjI bexI [of _ "?txs ! k"]) (simp_all add: get_ref_def nth_append)
    next
      case (Some ij)
      with h refs have "s h = Some (i, j)" by (simp add: s'_def)
      then show ?thesis using seen_ok_append [OF ok] unfolding seen_ok_def by blast
    qed
  qed
  moreover have "i < length prev \<and> (\<exists>xs \<in> set prev. j < length xs)" if "r \<in> set ?refs" "r = Some (i, j)" for r i j
  proof -
    from that obtain tx where "s (tl_hash T tx) = Some (i, j)" by auto
    from seen_okD [OF ok this] have "i < length prev" "get_ref prev i j \<noteq> None" by auto
    then show ?thesis by (auto simp: get_ref_def split: if_splits)
  qed
  ultimately show ?thesis using that [OF pair res] by blast
qed

lemma expected_plain:
  assumes inj: "inj_on (tl_hash T) A"
  shows "seen_ok T A s prev \<Longrightarrow> \<forall>b \<in> set bs. plain_block T b \<and> set (b_transactions b) \<subseteq> A \<and>
      length (b_transactions b) < 2 ^ 64 \<Longrightarrow>
    \<forall>k < length bs. b_index (bs ! k) = length prev + k \<Longrightarrow> length prev + length bs < 2 ^ 64 \<Longrightarrow>
    \<forall>xs \<in> set prev. length xs < 2 ^ 64 \<Longrightarrow>
    refs_fit T bs s \<and> (\<exists>ex. expected_blocks T bs s prev = Some ex \<and>
      map fst ex = map (\<lambda>b. map (canonical_tx T) (b_transactions b)) bs)"
proof (induction bs arbitrary: s prev)
  case (Cons b bs)
  let ?out = "map (canonical_tx T) (b_transactions b)"
  have "b_index b = length prev" using Cons.prems(3) by auto
  then obtain refs s' where step: "tx_refs T b 0 (b_transactions b) s = (refs, s')"
    "those_options (map2 (resolve T prev) (b_transactions b) refs) = Some ?out"
    "seen_ok T A s' (prev @ [?out])"
    "\<forall>r \<in> set refs. \<forall>i j. r = Some (i, j) \<longrightarrow> i < length prev \<and> (\<exists>xs \<in> set prev. j < length xs)"
    using plain_block_step [OF Cons.prems(1) inj, of b] Cons.prems(2) by (metis list.set_intros(1))
  have "refs_small refs"
    unfolding refs_small_def
  proof (intro allI impI)
    fix i j assume "Some (i, j) \<in> set refs"
    with step(4) obtain xs where "i < length prev" "xs \<in> set prev" "j < length xs" by blast
    with Cons.prems(4,5) show "i < 2 ^ 64 \<and> j < 2 ^ 64" by (auto intro: less_trans)
  qed
  moreover have "b_index (bs ! k) = length (prev @ [?out]) + k" if "k < length bs" for k
    using Cons.prems(3) [rule_format, of "Suc k"] that by simp
  then have "refs_fit T bs s' \<and> (\<exists>ex. expected_blocks T bs s' (prev @ [?out]) = Some ex \<and>
      map fst ex = map (\<lambda>b. map (canonical_tx T) (b_transactions b)) bs)"
    using Cons.prems(2,4,5) by (intro Cons.IH [OF step(3)]) auto
  ultimately show ?case using step(1,2) by auto
qed simp

definition plain_packet :: "('t, 'acc, 'auth) tx_lib \<Rightarrow> 't packet \<Rightarrow> bool" where
  "plain_packet T input \<longleftrightarrow> (\<forall>b \<in> set (p_blocks input). plain_block T b) \<and>
     inj_on (tl_hash T) (\<Union>b \<in> set (p_blocks input). set (b_transactions b))"

text \<open>How a block comes back: its flags describe its payload, and its roots have 4 bytes.\<close>

definition returned :: "('t, 'acc, 'auth) tx_lib \<Rightarrow> 't block \<Rightarrow> 't block \<Rightarrow> bool" where
  "returned T b c \<longleftrightarrow> c = b\<lparr>b_flags := b_flags c,
       b_deferred_state_root := stored_root (b_deferred_state_root b),
       b_deferred_receipts_root := stored_root (b_deferred_receipts_root b),
       b_deferred_logs_bloom_hash := stored_root (b_deferred_logs_bloom_hash b),
       b_transactions := map (canonical_tx T) (b_transactions b), b_transaction_refs := b_transaction_refs c\<rparr> \<and>
     flags_without_tx (b_flags c) = flags_without_tx (b_flags b) \<and>
     (b_flags c AND FLAG_HAS_TRANSACTIONS \<noteq> 0 \<longleftrightarrow> item_count b \<noteq> 0)"

text \<open>The decoder on an encoded packet whose references resolve.\<close>

lemma resolved_round_trip:
  fixes input :: "'t packet"
  assumes enc: "encode_packet T R S input = Inr data" and size: "length data < 2 ^ 64"
    and libs: "rlp_law R" "snap_law S" and ok: "packet_ok T pe input"
    and ex: "expected_blocks T (p_blocks input) Map.empty [] = Some ex"
      "map fst ex = map (\<lambda>b. map (canonical_tx T) (b_transactions b)) (p_blocks input)"
  shows "\<exists>bs. decode_packet_ext T R S data pe = Inr (input\<lparr>p_blocks := bs\<rparr>) \<and>
    list_all2 (returned T) (p_blocks input) bs \<and> map b_transaction_refs bs = map snd ex"
proof -
  from libs(1) obtain repr where R: "rlp_repr R repr" by (auto simp: rlp_law_def)
  let ?bs = "p_blocks input"
  have nonces: "\<forall>e \<in> set (p_sender_base_nonces input). sn_sender_index e < 2 ^ 64"
    using ok by (simp add: packet_ok_def)
  obtain payloads where p: "encode_payloads T R (index_addresses (p_addresses input)) (index_u256 (p_gas_prices input))
       (sender_nonce_index_of (p_sender_base_nonces input)) ?bs Map.empty = Inr payloads"
    and lp: "length payloads = length ?bs"
    by (rule encoded_packet [OF enc libs(2) size nonces]) (rule that)
  from decode_encode_packet [OF enc size libs ok p]
  have dec: "decode_packet_ext T R S data pe =
      Inr (input\<lparr>p_blocks := map2 (\<lambda>(b, payload). decoded_block b payload) (zip ?bs payloads) ex\<rparr>)"
    by (simp add: decoded_packet_def decoded_blocks_def ex(1))
  have le: "length ex = length ?bs" by (rule length_expected_blocks [OF ex(1)])
  have "returned T (?bs ! j) (decoded_block (?bs ! j) (payloads ! j) (ex ! j))" if j: "j < length ?bs" for j
  proof -
    have "fst (ex ! j) = map (canonical_tx T) (b_transactions (?bs ! j))"
      using arg_cong [OF ex(2), of "\<lambda>xs. xs ! j"] j le by simp
    moreover have "payloads ! j \<noteq> [] \<longleftrightarrow> item_count (?bs ! j) \<noteq> 0"
      using encode_payloads_items [OF R p j] by (simp add: payload_counted_def split: if_splits)
    ultimately show ?thesis
      by (simp add: returned_def decoded_block_def flag_bits final_flags_bits)
  qed
  then have "list_all2 (returned T) ?bs (map2 (\<lambda>(b, payload). decoded_block b payload) (zip ?bs payloads) ex)"
    using lp le by (simp add: list_all2_conv_all_nth)
  moreover have "map b_transaction_refs (map2 (\<lambda>(b, payload). decoded_block b payload) (zip ?bs payloads) ex) = map snd ex"
    using lp le by (intro nth_equalityI) (simp_all add: decoded_block_def)
  ultimately show ?thesis using dec by blast
qed

lemma plain_round_trip:
  fixes input :: "'t packet"
  assumes enc: "encode_packet T R S input = Inr data" and size: "length data < 2 ^ 64"
    and libs: "rlp_law R" "snap_law S" and plain: "plain_packet T input"
    and nonces: "distinct (map sn_sender_index (p_sender_base_nonces input))"
      "\<forall>e \<in> set (p_sender_base_nonces input). sn_sender_index e < 2 ^ 64"
    and pos: "p_min_pos_height input < 2 ^ 32" "\<forall>b \<in> set (p_blocks input). pos_view_ok (p_min_pos_height input) pe b"
    and txs: "txs_fit T input (p_blocks input)"
  shows "\<exists>bs. decode_packet_ext T R S data pe = Inr (input\<lparr>p_blocks := bs\<rparr>) \<and> list_all2 (returned T) (p_blocks input) bs"
proof -
  let ?bs = "p_blocks input"
  let ?A = "\<Union>b \<in> set ?bs. set (b_transactions b)"
  obtain rs offs bitmap seg where v: "validate_groups 0 ?bs = Inr ()"
    and lp: "length rs = length ?bs"
    and layout: "packet_layout input data (choose_prefix_size rs) rs bitmap seg offs"
    by (rule encoded_packet [OF enc libs(2) size nonces(2)]) (rule that)
  have count: "length ?bs < 2 ^ 32" using layout lp by (simp add: packet_layout_def)
  have "list_all2 (\<lambda>b c. is_pivot b = is_pivot c \<and> b_height b = b_height c) ?bs ?bs" by (simp add: list_all2_same)
  from assign_epoch_validated [OF v this] have index: "\<forall>k < length ?bs. b_index (?bs ! k) = length [] + k" by simp
  have "seen_ok T ?A Map.empty []" by (simp add: seen_ok_def)
  from expected_plain [OF _ this _ index] plain txs count obtain ex where fit: "refs_fit T ?bs Map.empty"
    and ex: "expected_blocks T ?bs Map.empty [] = Some ex"
    "map fst ex = map (\<lambda>b. map (canonical_tx T) (b_transactions b)) ?bs"
    by (auto simp: plain_packet_def txs_fit_def)
  have "packet_ok T pe input"
    using nonces pos txs fit by (simp add: packet_ok_def)
  from resolved_round_trip [OF enc size libs this ex] show ?thesis by blast
qed

subsection \<open>A hash twice in one block\<close>

lemma tx_refs_duplicate:
  assumes "length (b_transaction_refs b) \<noteq> length (b_transactions b)"
  shows "\<not> distinct (map (tl_hash T) txs) \<or> (\<exists>tx \<in> set txs. s (tl_hash T tx) \<noteq> None) \<Longrightarrow>
    \<exists>r \<in> set (fst (tx_refs T b i txs s)). r \<noteq> None"
proof (induction txs arbitrary: i s)
  case (Cons tx txs)
  let ?h = "tl_hash T tx"
  let ?s = "if s ?h = None then s(?h \<mapsto> (b_index b, i)) else s"
  have step: "fst (tx_refs T b i (tx # txs) s) = s ?h # fst (tx_refs T b (Suc i) txs ?s)"
    using assms by (cases "s ?h") (simp_all add: Let_def split: prod.splits)
  show ?case
  proof (cases "s ?h")
    case None
    with Cons.prems have "\<not> distinct (map (tl_hash T) txs) \<or> (\<exists>tx \<in> set txs. ?s (tl_hash T tx) \<noteq> None)" by auto
    then have "\<exists>r \<in> set (fst (tx_refs T b (Suc i) txs ?s)). r \<noteq> None" by (rule Cons.IH)
    then show ?thesis unfolding step by (simp only: list.set insert_iff) blast
  next
    case (Some r)
    then show ?thesis unfolding step by (simp only: list.set insert_iff) blast
  qed
qed simp

lemma those_options_None: "None \<in> set xs \<Longrightarrow> those_options xs = None"
  by (induction xs) (auto split: option.splits)

lemma duplicate_in_block_rejected:
  fixes input :: "'t packet"
  assumes enc: "encode_packet T R S input = Inr data" and size: "length data < 2 ^ 64"
    and libs: "rlp_law R" "snap_law S" and ok: "packet_ok T pe input"
    and one: "p_blocks input = [b]" "length (b_transaction_refs b) \<noteq> length (b_transactions b)"
      "\<not> distinct (map (tl_hash T) (b_transactions b))"
  shows "decode_packet_ext T R S data pe = Inl (Bail ''duplicate tx reference out of range'')"
proof -
  have nonces: "\<forall>e \<in> set (p_sender_base_nonces input). sn_sender_index e < 2 ^ 64"
    using ok by (simp add: packet_ok_def)
  obtain payloads where
    p: "encode_payloads T R (index_addresses (p_addresses input)) (index_u256 (p_gas_prices input))
       (sender_nonce_index_of (p_sender_base_nonces input)) (p_blocks input) Map.empty = Inr payloads"
    by (rule encoded_packet [OF enc libs(2) size nonces]) (rule that)
  let ?txs = "b_transactions b"
  obtain refs s' where refs: "tx_refs T b 0 ?txs Map.empty = (refs, s')" by fastforce
  have len: "length refs = length ?txs" using length_tx_refs [of T b 0 ?txs Map.empty] refs by simp
  have "\<exists>r \<in> set refs. r \<noteq> None"
    using tx_refs_duplicate [OF one(2), of T ?txs Map.empty 0] one(3) refs by simp
  then obtain k ij where k: "k < length ?txs" "refs ! k = Some ij" using len by (auto simp: in_set_conv_nth)
  then have "map2 (resolve T []) ?txs refs ! k = None"
    using len by (cases ij) (simp add: resolve_def get_ref_def)
  then have "None \<in> set (map2 (resolve T []) ?txs refs)" using k(1) len by (metis length_map length_zip min.idem nth_mem)
  then have "expected_blocks T (p_blocks input) Map.empty [] = None"
    using refs by (simp add: one(1) those_options_None)
  then show ?thesis
    using decode_encode_packet [OF enc size libs ok p] by (simp add: decoded_packet_def decoded_blocks_def)
qed

end
