(* ===== verification/Packet_Reflag.thy ===== *)
theory Packet_Reflag
  imports Packet_Agreement
begin

text \<open>
  Setting \<open>FLAG_ZERO_TOTAL_REWARD\<close> of a block: patching the flags byte in an encoded packet, where
  \<open>block_flag_sites\<close> finds it, gives the bytes that encoding the packet with the flag set would give.
\<close>

subsection \<open>The record of a block with other flags\<close>

definition map_result :: "('a \<Rightarrow> 'b) \<Rightarrow> 'e + 'a \<Rightarrow> 'e + 'b" where
  "map_result f r = rbind r (\<lambda>x. Inr (f x))"

lemma map_result_simps [simp]: "map_result f (Inr x) = Inr (f x)" "map_result f (Inl e) = Inl e"
  by (simp_all add: map_result_def)

lemma rbind_map_result: "rbind (map_result f r) g = rbind r (\<lambda>x. g (f x))"
  "map_result f' (rbind r' h) = rbind r' (\<lambda>x. map_result f' (h x))"
  by (cases r; simp) (cases r'; simp)

lemma put_modes_append:
  "put_modes modes (a @ b) bs e = map_result (map_option ((@) a)) (put_modes modes b bs e)"
  by (induction modes b bs e rule: put_modes.induct) (auto simp: Let_def rbind_map_result)

lemma put_qc8_append: "put_qc8 (a @ b) v = map_result ((@) a) (put_qc8 b v)"
  unfolding put_qc8_def put_modes_append rbind_map_result
  by (rule arg_cong [of _ _ "rbind _"]) (auto simp: ok_or_def split: option.splits)

lemma put_qc5e_append: "put_qc5e (a @ b) v e = map_result ((@) a) (put_qc5e b v e)"
proof (cases e)
  case None
  show ?thesis
    unfolding put_qc5e_def put_modes_append None option.case rbind_map_result
    by (rule arg_cong [of _ _ "rbind _"]) (auto simp: ok_or_def split: option.splits)
qed (simp add: put_qc5e_def rbind_map_result)

text \<open>The fields of a record behind its first 45 bytes, which do not depend on the flags.\<close>

definition put_record_fields ::
  "bytes \<Rightarrow> 't block \<Rightarrow> u64 \<Rightarrow> 't packet \<Rightarrow> (address \<Rightarrow> nat option) \<Rightarrow> (u256 \<Rightarrow> nat option) \<Rightarrow> bytes pack_result" where
  "put_record_fields out b off input ai di =
     rbind (ok_or (ai (b_author b)) (Bail ''missing author in address table'')) (\<lambda>author.
     rbind (ok_or (checked_sub (b_timestamp b) (p_min_timestamp input)) (Bail ''timestamp below min_timestamp'')) (\<lambda>timestamp.
     rbind (ok_or (di (b_difficulty b)) (Bail ''missing difficulty in lookup table'')) (\<lambda>difficulty.
     rbind (put_qc5e (put_uleb128 (put_uleb128 (put_uleb128 out (of_nat author)) timestamp) (of_nat difficulty))
              (b_gas_limit b) (qc5e_gas_limit_enum (b_gas_limit b))) (\<lambda>out.
     rbind (put_qc5e out (b_base_price_core b) (qc5e_base_price_enum (b_base_price_core b) False)) (\<lambda>out.
     rbind (put_qc5e out (b_base_price_espace b) (qc5e_base_price_enum (b_base_price_espace b) True)) (\<lambda>out.
     rbind (ok_or (checked_sub (b_height b) (p_min_height input)) (Bail ''height below min_height'')) (\<lambda>height.
     rbind (put_qc8 (put_uleb128 (put_uleb128 (put_uleb128 (put_uleb128 out height) (b_blame b))
              (b_finalized_epoch b)) off) (b_base_reward b)) (\<lambda>out.
       Inr (case b_pos_view b of
              Some v \<Rightarrow> put_uleb128 out (saturating_sub v (p_min_pos_height input)) | None \<Rightarrow> out)))))))))"

lemma encode_block_record_fields:
  "encode_block_record b f off input ai di = put_record_fields (record_head b f) b off input ai di"
  by (simp add: encode_block_record_def put_record_fields_def record_head_def Let_def)

lemma put_record_fields_append:
  "put_record_fields (a @ out) b off input ai di = map_result ((@) a) (put_record_fields out b off input ai di)"
  unfolding put_record_fields_def put_uleb128_append put_qc5e_append put_qc8_append rbind_map_result
  by (cases "b_pos_view b") (simp_all add: put_uleb128_append)

lemma encode_block_record_tail:
  "encode_block_record b f off input ai di =
     map_result ((@) (record_head b f)) (put_record_fields [] b off input ai di)"
  using put_record_fields_append [of "record_head b f" "[]"] by (simp add: encode_block_record_fields)

lemma record_head_flags: "record_head (b\<lparr>b_flags := g\<rparr>) f' = (record_head b f)[44 := f']"
proof -
  let ?h = "as_bytes (b_hash b) @ take 4 (as_bytes (b_deferred_state_root b))
     @ take 4 (as_bytes (b_deferred_receipts_root b)) @ take 4 (as_bytes (b_deferred_logs_bloom_hash b))"
  have "length ?h = 44" by simp
  then have "(?h @ [f])[44 := f'] = ?h @ [f']" by (metis list_update_length)
  then show ?thesis by (simp add: record_head_def)
qed

lemma encode_block_record_reflag:
  assumes "encode_block_record b f off input ai di = Inr r"
  shows "encode_block_record (b\<lparr>b_flags := g\<rparr>) f' off (input\<lparr>p_blocks := bs\<rparr>) ai di = Inr (r[44 := f'])"
    "45 \<le> length r" "r ! 44 = f"
proof -
  from assms obtain t where t: "put_record_fields [] b off input ai di = Inr t" "r = record_head b f @ t"
    by (auto simp: encode_block_record_tail map_result_def rbind_Inr_iff)
  have "put_record_fields [] (b\<lparr>b_flags := g\<rparr>) off (input\<lparr>p_blocks := bs\<rparr>) ai di = Inr t"
    using t(1) by (cases "b_pos_view b") (simp_all add: put_record_fields_def)
  then show "encode_block_record (b\<lparr>b_flags := g\<rparr>) f' off (input\<lparr>p_blocks := bs\<rparr>) ai di = Inr (r[44 := f'])"
    by (simp add: encode_block_record_tail record_head_flags [where f = f] t(2) list_update_append)
  show "45 \<le> length r" "r ! 44 = f" using t(2) by (simp_all add: nth_append record_head_def)
qed

subsection \<open>The packet with a flag set\<close>

definition set_zero_reward :: "'t block \<Rightarrow> 't block" where
  "set_zero_reward b = b\<lparr>b_flags := b_flags b OR FLAG_ZERO_TOTAL_REWARD\<rparr>"

definition reflag :: "nat \<Rightarrow> 't packet \<Rightarrow> 't packet" where
  "reflag i input = input\<lparr>p_blocks := (p_blocks input)[i := set_zero_reward (p_blocks input ! i)]\<rparr>"

lemma final_flags_zero_reward:
  "final_flags (f OR FLAG_ZERO_TOTAL_REWARD) payload = final_flags f payload OR FLAG_ZERO_TOTAL_REWARD"
proof (rule bit_eqI)
  fix n
  show "bit (final_flags (f OR FLAG_ZERO_TOTAL_REWARD) payload) n =
      bit (final_flags f payload OR FLAG_ZERO_TOTAL_REWARD) n"
    by (cases "n = 3"; cases "n = 4") (auto simp: final_flags_bits bit_or_iff bit_flags)
qed

definition same_plan :: "'t block \<Rightarrow> 't block \<Rightarrow> bool" where
  "same_plan b c \<longleftrightarrow> b_index b = b_index c \<and> b_epoch b = b_epoch c \<and> b_height b = b_height c \<and>
     is_pivot b = is_pivot c \<and> b_flags b AND 0x80 = b_flags c AND 0x80"

lemma same_plan_refl [simp]: "same_plan b b"
  by (simp add: same_plan_def)

lemma bit7: "bit (0x80 :: u8) n \<longleftrightarrow> n = 7"
proof -
  have "(0x80 :: u8) = push_bit 7 1" by simp
  then have "bit (0x80 :: u8) n \<longleftrightarrow> bit (push_bit 7 (1 :: u8)) n" by (simp only:)
  also have "\<dots> \<longleftrightarrow> n = 7" by (simp only: bit_push_bit_iff) (auto simp: bit_simps)
  finally show ?thesis .
qed

lemma same_plan_set_zero_reward [simp]: "same_plan b (set_zero_reward b)"
proof -
  have "(b_flags b OR FLAG_ZERO_TOTAL_REWARD) AND 0x80 = b_flags b AND 0x80"
    by (rule bit_eqI) (auto simp only: bit_and_iff bit_or_iff bit_flags bit7)
  then show ?thesis
    by (simp add: same_plan_def set_zero_reward_def is_pivot_def flag_bits bit_or_iff bit_flags)
qed

lemma check_blocks_same: "list_all2 same_plan bs cs \<Longrightarrow> check_blocks k e bs = check_blocks k e cs"
  by (induction bs cs arbitrary: k rule: list_all2_induct) (auto simp: check_block_def same_plan_def)

lemma validate_groups_same:
  "list_all2 same_plan bs cs \<Longrightarrow> validate_groups k bs = validate_groups k cs"
proof (induction k bs arbitrary: cs rule: validate_groups.induct)
  case (1 k bs)
  have f: "first_index is_pivot bs = first_index is_pivot cs"
    by (rule first_index_rel) (rule list_all2_mono [OF "1.prems"], simp add: same_plan_def)
  show ?case
  proof (cases "first_index is_pivot bs")
    case None
    then show ?thesis using f "1.prems" by (subst (1 2) validate_groups.simps) auto
  next
    case (Some p)
    then have "p < length bs" by (simp add: first_index_Some)
    then have p: "p < length bs" "bs \<noteq> []" "cs \<noteq> []" using "1.prems" by auto
    have "b_height (bs ! p) = b_height (cs ! p)"
      using list_all2_nthD [OF "1.prems" p(1)] by (simp add: same_plan_def)
    moreover have "check_blocks k e (take (Suc p) bs) = check_blocks k e (take (Suc p) cs)" for e
      by (rule check_blocks_same [OF list_all2_takeI [OF "1.prems"]])
    moreover have "validate_groups (k + Suc p) (drop (Suc p) bs) = validate_groups (k + Suc p) (drop (Suc p) cs)"
      if "check_blocks k (b_height (bs ! p)) (take (Suc p) bs) = Inr ()"
      by (rule "1.IH" [OF p(2) Some that list_all2_dropI [OF "1.prems"]])
    ultimately show ?thesis
      using Some f p
      by (subst (1 2) validate_groups.simps)
        (cases "check_blocks k (b_height (bs ! p)) (take (Suc p) bs)"; simp)
  qed
qed

lemma reflag_same_plan: "list_all2 same_plan (p_blocks input) (p_blocks (reflag i input))"
  by (cases "i < length (p_blocks input)") (auto simp: reflag_def list_all2_conv_all_nth nth_list_update)

lemma validate_reflag: "validate_input (reflag i input) = validate_input input"
proof -
  note same = reflag_same_plan [of input i]
  have "p_blocks input = [] \<longleftrightarrow> p_blocks (reflag i input) = []" by (simp add: reflag_def)
  moreover have "b_epoch (hd (p_blocks input)) = b_epoch (hd (p_blocks (reflag i input)))" if "p_blocks input \<noteq> []"
    using list_all2_nthD [OF same, of 0] that by (simp add: hd_conv_nth reflag_def same_plan_def)
  moreover have "validate_groups 0 (p_blocks input) = validate_groups 0 (p_blocks (reflag i input))"
    by (rule validate_groups_same [OF same])
  ultimately show ?thesis
    by (cases "p_blocks input = []") (simp_all add: validate_input_def)
qed

subsection \<open>Payloads and records\<close>

lemma encode_txs_flags:
  "encode_txs T (b\<lparr>b_flags := f\<rparr>) ai gi ni i txs s = encode_txs T b ai gi ni i txs s"
  by (induction txs arbitrary: i s) (simp_all add: Let_def split: option.split)

lemma encode_tx_payload_flags:
  "encode_tx_payload T R (b\<lparr>b_flags := f\<rparr>) ai gi ni s = encode_tx_payload T R b ai gi ni s"
  by (simp add: encode_tx_payload_def encode_txs_flags)

lemma encode_payloads_reflag:
  "i < length bs \<Longrightarrow> encode_payloads T R ai gi ni (bs[i := set_zero_reward (bs ! i)]) s = encode_payloads T R ai gi ni bs s"
proof (induction bs arbitrary: i s)
  case (Cons b bs)
  then show ?case
    by (cases i) (auto simp: set_zero_reward_def encode_tx_payload_flags intro!: rbind_cong split: prod.splits)
qed simp

lemma place_payload_flags:
  assumes "place_payload S f payload seg = Inr (f1, off, seg1)"
  shows "f1 = final_flags f payload"
    "place_payload S g payload seg = Inr (final_flags g payload, off, seg1)"
  using assms
  by (auto simp: place_payload_def Let_def rbind_Inr_iff final_flags_def flags_without_tx_def or.assoc split: if_splits)

lemma encode_records_cong:
  "encode_records S (input\<lparr>p_blocks := cs\<rparr>) ai di bps seg = encode_records S input ai di bps seg"
proof (induction bps arbitrary: seg)
  case (Cons bp bps)
  obtain b p where bp: "bp = (b, p)" by (cases bp)
  have "encode_block_record b f off (input\<lparr>p_blocks := cs\<rparr>) ai di = encode_block_record b f off input ai di" for f off
    by (cases "b_pos_view b") (simp_all add: encode_block_record_def)
  with Cons.IH show ?case by (simp add: bp)
qed simp

lemma encode_records_reflag:
  "encode_records S input ai di (zip bs payloads) seg = Inr (rs, seg') \<Longrightarrow> length payloads = length bs \<Longrightarrow>
   i < length bs \<Longrightarrow>
   encode_records S input ai di (zip (bs[i := set_zero_reward (bs ! i)]) payloads) seg =
     Inr (rs[i := (rs ! i)[44 := rs ! i ! 44 OR FLAG_ZERO_TOTAL_REWARD]], seg') \<and>
   45 \<le> length (rs ! i) \<and> length rs = length bs"
proof (induction bs arbitrary: payloads seg rs i)
  case (Cons b bs)
  from Cons.prems(2) obtain p ps where payloads: "payloads = p # ps" "length ps = length bs"
    by (auto simp: length_Suc_conv)
  from Cons.prems(1) payloads obtain f off seg1 r rs1 where
    place: "place_payload S (b_flags b) p seg = Inr (f, off, seg1)"
    and r: "encode_block_record b f off input ai di = Inr r"
    and rest: "encode_records S input ai di (zip bs ps) seg1 = Inr (rs1, seg')" "rs = r # rs1"
    by (auto simp: rbind_Inr_iff)
  have len: "length rs1 = length bs"
    using rest(1) payloads(2)
  proof (induction bs arbitrary: ps seg1 rs1)
    case (Cons b bs)
    then show ?case by (cases ps) (auto simp: rbind_Inr_iff split: prod.splits)
  qed simp
  show ?case
  proof (cases i)
    case 0
    have f: "f = final_flags (b_flags b) p" by (rule place_payload_flags(1) [OF place])
    have "place_payload S (b_flags b OR FLAG_ZERO_TOTAL_REWARD) p seg =
        Inr (f OR FLAG_ZERO_TOTAL_REWARD, off, seg1)"
      using place_payload_flags(2) [OF place] by (simp add: f final_flags_zero_reward)
    moreover have "encode_block_record (set_zero_reward b) (f OR FLAG_ZERO_TOTAL_REWARD) off input ai di =
        Inr (r[44 := r ! 44 OR FLAG_ZERO_TOTAL_REWARD])"
      using encode_block_record_reflag(1) [OF r, of _ _ "p_blocks input"] encode_block_record_reflag(3) [OF r]
      by (simp add: set_zero_reward_def)
    moreover have "45 \<le> length r" by (rule encode_block_record_reflag(2) [OF r])
    ultimately show ?thesis using 0 payloads rest len by (simp add: set_zero_reward_def)
  next
    case (Suc k)
    have "encode_records S input ai di (zip (bs[k := set_zero_reward (bs ! k)]) ps) seg1 =
       Inr (rs1[k := (rs1 ! k)[44 := rs1 ! k ! 44 OR FLAG_ZERO_TOTAL_REWARD]], seg') \<and> 45 \<le> length (rs1 ! k)"
      using Cons.IH [OF rest(1) payloads(2), of k] Suc Cons.prems(3) by simp
    then show ?thesis using Suc payloads rest place r len by simp
  qed
qed simp

subsection \<open>The body and the packet\<close>

lemma choose_prefix_size_lengths:
  assumes "map length rs = map length rs'"
  shows "choose_prefix_size rs = choose_prefix_size rs'"
proof -
  have fit: "length (filter (\<lambda>r. length r \<le> n) rs) = length (filter (\<lambda>r. length r \<le> n) rs')" for n
  proof -
    have "length (filter (\<lambda>r. length r \<le> n) xs) = length (filter (\<lambda>l. l \<le> n) (map length xs))" for xs :: "bytes list"
      by (simp add: filter_map comp_def)
    then show ?thesis using assms by metis
  qed
  have len: "length rs = length rs'" using assms by (rule map_eq_imp_length_eq)
  have "choose_prefix_size_from rs n = choose_prefix_size_from rs' n" for n
  proof (induction "96 - n" arbitrary: n rule: less_induct)
    case less
    then have "n < 96 \<Longrightarrow> choose_prefix_size_from rs (n + 8) = choose_prefix_size_from rs' (n + 8)" by simp
    then show ?case
      by (subst (1 2) choose_prefix_size_from.simps) (simp add: Let_def fit len)
  qed
  then show ?thesis by (simp add: choose_prefix_size_def)
qed

lemma pack_records_bitmap:
  "map length rs = map length rs' \<Longrightarrow>
     fst (pack_records n i rs bm body overflow) = fst (pack_records n i rs' bm body' overflow')"
proof (induction rs arbitrary: rs' i bm body overflow body' overflow')
  case (Cons r rs)
  then obtain r' rs1 where "rs' = r' # rs1" "length r = length r'" "map length rs = map length rs1"
    by (auto simp: map_eq_Cons_conv Cons_eq_map_conv)
  with Cons.IH show ?case by (simp add: Let_def)
qed auto

lemma pack_block_body_bitmap:
  assumes "map length rs = map length rs'"
  shows "snd (pack_block_body rs n) = snd (pack_block_body rs' n)"
proof -
  have "length rs = length rs'" using assms by (rule map_eq_imp_length_eq)
  moreover have "snd (pack_block_body xs n) = fst (pack_records n 0 xs (replicate ((length xs + 7) div 8) 0) [] [])" for xs
    by (simp add: pack_block_body_def Let_def split: prod.splits)
  ultimately show ?thesis using pack_records_bitmap [OF assms] by metis
qed

lemma concat_update:
  assumes "i < length xs" "\<And>x. x \<in> set xs \<Longrightarrow> length (f x) = n" "k < n" "f y = (f (xs ! i))[k := v]"
  shows "concat (map f (xs[i := y])) = (concat (map f xs))[i * n + k := v]"
proof -
  have l: "length (concat (map f (take i xs))) = i * n"
    using length_concat_same [of "map f (take i xs)" n] assms(1,2)
    by (auto simp: mult.commute dest: in_set_takeD)
  have k: "k < length (f (xs ! i))" using assms(1-3) by simp
  have "concat (map f (xs[i := y])) = concat (map f (take i xs)) @ (f (xs ! i))[k := v] @ concat (map f (drop (Suc i) xs))"
    using assms(1) by (simp add: upd_conv_take_nth_drop assms(4))
  also have "\<dots> = (concat (map f (take i xs)) @ f (xs ! i) @ concat (map f (drop (Suc i) xs)))[i * n + k := v]"
    using l k by (simp add: list_update_append)
  also have "\<dots> = (concat (map f xs))[i * n + k := v]"
    by (simp add: concat_map_split [OF assms(1), of f])
  finally show ?thesis .
qed

lemma pack_block_body_update:
  assumes "i < length rs" "45 \<le> length (rs ! i)" "64 \<le> n" "pack_block_body rs n = (body, bitmap)"
  shows "pack_block_body (rs[i := (rs ! i)[44 := v]]) n = (body[i * n + 44 := v], bitmap) \<and>
    i * n + 44 < length body \<and> body ! (i * n + 44) = rs ! i ! 44"
proof -
  let ?r = "rs ! i" and ?rs = "rs[i := (rs ! i)[44 := v]]"
  have body: "fst (pack_block_body xs n) = concat (map (prefix_part n) xs) @ concat (map (overflow_part n) xs)" for xs
    by (rule pack_block_body_eq [where rs = xs and n = n]) simp
  have "long_record n (?r[44 := v]) = long_record n ?r" "drop n (?r[44 := v]) = drop n ?r"
    using assms(3) by (simp_all add: long_record_def drop_update_cancel)
  then have o: "overflow_part n (?r[44 := v]) = overflow_part n ?r" by (simp add: overflow_part_def)
  then have overflow: "concat (map (overflow_part n) ?rs) = concat (map (overflow_part n) rs)"
    using assms(1) by (metis list_update_id map_update)
  have "prefix_part n (?r[44 := v]) = (prefix_part n ?r)[44 := v]"
    using assms(2,3) by (simp add: prefix_part_def take_update_swap list_update_append)
  then have pre: "concat (map (prefix_part n) ?rs) = (concat (map (prefix_part n) rs))[i * n + 44 := v]"
    using assms(1,3) by (intro concat_update) auto
  have "i * n + n \<le> length rs * n" using assms(1) by (metis Suc_leI add.commute mult_Suc mult_le_mono1)
  then have lt: "i * n + 44 < n * length rs" using assms(3) by (simp add: mult.commute)
  have "fst (pack_block_body ?rs n) = body[i * n + 44 := v]"
    unfolding body pre overflow
    using lt body [of rs] assms(4) by (simp add: list_update_append length_concat_prefix_parts)
  moreover have "snd (pack_block_body ?rs n) = bitmap"
    using pack_block_body_bitmap [of ?rs rs n] assms(1,4)
    by (simp add: map_update list_update_same_conv)
  moreover have "body ! (i * n + 44) = ?r ! 44"
  proof -
    have "concat (map (prefix_part n) rs) = concat (map (prefix_part n) (take i rs)) @ prefix_part n ?r
        @ concat (map (prefix_part n) (drop (Suc i) rs))" by (rule concat_map_split [OF assms(1)])
    moreover have "length (concat (map (prefix_part n) (take i rs))) = i * n"
      using assms(1) by (simp add: length_concat_prefix_parts mult.commute)
    moreover have "prefix_part n ?r ! 44 = ?r ! 44"
      using assms(2,3) by (simp add: prefix_part_def nth_append)
    ultimately show ?thesis using body [of rs] assms(3,4) by (simp add: nth_append)
  qed
  moreover have "i * n + 44 < length body"
    using body [of rs] assms(4) lt by (simp add: length_concat_prefix_parts)
  ultimately show ?thesis by (simp add: prod_eq_iff)
qed

text \<open>The bytes before the block body, and the offsets written before its own.\<close>

definition before_body :: "'t packet \<Rightarrow> nat \<Rightarrow> nat \<Rightarrow> bytes \<Rightarrow> bytes" where
  "before_body input n block_count bitmap =
     (let o3 = packet_header input n @ concat (map address_bytes (p_addresses input))
            @ concat (map pos_entry_bytes (p_pos_entries input)) @ concat (map u256_to_be (p_difficulties input));
          o5 = align_to (fold put_sender_nonce (p_sender_base_nonces input) o3
                 @ concat (map u256_to_be (p_gas_prices input))) 32
      in align_to (put_u32_le o5 (of_nat block_count) @ bitmap) 32)"

lemma before_body_blocks [simp]: "before_body (input\<lparr>p_blocks := bs\<rparr>) n c bm = before_body input n c bm"
  by (simp add: before_body_def packet_header_def)

lemma assemble_packet_parts:
  fixes input :: "'t packet"
  obtains offs where "length offs = 6"
    "\<And>bs body seg. assemble_packet (input\<lparr>p_blocks := bs\<rparr>) n c bm body seg =
       (let o6 = before_body input n c bm; o7 = align_to (o6 @ body) 64
        in write_offsets 0 (offs @ [length o6, length o7]) (o7 @ seg))"
proof -
  let ?o0 = "packet_header input n"
  let ?o1 = "?o0 @ concat (map address_bytes (p_addresses input))"
  let ?o2 = "?o1 @ concat (map pos_entry_bytes (p_pos_entries input))"
  let ?o3 = "?o2 @ concat (map u256_to_be (p_difficulties input))"
  let ?o4 = "fold put_sender_nonce (p_sender_base_nonces input) ?o3"
  let ?o5 = "align_to (?o4 @ concat (map u256_to_be (p_gas_prices input))) 32"
  let ?offs = "map length [?o0, ?o1, ?o2, ?o3, ?o4, ?o5]"
  have header: "packet_header (input\<lparr>p_blocks := bs\<rparr>) n = ?o0" for bs by (simp add: packet_header_def)
  show thesis
  proof (rule that [of ?offs])
    show "assemble_packet (input\<lparr>p_blocks := bs\<rparr>) n c bm body seg =
       (let o6 = before_body input n c bm; o7 = align_to (o6 @ body) 64
        in write_offsets 0 (?offs @ [length o6, length o7]) (o7 @ seg))" for bs body seg
      unfolding assemble_packet_def before_body_def Let_def header
      by (simp del: write_offsets.simps)
  qed simp
qed

lemma length_before_body: "125 \<le> length (before_body input n c bm)"
proof -
  have le: "length out \<le> length (align_to out 32)" for out
    using align_to_props(2) [of 32 out] by (intro prefix_length_le) simp
  let ?o3 = "packet_header input n @ concat (map address_bytes (p_addresses input))
            @ concat (map pos_entry_bytes (p_pos_entries input)) @ concat (map u256_to_be (p_difficulties input))"
  have "125 \<le> length (fold put_sender_nonce (p_sender_base_nonces input) ?o3
                 @ concat (map u256_to_be (p_gas_prices input)))"
    by (subst fold_put_sender_nonce) (simp add: packet_header_eq)
  also have "\<dots> \<le> length (before_body input n c bm)"
    unfolding before_body_def Let_def put_u32_le_def by (rule order_trans [OF le order_trans [OF _ le]]) simp
  finally show ?thesis .
qed

lemma write_offsets_update:
  "write_offsets i offs out = Inr data \<Longrightarrow> 93 + 4 * (i + length offs) \<le> p \<Longrightarrow> p < length out \<Longrightarrow>
     write_offsets i offs (out[p := x]) = Inr (data[p := x])"
proof (induction i offs out rule: write_offsets.induct)
  case (2 i off offs out)
  have "copy_into (out[p := x]) (93 + i * 4) bs = (copy_into out (93 + i * 4) bs)[p := x]" if "length bs = 4" for bs
    using "2.prems"(2,3) that by (auto simp: copy_into_def list_update_append drop_update_swap)
  moreover have "length (copy_into out (93 + i * 4) bs) = length out" if "length bs = 4" for bs
    using "2.prems"(2,3) that by (simp add: copy_into_def)
  ultimately show ?case using 2 by (auto split: if_splits)
qed simp

lemma assemble_packet_update:
  assumes "assemble_packet input n c bm body seg = Inr data" "k < length body"
  shows "assemble_packet (input\<lparr>p_blocks := bs\<rparr>) n c bm (body[k := x]) seg =
      Inr (data[length (before_body input n c bm) + k := x]) \<and>
    data ! (length (before_body input n c bm) + k) = body ! k \<and>
    (read_offsets data = Inr offs \<longrightarrow> offs ! 6 = length (before_body input n c bm))"
proof -
  let ?o6 = "before_body input n c bm"
  let ?o7 = "align_to (?o6 @ body) 64"
  obtain os where os: "length os = 6" "\<And>bs body seg. assemble_packet (input\<lparr>p_blocks := bs\<rparr>) n c bm body seg =
       (let o6 = ?o6; o7 = align_to (o6 @ body) 64
        in write_offsets 0 (os @ [length o6, length o7]) (o7 @ seg))" by (rule assemble_packet_parts [where input = input and n = n and c = c and bm = bm]) (rule that)
  have "input\<lparr>p_blocks := p_blocks input\<rparr> = input" by simp
  then have w: "write_offsets 0 (os @ [length ?o6, length ?o7]) (?o7 @ seg) = Inr data"
    using os(2) [of "p_blocks input" body seg] assms(1) by (simp add: Let_def)
  obtain pad where pad: "?o7 = ?o6 @ body @ replicate pad 0" "length (?o6 @ body) + pad = length ?o7"
    by (rule align_to_pad [of 64 "?o6 @ body"]) simp_all
  have upd: "align_to (?o6 @ body[k := x]) 64 = ?o7[length ?o6 + k := x]"
  proof -
    have "align_to (?o6 @ body[k := x]) 64 = (?o6 @ body[k := x]) @ replicate pad 0"
      using pad(1) by (simp add: align_to_def Let_def)
    then show ?thesis using assms(2) by (simp add: pad(1) list_update_append)
  qed
  have lo: "125 \<le> length ?o6" by (rule length_before_body)
  have out: "(?o7 @ seg)[length ?o6 + k := x] = ?o7[length ?o6 + k := x] @ seg"
    using assms(2) by (simp add: pad(1) list_update_append)
  have eq: "data = take 93 (?o7 @ seg) @ offset_table (os @ [length ?o6, length ?o7]) @ drop 125 (?o7 @ seg)"
    and small: "\<forall>v \<in> set (os @ [length ?o6, length ?o7]). v < 2 ^ 32"
    using write_offsets_eq [OF w] os(1) lo by (simp_all add: pad(1))
  have len7: "length (align_to (?o6 @ body[k := x]) 64) = length ?o7" by (simp add: upd)
  have "write_offsets 0 (os @ [length ?o6, length ?o7]) ((?o7 @ seg)[length ?o6 + k := x]) =
      Inr (data[length ?o6 + k := x])"
    by (rule write_offsets_update [OF w]) (use os(1) lo assms(2) in \<open>simp_all add: pad(1)\<close>)
  then have "assemble_packet (input\<lparr>p_blocks := bs\<rparr>) n c bm (body[k := x]) seg = Inr (data[length ?o6 + k := x])"
    unfolding os(2) Let_def len7 unfolding upd out .
  moreover have "data ! (length ?o6 + k) = body ! k"
  proof -
    define P where "P = take 93 (?o7 @ seg) @ offset_table (os @ [length ?o6, length ?o7])"
    have P: "length P = 125" "data = P @ drop 125 (?o7 @ seg)"
      using lo os(1) eq by (simp_all add: P_def pad(1))
    obtain j where j: "length ?o6 + k = 125 + j" using lo le_Suc_ex trans_le_add1 by blast
    have "data ! (length ?o6 + k) = drop 125 (?o7 @ seg) ! j"
      unfolding j P(2) by (metis P(1) nth_append_length_plus)
    also have "\<dots> = (?o7 @ seg) ! (length ?o6 + k)"
      unfolding j using lo by (intro nth_drop) (simp add: pad(1))
    also have "\<dots> = body ! k" using assms(2) by (simp add: pad(1) nth_append)
    finally show ?thesis .
  qed
  moreover have "read_offsets data = Inr (os @ [length ?o6, length ?o7])"
    by (rule read_offsets_eq [OF eq _ _ small]) (use lo os(1) in \<open>simp_all add: pad(1)\<close>)
  ultimately show ?thesis using os(1) by (auto simp: nth_append)
qed

subsection \<open>Flag sites\<close>

text \<open>\<open>sites_at T R S input base n\<close>: the records of the packet have \<open>n\<close> bytes each from \<open>base\<close> on.\<close>

abbreviation encode_blocks_of ::
  "('t, 'acc, 'auth) tx_lib \<Rightarrow> ('r, 'acc, 'auth) rlp_lib \<Rightarrow> snap_lib \<Rightarrow> 't packet \<Rightarrow> (bytes list \<times> bytes) pack_result" where
  "encode_blocks_of T R S input \<equiv> encode_blocks T R S input (index_addresses (p_addresses input))
     (index_u256 (p_gas_prices input)) (sender_nonce_index_of (p_sender_base_nonces input))
     (index_u256 (p_difficulties input))"

definition sites_at ::
  "('t, 'acc, 'auth) tx_lib \<Rightarrow> ('r, 'acc, 'auth) rlp_lib \<Rightarrow> snap_lib \<Rightarrow> 't packet \<Rightarrow> nat \<Rightarrow> nat \<Rightarrow> bool" where
  "sites_at T R S input base n \<longleftrightarrow>
     (\<exists>rs seg. encode_blocks_of T R S input = Inr (rs, seg) \<and> n = choose_prefix_size rs \<and>
        base = length (before_body input n (length rs) (snd (pack_block_body rs n))))"

lemma encode_packet_sites_at:
  assumes "encode_packet T R S input = Inr data"
  shows "\<exists>base n. sites_at T R S input base n"
  using assms by (auto simp: encode_packet_def sites_at_def rbind_Inr_iff)

lemma encode_blocks_reflag:
  assumes "encode_blocks_of T R S input = Inr (rs, seg)" "i < length (p_blocks input)"
  shows "encode_blocks_of T R S (reflag i input) =
      Inr (rs[i := (rs ! i)[44 := rs ! i ! 44 OR FLAG_ZERO_TOTAL_REWARD]], seg) \<and>
    45 \<le> length (rs ! i) \<and> length rs = length (p_blocks input)"
proof -
  from assms(1) obtain payloads where p: "encode_payloads T R (index_addresses (p_addresses input))
      (index_u256 (p_gas_prices input)) (sender_nonce_index_of (p_sender_base_nonces input))
      (p_blocks input) Map.empty = Inr payloads"
    and r: "encode_records S input (index_addresses (p_addresses input)) (index_u256 (p_difficulties input))
       (zip (p_blocks input) payloads) [] = Inr (rs, seg)"
    by (auto simp: encode_blocks_def rbind_Inr_iff)
  from encode_records_reflag [OF r length_encode_payloads [OF p] assms(2)] show ?thesis
    using p by (simp add: encode_blocks_def reflag_def encode_payloads_reflag [OF assms(2)] encode_records_cong)
qed

lemma encode_packet_reflag:
  assumes enc: "encode_packet T R S input = Inr data" and sites: "sites_at T R S input base n"
    and i: "i < length (p_blocks input)"
  shows "encode_packet T R S (reflag i input) =
      Inr (data[base + i * n + 44 := data ! (base + i * n + 44) OR FLAG_ZERO_TOTAL_REWARD]) \<and>
    sites_at T R S (reflag i input) base n"
proof -
  from sites obtain rs seg where rs: "encode_blocks_of T R S input = Inr (rs, seg)" "n = choose_prefix_size rs"
    "base = length (before_body input n (length rs) (snd (pack_block_body rs n)))"
    by (auto simp: sites_at_def)
  obtain body bitmap where body: "pack_block_body rs n = (body, bitmap)" by fastforce
  have base: "base = length (before_body input n (length rs) bitmap)" using rs(3) body by simp
  have v: "validate_input input = Inr ()" and a: "assemble_packet input n (length rs) bitmap body seg = Inr data"
    using enc rs(1,2) body by (auto simp: encode_packet_def rbind_Inr_iff)
  define v44 where "v44 = rs ! i ! 44 OR FLAG_ZERO_TOTAL_REWARD"
  define rs' where "rs' = rs[i := (rs ! i)[44 := v44]]"
  have b: "encode_blocks_of T R S (reflag i input) = Inr (rs', seg)" "45 \<le> length (rs ! i)" "length rs = length (p_blocks input)"
    using encode_blocks_reflag [OF rs(1) i] by (simp_all add: rs'_def v44_def)
  have len: "map length rs' = map length rs" "length rs' = length rs"
    using i b(3) by (simp_all add: rs'_def map_update list_update_same_conv)
  have n: "choose_prefix_size rs' = n" using choose_prefix_size_lengths [OF len(1)] rs(2) by simp
  have "64 \<le> n" using valid_prefix_size_bounds [OF choose_prefix_size_valid] rs(2) by simp
  with body i b(2,3) have u: "pack_block_body rs' n = (body[i * n + 44 := v44], bitmap)"
    "i * n + 44 < length body" "body ! (i * n + 44) = rs ! i ! 44"
    using pack_block_body_update [of i rs n body bitmap v44] by (simp_all add: rs'_def)
  note upd = assemble_packet_update [OF a u(2), of "p_blocks (reflag i input)" v44]
  have "input\<lparr>p_blocks := p_blocks (reflag i input)\<rparr> = reflag i input" by (simp add: reflag_def)
  then have "assemble_packet (reflag i input) n (length rs') bitmap (body[i * n + 44 := v44]) seg =
      Inr (data[base + i * n + 44 := data ! (base + i * n + 44) OR FLAG_ZERO_TOTAL_REWARD])"
    using upd u(3) len(2) by (simp add: base v44_def add.assoc)
  then have "encode_packet T R S (reflag i input) =
      Inr (data[base + i * n + 44 := data ! (base + i * n + 44) OR FLAG_ZERO_TOTAL_REWARD])"
    using b(1) by (simp add: encode_packet_def validate_reflag v n u(1))
  moreover have "before_body (reflag i input) n (length rs') bitmap = before_body input n (length rs) bitmap"
    using len(2) by (simp add: reflag_def)
  then have "sites_at T R S (reflag i input) base n"
    unfolding sites_at_def using b(1) n u(1) base by auto
  ultimately show ?thesis by blast
qed

lemma block_flag_sites_encoded:
  assumes enc: "encode_packet T R S input = Inr data" and sites: "sites_at T R S input base n"
    and size: "length data < 2 ^ 64" and S: "snap_law S"
    and nonces: "\<forall>e \<in> set (p_sender_base_nonces input). sn_sender_index e < 2 ^ 64"
  shows "block_flag_sites data =
    Inr (map (\<lambda>j. (base + j * n + 44, b_hash (p_blocks input ! j))) [0..<length (p_blocks input)])"
proof -
  from sites obtain rs seg where rs: "encode_blocks_of T R S input = Inr (rs, seg)" "n = choose_prefix_size rs"
    "base = length (before_body input n (length rs) (snd (pack_block_body rs n)))"
    by (auto simp: sites_at_def)
  obtain rs' us seg' offs bitmap payloads where
    rec: "\<And>j. j < length rs' \<Longrightarrow> record_of S input seg' (p_blocks input ! j, payloads ! j) (us ! j, rs' ! j)"
    and layout: "packet_layout input data (choose_prefix_size rs') rs' bitmap seg' offs"
    and lr: "length rs' = length (p_blocks input)"
    and blocks: "encode_blocks_of T R S input = Inr (rs', seg')"
    and asm: "\<exists>body. pack_block_body rs' (choose_prefix_size rs') = (body, bitmap) \<and>
       assemble_packet input (choose_prefix_size rs') (length rs') bitmap body seg' = Inr data"
    by (rule encoded_packet [OF enc S size nonces]) (rule that)
  have e: "rs' = rs" "seg' = seg" using blocks rs(1) by simp_all
  note rec = rec [unfolded e] and layout = layout [unfolded e, folded rs(2)] and lr = lr [unfolded e]
  obtain body where body: "pack_block_body rs n = (body, bitmap)"
    "assemble_packet input n (length rs) bitmap body seg = Inr data" using asm by (auto simp: e rs(2))
  have valid: "valid_prefix_size n" unfolding rs(2) by (rule choose_prefix_size_valid)
  note n = valid_prefix_size_bounds [OF valid]
  then have n256: "n < 256" by simp
  note head = layout_header [OF layout n256]
  have bi: "body_in data (offs ! 6) n rs (offs ! 7)"
    and count: "read_u32_le data (offs ! 5) = Inr (of_nat (length rs))" "length rs < 2 ^ 32"
    and table: "read_offsets data = Inr offs" "ensure_offsets offs (length data) = Inr ()"
    using layout unfolding packet_layout_def by blast+
  have "p_blocks input \<noteq> []"
    using enc by (auto simp: encode_packet_def validate_input_def rbind_Inr_iff returns)
  then have "0 < n * length rs" using n lr by simp
  moreover have "n * length rs \<le> length body"
    using pack_block_body_eq [where rs = rs and n = n] body(1)
    by (metis fst_conv le_add1 length_append length_concat_prefix_parts)
  ultimately have "0 < length body" by linarith
  from assemble_packet_update [OF body(2) this, of "p_blocks input" undefined offs] table(1)
  have base: "offs ! 6 = base" using rs(3) body(1) by simp
  have off: "base + length rs * n \<le> offs ! 7" "offs ! 7 \<le> length data"
    using bi by (auto simp: body_in_def mult.commute base)
  have small: "length rs * n < 2 ^ 64" using off size by linarith
  have site: "slice_of data (base + j * n) (base + j * n + 32) = Inr (as_bytes (b_hash (p_blocks input ! j)))"
    if j: "j < length rs" for j
  proof -
    obtain w where w: "written_by (p_blocks input ! j) (final_flags (b_flags (p_blocks input ! j)) (payloads ! j)) (us ! j)
        input (index_addresses (p_addresses input)) (index_u256 (p_difficulties input)) (rs ! j) w"
      by (rule record_of_written [OF rec [OF j]])
    note parts = record_head_parts [OF written_prefix(2) [OF w prefix_order.refl]]
    have "slice_of data (base + j * n) (base + (j + 1) * n) = Inr (prefix_part n (rs ! j))"
      using body_in_prefix_slice [OF bi j] by (simp add: base)
    then have s: "base + (j + 1) * n \<le> length data" "subslice data (base + j * n) (base + (j + 1) * n) = prefix_part n (rs ! j)"
      by (auto simp: returns)
    have "subslice data (base + j * n) (base + j * n + 32) = take 32 (prefix_part n (rs ! j))"
      using n unfolding s(2) [symmetric] by (simp add: subslice_def min_def)
    also have "\<dots> = take 32 (rs ! j)" using parts(1) n by (simp add: prefix_part_def)
    also have "\<dots> = as_bytes (b_hash (p_blocks input ! j))" using parts(2) by (simp add: subslice_def)
    finally show ?thesis using s(1) n by (simp add: slice_of_def)
  qed
  have sites': "traverse (\<lambda>j. let record = base + j * n
         in rbind (slice_of data record (record + 32)) (\<lambda>h. Inr (record + 44, H256 h))) [0..<length rs] =
      Inr (map (\<lambda>j. (base + j * n + 44, b_hash (p_blocks input ! j))) [0..<length rs])"
    by (rule traverse_map_Inr) (simp add: site Let_def)
  have u: "unat (of_nat (length rs) :: u32) = length rs" by (rule unat_of_nat_u32 [OF count(2)])
  have "ensure (HEADER_LEN \<le> length data) x = Inr ()" for x :: pack_failure using head(1) by simp
  then show ?thesis
    unfolding block_flag_sites_def head(9) table count(1) rbind_simps Let_def [of "unat _"] u base lr [symmetric]
    using valid off small sites' by (simp add: Let_def)
qed

end
