(* ===== verification/Packet_Total.thy ===== *)
theory Packet_Total
  imports Packet_Reflag
begin

text \<open>
  When the encoder returns: the conditions on the blocks under which every record and every payload
  is written, and a bound on the bytes before the transaction segment that keeps every offset in
  32 bits.
\<close>

subsection \<open>Records\<close>

definition block_encodable :: "'t packet \<Rightarrow> 't block \<Rightarrow> bool" where
  "block_encodable input b \<longleftrightarrow> b_author b \<in> set (p_addresses input) \<and> b_difficulty b \<in> set (p_difficulties input) \<and>
     p_min_timestamp input \<le> b_timestamp b \<and> p_min_height input \<le> b_height b \<and>
     unat (b_gas_limit b) < 2 ^ 54 \<and> unat (b_base_price_core b) < 2 ^ 54 \<and>
     unat (b_base_price_espace b) < 2 ^ 54 \<and> unat (b_base_reward b) < 2 ^ 86"

lemma length_put_uleb128: "length (put_uleb128 out v) \<le> length out + 10"
  using read_uleb128_bounds [OF read_put_uleb128 [of out v "put_uleb128 out v"]] by simp

lemma put_qc5e_returns:
  "(\<exists>out'. put_qc5e out v (qc5e_gas_limit_enum v) = Inr out') \<longleftrightarrow> unat v < 2 ^ 54"
  "(\<exists>out'. put_qc5e out v (qc5e_base_price_enum v espace) = Inr out') \<longleftrightarrow> unat v < 2 ^ 54"
proof -
  have some: "(\<exists>out'. put_qc5e out v (Some e) = Inr out') \<longleftrightarrow> e < 64" for e
    by (simp add: put_qc5e_def rbind_Inr_iff returns)
  show "(\<exists>out'. put_qc5e out v (qc5e_gas_limit_enum v) = Inr out') \<longleftrightarrow> unat v < 2 ^ 54"
    using some put_qc5e_ok_iff [of out v] by (auto simp: qc5e_gas_limit_enum_def)
  show "(\<exists>out'. put_qc5e out v (qc5e_base_price_enum v espace) = Inr out') \<longleftrightarrow> unat v < 2 ^ 54"
    using some put_qc5e_ok_iff [of out v] by (auto simp: qc5e_base_price_enum_def Let_def)
qed

lemma length_put_modes:
  "put_modes modes out c msg = Inr (Some out') \<Longrightarrow> \<forall>(m, l, b) \<in> set modes. l \<le> n \<Longrightarrow> 0 < n \<Longrightarrow>
     length out' \<le> length out + n"
proof (induction modes out c msg rule: put_modes.induct)
  case (2 mode l b rest out c msg)
  show ?case
  proof (cases "bit_len c \<le> b")
    case True
    then have "\<not> l < length c" "length out' = length out + Suc (length (tl (replicate (l - length c) 0 @ c)))"
      using "2.prems"(1) by (auto simp: Let_def rbind_Inr_iff split: if_splits)
    then show ?thesis using "2.prems"(2,3) by auto
  next
    case False
    with 2 show ?thesis by simp
  qed
qed simp

lemma length_put_qc5e:
  assumes "put_qc5e out v e = Inr out'"
  shows "length out' \<le> length out + 7"
proof (cases e)
  case None
  then obtain r where "put_modes qc5e_modes out (compact_be v) ''qc5e value exceeds payload bits'' = Inr r"
    "ok_or r (Bail ''qc5e value exceeds 54 bits'') = Inr out'"
    using assms unfolding put_qc5e_def by (auto simp: rbind_Inr_iff simp del: put_modes.simps)
  then have "put_modes qc5e_modes out (compact_be v) ''qc5e value exceeds payload bits'' = Inr (Some out')"
    by (cases r) auto
  then show ?thesis by (rule length_put_modes) (simp_all add: qc5e_modes_def)
next
  case (Some a)
  then show ?thesis using assms by (auto simp: put_qc5e_def rbind_Inr_iff)
qed

lemma length_put_qc8:
  assumes "put_qc8 out v = Inr out'"
  shows "length out' \<le> length out + 11"
proof -
  obtain r where "put_modes qc8_modes out (compact_be v) ''qc8 value exceeds payload bits'' = Inr r"
    "ok_or r (Bail ''qc8 value exceeds 86 bits'') = Inr out'"
    using assms unfolding put_qc8_def by (auto simp: rbind_Inr_iff simp del: put_modes.simps)
  then have "put_modes qc8_modes out (compact_be v) ''qc8 value exceeds payload bits'' = Inr (Some out')"
    by (cases r) auto
  then show ?thesis by (rule length_put_modes) (simp_all add: qc8_modes_def)
qed

lemma checked_sub_returns: "checked_sub a b = Some d \<longleftrightarrow> b \<le> a \<and> d = a - b"
  by (auto simp: checked_sub_def)

lemma encode_block_record_returns:
  "(\<exists>r. encode_block_record b f off input (index_addresses (p_addresses input)) (index_u256 (p_difficulties input)) = Inr r)
    \<longleftrightarrow> block_encodable input b"
proof
  assume "\<exists>r. encode_block_record b f off input (index_addresses (p_addresses input)) (index_u256 (p_difficulties input)) = Inr r"
  then obtain r w where w: "written_by b f off input (index_addresses (p_addresses input)) (index_u256 (p_difficulties input)) r w"
    using encode_block_record_written by blast
  have "b_author b \<in> set (p_addresses input)" "b_difficulty b \<in> set (p_difficulties input)"
    using w index_table_None [of "p_addresses input" "b_author b"] index_table_None [of "p_difficulties input" "b_difficulty b"]
    by (auto simp: written_by_def Let_def index_addresses_def index_u256_def)
  moreover have "p_min_timestamp input \<le> b_timestamp b" "p_min_height input \<le> b_height b"
    using w by (auto simp: written_by_def Let_def checked_sub_returns)
  moreover have "\<exists>out out'. put_qc5e out (b_gas_limit b) (qc5e_gas_limit_enum (b_gas_limit b)) = Inr out'"
    "\<exists>out out'. put_qc5e out (b_base_price_core b) (qc5e_base_price_enum (b_base_price_core b) False) = Inr out'"
    "\<exists>out out'. put_qc5e out (b_base_price_espace b) (qc5e_base_price_enum (b_base_price_espace b) True) = Inr out'"
    "\<exists>out out'. put_qc8 out (b_base_reward b) = Inr out'"
    using w unfolding written_by_def Let_def by fast+
  then have "unat (b_gas_limit b) < 2 ^ 54" "unat (b_base_price_core b) < 2 ^ 54"
    "unat (b_base_price_espace b) < 2 ^ 54" "unat (b_base_reward b) < 2 ^ 86"
    unfolding put_qc5e_returns put_qc8_ok_iff by auto
  ultimately show "block_encodable input b" by (simp add: block_encodable_def)
next
  assume b: "block_encodable input b"
  then obtain i j where i: "index_addresses (p_addresses input) (b_author b) = Some i"
    "index_u256 (p_difficulties input) (b_difficulty b) = Some j"
    using index_table_None [of "p_addresses input" "b_author b"] index_table_None [of "p_difficulties input" "b_difficulty b"]
    by (auto simp: block_encodable_def index_addresses_def index_u256_def)
  define o3 where "o3 = put_uleb128 (put_uleb128 (put_uleb128 (record_head b f) (of_nat i))
    (b_timestamp b - p_min_timestamp input)) (of_nat j)"
  obtain o4 where o4: "put_qc5e o3 (b_gas_limit b) (qc5e_gas_limit_enum (b_gas_limit b)) = Inr o4"
    using b put_qc5e_returns(1) [of o3 "b_gas_limit b"] by (auto simp: block_encodable_def)
  obtain o5 where o5: "put_qc5e o4 (b_base_price_core b) (qc5e_base_price_enum (b_base_price_core b) False) = Inr o5"
    using b put_qc5e_returns(2) [of o4 "b_base_price_core b" False] by (auto simp: block_encodable_def)
  obtain o6 where o6: "put_qc5e o5 (b_base_price_espace b) (qc5e_base_price_enum (b_base_price_espace b) True) = Inr o6"
    using b put_qc5e_returns(2) [of o5 "b_base_price_espace b" True] by (auto simp: block_encodable_def)
  define o10 where "o10 = put_uleb128 (put_uleb128 (put_uleb128 (put_uleb128 o6 (b_height b - p_min_height input))
    (b_blame b)) (b_finalized_epoch b)) off"
  obtain o11 where o11: "put_qc8 o10 (b_base_reward b) = Inr o11"
    using b put_qc8_ok_iff by (auto simp: block_encodable_def)
  show "\<exists>r. encode_block_record b f off input (index_addresses (p_addresses input)) (index_u256 (p_difficulties input)) = Inr r"
    using b i o4 o5 o6 o11 unfolding encode_block_record_fields put_record_fields_def o3_def o10_def
    by (simp add: block_encodable_def checked_sub_def)
qed

lemma encode_block_record_length:
  assumes "encode_block_record b f off input ai di = Inr r"
  shows "length r \<le> 157"
proof -
  obtain w where w: "written_by b f off input ai di r w" by (rule encode_block_record_written [OF assms])
  define o1 where "o1 = put_uleb128 (record_head b f) (of_nat (wr_author w))"
  define o2 where "o2 = put_uleb128 o1 (wr_timestamp w)"
  define o3 where "o3 = put_uleb128 o2 (of_nat (wr_difficulty w))"
  define o7 where "o7 = put_uleb128 (wr_after_espace w) (wr_height w)"
  define o8 where "o8 = put_uleb128 o7 (b_blame b)"
  define o9 where "o9 = put_uleb128 o8 (b_finalized_epoch b)"
  define o10 where "o10 = put_uleb128 o9 off"
  have l: "length o1 \<le> 55" "length o2 \<le> length o1 + 10" "length o3 \<le> length o2 + 10"
    "length o7 \<le> length (wr_after_espace w) + 10" "length o8 \<le> length o7 + 10" "length o9 \<le> length o8 + 10"
    "length o10 \<le> length o9 + 10"
    using length_put_uleb128 [of "record_head b f" "of_nat (wr_author w)"]
    unfolding o1_def o2_def o3_def o7_def o8_def o9_def o10_def by (simp_all add: length_put_uleb128)
  have p: "put_qc5e o3 (b_gas_limit b) (qc5e_gas_limit_enum (b_gas_limit b)) = Inr (wr_after_gas w)"
    "put_qc5e (wr_after_gas w) (b_base_price_core b) (qc5e_base_price_enum (b_base_price_core b) False) = Inr (wr_after_core w)"
    "put_qc5e (wr_after_core w) (b_base_price_espace b) (qc5e_base_price_enum (b_base_price_espace b) True) = Inr (wr_after_espace w)"
    "put_qc8 o10 (b_base_reward b) = Inr (wr_after_reward w)"
    "r = (case b_pos_view b of Some v \<Rightarrow> put_uleb128 (wr_after_reward w) (saturating_sub v (p_min_pos_height input))
       | None \<Rightarrow> wr_after_reward w)"
    using w unfolding written_by_def Let_def o1_def o2_def o3_def o7_def o8_def o9_def o10_def by blast+
  have "length r \<le> length (wr_after_reward w) + 10"
    unfolding p(5) using length_put_uleb128 by (simp split: option.split)
  then show ?thesis
    using l length_put_qc5e [OF p(1)] length_put_qc5e [OF p(2)] length_put_qc5e [OF p(3)] length_put_qc8 [OF p(4)]
    by linarith
qed

subsection \<open>Payloads and records of all blocks\<close>

definition tx_addressed :: "('t, 'acc, 'auth) tx_lib \<Rightarrow> 't packet \<Rightarrow> 't \<Rightarrow> bool" where
  "tx_addressed T input tx \<longleftrightarrow> tl_sender T tx \<in> set (p_addresses input) \<and>
     (\<forall>a. tl_action T tx = Call a \<longrightarrow> a \<in> set (p_addresses input))"

lemma encode_tx_returns:
  assumes "tx_addressed T input tx"
  shows "\<exists>item. encode_tx T e tx (index_addresses (p_addresses input)) gi ni = Inr item"
proof -
  have look: "\<exists>i. index_addresses (p_addresses input) a = Some i" if "a \<in> set (p_addresses input)" for a
    using that index_table_None [of "p_addresses input" a] by (auto simp: index_addresses_def)
  obtain i where i: "index_addresses (p_addresses input) (tl_sender T tx) = Some i"
    using look assms by (auto simp: tx_addressed_def)
  show ?thesis
  proof (cases "tl_action T tx")
    case Create
    with i show ?thesis by (auto simp: encode_tx_def encode_action_def Let_def split: option.split)
  next
    case (Call a)
    then obtain j where "index_addresses (p_addresses input) a = Some j"
      using look assms by (auto simp: tx_addressed_def)
    with i Call show ?thesis by (auto simp: encode_tx_def encode_action_def Let_def split: option.split)
  qed
qed

lemma encode_txs_returns:
  "\<forall>tx \<in> set txs. tx_addressed T input tx \<Longrightarrow>
     \<exists>items s'. encode_txs T b (index_addresses (p_addresses input)) gi ni i txs s = Inr (items, s')"
proof (induction txs arbitrary: i s)
  case (Cons tx txs)
  have IH: "\<exists>items s'. encode_txs T b (index_addresses (p_addresses input)) gi ni (Suc i) txs s1 = Inr (items, s')" for s1
    using Cons.IH Cons.prems by simp
  obtain item where item: "encode_tx T (b_epoch b) tx (index_addresses (p_addresses input)) gi ni = Inr item"
    using encode_tx_returns Cons.prems by (metis list.set_intros(1))
  let ?er = "length (b_transaction_refs b) = length (b_transactions b)"
  let ?r = "if ?er then b_transaction_refs b ! i else s (tl_hash T tx)"
  show ?case
  proof (cases ?r)
    case None
    from IH [of "if ?er then s else s(tl_hash T tx \<mapsto> (b_index b, i))"] None item show ?thesis
      by (auto simp: Let_def split: option.splits)
  next
    case (Some r)
    from IH [of s] Some show ?thesis by (auto simp: Let_def)
  qed
qed simp

lemma encode_payloads_returns:
  "\<forall>b \<in> set bs. \<forall>tx \<in> set (b_transactions b). tx_addressed T input tx \<Longrightarrow>
     \<exists>payloads. encode_payloads T R (index_addresses (p_addresses input)) gi ni bs s = Inr payloads"
proof (induction bs arbitrary: s)
  case (Cons b bs)
  have "\<exists>p s'. encode_tx_payload T R b (index_addresses (p_addresses input)) gi ni s = Inr (p, s')"
    using encode_txs_returns [of "b_transactions b" T input b gi ni 0 s] Cons.prems
    by (auto simp: encode_tx_payload_def)
  then obtain p s' where "encode_tx_payload T R b (index_addresses (p_addresses input)) gi ni s = Inr (p, s')" by blast
  moreover obtain ps where "encode_payloads T R (index_addresses (p_addresses input)) gi ni bs s' = Inr ps"
    using Cons.IH [of s'] Cons.prems by auto
  ultimately show ?case by simp
qed simp

text \<open>
  What the compressor promises: an input shorter than \<open>2^32\<close> bytes is compressed, into at most
  \<open>max_compress_len\<close> bytes.
\<close>

definition snap_total :: "snap_lib \<Rightarrow> bool" where
  "snap_total S \<longleftrightarrow> (\<forall>p. length p < 2 ^ 32 \<longrightarrow>
     (\<exists>c. snap_compress S p = Inr c \<and> length c \<le> 32 + length p + length p div 6))"

definition segment_bound :: "bytes list \<Rightarrow> nat" where
  "segment_bound payloads = sum_list (map (\<lambda>p. 45 + 2 * length p) payloads)"

lemma length_align_to_4: "length (align_to out 4) \<le> length out + 3"
  by (simp add: align_to_def Let_def)

lemma place_payload_returns:
  assumes "snap_total S" "length payload < 2 ^ 32"
  shows "\<exists>f' off seg'. place_payload S f payload seg = Inr (f', off, seg') \<and>
    length seg' \<le> length seg + (45 + 2 * length payload)"
proof -
  obtain c where "snap_compress S payload = Inr c" "length c \<le> 32 + length payload + length payload div 6"
    using assms by (auto simp: snap_total_def)
  then show ?thesis
    using length_align_to_4 [of seg] length_put_uleb128 [of "align_to seg 4" "of_nat (length c)"]
      length_put_uleb128 [of "align_to seg 4" "of_nat (length payload)"]
    by (auto simp: place_payload_def Let_def)
qed

lemma encode_records_returns:
  assumes "snap_total S"
  shows "\<forall>(b, payload) \<in> set bps. block_encodable input b \<and> length payload < 2 ^ 32 \<Longrightarrow>
    \<exists>rs seg'. encode_records S input (index_addresses (p_addresses input)) (index_u256 (p_difficulties input)) bps seg
       = Inr (rs, seg') \<and> length rs = length bps \<and> (\<forall>r \<in> set rs. length r \<le> 157) \<and>
       length seg' \<le> length seg + segment_bound (map snd bps)"
proof (induction bps arbitrary: seg)
  case (Cons bp bps)
  obtain b payload where bp: "bp = (b, payload)" by (cases bp)
  have ok: "block_encodable input b" "length payload < 2 ^ 32" using Cons.prems bp by auto
  obtain f off seg1 where p: "place_payload S (b_flags b) payload seg = Inr (f, off, seg1)"
    "length seg1 \<le> length seg + (45 + 2 * length payload)"
    using place_payload_returns [OF assms ok(2)] by blast
  obtain r where r: "encode_block_record b f off input (index_addresses (p_addresses input)) (index_u256 (p_difficulties input)) = Inr r"
    using encode_block_record_returns ok(1) by blast
  obtain rs seg' where "encode_records S input (index_addresses (p_addresses input)) (index_u256 (p_difficulties input)) bps seg1
      = Inr (rs, seg')" "length rs = length bps" "\<forall>r \<in> set rs. length r \<le> 157"
    "length seg' \<le> length seg1 + segment_bound (map snd bps)"
    using Cons.IH [of seg1] Cons.prems by auto
  with p r encode_block_record_length [OF r] show ?case by (simp add: bp segment_bound_def)
qed (simp add: segment_bound_def)

subsection \<open>Layout\<close>

definition table_bytes :: "'t packet \<Rightarrow> nat" where
  "table_bytes input = 20 * length (p_addresses input) + 34 * length (p_pos_entries input)
     + 32 * length (p_difficulties input) + 20 * length (p_sender_base_nonces input) + 32 * length (p_gas_prices input)"

text \<open>A bound on the bytes before the transaction segment.\<close>

definition head_bound :: "'t packet \<Rightarrow> nat" where
  "head_bound input = 300 + table_bytes input + 264 * length (p_blocks input)"

lemma write_offsets_returns:
  "\<forall>x \<in> set offs. x < 2 ^ 32 \<Longrightarrow> 93 + 4 * (i + length offs) \<le> length out \<Longrightarrow>
     \<exists>data. write_offsets i offs out = Inr data \<and> length data = length out"
proof (induction i offs out rule: write_offsets.induct)
  case (2 i offset offsets out)
  then have "length (copy_into out (HEADER_FIXED_LEN + i * 4) (to_le_bytes 4 (of_nat offset :: u32))) = length out"
    by (simp add: copy_into_def)
  with 2 show ?case by auto
qed simp

lemma length_concat_le: "\<forall>x \<in> set xs. length (f x) \<le> k \<Longrightarrow> length (concat (map f xs)) \<le> k * length xs"
  by (induction xs) auto

lemma length_put_sender_nonces: "length (fold put_sender_nonce ns out) \<le> length out + 20 * length ns"
proof (induction ns arbitrary: out)
  case (Cons e ns)
  have "length (put_sender_nonce e out) \<le> length out + 20"
    using length_put_uleb128 [of out "of_nat (sn_sender_index e)"]
      length_put_uleb128 [of "put_uleb128 out (of_nat (sn_sender_index e))" "sn_base_nonce e"]
    by (simp add: put_sender_nonce_def)
  with Cons [of "put_sender_nonce e out"] show ?case by simp
qed simp

lemma length_align_to_le: "0 < n \<Longrightarrow> length (align_to out n) < length out + n \<and> length out \<le> length (align_to out n)"
  by (simp add: align_to_def Let_def)

lemma div_ceil8_le: "div_ceil8 c \<le> c"
  by (cases c) (simp_all add: div_ceil8_def)

lemma assemble_packet_returns:
  assumes head: "head_bound input < 2 ^ 32" and c: "c = length (p_blocks input)"
    and bm: "length bm = div_ceil8 c" and body: "length body \<le> 263 * c"
  shows "\<exists>data. assemble_packet input n c bm body seg = Inr data \<and> length data \<le> head_bound input + length seg"
proof -
  define o0 where "o0 = packet_header input n"
  define o1 where "o1 = o0 @ concat (map address_bytes (p_addresses input))"
  define o2 where "o2 = o1 @ concat (map (\<lambda>e. as_bytes (pl_hash e) @ to_le_bytes 2 (pl_height_offset e)) (p_pos_entries input))"
  define o3 where "o3 = o2 @ concat (map u256_to_be (p_difficulties input))"
  define o4 where "o4 = fold put_sender_nonce (p_sender_base_nonces input) o3"
  define o5 where "o5 = align_to (o4 @ concat (map u256_to_be (p_gas_prices input))) 32"
  define o6 where "o6 = align_to (put_u32_le o5 (of_nat c) @ bm) 32"
  define o7 where "o7 = align_to (o6 @ body) 64"
  have "length o0 = 125" by (simp add: o0_def packet_header_eq)
  moreover have "length o1 \<le> length o0 + 20 * length (p_addresses input)" "length o0 \<le> length o1"
    using length_concat_le [of "p_addresses input" address_bytes 20] by (simp_all add: o1_def)
  moreover have "length o2 \<le> length o1 + 34 * length (p_pos_entries input)" "length o1 \<le> length o2"
    using length_concat_le [of "p_pos_entries input" "\<lambda>e. as_bytes (pl_hash e) @ to_le_bytes 2 (pl_height_offset e)" 34]
    by (simp_all add: o2_def)
  moreover have "length o3 \<le> length o2 + 32 * length (p_difficulties input)" "length o2 \<le> length o3"
    using length_concat_le [of "p_difficulties input" u256_to_be 32] by (simp_all add: o3_def u256_to_be_def)
  moreover have "length o4 \<le> length o3 + 20 * length (p_sender_base_nonces input)" "length o3 \<le> length o4"
    using length_put_sender_nonces [of "p_sender_base_nonces input" o3] fold_put_sender_nonce [of _ o3]
    by (simp add: o4_def) (metis fold_put_sender_nonce le_add1 length_append o4_def)
  moreover have "length o5 < length o4 + 32 * length (p_gas_prices input) + 32" "length o4 \<le> length o5"
    using length_concat_le [of "p_gas_prices input" u256_to_be 32]
      length_align_to_le [of 32 "o4 @ concat (map u256_to_be (p_gas_prices input))"]
    by (simp_all add: o5_def u256_to_be_def)
  moreover have "length o6 < length o5 + 4 + c + 32" "length o5 \<le> length o6"
    using length_align_to_le [of 32 "put_u32_le o5 (of_nat c) @ bm"] div_ceil8_le [of c]
    by (simp_all add: o6_def put_u32_le_def bm)
  moreover have "length o7 < length o6 + 263 * c + 64" "length o6 \<le> length o7"
    using length_align_to_le [of 64 "o6 @ body"] body by (simp_all add: o7_def)
  moreover define offs where "offs = [length o0, length o1, length o2, length o3, length o4, length o5, length o6, length o7]"
  ultimately have le: "length o7 \<le> head_bound input" "125 \<le> length o7" "\<forall>x \<in> set offs. x \<le> length o7"
    by (auto simp: head_bound_def table_bytes_def c)
  then have "\<exists>data. write_offsets 0 offs (o7 @ seg) = Inr data \<and> length data = length (o7 @ seg)"
    using head by (intro write_offsets_returns) (auto simp: offs_def)
  then obtain data where "write_offsets 0 offs (o7 @ seg) = Inr data" "length data = length (o7 @ seg)" by blast
  then show ?thesis
    using le(1) unfolding assemble_packet_def Let_def
    unfolding o0_def [symmetric] o1_def [symmetric] o2_def [symmetric] o3_def [symmetric] o4_def [symmetric]
      o5_def [symmetric] o6_def [symmetric] o7_def [symmetric] offs_def [symmetric]
    by (simp add: offs_def)
qed

lemma length_block_body:
  assumes "\<forall>r \<in> set rs. length r \<le> 157" "n \<le> 96"
  shows "length (concat (map (prefix_part n) rs) @ concat (map (overflow_part n) rs)) \<le> 263 * length rs"
proof -
  have "length (overflow_part n r) \<le> 167" if "r \<in> set rs" for r
    using length_put_uleb128 [of "[]" "of_nat (length (drop n r))"] assms(1) that
    by (fastforce simp: overflow_part_def)
  then have "length (concat (map (overflow_part n) rs)) \<le> 167 * length rs"
    by (intro length_concat_le) simp
  moreover have "length (concat (map (prefix_part n) rs)) \<le> 96 * length rs"
    using assms(2) by (intro length_concat_le) (simp add: prefix_part_def)
  ultimately show ?thesis by simp
qed

subsection \<open>The encoder\<close>

text \<open>The payloads of the blocks in the order of the blocks, as the first loop of \<open>encode_blocks\<close> collects them.\<close>

abbreviation packet_payloads :: "('t, 'acc, 'auth) tx_lib \<Rightarrow> ('r, 'acc, 'auth) rlp_lib \<Rightarrow> 't packet \<Rightarrow> bytes list pack_result" where
  "packet_payloads T R input \<equiv> encode_payloads T R (index_addresses (p_addresses input)) (index_u256 (p_gas_prices input))
     (sender_nonce_index_of (p_sender_base_nonces input)) (p_blocks input) Map.empty"

definition packet_encodable :: "('t, 'acc, 'auth) tx_lib \<Rightarrow> 't packet \<Rightarrow> bool" where
  "packet_encodable T input \<longleftrightarrow> validate_input input = Inr () \<and> head_bound input < 2 ^ 32 \<and>
     (\<forall>b \<in> set (p_blocks input). block_encodable input b \<and> (\<forall>tx \<in> set (b_transactions b). tx_addressed T input tx))"

lemma encode_packet_total:
  assumes ok: "packet_encodable T input" and S: "snap_total S"
    and small: "\<And>payloads p. packet_payloads T R input = Inr payloads \<Longrightarrow> p \<in> set payloads \<Longrightarrow> length p < 2 ^ 32"
  shows "\<exists>payloads data. packet_payloads T R input = Inr payloads \<and> encode_packet T R S input = Inr data \<and>
    length data \<le> head_bound input + segment_bound payloads"
proof -
  obtain payloads where payloads: "packet_payloads T R input = Inr payloads"
    using encode_payloads_returns ok unfolding packet_encodable_def by blast
  have len: "length payloads = length (p_blocks input)" by (rule length_encode_payloads [OF payloads])
  have "\<forall>(b, p) \<in> set (zip (p_blocks input) payloads). block_encodable input b \<and> length p < 2 ^ 32"
    using ok small [OF payloads] by (auto simp: packet_encodable_def dest: set_zip_leftD set_zip_rightD)
  then obtain rs seg where rs: "encode_records S input (index_addresses (p_addresses input)) (index_u256 (p_difficulties input))
      (zip (p_blocks input) payloads) [] = Inr (rs, seg)" "length rs = length (p_blocks input)"
    "\<forall>r \<in> set rs. length r \<le> 157" "length seg \<le> segment_bound payloads"
    using encode_records_returns [OF S, of "zip (p_blocks input) payloads" input "[]"] len by auto
  let ?n = "choose_prefix_size rs"
  obtain bm where body: "pack_block_body rs ?n = (concat (map (prefix_part ?n) rs) @ concat (map (overflow_part ?n) rs), bm)"
    and bm: "length bm = div_ceil8 (length rs)"
    by (rule pack_block_body_eq [where rs = rs and n = ?n]) (rule that)
  have n: "?n \<le> 96" using valid_prefix_size_bounds [OF choose_prefix_size_valid [of rs]] by simp
  obtain data where "assemble_packet input ?n (length rs) bm (concat (map (prefix_part ?n) rs) @ concat (map (overflow_part ?n) rs)) seg
      = Inr data" "length data \<le> head_bound input + length seg"
    using assemble_packet_returns [OF _ rs(2) bm length_block_body [OF rs(3) n]] ok
    by (fastforce simp: packet_encodable_def)
  then have "encode_packet T R S input = Inr data"
    using ok payloads rs(1) body by (simp add: packet_encodable_def encode_packet_def encode_blocks_def Let_def)
  with payloads \<open>length data \<le> _\<close> rs(4) show ?thesis by (intro exI conjI) (assumption, assumption, simp)
qed

end
