(* ===== verification/Pack_Container.thy ===== *)
theory Pack_Container
  imports Pack_Codec_Correct Btree_Map
begin

text \<open>
  \<open>crates/cfxpack/src/container.rs\<close>: the container file around the packets, its directory,
  and the names of container files. A path is its parent directory and its last component;
  \<open>file_name().and_then(to_str)\<close> is \<open>None\<close> where there is no such component or it is not UTF-8.
\<close>

definition MAGIC :: bytes where
  "MAGIC = map of_nat [67, 70, 88, 80, 65, 67, 75, 49]"

definition FORMAT_VERSION :: u32 where
  "FORMAT_VERSION = 1"

definition CONTAINER_HEADER_LEN :: nat where
  "CONTAINER_HEADER_LEN = 24"

definition DIR_ENTRY_LEN :: nat where
  "DIR_ENTRY_LEN = 32"

record path =
  parent :: string
  file_name :: "string option"

subsection \<open>Decimal numbers in file names\<close>

definition digit_of :: "nat \<Rightarrow> char" where
  "digit_of d = char_of (48 + d)"

definition digit_val :: "char \<Rightarrow> nat option" where
  "digit_val c = (let n = of_char c in if 48 \<le> n \<and> n < 58 then Some (n - 48) else None)"

fun dec_digits :: "nat \<Rightarrow> string" where
  "dec_digits n = (if n < 10 then [digit_of n] else dec_digits (n div 10) @ [digit_of (n mod 10)])"

declare dec_digits.simps [simp del]

fun parse_digits :: "nat \<Rightarrow> string \<Rightarrow> nat option" where
  "parse_digits acc [] = Some acc"
| "parse_digits acc (c # cs) =
     (case digit_val c of None \<Rightarrow> None | Some d \<Rightarrow> parse_digits (10 * acc + d) cs)"

text \<open>\<open>str::parse::<u64>\<close>: digits after an optional plus sign, and no overflow.\<close>

definition parse_u64 :: "string \<Rightarrow> u64 option" where
  "parse_u64 s =
     (let ds = (case s of c # cs \<Rightarrow> if c = CHR ''+'' then cs else s | [] \<Rightarrow> [])
      in if ds = [] then None
         else case parse_digits 0 ds of
                None \<Rightarrow> None
              | Some n \<Rightarrow> if n < 2 ^ 64 then Some (of_nat n) else None)"

text \<open>\<open>str::rsplit\<close> with one character, on the reversed string.\<close>

function rsplit_rev :: "char \<Rightarrow> string \<Rightarrow> string list" where
  "rsplit_rev c r =
     rev (takeWhile (\<lambda>x. x \<noteq> c) r)
     # (case dropWhile (\<lambda>x. x \<noteq> c) r of [] \<Rightarrow> [] | _ # r' \<Rightarrow> rsplit_rev c r')"
  by auto
termination
proof (relation "measure (\<lambda>(c, r). length r)", simp, clarsimp)
  fix c :: char and r x r'
  assume "dropWhile (\<lambda>x. x \<noteq> c) r = x # r'"
  then show "length r' < length r" using length_dropWhile_le [of "\<lambda>x. x \<noteq> c" r] by simp
qed

declare rsplit_rev.simps [simp del]

definition rsplit :: "char \<Rightarrow> string \<Rightarrow> string list" where
  "rsplit c s = rsplit_rev c (rev s)"

subsection \<open>File names\<close>

definition is_cfxpack :: "path \<Rightarrow> bool" where
  "is_cfxpack p = (case file_name p of None \<Rightarrow> False
     | Some name \<Rightarrow> suffix ''.cfxpack'' name \<or> suffix ''.cfxpack.zst'' name)"

definition is_compressed :: "path \<Rightarrow> bool" where
  "is_compressed p = (case file_name p of None \<Rightarrow> False | Some name \<Rightarrow> suffix ''.cfxpack.zst'' name)"

definition strip_suffix :: "string \<Rightarrow> string \<Rightarrow> string option" where
  "strip_suffix s name = (if suffix s name then Some (take (length name - length s) name) else None)"

definition cfxpack_stem :: "path \<Rightarrow> string option" where
  "cfxpack_stem p =
     (case file_name p of None \<Rightarrow> None
      | Some name \<Rightarrow>
          (case strip_suffix ''.cfxpack.zst'' name of
             Some s \<Rightarrow> Some s
           | None \<Rightarrow> strip_suffix ''.cfxpack'' name))"

definition start_epoch :: "path \<Rightarrow> u64 option" where
  "start_epoch p =
     (case cfxpack_stem p of None \<Rightarrow> None
      | Some stem \<Rightarrow>
          (case rsplit CHR ''_'' stem of
             _ # s # _ \<Rightarrow> parse_u64 s
           | _ \<Rightarrow> None))"

definition end_epoch :: "path \<Rightarrow> u64 option" where
  "end_epoch p =
     (case cfxpack_stem p of None \<Rightarrow> None
      | Some stem \<Rightarrow>
          (case rsplit CHR ''_'' stem of
             e # _ \<Rightarrow> parse_u64 e
           | _ \<Rightarrow> None))"

text \<open>The entries of \<open>read_dir\<close> are an argument, in the order the system lists them.\<close>

definition add_file :: "path \<Rightarrow> (u64, path) btree \<Rightarrow> (u64, path) btree" where
  "add_file p by_start =
     (if \<not> is_cfxpack p then by_start
      else case start_epoch p of
        None \<Rightarrow> by_start
      | Some start \<Rightarrow>
          (let prefer_new = (is_compressed p \<or>
                 \<not> (case bt_get by_start start of None \<Rightarrow> False | Some old \<Rightarrow> is_compressed old))
           in if prefer_new then bt_insert start p by_start else by_start))"

definition collect_files :: "path list \<Rightarrow> path list pack_result" where
  "collect_files entries =
     (let files = map snd (fold add_file entries [])
      in rbind (ensure (files \<noteq> []) (Bail ''no .cfxpack files'')) (\<lambda>_. Inr files))"

subsection \<open>Directory\<close>

definition validate_contiguity :: "u64 \<Rightarrow> u64 option \<Rightarrow> u64 \<Rightarrow> unit pack_result" where
  "validate_contiguity start next_expected resume_height =
     (case next_expected of
        Some expected \<Rightarrow> ensure (start = expected) (Bail ''non-contiguous groups'')
      | None \<Rightarrow> ensure (resume_height = 0 \<or> start = resume_height + 1) (Bail ''resume gap''))"

definition u64_at :: "bytes \<Rightarrow> nat \<Rightarrow> u64" where
  "u64_at data pos = from_le_bytes (subslice data pos (pos + 8))"

fun parse_entries :: "bytes \<Rightarrow> nat \<Rightarrow> nat \<Rightarrow> (u64 \<times> u64 \<times> nat \<times> nat) list pack_result" where
  "parse_entries data pos 0 = Inr []"
| "parse_entries data pos (Suc n) =
     rbind (ensure (pos + DIR_ENTRY_LEN \<le> length data) (Bail ''truncated directory'')) (\<lambda>_.
       let start = u64_at data pos;
           epoch_count = u64_at data (pos + 8);
           offset = unat (u64_at data (pos + 16));
           len = unat (u64_at data (pos + 24))
       in rbind (ensure (usize_add offset len \<le> length data) (Bail ''payload out of bounds'')) (\<lambda>_.
            rbind (parse_entries data (pos + DIR_ENTRY_LEN) n) (\<lambda>entries.
              Inr ((start, epoch_count, offset, len) # entries))))"

definition parse_directory :: "bytes \<Rightarrow> (u64 \<times> u64 \<times> nat \<times> nat) list pack_result" where
  "parse_directory data =
     rbind (ensure (CONTAINER_HEADER_LEN \<le> length data \<and> subslice data 0 8 = MAGIC)
              (Bail ''not a cfxpack container'')) (\<lambda>_.
       let group_count = unat (from_le_bytes (subslice data 12 16) :: u32)
       in parse_entries data CONTAINER_HEADER_LEN group_count)"

end
