(* ===== verification/Flag_Patch.thy ===== *)
theory Flag_Patch
  imports Packet_Decode Pack_Container
begin

text \<open>
  \<open>crates/replay-data-extractor/src/extract/flagpatch.rs\<close>: the pass that sets
  \<open>FLAG_ZERO_TOTAL_REWARD\<close> in containers that are already written.

  The reward database is a function from the block hash to the total reward (or an error); the
  files are a partial function from paths to bytes. The threads that read the rewards are a state
  machine: one step is one turn of a thread's loop, and a schedule says whose turn it is. Progress
  output, the monitor thread and I/O failures other than a missing file are left out; file names
  that are not UTF-8 are not represented.
\<close>

subsection \<open>The container directory\<close>

fun parse_payloads :: "bytes \<Rightarrow> nat \<Rightarrow> nat \<Rightarrow> (nat \<times> nat) list pack_result" where
  "parse_payloads data pos 0 = Inr []"
| "parse_payloads data pos (Suc n) =
     rbind (ensure (pos + DIR_ENTRY_LEN \<le> length data) (Bail ''truncated directory'')) (\<lambda>_.
       let offset = unat (u64_at data (pos + 16));
           len = unat (u64_at data (pos + 24))
       in rbind (ensure (usize_add offset len \<le> length data) (Bail ''payload out of bounds'')) (\<lambda>_.
            rbind (parse_payloads data (pos + DIR_ENTRY_LEN) n) (\<lambda>entries. Inr ((offset, len) # entries))))"

definition parse_container :: "bytes \<Rightarrow> (nat \<times> nat) list pack_result" where
  "parse_container data =
     rbind (ensure (CONTAINER_HEADER_LEN \<le> length data \<and> subslice data 0 8 = MAGIC)
              (Bail ''not a cfxpack container'')) (\<lambda>_.
       let group_count = unat (from_le_bytes (subslice data 12 16) :: u32)
       in parse_payloads data CONTAINER_HEADER_LEN group_count)"

fun collect_sites :: "bytes \<Rightarrow> (nat \<times> nat) list \<Rightarrow> (nat \<times> h256) list pack_result" where
  "collect_sites data [] = Inr []"
| "collect_sites data ((offset, len) # entries) =
     rbind (slice_of data offset (usize_add offset len)) (\<lambda>packet.
     rbind (block_flag_sites packet) (\<lambda>found.
     rbind (collect_sites data entries) (\<lambda>rest.
       Inr (map (\<lambda>(rel, h). (usize_add offset rel, h)) found @ rest))))"

subsection \<open>The threads\<close>

text \<open>
  A thread claims block indices in its loop; after the loop it adds its progress and its offsets to
  the shared state and is done.
\<close>

datatype phase = Claiming | Leaving | Done

record claimer =
  cl_phase :: phase
  cl_local :: "nat list"
  cl_progress :: u64

record scan =
  sc_cursor :: nat
  sc_claimers :: "claimer list"
  sc_flips :: "nat list"
  sc_err :: "pack_failure option"
  sc_progress :: u64

type_synonym reward_db = "h256 \<Rightarrow> u256 option pack_result"

definition total_reward_zero :: "u256 option \<Rightarrow> bool" where
  "total_reward_zero reward \<longleftrightarrow> (case reward of None \<Rightarrow> 0 | Some v \<Rightarrow> v) = (0 :: u256)"

definition claim_block :: "reward_db \<Rightarrow> (nat \<times> h256) list \<Rightarrow> nat \<Rightarrow> scan \<Rightarrow> scan" where
  "claim_block read_reward sites w s =
     (let i = sc_cursor s; c = sc_claimers s ! w; s = s\<lparr>sc_cursor := i + 1\<rparr>
      in if length sites \<le> i then s\<lparr>sc_claimers := (sc_claimers s)[w := c\<lparr>cl_phase := Leaving\<rparr>]\<rparr>
         else case read_reward (snd (sites ! i)) of
                Inl e \<Rightarrow> s\<lparr>sc_err := Some e, sc_claimers := (sc_claimers s)[w := c\<lparr>cl_phase := Leaving\<rparr>]\<rparr>
              | Inr reward \<Rightarrow>
                  let c = (if total_reward_zero reward then c\<lparr>cl_local := cl_local c @ [fst (sites ! i)]\<rparr> else c);
                      c = c\<lparr>cl_progress := cl_progress c + 1\<rparr>
                  in if 4096 \<le> cl_progress c
                     then s\<lparr>sc_progress := sc_progress s + cl_progress c,
                            sc_claimers := (sc_claimers s)[w := c\<lparr>cl_progress := 0\<rparr>]\<rparr>
                     else s\<lparr>sc_claimers := (sc_claimers s)[w := c]\<rparr>)"

definition leave_scan :: "nat \<Rightarrow> scan \<Rightarrow> scan" where
  "leave_scan w s =
     (let c = sc_claimers s ! w
      in s\<lparr>sc_progress := sc_progress s + cl_progress c, sc_flips := sc_flips s @ cl_local c,
           sc_claimers := (sc_claimers s)[w := c\<lparr>cl_phase := Done, cl_local := [], cl_progress := 0\<rparr>]\<rparr>)"

definition thread_step :: "reward_db \<Rightarrow> (nat \<times> h256) list \<Rightarrow> nat \<Rightarrow> scan \<Rightarrow> scan" where
  "thread_step read_reward sites w s =
     (if length (sc_claimers s) \<le> w then s
      else case cl_phase (sc_claimers s ! w) of
             Claiming \<Rightarrow> claim_block read_reward sites w s
           | Leaving \<Rightarrow> leave_scan w s
           | Done \<Rightarrow> s)"

definition scan_init :: "nat \<Rightarrow> u64 \<Rightarrow> scan" where
  "scan_init jobs progress =
     \<lparr>sc_cursor = 0,
      sc_claimers = replicate (max jobs 1) \<lparr>cl_phase = Claiming, cl_local = [], cl_progress = 0\<rparr>,
      sc_flips = [], sc_err = None, sc_progress = progress\<rparr>"

definition run_schedule :: "reward_db \<Rightarrow> (nat \<times> h256) list \<Rightarrow> nat list \<Rightarrow> scan \<Rightarrow> scan" where
  "run_schedule read_reward sites schedule s = fold (thread_step read_reward sites) schedule s"

text \<open>
  \<open>thread::scope\<close> returns when every thread is done: a schedule is followed by as many rounds of
  all the threads as can be needed.
\<close>

definition rounds :: "nat \<Rightarrow> nat \<Rightarrow> nat list" where
  "rounds k jobs = concat (replicate k [0..<max jobs 1])"

definition scan_scope :: "reward_db \<Rightarrow> (nat \<times> h256) list \<Rightarrow> nat \<Rightarrow> nat list \<Rightarrow> u64 \<Rightarrow> scan" where
  "scan_scope read_reward sites jobs schedule progress =
     run_schedule read_reward sites (schedule @ rounds (length sites + 2 * max jobs 1) jobs)
       (scan_init jobs progress)"

subsection \<open>Patching\<close>

fun apply_flips :: "nat list \<Rightarrow> bytes \<Rightarrow> bool \<Rightarrow> (bytes \<times> bool) pack_result" where
  "apply_flips [] data changed = Inr (data, changed)"
| "apply_flips (pos # flips) data changed =
     rbind (index_at data pos) (\<lambda>b.
       if b AND FLAG_ZERO_TOTAL_REWARD = 0
       then apply_flips flips (data[pos := b OR FLAG_ZERO_TOTAL_REWARD]) True
       else apply_flips flips data changed)"

record patched =
  pd_data :: bytes
  pd_blocks_seen :: u64
  pd_blocks_flagged :: u64
  pd_changed :: bool

definition patch_container_bytes :: "reward_db \<Rightarrow> nat \<Rightarrow> nat list \<Rightarrow> bytes \<Rightarrow> patched pack_result" where
  "patch_container_bytes read_reward jobs schedule data =
     rbind (parse_container data) (\<lambda>entries.
     rbind (collect_sites data entries) (\<lambda>sites.
       let s = scan_scope read_reward sites jobs schedule 0
       in case sc_err s of
            Some e \<Rightarrow> Inl e
          | None \<Rightarrow>
              rbind (apply_flips (sc_flips s) data False) (\<lambda>(data, changed).
                Inr \<lparr>pd_data = data, pd_blocks_seen = of_nat (length sites),
                     pd_blocks_flagged = of_nat (length (sc_flips s)), pd_changed = changed\<rparr>)))"

subsection \<open>Files\<close>

definition fp_start_epoch :: "path \<Rightarrow> u64" where
  "fp_start_epoch p =
     (case file_name p of None \<Rightarrow> - 1
      | Some n \<Rightarrow>
          if prefix ''epochs_'' n
          then case parse_u64 (takeWhile (\<lambda>c. c \<noteq> CHR ''_'') (drop (length ''epochs_'') n)) of
                 None \<Rightarrow> - 1 | Some v \<Rightarrow> v
          else - 1)"

text \<open>\<open>Path::extension\<close>: what follows the last dot, unless nothing stands before it.\<close>

definition extension :: "path \<Rightarrow> string option" where
  "extension p =
     (case file_name p of None \<Rightarrow> None
      | Some n \<Rightarrow>
          (case rsplit CHR ''.'' n of
             ext # before \<Rightarrow> if before = [] \<or> before = [''''] \<or> n = ''..'' then None else Some ext
           | [] \<Rightarrow> None))"

definition collect_sorted_pack_files :: "path list \<Rightarrow> u64 option \<Rightarrow> u64 option \<Rightarrow> path list pack_result" where
  "collect_sorted_pack_files entries max_epoch min_epoch =
     (let files = filter (\<lambda>p. extension p = Some ''cfxpack'') entries;
          files = sort_key fp_start_epoch files;
          files = (case max_epoch of Some limit \<Rightarrow> filter (\<lambda>p. fp_start_epoch p < limit) files | None \<Rightarrow> files);
          files = (case min_epoch of Some floor \<Rightarrow> filter (\<lambda>p. floor \<le> fp_start_epoch p) files | None \<Rightarrow> files)
      in rbind (ensure (files \<noteq> []) (Bail ''no .cfxpack files'')) (\<lambda>_. Inr files))"

record flag_patch_summary =
  fs_files_scanned :: nat
  fs_files_changed :: nat
  fs_blocks_total :: u64
  fs_blocks_flagged :: u64
  fs_bytes_rewritten :: u64
  fs_changed_files :: "path list"

definition flag_patch_summary_default :: flag_patch_summary where
  "flag_patch_summary_default = \<lparr>fs_files_scanned = 0, fs_files_changed = 0, fs_blocks_total = 0,
     fs_blocks_flagged = 0, fs_bytes_rewritten = 0, fs_changed_files = []\<rparr>"

type_synonym files = "path \<Rightarrow> bytes option"

definition write_patched_file :: "path \<Rightarrow> bytes \<Rightarrow> files \<Rightarrow> files" where
  "write_patched_file p data fs = fs(p \<mapsto> data)"

text \<open>A failed file ends the pass; the files before it stay rewritten.\<close>

definition patch_file ::
  "reward_db \<Rightarrow> nat \<Rightarrow> (path \<Rightarrow> nat list) \<Rightarrow> bool \<Rightarrow> path \<Rightarrow> files \<Rightarrow> flag_patch_summary \<Rightarrow>
   files \<times> flag_patch_summary pack_result" where
  "patch_file read_reward jobs schedules dry_run p fs summary =
     (case rbind (ok_or (fs p) (Bail ''read'')) (patch_container_bytes read_reward jobs (schedules p)) of
        Inl e \<Rightarrow> (fs, Inl e)
      | Inr r \<Rightarrow>
          let fs = (if pd_changed r \<and> \<not> dry_run then write_patched_file p (pd_data r) fs else fs);
              summary = summary\<lparr>fs_files_scanned := fs_files_scanned summary + 1,
                                fs_blocks_total := fs_blocks_total summary + pd_blocks_seen r,
                                fs_blocks_flagged := fs_blocks_flagged summary + pd_blocks_flagged r\<rparr>;
              summary = (if pd_changed r
                         then summary\<lparr>fs_files_changed := fs_files_changed summary + 1,
                                      fs_changed_files := fs_changed_files summary @ [p],
                                      fs_bytes_rewritten := fs_bytes_rewritten summary
                                        + (if dry_run then 0 else of_nat (length (pd_data r)))\<rparr>
                         else summary)
          in (fs, Inr summary))"

fun patch_files ::
  "reward_db \<Rightarrow> nat \<Rightarrow> (path \<Rightarrow> nat list) \<Rightarrow> bool \<Rightarrow> path list \<Rightarrow> files \<Rightarrow> flag_patch_summary \<Rightarrow>
   files \<times> flag_patch_summary pack_result" where
  "patch_files read_reward jobs schedules dry_run [] fs summary = (fs, Inr summary)"
| "patch_files read_reward jobs schedules dry_run (p # ps) fs summary =
     (case patch_file read_reward jobs schedules dry_run p fs summary of
        (fs, Inl e) \<Rightarrow> (fs, Inl e)
      | (fs, Inr summary) \<Rightarrow> patch_files read_reward jobs schedules dry_run ps fs summary)"

text \<open>All files of a run lie in one directory, so \<open>PathBuf\<close>s are compared by their names.\<close>

definition name_bytes :: "path \<Rightarrow> nat list" where
  "name_bytes p = (case file_name p of None \<Rightarrow> [] | Some n \<Rightarrow> map of_char n)"

text \<open>
  The thread that reports the progress, once the loop over the files is over and nothing sets
  \<open>finished\<close> any more: it loops while \<open>finished\<close> is not set, so it may not end.
\<close>

partial_function (option) monitor :: "bool \<Rightarrow> unit option" where
  [code]: "monitor finished = (if finished then Some () else monitor finished)"

text \<open>
  \<open>thread::scope\<close> joins the monitor before it returns the result of the loop, and the loop sets
  \<open>finished\<close> behind its last file only. The result \<open>None\<close> is a call that does not return.
\<close>

definition add_total_reward_flag ::
  "reward_db \<Rightarrow> path list \<Rightarrow> nat \<Rightarrow> (path \<Rightarrow> nat list) \<Rightarrow> bool \<Rightarrow> u64 option \<Rightarrow> u64 option \<Rightarrow> files \<Rightarrow>
   files \<times> flag_patch_summary pack_result option" where
  "add_total_reward_flag read_reward input_dir jobs schedules dry_run max_epoch min_epoch fs =
     (case collect_sorted_pack_files input_dir max_epoch min_epoch of
        Inl e \<Rightarrow> (fs, Some (Inl e))
      | Inr files \<Rightarrow>
          let (fs, r) = patch_files read_reward jobs schedules dry_run files fs flag_patch_summary_default;
              finished = (case r of Inl e \<Rightarrow> False | Inr summary \<Rightarrow> True)
          in case monitor finished of
               None \<Rightarrow> (fs, None)
             | Some u \<Rightarrow>
                 (fs, Some (rbind r (\<lambda>summary.
                   Inr (summary\<lparr>fs_changed_files := sort_key name_bytes (fs_changed_files summary)\<rparr>)))))"

end
