(* ===== verification/Pack_Writer.thy ===== *)
theory Pack_Writer
  imports Pack_Container
begin

text \<open>
  \<open>crates/replay-data-extractor/src/extract/pack.rs\<close>: the plan of the groups, the builder of
  a container and the writer that receives the packets from the workers in any order.

  The channel is the list of the packets in the order they arrive; the files are the list of
  what is created, in order. Progress output and I/O failures are left out.
\<close>

record pack_task =
  pt_group_index :: u64
  pt_start_epoch :: u64
  pt_epoch_count :: u64

record packet_out =
  po_group_index :: u64
  po_start_epoch :: u64
  po_epoch_count :: u64
  po_block_count :: nat
  po_transaction_count :: nat
  po_bytes :: bytes

record dir_entry =
  de_start_epoch :: u64
  de_epoch_count :: u64
  de_length :: u64

record container_builder =
  cb_start_epoch :: "u64 option"
  cb_end_epoch :: u64
  cb_entries :: "dir_entry list"
  cb_payloads :: "bytes list"
  cb_payload_bytes :: u64
  cb_epoch_count :: u64
  cb_block_count :: nat
  cb_transaction_count :: nat

record pack_summary =
  ps_file_count :: nat
  ps_group_count :: nat
  ps_epoch_count :: u64
  ps_block_count :: nat
  ps_transaction_count :: nat
  ps_total_bytes :: u64
  ps_files :: "path list"

definition build_pack_tasks :: "u64 \<Rightarrow> u64 \<Rightarrow> u64 \<Rightarrow> pack_task list pack_result" where
  "build_pack_tasks cfg_start_epoch cfg_epoch_count shard_epochs =
     (if shard_epochs = 0 then Inl (Pack_Panic ''division by zero'')
      else
        let group_count = (unat cfg_epoch_count + unat shard_epochs - 1) div unat shard_epochs
        in Inr (map (\<lambda>i. let group_index = of_nat i;
                            start = cfg_start_epoch + group_index * shard_epochs;
                            remaining = cfg_epoch_count - group_index * shard_epochs;
                            count = min remaining shard_epochs
                        in \<lparr>pt_group_index = group_index, pt_start_epoch = start, pt_epoch_count = count\<rparr>)
                   [0..<group_count]))"

definition cb_default :: container_builder where
  "cb_default = \<lparr>cb_start_epoch = None, cb_end_epoch = 0, cb_entries = [], cb_payloads = [],
     cb_payload_bytes = 0, cb_epoch_count = 0, cb_block_count = 0, cb_transaction_count = 0\<rparr>"

definition ps_default :: pack_summary where
  "ps_default = \<lparr>ps_file_count = 0, ps_group_count = 0, ps_epoch_count = 0, ps_block_count = 0,
     ps_transaction_count = 0, ps_total_bytes = 0, ps_files = []\<rparr>"

definition cb_is_empty :: "container_builder \<Rightarrow> bool" where
  "cb_is_empty b \<longleftrightarrow> cb_entries b = []"

definition cb_push :: "packet_out \<Rightarrow> container_builder \<Rightarrow> container_builder" where
  "cb_push p b =
     (let len = of_nat (length (po_bytes p))
      in b\<lparr>cb_start_epoch := (case cb_start_epoch b of None \<Rightarrow> Some (po_start_epoch p) | Some s \<Rightarrow> Some s),
           cb_end_epoch := po_start_epoch p + po_epoch_count p - 1,
           cb_entries := cb_entries b @ [\<lparr>de_start_epoch = po_start_epoch p,
                           de_epoch_count = po_epoch_count p, de_length = len\<rparr>],
           cb_payload_bytes := cb_payload_bytes b + len,
           cb_epoch_count := cb_epoch_count b + po_epoch_count p,
           cb_block_count := cb_block_count b + po_block_count p,
           cb_transaction_count := cb_transaction_count b + po_transaction_count p,
           cb_payloads := cb_payloads b @ [po_bytes p]\<rparr>)"

text \<open>The directory, with the running payload offset.\<close>

fun write_directory :: "u64 \<Rightarrow> dir_entry list \<Rightarrow> bytes" where
  "write_directory offset [] = []"
| "write_directory offset (e # es) =
     to_le_bytes 8 (de_start_epoch e) @ to_le_bytes 8 (de_epoch_count e) @ to_le_bytes 8 offset
     @ to_le_bytes 8 (de_length e) @ write_directory (offset + de_length e) es"

definition container_bytes :: "u64 \<Rightarrow> container_builder \<Rightarrow> bytes" where
  "container_bytes shard_epochs b =
     (let group_count = of_nat (length (cb_entries b)) :: u32;
          dir_bytes = of_nat DIR_ENTRY_LEN * ucast group_count :: u64;
          payload_base = of_nat CONTAINER_HEADER_LEN + dir_bytes
      in MAGIC @ to_le_bytes 4 FORMAT_VERSION @ to_le_bytes 4 group_count
         @ to_le_bytes 4 (ucast shard_epochs :: u32) @ to_le_bytes 4 (0 :: u32)
         @ write_directory payload_base (cb_entries b) @ concat (cb_payloads b))"

definition container_path :: "string \<Rightarrow> string \<Rightarrow> u64 \<Rightarrow> u64 \<Rightarrow> path" where
  "container_path output_dir pre s e =
     \<lparr>parent = output_dir,
      file_name = Some (pre @ ''_'' @ dec_digits (unat s) @ ''_'' @ dec_digits (unat e) @ ''.cfxpack'')\<rparr>"

record writer_config =
  wc_output_dir :: string
  wc_prefix :: string
  wc_shard_epochs :: u64
  wc_target_bytes :: u64

record writer =
  w_pending :: "(u64, packet_out) btree"
  w_next_group :: u64
  w_builder :: container_builder
  w_summary :: pack_summary
  w_created :: "(path \<times> bytes) list"

definition flush_container :: "writer_config \<Rightarrow> writer \<Rightarrow> writer pack_result" where
  "flush_container c w =
     (let b = w_builder w; s = w_summary w
      in case cb_start_epoch b of
           None \<Rightarrow> Inl (Pack_Panic ''non-empty container has a start'')
         | Some start \<Rightarrow>
             (let path = container_path (wc_output_dir c) (wc_prefix c) start (cb_end_epoch b);
                  group_count = of_nat (length (cb_entries b)) :: u32;
                  payload_base = of_nat CONTAINER_HEADER_LEN + of_nat DIR_ENTRY_LEN * ucast group_count;
                  file_bytes = payload_base + cb_payload_bytes b
              in Inr (w\<lparr>w_created := w_created w @ [(path, container_bytes (wc_shard_epochs c) b)],
                        w_summary := s\<lparr>ps_file_count := ps_file_count s + 1,
                          ps_group_count := ps_group_count s + length (cb_entries b),
                          ps_epoch_count := ps_epoch_count s + cb_epoch_count b,
                          ps_block_count := ps_block_count s + cb_block_count b,
                          ps_transaction_count := ps_transaction_count s + cb_transaction_count b,
                          ps_total_bytes := ps_total_bytes s + file_bytes,
                          ps_files := ps_files s @ [path]\<rparr>,
                        w_builder := cb_default\<rparr>)))"

text \<open>One packet in group order: push it, and flush a container that is full.\<close>

definition take_packet :: "writer_config \<Rightarrow> packet_out \<Rightarrow> writer \<Rightarrow> writer pack_result" where
  "take_packet c p w =
     (let w = w\<lparr>w_builder := cb_push p (w_builder w), w_next_group := w_next_group w + 1\<rparr>
      in if wc_target_bytes c \<le> cb_payload_bytes (w_builder w) then flush_container c w else Inr w)"

lemma flush_container_pending:
  "flush_container c w = Inr w' \<Longrightarrow> w_pending w' = w_pending w \<and> w_next_group w' = w_next_group w"
  by (auto simp: flush_container_def Let_def split: option.splits)

lemma take_packet_pending:
  "take_packet c p w = Inr w' \<Longrightarrow> w_pending w' = w_pending w \<and> w_next_group w' = w_next_group w + 1"
  by (auto simp: take_packet_def Let_def dest: flush_container_pending split: if_splits)

lemma length_bt_remove: "bt_get m k = Some v \<Longrightarrow> length (bt_remove k m) < length m"
  by (induction m) (auto split: if_splits)

text \<open>The inner loop: emit while the next group is there.\<close>

function drain :: "writer_config \<Rightarrow> writer \<Rightarrow> writer pack_result" where
  "drain c w =
     (case bt_get (w_pending w) (w_next_group w) of
        None \<Rightarrow> Inr w
      | Some p \<Rightarrow>
          rbind (take_packet c p (w\<lparr>w_pending := bt_remove (w_next_group w) (w_pending w)\<rparr>)) (drain c))"
  by auto
termination
  by (relation "measure (\<lambda>(c, w). length (w_pending w))")
    (auto dest!: take_packet_pending length_bt_remove)

declare drain.simps [simp del]

definition receive_packet :: "writer_config \<Rightarrow> packet_out \<Rightarrow> writer \<Rightarrow> writer pack_result" where
  "receive_packet c p w = drain c (w\<lparr>w_pending := bt_insert (po_group_index p) p (w_pending w)\<rparr>)"

fun receive_all :: "writer_config \<Rightarrow> packet_out list \<Rightarrow> writer \<Rightarrow> writer pack_result" where
  "receive_all c [] w = Inr w"
| "receive_all c (p # ps) w = rbind (receive_packet c p w) (receive_all c ps)"

definition writer_init :: writer where
  "writer_init = \<lparr>w_pending = [], w_next_group = 0, w_builder = cb_default, w_summary = ps_default,
     w_created = []\<rparr>"

definition write_containers :: "writer_config \<Rightarrow> packet_out list \<Rightarrow> writer pack_result" where
  "write_containers c result_rx =
     rbind (receive_all c result_rx writer_init) (\<lambda>w.
       if \<not> cb_is_empty (w_builder w) then flush_container c w else Inr w)"

end
