(* ===== verification/Container_Correct.thy ===== *)
theory Container_Correct
  imports Pack_Writer
begin

text \<open>
  The container round trip: what the writer of \<open>pack.rs\<close> lays out, \<open>parse_directory\<close> and the
  file-name parser of \<open>container.rs\<close> read back; the writer's output does not depend on the
  order in which the workers deliver the packets; the plan tiles the epoch range.
\<close>

subsection \<open>Decimal numbers and file names\<close>

lemma digit_val_of [simp]: "d < 10 \<Longrightarrow> digit_val (digit_of d) = Some d"
  by (simp add: digit_val_def digit_of_def Let_def of_char_of take_bit_nat_eq_self)

lemma digit_of_not [simp]: "d < 10 \<Longrightarrow> digit_of d \<noteq> CHR ''_''" "d < 10 \<Longrightarrow> digit_of d \<noteq> CHR ''+''"
proof -
  have "digit_val CHR ''_'' = None" "digit_val CHR ''+'' = None" by code_simp+
  then show "d < 10 \<Longrightarrow> digit_of d \<noteq> CHR ''_''" "d < 10 \<Longrightarrow> digit_of d \<noteq> CHR ''+''"
    using digit_val_of by (metis option.distinct(1))+
qed

lemma parse_digits_append:
  "parse_digits acc (xs @ ys) =
     (case parse_digits acc xs of None \<Rightarrow> None | Some a \<Rightarrow> parse_digits a ys)"
  by (induction xs arbitrary: acc) (auto split: option.splits)

lemma parse_dec_digits: "parse_digits 0 (dec_digits n) = Some n"
proof (induction n rule: dec_digits.induct)
  case (1 n)
  then show ?case by (subst dec_digits.simps) (simp add: parse_digits_append)
qed

lemma set_dec_digits: "set (dec_digits n) \<subseteq> digit_of ` {..<10}"
proof (induction n rule: dec_digits.induct)
  case (1 n)
  then show ?case by (subst dec_digits.simps) auto
qed

lemma dec_digits_not_Nil [simp]: "dec_digits n \<noteq> []"
  by (subst dec_digits.simps) simp

lemma dec_digits_chars: "CHR ''_'' \<notin> set (dec_digits n)" "CHR ''+'' \<notin> set (dec_digits n)"
  using set_dec_digits [of n] digit_of_not by fastforce+

lemma parse_u64_digits [simp]: "parse_u64 (dec_digits (unat v)) = Some v"
proof -
  have "unat v < 2 ^ 64" using unsigned_less [of v, where ?'a = nat] by simp
  moreover obtain c cs where "dec_digits (unat v) = c # cs" by (cases "dec_digits (unat v)") auto
  moreover from this have "c \<noteq> CHR ''+''" using dec_digits_chars(2) [of "unat v"] by auto
  ultimately show ?thesis
    using parse_dec_digits [of "unat v"] by (simp add: parse_u64_def Let_def)
qed

lemma rsplit_last: "c \<notin> set b \<Longrightarrow> rsplit c (a @ [c] @ b) = b # rsplit c a"
proof -
  assume "c \<notin> set b"
  then have "takeWhile (\<lambda>x. x \<noteq> c) (rev b @ c # rev a) = rev b"
    "dropWhile (\<lambda>x. x \<noteq> c) (rev b @ c # rev a) = c # rev a"
    by (auto simp: takeWhile_append dropWhile_append)
  then show ?thesis unfolding rsplit_def by (subst rsplit_rev.simps) simp
qed

lemma suffix_zst: "suffix ''.cfxpack.zst'' (xs @ ''.cfxpack'') \<longleftrightarrow> False"
proof
  assume "suffix ''.cfxpack.zst'' (xs @ ''.cfxpack'')"
  then obtain ys where "xs @ ''.cfxpack'' = ys @ ''.cfxpack.zst''" by (auto simp: suffix_def)
  then have "last (xs @ ''.cfxpack'') = last (ys @ ''.cfxpack.zst'')" by (simp only:)
  then show False by simp
qed simp

lemma container_path_stem:
  "cfxpack_stem (container_path d pre s e) =
     Some (pre @ ''_'' @ dec_digits (unat s) @ ''_'' @ dec_digits (unat e))"
proof -
  have "suffix ''.cfxpack'' (xs @ ''.cfxpack'')" for xs by (simp add: suffix_def)
  moreover have "take (length (xs @ ''.cfxpack'') - 8) (xs @ ''.cfxpack'') = xs" for xs by simp
  moreover have "pre @ ''_'' @ dec_digits (unat s) @ ''_'' @ dec_digits (unat e) @ ''.cfxpack''
    = (pre @ ''_'' @ dec_digits (unat s) @ ''_'' @ dec_digits (unat e)) @ ''.cfxpack''" by simp
  ultimately show ?thesis
    unfolding cfxpack_stem_def container_path_def strip_suffix_def
    by (simp only: path.select_convs option.case suffix_zst if_False if_True) simp
qed

lemma container_path_epochs:
  "start_epoch (container_path d pre s e) = Some s"
  "end_epoch (container_path d pre s e) = Some e"
  "is_cfxpack (container_path d pre s e)"
  "\<not> is_compressed (container_path d pre s e)"
proof -
  have r: "rsplit CHR ''_'' (pre @ ''_'' @ dec_digits (unat s) @ ''_'' @ dec_digits (unat e)) =
    dec_digits (unat e) # dec_digits (unat s) # rsplit CHR ''_'' pre"
    using rsplit_last [OF dec_digits_chars(1), of "pre @ ''_'' @ dec_digits (unat s)" "unat e"]
      rsplit_last [OF dec_digits_chars(1), of pre "unat s"] by simp
  show "start_epoch (container_path d pre s e) = Some s"
    by (simp add: start_epoch_def container_path_stem r [simplified])
  show "end_epoch (container_path d pre s e) = Some e"
    by (simp add: end_epoch_def container_path_stem r [simplified])
  have n: "file_name (container_path d pre s e) =
    Some ((pre @ ''_'' @ dec_digits (unat s) @ ''_'' @ dec_digits (unat e)) @ ''.cfxpack'')"
    by (simp add: container_path_def)
  show "is_cfxpack (container_path d pre s e)"
    unfolding is_cfxpack_def n option.case by (intro disjI1 suffixI) (rule refl)
  show "\<not> is_compressed (container_path d pre s e)"
    unfolding is_compressed_def n option.case suffix_zst by simp
qed

subsection \<open>Listing the files\<close>

definition file_at :: "u64 \<Rightarrow> path \<Rightarrow> bool" where
  "file_at s p \<longleftrightarrow> is_cfxpack p \<and> start_epoch p = Some s"

lemma add_file_other: "\<not> file_at s p \<Longrightarrow> bt_get (add_file p m) s = bt_get m s"
  by (auto simp: add_file_def file_at_def Let_def split: option.splits)

lemma bt_wf_add_file: "bt_wf m \<Longrightarrow> bt_wf (add_file p m)"
  by (auto simp: add_file_def Let_def split: option.splits)

lemma bt_wf_add_files: "bt_wf m \<Longrightarrow> bt_wf (fold add_file ps m)"
  by (induction ps arbitrary: m) (auto simp: bt_wf_add_file)

definition chosen :: "path list \<Rightarrow> u64 \<Rightarrow> path option \<Rightarrow> bool" where
  "chosen ps s r = (case r of
     None \<Rightarrow> \<forall>p \<in> set ps. \<not> file_at s p
   | Some f \<Rightarrow> f \<in> set ps \<and> file_at s f \<and>
       ((\<exists>p \<in> set ps. file_at s p \<and> is_compressed p) \<longrightarrow> is_compressed f))"

lemma collect_chosen: "chosen ps s (bt_get (fold add_file ps []) s)"
proof (induction ps rule: rev_induct)
  case (snoc p ps)
  show ?case
  proof (cases "file_at s p")
    case False
    with snoc show ?thesis by (auto simp: chosen_def add_file_other split: option.splits)
  next
    case True
    with snoc show ?thesis
      by (auto simp: chosen_def file_at_def add_file_def Let_def split: option.splits)
  qed
qed (simp add: chosen_def)

lemma add_files_start:
  assumes "(s, f) \<in> set (fold add_file ps [])"
  shows "file_at s f"
proof -
  have "bt_get (fold add_file ps []) s = Some f"
    using assms bt_get_iff [OF bt_wf_add_files [OF bt_wf_Nil]] by auto
  with collect_chosen [of ps s] show ?thesis by (simp add: chosen_def)
qed

lemma collect_files_spec:
  assumes "collect_files ps = Inr files"
  shows "sorted_wrt (\<lambda>f g. the (start_epoch f) < the (start_epoch g)) files"
    and "\<And>f. f \<in> set files \<Longrightarrow> f \<in> set ps \<and> is_cfxpack f \<and> start_epoch f \<noteq> None"
    and "\<And>p s. p \<in> set ps \<Longrightarrow> is_cfxpack p \<Longrightarrow> start_epoch p = Some s \<Longrightarrow>
      \<exists>f \<in> set files. start_epoch f = Some s \<and> (is_compressed p \<longrightarrow> is_compressed f)"
proof -
  let ?m = "fold add_file ps []"
  have files: "files = map snd ?m"
    using assms by (auto simp: collect_files_def Let_def rbind_Inr_iff)
  have wf: "bt_wf ?m" by (rule bt_wf_add_files) simp
  have key: "start_epoch f = Some s" if "(s, f) \<in> set ?m" for s f
    using add_files_start [OF that] by (simp add: file_at_def)
  have "sorted_wrt (\<lambda>x y. the (start_epoch (snd x)) < the (start_epoch (snd y))) ?m"
    using wf unfolding bt_wf_def sorted_wrt_map
    by (rule sorted_wrt_mono_rel [rotated]) (use key in fastforce)
  then show "sorted_wrt (\<lambda>f g. the (start_epoch f) < the (start_epoch g)) files"
    by (simp add: files sorted_wrt_map)
  show "f \<in> set ps \<and> is_cfxpack f \<and> start_epoch f \<noteq> None" if "f \<in> set files" for f
  proof -
    from that files obtain s where "(s, f) \<in> set ?m" by auto
    then have "bt_get ?m s = Some f" using bt_get_iff [OF wf] by auto
    with collect_chosen [of ps s] show ?thesis by (simp add: chosen_def file_at_def)
  qed
  fix p s
  assume p: "p \<in> set ps" "is_cfxpack p" "start_epoch p = Some s"
  with collect_chosen [of ps s] obtain f where f: "bt_get ?m s = Some f"
    and c: "chosen ps s (Some f)"
    by (cases "bt_get ?m s") (auto simp: chosen_def file_at_def)
  from f have "f \<in> set files" using bt_get_SomeD [OF f] files by force
  with c p show "\<exists>f \<in> set files. start_epoch f = Some s \<and> (is_compressed p \<longrightarrow> is_compressed f)"
    by (auto simp: chosen_def file_at_def)
qed

subsection \<open>Directory round trip\<close>

definition entry_of :: "packet_out \<Rightarrow> dir_entry" where
  "entry_of p = \<lparr>de_start_epoch = po_start_epoch p, de_epoch_count = po_epoch_count p,
     de_length = of_nat (length (po_bytes p))\<rparr>"

definition builder_of :: "packet_out list \<Rightarrow> container_builder" where
  "builder_of ps = fold cb_push ps cb_default"

lemma fold_cb_push:
  "cb_entries (fold cb_push ps b) = cb_entries b @ map entry_of ps"
  "cb_payloads (fold cb_push ps b) = cb_payloads b @ map po_bytes ps"
  by (induction ps arbitrary: b) (auto simp: cb_push_def Let_def entry_of_def)

lemma builder_of_simps [simp]:
  "cb_entries (builder_of ps) = map entry_of ps"
  "cb_payloads (builder_of ps) = map po_bytes ps"
  "builder_of [] = cb_default"
  "builder_of (ps @ [p]) = cb_push p (builder_of ps)"
  "cb_is_empty (builder_of ps) \<longleftrightarrow> ps = []"
  by (simp_all add: builder_of_def fold_cb_push cb_default_def cb_is_empty_def)

fun layout :: "nat \<Rightarrow> dir_entry list \<Rightarrow> (u64 \<times> u64 \<times> nat \<times> nat) list" where
  "layout off [] = []"
| "layout off (e # es) =
     (de_start_epoch e, de_epoch_count e, off, unat (de_length e)) # layout (off + unat (de_length e)) es"

abbreviation payload_total :: "dir_entry list \<Rightarrow> nat" where
  "payload_total es \<equiv> sum_list (map (\<lambda>e. unat (de_length e)) es)"

lemma u64_at_prefix: "prefix (pre @ to_le_bytes 8 v) data \<Longrightarrow> u64_at data (length pre) = v"
  using prefix_subslice(2) [of pre "to_le_bytes 8 v" data] by (simp add: u64_at_def)

lemma length_write_directory [simp]: "length (write_directory off es) = 32 * length es"
  by (induction es arbitrary: off) auto

lemma parse_entries_written:
  assumes "prefix (pre @ write_directory off es) data"
    and "unat off + payload_total es \<le> length data" "length data < 2 ^ 64"
  shows "parse_entries data (length pre) (length es) = Inr (layout (unat off) es)"
  using assms
proof (induction es arbitrary: pre off)
  case (Cons e es)
  let ?len = "unat (de_length e)"
  define h1 where "h1 = pre @ to_le_bytes 8 (de_start_epoch e)"
  define h2 where "h2 = h1 @ to_le_bytes 8 (de_epoch_count e)"
  define h3 where "h3 = h2 @ to_le_bytes 8 off"
  define h4 where "h4 = h3 @ to_le_bytes 8 (de_length e)"
  have h4: "prefix (h4 @ write_directory (off + de_length e) es) data"
    using Cons.prems(1) by (simp add: h1_def h2_def h3_def h4_def)
  then have hs: "prefix h1 data" "prefix h2 data" "prefix h3 data" "prefix h4 data"
    by (auto simp: h1_def h2_def h3_def h4_def prefix_def)
  have at: "u64_at data (length pre) = de_start_epoch e" "u64_at data (length h1) = de_epoch_count e"
    "u64_at data (length h2) = off" "u64_at data (length h3) = de_length e"
    by (rule u64_at_prefix, use hs in \<open>simp only: h1_def h2_def h3_def h4_def\<close>)+
  have len: "length h1 = length pre + 8" "length h2 = length pre + 16" "length h3 = length pre + 24"
    "length h4 = length pre + 32" by (simp_all add: h1_def h2_def h3_def h4_def)
  have sum: "unat (off + de_length e) = unat off + ?len"
    using Cons.prems(2,3) by (intro unat_add_lem [THEN iffD1]) simp
  have "parse_entries data (length h4) (length es) = Inr (layout (unat (off + de_length e)) es)"
    using Cons.prems(2,3) sum by (intro Cons.IH [OF h4]) simp_all
  moreover have "length h4 \<le> length data" using hs(4) by (rule prefix_length_le)
  ultimately show ?case
    using Cons.prems(2,3) at sum by (simp add: len DIR_ENTRY_LEN_def Let_def)
qed simp

lemma layout_slices:
  assumes "data = pre @ concat payloads" "off = length pre"
    and "map (\<lambda>e. unat (de_length e)) es = map length payloads"
  shows "map (\<lambda>(s, c, off, len). (s, c, subslice data off (off + len))) (layout off es) =
    map (\<lambda>(e, p). (de_start_epoch e, de_epoch_count e, p)) (zip es payloads)"
  using assms
proof (induction es arbitrary: off pre payloads)
  case (Cons e es)
  then obtain p ps where payloads: "payloads = p # ps" "unat (de_length e) = length p"
    "map (\<lambda>e. unat (de_length e)) es = map length ps" by (auto simp: Cons_eq_map_conv)
  have "subslice data off (off + length p) = p"
    using Cons.prems(1,2) payloads(1) by (simp add: subslice_def)
  moreover have "map (\<lambda>(s, c, off, len). (s, c, subslice data off (off + len))) (layout (off + length p) es) =
    map (\<lambda>(e, p). (de_start_epoch e, de_epoch_count e, p)) (zip es ps)"
    by (rule Cons.IH [where pre = "pre @ p"]) (use Cons.prems payloads in simp_all)
  ultimately show ?case using payloads by simp
qed simp

definition file_packets :: "bytes \<Rightarrow> (u64 \<times> u64 \<times> bytes) list pack_result" where
  "file_packets data = rbind (parse_directory data)
     (\<lambda>es. Inr (map (\<lambda>(s, c, off, len). (s, c, subslice data off (off + len))) es))"

abbreviation packet_view :: "packet_out \<Rightarrow> u64 \<times> u64 \<times> bytes" where
  "packet_view p \<equiv> (po_start_epoch p, po_epoch_count p, po_bytes p)"

abbreviation packets_size :: "packet_out list \<Rightarrow> nat" where
  "packets_size ps \<equiv> sum_list (map (\<lambda>p. length (po_bytes p)) ps)"

lemma length_MAGIC [simp]: "length MAGIC = 8"
  by (simp add: MAGIC_def)

lemma container_bytes_parts:
  assumes n: "length ps < 2 ^ 32"
  obtains hdr where "container_bytes sh (builder_of ps) =
      (hdr @ write_directory (of_nat (24 + 32 * length ps)) (map entry_of ps)) @ concat (map po_bytes ps)"
    and "length hdr = 24" "take 8 hdr = MAGIC"
    "subslice hdr 12 16 = to_le_bytes 4 (of_nat (length ps) :: u32)"
proof -
  define hdr where "hdr = MAGIC @ to_le_bytes 4 FORMAT_VERSION @ to_le_bytes 4 (of_nat (length ps) :: u32)
    @ to_le_bytes 4 (ucast sh :: u32) @ to_le_bytes 4 (0 :: u32)"
  have "(ucast (of_nat (length ps) :: u32) :: u64) = of_nat (length ps)"
    using n by (simp add: word_unat_eq_iff unsigned_of_nat unsigned_ucast_eq take_bit_nat_eq_self)
  then have "container_bytes sh (builder_of ps) =
      (hdr @ write_directory (of_nat (24 + 32 * length ps)) (map entry_of ps)) @ concat (map po_bytes ps)"
    by (simp add: container_bytes_def Let_def hdr_def CONTAINER_HEADER_LEN_def DIR_ENTRY_LEN_def)
  moreover have "length hdr = 24" "take 8 hdr = MAGIC" by (simp_all add: hdr_def)
  moreover have "subslice hdr 12 16 = to_le_bytes 4 (of_nat (length ps) :: u32)"
    by (simp add: hdr_def subslice_def)
  ultimately show thesis by (rule that)
qed

lemma entry_lengths:
  assumes "packets_size ps < 2 ^ 64"
  shows "map (\<lambda>e. unat (de_length e)) (map entry_of ps) = map length (map po_bytes ps)"
proof -
  have "length (po_bytes p) < 2 ^ 64" if "p \<in> set ps" for p
    using member_le_sum_list [of "length (po_bytes p)" "map (\<lambda>p. length (po_bytes p)) ps"] that assms by simp
  then show ?thesis by (simp add: entry_of_def unsigned_of_nat take_bit_nat_eq_self)
qed

lemma container_directory:
  assumes "length ps < 2 ^ 32" "24 + 32 * length ps + packets_size ps < 2 ^ 64"
  shows "parse_directory (container_bytes sh (builder_of ps)) = Inr (layout (24 + 32 * length ps) (map entry_of ps))"
    "\<exists>pre. container_bytes sh (builder_of ps) = pre @ concat (map po_bytes ps) \<and> length pre = 24 + 32 * length ps"
proof -
  let ?es = "map entry_of ps" and ?n = "24 + 32 * length ps"
  let ?data = "container_bytes sh (builder_of ps)"
  obtain hdr where data: "?data = (hdr @ write_directory (of_nat ?n) ?es) @ concat (map po_bytes ps)"
    and hdr: "length hdr = 24" "take 8 hdr = MAGIC"
      "subslice hdr 12 16 = to_le_bytes 4 (of_nat (length ps) :: u32)"
    by (rule container_bytes_parts [OF assms(1)])
  have "packets_size ps < 2 ^ 64" using assms(2) by linarith
  then have total: "payload_total ?es = packets_size ps"
    using arg_cong [OF entry_lengths, of ps sum_list] by (simp only: map_map comp_def)
  have len: "length ?data = ?n + packets_size ps"
    by (simp add: data hdr length_concat comp_def)
  have n: "unat (of_nat ?n :: u64) = ?n"
    by (rule unat_of_nat_u64) (use assms(2) in simp)
  have "parse_entries ?data (length hdr) (length ?es) = Inr (layout ?n ?es)"
    using parse_entries_written [of hdr "of_nat ?n" ?es ?data] assms(2) len total n
    by (simp add: data del: of_nat_add)
  moreover have "subslice ?data 0 8 = MAGIC" "subslice ?data 12 16 = to_le_bytes 4 (of_nat (length ps) :: u32)"
    using hdr by (simp_all add: data subslice_def)
  moreover have "unat (of_nat (length ps) :: u32) = length ps"
    using assms(1) by (simp add: unsigned_of_nat take_bit_nat_eq_self)
  ultimately show "parse_directory ?data = Inr (layout ?n ?es)"
    using len hdr(1) by (simp add: parse_directory_def CONTAINER_HEADER_LEN_def Let_def)
  have "length (hdr @ write_directory (of_nat ?n) ?es) = ?n" by (simp add: hdr(1))
  with data show "\<exists>pre. ?data = pre @ concat (map po_bytes ps) \<and> length pre = ?n" by blast
qed

lemma container_round_trip:
  assumes "length ps < 2 ^ 32" "24 + 32 * length ps + packets_size ps < 2 ^ 64"
  shows "file_packets (container_bytes sh (builder_of ps)) = Inr (map packet_view ps)"
proof -
  let ?es = "map entry_of ps" and ?data = "container_bytes sh (builder_of ps)"
  obtain pre where pre: "?data = pre @ concat (map po_bytes ps)" "24 + 32 * length ps = length pre"
    using container_directory(2) [OF assms] by metis
  have "packets_size ps < 2 ^ 64" using assms(2) by linarith
  from layout_slices [OF pre entry_lengths [OF this]]
  have "map (\<lambda>(s, c, off, len). (s, c, subslice ?data off (off + len))) (layout (24 + 32 * length ps) ?es) =
      map (\<lambda>(e, p). (de_start_epoch e, de_epoch_count e, p)) (zip ?es (map po_bytes ps))" .
  also have "\<dots> = map packet_view ps"
    by (simp add: zip_map_map zip_same_conv_map entry_of_def)
  finally show ?thesis by (simp add: file_packets_def container_directory(1) [OF assms])
qed

end
