(* ===== verification/Flag_Patch_Correct.thy ===== *)
theory Flag_Patch_Correct
  imports Flag_Patch Packet_Reflag Container_Correct "HOL-Library.Multiset"
begin

text \<open>
  The flag patcher: whatever the threads' schedule, the scan ends, reads every site once and finds
  the same offsets, so the patched bytes do not depend on it; and they are the bytes that writing
  the container again with the flags set would give.
\<close>

subsection \<open>The scan as a transition system\<close>

inductive scan_reach :: "reward_db \<Rightarrow> (nat \<times> h256) list \<Rightarrow> nat \<Rightarrow> u64 \<Rightarrow> scan \<Rightarrow> bool"
  for read_reward sites jobs progress where
  reach_init: "scan_reach read_reward sites jobs progress (scan_init jobs progress)"
| reach_claim: "scan_reach read_reward sites jobs progress s \<Longrightarrow> w < length (sc_claimers s) \<Longrightarrow>
    cl_phase (sc_claimers s ! w) = Claiming \<Longrightarrow>
    scan_reach read_reward sites jobs progress (claim_block read_reward sites w s)"
| reach_leave: "scan_reach read_reward sites jobs progress s \<Longrightarrow> w < length (sc_claimers s) \<Longrightarrow>
    cl_phase (sc_claimers s ! w) = Leaving \<Longrightarrow>
    scan_reach read_reward sites jobs progress (leave_scan w s)"

lemma scan_reach_thread_step:
  "scan_reach read_reward sites jobs progress s \<Longrightarrow>
     scan_reach read_reward sites jobs progress (thread_step read_reward sites w s)"
  by (auto simp: thread_step_def intro: reach_claim reach_leave split: phase.split)

lemma scan_reach_run:
  "scan_reach read_reward sites jobs progress s \<Longrightarrow>
     scan_reach read_reward sites jobs progress (run_schedule read_reward sites schedule s)"
  unfolding run_schedule_def
  by (induction schedule arbitrary: s) (auto intro: scan_reach_thread_step)

subsection \<open>Invariant\<close>

definition zero_sites :: "reward_db \<Rightarrow> (nat \<times> h256) list \<Rightarrow> nat list" where
  "zero_sites read_reward sites =
     map fst (filter (\<lambda>(pos, h). case read_reward h of Inl e \<Rightarrow> False | Inr r \<Rightarrow> total_reward_zero r) sites)"

definition readable :: "reward_db \<Rightarrow> (nat \<times> h256) list \<Rightarrow> bool" where
  "readable read_reward sites \<longleftrightarrow> (\<forall>(pos, h) \<in> set sites. \<exists>r. read_reward h = Inr r)"

definition found :: "scan \<Rightarrow> nat multiset" where
  "found s = mset (sc_flips s) + sum_list (map (\<lambda>c. mset (cl_local c)) (sc_claimers s))"

definition scan_inv :: "reward_db \<Rightarrow> (nat \<times> h256) list \<Rightarrow> nat \<Rightarrow> scan \<Rightarrow> bool" where
  "scan_inv read_reward sites jobs s \<longleftrightarrow>
     length (sc_claimers s) = max jobs 1 \<and>
     found s = mset (zero_sites read_reward (take (sc_cursor s) sites)) \<and>
     (sc_err s = None \<longleftrightarrow> readable read_reward (take (sc_cursor s) sites)) \<and>
     (\<forall>e. sc_err s = Some e \<longrightarrow> (\<exists>(pos, h) \<in> set sites. read_reward h = Inl e)) \<and>
     (\<forall>c \<in> set (sc_claimers s). cl_phase c \<noteq> Claiming \<longrightarrow> length sites < sc_cursor s \<or> sc_err s \<noteq> None) \<and>
     (\<forall>c \<in> set (sc_claimers s). cl_phase c = Done \<longrightarrow> cl_local c = [])"

lemma sum_list_update_mset:
  "i < length xs \<Longrightarrow> sum_list (map f (xs[i := y])) + f (xs ! i) = sum_list (map f xs) + (f y :: 'a multiset)"
proof (induction xs arbitrary: i)
  case (Cons x xs)
  show ?case
  proof (cases i)
    case (Suc j)
    with Cons.IH [of j] Cons.prems show ?thesis by (simp add: add.assoc)
  qed (simp add: ac_simps)
qed simp

text \<open>One thread changes: what the rest of the invariant needs.\<close>

lemma scan_inv_update:
  assumes inv: "scan_inv read_reward sites jobs s" and w: "w < length (sc_claimers s)"
    and s': "sc_claimers s' = (sc_claimers s)[w := c]"
    and found: "mset (sc_flips s') + mset (cl_local c) =
      mset (sc_flips s) + mset (cl_local (sc_claimers s ! w)) + mset new"
    and new: "zero_sites read_reward (take (sc_cursor s') sites) = zero_sites read_reward (take (sc_cursor s) sites) @ new"
    and err: "sc_err s' = None \<longleftrightarrow> readable read_reward (take (sc_cursor s') sites)"
      "\<And>e. sc_err s' = Some e \<Longrightarrow> sc_err s = Some e \<or> (\<exists>(pos, h) \<in> set sites. read_reward h = Inl e)"
    and mono: "sc_cursor s \<le> sc_cursor s'" "sc_err s \<noteq> None \<Longrightarrow> sc_err s' \<noteq> None"
    and c: "cl_phase c \<noteq> Claiming \<Longrightarrow> length sites < sc_cursor s' \<or> sc_err s' \<noteq> None"
      "cl_phase c = Done \<Longrightarrow> cl_local c = []"
  shows "scan_inv read_reward sites jobs s'"
proof -
  let ?cs = "sc_claimers s"
  let ?sum = "\<lambda>cs. sum_list (map (\<lambda>c. mset (cl_local c)) cs)"
  have "(mset (sc_flips s') + ?sum (?cs[w := c])) + mset (cl_local (?cs ! w)) =
      mset (sc_flips s') + (?sum ?cs + mset (cl_local c))"
    using sum_list_update_mset [OF w, of "\<lambda>c. mset (cl_local c)" c] by (simp only: add.assoc)
  also have "\<dots> = (mset (sc_flips s') + mset (cl_local c)) + ?sum ?cs" by (simp only: ac_simps)
  also have "\<dots> = (mset (sc_flips s) + ?sum ?cs + mset new) + mset (cl_local (?cs ! w))"
    unfolding found by (simp only: ac_simps)
  finally have "found s' = found s + mset new"
    unfolding found_def s' by (rule add_right_imp_eq)
  then have "found s' = mset (zero_sites read_reward (take (sc_cursor s') sites))"
    using inv new by (simp add: scan_inv_def)
  moreover have "\<forall>d \<in> set (?cs[w := c]). cl_phase d \<noteq> Claiming \<longrightarrow> length sites < sc_cursor s' \<or> sc_err s' \<noteq> None"
  proof (intro ballI impI)
    fix d assume d: "d \<in> set (?cs[w := c])" "cl_phase d \<noteq> Claiming"
    then consider "d = c" | "d \<in> set ?cs" using set_update_subset_insert by fastforce
    then show "length sites < sc_cursor s' \<or> sc_err s' \<noteq> None"
    proof cases
      case 2
      with inv d(2) have "length sites < sc_cursor s \<or> sc_err s \<noteq> None"
        unfolding scan_inv_def by blast
      with mono show ?thesis by auto
    qed (use c(1) d(2) in simp)
  qed
  moreover have "\<forall>d \<in> set (?cs[w := c]). cl_phase d = Done \<longrightarrow> cl_local d = []"
    using inv c(2) set_update_subset_insert [of ?cs w c] by (fastforce simp: scan_inv_def)
  moreover have "\<forall>e. sc_err s' = Some e \<longrightarrow> (\<exists>(pos, h) \<in> set sites. read_reward h = Inl e)"
    using inv err(2) unfolding scan_inv_def by blast
  ultimately show ?thesis
    using inv err(1) unfolding scan_inv_def s' by simp
qed

lemma zero_sites_append: "zero_sites read_reward (xs @ ys) = zero_sites read_reward xs @ zero_sites read_reward ys"
  by (simp add: zero_sites_def)

lemma readable_append: "readable read_reward (xs @ ys) \<longleftrightarrow> readable read_reward xs \<and> readable read_reward ys"
  by (simp add: readable_def ball_Un)

lemma scan_inv_claim:
  assumes inv: "scan_inv read_reward sites jobs s" and w: "w < length (sc_claimers s)"
    and c: "cl_phase (sc_claimers s ! w) = Claiming"
  shows "scan_inv read_reward sites jobs (claim_block read_reward sites w s)"
proof (cases "length sites \<le> sc_cursor s")
  case True
  then show ?thesis
    using inv
    by (intro scan_inv_update [OF inv w, where c = "(sc_claimers s ! w)\<lparr>cl_phase := Leaving\<rparr>" and new = "[]"])
      (simp_all add: claim_block_def Let_def scan_inv_def)
next
  case False
  let ?i = "sc_cursor s"
  obtain pos h where site: "sites ! ?i = (pos, h)" by fastforce
  have take: "take (Suc ?i) sites = take ?i sites @ [(pos, h)]"
    using False site by (simp add: take_Suc_conv_app_nth)
  have mem: "(pos, h) \<in> set sites" using False site by (metis not_less nth_mem)
  show ?thesis
  proof (cases "read_reward h")
    case (Inl e)
    show ?thesis
      by (rule scan_inv_update [OF inv w, where c = "(sc_claimers s ! w)\<lparr>cl_phase := Leaving\<rparr>" and new = "[]"])
        (use False site Inl mem in \<open>auto simp: claim_block_def Let_def take zero_sites_append readable_append
          zero_sites_def readable_def\<close>)
  next
    case (Inr r)
    let ?new = "if total_reward_zero r then [pos] else []"
    let ?n = "cl_progress (sc_claimers s ! w) + 1"
    let ?c = "(sc_claimers s ! w)\<lparr>cl_local := cl_local (sc_claimers s ! w) @ ?new,
       cl_progress := if 4096 \<le> ?n then 0 else ?n\<rparr>"
    have step: "claim_block read_reward sites w s = s\<lparr>sc_cursor := Suc ?i, sc_claimers := (sc_claimers s)[w := ?c],
        sc_progress := if 4096 \<le> ?n then sc_progress s + ?n else sc_progress s\<rparr>"
      using False site Inr by (simp add: claim_block_def Let_def)
    have "sc_err s = None \<longleftrightarrow> readable read_reward (take (Suc ?i) sites)"
      using inv Inr by (simp add: take readable_append scan_inv_def) (simp add: readable_def)
    moreover have "zero_sites read_reward (take (Suc ?i) sites) = zero_sites read_reward (take ?i sites) @ ?new"
      using Inr by (simp add: take zero_sites_append) (simp add: zero_sites_def)
    ultimately show ?thesis
      unfolding step
      by (intro scan_inv_update [OF inv w, where c = ?c and new = ?new]) (simp_all add: c add.assoc)
  qed
qed

lemma scan_inv_leave:
  assumes inv: "scan_inv read_reward sites jobs s" and w: "w < length (sc_claimers s)"
    and c: "cl_phase (sc_claimers s ! w) = Leaving"
  shows "scan_inv read_reward sites jobs (leave_scan w s)"
proof -
  have "length sites < sc_cursor s \<or> sc_err s \<noteq> None"
    using inv nth_mem [OF w] c unfolding scan_inv_def by force
  moreover have "sc_err s = None \<longleftrightarrow> readable read_reward (take (sc_cursor s) sites)"
    using inv by (simp add: scan_inv_def)
  ultimately show ?thesis
    by (intro scan_inv_update [OF inv w, where new = "[]" and
        c = "(sc_claimers s ! w)\<lparr>cl_phase := Done, cl_local := [], cl_progress := 0\<rparr>"])
      (auto simp: leave_scan_def Let_def)
qed

lemma scan_inv_init: "scan_inv read_reward sites jobs (scan_init jobs progress)"
proof -
  have "sum_list (replicate n ({#} :: nat multiset)) = {#}" for n by (induction n) simp_all
  then show ?thesis
    by (auto simp: scan_inv_def scan_init_def found_def zero_sites_def readable_def)
qed

lemma scan_reach_inv: "scan_reach read_reward sites jobs progress s \<Longrightarrow> scan_inv read_reward sites jobs s"
  by (induction rule: scan_reach.induct) (auto intro: scan_inv_init scan_inv_claim scan_inv_leave)

subsection \<open>The scan ends\<close>

definition phase_weight :: "phase \<Rightarrow> nat" where
  "phase_weight p = (case p of Claiming \<Rightarrow> 2 | Leaving \<Rightarrow> 1 | Done \<Rightarrow> 0)"

definition scan_left :: "(nat \<times> h256) list \<Rightarrow> scan \<Rightarrow> nat" where
  "scan_left sites s = (length sites - sc_cursor s) + sum_list (map (\<lambda>c. phase_weight (cl_phase c)) (sc_claimers s))"

definition all_done :: "scan \<Rightarrow> bool" where
  "all_done s \<longleftrightarrow> (\<forall>c \<in> set (sc_claimers s). cl_phase c = Done)"

lemma sum_weight_update:
  "w < length cs \<Longrightarrow> sum_list (map (\<lambda>c. phase_weight (cl_phase c)) (cs[w := c])) + phase_weight (cl_phase (cs ! w)) =
     sum_list (map (\<lambda>c. phase_weight (cl_phase c)) cs) + phase_weight (cl_phase c)"
proof (induction cs arbitrary: w)
  case (Cons x xs)
  then show ?case by (cases w) auto
qed simp

lemma weight_update:
  assumes "w < length cs"
  shows "phase_weight (cl_phase c) = phase_weight (cl_phase (cs ! w)) \<Longrightarrow>
      sum_list (map (\<lambda>c. phase_weight (cl_phase c)) (cs[w := c])) = sum_list (map (\<lambda>c. phase_weight (cl_phase c)) cs)"
    "phase_weight (cl_phase c) < phase_weight (cl_phase (cs ! w)) \<Longrightarrow>
      sum_list (map (\<lambda>c. phase_weight (cl_phase c)) (cs[w := c])) < sum_list (map (\<lambda>c. phase_weight (cl_phase c)) cs)"
  using sum_weight_update [OF assms, of c] by linarith+

lemma claim_block_decreases:
  assumes "w < length (sc_claimers s)" "cl_phase (sc_claimers s ! w) = Claiming"
  shows "scan_left sites (claim_block read_reward sites w s) < scan_left sites s"
proof (cases "length sites \<le> sc_cursor s")
  case True
  then show ?thesis
    using weight_update(2) [OF assms(1), of "(sc_claimers s ! w)\<lparr>cl_phase := Leaving\<rparr>"] assms(2)
    by (simp add: claim_block_def Let_def scan_left_def phase_weight_def)
next
  case False
  then have lt: "length sites - Suc (sc_cursor s) < length sites - sc_cursor s" by simp
  show ?thesis
  proof (cases "read_reward (snd (sites ! sc_cursor s))")
    case (Inl e)
    then show ?thesis
      using False lt weight_update(2) [OF assms(1), of "(sc_claimers s ! w)\<lparr>cl_phase := Leaving\<rparr>"] assms(2)
      by (simp add: claim_block_def Let_def scan_left_def phase_weight_def)
  next
    case (Inr r)
    obtain c where c: "sc_claimers (claim_block read_reward sites w s) = (sc_claimers s)[w := c]"
      "cl_phase c = Claiming" "sc_cursor (claim_block read_reward sites w s) = Suc (sc_cursor s)"
    proof (rule that)
      let ?c = "sc_claimers (claim_block read_reward sites w s) ! w"
      show "sc_claimers (claim_block read_reward sites w s) = (sc_claimers s)[w := ?c]" "cl_phase ?c = Claiming"
        "sc_cursor (claim_block read_reward sites w s) = Suc (sc_cursor s)"
        using False Inr assms by (simp_all add: claim_block_def Let_def)
    qed
    then show ?thesis
      using lt weight_update(1) [OF assms(1), of c] assms(2) by (simp add: scan_left_def)
  qed
qed

lemma thread_step_decreases:
  assumes "w < length (sc_claimers s)" "cl_phase (sc_claimers s ! w) \<noteq> Done"
  shows "scan_left sites (thread_step read_reward sites w s) < scan_left sites s"
proof (cases "cl_phase (sc_claimers s ! w)")
  case Claiming
  with assms(1) claim_block_decreases [OF assms(1) Claiming] show ?thesis by (simp add: thread_step_def)
next
  case Leaving
  then show ?thesis
    using assms(1) weight_update(2) [OF assms(1), of "(sc_claimers s ! w)\<lparr>cl_phase := Done, cl_local := [], cl_progress := 0\<rparr>"]
    by (simp add: thread_step_def leave_scan_def Let_def scan_left_def phase_weight_def)
qed (use assms in simp)

lemma thread_step_le: "scan_left sites (thread_step read_reward sites w s) \<le> scan_left sites s"
  using thread_step_decreases [of w s sites read_reward]
  by (cases "w < length (sc_claimers s) \<and> cl_phase (sc_claimers s ! w) \<noteq> Done")
    (auto simp: thread_step_def split: phase.splits)

lemma run_schedule_le: "scan_left sites (run_schedule read_reward sites ws s) \<le> scan_left sites s"
  unfolding run_schedule_def
proof (induction ws arbitrary: s)
  case (Cons w ws)
  then show ?case using order_trans [OF _ thread_step_le] by fastforce
qed simp

lemma length_claimers_step: "length (sc_claimers (thread_step read_reward sites w s)) = length (sc_claimers s)"
  by (simp add: thread_step_def claim_block_def leave_scan_def Let_def split: phase.split sum.split)

lemma length_claimers_run: "length (sc_claimers (run_schedule read_reward sites ws s)) = length (sc_claimers s)"
  unfolding run_schedule_def by (induction ws arbitrary: s) (simp_all add: length_claimers_step)

text \<open>A round of all threads makes progress while a thread is not done.\<close>

lemma run_schedule_progress:
  "w \<in> set ws \<Longrightarrow> w < length (sc_claimers s) \<Longrightarrow> cl_phase (sc_claimers s ! w) \<noteq> Done \<Longrightarrow>
     scan_left sites (run_schedule read_reward sites ws s) < scan_left sites s"
proof (induction ws arbitrary: s)
  case (Cons x ws)
  have run: "run_schedule read_reward sites (x # ws) s = run_schedule read_reward sites ws (thread_step read_reward sites x s)"
    by (simp add: run_schedule_def)
  show ?case
  proof (cases "x < length (sc_claimers s) \<and> cl_phase (sc_claimers s ! x) \<noteq> Done")
    case True
    then show ?thesis
      unfolding run using le_less_trans [OF run_schedule_le thread_step_decreases] by blast
  next
    case False
    then have "thread_step read_reward sites x s = s" "x \<noteq> w"
      using Cons.prems by (auto simp: thread_step_def)
    with Cons show ?thesis unfolding run by simp
  qed
qed simp

lemma run_rounds_done:
  assumes "scan_left sites s \<le> k" "length (sc_claimers s) = max jobs 1"
  shows "all_done (run_schedule read_reward sites (rounds k jobs) s)"
  using assms
proof (induction k arbitrary: s)
  case 0
  then have "\<forall>c \<in> set (sc_claimers s). phase_weight (cl_phase c) = 0" by (simp add: scan_left_def)
  then have "\<forall>c \<in> set (sc_claimers s). cl_phase c = Done"
    by (metis phase.exhaust phase.simps(7,8) phase_weight_def zero_neq_numeral zero_neq_one)
  then show ?case by (simp add: all_done_def rounds_def run_schedule_def)
next
  case (Suc k)
  let ?s = "run_schedule read_reward sites [0..<max jobs 1] s"
  have run: "run_schedule read_reward sites (rounds (Suc k) jobs) s = run_schedule read_reward sites (rounds k jobs) ?s"
    by (simp add: rounds_def run_schedule_def)
  have len: "length (sc_claimers ?s) = max jobs 1" using Suc.prems(2) by (simp add: length_claimers_run)
  show ?case
  proof (cases "all_done s")
    case False
    then obtain c where "c \<in> set (sc_claimers s)" "cl_phase c \<noteq> Done" by (auto simp: all_done_def)
    then obtain w where w: "w < length (sc_claimers s)" "cl_phase (sc_claimers s ! w) \<noteq> Done"
      by (auto simp: in_set_conv_nth)
    have "scan_left sites ?s < scan_left sites s"
      by (rule run_schedule_progress [OF _ w]) (use w(1) Suc.prems(2) in simp)
    with Suc.prems(1) show ?thesis unfolding run by (intro Suc.IH [OF _ len]) simp
  next
    case True
    have step: "thread_step read_reward sites w s = s" for w
      using True nth_mem [of w "sc_claimers s"] by (auto simp: thread_step_def all_done_def)
    have "run_schedule read_reward sites ws s = s" for ws
      unfolding run_schedule_def by (induction ws) (simp_all add: step)
    with True show ?thesis by simp
  qed
qed

lemma scan_left_init: "scan_left sites (scan_init jobs progress) = length sites + 2 * max jobs 1"
  by (simp add: scan_left_def scan_init_def phase_weight_def sum_list_replicate)

lemma scan_scope_done: "all_done (scan_scope read_reward sites jobs schedule progress)"
proof -
  let ?s = "run_schedule read_reward sites schedule (scan_init jobs progress)"
  have "scan_left sites ?s \<le> length sites + 2 * max jobs 1"
    using run_schedule_le [of sites read_reward schedule "scan_init jobs progress"] by (simp only: scan_left_init)
  moreover have "length (sc_claimers ?s) = max jobs 1" by (simp add: length_claimers_run scan_init_def)
  ultimately have "all_done (run_schedule read_reward sites (rounds (length sites + 2 * max jobs 1) jobs) ?s)"
    by (rule run_rounds_done)
  then show ?thesis by (simp add: scan_scope_def run_schedule_def)
qed

text \<open>The result of the scan does not depend on the schedule.\<close>

lemma scan_scope_result:
  "sc_err (scan_scope read_reward sites jobs schedule progress) = None \<longleftrightarrow> readable read_reward sites"
  "sc_err (scan_scope read_reward sites jobs schedule progress) = Some e \<Longrightarrow>
     \<exists>(pos, h) \<in> set sites. read_reward h = Inl e"
  "readable read_reward sites \<Longrightarrow>
     mset (sc_flips (scan_scope read_reward sites jobs schedule progress)) = mset (zero_sites read_reward sites)"
proof -
  let ?s = "scan_scope read_reward sites jobs schedule progress"
  have inv: "scan_inv read_reward sites jobs ?s"
    unfolding scan_scope_def by (rule scan_reach_inv [OF scan_reach_run [OF reach_init]])
  have fin: "\<forall>c \<in> set (sc_claimers ?s). cl_phase c = Done"
    using scan_scope_done [of read_reward sites jobs schedule progress] by (simp add: all_done_def)
  have "sc_claimers ?s \<noteq> []" using inv by (auto simp: scan_inv_def)
  then obtain c where "c \<in> set (sc_claimers ?s)" by (meson list.set_sel(1))
  with fin inv have last: "length sites < sc_cursor ?s \<or> sc_err ?s \<noteq> None"
    unfolding scan_inv_def by (metis phase.distinct(3))
  have sub: "readable read_reward sites \<Longrightarrow> readable read_reward (take n sites)" for n
    by (auto simp: readable_def dest: in_set_takeD)
  show err: "sc_err ?s = None \<longleftrightarrow> readable read_reward sites"
    using inv last sub by (auto simp: scan_inv_def)
  show "sc_err ?s = Some e \<Longrightarrow> \<exists>(pos, h) \<in> set sites. read_reward h = Inl e"
    using inv by (simp add: scan_inv_def)
  assume "readable read_reward sites"
  with err last have "take (sc_cursor ?s) sites = sites" by simp
  moreover have "sum_list (map (\<lambda>c. mset (cl_local c)) (sc_claimers ?s)) = {#}"
  proof -
    have "\<forall>c \<in> set (sc_claimers ?s). cl_local c = []" using inv fin by (simp add: scan_inv_def)
    moreover have "sum_list (map (\<lambda>c. mset (cl_local c)) cs) = {#}" if "\<forall>c \<in> set cs. cl_local c = []" for cs
      using that by (induction cs) simp_all
    ultimately show ?thesis by blast
  qed
  ultimately show "mset (sc_flips ?s) = mset (zero_sites read_reward sites)"
    using inv by (simp add: scan_inv_def found_def)
qed

subsection \<open>Writing the flags\<close>

definition flag_bytes :: "nat set \<Rightarrow> bytes \<Rightarrow> bytes" where
  "flag_bytes P data = map (\<lambda>i. if i \<in> P then data ! i OR FLAG_ZERO_TOTAL_REWARD else data ! i) [0..<length data]"

lemma length_flag_bytes [simp]: "length (flag_bytes P data) = length data"
  by (simp add: flag_bytes_def)

lemma nth_flag_bytes: "i < length data \<Longrightarrow>
    flag_bytes P data ! i = (if i \<in> P then data ! i OR FLAG_ZERO_TOTAL_REWARD else data ! i)"
  by (simp add: flag_bytes_def)

lemma flag_bytes_empty [simp]: "flag_bytes {} data = data"
  by (rule nth_equalityI) (simp_all add: nth_flag_bytes)

lemma flag_bytes_union: "flag_bytes P (flag_bytes Q data) = flag_bytes (Q \<union> P) data"
  by (rule nth_equalityI) (auto simp: nth_flag_bytes or.assoc)

lemma flag_bytes_update: "data[p := data ! p OR FLAG_ZERO_TOTAL_REWARD] = flag_bytes {p} data"
  by (rule nth_equalityI) (simp_all add: nth_flag_bytes nth_list_update)

lemma flag_bytes_append:
  "flag_bytes P (a @ b) = flag_bytes P a @ flag_bytes {i. length a + i \<in> P} b"
  by (rule nth_equalityI) (auto simp: nth_flag_bytes nth_append)

lemma zero_flag_iff: "b AND FLAG_ZERO_TOTAL_REWARD = 0 \<longleftrightarrow> \<not> bit b 6"
  using flag_bits(4) [of b] by blast

lemma or_zero_flag: "bit b 6 \<Longrightarrow> b OR FLAG_ZERO_TOTAL_REWARD = b"
  by (rule bit_eqI) (auto simp: bit_or_iff bit_flags)

lemma apply_flips_eq:
  "\<forall>p \<in> set flips. p < length data \<Longrightarrow>
     apply_flips flips data changed =
       Inr (flag_bytes (set flips) data, changed \<or> (\<exists>p \<in> set flips. data ! p AND FLAG_ZERO_TOTAL_REWARD = 0))"
proof (induction flips arbitrary: data changed)
  case (Cons p flips)
  then have p: "p < length data" by simp
  have bits: "flag_bytes {p} data ! q AND FLAG_ZERO_TOTAL_REWARD = 0 \<longleftrightarrow> q \<noteq> p \<and> data ! q AND FLAG_ZERO_TOTAL_REWARD = 0"
    if "q < length data" for q
    using that by (auto simp: nth_flag_bytes zero_flag_iff bit_or_iff bit_flags)
  have union: "flag_bytes (set flips) (flag_bytes {p} data) = flag_bytes (set (p # flips)) data"
    by (simp add: flag_bytes_union)
  have same: "flag_bytes {p} data = data" if "bit (data ! p) 6"
    using that by (simp add: flag_bytes_update [symmetric] or_zero_flag)
  have step: "apply_flips flips (flag_bytes {p} data) ch =
      Inr (flag_bytes (set (p # flips)) data,
        ch \<or> (\<exists>q \<in> set flips. q \<noteq> p \<and> data ! q AND FLAG_ZERO_TOTAL_REWARD = 0))" for ch
    using Cons.IH [of "flag_bytes {p} data" ch] Cons.prems bits unfolding union by auto
  show ?case
  proof (cases "bit (data ! p) 6")
    case True
    then have "apply_flips (p # flips) data changed = apply_flips flips (flag_bytes {p} data) changed"
      using p same by (simp add: zero_flag_iff)
    then show ?thesis using True unfolding step by (auto simp: zero_flag_iff)
  next
    case False
    then have "apply_flips (p # flips) data changed = apply_flips flips (flag_bytes {p} data) True"
      using p by (simp add: zero_flag_iff flag_bytes_update)
    then show ?thesis using False unfolding step by (auto simp: zero_flag_iff)
  qed
qed simp

text \<open>The patcher rewrites a file exactly when its bytes change.\<close>

lemma flag_bytes_changes:
  "\<forall>p \<in> P. p < length data \<Longrightarrow>
     (\<exists>p \<in> P. data ! p AND FLAG_ZERO_TOTAL_REWARD = 0) \<longleftrightarrow> flag_bytes P data \<noteq> data"
proof (rule iffI)
  assume P: "\<forall>p \<in> P. p < length data" and "\<exists>p \<in> P. data ! p AND FLAG_ZERO_TOTAL_REWARD = 0"
  then obtain p where p: "p \<in> P" "p < length data" "\<not> bit (data ! p) 6" by (auto simp: zero_flag_iff)
  then have "bit (flag_bytes P data ! p) 6" by (simp add: nth_flag_bytes bit_or_iff bit_flags)
  with p(3) show "flag_bytes P data \<noteq> data" by auto
next
  assume P: "\<forall>p \<in> P. p < length data" and ne: "flag_bytes P data \<noteq> data"
  show "\<exists>p \<in> P. data ! p AND FLAG_ZERO_TOTAL_REWARD = 0"
  proof (rule ccontr)
    assume "\<not> (\<exists>p \<in> P. data ! p AND FLAG_ZERO_TOTAL_REWARD = 0)"
    then have "flag_bytes P data = data"
      by (intro nth_equalityI) (auto simp: nth_flag_bytes zero_flag_iff or_zero_flag)
    with ne show False by simp
  qed
qed

lemma block_flag_sites_bound:
  assumes "block_flag_sites data = Inr sites" "(rel, h) \<in> set sites"
  shows "rel < length data"
proof -
  from assms(1) obtain offs k where
    n: "valid_prefix_size (unat (data ! 92))"
    and offs: "read_offsets data = Inr offs" "ensure_offsets offs (length data) = Inr ()"
    and k: "offs ! 6 + k * unat (data ! 92) \<le> offs ! 7"
    and t: "traverse (\<lambda>index. rbind (slice_of data (offs ! 6 + index * unat (data ! 92)) (offs ! 6 + index * unat (data ! 92) + 32))
        (\<lambda>h. Inr (offs ! 6 + index * unat (data ! 92) + 44, H256 h))) [0..<k] = Inr sites"
    by (auto simp: block_flag_sites_def rbind_Inr_iff Let_def returns)
  have "length offs = 8"
    using offs(1) unfolding read_offsets_def traverse_Inr_iff by (auto dest: list_all2_lengthD)
  then have "offs ! 7 \<le> length data"
    using offs(2) by (simp add: ensure_offsets_def ensure_offsets_sorted)
  moreover from t assms(2) obtain i where i: "i < k" "rel = offs ! 6 + i * unat (data ! 92) + 44"
    unfolding traverse_Inr_iff by (fastforce simp: in_set_conv_nth list_all2_conv_all_nth rbind_Inr_iff)
  moreover have "64 \<le> unat (data ! 92)" using valid_prefix_size_bounds [OF n] by simp
  moreover have "i * unat (data ! 92) + unat (data ! 92) \<le> k * unat (data ! 92)"
    using i(1) by (metis Suc_leI add.commute mult_Suc mult_le_mono1)
  ultimately show ?thesis using k by linarith
qed

lemma collect_sites_bound:
  assumes "collect_sites data entries = Inr sites" "length data < 2 ^ 64" "(pos, h) \<in> set sites"
  shows "pos < length data"
  using assms
proof (induction data entries arbitrary: sites rule: collect_sites.induct)
  case (2 data offset len entries)
  then obtain packet fnd rest where p: "slice_of data offset (usize_add offset len) = Inr packet"
    "block_flag_sites packet = Inr fnd" "collect_sites data entries = Inr rest"
    "sites = map (\<lambda>(rel, h). (usize_add offset rel, h)) fnd @ rest"
    by (auto simp: rbind_Inr_iff)
  show ?case
  proof (cases "(pos, h) \<in> set rest")
    case True
    show ?thesis by (rule "2.IH" [OF p(1,2,3) "2.prems"(2) True])
  next
    case False
    with "2.prems"(3) p(4) obtain rel where rel: "(rel, h) \<in> set fnd" "pos = usize_add offset rel" by auto
    have "rel < length packet" by (rule block_flag_sites_bound [OF p(2) rel(1)])
    then have "offset + rel < length data" using p(1) by (auto simp: returns)
    with "2.prems"(2) show ?thesis by (simp add: rel(2))
  qed
qed simp

lemma patch_container_result:
  assumes entries: "parse_container data = Inr entries" and sites: "collect_sites data entries = Inr sites"
    and size: "length data < 2 ^ 64" and readable: "readable read_reward sites"
  shows "patch_container_bytes read_reward jobs schedule data = Inr
    \<lparr>pd_data = flag_bytes (set (zero_sites read_reward sites)) data, pd_blocks_seen = of_nat (length sites),
     pd_blocks_flagged = of_nat (length (zero_sites read_reward sites)),
     pd_changed = (flag_bytes (set (zero_sites read_reward sites)) data \<noteq> data)\<rparr>"
proof -
  let ?s = "scan_scope read_reward sites jobs schedule 0"
  have err: "sc_err ?s = None" using readable by (simp add: scan_scope_result(1))
  have flips: "mset (sc_flips ?s) = mset (zero_sites read_reward sites)"
    by (rule scan_scope_result(3) [OF readable])
  have set: "set (sc_flips ?s) = set (zero_sites read_reward sites)" by (rule mset_eq_setD [OF flips])
  have len: "length (sc_flips ?s) = length (zero_sites read_reward sites)" by (rule mset_eq_length [OF flips])
  have bound: "\<forall>p \<in> set (zero_sites read_reward sites). p < length data"
    unfolding zero_sites_def using collect_sites_bound [OF sites size] by auto
  have "apply_flips (sc_flips ?s) data False =
      Inr (flag_bytes (set (zero_sites read_reward sites)) data, flag_bytes (set (zero_sites read_reward sites)) data \<noteq> data)"
    using apply_flips_eq [of "sc_flips ?s" data False] bound flag_bytes_changes [OF bound] by (simp add: set)
  then show ?thesis by (simp add: patch_container_bytes_def entries sites err len Let_def)
qed

subsection \<open>Patching is encoding again\<close>

definition zero_reward :: "reward_db \<Rightarrow> h256 \<Rightarrow> bool" where
  "zero_reward read_reward h = (case read_reward h of Inl e \<Rightarrow> False | Inr r \<Rightarrow> total_reward_zero r)"

definition flagged_packet :: "(h256 \<Rightarrow> bool) \<Rightarrow> 't packet \<Rightarrow> 't packet" where
  "flagged_packet z input = input\<lparr>p_blocks := map (\<lambda>b. if z (b_hash b) then set_zero_reward b else b) (p_blocks input)\<rparr>"

lemma length_reflag [simp]: "length (p_blocks (reflag j input)) = length (p_blocks input)"
  by (simp add: reflag_def)

lemma length_fold_reflag [simp]: "length (p_blocks (fold reflag js input)) = length (p_blocks input)"
  by (induction js arbitrary: input) simp_all

lemma fold_reflag_nth:
  "distinct js \<Longrightarrow> j < length (p_blocks input) \<Longrightarrow> p_blocks (fold reflag js input) ! j =
     (if j \<in> set js then set_zero_reward (p_blocks input ! j) else p_blocks input ! j)"
proof (induction js arbitrary: input)
  case (Cons k js)
  have "p_blocks (reflag k input) ! j = (if j = k then set_zero_reward (p_blocks input ! j) else p_blocks input ! j)"
    using Cons.prems(2) by (simp add: reflag_def nth_list_update)
  moreover have "j < length (p_blocks (reflag k input))" using Cons.prems(2) by simp
  ultimately show ?case using Cons.IH [of "reflag k input"] Cons.prems(1) by (cases "j = k") simp_all
qed simp

lemma fold_reflag_blocks: "\<exists>bs. fold reflag js input = input\<lparr>p_blocks := bs\<rparr>"
proof (induction js arbitrary: input)
  case (Cons j js)
  then obtain bs where "fold reflag js (reflag j input) = (reflag j input)\<lparr>p_blocks := bs\<rparr>" by blast
  then have "fold reflag (j # js) input = input\<lparr>p_blocks := bs\<rparr>" by (simp add: reflag_def)
  then show ?case by blast
next
  case Nil
  have "fold reflag [] input = input\<lparr>p_blocks := p_blocks input\<rparr>" by simp
  then show ?case by blast
qed

lemma zero_sites_map:
  "zero_sites read_reward (map (\<lambda>j. (f j, g j)) xs) = map f (filter (\<lambda>j. zero_reward read_reward (g j)) xs)"
  by (simp add: zero_sites_def zero_reward_def filter_map comp_def)

lemma encode_packet_reflags:
  "encode_packet T R S input = Inr data \<Longrightarrow> sites_at T R S input base n \<Longrightarrow>
   \<forall>j \<in> set js. j < length (p_blocks input) \<Longrightarrow>
   encode_packet T R S (fold reflag js input) = Inr (flag_bytes ((\<lambda>j. base + j * n + 44) ` set js) data)"
proof (induction js arbitrary: input data)
  case (Cons j js)
  have j: "j < length (p_blocks input)" using Cons.prems(3) by simp
  note step = encode_packet_reflag [OF Cons.prems(1,2) j]
  have "encode_packet T R S (fold reflag js (reflag j input)) =
      Inr (flag_bytes ((\<lambda>j. base + j * n + 44) ` set js) (flag_bytes {base + j * n + 44} data))"
    using step Cons.prems(3) by (intro Cons.IH) (simp_all add: flag_bytes_update reflag_def)
  then show ?case by (simp add: flag_bytes_union)
qed simp

lemma encode_flagged_packet:
  fixes input :: "'t packet"
  assumes enc: "encode_packet T R S input = Inr data" and size: "length data < 2 ^ 64" and S: "snap_law S"
    and nonces: "\<forall>e \<in> set (p_sender_base_nonces input). sn_sender_index e < 2 ^ 64"
  shows "\<exists>sites. block_flag_sites data = Inr sites \<and> map snd sites = map b_hash (p_blocks input) \<and>
    encode_packet T R S (flagged_packet (zero_reward read_reward) input) =
      Inr (flag_bytes (set (zero_sites read_reward sites)) data)"
proof -
  obtain base n where at: "sites_at T R S input base n" using encode_packet_sites_at [OF enc] by blast
  let ?site = "\<lambda>j. base + j * n + 44"
  let ?z = "zero_reward read_reward" and ?bs = "p_blocks input"
  let ?sites = "map (\<lambda>j. (?site j, b_hash (?bs ! j))) [0..<length ?bs]"
  define js where "js = filter (\<lambda>j. ?z (b_hash (?bs ! j))) [0..<length ?bs]"
  have "set (zero_sites read_reward ?sites) = ?site ` set js"
    by (simp add: zero_sites_map js_def)
  moreover have "fold reflag js input = flagged_packet ?z input"
  proof -
    have "p_blocks (fold reflag js input) = map (\<lambda>b. if ?z (b_hash b) then set_zero_reward b else b) ?bs"
      by (rule nth_equalityI) (simp_all add: fold_reflag_nth js_def)
    moreover obtain bs where "fold reflag js input = input\<lparr>p_blocks := bs\<rparr>" using fold_reflag_blocks by blast
    ultimately show ?thesis by (simp add: flagged_packet_def)
  qed
  moreover have "encode_packet T R S (fold reflag js input) = Inr (flag_bytes (?site ` set js) data)"
    by (rule encode_packet_reflags [OF enc at]) (simp add: js_def)
  moreover have "map snd ?sites = map b_hash ?bs" by (rule nth_equalityI) simp_all
  ultimately have "map snd ?sites = map b_hash ?bs"
    "encode_packet T R S (flagged_packet ?z input) = Inr (flag_bytes (set (zero_sites read_reward ?sites)) data)"
    by (simp_all only:)
  with block_flag_sites_encoded [OF enc at size S nonces] show ?thesis by blast
qed

subsection \<open>Whole containers\<close>

lemma parse_payloads_entries:
  "parse_payloads data pos n = map_result (map (\<lambda>(s, c, off, len). (off, len))) (parse_entries data pos n)"
proof (induction n arbitrary: pos)
  case (Suc n)
  show ?case
    by (cases "pos + DIR_ENTRY_LEN \<le> length data";
        cases "usize_add (unat (u64_at data (pos + 16))) (unat (u64_at data (pos + 24))) \<le> length data";
        cases "parse_entries data (pos + DIR_ENTRY_LEN) n")
      (simp_all add: Let_def Suc.IH)
qed simp

lemma parse_container_directory:
  "parse_container data = map_result (map (\<lambda>(s, c, off, len). (off, len))) (parse_directory data)"
  by (simp add: parse_container_def parse_directory_def Let_def parse_payloads_entries rbind_map_result)

fun absolute_sites :: "nat \<Rightarrow> bytes list \<Rightarrow> (nat \<times> h256) list list \<Rightarrow> (nat \<times> h256) list" where
  "absolute_sites off (p # ps) (s # ss) =
     map (\<lambda>(rel, h). (off + rel, h)) s @ absolute_sites (off + length p) ps ss"
| "absolute_sites off ps ss = []"

lemma collect_sites_layout:
  assumes "data = pre @ concat payloads" "off = length pre" "length data < 2 ^ 64"
    and "map (\<lambda>e. unat (de_length e)) es = map length payloads"
    and "list_all2 (\<lambda>p s. block_flag_sites p = Inr s) payloads ss"
  shows "collect_sites data (map (\<lambda>(s, c, off, len). (off, len)) (layout off es)) = Inr (absolute_sites off payloads ss)"
  using assms
proof (induction payloads arbitrary: es off pre ss)
  case (Cons p ps)
  then obtain e es' where es: "es = e # es'" "unat (de_length e) = length p"
    "map (\<lambda>e. unat (de_length e)) es' = map length ps" by (auto simp: map_eq_Cons_conv)
  from Cons.prems(5) obtain s ss' where ss: "ss = s # ss'" "block_flag_sites p = Inr s"
    "list_all2 (\<lambda>p s. block_flag_sites p = Inr s) ps ss'" by (auto simp: list_all2_Cons1)
  have le: "off + length p \<le> length data" using Cons.prems(1,2) by simp
  then have add: "usize_add off (length p) = off + length p" using Cons.prems(3) by simp
  have "slice_of data off (off + length p) = Inr p"
    using Cons.prems(1,2) le by (simp add: slice_of_def subslice_def)
  moreover have "collect_sites data (map (\<lambda>(s, c, off, len). (off, len)) (layout (off + length p) es')) =
      Inr (absolute_sites (off + length p) ps ss')"
    by (rule Cons.IH [where pre = "pre @ p"]) (use Cons.prems es ss in simp_all)
  moreover have "map (\<lambda>(rel, h). (usize_add off rel, h)) s = map (\<lambda>(rel, h). (off + rel, h)) s"
    using block_flag_sites_bound [OF ss(2)] le Cons.prems(3) by (fastforce intro!: map_cong)
  ultimately show ?case
    by (simp only: es ss add layout.simps list.map prod.case collect_sites.simps absolute_sites.simps rbind_simps)
qed simp

lemma flag_absolute_sites:
  assumes "list_all2 (\<lambda>p s. block_flag_sites p = Inr s) payloads ss"
  shows "flag_bytes (set (zero_sites read_reward (absolute_sites (length pre) payloads ss))) (pre @ concat payloads) =
    pre @ concat (map2 (\<lambda>p s. flag_bytes (set (zero_sites read_reward s)) p) payloads ss)"
  using assms
proof (induction payloads ss arbitrary: pre rule: list_all2_induct)
  case (Cons p ps s ss)
  let ?Z = "\<lambda>s. set (zero_sites read_reward s)"
  let ?here = "map (\<lambda>(rel, h). (length pre + rel, h)) s"
  let ?rest = "absolute_sites (length (pre @ p)) ps ss"
  have here: "?Z ?here = (+) (length pre) ` ?Z s" by (force simp: zero_sites_def)
  have "flag_bytes (?Z ?here) (pre @ p @ concat ps) = pre @ flag_bytes (?Z s) p @ concat ps"
  proof -
    have "flag_bytes (?Z ?here) pre = pre"
      by (rule nth_equalityI) (auto simp: nth_flag_bytes here)
    moreover have "{i. length pre + i \<in> ?Z ?here} = ?Z s" unfolding here by auto
    moreover have "flag_bytes {i. length p + i \<in> ?Z s} (concat ps) = concat ps"
    proof -
      have "{i. length p + i \<in> ?Z s} = {}"
        using block_flag_sites_bound [OF Cons.hyps(1)] by (fastforce simp: zero_sites_def)
      then show ?thesis by simp
    qed
    ultimately show ?thesis by (simp add: flag_bytes_append)
  qed
  moreover have "flag_bytes (?Z ?rest) ((pre @ flag_bytes (?Z s) p) @ concat ps) =
      (pre @ flag_bytes (?Z s) p) @ concat (map2 (\<lambda>p s. flag_bytes (?Z s) p) ps ss)"
    using Cons.IH [of "pre @ flag_bytes (?Z s) p"] by simp
  moreover have "?Z (absolute_sites (length pre) (p # ps) (s # ss)) = ?Z ?here \<union> ?Z ?rest"
    by (simp add: zero_sites_append)
  ultimately show ?case by (simp flip: flag_bytes_union)
qed (simp add: zero_sites_def)

definition container_head :: "u64 \<Rightarrow> dir_entry list \<Rightarrow> bytes" where
  "container_head sh es =
     MAGIC @ to_le_bytes 4 FORMAT_VERSION @ to_le_bytes 4 (of_nat (length es) :: u32)
     @ to_le_bytes 4 (ucast sh :: u32) @ to_le_bytes 4 (0 :: u32)
     @ write_directory (of_nat CONTAINER_HEADER_LEN + of_nat DIR_ENTRY_LEN * ucast (of_nat (length es) :: u32)) es"

lemma container_bytes_head:
  "container_bytes sh (builder_of ps) = container_head sh (map entry_of ps) @ concat (map po_bytes ps)"
  by (simp add: container_bytes_def container_head_def Let_def)

text \<open>
  \<open>container_of T R S inputs ps\<close>: the payloads of the packets \<open>ps\<close> are the encodings of \<open>inputs\<close>.
\<close>

definition container_of ::
  "('t, 'acc, 'auth) tx_lib \<Rightarrow> ('r, 'acc, 'auth) rlp_lib \<Rightarrow> snap_lib \<Rightarrow> 't packet list \<Rightarrow> packet_out list \<Rightarrow> bool" where
  "container_of T R S inputs ps \<longleftrightarrow> list_all2 (\<lambda>input p. encode_packet T R S input = Inr (po_bytes p)) inputs ps"

definition same_place :: "packet_out \<Rightarrow> packet_out \<Rightarrow> bool" where
  "same_place p q \<longleftrightarrow> po_group_index q = po_group_index p \<and> po_start_epoch q = po_start_epoch p \<and>
     po_epoch_count q = po_epoch_count p \<and> po_block_count q = po_block_count p \<and>
     po_transaction_count q = po_transaction_count p \<and> length (po_bytes q) = length (po_bytes p)"

lemma same_place_entries: "list_all2 same_place ps qs \<Longrightarrow> map entry_of ps = map entry_of qs"
  by (induction ps qs rule: list_all2_induct) (simp_all add: same_place_def entry_of_def)

lemma snd_absolute_sites:
  "length payloads = length ss \<Longrightarrow> map snd (absolute_sites off payloads ss) = concat (map (map snd) ss)"
proof (induction payloads arbitrary: off ss)
  case (Cons p ps)
  then obtain s ss' where "ss = s # ss'" "length ps = length ss'" by (cases ss) auto
  with Cons.IH show ?case by (simp add: comp_def case_prod_beta)
qed simp

lemma length_zero_sites:
  "length (zero_sites read_reward sites) = length (filter (zero_reward read_reward) (map snd sites))"
proof -
  have "(\<lambda>(pos :: nat, h). case read_reward h of Inl e \<Rightarrow> False | Inr r \<Rightarrow> total_reward_zero r) =
      (\<lambda>x. zero_reward read_reward (snd x))" by (simp add: fun_eq_iff zero_reward_def)
  then show ?thesis by (simp add: zero_sites_def filter_map comp_def)
qed

lemma readable_snd: "readable read_reward sites \<longleftrightarrow> (\<forall>h \<in> set (map snd sites). \<exists>r. read_reward h = Inr r)"
  by (auto simp: readable_def)

lemma patch_container_reencodes:
  fixes inputs :: "'t packet list"
  assumes ps: "container_of T R S inputs ps" and n: "length ps < 2 ^ 32"
    and size: "24 + 32 * length ps + packets_size ps < 2 ^ 64" and S: "snap_law S"
    and nonces: "\<forall>input \<in> set inputs. \<forall>e \<in> set (p_sender_base_nonces input). sn_sender_index e < 2 ^ 64"
    and rewards: "\<forall>input \<in> set inputs. \<forall>b \<in> set (p_blocks input). \<exists>r. read_reward (b_hash b) = Inr r"
  shows "\<exists>qs. container_of T R S (map (flagged_packet (zero_reward read_reward)) inputs) qs \<and>
    list_all2 same_place ps qs \<and>
    patch_container_bytes read_reward jobs schedule (container_bytes sh (builder_of ps)) = Inr
      \<lparr>pd_data = container_bytes sh (builder_of qs),
       pd_blocks_seen = of_nat (sum_list (map (\<lambda>input. length (p_blocks input)) inputs)),
       pd_blocks_flagged = of_nat (sum_list (map (\<lambda>input. length (filter (\<lambda>b. zero_reward read_reward (b_hash b))
         (p_blocks input))) inputs)),
       pd_changed = (container_bytes sh (builder_of qs) \<noteq> container_bytes sh (builder_of ps))\<rparr>"
proof -
  let ?data = "container_bytes sh (builder_of ps)"
  let ?Z = "\<lambda>s. set (zero_sites read_reward s)"
  define ss where "ss = map (\<lambda>p. case block_flag_sites (po_bytes p) of Inr s \<Rightarrow> s | Inl e \<Rightarrow> []) ps"
  define qs where "qs = map2 (\<lambda>p s. p\<lparr>po_bytes := flag_bytes (?Z s) (po_bytes p)\<rparr>) ps ss"
  have len: "length inputs = length ps" "length ss = length ps" "length qs = length ps"
    using ps by (auto simp: container_of_def ss_def qs_def dest: list_all2_lengthD)
  have each: "block_flag_sites (po_bytes (ps ! i)) = Inr (ss ! i)"
    "map snd (ss ! i) = map b_hash (p_blocks (inputs ! i))"
    "encode_packet T R S (flagged_packet (zero_reward read_reward) (inputs ! i)) = Inr (po_bytes (qs ! i))"
    if i: "i < length ps" for i
  proof -
    have enc: "encode_packet T R S (inputs ! i) = Inr (po_bytes (ps ! i))"
      using ps i by (simp add: container_of_def list_all2_conv_all_nth)
    have "length (po_bytes (ps ! i)) \<le> packets_size ps"
      using member_le_sum_list [of "length (po_bytes (ps ! i))" "map (\<lambda>p. length (po_bytes p)) ps"] i by simp
    then have small: "length (po_bytes (ps ! i)) < 2 ^ 64" using size by linarith
    have "\<forall>e \<in> set (p_sender_base_nonces (inputs ! i)). sn_sender_index e < 2 ^ 64"
      using nonces i len(1) nth_mem [of i inputs] by auto
    from encode_flagged_packet [OF enc small S this, of read_reward] obtain s where
      s: "block_flag_sites (po_bytes (ps ! i)) = Inr s" "map snd s = map b_hash (p_blocks (inputs ! i))"
      "encode_packet T R S (flagged_packet (zero_reward read_reward) (inputs ! i)) =
        Inr (flag_bytes (?Z s) (po_bytes (ps ! i)))" by blast
    moreover from s(1) i have "ss ! i = s" by (simp add: ss_def)
    ultimately show "block_flag_sites (po_bytes (ps ! i)) = Inr (ss ! i)"
      "map snd (ss ! i) = map b_hash (p_blocks (inputs ! i))"
      "encode_packet T R S (flagged_packet (zero_reward read_reward) (inputs ! i)) = Inr (po_bytes (qs ! i))"
      using i len(2) by (simp_all add: qs_def)
  qed
  have sites: "list_all2 (\<lambda>p s. block_flag_sites p = Inr s) (map po_bytes ps) ss"
    using each(1) len(2) by (simp add: list_all2_conv_all_nth)
  have hashes: "map (map snd) ss = map (\<lambda>input. map b_hash (p_blocks input)) inputs"
    using each(2) len by (intro nth_equalityI) simp_all
  have same: "list_all2 same_place ps qs"
    using len by (auto simp: list_all2_conv_all_nth qs_def same_place_def)
  obtain pre where pre: "?data = pre @ concat (map po_bytes ps)" "length pre = 24 + 32 * length ps"
    using container_directory(2) [OF n size] by blast
  have small: "packets_size ps < 2 ^ 64" using size by linarith
  have ld: "length ?data < 2 ^ 64" using size pre by (simp add: length_concat comp_def)
  let ?sites = "absolute_sites (length pre) (map po_bytes ps) ss"
  have collect: "collect_sites ?data (map (\<lambda>(s, c, off, len). (off, len)) (layout (length pre) (map entry_of ps))) = Inr ?sites"
    by (rule collect_sites_layout [OF pre(1) refl ld entry_lengths [OF small] sites])
  have parse: "parse_container ?data = Inr (map (\<lambda>(s, c, off, len). (off, len)) (layout (length pre) (map entry_of ps)))"
    by (simp only: parse_container_directory container_directory(1) [OF n size] map_result_simps pre(2))
  have snd: "map snd ?sites = concat (map (\<lambda>input. map b_hash (p_blocks input)) inputs)"
    using snd_absolute_sites [of "map po_bytes ps" ss "length pre"] len hashes by simp
  have "readable read_reward ?sites" unfolding readable_snd snd using rewards by auto
  note result = patch_container_result [OF parse collect ld this, of jobs schedule]
  have "length ?sites = sum_list (map (\<lambda>input. length (p_blocks input)) inputs)"
    using arg_cong [OF snd, of length] by (simp add: length_concat comp_def)
  moreover have "length (zero_sites read_reward ?sites) = sum_list (map (\<lambda>input.
      length (filter (\<lambda>b. zero_reward read_reward (b_hash b)) (p_blocks input))) inputs)"
    unfolding length_zero_sites snd by (simp add: filter_concat filter_map length_concat comp_def)
  moreover have "flag_bytes (?Z ?sites) ?data = container_bytes sh (builder_of qs)"
  proof -
    have "map2 (\<lambda>p s. flag_bytes (?Z s) p) (map po_bytes ps) ss = map po_bytes qs"
      using len by (intro nth_equalityI) (simp_all add: qs_def)
    moreover have "pre = container_head sh (map entry_of qs)"
      using pre(1) container_bytes_head [of sh ps] same_place_entries [OF same] by simp
    ultimately show ?thesis
      using flag_absolute_sites [OF sites, of read_reward pre] pre(1) by (simp add: container_bytes_head)
  qed
  moreover have "container_of T R S (map (flagged_packet (zero_reward read_reward)) inputs) qs"
    using each(3) len by (simp add: container_of_def list_all2_conv_all_nth)
  ultimately show ?thesis using same result by (intro exI [of _ qs] conjI) simp_all
qed

subsection \<open>Files\<close>

lemma patch_files_dry_run:
  "patch_files read_reward jobs schedules True ps fs summary = (fs', r) \<Longrightarrow> fs' = fs"
proof (induction ps arbitrary: fs summary)
  case (Cons p ps)
  then show ?case
    by (auto simp: patch_file_def Let_def split: sum.splits if_splits prod.splits)
qed simp

text \<open>What a run reports, apart from the bytes it wrote.\<close>

definition without_bytes :: "flag_patch_summary \<Rightarrow> flag_patch_summary" where
  "without_bytes s = s\<lparr>fs_bytes_rewritten := 0\<rparr>"

lemma patch_files_dry_report:
  "distinct ps \<Longrightarrow> without_bytes s = without_bytes s' \<Longrightarrow> \<forall>p \<in> set ps. fs p = fs' p \<Longrightarrow>
     map_result without_bytes (snd (patch_files read_reward jobs schedules True ps fs s)) =
     map_result without_bytes (snd (patch_files read_reward jobs schedules False ps fs' s'))"
proof (induction ps arbitrary: fs fs' s s')
  case (Cons p ps)
  let ?dry = "patch_file read_reward jobs schedules True p fs s"
  let ?real = "patch_file read_reward jobs schedules False p fs' s'"
  have eq: "fs p = fs' p" using Cons.prems(3) by simp
  show ?case
  proof (cases "rbind (ok_or (fs p) (Bail ''read'')) (patch_container_bytes read_reward jobs (schedules p))")
    case (Inl e)
    with eq show ?thesis by (simp add: patch_file_def)
  next
    case (Inr r)
    obtain g t where dry: "?dry = (g, Inr t)" "\<forall>q \<in> set ps. g q = fs q"
      using Inr by (auto simp: patch_file_def Let_def)
    obtain g' t' where real: "?real = (g', Inr t')" "\<forall>q \<in> set ps. g' q = fs' q"
      using Inr eq Cons.prems(1) by (auto simp: patch_file_def Let_def write_patched_file_def)
    have "without_bytes t = without_bytes t'"
      using Inr eq Cons.prems(2) dry(1) real(1)
      by (cases s; cases s') (auto simp: patch_file_def Let_def without_bytes_def split: if_splits)
    with Cons.IH [of t t' g g'] Cons.prems(1,3) dry real show ?thesis by simp
  qed
qed simp

lemma collect_sorted_pack_files_spec:
  assumes "collect_sorted_pack_files entries max_epoch min_epoch = Inr files"
  shows "sorted (map fp_start_epoch files)"
    "set files = {p \<in> set entries. extension p = Some ''cfxpack'' \<and>
       (\<forall>m. max_epoch = Some m \<longrightarrow> fp_start_epoch p < m) \<and> (\<forall>m. min_epoch = Some m \<longrightarrow> m \<le> fp_start_epoch p)}"
    "distinct entries \<Longrightarrow> distinct files"
  using assms
  by (auto simp: collect_sorted_pack_files_def rbind_Inr_iff Let_def intro!: sorted_filter split: option.splits)

text \<open>The pass fails exactly when a file cannot be read or patched.\<close>

definition file_fails :: "reward_db \<Rightarrow> nat \<Rightarrow> (path \<Rightarrow> nat list) \<Rightarrow> files \<Rightarrow> path \<Rightarrow> bool" where
  "file_fails read_reward jobs schedules fs p \<longleftrightarrow>
     (case fs p of None \<Rightarrow> True | Some data \<Rightarrow> isl (patch_container_bytes read_reward jobs (schedules p) data))"

lemma patch_file_fails:
  "isl (snd (patch_file read_reward jobs schedules dry_run p fs s)) \<longleftrightarrow> file_fails read_reward jobs schedules fs p"
  by (auto simp: patch_file_def file_fails_def Let_def split: option.splits sum.splits)

lemma patch_file_other:
  "q \<noteq> p \<Longrightarrow> fst (patch_file read_reward jobs schedules dry_run p fs s) q = fs q"
  by (auto simp: patch_file_def write_patched_file_def Let_def split: sum.splits)

lemma patch_files_fails:
  "distinct ps \<Longrightarrow> isl (snd (patch_files read_reward jobs schedules dry_run ps fs s)) \<longleftrightarrow>
     (\<exists>p \<in> set ps. file_fails read_reward jobs schedules fs p)"
proof (induction ps arbitrary: fs s)
  case (Cons p ps)
  obtain g r where step: "patch_file read_reward jobs schedules dry_run p fs s = (g, r)" by fastforce
  then have r: "isl r \<longleftrightarrow> file_fails read_reward jobs schedules fs p"
    using patch_file_fails [of read_reward jobs schedules dry_run p fs s] by simp
  have "g q = fs q" if "q \<in> set ps" for q
    using patch_file_other [of q p read_reward jobs schedules dry_run fs s] step that Cons.prems by auto
  then have "(\<exists>q \<in> set ps. file_fails read_reward jobs schedules g q) \<longleftrightarrow> (\<exists>q \<in> set ps. file_fails read_reward jobs schedules fs q)"
    by (simp add: file_fails_def)
  with Cons r step show ?case by (cases r) auto
qed simp

lemma monitor_ends:
  assumes "monitor finished = Some u"
  shows finished
proof (rule monitor.raw_induct [where P = "\<lambda>f u. f", OF _ assms])
  fix m :: "bool \<Rightarrow> unit option" and f y
  assume IH: "\<And>f y. m f = Some y \<Longrightarrow> f" and step: "(if f then Some () else m f) = Some y"
  show f
  proof (rule ccontr)
    assume "\<not> f"
    with step have "m f = Some y" by simp
    from IH [OF this] \<open>\<not> f\<close> show False by simp
  qed
qed

lemma monitor_simps [simp]: "monitor True = Some ()" "monitor False = None"
proof -
  show "monitor True = Some ()" by (subst monitor.simps) simp
  show "monitor False = None" using monitor_ends [of False] by (cases "monitor False") auto
qed

end
