(* ===== verification/Packet_Example.thy ===== *)
theory Packet_Example
  imports Packet_Plain Packet_Total Flag_Patch_Correct "HOL-Library.Code_Target_Nat"
begin

text \<open>
  Concrete libraries and packets at which the theorems on whole packets are applied: an RLP library
  that satisfies \<open>rlp_law\<close>, a snappy codec that satisfies \<open>snap_law\<close>, and a packet of one block.
\<close>

subsection \<open>An RLP library\<close>

text \<open>Items are written as a tag and a body that ends with a zero byte.\<close>

type_synonym item = "(unit, unit) rlp_item"

fun quote_bytes :: "bytes \<Rightarrow> bytes" where
  "quote_bytes [] = [0]"
| "quote_bytes (b # bs) = 1 # b # quote_bytes bs"

fun unquote_bytes :: "bytes \<Rightarrow> bytes \<times> bytes" where
  "unquote_bytes (t # b # rest) =
     (if t = 0 then ([], b # rest) else let (bs, rest) = unquote_bytes rest in (b # bs, rest))"
| "unquote_bytes rest = ([], tl rest)"

lemma unquote_quote: "unquote_bytes (quote_bytes bs @ rest) = (bs, rest)"
  by (induction bs) (simp_all, cases rest, simp_all)

fun write_item :: "item \<Rightarrow> bytes" where
  "write_item (Rlp_u8 x) = [0, x]"
| "write_item (Rlp_u64 x) = 1 # to_le_bytes 8 x"
| "write_item (Rlp_bytes bs) = 2 # quote_bytes bs"
| "write_item (Rlp_access_list l) = 3 # quote_bytes (map (\<lambda>_. 0) l)"
| "write_item (Rlp_authorization_list l) = 4 # quote_bytes (map (\<lambda>_. 0) l)"
| "write_item (Rlp_list n items) = 5 # concat (map (\<lambda>t. 1 # write_item t) items) @ [0]"

fun read_item :: "nat \<Rightarrow> bytes \<Rightarrow> item \<times> bytes"
  and read_items :: "nat \<Rightarrow> bytes \<Rightarrow> item list \<times> bytes" where
  "read_item 0 data = (Rlp_list 0 [], data)"
| "read_item (Suc n) data =
     (case data of
        [] \<Rightarrow> (Rlp_list 0 [], [])
      | tag # rest \<Rightarrow>
          if tag = 0 then (Rlp_u8 (hd rest), tl rest)
          else if tag = 1 then (Rlp_u64 (from_le_bytes (take 8 rest)), drop 8 rest)
          else if tag = 2 then let (bs, rest) = unquote_bytes rest in (Rlp_bytes bs, rest)
          else if tag = 3 then let (bs, rest) = unquote_bytes rest in (Rlp_access_list (map (\<lambda>_. ()) bs), rest)
          else if tag = 4 then let (bs, rest) = unquote_bytes rest in (Rlp_authorization_list (map (\<lambda>_. ()) bs), rest)
          else let (items, rest) = read_items n rest in (Rlp_list (length items) items, rest))"
| "read_items 0 data = ([], data)"
| "read_items (Suc n) data =
     (case data of
        [] \<Rightarrow> ([], [])
      | tag # rest \<Rightarrow>
          if tag = 0 then ([], rest)
          else let (item, rest) = read_item n rest; (items, rest) = read_items n rest in (item # items, rest))"

fun item_size :: "item \<Rightarrow> nat" where
  "item_size (Rlp_list n items) = 2 + sum_list (map (\<lambda>t. 1 + item_size t) items)"
| "item_size _ = 1"

lemma read_items_write:
  assumes "\<And>t m rest. t \<in> set items \<Longrightarrow> item_size t \<le> m \<Longrightarrow> read_item m (write_item t @ rest) = (t, rest)"
  shows "1 + sum_list (map (\<lambda>t. 1 + item_size t) items) \<le> n \<Longrightarrow>
    read_items n (concat (map (\<lambda>t. 1 # write_item t) items) @ 0 # rest) = (items, rest)"
  using assms
proof (induction items arbitrary: n)
  case Nil
  then show ?case by (cases n) simp_all
next
  case (Cons t items)
  obtain m where n: "n = Suc m" using Cons.prems(1) by (cases n) auto
  have le: "item_size t \<le> m" "1 + sum_list (map (\<lambda>t. 1 + item_size t) items) \<le> m"
    using Cons.prems(1) n by simp_all
  show ?case
    using Cons.IH [OF le(2)] Cons.prems(2) le(1) by (simp add: n)
qed

lemma read_item_write:
  "rlp_wf t \<Longrightarrow> item_size t \<le> n \<Longrightarrow> read_item n (write_item t @ rest) = (t, rest)"
proof (induction t arbitrary: n rest rule: write_item.induct)
  case (6 k items)
  then obtain m where n: "n = Suc m" by (cases n) auto
  have "read_items m (concat (map (\<lambda>t. 1 # write_item t) items) @ 0 # rest) = (items, rest)"
    using "6.IH" "6.prems" n by (intro read_items_write) (auto simp: list_all_iff)
  with "6.prems"(1) show ?case by (simp add: n)
next
  case (2 x)
  then show ?case by (cases n) (simp_all add: from_to_le_bytes)
qed (case_tac n; simp add: unquote_quote comp_def map_idI)+

lemma item_size_le: "item_size t \<le> length (write_item t)"
proof (induction t rule: write_item.induct)
  case (6 n items)
  then have "sum_list (map (\<lambda>t. 1 + item_size t) items) \<le> length (concat (map (\<lambda>t. 1 # write_item t) items))"
  proof (induction items)
    case (Cons t items)
    have "item_size t \<le> length (write_item t)" by (rule Cons.prems) simp
    moreover have "sum_list (map (\<lambda>t. 1 + item_size t) items) \<le> length (concat (map (\<lambda>t. 1 # write_item t) items))"
      by (rule Cons.IH) (rule Cons.prems, simp)
    ultimately show ?case by simp
  qed simp
  then show ?case by simp
qed simp_all

definition ex_rlp :: "(item, unit, unit) rlp_lib" where
  "ex_rlp = \<lparr>rlp_out = write_item, rlp_new = (\<lambda>data. fst (read_item (length data) data)),
     rlp_item_count = (\<lambda>r. case r of Rlp_list n items \<Rightarrow> Inr (length items) | _ \<Rightarrow> Inl (Bail ''not a list'')),
     rlp_at = (\<lambda>r i. case r of Rlp_list n items \<Rightarrow> if i < length items then Inr (items ! i) else Inl (Bail ''index'')
       | _ \<Rightarrow> Inl (Bail ''not a list'')),
     rlp_u8 = (\<lambda>r. case r of Rlp_u8 x \<Rightarrow> Inr x | _ \<Rightarrow> Inl (Bail ''not a u8'')),
     rlp_u64 = (\<lambda>r. case r of Rlp_u64 x \<Rightarrow> Inr x | _ \<Rightarrow> Inl (Bail ''not a u64'')),
     rlp_bytes = (\<lambda>r. case r of Rlp_bytes x \<Rightarrow> Inr x | _ \<Rightarrow> Inl (Bail ''not bytes'')),
     rlp_access_list = (\<lambda>r. case r of Rlp_access_list x \<Rightarrow> Inr x | _ \<Rightarrow> Inl (Bail ''not an access list'')),
     rlp_authorization_list = (\<lambda>r. case r of Rlp_authorization_list x \<Rightarrow> Inr x
       | _ \<Rightarrow> Inl (Bail ''not an authorization list''))\<rparr>"

lemma ex_rlp_law: "rlp_law ex_rlp"
proof -
  have "fst (read_item (length (write_item t)) (write_item t)) = t" if "rlp_wf t" for t
    using read_item_write [OF that item_size_le, of "[]"] by simp
  then have "rlp_repr ex_rlp (=)"
    by (auto simp: rlp_repr_def ex_rlp_def)
  then show ?thesis by (auto simp: rlp_law_def)
qed

definition ex_snap :: snap_lib where
  "ex_snap = \<lparr>snap_compress = Inr, snap_decompress = Inr\<rparr>"

lemma ex_snap_law: "snap_law ex_snap"
  by (simp add: snap_law_def ex_snap_def)

subsection \<open>Transactions and packets\<close>

text \<open>A transaction is its nonce: a native transfer of nothing from the zero address to itself.\<close>

lift_definition ex_hash :: "nat \<Rightarrow> h256" is "\<lambda>n. of_nat n # replicate 31 0"
  by simp

definition ex_tx :: "(u8, unit, unit) tx_lib" where
  "ex_tx = \<lparr>tl_hash = (\<lambda>n. ex_hash (unat n)), tl_sender = (\<lambda>_. Address_zero), tl_nonce = (\<lambda>n. ucast n),
     tl_native = (\<lambda>_. Some (5, 0)), tl_type_id = (\<lambda>_. 0), tl_gas_price = (\<lambda>_. 7),
     tl_max_priority_gas_price = (\<lambda>_. 7), tl_gas = (\<lambda>_. 21000), tl_action = (\<lambda>_. Call Address_zero),
     tl_value = (\<lambda>_. 0), tl_data = (\<lambda>_. []), tl_access_list = (\<lambda>_. None), tl_authorization_list = (\<lambda>_. None),
     tl_sign_native = (\<lambda>tx sender. case tx of Cip155 f \<Rightarrow> ucast (nt_nonce f) | _ \<Rightarrow> 0),
     tl_sign_ethereum = (\<lambda>_ _. 0)\<rparr>"

definition ex_block :: "nat \<Rightarrow> u8 \<Rightarrow> u8 list \<Rightarrow> u8 block" where
  "ex_block i flags txs = \<lparr>b_epoch = 5, b_index = i, b_hash = ex_hash (100 + i),
     b_deferred_state_root = H256_zero, b_deferred_receipts_root = H256_zero, b_deferred_logs_bloom_hash = H256_zero,
     b_flags = flags, b_author = Address_zero, b_timestamp = 1000, b_difficulty = 3, b_gas_limit = 30000000,
     b_base_price_core = 0, b_base_price_espace = 0, b_height = 5, b_blame = 0, b_finalized_epoch = 1,
     b_base_reward = 77, b_transactions = txs, b_transaction_refs = [], b_pos_rewards = [], b_unlock_events = [],
     b_pos_view = None\<rparr>"

definition ex_packet :: "u8 block list \<Rightarrow> u8 packet" where
  "ex_packet bs = \<lparr>p_prev_last_hash = H256_zero, p_prev_last_deferred_state_root = H256_zero,
     p_first_block_number = 1, p_min_timestamp = 900, p_min_height = 5, p_min_pos_height = 0,
     p_addresses = [Address_zero], p_pos_entries = [], p_difficulties = [3],
     p_sender_base_nonces = [\<lparr>sn_sender_index = 0, sn_base_nonce = 1\<rparr>], p_gas_prices = [7], p_blocks = bs\<rparr>"

definition ex_two :: "u8 packet" where
  "ex_two = ex_packet [ex_block 0 0 [1], ex_block 1 2 [1, 2]]"


definition ex_duplicate :: "u8 packet" where
  "ex_duplicate = ex_packet [ex_block 0 2 [1, 1]]"

lemma ex_snap_total: "snap_total ex_snap"
  by (simp add: snap_total_def ex_snap_def)

lemma ex_block_encodable: "block_encodable (ex_packet bs) (ex_block i flags txs)"
  by (simp add: block_encodable_def ex_packet_def ex_block_def)

lemma ex_tx_addressed: "tx_addressed ex_tx (ex_packet bs) tx"
  by (simp add: tx_addressed_def ex_tx_def ex_packet_def)

lemma ex_packet_encodable:
  assumes "validate_input (ex_packet bs) = Inr ()" "264 * length bs < 4294966890"
    "\<forall>b \<in> set bs. \<exists>i flags txs. b = ex_block i flags txs"
  shows "packet_encodable ex_tx (ex_packet bs)"
proof -
  have "table_bytes (ex_packet bs) = 104" "p_blocks (ex_packet bs) = bs"
    by (simp_all add: ex_packet_def table_bytes_def)
  then show ?thesis
    using assms ex_block_encodable [of bs] ex_tx_addressed [of bs]
    by (auto simp: packet_encodable_def head_bound_def)
qed

lemma ex_two_valid: "validate_input ex_two = Inr ()" "validate_input ex_duplicate = Inr ()"
  by code_simp+

lemma length_quote_bytes: "length (quote_bytes bs) = 2 * length bs + 1"
  by (induction bs) simp_all

lemma ex_hash_eq: "ex_hash (unat m) = ex_hash (unat n) \<longleftrightarrow> m = (n :: u8)"
proof
  assume "ex_hash (unat m) = ex_hash (unat n)"
  then have "hd (as_bytes (ex_hash (unat m))) = hd (as_bytes (ex_hash (unat n)))" by simp
  then show "m = n" by (simp add: ex_hash.rep_eq)
qed simp

lemma ex_tx_length:
  "encode_tx ex_tx e tx (index_addresses [Address_zero]) gi (sender_nonce_index_of ns) = Inr item \<Longrightarrow> length (write_item item) \<le> 400"
  by (auto simp: encode_tx_def ex_tx_def index_addresses_def index_table_def encode_action_def Let_def encode_price_def
    length_quote_bytes u256_to_be_def split: option.splits)

lemma ex_txs_length:
  "encode_txs ex_tx b (index_addresses [Address_zero]) gi (sender_nonce_index_of ns) i txs s = Inr (items, s') \<Longrightarrow>
     length (concat (map (\<lambda>t. 1 # write_item t) items)) \<le> 401 * length txs"
proof (induction txs arbitrary: i s items s')
  case (Cons tx txs)
  let ?er = "length (b_transaction_refs b) = length (b_transactions b)"
  have ref: "length (write_item (encode_ref r)) \<le> 400" for r by (simp add: encode_ref_def)
  obtain item items' i' s1 s2 where "items = item # items'" "length (write_item item) \<le> 400"
    "encode_txs ex_tx b (index_addresses [Address_zero]) gi (sender_nonce_index_of ns) i' txs s1 = Inr (items', s2)"
    using Cons.prems ref ex_tx_length
    by (cases "if ?er then b_transaction_refs b ! i else s (tl_hash ex_tx tx)")
      (fastforce simp: Let_def rbind_Inr_iff split: prod.splits)+
  with Cons.IH [of i' s1 items' s2] show ?case by simp
qed simp

lemma ex_payload_length:
  assumes "encode_tx_payload ex_tx ex_rlp (ex_block i flags txs) (index_addresses [Address_zero]) gi (sender_nonce_index_of ns) s
    = Inr (payload, s')"
  shows "length payload \<le> 401 * length txs + 2"
  using assms ex_txs_length
  by (fastforce simp: encode_tx_payload_def ex_rlp_def ex_block_def rbind_Inr_iff split: if_splits)

lemma ex_payloads_length:
  "encode_payloads ex_tx ex_rlp (index_addresses [Address_zero]) gi (sender_nonce_index_of ns) bs s = Inr payloads \<Longrightarrow>
     \<forall>b \<in> set bs. \<exists>i flags txs. b = ex_block i flags txs \<and> length txs \<le> 10 \<Longrightarrow> \<forall>p \<in> set payloads. length p \<le> 4012"
proof (induction bs arbitrary: s payloads)
  case (Cons b bs)
  from Cons.prems obtain p s' ps i flags txs where "b = ex_block i flags txs" "length txs \<le> 10" "payloads = p # ps"
    "encode_tx_payload ex_tx ex_rlp b (index_addresses [Address_zero]) gi (sender_nonce_index_of ns) s = Inr (p, s')"
    "encode_payloads ex_tx ex_rlp (index_addresses [Address_zero]) gi (sender_nonce_index_of ns) bs s' = Inr ps"
    by (fastforce simp: rbind_Inr_iff split: prod.splits)
  with Cons.IH [of s' ps] Cons.prems(2) ex_payload_length [of i flags txs gi ns s p s'] show ?case by auto
qed simp

lemma segment_bound_le: "\<forall>p \<in> set payloads. length p \<le> 4012 \<Longrightarrow> segment_bound payloads \<le> 8069 * length payloads"
  unfolding segment_bound_def by (induction payloads) auto

text \<open>Every packet of at most ten such blocks with at most ten transactions each is encoded.\<close>

lemma ex_packet_encodes:
  assumes valid: "validate_input (ex_packet bs) = Inr ()" and n: "length bs \<le> 10"
    and bs: "\<forall>b \<in> set bs. \<exists>i flags txs. b = ex_block i flags txs \<and> length txs \<le> 10"
  shows "\<exists>payloads data. packet_payloads ex_tx ex_rlp (ex_packet bs) = Inr payloads \<and>
    encode_packet ex_tx ex_rlp ex_snap (ex_packet bs) = Inr data \<and> length data < 100000"
proof -
  have parts: "p_addresses (ex_packet bs) = [Address_zero]" "p_blocks (ex_packet bs) = bs"
    by (simp_all add: ex_packet_def)
  have small: "length p \<le> 4012" if "packet_payloads ex_tx ex_rlp (ex_packet bs) = Inr payloads" "p \<in> set payloads" for payloads p
    using ex_payloads_length that bs unfolding parts by blast
  obtain payloads data where *: "packet_payloads ex_tx ex_rlp (ex_packet bs) = Inr payloads"
    "encode_packet ex_tx ex_rlp ex_snap (ex_packet bs) = Inr data"
    "length data \<le> head_bound (ex_packet bs) + segment_bound payloads"
    using encode_packet_total [OF ex_packet_encodable ex_snap_total, of bs ex_rlp] valid n bs small by fastforce
  have "head_bound (ex_packet bs) \<le> 3044" using n by (simp add: head_bound_def table_bytes_def ex_packet_def)
  moreover have "segment_bound payloads \<le> 8069 * length payloads"
    using small [OF *(1)] by (intro segment_bound_le) simp
  moreover have "length payloads \<le> 10" using length_encode_payloads [OF *(1)] n parts by simp
  ultimately have "length data < 100000" using *(3) by linarith
  with * show ?thesis by blast
qed

subsection \<open>The packets satisfy the hypotheses\<close>

lemma ex_two_data:
  obtains payloads data where "packet_payloads ex_tx ex_rlp ex_two = Inr payloads"
    "encode_packet ex_tx ex_rlp ex_snap ex_two = Inr data" "length data < 2 ^ 64" "length data < 100000"
  using ex_packet_encodes [of "[ex_block 0 0 [1], ex_block 1 2 [1, 2]]"] ex_two_valid(1) that
  unfolding ex_two_def by fastforce

lemma ex_duplicate_data:
  obtains data where "encode_packet ex_tx ex_rlp ex_snap ex_duplicate = Inr data" "length data < 2 ^ 64"
  using ex_packet_encodes [of "[ex_block 0 2 [1, 1]]"] ex_two_valid(2) that
  unfolding ex_duplicate_def by fastforce

lemma ex_nonces:
  "distinct (map sn_sender_index (p_sender_base_nonces (ex_packet bs)))"
  "\<forall>e \<in> set (p_sender_base_nonces (ex_packet bs)). sn_sender_index e < 2 ^ 64"
  "p_min_pos_height (ex_packet bs) < 2 ^ 32"
  by (simp_all add: ex_packet_def)

lemma ex_tx_encodable: "tx_encodable ex_tx (ex_packet bs) 1" "tx_encodable ex_tx (ex_packet bs) 2"
  by (simp_all add: tx_encodable_def ex_tx_def ex_packet_def base_nonce_for_def type_ok_def base_nonce_of_def
    low_u64_def index_addresses_def index_table_def)

lemma ex_pos_view: "pos_view_ok 0 100 (ex_block i flags txs)"
  by (simp add: pos_view_ok_def ex_block_def)

lemma ex_packet_fields [simp]:
  "p_blocks (ex_packet bs) = bs" "p_min_pos_height (ex_packet bs) = 0" "b_transactions (ex_block i f txs) = txs"
  "b_transaction_refs (ex_block i f txs) = []"
  by (simp_all add: ex_packet_def ex_block_def)

lemma ex_two_fits: "txs_fit ex_tx ex_two (p_blocks ex_two)" "txs_fit ex_tx ex_duplicate (p_blocks ex_duplicate)"
  "\<forall>b \<in> set (p_blocks ex_two). pos_view_ok (p_min_pos_height ex_two) 100 b"
  "\<forall>b \<in> set (p_blocks ex_duplicate). pos_view_ok (p_min_pos_height ex_duplicate) 100 b"
  by (simp_all add: txs_fit_def ex_two_def ex_duplicate_def ex_tx_encodable ex_pos_view)

lemma ex_hash_inj: "inj_on (tl_hash ex_tx) A"
  by (simp add: inj_on_def ex_tx_def ex_hash_eq)

lemma ex_hash_distinct [simp]: "ex_hash 2 \<noteq> ex_hash (Suc 0)" "ex_hash (Suc 0) \<noteq> ex_hash 2"
  using ex_hash_eq [of 1 2] by simp_all

lemma ex_two_plain: "plain_packet ex_tx ex_two"
  unfolding plain_packet_def
proof
  show "\<forall>b \<in> set (p_blocks ex_two). plain_block ex_tx b"
    by (simp add: plain_block_def ex_two_def) (simp add: ex_tx_def)
qed (rule ex_hash_inj)

lemma ex_refs_fit: "refs_fit ex_tx (p_blocks ex_two) Map.empty" "refs_fit ex_tx (p_blocks ex_duplicate) Map.empty"
  by (simp_all add: ex_two_def ex_duplicate_def) (simp_all add: refs_small_def Let_def ex_block_def ex_tx_def ex_hash_eq)

lemma ex_ok: "packet_ok ex_tx 100 ex_two" "packet_ok ex_tx 100 ex_duplicate"
  using ex_two_fits ex_refs_fit ex_nonces unfolding packet_ok_def ex_two_def ex_duplicate_def by auto

lemma ex_two_encodable: "packet_encodable ex_tx ex_two"
  unfolding ex_two_def
proof (rule ex_packet_encodable)
  show "validate_input (ex_packet [ex_block 0 0 [1], ex_block 1 2 [1, 2]]) = Inr ()"
    by (rule ex_two_valid(1) [unfolded ex_two_def])
qed auto

lemma ex_two_payloads:
  "packet_payloads ex_tx ex_rlp ex_two = Inr payloads \<Longrightarrow> p \<in> set payloads \<Longrightarrow> length p \<le> 4012"
  using ex_payloads_length [of _ _ "[ex_block 0 0 [1], ex_block 1 2 [1, 2]]" Map.empty payloads]
  by (fastforce simp: ex_two_def ex_packet_def)

lemma ex_two_items: "of_nat (sum_list (map item_count (p_blocks ex_two))) = (3 :: u32)"
  by (simp add: ex_two_def item_count_def) (simp add: ex_block_def)

lemma ex_two_nonces: "distinct (map sn_sender_index (p_sender_base_nonces ex_two))"
  "\<forall>e \<in> set (p_sender_base_nonces ex_two). sn_sender_index e < 2 ^ 64" "p_min_pos_height ex_two < 2 ^ 32"
  unfolding ex_two_def by (rule ex_nonces)+

end
