(* ===== verification/Packet_Decoded.thy ===== *)
theory Packet_Decoded
  imports Packet_Decode
begin

text \<open>
  What the decoder promises of any packet it returns, whatever bytes it was given: the blocks are
  numbered, their table entries come from the tables, their epochs from the next pivot, and every
  reference names an equal transaction of an earlier block.
\<close>

subsection \<open>Records\<close>

definition record_facts :: "u64 \<Rightarrow> address list \<Rightarrow> u256 list \<Rightarrow> nat \<Rightarrow> 't block \<Rightarrow> bool" where
  "record_facts pe as ds k b \<longleftrightarrow>
     b_index b = k \<and> b_author b \<in> set as \<and> b_difficulty b \<in> set ds \<and>
     (b_pos_view b \<noteq> None \<longleftrightarrow> pe \<le> b_height b)"

definition no_payload :: "'t block \<Rightarrow> bool" where
  "no_payload b \<longleftrightarrow> b_transactions b = [] \<and> b_transaction_refs b = [] \<and> b_pos_rewards b = [] \<and> b_unlock_events b = []"

lemma table_get_in: "table_get xs i = Inr x \<Longrightarrow> x \<in> set xs"
  by (auto simp: table_get_def returns split: if_splits)

lemma decode_block_record_facts:
  assumes "decode_block_record record k mt mh mp pe as ds = Inr b"
  shows "record_facts pe as ds k b \<and> no_payload b"
  using assms unfolding decode_block_record_def
  by (auto simp: rbind_Inr_iff Let_def record_facts_def no_payload_def dest!: table_get_in split: if_splits)

lemma decode_block_records_all_facts:
  "decode_block_records_all rs k mt mh mp pe as ds = Inr bs \<Longrightarrow>
     length bs = length rs \<and> (\<forall>i < length bs. record_facts pe as ds (k + i) (bs ! i) \<and> no_payload (bs ! i))"
proof (induction rs arbitrary: k bs)
  case (Cons r rs)
  then obtain b bs' where b: "bs = b # bs'" "decode_block_record (dr_bytes r) k mt mh mp pe as ds = Inr b"
    "decode_block_records_all rs (Suc k) mt mh mp pe as ds = Inr bs'" by (auto simp: rbind_Inr_iff)
  have "record_facts pe as ds (k + i) (bs ! i) \<and> no_payload (bs ! i)" if "i < length bs" for i
    using that Cons.IH [OF b(3)] decode_block_record_facts [OF b(2)] b(1) by (cases i) auto
  with Cons.IH [OF b(3)] b(1) show ?case by auto
qed simp

subsection \<open>Epochs\<close>

definition epoch_of_pivot :: "'t block list \<Rightarrow> nat \<Rightarrow> bool" where
  "epoch_of_pivot bs k \<longleftrightarrow> (\<exists>p < length bs. k \<le> p \<and> is_pivot (bs ! p) \<and>
     (\<forall>j. k \<le> j \<longrightarrow> j < p \<longrightarrow> \<not> is_pivot (bs ! j)) \<and> b_epoch (bs ! k) = b_height (bs ! p))"

lemma assign_epoch_facts:
  "assign_epoch_from_pivots bs = Inr cs \<Longrightarrow> length cs = length bs \<and>
     (\<forall>k < length bs. cs ! k = (bs ! k)\<lparr>b_epoch := b_epoch (cs ! k)\<rparr> \<and> epoch_of_pivot cs k)"
proof (induction bs arbitrary: cs rule: assign_epoch_from_pivots.induct)
  case (1 bs)
  show ?case
  proof (cases "bs = []")
    case True
    then show ?thesis using "1.prems" by (simp add: assign_epoch_from_pivots.simps)
  next
    case False
    then obtain p rest where p: "first_index is_pivot bs = Some p"
      and rest: "assign_epoch_from_pivots (drop (Suc p) bs) = Inr rest"
      and cs: "cs = map (\<lambda>b. b\<lparr>b_epoch := b_height (bs ! p)\<rparr>) (take (Suc p) bs) @ rest"
      using "1.prems" by (subst (asm) assign_epoch_from_pivots.simps) (auto simp: Let_def rbind_Inr_iff split: option.splits)
    have pivot: "p < length bs" "is_pivot (bs ! p)" "\<forall>j < p. \<not> is_pivot (bs ! j)"
      using p by (simp_all add: first_index_Some)
    note IH = "1.IH" [OF False p refl rest]
    have len: "length cs = length bs" using IH pivot(1) by (simp add: cs)
    have front: "cs ! k = (bs ! k)\<lparr>b_epoch := b_height (bs ! p)\<rparr>" if "k \<le> p" for k
      using that pivot(1) by (simp add: cs nth_append)
    have back_part: "cs ! (Suc p + k) = rest ! k" for k using pivot(1) by (simp add: cs nth_append)
    have "cs ! k = (bs ! k)\<lparr>b_epoch := b_epoch (cs ! k)\<rparr> \<and> epoch_of_pivot cs k" if k: "k < length bs" for k
    proof (cases "k \<le> p")
      case True
      have "epoch_of_pivot cs k"
        unfolding epoch_of_pivot_def using True pivot front len
        by (intro exI [of _ p]) (auto simp: is_pivot_def)
      with front [OF True] show ?thesis by simp
    next
      case False
      then obtain i where i: "k = Suc p + i" using le_Suc_ex not_less_eq_eq by blast
      have il: "i < length (drop (Suc p) bs)" using k i by simp
      with IH have r: "rest ! i = (bs ! k)\<lparr>b_epoch := b_epoch (rest ! i)\<rparr>" "epoch_of_pivot rest i" "length rest = length bs - Suc p"
        by (auto simp: i)
      from r(2) obtain q where q: "q < length rest" "i \<le> q" "is_pivot (rest ! q)"
        "\<forall>j. i \<le> j \<longrightarrow> j < q \<longrightarrow> \<not> is_pivot (rest ! j)" "b_epoch (rest ! i) = b_height (rest ! q)"
        by (auto simp: epoch_of_pivot_def)
      have "\<not> is_pivot (cs ! j)" if "k \<le> j" "j < Suc p + q" for j
        using q(4) that back_part [of "j - Suc p"] i by auto
      then have "epoch_of_pivot cs k"
        unfolding epoch_of_pivot_def using q back_part r(3) len pivot(1) i
        by (intro exI [of _ "Suc p + q"]) auto
      with r(1) back_part [of i] i show ?thesis by simp
    qed
    with len show ?thesis by blast
  qed
qed

subsection \<open>Transactions\<close>

definition refs_hold :: "'t list list \<Rightarrow> 't list \<Rightarrow> (nat \<times> nat) option list \<Rightarrow> bool" where
  "refs_hold previous txs refs \<longleftrightarrow>
     list_all2 (\<lambda>tx r. \<forall>i j. r = Some (i, j) \<longrightarrow> get_ref previous i j = Some tx) txs refs"

lemma decode_item_refs:
  assumes "decode_item T R e as gs ns previous item p = Inr p'" "refs_hold previous (pl_transactions p) (pl_refs p)"
  shows "refs_hold previous (pl_transactions p') (pl_refs p')"
  using assms by (auto simp: decode_item_def rbind_Inr_iff refs_hold_def list_all2_appendI split: if_splits)

lemma decode_items_refs:
  "decode_items T R e as gs ns previous r is p = Inr p' \<Longrightarrow> refs_hold previous (pl_transactions p) (pl_refs p) \<Longrightarrow>
     refs_hold previous (pl_transactions p') (pl_refs p')"
  by (induction "is" arbitrary: p) (auto simp: rbind_Inr_iff dest: decode_item_refs)

lemma decode_tx_payload_refs:
  "decode_tx_payload T R S data tx_off u f e as gs ns previous = Inr p \<Longrightarrow>
     refs_hold previous (pl_transactions p) (pl_refs p)"
  by (auto simp: decode_tx_payload_def rbind_Inr_iff Let_def refs_hold_def empty_payload_def
      intro: decode_items_refs [unfolded refs_hold_def])

text \<open>A block after the second loop and the block before it.\<close>

definition with_payload :: "'t list list \<Rightarrow> 't block \<Rightarrow> 't block \<Rightarrow> bool" where
  "with_payload previous b c \<longleftrightarrow>
     c = b\<lparr>b_transactions := b_transactions c, b_transaction_refs := b_transaction_refs c,
           b_pos_rewards := b_pos_rewards c, b_unlock_events := b_unlock_events c\<rparr> \<and>
     refs_hold previous (b_transactions c) (b_transaction_refs c) \<and>
     (b_flags b AND FLAG_HAS_TRANSACTIONS = 0 \<longrightarrow> no_payload c)"

lemma decode_transactions_facts:
  "decode_transactions T R S data tx_off as gs ns rbs previous = Inr cs \<Longrightarrow> \<forall>(r, b) \<in> set rbs. no_payload b \<Longrightarrow>
     length cs = length rbs \<and>
     (\<forall>k < length cs. with_payload (previous @ map b_transactions (take k cs)) (snd (rbs ! k)) (cs ! k))"
proof (induction rbs arbitrary: previous cs)
  case (Cons rb rbs)
  obtain r b where rb: "rb = (r, b)" by (cases rb)
  from Cons.prems(1) obtain c cs' where c: "cs = c # cs'"
    "decode_transactions T R S data tx_off as gs ns rbs (previous @ [b_transactions c]) = Inr cs'"
    "(if b_flags b AND FLAG_HAS_TRANSACTIONS \<noteq> 0
      then rbind (decode_tx_payload T R S data tx_off (dr_tx_offset_units r) (b_flags b) (b_epoch b) as gs ns previous)
        (\<lambda>p. Inr (b\<lparr>b_transactions := pl_transactions p, b_transaction_refs := pl_refs p,
                          b_pos_rewards := pl_pos_rewards p, b_unlock_events := pl_unlock_events p\<rparr>))
      else Inr b) = Inr c"
    unfolding rb decode_transactions.simps by (auto simp only: rbind_Inr_iff sum.inject)
  have "no_payload b" using Cons.prems(2) rb by auto
  then have first: "with_payload previous b c"
    using c(3) decode_tx_payload_refs
    by (auto simp: with_payload_def rbind_Inr_iff no_payload_def refs_hold_def split: if_splits)
  note IH = Cons.IH [OF c(2)]
  have "with_payload (previous @ map b_transactions (take k cs)) (snd ((rb # rbs) ! k)) (cs ! k)" if "k < length cs" for k
    using that first IH Cons.prems(2) c(1) rb by (cases k) auto
  with IH Cons.prems(2) c(1) show ?case by auto
qed simp

subsection \<open>Packets\<close>

definition decoded_block_ok :: "u64 \<Rightarrow> 't packet \<Rightarrow> nat \<Rightarrow> bool" where
  "decoded_block_ok pe p k \<longleftrightarrow>
     (let bs = p_blocks p; b = bs ! k in
        record_facts pe (p_addresses p) (p_difficulties p) k b \<and> epoch_of_pivot bs k \<and>
        refs_hold (map b_transactions (take k bs)) (b_transactions b) (b_transaction_refs b) \<and>
        (b_flags b AND FLAG_HAS_TRANSACTIONS = 0 \<longrightarrow> no_payload b))"

lemma decode_packet_facts:
  assumes "decode_packet_ext T R S data pe = Inr p"
  shows "\<forall>k < length (p_blocks p). decoded_block_ok pe p k"
proof -
  from assms obtain mt mh mp offs as ds ns gs rs bs cs ds' where
    rec: "decode_block_records_all rs 0 mt mh mp pe as ds = Inr bs" and
    ep: "assign_epoch_from_pivots bs = Inr cs" and
    txs: "decode_transactions T R S data offs as gs ns (zip rs cs) [] = Inr ds'" and
    p: "p_addresses p = as" "p_difficulties p = ds" "p_blocks p = ds'"
    unfolding decode_packet_ext_def Let_def by (auto simp: rbind_Inr_iff)
  note rf = decode_block_records_all_facts [OF rec] and ef = assign_epoch_facts [OF ep]
  have cf: "cs ! k = (bs ! k)\<lparr>b_epoch := b_epoch (cs ! k)\<rparr>" "epoch_of_pivot cs k"
    "record_facts pe as ds k (bs ! k)" "no_payload (bs ! k)" if "k < length cs" for k
    using rf ef that by auto
  have kept: "record_facts pe as ds k (cs ! k)" "no_payload (cs ! k)" if "k < length cs" for k
    by (subst cf(1) [OF that], use cf(3,4) [OF that] in \<open>simp add: record_facts_def no_payload_def\<close>)+
  have "\<forall>(r, b) \<in> set (zip rs cs). no_payload b"
    using kept(2) by (auto dest!: set_zip_rightD simp: in_set_conv_nth)
  from decode_transactions_facts [OF txs this]
  have len: "length ds' = length cs" and wp: "\<And>k. k < length ds' \<Longrightarrow> with_payload (map b_transactions (take k ds')) (cs ! k) (ds' ! k)"
    using rf ef by auto
  have same: "b_index (ds' ! k) = b_index (cs ! k)" "b_author (ds' ! k) = b_author (cs ! k)"
    "b_difficulty (ds' ! k) = b_difficulty (cs ! k)" "b_pos_view (ds' ! k) = b_pos_view (cs ! k)"
    "b_height (ds' ! k) = b_height (cs ! k)" "b_flags (ds' ! k) = b_flags (cs ! k)" "b_epoch (ds' ! k) = b_epoch (cs ! k)"
    if "k < length ds'" for k
    by (subst conjunct1 [OF wp [OF that, unfolded with_payload_def]], simp)+
  show ?thesis
  proof (intro allI impI)
    fix k assume k: "k < length (p_blocks p)"
    then have k': "k < length ds'" "k < length cs" using p len by simp_all
    have "record_facts pe as ds k (ds' ! k)" using kept(1) [OF k'(2)] same [OF k'(1)] by (simp add: record_facts_def)
    moreover have "epoch_of_pivot ds' k"
      using cf(2) [OF k'(2)] same len k' by (auto simp: epoch_of_pivot_def is_pivot_def)
    ultimately show "decoded_block_ok pe p k"
      using wp [OF k'(1)] same [OF k'(1)] by (simp add: decoded_block_ok_def p with_payload_def)
  qed
qed

end
