(* ===== verification/Writer_Correct.thy ===== *)
theory Writer_Correct
  imports Container_Correct "HOL-Library.Multiset"
begin

text \<open>
  The container writer of \<open>pack.rs\<close> does not depend on the order in which the workers deliver
  the packets, and its files hold the packets in group order: \<open>groups_of\<close> says which packets
  share a file. The plan of the groups tiles the configured epoch range.
\<close>

subsection \<open>One packet\<close>

lemma cb_push_start: "cb_start_epoch (cb_push p b) \<noteq> None"
  by (simp add: cb_push_def Let_def split: option.splits)

lemma flush_container_total: "cb_start_epoch (w_builder w) \<noteq> None \<Longrightarrow> \<exists>w'. flush_container c w = Inr w'"
  by (auto simp: flush_container_def Let_def)

lemma take_packet_total: "\<exists>w'. take_packet c p w = Inr w'"
  using flush_container_total cb_push_start by (auto simp: take_packet_def Let_def)

lemma flush_container_with_pending:
  "flush_container c (w\<lparr>w_pending := m\<rparr>) = map_sum id (\<lambda>w. w\<lparr>w_pending := m\<rparr>) (flush_container c w)"
  by (simp add: flush_container_def Let_def split: option.split)

lemma take_packet_with_pending:
  "take_packet c p (w\<lparr>w_pending := m\<rparr>) = map_sum id (\<lambda>w. w\<lparr>w_pending := m\<rparr>) (take_packet c p w)"
proof -
  let ?w = "w\<lparr>w_builder := cb_push p (w_builder w), w_next_group := w_next_group w + 1\<rparr>"
  let ?v = "w\<lparr>w_pending := m, w_builder := cb_push p (w_builder w), w_next_group := w_next_group w + 1\<rparr>"
  let ?full = "wc_target_bytes c \<le> cb_payload_bytes (cb_push p (w_builder w))"
  have v: "?v = ?w\<lparr>w_pending := m\<rparr>" by simp
  have "take_packet c p (w\<lparr>w_pending := m\<rparr>) = (if ?full then flush_container c ?v else Inr ?v)"
    by (simp add: take_packet_def Let_def)
  also have "\<dots> = map_sum id (\<lambda>w. w\<lparr>w_pending := m\<rparr>) (if ?full then flush_container c ?w else Inr ?w)"
    unfolding v flush_container_with_pending by simp
  finally show ?thesis by (simp add: take_packet_def Let_def)
qed

text \<open>The same work with the packets already in order.\<close>

fun in_order :: "writer_config \<Rightarrow> packet_out list \<Rightarrow> writer \<Rightarrow> writer pack_result" where
  "in_order c [] w = Inr w"
| "in_order c (p # ps) w = rbind (take_packet c p w) (in_order c ps)"

lemma in_order_snoc: "in_order c (ps @ [p]) w = rbind (in_order c ps w) (take_packet c p)"
proof (induction ps arbitrary: w)
  case Nil
  then show ?case using take_packet_total [of c p w] by auto
next
  case (Cons q ps)
  then show ?case using take_packet_total [of c q w] by auto
qed

lemma in_order_total: "\<exists>w'. in_order c ps w = Inr w'"
proof (induction ps arbitrary: w)
  case (Cons p ps)
  obtain w1 where "take_packet c p w = Inr w1" using take_packet_total by blast
  with Cons [of w1] show ?case by simp
qed simp

subsection \<open>Any order of arrival\<close>

definition numbered :: "packet_out list \<Rightarrow> bool" where
  "numbered ps \<longleftrightarrow> length ps < 2 ^ 64 \<and> (\<forall>i < length ps. po_group_index (ps ! i) = of_nat i)"

text \<open>
  \<open>holds ps m R k\<close>: the pending map holds the packets of the received indices \<open>R\<close> that are not
  emitted yet, \<open>k\<close> being the next one to emit.
\<close>

definition holds :: "packet_out list \<Rightarrow> (u64, packet_out) btree \<Rightarrow> nat set \<Rightarrow> nat \<Rightarrow> bool" where
  "holds ps m R k \<longleftrightarrow> bt_wf m \<and>
     (\<forall>g. bt_get m g = (if unat g \<in> R \<and> k \<le> unat g then Some (ps ! unat g) else None))"

definition writer_at :: "writer_config \<Rightarrow> packet_out list \<Rightarrow> nat set \<Rightarrow> nat \<Rightarrow> writer \<Rightarrow> bool" where
  "writer_at c ps R k w \<longleftrightarrow> k \<le> length ps \<and> {..<k} \<subseteq> R \<and> R \<subseteq> {..<length ps} \<and>
     (\<exists>w0. in_order c (take k ps) writer_init = Inr w0 \<and> w = w0\<lparr>w_pending := w_pending w\<rparr>) \<and>
     holds ps (w_pending w) R k \<and> w_next_group w = of_nat k"

lemma writer_at_step:
  assumes "numbered ps" "writer_at c ps R k w" "k \<in> R"
  obtains w' where "bt_get (w_pending w) (w_next_group w) = Some (ps ! k)"
    and "take_packet c (ps ! k) (w\<lparr>w_pending := bt_remove (w_next_group w) (w_pending w)\<rparr>) = Inr w'"
    and "writer_at c ps R (Suc k) w'"
proof -
  let ?m = "bt_remove (w_next_group w) (w_pending w)"
  from assms(2) obtain w0 where w0: "in_order c (take k ps) writer_init = Inr w0"
    "w = w0\<lparr>w_pending := w_pending w\<rparr>" and at: "{..<k} \<subseteq> R" "R \<subseteq> {..<length ps}"
    "holds ps (w_pending w) R k" "w_next_group w = of_nat k"
    by (auto simp: writer_at_def)
  have k: "k < length ps" using at(2) assms(3) by auto
  with assms(1) have u: "unat (of_nat k :: u64) = k"
    by (intro unat_of_nat_u64) (auto simp: numbered_def)
  have get: "bt_get (w_pending w) (w_next_group w) = Some (ps ! k)"
    using at(3,4) u assms(3) by (simp add: holds_def)
  obtain w1 where w1: "take_packet c (ps ! k) w0 = Inr w1" using take_packet_total by blast
  have "w\<lparr>w_pending := ?m\<rparr> = w0\<lparr>w_pending := ?m\<rparr>"
    using arg_cong [OF w0(2), of "\<lambda>w. w\<lparr>w_pending := ?m\<rparr>"] by simp
  then have step: "take_packet c (ps ! k) (w\<lparr>w_pending := ?m\<rparr>) = Inr (w1\<lparr>w_pending := ?m\<rparr>)"
    using w1 by (simp add: take_packet_with_pending)
  have "in_order c (take (Suc k) ps) writer_init = Inr w1"
    using k w0(1) w1 by (simp add: take_Suc_conv_app_nth in_order_snoc)
  moreover have "holds ps ?m R (Suc k)"
    using at(3) unfolding holds_def at(4)
    by (auto simp: u Suc_le_eq le_less word_unat_eq_iff)
  moreover have "w_next_group w0 = of_nat k" using w0(2) at(4) by (metis writer.select_convs(2) writer.surjective writer.update_convs(1))
  then have "w_next_group w1 = of_nat (Suc k)" using take_packet_pending [OF w1] by simp
  ultimately have "writer_at c ps R (Suc k) (w1\<lparr>w_pending := ?m\<rparr>)"
    using k at(1,2) assms(3) by (auto simp: writer_at_def lessThan_Suc)
  with get step show thesis by (rule that)
qed

lemma drain_catches_up:
  assumes "numbered ps" "writer_at c ps R k w"
  shows "\<exists>k' w'. drain c w = Inr w' \<and> writer_at c ps R k' w' \<and> k' \<notin> R"
  using assms(2)
proof (induction "length ps - k" arbitrary: k w)
  case 0
  then have k: "k = length ps" "k \<notin> R" by (auto simp: writer_at_def)
  then have "unat (of_nat k :: u64) = k"
    using assms(1) by (intro unat_of_nat_u64) (simp add: numbered_def)
  with 0 k have "bt_get (w_pending w) (w_next_group w) = None"
    by (simp add: writer_at_def holds_def)
  then have "drain c w = Inr w" by (subst drain.simps) simp
  with 0 k show ?case by blast
next
  case (Suc n)
  show ?case
  proof (cases "k \<in> R")
    case True
    obtain w' where "bt_get (w_pending w) (w_next_group w) = Some (ps ! k)"
      "take_packet c (ps ! k) (w\<lparr>w_pending := bt_remove (w_next_group w) (w_pending w)\<rparr>) = Inr w'"
      and at: "writer_at c ps R (Suc k) w'"
      by (rule writer_at_step [OF assms(1) Suc.prems True])
    then have "drain c w = drain c w'" by (subst drain.simps) simp
    moreover have "n = length ps - Suc k" using Suc.hyps(2) by simp
    ultimately show ?thesis using Suc.hyps(1) [OF _ at] by metis
  next
    case False
    have "k < length ps" using Suc.hyps(2) by simp
    then have "unat (of_nat k :: u64) = k"
      using assms(1) by (intro unat_of_nat_u64) (simp add: numbered_def)
    with Suc.prems False have "bt_get (w_pending w) (w_next_group w) = None"
      by (simp add: writer_at_def holds_def)
    then have "drain c w = Inr w" by (subst drain.simps) simp
    with Suc.prems False show ?thesis by blast
  qed
qed

lemma receive_packet_at:
  assumes "numbered ps" "writer_at c ps R k w" "i < length ps" "i \<notin> R"
  shows "\<exists>k' w'. receive_packet c (ps ! i) w = Inr w' \<and> writer_at c ps (insert i R) k' w' \<and> k' \<notin> insert i R"
proof -
  let ?w = "w\<lparr>w_pending := bt_insert (of_nat i) (ps ! i) (w_pending w)\<rparr>"
  have key: "po_group_index (ps ! i) = of_nat i" and u: "unat (of_nat i :: u64) = i"
    using assms(1,3) by (auto simp: numbered_def intro!: unat_of_nat_u64)
  have "k \<le> i" using assms(2,4) by (auto simp: writer_at_def subset_iff not_less)
  then have "holds ps (w_pending ?w) (insert i R) k"
    using assms(2) u by (auto simp: writer_at_def holds_def word_unat_eq_iff)
  moreover have "\<exists>w0. in_order c (take k ps) writer_init = Inr w0 \<and> ?w = w0\<lparr>w_pending := w_pending ?w\<rparr>"
  proof -
    obtain w0 where w0: "in_order c (take k ps) writer_init = Inr w0" "w = w0\<lparr>w_pending := w_pending w\<rparr>"
      using assms(2) by (auto simp: writer_at_def)
    have "?w = w0\<lparr>w_pending := w_pending ?w\<rparr>" by (subst w0(2)) simp
    with w0(1) show ?thesis by blast
  qed
  moreover have "{..<k} \<subseteq> insert i R" "insert i R \<subseteq> {..<length ps}" "k \<le> length ps"
    "w_next_group ?w = of_nat k"
    using assms(2,3) by (auto simp: writer_at_def)
  ultimately have "writer_at c ps (insert i R) k ?w" unfolding writer_at_def by blast
  from drain_catches_up [OF assms(1) this] show ?thesis
    by (simp add: receive_packet_def key)
qed

lemma receive_all_at:
  assumes "numbered ps"
  shows "writer_at c ps R k w \<Longrightarrow> k \<notin> R \<Longrightarrow> distinct ids \<Longrightarrow> set ids \<subseteq> {..<length ps} - R \<Longrightarrow>
    \<exists>k' w'. receive_all c (map ((!) ps) ids) w = Inr w' \<and> writer_at c ps (R \<union> set ids) k' w' \<and> k' \<notin> R \<union> set ids"
proof (induction ids arbitrary: R k w)
  case (Cons i ids)
  obtain k1 w1 where "receive_packet c (ps ! i) w = Inr w1" "writer_at c ps (insert i R) k1 w1"
    "k1 \<notin> insert i R"
    using receive_packet_at [OF assms Cons.prems(1), of i] Cons.prems(4) by auto
  with Cons.IH [of "insert i R" k1 w1] Cons.prems(3,4) show ?case by auto
qed auto

lemma arrival_indices:
  assumes "numbered ps" "mset qs = mset ps"
  obtains ids where "qs = map ((!) ps) ids" "distinct ids" "set ids = {..<length ps}"
proof -
  let ?f = "\<lambda>q. unat (po_group_index q)"
  have f: "?f (ps ! i) = i" if "i < length ps" for i
    using assms(1) that by (auto simp: numbered_def intro!: unat_of_nat_u64)
  then have ps: "map ?f ps = [0..<length ps]" by (auto intro: nth_equalityI)
  have m: "mset (map ?f qs) = mset [0..<length ps]"
    using assms(2) ps by (metis mset_map)
  have "map ((!) ps) (map ?f qs) = qs"
  proof (simp add: comp_def, rule map_idI)
    fix q
    assume "q \<in> set qs"
    then have "q \<in> set ps" using assms(2) by (metis set_mset_mset)
    then show "ps ! ?f q = q" using f by (metis in_set_conv_nth)
  qed
  moreover have "distinct (map ?f qs)" using m by (metis distinct_upt mset_eq_imp_distinct_iff)
  moreover have "set (map ?f qs) = {..<length ps}"
    using mset_eq_setD [OF m] by (simp add: atLeast0LessThan)
  ultimately show thesis using that by metis
qed

lemma in_order_pending: "in_order c ps w = Inr w' \<Longrightarrow> w_pending w' = w_pending w"
  by (induction ps arbitrary: w) (auto simp: rbind_Inr_iff dest: take_packet_pending)

lemma receive_any_order:
  assumes "numbered ps" "mset qs = mset ps"
  shows "receive_all c qs writer_init = in_order c ps writer_init"
proof -
  obtain ids where ids: "qs = map ((!) ps) ids" "distinct ids" "set ids = {..<length ps}"
    by (rule arrival_indices [OF assms])
  have "writer_at c ps {} 0 writer_init"
    by (simp add: writer_at_def holds_def writer_init_def)
  then obtain k w where w: "receive_all c qs writer_init = Inr w" "writer_at c ps {..<length ps} k w"
    "k \<notin> {..<length ps}"
    using receive_all_at [OF assms(1), of c "{}" 0 writer_init ids] ids by auto
  then have k: "k = length ps" by (auto simp: writer_at_def)
  then obtain w0 where w0: "in_order c ps writer_init = Inr w0" "w = w0\<lparr>w_pending := w_pending w\<rparr>"
    and h: "holds ps (w_pending w) {..<length ps} (length ps)"
    using w(2) by (auto simp: writer_at_def)
  have "w_pending w = []"
    using h by (intro bt_get_ext) (auto simp: holds_def)
  moreover have "w_pending w0 = []" using in_order_pending [OF w0(1)] by (simp add: writer_init_def)
  ultimately have "w = w0" using w0(2) by (cases w0) simp
  with w(1) w0(1) show ?thesis by simp
qed

lemma write_containers_any_order:
  assumes "numbered ps" "mset qs = mset ps"
  shows "write_containers c qs = write_containers c ps"
  using receive_any_order [OF assms] receive_any_order [OF assms(1) refl]
  by (simp add: write_containers_def)

subsection \<open>Which packets share a file\<close>

fun groups_of :: "u64 \<Rightarrow> packet_out list \<Rightarrow> packet_out list \<Rightarrow> packet_out list list" where
  "groups_of target acc [] = (if acc = [] then [] else [acc])"
| "groups_of target acc (p # ps) =
     (if target \<le> cb_payload_bytes (builder_of (acc @ [p]))
      then (acc @ [p]) # groups_of target [] ps
      else groups_of target (acc @ [p]) ps)"

lemma concat_groups_of: "concat (groups_of target acc ps) = acc @ ps"
  by (induction target acc ps rule: groups_of.induct) auto

lemma groups_of_nonempty: "g \<in> set (groups_of target acc ps) \<Longrightarrow> g \<noteq> []"
  by (induction target acc ps rule: groups_of.induct) (auto split: if_splits)

definition file_of :: "writer_config \<Rightarrow> packet_out list \<Rightarrow> path \<times> bytes" where
  "file_of c g =
     (container_path (wc_output_dir c) (wc_prefix c) (po_start_epoch (hd g))
        (po_start_epoch (last g) + po_epoch_count (last g) - 1),
      container_bytes (wc_shard_epochs c) (builder_of g))"

lemma builder_of_epochs:
  "g \<noteq> [] \<Longrightarrow> cb_start_epoch (builder_of g) = Some (po_start_epoch (hd g)) \<and>
     cb_end_epoch (builder_of g) = po_start_epoch (last g) + po_epoch_count (last g) - 1"
proof (induction g rule: rev_induct)
  case (snoc p g)
  then show ?case unfolding builder_of_simps(4)
    by (cases "g = []") (auto simp: cb_push_def cb_default_def Let_def)
qed simp

lemma flush_container_file:
  assumes "w_builder w = builder_of g" "g \<noteq> []"
  shows "\<exists>w'. flush_container c w = Inr w' \<and> w_created w' = w_created w @ [file_of c g] \<and>
    w_builder w' = builder_of []"
  using builder_of_epochs [OF assms(2)] assms(1)
  by (simp add: flush_container_def file_of_def Let_def)

definition finish :: "writer_config \<Rightarrow> writer \<Rightarrow> writer pack_result" where
  "finish c w = (if \<not> cb_is_empty (w_builder w) then flush_container c w else Inr w)"

lemma in_order_files:
  "w_builder w = builder_of acc \<Longrightarrow>
     \<exists>w'. rbind (in_order c ps w) (finish c) = Inr w' \<and>
       w_created w' = w_created w @ map (file_of c) (groups_of (wc_target_bytes c) acc ps)"
proof (induction ps arbitrary: w acc)
  case Nil
  then show ?case using flush_container_file [of w acc c] by (auto simp: finish_def)
next
  case (Cons p ps)
  let ?w = "w\<lparr>w_builder := cb_push p (w_builder w), w_next_group := w_next_group w + 1\<rparr>"
  have b: "w_builder ?w = builder_of (acc @ [p])" using Cons.prems by simp
  show ?case
  proof (cases "wc_target_bytes c \<le> cb_payload_bytes (builder_of (acc @ [p]))")
    case True
    obtain w1 where "flush_container c ?w = Inr w1" "w_created w1 = w_created w @ [file_of c (acc @ [p])]"
      "w_builder w1 = builder_of []"
      using flush_container_file [OF b] by auto
    with Cons.IH [of w1 "[]"] True b show ?thesis by (simp add: take_packet_def Let_def)
  next
    case False
    with Cons.IH [OF b] b show ?thesis by (simp add: take_packet_def Let_def)
  qed
qed

lemma write_containers_files:
  assumes "numbered ps" "mset qs = mset ps"
  obtains w where "write_containers c qs = Inr w"
    "w_created w = map (file_of c) (groups_of (wc_target_bytes c) [] ps)"
proof -
  have "write_containers c qs = rbind (in_order c ps writer_init) (finish c)"
    using receive_any_order [OF assms] by (simp add: write_containers_def finish_def [abs_def])
  with in_order_files [of writer_init "[]" c ps] that show thesis
    by (auto simp: writer_init_def)
qed

lemma files_parse:
  assumes "length ps < 2 ^ 32" "24 + 32 * length ps + packets_size ps < 2 ^ 64" "concat gs = ps"
  shows "traverse (\<lambda>f. file_packets (snd f)) (map (file_of c) gs) = Inr (map (map packet_view) gs)"
proof -
  have "file_packets (snd (file_of c g)) = Inr (map packet_view g)" if "g \<in> set gs" for g
  proof -
    have l: "length g \<le> length ps"
      using that assms(3) member_le_sum_list [of "length g" "map length gs"] by (auto simp: length_concat)
    have "packets_size g \<le> packets_size ps"
    proof -
      have "packets_size ps = sum_list (map packets_size gs)"
        unfolding assms(3) [symmetric] by (induction gs) auto
      then show ?thesis using that member_le_sum_list [of "packets_size g" "map packets_size gs"] by simp
    qed
    with l assms(1,2) show ?thesis by (simp add: file_of_def container_round_trip)
  qed
  then show ?thesis unfolding traverse_map by (rule traverse_map_Inr)
qed

end
