(* ===== verification/Shard_Plan.thy ===== *)
theory Shard_Plan
  imports Writer_Correct
begin

text \<open>
  \<open>crates/replay-data-extractor/src/extract/shards.rs\<close>: the plan of the shard files, the
  collection of the workers' reports and the progress state. The plan, like the one of
  \<open>pack.rs\<close>, tiles the configured epoch range. Databases and threads are left out; a worker's
  result is its list of reports or its error.
\<close>

record shard_task =
  st_start_epoch :: u64
  st_epoch_count :: u64
  st_output :: path

definition shard_end_epoch :: "shard_task \<Rightarrow> u64" where
  "shard_end_epoch t = st_start_epoch t + st_epoch_count t - 1"

definition shard_path :: "string \<Rightarrow> u64 \<Rightarrow> u64 \<Rightarrow> path" where
  "shard_path output_dir s e =
     \<lparr>parent = output_dir,
      file_name = Some (dec_digits (unat s) @ ''-'' @ dec_digits (unat e) @ ''.cfxpkt'')\<rparr>"

definition build_shard_tasks :: "u64 \<Rightarrow> u64 \<Rightarrow> string \<Rightarrow> u64 \<Rightarrow> shard_task list pack_result" where
  "build_shard_tasks cfg_start_epoch cfg_epoch_count output_dir shard_epochs =
     (if shard_epochs = 0 then Inl (Pack_Panic ''division by zero'')
      else
        let shard_count = (unat cfg_epoch_count + unat shard_epochs - 1) div unat shard_epochs
        in Inr (map (\<lambda>i. let shard_index = of_nat i;
                            start = cfg_start_epoch + shard_index * shard_epochs;
                            remaining = cfg_epoch_count - shard_index * shard_epochs;
                            count = min remaining shard_epochs;
                            e = start + count - 1
                        in \<lparr>st_start_epoch = start, st_epoch_count = count,
                            st_output = shard_path output_dir start e\<rparr>)
                   [0..<shard_count]))"

text \<open>The workers' results in the order they are joined: all reports, or the first error.\<close>

fun collect_reports_from :: "'r list \<Rightarrow> 'e option \<Rightarrow> ('e + 'r list) list \<Rightarrow> 'r list \<times> 'e option" where
  "collect_reports_from reports first_error [] = (reports, first_error)"
| "collect_reports_from reports first_error (h # hs) =
     (case h of
        Inr worker_reports \<Rightarrow> collect_reports_from (reports @ worker_reports) first_error hs
      | Inl e \<Rightarrow> collect_reports_from reports
                  (case first_error of None \<Rightarrow> Some e | Some f \<Rightarrow> Some f) hs)"

definition collect_worker_reports :: "('e + 'r list) list \<Rightarrow> 'e + 'r list" where
  "collect_worker_reports handles =
     (case collect_reports_from [] None handles of
        (reports, Some e) \<Rightarrow> Inl e
      | (reports, None) \<Rightarrow> Inr reports)"

subsection \<open>Progress\<close>

record active_shard =
  as_start_epoch :: u64
  as_end_epoch :: u64

datatype progress_event = Start nat active_shard | Done nat | Failed nat

record progress_state =
  pg_total :: nat
  pg_completed :: nat
  pg_failed :: nat
  pg_active :: "active_shard option list"

definition progress_new :: "nat \<Rightarrow> nat \<Rightarrow> progress_state" where
  "progress_new task_count worker_count =
     \<lparr>pg_total = task_count, pg_completed = 0, pg_failed = 0, pg_active = replicate worker_count None\<rparr>"

definition set_active :: "progress_state \<Rightarrow> nat \<Rightarrow> active_shard option \<Rightarrow> progress_state pack_result" where
  "set_active p worker a =
     (if worker < length (pg_active p) then Inr (p\<lparr>pg_active := (pg_active p)[worker := a]\<rparr>)
      else Inl (Pack_Panic ''index out of bounds''))"

fun progress_apply :: "progress_event \<Rightarrow> progress_state \<Rightarrow> progress_state pack_result" where
  "progress_apply (Start worker a) p = set_active p worker (Some a)"
| "progress_apply (Done worker) p = set_active (p\<lparr>pg_completed := pg_completed p + 1\<rparr>) worker None"
| "progress_apply (Failed worker) p = set_active (p\<lparr>pg_failed := pg_failed p + 1\<rparr>) worker None"

subsection \<open>The plan tiles the range\<close>

lemma tiles:
  "concat (map (\<lambda>i. [s + i * k ..< s + i * k + min (n - i * k) k]) [0..<m]) = [s ..< s + min n (m * k)]"
proof (induction m)
  case (Suc m)
  have "[s ..< s + min n (m * k)] @ [s + m * k ..< s + m * k + min (n - m * k) k] =
    [s ..< s + min n (Suc m * k)]"
  proof (cases "m * k \<le> n")
    case True
    then obtain d where n: "n = m * k + d" using le_Suc_ex by blast
    have "s + min n (m * k) = s + m * k" using True by simp
    moreover have "s + min n (Suc m * k) = s + m * k + min (n - m * k) k" by (simp add: n min_def)
    ultimately show ?thesis
      using upt_add_eq_append [of s "s + m * k" "min (n - m * k) k"] by (simp only: le_add1)
  qed (simp add: min_def)
  with Suc show ?case by simp
qed simp

definition group_count :: "nat \<Rightarrow> nat \<Rightarrow> nat" where
  "group_count n k = (n + k - 1) div k"

lemma group_count_bounds:
  assumes "0 < k"
  shows "n \<le> group_count n k * k" "i < group_count n k \<Longrightarrow> i * k < n"
proof -
  have "n + k - 1 < (group_count n k + 1) * k"
    unfolding group_count_def using assms dividend_less_div_times [of k "n + k - 1"] by simp
  then show "n \<le> group_count n k * k" using assms by simp
  assume "i < group_count n k"
  then have "(i + 1) * k \<le> n + k - 1"
    unfolding group_count_def by (metis Suc_eq_plus1 Suc_leI div_times_less_eq_dividend le_trans mult_le_mono1)
  then show "i * k < n" using assms by simp
qed

lemma task_words:
  fixes s n k :: u64
  assumes k: "k \<noteq> 0" and range: "unat s + unat n < 2 ^ 64" and i: "i < group_count (unat n) (unat k)"
  shows "unat (s + of_nat i * k) = unat s + i * unat k"
    and "unat (min (n - of_nat i * k) k) = min (unat n - i * unat k) (unat k)"
proof -
  have pos: "0 < unat k" using k by (simp add: unat_gt_0)
  have less: "i * unat k < unat n" by (rule group_count_bounds(2) [OF pos i])
  have "i \<le> i * unat k" using pos by simp
  with less have i64: "i < 2 ^ 64" using unat_u64_less [of n] by linarith
  have prod: "unat (of_nat i * k) = i * unat k"
  proof -
    have "unat (of_nat i * k) = (i * unat k) mod 2 ^ 64"
      using i64 by (simp add: unat_mult_lem unat_word_ariths(2) unat_of_nat_u64)
    then show ?thesis using less range by simp
  qed
  show "unat (s + of_nat i * k) = unat s + i * unat k"
    using prod less range by (subst unat_add_lem [THEN iffD1]) simp_all
  have "unat (n - of_nat i * k) = unat n - i * unat k"
    using prod less by (subst unat_sub) (simp_all add: word_le_nat_alt)
  then show "unat (min (n - of_nat i * k) k) = min (unat n - i * unat k) (unat k)"
    by (simp add: min_def word_le_nat_alt)
qed

definition epochs_of :: "u64 \<Rightarrow> u64 \<Rightarrow> nat list" where
  "epochs_of s n = [unat s ..< unat s + unat n]"

lemma epochs_of_tasks:
  assumes "k \<noteq> 0" "unat s + unat n < 2 ^ 64"
  shows "concat (map (\<lambda>i. epochs_of (s + of_nat i * k) (min (n - of_nat i * k) k))
    [0..<group_count (unat n) (unat k)]) = epochs_of s n"
proof -
  have pos: "0 < unat k" using assms(1) by (simp add: unat_gt_0)
  let ?m = "group_count (unat n) (unat k)"
  have "concat (map (\<lambda>i. epochs_of (s + of_nat i * k) (min (n - of_nat i * k) k)) [0..<?m]) =
    concat (map (\<lambda>i. [unat s + i * unat k ..< unat s + i * unat k + min (unat n - i * unat k) (unat k)]) [0..<?m])"
    by (rule arg_cong [where f = concat], rule map_cong)
      (simp_all only: epochs_of_def task_words [OF assms] set_upt atLeastLessThan_iff refl)
  also have "\<dots> = epochs_of s n"
    using group_count_bounds(1) [OF pos, of "unat n"] by (simp add: tiles epochs_of_def min_absorb1)
  finally show ?thesis .
qed

lemma pack_tasks_tile:
  assumes "shard_epochs \<noteq> 0" "unat s + unat n < 2 ^ 64" "build_pack_tasks s n shard_epochs = Inr ts"
  shows "concat (map (\<lambda>t. epochs_of (pt_start_epoch t) (pt_epoch_count t)) ts) = epochs_of s n"
    and "\<And>i. i < length ts \<Longrightarrow> pt_group_index (ts ! i) = of_nat i"
    and "\<And>t. t \<in> set ts \<Longrightarrow> 0 < pt_epoch_count t \<and> pt_epoch_count t \<le> shard_epochs"
proof -
  let ?m = "group_count (unat n) (unat shard_epochs)"
  have ts: "ts = map (\<lambda>i. \<lparr>pt_group_index = of_nat i, pt_start_epoch = s + of_nat i * shard_epochs,
      pt_epoch_count = min (n - of_nat i * shard_epochs) shard_epochs\<rparr>) [0..<?m]"
    using assms(1,3) by (simp add: build_pack_tasks_def group_count_def Let_def)
  show "concat (map (\<lambda>t. epochs_of (pt_start_epoch t) (pt_epoch_count t)) ts) = epochs_of s n"
    using epochs_of_tasks [OF assms(1,2)] by (simp add: ts comp_def)
  show "\<And>i. i < length ts \<Longrightarrow> pt_group_index (ts ! i) = of_nat i" by (simp add: ts)
  fix t
  assume "t \<in> set ts"
  then obtain i where i: "i < ?m" "pt_epoch_count t = min (n - of_nat i * shard_epochs) shard_epochs"
    by (auto simp: ts)
  have "i * unat shard_epochs < unat n" "0 < unat shard_epochs"
    using i(1) assms(1) by (auto intro: group_count_bounds(2) simp: unat_gt_0)
  then have "0 < unat (pt_epoch_count t)" using task_words(2) [OF assms(1,2) i(1)] i(2) by simp
  then show "0 < pt_epoch_count t \<and> pt_epoch_count t \<le> shard_epochs"
    using i(2) by (simp add: word_less_nat_alt)
qed

lemma shard_tasks_tile:
  assumes "shard_epochs \<noteq> 0" "unat s + unat n < 2 ^ 64" "build_shard_tasks s n dir shard_epochs = Inr ts"
  shows "concat (map (\<lambda>t. epochs_of (st_start_epoch t) (st_epoch_count t)) ts) = epochs_of s n"
    and "\<And>t. t \<in> set ts \<Longrightarrow> st_output t = shard_path dir (st_start_epoch t) (shard_end_epoch t)"
proof -
  have ts: "ts = map (\<lambda>i. \<lparr>st_start_epoch = s + of_nat i * shard_epochs,
      st_epoch_count = min (n - of_nat i * shard_epochs) shard_epochs,
      st_output = shard_path dir (s + of_nat i * shard_epochs)
        (s + of_nat i * shard_epochs + min (n - of_nat i * shard_epochs) shard_epochs - 1)\<rparr>)
      [0..<group_count (unat n) (unat shard_epochs)]"
    using assms(1,3) by (simp add: build_shard_tasks_def group_count_def Let_def)
  show "concat (map (\<lambda>t. epochs_of (st_start_epoch t) (st_epoch_count t)) ts) = epochs_of s n"
    using epochs_of_tasks [OF assms(1,2)] by (simp add: ts comp_def)
  show "\<And>t. t \<in> set ts \<Longrightarrow> st_output t = shard_path dir (st_start_epoch t) (shard_end_epoch t)"
    by (auto simp: ts shard_end_epoch_def)
qed

subsection \<open>Reports and progress\<close>

lemma collect_reports_from_eq:
  "collect_reports_from rs fe hs =
     (rs @ concat (map (\<lambda>h. case h of Inl _ \<Rightarrow> [] | Inr r \<Rightarrow> r) hs),
      case fe of Some e \<Rightarrow> Some e
      | None \<Rightarrow> map_option projl (find (\<lambda>h. isl h) hs))"
  by (induction rs fe hs rule: collect_reports_from.induct) (auto split: sum.splits option.splits)

lemma collect_worker_reports_eq:
  "collect_worker_reports hs =
     (case find isl hs of
        Some h \<Rightarrow> Inl (projl h)
      | None \<Rightarrow> Inr (concat (map projr hs)))"
proof (cases "find isl hs")
  case None
  then have "\<forall>h \<in> set hs. \<not> isl h" by (simp add: find_None_iff)
  then have "map (\<lambda>h. case h of Inl _ \<Rightarrow> [] | Inr r \<Rightarrow> r) hs = map projr hs"
    by (auto split: sum.splits)
  with None show ?thesis
    by (simp only: collect_worker_reports_def collect_reports_from_eq option.case option.map prod.case)
      (simp add: comp_def)
qed (simp add: collect_worker_reports_def collect_reports_from_eq)

fun event_worker :: "progress_event \<Rightarrow> nat" where
  "event_worker (Start w a) = w"
| "event_worker (Done w) = w"
| "event_worker (Failed w) = w"

text \<open>
  What the workers send: each starts a shard only when it has none, and finishes or fails
  only a shard it has. \<open>sends busy es\<close> holds for any interleaving of such workers, \<open>busy\<close> being
  the workers that have a shard.
\<close>

inductive sends :: "nat set \<Rightarrow> progress_event list \<Rightarrow> nat set \<Rightarrow> bool" where
  sends_Nil: "sends busy [] busy"
| sends_Start: "w \<notin> busy \<Longrightarrow> sends (insert w busy) es busy' \<Longrightarrow> sends busy (Start w a # es) busy'"
| sends_Done: "w \<in> busy \<Longrightarrow> sends (busy - {w}) es busy' \<Longrightarrow> sends busy (Done w # es) busy'"
| sends_Failed: "w \<in> busy \<Longrightarrow> sends (busy - {w}) es busy' \<Longrightarrow> sends busy (Failed w # es) busy'"

inductive_cases sends_ConsE: "sends busy (e # es) busy'"

code_pred (modes: i \<Rightarrow> i \<Rightarrow> i \<Rightarrow> bool) sends .

fun progress_run :: "progress_event list \<Rightarrow> progress_state \<Rightarrow> progress_state pack_result" where
  "progress_run [] p = Inr p"
| "progress_run (e # es) p = rbind (progress_apply e p) (progress_run es)"

definition active_workers :: "progress_state \<Rightarrow> nat set" where
  "active_workers p = {w. w < length (pg_active p) \<and> pg_active p ! w \<noteq> None}"

definition is_start :: "progress_event \<Rightarrow> bool" where
  "is_start e = (case e of Start _ _ \<Rightarrow> True | _ \<Rightarrow> False)"

definition is_done :: "progress_event \<Rightarrow> bool" where
  "is_done e = (case e of Done _ \<Rightarrow> True | _ \<Rightarrow> False)"

definition is_failed :: "progress_event \<Rightarrow> bool" where
  "is_failed e = (case e of Failed _ \<Rightarrow> True | _ \<Rightarrow> False)"

lemmas event_kind_defs = is_start_def is_done_def is_failed_def

lemma active_workers_set_active:
  assumes "worker < length (pg_active p)"
  shows "active_workers (p\<lparr>pg_active := (pg_active p)[worker := a]\<rparr>) =
    (if a = None then active_workers p - {worker} else insert worker (active_workers p))"
  using assms by (auto simp: active_workers_def nth_list_update)

lemma finite_active_workers [simp]: "finite (active_workers p)"
  by (simp add: active_workers_def)

lemma progress_run_counts:
  assumes "sends (active_workers p) es busy" "\<forall>e \<in> set es. event_worker e < length (pg_active p)"
  shows "\<exists>q. progress_run es p = Inr q \<and> active_workers q = busy \<and>
    length (pg_active q) = length (pg_active p) \<and>
    pg_completed q = pg_completed p + length (filter is_done es) \<and>
    pg_failed q = pg_failed p + length (filter is_failed es) \<and>
    card (active_workers q) + length (filter is_done es) + length (filter is_failed es) =
      card (active_workers p) + length (filter is_start es)"
  using assms
proof (induction "active_workers p" es busy arbitrary: p rule: sends.induct)
  case sends_Nil
  then show ?case by simp
next
  case (sends_Start w es busy' a)
  let ?p = "p\<lparr>pg_active := (pg_active p)[w := Some a]\<rparr>"
  from sends_Start have "insert w (active_workers p) = active_workers ?p"
    by (simp add: active_workers_set_active)
  from sends_Start.hyps(3) [OF this] sends_Start.prems sends_Start.hyps(1) show ?case
    by (auto simp: set_active_def event_kind_defs active_workers_set_active)
next
  case (sends_Done w es busy')
  let ?p = "p\<lparr>pg_completed := pg_completed p + 1, pg_active := (pg_active p)[w := None]\<rparr>"
  have act: "active_workers (p\<lparr>pg_completed := n\<rparr>) = active_workers p" for n by (simp add: active_workers_def)
  have w: "active_workers p - {w} = active_workers ?p"
    using sends_Done.prems active_workers_set_active [of w "p\<lparr>pg_completed := pg_completed p + 1\<rparr>" None]
    by (simp add: act)
  from sends_Done.hyps(1) have "card (active_workers p) = Suc (card (active_workers ?p))"
    unfolding w [symmetric] by (rule card_Suc_Diff1 [OF finite_active_workers, symmetric])
  with sends_Done.hyps(3) [OF w] sends_Done.prems show ?case
    by (auto simp: set_active_def event_kind_defs)
next
  case (sends_Failed w es busy')
  let ?p = "p\<lparr>pg_failed := pg_failed p + 1, pg_active := (pg_active p)[w := None]\<rparr>"
  have act: "active_workers (p\<lparr>pg_failed := n\<rparr>) = active_workers p" for n by (simp add: active_workers_def)
  have w: "active_workers p - {w} = active_workers ?p"
    using sends_Failed.prems active_workers_set_active [of w "p\<lparr>pg_failed := pg_failed p + 1\<rparr>" None]
    by (simp add: act)
  from sends_Failed.hyps(1) have "card (active_workers p) = Suc (card (active_workers ?p))"
    unfolding w [symmetric] by (rule card_Suc_Diff1 [OF finite_active_workers, symmetric])
  with sends_Failed.hyps(3) [OF w] sends_Failed.prems show ?case
    by (auto simp: set_active_def event_kind_defs)
qed

end
