(* ===== verification/Pack_Theorems.thy ===== *)
theory Pack_Theorems
  imports Packet_Example Packet_Decoded Writer_Correct Shard_Plan
begin

text \<open>
  The properties of \<open>crates/cfxpack\<close> and of the packer and flag patcher of
  \<open>crates/replay-data-extractor\<close>, each with an instance at concrete inputs where it has hypotheses.
  The instances use the libraries and packets of \<open>Packet_Example\<close>.
\<close>

subsection \<open>Packets\<close>

text \<open>
  C5: a packet that the encoder returns is decoded to the packet itself: every header field and
  table comes back, and every block with its payload. What a block loses is stated by
  \<open>returned\<close>: the roots keep their first 4 bytes, the transaction flags describe the payload,
  the references name the first place of a duplicate, and a transaction is the one the decoder
  rebuilds from the encoded fields. The packet has no references of its own, no block holds a
  transaction hash twice, and the values fit their fields.
\<close>

theorem packet_round_trip:
  fixes input :: "'t packet"
  assumes "encode_packet T R S input = Inr data" "length data < 2 ^ 64" "rlp_law R" "snap_law S"
    and "plain_packet T input" "distinct (map sn_sender_index (p_sender_base_nonces input))"
    and "\<forall>e \<in> set (p_sender_base_nonces input). sn_sender_index e < 2 ^ 64" "p_min_pos_height input < 2 ^ 32"
    and "\<forall>b \<in> set (p_blocks input). pos_view_ok (p_min_pos_height input) pe b" "txs_fit T input (p_blocks input)"
  shows "\<exists>bs. decode_packet_ext T R S data pe = Inr (input\<lparr>p_blocks := bs\<rparr>) \<and>
    list_all2 (returned T) (p_blocks input) bs"
  by (rule plain_round_trip [OF assms])

theorem packet_round_trip_witness:
  "\<exists>data bs. encode_packet ex_tx ex_rlp ex_snap ex_two = Inr data \<and>
     decode_packet_ext ex_tx ex_rlp ex_snap data 100 = Inr (ex_two\<lparr>p_blocks := bs\<rparr>) \<and>
     list_all2 (returned ex_tx) (p_blocks ex_two) bs"
proof (rule ex_two_data)
  fix payloads data
  assume data: "encode_packet ex_tx ex_rlp ex_snap ex_two = Inr data" "length data < 2 ^ 64"
  show ?thesis
    using packet_round_trip [OF data ex_rlp_law ex_snap_law ex_two_plain ex_two_nonces ex_two_fits(3,1)]
      data(1) by blast
qed

text \<open>
  C21: the decoder on the bytes of any packet the encoder returns, references and failures
  included: the decoded packet is the input with its blocks as they were stored, where every
  reference is resolved in the blocks before, or the decoder fails because a reference of the
  caller names no earlier transaction.
\<close>

theorem packet_decoding:
  fixes input :: "'t packet"
  assumes "encode_packet T R S input = Inr data" "length data < 2 ^ 64" "rlp_law R" "snap_law S" "packet_ok T pe input"
    and "packet_payloads T R input = Inr payloads"
  shows "decode_packet_ext T R S data pe = decoded_packet T input payloads"
  by (rule decode_encode_packet [OF assms])

theorem packet_decoding_witness:
  "\<exists>data payloads. encode_packet ex_tx ex_rlp ex_snap ex_two = Inr data \<and>
     decode_packet_ext ex_tx ex_rlp ex_snap data 100 = decoded_packet ex_tx ex_two payloads"
proof (rule ex_two_data)
  fix payloads data
  assume "packet_payloads ex_tx ex_rlp ex_two = Inr payloads"
    and "encode_packet ex_tx ex_rlp ex_snap ex_two = Inr data" "length data < 2 ^ 64"
  with packet_decoding [OF this(2,3) ex_rlp_law ex_snap_law ex_ok(1) this(1)] show ?thesis by blast
qed

text \<open>
  C6: the encoder returns: a valid packet whose blocks and transactions use the tables, whose
  values are in range and whose tables and records stay below \<open>2 ^ 32\<close> bytes is encoded, for
  every compressor that accepts inputs below \<open>2 ^ 32\<close> bytes, into at most the sum of the bounds
  of its parts.
\<close>

theorem encode_packet_returns:
  assumes "packet_encodable T input" "snap_total S"
    and "\<forall>payloads. packet_payloads T R input = Inr payloads \<longrightarrow> (\<forall>p \<in> set payloads. length p < 2 ^ 32)"
  shows "\<exists>payloads data. packet_payloads T R input = Inr payloads \<and> encode_packet T R S input = Inr data \<and>
    length data \<le> head_bound input + segment_bound payloads"
  using encode_packet_total [OF assms(1,2)] assms(3) by blast

theorem encode_packet_returns_witness: "\<exists>data. encode_packet ex_tx ex_rlp ex_snap ex_two = Inr data"
proof -
  have "\<forall>payloads. packet_payloads ex_tx ex_rlp ex_two = Inr payloads \<longrightarrow> (\<forall>p \<in> set payloads. length p < 2 ^ 32)"
    using ex_two_payloads by fastforce
  then show ?thesis using encode_packet_returns [OF ex_two_encodable ex_snap_total] by blast
qed

text \<open>
  C16: the verifier accepts every packet the encoder returns, and its report counts the blocks, the
  blocks with a payload and the items of the payloads of the input: transactions, PoS rewards and
  unlock events.
\<close>

theorem encoded_packet_verifies:
  fixes input :: "'t packet"
  assumes "encode_packet T R S input = Inr data" "length data < 2 ^ 64" "rlp_law R" "snap_law S"
    and "\<forall>e \<in> set (p_sender_base_nonces input). sn_sender_index e < 2 ^ 64"
  shows "\<exists>n. valid_prefix_size n \<and> verify_packet R S data = Inr
    \<lparr>vr_packet_bytes = length data, vr_first_block_number = p_first_block_number input,
     vr_min_timestamp = p_min_timestamp input, vr_min_height = p_min_height input,
     vr_min_pos_height = ucast (p_min_pos_height input), vr_block_prefix_size = of_nat n,
     vr_block_count = of_nat (length (p_blocks input)),
     vr_transaction_blocks = of_nat (length (filter (\<lambda>b. item_count b \<noteq> 0) (p_blocks input))),
     vr_transaction_items = of_nat (sum_list (map item_count (p_blocks input)))\<rparr>"
  by (rule verify_encode_packet [OF assms])

theorem encoded_packet_verifies_witness:
  "\<exists>data report. encode_packet ex_tx ex_rlp ex_snap ex_two = Inr data \<and>
     verify_packet ex_rlp ex_snap data = Inr report \<and> vr_transaction_items report = 3"
proof (rule ex_two_data)
  fix payloads data
  assume data: "encode_packet ex_tx ex_rlp ex_snap ex_two = Inr data" "length data < 2 ^ 64"
  from encoded_packet_verifies [OF data ex_rlp_law ex_snap_law ex_two_nonces(2)]
  obtain report where "verify_packet ex_rlp ex_snap data = Inr report"
    "vr_transaction_items report = of_nat (sum_list (map item_count (p_blocks ex_two)))"
    by (metis verify_report.select_convs(9))
  then show ?thesis unfolding ex_two_items using data(1) by blast
qed

text \<open>
  C22: a block that holds a transaction hash twice is encoded with a reference into the block itself,
  which the decoder rejects, because it looks a reference up in the earlier blocks only.
\<close>

theorem duplicate_in_block_fails:
  fixes input :: "'t packet"
  assumes "encode_packet T R S input = Inr data" "length data < 2 ^ 64" "rlp_law R" "snap_law S" "packet_ok T pe input"
    and "p_blocks input = [b]" "length (b_transaction_refs b) \<noteq> length (b_transactions b)"
    and "\<not> distinct (map (tl_hash T) (b_transactions b))"
  shows "decode_packet_ext T R S data pe = Inl (Bail ''duplicate tx reference out of range'')"
  by (rule duplicate_in_block_rejected [OF assms])

theorem duplicate_in_block_fails_witness:
  "\<exists>data. encode_packet ex_tx ex_rlp ex_snap ex_duplicate = Inr data \<and>
     decode_packet_ext ex_tx ex_rlp ex_snap data 100 = Inl (Bail ''duplicate tx reference out of range'')"
proof (rule ex_duplicate_data)
  fix data
  assume data: "encode_packet ex_tx ex_rlp ex_snap ex_duplicate = Inr data" "length data < 2 ^ 64"
  have "p_blocks ex_duplicate = [ex_block 0 2 [1, 1]]" by (simp add: ex_duplicate_def)
  with duplicate_in_block_fails [OF data ex_rlp_law ex_snap_law ex_ok(2)] data(1) show ?thesis by simp
qed

text \<open>
  C15: whatever bytes the decoder is given, a packet it returns is well formed: block \<open>k\<close> has index
  \<open>k\<close>, author and difficulty from the tables, a PoS view exactly from the given height on, and the
  height of the next pivot as its epoch; every reference names an equal transaction of an earlier
  block, and a block without the transaction flag has no payload.
\<close>

theorem decoded_packet_well_formed:
  assumes "decode_packet_ext T R S data pe = Inr p"
  shows "\<forall>k < length (p_blocks p). decoded_block_ok pe p k"
  by (rule decode_packet_facts [OF assms])

theorem decoded_packet_well_formed_witness:
  "\<exists>data p. decode_packet_ext ex_tx ex_rlp ex_snap data 100 = Inr p \<and> length (p_blocks p) = 2 \<and> decoded_block_ok 100 p 1"
proof (rule ex_two_data)
  fix payloads data
  assume data: "encode_packet ex_tx ex_rlp ex_snap ex_two = Inr data" "length data < 2 ^ 64"
  from plain_round_trip [OF data ex_rlp_law ex_snap_law ex_two_plain ex_two_nonces ex_two_fits(3,1)]
  obtain bs where bs: "decode_packet_ext ex_tx ex_rlp ex_snap data 100 = Inr (ex_two\<lparr>p_blocks := bs\<rparr>)"
    "list_all2 (returned ex_tx) (p_blocks ex_two) bs" by blast
  then have "length bs = 2" by (simp add: ex_two_def list_all2_lengthD [symmetric])
  with decoded_packet_well_formed [OF bs(1)] bs(1) show ?thesis by (intro exI conjI) (assumption, simp_all)
qed

subsection \<open>Block records\<close>

text \<open>
  A block record is written exactly for the blocks whose author and difficulty are in the tables
  and whose values are in range; it has at most 157 bytes, and the decoder reads the stored block
  back from it, whatever padding follows.
\<close>

theorem block_record_round_trip:
  fixes input :: "'t packet"
  assumes "length (p_addresses input) < 2 ^ 64" "length (p_difficulties input) < 2 ^ 64"
    and "pos_view_ok (p_min_pos_height input) pe b"
  shows "case encode_block_record b f off input (index_addresses (p_addresses input)) (index_u256 (p_difficulties input)) of
      Inl e \<Rightarrow> \<not> block_encodable input b
    | Inr bytes \<Rightarrow> block_encodable input b \<and> length bytes \<le> 157 \<and>
        decode_block_record (bytes @ padding) index (p_min_timestamp input) (p_min_height input)
          (p_min_pos_height input) pe (p_addresses input) (p_difficulties input) = Inr (stored_block b f index)"
    (is "case ?r of Inl e \<Rightarrow> _ | Inr bytes \<Rightarrow> _ bytes")
proof (cases ?r)
  case (Inl e)
  then show ?thesis using encode_block_record_returns [of b f off input] by auto
next
  case (Inr bytes)
  obtain w where w: "written_by b f off input (index_addresses (p_addresses input)) (index_u256 (p_difficulties input)) bytes w"
    by (rule encode_block_record_written [OF Inr])
  have "block_encodable input b" using encode_block_record_returns [of b f off input] Inr by blast
  with decode_written [OF w, of "bytes @ padding"] assms encode_block_record_length [OF Inr] Inr show ?thesis by simp
qed

theorem block_record_round_trip_witness:
  "\<exists>bytes. encode_block_record (ex_block 0 2 [1]) 2 0 ex_two (index_addresses (p_addresses ex_two))
      (index_u256 (p_difficulties ex_two)) = Inr bytes \<and>
    decode_block_record (bytes @ [0, 0]) 0 900 5 0 100 [Address_zero] [3] = Inr (stored_block (ex_block 0 2 [1]) 2 0)"
proof -
  have e: "block_encodable ex_two (ex_block 0 2 [1])" unfolding ex_two_def by (rule ex_block_encodable)
  have f: "p_addresses ex_two = [Address_zero]" "p_difficulties ex_two = [3]" "p_min_timestamp ex_two = 900"
    "p_min_height ex_two = 5" "p_min_pos_height ex_two = 0" by (simp_all add: ex_two_def ex_packet_def)
  show ?thesis
    using block_record_round_trip [where input = ex_two and pe = 100 and b = "ex_block 0 2 [1]" and f = 2 and off = 0
      and padding = "[0, 0]" and index = 0] ex_pos_view [of 0 2 "[1]"] e
    unfolding f by (simp split: sum.splits)
qed

subsection \<open>Integers\<close>

text \<open>
  A number written as LEB128 is read back with the offset behind it, whatever follows; it takes
  \<open>uleb128_len\<close> bytes, at most 10, behind the buffer.
\<close>

theorem uleb128_round_trip:
  "read_uleb128 (put_uleb128 out v @ rest) (length out) = Inr (v, length (put_uleb128 out v)) \<and>
   length (put_uleb128 out v) = length out + uleb128_len v \<and> uleb128_len v \<le> 10 \<and> prefix out (put_uleb128 out v)"
proof -
  have "length (put_uleb128 out v) = length out + uleb128_len v" "prefix out (put_uleb128 out v)"
    by (subst put_uleb128_Nil, simp add: uleb128_len_put)+
  then show ?thesis
    using read_put_uleb128 [of out v "put_uleb128 out v @ rest"] length_put_uleb128 [of "[]" v] uleb128_len_put [of v] by simp
qed

text \<open>
  Reading LEB128 from any bytes at any offset never panics: it fails with an error, or it moves
  forward by at most 10 bytes within the buffer.
\<close>

theorem uleb128_read_bounds:
  "case read_uleb128 data offset of
     Inl (Pack_Panic m) \<Rightarrow> False
   | Inl (Bail m) \<Rightarrow> True
   | Inr (v, offset') \<Rightarrow> offset < offset' \<and> offset' \<le> length data \<and> offset' \<le> offset + 10"
  using read_uleb128_no_panic read_uleb128_bounds
  by (auto split: sum.split pack_failure.split prod.split)

text \<open>
  C30: \<open>put_qc8\<close> accepts exactly the values below \<open>2^86\<close>, and \<open>put_qc5e\<close> with the shorthand for
  gas limits exactly those below \<open>2^54\<close>; every other value is an error and not a panic. What
  they write is at most 11 and 7 bytes and is read back exactly.
\<close>

theorem compact_integer_ranges:
  "(case put_qc8 out v of
      Inl e \<Rightarrow> e = Bail ''qc8 value exceeds 86 bits'' \<and> 2 ^ 86 \<le> unat v
    | Inr out' \<Rightarrow> unat v < 2 ^ 86 \<and> length out' \<le> length out + 11 \<and>
        read_qc8 (out' @ rest) (length out) = Inr (v, length out')) \<and>
   (case put_qc5e out v (qc5e_gas_limit_enum v) of
      Inl e \<Rightarrow> e = Bail ''qc5e value exceeds 54 bits'' \<and> 2 ^ 54 \<le> unat v
    | Inr out' \<Rightarrow> unat v < 2 ^ 54 \<and> length out' \<le> length out + 7 \<and>
        (\<exists>q. read_qc5e (out' @ rest) (length out) = Inr (q, length out') \<and> gas_limit q = v))"
proof
  show "case put_qc8 out v of
      Inl e \<Rightarrow> e = Bail ''qc8 value exceeds 86 bits'' \<and> 2 ^ 86 \<le> unat v
    | Inr out' \<Rightarrow> unat v < 2 ^ 86 \<and> length out' \<le> length out + 11 \<and>
        read_qc8 (out' @ rest) (length out) = Inr (v, length out')"
  proof (cases "put_qc8 out v")
    case (Inl e)
    then have "e = Bail ''qc8 value exceeds 86 bits''" by (auto simp: put_qc8_eq split: option.splits)
    then show ?thesis using Inl put_qc8_ok_iff [of out v] by (simp add: not_less)
  next
    case (Inr out')
    then show ?thesis
      using put_qc8_ok_iff [of out v] length_put_qc8 [OF Inr] read_put_qc8 [OF Inr, of "out' @ rest"] by simp
  qed
  show "case put_qc5e out v (qc5e_gas_limit_enum v) of
      Inl e \<Rightarrow> e = Bail ''qc5e value exceeds 54 bits'' \<and> 2 ^ 54 \<le> unat v
    | Inr out' \<Rightarrow> unat v < 2 ^ 54 \<and> length out' \<le> length out + 7 \<and>
        (\<exists>q. read_qc5e (out' @ rest) (length out) = Inr (q, length out') \<and> gas_limit q = v)"
  proof (cases "put_qc5e out v (qc5e_gas_limit_enum v)")
    case (Inl e)
    then have "qc5e_gas_limit_enum v = None" using put_qc5e_returns(1) [of out v] by (auto simp: qc5e_gas_limit_enum_def split: if_splits)
    with Inl have "e = Bail ''qc5e value exceeds 54 bits''" by (auto simp: put_qc5e_eq split: option.splits)
    then show ?thesis using Inl put_qc5e_returns(1) [of out v] by (simp add: not_less)
  next
    case (Inr out')
    have "read_gas_limit (out' @ rest) (length out) = Inr (v, length out')"
      using Inr by (intro gas_limit_field.get_put) (simp_all add: put_gas_limit_def)
    then have "\<exists>q. read_qc5e (out' @ rest) (length out) = Inr (q, length out') \<and> gas_limit q = v"
      by (auto simp: read_gas_limit_def rbind_Inr_iff)
    then show ?thesis using Inr put_qc5e_returns(1) [of out v] length_put_qc5e [OF Inr] by auto
  qed
qed

subsection \<open>Containers\<close>

text \<open>
  The directory of a container names exactly the packets that were pushed, with their first
  epochs, epoch counts and bytes, in order.
\<close>

theorem container_reads_back:
  assumes "length ps < 2 ^ 32" "24 + 32 * length ps + packets_size ps < 2 ^ 64"
  shows "file_packets (container_bytes shard_epochs (builder_of ps)) = Inr (map packet_view ps)"
  by (rule container_round_trip [OF assms])

definition ex_out :: "nat \<Rightarrow> bytes \<Rightarrow> packet_out" where
  "ex_out i bs = \<lparr>po_group_index = of_nat i, po_start_epoch = 10 + 5 * of_nat i, po_epoch_count = 5,
     po_block_count = 1, po_transaction_count = 0, po_bytes = bs\<rparr>"

theorem container_reads_back_witness:
  "file_packets (container_bytes 5 (builder_of [ex_out 0 [1, 2], ex_out 1 [3]])) = Inr [(10, 5, [1, 2]), (15, 5, [3])]"
  using container_reads_back [of "[ex_out 0 [1, 2], ex_out 1 [3]]" 5] by (simp add: ex_out_def)

text \<open>
  C7: the workers may send the packets of the groups in any order: the writer never fails, creates
  the files it would create for the packets in order, each named after its first epoch, and the
  files read back in order hold every packet once.
\<close>

theorem writer_any_order:
  assumes "numbered ps" "mset qs = mset ps" "length ps < 2 ^ 32" "24 + 32 * length ps + packets_size ps < 2 ^ 64"
  shows "\<exists>w groups. write_containers c qs = Inr w \<and> write_containers c ps = Inr w \<and>
    traverse (\<lambda>f. file_packets (snd f)) (w_created w) = Inr (map (map packet_view) groups) \<and> concat groups = ps \<and>
    map (\<lambda>f. start_epoch (fst f)) (w_created w) = map (\<lambda>g. Some (po_start_epoch (hd g))) groups"
proof -
  let ?gs = "groups_of (wc_target_bytes c) [] ps"
  obtain w where w: "write_containers c qs = Inr w" "w_created w = map (file_of c) ?gs"
    by (rule write_containers_files [OF assms(1,2)])
  have "concat ?gs = ps" by (simp add: concat_groups_of)
  with w write_containers_any_order [OF assms(1,2), of c] files_parse [OF assms(3,4), of ?gs c] show ?thesis
    by (intro exI [of _ w] exI [of _ ?gs]) (simp add: file_of_def container_path_epochs)
qed

theorem writer_any_order_witness:
  "\<exists>w groups. write_containers \<lparr>wc_output_dir = ''out'', wc_prefix = ''epochs'', wc_shard_epochs = 5, wc_target_bytes = 2\<rparr>
       [ex_out 1 [3], ex_out 0 [1, 2]] = Inr w \<and>
     traverse (\<lambda>f. file_packets (snd f)) (w_created w) = Inr (map (map packet_view) groups) \<and>
     concat groups = [ex_out 0 [1, 2], ex_out 1 [3]]"
proof -
  have "numbered [ex_out 0 [1, 2], ex_out 1 [3]]" by (auto simp: numbered_def ex_out_def less_Suc_eq)
  moreover have "length (po_bytes (ex_out i bs)) = length bs" for i bs by (simp add: ex_out_def)
  ultimately show ?thesis
    using writer_any_order [of "[ex_out 0 [1, 2], ex_out 1 [3]]" "[ex_out 1 [3], ex_out 0 [1, 2]]"
      "\<lparr>wc_output_dir = ''out'', wc_prefix = ''epochs'', wc_shard_epochs = 5, wc_target_bytes = 2\<rparr>"]
    by (simp add: add_mset_commute) blast
qed

text \<open>
  The files that are collected from a directory are sorted by first epoch, come from the
  directory with a parsed name, and every file of the directory is there or another one that
  starts at its epoch, a compressed one where there is any.
\<close>

theorem collected_files:
  assumes "collect_files entries = Inr files"
  shows "sorted_wrt (\<lambda>f g. the (start_epoch f) < the (start_epoch g)) files \<and>
    (\<forall>f \<in> set files. f \<in> set entries \<and> is_cfxpack f \<and> start_epoch f \<noteq> None) \<and>
    (\<forall>p \<in> set entries. is_cfxpack p \<and> start_epoch p \<noteq> None \<longrightarrow>
       (\<exists>f \<in> set files. start_epoch f = start_epoch p \<and> (is_compressed p \<longrightarrow> is_compressed f)))"
  using collect_files_spec [OF assms] by (intro conjI ballI impI) auto

definition ex_file :: "string \<Rightarrow> path" where
  "ex_file name = \<lparr>parent = ''in'', file_name = Some name\<rparr>"

definition ex_files :: "path list" where
  "ex_files = [ex_file ''b_10_19.cfxpack'', ex_file ''notes'', ex_file ''a_0_9.cfxpack.zst'', ex_file ''a_0_9.cfxpack'']"

theorem collected_files_witness:
  "\<exists>files. collect_files ex_files = Inr files \<and> length files = 2 \<and>
     sorted_wrt (\<lambda>f g. the (start_epoch f) < the (start_epoch g)) files"
proof -
  have "collect_files ex_files = Inr [ex_file ''a_0_9.cfxpack.zst'', ex_file ''b_10_19.cfxpack'']" by code_simp
  from collected_files [OF this] this show ?thesis by simp
qed

subsection \<open>Plans and progress\<close>

text \<open>
  The groups of the packer and the shards of the extractor cut the epochs of the configuration
  into consecutive ranges of at most \<open>shard_epochs\<close> epochs: nothing is left out, nothing twice,
  and the last range may be shorter.
\<close>

theorem plans_tile_epochs:
  assumes "shard_epochs \<noteq> 0" "unat start + unat epochs < 2 ^ 64"
  shows "\<exists>ts us. build_pack_tasks start epochs shard_epochs = Inr ts \<and> build_shard_tasks start epochs dir shard_epochs = Inr us \<and>
    concat (map (\<lambda>t. epochs_of (pt_start_epoch t) (pt_epoch_count t)) ts) = epochs_of start epochs \<and>
    concat (map (\<lambda>t. epochs_of (st_start_epoch t) (st_epoch_count t)) us) = epochs_of start epochs \<and>
    list_all (\<lambda>t. 0 < pt_epoch_count t \<and> pt_epoch_count t \<le> shard_epochs) ts \<and>
    map pt_group_index ts = map of_nat [0..<length ts]"
proof -
  obtain ts where ts: "build_pack_tasks start epochs shard_epochs = Inr ts"
    using assms(1) by (auto simp: build_pack_tasks_def Let_def)
  obtain us where us: "build_shard_tasks start epochs dir shard_epochs = Inr us"
    using assms(1) by (auto simp: build_shard_tasks_def Let_def)
  show ?thesis
    using ts us pack_tasks_tile [OF assms ts] shard_tasks_tile(1) [OF assms us]
    by (intro exI [of _ ts] exI [of _ us]) (auto simp: list_all_iff intro!: nth_equalityI)
qed

theorem plans_tile_epochs_witness:
  "\<exists>ts. build_pack_tasks 10 12 5 = Inr ts \<and>
     concat (map (\<lambda>t. epochs_of (pt_start_epoch t) (pt_epoch_count t)) ts) = [10..<22]"
  using plans_tile_epochs [of 5 10 12 "''out''"] by (auto simp: epochs_of_def)

text \<open>
  For every interleaving of what the workers send, the progress display never fails, its counts
  are those of the finished and failed shards, the active entries are those of the workers with a
  shard, and no started shard is lost.
\<close>

theorem progress_counts_events:
  assumes "sends {} es busy" "\<forall>e \<in> set es. event_worker e < worker_count"
  shows "\<exists>p. progress_run es (progress_new task_count worker_count) = Inr p \<and> active_workers p = busy \<and>
    pg_completed p = length (filter is_done es) \<and> pg_failed p = length (filter is_failed es) \<and>
    card busy + pg_completed p + pg_failed p = length (filter is_start es)"
proof -
  have "active_workers (progress_new task_count worker_count) = {}" by (auto simp: active_workers_def progress_new_def)
  then show ?thesis
    using progress_run_counts [of "progress_new task_count worker_count" es busy] assms
    by (fastforce simp: progress_new_def)
qed

theorem progress_counts_events_witness:
  "\<exists>p. progress_run [Start 0 \<lparr>as_start_epoch = 0, as_end_epoch = 4\<rparr>, Start 1 \<lparr>as_start_epoch = 5, as_end_epoch = 9\<rparr>,
       progress_event.Done 1] (progress_new 2 2) = Inr p \<and> active_workers p = {0} \<and> pg_completed p = 1"
proof -
  let ?es = "[Start 0 \<lparr>as_start_epoch = 0, as_end_epoch = 4\<rparr>, Start 1 \<lparr>as_start_epoch = 5, as_end_epoch = 9\<rparr>,
    progress_event.Done 1]"
  have "sends {} ?es ({1, 0} - {1})" by (intro sends.intros) auto
  moreover have "{1, 0} - {1} = {0 :: nat}" by auto
  ultimately show ?thesis
    using progress_counts_events [of ?es "{0}" 2 2] by (fastforce simp: event_kind_defs)
qed

subsection \<open>Flag patching\<close>

text \<open>
  C23: for every number of threads and every schedule, the scan of the patcher ends, all its threads
  having added what they found; if every reward can be read, the offsets found are those of the
  blocks with a zero reward, each once, and otherwise an error of the database is kept.
\<close>

theorem scan_any_schedule:
  "all_done (scan_scope read_reward sites jobs schedule progress) \<and>
   (if readable read_reward sites
    then sc_err (scan_scope read_reward sites jobs schedule progress) = None \<and>
      mset (sc_flips (scan_scope read_reward sites jobs schedule progress)) = mset (zero_sites read_reward sites)
    else \<exists>e pos h. sc_err (scan_scope read_reward sites jobs schedule progress) = Some e \<and> (pos, h) \<in> set sites \<and>
      read_reward h = Inl e)"
proof (cases "readable read_reward sites")
  case True
  then show ?thesis
    using scan_scope_done [of read_reward sites jobs schedule progress] scan_scope_result(1,3) [of read_reward sites] by simp
next
  case False
  then obtain e where e: "sc_err (scan_scope read_reward sites jobs schedule progress) = Some e"
    using scan_scope_result(1) [of read_reward sites jobs schedule progress] by (auto simp del: not_None_eq)
  show ?thesis
    using False e scan_scope_done [of read_reward sites jobs schedule progress] scan_scope_result(2) [OF e] by auto
qed

text \<open>
  C8: patching the container of encoded packets gives, byte for byte, the container of the same
  packets encoded with the zero-reward flag set on every block whose reward is zero or not
  recorded, under every schedule of the threads; the report counts the blocks and the flagged blocks,
  and says that the file changed exactly when its bytes did.
\<close>

theorem patched_container:
  fixes inputs :: "'t packet list"
  assumes "container_of T R S inputs ps" "length ps < 2 ^ 32" "24 + 32 * length ps + packets_size ps < 2 ^ 64" "snap_law S"
    and "\<forall>input \<in> set inputs. \<forall>e \<in> set (p_sender_base_nonces input). sn_sender_index e < 2 ^ 64"
    and "\<forall>input \<in> set inputs. \<forall>b \<in> set (p_blocks input). \<exists>r. read_reward (b_hash b) = Inr r"
  shows "\<exists>qs. container_of T R S (map (flagged_packet (zero_reward read_reward)) inputs) qs \<and>
    list_all2 same_place ps qs \<and>
    patch_container_bytes read_reward jobs schedule (container_bytes sh (builder_of ps)) = Inr
      \<lparr>pd_data = container_bytes sh (builder_of qs),
       pd_blocks_seen = of_nat (sum_list (map (\<lambda>input. length (p_blocks input)) inputs)),
       pd_blocks_flagged = of_nat (sum_list (map (\<lambda>input. length (filter (\<lambda>b. zero_reward read_reward (b_hash b))
         (p_blocks input))) inputs)),
       pd_changed = (container_bytes sh (builder_of qs) \<noteq> container_bytes sh (builder_of ps))\<rparr>"
  by (rule patch_container_reencodes [OF assms])

theorem patched_container_witness:
  "\<exists>data patch. encode_packet ex_tx ex_rlp ex_snap ex_two = Inr data \<and>
     patch_container_bytes (\<lambda>_. Inr None) 3 [2, 0, 2] (container_bytes 5 (builder_of [ex_out 0 data])) = Inr patch \<and>
     pd_blocks_seen patch = 2 \<and> pd_blocks_flagged patch = 2"
proof (rule ex_two_data)
  fix payloads data
  assume data: "encode_packet ex_tx ex_rlp ex_snap ex_two = Inr data" "length data < 100000"
  have "container_of ex_tx ex_rlp ex_snap [ex_two] [ex_out 0 data]"
    using data(1) by (simp add: container_of_def ex_out_def)
  from patched_container [OF this, where read_reward = "\<lambda>_. Inr None" and jobs = 3 and schedule = "[2, 0, 2]" and sh = 5]
  obtain patch where "patch_container_bytes (\<lambda>_. Inr None) 3 [2, 0, 2] (container_bytes 5 (builder_of [ex_out 0 data])) = Inr patch"
    "pd_blocks_seen patch = 2" "pd_blocks_flagged patch = 2"
    using data(2) ex_snap_law ex_two_nonces(2)
    by (fastforce simp: ex_out_def ex_two_def zero_reward_def total_reward_zero_def)
  with data(1) show ?thesis by blast
qed

text \<open>
  C29: the pass over the files does not return when a file of the chosen ones cannot be read or
  patched, and returns otherwise: the loop leaves the scope with its error before it sets
  \<open>finished\<close>, and the scope waits for the thread that reports the progress.
\<close>

theorem failed_file_never_returns:
  assumes "distinct entries"
  shows "snd (add_total_reward_flag read_reward entries jobs schedules dry_run max_epoch min_epoch fs) = None \<longleftrightarrow>
    (\<exists>files p. collect_sorted_pack_files entries max_epoch min_epoch = Inr files \<and> p \<in> set files \<and>
       file_fails read_reward jobs schedules fs p)"
proof (cases "collect_sorted_pack_files entries max_epoch min_epoch")
  case (Inl e)
  then show ?thesis by (simp add: add_total_reward_flag_def)
next
  case (Inr files)
  obtain g r where r: "patch_files read_reward jobs schedules dry_run files fs flag_patch_summary_default = (g, r)" by fastforce
  have "isl r \<longleftrightarrow> (\<exists>p \<in> set files. file_fails read_reward jobs schedules fs p)"
    using patch_files_fails [OF collect_sorted_pack_files_spec(3) [OF Inr assms],
      of read_reward jobs schedules dry_run fs flag_patch_summary_default] r by simp
  with Inr r show ?thesis by (cases r) (auto simp: add_total_reward_flag_def Let_def)
qed

theorem failed_file_never_returns_witness:
  "snd (add_total_reward_flag (\<lambda>_. Inr None) [ex_file ''epochs_0_9.cfxpack''] 1 (\<lambda>_. []) False None None (\<lambda>_. Some [])) = None"
proof -
  have "extension (ex_file ''epochs_0_9.cfxpack'') = Some ''cfxpack''" by code_simp
  then have "collect_sorted_pack_files [ex_file ''epochs_0_9.cfxpack''] None None = Inr [ex_file ''epochs_0_9.cfxpack'']"
    by (simp add: collect_sorted_pack_files_def)
  moreover have "file_fails (\<lambda>_. Inr None) 1 (\<lambda>_. []) (\<lambda>_. Some []) (ex_file ''epochs_0_9.cfxpack'')"
    by (simp add: file_fails_def patch_container_bytes_def parse_container_def CONTAINER_HEADER_LEN_def)
  ultimately show ?thesis by (simp add: failed_file_never_returns)
qed

end
