(* ===== verification/Extract_Types.thy ===== *)
theory Extract_Types
  imports Packet_Encode Pack_Container
begin

text \<open>
  What the extraction of \<open>crates/replay-data-extractor/src/extract\<close> works on: its configuration, the
  data of a block before it is lowered into a packet, and the code of the node it calls.

  \<open>BlockHeader\<close> (crate \<open>primitives\<close>) and \<open>CommittedBlock\<close> (crate \<open>diem_types\<close>) are the type
  parameters \<open>'h\<close> and \<open>'c\<close>. Their accessors and decoders are the fields of the record \<open>node_lib\<close>,
  of which nothing is assumed here. Messages name epochs by number; the hash that some messages
  of the source print is left out of them.
\<close>

subsection \<open>Configuration\<close>

record chain_params =
  cp_evm_transaction_block_ratio :: u64
  cp_pos_reference_enable_height :: u64
  cp_cip112_transition_height :: u64

definition chain_params_default :: chain_params where
  "chain_params_default =
     \<lparr>cp_evm_transaction_block_ratio = 5, cp_pos_reference_enable_height = - 1,
      cp_cip112_transition_height = - 1\<rparr>"

record extract_config =
  ec_data_dir :: string
  ec_start_epoch :: u64
  ec_epoch_count :: u64
  ec_chain :: chain_params

definition extract_config_default :: extract_config where
  "extract_config_default =
     \<lparr>ec_data_dir = ''data/blockchain_data'', ec_start_epoch = 1, ec_epoch_count = 2,
      ec_chain = chain_params_default\<rparr>"

subsection \<open>The code of the node\<close>

text \<open>
  \<open>hd_base_price\<close> gives the base price in the native space and in the EVM space.
  \<open>decode_with_pow_hash\<close> reads the global cell \<open>CIP112_TRANSITION_HEIGHT\<close>, whose content is its first
  argument.
\<close>

record ('h, 'c, 't) node_lib =
  hd_author :: "'h \<Rightarrow> address"
  hd_adaptive :: "'h \<Rightarrow> bool"
  hd_height :: "'h \<Rightarrow> u64"
  hd_timestamp :: "'h \<Rightarrow> u64"
  hd_difficulty :: "'h \<Rightarrow> u256"
  hd_gas_limit :: "'h \<Rightarrow> u256"
  hd_blame :: "'h \<Rightarrow> u32"
  hd_base_price :: "'h \<Rightarrow> (u256 \<times> u256) option"
  hd_pos_reference :: "'h \<Rightarrow> h256 option"
  hd_deferred_state_root :: "'h \<Rightarrow> h256"
  hd_deferred_receipts_root :: "'h \<Rightarrow> h256"
  hd_deferred_logs_bloom_hash :: "'h \<Rightarrow> h256"
  cb_view :: "'c \<Rightarrow> u64"
  cb_version :: "'c \<Rightarrow> u64"
  cb_pivot_block_hash :: "'c \<Rightarrow> h256"
  nl_decode_with_pow_hash :: "u64 option \<Rightarrow> bytes \<Rightarrow> 'h pack_result"
  nl_decode_body :: "bytes \<Rightarrow> 't list pack_result"
  nl_decode_committed_block :: "bytes \<Rightarrow> 'c pack_result"

text \<open>\<open>OnceLock::set\<close>: only the first value of a process stays in the cell.\<close>

definition once_set :: "'a option \<Rightarrow> 'a \<Rightarrow> 'a option" where
  "once_set cell v = (case cell of None \<Rightarrow> Some v | Some w \<Rightarrow> Some w)"

text \<open>\<open>Context::context\<close>: an error gets a message, a panic stays a panic.\<close>

definition with_message :: "string \<Rightarrow> 'a pack_result \<Rightarrow> 'a pack_result" where
  "with_message m r = (case r of Inl (Bail _) \<Rightarrow> Inl (Bail m) | _ \<Rightarrow> r)"

lemma with_message_Inr_iff [simp]: "with_message m r = Inr x \<longleftrightarrow> r = Inr x"
  by (auto simp: with_message_def split: sum.splits pack_failure.splits)

lemma with_message_Inr [simp]: "with_message m (Inr x) = Inr x"
  by simp

subsection \<open>Blocks\<close>

record epoch_execution_context =
  ex_start_block_number :: u64

record block_reward_result =
  br_base_reward :: u256
  br_total_reward :: u256

definition block_reward_default :: block_reward_result where
  "block_reward_default = \<lparr>br_base_reward = 0, br_total_reward = 0\<rparr>"

record epoch_blocks =
  ep_number :: u64
  ep_executed :: "h256 list"
  ep_skipped :: "h256 list"

record ('h, 't) raw_block =
  rb_epoch :: u64
  rb_hash :: h256
  rb_header :: 'h
  rb_body :: "'t list"
  rb_reward :: block_reward_result
  rb_flags :: u8

definition effective_pos_reference :: "('h, 'c, 't) node_lib \<Rightarrow> 'h \<Rightarrow> u64 \<Rightarrow> h256 option" where
  "effective_pos_reference N header pos_reference_enable_height =
     (if hd_height N header < pos_reference_enable_height then None else hd_pos_reference N header)"

end
