(* ===== verification/Extract_Tables.thy ===== *)
theory Extract_Tables
  imports Extract_Types "HOL-Library.Multiset" "HOL-Library.AList" "HOL-Library.Product_Lexorder"
begin

text \<open>
  \<open>crates/replay-data-extractor/src/extract/tables.rs\<close>: the tables a packet refers to by index.

  A \<open>HashMap\<close> that is iterated is the list of its entries in the order of their insertion, and the
  order of an iteration is an argument: \<open>order n\<close> lists the positions \<open>0..n\<close> in the order in
  which a map of \<open>n\<close> entries yields them. Of it only \<open>iteration_order\<close> is used, that each entry
  is yielded once. A \<open>HashMap\<close> that is only looked up is a map, and a \<open>HashSet\<close> is a set.
\<close>

subsection \<open>Iterating a hash map\<close>

definition iteration_order :: "(nat \<Rightarrow> nat list) \<Rightarrow> bool" where
  "iteration_order order \<longleftrightarrow> (\<forall>n. mset (order n) = mset [0..<n])"

definition iterate :: "(nat \<Rightarrow> nat list) \<Rightarrow> 'a list \<Rightarrow> 'a list" where
  "iterate order entries = map (nth entries) (order (length entries))"

lemma mset_iterate: "iteration_order order \<Longrightarrow> mset (iterate order xs) = mset xs"
  unfolding iterate_def iteration_order_def by (metis map_nth mset_map)

lemma set_iterate: "iteration_order order \<Longrightarrow> set (iterate order xs) = set xs"
  by (metis mset_iterate set_mset_mset)

lemma distinct_iterate: "iteration_order order \<Longrightarrow> distinct (map f (iterate order xs)) = distinct (map f xs)"
  using mset_iterate [of order xs] by (metis mset_eq_imp_distinct_iff mset_map)

subsection \<open>Frequencies\<close>

record 'a frequency =
  fq_counts :: "('a \<times> nat \<times> nat) list"
  fq_next_order :: nat

definition frequency_default :: "'a frequency" where
  "frequency_default = \<lparr>fq_counts = [], fq_next_order = 0\<rparr>"

definition frequency_add :: "'a \<Rightarrow> 'a frequency \<Rightarrow> 'a frequency" where
  "frequency_add x fr =
     (let order = fq_next_order fr
      in case map_of (fq_counts fr) x of
           Some (c, first) \<Rightarrow> fr\<lparr>fq_counts := AList.update x (c + 1, first) (fq_counts fr)\<rparr>
         | None \<Rightarrow> fr\<lparr>fq_counts := AList.update x (1, order) (fq_counts fr), fq_next_order := order + 1\<rparr>)"

definition into_sorted_with_counts :: "(nat \<Rightarrow> nat list) \<Rightarrow> 'a frequency \<Rightarrow> ('a \<times> nat) list" where
  "into_sorted_with_counts order fr =
     (let entries = map (\<lambda>(x, c, first). (x, c, first)) (iterate order (fq_counts fr));
          sorted = sort_key (\<lambda>(x, c, first). (- int c, first)) entries
      in map (\<lambda>(x, c, _). (x, c)) sorted)"

definition into_sorted :: "(nat \<Rightarrow> nat list) \<Rightarrow> 'a frequency \<Rightarrow> 'a list" where
  "into_sorted order fr = map fst (into_sorted_with_counts order fr)"

subsection \<open>The tables\<close>

record tables =
  tb_addresses :: "address list"
  tb_pos_entries :: "pos_lookup_entry list"
  tb_difficulties :: "u256 list"
  tb_sender_base_nonces :: "sender_base_nonce list"
  tb_gas_prices :: "u256 list"

definition add_tx_addresses :: "('t, 'acc, 'auth) tx_lib \<Rightarrow> 't \<Rightarrow> address frequency \<Rightarrow> address frequency" where
  "add_tx_addresses T tx stats =
     (let stats = frequency_add (tl_sender T tx) stats
      in case tl_action T tx of Call a \<Rightarrow> frequency_add a stats | Create \<Rightarrow> stats)"

definition build_address_table ::
  "('h, 'c, 't) node_lib \<Rightarrow> ('t, 'acc, 'auth) tx_lib \<Rightarrow> (nat \<Rightarrow> nat list) \<Rightarrow> ('h, 't) raw_block list \<Rightarrow> address list" where
  "build_address_table N T order blocks =
     into_sorted order
       (fold (\<lambda>b stats. fold (add_tx_addresses T) (rb_body b) (frequency_add (hd_author N (rb_header b)) stats))
         blocks frequency_default)"

fun difficulties_from :: "('h, 'c, 't) node_lib \<Rightarrow> u256 list \<Rightarrow> u256 set \<Rightarrow> ('h, 't) raw_block list \<Rightarrow> u256 list" where
  "difficulties_from N out seen [] = out"
| "difficulties_from N out seen (b # bs) =
     (let d = hd_difficulty N (rb_header b)
      in if d \<notin> seen then difficulties_from N (out @ [d]) (insert d seen) bs
         else difficulties_from N out seen bs)"

definition build_difficulty_table :: "('h, 'c, 't) node_lib \<Rightarrow> ('h, 't) raw_block list \<Rightarrow> u256 list" where
  "build_difficulty_table N blocks = difficulties_from N [] {} blocks"

definition add_block_prices ::
  "('h, 'c, 't) node_lib \<Rightarrow> ('t, 'acc, 'auth) tx_lib \<Rightarrow> ('h, 't) raw_block \<Rightarrow> u256 frequency \<Rightarrow> u256 frequency" where
  "add_block_prices N T b stats =
     (let stats = (case hd_base_price N (rb_header b) of
                     Some (core, espace) \<Rightarrow> frequency_add espace (frequency_add core stats)
                   | None \<Rightarrow> stats)
      in fold (\<lambda>tx stats. frequency_add (tl_max_priority_gas_price T tx) (frequency_add (tl_gas_price T tx) stats))
           (rb_body b) stats)"

definition build_gas_price_table ::
  "('h, 'c, 't) node_lib \<Rightarrow> ('t, 'acc, 'auth) tx_lib \<Rightarrow> (nat \<Rightarrow> nat list) \<Rightarrow> ('h, 't) raw_block list \<Rightarrow> u256 list" where
  "build_gas_price_table N T order blocks =
     map fst (take 16 (filter (\<lambda>(_, c). 3 < c)
       (into_sorted_with_counts order (fold (add_block_prices N T) blocks frequency_default))))"

text \<open>\<open>entry(i).or_default().push(nonce)\<close>\<close>

definition push_nonce :: "nat \<Rightarrow> u64 \<Rightarrow> (nat \<times> u64 list) list \<Rightarrow> (nat \<times> u64 list) list" where
  "push_nonce i nonce nonces =
     AList.update i ((case map_of nonces i of None \<Rightarrow> [] | Some ns \<Rightarrow> ns) @ [nonce]) nonces"

definition add_tx_nonce ::
  "('t, 'acc, 'auth) tx_lib \<Rightarrow> (address \<Rightarrow> nat option) \<Rightarrow> 't \<Rightarrow> (nat \<times> u64 list) list \<Rightarrow> (nat \<times> u64 list) list" where
  "add_tx_nonce T address_index tx nonces =
     (case address_index (tl_sender T tx) of
        Some sender_index \<Rightarrow> push_nonce sender_index (low_u64 (tl_nonce T tx)) nonces
      | None \<Rightarrow> nonces)"

definition sender_entry :: "nat \<times> u64 list \<Rightarrow> sender_base_nonce option" where
  "sender_entry e =
     (let (sender_index, ns) = e;
          base_nonce = (if ns = [] then 0 else Min (set ns));
          saving = (\<Sum>nonce\<leftarrow>ns. int (uleb128_len nonce) - int (uleb128_len (saturating_sub nonce base_nonce)))
      in if 16 \<le> saving then Some \<lparr>sn_sender_index = sender_index, sn_base_nonce = base_nonce\<rparr> else None)"

definition build_sender_base_nonce_table ::
  "('t, 'acc, 'auth) tx_lib \<Rightarrow> (nat \<Rightarrow> nat list) \<Rightarrow> ('h, 't) raw_block list \<Rightarrow> (address \<Rightarrow> nat option) \<Rightarrow>
   sender_base_nonce list" where
  "build_sender_base_nonce_table T order blocks address_index =
     (let nonces = fold (\<lambda>b. fold (add_tx_nonce T address_index) (rb_body b)) blocks []
      in sort_key sn_sender_index (List.map_filter sender_entry (iterate order nonces)))"

fun pos_lookup_from ::
  "('h, 'c, 't) node_lib \<Rightarrow> (h256 \<Rightarrow> 'c option) \<Rightarrow> u64 \<Rightarrow> u64 \<Rightarrow> pos_lookup_entry list \<Rightarrow> h256 set \<Rightarrow>
   ('h, 't) raw_block list \<Rightarrow> pos_lookup_entry list pack_result" where
  "pos_lookup_from N pos_blocks min_pos_height pe out seen [] = Inr out"
| "pos_lookup_from N pos_blocks min_pos_height pe out seen (b # bs) =
     (case effective_pos_reference N (rb_header b) pe of
        None \<Rightarrow> pos_lookup_from N pos_blocks min_pos_height pe out seen bs
      | Some pos_ref \<Rightarrow>
          if pos_ref \<in> seen then pos_lookup_from N pos_blocks min_pos_height pe out seen bs
          else rbind (ok_or (pos_blocks pos_ref) (Bail ''missing cached committed block'')) (\<lambda>committed.
               rbind (ok_or (checked_sub (cb_view N committed) min_pos_height)
                        (Bail ''PoS view below min_pos_height'')) (\<lambda>height_offset.
               rbind (ensure (height_offset < 2 ^ 16) (Bail ''PoS height offset exceeds u16'')) (\<lambda>_.
                 pos_lookup_from N pos_blocks min_pos_height pe
                   (out @ [\<lparr>pl_hash = pos_ref, pl_height_offset = ucast height_offset\<rparr>]) (insert pos_ref seen) bs))))"

definition build_pos_lookup ::
  "('h, 'c, 't) node_lib \<Rightarrow> ('h, 't) raw_block list \<Rightarrow> (h256 \<Rightarrow> 'c option) \<Rightarrow> u64 \<Rightarrow> u64 \<Rightarrow>
   pos_lookup_entry list pack_result" where
  "build_pos_lookup N blocks pos_blocks min_pos_height pe = pos_lookup_from N pos_blocks min_pos_height pe [] {} blocks"

text \<open>The orders in which the three maps that are iterated yield their entries.\<close>

record hash_orders =
  ho_addresses :: "nat \<Rightarrow> nat list"
  ho_gas_prices :: "nat \<Rightarrow> nat list"
  ho_nonces :: "nat \<Rightarrow> nat list"

definition build_tables ::
  "('h, 'c, 't) node_lib \<Rightarrow> ('t, 'acc, 'auth) tx_lib \<Rightarrow> hash_orders \<Rightarrow> ('h, 't) raw_block list \<Rightarrow>
   (h256 \<Rightarrow> 'c option) \<Rightarrow> u64 \<Rightarrow> u64 \<Rightarrow> tables pack_result" where
  "build_tables N T orders blocks pos_blocks min_pos_height pe =
     (let addresses = build_address_table N T (ho_addresses orders) blocks;
          address_index = index_table addresses;
          difficulties = build_difficulty_table N blocks;
          gas_prices = build_gas_price_table N T (ho_gas_prices orders) blocks;
          sender_base_nonces = build_sender_base_nonce_table T (ho_nonces orders) blocks address_index
      in rbind (build_pos_lookup N blocks pos_blocks min_pos_height pe) (\<lambda>pos_entries.
           Inr \<lparr>tb_addresses = addresses, tb_pos_entries = pos_entries, tb_difficulties = difficulties,
                tb_sender_base_nonces = sender_base_nonces, tb_gas_prices = gas_prices\<rparr>))"

end
