(* ===== verification/Extract_Db.thy ===== *)
theory Extract_Db
  imports Extract_Types
begin

text \<open>
  \<open>crates/replay-data-extractor/src/extract/db.rs\<close>: what the extraction reads from the databases
  of a node.

  RocksDB is the record \<open>rocks\<close> of the operations that are called on a database, with an iterator
  of type \<open>'i\<close>; a view of the RLP library is \<open>'r\<close> and \<open>rlp_view\<close> has the conversions that are asked
  of it. Opening the databases and their caches is left out. A loop over an iterator is a partial
  function: whether it ends is up to the iterator.
\<close>

definition EPOCH_EXECUTED_BLOCK_SET_SUFFIX :: u8 where "EPOCH_EXECUTED_BLOCK_SET_SUFFIX = 0x06"
definition COL_BLOCKS :: string where "COL_BLOCKS = ''col1''"
definition COL_EPOCH_NUMBERS :: string where "COL_EPOCH_NUMBERS = ''col3''"
definition COL_REWARD_BY_POS_EPOCH :: string where "COL_REWARD_BY_POS_EPOCH = ''col7''"
definition EPOCH_SKIPPED_BLOCK_SET_SUFFIX :: u8 where "EPOCH_SKIPPED_BLOCK_SET_SUFFIX = 0x07"
definition BLOCK_BODY_SUFFIX :: u8 where "BLOCK_BODY_SUFFIX = 0x02"
definition EPOCH_EXECUTION_CONTEXT_SUFFIX :: u8 where "EPOCH_EXECUTION_CONTEXT_SUFFIX = 0x04"
definition BLOCK_REWARD_RESULT_SUFFIX :: u8 where "BLOCK_REWARD_RESULT_SUFFIX = 0x08"

record 'i rocks =
  rk_cf_handle :: "string \<Rightarrow> bool"
  rk_get_cf :: "string \<Rightarrow> bytes \<Rightarrow> bytes option pack_result"
  rk_iter :: "string \<Rightarrow> 'i"
  rk_seek_start :: "'i \<Rightarrow> 'i pack_result"
  rk_seek_key :: "bytes \<Rightarrow> 'i \<Rightarrow> 'i pack_result"
  rk_valid :: "'i \<Rightarrow> bool pack_result"
  rk_key :: "'i \<Rightarrow> bytes"
  rk_value :: "'i \<Rightarrow> bytes"
  rk_next :: "'i \<Rightarrow> 'i pack_result"

record 'r rlp_view =
  rv_new :: "bytes \<Rightarrow> 'r"
  rv_at :: "'r \<Rightarrow> nat \<Rightarrow> 'r pack_result"
  rv_item_count :: "'r \<Rightarrow> nat pack_result"
  rv_h256 :: "'r \<Rightarrow> h256 pack_result"
  rv_address :: "'r \<Rightarrow> address pack_result"
  rv_u64 :: "'r \<Rightarrow> u64 pack_result"
  rv_u256 :: "'r \<Rightarrow> u256 pack_result"
  rv_h256_list :: "'r \<Rightarrow> h256 list pack_result"

subsection \<open>Lookups in the PoW database\<close>

definition pow_get :: "'i rocks \<Rightarrow> string \<Rightarrow> bytes \<Rightarrow> bytes option pack_result" where
  "pow_get pow cf key =
     rbind (ensure (rk_cf_handle pow cf) (Bail (''missing CF '' @ cf))) (\<lambda>_.
       with_message (''read CF '' @ cf) (rk_get_cf pow cf key))"

definition read_epoch_hashes :: "'i rocks \<Rightarrow> 'r rlp_view \<Rightarrow> u64 \<Rightarrow> u8 \<Rightarrow> h256 list option pack_result" where
  "read_epoch_hashes pow V epoch sfx =
     (let key = to_le_bytes 8 epoch @ [sfx]
      in rbind (pow_get pow COL_EPOCH_NUMBERS key) (\<lambda>found.
         case found of
           None \<Rightarrow> Inr None
         | Some bs \<Rightarrow> rbind (with_message ''decode epoch block hashes'' (rv_h256_list V (rv_new V bs)))
                        (\<lambda>hs. Inr (Some hs))))"

definition load_epoch :: "'i rocks \<Rightarrow> 'r rlp_view \<Rightarrow> u64 \<Rightarrow> epoch_blocks pack_result" where
  "load_epoch pow V epoch =
     rbind (read_epoch_hashes pow V epoch EPOCH_EXECUTED_BLOCK_SET_SUFFIX) (\<lambda>found.
     rbind (ok_or found (Bail (''missing epoch '' @ dec_digits (unat epoch) @ '' executed block set''))) (\<lambda>executed.
     rbind (read_epoch_hashes pow V epoch EPOCH_SKIPPED_BLOCK_SET_SUFFIX) (\<lambda>skipped.
       Inr \<lparr>ep_number = epoch, ep_executed = executed,
            ep_skipped = (case skipped of None \<Rightarrow> [] | Some hs \<Rightarrow> hs)\<rparr>)))"

definition block_key :: "h256 \<Rightarrow> u8 option \<Rightarrow> bytes" where
  "block_key h sfx = as_bytes h @ (case sfx of Some s \<Rightarrow> [s] | None \<Rightarrow> [])"

definition read_header ::
  "('h, 'c, 't) node_lib \<Rightarrow> u64 option \<Rightarrow> 'i rocks \<Rightarrow> h256 \<Rightarrow> 'h pack_result" where
  "read_header N cip112 pow h =
     rbind (pow_get pow COL_BLOCKS (block_key h None)) (\<lambda>found.
     rbind (ok_or found (Bail ''missing block header'')) (\<lambda>bs.
       with_message ''decode block header'' (nl_decode_with_pow_hash N cip112 bs)))"

definition read_body :: "('h, 'c, 't) node_lib \<Rightarrow> 'i rocks \<Rightarrow> h256 \<Rightarrow> 't list pack_result" where
  "read_body N pow h =
     rbind (pow_get pow COL_BLOCKS (block_key h (Some BLOCK_BODY_SUFFIX))) (\<lambda>found.
       case found of
         None \<Rightarrow> Inr []
       | Some bs \<Rightarrow> with_message ''decode block body'' (nl_decode_body N bs))"

definition read_epoch_context :: "'i rocks \<Rightarrow> 'r rlp_view \<Rightarrow> h256 \<Rightarrow> epoch_execution_context pack_result" where
  "read_epoch_context pow V pivot_hash =
     rbind (pow_get pow COL_BLOCKS (block_key pivot_hash (Some EPOCH_EXECUTION_CONTEXT_SUFFIX))) (\<lambda>found.
     rbind (ok_or found (Bail ''missing epoch execution context'')) (\<lambda>bs.
     rbind (with_message ''decode epoch execution context start_block_number''
              (rbind (rv_at V (rv_new V bs) 0) (rv_u64 V))) (\<lambda>n.
       Inr \<lparr>ex_start_block_number = n\<rparr>)))"

definition read_reward :: "'i rocks \<Rightarrow> 'r rlp_view \<Rightarrow> h256 \<Rightarrow> block_reward_result option pack_result" where
  "read_reward pow V h =
     rbind (pow_get pow COL_BLOCKS (block_key h (Some BLOCK_REWARD_RESULT_SUFFIX))) (\<lambda>found.
       case found of
         None \<Rightarrow> Inr None
       | Some bs \<Rightarrow>
           rbind (with_message ''decode block reward tuple value'' (rv_at V (rv_new V bs) 1)) (\<lambda>reward.
           rbind (with_message ''decode block reward total_reward'' (rbind (rv_at V reward 0) (rv_u256 V))) (\<lambda>all.
           rbind (with_message ''decode block reward base_reward'' (rbind (rv_at V reward 1) (rv_u256 V))) (\<lambda>base.
             Inr (Some \<lparr>br_base_reward = base, br_total_reward = all\<rparr>)))))"

subsection \<open>PoS rewards\<close>

definition reward_account :: "'r rlp_view \<Rightarrow> 'r \<Rightarrow> nat \<Rightarrow> pos_reward_account pack_result" where
  "reward_account V rewards_rlp j =
     rbind (rv_at V rewards_rlp j) (\<lambda>a.
     rbind (with_message ''pos reward address'' (rbind (rv_at V a 0) (rv_address V))) (\<lambda>address.
     rbind (with_message ''pos reward identifier'' (rbind (rv_at V a 1) (rv_h256 V))) (\<lambda>ident.
     rbind (with_message ''pos reward amount'' (rbind (rv_at V a 2) (rv_u256 V))) (\<lambda>reward.
       Inr \<lparr>pra_address = address, pra_pos_identifier = ident, pra_reward = reward\<rparr>))))"

text \<open>One turn of the loop: the entry of the column, when it belongs to one of the pivots.\<close>

definition reward_turn ::
  "'r rlp_view \<Rightarrow> h256 set \<Rightarrow> bytes \<Rightarrow> (h256 \<Rightarrow> pos_reward_entry option) \<Rightarrow> (h256 \<Rightarrow> pos_reward_entry option) pack_result" where
  "reward_turn V pivots bs out =
     (let rlp = rv_new V bs
      in rbind (with_message ''decode PosRewardInfo exec hash'' (rbind (rv_at V rlp 1) (rv_h256 V))) (\<lambda>execution_epoch_hash.
         if execution_epoch_hash \<in> pivots then
           rbind (with_message ''decode PosRewardInfo account_rewards'' (rv_at V rlp 0)) (\<lambda>rewards_rlp.
           rbind (rv_item_count V rewards_rlp) (\<lambda>n.
           rbind (traverse (reward_account V rewards_rlp) [0..<n]) (\<lambda>account_rewards.
             Inr (out(execution_epoch_hash \<mapsto>
               \<lparr>pre_account_rewards = account_rewards, pre_execution_epoch_hash = execution_epoch_hash\<rparr>)))))
         else Inr out))"

partial_function (option) scan_pos_rewards ::
  "'i rocks \<Rightarrow> 'r rlp_view \<Rightarrow> h256 set \<Rightarrow> 'i \<Rightarrow> (h256 \<Rightarrow> pos_reward_entry option) \<Rightarrow>
   (h256 \<Rightarrow> pos_reward_entry option) pack_result option" where
  "scan_pos_rewards pow V pivots it out =
     (case with_message ''iter col7'' (rk_valid pow it) of
        Inl e \<Rightarrow> Some (Inl e)
      | Inr valid \<Rightarrow>
          if valid then
            (case reward_turn V pivots (rk_value pow it) out of
               Inl e \<Rightarrow> Some (Inl e)
             | Inr out \<Rightarrow>
                 (case with_message ''iter col7 next'' (rk_next pow it) of
                    Inl e \<Rightarrow> Some (Inl e)
                  | Inr it \<Rightarrow> scan_pos_rewards pow V pivots it out))
          else Some (Inr out))"

definition read_pos_rewards ::
  "'i rocks \<Rightarrow> 'r rlp_view \<Rightarrow> h256 set \<Rightarrow> (h256 \<Rightarrow> pos_reward_entry option) pack_result option" where
  "read_pos_rewards pow V pivots =
     (if pivots = {} then Some (Inr Map.empty)
      else if \<not> rk_cf_handle pow COL_REWARD_BY_POS_EPOCH then Some (Inl (Bail ''missing CF col7''))
      else case with_message ''seek col7'' (rk_seek_start pow (rk_iter pow COL_REWARD_BY_POS_EPOCH)) of
             Inl e \<Rightarrow> Some (Inl e)
           | Inr it \<Rightarrow> scan_pos_rewards pow V pivots it Map.empty)"

subsection \<open>The PoS database\<close>

definition get_committed_block :: "('h, 'c, 't) node_lib \<Rightarrow> 'i rocks \<Rightarrow> h256 \<Rightarrow> 'c pack_result" where
  "get_committed_block N pos h =
     rbind (ensure (rk_cf_handle pos ''committed_block'') (Bail ''missing committed_block CF'')) (\<lambda>_.
     rbind (with_message ''read committed_block'' (rk_get_cf pos ''committed_block'' (as_bytes h))) (\<lambda>found.
     rbind (ok_or found (Bail ''missing committed_block'')) (\<lambda>bs.
       with_message ''decode committed_block'' (nl_decode_committed_block N bs))))"

definition UNLOCK_EVENT_KEY :: bytes where
  "UNLOCK_EVENT_KEY = (replicate 40 0)[0 := 5, 39 := 0xDC, 38 := 0x01]"

function bcs_read_from :: "bytes \<Rightarrow> nat \<Rightarrow> u64 \<Rightarrow> nat \<Rightarrow> (u64 \<times> nat) option" where
  "bcs_read_from data pos result shift =
     (if length data \<le> pos then None
      else
        let byte = data ! pos;
            pos = pos + 1;
            result = result OR push_bit shift (ucast (byte AND 0x7F))
        in if byte AND 0x80 = 0 then Some (result, pos)
           else
             let shift = shift + 7
             in if 64 \<le> shift then None else bcs_read_from data pos result shift)"
  by auto
termination
  by (relation "measure (\<lambda>(data, pos, result, shift). length data - pos)") auto

declare bcs_read_from.simps [simp del]

definition bcs_read_uleb128 :: "bytes \<Rightarrow> nat \<Rightarrow> (u64 \<times> nat) option" where
  "bcs_read_uleb128 data pos = bcs_read_from data pos 0 0"

definition try_decode_unlock_event :: "bytes \<Rightarrow> unlock_entry option pack_result" where
  "try_decode_unlock_event v =
     (if length v < 43 \<or> v ! 0 \<noteq> 0 \<or> v ! 1 \<noteq> 40 then Inr None
      else if subslice v 2 42 \<noteq> UNLOCK_EVENT_KEY then Inr None
      else case bcs_read_uleb128 v 42 of
             None \<Rightarrow> Inr None
           | Some (data_len, pos) \<Rightarrow>
               let e = usize_add pos (unat data_len)
               in if length v < e then Inr None
                  else rbind (slice_of v pos e) (\<lambda>event_data.
                         if length event_data < 40 then Inr None
                         else Inr (Some \<lparr>ue_identifier = H256 (subslice event_data 0 32),
                                         ue_unlocked = from_le_bytes (subslice event_data 32 40)\<rparr>)))"

definition u64_of_be :: "bytes \<Rightarrow> u64" where
  "u64_of_be bs = from_le_bytes (rev bs)"

definition u64_to_be :: "u64 \<Rightarrow> bytes" where
  "u64_to_be v = rev (to_le_bytes 8 v)"

partial_function (option) scan_unlock_events ::
  "'i rocks \<Rightarrow> u64 \<Rightarrow> 'i \<Rightarrow> unlock_entry list \<Rightarrow> unlock_entry list pack_result option" where
  "scan_unlock_events pos end_version it out =
     (case with_message ''iter event CF'' (rk_valid pos it) of
        Inl e \<Rightarrow> Some (Inl e)
      | Inr valid \<Rightarrow>
          if valid then
            (let key = rk_key pos it
             in if length key < 8 then Some (Inr out)
                else
                  let version = u64_of_be (take 8 key)
                  in if end_version \<le> version then Some (Inr out)
                     else (case try_decode_unlock_event (rk_value pos it) of
                             Inl e \<Rightarrow> Some (Inl e)
                           | Inr entry \<Rightarrow>
                               (case with_message ''iter event CF next'' (rk_next pos it) of
                                  Inl e \<Rightarrow> Some (Inl e)
                                | Inr it \<Rightarrow> scan_unlock_events pos end_version it
                                    (case entry of Some u \<Rightarrow> out @ [u] | None \<Rightarrow> out))))
          else Some (Inr out))"

definition read_unlock_events :: "'i rocks \<Rightarrow> u64 \<Rightarrow> u64 \<Rightarrow> unlock_entry list pack_result option" where
  "read_unlock_events pos start_version end_version =
     (if end_version \<le> start_version then Some (Inr [])
      else if \<not> rk_cf_handle pos ''event'' then Some (Inl (Bail ''missing event CF''))
      else case with_message ''seek event CF'' (rk_seek_key pos (u64_to_be start_version) (rk_iter pos ''event'')) of
             Inl e \<Rightarrow> Some (Inl e)
           | Inr it \<Rightarrow> scan_unlock_events pos end_version it [])"

end
