(* ===== verification/Extract_Core.thy ===== *)
theory Extract_Core
  imports Extract_Tables Extract_Db Packet_Verify
begin

text \<open>
  \<open>crates/replay-data-extractor/src/extract/mod.rs\<close>: a group of epochs of the node's databases
  becomes a packet, and the packet its bytes.

  The phases follow the source: \<open>load_epochs\<close>, \<open>read_prev_boundary\<close>, \<open>collect_blocks\<close>,
  \<open>build_tables\<close>, \<open>build_block_inputs\<close>, PoS rewards and unlock events. The result is an option
  because the scans of \<open>Extract_Db\<close> may not end. The content of the cell
  \<open>CIP112_TRANSITION_HEIGHT\<close> is the argument \<open>cell\<close>; timings are left out.
\<close>

fun fold_result :: "('a \<Rightarrow> 's \<Rightarrow> 'e + 's) \<Rightarrow> 'a list \<Rightarrow> 's \<Rightarrow> 'e + 's" where
  "fold_result f [] s = Inr s"
| "fold_result f (x # xs) s = rbind (f x s) (fold_result f xs)"

definition last_of :: "'a list \<Rightarrow> 'a option" where
  "last_of xs = (if xs = [] then None else Some (last xs))"

record ('i, 'j) databases =
  db_pow :: "'i rocks"
  db_pos :: "'j rocks"

text \<open>\<open>PathBuf::new\<close>.\<close>

definition path_new :: path where
  "path_new = \<lparr>parent = [], file_name = None\<rparr>"

record extract_report =
  er_start_epoch :: u64
  er_epoch_count :: u64
  er_block_count :: nat
  er_transaction_count :: nat
  er_packet_bytes :: nat
  er_output :: path

subsection \<open>Epochs and the boundary before them\<close>

definition load_epochs :: "'i rocks \<Rightarrow> 'r rlp_view \<Rightarrow> extract_config \<Rightarrow> epoch_blocks list pack_result" where
  "load_epochs pow V config =
     traverse (load_epoch pow V)
       (map of_nat [unat (ec_start_epoch config) ..< unat (ec_start_epoch config + ec_epoch_count config)])"

record prev_boundary =
  pb_prev_last_hash :: h256
  pb_prev_last_deferred_state_root :: h256
  pb_first_block_number :: u64

definition read_prev_boundary ::
  "('h, 'c, 't) node_lib \<Rightarrow> u64 option \<Rightarrow> 'i rocks \<Rightarrow> 'r rlp_view \<Rightarrow> extract_config \<Rightarrow> epoch_blocks list \<Rightarrow>
   prev_boundary pack_result" where
  "read_prev_boundary N cell pow V config epochs =
     (let prev_epoch = saturating_sub (ec_start_epoch config) 1
      in rbind (read_epoch_hashes pow V prev_epoch EPOCH_EXECUTED_BLOCK_SET_SUFFIX) (\<lambda>found.
         rbind (ok_or found (Bail (''missing previous epoch '' @ dec_digits (unat prev_epoch) @ '' executed block set''))) (\<lambda>prev_hashes.
         rbind (ok_or (last_of prev_hashes) (Bail (''previous epoch '' @ dec_digits (unat prev_epoch) @ '' has no pivot block''))) (\<lambda>prev_last_hash.
         rbind (read_header N cell pow prev_last_hash) (\<lambda>prev_last_header.
         rbind (ok_or (case epochs of [] \<Rightarrow> None | e # _ \<Rightarrow> last_of (ep_executed e)) (Bail ''first epoch has no pivot block'')) (\<lambda>first_pivot.
         rbind (with_message ''read first epoch context'' (read_epoch_context pow V first_pivot)) (\<lambda>ctx.
           Inr \<lparr>pb_prev_last_hash = prev_last_hash,
                pb_prev_last_deferred_state_root = hd_deferred_state_root N prev_last_header,
                pb_first_block_number = ex_start_block_number ctx\<rparr>)))))))"

subsection \<open>Reading the blocks\<close>

record ('h, 'c, 't) collected_blocks =
  co_block_inputs :: "('h, 't) raw_block list"
  co_min_timestamp :: u64
  co_min_height :: u64
  co_min_pos_height :: u64
  co_pos_blocks :: "h256 \<Rightarrow> 'c option"

definition block_flags ::
  "('h, 'c, 't) node_lib \<Rightarrow> extract_config \<Rightarrow> 'h \<Rightarrow> block_reward_result \<Rightarrow> bool \<Rightarrow> h256 set \<Rightarrow> h256 \<Rightarrow> u8 pack_result" where
  "block_flags N config header reward pivot skipped h =
     (let flags = 0;
          flags = (if hd_adaptive N header then flags OR FLAG_ADAPTIVE else flags);
          flags = (if pivot then flags OR FLAG_PIVOT else flags);
          ratio = cp_evm_transaction_block_ratio (ec_chain config)
      in rbind (ensure (\<not> pivot \<or> ratio \<noteq> 0) (Pack_Panic ''remainder with a divisor of zero'')) (\<lambda>_.
           let flags = (if pivot \<and> hd_height N header mod ratio = 0 then flags OR FLAG_ESPACE else flags);
               flags = (if h \<in> skipped then flags OR FLAG_SKIPPED_EXECUTION else flags);
               flags = (if br_total_reward reward = 0 then flags OR FLAG_ZERO_TOTAL_REWARD else flags)
           in Inr flags))"

definition note_pos_reference ::
  "('h, 'c, 't) node_lib \<Rightarrow> 'j rocks \<Rightarrow> u64 \<Rightarrow> 'h \<Rightarrow> ('h, 'c, 't) collected_blocks \<Rightarrow> ('h, 'c, 't) collected_blocks pack_result" where
  "note_pos_reference N pos pe header st =
     (case effective_pos_reference N header pe of
        None \<Rightarrow> Inr st
      | Some pos_ref \<Rightarrow>
          rbind (get_committed_block N pos pos_ref) (\<lambda>committed.
            Inr (st\<lparr>co_min_pos_height := min (co_min_pos_height st) (cb_view N committed),
                    co_pos_blocks := (co_pos_blocks st)(pos_ref \<mapsto> committed)\<rparr>)))"

definition collect_block ::
  "('h, 'c, 't) node_lib \<Rightarrow> u64 option \<Rightarrow> 'r rlp_view \<Rightarrow> extract_config \<Rightarrow> ('i, 'j) databases \<Rightarrow>
   u64 \<Rightarrow> h256 set \<Rightarrow> h256 \<Rightarrow> h256 \<Rightarrow> ('h, 'c, 't) collected_blocks \<Rightarrow> ('h, 'c, 't) collected_blocks pack_result" where
  "collect_block N cell V config dbs number skipped pivot_hash h st =
     rbind (read_header N cell (db_pow dbs) h) (\<lambda>header.
     rbind (read_body N (db_pow dbs) h) (\<lambda>body.
     rbind (read_reward (db_pow dbs) V h) (\<lambda>found.
       let reward = (case found of None \<Rightarrow> block_reward_default | Some r \<Rightarrow> r);
           st = st\<lparr>co_min_timestamp := min (co_min_timestamp st) (hd_timestamp N header),
                   co_min_height := min (co_min_height st) (hd_height N header)\<rparr>
       in rbind (note_pos_reference N (db_pos dbs) (cp_pos_reference_enable_height (ec_chain config)) header st) (\<lambda>st.
          rbind (block_flags N config header reward (h = pivot_hash) skipped h) (\<lambda>flags.
            Inr (st\<lparr>co_block_inputs := co_block_inputs st @
                      [\<lparr>rb_epoch = number, rb_hash = h, rb_header = header, rb_body = body,
                        rb_reward = reward, rb_flags = flags\<rparr>]\<rparr>))))))"

definition collect_epoch ::
  "('h, 'c, 't) node_lib \<Rightarrow> u64 option \<Rightarrow> 'r rlp_view \<Rightarrow> extract_config \<Rightarrow> ('i, 'j) databases \<Rightarrow>
   epoch_blocks \<Rightarrow> ('h, 'c, 't) collected_blocks \<Rightarrow> ('h, 'c, 't) collected_blocks pack_result" where
  "collect_epoch N cell V config dbs epoch st =
     (let skipped = set (ep_skipped epoch)
      in rbind (ok_or (last_of (ep_executed epoch)) (Bail (''epoch '' @ dec_digits (unat (ep_number epoch)) @ '' has no pivot block''))) (\<lambda>pivot_hash.
           let ordered = butlast (ep_executed epoch) @ ep_skipped epoch @ [pivot_hash]
           in fold_result (collect_block N cell V config dbs (ep_number epoch) skipped pivot_hash) ordered st))"

definition collect_blocks ::
  "('h, 'c, 't) node_lib \<Rightarrow> u64 option \<Rightarrow> 'r rlp_view \<Rightarrow> extract_config \<Rightarrow> ('i, 'j) databases \<Rightarrow>
   epoch_blocks list \<Rightarrow> ('h, 'c, 't) collected_blocks pack_result" where
  "collect_blocks N cell V config dbs epochs =
     rbind (fold_result (collect_epoch N cell V config dbs) epochs
              \<lparr>co_block_inputs = [], co_min_timestamp = - 1, co_min_height = - 1, co_min_pos_height = - 1,
               co_pos_blocks = Map.empty\<rparr>) (\<lambda>st.
       Inr (if co_min_pos_height st = - 1 then st\<lparr>co_min_pos_height := 0\<rparr> else st))"

subsection \<open>Lowering the blocks\<close>

definition finalized_epoch_offset ::
  "('h, 'c, 't) node_lib \<Rightarrow> u64 option \<Rightarrow> 'i rocks \<Rightarrow> (h256 \<Rightarrow> 'c option) \<Rightarrow> ('h, 't) raw_block \<Rightarrow> u64 \<Rightarrow> u64 pack_result" where
  "finalized_epoch_offset N cell pow pos_blocks b pe =
     (case effective_pos_reference N (rb_header b) pe of
        None \<Rightarrow> Inr 0
      | Some pos_ref \<Rightarrow>
          rbind (ok_or (pos_blocks pos_ref) (Bail ''missing committed block for finalized_epoch'')) (\<lambda>committed.
          rbind (read_header N cell pow (cb_pivot_block_hash N committed)) (\<lambda>pivot_header.
            Inr (saturating_sub (rb_epoch b) (hd_height N pivot_header)))))"

definition lower_block ::
  "('h, 'c, 't) node_lib \<Rightarrow> (h256 \<Rightarrow> 'c option) \<Rightarrow> u64 \<Rightarrow> nat \<Rightarrow> ('h, 't) raw_block \<Rightarrow> u64 \<Rightarrow> 't block" where
  "lower_block N pos_blocks pe index raw finalized_epoch =
     (let header = rb_header raw; base_prices = hd_base_price N header
      in \<lparr>b_epoch = rb_epoch raw, b_index = index, b_hash = rb_hash raw,
          b_deferred_state_root = hd_deferred_state_root N header,
          b_deferred_receipts_root = hd_deferred_receipts_root N header,
          b_deferred_logs_bloom_hash = hd_deferred_logs_bloom_hash N header,
          b_flags = rb_flags raw, b_author = hd_author N header, b_timestamp = hd_timestamp N header,
          b_difficulty = hd_difficulty N header, b_gas_limit = hd_gas_limit N header,
          b_base_price_core = (case base_prices of Some (core, _) \<Rightarrow> core | None \<Rightarrow> 0),
          b_base_price_espace = (case base_prices of Some (_, espace) \<Rightarrow> espace | None \<Rightarrow> 0),
          b_height = hd_height N header, b_blame = ucast (hd_blame N header),
          b_finalized_epoch = finalized_epoch, b_base_reward = br_base_reward (rb_reward raw),
          b_transactions = rb_body raw, b_transaction_refs = [], b_pos_rewards = [], b_unlock_events = [],
          b_pos_view = Option.bind (effective_pos_reference N header pe)
            (\<lambda>pr. map_option (cb_view N) (pos_blocks pr))\<rparr>)"

definition build_block_inputs ::
  "('h, 'c, 't) node_lib \<Rightarrow> u64 option \<Rightarrow> extract_config \<Rightarrow> 'i rocks \<Rightarrow> (h256 \<Rightarrow> 'c option) \<Rightarrow> ('h, 't) raw_block list \<Rightarrow>
   't block list pack_result" where
  "build_block_inputs N cell config pow pos_blocks block_inputs =
     (let pe = cp_pos_reference_enable_height (ec_chain config)
      in traverse (\<lambda>(index, raw).
           rbind (finalized_epoch_offset N cell pow pos_blocks raw pe) (\<lambda>finalized_epoch.
             Inr (lower_block N pos_blocks pe index raw finalized_epoch)))
           (enumerate 0 block_inputs))"

subsection \<open>Unlock events\<close>

record unlock_state =
  us_last_pos_ref :: "h256 option"
  us_last_version :: "u64 option"
  us_result :: "u64 \<Rightarrow> unlock_entry list option"

text \<open>The scan of one epoch, and what of it is inserted into the map.\<close>

definition epoch_unlocks ::
  "('h, 'c, 't) node_lib \<Rightarrow> 'j rocks \<Rightarrow> (h256 \<Rightarrow> 'c option) \<Rightarrow> u64 \<Rightarrow> h256 option \<Rightarrow> unlock_state \<Rightarrow>
   (u64 \<Rightarrow> unlock_entry list option) pack_result option" where
  "epoch_unlocks N pos pos_blocks number current_pos_ref st =
     (case (us_last_version st, current_pos_ref) of
        (Some prev_ver, Some cur) \<Rightarrow>
          if us_last_pos_ref st \<noteq> Some cur then
            (case pos_blocks cur of
               Some curr_cb \<Rightarrow>
                 (case read_unlock_events pos prev_ver (cb_version N curr_cb) of
                    None \<Rightarrow> None
                  | Some (Inl e) \<Rightarrow> Some (Inl e)
                  | Some (Inr unlocks) \<Rightarrow>
                      Some (Inr (if unlocks \<noteq> [] then (us_result st)(number \<mapsto> unlocks) else us_result st)))
             | None \<Rightarrow> Some (Inr (us_result st)))
          else Some (Inr (us_result st))
      | _ \<Rightarrow> Some (Inr (us_result st)))"

fun unlocks_from ::
  "('h, 'c, 't) node_lib \<Rightarrow> u64 option \<Rightarrow> ('i, 'j) databases \<Rightarrow> (h256 \<Rightarrow> 'c option) \<Rightarrow> u64 \<Rightarrow> epoch_blocks list \<Rightarrow>
   unlock_state \<Rightarrow> (u64 \<Rightarrow> unlock_entry list option) pack_result option" where
  "unlocks_from N cell dbs pos_blocks pos_enable [] st = Some (Inr (us_result st))"
| "unlocks_from N cell dbs pos_blocks pos_enable (epoch # epochs) st =
     (case rbind (ok_or (last_of (ep_executed epoch)) (Bail (''epoch '' @ dec_digits (unat (ep_number epoch)) @ '' has no pivot'')))
             (read_header N cell (db_pow dbs)) of
        Inl e \<Rightarrow> Some (Inl e)
      | Inr header \<Rightarrow>
          let current_pos_ref = effective_pos_reference N header pos_enable
          in (case epoch_unlocks N (db_pos dbs) pos_blocks (ep_number epoch) current_pos_ref st of
                None \<Rightarrow> None
              | Some (Inl e) \<Rightarrow> Some (Inl e)
              | Some (Inr result) \<Rightarrow>
                  unlocks_from N cell dbs pos_blocks pos_enable epochs
                    \<lparr>us_last_pos_ref = current_pos_ref,
                     us_last_version = (case current_pos_ref of
                        Some cur \<Rightarrow> map_option (cb_version N) (pos_blocks cur)
                      | None \<Rightarrow> us_last_version st),
                     us_result = result\<rparr>))"

definition unlock_start ::
  "('h, 'c, 't) node_lib \<Rightarrow> u64 option \<Rightarrow> 'r rlp_view \<Rightarrow> extract_config \<Rightarrow> ('i, 'j) databases \<Rightarrow> unlock_state pack_result" where
  "unlock_start N cell V config dbs =
     (let prev_epoch = saturating_sub (ec_start_epoch config) 1
      in rbind (read_epoch_hashes (db_pow dbs) V prev_epoch EPOCH_EXECUTED_BLOCK_SET_SUFFIX) (\<lambda>found.
         rbind (ok_or found (Bail (''missing previous epoch '' @ dec_digits (unat prev_epoch) @ '' for unlock events''))) (\<lambda>prev_hashes.
         rbind (ok_or (last_of prev_hashes) (Bail (''previous epoch '' @ dec_digits (unat prev_epoch) @ '' has no pivot''))) (\<lambda>prev_pivot.
         rbind (read_header N cell (db_pow dbs) prev_pivot) (\<lambda>prev_header.
           let last_pos_ref = effective_pos_reference N prev_header (cp_pos_reference_enable_height (ec_chain config))
           in rbind (case last_pos_ref of
                       None \<Rightarrow> Inr None
                     | Some h \<Rightarrow> rbind (get_committed_block N (db_pos dbs) h) (\<lambda>cb. Inr (Some (cb_version N cb)))) (\<lambda>last_version.
                Inr \<lparr>us_last_pos_ref = last_pos_ref, us_last_version = last_version, us_result = Map.empty\<rparr>))))))"

definition collect_unlock_events ::
  "('h, 'c, 't) node_lib \<Rightarrow> u64 option \<Rightarrow> 'r rlp_view \<Rightarrow> extract_config \<Rightarrow> ('i, 'j) databases \<Rightarrow> (h256 \<Rightarrow> 'c option) \<Rightarrow>
   epoch_blocks list \<Rightarrow> (u64 \<Rightarrow> unlock_entry list option) pack_result option" where
  "collect_unlock_events N cell V config dbs pos_blocks epochs =
     (case unlock_start N cell V config dbs of
        Inl e \<Rightarrow> Some (Inl e)
      | Inr st \<Rightarrow> unlocks_from N cell dbs pos_blocks (cp_pos_reference_enable_height (ec_chain config)) epochs st)"

subsection \<open>The packet\<close>

text \<open>
  A block gets the rewards of its hash, a pivot the unlock events of its epoch. Where a map is empty
  the source skips the loop, which would change nothing.
\<close>

definition attach_rewards :: "(h256 \<Rightarrow> pos_reward_entry option) \<Rightarrow> 't block \<Rightarrow> 't block" where
  "attach_rewards pos_rewards b =
     (case pos_rewards (b_hash b) of
        Some entry \<Rightarrow> b\<lparr>b_pos_rewards := b_pos_rewards b @ [entry]\<rparr>
      | None \<Rightarrow> b)"

definition attach_unlocks :: "(u64 \<Rightarrow> unlock_entry list option) \<Rightarrow> 't block \<Rightarrow> 't block" where
  "attach_unlocks unlock_map b =
     (if b_flags b AND FLAG_PIVOT \<noteq> 0 then
        (case unlock_map (b_epoch b) of Some unlocks \<Rightarrow> b\<lparr>b_unlock_events := unlocks\<rparr> | None \<Rightarrow> b)
      else b)"

text \<open>The phases up to the blocks without PoS data.\<close>

definition extract_plain ::
  "('h, 'c, 't) node_lib \<Rightarrow> ('t, 'acc, 'auth) tx_lib \<Rightarrow> 'r rlp_view \<Rightarrow> hash_orders \<Rightarrow> u64 option \<Rightarrow> extract_config \<Rightarrow>
   ('i, 'j) databases \<Rightarrow>
   (epoch_blocks list \<times> prev_boundary \<times> ('h, 'c, 't) collected_blocks \<times> tables \<times> 't block list) pack_result" where
  "extract_plain N T V orders cell config dbs =
     rbind (load_epochs (db_pow dbs) V config) (\<lambda>epochs.
     rbind (read_prev_boundary N cell (db_pow dbs) V config epochs) (\<lambda>boundary.
     rbind (collect_blocks N cell V config dbs epochs) (\<lambda>collected.
     rbind (build_tables N T orders (co_block_inputs collected) (co_pos_blocks collected)
              (co_min_pos_height collected) (cp_pos_reference_enable_height (ec_chain config))) (\<lambda>tables.
     rbind (build_block_inputs N cell config (db_pow dbs) (co_pos_blocks collected) (co_block_inputs collected)) (\<lambda>blocks.
       Inr (epochs, boundary, collected, tables, blocks))))))"

definition assemble_extracted ::
  "prev_boundary \<Rightarrow> ('h, 'c, 't) collected_blocks \<Rightarrow> tables \<Rightarrow> 't block list \<Rightarrow> 't packet" where
  "assemble_extracted boundary collected tables blocks =
     \<lparr>p_prev_last_hash = pb_prev_last_hash boundary,
      p_prev_last_deferred_state_root = pb_prev_last_deferred_state_root boundary,
      p_first_block_number = pb_first_block_number boundary,
      p_min_timestamp = co_min_timestamp collected, p_min_height = co_min_height collected,
      p_min_pos_height = co_min_pos_height collected,
      p_addresses = tb_addresses tables, p_pos_entries = tb_pos_entries tables,
      p_difficulties = tb_difficulties tables, p_sender_base_nonces = tb_sender_base_nonces tables,
      p_gas_prices = tb_gas_prices tables, p_blocks = blocks\<rparr>"

definition extract_raw ::
  "('h, 'c, 't) node_lib \<Rightarrow> ('t, 'acc, 'auth) tx_lib \<Rightarrow> 'r rlp_view \<Rightarrow> hash_orders \<Rightarrow> u64 option \<Rightarrow> extract_config \<Rightarrow>
   ('i, 'j) databases \<Rightarrow> 't packet pack_result option" where
  "extract_raw N T V orders cell config dbs =
     (if \<not> 0 < ec_epoch_count config then Some (Inl (Bail ''epoch_count must be positive''))
      else
        let cell = once_set cell (cp_cip112_transition_height (ec_chain config))
        in case extract_plain N T V orders cell config dbs of
             Inl e \<Rightarrow> Some (Inl e)
           | Inr (epochs, boundary, collected, tables, blocks) \<Rightarrow>
               let pivots = set (map b_hash (filter (\<lambda>b. b_flags b AND FLAG_PIVOT \<noteq> 0) blocks))
               in (case read_pos_rewards (db_pow dbs) V pivots of
                     None \<Rightarrow> None
                   | Some (Inl e) \<Rightarrow> Some (Inl e)
                   | Some (Inr pos_rewards) \<Rightarrow>
                       let blocks = map (attach_rewards pos_rewards) blocks
                       in (case collect_unlock_events N cell V config dbs (co_pos_blocks collected) epochs of
                             None \<Rightarrow> None
                           | Some (Inl e) \<Rightarrow> Some (Inl e)
                           | Some (Inr unlock_map) \<Rightarrow>
                               Some (Inr (assemble_extracted boundary collected tables
                                            (map (attach_unlocks unlock_map) blocks))))))"

subsection \<open>The entry points\<close>

definition encoded ::
  "('h, 'c, 't) node_lib \<Rightarrow> ('t, 'acc, 'auth) tx_lib \<Rightarrow> ('w, 'acc, 'auth) rlp_lib \<Rightarrow> snap_lib \<Rightarrow> 'r rlp_view \<Rightarrow> hash_orders \<Rightarrow>
   u64 option \<Rightarrow> ('i, 'j) databases \<Rightarrow> extract_config \<Rightarrow> (bytes \<times> extract_report) pack_result option" where
  "encoded N T R S V orders cell dbs config =
     (case extract_raw N T V orders cell config dbs of
        None \<Rightarrow> None
      | Some (Inl e) \<Rightarrow> Some (Inl e)
      | Some (Inr raw) \<Rightarrow>
          Some (rbind (encode_packet T R S raw) (\<lambda>packet.
                rbind (verify_packet R S packet) (\<lambda>verify.
                  Inr (packet, \<lparr>er_start_epoch = ec_start_epoch config, er_epoch_count = ec_epoch_count config,
                    er_block_count = unat (vr_block_count verify),
                    er_transaction_count = unat (vr_transaction_items verify),
                    er_packet_bytes = length packet, er_output = path_new\<rparr>)))))"

text \<open>Writing the file; the file system is a map from paths to contents.\<close>

definition to_file ::
  "('h, 'c, 't) node_lib \<Rightarrow> ('t, 'acc, 'auth) tx_lib \<Rightarrow> ('w, 'acc, 'auth) rlp_lib \<Rightarrow> snap_lib \<Rightarrow> 'r rlp_view \<Rightarrow> hash_orders \<Rightarrow>
   u64 option \<Rightarrow> ('i, 'j) databases \<Rightarrow> extract_config \<Rightarrow> path \<Rightarrow> (path \<Rightarrow> bytes option) \<Rightarrow>
   (extract_report \<times> (path \<Rightarrow> bytes option)) pack_result option" where
  "to_file N T R S V orders cell dbs config output files =
     map_option (\<lambda>r. rbind r (\<lambda>(packet, report). Inr (report\<lparr>er_output := output\<rparr>, files(output \<mapsto> packet))))
       (encoded N T R S V orders cell dbs config)"

subsection \<open>Entry points\<close>

text \<open>Opening the databases of a configuration is a parameter.\<close>

definition extract_to_file ::
  "('h, 'c, 't) node_lib \<Rightarrow> ('t, 'acc, 'auth) tx_lib \<Rightarrow> ('w, 'acc, 'auth) rlp_lib \<Rightarrow> snap_lib \<Rightarrow> 'r rlp_view \<Rightarrow> hash_orders \<Rightarrow>
   (extract_config \<Rightarrow> ('i, 'j) databases pack_result) \<Rightarrow> u64 option \<Rightarrow> extract_config \<Rightarrow> path \<Rightarrow> (path \<Rightarrow> bytes option) \<Rightarrow>
   (extract_report \<times> (path \<Rightarrow> bytes option)) pack_result option" where
  "extract_to_file N T R S V orders open_dbs cell config output files =
     (case open_dbs config of
        Inl e \<Rightarrow> Some (Inl e)
      | Inr dbs \<Rightarrow> to_file N T R S V orders cell dbs config output files)"

definition extract_packet ::
  "('h, 'c, 't) node_lib \<Rightarrow> ('t, 'acc, 'auth) tx_lib \<Rightarrow> ('w, 'acc, 'auth) rlp_lib \<Rightarrow> snap_lib \<Rightarrow> 'r rlp_view \<Rightarrow> hash_orders \<Rightarrow>
   (extract_config \<Rightarrow> ('i, 'j) databases pack_result) \<Rightarrow> u64 option \<Rightarrow> extract_config \<Rightarrow> bytes pack_result option" where
  "extract_packet N T R S V orders open_dbs cell config =
     (case open_dbs config of
        Inl e \<Rightarrow> Some (Inl e)
      | Inr dbs \<Rightarrow> map_option (\<lambda>r. rbind r (\<lambda>(packet, report). Inr packet)) (encoded N T R S V orders cell dbs config))"

definition extract_raw_data ::
  "('h, 'c, 't) node_lib \<Rightarrow> ('t, 'acc, 'auth) tx_lib \<Rightarrow> 'r rlp_view \<Rightarrow> hash_orders \<Rightarrow>
   (extract_config \<Rightarrow> ('i, 'j) databases pack_result) \<Rightarrow> u64 option \<Rightarrow> extract_config \<Rightarrow> 't packet pack_result option" where
  "extract_raw_data N T V orders open_dbs cell config =
     (case open_dbs config of
        Inl e \<Rightarrow> Some (Inl e)
      | Inr dbs \<Rightarrow> extract_raw N T V orders cell config dbs)"

end
