(* ===== verification/Extract_Tables_Correct.thy ===== *)
theory Extract_Tables_Correct
  imports Extract_Tables Packet_Total
begin

text \<open>
  The tables do not depend on the order in which the hash maps are iterated: the frequency table
  is the list of the values in the order they are first seen, sorted by descending count. They hold
  every address and difficulty the blocks refer to, and a base nonce is below the nonces it is
  subtracted from.
\<close>

subsection \<open>Values in the order they are first seen\<close>

definition first_seen :: "'a list \<Rightarrow> 'a list" where
  "first_seen xs = rev (remdups (rev xs))"

lemma first_seen_simps [simp]:
  "first_seen [] = []"
  "first_seen (xs @ [x]) = (if x \<in> set xs then first_seen xs else first_seen xs @ [x])"
  "set (first_seen xs) = set xs"
  "distinct (first_seen xs)"
  by (simp_all add: first_seen_def)

definition pos_in :: "'a list \<Rightarrow> 'a \<Rightarrow> nat" where
  "pos_in xs x = length (takeWhile (\<lambda>y. y \<noteq> x) xs)"

lemma pos_in_append: "pos_in (xs @ ys) x = (if x \<in> set xs then pos_in xs x else length xs + pos_in ys x)"
proof (cases "x \<in> set xs")
  case True
  then show ?thesis unfolding pos_in_def by (subst takeWhile_append1 [of x]) auto
next
  case False
  then show ?thesis unfolding pos_in_def by (subst takeWhile_append2) auto
qed

lemma pos_in_Cons: "pos_in (y # ys) x = (if y = x then 0 else Suc (pos_in ys x))"
  by (simp add: pos_in_def)

lemma pos_in_self [simp]: "pos_in [x] x = 0"
  by (simp add: pos_in_def)

lemma sorted_pos_in: "distinct xs \<Longrightarrow> sorted_wrt (\<lambda>x y. pos_in xs x < pos_in xs y) xs"
proof (induction xs)
  case (Cons x xs)
  then have "sorted_wrt (\<lambda>y z. pos_in (x # xs) y < pos_in (x # xs) z) xs"
    using Cons.prems by (intro sorted_wrt_mono_rel [OF _ Cons.IH]) (auto simp: pos_in_Cons)
  with Cons.prems show ?case by (auto simp: pos_in_Cons)
qed simp

lemma inj_on_pos_in: "distinct xs \<Longrightarrow> inj_on (pos_in xs) (set xs)"
  using sorted_pos_in [of xs] by (simp add: sorted_wrt_map [symmetric] strict_sorted_iff distinct_map)

lemma update_map_key:
  "x \<in> set ys \<Longrightarrow> distinct ys \<Longrightarrow>
     AList.update x v (map (\<lambda>y. (y, g y)) ys) = map (\<lambda>y. (y, if y = x then v else g y)) ys"
  by (induction ys) (auto intro!: map_cong)

lemma update_map_new:
  "x \<notin> set ys \<Longrightarrow> AList.update x v (map (\<lambda>y. (y, g y)) ys) = map (\<lambda>y. (y, g y)) ys @ [(x, v)]"
  by (induction ys) auto

lemma map_of_map_key: "map_of (map (\<lambda>y. (y, g y)) ys) x = (if x \<in> set ys then Some (g x) else None)"
  by (induction ys) auto

subsection \<open>Frequencies\<close>

lemma frequency_state:
  "fold frequency_add xs frequency_default =
     \<lparr>fq_counts = map (\<lambda>y. (y, count_list xs y, pos_in (first_seen xs) y)) (first_seen xs),
      fq_next_order = length (first_seen xs)\<rparr>"
proof (induction xs rule: rev_induct)
  case (snoc x xs)
  show ?case
  proof (cases "x \<in> set xs")
    case True
    then show ?thesis using snoc
      by (auto simp: frequency_add_def Let_def map_of_map_key update_map_key intro!: map_cong)
  next
    case False
    moreover from this have "count_list xs x = 0" by (simp add: count_list_0_iff)
    ultimately show ?thesis using snoc
      by (auto simp: frequency_add_def Let_def map_of_map_key update_map_new pos_in_append intro!: map_cong)
  qed
qed (simp add: frequency_default_def)

text \<open>Distinct keys leave a sort no choice.\<close>

lemma sort_key_same_mset:
  assumes "mset xs = mset ys" "inj_on f (set xs)"
  shows "sort_key f xs = sort_key f ys"
  using assms by (intro sort_key_inj_key_eq) simp_all

lemma insort_key_map: "insort_key f (g x) (map g ys) = map g (insort_key (f \<circ> g) x ys)"
  by (induction ys) auto

lemma sort_key_map: "sort_key f (map g xs) = map g (sort_key (f \<circ> g) xs)"
  by (induction xs) (simp_all add: insort_key_map comp_def)

definition ranked :: "'a list \<Rightarrow> 'a list" where
  "ranked xs = sort_key (\<lambda>x. - int (count_list xs x)) (first_seen xs)"

lemma sort_key_stable_pair:
  fixes f :: "'a \<Rightarrow> 'b :: linorder"
  assumes "distinct xs"
  shows "sort_key (\<lambda>x. (f x, pos_in xs x)) xs = sort_key f xs"
proof (rule properties_for_sort_key [symmetric])
  let ?g = "\<lambda>x. (f x, pos_in xs x)"
  show "mset (sort_key ?g xs) = mset xs" by simp
  show "sorted (map f (sort_key ?g xs))"
  proof -
    have "sorted_wrt (\<lambda>a b. a \<le> b) (map ?g (sort_key ?g xs))" by (rule sorted_sort_key)
    then have "sorted_wrt (\<lambda>x y. ?g x \<le> ?g y) (sort_key ?g xs)" by (simp only: sorted_wrt_map)
    then have "sorted_wrt (\<lambda>x y. f x \<le> f y) (sort_key ?g xs)"
      by (rule sorted_wrt_mono_rel [rotated]) auto
    then show ?thesis by (simp only: sorted_wrt_map)
  qed
  fix k
  show "filter (\<lambda>y. f k = f y) (sort_key ?g xs) = filter (\<lambda>y. f k = f y) xs"
  proof -
    have "sorted_wrt (\<lambda>x y. pos_in xs x < pos_in xs y) (filter (\<lambda>y. f k = f y) xs)"
      by (rule sorted_wrt_filter [OF sorted_pos_in [OF assms]])
    then have "sorted_wrt (\<lambda>x y. ?g x \<le> ?g y) (filter (\<lambda>y. f k = f y) xs)"
      by (rule sorted_wrt_mono_rel [rotated]) auto
    then have "sorted (map ?g (filter (\<lambda>y. f k = f y) xs))" by (simp only: sorted_wrt_map)
    then show ?thesis by (simp add: filter_sort sorted_sort_id sort_key_id_if_sorted)
  qed
qed

text \<open>
  \<open>into_sorted_with_counts\<close>: by descending count, ties in the order of the first occurrence, whatever
  the order of the iteration.
\<close>

lemma into_sorted_ranked:
  assumes "iteration_order order"
  shows "into_sorted_with_counts order (fold frequency_add xs frequency_default) =
      map (\<lambda>x. (x, count_list xs x)) (ranked xs)"
    and "into_sorted order (fold frequency_add xs frequency_default) = ranked xs"
proof -
  let ?fs = "first_seen xs"
  let ?entry = "\<lambda>x. (x, count_list xs x, pos_in ?fs x)"
  let ?key = "\<lambda>(x :: 'a, c, first :: nat). (- int c, first)"
  have id: "map (\<lambda>(x, c, first). (x, c, first)) es = es" for es :: "('a \<times> nat \<times> nat) list"
    by (induction es) auto
  have mset: "mset (iterate order (map ?entry ?fs)) = mset (map ?entry ?fs)" by (rule mset_iterate [OF assms])
  have pos: "inj_on (pos_in ?fs) (set ?fs)"
    by (rule inj_on_pos_in) simp
  have inj: "inj_on ?key (set (iterate order (map ?entry ?fs)))"
    using pos unfolding set_iterate [OF assms] by (auto simp: inj_on_def)
  have "sort_key ?key (iterate order (map ?entry ?fs)) = sort_key ?key (map ?entry ?fs)"
    by (rule sort_key_same_mset [OF mset inj])
  also have "\<dots> = map ?entry (sort_key (?key \<circ> ?entry) ?fs)"
    by (simp only: sort_key_map)
  also have "?key \<circ> ?entry = (\<lambda>x. (- int (count_list xs x), pos_in ?fs x))" by (rule ext) simp
  also have "sort_key \<dots> ?fs = ranked xs"
    unfolding ranked_def by (rule sort_key_stable_pair) simp
  finally have sorted: "sort_key ?key (iterate order (map ?entry ?fs)) = map ?entry (ranked xs)" .
  show counts: "into_sorted_with_counts order (fold frequency_add xs frequency_default) =
      map (\<lambda>x. (x, count_list xs x)) (ranked xs)"
    by (simp only: into_sorted_with_counts_def frequency_state frequency.select_convs id sorted Let_def) simp
  show "into_sorted order (fold frequency_add xs frequency_default) = ranked xs"
    unfolding into_sorted_def counts by (simp add: comp_def)
qed

subsection \<open>Addresses, difficulties and gas prices\<close>

lemma fold_fold_map: "fold (\<lambda>b s. fold f (g b) s) bs s = fold f (concat (map g bs)) s"
  by (induction bs arbitrary: s) auto

definition tx_addresses :: "('t, 'acc, 'auth) tx_lib \<Rightarrow> 't \<Rightarrow> address list" where
  "tx_addresses T tx = tl_sender T tx # (case tl_action T tx of Call a \<Rightarrow> [a] | Create \<Rightarrow> [])"

definition raw_addresses ::
  "('h, 'c, 't) node_lib \<Rightarrow> ('t, 'acc, 'auth) tx_lib \<Rightarrow> ('h, 't) raw_block \<Rightarrow> address list" where
  "raw_addresses N T b = hd_author N (rb_header b) # concat (map (tx_addresses T) (rb_body b))"

lemma add_tx_addresses_fold: "fold (add_tx_addresses T) txs stats = fold frequency_add (concat (map (tx_addresses T) txs)) stats"
  by (induction txs arbitrary: stats) (auto simp: add_tx_addresses_def tx_addresses_def split: action.splits)

lemma build_address_table_ranked:
  assumes "iteration_order order"
  shows "build_address_table N T order blocks = ranked (concat (map (raw_addresses N T) blocks))"
proof -
  have "fold (\<lambda>b stats. fold (add_tx_addresses T) (rb_body b) (frequency_add (hd_author N (rb_header b)) stats)) blocks s =
      fold frequency_add (concat (map (raw_addresses N T) blocks)) s" for s
    by (induction blocks arbitrary: s) (simp_all add: add_tx_addresses_fold raw_addresses_def)
  then show ?thesis by (simp add: build_address_table_def into_sorted_ranked [OF assms])
qed

lemma ranked_facts [simp]:
  "set (ranked xs) = set xs" "distinct (ranked xs)"
  by (simp_all add: ranked_def)

lemma difficulties_from_eq:
  "seen = set out \<Longrightarrow> distinct out \<Longrightarrow> first_seen xs = out \<Longrightarrow>
     difficulties_from N out seen blocks = first_seen (xs @ map (\<lambda>b. hd_difficulty N (rb_header b)) blocks)"
proof (induction N out seen blocks arbitrary: xs rule: difficulties_from.induct)
  case (2 N out seen b bs)
  let ?d = "hd_difficulty N (rb_header b)"
  have mem: "?d \<in> seen \<longleftrightarrow> ?d \<in> set xs" using 2(3,5) by auto
  show ?case
  proof (cases "?d \<in> seen")
    case True
    then have "first_seen (xs @ [?d]) = out" using 2(5) mem by simp
    from "2.IH"(2) [OF refl _ 2(3,4) this] True show ?thesis by (simp add: Let_def)
  next
    case False
    then have "first_seen (xs @ [?d]) = out @ [?d]" using 2(5) mem by simp
    from "2.IH"(1) [OF refl _ _ _ this] False 2(3,4) show ?thesis by (simp add: Let_def)
  qed
qed simp

lemma build_difficulty_table_eq:
  "build_difficulty_table N blocks = first_seen (map (\<lambda>b. hd_difficulty N (rb_header b)) blocks)"
  using difficulties_from_eq [of "{}" "[]" "[]" N blocks] by (simp add: build_difficulty_table_def)

definition raw_prices ::
  "('h, 'c, 't) node_lib \<Rightarrow> ('t, 'acc, 'auth) tx_lib \<Rightarrow> ('h, 't) raw_block \<Rightarrow> u256 list" where
  "raw_prices N T b =
     (case hd_base_price N (rb_header b) of Some (core, espace) \<Rightarrow> [core, espace] | None \<Rightarrow> []) @
     concat (map (\<lambda>tx. [tl_gas_price T tx, tl_max_priority_gas_price T tx]) (rb_body b))"

lemma add_block_prices_fold:
  "fold (add_block_prices N T) blocks s = fold frequency_add (concat (map (raw_prices N T) blocks)) s"
proof (induction blocks arbitrary: s)
  case (Cons b bs)
  have "fold (\<lambda>tx stats. frequency_add (tl_max_priority_gas_price T tx) (frequency_add (tl_gas_price T tx) stats)) txs s =
      fold frequency_add (concat (map (\<lambda>tx. [tl_gas_price T tx, tl_max_priority_gas_price T tx]) txs)) s" for txs s
    by (induction txs arbitrary: s) simp_all
  then have "add_block_prices N T b s = fold frequency_add (raw_prices N T b) s"
    by (auto simp: add_block_prices_def raw_prices_def Let_def split: option.splits)
  with Cons show ?case by simp
qed simp

lemma build_gas_price_table_ranked:
  assumes "iteration_order order"
  shows "build_gas_price_table N T order blocks =
    (let xs = concat (map (raw_prices N T) blocks) in take 16 (filter (\<lambda>x. 3 < count_list xs x) (ranked xs)))"
  unfolding build_gas_price_table_def add_block_prices_fold into_sorted_ranked(1) [OF assms]
  by (simp add: Let_def filter_map comp_def take_map)

subsection \<open>Base nonces\<close>

definition nonces_of :: "('t, 'acc, 'auth) tx_lib \<Rightarrow> (address \<Rightarrow> nat option) \<Rightarrow> nat \<Rightarrow> 't list \<Rightarrow> u64 list" where
  "nonces_of T address_index i txs =
     map (\<lambda>tx. low_u64 (tl_nonce T tx)) (filter (\<lambda>tx. address_index (tl_sender T tx) = Some i) txs)"

lemma nonce_state:
  "distinct (map fst (fold (add_tx_nonce T ai) txs []))"
  "map_of (fold (add_tx_nonce T ai) txs []) i = (if nonces_of T ai i txs = [] then None else Some (nonces_of T ai i txs))"
proof (induction txs arbitrary: i rule: rev_induct)
  case (snoc tx txs)
  case 1 show ?case using snoc
    by (auto simp: add_tx_nonce_def push_nonce_def distinct_update split: option.split)
  case 2 show ?case using snoc
    by (auto simp: add_tx_nonce_def push_nonce_def nonces_of_def update_conv' split: option.split)
qed (simp_all add: nonces_of_def)

lemma sender_entry_facts:
  "sender_entry (i, []) = None"
  "sender_entry (i, ns) = Some e \<Longrightarrow> sn_sender_index e = i \<and> ns \<noteq> [] \<and> sn_base_nonce e = Min (set ns)"
  by (auto simp: sender_entry_def Let_def split: if_splits)

lemma set_map_filter: "set (List.map_filter f xs) = {y. \<exists>x \<in> set xs. f x = Some y}"
  by (induction xs) (auto simp: map_filter_simps split: option.splits)

lemma distinct_map_filter:
  "distinct (map k xs) \<Longrightarrow> (\<And>x y. x \<in> set xs \<Longrightarrow> f x = Some y \<Longrightarrow> k' y = k x) \<Longrightarrow>
     distinct (map k' (List.map_filter f xs))"
proof (induction xs)
  case (Cons x xs)
  then have IH: "distinct (map k' (List.map_filter f xs))" by simp
  show ?case
  proof (cases "f x")
    case (Some y)
    have "k' y \<noteq> k' z" if z: "z \<in> set (List.map_filter f xs)" for z
    proof -
      obtain x' where "x' \<in> set xs" "f x' = Some z" using z by (auto simp: set_map_filter)
      then have "k' z = k x'" "k' y = k x" "k x \<noteq> k x'" using Cons.prems Some by (auto simp: image_iff)
      then show ?thesis by simp
    qed
    with IH Some show ?thesis by (auto simp: map_filter_simps)
  qed (simp add: map_filter_simps IH)
qed (simp add: map_filter_simps)

lemma sorted_map_filter:
  "sorted (map k xs) \<Longrightarrow> (\<And>x y. x \<in> set xs \<Longrightarrow> f x = Some y \<Longrightarrow> k' y = k x) \<Longrightarrow>
     sorted (map k' (List.map_filter f xs))"
proof (induction xs)
  case (Cons x xs)
  then have IH: "sorted (map k' (List.map_filter f xs))" by simp
  show ?case
  proof (cases "f x")
    case (Some y)
    have "k' y \<le> k' z" if z: "z \<in> set (List.map_filter f xs)" for z
    proof -
      obtain x' where "x' \<in> set xs" "f x' = Some z" using z by (auto simp: set_map_filter)
      then have "k' z = k x'" "k' y = k x" "k x \<le> k x'" using Cons.prems Some by auto
      then show ?thesis by simp
    qed
    with IH Some show ?thesis by (auto simp: map_filter_simps)
  qed (simp add: map_filter_simps IH)
qed (simp add: map_filter_simps)

text \<open>
  The table in one line: the entry of each address that saves 16 bytes, in the order of the addresses.
\<close>

lemma build_sender_base_nonce_table_eq:
  assumes order: "iteration_order order" and ai: "\<And>a i. ai a = Some i \<Longrightarrow> i < n"
  shows "build_sender_base_nonce_table T order blocks ai =
    List.map_filter (\<lambda>i. sender_entry (i, nonces_of T ai i (concat (map rb_body blocks)))) [0..<n]"
proof -
  let ?txs = "concat (map rb_body blocks)"
  let ?m = "fold (add_tx_nonce T ai) ?txs []"
  let ?l = "List.map_filter sender_entry (iterate order ?m)"
  let ?r = "List.map_filter (\<lambda>i. sender_entry (i, nonces_of T ai i ?txs)) [0..<n]"
  have m: "fold (\<lambda>b. fold (add_tx_nonce T ai) (rb_body b)) blocks [] = ?m"
    by (rule fold_fold_map)
  have key: "sn_sender_index y = fst x" if "sender_entry x = Some y" for x y
    using that sender_entry_facts(2) [of "fst x" "snd x"] by simp
  have "sn_sender_index y = id i" if "sender_entry (i, ns) = Some y" for i ns y
    using key [OF that] by simp
  then have r: "distinct (map sn_sender_index ?r)" "sorted (map sn_sender_index ?r)"
    by (intro distinct_map_filter [where k = id] sorted_map_filter [where k = id]; simp)+
  have l: "distinct (map sn_sender_index ?l)"
    using nonce_state(1) [of T ai ?txs] by (intro distinct_map_filter [where k = fst]) (auto simp: distinct_iterate [OF order] key)
  have "set ?l = set ?r"
  proof -
    have in_m: "(i, ns) \<in> set ?m \<longleftrightarrow> ns = nonces_of T ai i ?txs \<and> ns \<noteq> []" for i ns
      using nonce_state(2) [of T ai ?txs i] map_of_eq_Some_iff [OF nonce_state(1), of T ai ?txs i ns] by (auto split: if_splits)
    have small: "i < n" if ne: "nonces_of T ai i ?txs \<noteq> []" for i
    proof -
      obtain tx where "ai (tl_sender T tx) = Some i" using ne by (auto simp: nonces_of_def filter_empty_conv)
      then show ?thesis by (rule ai)
    qed
    show ?thesis
    proof (rule set_eqI)
      fix e
      have "e \<in> set ?l \<longleftrightarrow> (\<exists>i. nonces_of T ai i ?txs \<noteq> [] \<and> sender_entry (i, nonces_of T ai i ?txs) = Some e)"
        using in_m by (auto simp: set_map_filter set_iterate [OF order])
      also have "\<dots> \<longleftrightarrow> (\<exists>i < n. sender_entry (i, nonces_of T ai i ?txs) = Some e)"
      proof -
        have "nonces_of T ai i ?txs \<noteq> []" if "sender_entry (i, nonces_of T ai i ?txs) = Some e" for i
          using sender_entry_facts(2) [OF that] by blast
        with small show ?thesis by blast
      qed
      also have "\<dots> \<longleftrightarrow> e \<in> set ?r" by (auto simp: set_map_filter)
      finally show "e \<in> set ?l \<longleftrightarrow> e \<in> set ?r" .
    qed
  qed
  moreover have "distinct ?l" "distinct ?r" using l r(1) by (simp_all add: distinct_map)
  ultimately have "mset ?l = mset ?r" by (simp add: set_eq_iff_mset_eq_distinct)
  then have "sort_key sn_sender_index ?l = ?r"
    using l r(2) by (intro sort_key_inj_key_eq) (simp_all add: distinct_map)
  then show ?thesis by (simp only: build_sender_base_nonce_table_def m Let_def)
qed

lemma base_nonce_below:
  assumes order: "iteration_order order" and ai: "\<And>a i. ai a = Some i \<Longrightarrow> i < n"
    and e: "e \<in> set (build_sender_base_nonce_table T order blocks ai)"
    and tx: "b \<in> set blocks" "tx \<in> set (rb_body b)" "ai (tl_sender T tx) = Some (sn_sender_index e)"
  shows "sn_base_nonce e \<le> low_u64 (tl_nonce T tx)"
proof -
  let ?txs = "concat (map rb_body blocks)"
  obtain i where "sender_entry (i, nonces_of T ai i ?txs) = Some e"
    using e by (auto simp: build_sender_base_nonce_table_eq [OF order ai] set_map_filter)
  from sender_entry_facts(2) [OF this] tx(3)
  have "ai (tl_sender T tx) = Some i" "sn_base_nonce e = Min (set (nonces_of T ai i ?txs))" by simp_all
  moreover from this tx(1,2) have "low_u64 (tl_nonce T tx) \<in> set (nonces_of T ai i ?txs)"
    by (auto simp: nonces_of_def)
  ultimately show ?thesis by simp
qed

lemma sender_base_nonces_sorted:
  assumes order: "iteration_order order" and ai: "\<And>a i. ai a = Some i \<Longrightarrow> i < n"
  shows "sorted (map sn_sender_index (build_sender_base_nonce_table T order blocks ai))"
    "distinct (map sn_sender_index (build_sender_base_nonce_table T order blocks ai))"
    "\<forall>e \<in> set (build_sender_base_nonce_table T order blocks ai). sn_sender_index e < n"
proof -
  have key: "sn_sender_index y = id i" if "sender_entry (i, ns) = Some y" for i ns y
    using sender_entry_facts(2) [OF that] by simp
  have eq: "build_sender_base_nonce_table T order blocks ai =
      List.map_filter (\<lambda>i. sender_entry (i, nonces_of T ai i (concat (map rb_body blocks)))) [0..<n]"
    by (rule build_sender_base_nonce_table_eq [OF order ai])
  show "sorted (map sn_sender_index (build_sender_base_nonce_table T order blocks ai))"
    unfolding eq by (rule sorted_map_filter [where k = id]) (simp_all add: key)
  show "distinct (map sn_sender_index (build_sender_base_nonce_table T order blocks ai))"
    unfolding eq by (rule distinct_map_filter [where k = id]) (simp_all add: key)
  show "\<forall>e \<in> set (build_sender_base_nonce_table T order blocks ai). sn_sender_index e < n"
    unfolding eq using key by (fastforce simp: set_map_filter)
qed

subsection \<open>PoS views\<close>

definition pos_fits :: "('h, 'c, 't) node_lib \<Rightarrow> (h256 \<Rightarrow> 'c option) \<Rightarrow> u64 \<Rightarrow> h256 \<Rightarrow> bool" where
  "pos_fits N pos_blocks m ref \<longleftrightarrow>
     (\<exists>c. pos_blocks ref = Some c \<and> m \<le> cb_view N c \<and> cb_view N c - m < 2 ^ 16)"

definition pos_entry :: "('h, 'c, 't) node_lib \<Rightarrow> (h256 \<Rightarrow> 'c option) \<Rightarrow> u64 \<Rightarrow> h256 \<Rightarrow> pos_lookup_entry" where
  "pos_entry N pos_blocks m ref =
     \<lparr>pl_hash = ref, pl_height_offset = ucast (cb_view N (the (pos_blocks ref)) - m)\<rparr>"

definition pos_refs :: "('h, 'c, 't) node_lib \<Rightarrow> u64 \<Rightarrow> ('h, 't) raw_block list \<Rightarrow> h256 list" where
  "pos_refs N pe blocks = List.map_filter (\<lambda>b. effective_pos_reference N (rb_header b) pe) blocks"

lemma pos_refs_simps [simp]:
  "pos_refs N pe [] = []"
  "pos_refs N pe (b # bs) = (case effective_pos_reference N (rb_header b) pe of
     None \<Rightarrow> pos_refs N pe bs | Some r \<Rightarrow> r # pos_refs N pe bs)"
  by (simp_all add: pos_refs_def map_filter_simps split: option.split)

lemma pos_lookup_from_eq:
  "seen = set xs \<Longrightarrow> out = map (pos_entry N pos_blocks m) (first_seen xs) \<Longrightarrow>
     pos_lookup_from N pos_blocks m pe out seen bs = Inr r \<longleftrightarrow>
       (\<forall>ref \<in> set (pos_refs N pe bs) - seen. pos_fits N pos_blocks m ref) \<and>
       r = map (pos_entry N pos_blocks m) (first_seen (xs @ pos_refs N pe bs))"
proof (induction bs arbitrary: out seen xs)
  case (Cons b bs)
  show ?case
  proof (cases "effective_pos_reference N (rb_header b) pe")
    case None
    with Cons show ?thesis by simp
  next
    case (Some ref)
    have app: "xs @ ref # pos_refs N pe bs = (xs @ [ref]) @ pos_refs N pe bs" by simp
    show ?thesis
    proof (cases "ref \<in> seen")
      case True
      then have "pos_lookup_from N pos_blocks m pe out seen bs = Inr r \<longleftrightarrow>
         (\<forall>ref \<in> set (pos_refs N pe bs) - seen. pos_fits N pos_blocks m ref) \<and>
         r = map (pos_entry N pos_blocks m) (first_seen ((xs @ [ref]) @ pos_refs N pe bs))"
        using Cons.prems by (intro Cons.IH) auto
      with True Some show ?thesis by (auto simp: app simp del: append_assoc)
    next
      case False
      have IH: "pos_lookup_from N pos_blocks m pe (out @ [pos_entry N pos_blocks m ref]) (insert ref seen) bs = Inr r \<longleftrightarrow>
         (\<forall>ref' \<in> set (pos_refs N pe bs) - insert ref seen. pos_fits N pos_blocks m ref') \<and>
         r = map (pos_entry N pos_blocks m) (first_seen ((xs @ [ref]) @ pos_refs N pe bs))"
        using Cons.prems False by (intro Cons.IH) auto
      have "pos_lookup_from N pos_blocks m pe out seen (b # bs) = Inr r \<longleftrightarrow>
         pos_fits N pos_blocks m ref \<and>
         pos_lookup_from N pos_blocks m pe (out @ [pos_entry N pos_blocks m ref]) (insert ref seen) bs = Inr r"
        using False Some
        by (cases "pos_blocks ref") (auto simp: rbind_Inr_iff pos_fits_def pos_entry_def checked_sub_def)
      with IH False Some show ?thesis by (simp add: app del: append_assoc) blast
    qed
  qed
qed auto

lemma build_pos_lookup_eq:
  "build_pos_lookup N blocks pos_blocks m pe = Inr r \<longleftrightarrow>
     (\<forall>ref \<in> set (pos_refs N pe blocks). pos_fits N pos_blocks m ref) \<and>
     r = map (pos_entry N pos_blocks m) (first_seen (pos_refs N pe blocks))"
  unfolding build_pos_lookup_def by (subst pos_lookup_from_eq [of _ "[]"]) simp_all

lemma pos_entry_view:
  assumes "pos_fits N pos_blocks m ref"
  shows "\<exists>c. pos_blocks ref = Some c \<and> m + ucast (pl_height_offset (pos_entry N pos_blocks m ref)) = cb_view N c"
proof -
  obtain c where c: "pos_blocks ref = Some c" "m \<le> cb_view N c" "cb_view N c - m < 2 ^ 16"
    using assms by (auto simp: pos_fits_def)
  then have "unat (cb_view N c - m) < 2 ^ 16" by (simp add: word_less_nat_alt)
  then have "(ucast (ucast (cb_view N c - m) :: u16) :: u64) = cb_view N c - m"
    by (simp add: word_unat_eq_iff unsigned_ucast_eq unsigned_take_bit_eq take_bit_nat_eq_self_iff)
  then show ?thesis using c(1) by (simp add: pos_entry_def)
qed

end
