(* ===== verification/Extract_Db_Correct.thy ===== *)
theory Extract_Db_Correct
  imports Extract_Db Packet_Total
begin

text \<open>
  What the scans of the databases return. Of RocksDB only \<open>column\<close> is used: an iterator walks
  through the entries of a column family in the ascending order of their keys, from the first one
  or from the first key that is not below the key it is set to.
\<close>

subsection \<open>The law of the iterator\<close>

definition walks :: "'i rocks \<Rightarrow> ('i \<Rightarrow> (bytes \<times> bytes) list \<Rightarrow> bool) \<Rightarrow> bool" where
  "walks db repr \<longleftrightarrow>
     (\<forall>it. repr it [] \<longrightarrow> rk_valid db it = Inr False) \<and>
     (\<forall>it k v es. repr it ((k, v) # es) \<longrightarrow>
        rk_valid db it = Inr True \<and> rk_key db it = k \<and> rk_value db it = v \<and>
        (\<exists>it'. rk_next db it = Inr it' \<and> repr it' es))"

definition column :: "'i rocks \<Rightarrow> string \<Rightarrow> (bytes \<times> bytes) list \<Rightarrow> bool" where
  "column db cf es \<longleftrightarrow> rk_cf_handle db cf \<and> sorted_wrt (<) (map fst es) \<and>
     (\<exists>repr. walks db repr \<and>
        (\<exists>it. rk_seek_start db (rk_iter db cf) = Inr it \<and> repr it es) \<and>
        (\<forall>k. \<exists>it. rk_seek_key db k (rk_iter db cf) = Inr it \<and> repr it (dropWhile (\<lambda>e. fst e < k) es)))"

lemma walks_end: "walks db repr \<Longrightarrow> repr it [] \<Longrightarrow> rk_valid db it = Inr False"
  by (simp add: walks_def)

lemma walks_step:
  assumes "walks db repr" "repr it ((k, v) # es)"
  obtains it' where "rk_valid db it = Inr True" "rk_key db it = k" "rk_value db it = v"
    "rk_next db it = Inr it'" "repr it' es"
  using assms unfolding walks_def by metis

subsection \<open>Byte order and numbers\<close>

lemma be_nat_less_iff: "length xs = length ys \<Longrightarrow> xs < ys \<longleftrightarrow> be_nat xs < be_nat ys"
proof (induction xs ys rule: list_induct2)
  case (Cons x xs y ys)
  let ?p = "256 ^ length ys :: nat"
  have small: "be_nat xs < ?p" "be_nat ys < ?p" using be_nat_bound [of xs] be_nat_bound [of ys] Cons.hyps by simp_all
  have "unat x * ?p + be_nat xs < unat y * ?p + be_nat ys \<longleftrightarrow>
      unat x < unat y \<or> unat x = unat y \<and> be_nat xs < be_nat ys"
  proof (cases "unat x" "unat y" rule: linorder_cases)
    case less
    then have "(unat x + 1) * ?p \<le> unat y * ?p" by (intro mult_right_mono) simp_all
    with less small show ?thesis by (simp add: algebra_simps)
  next
    case greater
    then have "(unat y + 1) * ?p \<le> unat x * ?p" by (intro mult_right_mono) simp_all
    with greater small show ?thesis by (simp add: algebra_simps)
  qed simp
  with Cons show ?case by (simp add: word_less_nat_alt word_unat_eq_iff)
qed simp

lemma u64_of_be: "length bs = 8 \<Longrightarrow> unat (u64_of_be bs) = be_nat bs"
  using be_nat_bound [of bs] by (simp add: u64_of_be_def from_le_bytes_def be_nat_def unat_of_nat_u64)

lemma be_nat_u64_to_be: "be_nat (u64_to_be v) = unat v"
  using unat_u64_less [of v] by (simp add: be_nat_def u64_to_be_def to_le_bytes_def le_nat_digits)

lemma length_u64_to_be [simp]: "length (u64_to_be v) = 8"
  by (simp add: u64_to_be_def)

definition key_version :: "bytes \<Rightarrow> u64" where
  "key_version k = u64_of_be (take 8 k)"

lemma less_append_iff:
  fixes xs ys zs :: "'a :: linorder list"
  shows "length xs = length ys \<Longrightarrow> xs @ zs < ys \<longleftrightarrow> xs < ys"
  by (induction xs ys rule: list_induct2) simp_all

lemma key_below_version:
  assumes "8 \<le> length k"
  shows "k < u64_to_be v \<longleftrightarrow> key_version k < v"
proof -
  have "take 8 k @ drop 8 k < u64_to_be v \<longleftrightarrow> take 8 k < u64_to_be v"
    using assms by (intro less_append_iff) simp
  then show ?thesis
    using assms by (simp add: be_nat_less_iff be_nat_u64_to_be key_version_def word_less_nat_alt u64_of_be)
qed

lemma append_less_D:
  fixes xs ys :: "'a :: linorder list"
  shows "length xs = length ys \<Longrightarrow> xs @ us < ys @ vs \<Longrightarrow> xs \<le> ys"
  by (induction xs ys rule: list_induct2) auto

lemma key_version_mono:
  assumes "8 \<le> length k" "8 \<le> length k'" "k < k'"
  shows "key_version k \<le> key_version k'"
proof -
  have "take 8 k @ drop 8 k < take 8 k' @ drop 8 k'" using assms(3) by simp
  moreover have "length (take 8 k) = length (take 8 k')" using assms(1,2) by simp
  ultimately have "take 8 k \<le> take 8 k'" using append_less_D by blast
  then have "\<not> be_nat (take 8 k') < be_nat (take 8 k)"
    using assms(1,2) be_nat_less_iff [of "take 8 k'" "take 8 k"] leD [of "take 8 k" "take 8 k'"] by simp
  then show ?thesis using assms(1,2) by (simp add: key_version_def word_le_nat_alt u64_of_be)
qed

subsection \<open>The scan of the unlock events\<close>

lemma map_filter_id_Cons: "List.map_filter id (x # xs) = (case x of None \<Rightarrow> [] | Some y \<Rightarrow> [y]) @ List.map_filter id xs"
  by (auto simp: map_filter_simps split: option.split)

definition event_in_reach :: "u64 \<Rightarrow> bytes \<times> bytes \<Rightarrow> bool" where
  "event_in_reach end_version e \<longleftrightarrow> 8 \<le> length (fst e) \<and> key_version (fst e) < end_version"

lemma scan_unlock_events_walk:
  assumes walk: "walks db repr"
  shows "repr it es \<Longrightarrow> scan_unlock_events db end_version it out =
    Some (rbind (traverse (\<lambda>e. try_decode_unlock_event (snd e)) (takeWhile (event_in_reach end_version) es))
           (\<lambda>us. Inr (out @ List.map_filter id us)))"
proof (induction es arbitrary: it out)
  case Nil
  from walks_end [OF walk Nil] show ?case by (subst scan_unlock_events.simps) (simp add: map_filter_simps)
next
  case (Cons e es)
  obtain k v where e: "e = (k, v)" by (cases e)
  obtain it' where it: "rk_valid db it = Inr True" "rk_key db it = k" "rk_value db it = v"
    "rk_next db it = Inr it'" "repr it' es"
    by (rule walks_step [OF walk Cons.prems [unfolded e]])
  note IH = Cons.IH [OF it(5)]
  show ?case
  proof (cases "event_in_reach end_version (k, v)")
    case True
    then have reach: "\<not> length k < 8" "\<not> end_version \<le> u64_of_be (take 8 k)"
      by (auto simp: event_in_reach_def key_version_def)
    show ?thesis
    proof (cases "try_decode_unlock_event v")
      case (Inl err)
      with it reach True show ?thesis
        by (subst scan_unlock_events.simps) (simp add: e Let_def)
    next
      case (Inr entry)
      have "scan_unlock_events db end_version it out =
          scan_unlock_events db end_version it' (case entry of Some u \<Rightarrow> out @ [u] | None \<Rightarrow> out)"
        using it reach Inr by (subst scan_unlock_events.simps) (simp add: Let_def)
      with IH True Inr show ?thesis
        by (cases "traverse (\<lambda>e. try_decode_unlock_event (snd e)) (takeWhile (event_in_reach end_version) es)")
          (auto simp: e map_filter_id_Cons split: option.split)
    qed
  next
    case False
    then have "length k < 8 \<or> end_version \<le> u64_of_be (take 8 k)"
      by (auto simp: event_in_reach_def key_version_def)
    with it False show ?thesis
      by (subst scan_unlock_events.simps) (auto simp: e Let_def map_filter_simps)
  qed
qed

lemma takeWhile_filter:
  "sorted_wrt R xs \<Longrightarrow> (\<And>x y. x \<in> set xs \<Longrightarrow> y \<in> set xs \<Longrightarrow> R x y \<Longrightarrow> P y \<Longrightarrow> P x) \<Longrightarrow>
     takeWhile P xs = filter P xs \<and> dropWhile P xs = filter (\<lambda>x. \<not> P x) xs"
proof (induction xs)
  case (Cons x xs)
  have "takeWhile P xs = filter P xs \<and> dropWhile P xs = filter (\<lambda>x. \<not> P x) xs"
  proof (rule Cons.IH)
    show "sorted_wrt R xs" using Cons.prems(1) by simp
    fix x' y assume "x' \<in> set xs" "y \<in> set xs" "R x' y" "P y"
    then show "P x'" using Cons.prems(2) [of x' y] by simp
  qed
  moreover have "\<not> P x \<Longrightarrow> \<forall>y \<in> set xs. \<not> P y" using Cons.prems by (metis list.set_intros sorted_wrt.simps(2))
  ultimately show ?case by (auto simp: filter_empty_conv)
qed simp

text \<open>The events of the versions of a range, in the order of their keys.\<close>

definition events_between :: "u64 \<Rightarrow> u64 \<Rightarrow> (bytes \<times> bytes) list \<Rightarrow> (bytes \<times> bytes) list" where
  "events_between s e es = filter (\<lambda>(k, v). s \<le> key_version k \<and> key_version k < e) es"

lemma read_unlock_events_range:
  assumes col: "column db ''event'' es" and keys: "\<forall>(k, v) \<in> set es. 8 \<le> length k"
  shows "read_unlock_events db s e =
    Some (rbind (traverse (\<lambda>x. try_decode_unlock_event (snd x)) (events_between s e es)) (\<lambda>us. Inr (List.map_filter id us)))"
proof (cases "e \<le> s")
  case True
  then have "events_between s e es = []" by (auto simp: events_between_def filter_empty_conv)
  with True show ?thesis by (simp add: read_unlock_events_def map_filter_simps)
next
  case False
  obtain repr it where it: "walks db repr" "rk_cf_handle db ''event''"
    "rk_seek_key db (u64_to_be s) (rk_iter db ''event'') = Inr it" "repr it (dropWhile (\<lambda>x. fst x < u64_to_be s) es)"
    using col unfolding column_def by blast
  have sorted: "sorted_wrt (\<lambda>x y. fst x < fst y) es"
    using col by (simp add: column_def sorted_wrt_map)
  have len: "8 \<le> length (fst x)" if "x \<in> set es" for x using keys that by auto
  have "dropWhile (\<lambda>x. fst x < u64_to_be s) es = filter (\<lambda>x. \<not> fst x < u64_to_be s) es"
    by (rule takeWhile_filter [OF sorted, THEN conjunct2]) (rule less_trans)
  then have drop: "dropWhile (\<lambda>x. fst x < u64_to_be s) es = filter (\<lambda>x. s \<le> key_version (fst x)) es"
    using len by (simp add: key_below_version not_less cong: filter_cong)
  have "takeWhile (event_in_reach e) (filter (\<lambda>x. s \<le> key_version (fst x)) es)
      = filter (event_in_reach e) (filter (\<lambda>x. s \<le> key_version (fst x)) es)"
  proof (rule takeWhile_filter [THEN conjunct1])
    show "sorted_wrt (\<lambda>x y. fst x < fst y) (filter (\<lambda>x. s \<le> key_version (fst x)) es)"
      by (rule sorted_wrt_filter [OF sorted])
    fix x y
    assume "x \<in> set (filter (\<lambda>x. s \<le> key_version (fst x)) es)" "y \<in> set (filter (\<lambda>x. s \<le> key_version (fst x)) es)"
      "fst x < fst y" "event_in_reach e y"
    with len key_version_mono [of "fst x" "fst y"] show "event_in_reach e x"
      by (auto simp: event_in_reach_def)
  qed
  also have "\<dots> = events_between s e es"
    using len by (auto simp: events_between_def event_in_reach_def intro!: filter_cong)
  finally have reach: "takeWhile (event_in_reach e) (dropWhile (\<lambda>x. fst x < u64_to_be s) es) = events_between s e es"
    by (simp only: drop)
  have "scan_unlock_events db e it [] =
      Some (rbind (traverse (\<lambda>x. try_decode_unlock_event (snd x)) (events_between s e es)) (\<lambda>us. Inr (List.map_filter id us)))"
    using scan_unlock_events_walk [OF it(1,4), of e "[]"] by (simp add: reach)
  with False it(2,3) show ?thesis by (simp add: read_unlock_events_def)
qed

subsection \<open>Decoding an unlock event\<close>

lemma bcs_read_from_uleb128:
  "bcs_read_from data pos result shift =
     (case read_uleb128_from data pos shift result of Inr r \<Rightarrow> Some r | Inl _ \<Rightarrow> None)"
proof (induction data pos result shift rule: bcs_read_from.induct)
  case (1 data pos result shift)
  show ?case
  proof (cases "length data \<le> pos \<or> data ! pos AND 0x80 = 0 \<or> 64 \<le> shift + 7")
    case True
    then show ?thesis by (subst bcs_read_from.simps, subst read_uleb128_from.simps) (auto simp: Let_def)
  next
    case False
    with 1 show ?thesis
      by (subst bcs_read_from.simps, subst read_uleb128_from.simps) (simp add: Let_def)
  qed
qed

lemma bcs_read_uleb128_eq:
  "bcs_read_uleb128 data pos = (case read_uleb128 data pos of Inr r \<Rightarrow> Some r | Inl _ \<Rightarrow> None)"
  by (simp add: bcs_read_uleb128_def read_uleb128_def bcs_read_from_uleb128)

lemma bcs_read_uleb128_bounds:
  assumes "bcs_read_uleb128 data pos = Some (v, pos')"
  shows "pos < pos' \<and> pos' \<le> length data"
proof -
  have "read_uleb128 data pos = Inr (v, pos')" using assms by (auto simp: bcs_read_uleb128_eq split: sum.splits)
  then show ?thesis using read_uleb128_bounds by blast
qed

text \<open>The BCS bytes of an unlock event: the key, the length of the data, the data.\<close>

definition unlock_event_bytes :: "bytes \<Rightarrow> bytes" where
  "unlock_event_bytes event_data = put_uleb128 ([0, 40] @ UNLOCK_EVENT_KEY) (of_nat (length event_data)) @ event_data"

lemma length_UNLOCK_EVENT_KEY [simp]: "length UNLOCK_EVENT_KEY = 40"
  by (simp add: UNLOCK_EVENT_KEY_def)

lemma try_decode_unlock_event_bytes:
  assumes "length event_data + 52 < 2 ^ 64" "40 \<le> length event_data"
  shows "try_decode_unlock_event (unlock_event_bytes event_data) =
    Inr (Some \<lparr>ue_identifier = H256 (take 32 event_data), ue_unlocked = from_le_bytes (subslice event_data 32 40)\<rparr>)"
proof -
  let ?n = "of_nat (length event_data) :: u64"
  let ?head = "[0, 40] @ UNLOCK_EVENT_KEY :: bytes"
  let ?v = "unlock_event_bytes event_data"
  have v: "?v = ?head @ put_uleb128 [] ?n @ event_data"
    by (simp add: unlock_event_bytes_def put_uleb128_Nil [of "_ # _"])
  have len: "length ?v = 42 + length (put_uleb128 [] ?n) + length event_data" by (simp add: v)
  have "put_uleb128 [] ?n \<noteq> []" by (subst put_uleb128_Nil_simps) simp
  then have "\<not> length ?v < 43" by (simp add: len Suc_le_eq)
  moreover have "?v ! 0 = 0" "?v ! 1 = 40" "subslice ?v 2 42 = UNLOCK_EVENT_KEY"
    by (simp_all add: v subslice_def)
  moreover have "read_uleb128 ?v (length ?head) = Inr (?n, length (put_uleb128 ?head ?n))"
    by (rule read_put_uleb128) (simp add: unlock_event_bytes_def)
  then have "bcs_read_uleb128 ?v 42 = Some (?n, 42 + length (put_uleb128 [] ?n))"
    by (simp add: bcs_read_uleb128_eq put_uleb128_Nil [of "_ # _"])
  moreover have "unat ?n = length event_data" using assms(1) by (simp add: unat_of_nat_u64)
  moreover have "length (put_uleb128 [] ?n) \<le> 10" using length_put_uleb128 [of "[]" ?n] by simp
  moreover have "subslice ?v (42 + length (put_uleb128 [] ?n)) (42 + length (put_uleb128 [] ?n) + length event_data) = event_data"
    by (simp add: v subslice_def drop_Cons')
  ultimately show ?thesis
    using assms by (simp add: try_decode_unlock_event_def Let_def len subslice_def)
qed

text \<open>A length that wraps around behind the key ends the program.\<close>

lemma try_decode_unlock_event_panics:
  assumes "length v < 2 ^ 64"
  shows "(\<exists>m. try_decode_unlock_event v = Inl m) \<longleftrightarrow>
    43 \<le> length v \<and> v ! 0 = 0 \<and> v ! 1 = 40 \<and> subslice v 2 42 = UNLOCK_EVENT_KEY \<and>
    (\<exists>n pos. bcs_read_uleb128 v 42 = Some (n, pos) \<and> 2 ^ 64 \<le> pos + unat n)"
proof (cases "bcs_read_uleb128 v 42")
  case (Some np)
  obtain n pos where np: "np = (n, pos)" by (cases np)
  have pos: "pos \<le> length v" using bcs_read_uleb128_bounds Some np by simp
  show ?thesis
  proof (cases "pos + unat n < 2 ^ 64")
    case True
    then have "usize_add pos (unat n) = pos + unat n" by simp
    with True Some np show ?thesis by (auto simp: try_decode_unlock_event_def Let_def)
  next
    case False
    have "usize_add pos (unat n) < pos"
    proof -
      have "unat n < 2 ^ 64" by (rule unat_u64_less)
      moreover have "(pos + unat n) mod 2 ^ 64 = pos + unat n - 2 ^ 64"
        using False assms pos calculation by (simp add: le_mod_geq)
      ultimately show ?thesis using False by (simp add: usize_add_def)
    qed
    with False Some np pos show ?thesis
      by (auto simp: try_decode_unlock_event_def Let_def slice_of_def)
  qed
qed (auto simp: try_decode_unlock_event_def)

text \<open>Every event whose length does not pass \<open>2 ^ 64\<close> decodes without a panic.\<close>

lemma try_decode_unlock_event_returns:
  assumes "\<And>n pos. bcs_read_uleb128 v 42 = Some (n, pos) \<Longrightarrow> pos + unat n < 2 ^ 64"
  shows "\<exists>r. try_decode_unlock_event v = Inr r"
proof (cases "bcs_read_uleb128 v 42")
  case (Some np)
  obtain n pos where np: "np = (n, pos)" by (cases np)
  have "usize_add pos (unat n) = pos + unat n" using assms Some np by simp
  then show ?thesis using Some np by (auto simp: try_decode_unlock_event_def Let_def)
qed (simp add: try_decode_unlock_event_def)

subsection \<open>The scan of the PoS rewards\<close>

fun rewards_fold ::
  "'r rlp_view \<Rightarrow> h256 set \<Rightarrow> bytes list \<Rightarrow> (h256 \<Rightarrow> pos_reward_entry option) \<Rightarrow> (h256 \<Rightarrow> pos_reward_entry option) pack_result" where
  "rewards_fold V pivots [] out = Inr out"
| "rewards_fold V pivots (v # vs) out = rbind (reward_turn V pivots v out) (rewards_fold V pivots vs)"

lemma scan_pos_rewards_walk:
  assumes walk: "walks db repr"
  shows "repr it es \<Longrightarrow> scan_pos_rewards db V pivots it out = Some (rewards_fold V pivots (map snd es) out)"
proof (induction es arbitrary: it out)
  case Nil
  from walks_end [OF walk Nil] show ?case by (subst scan_pos_rewards.simps) simp
next
  case (Cons e es)
  obtain k v where e: "e = (k, v)" by (cases e)
  obtain it' where it: "rk_valid db it = Inr True" "rk_key db it = k" "rk_value db it = v"
    "rk_next db it = Inr it'" "repr it' es"
    by (rule walks_step [OF walk Cons.prems [unfolded e]])
  show ?case
    using it(1-4) Cons.IH [OF it(5)]
    by (cases "reward_turn V pivots v out") (subst scan_pos_rewards.simps, simp add: e)+
qed

lemma read_pos_rewards_column:
  assumes "column db COL_REWARD_BY_POS_EPOCH es"
  shows "read_pos_rewards db V pivots =
    Some (if pivots = {} then Inr Map.empty else rewards_fold V pivots (map snd es) Map.empty)"
proof -
  obtain repr it where "walks db repr" "rk_cf_handle db COL_REWARD_BY_POS_EPOCH"
    "rk_seek_start db (rk_iter db COL_REWARD_BY_POS_EPOCH) = Inr it" "repr it es"
    using assms unfolding column_def by blast
  then show ?thesis using scan_pos_rewards_walk [of db repr it es V pivots Map.empty] by (simp add: read_pos_rewards_def)
qed

text \<open>What the map of rewards holds: entries of the pivots, under their own hash.\<close>

lemma reward_turn_keys:
  assumes "reward_turn V pivots v out = Inr out'" "\<forall>h e. out h = Some e \<longrightarrow> h \<in> pivots \<and> pre_execution_epoch_hash e = h"
  shows "\<forall>h e. out' h = Some e \<longrightarrow> h \<in> pivots \<and> pre_execution_epoch_hash e = h"
  using assms by (auto simp: reward_turn_def Let_def rbind_Inr_iff split: if_splits)

lemma rewards_fold_keys:
  "rewards_fold V pivots vs out = Inr out' \<Longrightarrow>
     \<forall>h e. out h = Some e \<longrightarrow> h \<in> pivots \<and> pre_execution_epoch_hash e = h \<Longrightarrow>
     \<forall>h e. out' h = Some e \<longrightarrow> h \<in> pivots \<and> pre_execution_epoch_hash e = h"
proof (induction vs arbitrary: out)
  case (Cons v vs)
  from Cons.prems(1) obtain out1 where "reward_turn V pivots v out = Inr out1" "rewards_fold V pivots vs out1 = Inr out'"
    by (auto simp: rbind_Inr_iff)
  with Cons.IH reward_turn_keys Cons.prems(2) show ?case by blast
qed simp

end
