(* ===== verification/Extract_Core_Correct.thy ===== *)
theory Extract_Core_Correct
  imports Extract_Core Extract_Tables_Correct Extract_Db_Correct Packet_Plain
begin

text \<open>
  What an extraction returns: the blocks of the epochs in the order of execution, with the flags and
  the tables the encoder asks for. Where the databases are consistent, the packet is valid.
\<close>

subsection \<open>Epoch groups\<close>

definition epoch_group :: "'t block list \<Rightarrow> bool" where
  "epoch_group g \<longleftrightarrow> g \<noteq> [] \<and> is_pivot (last g) \<and> (\<forall>b \<in> set (butlast g). \<not> is_pivot b) \<and>
     (\<forall>b \<in> set g. b_epoch b = b_height (last g) \<and> b_flags b AND 0x80 = 0)"

lemma first_index_append_last:
  assumes "g \<noteq> []" "P (last g)" "\<forall>b \<in> set (butlast g). \<not> P b"
  shows "first_index P (g @ rest) = Some (length g - 1)"
proof -
  have "\<not> P (g ! j)" if "j < length g - 1" for j
    using assms(3) that by (metis length_butlast nth_butlast nth_mem)
  moreover have len: "length g - 1 < length g" using assms(1) by simp
  moreover from this have "length g - 1 < length (g @ rest)" by simp
  ultimately show ?thesis
    using assms(1,2) unfolding first_index_Some by (auto simp: nth_append last_conv_nth)
qed

lemma check_blocks_ok:
  "\<forall>b \<in> set bs. b_epoch b = e \<and> b_flags b AND 0x80 = 0 \<Longrightarrow> \<forall>k < length bs. b_index (bs ! k) = n + k \<Longrightarrow>
     check_blocks n e bs = Inr ()"
proof (induction bs arbitrary: n)
  case (Cons b bs)
  have "b_index (bs ! k) = Suc n + k" if "k < length bs" for k
    using Cons.prems(2) [rule_format, of "Suc k"] that by simp
  moreover have "b_index b = n" using Cons.prems(2) by auto
  ultimately show ?case using Cons.IH [of "Suc n"] Cons.prems(1) by (simp add: check_block_def)
qed simp

lemma validate_groups_ok:
  "\<forall>g \<in> set gs. epoch_group g \<Longrightarrow> \<forall>k < length (concat gs). b_index (concat gs ! k) = n + k \<Longrightarrow>
     validate_groups n (concat gs) = Inr ()"
proof (induction gs arbitrary: n)
  case Nil
  then show ?case by (simp add: validate_groups.simps)
next
  case (Cons g gs)
  have g: "g \<noteq> []" "epoch_group g" using Cons.prems(1) by (simp_all add: epoch_group_def)
  have idx: "b_index (g ! k) = n + k" if "k < length g" for k
    using Cons.prems(2) [rule_format, of k] that by (simp add: nth_append)
  have rest: "b_index (concat gs ! k) = (n + length g) + k" if "k < length (concat gs)" for k
    using Cons.prems(2) [rule_format, of "length g + k"] that by (simp add: nth_append)
  have pivot: "first_index is_pivot (g @ concat gs) = Some (length g - 1)"
    using g(2) by (intro first_index_append_last) (simp_all add: epoch_group_def)
  have "check_blocks n (b_height (last g)) g = Inr ()"
    using g(2) idx by (intro check_blocks_ok) (simp_all add: epoch_group_def)
  moreover have "(g @ concat gs) ! (length g - 1) = last g" "take (Suc (length g - 1)) (g @ concat gs) = g"
    "drop (Suc (length g - 1)) (g @ concat gs) = concat gs" "n + Suc (length g - 1) = n + length g"
    using g(1) by (simp_all add: nth_append last_conv_nth)
  moreover have "validate_groups (n + length g) (concat gs) = Inr ()"
    using Cons.IH Cons.prems(1) rest by simp
  ultimately show ?case using g(1) pivot by (subst validate_groups.simps) simp
qed

subsection \<open>Flags\<close>

lemmas flag_defs = FLAG_ADAPTIVE_def FLAG_PIVOT_def FLAG_ESPACE_def FLAG_HAS_TRANSACTIONS_def
  FLAG_TX_COMPRESSED_def FLAG_SKIPPED_EXECUTION_def FLAG_ZERO_TOTAL_REWARD_def

lemma block_flags_bits:
  assumes "block_flags N config header reward pivot skipped h = Inr f"
  shows "f AND FLAG_PIVOT \<noteq> 0 \<longleftrightarrow> pivot"
    and "f AND FLAG_ADAPTIVE \<noteq> 0 \<longleftrightarrow> hd_adaptive N header"
    and "f AND FLAG_ESPACE \<noteq> 0 \<longleftrightarrow>
      pivot \<and> hd_height N header mod cp_evm_transaction_block_ratio (ec_chain config) = 0"
    and "f AND FLAG_SKIPPED_EXECUTION \<noteq> 0 \<longleftrightarrow> h \<in> skipped"
    and "f AND FLAG_ZERO_TOTAL_REWARD \<noteq> 0 \<longleftrightarrow> br_total_reward reward = 0"
    and "f AND 0x98 = 0" "f AND 0x80 = 0"
  using assms by (auto simp: block_flags_def Let_def flag_defs rbind_Inr_iff split: if_splits)

subsection \<open>Reading the blocks\<close>

text \<open>What is read of a block with hash \<open>h\<close> of an epoch.\<close>

definition read_as ::
  "('h, 'c, 't) node_lib \<Rightarrow> u64 option \<Rightarrow> 'r rlp_view \<Rightarrow> extract_config \<Rightarrow> ('i, 'j) databases \<Rightarrow>
   epoch_blocks \<Rightarrow> h256 \<Rightarrow> ('h, 't) raw_block \<Rightarrow> bool" where
  "read_as N cell V config dbs epoch h raw \<longleftrightarrow>
     rb_epoch raw = ep_number epoch \<and> rb_hash raw = h \<and>
     read_header N cell (db_pow dbs) h = Inr (rb_header raw) \<and>
     read_body N (db_pow dbs) h = Inr (rb_body raw) \<and>
     (\<exists>found. read_reward (db_pow dbs) V h = Inr found \<and>
        rb_reward raw = (case found of None \<Rightarrow> block_reward_default | Some r \<Rightarrow> r)) \<and>
     block_flags N config (rb_header raw) (rb_reward raw) (Some h = last_of (ep_executed epoch))
       (set (ep_skipped epoch)) h = Inr (rb_flags raw)"

text \<open>The minima are below every block, and every PoS reference is resolved.\<close>

definition collected_inv ::
  "('h, 'c, 't) node_lib \<Rightarrow> 'j rocks \<Rightarrow> u64 \<Rightarrow> ('h, 'c, 't) collected_blocks \<Rightarrow> bool" where
  "collected_inv N pos pe st \<longleftrightarrow>
     (\<forall>raw \<in> set (co_block_inputs st).
        co_min_timestamp st \<le> hd_timestamp N (rb_header raw) \<and> co_min_height st \<le> hd_height N (rb_header raw) \<and>
        (\<forall>r. effective_pos_reference N (rb_header raw) pe = Some r \<longrightarrow> co_pos_blocks st r \<noteq> None)) \<and>
     (\<forall>r c. co_pos_blocks st r = Some c \<longrightarrow>
        co_min_pos_height st \<le> cb_view N c \<and> get_committed_block N pos r = Inr c)"

lemma collect_block_facts:
  assumes "collect_block N cell V config dbs (ep_number epoch) (set (ep_skipped epoch)) pivot_hash h st = Inr st'"
    and "last_of (ep_executed epoch) = Some pivot_hash"
  shows "(\<exists>raw. co_block_inputs st' = co_block_inputs st @ [raw] \<and> read_as N cell V config dbs epoch h raw) \<and>
    (collected_inv N (db_pos dbs) (cp_pos_reference_enable_height (ec_chain config)) st \<longrightarrow>
     collected_inv N (db_pos dbs) (cp_pos_reference_enable_height (ec_chain config)) st')"
proof -
  let ?pe = "cp_pos_reference_enable_height (ec_chain config)"
  obtain header body found st1 flags where read: "read_header N cell (db_pow dbs) h = Inr header"
    "read_body N (db_pow dbs) h = Inr body" "read_reward (db_pow dbs) V h = Inr found"
    and st1: "note_pos_reference N (db_pos dbs) ?pe header
        (st\<lparr>co_min_timestamp := min (co_min_timestamp st) (hd_timestamp N header),
            co_min_height := min (co_min_height st) (hd_height N header)\<rparr>) = Inr st1"
    and flags: "block_flags N config header (case found of None \<Rightarrow> block_reward_default | Some r \<Rightarrow> r) (h = pivot_hash)
        (set (ep_skipped epoch)) h = Inr flags"
    and st': "st' = st1\<lparr>co_block_inputs := co_block_inputs st1 @
        [\<lparr>rb_epoch = ep_number epoch, rb_hash = h, rb_header = header, rb_body = body,
          rb_reward = (case found of None \<Rightarrow> block_reward_default | Some r \<Rightarrow> r), rb_flags = flags\<rparr>]\<rparr>"
    using assms(1) unfolding collect_block_def by (auto simp: rbind_Inr_iff Let_def)
  have keep: "co_block_inputs st1 = co_block_inputs st"
    using st1 by (auto simp: note_pos_reference_def rbind_Inr_iff split: option.splits)
  have "read_as N cell V config dbs epoch h \<lparr>rb_epoch = ep_number epoch, rb_hash = h, rb_header = header, rb_body = body,
          rb_reward = (case found of None \<Rightarrow> block_reward_default | Some r \<Rightarrow> r), rb_flags = flags\<rparr>"
    using read flags assms(2) by (auto simp: read_as_def)
  moreover have "collected_inv N (db_pos dbs) ?pe st'" if inv: "collected_inv N (db_pos dbs) ?pe st"
  proof (cases "effective_pos_reference N header ?pe")
    case None
    with st1 inv show ?thesis by (auto simp: note_pos_reference_def st' collected_inv_def min.coboundedI1)
  next
    case (Some r)
    with st1 obtain c where "get_committed_block N (db_pos dbs) r = Inr c"
      "st1 = st\<lparr>co_min_timestamp := min (co_min_timestamp st) (hd_timestamp N header),
                   co_min_height := min (co_min_height st) (hd_height N header),
                   co_min_pos_height := min (co_min_pos_height st) (cb_view N c),
                   co_pos_blocks := (co_pos_blocks st)(r \<mapsto> c)\<rparr>"
      by (auto simp: note_pos_reference_def rbind_Inr_iff)
    with Some inv show ?thesis by (auto simp: st' collected_inv_def min.coboundedI1)
  qed
  ultimately show ?thesis unfolding st' keep by simp
qed

lemma collect_blocks_from:
  assumes "last_of (ep_executed epoch) = Some pivot_hash"
  shows "fold_result (collect_block N cell V config dbs (ep_number epoch) (set (ep_skipped epoch)) pivot_hash) hs st = Inr st' \<Longrightarrow>
    (\<exists>raws. co_block_inputs st' = co_block_inputs st @ raws \<and> list_all2 (read_as N cell V config dbs epoch) hs raws) \<and>
    (collected_inv N (db_pos dbs) (cp_pos_reference_enable_height (ec_chain config)) st \<longrightarrow>
     collected_inv N (db_pos dbs) (cp_pos_reference_enable_height (ec_chain config)) st')"
proof (induction hs arbitrary: st)
  case (Cons h hs)
  then obtain st1 where st1: "collect_block N cell V config dbs (ep_number epoch) (set (ep_skipped epoch)) pivot_hash h st = Inr st1"
    "fold_result (collect_block N cell V config dbs (ep_number epoch) (set (ep_skipped epoch)) pivot_hash) hs st1 = Inr st'"
    by (auto simp: rbind_Inr_iff)
  from collect_block_facts [OF st1(1) assms] obtain raw where raw: "co_block_inputs st1 = co_block_inputs st @ [raw]"
    "read_as N cell V config dbs epoch h raw" by blast
  from Cons.IH [OF st1(2)] obtain raws where "co_block_inputs st' = co_block_inputs st1 @ raws"
    "list_all2 (read_as N cell V config dbs epoch) hs raws" by blast
  with raw have "co_block_inputs st' = co_block_inputs st @ (raw # raws)"
    "list_all2 (read_as N cell V config dbs epoch) (h # hs) (raw # raws)" by simp_all
  with Cons.IH [OF st1(2)] collect_block_facts [OF st1(1) assms] show ?case by blast
qed simp

text \<open>The blocks of an epoch in the order of their execution.\<close>

definition epoch_order :: "epoch_blocks \<Rightarrow> h256 list" where
  "epoch_order e = butlast (ep_executed e) @ ep_skipped e @ [last (ep_executed e)]"

definition epoch_raws ::
  "('h, 'c, 't) node_lib \<Rightarrow> u64 option \<Rightarrow> 'r rlp_view \<Rightarrow> extract_config \<Rightarrow> ('i, 'j) databases \<Rightarrow>
   epoch_blocks \<Rightarrow> ('h, 't) raw_block list \<Rightarrow> bool" where
  "epoch_raws N cell V config dbs e raws \<longleftrightarrow>
     ep_executed e \<noteq> [] \<and> list_all2 (read_as N cell V config dbs e) (epoch_order e) raws"

lemma collect_epochs_facts:
  "fold_result (collect_epoch N cell V config dbs) epochs st = Inr st' \<Longrightarrow>
    (\<exists>rss. co_block_inputs st' = co_block_inputs st @ concat rss \<and> list_all2 (epoch_raws N cell V config dbs) epochs rss) \<and>
    (collected_inv N (db_pos dbs) (cp_pos_reference_enable_height (ec_chain config)) st \<longrightarrow>
     collected_inv N (db_pos dbs) (cp_pos_reference_enable_height (ec_chain config)) st')"
proof (induction epochs arbitrary: st)
  case Nil
  then show ?case by (intro conjI exI [of _ "[]"]) simp_all
next
  case (Cons e es)
  then obtain st1 where st1: "collect_epoch N cell V config dbs e st = Inr st1"
    "fold_result (collect_epoch N cell V config dbs) es st1 = Inr st'" by (auto simp: rbind_Inr_iff)
  then obtain pivot where pivot: "last_of (ep_executed e) = Some pivot"
    "fold_result (collect_block N cell V config dbs (ep_number e) (set (ep_skipped e)) pivot)
       (butlast (ep_executed e) @ ep_skipped e @ [pivot]) st = Inr st1"
    by (auto simp: collect_epoch_def rbind_Inr_iff Let_def)
  have ne: "ep_executed e \<noteq> []" "pivot = last (ep_executed e)"
    using pivot(1) by (auto simp: last_of_def split: if_splits)
  note step = collect_blocks_from [OF pivot]
  then obtain raws where raws: "co_block_inputs st1 = co_block_inputs st @ raws" "epoch_raws N cell V config dbs e raws"
    using ne by (auto simp: epoch_raws_def epoch_order_def)
  from Cons.IH [OF st1(2)] obtain rss where "co_block_inputs st' = co_block_inputs st1 @ concat rss"
    "list_all2 (epoch_raws N cell V config dbs) es rss" by blast
  with raws have "co_block_inputs st' = co_block_inputs st @ concat (raws # rss)"
    "list_all2 (epoch_raws N cell V config dbs) (e # es) (raws # rss)" by simp_all
  with Cons.IH [OF st1(2)] step show ?case by blast
qed

lemma collect_blocks_facts:
  assumes "collect_blocks N cell V config dbs epochs = Inr co"
  obtains rss where "co_block_inputs co = concat rss" "list_all2 (epoch_raws N cell V config dbs) epochs rss"
    "collected_inv N (db_pos dbs) (cp_pos_reference_enable_height (ec_chain config)) co"
proof -
  let ?st0 = "\<lparr>co_block_inputs = [], co_min_timestamp = - 1, co_min_height = - 1, co_min_pos_height = - 1,
      co_pos_blocks = Map.empty\<rparr> :: ('a, 'b, 'c) collected_blocks"
  obtain st where st: "fold_result (collect_epoch N cell V config dbs) epochs ?st0 = Inr st"
    "co = (if co_min_pos_height st = - 1 then st\<lparr>co_min_pos_height := 0\<rparr> else st)"
    using assms by (auto simp: collect_blocks_def rbind_Inr_iff)
  have "collected_inv N (db_pos dbs) (cp_pos_reference_enable_height (ec_chain config)) ?st0"
    by (simp add: collected_inv_def)
  with collect_epochs_facts [OF st(1)] obtain rss where "co_block_inputs st = concat rss"
    "list_all2 (epoch_raws N cell V config dbs) epochs rss"
    "collected_inv N (db_pos dbs) (cp_pos_reference_enable_height (ec_chain config)) st" by auto
  then show ?thesis using st(2) by (intro that [of rss]) (auto simp: collected_inv_def)
qed

subsection \<open>The packet\<close>

lemma build_block_inputs_nth:
  assumes "build_block_inputs N cell config pow pb raws = Inr bs"
  shows "length bs = length raws \<and> (\<forall>k < length raws. \<exists>fe.
    finalized_epoch_offset N cell pow pb (raws ! k) (cp_pos_reference_enable_height (ec_chain config)) = Inr fe \<and>
    bs ! k = lower_block N pb (cp_pos_reference_enable_height (ec_chain config)) k (raws ! k) fe)"
  using assms
  by (fastforce simp: build_block_inputs_def Let_def traverse_Inr_iff list_all2_conv_all_nth nth_enumerate_eq rbind_Inr_iff)

text \<open>A block with its PoS data differs from the lowered block in two fields.\<close>

lemma attach_eq:
  "\<exists>r u. attach_unlocks um (attach_rewards pr b) = b\<lparr>b_pos_rewards := r, b_unlock_events := u\<rparr>"
proof -
  obtain r where "attach_rewards pr b = b\<lparr>b_pos_rewards := r\<rparr>"
    by (cases "pr (b_hash b)") (auto simp: attach_rewards_def intro!: that [of "b_pos_rewards b"])
  moreover have "\<exists>u. attach_unlocks um c = c\<lparr>b_unlock_events := u\<rparr>" for c :: "'a block"
  proof (rule exI)
    show "attach_unlocks um c = c\<lparr>b_unlock_events := b_unlock_events (attach_unlocks um c)\<rparr>"
      by (auto simp: attach_unlocks_def split: option.split)
  qed
  ultimately show ?thesis by metis
qed

text \<open>What a returned packet is made of.\<close>

definition made_of ::
  "('h, 'c, 't) node_lib \<Rightarrow> ('t, 'acc, 'auth) tx_lib \<Rightarrow> 'r rlp_view \<Rightarrow> hash_orders \<Rightarrow> u64 option \<Rightarrow> extract_config \<Rightarrow>
   ('i, 'j) databases \<Rightarrow> epoch_blocks list \<Rightarrow> ('h, 'c, 't) collected_blocks \<Rightarrow> ('h, 't) raw_block list list \<Rightarrow> 't packet \<Rightarrow> bool" where
  "made_of N T V orders cell config dbs epochs co rss p \<longleftrightarrow>
     (let pe = cp_pos_reference_enable_height (ec_chain config); raws = concat rss
      in epochs \<noteq> [] \<and> load_epochs (db_pow dbs) V config = Inr epochs \<and>
         co_block_inputs co = raws \<and> list_all2 (epoch_raws N cell V config dbs) epochs rss \<and>
         collected_inv N (db_pos dbs) pe co \<and>
         p_min_timestamp p = co_min_timestamp co \<and> p_min_height p = co_min_height co \<and>
         p_min_pos_height p = co_min_pos_height co \<and>
         build_tables N T orders raws (co_pos_blocks co) (co_min_pos_height co) pe = Inr
           \<lparr>tb_addresses = p_addresses p, tb_pos_entries = p_pos_entries p, tb_difficulties = p_difficulties p,
            tb_sender_base_nonces = p_sender_base_nonces p, tb_gas_prices = p_gas_prices p\<rparr> \<and>
         length (p_blocks p) = length raws \<and>
         (\<forall>k < length raws. \<exists>fe r u.
            finalized_epoch_offset N cell (db_pow dbs) (co_pos_blocks co) (raws ! k) pe = Inr fe \<and>
            p_blocks p ! k = (lower_block N (co_pos_blocks co) pe k (raws ! k) fe)\<lparr>b_pos_rewards := r, b_unlock_events := u\<rparr>))"

text \<open>The phases of an extraction that returned a packet.\<close>

lemma extract_raw_phases:
  assumes "extract_raw N T V orders cell config dbs = Some (Inr p)"
  defines "cell' \<equiv> once_set cell (cp_cip112_transition_height (ec_chain config))"
  obtains epochs boundary co tb bs pr um where
    "load_epochs (db_pow dbs) V config = Inr epochs"
    "read_prev_boundary N cell' (db_pow dbs) V config epochs = Inr boundary"
    "collect_blocks N cell' V config dbs epochs = Inr co"
    "build_tables N T orders (co_block_inputs co) (co_pos_blocks co) (co_min_pos_height co)
       (cp_pos_reference_enable_height (ec_chain config)) = Inr tb"
    "build_block_inputs N cell' config (db_pow dbs) (co_pos_blocks co) (co_block_inputs co) = Inr bs"
    "read_pos_rewards (db_pow dbs) V (set (map b_hash (filter (\<lambda>b. b_flags b AND FLAG_PIVOT \<noteq> 0) bs))) = Some (Inr pr)"
    "collect_unlock_events N cell' V config dbs (co_pos_blocks co) epochs = Some (Inr um)"
    "p = assemble_extracted boundary co tb (map (attach_unlocks um) (map (attach_rewards pr) bs))"
proof -
  obtain epochs boundary co tb bs pr um where plain: "extract_plain N T V orders cell' config dbs = Inr (epochs, boundary, co, tb, bs)"
    and pos: "read_pos_rewards (db_pow dbs) V (set (map b_hash (filter (\<lambda>b. b_flags b AND FLAG_PIVOT \<noteq> 0) bs))) = Some (Inr pr)"
      "collect_unlock_events N cell' V config dbs (co_pos_blocks co) epochs = Some (Inr um)"
      "p = assemble_extracted boundary co tb (map (attach_unlocks um) (map (attach_rewards pr) bs))"
    using assms(1) unfolding extract_raw_def cell'_def [symmetric]
    by (auto simp: Let_def split: if_splits sum.splits option.splits)
  from plain have "load_epochs (db_pow dbs) V config = Inr epochs"
    "read_prev_boundary N cell' (db_pow dbs) V config epochs = Inr boundary"
    "collect_blocks N cell' V config dbs epochs = Inr co"
    "build_tables N T orders (co_block_inputs co) (co_pos_blocks co) (co_min_pos_height co)
       (cp_pos_reference_enable_height (ec_chain config)) = Inr tb"
    "build_block_inputs N cell' config (db_pow dbs) (co_pos_blocks co) (co_block_inputs co) = Inr bs"
    by (auto simp: extract_plain_def rbind_Inr_iff)
  with pos show ?thesis by (intro that)
qed

lemma extract_raw_made_of:
  assumes "extract_raw N T V orders cell config dbs = Some (Inr p)"
  defines "cell' \<equiv> once_set cell (cp_cip112_transition_height (ec_chain config))"
  obtains epochs co rss where "made_of N T V orders cell' config dbs epochs co rss p"
proof -
  obtain epochs boundary co tb bs pr um where phases: "load_epochs (db_pow dbs) V config = Inr epochs"
    "read_prev_boundary N cell' (db_pow dbs) V config epochs = Inr boundary"
    "collect_blocks N cell' V config dbs epochs = Inr co"
    "build_tables N T orders (co_block_inputs co) (co_pos_blocks co) (co_min_pos_height co)
       (cp_pos_reference_enable_height (ec_chain config)) = Inr tb"
    "build_block_inputs N cell' config (db_pow dbs) (co_pos_blocks co) (co_block_inputs co) = Inr bs"
    and p: "p = assemble_extracted boundary co tb (map (attach_unlocks um) (map (attach_rewards pr) bs))"
    unfolding cell'_def by (rule extract_raw_phases [OF assms(1)])
  obtain rss where rss: "co_block_inputs co = concat rss" "list_all2 (epoch_raws N cell' V config dbs) epochs rss"
    "collected_inv N (db_pos dbs) (cp_pos_reference_enable_height (ec_chain config)) co"
    by (rule collect_blocks_facts [OF phases(3)])
  have "epochs \<noteq> []" using phases(2) by (auto simp: read_prev_boundary_def Let_def rbind_Inr_iff)
  moreover note bs = build_block_inputs_nth [OF phases(5), unfolded rss(1)]
  have "\<exists>fe r u. finalized_epoch_offset N cell' (db_pow dbs) (co_pos_blocks co) (concat rss ! k)
         (cp_pos_reference_enable_height (ec_chain config)) = Inr fe \<and>
       attach_unlocks um (attach_rewards pr (bs ! k)) = (lower_block N (co_pos_blocks co)
         (cp_pos_reference_enable_height (ec_chain config)) k (concat rss ! k) fe)\<lparr>b_pos_rewards := r, b_unlock_events := u\<rparr>"
    if "k < length (concat rss)" for k
    using bs attach_eq [of um pr "bs ! k"] that by fastforce
  ultimately have "made_of N T V orders cell' config dbs epochs co rss p"
    using phases(1,4) rss bs unfolding made_of_def Let_def by (simp add: p assemble_extracted_def)
  then show ?thesis by (rule that)
qed

end
