(* ===== verification/Extract_Packet.thy ===== *)
theory Extract_Packet
  imports Extract_Core_Correct
begin

text \<open>
  An extracted packet and the encoder: the tables hold what the blocks refer to, the groups are valid
  where the databases are consistent, and so the extraction returns the bytes of the packet, which
  decode to the packet again.
\<close>

subsection \<open>Blocks\<close>

definition lowered ::
  "('h, 'c, 't) node_lib \<Rightarrow> (h256 \<Rightarrow> 'c option) \<Rightarrow> u64 \<Rightarrow> 't block \<Rightarrow> ('h, 't) raw_block \<Rightarrow> bool" where
  "lowered N pb pe b raw \<longleftrightarrow>
     (\<exists>k fe r u. b = (lower_block N pb pe k raw fe)\<lparr>b_pos_rewards := r, b_unlock_events := u\<rparr>)"

lemma lowered_fields:
  assumes "lowered N pb pe b raw"
  shows "b_epoch b = rb_epoch raw" "b_hash b = rb_hash raw" "b_flags b = rb_flags raw"
    "b_height b = hd_height N (rb_header raw)" "b_timestamp b = hd_timestamp N (rb_header raw)"
    "b_author b = hd_author N (rb_header raw)" "b_difficulty b = hd_difficulty N (rb_header raw)"
    "b_transactions b = rb_body raw" "b_transaction_refs b = []"
    "b_pos_view b = Option.bind (effective_pos_reference N (rb_header raw) pe) (\<lambda>r. map_option (cb_view N) (pb r))"
  using assms by (auto simp: lowered_def lower_block_def Let_def)

lemma made_of_lowered:
  assumes "made_of N T V orders cell config dbs epochs co rss p"
  shows "list_all2 (lowered N (co_pos_blocks co) (cp_pos_reference_enable_height (ec_chain config))) (p_blocks p) (concat rss)"
    and "\<forall>k < length (p_blocks p). b_index (p_blocks p ! k) = k"
proof -
  have nth: "\<exists>fe r u. p_blocks p ! k = (lower_block N (co_pos_blocks co)
        (cp_pos_reference_enable_height (ec_chain config)) k (concat rss ! k) fe)\<lparr>b_pos_rewards := r, b_unlock_events := u\<rparr>"
    if "k < length (concat rss)" for k
    using assms that unfolding made_of_def Let_def by blast
  have len: "length (p_blocks p) = length (concat rss)"
    using assms unfolding made_of_def Let_def by blast
  show "list_all2 (lowered N (co_pos_blocks co) (cp_pos_reference_enable_height (ec_chain config))) (p_blocks p) (concat rss)"
    unfolding list_all2_conv_all_nth lowered_def len using nth by blast
  show "\<forall>k < length (p_blocks p). b_index (p_blocks p ! k) = k"
  proof (intro allI impI)
    fix k assume "k < length (p_blocks p)"
    with nth [of k] len obtain fe r u where "p_blocks p ! k = (lower_block N (co_pos_blocks co)
        (cp_pos_reference_enable_height (ec_chain config)) k (concat rss ! k) fe)\<lparr>b_pos_rewards := r, b_unlock_events := u\<rparr>"
      by auto
    then show "b_index (p_blocks p ! k) = k" by (simp add: lower_block_def Let_def)
  qed
qed

lemma list_all2_concat_split:
  "list_all2 P xs (concat yss) \<Longrightarrow> \<exists>xss. xs = concat xss \<and> list_all2 (list_all2 P) xss yss"
proof (induction yss arbitrary: xs)
  case Nil
  then show ?case by (intro exI [of _ "[]"]) simp
next
  case (Cons ys yss)
  then obtain us vs where "xs = us @ vs" "list_all2 P us ys" "list_all2 P vs (concat yss)"
    by (auto simp: list_all2_append2)
  with Cons.IH [of vs] show ?case by (metis concat.simps(2) list_all2_Cons)
qed

lemma list_all2_snoc2:
  "list_all2 P xs (ys @ [y]) \<Longrightarrow> \<exists>zs z. xs = zs @ [z] \<and> list_all2 P zs ys \<and> P z y"
  by (auto simp: list_all2_append2 list_all2_Cons2)

lemma list_all2_in_set1: "list_all2 P xs ys \<Longrightarrow> x \<in> set xs \<Longrightarrow> \<exists>y \<in> set ys. P x y"
  by (induction rule: list_all2_induct) auto

subsection \<open>Consistent databases\<close>

text \<open>
  The pivot of an epoch is in it once, and its height is the number of the epoch.
\<close>

definition consistent_epoch :: "('h, 'c, 't) node_lib \<Rightarrow> u64 option \<Rightarrow> 'i rocks \<Rightarrow> epoch_blocks \<Rightarrow> bool" where
  "consistent_epoch N cell pow e \<longleftrightarrow>
     last (ep_executed e) \<notin> set (butlast (ep_executed e) @ ep_skipped e) \<and>
     (case read_header N cell pow (last (ep_executed e)) of
        Inr header \<Rightarrow> hd_height N header = ep_number e
      | Inl _ \<Rightarrow> True)"

definition consistent_epochs ::
  "('h, 'c, 't) node_lib \<Rightarrow> 'r rlp_view \<Rightarrow> u64 option \<Rightarrow> 'i rocks \<Rightarrow> extract_config \<Rightarrow> bool" where
  "consistent_epochs N V cell pow config \<longleftrightarrow>
     (case load_epochs pow V config of
        Inr epochs \<Rightarrow> list_all (consistent_epoch N (once_set cell (cp_cip112_transition_height (ec_chain config))) pow) epochs
      | Inl _ \<Rightarrow> True)"

lemma epoch_group_of_raws:
  assumes raws: "epoch_raws N cell V config dbs e raws" and low: "list_all2 (lowered N pb pe) g raws"
    and ok: "consistent_epoch N cell (db_pow dbs) e"
  shows "epoch_group g" "map b_hash g = epoch_order e" "\<forall>b \<in> set g. b_epoch b = ep_number e"
proof -
  let ?front = "butlast (ep_executed e) @ ep_skipped e"
  let ?pivot = "last (ep_executed e)"
  let ?rel = "\<lambda>b h. \<exists>raw. lowered N pb pe b raw \<and> read_as N cell V config dbs e h raw"
  have ne: "ep_executed e \<noteq> []" and all: "list_all2 (read_as N cell V config dbs e) (?front @ [?pivot]) raws"
    using raws by (simp_all add: epoch_raws_def epoch_order_def)
  have rel: "list_all2 ?rel g (?front @ [?pivot])"
    unfolding list_all2_conv_all_nth
  proof (intro conjI allI impI)
    show "length g = length (?front @ [?pivot])"
      using low all by (metis list_all2_lengthD)
    fix i assume "i < length g"
    then have "lowered N pb pe (g ! i) (raws ! i)" "read_as N cell V config dbs e ((?front @ [?pivot]) ! i) (raws ! i)"
      using low all list_all2_nthD2 [OF low] list_all2_nthD2 [OF all] by (auto simp: list_all2_lengthD)
    then show "?rel (g ! i) ((?front @ [?pivot]) ! i)" by blast
  qed
  then obtain gf gl where g: "g = gf @ [gl]" "list_all2 ?rel gf ?front" "?rel gl ?pivot"
    by (rule list_all2_snoc2 [THEN exE]) blast
  have flag: "is_pivot b \<longleftrightarrow> h = ?pivot" "b_flags b AND 0x80 = 0" "b_epoch b = ep_number e" "b_hash b = h"
    if rel: "?rel b h" for b h
  proof -
    obtain raw where raw: "lowered N pb pe b raw" "read_as N cell V config dbs e h raw" using rel by blast
    then have "block_flags N config (rb_header raw) (rb_reward raw) (Some h = last_of (ep_executed e))
        (set (ep_skipped e)) h = Inr (b_flags b)"
      by (simp add: read_as_def lowered_fields)
    from block_flags_bits(1,7) [OF this] ne show "is_pivot b \<longleftrightarrow> h = ?pivot" "b_flags b AND 0x80 = 0"
      by (simp_all add: is_pivot_def last_of_def)
    show "b_epoch b = ep_number e" "b_hash b = h"
      using raw by (simp_all add: read_as_def lowered_fields)
  qed
  obtain raw where raw: "lowered N pb pe gl raw" "read_as N cell V config dbs e ?pivot raw" using g(3) by blast
  then have height: "b_height gl = ep_number e"
    using ok lowered_fields(4) [OF raw(1)] by (simp add: read_as_def consistent_epoch_def)
  have front: "\<exists>h \<in> set ?front. ?rel b h" if "b \<in> set gf" for b
    by (rule list_all2_in_set1 [OF g(2) that])
  have not_pivot: "h \<noteq> ?pivot" if "h \<in> set ?front" for h
    using ok that by (auto simp: consistent_epoch_def)
  show "map b_hash g = epoch_order e"
    using rel flag(4) unfolding epoch_order_def append_assoc [symmetric]
    by (auto simp: list_all2_conv_all_nth intro!: nth_equalityI)
  show ep: "\<forall>b \<in> set g. b_epoch b = ep_number e"
    using front g(1,3) flag(3) by auto
  have "\<forall>b \<in> set g. b_flags b AND 0x80 = 0" using front g(1,3) flag(2) by auto
  moreover have "is_pivot gl" using flag(1) [OF g(3)] by simp
  moreover have "\<forall>b \<in> set gf. \<not> is_pivot b" using front flag(1) not_pivot by blast
  ultimately show "epoch_group g" using ep height by (auto simp: epoch_group_def g(1))
qed

lemma hashes_of_raws:
  assumes "epoch_raws N cell V config dbs e raws" "list_all2 (lowered N pb pe) g raws"
  shows "map b_hash g = epoch_order e" "\<forall>b \<in> set g. b_epoch b = ep_number e"
proof -
  have all: "list_all2 (read_as N cell V config dbs e) (epoch_order e) raws"
    using assms(1) by (simp add: epoch_raws_def)
  have len: "length g = length (epoch_order e)" using assms(2) all by (metis list_all2_lengthD)
  have nth: "b_hash (g ! i) = epoch_order e ! i" "b_epoch (g ! i) = ep_number e" if "i < length g" for i
    using list_all2_nthD [OF assms(2) that] list_all2_nthD [OF all, of i] that len
    by (simp_all add: lowered_fields read_as_def)
  then show "map b_hash g = epoch_order e" using len by (intro nth_equalityI) simp_all
  show "\<forall>b \<in> set g. b_epoch b = ep_number e" using nth(2) by (metis in_set_conv_nth)
qed

lemma list_all2_map_eq: "list_all2 P xs ys \<Longrightarrow> (\<And>x y. P x y \<Longrightarrow> f y = x) \<Longrightarrow> map f ys = xs"
  by (induction rule: list_all2_induct) auto

lemma load_epochs_numbers:
  assumes "load_epochs pow V config = Inr epochs"
  shows "map ep_number epochs =
      map of_nat [unat (ec_start_epoch config) ..< unat (ec_start_epoch config + ec_epoch_count config)]"
proof -
  have "list_all2 (\<lambda>n e. load_epoch pow V n = Inr e)
      (map of_nat [unat (ec_start_epoch config) ..< unat (ec_start_epoch config + ec_epoch_count config)]) epochs"
    using assms by (simp only: load_epochs_def traverse_Inr_iff)
  moreover have "load_epoch pow V n = Inr e \<Longrightarrow> ep_number e = n" for n e
    by (auto simp: load_epoch_def rbind_Inr_iff)
  ultimately show ?thesis by (rule list_all2_map_eq)
qed

lemma list_all2_group_map:
  assumes "list_all2 P es rss" "list_all2 Q gs rss" "\<And>e rs g. e \<in> set es \<Longrightarrow> P e rs \<Longrightarrow> Q g rs \<Longrightarrow> R e g"
  shows "list_all2 R es gs"
  unfolding list_all2_conv_all_nth
proof (intro conjI allI impI)
  show "length es = length gs" using assms(1,2) by (simp add: list_all2_lengthD)
  fix i assume "i < length es"
  with assms(1,2) have "es ! i \<in> set es" "P (es ! i) (rss ! i)" "Q (gs ! i) (rss ! i)"
    by (simp_all add: list_all2_conv_all_nth)
  then show "R (es ! i) (gs ! i)" by (rule assms(3))
qed

lemma made_of_groups:
  assumes made: "made_of N T V orders cell config dbs epochs co rss p"
  obtains gs where "p_blocks p = concat gs" "list_all2 (\<lambda>e g. \<exists>raws. epoch_raws N cell V config dbs e raws \<and>
      list_all2 (lowered N (co_pos_blocks co) (cp_pos_reference_enable_height (ec_chain config))) g raws) epochs gs"
proof -
  let ?low = "lowered N (co_pos_blocks co) (cp_pos_reference_enable_height (ec_chain config))"
  obtain gs where gs: "p_blocks p = concat gs" "list_all2 (list_all2 ?low) gs rss"
    using list_all2_concat_split [OF made_of_lowered(1) [OF made]] by blast
  have "list_all2 (epoch_raws N cell V config dbs) epochs rss" using made by (simp add: made_of_def Let_def)
  then have "list_all2 (\<lambda>e g. \<exists>raws. epoch_raws N cell V config dbs e raws \<and> list_all2 ?low g raws) epochs gs"
    using gs(2) by (rule list_all2_group_map) (rule exI, rule conjI)
  with gs(1) show ?thesis by (rule that)
qed

lemma made_of_hashes:
  assumes made: "made_of N T V orders cell config dbs epochs co rss p"
  shows "map b_hash (p_blocks p) = concat (map epoch_order epochs)"
    and "map b_epoch (p_blocks p) = concat (map (\<lambda>e. map (\<lambda>_. ep_number e) (epoch_order e)) epochs)"
proof -
  obtain gs where gs: "p_blocks p = concat gs" "list_all2 (\<lambda>e g. \<exists>raws. epoch_raws N cell V config dbs e raws \<and>
      list_all2 (lowered N (co_pos_blocks co) (cp_pos_reference_enable_height (ec_chain config))) g raws) epochs gs"
    by (rule made_of_groups [OF made])
  have "list_all2 (\<lambda>e g. map b_hash g = epoch_order e \<and> (\<forall>b \<in> set g. b_epoch b = ep_number e)) epochs gs"
    by (rule list_all2_mono [OF gs(2)]) (metis hashes_of_raws)
  then have "map b_hash (concat gs) = concat (map epoch_order epochs) \<and>
      map b_epoch (concat gs) = concat (map (\<lambda>e. map (\<lambda>_. ep_number e) (epoch_order e)) epochs)"
  proof (induction rule: list_all2_induct)
    case (Cons e es g gs)
    then have "map b_epoch g = map (\<lambda>_. ep_number e) g" by simp
    also have "\<dots> = map (\<lambda>_. ep_number e) (epoch_order e)"
      using Cons by (metis length_map map_replicate_const)
    finally show ?case using Cons by simp
  qed simp
  then show "map b_hash (p_blocks p) = concat (map epoch_order epochs)"
    "map b_epoch (p_blocks p) = concat (map (\<lambda>e. map (\<lambda>_. ep_number e) (epoch_order e)) epochs)"
    by (simp_all add: gs(1))
qed

lemma epoch_order_not_Nil [simp]: "epoch_order e \<noteq> []"
  by (simp add: epoch_order_def)

lemma made_of_valid:
  assumes made: "made_of N T V orders cell config dbs epochs co rss p"
    and ok: "list_all (consistent_epoch N cell (db_pow dbs)) epochs"
    and range: "ec_start_epoch config \<le> ec_start_epoch config + PACKET_EPOCHS"
  shows "validate_input p = Inr ()"
proof -
  obtain gs where gs: "p_blocks p = concat gs" "list_all2 (\<lambda>e g. \<exists>raws. epoch_raws N cell V config dbs e raws \<and>
      list_all2 (lowered N (co_pos_blocks co) (cp_pos_reference_enable_height (ec_chain config))) g raws) epochs gs"
    by (rule made_of_groups [OF made])
  have "list_all2 (\<lambda>e g. epoch_group g) epochs gs"
  proof (rule list_all2_group_map [OF gs(2) list_all2_refl [where P = "(=)"]])
    fix e g g'
    assume "e \<in> set epochs" "\<exists>raws. epoch_raws N cell V config dbs e raws \<and>
      list_all2 (lowered N (co_pos_blocks co) (cp_pos_reference_enable_height (ec_chain config))) g raws" "g' = g"
    moreover from this(1) ok have "consistent_epoch N cell (db_pow dbs) e" by (simp add: list_all_iff)
    ultimately show "epoch_group g'" using epoch_group_of_raws(1) by blast
  qed simp
  then have groups: "\<forall>g \<in> set gs. epoch_group g" by (auto simp: list_all2_conv_all_nth in_set_conv_nth)
  have "\<forall>k < length (concat gs). b_index (concat gs ! k) = 0 + k"
    using made_of_lowered(2) [OF made] by (simp add: gs(1))
  then have "validate_groups 0 (p_blocks p) = Inr ()"
    unfolding gs(1) by (rule validate_groups_ok [OF groups])
  moreover obtain e es where epochs: "epochs = e # es"
    using made by (cases epochs) (auto simp: made_of_def Let_def)
  have load: "load_epochs (db_pow dbs) V config = Inr epochs" using made by (simp add: made_of_def Let_def)
  have "ep_number e = ec_start_epoch config"
    using load_epochs_numbers [OF load] by (cases "unat (ec_start_epoch config) < unat (ec_start_epoch config + ec_epoch_count config)")
      (simp_all add: epochs upt_rec)
  moreover have "p_blocks p \<noteq> [] \<and> b_epoch (hd (p_blocks p)) = ep_number e"
    using made_of_hashes(2) [OF made] by (cases "epoch_order e") (auto simp: epochs map_eq_Cons_conv)
  ultimately show ?thesis using range by (simp add: validate_input_def)
qed

subsection \<open>Tables and minima\<close>

text \<open>The iteration orders yield every entry once.\<close>

definition lawful_orders :: "hash_orders \<Rightarrow> bool" where
  "lawful_orders orders \<longleftrightarrow> iteration_order (ho_addresses orders) \<and> iteration_order (ho_gas_prices orders) \<and>
     iteration_order (ho_nonces orders)"

text \<open>The tables as functions of the blocks, without a hash map.\<close>

definition reference_tables ::
  "('h, 'c, 't) node_lib \<Rightarrow> ('t, 'acc, 'auth) tx_lib \<Rightarrow> ('h, 't) raw_block list \<Rightarrow> (h256 \<Rightarrow> 'c option) \<Rightarrow> u64 \<Rightarrow> u64 \<Rightarrow> tables" where
  "reference_tables N T blocks pos_blocks m pe =
     (let addresses = ranked (concat (map (raw_addresses N T) blocks));
          prices = concat (map (raw_prices N T) blocks)
      in \<lparr>tb_addresses = addresses,
          tb_pos_entries = map (pos_entry N pos_blocks m) (first_seen (pos_refs N pe blocks)),
          tb_difficulties = first_seen (map (\<lambda>b. hd_difficulty N (rb_header b)) blocks),
          tb_sender_base_nonces = List.map_filter
            (\<lambda>i. sender_entry (i, nonces_of T (index_table addresses) i (concat (map rb_body blocks)))) [0..<length addresses],
          tb_gas_prices = take 16 (filter (\<lambda>x. 3 < count_list prices x) (ranked prices))\<rparr>)"

lemma build_tables_reference:
  assumes "lawful_orders orders"
  shows "build_tables N T orders blocks pos_blocks m pe = Inr tb \<longleftrightarrow>
    (\<forall>ref \<in> set (pos_refs N pe blocks). pos_fits N pos_blocks m ref) \<and>
    tb = reference_tables N T blocks pos_blocks m pe"
proof -
  have orders: "iteration_order (ho_addresses orders)" "iteration_order (ho_gas_prices orders)"
    "iteration_order (ho_nonces orders)"
    using assms by (simp_all add: lawful_orders_def)
  have small: "i < length xs" if "index_table xs a = Some i" for xs :: "address list" and a i
    using index_table_Some [OF that] by simp
  have nonces: "build_sender_base_nonce_table T (ho_nonces orders) blocks (index_table xs) =
      List.map_filter (\<lambda>i. sender_entry (i, nonces_of T (index_table xs) i (concat (map rb_body blocks)))) [0..<length xs]"
    for xs by (rule build_sender_base_nonce_table_eq [OF orders(3) small])
  show ?thesis
    unfolding build_tables_def reference_tables_def build_address_table_ranked [OF orders(1)]
      build_gas_price_table_ranked [OF orders(2)] build_difficulty_table_eq Let_def nonces
    by (auto simp: rbind_Inr_iff build_pos_lookup_eq)
qed

lemma reference_addresses:
  assumes "raw \<in> set blocks"
  shows "hd_author N (rb_header raw) \<in> set (tb_addresses (reference_tables N T blocks pos_blocks m pe))"
    and "hd_difficulty N (rb_header raw) \<in> set (tb_difficulties (reference_tables N T blocks pos_blocks m pe))"
    and "tx \<in> set (rb_body raw) \<Longrightarrow> tl_sender T tx \<in> set (tb_addresses (reference_tables N T blocks pos_blocks m pe))"
    and "tx \<in> set (rb_body raw) \<Longrightarrow> tl_action T tx = Call a \<Longrightarrow>
      a \<in> set (tb_addresses (reference_tables N T blocks pos_blocks m pe))"
  using assms by (force simp: reference_tables_def Let_def raw_addresses_def tx_addresses_def)+

lemma reference_distinct:
  "distinct (tb_addresses (reference_tables N T blocks pos_blocks m pe))"
  "distinct (tb_difficulties (reference_tables N T blocks pos_blocks m pe))"
  "length (tb_gas_prices (reference_tables N T blocks pos_blocks m pe)) \<le> 16"
  by (simp_all add: reference_tables_def Let_def)

lemma reference_nonces:
  fixes N :: "('h, 'c, 't) node_lib"
  defines "tb \<equiv> \<lambda>T blocks pos_blocks m pe. reference_tables (N :: ('h, 'c, 't) node_lib) T blocks pos_blocks m pe"
  shows "distinct (map sn_sender_index (tb_sender_base_nonces (tb T blocks pos_blocks m pe)))"
    and "\<forall>e \<in> set (tb_sender_base_nonces (tb T blocks pos_blocks m pe)).
      sn_sender_index e < length (tb_addresses (tb T blocks pos_blocks m pe))"
    and "e \<in> set (tb_sender_base_nonces (tb T blocks pos_blocks m pe)) \<Longrightarrow> raw \<in> set blocks \<Longrightarrow> tx \<in> set (rb_body raw) \<Longrightarrow>
      index_table (tb_addresses (tb T blocks pos_blocks m pe)) (tl_sender T tx) = Some (sn_sender_index e) \<Longrightarrow>
      sn_base_nonce e \<le> low_u64 (tl_nonce T tx)"
proof -
  define ai where "ai = index_table (tb_addresses (tb T blocks pos_blocks m pe))"
  have small: "i < length (tb_addresses (tb T blocks pos_blocks m pe))" if "ai a = Some i" for a i
    using index_table_Some [OF that [unfolded ai_def]] by simp
  have law: "iteration_order (\<lambda>n. [0..<n])" by (simp add: iteration_order_def)
  have eq: "tb_sender_base_nonces (tb T blocks pos_blocks m pe) =
      build_sender_base_nonce_table T (\<lambda>n. [0..<n]) blocks ai"
  proof -
    have "build_sender_base_nonce_table T (\<lambda>n. [0..<n]) blocks ai = List.map_filter
        (\<lambda>i. sender_entry (i, nonces_of T ai i (concat (map rb_body blocks))))
        [0..<length (tb_addresses (tb T blocks pos_blocks m pe))]"
      by (rule build_sender_base_nonce_table_eq [OF law small])
    then show ?thesis by (simp only:) (simp add: tb_def reference_tables_def Let_def ai_def)
  qed
  show "distinct (map sn_sender_index (tb_sender_base_nonces (tb T blocks pos_blocks m pe)))"
    unfolding eq by (rule sender_base_nonces_sorted(2) [OF law small])
  show "\<forall>e \<in> set (tb_sender_base_nonces (tb T blocks pos_blocks m pe)).
      sn_sender_index e < length (tb_addresses (tb T blocks pos_blocks m pe))"
    unfolding eq by (rule sender_base_nonces_sorted(3) [OF law small])
  assume e: "e \<in> set (tb_sender_base_nonces (tb T blocks pos_blocks m pe))" "raw \<in> set blocks" "tx \<in> set (rb_body raw)"
    "index_table (tb_addresses (tb T blocks pos_blocks m pe)) (tl_sender T tx) = Some (sn_sender_index e)"
  show "sn_base_nonce e \<le> low_u64 (tl_nonce T tx)"
    by (rule base_nonce_below [OF law _ e [unfolded eq, folded ai_def]]) (rule small)
qed

end
