(* ===== verification/Extract_Encode.thy ===== *)
theory Extract_Encode
  imports Extract_Packet
begin

text \<open>
  From the databases to the bytes: an extraction returns, its packet is encoded and accepted by the
  verifier, and the bytes decode to the extracted packet.
\<close>

subsection \<open>The blocks and the tables of one packet\<close>

lemma made_of_tables:
  assumes made: "made_of N T V orders cell config dbs epochs co rss p" and orders: "lawful_orders orders"
  defines "tb \<equiv> reference_tables N T (concat rss) (co_pos_blocks co) (co_min_pos_height co)
    (cp_pos_reference_enable_height (ec_chain config))"
  shows "p_addresses p = tb_addresses tb" "p_pos_entries p = tb_pos_entries tb" "p_difficulties p = tb_difficulties tb"
    "p_sender_base_nonces p = tb_sender_base_nonces tb" "p_gas_prices p = tb_gas_prices tb"
    "\<forall>ref \<in> set (pos_refs N (cp_pos_reference_enable_height (ec_chain config)) (concat rss)).
       pos_fits N (co_pos_blocks co) (co_min_pos_height co) ref"
proof -
  have "build_tables N T orders (concat rss) (co_pos_blocks co) (co_min_pos_height co)
      (cp_pos_reference_enable_height (ec_chain config)) = Inr
           \<lparr>tb_addresses = p_addresses p, tb_pos_entries = p_pos_entries p, tb_difficulties = p_difficulties p,
            tb_sender_base_nonces = p_sender_base_nonces p, tb_gas_prices = p_gas_prices p\<rparr>"
    using made by (simp add: made_of_def Let_def)
  then have "\<lparr>tb_addresses = p_addresses p, tb_pos_entries = p_pos_entries p, tb_difficulties = p_difficulties p,
      tb_sender_base_nonces = p_sender_base_nonces p, tb_gas_prices = p_gas_prices p\<rparr> = tb"
    and refs: "\<forall>ref \<in> set (pos_refs N (cp_pos_reference_enable_height (ec_chain config)) (concat rss)).
       pos_fits N (co_pos_blocks co) (co_min_pos_height co) ref"
    unfolding build_tables_reference [OF orders] tb_def by blast+
  from this(1) show "p_addresses p = tb_addresses tb" "p_pos_entries p = tb_pos_entries tb"
    "p_difficulties p = tb_difficulties tb" "p_sender_base_nonces p = tb_sender_base_nonces tb"
    "p_gas_prices p = tb_gas_prices tb" by (metis tables.select_convs)+
  show "\<forall>ref \<in> set (pos_refs N (cp_pos_reference_enable_height (ec_chain config)) (concat rss)).
       pos_fits N (co_pos_blocks co) (co_min_pos_height co) ref" by (rule refs)
qed

text \<open>What the tables and the minima of a packet promise its blocks.\<close>

definition block_in_tables :: "('t, 'acc, 'auth) tx_lib \<Rightarrow> u64 \<Rightarrow> 't packet \<Rightarrow> 't block \<Rightarrow> bool" where
  "block_in_tables T pe p b \<longleftrightarrow>
     b_author b \<in> set (p_addresses p) \<and> b_difficulty b \<in> set (p_difficulties p) \<and>
     p_min_timestamp p \<le> b_timestamp b \<and> p_min_height p \<le> b_height b \<and>
     b_transaction_refs b = [] \<and>
     (\<forall>tx \<in> set (b_transactions b). tx_addressed T p tx \<and>
        base_nonce_for p (tl_sender T tx) \<le> low_u64 (tl_nonce T tx)) \<and>
     (b_height b < pe \<longrightarrow> b_pos_view b = None) \<and>
     (\<forall>v. b_pos_view b = Some v \<longrightarrow> p_min_pos_height p \<le> v)"

lemma made_of_in_tables:
  assumes made: "made_of N T V orders cell config dbs epochs co rss p" and orders: "lawful_orders orders"
    and b: "b \<in> set (p_blocks p)"
  shows "block_in_tables T (cp_pos_reference_enable_height (ec_chain config)) p b"
proof -
  let ?pe = "cp_pos_reference_enable_height (ec_chain config)"
  obtain raw where raw: "raw \<in> set (concat rss)" "lowered N (co_pos_blocks co) ?pe b raw"
    using list_all2_in_set1 [OF made_of_lowered(1) [OF made] b] by blast
  note tables = made_of_tables [OF made orders]
  note inv = made [unfolded made_of_def Let_def]
  have "collected_inv N (db_pos dbs) ?pe co" "co_block_inputs co = concat rss" and mins: "p_min_timestamp p = co_min_timestamp co"
    "p_min_height p = co_min_height co" "p_min_pos_height p = co_min_pos_height co"
    using inv by blast+
  then have low: "co_min_timestamp co \<le> hd_timestamp N (rb_header raw)" "co_min_height co \<le> hd_height N (rb_header raw)"
    and view: "\<And>r c. co_pos_blocks co r = Some c \<Longrightarrow> co_min_pos_height co \<le> cb_view N c"
    using raw(1) by (auto simp: collected_inv_def)
  have "tx_addressed T p tx \<and> base_nonce_for p (tl_sender T tx) \<le> low_u64 (tl_nonce T tx)"
    if tx: "tx \<in> set (rb_body raw)" for tx
  proof
    show "tx_addressed T p tx"
      using reference_addresses(3,4) [OF raw(1) tx, where N = N and T = T and pos_blocks = "co_pos_blocks co"]
      by (simp add: tx_addressed_def tables(1))
    show "base_nonce_for p (tl_sender T tx) \<le> low_u64 (tl_nonce T tx)"
    proof (cases "index_table (p_addresses p) (tl_sender T tx)")
      case (Some i)
      show ?thesis
      proof (cases "find (\<lambda>e. sn_sender_index e = i) (p_sender_base_nonces p)")
        case (Some e)
        then have "e \<in> set (p_sender_base_nonces p)" "sn_sender_index e = i" by (auto simp: find_Some_iff)
        with reference_nonces(3) [OF _ raw(1) tx] \<open>index_table _ _ = Some i\<close>
        have "sn_base_nonce e \<le> low_u64 (tl_nonce T tx)" unfolding tables(1,4) by metis
        with Some \<open>index_table _ _ = Some i\<close> show ?thesis
          by (simp add: base_nonce_for_def base_nonce_of_def index_addresses_def)
      qed (simp add: base_nonce_for_def base_nonce_of_def index_addresses_def Some)
    qed (simp add: base_nonce_for_def index_addresses_def)
  qed
  moreover have "b_height b < ?pe \<longrightarrow> b_pos_view b = None"
    by (simp add: lowered_fields [OF raw(2)] effective_pos_reference_def)
  moreover have "\<forall>v. b_pos_view b = Some v \<longrightarrow> p_min_pos_height p \<le> v"
    using view by (auto simp: lowered_fields(10) [OF raw(2)] mins(3) bind_eq_Some_conv)
  ultimately show ?thesis
    using reference_addresses(1,2) [OF raw(1), where N = N and T = T and pos_blocks = "co_pos_blocks co"] low
    by (simp add: block_in_tables_def lowered_fields(4-9) [OF raw(2)] tables(1,3) mins(1,2))
qed

subsection \<open>The encoder on an extracted packet\<close>

text \<open>The ranges a block record can hold.\<close>

definition values_fit :: "'t packet \<Rightarrow> bool" where
  "values_fit p \<longleftrightarrow> (\<forall>b \<in> set (p_blocks p). unat (b_gas_limit b) < 2 ^ 54 \<and> unat (b_base_price_core b) < 2 ^ 54 \<and>
     unat (b_base_price_espace b) < 2 ^ 54 \<and> unat (b_base_reward b) < 2 ^ 86)"

lemma made_of_encodable:
  assumes made: "made_of N T V orders cell config dbs epochs co rss p" and orders: "lawful_orders orders"
    and ok: "list_all (consistent_epoch N cell (db_pow dbs)) epochs"
    and range: "ec_start_epoch config \<le> ec_start_epoch config + PACKET_EPOCHS"
    and fit: "values_fit p" "head_bound p < 2 ^ 32"
  shows "packet_encodable T p"
  using made_of_valid [OF made ok range] made_of_in_tables [OF made orders] fit
  by (auto simp: packet_encodable_def block_encodable_def block_in_tables_def values_fit_def)

lemma made_of_nonce_table:
  assumes "made_of N T V orders cell config dbs epochs co rss p" "lawful_orders orders" "head_bound p < 2 ^ 32"
  shows "distinct (map sn_sender_index (p_sender_base_nonces p))"
    "\<forall>e \<in> set (p_sender_base_nonces p). sn_sender_index e < 2 ^ 64"
proof -
  note tables = made_of_tables [OF assms(1,2)]
  show "distinct (map sn_sender_index (p_sender_base_nonces p))"
    unfolding tables(4) by (rule reference_nonces(1))
  have "length (p_addresses p) < 2 ^ 32" using assms(3) by (simp add: head_bound_def table_bytes_def)
  moreover have "\<forall>e \<in> set (p_sender_base_nonces p). sn_sender_index e < length (p_addresses p)"
    unfolding tables(1,4) by (rule reference_nonces(2))
  ultimately show "\<forall>e \<in> set (p_sender_base_nonces p). sn_sender_index e < 2 ^ 64" by fastforce
qed

lemma segment_bound_u32: "\<forall>p \<in> set ps. length p < 2 ^ 32 \<Longrightarrow> segment_bound ps \<le> 2 ^ 34 * length ps"
  by (induction ps) (auto simp: segment_bound_def)

text \<open>The report of an extraction.\<close>

definition report_of :: "extract_config \<Rightarrow> 't packet \<Rightarrow> bytes \<Rightarrow> extract_report" where
  "report_of config p data =
     \<lparr>er_start_epoch = ec_start_epoch config, er_epoch_count = ec_epoch_count config,
      er_block_count = length (p_blocks p),
      er_transaction_count = (\<Sum>b\<leftarrow>p_blocks p. item_count b) mod 2 ^ 32,
      er_packet_bytes = length data, er_output = path_new\<rparr>"

lemma encoded_returns:
  assumes raw: "extract_raw N T V orders cell config dbs = Some (Inr p)" and orders: "lawful_orders orders"
    and ok: "consistent_epochs N V cell (db_pow dbs) config"
    and range: "ec_start_epoch config \<le> ec_start_epoch config + PACKET_EPOCHS"
    and fit: "values_fit p" "head_bound p < 2 ^ 32"
    and small: "\<forall>payloads. packet_payloads T R p = Inr payloads \<longrightarrow> (\<forall>x \<in> set payloads. length x < 2 ^ 32)"
    and libs: "rlp_law R" "snap_law S" "snap_total S"
  shows "\<exists>data. encode_packet T R S p = Inr data \<and> length data < 2 ^ 64 \<and>
    encoded N T R S V orders cell dbs config = Some (Inr (data, report_of config p data))"
proof -
  let ?cell = "once_set cell (cp_cip112_transition_height (ec_chain config))"
  obtain epochs co rss where made: "made_of N T V orders ?cell config dbs epochs co rss p"
    by (rule extract_raw_made_of [OF raw])
  have "list_all (consistent_epoch N ?cell (db_pow dbs)) epochs"
    using ok made by (simp add: consistent_epochs_def made_of_def Let_def)
  from made_of_encodable [OF made orders this range fit] have enc: "packet_encodable T p" .
  obtain payloads data where data: "packet_payloads T R p = Inr payloads" "encode_packet T R S p = Inr data"
    "length data \<le> head_bound p + segment_bound payloads"
    using encode_packet_total [OF enc libs(3), of R] small by blast
  have count: "length (p_blocks p) < 2 ^ 24" using fit(2) by (simp add: head_bound_def)
  have "segment_bound payloads \<le> 2 ^ 34 * length payloads"
    using small data(1) by (intro segment_bound_u32) blast
  also have "length payloads = length (p_blocks p)" by (rule length_encode_payloads [OF data(1)])
  finally have len: "length data < 2 ^ 64" using data(3) fit(2) count by simp
  from verify_encode_packet [OF data(2) len libs(1,2) made_of_nonce_table(2) [OF made orders fit(2)]]
  obtain n where "verify_packet R S data = Inr
    \<lparr>vr_packet_bytes = length data, vr_first_block_number = p_first_block_number p,
     vr_min_timestamp = p_min_timestamp p, vr_min_height = p_min_height p,
     vr_min_pos_height = ucast (p_min_pos_height p), vr_block_prefix_size = of_nat n,
     vr_block_count = of_nat (length (p_blocks p)),
     vr_transaction_blocks = of_nat (length (filter (\<lambda>b. item_count b \<noteq> 0) (p_blocks p))),
     vr_transaction_items = of_nat (sum_list (map item_count (p_blocks p)))\<rparr>" by blast
  moreover have "unat (of_nat (length (p_blocks p)) :: u32) = length (p_blocks p)"
    using count by (intro unat_of_nat_u32) simp
  moreover have "unat (of_nat m :: u32) = m mod 2 ^ 32" for m
    by (simp add: unsigned_of_nat take_bit_eq_mod)
  ultimately show ?thesis using data(2) len
    by (simp add: encoded_def raw report_of_def)
qed

subsection \<open>Decoding an extracted packet\<close>

text \<open>
  What the format cannot represent: a nonce or a gas amount of more than 64 bits, a transaction type
  the format has no item for, and a block from the enabling height on without a PoS reference.
\<close>

definition representable :: "('t, 'acc, 'auth) tx_lib \<Rightarrow> u64 \<Rightarrow> 't packet \<Rightarrow> bool" where
  "representable T pe p \<longleftrightarrow> p_min_pos_height p < 2 ^ 32 \<and>
     inj_on (tl_hash T) (\<Union>b \<in> set (p_blocks p). set (b_transactions b)) \<and>
     (\<forall>b \<in> set (p_blocks p). distinct (map (tl_hash T) (b_transactions b)) \<and> length (b_transactions b) < 2 ^ 64 \<and>
        (\<forall>tx \<in> set (b_transactions b). unat (tl_nonce T tx) < 2 ^ 64 \<and> unat (tl_gas T tx) < 2 ^ 64 \<and> type_ok T tx) \<and>
        (pe \<le> b_height b \<longrightarrow> b_pos_view b \<noteq> None))"

lemma encoded_decodes:
  assumes raw: "extract_raw N T V orders cell config dbs = Some (Inr p)" and orders: "lawful_orders orders"
    and fit: "representable T (cp_pos_reference_enable_height (ec_chain config)) p" "head_bound p < 2 ^ 32"
    and data: "encode_packet T R S p = Inr data" "length data < 2 ^ 64"
    and libs: "rlp_law R" "snap_law S"
  shows "\<exists>bs. decode_packet_ext T R S data (cp_pos_reference_enable_height (ec_chain config)) = Inr (p\<lparr>p_blocks := bs\<rparr>) \<and>
    list_all2 (returned T) (p_blocks p) bs"
proof -
  let ?pe = "cp_pos_reference_enable_height (ec_chain config)"
  obtain epochs co rss where made: "made_of N T V orders (once_set cell (cp_cip112_transition_height (ec_chain config)))
      config dbs epochs co rss p"
    by (rule extract_raw_made_of [OF raw])
  note nonces = made_of_nonce_table [OF made orders fit(2)]
  note tab = made_of_in_tables [OF made orders]
  have plain: "plain_packet T p"
    using fit(1) tab by (auto simp: plain_packet_def plain_block_def representable_def block_in_tables_def)
  have pos: "\<forall>b \<in> set (p_blocks p). pos_view_ok (p_min_pos_height p) ?pe b"
  proof
    fix b assume b: "b \<in> set (p_blocks p)"
    with fit(1) have "?pe \<le> b_height b \<longrightarrow> b_pos_view b \<noteq> None" by (auto simp: representable_def)
    with tab [OF b] show "pos_view_ok (p_min_pos_height p) ?pe b"
      by (auto simp: pos_view_ok_def block_in_tables_def)
  qed
  have "txs_fit T p (p_blocks p)"
    using fit(1) tab by (auto simp: txs_fit_def tx_encodable_def representable_def block_in_tables_def)
  moreover have "p_min_pos_height p < 2 ^ 32" using fit(1) by (simp add: representable_def)
  ultimately show ?thesis
    using plain_round_trip [OF data libs plain nonces _ pos] by blast
qed

subsection \<open>The extraction returns\<close>

lemma unlocks_from_returns:
  assumes "\<And>s e. read_unlock_events (db_pos dbs) s e \<noteq> None"
  shows "unlocks_from N cell dbs pb pe epochs st \<noteq> None"
proof (induction epochs arbitrary: st)
  case (Cons e es)
  have read: "(read_unlock_events (db_pos dbs) s e = None) = False" for s e using assms by simp
  have step: "(epoch_unlocks N (db_pos dbs) pb (ep_number e) ref st = None) = False" for ref
    by (auto simp: epoch_unlocks_def read split: option.split sum.split)
  have rest: "(unlocks_from N cell dbs pb pe es st = None) = False" for st using Cons.IH by simp
  show ?case by (auto simp: Let_def step rest simp del: not_None_eq split: sum.split option.split)
qed simp

lemma extract_raw_returns:
  assumes "column (db_pow dbs) COL_REWARD_BY_POS_EPOCH rewards"
    and "column (db_pos dbs) ''event'' events" "\<forall>(k, v) \<in> set events. 8 \<le> length k"
  shows "extract_raw N T V orders cell config dbs \<noteq> None"
proof -
  have "read_unlock_events (db_pos dbs) s e \<noteq> None" for s e
    by (simp add: read_unlock_events_range [OF assms(2,3)])
  from unlocks_from_returns [OF this]
  have unlocks: "(collect_unlock_events N cell V config dbs pb epochs = None) = False" for cell pb epochs
    by (auto simp: collect_unlock_events_def split: sum.split)
  have rewards: "(read_pos_rewards (db_pow dbs) V pivots = None) = False" for pivots
    by (simp add: read_pos_rewards_column [OF assms(1)])
  show ?thesis
    by (auto simp: extract_raw_def Let_def unlocks rewards split: sum.split option.split)
qed

end
