(* ===== verification/Extract_Source.thy ===== *)
theory Extract_Source
  imports Extract_Encode
begin

text \<open>
  What a packet holds of the databases it was extracted from, stated over the databases alone: the
  fields of a block are those of its header, its body and its reward record, its PoS data what the
  column of rewards and the column of events hold for it. An extracted packet is such a packet.
\<close>

subsection \<open>A block and what is stored under its hash\<close>

text \<open>The fields that are copied from the header.\<close>

definition header_fields :: "('h, 'c, 't) node_lib \<Rightarrow> 'h \<Rightarrow> 't block \<Rightarrow> bool" where
  "header_fields N header b \<longleftrightarrow>
     b_deferred_state_root b = hd_deferred_state_root N header \<and>
     b_deferred_receipts_root b = hd_deferred_receipts_root N header \<and>
     b_deferred_logs_bloom_hash b = hd_deferred_logs_bloom_hash N header \<and>
     b_author b = hd_author N header \<and> b_timestamp b = hd_timestamp N header \<and>
     b_difficulty b = hd_difficulty N header \<and> b_gas_limit b = hd_gas_limit N header \<and>
     b_height b = hd_height N header \<and> unat (b_blame b) = unat (hd_blame N header) \<and>
     (b_base_price_core b, b_base_price_espace b) = (case hd_base_price N header of Some prices \<Rightarrow> prices | None \<Rightarrow> (0, 0))"

text \<open>The flags: the place in the epoch, the header and the reward decide all of them.\<close>

definition flags_as_read ::
  "('h, 'c, 't) node_lib \<Rightarrow> extract_config \<Rightarrow> epoch_blocks \<Rightarrow> 'h \<Rightarrow> block_reward_result \<Rightarrow> 't block \<Rightarrow> bool" where
  "flags_as_read N config e header reward b \<longleftrightarrow>
     (b_flags b AND FLAG_ADAPTIVE \<noteq> 0 \<longleftrightarrow> hd_adaptive N header) \<and>
     (b_flags b AND FLAG_PIVOT \<noteq> 0 \<longleftrightarrow> b_hash b = last (ep_executed e)) \<and>
     (b_flags b AND FLAG_ESPACE \<noteq> 0 \<longleftrightarrow> b_hash b = last (ep_executed e) \<and>
        hd_height N header mod cp_evm_transaction_block_ratio (ec_chain config) = 0) \<and>
     (b_flags b AND FLAG_SKIPPED_EXECUTION \<noteq> 0 \<longleftrightarrow> b_hash b \<in> set (ep_skipped e)) \<and>
     (b_flags b AND FLAG_ZERO_TOTAL_REWARD \<noteq> 0 \<longleftrightarrow> br_total_reward reward = 0) \<and>
     b_flags b AND FLAG_HAS_TRANSACTIONS = 0 \<and> b_flags b AND FLAG_TX_COMPRESSED = 0 \<and> b_flags b AND 0x80 = 0"

text \<open>
  The PoS reference of a header counts from the enabling height on. The view is that of the committed
  block it names, the finalized epoch the distance of the epoch to the block this commits.
\<close>

definition pos_as_read ::
  "('h, 'c, 't) node_lib \<Rightarrow> u64 option \<Rightarrow> extract_config \<Rightarrow> ('i, 'j) databases \<Rightarrow> epoch_blocks \<Rightarrow> 'h \<Rightarrow> 't block \<Rightarrow> bool" where
  "pos_as_read N cell config dbs e header b \<longleftrightarrow>
     (case if hd_height N header < cp_pos_reference_enable_height (ec_chain config) then None else hd_pos_reference N header of
        None \<Rightarrow> b_pos_view b = None \<and> b_finalized_epoch b = 0
      | Some r \<Rightarrow> \<exists>committed finalized. get_committed_block N (db_pos dbs) r = Inr committed \<and>
          read_header N cell (db_pow dbs) (cb_pivot_block_hash N committed) = Inr finalized \<and>
          b_pos_view b = Some (cb_view N committed) \<and>
          unat (b_finalized_epoch b) = unat (ep_number e) - unat (hd_height N finalized))"

definition block_as_read ::
  "('h, 'c, 't) node_lib \<Rightarrow> u64 option \<Rightarrow> 'r rlp_view \<Rightarrow> extract_config \<Rightarrow> ('i, 'j) databases \<Rightarrow>
   epoch_blocks \<Rightarrow> 't block \<Rightarrow> bool" where
  "block_as_read N cell V config dbs e b \<longleftrightarrow>
     b_epoch b = ep_number e \<and> b_transaction_refs b = [] \<and>
     read_body N (db_pow dbs) (b_hash b) = Inr (b_transactions b) \<and>
     (\<exists>header found. read_header N cell (db_pow dbs) (b_hash b) = Inr header \<and>
        read_reward (db_pow dbs) V (b_hash b) = Inr found \<and>
        header_fields N header b \<and> pos_as_read N cell config dbs e header b \<and>
        (case found of
           None \<Rightarrow> b_base_reward b = 0 \<and> flags_as_read N config e header block_reward_default b
         | Some reward \<Rightarrow> b_base_reward b = br_base_reward reward \<and> flags_as_read N config e header reward b))"

subsection \<open>The PoS data of a block\<close>

text \<open>
  An entry of the column of rewards names the hash of an execution epoch. The rewards of a pivot are
  those of the last entry that names its hash.
\<close>

definition names_hash :: "'r rlp_view \<Rightarrow> h256 \<Rightarrow> bytes \<Rightarrow> bool" where
  "names_hash V h v \<longleftrightarrow> rbind (rv_at V (rv_new V v) 1) (rv_h256 V) = Inr h"

definition stored_reward :: "'r rlp_view \<Rightarrow> h256 \<Rightarrow> bytes \<Rightarrow> pos_reward_entry \<Rightarrow> bool" where
  "stored_reward V h v entry \<longleftrightarrow> pre_execution_epoch_hash entry = h \<and>
     (\<exists>accounts n. rv_at V (rv_new V v) 0 = Inr accounts \<and> rv_item_count V accounts = Inr n \<and>
        length (pre_account_rewards entry) = n \<and>
        (\<forall>j < n. reward_account V accounts j = Inr (pre_account_rewards entry ! j)))"

definition rewards_as_read :: "'r rlp_view \<Rightarrow> (bytes \<times> bytes) list \<Rightarrow> h256 set \<Rightarrow> 't block \<Rightarrow> bool" where
  "rewards_as_read V rewards pivots b \<longleftrightarrow>
     (let hits = filter (names_hash V (b_hash b)) (map snd rewards)
      in if b_hash b \<in> pivots \<and> hits \<noteq> [] then \<exists>entry. stored_reward V (b_hash b) (last hits) entry \<and> b_pos_rewards b = [entry]
         else b_pos_rewards b = [])"

text \<open>
  The unlock events of a pivot are those between two committed blocks: the one that the latest of the
  earlier pivots with a reference names, and the one its own reference names. There are none where it
  has no reference, or the same as the pivot before it, or no earlier pivot has one. \<open>before\<close> are the
  references of the pivots before it, from the last epoch before the range on.
\<close>

definition unlocks_as_read ::
  "('h, 'c, 't) node_lib \<Rightarrow> 'j rocks \<Rightarrow> (bytes \<times> bytes) list \<Rightarrow> h256 option list \<Rightarrow> h256 option \<Rightarrow> unlock_entry list \<Rightarrow> bool" where
  "unlocks_as_read N pos events before current unlocks \<longleftrightarrow>
     (if current = None \<or> last before = current \<or> List.map_filter id before = [] then unlocks = []
      else \<exists>c0 c1 found. get_committed_block N pos (last (List.map_filter id before)) = Inr c0 \<and>
        get_committed_block N pos (the current) = Inr c1 \<and>
        traverse (\<lambda>x. try_decode_unlock_event (snd x)) (events_between (cb_version N c0) (cb_version N c1) events) = Inr found \<and>
        unlocks = List.map_filter id found)"

definition pivot_reference ::
  "('h, 'c, 't) node_lib \<Rightarrow> u64 option \<Rightarrow> extract_config \<Rightarrow> ('i, 'j) databases \<Rightarrow> h256 \<Rightarrow> h256 option \<Rightarrow> bool" where
  "pivot_reference N cell config dbs h ref \<longleftrightarrow> (\<exists>header. read_header N cell (db_pow dbs) h = Inr header \<and>
     ref = (if hd_height N header < cp_pos_reference_enable_height (ec_chain config) then None else hd_pos_reference N header))"

subsection \<open>A packet\<close>

text \<open>The header of the packet, from the epoch before the range and the context of its first pivot.\<close>

definition boundary_as_read ::
  "('h, 'c, 't) node_lib \<Rightarrow> u64 option \<Rightarrow> 'r rlp_view \<Rightarrow> extract_config \<Rightarrow> ('i, 'j) databases \<Rightarrow>
   epoch_blocks \<Rightarrow> h256 option \<Rightarrow> 't packet \<Rightarrow> bool" where
  "boundary_as_read N cell V config dbs first ref p \<longleftrightarrow>
     (\<exists>hashes header ctx.
        read_epoch_hashes (db_pow dbs) V (saturating_sub (ec_start_epoch config) 1) EPOCH_EXECUTED_BLOCK_SET_SUFFIX =
          Inr (Some hashes) \<and> hashes \<noteq> [] \<and> p_prev_last_hash p = last hashes \<and>
        read_header N cell (db_pow dbs) (last hashes) = Inr header \<and>
        p_prev_last_deferred_state_root p = hd_deferred_state_root N header \<and>
        pivot_reference N cell config dbs (last hashes) ref \<and>
        read_epoch_context (db_pow dbs) V (last (ep_executed first)) = Inr ctx \<and>
        p_first_block_number p = ex_start_block_number ctx)"

text \<open>The blocks of an epoch \<open>e\<close> whose pivot has the reference \<open>ref\<close>.\<close>

definition group_as_read ::
  "('h, 'c, 't) node_lib \<Rightarrow> u64 option \<Rightarrow> 'r rlp_view \<Rightarrow> extract_config \<Rightarrow> ('i, 'j) databases \<Rightarrow>
   (bytes \<times> bytes) list \<Rightarrow> (bytes \<times> bytes) list \<Rightarrow> h256 set \<Rightarrow> h256 option list \<Rightarrow> h256 option \<Rightarrow>
   epoch_blocks \<Rightarrow> 't block list \<Rightarrow> bool" where
  "group_as_read N cell V config dbs rewards events pivots before ref e g \<longleftrightarrow>
     map b_hash g = butlast (ep_executed e) @ ep_skipped e @ [last (ep_executed e)] \<and>
     pivot_reference N cell config dbs (last (ep_executed e)) ref \<and>
     (\<forall>b \<in> set g. block_as_read N cell V config dbs e b \<and> rewards_as_read V rewards pivots b \<and>
        (if b_hash b = last (ep_executed e) then unlocks_as_read N (db_pos dbs) events before ref (b_unlock_events b)
         else b_unlock_events b = []))"

definition packet_as_read ::
  "('h, 'c, 't) node_lib \<Rightarrow> u64 option \<Rightarrow> 'r rlp_view \<Rightarrow> extract_config \<Rightarrow> ('i, 'j) databases \<Rightarrow>
   (bytes \<times> bytes) list \<Rightarrow> (bytes \<times> bytes) list \<Rightarrow> 't packet \<Rightarrow> bool" where
  "packet_as_read N cell V config dbs rewards events p \<longleftrightarrow>
     (\<exists>epochs gs refs. load_epochs (db_pow dbs) V config = Inr epochs \<and> epochs \<noteq> [] \<and>
        length gs = length epochs \<and> length refs = Suc (length epochs) \<and> p_blocks p = concat gs \<and>
        (\<forall>k < length (p_blocks p). b_index (p_blocks p ! k) = k) \<and>
        boundary_as_read N cell V config dbs (hd epochs) (refs ! 0) p \<and>
        (\<forall>i < length epochs. group_as_read N cell V config dbs rewards events
           (set (map (\<lambda>e. last (ep_executed e)) epochs)) (take (Suc i) refs) (refs ! Suc i) (epochs ! i) (gs ! i)))"

subsection \<open>The scan of the rewards\<close>

lemma reward_turn_stored:
  assumes "reward_turn V pivots v out = Inr out'"
  obtains h where "names_hash V h v" "h \<notin> pivots \<Longrightarrow> out' = out"
    "h \<in> pivots \<Longrightarrow> \<exists>entry. stored_reward V h v entry \<and> out' = out(h \<mapsto> entry)"
proof -
  obtain h where h: "rbind (rv_at V (rv_new V v) 1) (rv_h256 V) = Inr h"
    using assms by (auto simp: reward_turn_def Let_def rbind_Inr_iff)
  show ?thesis
  proof (rule that [of h])
    show "names_hash V h v" using h by (simp add: names_hash_def)
    show "out' = out" if "h \<notin> pivots" using assms h that by (simp add: reward_turn_def Let_def)
    assume "h \<in> pivots"
    with assms h obtain r n as where "rv_at V (rv_new V v) 0 = Inr r" "rv_item_count V r = Inr n"
      "traverse (reward_account V r) [0..<n] = Inr as"
      "out' = out(h \<mapsto> \<lparr>pre_account_rewards = as, pre_execution_epoch_hash = h\<rparr>)"
      by (auto simp: reward_turn_def Let_def rbind_Inr_iff)
    then show "\<exists>entry. stored_reward V h v entry \<and> out' = out(h \<mapsto> entry)"
      by (intro exI [of _ "\<lparr>pre_account_rewards = as, pre_execution_epoch_hash = h\<rparr>"])
        (auto simp: stored_reward_def traverse_Inr_iff list_all2_conv_all_nth)
  qed
qed

lemma names_hash_unique: "names_hash V h v \<Longrightarrow> names_hash V h' v \<longleftrightarrow> h' = h"
  by (auto simp: names_hash_def)

lemma rewards_fold_stored:
  "rewards_fold V pivots vs out = Inr out' \<Longrightarrow>
     (if h \<in> pivots \<and> filter (names_hash V h) vs \<noteq> []
      then \<exists>entry. stored_reward V h (last (filter (names_hash V h) vs)) entry \<and> out' h = Some entry
      else out' h = out h)"
proof (induction vs arbitrary: out)
  case (Cons v vs)
  then obtain out1 where out1: "reward_turn V pivots v out = Inr out1" "rewards_fold V pivots vs out1 = Inr out'"
    by (auto simp: rbind_Inr_iff)
  obtain g where g: "names_hash V g v" "g \<notin> pivots \<Longrightarrow> out1 = out"
    "g \<in> pivots \<Longrightarrow> \<exists>entry. stored_reward V g v entry \<and> out1 = out(g \<mapsto> entry)"
    by (rule reward_turn_stored [OF out1(1)]) blast
  note IH = Cons.IH [OF out1(2)]
  show ?case
  proof (cases "h = g")
    case True
    with IH g show ?thesis by (cases "g \<in> pivots") (auto split: if_splits)
  next
    case False
    moreover from this g have "out1 h = out h" by (cases "g \<in> pivots") auto
    ultimately show ?thesis using IH names_hash_unique [OF g(1)] by simp
  qed
qed simp

lemma rewards_attached:
  assumes "column pow COL_REWARD_BY_POS_EPOCH rewards" "read_pos_rewards pow V pivots = Some (Inr pr)"
  shows "rewards_as_read V rewards pivots (attach_rewards pr (b\<lparr>b_pos_rewards := []\<rparr>))"
proof (cases "pivots = {}")
  case True
  with assms(2) show ?thesis by (auto simp: read_pos_rewards_def rewards_as_read_def attach_rewards_def)
next
  case False
  then have "rewards_fold V pivots (map snd rewards) Map.empty = Inr pr"
    using assms by (simp add: read_pos_rewards_column)
  from rewards_fold_stored [OF this, of "b_hash b"] show ?thesis
    by (auto simp: rewards_as_read_def attach_rewards_def Let_def split: if_splits)
qed

subsection \<open>The scans of the unlock events\<close>

text \<open>The state of the loop over the epochs, by the references of the pivots before.\<close>

definition unlock_state_of :: "('h, 'c, 't) node_lib \<Rightarrow> 'j rocks \<Rightarrow> h256 option list \<Rightarrow> unlock_state \<Rightarrow> bool" where
  "unlock_state_of N pos before st \<longleftrightarrow> before \<noteq> [] \<and> us_last_pos_ref st = last before \<and>
     (if List.map_filter id before = [] then us_last_version st = None
      else \<exists>c. get_committed_block N pos (last (List.map_filter id before)) = Inr c \<and>
        us_last_version st = Some (cb_version N c))"

lemma map_filter_id_snoc:
  "List.map_filter id (xs @ [x]) = List.map_filter id xs @ (case x of None \<Rightarrow> [] | Some y \<Rightarrow> [y])"
  by (induction xs) (auto simp: map_filter_simps split: option.split)

lemma unlock_state_of_snoc:
  assumes "unlock_state_of N pos before st" "\<And>r. ref = Some r \<Longrightarrow> \<exists>c. pb r = Some c \<and> get_committed_block N pos r = Inr c"
  shows "unlock_state_of N pos (before @ [ref])
    \<lparr>us_last_pos_ref = ref,
     us_last_version = (case ref of Some cur \<Rightarrow> map_option (cb_version N) (pb cur) | None \<Rightarrow> us_last_version st),
     us_result = result\<rparr>"
  using assms by (cases ref) (auto simp: unlock_state_of_def map_filter_id_snoc)

lemma epoch_unlocks_read:
  assumes column: "column pos ''event'' events" "\<forall>(k, v) \<in> set events. 8 \<le> length k"
    and st: "unlock_state_of N pos before st"
    and pb: "\<And>r. ref = Some r \<Longrightarrow> \<exists>c. pb r = Some c \<and> get_committed_block N pos r = Inr c"
    and result: "epoch_unlocks N pos pb n ref st = Some (Inr result)"
  shows "\<exists>us. unlocks_as_read N pos events before ref us \<and>
    result = (if us = [] then us_result st else (us_result st)(n \<mapsto> us))"
proof (cases "ref = None \<or> last before = ref \<or> List.map_filter id before = []")
  case True
  with st result have "result = us_result st"
    by (auto simp: epoch_unlocks_def unlock_state_of_def split: option.splits if_splits)
  with True show ?thesis by (intro exI [of _ "[]"]) (simp add: unlocks_as_read_def)
next
  case False
  then obtain r where r: "ref = Some r" "last before \<noteq> Some r" by auto
  obtain c1 where c1: "pb r = Some c1" "get_committed_block N pos r = Inr c1" using pb [OF r(1)] by blast
  obtain c0 where c0: "get_committed_block N pos (last (List.map_filter id before)) = Inr c0"
    "us_last_version st = Some (cb_version N c0)"
    using st False by (auto simp: unlock_state_of_def)
  have "us_last_pos_ref st \<noteq> Some r" using st r(2) by (simp add: unlock_state_of_def)
  with result r(1) c0(2) c1(1) obtain us where us:
    "read_unlock_events pos (cb_version N c0) (cb_version N c1) = Some (Inr us)"
    "result = (if us = [] then us_result st else (us_result st)(n \<mapsto> us))"
    by (auto simp: epoch_unlocks_def split: option.splits sum.splits if_splits)
  from us(1) obtain found where "us = List.map_filter id found"
    "traverse (\<lambda>x. try_decode_unlock_event (snd x)) (events_between (cb_version N c0) (cb_version N c1) events) = Inr found"
    unfolding read_unlock_events_range [OF column] by (auto simp: rbind_Inr_iff)
  with False r(1) c0(1) c1(2) have "unlocks_as_read N pos events before ref us" by (simp add: unlocks_as_read_def)
  with us(2) show ?thesis by blast
qed

lemma unlocks_from_read:
  assumes column: "column (db_pos dbs) ''event'' events" "\<forall>(k, v) \<in> set events. 8 \<le> length k"
    and pb: "\<And>e r. e \<in> set epochs \<Longrightarrow> pivot_reference N cell config dbs (last (ep_executed e)) (Some r) \<Longrightarrow>
      \<exists>c. pb r = Some c \<and> get_committed_block N (db_pos dbs) r = Inr c"
    and "distinct (map ep_number epochs)" "unlock_state_of N (db_pos dbs) before st"
    and "unlocks_from N cell dbs pb (cp_pos_reference_enable_height (ec_chain config)) epochs st = Some (Inr um)"
  shows "\<exists>refs. length refs = length epochs \<and> (\<forall>n. n \<notin> ep_number ` set epochs \<longrightarrow> um n = us_result st n) \<and>
    (\<forall>i < length epochs. pivot_reference N cell config dbs (last (ep_executed (epochs ! i))) (refs ! i) \<and>
      (\<exists>us. unlocks_as_read N (db_pos dbs) events (before @ take i refs) (refs ! i) us \<and>
        um (ep_number (epochs ! i)) = (if us = [] then us_result st (ep_number (epochs ! i)) else Some us)))"
  using assms(3-)
proof (induction epochs arbitrary: before st)
  case (Cons e es)
  let ?pe = "cp_pos_reference_enable_height (ec_chain config)"
  from Cons.prems(4) obtain header result where header: "ep_executed e \<noteq> []"
      "read_header N cell (db_pow dbs) (last (ep_executed e)) = Inr header"
    and result: "epoch_unlocks N (db_pos dbs) pb (ep_number e) (effective_pos_reference N header ?pe) st = Some (Inr result)"
    and rest: "unlocks_from N cell dbs pb ?pe es
      \<lparr>us_last_pos_ref = effective_pos_reference N header ?pe,
       us_last_version = (case effective_pos_reference N header ?pe of
          Some cur \<Rightarrow> map_option (cb_version N) (pb cur) | None \<Rightarrow> us_last_version st),
       us_result = result\<rparr> = Some (Inr um)"
    by (auto simp: last_of_def Let_def split: sum.splits option.splits if_splits)
  define ref where "ref = effective_pos_reference N header ?pe"
  have ref: "pivot_reference N cell config dbs (last (ep_executed e)) ref"
    using header(2) by (auto simp: pivot_reference_def ref_def effective_pos_reference_def)
  have pb_ref: "\<exists>c. pb r = Some c \<and> get_committed_block N (db_pos dbs) r = Inr c" if "ref = Some r" for r
    using Cons.prems(1) [of e r] ref that by simp
  obtain us where us: "unlocks_as_read N (db_pos dbs) events before ref us"
    "result = (if us = [] then us_result st else (us_result st)(ep_number e \<mapsto> us))"
    using epoch_unlocks_read [OF column Cons.prems(3) pb_ref result [folded ref_def]] by blast
  have "\<exists>refs. length refs = length es \<and> (\<forall>n. n \<notin> ep_number ` set es \<longrightarrow> um n = result n) \<and>
    (\<forall>i < length es. pivot_reference N cell config dbs (last (ep_executed (es ! i))) (refs ! i) \<and>
      (\<exists>us. unlocks_as_read N (db_pos dbs) events ((before @ [ref]) @ take i refs) (refs ! i) us \<and>
        um (ep_number (es ! i)) = (if us = [] then result (ep_number (es ! i)) else Some us)))"
  proof (rule Cons.IH [OF _ _ unlock_state_of_snoc [OF Cons.prems(3) pb_ref] rest [folded ref_def],
        unfolded unlock_state.select_convs])
    show "\<exists>c. pb r = Some c \<and> get_committed_block N (db_pos dbs) r = Inr c"
      if "e' \<in> set es" "pivot_reference N cell config dbs (last (ep_executed e')) (Some r)" for e' r
      using Cons.prems(1) [of e' r] that by simp
    show "distinct (map ep_number es)" using Cons.prems(2) by simp
  qed
  then obtain refs where refs: "length refs = length es" "\<forall>n. n \<notin> ep_number ` set es \<longrightarrow> um n = result n"
    "\<forall>i < length es. pivot_reference N cell config dbs (last (ep_executed (es ! i))) (refs ! i) \<and>
      (\<exists>us. unlocks_as_read N (db_pos dbs) events ((before @ [ref]) @ take i refs) (refs ! i) us \<and>
        um (ep_number (es ! i)) = (if us = [] then result (ep_number (es ! i)) else Some us))" by blast
  have other: "result n = us_result st n" if "n \<noteq> ep_number e" for n using us(2) that by simp
  show ?case
  proof (intro exI [of _ "ref # refs"] conjI allI impI)
    show "length (ref # refs) = length (e # es)" using refs(1) by simp
    show "um n = us_result st n" if "n \<notin> ep_number ` set (e # es)" for n
      using refs(2) other that by simp
    fix i assume i: "i < length (e # es)"
    show "pivot_reference N cell config dbs (last (ep_executed ((e # es) ! i))) ((ref # refs) ! i)"
      using ref refs(3) i by (cases i) simp_all
    show "\<exists>us. unlocks_as_read N (db_pos dbs) events (before @ take i (ref # refs)) ((ref # refs) ! i) us \<and>
        um (ep_number ((e # es) ! i)) = (if us = [] then us_result st (ep_number ((e # es) ! i)) else Some us)"
    proof (cases i)
      case 0
      have "um (ep_number e) = result (ep_number e)" using refs(2) Cons.prems(2) by simp
      with us 0 show ?thesis by (intro exI [of _ us]) simp
    next
      case (Suc j)
      with i have "ep_number (es ! j) \<noteq> ep_number e" using Cons.prems(2) by (metis distinct.simps(2) image_eqI length_Cons list.set_map list.simps(9) not_less_eq nth_mem)
      moreover obtain us where "unlocks_as_read N (db_pos dbs) events ((before @ [ref]) @ take j refs) (refs ! j) us"
        "um (ep_number (es ! j)) = (if us = [] then result (ep_number (es ! j)) else Some us)"
        using refs(3) Suc i by auto
      ultimately show ?thesis using other Suc by (intro exI [of _ us]) simp
    qed
  qed
qed simp

lemma unlock_start_read:
  assumes "unlock_start N cell V config dbs = Inr st"
  obtains hashes ref where
    "read_epoch_hashes (db_pow dbs) V (saturating_sub (ec_start_epoch config) 1) EPOCH_EXECUTED_BLOCK_SET_SUFFIX = Inr (Some hashes)"
    "hashes \<noteq> []" "pivot_reference N cell config dbs (last hashes) ref"
    "unlock_state_of N (db_pos dbs) [ref] st" "us_result st = Map.empty"
proof -
  let ?pe = "cp_pos_reference_enable_height (ec_chain config)"
  obtain hashes header version where read:
    "read_epoch_hashes (db_pow dbs) V (saturating_sub (ec_start_epoch config) 1) EPOCH_EXECUTED_BLOCK_SET_SUFFIX = Inr (Some hashes)"
    "hashes \<noteq> []" "read_header N cell (db_pow dbs) (last hashes) = Inr header"
    and version: "(case effective_pos_reference N header ?pe of None \<Rightarrow> Inr None
        | Some h \<Rightarrow> rbind (get_committed_block N (db_pos dbs) h) (\<lambda>cb. Inr (Some (cb_version N cb)))) = Inr version"
    and st: "st = \<lparr>us_last_pos_ref = effective_pos_reference N header ?pe, us_last_version = version, us_result = Map.empty\<rparr>"
    using assms by (auto simp: unlock_start_def Let_def rbind_Inr_iff last_of_def split: if_splits)
  show ?thesis
  proof (rule that [OF read(1,2)])
    show "pivot_reference N cell config dbs (last hashes) (effective_pos_reference N header ?pe)"
      using read(3) by (auto simp: pivot_reference_def effective_pos_reference_def)
    show "unlock_state_of N (db_pos dbs) [effective_pos_reference N header ?pe] st"
      using version by (cases "effective_pos_reference N header ?pe")
        (auto simp: unlock_state_of_def st map_filter_simps rbind_Inr_iff)
  qed (simp add: st)
qed

lemma boundary_read:
  assumes "read_prev_boundary N cell (db_pow dbs) V config epochs = Inr boundary"
    and "read_epoch_hashes (db_pow dbs) V (saturating_sub (ec_start_epoch config) 1) EPOCH_EXECUTED_BLOCK_SET_SUFFIX =
      Inr (Some hashes)" "pivot_reference N cell config dbs (last hashes) ref"
    and "p_prev_last_hash p = pb_prev_last_hash boundary" "p_first_block_number p = pb_first_block_number boundary"
      "p_prev_last_deferred_state_root p = pb_prev_last_deferred_state_root boundary"
  shows "boundary_as_read N cell V config dbs (hd epochs) ref p"
  using assms
  by (auto simp: read_prev_boundary_def boundary_as_read_def Let_def rbind_Inr_iff last_of_def split: if_splits list.splits)

subsection \<open>The blocks\<close>

lemma read_as_pivot:
  assumes "read_as N cell V config dbs e h raw" "ep_executed e \<noteq> []"
  shows "rb_flags raw AND FLAG_PIVOT \<noteq> 0 \<longleftrightarrow> h = last (ep_executed e)" "rb_hash raw = h"
  using assms block_flags_bits(1) [of N config "rb_header raw" "rb_reward raw"] by (auto simp: read_as_def last_of_def)

lemma epoch_raws_read:
  assumes "epoch_raws N cell V config dbs e raws" "raw \<in> set raws"
  obtains h where "read_as N cell V config dbs e h raw" "ep_executed e \<noteq> []"
proof -
  have "list_all2 (\<lambda>r h. read_as N cell V config dbs e h r) raws (epoch_order e)" "ep_executed e \<noteq> []"
    using assms(1) by (simp_all add: epoch_raws_def list_all2_conv_all_nth)
  from list_all2_in_set1 [OF this(1) assms(2)] this(2) show ?thesis using that by blast
qed

lemma epoch_raws_pivot:
  assumes "epoch_raws N cell V config dbs e raws"
  obtains raw where "raw \<in> set raws" "read_as N cell V config dbs e (last (ep_executed e)) raw" "ep_executed e \<noteq> []"
proof -
  have "list_all2 (read_as N cell V config dbs e) (epoch_order e) raws" "last (ep_executed e) \<in> set (epoch_order e)"
    using assms by (simp_all add: epoch_raws_def epoch_order_def)
  from list_all2_in_set1 [OF this] assms show ?thesis using that by (auto simp: epoch_raws_def)
qed

text \<open>A block of the packet, by the data that was read of it.\<close>

definition lowered_as ::
  "('h, 'c, 't) node_lib \<Rightarrow> u64 option \<Rightarrow> 'i rocks \<Rightarrow> (h256 \<Rightarrow> 'c option) \<Rightarrow> u64 \<Rightarrow> (h256 \<Rightarrow> pos_reward_entry option) \<Rightarrow>
   (u64 \<Rightarrow> unlock_entry list option) \<Rightarrow> 't block \<Rightarrow> ('h, 't) raw_block \<Rightarrow> bool" where
  "lowered_as N cell pow pb pe pr um b raw \<longleftrightarrow> (\<exists>k fe. finalized_epoch_offset N cell pow pb raw pe = Inr fe \<and>
     b = attach_unlocks um (attach_rewards pr (lower_block N pb pe k raw fe)))"

lemma lowered_as_lowered: "lowered_as N cell pow pb pe pr um b raw \<Longrightarrow> lowered N pb pe b raw"
  unfolding lowered_as_def lowered_def using attach_eq by blast

lemma unat_saturating_sub: "unat (saturating_sub a b :: u64) = unat a - unat b"
  by (simp add: saturating_sub_def unat_sub_if' word_le_nat_alt)

lemma unat_blame: "unat (ucast (x :: u32) :: u64) = unat x"
  by (simp add: unsigned_ucast_eq take_bit_nat_eq_self [OF less_trans [OF unsigned_less]])

lemma lowered_as_read:
  assumes raw: "read_as N cell V config dbs e h raw" "ep_executed e \<noteq> []"
    and low: "lowered_as N cell (db_pow dbs) pb (cp_pos_reference_enable_height (ec_chain config)) pr um b raw"
    and pb: "\<And>r c. pb r = Some c \<Longrightarrow> get_committed_block N (db_pos dbs) r = Inr c"
  shows "block_as_read N cell V config dbs e b"
proof -
  let ?pe = "cp_pos_reference_enable_height (ec_chain config)"
  obtain k fe r u where fe: "finalized_epoch_offset N cell (db_pow dbs) pb raw ?pe = Inr fe"
    and b: "b = (lower_block N pb ?pe k raw fe)\<lparr>b_pos_rewards := r, b_unlock_events := u\<rparr>"
    using low attach_eq [of um pr] unfolding lowered_as_def by metis
  obtain found where found: "read_reward (db_pow dbs) V h = Inr found"
    "rb_reward raw = (case found of None \<Rightarrow> block_reward_default | Some r \<Rightarrow> r)"
    using raw(1) by (auto simp: read_as_def)
  have hash: "b_hash b = h" "b_epoch b = ep_number e" "b_transaction_refs b = []"
    "b_base_reward b = br_base_reward (rb_reward raw)" "read_body N (db_pow dbs) h = Inr (b_transactions b)"
    using raw(1) by (simp_all add: b lower_block_def Let_def read_as_def)
  have "header_fields N (rb_header raw) b"
    by (simp add: b lower_block_def Let_def header_fields_def unat_blame split: option.split)
  moreover have "pos_as_read N cell config dbs e (rb_header raw) b"
  proof (cases "effective_pos_reference N (rb_header raw) ?pe")
    case None
    with fe show ?thesis
      by (simp add: pos_as_read_def finalized_epoch_offset_def b lower_block_def Let_def effective_pos_reference_def)
  next
    case (Some ref)
    with fe obtain c finalized where c: "pb ref = Some c" "read_header N cell (db_pow dbs) (cb_pivot_block_hash N c) = Inr finalized"
      "fe = saturating_sub (rb_epoch raw) (hd_height N finalized)"
      by (auto simp: finalized_epoch_offset_def rbind_Inr_iff)
    have "rb_epoch raw = ep_number e" using raw(1) by (simp add: read_as_def)
    with Some c pb [OF c(1)] show ?thesis
      by (simp add: pos_as_read_def b lower_block_def Let_def effective_pos_reference_def [symmetric] unat_saturating_sub)
  qed
  moreover have "flags_as_read N config e (rb_header raw) (rb_reward raw) b"
  proof -
    have "block_flags N config (rb_header raw) (rb_reward raw) (h = last (ep_executed e)) (set (ep_skipped e)) h = Inr (b_flags b)"
      using raw by (simp add: read_as_def last_of_def b lower_block_def Let_def)
    note bits = block_flags_bits [OF this]
    have "b_flags b AND FLAG_HAS_TRANSACTIONS = (b_flags b AND 0x98) AND FLAG_HAS_TRANSACTIONS"
      "b_flags b AND FLAG_TX_COMPRESSED = (b_flags b AND 0x98) AND FLAG_TX_COMPRESSED"
      by (simp_all add: and.assoc FLAG_HAS_TRANSACTIONS_def FLAG_TX_COMPRESSED_def)
    with bits show ?thesis by (simp add: flags_as_read_def hash(1))
  qed
  moreover have "read_header N cell (db_pow dbs) h = Inr (rb_header raw)" using raw(1) by (simp add: read_as_def)
  ultimately show ?thesis
    using found hash unfolding block_as_read_def
    by (cases found) (auto simp: block_reward_default_def)
qed

subsection \<open>The extracted packet\<close>

lemma lowered_as_of_inputs:
  assumes "build_block_inputs N cell config pow pb raws = Inr bs"
  shows "list_all2 (lowered_as N cell pow pb (cp_pos_reference_enable_height (ec_chain config)) pr um)
      (map (attach_unlocks um) (map (attach_rewards pr) bs)) raws"
    and "list_all2 (\<lambda>b raw. b_hash b = rb_hash raw \<and> b_flags b = rb_flags raw) bs raws"
    and "\<forall>k < length bs. b_index (attach_unlocks um (attach_rewards pr (bs ! k))) = k"
proof -
  note nth = build_block_inputs_nth [OF assms]
  then show "list_all2 (lowered_as N cell pow pb (cp_pos_reference_enable_height (ec_chain config)) pr um)
      (map (attach_unlocks um) (map (attach_rewards pr) bs)) raws"
    unfolding list_all2_conv_all_nth lowered_as_def by fastforce
  from nth show "list_all2 (\<lambda>b raw. b_hash b = rb_hash raw \<and> b_flags b = rb_flags raw) bs raws"
    unfolding list_all2_conv_all_nth by (auto simp: lower_block_def Let_def)
  show "\<forall>k < length bs. b_index (attach_unlocks um (attach_rewards pr (bs ! k))) = k"
  proof (intro allI impI)
    fix k assume "k < length bs"
    moreover obtain r u where "attach_unlocks um (attach_rewards pr (bs ! k)) = (bs ! k)\<lparr>b_pos_rewards := r, b_unlock_events := u\<rparr>"
      using attach_eq by blast
    ultimately show "b_index (attach_unlocks um (attach_rewards pr (bs ! k))) = k"
      using nth by (auto simp: lower_block_def Let_def)
  qed
qed

lemma pivots_of_inputs:
  assumes bs: "list_all2 (\<lambda>b raw. b_hash b = rb_hash raw \<and> b_flags b = rb_flags raw) bs (concat rss)"
    and rss: "list_all2 (epoch_raws N cell V config dbs) epochs rss"
  shows "set (map b_hash (filter (\<lambda>b. b_flags b AND FLAG_PIVOT \<noteq> 0) bs)) = set (map (\<lambda>e. last (ep_executed e)) epochs)"
proof (intro equalityI subsetI)
  fix h assume "h \<in> set (map b_hash (filter (\<lambda>b. b_flags b AND FLAG_PIVOT \<noteq> 0) bs))"
  then obtain b where b: "b \<in> set bs" "b_flags b AND FLAG_PIVOT \<noteq> 0" "h = b_hash b" by auto
  then obtain raw where raw: "raw \<in> set (concat rss)" "b_hash b = rb_hash raw" "b_flags b = rb_flags raw"
    using list_all2_in_set1 [OF bs] by blast
  then obtain rs where rs: "rs \<in> set rss" "raw \<in> set rs" by auto
  have "list_all2 (\<lambda>rs e. epoch_raws N cell V config dbs e rs) rss epochs"
    using rss by (simp add: list_all2_conv_all_nth)
  from list_all2_in_set1 [OF this rs(1)] obtain e where e: "e \<in> set epochs" "epoch_raws N cell V config dbs e rs" by blast
  obtain h' where "read_as N cell V config dbs e h' raw" "ep_executed e \<noteq> []"
    by (rule epoch_raws_read [OF e(2) rs(2)])
  with read_as_pivot [OF this] b raw e(1) show "h \<in> set (map (\<lambda>e. last (ep_executed e)) epochs)" by auto
next
  fix h assume "h \<in> set (map (\<lambda>e. last (ep_executed e)) epochs)"
  then obtain e where e: "e \<in> set epochs" "h = last (ep_executed e)" by auto
  then obtain rs where rs: "rs \<in> set rss" "epoch_raws N cell V config dbs e rs"
    using list_all2_in_set1 [OF rss] by blast
  obtain raw where raw: "raw \<in> set rs" "read_as N cell V config dbs e h raw" "ep_executed e \<noteq> []"
    unfolding e(2) by (rule epoch_raws_pivot [OF rs(2)])
  from raw(1) rs(1) have mem: "raw \<in> set (concat rss)" by auto
  have "list_all2 (\<lambda>raw b. b_hash b = rb_hash raw \<and> b_flags b = rb_flags raw) (concat rss) bs"
    using bs by (simp add: list_all2_conv_all_nth)
  from list_all2_in_set1 [OF this mem] obtain b where "b \<in> set bs" "b_hash b = rb_hash raw" "b_flags b = rb_flags raw"
    by blast
  with read_as_pivot [OF raw(2,3)] e(2) show "h \<in> set (map b_hash (filter (\<lambda>b. b_flags b AND FLAG_PIVOT \<noteq> 0) bs))" by force
qed

lemma extract_raw_groups:
  fixes p :: "'t packet"
  assumes "extract_raw N T V orders cell config dbs = Some (Inr p)"
  defines "cell' \<equiv> once_set cell (cp_cip112_transition_height (ec_chain config))"
    and "pe \<equiv> cp_pos_reference_enable_height (ec_chain config)"
  obtains epochs boundary pb pr um gs where
    "load_epochs (db_pow dbs) V config = Inr epochs" "epochs \<noteq> []"
    "read_prev_boundary N cell' (db_pow dbs) V config epochs = Inr boundary"
    "p_prev_last_hash p = pb_prev_last_hash boundary" "p_first_block_number p = pb_first_block_number boundary"
    "p_prev_last_deferred_state_root p = pb_prev_last_deferred_state_root boundary"
    "read_pos_rewards (db_pow dbs) V (set (map (\<lambda>e. last (ep_executed e)) epochs)) = Some (Inr pr)"
    "collect_unlock_events N cell' V config dbs pb epochs = Some (Inr um)"
    "\<And>r c. pb r = Some c \<Longrightarrow> get_committed_block N (db_pos dbs) r = Inr c"
    "\<And>e r. e \<in> set epochs \<Longrightarrow> pivot_reference N cell' config dbs (last (ep_executed e)) (Some r) \<Longrightarrow> pb r \<noteq> None"
    "p_blocks p = concat gs" "\<forall>k < length (p_blocks p). b_index (p_blocks p ! k) = k"
    "list_all2 (\<lambda>e g. \<exists>raws. epoch_raws N cell' V config dbs e raws \<and>
       list_all2 (lowered_as N cell' (db_pow dbs) pb pe pr um) g raws) epochs gs"
proof -
  obtain epochs boundary co tb bs pr um where phases: "load_epochs (db_pow dbs) V config = Inr epochs"
    "read_prev_boundary N cell' (db_pow dbs) V config epochs = Inr boundary"
    "collect_blocks N cell' V config dbs epochs = Inr co"
    "build_block_inputs N cell' config (db_pow dbs) (co_pos_blocks co) (co_block_inputs co) = Inr bs"
    "read_pos_rewards (db_pow dbs) V (set (map b_hash (filter (\<lambda>b. b_flags b AND FLAG_PIVOT \<noteq> 0) bs))) = Some (Inr pr)"
    "collect_unlock_events N cell' V config dbs (co_pos_blocks co) epochs = Some (Inr um)"
    and p: "p = assemble_extracted boundary co tb (map (attach_unlocks um) (map (attach_rewards pr) bs))"
    unfolding cell'_def by (rule extract_raw_phases [OF assms(1)])
  obtain rss where rss: "co_block_inputs co = concat rss" "list_all2 (epoch_raws N cell' V config dbs) epochs rss"
    "collected_inv N (db_pos dbs) pe co"
    unfolding pe_def by (rule collect_blocks_facts [OF phases(3)])
  note inputs = lowered_as_of_inputs [OF phases(4) [unfolded rss(1)], folded pe_def]
  have blocks: "p_blocks p = map (attach_unlocks um) (map (attach_rewards pr) bs)" by (simp add: p assemble_extracted_def)
  obtain gs where gs: "p_blocks p = concat gs" "list_all2 (list_all2 (lowered_as N cell' (db_pow dbs) (co_pos_blocks co) pe pr um)) gs rss"
    using list_all2_concat_split [OF inputs(1)] unfolding blocks by blast
  have groups: "list_all2 (\<lambda>e g. \<exists>raws. epoch_raws N cell' V config dbs e raws \<and>
       list_all2 (lowered_as N cell' (db_pow dbs) (co_pos_blocks co) pe pr um) g raws) epochs gs"
    by (rule list_all2_group_map [OF rss(2) gs(2)]) (rule exI, rule conjI)
  have resolved: "co_pos_blocks co r \<noteq> None"
    if e: "e \<in> set epochs" "pivot_reference N cell' config dbs (last (ep_executed e)) (Some r)" for e r
  proof -
    obtain rs where rs: "rs \<in> set rss" "epoch_raws N cell' V config dbs e rs" using list_all2_in_set1 [OF rss(2) e(1)] by blast
    obtain raw where raw: "raw \<in> set rs" "read_as N cell' V config dbs e (last (ep_executed e)) raw"
      by (rule epoch_raws_pivot [OF rs(2)])
    have "effective_pos_reference N (rb_header raw) pe = Some r"
      using e(2) raw(2) by (auto simp: pivot_reference_def read_as_def effective_pos_reference_def pe_def)
    moreover have "raw \<in> set (co_block_inputs co)" using raw(1) rs(1) rss(1) by auto
    ultimately show ?thesis using rss(3) by (simp add: collected_inv_def)
  qed
  have committed: "get_committed_block N (db_pos dbs) r = Inr c" if "co_pos_blocks co r = Some c" for r c
    using rss(3) that by (simp add: collected_inv_def)
  have ne: "epochs \<noteq> []" using phases(2) by (auto simp: read_prev_boundary_def Let_def rbind_Inr_iff)
  have index: "\<forall>k < length (p_blocks p). b_index (p_blocks p ! k) = k" using inputs(3) by (simp add: blocks)
  have head: "p_prev_last_hash p = pb_prev_last_hash boundary" "p_first_block_number p = pb_first_block_number boundary"
    "p_prev_last_deferred_state_root p = pb_prev_last_deferred_state_root boundary"
    by (simp_all add: p assemble_extracted_def)
  show ?thesis
    by (rule that [OF phases(1) ne phases(2) head phases(5) [unfolded pivots_of_inputs [OF inputs(2) rss(2)]]
      phases(6) committed resolved gs(1) index groups])
qed

lemma group_blocks_read:
  assumes "epoch_raws N cell V config dbs e raws"
    and low: "list_all2 (lowered_as N cell (db_pow dbs) pb (cp_pos_reference_enable_height (ec_chain config)) pr um) g raws"
    and pb: "\<And>r c. pb r = Some c \<Longrightarrow> get_committed_block N (db_pos dbs) r = Inr c"
  shows "map b_hash g = butlast (ep_executed e) @ ep_skipped e @ [last (ep_executed e)]"
    and "\<forall>b \<in> set g. block_as_read N cell V config dbs e b"
proof -
  have "list_all2 (lowered N pb (cp_pos_reference_enable_height (ec_chain config))) g raws"
    using low by (rule list_all2_mono) (rule lowered_as_lowered)
  from hashes_of_raws(1) [OF assms(1) this]
  show "map b_hash g = butlast (ep_executed e) @ ep_skipped e @ [last (ep_executed e)]" by (simp add: epoch_order_def)
  show "\<forall>b \<in> set g. block_as_read N cell V config dbs e b"
  proof
    fix b assume "b \<in> set g"
    then obtain raw where raw: "raw \<in> set raws"
      "lowered_as N cell (db_pow dbs) pb (cp_pos_reference_enable_height (ec_chain config)) pr um b raw"
      using list_all2_in_set1 [OF low] by blast
    obtain h where "read_as N cell V config dbs e h raw" "ep_executed e \<noteq> []"
      by (rule epoch_raws_read [OF assms(1) raw(1)])
    from lowered_as_read [OF this raw(2) pb] show "block_as_read N cell V config dbs e b" .
  qed
qed

text \<open>The PoS data that the two maps put into a block.\<close>

lemma lowered_as_rewards:
  fixes b :: "'t block"
  assumes "lowered_as N cell pow pb pe pr um b raw" "column pow COL_REWARD_BY_POS_EPOCH rewards"
    and "read_pos_rewards pow V pivots = Some (Inr pr)"
  shows "rewards_as_read V rewards pivots b"
proof -
  obtain k fe where b: "b = attach_unlocks um (attach_rewards pr (lower_block N pb pe k raw fe))"
    using assms(1) by (auto simp: lowered_as_def)
  have keep: "b_pos_rewards (attach_unlocks um c) = b_pos_rewards c" "b_hash (attach_unlocks um c) = b_hash c" for c :: "'t block"
    by (simp_all add: attach_unlocks_def split: option.split)
  have "(lower_block N pb pe k raw fe)\<lparr>b_pos_rewards := []\<rparr> = lower_block N pb pe k raw fe"
    by (simp add: lower_block_def Let_def)
  from rewards_attached [OF assms(2,3), of "lower_block N pb pe k raw fe", unfolded this]
  show ?thesis unfolding b by (simp only: rewards_as_read_def keep)
qed

lemma lowered_as_unlocks:
  fixes b :: "'t block"
  assumes "lowered_as N cell pow pb pe pr um b raw"
  shows "b_unlock_events b = (if b_flags b AND FLAG_PIVOT \<noteq> 0 then
      (case um (b_epoch b) of Some us \<Rightarrow> us | None \<Rightarrow> []) else [])"
proof -
  obtain k fe where b: "b = attach_unlocks um (attach_rewards pr (lower_block N pb pe k raw fe))"
    using assms(1) by (auto simp: lowered_as_def)
  have "b_unlock_events (attach_rewards pr c) = b_unlock_events c" "b_flags (attach_rewards pr c) = b_flags c"
    "b_epoch (attach_rewards pr c) = b_epoch c" for c :: "'t block"
    by (simp_all add: attach_rewards_def split: option.split)
  then show ?thesis
    unfolding b by (simp add: attach_unlocks_def lower_block_def Let_def split: option.split)
qed

lemma extracted_numbers_distinct:
  assumes "load_epochs pow V config = Inr epochs"
  shows "distinct (map ep_number epochs)"
proof -
  let ?ns = "[unat (ec_start_epoch config) ..< unat (ec_start_epoch config + ec_epoch_count config)]"
  have "inj_on (of_nat :: nat \<Rightarrow> u64) (set ?ns)"
  proof (rule inj_onI)
    fix m n assume "m \<in> set ?ns" "n \<in> set ?ns" "(of_nat m :: u64) = of_nat n"
    moreover have "unat (ec_start_epoch config + ec_epoch_count config) < 2 ^ 64" by (rule unat_u64_less)
    ultimately have "m < 2 ^ 64" "n < 2 ^ 64" by auto
    then show "m = n" using unat_of_nat_u64 \<open>(of_nat m :: u64) = of_nat n\<close> by metis
  qed
  then show ?thesis unfolding load_epochs_numbers [OF assms] by (simp add: distinct_map)
qed

lemma group_read:
  assumes raws: "epoch_raws N cell V config dbs e raws"
    and low: "list_all2 (lowered_as N cell (db_pow dbs) pb (cp_pos_reference_enable_height (ec_chain config)) pr um) g raws"
    and pb: "\<And>r c. pb r = Some c \<Longrightarrow> get_committed_block N (db_pos dbs) r = Inr c"
    and rewards: "column (db_pow dbs) COL_REWARD_BY_POS_EPOCH rewards" "read_pos_rewards (db_pow dbs) V pivots = Some (Inr pr)"
    and ref: "pivot_reference N cell config dbs (last (ep_executed e)) ref"
    and us: "unlocks_as_read N (db_pos dbs) events before ref us" "um (ep_number e) = (if us = [] then None else Some us)"
  shows "group_as_read N cell V config dbs rewards events pivots before ref e g"
  unfolding group_as_read_def
proof (intro conjI ballI)
  note blocks = group_blocks_read [OF raws low pb]
  show "map b_hash g = butlast (ep_executed e) @ ep_skipped e @ [last (ep_executed e)]" by (rule blocks(1))
  show "pivot_reference N cell config dbs (last (ep_executed e)) ref" by (rule ref)
  fix b assume b: "b \<in> set g"
  with blocks(2) show read: "block_as_read N cell V config dbs e b" by blast
  obtain raw where raw: "lowered_as N cell (db_pow dbs) pb (cp_pos_reference_enable_height (ec_chain config)) pr um b raw"
    using list_all2_in_set1 [OF low b] by blast
  show "rewards_as_read V rewards pivots b" by (rule lowered_as_rewards [OF raw rewards])
  have "b_epoch b = ep_number e" "b_flags b AND FLAG_PIVOT \<noteq> 0 \<longleftrightarrow> b_hash b = last (ep_executed e)"
    using read by (auto simp: block_as_read_def flags_as_read_def split: option.splits)
  with lowered_as_unlocks [OF raw] us
  show "if b_hash b = last (ep_executed e) then unlocks_as_read N (db_pos dbs) events before ref (b_unlock_events b)
      else b_unlock_events b = []" by (simp split: if_splits)
qed

lemma extract_raw_as_read:
  assumes raw: "extract_raw N T V orders cell config dbs = Some (Inr p)"
    and rewards: "column (db_pow dbs) COL_REWARD_BY_POS_EPOCH rewards"
    and events: "column (db_pos dbs) ''event'' events" "\<forall>(k, v) \<in> set events. 8 \<le> length k"
  shows "packet_as_read N (once_set cell (cp_cip112_transition_height (ec_chain config))) V config dbs rewards events p"
proof -
  let ?cell = "once_set cell (cp_cip112_transition_height (ec_chain config))"
  let ?pe = "cp_pos_reference_enable_height (ec_chain config)"
  obtain epochs boundary pb pr um gs where load: "load_epochs (db_pow dbs) V config = Inr epochs" "epochs \<noteq> []"
    and boundary: "read_prev_boundary N ?cell (db_pow dbs) V config epochs = Inr boundary"
      "p_prev_last_hash p = pb_prev_last_hash boundary" "p_first_block_number p = pb_first_block_number boundary"
      "p_prev_last_deferred_state_root p = pb_prev_last_deferred_state_root boundary"
    and pr: "read_pos_rewards (db_pow dbs) V (set (map (\<lambda>e. last (ep_executed e)) epochs)) = Some (Inr pr)"
    and um: "collect_unlock_events N ?cell V config dbs pb epochs = Some (Inr um)"
    and pb: "\<And>r c. pb r = Some c \<Longrightarrow> get_committed_block N (db_pos dbs) r = Inr c"
    and pb_dom: "\<And>e r. e \<in> set epochs \<Longrightarrow> pivot_reference N ?cell config dbs (last (ep_executed e)) (Some r) \<Longrightarrow> pb r \<noteq> None"
    and blocks: "p_blocks p = concat gs" "\<forall>k < length (p_blocks p). b_index (p_blocks p ! k) = k"
    and groups: "list_all2 (\<lambda>e g. \<exists>raws. epoch_raws N ?cell V config dbs e raws \<and>
       list_all2 (lowered_as N ?cell (db_pow dbs) pb ?pe pr um) g raws) epochs gs"
    by (rule extract_raw_groups [OF raw]) blast
  obtain st where st: "unlock_start N ?cell V config dbs = Inr st"
    "unlocks_from N ?cell dbs pb ?pe epochs st = Some (Inr um)"
    using um by (auto simp: collect_unlock_events_def split: sum.splits)
  obtain hashes ref where start: "read_epoch_hashes (db_pow dbs) V (saturating_sub (ec_start_epoch config) 1)
      EPOCH_EXECUTED_BLOCK_SET_SUFFIX = Inr (Some hashes)"
    "pivot_reference N ?cell config dbs (last hashes) ref"
    "unlock_state_of N (db_pos dbs) [ref] st" "us_result st = Map.empty"
    by (rule unlock_start_read [OF st(1)])
  have resolved: "\<exists>c. pb r = Some c \<and> get_committed_block N (db_pos dbs) r = Inr c"
    if "e \<in> set epochs" "pivot_reference N ?cell config dbs (last (ep_executed e)) (Some r)" for e r
    using pb_dom [OF that] pb by blast
  have "\<exists>refs. length refs = length epochs \<and> (\<forall>n. n \<notin> ep_number ` set epochs \<longrightarrow> um n = us_result st n) \<and>
      (\<forall>i < length epochs. pivot_reference N ?cell config dbs (last (ep_executed (epochs ! i))) (refs ! i) \<and>
      (\<exists>us. unlocks_as_read N (db_pos dbs) events ([ref] @ take i refs) (refs ! i) us \<and>
        um (ep_number (epochs ! i)) = (if us = [] then us_result st (ep_number (epochs ! i)) else Some us)))"
    by (rule unlocks_from_read [OF events _ extracted_numbers_distinct [OF load(1)] start(3) st(2)]) (rule resolved)
  then obtain refs where refs: "length refs = length epochs" "\<forall>i < length epochs.
      pivot_reference N ?cell config dbs (last (ep_executed (epochs ! i))) (refs ! i) \<and>
      (\<exists>us. unlocks_as_read N (db_pos dbs) events ([ref] @ take i refs) (refs ! i) us \<and>
        um (ep_number (epochs ! i)) = (if us = [] then None else Some us))"
    unfolding start(4) by blast
  have group: "group_as_read N ?cell V config dbs rewards events (set (map (\<lambda>e. last (ep_executed e)) epochs))
      (take (Suc i) (ref # refs)) ((ref # refs) ! Suc i) (epochs ! i) (gs ! i)" if i: "i < length epochs" for i
  proof -
    obtain raws where "epoch_raws N ?cell V config dbs (epochs ! i) raws"
      "list_all2 (lowered_as N ?cell (db_pow dbs) pb ?pe pr um) (gs ! i) raws"
      using list_all2_nthD [OF groups i] by blast
    moreover obtain us where "pivot_reference N ?cell config dbs (last (ep_executed (epochs ! i))) ((ref # refs) ! Suc i)"
      "unlocks_as_read N (db_pos dbs) events (take (Suc i) (ref # refs)) ((ref # refs) ! Suc i) us"
      "um (ep_number (epochs ! i)) = (if us = [] then None else Some us)"
      using refs(2) i by auto
    ultimately show ?thesis using group_read [OF _ _ pb rewards pr] by blast
  qed
  have "boundary_as_read N ?cell V config dbs (hd epochs) ref p"
    by (rule boundary_read [OF boundary(1) start(1,2) boundary(2-4)])
  with load blocks group refs(1) list_all2_lengthD [OF groups] show ?thesis
    unfolding packet_as_read_def by (intro exI [of _ epochs] exI [of _ gs] exI [of _ "ref # refs"]) simp
qed

end
