(* ===== verification/Extract_Example.thy ===== *)
theory Extract_Example
  imports Extract_Source Packet_Example
begin

text \<open>
  Concrete databases of a node at which the theorems on extractions are applied: epoch 5 with the
  blocks 1 and 2 executed, the pivot 2 last, and the block 3 skipped, after epoch 4 with pivot 9. A
  value is a list of bytes, a header is its height, a transaction is a byte. From height 4 on a header
  has a PoS reference: height 4 names the committed block 7 of version and view 3, the others 8 of 9.
  The pivots 9 and 2 have an entry in the column of rewards, and three events are stored.
\<close>

definition ex_view :: "bytes rlp_view" where
  "ex_view = \<lparr>rv_new = (\<lambda>bs. bs), rv_at = (\<lambda>r i. Inr (drop i r)), rv_item_count = (\<lambda>r. Inr (length r - 2)),
     rv_h256 = (\<lambda>r. Inr (ex_hash (unat (hd r)))), rv_address = (\<lambda>r. Inr Address_zero),
     rv_u64 = (\<lambda>r. Inr (ucast (hd r))), rv_u256 = (\<lambda>r. Inr (ucast (hd r))),
     rv_h256_list = (\<lambda>r. Inr (map (\<lambda>b. ex_hash (unat b)) r))\<rparr>"

definition ex_node :: "(u64, u8, u8) node_lib" where
  "ex_node = \<lparr>hd_author = (\<lambda>_. Address_zero), hd_adaptive = (\<lambda>_. False), hd_height = (\<lambda>h. h),
     hd_timestamp = (\<lambda>h. 1000 + h), hd_difficulty = (\<lambda>_. 3), hd_gas_limit = (\<lambda>_. 30000000), hd_blame = (\<lambda>_. 0),
     hd_base_price = (\<lambda>_. None), hd_pos_reference = (\<lambda>h. Some (ex_hash (if h = 4 then 7 else 8))), hd_deferred_state_root = (\<lambda>_. H256_zero),
     hd_deferred_receipts_root = (\<lambda>_. H256_zero), hd_deferred_logs_bloom_hash = (\<lambda>_. H256_zero),
     cb_view = (\<lambda>c. ucast c), cb_version = (\<lambda>c. ucast c), cb_pivot_block_hash = (\<lambda>_. ex_hash 9),
     nl_decode_with_pow_hash = (\<lambda>_ bs. Inr (ucast (hd bs))), nl_decode_body = (\<lambda>bs. Inr bs),
     nl_decode_committed_block = (\<lambda>bs. Inr (hd bs))\<rparr>"

text \<open>A database with these values, whose iterators walk through these entries.\<close>

definition ex_rocks :: "((string \<times> bytes) \<times> bytes) list \<Rightarrow> (bytes \<times> bytes) list \<Rightarrow> (bytes \<times> bytes) list rocks" where
  "ex_rocks values entries = \<lparr>rk_cf_handle = (\<lambda>_. True), rk_get_cf = (\<lambda>cf k. Inr (map_of values (cf, k))),
     rk_iter = (\<lambda>_. entries), rk_seek_start = (\<lambda>es. Inr es), rk_seek_key = (\<lambda>k es. Inr (dropWhile (\<lambda>e. fst e < k) es)),
     rk_valid = (\<lambda>es. Inr (es \<noteq> [])), rk_key = (\<lambda>es. fst (hd es)), rk_value = (\<lambda>es. snd (hd es)),
     rk_next = (\<lambda>es. Inr (tl es))\<rparr>"

definition ex_key :: "nat \<Rightarrow> bytes \<Rightarrow> bytes" where
  "ex_key n sfx = as_bytes (ex_hash n) @ sfx"

definition ex_values :: "((string \<times> bytes) \<times> bytes) list" where
  "ex_values =
     [((''col3'', [4, 0, 0, 0, 0, 0, 0, 0, 6]), [9]), ((''col3'', [5, 0, 0, 0, 0, 0, 0, 0, 6]), [1, 2]),
      ((''col3'', [5, 0, 0, 0, 0, 0, 0, 0, 7]), [3]),
      ((''col1'', ex_key 9 []), [4]), ((''col1'', ex_key 1 []), [3]), ((''col1'', ex_key 2 []), [5]),
      ((''col1'', ex_key 3 []), [4]), ((''col1'', ex_key 2 [4]), [40]),
      ((''col1'', ex_key 1 [2]), [1]), ((''col1'', ex_key 2 [2]), [1, 2]),
      ((''col1'', ex_key 1 [8]), [0, 9, 77]), ((''col1'', ex_key 2 [8]), [0, 0, 0])]"

definition ex_pos_values :: "((string \<times> bytes) \<times> bytes) list" where
  "ex_pos_values = [((''committed_block'', ex_key 7 []), [3]), ((''committed_block'', ex_key 8 []), [9])]"

text \<open>The column of rewards: an entry of pivot 9 and one of pivot 2, each of one account.\<close>

definition ex_rewards :: "(bytes \<times> bytes) list" where
  "ex_rewards = [([1], [0, 9, 60]), ([2], [0, 2, 50])]"

text \<open>An unlock event of version 3, another event of version 5, and an unlock event of version 9.\<close>

definition ex_event_data :: bytes where
  "ex_event_data = replicate 32 1 @ to_le_bytes 8 (7 :: u64)"

definition ex_events :: "(bytes \<times> bytes) list" where
  "ex_events = [(u64_to_be 3 @ u64_to_be 0, unlock_event_bytes ex_event_data), (u64_to_be 5 @ u64_to_be 0, [1]),
     (u64_to_be 9 @ u64_to_be 0, unlock_event_bytes ex_event_data)]"

definition ex_dbs :: "((bytes \<times> bytes) list, (bytes \<times> bytes) list) databases" where
  "ex_dbs = \<lparr>db_pow = ex_rocks ex_values ex_rewards, db_pos = ex_rocks ex_pos_values ex_events\<rparr>"

definition ex_config :: extract_config where
  "ex_config = extract_config_default\<lparr>ec_start_epoch := 5, ec_epoch_count := 1,
     ec_chain := chain_params_default\<lparr>cp_pos_reference_enable_height := 4\<rparr>\<rparr>"

definition ex_orders :: hash_orders where
  "ex_orders = \<lparr>ho_addresses = (\<lambda>n. rev [0..<n]), ho_gas_prices = (\<lambda>n. [0..<n]), ho_nonces = (\<lambda>n. rev [0..<n])\<rparr>"

definition ex_raw_block :: "u64 \<Rightarrow> nat \<Rightarrow> nat \<Rightarrow> u8 \<Rightarrow> u64 \<Rightarrow> u256 \<Rightarrow> u8 list \<Rightarrow> u8 block" where
  "ex_raw_block epoch i n flags height reward txs =
     \<lparr>b_epoch = epoch, b_index = i, b_hash = ex_hash n, b_deferred_state_root = H256_zero,
      b_deferred_receipts_root = H256_zero, b_deferred_logs_bloom_hash = H256_zero, b_flags = flags,
      b_author = Address_zero, b_timestamp = 1000 + height, b_difficulty = 3, b_gas_limit = 30000000,
      b_base_price_core = 0, b_base_price_espace = 0, b_height = height, b_blame = 0, b_finalized_epoch = 0,
      b_base_reward = reward, b_transactions = txs, b_transaction_refs = [], b_pos_rewards = [],
      b_unlock_events = [], b_pos_view = None\<rparr>"

text \<open>The blocks before and after their PoS data are attached.\<close>

definition ex_reward :: pos_reward_entry where
  "ex_reward = \<lparr>pre_account_rewards = [\<lparr>pra_address = Address_zero, pra_pos_identifier = ex_hash 2, pra_reward = 50\<rparr>],
     pre_execution_epoch_hash = ex_hash 2\<rparr>"

definition ex_unlock :: unlock_entry where
  "ex_unlock = \<lparr>ue_identifier = H256 (replicate 32 1), ue_unlocked = 7\<rparr>"

definition ex_front :: "u8 block list" where
  "ex_front = [ex_raw_block 5 0 1 0 3 77 [1], (ex_raw_block 5 1 3 96 4 0 [])\<lparr>b_finalized_epoch := 1, b_pos_view := Some 3\<rparr>]"

definition ex_pivot :: "u8 block" where
  "ex_pivot = (ex_raw_block 5 2 2 70 5 0 [1, 2])\<lparr>b_finalized_epoch := 1, b_pos_view := Some 9\<rparr>"

definition ex_paid :: "u8 block" where
  "ex_paid = ex_pivot\<lparr>b_pos_rewards := [ex_reward], b_unlock_events := [ex_unlock]\<rparr>"

definition ex_extracted :: "u8 packet" where
  "ex_extracted = \<lparr>p_prev_last_hash = ex_hash 9, p_prev_last_deferred_state_root = H256_zero,
     p_first_block_number = 40, p_min_timestamp = 1003, p_min_height = 3, p_min_pos_height = 3,
     p_addresses = [Address_zero],
     p_pos_entries = [\<lparr>pl_hash = ex_hash 7, pl_height_offset = 0\<rparr>, \<lparr>pl_hash = ex_hash 8, pl_height_offset = 6\<rparr>],
     p_difficulties = [3], p_sender_base_nonces = [], p_gas_prices = [7], p_blocks = ex_front @ [ex_paid]\<rparr>"

lemmas ex_block_defs = ex_extracted_def ex_front_def ex_paid_def ex_pivot_def ex_raw_block_def

definition ex_epochs :: "epoch_blocks list" where
  "ex_epochs = [\<lparr>ep_number = 5, ep_executed = [ex_hash 1, ex_hash 2], ep_skipped = [ex_hash 3]\<rparr>]"

lemma ex_load_epochs: "load_epochs (db_pow ex_dbs) ex_view ex_config = Inr ex_epochs"
  by code_simp

lemma ex_boundary: "read_prev_boundary ex_node (Some (- 1)) (db_pow ex_dbs) ex_view ex_config ex_epochs =
    Inr \<lparr>pb_prev_last_hash = ex_hash 9, pb_prev_last_deferred_state_root = H256_zero, pb_first_block_number = 40\<rparr>"
  by code_simp

definition ex_raws :: "(u64, u8) raw_block list" where
  "ex_raws =
     [\<lparr>rb_epoch = 5, rb_hash = ex_hash 1, rb_header = 3, rb_body = [1],
       rb_reward = \<lparr>br_base_reward = 77, br_total_reward = 9\<rparr>, rb_flags = 0\<rparr>,
      \<lparr>rb_epoch = 5, rb_hash = ex_hash 3, rb_header = 4, rb_body = [], rb_reward = block_reward_default, rb_flags = 96\<rparr>,
      \<lparr>rb_epoch = 5, rb_hash = ex_hash 2, rb_header = 5, rb_body = [1, 2],
       rb_reward = \<lparr>br_base_reward = 0, br_total_reward = 0\<rparr>, rb_flags = 70\<rparr>]"

definition ex_pos_blocks :: "h256 \<Rightarrow> u8 option" where
  "ex_pos_blocks = [ex_hash 7 \<mapsto> 3, ex_hash 8 \<mapsto> 9]"

definition ex_collected :: "(u64, u8, u8) collected_blocks" where
  "ex_collected = \<lparr>co_block_inputs = ex_raws, co_min_timestamp = 1003, co_min_height = 3, co_min_pos_height = 3,
     co_pos_blocks = ex_pos_blocks\<rparr>"

definition ex_tables :: tables where
  "ex_tables = \<lparr>tb_addresses = [Address_zero],
     tb_pos_entries = [\<lparr>pl_hash = ex_hash 7, pl_height_offset = 0\<rparr>, \<lparr>pl_hash = ex_hash 8, pl_height_offset = 6\<rparr>],
     tb_difficulties = [3], tb_sender_base_nonces = [], tb_gas_prices = [7]\<rparr>"

text \<open>The reads of the three blocks.\<close>

lemma ex_reads:
  "map (read_header ex_node (Some (- 1)) (db_pow ex_dbs)) [ex_hash 1, ex_hash 2, ex_hash 3] = map Inr [3, 5, 4]"
  "map (read_body ex_node (db_pow ex_dbs)) [ex_hash 1, ex_hash 2, ex_hash 3] = map Inr [[1], [1, 2], []]"
  "map (read_reward (db_pow ex_dbs) ex_view) [ex_hash 1, ex_hash 2, ex_hash 3] =
     map Inr [Some \<lparr>br_base_reward = 77, br_total_reward = 9\<rparr>, Some \<lparr>br_base_reward = 0, br_total_reward = 0\<rparr>, None]"
  by code_simp+

lemma ex_flags:
  "block_flags ex_node ex_config 3 \<lparr>br_base_reward = 77, br_total_reward = 9\<rparr> False {ex_hash 3} (ex_hash 1) = Inr 0"
  "block_flags ex_node ex_config 4 block_reward_default False {ex_hash 3} (ex_hash 3) = Inr 96"
  "block_flags ex_node ex_config 5 \<lparr>br_base_reward = 0, br_total_reward = 0\<rparr> True {ex_hash 3} (ex_hash 2) = Inr 70"
  by code_simp+

lemma ex_hashes_differ: "ex_hash 1 \<noteq> ex_hash 2" "ex_hash 3 \<noteq> ex_hash 2" "ex_hash 7 \<noteq> ex_hash 8" "ex_hash 9 \<noteq> ex_hash 2"
  by code_simp+

lemma ex_refs:
  "effective_pos_reference ex_node 3 4 = None" "effective_pos_reference ex_node 4 4 = Some (ex_hash 7)"
  "effective_pos_reference ex_node 5 4 = Some (ex_hash 8)"
  by code_simp+

lemma ex_committed:
  "map (get_committed_block ex_node (db_pos ex_dbs)) [ex_hash 7, ex_hash 8] = map Inr [3, 9]"
  by code_simp

lemma ex_chain:
  "cp_cip112_transition_height (ec_chain ex_config) = - 1" "cp_pos_reference_enable_height (ec_chain ex_config) = 4"
  "ec_epoch_count ex_config = 1" "ec_start_epoch ex_config = 5"
  by (simp_all add: ex_config_def extract_config_default_def chain_params_default_def)

lemma ex_node_simps: "hd_timestamp ex_node h = 1000 + h" "hd_height ex_node h = h" "cb_view ex_node c = ucast c"
  "cb_version ex_node c = ucast c" "cb_pivot_block_hash ex_node c = ex_hash 9"
  by (simp_all add: ex_node_def)

lemma ex_collect: "collect_blocks ex_node (Some (- 1)) ex_view ex_config ex_dbs ex_epochs = Inr ex_collected"
  using ex_reads [simplified] ex_committed [simplified]
  by (simp add: collect_blocks_def collect_epoch_def collect_block_def ex_epochs_def note_pos_reference_def ex_chain ex_refs
    ex_node_simps last_of_def ex_flags [simplified] Let_def ex_hashes_differ [simplified] ex_collected_def ex_raws_def
    ex_pos_blocks_def)

lemma ex_orders_lawful: "lawful_orders ex_orders"
  by (simp add: lawful_orders_def ex_orders_def iteration_order_def)

lemma ex_ranked:
  "ranked (concat (map (raw_addresses ex_node ex_tx) ex_raws)) = [Address_zero]"
  "concat (map (raw_prices ex_node ex_tx) ex_raws) = [7, 7, 7, 7, 7, 7]"
  "ranked [7, 7, 7, 7, 7, 7 :: u256] = [7]"
  by (simp_all add: ranked_def first_seen_def ex_raws_def raw_addresses_def tx_addresses_def ex_node_def ex_tx_def raw_prices_def)

lemma ex_nonce_entry:
  "nonces_of ex_tx (index_table [Address_zero]) 0 (concat (map rb_body ex_raws)) = [1, 1, 2]"
  "sender_entry (0, [1, 1, 2]) = None"
  by (simp add: nonces_of_def ex_raws_def ex_tx_def index_table_def low_u64_def)
    (simp add: sender_entry_def Let_def saturating_sub_def, code_simp)

lemma ex_build_tables: "build_tables ex_node ex_tx ex_orders ex_raws ex_pos_blocks 3 4 = Inr ex_tables"
proof -
  have refs: "pos_refs ex_node 4 ex_raws = [ex_hash 7, ex_hash 8]" by (simp add: ex_raws_def ex_refs)
  then have "first_seen (pos_refs ex_node 4 ex_raws) = [ex_hash 7, ex_hash 8]"
    using ex_hashes_differ(3) by (simp add: first_seen_def)
  moreover have "map (pos_entry ex_node ex_pos_blocks 3) [ex_hash 7, ex_hash 8] = tb_pos_entries ex_tables"
    using ex_hashes_differ(3) by (simp add: pos_entry_def ex_pos_blocks_def ex_node_simps ex_tables_def)
  moreover have "first_seen (map (\<lambda>b. hd_difficulty ex_node (rb_header b)) ex_raws) = [3]"
    by (simp add: first_seen_def ex_raws_def ex_node_def)
  ultimately have "reference_tables ex_node ex_tx ex_raws ex_pos_blocks 3 4 = ex_tables"
    using ex_nonce_entry by (simp add: reference_tables_def Let_def ex_ranked ex_tables_def map_filter_simps)
  moreover have "pos_fits ex_node ex_pos_blocks 3 ref" if "ref \<in> set (pos_refs ex_node 4 ex_raws)" for ref
    using that ex_hashes_differ(3) by (auto simp: refs pos_fits_def ex_pos_blocks_def ex_node_simps)
  ultimately show ?thesis
    unfolding build_tables_reference [OF ex_orders_lawful] by auto
qed

lemma ex_lower: "build_block_inputs ex_node (Some (- 1)) ex_config (db_pow ex_dbs) ex_pos_blocks ex_raws = Inr (ex_front @ [ex_pivot])"
proof -
  have "read_header ex_node (Some (- 1)) (db_pow ex_dbs) (ex_hash 9) = Inr 4" by code_simp
  then show ?thesis
    using ex_hashes_differ(3)
    by (simp add: build_block_inputs_def ex_raws_def finalized_epoch_offset_def ex_chain ex_refs lower_block_def
      ex_front_def ex_pivot_def ex_raw_block_def block_reward_default_def ex_pos_blocks_def ex_node_simps saturating_sub_def)
      (simp add: ex_node_def)
qed

subsection \<open>The extraction\<close>

lemma ex_walks: "walks (ex_rocks vs es) (=)"
  by (simp add: walks_def ex_rocks_def)

lemma ex_column: "sorted_wrt (<) (map fst es) \<Longrightarrow> column (ex_rocks vs es) cf es"
  unfolding column_def using ex_walks [of vs es] by (intro conjI exI [of _ "(=)"]) (simp_all add: ex_rocks_def)

lemma ex_prev:
  "saturating_sub (ec_start_epoch ex_config) 1 = 4"
  "read_epoch_hashes (db_pow ex_dbs) ex_view 4 EPOCH_EXECUTED_BLOCK_SET_SUFFIX = Inr (Some [ex_hash 9])"
  "read_header ex_node (Some (- 1)) (db_pow ex_dbs) (ex_hash 9) = Inr 4"
  by code_simp+

lemma key_version_append: "key_version (u64_to_be v @ rest) = v"
proof -
  have "unat (key_version (u64_to_be v @ rest)) = unat v"
    by (simp add: key_version_def u64_of_be be_nat_u64_to_be)
  then show ?thesis by (simp only: word_unat_eq_iff)
qed

lemma ex_events_column: "column (ex_rocks vs ex_events) ''event'' ex_events" "\<forall>(k, v) \<in> set ex_events. 8 \<le> length k"
proof -
  have "u64_to_be 3 @ u64_to_be 0 < u64_to_be 5 @ u64_to_be 0" "u64_to_be 5 @ u64_to_be 0 < u64_to_be 9 @ u64_to_be 0"
    "u64_to_be 3 @ u64_to_be 0 < u64_to_be 9 @ u64_to_be 0"
    by code_simp+
  then show "column (ex_rocks vs ex_events) ''event'' ex_events" by (intro ex_column) (simp add: ex_events_def)
qed (simp add: ex_events_def)

lemma ex_decoded_event:
  "try_decode_unlock_event (unlock_event_bytes ex_event_data) = Inr (Some \<lparr>ue_identifier = H256 (replicate 32 1), ue_unlocked = 7\<rparr>)"
  "try_decode_unlock_event [1] = Inr None"
  by (subst try_decode_unlock_event_bytes)
    (simp_all add: ex_event_data_def subslice_def from_to_le_bytes try_decode_unlock_event_def)

lemma ex_columns: "column (db_pow ex_dbs) COL_REWARD_BY_POS_EPOCH ex_rewards" "column (db_pos ex_dbs) ''event'' ex_events"
  using ex_column [of ex_rewards] ex_events_column(1) by (simp_all add: ex_dbs_def ex_rewards_def)

lemma ex_unlocks: "collect_unlock_events ex_node (Some (- 1)) ex_view ex_config ex_dbs ex_pos_blocks ex_epochs =
    Some (Inr [5 \<mapsto> [ex_unlock]])"
proof -
  have "unlock_start ex_node (Some (- 1)) ex_view ex_config ex_dbs =
      Inr \<lparr>us_last_pos_ref = Some (ex_hash 7), us_last_version = Some 3, us_result = Map.empty\<rparr>"
    using ex_committed [simplified] by (simp add: unlock_start_def ex_chain ex_refs ex_prev [unfolded ex_chain] last_of_def ex_node_simps Let_def)
  moreover have "read_unlock_events (db_pos ex_dbs) 3 9 = Some (Inr [ex_unlock])"
    unfolding read_unlock_events_range [OF ex_columns(2) ex_events_column(2)]
    by (simp add: events_between_def ex_events_def key_version_append ex_decoded_event map_filter_simps ex_unlock_def)
  ultimately show ?thesis
    using ex_reads(1) [simplified] ex_hashes_differ(3)
    by (simp add: collect_unlock_events_def ex_epochs_def last_of_def epoch_unlocks_def ex_refs ex_chain Let_def ex_pos_blocks_def
      ex_node_simps)
qed

lemma ex_plain: "extract_plain ex_node ex_tx ex_view ex_orders (Some (- 1)) ex_config ex_dbs =
    Inr (ex_epochs, \<lparr>pb_prev_last_hash = ex_hash 9, pb_prev_last_deferred_state_root = H256_zero, pb_first_block_number = 40\<rparr>,
      ex_collected, ex_tables, ex_front @ [ex_pivot])"
  using ex_build_tables ex_lower
  by (simp add: extract_plain_def ex_load_epochs ex_boundary ex_collect ex_chain ex_collected_def)

lemma ex_paid_rewards: "read_pos_rewards (db_pow ex_dbs) ex_view {ex_hash 2} = Some (Inr [ex_hash 2 \<mapsto> ex_reward])"
  unfolding read_pos_rewards_column [OF ex_columns(1)] using ex_hashes_differ(4)
  by (simp add: ex_rewards_def reward_turn_def ex_view_def reward_account_def ex_reward_def)

lemma ex_extract_raw: "extract_raw ex_node ex_tx ex_view ex_orders None ex_config ex_dbs = Some (Inr ex_extracted)"
proof -
  have "set (map b_hash (filter (\<lambda>b. b_flags b AND FLAG_PIVOT \<noteq> 0) (ex_front @ [ex_pivot]))) = {ex_hash 2}"
    by (simp add: ex_front_def ex_pivot_def ex_raw_block_def FLAG_PIVOT_def)
  moreover have "map (attach_unlocks [5 \<mapsto> [ex_unlock]]) (map (attach_rewards [ex_hash 2 \<mapsto> ex_reward]) (ex_front @ [ex_pivot])) =
      ex_front @ [ex_paid]"
    using ex_hashes_differ by (simp add: ex_front_def ex_pivot_def ex_paid_def ex_raw_block_def attach_unlocks_def attach_rewards_def FLAG_PIVOT_def)
  moreover have "co_pos_blocks ex_collected = ex_pos_blocks" by (simp add: ex_collected_def)
  ultimately show ?thesis
    by (simp only: extract_raw_def ex_chain once_set_def ex_plain ex_unlocks ex_paid_rewards Let_def sum.case option.case prod.case)
      (simp add: assemble_extracted_def ex_extracted_def ex_collected_def ex_tables_def)
qed

subsection \<open>The hypotheses of the theorems\<close>

lemma ex_consistent: "consistent_epochs ex_node ex_view None (db_pow ex_dbs) ex_config"
  using ex_reads(1) [simplified] ex_hashes_differ
  by (simp add: consistent_epochs_def ex_load_epochs ex_epochs_def consistent_epoch_def ex_chain once_set_def ex_node_simps)

lemma ex_extracted_fits: "values_fit ex_extracted" "head_bound ex_extracted < 2 ^ 32"
  "ec_start_epoch ex_config \<le> ec_start_epoch ex_config + PACKET_EPOCHS"
  by (simp_all add: values_fit_def ex_block_defs head_bound_def table_bytes_def ex_chain PACKET_EPOCHS_def)

text \<open>The bytes of the PoS items of a block.\<close>

definition ex_pos_items :: "'t block \<Rightarrow> bytes" where
  "ex_pos_items b = concat (map (\<lambda>t. 1 # write_item t)
     (map encode_pos_reward (b_pos_rewards b) @ map encode_unlock_event (b_unlock_events b)))"

lemma ex_block_payload_length:
  assumes "encode_tx_payload ex_tx ex_rlp b (index_addresses [Address_zero]) gi (sender_nonce_index_of ns) s = Inr (payload, s')"
  shows "length payload \<le> 401 * length (b_transactions b) + length (ex_pos_items b) + 2"
  using assms ex_txs_length
  by (fastforce simp: encode_tx_payload_def ex_rlp_def ex_pos_items_def rbind_Inr_iff split: if_splits)

lemma ex_block_payloads_length:
  "encode_payloads ex_tx ex_rlp (index_addresses [Address_zero]) gi (sender_nonce_index_of ns) bs s = Inr payloads \<Longrightarrow>
     \<forall>b \<in> set bs. length (ex_pos_items b) \<le> 1000 \<and> length (b_transactions b) \<le> 10 \<Longrightarrow>
     \<forall>p \<in> set payloads. length p \<le> 5012"
proof (induction bs arbitrary: s payloads)
  case (Cons b bs)
  from Cons.prems(1) obtain p s' ps where "payloads = p # ps"
    "encode_tx_payload ex_tx ex_rlp b (index_addresses [Address_zero]) gi (sender_nonce_index_of ns) s = Inr (p, s')"
    "encode_payloads ex_tx ex_rlp (index_addresses [Address_zero]) gi (sender_nonce_index_of ns) bs s' = Inr ps"
    by (fastforce simp: rbind_Inr_iff split: prod.splits)
  with Cons.IH [of s' ps] Cons.prems(2) ex_block_payload_length [of b gi ns s p s'] show ?case by force
qed simp

lemma ex_paid_items: "length (ex_pos_items ex_paid) \<le> 1000"
  by (simp add: ex_pos_items_def ex_paid_def ex_reward_def ex_unlock_def encode_pos_reward_def encode_unlock_event_def
    length_quote_bytes u256_to_be_def)

lemma ex_extracted_payloads:
  "\<forall>payloads. packet_payloads ex_tx ex_rlp ex_extracted = Inr payloads \<longrightarrow> (\<forall>p \<in> set payloads. length p < 2 ^ 32)"
proof (intro allI impI ballI)
  fix payloads p
  assume "packet_payloads ex_tx ex_rlp ex_extracted = Inr payloads" "p \<in> set payloads"
  moreover have "\<forall>b \<in> set (p_blocks ex_extracted). length (ex_pos_items b) \<le> 1000 \<and> length (b_transactions b) \<le> 10"
    using ex_paid_items by (simp add: ex_extracted_def) (simp add: ex_block_defs ex_pos_items_def)
  moreover have "p_addresses ex_extracted = [Address_zero]" by (simp add: ex_extracted_def)
  ultimately have "length p \<le> 5012" using ex_block_payloads_length by metis
  then show "length p < 2 ^ 32" by simp
qed

lemma ex_heights: "\<not> (- 1 :: u64) \<le> 3" "\<not> (- 1 :: u64) \<le> 4" "\<not> (- 1 :: u64) \<le> 5"
  by code_simp+

lemma ex_representable: "representable ex_tx 4 ex_extracted"
  unfolding representable_def
proof (intro conjI)
  show "inj_on (tl_hash ex_tx) (\<Union>b \<in> set (p_blocks ex_extracted). set (b_transactions b))"
    by (rule ex_hash_inj)
  have "type_ok ex_tx n" for n by (simp add: type_ok_def ex_tx_def)
  then have "unat (tl_nonce ex_tx 1) < 2 ^ 64 \<and> unat (tl_nonce ex_tx 2) < 2 ^ 64 \<and> unat (tl_gas ex_tx n) < 2 ^ 64 \<and> type_ok ex_tx n" for n
    by (simp add: ex_tx_def)
  moreover have "tl_hash ex_tx 1 \<noteq> tl_hash ex_tx 2" by (simp add: ex_tx_def)
  ultimately show "\<forall>b \<in> set (p_blocks ex_extracted). distinct (map (tl_hash ex_tx) (b_transactions b)) \<and>
      length (b_transactions b) < 2 ^ 64 \<and>
      (\<forall>tx \<in> set (b_transactions b). unat (tl_nonce ex_tx tx) < 2 ^ 64 \<and> unat (tl_gas ex_tx tx) < 2 ^ 64 \<and> type_ok ex_tx tx) \<and>
      (4 \<le> b_height b \<longrightarrow> b_pos_view b \<noteq> None)"
    by (simp add: ex_block_defs ex_heights)
qed (simp add: ex_extracted_def)

lemma ex_extracted_plain: "plain_packet ex_tx ex_extracted"
  unfolding plain_packet_def
proof
  have "tl_hash ex_tx 1 \<noteq> tl_hash ex_tx 2" by (simp add: ex_tx_def)
  then show "\<forall>b \<in> set (p_blocks ex_extracted). plain_block ex_tx b"
    by (simp add: plain_block_def ex_block_defs)
qed (rule ex_hash_inj)

lemma ex_extracted_nonces:
  "distinct (map sn_sender_index (p_sender_base_nonces ex_extracted))"
  "\<forall>e \<in> set (p_sender_base_nonces ex_extracted). sn_sender_index e < 2 ^ 64" "p_min_pos_height ex_extracted < 2 ^ 32"
  by (simp_all add: ex_extracted_def)

lemma ex_extracted_view:
  "\<forall>b \<in> set (p_blocks ex_extracted). pos_view_ok (p_min_pos_height ex_extracted) 4 b"
  "txs_fit ex_tx ex_extracted (p_blocks ex_extracted)"
proof -
  have "tx_encodable ex_tx ex_extracted 1" "tx_encodable ex_tx ex_extracted 2"
    by (simp_all add: tx_encodable_def ex_tx_def ex_extracted_def base_nonce_for_def type_ok_def base_nonce_of_def
      low_u64_def index_addresses_def index_table_def)
  then show "txs_fit ex_tx ex_extracted (p_blocks ex_extracted)"
    by (simp add: txs_fit_def) (simp add: ex_block_defs)
qed (simp add: pos_view_ok_def ex_block_defs)

subsection \<open>A long event\<close>

text \<open>An unlock event with a data length of \<open>2 ^ 64 - 1\<close>.\<close>

definition ex_long_event :: bytes where
  "ex_long_event = put_uleb128 ([0, 40] @ UNLOCK_EVENT_KEY) (- 1)"

lemma ex_long_event:
  "43 \<le> length ex_long_event" "length ex_long_event < 2 ^ 64" "ex_long_event ! 0 = 0" "ex_long_event ! 1 = 40"
  "subslice ex_long_event 2 42 = UNLOCK_EVENT_KEY" "bcs_read_uleb128 ex_long_event 42 = Some (- 1, length ex_long_event)"
proof -
  have v: "ex_long_event = ([0, 40] @ UNLOCK_EVENT_KEY) @ put_uleb128 [] (- 1)"
    unfolding ex_long_event_def by (rule put_uleb128_Nil)
  have "put_uleb128 [] (- 1) \<noteq> []" by (subst put_uleb128_Nil_simps) simp
  then show "43 \<le> length ex_long_event" by (simp add: v Suc_le_eq)
  show "length ex_long_event < 2 ^ 64" using length_put_uleb128 [of "[]" "- 1"] by (simp add: v)
  show "ex_long_event ! 0 = 0" "ex_long_event ! 1 = 40" "subslice ex_long_event 2 42 = UNLOCK_EVENT_KEY"
    by (simp_all add: v subslice_def)
  have "read_uleb128 ex_long_event (length ([0, 40] @ UNLOCK_EVENT_KEY)) = Inr (- 1, length ex_long_event)"
    unfolding ex_long_event_def by (rule read_put_uleb128) simp
  then show "bcs_read_uleb128 ex_long_event 42 = Some (- 1, length ex_long_event)"
    by (simp add: bcs_read_uleb128_eq)
qed

lemma ex_extracted_data:
  obtains data where "encode_packet ex_tx ex_rlp ex_snap ex_extracted = Inr data" "length data < 2 ^ 64"
    "encoded ex_node ex_tx ex_rlp ex_snap ex_view ex_orders None ex_dbs ex_config =
       Some (Inr (data, report_of ex_config ex_extracted data))"
  using encoded_returns [OF ex_extract_raw ex_orders_lawful ex_consistent ex_extracted_fits(3,1,2) ex_extracted_payloads
      ex_rlp_law ex_snap_law ex_snap_total] by blast

end
