(* ===== verification/Replay_Validate.thy ===== *)
theory Replay_Validate
  imports Packet_Plain
begin

text \<open>
  \<open>crates/replay-data-extractor/src/validate.rs\<close>: the checks of a decoded packet before it is
  replayed. They repeat those of the encoder, except that two flag bits are reserved instead of
  one, and that the number of transactions is compared with the number of items the verifier
  counted. \<open>space_of\<close> is the method \<open>SignedTransaction::space\<close>.
\<close>

subsection \<open>The checks\<close>

record replay_report =
  rr_packet_bytes :: nat
  rr_epoch_count :: nat
  rr_block_count :: nat
  rr_transaction_count :: nat
  rr_duplicate_transaction_count :: nat
  rr_native_transaction_count :: nat
  rr_espace_transaction_count :: nat
  rr_first_block_number :: u64
  rr_last_block_number :: u64

record tx_counts =
  tc_tx :: nat
  tc_native :: nat
  tc_espace :: nat
  tc_duplicate :: nat
  tc_seen :: "h256 \<Rightarrow> nat option"

definition no_counts :: tx_counts where
  "no_counts = \<lparr>tc_tx = 0, tc_native = 0, tc_espace = 0, tc_duplicate = 0, tc_seen = Map.empty\<rparr>"

definition count_tx :: "('t, 'acc, 'auth) tx_lib \<Rightarrow> ('t \<Rightarrow> space) \<Rightarrow> nat \<Rightarrow> 't \<Rightarrow> tx_counts \<Rightarrow> tx_counts" where
  "count_tx T space_of index tx c =
     (let c = c\<lparr>tc_tx := tc_tx c + 1\<rparr>;
          c = (case space_of tx of
                 Native \<Rightarrow> c\<lparr>tc_native := tc_native c + 1\<rparr>
               | Ethereum \<Rightarrow> c\<lparr>tc_espace := tc_espace c + 1\<rparr>);
          old = tc_seen c (tl_hash T tx);
          c = c\<lparr>tc_seen := (tc_seen c)(tl_hash T tx \<mapsto> index)\<rparr>
      in if old \<noteq> None then c\<lparr>tc_duplicate := tc_duplicate c + 1\<rparr> else c)"

definition validate_block_transactions ::
  "('t, 'acc, 'auth) tx_lib \<Rightarrow> ('t \<Rightarrow> space) \<Rightarrow> 't block \<Rightarrow> tx_counts \<Rightarrow> tx_counts" where
  "validate_block_transactions T space_of b c = fold (count_tx T space_of (b_index b)) (b_transactions b) c"

definition replay_check_block :: "nat \<Rightarrow> u64 \<Rightarrow> 't block \<Rightarrow> unit pack_result" where
  "replay_check_block expected_index epoch b =
     rbind (ensure (b_index b = expected_index) (Bail ''block index is not sequential'')) (\<lambda>_.
     rbind (ensure (b_flags b AND 0xC0 = 0) (Bail ''reserved block flag bits must be zero'')) (\<lambda>_.
     rbind (ensure (b_epoch b = epoch) (Bail ''block epoch does not match its pivot epoch'')) (\<lambda>_.
       ensure (b_flags b AND FLAG_HAS_TRANSACTIONS \<noteq> 0 \<or> b_transactions b = [])
         (Bail ''transaction flag does not match decoded transaction list''))))"

text \<open>The blocks of a group; \<open>block_number\<close> counts with them.\<close>

fun replay_blocks ::
  "('t, 'acc, 'auth) tx_lib \<Rightarrow> ('t \<Rightarrow> space) \<Rightarrow> u64 \<Rightarrow> nat \<Rightarrow> u64 \<Rightarrow> 't block list \<Rightarrow> tx_counts \<Rightarrow>
   (nat \<times> u64 \<times> tx_counts) pack_result" where
  "replay_blocks T space_of epoch expected_index block_number [] c = Inr (expected_index, block_number, c)"
| "replay_blocks T space_of epoch expected_index block_number (b # bs) c =
     rbind (replay_check_block expected_index epoch b) (\<lambda>_.
       replay_blocks T space_of epoch (expected_index + 1) (block_number + 1) bs
         (validate_block_transactions T space_of b c))"

text \<open>The groups; \<open>bs\<close> is \<open>blocks[group_start..]\<close>.\<close>

function replay_groups ::
  "('t, 'acc, 'auth) tx_lib \<Rightarrow> ('t \<Rightarrow> space) \<Rightarrow> nat \<Rightarrow> nat \<Rightarrow> u64 \<Rightarrow> 't block list \<Rightarrow> tx_counts \<Rightarrow>
   (nat \<times> u64 \<times> tx_counts) pack_result" where
  "replay_groups T space_of epoch_count expected_index block_number bs c =
     (if bs = [] then Inr (epoch_count, block_number, c)
      else case first_index is_pivot bs of
             None \<Rightarrow> Inl (Bail ''epoch group has no pivot block'')
           | Some pivot \<Rightarrow>
               let epoch = b_height (bs ! pivot)
               in rbind (ensure (b_epoch (bs ! pivot) = epoch) (Bail ''pivot block epoch does not match pivot height'')) (\<lambda>_.
                  rbind (replay_blocks T space_of epoch expected_index block_number (take (Suc pivot) bs) c)
                    (\<lambda>(expected_index, block_number, c).
                    replay_groups T space_of (epoch_count + 1) expected_index block_number (drop (Suc pivot) bs) c)))"
  by auto
termination
  by (relation "measure (\<lambda>(T, s, n, i, k, bs, c). length bs)") auto

declare replay_groups.simps [simp del]

definition validate_replay_input ::
  "('t, 'acc, 'auth) tx_lib \<Rightarrow> ('t \<Rightarrow> space) \<Rightarrow> 't packet \<Rightarrow> verify_report \<Rightarrow> replay_report pack_result" where
  "validate_replay_input T space_of input verify =
     rbind (ensure (p_blocks input \<noteq> []) (Bail ''replay packet has no blocks'')) (\<lambda>_.
     rbind (ensure (length (p_blocks input) = unat (vr_block_count verify))
              (Bail ''decoded block count differs from packet verifier'')) (\<lambda>_.
     rbind (replay_groups T space_of 0 0 (p_first_block_number input) (p_blocks input) no_counts)
       (\<lambda>(epoch_count, block_number, c).
     rbind (ensure (tc_tx c = unat (vr_transaction_items verify))
              (Bail ''decoded transaction count differs from packet verifier'')) (\<lambda>_.
       Inr \<lparr>rr_packet_bytes = vr_packet_bytes verify, rr_epoch_count = epoch_count,
            rr_block_count = length (p_blocks input), rr_transaction_count = tc_tx c,
            rr_duplicate_transaction_count = tc_duplicate c, rr_native_transaction_count = tc_native c,
            rr_espace_transaction_count = tc_espace c, rr_first_block_number = p_first_block_number input,
            rr_last_block_number = block_number - 1\<rparr>))))"

definition validate_replay_packet ::
  "('t, 'acc, 'auth) tx_lib \<Rightarrow> ('r, 'acc, 'auth) rlp_lib \<Rightarrow> snap_lib \<Rightarrow> ('t \<Rightarrow> space) \<Rightarrow> bytes \<Rightarrow> replay_report pack_result" where
  "validate_replay_packet T R S space_of data =
     rbind (verify_packet R S data) (\<lambda>verify.
     rbind (decode_packet T R S data) (\<lambda>input.
       validate_replay_input T space_of input verify))"

subsection \<open>What is counted\<close>

lemma count_tx_fields:
  "tc_tx (count_tx T space_of i tx c) = tc_tx c + 1"
  "tc_native (count_tx T space_of i tx c) = tc_native c + (if space_of tx = Native then 1 else 0)"
  "tc_espace (count_tx T space_of i tx c) = tc_espace c + (if space_of tx = Ethereum then 1 else 0)"
  "tc_duplicate (count_tx T space_of i tx c) = tc_duplicate c + (if tl_hash T tx \<in> dom (tc_seen c) then 1 else 0)"
  "dom (tc_seen (count_tx T space_of i tx c)) = insert (tl_hash T tx) (dom (tc_seen c))"
  by (auto simp: count_tx_def Let_def split: space.splits)

text \<open>The counts after a list of transactions: every transaction, by space, and the repeated hashes.\<close>

definition counted ::
  "('t, 'acc, 'auth) tx_lib \<Rightarrow> ('t \<Rightarrow> space) \<Rightarrow> tx_counts \<Rightarrow> 't list \<Rightarrow> tx_counts \<Rightarrow> bool" where
  "counted T space_of c txs c' \<longleftrightarrow>
     tc_tx c' = tc_tx c + length txs \<and>
     tc_native c' = tc_native c + length (filter (\<lambda>tx. space_of tx = Native) txs) \<and>
     tc_espace c' = tc_espace c + length (filter (\<lambda>tx. space_of tx = Ethereum) txs) \<and>
     dom (tc_seen c') = dom (tc_seen c) \<union> set (map (tl_hash T) txs) \<and>
     tc_duplicate c' + card (dom (tc_seen c')) = tc_duplicate c + card (dom (tc_seen c)) + length txs"

lemma counted_refl: "counted T space_of c [] c"
  by (simp add: counted_def)

lemma counted_trans:
  "counted T space_of c xs c' \<Longrightarrow> counted T space_of c' ys c'' \<Longrightarrow> counted T space_of c (xs @ ys) c''"
  by (auto simp: counted_def)

lemma counted_step:
  assumes "finite (dom (tc_seen c))"
  shows "counted T space_of c [tx] (count_tx T space_of i tx c)"
  using assms by (auto simp: counted_def count_tx_fields insert_absorb)

lemma validate_block_transactions_counted:
  assumes "finite (dom (tc_seen c))"
  shows "counted T space_of c (b_transactions b) (validate_block_transactions T space_of b c)"
proof -
  have "finite (dom (tc_seen c)) \<Longrightarrow> counted T space_of c txs (fold (count_tx T space_of i) txs c)" for txs c i
  proof (induction txs arbitrary: c)
    case (Cons tx txs)
    have "counted T space_of (count_tx T space_of i tx c) txs (fold (count_tx T space_of i) txs (count_tx T space_of i tx c))"
      using Cons.prems by (intro Cons.IH) (simp add: count_tx_fields)
    from counted_trans [OF counted_step [OF Cons.prems] this] show ?case by simp
  qed (simp add: counted_refl)
  from this [OF assms] show ?thesis by (simp add: validate_block_transactions_def)
qed

lemma counted_finite: "counted T space_of c txs c' \<Longrightarrow> finite (dom (tc_seen c)) \<Longrightarrow> finite (dom (tc_seen c'))"
  by (simp add: counted_def)

subsection \<open>The checks against those of the encoder\<close>

definition replayable :: "'t block \<Rightarrow> bool" where
  "replayable b \<longleftrightarrow> b_flags b AND FLAG_ZERO_TOTAL_REWARD = 0 \<and>
     (b_flags b AND FLAG_HAS_TRANSACTIONS \<noteq> 0 \<or> b_transactions b = [])"

lemma reserved_bits: "(f :: u8) AND 0xC0 = 0 \<longleftrightarrow> f AND 0x80 = 0 \<and> f AND FLAG_ZERO_TOTAL_REWARD = 0"
proof -
  have "(0xC0 :: u8) = 0x80 OR FLAG_ZERO_TOTAL_REWARD" by (simp add: FLAG_ZERO_TOTAL_REWARD_def)
  then have "f AND 0xC0 = (f AND 0x80) OR (f AND FLAG_ZERO_TOTAL_REWARD)" by (simp only: bit.conj_disj_distrib)
  moreover have "a OR b = 0 \<longleftrightarrow> a = 0 \<and> b = 0" for a b :: u8
    by (auto simp: bit_eq_iff bit_simps)
  ultimately show ?thesis by (simp only:)
qed

lemma replay_check_block_iff:
  "replay_check_block n epoch b = Inr () \<longleftrightarrow> check_block n epoch b = Inr () \<and> replayable b"
  by (auto simp: replay_check_block_def check_block_def replayable_def rbind_Inr_iff reserved_bits)

lemma replay_blocks_eq:
  "finite (dom (tc_seen c)) \<Longrightarrow>
   (\<exists>r. replay_blocks T space_of epoch n k bs c = Inr r) \<longleftrightarrow> check_blocks n epoch bs = Inr () \<and> (\<forall>b \<in> set bs. replayable b)"
  "finite (dom (tc_seen c)) \<Longrightarrow> replay_blocks T space_of epoch n k bs c = Inr (n', k', c') \<Longrightarrow>
     n' = n + length bs \<and> k' = k + of_nat (length bs) \<and> counted T space_of c (concat (map b_transactions bs)) c'"
proof (induction bs arbitrary: n k c)
  case (Cons b bs)
  {
    case 1
    note counted = validate_block_transactions_counted [OF 1, of T space_of b]
    from Cons.IH(1) [OF counted_finite [OF counted 1]] show ?case
      using replay_check_block_iff [of n epoch b] by (auto simp: rbind_Inr_iff)
  next
    case 2
    note counted = validate_block_transactions_counted [OF 2(1), of T space_of b]
    have "replay_blocks T space_of epoch (n + 1) (k + 1) bs (validate_block_transactions T space_of b c) = Inr (n', k', c')"
      using 2(2) by (auto simp: rbind_Inr_iff)
    from Cons.IH(2) [OF counted_finite [OF counted 2(1)] this] counted_trans [OF counted] show ?case by auto
  }
qed (auto simp: counted_refl)

text \<open>
  The replay check succeeds on exactly the lists of blocks that the encoder's check accepts and whose
  blocks are replayable.
\<close>

lemma replay_groups_iff:
  "finite (dom (tc_seen c)) \<Longrightarrow>
   (\<exists>r. replay_groups T space_of m n k bs c = Inr r) \<longleftrightarrow> validate_groups n bs = Inr () \<and> (\<forall>b \<in> set bs. replayable b)"
proof (induction bs arbitrary: m n k c rule: length_induct)
  case (1 bs)
  show ?case
  proof (cases "bs = []")
    case True
    then show ?thesis by (simp add: replay_groups.simps validate_groups.simps)
  next
    case False
    show ?thesis
    proof (cases "first_index is_pivot bs")
      case None
      with False show ?thesis by (simp add: replay_groups.simps [of _ _ _ _ _ bs] validate_groups.simps [of _ bs])
    next
      case (Some pivot)
      let ?g = "take (Suc pivot) bs" and ?rest = "drop (Suc pivot) bs" and ?e = "b_height (bs ! pivot)"
      have pivot: "pivot < length bs" using Some by (simp add: first_index_Some)
      have check: "check_blocks n ?e ?g = Inr () \<Longrightarrow> b_epoch (bs ! pivot) = ?e"
      proof -
        assume ok: "check_blocks n ?e ?g = Inr ()"
        have "check_blocks n e xs = Inr () \<Longrightarrow> x \<in> set xs \<Longrightarrow> b_epoch x = e" for n e xs and x :: "'a block"
          by (induction xs arbitrary: n) (auto simp: rbind_Inr_iff check_block_def)
        from this [OF ok] show ?thesis using pivot by (simp add: take_Suc_conv_app_nth)
      qed
      have shorter: "length ?rest < length bs" using pivot by simp
      have "(\<exists>r. replay_groups T space_of m n k bs c = Inr r) \<longleftrightarrow> b_epoch (bs ! pivot) = ?e \<and>
          (\<exists>n' k' c' r. replay_blocks T space_of ?e n k ?g c = Inr (n', k', c') \<and>
             replay_groups T space_of (m + 1) n' k' ?rest c' = Inr r)"
        using False Some by (subst replay_groups.simps) (auto simp: Let_def rbind_Inr_iff)
      also have "\<dots> \<longleftrightarrow> b_epoch (bs ! pivot) = ?e \<and> (\<exists>r. replay_blocks T space_of ?e n k ?g c = Inr r) \<and>
          validate_groups (n + length ?g) ?rest = Inr () \<and> (\<forall>b \<in> set ?rest. replayable b)"
      proof -
        have "(\<exists>r. replay_groups T space_of (m + 1) n' k' ?rest c' = Inr r) \<longleftrightarrow>
            validate_groups (n + length ?g) ?rest = Inr () \<and> (\<forall>b \<in> set ?rest. replayable b)"
          if r: "replay_blocks T space_of ?e n k ?g c = Inr (n', k', c')" for n' k' c'
        proof -
          note r' = replay_blocks_eq(2) [OF 1(2) r]
          then have "finite (dom (tc_seen c'))" using counted_finite 1(2) by blast
          with 1(1) shorter r' show ?thesis by blast
        qed
        moreover have "(\<exists>r. replay_blocks T space_of ?e n k ?g c = Inr r) \<longleftrightarrow>
            (\<exists>n' k' c'. replay_blocks T space_of ?e n k ?g c = Inr (n', k', c'))"
          by (simp only: split_paired_Ex)
        ultimately show ?thesis by blast
      qed
      also have "\<dots> \<longleftrightarrow> check_blocks n ?e ?g = Inr () \<and> validate_groups (n + Suc pivot) ?rest = Inr () \<and>
          (\<forall>b \<in> set bs. replayable b)"
      proof -
        have "set bs = set ?g \<union> set ?rest" by (metis append_take_drop_id set_append)
        moreover have "length ?g = Suc pivot" using pivot by simp
        ultimately show ?thesis using replay_blocks_eq(1) [OF 1(2), of T space_of ?e n k ?g] check by auto
      qed
      also have "\<dots> \<longleftrightarrow> validate_groups n bs = Inr () \<and> (\<forall>b \<in> set bs. replayable b)"
        using False Some by (subst (2) validate_groups.simps) (auto simp: rbind_Inr_iff)
      finally show ?thesis .
    qed
  qed
qed

lemma replay_groups_result:
  "finite (dom (tc_seen c)) \<Longrightarrow> replay_groups T space_of m n k bs c = Inr (m', k', c') \<Longrightarrow>
     m' = m + length (filter is_pivot bs) \<and> k' = k + of_nat (length bs) \<and> counted T space_of c (concat (map b_transactions bs)) c'"
proof (induction bs arbitrary: m n k c rule: length_induct)
  case (1 bs)
  show ?case
  proof (cases "bs = []")
    case True
    with 1 show ?thesis by (simp add: replay_groups.simps counted_refl)
  next
    case False
    then obtain pivot where Some: "first_index is_pivot bs = Some pivot"
      using 1(3) by (subst (asm) replay_groups.simps) (auto split: option.splits)
    let ?g = "take (Suc pivot) bs" and ?rest = "drop (Suc pivot) bs" and ?e = "b_height (bs ! pivot)"
    have pivot: "pivot < length bs" "is_pivot (bs ! pivot)" "\<forall>j < pivot. \<not> is_pivot (bs ! j)"
      using Some by (simp_all add: first_index_Some)
    obtain n1 k1 c1 where r: "replay_blocks T space_of ?e n k ?g c = Inr (n1, k1, c1)"
      "replay_groups T space_of (m + 1) n1 k1 ?rest c1 = Inr (m', k', c')"
      using 1(3) False Some by (subst (asm) replay_groups.simps) (auto simp: Let_def rbind_Inr_iff)
    note g = replay_blocks_eq(2) [OF 1(2) r(1)]
    have "finite (dom (tc_seen c1))" using g counted_finite 1(2) by blast
    moreover have "length ?rest < length bs" using pivot(1) by simp
    ultimately have rest: "m' = m + 1 + length (filter is_pivot ?rest) \<and> k' = k1 + of_nat (length ?rest) \<and>
        counted T space_of c1 (concat (map b_transactions ?rest)) c'"
      using 1(1) r(2) by blast
    have "filter is_pivot (take pivot bs) = []"
      using pivot(3) by (auto simp: filter_empty_conv in_set_conv_nth)
    then have "filter is_pivot ?g = [bs ! pivot]" using pivot(1,2) by (simp add: take_Suc_conv_app_nth)
    then have "filter is_pivot bs = bs ! pivot # filter is_pivot ?rest"
      by (metis append_Cons append_Nil append_take_drop_id filter_append)
    then have "m' = m + length (filter is_pivot bs)" using rest by simp
    moreover have "k' = k + of_nat (length bs)"
    proof -
      have "length bs = length ?g + length ?rest" by simp
      then show ?thesis using g rest by (metis add.assoc of_nat_add)
    qed
    moreover have "concat (map b_transactions bs) = concat (map b_transactions ?g) @ concat (map b_transactions ?rest)"
      by (metis append_take_drop_id concat_append map_append)
    then have "counted T space_of c (concat (map b_transactions bs)) c'"
      using counted_trans [of T space_of c "concat (map b_transactions ?g)" c1] g rest by simp
    ultimately show ?thesis by blast
  qed
qed

text \<open>The report of a list of blocks that passes.\<close>

definition replay_report_of ::
  "('t, 'acc, 'auth) tx_lib \<Rightarrow> ('t \<Rightarrow> space) \<Rightarrow> 't packet \<Rightarrow> nat \<Rightarrow> replay_report" where
  "replay_report_of T space_of p packet_bytes =
     (let txs = concat (map b_transactions (p_blocks p))
      in \<lparr>rr_packet_bytes = packet_bytes, rr_epoch_count = length (filter is_pivot (p_blocks p)),
          rr_block_count = length (p_blocks p), rr_transaction_count = length txs,
          rr_duplicate_transaction_count = length txs - card (set (map (tl_hash T) txs)),
          rr_native_transaction_count = length (filter (\<lambda>tx. space_of tx = Native) txs),
          rr_espace_transaction_count = length (filter (\<lambda>tx. space_of tx = Ethereum) txs),
          rr_first_block_number = p_first_block_number p,
          rr_last_block_number = p_first_block_number p + of_nat (length (p_blocks p)) - 1\<rparr>)"

lemma validate_replay_input_iff:
  "validate_replay_input T space_of p v = Inr report \<longleftrightarrow>
     p_blocks p \<noteq> [] \<and> length (p_blocks p) = unat (vr_block_count v) \<and> validate_groups 0 (p_blocks p) = Inr () \<and>
     (\<forall>b \<in> set (p_blocks p). replayable b) \<and>
     length (concat (map b_transactions (p_blocks p))) = unat (vr_transaction_items v) \<and>
     report = replay_report_of T space_of p (vr_packet_bytes v)"
proof -
  let ?bs = "p_blocks p"
  let ?txs = "concat (map b_transactions ?bs)"
  have fin: "finite (dom (tc_seen no_counts))" by (simp add: no_counts_def)
  have iff: "(\<exists>r. replay_groups T space_of 0 0 (p_first_block_number p) ?bs no_counts = Inr r) \<longleftrightarrow>
      validate_groups 0 ?bs = Inr () \<and> (\<forall>b \<in> set ?bs. replayable b)"
    by (rule replay_groups_iff [OF fin])
  have res: "m = length (filter is_pivot ?bs) \<and> k = p_first_block_number p + of_nat (length ?bs) \<and>
      tc_tx c = length ?txs \<and> tc_native c = length (filter (\<lambda>tx. space_of tx = Native) ?txs) \<and>
      tc_espace c = length (filter (\<lambda>tx. space_of tx = Ethereum) ?txs) \<and>
      tc_duplicate c = length ?txs - card (set (map (tl_hash T) ?txs))"
    if "replay_groups T space_of 0 0 (p_first_block_number p) ?bs no_counts = Inr (m, k, c)" for m k c
    using replay_groups_result [OF fin that] by (auto simp: counted_def no_counts_def)
  show ?thesis
  proof (cases "replay_groups T space_of 0 0 (p_first_block_number p) ?bs no_counts")
    case (Inl e)
    then show ?thesis using iff by (auto simp: validate_replay_input_def rbind_Inr_iff)
  next
    case (Inr r)
    obtain m k c where r: "r = (m, k, c)" by (cases r)
    show ?thesis
      using Inr iff res [of m k c] by (auto simp: r validate_replay_input_def rbind_Inr_iff replay_report_of_def Let_def)
  qed
qed

end
