(* ===== verification/Replay_Packet.thy ===== *)
theory Replay_Packet
  imports Replay_Validate Packet_Total
begin

text \<open>
  The replay check on the bytes of an encoded packet. It decodes with the largest enabling height,
  that is without PoS views; the rest of the packet is the same.
\<close>

subsection \<open>Decoding without PoS views\<close>

definition no_view :: "'t block \<Rightarrow> 't block" where
  "no_view b = b\<lparr>b_pos_view := None\<rparr>"

lemma no_view_simps [simp]:
  "b_flags (no_view b) = b_flags b" "b_height (no_view b) = b_height b" "b_epoch (no_view b) = b_epoch b"
  "b_index (no_view b) = b_index b" "b_transactions (no_view b) = b_transactions b"
  "b_pos_rewards (no_view b) = b_pos_rewards b" "b_unlock_events (no_view b) = b_unlock_events b"
  "is_pivot (no_view b) = is_pivot b"
  by (simp_all add: no_view_def is_pivot_def)

lemma decode_block_record_no_view:
  assumes "decode_block_record r i mt mh mp pe as ds = Inr b" "b_height b < pe'"
  shows "decode_block_record r i mt mh mp pe' as ds = Inr (no_view b)"
  using assms unfolding decode_block_record_def Let_def
  by (auto simp: rbind_Inr_iff no_view_def not_le split: if_splits)

lemma decode_records_no_view:
  "decode_block_records_all rs i mt mh mp pe as ds = Inr bs \<Longrightarrow> \<forall>b \<in> set bs. b_height b < pe' \<Longrightarrow>
     decode_block_records_all rs i mt mh mp pe' as ds = Inr (map no_view bs)"
proof (induction rs arbitrary: i bs)
  case (Cons r rs)
  then obtain b cs where b: "decode_block_record r' i mt mh mp pe as ds = Inr b" "bs = b # cs"
    "decode_block_records_all rs (Suc i) mt mh mp pe as ds = Inr cs" if "r' = dr_bytes r" for r'
    by (auto simp: rbind_Inr_iff)
  from b(1) [OF refl] b(2) [OF refl] Cons.prems(2)
  have "decode_block_record (dr_bytes r) i mt mh mp pe' as ds = Inr (no_view b)"
    by (intro decode_block_record_no_view) simp_all
  moreover have "decode_block_records_all rs (Suc i) mt mh mp pe' as ds = Inr (map no_view cs)"
    using b(2,3) [OF refl] Cons.prems(2) by (intro Cons.IH) simp_all
  ultimately show ?case using b(2) [OF refl] by simp
qed simp

lemma first_index_map: "first_index P (map f xs) = first_index (\<lambda>x. P (f x)) xs"
  by (induction xs) simp_all

lemma assign_epoch_no_view:
  "assign_epoch_from_pivots bs = Inr cs \<Longrightarrow> assign_epoch_from_pivots (map no_view bs) = Inr (map no_view cs)"
proof (induction bs arbitrary: cs rule: assign_epoch_from_pivots.induct)
  case (1 bs)
  show ?case
  proof (cases "bs = []")
    case True
    with 1 show ?thesis by (simp add: assign_epoch_from_pivots.simps)
  next
    case False
    then obtain pivot where p: "first_index is_pivot bs = Some pivot"
      using 1(2) by (subst (asm) assign_epoch_from_pivots.simps) (auto split: option.splits)
    then obtain rest where rest: "assign_epoch_from_pivots (drop (Suc pivot) bs) = Inr rest"
      "cs = map (\<lambda>b. b\<lparr>b_epoch := b_height (bs ! pivot)\<rparr>) (take (Suc pivot) bs) @ rest"
      using 1(2) False by (subst (asm) assign_epoch_from_pivots.simps) (auto simp: Let_def rbind_Inr_iff)
    have "pivot < length bs" using p by (simp add: first_index_Some)
    moreover have "assign_epoch_from_pivots (map no_view (drop (Suc pivot) bs)) = Inr (map no_view rest)"
      using 1(1) False p rest(1) by blast
    moreover have "no_view (b\<lparr>b_epoch := e\<rparr>) = (no_view b)\<lparr>b_epoch := e\<rparr>" for b :: "'a block" and e
      by (simp add: no_view_def)
    ultimately show ?thesis
      using False p by (subst assign_epoch_from_pivots.simps)
        (simp add: first_index_map Let_def rest(2) drop_map take_map)
  qed
qed

lemma assign_epoch_heights: "assign_epoch_from_pivots bs = Inr cs \<Longrightarrow> map b_height cs = map b_height bs"
proof (induction bs arbitrary: cs rule: assign_epoch_from_pivots.induct)
  case (1 bs)
  show ?case
  proof (cases "bs = []")
    case True
    with 1 show ?thesis by (simp add: assign_epoch_from_pivots.simps)
  next
    case False
    then obtain pivot where p: "first_index is_pivot bs = Some pivot"
      using 1(2) by (subst (asm) assign_epoch_from_pivots.simps) (auto split: option.splits)
    then obtain rest where rest: "assign_epoch_from_pivots (drop (Suc pivot) bs) = Inr rest"
      "cs = map (\<lambda>b. b\<lparr>b_epoch := b_height (bs ! pivot)\<rparr>) (take (Suc pivot) bs) @ rest"
      using 1(2) False by (subst (asm) assign_epoch_from_pivots.simps) (auto simp: Let_def rbind_Inr_iff)
    have "map b_height rest = map b_height (drop (Suc pivot) bs)"
      using 1(1) False p rest(1) by blast
    then have "map b_height cs = map b_height (take (Suc pivot) bs) @ map b_height (drop (Suc pivot) bs)"
      by (simp add: rest(2) comp_def)
    then show ?thesis by (metis append_take_drop_id map_append)
  qed
qed

lemma decode_transactions_no_view:
  "decode_transactions T R S data off as gs ns rbs prev = Inr cs \<Longrightarrow>
     decode_transactions T R S data off as gs ns (map (\<lambda>(r, b). (r, no_view b)) rbs) prev = Inr (map no_view cs) \<and>
     map b_height cs = map (\<lambda>(r, b). b_height b) rbs"
proof (induction T R S data off as gs ns rbs prev arbitrary: cs rule: decode_transactions.induct)
  case (2 T R S data off as gs ns r b rest prev)
  obtain b' bs where b': "(if b_flags b AND FLAG_HAS_TRANSACTIONS \<noteq> 0
            then rbind (decode_tx_payload T R S data off (dr_tx_offset_units r) (b_flags b)
                          (b_epoch b) as gs ns prev) (\<lambda>p.
                   Inr (b\<lparr>b_transactions := pl_transactions p, b_transaction_refs := pl_refs p,
                          b_pos_rewards := pl_pos_rewards p, b_unlock_events := pl_unlock_events p\<rparr>))
            else Inr b) = Inr b'" and bs: "decode_transactions T R S data off as gs ns rest (prev @ [b_transactions b']) = Inr bs"
    and cs: "cs = b' # bs"
    using 2(2) by (auto simp: rbind_Inr_iff)
  have "(if b_flags (no_view b) AND FLAG_HAS_TRANSACTIONS \<noteq> 0
            then rbind (decode_tx_payload T R S data off (dr_tx_offset_units r) (b_flags (no_view b))
                          (b_epoch (no_view b)) as gs ns prev) (\<lambda>p.
                   Inr ((no_view b)\<lparr>b_transactions := pl_transactions p, b_transaction_refs := pl_refs p,
                          b_pos_rewards := pl_pos_rewards p, b_unlock_events := pl_unlock_events p\<rparr>))
            else Inr (no_view b)) = Inr (no_view b') \<and> b_height b' = b_height b"
    using b' by (auto simp: rbind_Inr_iff no_view_def split: if_splits)
  then show ?case using 2(1) [OF b' bs] by (simp add: cs)
qed simp

lemma length_decode_records: "decode_block_records_all rs i mt mh mp pe as ds = Inr bs \<Longrightarrow> length bs = length rs"
  by (induction rs arbitrary: i bs) (auto simp: rbind_Inr_iff)

lemma decode_blocks_no_view:
  assumes dec: "decode_block_records_all rs 0 mt mh mp pe as ds = Inr bs0" and ep: "assign_epoch_from_pivots bs0 = Inr bs1"
    and tx: "decode_transactions T R S data off as gs ns (zip rs bs1) [] = Inr cs"
    and small: "\<forall>b \<in> set cs. b_height b < pe'"
  shows "decode_block_records_all rs 0 mt mh mp pe' as ds = Inr (map no_view bs0) \<and>
    assign_epoch_from_pivots (map no_view bs0) = Inr (map no_view bs1) \<and>
    decode_transactions T R S data off as gs ns (zip rs (map no_view bs1)) [] = Inr (map no_view cs)"
proof -
  note heights = assign_epoch_heights [OF ep]
  have len: "length bs1 = length rs" using length_decode_records [OF dec] map_eq_imp_length_eq [OF heights] by simp
  have "map b_height cs = map (\<lambda>(r, b). b_height b) (zip rs bs1)" using decode_transactions_no_view [OF tx] by simp
  also have "\<dots> = map b_height (map snd (zip rs bs1))" by (simp add: case_prod_unfold)
  also have "\<dots> = map b_height bs0" using len heights by simp
  finally have "set (map b_height cs) = set (map b_height bs0)" by simp
  then have "\<forall>b \<in> set bs0. b_height b < pe'" using small by (metis (no_types, lifting) image_iff list.set_map)
  from decode_records_no_view [OF dec this] assign_epoch_no_view [OF ep] decode_transactions_no_view [OF tx]
  show ?thesis by (simp add: zip_map2)
qed

lemma decode_packet_no_view:
  assumes "decode_packet_ext T R S data pe = Inr p" "\<forall>b \<in> set (p_blocks p). b_height b < pe'"
  shows "decode_packet_ext T R S data pe' = Inr (p\<lparr>p_blocks := map no_view (p_blocks p)\<rparr>)"
  using assms unfolding decode_packet_ext_def Let_def
  by (clarsimp simp: rbind_Inr_iff) (drule (3) decode_blocks_no_view, simp)

subsection \<open>Encoded packets\<close>

lemma flag_kept:
  assumes "flags_without_tx f = flags_without_tx g" "m = 0x80 \<or> m = FLAG_PIVOT \<or> m = FLAG_ZERO_TOTAL_REWARD"
  shows "f AND m = g AND m"
proof -
  have m: "m AND NOT tx_flags = m"
    using assms(2) by (auto simp: tx_flags_def FLAG_PIVOT_def FLAG_ZERO_TOTAL_REWARD_def FLAG_HAS_TRANSACTIONS_def FLAG_TX_COMPRESSED_def)
  have "h AND m = flags_without_tx h AND m" for h
    unfolding flags_without_tx_def tx_flags_def [symmetric] using m by (metis and.assoc and.commute)
  then show ?thesis using assms(1) by metis
qed

lemma replay_of_decoded:
  fixes input :: "'t packet"
  assumes enc: "encode_packet T R S input = Inr data" and size: "length data < 2 ^ 64"
    and libs: "rlp_law R" "snap_law S" and plain: "plain_packet T input"
    and nonces: "distinct (map sn_sender_index (p_sender_base_nonces input))"
      "\<forall>e \<in> set (p_sender_base_nonces input). sn_sender_index e < 2 ^ 64"
    and pos: "p_min_pos_height input < 2 ^ 32" "\<forall>b \<in> set (p_blocks input). pos_view_ok (p_min_pos_height input) pe b"
    and txs: "txs_fit T input (p_blocks input)"
    and heights: "\<forall>b \<in> set (p_blocks input). b_height b < - 1"
    and items: "(\<Sum>b\<leftarrow>p_blocks input. item_count b) < 2 ^ 32"
  shows "(\<exists>report. validate_replay_packet T R S space_of data = Inr report) \<longleftrightarrow>
    (\<forall>b \<in> set (p_blocks input). b_flags b AND FLAG_ZERO_TOTAL_REWARD = 0 \<and> b_pos_rewards b = [] \<and> b_unlock_events b = [])"
    and "validate_replay_packet T R S space_of data = Inr report \<Longrightarrow>
      rr_block_count report = length (p_blocks input) \<and> rr_epoch_count report = length (filter is_pivot (p_blocks input)) \<and>
      rr_transaction_count report = (\<Sum>b\<leftarrow>p_blocks input. length (b_transactions b)) \<and>
      rr_last_block_number report = p_first_block_number input + of_nat (length (p_blocks input)) - 1"
proof -
  let ?bs = "p_blocks input"
  obtain bs where dec: "decode_packet_ext T R S data pe = Inr (input\<lparr>p_blocks := bs\<rparr>)" and ret: "list_all2 (returned T) ?bs bs"
    using plain_round_trip [OF enc size libs plain nonces pos txs] by blast
  define cs where "cs = map no_view bs"
  have rel: "same_plan b (no_view c) \<and> length (b_transactions (no_view c)) = length (b_transactions b) \<and>
      (replayable (no_view c) \<longleftrightarrow> b_flags b AND FLAG_ZERO_TOTAL_REWARD = 0) \<and> b_height c = b_height b"
    if r: "returned T b c" for b c
  proof -
    note eq = r [unfolded returned_def, THEN conjunct1]
    have c: "b_index c = b_index b" "b_epoch c = b_epoch b" "b_height c = b_height b"
      "b_transactions c = map (canonical_tx T) (b_transactions b)"
      by (subst eq, simp)+
    have flags: "flags_without_tx (b_flags c) = flags_without_tx (b_flags b)"
      "b_flags c AND FLAG_HAS_TRANSACTIONS \<noteq> 0 \<longleftrightarrow> item_count b \<noteq> 0"
      using r unfolding returned_def by blast+
    note kept = flag_kept [OF flags(1)]
    have "item_count b = 0 \<longrightarrow> b_transactions c = []" using c(4) by (simp add: item_count_0)
    then show ?thesis
      using c flags(2) kept [of "0x80"] kept [of FLAG_PIVOT] kept [of FLAG_ZERO_TOTAL_REWARD]
      by (auto simp: same_plan_def replayable_def is_pivot_def)
  qed
  have len: "length bs = length ?bs" using ret by (simp add: list_all2_lengthD)
  have len_cs: "length cs = length ?bs" using len by (simp add: cs_def)
  have plan: "list_all2 same_plan ?bs cs"
    using ret rel by (simp add: cs_def list_all2_conv_all_nth)
  have "\<forall>c \<in> set bs. b_height c < - 1"
    using ret rel heights by (metis in_set_conv_nth list_all2_conv_all_nth)
  from decode_packet_no_view [OF dec, of "- 1"] this
  have dec': "decode_packet T R S data = Inr (input\<lparr>p_blocks := cs\<rparr>)" by (simp add: decode_packet_def cs_def)
  obtain n where ver: "verify_packet R S data = Inr
    \<lparr>vr_packet_bytes = length data, vr_first_block_number = p_first_block_number input,
     vr_min_timestamp = p_min_timestamp input, vr_min_height = p_min_height input,
     vr_min_pos_height = ucast (p_min_pos_height input), vr_block_prefix_size = of_nat n,
     vr_block_count = of_nat (length ?bs),
     vr_transaction_blocks = of_nat (length (filter (\<lambda>b. item_count b \<noteq> 0) ?bs)),
     vr_transaction_items = of_nat (sum_list (map item_count ?bs))\<rparr>"
    using verify_encode_packet [OF enc size libs nonces(2)] by blast
  obtain payloads rs offs bitmap seg where v: "validate_groups 0 ?bs = Inr ()" and lp: "length rs = length ?bs"
    and layout: "packet_layout input data (choose_prefix_size rs) rs bitmap seg offs"
    by (rule encoded_packet [OF enc libs(2) size nonces(2)]) (rule that)
  have count: "unat (of_nat (length ?bs) :: u32) = length ?bs"
    using layout lp by (intro unat_of_nat_u32) (simp add: packet_layout_def)
  have v': "validate_groups 0 cs = Inr ()" using validate_groups_same [OF plan, of 0] v by simp
  then have ne: "cs \<noteq> []" using enc len by (auto simp: cs_def encode_packet_def validate_input_def rbind_Inr_iff)
  have lens: "length (concat (map b_transactions cs)) = (\<Sum>b\<leftarrow>?bs. length (b_transactions b))"
  proof -
    have "map (length \<circ> b_transactions) cs = map (length \<circ> b_transactions) ?bs"
        using ret rel by (simp add: cs_def list_all2_conv_all_nth list_eq_iff_nth_eq)
    then show ?thesis by (simp add: length_concat comp_def)
  qed
  have repl: "(\<forall>b \<in> set cs. replayable b) \<longleftrightarrow> (\<forall>b \<in> set ?bs. b_flags b AND FLAG_ZERO_TOTAL_REWARD = 0)"
    using ret rel len by (auto simp: cs_def list_all2_conv_all_nth all_set_conv_all_nth)
  have "(\<Sum>b\<leftarrow>?bs. item_count b) = (\<Sum>b\<leftarrow>?bs. length (b_transactions b)) +
      (\<Sum>b\<leftarrow>?bs. length (b_pos_rewards b) + length (b_unlock_events b))"
    unfolding item_count_def add.assoc by (rule sum_list_addf)
  moreover have "(\<Sum>b\<leftarrow>?bs. length (b_pos_rewards b) + length (b_unlock_events b)) = 0 \<longleftrightarrow>
      (\<forall>b \<in> set ?bs. b_pos_rewards b = [] \<and> b_unlock_events b = [])"
    by (simp only: sum_list_eq_0_iff) auto
  ultimately have sums: "(\<Sum>b\<leftarrow>?bs. length (b_transactions b)) = (\<Sum>b\<leftarrow>?bs. item_count b) \<longleftrightarrow>
      (\<forall>b \<in> set ?bs. b_pos_rewards b = [] \<and> b_unlock_events b = [])"
    by linarith
  note iff = validate_replay_input_iff [of T space_of "input\<lparr>p_blocks := cs\<rparr>"]
  have whole: "validate_replay_packet T R S space_of data = Inr report \<longleftrightarrow>
      (\<forall>b \<in> set ?bs. b_flags b AND FLAG_ZERO_TOTAL_REWARD = 0) \<and>
      (\<Sum>b\<leftarrow>?bs. length (b_transactions b)) = (\<Sum>b\<leftarrow>?bs. item_count b) \<and>
      report = replay_report_of T space_of (input\<lparr>p_blocks := cs\<rparr>) (length data)" for report
    using iff ne v' count len_cs items
    by (simp add: validate_replay_packet_def ver dec' repl lens unat_of_nat_u32 del: length_concat)
  show "(\<exists>report. validate_replay_packet T R S space_of data = Inr report) \<longleftrightarrow>
    (\<forall>b \<in> set (p_blocks input). b_flags b AND FLAG_ZERO_TOTAL_REWARD = 0 \<and> b_pos_rewards b = [] \<and> b_unlock_events b = [])"
    using whole sums by blast
  have pivots: "length (filter is_pivot cs) = length (filter is_pivot ?bs)"
  proof -
    have "map is_pivot cs = map is_pivot ?bs"
      using plan by (simp add: list_all2_conv_all_nth list_eq_iff_nth_eq same_plan_def)
    then have "filter id (map is_pivot cs) = filter id (map is_pivot ?bs)" by simp
    then show ?thesis by (metis (no_types, lifting) comp_def eq_id_iff filter_cong filter_map length_map)
  qed
  assume "validate_replay_packet T R S space_of data = Inr report"
  then have "report = replay_report_of T space_of (input\<lparr>p_blocks := cs\<rparr>) (length data)" using whole by blast
  then show "rr_block_count report = length (p_blocks input) \<and> rr_epoch_count report = length (filter is_pivot (p_blocks input)) \<and>
      rr_transaction_count report = (\<Sum>b\<leftarrow>p_blocks input. length (b_transactions b)) \<and>
      rr_last_block_number report = p_first_block_number input + of_nat (length (p_blocks input)) - 1"
    using lens len_cs pivots by (simp add: replay_report_of_def Let_def del: length_concat)
qed

end
