(* ===== verification/Extract_Theorems.thy ===== *)
theory Extract_Theorems
  imports Extract_Example Replay_Packet
begin

text \<open>
  The properties of the extraction of \<open>crates/replay-data-extractor\<close> and of its replay check, each
  with an instance at the databases of \<open>Extract_Example\<close>.
\<close>

subsection \<open>From the databases to the bytes\<close>

text \<open>
  C9: what an extraction writes decodes to what the databases hold. When \<open>extract_raw\<close> returns a packet
  and the packet is encoded, the decoder with the configured enabling height returns every field,
  every table and every block of it (\<open>returned\<close>: a root keeps the bytes a record stores, a
  transaction is in the form the decoder builds). And the packet is what \<open>packet_as_read\<close> says of the
  databases: the header fields are those of the epoch before the range, the blocks are those of the
  epochs in order, each with the transactions of its body, the fields of its header and reward record,
  the PoS rewards that the column of rewards holds last for its hash when it is a pivot, and, at the
  pivot of an epoch, the unlock events between the committed block of the latest earlier pivot with a
  reference and the one its own reference names. The packet must be representable: PoS views in 32
  bits, nonces and gas in 64 bits, known transaction types, no hash twice in a block, a PoS reference
  from the enabling height on. That the tables hold every index and every base nonce is not assumed;
  it is what \<open>build_tables\<close> does. Of the iterators of the two scanned columns it is assumed that they
  walk through their entries in key order.
\<close>

theorem extraction_round_trip:
  fixes p :: "'t packet"
  assumes "extract_raw N T V orders cell config dbs = Some (Inr p)" "lawful_orders orders"
    and "column (db_pow dbs) COL_REWARD_BY_POS_EPOCH rewards"
    and "column (db_pos dbs) ''event'' events" "\<forall>(k, v) \<in> set events. 8 \<le> length k"
    and "representable T (cp_pos_reference_enable_height (ec_chain config)) p" "head_bound p < 2 ^ 32"
    and "encode_packet T R S p = Inr data" "length data < 2 ^ 64" "rlp_law R" "snap_law S"
  shows "(\<exists>bs. decode_packet_ext T R S data (cp_pos_reference_enable_height (ec_chain config)) = Inr (p\<lparr>p_blocks := bs\<rparr>) \<and>
      list_all2 (returned T) (p_blocks p) bs) \<and>
    packet_as_read N (once_set cell (cp_cip112_transition_height (ec_chain config))) V config dbs rewards events p"
proof
  show "\<exists>bs. decode_packet_ext T R S data (cp_pos_reference_enable_height (ec_chain config)) = Inr (p\<lparr>p_blocks := bs\<rparr>) \<and>
      list_all2 (returned T) (p_blocks p) bs"
    by (rule encoded_decodes [OF assms(1,2,6-11)])
  show "packet_as_read N (once_set cell (cp_cip112_transition_height (ec_chain config))) V config dbs rewards events p"
    by (rule extract_raw_as_read [OF assms(1,3-5)])
qed

theorem extraction_round_trip_witness:
  "\<exists>data bs. encode_packet ex_tx ex_rlp ex_snap ex_extracted = Inr data \<and>
     decode_packet_ext ex_tx ex_rlp ex_snap data 4 = Inr (ex_extracted\<lparr>p_blocks := bs\<rparr>) \<and> length bs = 3 \<and>
     b_pos_rewards (bs ! 2) = [ex_reward] \<and> b_unlock_events (bs ! 2) = [ex_unlock] \<and>
     packet_as_read ex_node (Some (- 1)) ex_view ex_config ex_dbs ex_rewards ex_events ex_extracted"
proof (rule ex_extracted_data)
  fix data
  assume data: "encode_packet ex_tx ex_rlp ex_snap ex_extracted = Inr data" "length data < 2 ^ 64"
  from extraction_round_trip [OF ex_extract_raw ex_orders_lawful ex_columns ex_events_column(2) _ ex_extracted_fits(2) data
      ex_rlp_law ex_snap_law]
  obtain bs where bs: "decode_packet_ext ex_tx ex_rlp ex_snap data 4 = Inr (ex_extracted\<lparr>p_blocks := bs\<rparr>)"
    "list_all2 (returned ex_tx) (p_blocks ex_extracted) bs"
    "packet_as_read ex_node (Some (- 1)) ex_view ex_config ex_dbs ex_rewards ex_events ex_extracted"
    using ex_representable by (auto simp: ex_chain once_set_def)
  have blocks: "length (p_blocks ex_extracted) = 3" "p_blocks ex_extracted ! 2 = ex_paid"
    by (simp_all add: ex_extracted_def ex_front_def)
  then have "length bs = 3" using list_all2_lengthD [OF bs(2)] by simp
  moreover have "returned ex_tx ex_paid (bs ! 2)" using list_all2_nthD [OF bs(2), of 2] blocks by simp
  then have "b_pos_rewards (bs ! 2) = b_pos_rewards ex_paid \<and> b_unlock_events (bs ! 2) = b_unlock_events ex_paid"
    unfolding returned_def by (elim conjE) (erule ssubst, simp)
  ultimately show ?thesis using data(1) bs(1,3) by (auto simp: ex_paid_def)
qed

text \<open>
  C10: an extraction from consistent databases returns: where every pivot stands once in its epoch and
  has the number of the epoch as its height, and the values fit their fields, the extracted packet
  is encoded, the verifier accepts the bytes, and the report counts the blocks and the items.
\<close>

theorem extraction_encodes:
  fixes p :: "'t packet"
  assumes "extract_raw N T V orders cell config dbs = Some (Inr p)" "lawful_orders orders"
    and "consistent_epochs N V cell (db_pow dbs) config"
    and "ec_start_epoch config \<le> ec_start_epoch config + PACKET_EPOCHS"
    and "values_fit p" "head_bound p < 2 ^ 32"
    and "\<forall>payloads. packet_payloads T R p = Inr payloads \<longrightarrow> (\<forall>x \<in> set payloads. length x < 2 ^ 32)"
    and "rlp_law R" "snap_law S" "snap_total S"
  shows "\<exists>data. encode_packet T R S p = Inr data \<and> length data < 2 ^ 64 \<and>
    encoded N T R S V orders cell dbs config = Some (Inr (data, report_of config p data))"
  by (rule encoded_returns [OF assms])

theorem extraction_encodes_witness:
  "\<exists>data report. encoded ex_node ex_tx ex_rlp ex_snap ex_view ex_orders None ex_dbs ex_config = Some (Inr (data, report)) \<and>
     er_block_count report = 3 \<and> er_transaction_count report = 5"
proof -
  have "er_block_count (report_of ex_config ex_extracted data) = 3 \<and>
      er_transaction_count (report_of ex_config ex_extracted data) = 5" for data
    by (simp add: report_of_def ex_block_defs item_count_def)
  with extraction_encodes [OF ex_extract_raw ex_orders_lawful ex_consistent ex_extracted_fits(3,1,2) ex_extracted_payloads
      ex_rlp_law ex_snap_law ex_snap_total]
  show ?thesis by blast
qed

text \<open>
  C11: the blocks of an extracted packet are those of the epochs in order, and of an epoch the executed
  blocks but the last, the skipped blocks, and last the pivot. (\<open>DESIGN.md\<close> 8.2 puts the skipped blocks
  behind all executed ones; the code keeps the pivot last, which is what the format's epoch groups
  ask for.) Block \<open>k\<close> has index \<open>k\<close>, the number of its epoch, the transactions of its body, every field
  of its header, the base reward of its reward record, the PoS view and the finalized epoch of the
  committed block its reference names, and exactly the flags that its place in the epoch, its header
  and its total reward call for.
\<close>

theorem extracted_blocks_in_order:
  assumes "extract_raw N T V orders cell config dbs = Some (Inr p)"
  shows "\<exists>epochs gs. load_epochs (db_pow dbs) V config = Inr epochs \<and> p_blocks p = concat gs \<and>
    (\<forall>k < length (p_blocks p). b_index (p_blocks p ! k) = k) \<and>
    list_all2 (\<lambda>e g. map b_hash g = butlast (ep_executed e) @ ep_skipped e @ [last (ep_executed e)] \<and>
      (\<forall>b \<in> set g. block_as_read N (once_set cell (cp_cip112_transition_height (ec_chain config))) V config dbs e b))
      epochs gs"
proof (rule extract_raw_groups [OF assms])
  let ?cell = "once_set cell (cp_cip112_transition_height (ec_chain config))"
  fix epochs pb pr um gs
  assume pb: "\<And>r c. pb r = Some c \<Longrightarrow> get_committed_block N (db_pos dbs) r = Inr c"
    and groups: "list_all2 (\<lambda>e g. \<exists>raws. epoch_raws N ?cell V config dbs e raws \<and> list_all2 (lowered_as N ?cell (db_pow dbs)
      pb (cp_pos_reference_enable_height (ec_chain config)) pr um) g raws) epochs gs"
    and rest: "load_epochs (db_pow dbs) V config = Inr epochs" "p_blocks p = concat gs"
      "\<forall>k < length (p_blocks p). b_index (p_blocks p ! k) = k"
  have "list_all2 (\<lambda>e g. map b_hash g = butlast (ep_executed e) @ ep_skipped e @ [last (ep_executed e)] \<and>
      (\<forall>b \<in> set g. block_as_read N ?cell V config dbs e b)) epochs gs"
    using groups by (rule list_all2_mono) (metis group_blocks_read [OF _ _ pb])
  with rest show ?thesis by blast
qed

theorem extracted_blocks_in_order_witness:
  "\<exists>e gs. load_epochs (db_pow ex_dbs) ex_view ex_config = Inr [e] \<and> p_blocks ex_extracted = concat gs \<and> length gs = 1 \<and>
     block_as_read ex_node (Some (- 1)) ex_view ex_config ex_dbs e ex_paid"
proof -
  obtain epochs gs where gs: "load_epochs (db_pow ex_dbs) ex_view ex_config = Inr epochs" "p_blocks ex_extracted = concat gs"
    "list_all2 (\<lambda>e g. map b_hash g = butlast (ep_executed e) @ ep_skipped e @ [last (ep_executed e)] \<and>
      (\<forall>b \<in> set g. block_as_read ex_node (once_set None (cp_cip112_transition_height (ec_chain ex_config))) ex_view ex_config ex_dbs e b))
      epochs gs"
    using extracted_blocks_in_order [OF ex_extract_raw] by blast
  have "epochs = ex_epochs" using gs(1) ex_load_epochs by simp
  then have "epochs = [hd ex_epochs]" by (simp add: ex_epochs_def)
  then obtain e where e: "epochs = [e]" by blast
  with gs(3) obtain g where g: "gs = [g]" "\<forall>b \<in> set g. block_as_read ex_node (Some (- 1)) ex_view ex_config ex_dbs e b"
    by (auto simp: list_all2_Cons1 ex_chain once_set_def)
  moreover have "ex_paid \<in> set g" using gs(2) g(1) by (auto simp: ex_extracted_def)
  ultimately show ?thesis using gs(1,2) e by (intro exI [of _ e] exI [of _ gs]) simp
qed

text \<open>
  C12: the tables and the minima of an extracted packet serve all its blocks: every author, sender,
  call target and difficulty is in its table, no base nonce is above a nonce of its sender, the
  minima are below, blocks below the enabling height have no PoS view, and a view is never below the
  least one.
\<close>

theorem extracted_tables_complete:
  assumes "extract_raw N T V orders cell config dbs = Some (Inr p)" "lawful_orders orders"
  shows "(\<forall>b \<in> set (p_blocks p). block_in_tables T (cp_pos_reference_enable_height (ec_chain config)) p b) \<and>
    distinct (p_addresses p) \<and> distinct (p_difficulties p) \<and> length (p_gas_prices p) \<le> 16 \<and>
    distinct (map sn_sender_index (p_sender_base_nonces p)) \<and>
    (\<forall>e \<in> set (p_sender_base_nonces p). sn_sender_index e < length (p_addresses p))"
proof -
  obtain epochs co rss where made: "made_of N T V orders (once_set cell (cp_cip112_transition_height (ec_chain config)))
      config dbs epochs co rss p"
    by (rule extract_raw_made_of [OF assms(1)])
  note tables = made_of_tables [OF made assms(2)]
  show ?thesis
    unfolding tables(1,3,4,5)
    by (intro conjI ballI made_of_in_tables [OF made assms(2)] reference_nonces(1) reference_distinct
      reference_nonces(2) [THEN bspec])
qed

theorem extracted_tables_complete_witness:
  "block_in_tables ex_tx 4 ex_extracted ex_paid \<and> length (p_gas_prices ex_extracted) \<le> 16"
proof -
  have "ex_paid \<in> set (p_blocks ex_extracted)" by (simp add: ex_extracted_def)
  with extracted_tables_complete [OF ex_extract_raw ex_orders_lawful] show ?thesis unfolding ex_chain by blast
qed

text \<open>
  C24: the tables are functions of the blocks: addresses and gas prices by descending number of uses,
  ties in the order of the first use, a gas price only when it is used more than three times and at
  most 16 of them, and the base nonces in the order of the addresses. The order in which the hash maps
  are iterated does not matter.
\<close>

theorem tables_without_hash_order:
  assumes "lawful_orders orders"
  shows "build_tables N T orders blocks pos_blocks m pe = Inr tb \<longleftrightarrow>
    (\<forall>ref \<in> set (pos_refs N pe blocks). pos_fits N pos_blocks m ref) \<and>
    tb = reference_tables N T blocks pos_blocks m pe"
  by (rule build_tables_reference [OF assms])

theorem tables_without_hash_order_witness:
  "build_tables ex_node ex_tx ex_orders ex_raws ex_pos_blocks 3 4 = Inr ex_tables \<and>
   ex_tables = reference_tables ex_node ex_tx ex_raws ex_pos_blocks 3 4"
  using tables_without_hash_order [OF ex_orders_lawful, of ex_node ex_tx ex_raws ex_pos_blocks 3 4 ex_tables] ex_build_tables
  by blast

text \<open>
  C27: an extraction ends: when the iterators of the two columns that are scanned walk through their
  entries, it returns a packet or an error.
\<close>

theorem extraction_returns:
  assumes "column (db_pow dbs) COL_REWARD_BY_POS_EPOCH rewards"
    and "column (db_pos dbs) ''event'' events" "\<forall>(k, v) \<in> set events. 8 \<le> length k"
  shows "\<exists>r. extract_raw N T V orders cell config dbs = Some r \<and>
    (\<exists>r'. encoded N T R S V orders cell dbs config = Some r')"
  using extract_raw_returns [OF assms, of N T V orders cell config]
  by (auto simp: encoded_def split: sum.split)

theorem extraction_returns_witness:
  "\<exists>r. encoded ex_node ex_tx ex_rlp ex_snap ex_view ex_orders None ex_dbs ex_config = Some r"
  using extraction_returns [OF ex_columns ex_events_column(2)] by blast

subsection \<open>The scans\<close>

text \<open>
  C25: the scan of the unlock events returns the unlock events of the versions from \<open>start\<close> to
  before \<open>end\<close>, in the order of their keys, or the panic of the first of these events that cannot
  be decoded.
\<close>

theorem unlock_scan_range:
  assumes "column db ''event'' es" "\<forall>(k, v) \<in> set es. 8 \<le> length k"
  shows "read_unlock_events db s e =
    Some (rbind (traverse (\<lambda>x. try_decode_unlock_event (snd x)) (filter (\<lambda>(k, v). s \<le> key_version k \<and> key_version k < e) es))
           (\<lambda>us. Inr (List.map_filter id us)))"
  using read_unlock_events_range [OF assms] by (simp add: events_between_def)

theorem unlock_scan_range_witness:
  "read_unlock_events (ex_rocks [] ex_events) 3 9 = Some (Inr [\<lparr>ue_identifier = H256 (replicate 32 1), ue_unlocked = 7\<rparr>])"
  using unlock_scan_range [OF ex_events_column(1) [of "[]"] ex_events_column(2), of 3 9]
  by (simp add: ex_events_def key_version_append ex_decoded_event map_filter_simps)

text \<open>
  C28: decoding an event never fails, except for an unlock event whose stated length passes
  \<open>2 ^ 64\<close> behind its position: there the bound check wraps around and the slice panics, where any
  other event that is too short gives \<open>None\<close>.
\<close>

theorem unlock_event_decoding_panics:
  assumes "length v < 2 ^ 64"
  shows "(\<exists>m. try_decode_unlock_event v = Inl m) \<longleftrightarrow>
    43 \<le> length v \<and> v ! 0 = 0 \<and> v ! 1 = 40 \<and> subslice v 2 42 = UNLOCK_EVENT_KEY \<and>
    (\<exists>n pos. bcs_read_uleb128 v 42 = Some (n, pos) \<and> 2 ^ 64 \<le> pos + unat n)"
  by (rule try_decode_unlock_event_panics [OF assms])

theorem unlock_event_decoding_panics_witness: "\<exists>m. try_decode_unlock_event ex_long_event = Inl m"
proof -
  have "2 ^ 64 \<le> length ex_long_event + unat (- 1 :: u64)" using ex_long_event(1) by (simp add: unsigned_minus_1_eq_mask mask_eq_exp_minus_1)
  then show ?thesis using unlock_event_decoding_panics [OF ex_long_event(2)] ex_long_event(1,3-6) by blast
qed

subsection \<open>The replay check\<close>

text \<open>
  C26: \<open>validate_replay_packet\<close> accepts the bytes of an encoded packet exactly when no block has
  the flag for a zero total reward and no block carries PoS rewards or unlock events: it still reserves
  the bit of that flag, and compares the number of transactions with the number of items of the
  payloads. Where it accepts, its report counts the blocks, epochs and transactions.
\<close>

theorem replay_check_of_encoded:
  fixes input :: "'t packet"
  assumes "encode_packet T R S input = Inr data" "length data < 2 ^ 64" "rlp_law R" "snap_law S" "plain_packet T input"
    and "distinct (map sn_sender_index (p_sender_base_nonces input))"
    and "\<forall>e \<in> set (p_sender_base_nonces input). sn_sender_index e < 2 ^ 64" "p_min_pos_height input < 2 ^ 32"
    and "\<forall>b \<in> set (p_blocks input). pos_view_ok (p_min_pos_height input) pe b" "txs_fit T input (p_blocks input)"
    and "\<forall>b \<in> set (p_blocks input). b_height b < - 1" "(\<Sum>b\<leftarrow>p_blocks input. item_count b) < 2 ^ 32"
  shows "((\<exists>report. validate_replay_packet T R S space_of data = Inr report) \<longleftrightarrow>
      (\<forall>b \<in> set (p_blocks input). b_flags b AND FLAG_ZERO_TOTAL_REWARD = 0 \<and> b_pos_rewards b = [] \<and> b_unlock_events b = [])) \<and>
    (\<forall>report. validate_replay_packet T R S space_of data = Inr report \<longrightarrow>
      rr_block_count report = length (p_blocks input) \<and> rr_epoch_count report = length (filter is_pivot (p_blocks input)) \<and>
      rr_transaction_count report = (\<Sum>b\<leftarrow>p_blocks input. length (b_transactions b)))"
  using replay_of_decoded [OF assms, of space_of] by blast

theorem replay_check_of_encoded_witness:
  "\<exists>data good. encode_packet ex_tx ex_rlp ex_snap ex_extracted = Inr data \<and>
     \<not> (\<exists>report. validate_replay_packet ex_tx ex_rlp ex_snap (\<lambda>_. Native) data = Inr report) \<and>
     encode_packet ex_tx ex_rlp ex_snap ex_two = Inr good \<and>
     (\<exists>report. validate_replay_packet ex_tx ex_rlp ex_snap (\<lambda>_. Native) good = Inr report)"
proof (rule ex_extracted_data, rule ex_two_data)
  fix payloads bad good
  assume bad: "encode_packet ex_tx ex_rlp ex_snap ex_extracted = Inr bad" "length bad < 2 ^ 64"
    and good: "encode_packet ex_tx ex_rlp ex_snap ex_two = Inr good" "length good < 2 ^ 64"
  have "(\<forall>b \<in> set (p_blocks ex_two). b_height b < - 1) \<and> (\<Sum>b\<leftarrow>p_blocks ex_two. item_count b) < 2 ^ 32 \<and>
      (\<forall>b \<in> set (p_blocks ex_two). b_flags b AND FLAG_ZERO_TOTAL_REWARD = 0 \<and> b_pos_rewards b = [] \<and> b_unlock_events b = [])"
    by (simp add: ex_two_def item_count_def not_le [symmetric]) (simp add: ex_block_def ex_heights FLAG_ZERO_TOTAL_REWARD_def)
  with replay_check_of_encoded [OF good ex_rlp_law ex_snap_law ex_two_plain ex_two_nonces ex_two_fits(3,1), of "\<lambda>_. Native"]
  have yes: "\<exists>report. validate_replay_packet ex_tx ex_rlp ex_snap (\<lambda>_. Native) good = Inr report" by blast
  have "ex_paid \<in> set (p_blocks ex_extracted) \<and> b_flags ex_paid AND FLAG_ZERO_TOTAL_REWARD \<noteq> 0"
    by (simp add: ex_extracted_def) (simp add: ex_block_defs FLAG_ZERO_TOTAL_REWARD_def)
  moreover have "(\<forall>b \<in> set (p_blocks ex_extracted). b_height b < - 1) \<and> (\<Sum>b\<leftarrow>p_blocks ex_extracted. item_count b) < 2 ^ 32"
    by (simp add: ex_block_defs item_count_def not_le [symmetric] ex_heights)
  moreover note replay_check_of_encoded [OF bad ex_rlp_law ex_snap_law ex_extracted_plain ex_extracted_nonces ex_extracted_view, of "\<lambda>_. Native"]
  ultimately have "\<not> (\<exists>report. validate_replay_packet ex_tx ex_rlp ex_snap (\<lambda>_. Native) bad = Inr report)" by blast
  with bad(1) good(1) yes show ?thesis by blast
qed

end
