(* ===== verification/Extract_Pool.thy ===== *)
theory Extract_Pool
  imports Extract_Core Shard_Plan Flag_Patch
begin

text \<open>
  The worker threads of \<open>crates/replay-data-extractor/src/extract\<close> and the entry points that run
  them: \<open>extract_packed_to_dir\<close> (\<open>mod.rs\<close>, \<open>pack.rs\<close>) and \<open>extract_shards_to_dir\<close>
  (\<open>mod.rs\<close>, \<open>shards.rs\<close>).

  A pool is the queue of the tasks, the state of every worker, and the log of what the workers have
  sent. A schedule is the list of the workers that step; a run extends it by rounds of all workers,
  as many as the tasks can need. A worker whose extraction does not end stays \<open>Running\<close>. Creating the
  output directory, opening files and console output are left out; opening the databases is a
  parameter.
\<close>

subsection \<open>A pool of workers\<close>

datatype ('a, 'b) pool_worker = Waiting "'b list" | Running 'a "'b list" | Ended "'b list pack_result"

datatype ('a, 'b) pool_event = Taken nat 'a | Completed nat 'a 'b | Broken nat 'a pack_failure

record ('a, 'b) pool =
  pl_queue :: "'a list"
  pl_workers :: "('a, 'b) pool_worker list"
  pl_log :: "('a, 'b) pool_event list"

definition pool_init :: "'a list \<Rightarrow> nat \<Rightarrow> ('a, 'b) pool" where
  "pool_init tasks worker_count =
     \<lparr>pl_queue = tasks, pl_workers = replicate worker_count (Waiting []), pl_log = []\<rparr>"

text \<open>
  A step of worker \<open>i\<close>: it receives a task, or ends when the channel of the tasks is empty; or it
  finishes the task it has, and ends on an error.
\<close>

definition pool_step :: "('a \<Rightarrow> 'b pack_result option) \<Rightarrow> nat \<Rightarrow> ('a, 'b) pool \<Rightarrow> ('a, 'b) pool" where
  "pool_step run i st =
     (if length (pl_workers st) \<le> i then st
      else case pl_workers st ! i of
          Ended _ \<Rightarrow> st
        | Waiting outs \<Rightarrow>
            (case pl_queue st of
               [] \<Rightarrow> st\<lparr>pl_workers := (pl_workers st)[i := Ended (Inr outs)]\<rparr>
             | task # tasks \<Rightarrow>
                 st\<lparr>pl_queue := tasks, pl_workers := (pl_workers st)[i := Running task outs],
                    pl_log := pl_log st @ [Taken i task]\<rparr>)
        | Running task outs \<Rightarrow>
            (case run task of
               None \<Rightarrow> st
             | Some (Inl e) \<Rightarrow>
                 st\<lparr>pl_workers := (pl_workers st)[i := Ended (Inl e)], pl_log := pl_log st @ [Broken i task e]\<rparr>
             | Some (Inr out) \<Rightarrow>
                 st\<lparr>pl_workers := (pl_workers st)[i := Waiting (outs @ [out])],
                    pl_log := pl_log st @ [Completed i task out]\<rparr>))"

definition pool_run :: "('a \<Rightarrow> 'b pack_result option) \<Rightarrow> 'a list \<Rightarrow> nat \<Rightarrow> nat list \<Rightarrow> ('a, 'b) pool" where
  "pool_run run tasks worker_count schedule =
     fold (pool_step run) (schedule @ rounds (2 * length tasks + worker_count) worker_count)
       (pool_init tasks worker_count)"

fun ended_result :: "('a, 'b) pool_worker \<Rightarrow> 'b list pack_result option" where
  "ended_result (Ended r) = Some r"
| "ended_result _ = None"

fun panicked :: "'b pack_result \<Rightarrow> bool" where
  "panicked (Inl (Pack_Panic _)) \<longleftrightarrow> True"
| "panicked _ \<longleftrightarrow> False"

text \<open>
  The results of the workers in the order they were started, or the panic of the \<open>expect\<close> on a join;
  \<open>None\<close> if a worker still runs.
\<close>

definition join_all :: "string \<Rightarrow> ('a, 'b) pool \<Rightarrow> 'b list pack_result list pack_result option" where
  "join_all msg st =
     map_option (\<lambda>rs. if list_ex panicked rs then Inl (Pack_Panic msg) else Inr rs)
       (those_options (map ended_result (pl_workers st)))"

text \<open>The result of one thread, or the panic of the \<open>expect\<close> on its join.\<close>

definition expect_join :: "string \<Rightarrow> 'b pack_result \<Rightarrow> 'b pack_result pack_result" where
  "expect_join msg r = (if panicked r then Inl (Pack_Panic msg) else Inr r)"

definition completed_outs :: "('a, 'b) pool_event list \<Rightarrow> 'b list" where
  "completed_outs log = List.map_filter (\<lambda>ev. case ev of Completed i task out \<Rightarrow> Some out | _ \<Rightarrow> None) log"

subsection \<open>Packed extraction\<close>

definition pack_config :: "extract_config \<Rightarrow> pack_task \<Rightarrow> extract_config" where
  "pack_config base t = base\<lparr>ec_start_epoch := pt_start_epoch t, ec_epoch_count := pt_epoch_count t\<rparr>"

text \<open>One turn of the loop of a worker of \<open>pack.rs\<close>: the packet it sends to the writer.\<close>

definition pack_group ::
  "('h, 'c, 't) node_lib \<Rightarrow> ('t, 'acc, 'auth) tx_lib \<Rightarrow> ('w, 'acc, 'auth) rlp_lib \<Rightarrow> snap_lib \<Rightarrow> 'r rlp_view \<Rightarrow> hash_orders \<Rightarrow>
   u64 option \<Rightarrow> ('i, 'j) databases \<Rightarrow> extract_config \<Rightarrow> pack_task \<Rightarrow> packet_out pack_result option" where
  "pack_group N T R S V orders cell dbs base t =
     map_option (\<lambda>r. rbind (with_message (''extract group '' @ dec_digits (unat (pt_start_epoch t)) @ ''..='' @
           dec_digits (unat (pt_start_epoch t + pt_epoch_count t - 1))) r) (\<lambda>(packet, report).
         Inr \<lparr>po_group_index = pt_group_index t, po_start_epoch = pt_start_epoch t,
              po_epoch_count = pt_epoch_count t, po_block_count = er_block_count report,
              po_transaction_count = er_transaction_count report, po_bytes = packet\<rparr>))
       (encoded N T R S V orders cell dbs (pack_config base t))"

fun first_error :: "'b list pack_result list \<Rightarrow> pack_failure option" where
  "first_error [] = None"
| "first_error (Inl e # rs) = Some e"
| "first_error (Inr _ # rs) = first_error rs"

definition run_packed ::
  "('h, 'c, 't) node_lib \<Rightarrow> ('t, 'acc, 'auth) tx_lib \<Rightarrow> ('w, 'acc, 'auth) rlp_lib \<Rightarrow> snap_lib \<Rightarrow> 'r rlp_view \<Rightarrow> hash_orders \<Rightarrow>
   u64 option \<Rightarrow> extract_config \<Rightarrow> string \<Rightarrow> u64 \<Rightarrow> nat \<Rightarrow> u64 \<Rightarrow> string \<Rightarrow> ('i, 'j) databases \<Rightarrow> nat list \<Rightarrow>
   writer pack_result option" where
  "run_packed N T R S V orders cell config output_dir shard_epochs jobs target_bytes pre dbs schedule =
     (case build_pack_tasks (ec_start_epoch config) (ec_epoch_count config) shard_epochs of
        Inl e \<Rightarrow> Some (Inl e)
      | Inr tasks \<Rightarrow>
          (let worker_count = min jobs (length tasks);
               st = pool_run (pack_group N T R S V orders cell dbs config) tasks worker_count schedule
           in map_option (\<lambda>joined. rbind joined (\<lambda>rs.
                  rbind (expect_join ''pack writer panicked''
                     (write_containers \<lparr>wc_output_dir = output_dir, wc_prefix = pre, wc_shard_epochs = shard_epochs,
                        wc_target_bytes = target_bytes\<rparr> (completed_outs (pl_log st)))) (\<lambda>summary.
                  case first_error rs of Some e \<Rightarrow> Inl e | None \<Rightarrow> summary)))
                (join_all ''pack worker panicked'' st)))"

definition extract_packed_to_dir ::
  "('h, 'c, 't) node_lib \<Rightarrow> ('t, 'acc, 'auth) tx_lib \<Rightarrow> ('w, 'acc, 'auth) rlp_lib \<Rightarrow> snap_lib \<Rightarrow> 'r rlp_view \<Rightarrow> hash_orders \<Rightarrow>
   (extract_config \<Rightarrow> ('i, 'j) databases pack_result) \<Rightarrow> u64 option \<Rightarrow> extract_config \<Rightarrow> string \<Rightarrow> u64 \<Rightarrow> nat \<Rightarrow> u64 \<Rightarrow> string \<Rightarrow>
   nat list \<Rightarrow> writer pack_result option" where
  "extract_packed_to_dir N T R S V orders open_dbs cell config output_dir shard_epochs jobs target_bytes pre schedule =
     (case rbind (ensure (0 < ec_epoch_count config) (Bail ''epoch_count must be positive'')) (\<lambda>_.
           rbind (ensure (0 < shard_epochs) (Bail ''shard_epochs must be positive'')) (\<lambda>_.
           rbind (ensure (0 < jobs) (Bail ''jobs must be positive'')) (\<lambda>_.
           rbind (ensure (0 < target_bytes) (Bail ''target_bytes must be positive'')) (\<lambda>_. open_dbs config)))) of
        Inl e \<Rightarrow> Some (Inl e)
      | Inr dbs \<Rightarrow>
          run_packed N T R S V orders (once_set cell (cp_cip112_transition_height (ec_chain config))) config output_dir
            shard_epochs jobs target_bytes pre dbs schedule)"

subsection \<open>Extraction into shard files\<close>

definition shard_config :: "extract_config \<Rightarrow> shard_task \<Rightarrow> extract_config" where
  "shard_config base t = base\<lparr>ec_start_epoch := st_start_epoch t, ec_epoch_count := st_epoch_count t\<rparr>"

text \<open>The result of a shard is its report and the file it writes.\<close>

definition run_shard_task ::
  "('h, 'c, 't) node_lib \<Rightarrow> ('t, 'acc, 'auth) tx_lib \<Rightarrow> ('w, 'acc, 'auth) rlp_lib \<Rightarrow> snap_lib \<Rightarrow> 'r rlp_view \<Rightarrow> hash_orders \<Rightarrow>
   u64 option \<Rightarrow> ('i, 'j) databases \<Rightarrow> extract_config \<Rightarrow> shard_task \<Rightarrow>
   (extract_report \<times> (path \<Rightarrow> bytes option)) pack_result option" where
  "run_shard_task N T R S V orders cell dbs base t =
     map_option (with_message (''extract shard '' @ dec_digits (unat (st_start_epoch t)) @ ''..='' @
         dec_digits (unat (shard_end_epoch t))))
       (to_file N T R S V orders cell dbs (shard_config base t) (st_output t) Map.empty)"

text \<open>The events that the workers send to the logger; a worker that panics sends none.\<close>

definition progress_of :: "(shard_task, 'b) pool_event \<Rightarrow> progress_event option" where
  "progress_of ev =
     (case ev of
        Taken i t \<Rightarrow> Some (Start i \<lparr>as_start_epoch = st_start_epoch t, as_end_epoch = shard_end_epoch t\<rparr>)
      | Completed i t out \<Rightarrow> Some (progress_event.Done i)
      | Broken i t e \<Rightarrow> (case e of Bail _ \<Rightarrow> Some (Failed i) | Pack_Panic _ \<Rightarrow> None))"

definition log_progress_events :: "progress_event list \<Rightarrow> nat \<Rightarrow> nat \<Rightarrow> progress_state pack_result" where
  "log_progress_events events task_count worker_count =
     progress_run events (progress_new task_count worker_count)"

text \<open>The reports and the last state of the progress, or an error, and the files that were written.\<close>

definition run_shards ::
  "('h, 'c, 't) node_lib \<Rightarrow> ('t, 'acc, 'auth) tx_lib \<Rightarrow> ('w, 'acc, 'auth) rlp_lib \<Rightarrow> snap_lib \<Rightarrow> 'r rlp_view \<Rightarrow> hash_orders \<Rightarrow>
   u64 option \<Rightarrow> extract_config \<Rightarrow> string \<Rightarrow> u64 \<Rightarrow> nat \<Rightarrow> ('i, 'j) databases \<Rightarrow> nat list \<Rightarrow>
   ((extract_report list \<times> progress_state) pack_result \<times> (path \<Rightarrow> bytes option)) option" where
  "run_shards N T R S V orders cell config output_dir shard_epochs jobs dbs schedule =
     (case build_shard_tasks (ec_start_epoch config) (ec_epoch_count config) output_dir shard_epochs of
        Inl e \<Rightarrow> Some (Inl e, Map.empty)
      | Inr tasks \<Rightarrow>
          (let task_count = length tasks;
               worker_count = min jobs task_count;
               st = pool_run (run_shard_task N T R S V orders cell dbs config) tasks worker_count schedule;
               files = fold (\<lambda>out files. files ++ snd out) (completed_outs (pl_log st)) Map.empty
           in map_option (\<lambda>joined. (rbind joined (\<lambda>rs.
                let reports = collect_worker_reports (map (\<lambda>r. rbind r (\<lambda>outs. Inr (map fst outs))) rs)
                in rbind (expect_join ''extract progress logger panicked''
                     (log_progress_events (List.map_filter progress_of (pl_log st)) task_count worker_count)) (\<lambda>logged.
                   rbind logged (\<lambda>progress. rbind reports (\<lambda>reports. Inr (reports, progress))))), files))
                (join_all ''extract worker panicked'' st)))"

definition extract_shards_to_dir ::
  "('h, 'c, 't) node_lib \<Rightarrow> ('t, 'acc, 'auth) tx_lib \<Rightarrow> ('w, 'acc, 'auth) rlp_lib \<Rightarrow> snap_lib \<Rightarrow> 'r rlp_view \<Rightarrow> hash_orders \<Rightarrow>
   (extract_config \<Rightarrow> ('i, 'j) databases pack_result) \<Rightarrow> u64 option \<Rightarrow> extract_config \<Rightarrow> string \<Rightarrow> u64 \<Rightarrow> nat \<Rightarrow> nat list \<Rightarrow>
   ((extract_report list \<times> progress_state) pack_result \<times> (path \<Rightarrow> bytes option)) option" where
  "extract_shards_to_dir N T R S V orders open_dbs cell config output_dir shard_epochs jobs schedule =
     (case rbind (ensure (0 < ec_epoch_count config) (Bail ''epoch_count must be positive'')) (\<lambda>_.
           rbind (ensure (0 < shard_epochs) (Bail ''shard_epochs must be positive'')) (\<lambda>_.
           rbind (ensure (0 < jobs) (Bail ''jobs must be positive'')) (\<lambda>_. open_dbs config))) of
        Inl e \<Rightarrow> Some (Inl e, Map.empty)
      | Inr dbs \<Rightarrow>
          map_option (\<lambda>(r, files). (rbind r (\<lambda>(reports, progress). Inr (sort_key er_start_epoch reports, progress)), files))
            (run_shards N T R S V orders (once_set cell (cp_cip112_transition_height (ec_chain config))) config output_dir
               shard_epochs jobs dbs schedule))"

end
