(* ===== verification/Pool_Correct.thy ===== *)
theory Pool_Correct
  imports Extract_Pool
begin

text \<open>
  A pool of workers under any schedule: every task is queued, running, completed or broken, exactly
  once; the pool ends when every task returns; and if no task fails, the results of the workers are
  those of all tasks.
\<close>

subsection \<open>Where the tasks are\<close>

definition running_tasks :: "('a, 'b) pool_worker list \<Rightarrow> 'a list" where
  "running_tasks ws = List.map_filter (\<lambda>w. case w of Running t outs \<Rightarrow> Some t | _ \<Rightarrow> None) ws"

definition completed_tasks :: "('a, 'b) pool_event list \<Rightarrow> 'a list" where
  "completed_tasks log = List.map_filter (\<lambda>ev. case ev of Completed i t out \<Rightarrow> Some t | _ \<Rightarrow> None) log"

definition broken_tasks :: "('a, 'b) pool_event list \<Rightarrow> 'a list" where
  "broken_tasks log = List.map_filter (\<lambda>ev. case ev of Broken i t e \<Rightarrow> Some t | _ \<Rightarrow> None) log"

fun worker_outs :: "('a, 'b) pool_worker \<Rightarrow> 'b list" where
  "worker_outs (Waiting outs) = outs"
| "worker_outs (Running t outs) = outs"
| "worker_outs (Ended (Inr outs)) = outs"
| "worker_outs (Ended (Inl e)) = []"

lemma map_filter_append: "List.map_filter f (xs @ ys) = List.map_filter f xs @ List.map_filter f ys"
  by (simp add: List.map_filter_def)

lemmas pool_lists = running_tasks_def completed_tasks_def broken_tasks_def completed_outs_def
  map_filter_append List.map_filter_simps

definition event_ok :: "('a \<Rightarrow> 'b pack_result option) \<Rightarrow> ('a, 'b) pool_event \<Rightarrow> bool" where
  "event_ok run ev =
     (case ev of Taken i t \<Rightarrow> True | Completed i t out \<Rightarrow> run t = Some (Inr out) | Broken i t e \<Rightarrow> run t = Some (Inl e))"

definition pool_inv :: "('a \<Rightarrow> 'b pack_result option) \<Rightarrow> 'a list \<Rightarrow> nat \<Rightarrow> ('a, 'b) pool \<Rightarrow> bool" where
  "pool_inv run tasks n st \<longleftrightarrow>
     length (pl_workers st) = n \<and>
     mset tasks = mset (pl_queue st) + mset (running_tasks (pl_workers st)) + mset (completed_tasks (pl_log st)) +
       mset (broken_tasks (pl_log st)) \<and>
     list_all (event_ok run) (pl_log st) \<and>
     (\<forall>e. Ended (Inl e) \<in> set (pl_workers st) \<longleftrightarrow> (\<exists>i t. Broken i t e \<in> set (pl_log st))) \<and>
     (\<forall>outs. Ended (Inr outs) \<in> set (pl_workers st) \<longrightarrow> pl_queue st = []) \<and>
     (broken_tasks (pl_log st) = [] \<longrightarrow>
        mset (concat (map worker_outs (pl_workers st))) = mset (completed_outs (pl_log st)))"

lemma pool_inv_init: "pool_inv run tasks n (pool_init tasks n)"
proof -
  have "running_tasks (replicate n (Waiting [])) = []" by (induction n) (simp_all add: pool_lists)
  moreover have "concat (map worker_outs (replicate n (Waiting []))) = []" by (induction n) simp_all
  ultimately show ?thesis by (auto simp: pool_inv_def pool_init_def pool_lists)
qed

lemma broken_tasks_Nil: "broken_tasks log = [] \<longleftrightarrow> (\<forall>i t e. Broken i t e \<notin> set log)"
proof (induction log)
  case (Cons ev log)
  then show ?case by (cases ev) (auto simp: pool_lists)
qed (simp add: pool_lists)

lemma pool_inv_step:
  assumes "pool_inv run tasks n st"
  shows "pool_inv run tasks n (pool_step run i st)"
proof (cases "i < length (pl_workers st)")
  case True
  then obtain xs ys where ws: "pl_workers st = xs @ pl_workers st ! i # ys" "length xs = i"
    by (metis id_take_nth_drop length_take min.absorb4)
  have upd: "(pl_workers st)[i := w] = xs @ w # ys" for w
    by (subst ws(1)) (simp flip: ws(2))
  show ?thesis
  proof (cases "pl_workers st ! i")
    case (Waiting outs)
    then have st: "pl_workers st = xs @ Waiting outs # ys" using ws(1) by simp
    show ?thesis
    proof (cases "pl_queue st")
      case Nil
      then have "pool_step run i st = st\<lparr>pl_workers := xs @ Ended (Inr outs) # ys\<rparr>"
        using True Waiting by (simp add: pool_step_def upd)
      with assms Nil show ?thesis by (auto simp: pool_inv_def st pool_lists)
    next
      case (Cons task rest)
      then have "pool_step run i st = st\<lparr>pl_queue := rest, pl_workers := xs @ Running task outs # ys,
          pl_log := pl_log st @ [Taken i task]\<rparr>"
        using True Waiting by (simp add: pool_step_def upd)
      with assms Cons show ?thesis by (auto simp: pool_inv_def st pool_lists event_ok_def)
    qed
  next
    case (Running task outs)
    then have st: "pl_workers st = xs @ Running task outs # ys" using ws(1) by simp
    consider "run task = None" | e where "run task = Some (Inl e)" | out where "run task = Some (Inr out)"
      by (metis option.exhaust sum.exhaust)
    then show ?thesis
    proof cases
      case 1
      then have "pool_step run i st = st" using True Running by (simp add: pool_step_def)
      with assms show ?thesis by simp
    next
      case 2
      then have "pool_step run i st = st\<lparr>pl_workers := xs @ Ended (Inl e) # ys, pl_log := pl_log st @ [Broken i task e]\<rparr>"
        using True Running by (simp add: pool_step_def upd)
      with assms 2 show ?thesis by (auto simp: pool_inv_def st pool_lists event_ok_def)
    next
      case 3
      then have "pool_step run i st = st\<lparr>pl_workers := xs @ Waiting (outs @ [out]) # ys,
          pl_log := pl_log st @ [Completed i task out]\<rparr>"
        using True Running by (simp add: pool_step_def upd)
      with assms 3 show ?thesis by (auto simp: pool_inv_def st pool_lists event_ok_def)
    qed
  next
    case (Ended r)
    with True assms show ?thesis by (simp add: pool_step_def)
  qed
qed (use assms in \<open>simp add: pool_step_def\<close>)

lemma pool_inv_fold: "pool_inv run tasks n st \<Longrightarrow> pool_inv run tasks n (fold (pool_step run) js st)"
  by (induction js arbitrary: st) (simp_all add: pool_inv_step)

lemma pool_inv_run: "pool_inv run tasks n (pool_run run tasks n schedule)"
  unfolding pool_run_def by (intro pool_inv_fold pool_inv_init)

subsection \<open>The pool ends\<close>

fun worker_todo :: "('a, 'b) pool_worker \<Rightarrow> nat" where
  "worker_todo (Waiting _) = 1"
| "worker_todo (Running _ _) = 2"
| "worker_todo (Ended _) = 0"

definition pool_todo :: "('a, 'b) pool \<Rightarrow> nat" where
  "pool_todo st = 2 * length (pl_queue st) + (\<Sum>w\<leftarrow>pl_workers st. worker_todo w)"

definition all_ended :: "('a, 'b) pool \<Rightarrow> bool" where
  "all_ended st \<longleftrightarrow> list_all (\<lambda>w. ended_result w \<noteq> None) (pl_workers st)"

lemma pool_step_other: "j \<noteq> i \<Longrightarrow> pl_workers (pool_step run i st) ! j = pl_workers st ! j"
  by (auto simp: pool_step_def split: pool_worker.split list.split option.split sum.split)

lemma pool_step_todo:
  assumes "pool_inv run tasks n st" "\<forall>t \<in> set tasks. run t \<noteq> None"
  shows "pool_todo (pool_step run i st) \<le> pool_todo st"
    "i < n \<Longrightarrow> ended_result (pl_workers st ! i) = None \<Longrightarrow> pool_todo (pool_step run i st) < pool_todo st"
proof -
  have "pool_todo (pool_step run i st) < pool_todo st \<or> pool_step run i st = st \<and>
      (i < n \<longrightarrow> ended_result (pl_workers st ! i) \<noteq> None)"
  proof (cases "i < length (pl_workers st)")
    case True
    define w where "w = pl_workers st ! i"
    from True obtain xs ys where ws: "pl_workers st = xs @ w # ys" "length xs = i"
      unfolding w_def by (metis id_take_nth_drop length_take min.absorb4)
    have upd: "(pl_workers st)[i := w] = xs @ w # ys" for w
      by (simp add: ws(1) flip: ws(2))
    have todo: "pool_todo st = 2 * length (pl_queue st) + worker_todo w +
        (\<Sum>w\<leftarrow>xs. worker_todo w) + (\<Sum>w\<leftarrow>ys. worker_todo w)"
      by (simp add: pool_todo_def ws(1))
    show ?thesis
    proof (cases w)
      case (Waiting outs)
      then show ?thesis
        unfolding todo using True by (auto simp: pool_step_def w_def [symmetric] upd pool_todo_def split: list.split)
    next
      case (Running task outs)
      then have "task \<in> set (running_tasks (pl_workers st))" by (simp add: ws(1) pool_lists)
      then have "task \<in> set tasks" using assms(1) by (simp add: pool_inv_def set_mset_mset [symmetric] del: set_mset_mset)
      with assms(2) obtain r where "run task = Some r" by blast
      with Running show ?thesis
        unfolding todo using True by (cases r) (auto simp: pool_step_def w_def [symmetric] upd pool_todo_def)
    qed (use True w_def in \<open>simp add: pool_step_def\<close>)
  qed (use assms(1) in \<open>simp add: pool_step_def pool_inv_def\<close>)
  then show "pool_todo (pool_step run i st) \<le> pool_todo st"
    "i < n \<Longrightarrow> ended_result (pl_workers st ! i) = None \<Longrightarrow> pool_todo (pool_step run i st) < pool_todo st" by auto
qed

lemma pool_fold_todo:
  assumes "pool_inv run tasks n st" "\<forall>t \<in> set tasks. run t \<noteq> None"
  shows "pool_todo (fold (pool_step run) js st) \<le> pool_todo st"
    "i \<in> set js \<Longrightarrow> i < n \<Longrightarrow> ended_result (pl_workers st ! i) = None \<Longrightarrow>
      pool_todo (fold (pool_step run) js st) < pool_todo st"
proof -
  have le: "pool_todo (fold (pool_step run) js st) \<le> pool_todo st" if "pool_inv run tasks n st" for js st
    using that
  proof (induction js arbitrary: st)
    case (Cons j js)
    then show ?case
      using Cons.IH [OF pool_inv_step [OF Cons.prems], of j] pool_step_todo(1) [OF Cons.prems assms(2), of j] by simp
  qed simp
  show "pool_todo (fold (pool_step run) js st) \<le> pool_todo st" by (rule le [OF assms(1)])
  show "pool_todo (fold (pool_step run) js st) < pool_todo st"
    if "i \<in> set js" "i < n" "ended_result (pl_workers st ! i) = None"
    using assms(1) that
  proof (induction js arbitrary: st)
    case (Cons j js)
    note inv = pool_inv_step [OF Cons.prems(1), of j]
    show ?case
    proof (cases "j = i")
      case True
      then show ?thesis
        using pool_step_todo(2) [OF Cons.prems(1) assms(2) Cons.prems(3,4)] le [OF inv, of js] by simp
    next
      case False
      then have "ended_result (pl_workers (pool_step run j st) ! i) = None"
        using Cons.prems(4) by (simp add: pool_step_other)
      with Cons.IH [OF inv _ Cons.prems(3)] Cons.prems(2) False pool_step_todo(1) [OF Cons.prems(1) assms(2), of j]
      show ?thesis by simp
    qed
  qed simp
qed

text \<open>A round of all workers does something until all have ended.\<close>

lemma pool_fold_ended: "all_ended st \<Longrightarrow> fold (pool_step run) js st = st"
proof (induction js)
  case (Cons j js)
  have "pool_step run j st = st"
  proof (cases "j < length (pl_workers st)")
    case True
    then have "ended_result (pl_workers st ! j) \<noteq> None" using Cons.prems by (simp add: all_ended_def list_all_length)
    with True show ?thesis by (cases "pl_workers st ! j") (simp_all add: pool_step_def)
  qed (simp add: pool_step_def)
  with Cons show ?case by simp
qed simp

lemma rounds_Suc: "rounds (Suc k) jobs = [0..<max jobs 1] @ rounds k jobs"
  by (simp add: rounds_def)

lemma pool_rounds_end:
  assumes "\<forall>t \<in> set tasks. run t \<noteq> None"
  shows "pool_inv run tasks n st \<Longrightarrow> pool_todo st \<le> k \<Longrightarrow> all_ended (fold (pool_step run) (rounds k n) st)"
proof (induction k arbitrary: st)
  case 0
  then have "\<forall>w \<in> set (pl_workers st). worker_todo w = 0" by (simp add: pool_todo_def)
  then have "all_ended st"
    unfolding all_ended_def list_all_iff by (metis ended_result.simps(1) option.discI worker_todo.elims zero_neq_numeral zero_neq_one)
  then show ?case by (simp add: pool_fold_ended)
next
  case (Suc k)
  show ?case
  proof (cases "all_ended st")
    case False
    then obtain i where i: "i < n" "ended_result (pl_workers st ! i) = None"
      using Suc.prems(1) by (auto simp: all_ended_def list_all_length pool_inv_def)
    have "pool_todo (fold (pool_step run) [0..<max n 1] st) < pool_todo st"
      using i by (intro pool_fold_todo(2) [OF Suc.prems(1) assms]) auto
    with Suc.IH [OF pool_inv_fold [OF Suc.prems(1)], of "[0..<max n 1]"] Suc.prems(2)
    show ?thesis by (simp add: rounds_Suc)
  qed (simp add: pool_fold_ended)
qed

lemma pool_run_ends:
  fixes run :: "'a \<Rightarrow> 'b pack_result option"
  assumes "\<forall>t \<in> set tasks. run t \<noteq> None"
  shows "all_ended (pool_run run tasks n schedule)"
proof -
  let ?st = "pool_init tasks n :: ('a, 'b) pool"
  have "pool_todo ?st = 2 * length tasks + n"
    by (simp add: pool_todo_def pool_init_def sum_list_replicate)
  with pool_fold_todo(1) [OF pool_inv_init [of run tasks n] assms, of schedule]
  have "pool_todo (fold (pool_step run) schedule ?st) \<le> 2 * length tasks + n" by simp
  from pool_rounds_end [OF assms pool_inv_fold [OF pool_inv_init] this] show ?thesis by (simp add: pool_run_def)
qed

subsection \<open>The results\<close>

lemma ended_results:
  "all_ended st \<Longrightarrow> \<exists>rs. those_options (map ended_result (pl_workers st)) = Some rs \<and> pl_workers st = map Ended rs"
proof -
  assume "all_ended st"
  then have "\<forall>w \<in> set (pl_workers st). w = Ended (the (ended_result w)) \<and> ended_result w = Some (the (ended_result w))"
    unfolding all_ended_def list_all_iff by (auto elim!: ended_result.elims)
  then have "those_options (map ended_result (pl_workers st)) = Some (map (\<lambda>w. the (ended_result w)) (pl_workers st))"
    "pl_workers st = map Ended (map (\<lambda>w. the (ended_result w)) (pl_workers st))"
    by (auto intro: those_options_map map_idI [symmetric])
  then show ?thesis by blast
qed

lemma broken_member:
  assumes "pool_inv run tasks n st" "Broken i t e \<in> set (pl_log st)"
  shows "t \<in> set tasks" "run t = Some (Inl e)"
proof -
  from assms(2) have "t \<in> set (broken_tasks (pl_log st))"
    by (auto simp: broken_tasks_def List.map_filter_def image_iff intro!: bexI [of _ "Broken i t e"])
  moreover have "mset (broken_tasks (pl_log st)) \<subseteq># mset tasks"
    using assms(1) by (simp add: pool_inv_def)
  ultimately show "t \<in> set tasks" using mset_subset_eqD by fastforce
  show "run t = Some (Inl e)" using assms by (auto simp: pool_inv_def list_all_iff event_ok_def)
qed

text \<open>
  The results are all \<open>Ok\<close> exactly when no task fails, and then they are those of all tasks;
  otherwise one of them is the error of a task that fails.
\<close>

lemma pool_results:
  fixes run :: "'a \<Rightarrow> 'b pack_result option" and tasks :: "'a list" and n :: nat and schedule :: "nat list"
  assumes "\<forall>t \<in> set tasks. run t \<noteq> None" "0 < n"
  defines "st \<equiv> pool_run run tasks n schedule"
  obtains rs where "those_options (map ended_result (pl_workers st)) = Some rs" "length rs = n"
    "(\<forall>r \<in> set rs. \<not> isl r) \<longleftrightarrow> (\<forall>t \<in> set tasks. \<exists>out. run t = Some (Inr out))"
    "\<forall>e. Inl e \<in> set rs \<longrightarrow> (\<exists>t \<in> set tasks. run t = Some (Inl e))"
    "\<forall>out. (\<forall>t \<in> set tasks. run t = Some (Inr (out t))) \<longrightarrow>
      mset (completed_outs (pl_log st)) = mset (map out tasks) \<and> mset (concat (map projr rs)) = mset (map out tasks)"
proof -
  have inv: "pool_inv run tasks n st" unfolding st_def by (rule pool_inv_run)
  have "all_ended st" unfolding st_def by (rule pool_run_ends [OF assms(1)])
  then obtain rs where rs: "those_options (map ended_result (pl_workers st)) = Some rs" "pl_workers st = map Ended rs"
    using ended_results by blast
  have len: "length rs = n" using inv by (simp add: pool_inv_def rs(2))
  have running: "running_tasks (pl_workers st) = []"
    unfolding rs(2) by (induction rs) (simp_all add: pool_lists)
  have broken: "Inl e \<in> set rs \<longleftrightarrow> (\<exists>i t. Broken i t e \<in> set (pl_log st))" for e
    using inv by (auto simp: pool_inv_def rs(2) image_iff)
  have tasks: "mset tasks = mset (pl_queue st) + mset (completed_tasks (pl_log st)) + mset (broken_tasks (pl_log st))"
    using inv running by (simp add: pool_inv_def)
  note mem = broken_member(1) [OF inv] and logged = broken_member(2) [OF inv]
  have completed: "run t = Some (Inr out)" if "Completed i t out \<in> set (pl_log st)" for i t out
    using inv that by (auto simp: pool_inv_def list_all_iff event_ok_def)
  have outs: "map out (completed_tasks log) = completed_outs log"
    if "\<forall>i t b. Completed i t b \<in> set log \<longrightarrow> out t = b" for out and log :: "('a, 'b) pool_event list"
    using that
  proof (induction log)
    case (Cons ev log)
    then show ?case by (cases ev) (auto simp: pool_lists)
  qed (simp add: pool_lists)
  have none_broken: "(\<forall>r \<in> set rs. \<not> isl r) \<longleftrightarrow> broken_tasks (pl_log st) = []"
    unfolding broken_tasks_Nil using broken by (metis isl_def)
  have all: "mset tasks = mset (completed_tasks (pl_log st))" if "\<forall>r \<in> set rs. \<not> isl r"
  proof -
    from assms(2) len have "rs ! 0 \<in> set rs" by simp
    with that obtain bs where "Inr bs \<in> set rs" by (metis sum.collapse(2))
    then have "pl_queue st = []" using inv by (auto simp: pool_inv_def rs(2))
    with tasks that none_broken show ?thesis by simp
  qed
  show thesis
  proof (rule that [OF rs(1) len])
    show "(\<forall>r \<in> set rs. \<not> isl r) \<longleftrightarrow> (\<forall>t \<in> set tasks. \<exists>out. run t = Some (Inr out))"
    proof
      assume ok: "\<forall>r \<in> set rs. \<not> isl r"
      show "\<forall>t \<in> set tasks. \<exists>out. run t = Some (Inr out)"
      proof
        fix t
        assume "t \<in> set tasks"
        then have "t \<in> set (completed_tasks (pl_log st))" using arg_cong [OF all [OF ok], of set_mset] by simp
        then show "\<exists>out. run t = Some (Inr out)"
          using completed by (auto simp: completed_tasks_def List.map_filter_def split: pool_event.splits)
      qed
    next
      assume "\<forall>t \<in> set tasks. \<exists>out. run t = Some (Inr out)"
      then show "\<forall>r \<in> set rs. \<not> isl r" using broken mem logged by (metis isl_def option.inject sum.distinct(1))
    qed
    show "\<forall>e. Inl e \<in> set rs \<longrightarrow> (\<exists>t \<in> set tasks. run t = Some (Inl e))" using broken mem logged by blast
    show "\<forall>out. (\<forall>t \<in> set tasks. run t = Some (Inr (out t))) \<longrightarrow>
      mset (completed_outs (pl_log st)) = mset (map out tasks) \<and> mset (concat (map projr rs)) = mset (map out tasks)"
    proof (intro allI impI)
      fix out
      assume out: "\<forall>t \<in> set tasks. run t = Some (Inr (out t))"
      then have ok: "\<forall>r \<in> set rs. \<not> isl r" using broken mem logged by (metis isl_def option.inject sum.distinct(1))
      have "\<forall>i t b. Completed i t b \<in> set (pl_log st) \<longrightarrow> out t = b"
      proof (intro allI impI)
        fix i t b
        assume ev: "Completed i t b \<in> set (pl_log st)"
        then have "t \<in> set (completed_tasks (pl_log st))"
          by (auto simp: completed_tasks_def List.map_filter_def image_iff intro!: bexI [of _ "Completed i t b"])
        then have "t \<in> set tasks" using arg_cong [OF all [OF ok], of set_mset] by simp
        with out completed [OF ev] show "out t = b" by simp
      qed
      from outs [OF this] have log: "mset (completed_outs (pl_log st)) = mset (map out tasks)"
        using all [OF ok] by (metis mset_map)
      have "worker_outs (Ended r :: ('a, 'b) pool_worker) = projr r" if "r \<in> set rs" for r
        using ok that by (cases r) auto
      then have "concat (map worker_outs (pl_workers st)) = concat (map projr rs)"
        unfolding rs(2) map_map comp_def by (intro arg_cong [where f = concat] map_cong) simp_all
      with inv none_broken ok have "mset (concat (map projr rs)) = mset (completed_outs (pl_log st))"
        by (simp add: pool_inv_def)
      with log show "mset (completed_outs (pl_log st)) = mset (map out tasks) \<and> mset (concat (map projr rs)) = mset (map out tasks)"
        by simp
    qed
  qed
qed

end
