(* ===== verification/Pool_Extract.thy ===== *)
theory Pool_Extract
  imports Pool_Correct Extract_Encode
begin

text \<open>
  The extractions that run a pool of workers, on databases whose scans end: they end under every
  schedule, fail only with a task that fails, and otherwise give what the tasks give in order.
\<close>

subsection \<open>Packed extraction\<close>

lemma first_error_None: "first_error rs = None \<longleftrightarrow> (\<forall>r \<in> set rs. \<not> isl r)"
  by (induction rs rule: first_error.induct) auto

lemma first_error_Some: "first_error rs = Some e \<Longrightarrow> Inl e \<in> set rs"
  by (induction rs rule: first_error.induct) auto

lemma panicked_isl: "panicked r \<Longrightarrow> isl r"
  by (cases r rule: panicked.cases) auto

lemma build_pack_tasks_count:
  assumes "build_pack_tasks s n k = Inr tasks" "0 < k" "0 < n"
  shows "tasks \<noteq> []" "length tasks < 2 ^ 64"
proof -
  have k: "0 < unat k" "0 < unat n" using assms(2,3) by (simp_all add: unat_gt_0 word_gt_0)
  have len: "length tasks = group_count (unat n) (unat k)"
    using assms(1) k(1) by (auto simp: build_pack_tasks_def group_count_def Let_def unat_gt_0)
  have "unat n \<le> group_count (unat n) (unat k) * unat k" by (rule group_count_bounds(1) [OF k(1)])
  with k(2) have pos: "0 < length tasks" unfolding len by (cases "group_count (unat n) (unat k)") simp_all
  then show "tasks \<noteq> []" by simp
  from pos have "(length tasks - 1) * unat k < unat n"
    unfolding len by (intro group_count_bounds(2) [OF k(1)]) simp
  moreover have "length tasks - 1 \<le> (length tasks - 1) * unat k" using k(1) by simp
  ultimately have "length tasks - 1 < unat n" by (rule order_le_less_trans [rotated])
  then show "length tasks < 2 ^ 64" using unat_u64_less [of n] by linarith
qed

lemma pack_group_index: "pack_group N T R S V orders cell dbs base t = Some (Inr out) \<Longrightarrow> po_group_index out = pt_group_index t"
  by (auto simp: pack_group_def rbind_Inr_iff)

lemma failed_mapped:
  assumes "map_option f r = Some (Inl e)" "\<And>x. f (Inr x) \<noteq> Inl e"
  shows "\<exists>e'. r = Some (Inl e')"
proof -
  from assms(1) obtain y where y: "r = Some y" "f y = Inl e" by auto
  with assms(2) show ?thesis by (cases y) auto
qed

lemma pack_group_Inl:
  assumes "pack_group N T R S V orders cell dbs base t = Some (Inl e)"
  shows "\<exists>e'. encoded N T R S V orders cell dbs (base\<lparr>ec_start_epoch := pt_start_epoch t, ec_epoch_count := pt_epoch_count t\<rparr>) = Some (Inl e')"
  by (rule failed_mapped [OF assms [unfolded pack_group_def pack_config_def]]) (auto simp: rbind_def with_message_def)

lemma pack_group_Inr:
  "pack_group N T R S V orders cell dbs base t = Some (Inr out) \<Longrightarrow>
   \<exists>report. encoded N T R S V orders cell dbs (base\<lparr>ec_start_epoch := pt_start_epoch t, ec_epoch_count := pt_epoch_count t\<rparr>) =
       Some (Inr (po_bytes out, report)) \<and>
     po_start_epoch out = pt_start_epoch t \<and> po_epoch_count out = pt_epoch_count t \<and>
     po_block_count out = er_block_count report \<and> po_transaction_count out = er_transaction_count report"
  by (auto simp: pack_group_def pack_config_def rbind_Inr_iff)

text \<open>An extraction into containers, with the configuration of its writer.\<close>

lemma run_packed_result:
  fixes N T R S V orders cell dbs config output_dir k jobs target_bytes pre schedule
  defines "task \<equiv> pack_group N T R S V orders cell dbs config"
    and "result \<equiv> run_packed N T R S V orders cell config output_dir k jobs target_bytes pre dbs schedule"
    and "c \<equiv> \<lparr>wc_output_dir = output_dir, wc_prefix = pre, wc_shard_epochs = k, wc_target_bytes = target_bytes\<rparr>"
  assumes tasks: "build_pack_tasks (ec_start_epoch config) (ec_epoch_count config) k = Inr tasks"
    and k: "0 < k" "0 < ec_epoch_count config" "0 < jobs"
    and range: "unat (ec_start_epoch config) + unat (ec_epoch_count config) < 2 ^ 64"
    and returns: "\<forall>t. task t \<noteq> None"
  shows "\<exists>r. result = Some r \<and>
    (case r of Inl e \<Rightarrow> \<exists>t \<in> set tasks. \<exists>e'. task t = Some (Inl e')
     | Inr w \<Rightarrow> \<exists>outs. list_all2 (\<lambda>t out. task t = Some (Inr out)) tasks outs \<and> numbered outs \<and>
         write_containers c outs = Inr w)"
proof -
  let ?n = "min jobs (length tasks)"
  note count = build_pack_tasks_count [OF tasks k(1,2)]
  have "\<forall>t \<in> set tasks. task t \<noteq> None" "0 < ?n" using returns k(3) count(1) by auto
  then obtain rs where rs:
    "those_options (map ended_result (pl_workers (pool_run task tasks ?n schedule))) = Some rs" "length rs = ?n"
    "(\<forall>r \<in> set rs. \<not> isl r) \<longleftrightarrow> (\<forall>t \<in> set tasks. \<exists>out. task t = Some (Inr out))"
    "\<forall>e. Inl e \<in> set rs \<longrightarrow> (\<exists>t \<in> set tasks. task t = Some (Inl e))"
    "\<forall>out. (\<forall>t \<in> set tasks. task t = Some (Inr (out t))) \<longrightarrow>
      mset (completed_outs (pl_log (pool_run task tasks ?n schedule))) = mset (map out tasks) \<and>
      mset (concat (map projr rs)) = mset (map out tasks)"
    by (rule pool_results)
  have run: "result = Some (if list_ex panicked rs then Inl (Pack_Panic ''pack worker panicked'')
      else rbind (expect_join ''pack writer panicked'' (write_containers c (completed_outs (pl_log (pool_run task tasks ?n schedule)))))
        (\<lambda>summary. case first_error rs of Some e \<Rightarrow> Inl e | None \<Rightarrow> summary))"
    unfolding c_def by (simp add: result_def run_packed_def tasks Let_def join_all_def rs(1) flip: task_def)
  show ?thesis
  proof (cases "\<forall>r \<in> set rs. \<not> isl r")
    case True
    then have "\<forall>t \<in> set tasks. task t = Some (Inr (projr (the (task t))))" using rs(3) by fastforce
    moreover define outs where "outs = map (\<lambda>t. projr (the (task t))) tasks"
    ultimately have outs: "list_all2 (\<lambda>t out. task t = Some (Inr out)) tasks outs"
      "mset (completed_outs (pl_log (pool_run task tasks ?n schedule))) = mset outs"
      using rs(5) [rule_format, of "\<lambda>t. projr (the (task t))"] by (auto simp: list_all2_conv_all_nth)
    have k': "k \<noteq> 0" using k(1) by auto
    have numbered: "numbered outs"
      unfolding numbered_def
    proof (intro conjI allI impI)
      show "length outs < 2 ^ 64" using count(2) list_all2_lengthD [OF outs(1)] by simp
      fix i assume "i < length outs"
      with list_all2_lengthD [OF outs(1)] have i: "i < length tasks" by simp
      with outs(1) have "task (tasks ! i) = Some (Inr (outs ! i))" by (simp add: list_all2_conv_all_nth)
      then have "po_group_index (outs ! i) = pt_group_index (tasks ! i)" unfolding task_def by (rule pack_group_index)
      with pack_tasks_tile(2) [OF k' range tasks i] show "po_group_index (outs ! i) = of_nat i" by simp
    qed
    obtain w where "write_containers c (completed_outs (pl_log (pool_run task tasks ?n schedule))) = Inr w"
      by (rule write_containers_files [OF numbered outs(2)])
    moreover have "\<not> list_ex panicked rs" using True panicked_isl by (auto simp: list_ex_iff)
    ultimately show ?thesis
      using write_containers_any_order [OF numbered outs(2), of c] True numbered outs(1)
      unfolding run by (auto simp: first_error_None [THEN iffD2] expect_join_def rbind_def)
  next
    case False
    then obtain e where e: "Inl e \<in> set rs" by (metis isl_def)
    from rs(4) [rule_format, OF this] obtain t where t: "t \<in> set tasks" "task t = Some (Inl e)" by blast
    obtain f where "first_error rs = Some f" using False first_error_None by fastforce
    then have "\<exists>g. result = Some (Inl g)" unfolding run by (simp add: expect_join_def rbind_def)
    then obtain g where "result = Some (Inl g)" by blast
    moreover have "\<exists>t \<in> set tasks. \<exists>e'. task t = Some (Inl e')" using t by blast
    ultimately show ?thesis by simp
  qed
qed

text \<open>The loop of a worker ends when the scans of the databases end.\<close>

lemma encoded_returns_some:
  assumes "column (db_pow dbs) COL_REWARD_BY_POS_EPOCH rewards"
    and "column (db_pos dbs) ''event'' events" "\<forall>(k, v) \<in> set events. 8 \<le> length k"
  shows "encoded N T R S V orders cell dbs config \<noteq> None"
  using extract_raw_returns [OF assms, of N T V orders cell config] by (auto simp: encoded_def split: sum.split)

lemma tasks_return:
  assumes "column (db_pow dbs) COL_REWARD_BY_POS_EPOCH rewards"
    and "column (db_pos dbs) ''event'' events" "\<forall>(k, v) \<in> set events. 8 \<le> length k"
  shows "pack_group N T R S V orders cell dbs config t \<noteq> None"
    and "run_shard_task N T R S V orders cell dbs config t' \<noteq> None"
  using encoded_returns_some [OF assms] by (simp_all add: pack_group_def run_shard_task_def to_file_def)

subsection \<open>Shards\<close>

lemma sends_append: "sends busy es busy' \<Longrightarrow> sends busy' es' busy'' \<Longrightarrow> sends busy (es @ es') busy''"
  by (induction rule: sends.induct) (auto intro: sends.intros)

definition running_workers :: "('a, 'b) pool_worker list \<Rightarrow> nat set" where
  "running_workers ws = {i. i < length ws \<and> (\<exists>t outs. ws ! i = Running t outs)}"

lemma running_workers_upd:
  assumes "i < length ws"
  shows "running_workers (ws[i := Running t outs]) = insert i (running_workers ws)"
    "running_workers (ws[i := Waiting outs]) = running_workers ws - {i}"
    "running_workers (ws[i := Ended r]) = running_workers ws - {i}"
  using assms by (auto simp: running_workers_def nth_list_update)

text \<open>The events of a pool: of workers of the pool, and those of the logger's protocol if no task fails.\<close>

definition log_inv :: "nat \<Rightarrow> (shard_task, 'b) pool \<Rightarrow> bool" where
  "log_inv n st \<longleftrightarrow> length (pl_workers st) = n \<and>
     (\<forall>e \<in> set (List.map_filter progress_of (pl_log st)). event_worker e < n) \<and>
     (broken_tasks (pl_log st) = [] \<longrightarrow> sends {} (List.map_filter progress_of (pl_log st)) (running_workers (pl_workers st)))"

lemma running_workers_init [simp]: "running_workers (replicate n (Waiting outs)) = {}"
  by (auto simp: running_workers_def)

lemma log_inv_init: "log_inv n (pool_init tasks n)"
  by (simp add: log_inv_def pool_init_def pool_lists sends_Nil)

lemma log_inv_step:
  assumes "log_inv n st"
  shows "log_inv n (pool_step run i st)"
proof (cases "i < length (pl_workers st)")
  case True
  note upd = running_workers_upd [OF True]
  have snoc: "sends {} (es @ [e]) busy'" if "sends {} es busy" "sends busy [e] busy'" for es e busy busy'
    using sends_append [OF that] by simp
  show ?thesis
  proof (cases "pl_workers st ! i")
    case (Waiting outs)
    then have idle: "i \<notin> running_workers (pl_workers st)" by (simp add: running_workers_def)
    show ?thesis
    proof (cases "pl_queue st")
      case Nil
      then have step: "pool_step run i st = st\<lparr>pl_workers := (pl_workers st)[i := Ended (Inr outs)]\<rparr>"
        using True Waiting by (simp add: pool_step_def)
      show ?thesis unfolding step using assms idle upd(3) by (simp add: log_inv_def)
    next
      case (Cons task rest)
      let ?log = "pl_log st @ [Taken i task]"
      have step: "pool_step run i st = st\<lparr>pl_workers := (pl_workers st)[i := Running task outs], pl_queue := rest, pl_log := ?log\<rparr>"
        using True Waiting Cons by (simp add: pool_step_def)
      have "sends (running_workers (pl_workers st)) [Start i \<lparr>as_start_epoch = st_start_epoch task, as_end_epoch = shard_end_epoch task\<rparr>]
          (insert i (running_workers (pl_workers st)))"
        using idle by (intro sends.intros)
      with assms True snoc show ?thesis
        unfolding step by (auto simp: log_inv_def upd(1) pool_lists progress_of_def)
    qed
  next
    case (Running task outs)
    then have busy: "i \<in> running_workers (pl_workers st)" using True by (simp add: running_workers_def)
    consider "run task = None" | e where "run task = Some (Inl e)" | out where "run task = Some (Inr out)"
      by (metis option.exhaust sum.exhaust)
    then show ?thesis
    proof cases
      case 1
      then have "pool_step run i st = st" using True Running by (simp add: pool_step_def)
      with assms show ?thesis by simp
    next
      case 2
      then have step: "pool_step run i st =
          st\<lparr>pl_workers := (pl_workers st)[i := Ended (Inl e)], pl_log := pl_log st @ [Broken i task e]\<rparr>"
        using True Running by (simp add: pool_step_def)
      show ?thesis
        unfolding step using assms True by (cases e) (auto simp: log_inv_def pool_lists progress_of_def)
    next
      case 3
      then have step: "pool_step run i st = st\<lparr>pl_workers := (pl_workers st)[i := Waiting (outs @ [out])],
          pl_log := pl_log st @ [Completed i task out]\<rparr>"
        using True Running by (simp add: pool_step_def)
      have "sends (running_workers (pl_workers st)) [progress_event.Done i] (running_workers (pl_workers st) - {i})"
        using busy by (intro sends.intros)
      with assms True snoc show ?thesis
        unfolding step by (auto simp: log_inv_def upd(2) pool_lists progress_of_def)
    qed
  next
    case (Ended r)
    with True assms show ?thesis by (simp add: pool_step_def)
  qed
qed (use assms in \<open>simp add: pool_step_def\<close>)

lemma log_inv_run: "log_inv n (pool_run run tasks n schedule)"
proof -
  have "log_inv n (fold (pool_step run) js st)" if "log_inv n st" for js st
    using that by (induction js arbitrary: st) (simp_all add: log_inv_step)
  then show ?thesis unfolding pool_run_def using log_inv_init by blast
qed

text \<open>The logger never fails.\<close>

lemma progress_run_total:
  "\<forall>e \<in> set es. event_worker e < length (pg_active p) \<Longrightarrow> \<exists>q. progress_run es p = Inr q"
proof (induction es arbitrary: p)
  case (Cons e es)
  then show ?case by (cases e) (auto simp: set_active_def)
qed simp

lemma new_active: "active_workers (progress_new m n) = {}"
  by (auto simp: active_workers_def progress_new_def)

lemma events_of_log:
  "length (filter is_done (List.map_filter progress_of log)) = length (completed_outs log)"
  "broken_tasks log = [] \<Longrightarrow> filter is_failed (List.map_filter progress_of log) = []"
proof -
  show "length (filter is_done (List.map_filter progress_of log)) = length (completed_outs log)"
  proof (induction log)
    case (Cons ev log)
    then show ?case by (cases ev) (auto simp: pool_lists progress_of_def event_kind_defs split: pack_failure.split)
  qed (simp add: pool_lists)
  show "filter is_failed (List.map_filter progress_of log) = []" if "broken_tasks log = []"
    using that
  proof (induction log)
    case (Cons ev log)
    then show ?case by (cases ev) (auto simp: pool_lists progress_of_def event_kind_defs)
  qed (simp add: pool_lists)
qed

text \<open>An extraction into shard files.\<close>

lemma run_shards_result:
  fixes N T R S V orders cell dbs config output_dir k jobs schedule
  defines "task \<equiv> run_shard_task N T R S V orders cell dbs config"
    and "result \<equiv> run_shards N T R S V orders cell config output_dir k jobs dbs schedule"
  assumes tasks: "build_shard_tasks (ec_start_epoch config) (ec_epoch_count config) output_dir k = Inr tasks"
    and pos: "0 < jobs" "tasks \<noteq> []" and returns: "\<forall>t. task t \<noteq> None"
  shows "\<exists>r files. result = Some (r, files) \<and>
    (case r of Inl e \<Rightarrow> \<exists>t \<in> set tasks. \<exists>e'. task t = Some (Inl e')
     | Inr (reports, progress) \<Rightarrow> \<exists>outs. list_all2 (\<lambda>t out. task t = Some (Inr out)) tasks outs \<and>
         mset reports = mset (map fst outs) \<and>
         (\<exists>written. mset written = mset outs \<and> files = fold (\<lambda>out files. files ++ snd out) written Map.empty) \<and>
         pg_completed progress = length tasks \<and> pg_failed progress = 0 \<and> active_workers progress = {})"
proof -
  let ?n = "min jobs (length tasks)"
  let ?st = "pool_run task tasks ?n schedule"
  let ?events = "List.map_filter progress_of (pl_log ?st)"
  let ?p = "progress_new (length tasks) ?n"
  have "\<forall>t \<in> set tasks. task t \<noteq> None" "0 < ?n" using returns pos by auto
  then obtain rs where rs:
    "those_options (map ended_result (pl_workers ?st)) = Some rs" "length rs = ?n"
    "(\<forall>r \<in> set rs. \<not> isl r) \<longleftrightarrow> (\<forall>t \<in> set tasks. \<exists>out. task t = Some (Inr out))"
    "\<forall>e. Inl e \<in> set rs \<longrightarrow> (\<exists>t \<in> set tasks. task t = Some (Inl e))"
    "\<forall>out. (\<forall>t \<in> set tasks. task t = Some (Inr (out t))) \<longrightarrow>
      mset (completed_outs (pl_log ?st)) = mset (map out tasks) \<and> mset (concat (map projr rs)) = mset (map out tasks)"
    by (rule pool_results)
  have log: "log_inv ?n ?st" by (rule log_inv_run)
  obtain progress where progress: "progress_run ?events ?p = Inr progress"
    using log progress_run_total [of ?events ?p] by (auto simp: log_inv_def progress_new_def)
  define files where "files = fold (\<lambda>out files. files ++ snd out) (completed_outs (pl_log ?st)) Map.empty"
  define reports where "reports = collect_worker_reports (map (\<lambda>r. rbind r (\<lambda>outs. Inr (map fst outs))) rs)"
  have run: "result = Some ((if list_ex panicked rs then Inl (Pack_Panic ''extract worker panicked'')
      else rbind reports (\<lambda>reports. Inr (reports, progress))), files)"
    unfolding result_def run_shards_def tasks sum.case Let_def join_all_def task_def [symmetric] rs(1) option.map
      log_progress_events_def progress expect_join_def files_def reports_def by (simp add: rbind_def)
  show ?thesis
  proof (cases "\<forall>r \<in> set rs. \<not> isl r")
    case True
    then have all: "\<forall>t \<in> set tasks. task t = Some (Inr (projr (the (task t))))" using rs(3) by fastforce
    define outs where "outs = map (\<lambda>t. projr (the (task t))) tasks"
    have outs: "list_all2 (\<lambda>t out. task t = Some (Inr out)) tasks outs"
      "mset (completed_outs (pl_log ?st)) = mset outs" "mset (concat (map projr rs)) = mset outs"
      using all rs(5) [rule_format, of "\<lambda>t. projr (the (task t))"] by (auto simp: list_all2_conv_all_nth outs_def)
    have ok: "\<forall>r \<in> set (map (\<lambda>r. rbind r (\<lambda>outs. Inr (map fst outs))) rs). \<not> isl r"
      "map projr (map (\<lambda>r. rbind r (\<lambda>outs. Inr (map fst outs))) rs) = map (map fst) (map projr rs)"
      using True by (auto simp: isl_def rbind_def split: sum.splits)
    have "find isl (map (\<lambda>r. rbind r (\<lambda>outs. Inr (map fst outs))) rs) = None"
      using ok(1) by (simp only: find_None_iff) blast
    then have "reports = Inr (map fst (concat (map projr rs)))"
      unfolding reports_def collect_worker_reports_eq ok(2) map_concat by simp
    moreover have "\<not> list_ex panicked rs" using True panicked_isl by (auto simp: list_ex_iff)
    ultimately have result: "result = Some (Inr (map fst (concat (map projr rs)), progress), files)"
      unfolding run by simp
    have unbroken: "broken_tasks (pl_log ?st) = []"
      unfolding broken_tasks_Nil using broken_member [OF pool_inv_run, of _ _ _ task tasks ?n schedule] all by fastforce
    have "all_ended ?st" by (rule pool_run_ends) (use returns in blast)
    then have "running_workers (pl_workers ?st) = {}"
      by (auto simp: running_workers_def all_ended_def list_all_length)
    with log unbroken have sends: "sends (active_workers ?p) ?events {}" "\<forall>e \<in> set ?events. event_worker e < length (pg_active ?p)"
      by (simp_all add: log_inv_def new_active) (simp add: progress_new_def)
    have "length (completed_outs (pl_log ?st)) = length tasks"
      using arg_cong [OF outs(2), of size] list_all2_lengthD [OF outs(1)] by simp
    with progress_run_counts [OF sends] progress events_of_log [of "pl_log ?st"] unbroken
    have "pg_completed progress = length tasks \<and> pg_failed progress = 0 \<and> active_workers progress = {}"
      by (simp add: progress_new_def)
    moreover have "mset (map fst (concat (map projr rs))) = mset (map fst outs)"
      using outs(3) by (metis mset_map)
    ultimately show ?thesis
      using outs(1,2) unfolding result by (auto simp: files_def)
  next
    case False
    then obtain e where e: "Inl e \<in> set rs" by (metis isl_def)
    from rs(4) [rule_format, OF this] have "\<exists>t \<in> set tasks. \<exists>e'. task t = Some (Inl e')" by blast
    moreover have "isl reports"
    proof -
      from e have "find isl (map (\<lambda>r. rbind r (\<lambda>outs. Inr (map fst outs))) rs) \<noteq> None"
        by (auto simp: find_None_iff intro: bexI [of _ "Inl e"])
      then show ?thesis by (auto simp: reports_def collect_worker_reports_eq)
    qed
    ultimately show ?thesis unfolding run by (auto simp: rbind_def split: sum.split)
  qed
qed

subsection \<open>The files and reports of the shards\<close>

lemma shard_path_start: "shard_path d s e = shard_path d s' e' \<Longrightarrow> s = s'"
proof -
  assume "shard_path d s e = shard_path d s' e'"
  then have eq: "dec_digits (unat s) @ CHR ''-'' # dec_digits (unat e) @ ''.cfxpkt'' =
      dec_digits (unat s') @ CHR ''-'' # dec_digits (unat e') @ ''.cfxpkt''" by (simp add: shard_path_def)
  have no: "CHR ''-'' \<notin> set (dec_digits n)" for n
  proof
    assume "CHR ''-'' \<in> set (dec_digits n)"
    then obtain d where "d < 10" "CHR ''-'' = digit_of d" using set_dec_digits [of n] by auto
    then have "digit_val CHR ''-'' = Some d" by simp
    moreover have "digit_val CHR ''-'' = None" by code_simp
    ultimately show False by simp
  qed
  have part: "takeWhile (\<lambda>c. c \<noteq> CHR ''-'') (dec_digits n @ CHR ''-'' # xs) = dec_digits n" for n xs
    using no [of n] by (subst takeWhile_append2) auto
  from arg_cong [OF eq, of "takeWhile (\<lambda>c. c \<noteq> CHR ''-'')"] have "dec_digits (unat s) = dec_digits (unat s')"
    unfolding part .
  then have "parse_u64 (dec_digits (unat s)) = parse_u64 (dec_digits (unat s'))" by simp
  then show "s = s'" by simp
qed

lemma build_shard_tasks_facts:
  assumes "build_shard_tasks s n dir k = Inr tasks" "0 < k" "0 < n" "unat s + unat n < 2 ^ 64"
  shows "tasks \<noteq> []" "sorted_wrt (<) (map st_start_epoch tasks)"
    "\<And>t. t \<in> set tasks \<Longrightarrow> st_output t = shard_path dir (st_start_epoch t) (shard_end_epoch t)"
proof -
  have k: "0 < unat k" "0 < unat n" "k \<noteq> 0" using assms(2,3) by (auto simp: unat_gt_0 word_gt_0)
  have tasks: "map st_start_epoch tasks = map (\<lambda>i. s + of_nat i * k) [0..<group_count (unat n) (unat k)]"
    using assms(1) k(3) by (auto simp: build_shard_tasks_def group_count_def Let_def)
  have "unat n \<le> group_count (unat n) (unat k) * unat k" by (rule group_count_bounds(1) [OF k(1)])
  with k(2) have "map st_start_epoch tasks \<noteq> []" unfolding tasks by (cases "group_count (unat n) (unat k)") simp_all
  then show "tasks \<noteq> []" by simp
  show "sorted_wrt (<) (map st_start_epoch tasks)"
    unfolding tasks sorted_wrt_iff_nth_less
  proof (intro allI impI)
    fix i j
    assume ij: "i < j" "j < length (map (\<lambda>i. s + of_nat i * k) [0..<group_count (unat n) (unat k)])"
    then have "i < group_count (unat n) (unat k)" "j < group_count (unat n) (unat k)" by simp_all
    with task_words(1) [OF k(3) assms(4)] ij(1) k(1)
    have "unat (s + of_nat i * k) < unat (s + of_nat j * k)" by simp
    with ij show "map (\<lambda>i. s + of_nat i * k) [0..<group_count (unat n) (unat k)] ! i <
        map (\<lambda>i. s + of_nat i * k) [0..<group_count (unat n) (unat k)] ! j"
      by (simp add: word_less_nat_alt)
  qed
  show "\<And>t. t \<in> set tasks \<Longrightarrow> st_output t = shard_path dir (st_start_epoch t) (shard_end_epoch t)"
    by (rule shard_tasks_tile(2) [OF k(3) assms(4,1)])
qed

lemma run_shard_task_Inr:
  assumes "run_shard_task N T R S V orders cell dbs config t = Some (Inr out)"
  obtains packet report where "encoded N T R S V orders cell dbs (shard_config config t) = Some (Inr (packet, report))"
    "out = (report\<lparr>er_output := st_output t\<rparr>, [st_output t \<mapsto> packet])" "er_start_epoch report = st_start_epoch t"
proof -
  from assms obtain packet report where e: "encoded N T R S V orders cell dbs (shard_config config t) = Some (Inr (packet, report))"
    "out = (report\<lparr>er_output := st_output t\<rparr>, [st_output t \<mapsto> packet])"
    by (auto simp: run_shard_task_def to_file_def rbind_Inr_iff)
  moreover have "er_start_epoch report = st_start_epoch t"
    using e(1) by (auto simp: encoded_def shard_config_def rbind_Inr_iff split: option.splits sum.splits)
  ultimately show thesis by (rule that)
qed

lemma run_shard_task_Inl:
  assumes "run_shard_task N T R S V orders cell dbs base t = Some (Inl e)"
  shows "\<exists>e'. encoded N T R S V orders cell dbs (base\<lparr>ec_start_epoch := st_start_epoch t, ec_epoch_count := st_epoch_count t\<rparr>) = Some (Inl e')"
  by (rule failed_mapped [OF assms [unfolded run_shard_task_def shard_config_def to_file_def option.map_comp]])
    (auto simp: rbind_def with_message_def)

lemma fold_map_add:
  "\<forall>out \<in> set outs. snd out p = None \<or> snd out p = Some v \<Longrightarrow>
   (\<exists>out \<in> set outs. snd out p = Some v) \<or> files p = Some v \<Longrightarrow>
   fold (\<lambda>out files. files ++ snd out) outs files p = Some v"
proof (induction outs arbitrary: files)
  case (Cons out outs)
  then have "(\<exists>out \<in> set outs. snd out p = Some v) \<or> (files ++ snd out) p = Some v"
    by (auto simp: map_add_def split: option.split)
  with Cons show ?case by (simp add: fun_eq_iff del: map_add_def)
qed simp

end
