(* ===== verification/Pool_Theorems.thy ===== *)
theory Pool_Theorems
  imports Pool_Extract Extract_Example
begin

text \<open>
  The properties of the extractions that run a pool of worker threads
  (\<open>crates/replay-data-extractor/src/extract\<close>), each with an instance at the databases of
  \<open>Extract_Example\<close>.
\<close>

subsection \<open>Packed extraction\<close>

text \<open>
  C13: an extraction into containers ends under every schedule of its workers, whatever their
  number. It fails only if the extraction of some group fails. Otherwise the files are those that the
  writer makes of the packets of the groups in order, and read back they hold the packet of every
  group once, in the order of the epochs.
\<close>

theorem packed_extraction:
  fixes N T R S V orders cell dbs config
  defines "packed t \<equiv> encoded N T R S V orders (once_set cell (cp_cip112_transition_height (ec_chain config))) dbs
      (config\<lparr>ec_start_epoch := pt_start_epoch t, ec_epoch_count := pt_epoch_count t\<rparr>)"
  assumes "open_dbs config = Inr dbs"
    and "column (db_pow dbs) COL_REWARD_BY_POS_EPOCH rewards"
    and "column (db_pos dbs) ''event'' events" "\<forall>(k, v) \<in> set events. 8 \<le> length k"
    and "0 < ec_epoch_count config" "0 < k" "0 < jobs" "0 < target_bytes"
    and "unat (ec_start_epoch config) + unat (ec_epoch_count config) < 2 ^ 64"
  shows "\<exists>tasks r. build_pack_tasks (ec_start_epoch config) (ec_epoch_count config) k = Inr tasks \<and>
    extract_packed_to_dir N T R S V orders open_dbs cell config output_dir k jobs target_bytes pre schedule = Some r \<and>
    concat (map (\<lambda>t. epochs_of (pt_start_epoch t) (pt_epoch_count t)) tasks) =
      epochs_of (ec_start_epoch config) (ec_epoch_count config) \<and>
    (case r of Inl e \<Rightarrow> \<exists>t \<in> set tasks. \<exists>e'. packed t = Some (Inl e')
     | Inr w \<Rightarrow> \<exists>outs. list_all2 (\<lambda>t out. \<exists>report. packed t = Some (Inr (po_bytes out, report)) \<and>
           po_start_epoch out = pt_start_epoch t \<and> po_epoch_count out = pt_epoch_count t \<and>
           po_block_count out = er_block_count report \<and> po_transaction_count out = er_transaction_count report) tasks outs \<and>
         write_containers \<lparr>wc_output_dir = output_dir, wc_prefix = pre, wc_shard_epochs = k,
           wc_target_bytes = target_bytes\<rparr> outs = Inr w \<and>
         (length outs < 2 ^ 32 \<and> 24 + 32 * length outs + packets_size outs < 2 ^ 64 \<longrightarrow>
           (\<exists>groups. traverse (\<lambda>f. file_packets (snd f)) (w_created w) = Inr (map (map packet_view) groups) \<and>
              concat groups = outs)))"
proof -
  define task where "task = pack_group N T R S V orders (once_set cell (cp_cip112_transition_height (ec_chain config))) dbs config"
  let ?out = "\<lambda>t out. \<exists>report. packed t = Some (Inr (po_bytes out, report)) \<and>
      po_start_epoch out = pt_start_epoch t \<and> po_epoch_count out = pt_epoch_count t \<and>
      po_block_count out = er_block_count report \<and> po_transaction_count out = er_transaction_count report"
  have task_Inl: "\<exists>e'. packed t = Some (Inl e')" if "task t = Some (Inl e)" for t e
    using pack_group_Inl [OF that [unfolded task_def]] by (simp only: packed_def)
  have task_Inr: "?out t out" if "task t = Some (Inr out)" for t out
    using pack_group_Inr [OF that [unfolded task_def]] by (simp only: packed_def)
  let ?c = "\<lparr>wc_output_dir = output_dir, wc_prefix = pre, wc_shard_epochs = k, wc_target_bytes = target_bytes\<rparr>"
  have k: "k \<noteq> 0" using assms(7) by auto
  then obtain tasks where tasks: "build_pack_tasks (ec_start_epoch config) (ec_epoch_count config) k = Inr tasks"
    by (auto simp: build_pack_tasks_def Let_def)
  have "\<forall>t. task t \<noteq> None" unfolding task_def by (intro allI tasks_return(1) [OF assms(3-5)])
  from run_packed_result [OF tasks assms(7,6,8,10) this [unfolded task_def], of output_dir target_bytes pre schedule, folded task_def]
  obtain r where run: "run_packed N T R S V orders (once_set cell (cp_cip112_transition_height (ec_chain config))) config
        output_dir k jobs target_bytes pre dbs schedule = Some r"
    and r: "case r of Inl e \<Rightarrow> \<exists>t \<in> set tasks. \<exists>e'. task t = Some (Inl e')
     | Inr w \<Rightarrow> \<exists>outs. list_all2 (\<lambda>t out. task t = Some (Inr out)) tasks outs \<and> numbered outs \<and> write_containers ?c outs = Inr w"
    by blast
  have result: "extract_packed_to_dir N T R S V orders open_dbs cell config output_dir k jobs target_bytes pre schedule = Some r"
    using assms(2,6-9) run by (simp add: extract_packed_to_dir_def)
  have files: "\<exists>groups. traverse (\<lambda>f. file_packets (snd f)) (w_created w) = Inr (map (map packet_view) groups) \<and> concat groups = outs"
    if "numbered outs" "write_containers ?c outs = Inr w" "length outs < 2 ^ 32" "24 + 32 * length outs + packets_size outs < 2 ^ 64"
    for w outs
  proof -
    let ?gs = "groups_of target_bytes [] outs"
    note numbered = that(1)
    obtain w' where "write_containers ?c outs = Inr w'" "w_created w' = map (file_of ?c) ?gs"
      by (rule write_containers_files [OF numbered refl, of ?c]) simp
    with that files_parse [OF that(3,4), of ?gs ?c] show ?thesis by (auto simp: concat_groups_of)
  qed
  have "case r of Inl e \<Rightarrow> \<exists>t \<in> set tasks. \<exists>e'. packed t = Some (Inl e')
     | Inr w \<Rightarrow> \<exists>outs. list_all2 ?out tasks outs \<and> write_containers ?c outs = Inr w \<and>
         (length outs < 2 ^ 32 \<and> 24 + 32 * length outs + packets_size outs < 2 ^ 64 \<longrightarrow>
           (\<exists>groups. traverse (\<lambda>f. file_packets (snd f)) (w_created w) = Inr (map (map packet_view) groups) \<and> concat groups = outs))"
  proof (cases r)
    case (Inl e)
    with r obtain t e' where "t \<in> set tasks" "task t = Some (Inl e')" by auto
    with task_Inl show ?thesis unfolding Inl sum.case by blast
  next
    case (Inr w)
    with r obtain outs where outs: "list_all2 (\<lambda>t out. task t = Some (Inr out)) tasks outs" "numbered outs"
      "write_containers ?c outs = Inr w" by auto
    have "list_all2 ?out tasks outs" using outs(1) by (rule list_all2_mono) (rule task_Inr)
    with outs(3) files [OF outs(2,3)] show ?thesis unfolding Inr sum.case by blast
  qed
  with tasks result pack_tasks_tile(1) [OF k assms(10) tasks] show ?thesis by blast
qed

lemma once_set_twice: "once_set (once_set cell v) v = once_set cell v"
  by (simp add: once_set_def split: option.split)

lemma encoded_once_set:
  "encoded N T R S V orders (once_set cell (cp_cip112_transition_height (ec_chain config))) dbs config =
   encoded N T R S V orders cell dbs config"
  by (simp add: encoded_def extract_raw_def once_set_twice)

lemma ex_pack_tasks: "build_pack_tasks (ec_start_epoch ex_config) (ec_epoch_count ex_config) 10 =
    Inr [\<lparr>pt_group_index = 0, pt_start_epoch = 5, pt_epoch_count = 1\<rparr>]"
  by (simp add: ex_config_def build_pack_tasks_def)

lemma ex_range: "unat (ec_start_epoch ex_config) + unat (ec_epoch_count ex_config) < 2 ^ 64"
  "0 < ec_epoch_count ex_config"
  by (simp_all add: ex_config_def)

text \<open>Three workers share one task, in the order of the schedule.\<close>

theorem packed_extraction_witness:
  "\<exists>w. extract_packed_to_dir ex_node ex_tx ex_rlp ex_snap ex_view ex_orders (\<lambda>_. Inr ex_dbs) None ex_config ''out'' 10 3 100
     ''epochs'' [2, 0, 1] = Some (Inr w)"
proof (rule ex_extracted_data)
  fix data
  assume encoded: "encoded ex_node ex_tx ex_rlp ex_snap ex_view ex_orders None ex_dbs ex_config =
      Some (Inr (data, report_of ex_config ex_extracted data))"
  have "ex_config\<lparr>ec_start_epoch := 5, ec_epoch_count := 1\<rparr> = ex_config" by (simp add: ex_config_def)
  then have ok: "encoded ex_node ex_tx ex_rlp ex_snap ex_view ex_orders (once_set None (cp_cip112_transition_height (ec_chain ex_config)))
      ex_dbs (ex_config\<lparr>ec_start_epoch := 5, ec_epoch_count := 1\<rparr>) \<noteq> Some (Inl e)" for e
    using encoded by (simp add: encoded_once_set)
  from packed_extraction [of "\<lambda>_. Inr ex_dbs" ex_config ex_dbs, OF refl ex_columns ex_events_column(2) ex_range(2) _ _ _ ex_range(1),
      of 10 3 100 ex_node ex_tx ex_rlp ex_snap ex_view ex_orders None "''out''" "''epochs''" "[2, 0, 1]"]
  show ?thesis
    using ok
    apply (auto simp: ex_pack_tasks split: sum.splits)
    subgoal for r by (cases r) auto
    done
qed

subsection \<open>Extraction into shard files\<close>

text \<open>
  C14: an extraction into shard files ends under every schedule of its workers. It fails only if
  the extraction of some shard fails. Otherwise the reports are those of the shards in the order of their
  epochs, the file of every shard holds its packet, and the progress has counted every shard once,
  with no worker left active.
\<close>

theorem shards_extraction:
  fixes N T R S V orders cell dbs config
  defines "shard t \<equiv> encoded N T R S V orders (once_set cell (cp_cip112_transition_height (ec_chain config))) dbs
      (config\<lparr>ec_start_epoch := st_start_epoch t, ec_epoch_count := st_epoch_count t\<rparr>)"
  assumes "open_dbs config = Inr dbs"
    and "column (db_pow dbs) COL_REWARD_BY_POS_EPOCH rewards"
    and "column (db_pos dbs) ''event'' events" "\<forall>(k, v) \<in> set events. 8 \<le> length k"
    and "0 < ec_epoch_count config" "0 < k" "0 < jobs"
    and "unat (ec_start_epoch config) + unat (ec_epoch_count config) < 2 ^ 64"
  shows "\<exists>tasks r files. build_shard_tasks (ec_start_epoch config) (ec_epoch_count config) output_dir k = Inr tasks \<and>
    extract_shards_to_dir N T R S V orders open_dbs cell config output_dir k jobs schedule = Some (r, files) \<and>
    concat (map (\<lambda>t. epochs_of (st_start_epoch t) (st_epoch_count t)) tasks) =
      epochs_of (ec_start_epoch config) (ec_epoch_count config) \<and>
    (case r of
       Inl e \<Rightarrow> \<exists>t \<in> set tasks. \<exists>e'. shard t = Some (Inl e')
     | Inr (reports, progress) \<Rightarrow>
         list_all2 (\<lambda>t report. \<exists>packet r. shard t = Some (Inr (packet, r)) \<and>
           report = r\<lparr>er_output := st_output t\<rparr> \<and> files (st_output t) = Some packet) tasks reports \<and>
         pg_completed progress = length tasks \<and> pg_failed progress = 0 \<and> active_workers progress = {})"
proof -
  define cell' where "cell' = once_set cell (cp_cip112_transition_height (ec_chain config))"
  have shard: "shard t = encoded N T R S V orders cell' dbs (shard_config config t)" for t
    unfolding shard_def cell'_def shard_config_def by (rule refl)
  let ?task = "run_shard_task N T R S V orders cell' dbs config"
  have k: "k \<noteq> 0" using assms(7) by auto
  then obtain tasks where tasks: "build_shard_tasks (ec_start_epoch config) (ec_epoch_count config) output_dir k = Inr tasks"
    by (auto simp: build_shard_tasks_def Let_def)
  note tiled = shard_tasks_tile(1) [OF k assms(9) tasks]
  note facts = build_shard_tasks_facts [OF tasks assms(7,6,9)]
  have "\<forall>t. ?task t \<noteq> None" by (intro allI tasks_return(2) [OF assms(3-5)])
  from run_shards_result [OF tasks assms(8) facts(1) this, of schedule] obtain r files where
    r: "run_shards N T R S V orders cell' config output_dir k jobs dbs schedule = Some (r, files)"
    "case r of Inl e \<Rightarrow> \<exists>t \<in> set tasks. \<exists>e'. ?task t = Some (Inl e')
     | Inr (reports, progress) \<Rightarrow> \<exists>outs. list_all2 (\<lambda>t out. ?task t = Some (Inr out)) tasks outs \<and>
         mset reports = mset (map fst outs) \<and>
         (\<exists>written. mset written = mset outs \<and> files = fold (\<lambda>out files. files ++ snd out) written Map.empty) \<and>
         pg_completed progress = length tasks \<and> pg_failed progress = 0 \<and> active_workers progress = {}"
    by blast
  have run: "extract_shards_to_dir N T R S V orders open_dbs cell config output_dir k jobs schedule =
      Some (rbind r (\<lambda>(reports, progress). Inr (sort_key er_start_epoch reports, progress)), files)"
    using assms(2,6-8) r(1) by (simp add: extract_shards_to_dir_def cell'_def)
  show ?thesis
  proof (cases r)
    case (Inl e)
    with r(2) obtain t e' where "t \<in> set tasks" "?task t = Some (Inl e')" by auto
    with run_shard_task_Inl [OF this(2)] have "\<exists>t \<in> set tasks. \<exists>e'. shard t = Some (Inl e')"
      unfolding shard shard_config_def by blast
    with tasks run tiled show ?thesis unfolding Inl by simp
  next
    case (Inr rp)
    then obtain reports progress where rp: "r = Inr (reports, progress)" by (cases rp) simp
    with r(2) obtain outs written where outs: "list_all2 (\<lambda>t out. ?task t = Some (Inr out)) tasks outs"
      "mset reports = mset (map fst outs)" "mset written = mset outs" "files = fold (\<lambda>out files. files ++ snd out) written Map.empty"
      and progress: "pg_completed progress = length tasks \<and> pg_failed progress = 0 \<and> active_workers progress = {}" by auto
    have parts: "\<exists>packet r. encoded N T R S V orders cell' dbs (shard_config config t) = Some (Inr (packet, r)) \<and>
        out = (r\<lparr>er_output := st_output t\<rparr>, [st_output t \<mapsto> packet]) \<and> er_start_epoch r = st_start_epoch t"
      if "?task t = Some (Inr out)" for t out
      using run_shard_task_Inr [OF that] by metis
    have "map (er_start_epoch \<circ> fst) outs = map st_start_epoch tasks"
    proof (rule nth_equalityI)
      fix i
      assume "i < length (map (er_start_epoch \<circ> fst) outs)"
      then have i: "i < length outs" "i < length tasks" using list_all2_lengthD [OF outs(1)] by simp_all
      then have "?task (tasks ! i) = Some (Inr (outs ! i))" using list_all2_nthD2 [OF outs(1)] by blast
      from parts [OF this] i show "map (er_start_epoch \<circ> fst) outs ! i = map st_start_epoch tasks ! i" by auto
    qed (use list_all2_lengthD [OF outs(1)] in simp)
    then have starts: "sorted_wrt (<) (map er_start_epoch (map fst outs))" using facts(2) by simp
    then have strict: "distinct (map er_start_epoch (map fst outs))" "sorted (map er_start_epoch (map fst outs))"
      unfolding strict_sorted_iff by blast+
    have "inj_on er_start_epoch (set reports)"
      using strict(1) mset_eq_setD [OF outs(2)] by (simp only: distinct_map)
    then have "sort_key er_start_epoch reports = sort_key er_start_epoch (map fst outs)"
      by (rule sort_key_same_mset [OF outs(2)])
    also have "\<dots> = map fst outs" using strict(2) by (rule sort_key_id_if_sorted)
    finally have sorted: "sort_key er_start_epoch reports = map fst outs" .
    have files: "list_all2 (\<lambda>t out. \<exists>packet r. encoded N T R S V orders cell' dbs (shard_config config t) = Some (Inr (packet, r)) \<and>
        fst out = r\<lparr>er_output := st_output t\<rparr> \<and> files (st_output t) = Some packet) tasks outs"
    proof (rule list_all2_all_nthI)
      fix i
      assume i: "i < length tasks"
      with outs(1) have task: "?task (tasks ! i) = Some (Inr (outs ! i))" by (simp add: list_all2_conv_all_nth)
      from parts [OF task] obtain packet rep where p: "encoded N T R S V orders cell' dbs (shard_config config (tasks ! i)) =
          Some (Inr (packet, rep))" "outs ! i = (rep\<lparr>er_output := st_output (tasks ! i)\<rparr>, [st_output (tasks ! i) \<mapsto> packet])" by blast
      have "outs ! i \<in> set written"
        using i list_all2_lengthD [OF outs(1)] mset_eq_setD [OF outs(3)] by simp
      moreover have "snd out (st_output (tasks ! i)) = None \<or> snd out (st_output (tasks ! i)) = Some packet"
        if "out \<in> set written" for out
      proof -
        from that mset_eq_setD [OF outs(3)] obtain j where j: "j < length outs" "out = outs ! j"
          by (auto simp: in_set_conv_nth)
        with outs(1) have "?task (tasks ! j) = Some (Inr out)" "j < length tasks" by (auto simp: list_all2_conv_all_nth)
        from parts [OF this(1)] obtain packet' rep' where q: "out = (rep', [st_output (tasks ! j) \<mapsto> packet'])" by blast
        show ?thesis
        proof (cases "st_output (tasks ! j) = st_output (tasks ! i)")
          case True
          then have "st_start_epoch (tasks ! j) = st_start_epoch (tasks ! i)"
            using facts(3) i \<open>j < length tasks\<close> by (auto dest: shard_path_start)
          with facts(2) i \<open>j < length tasks\<close> have "i = j"
            by (metis (no_types, lifting) distinct_map length_map nth_eq_iff_index_eq nth_map strict_sorted_iff)
          with j(2) p(2) show ?thesis by simp
        qed (simp add: q)
      qed
      ultimately have "files (st_output (tasks ! i)) = Some packet"
        unfolding outs(4) by (intro fold_map_add) (use p(2) in \<open>force+\<close>)
      with p show "\<exists>packet r. encoded N T R S V orders cell' dbs (shard_config config (tasks ! i)) = Some (Inr (packet, r)) \<and>
          fst (outs ! i) = r\<lparr>er_output := st_output (tasks ! i)\<rparr> \<and> files (st_output (tasks ! i)) = Some packet" by simp
    qed (rule list_all2_lengthD [OF outs(1)])
    show ?thesis
      using tasks run progress files tiled by (simp add: rp sorted list_all2_map2 shard)
  qed
qed

lemma ex_shard_tasks: "build_shard_tasks (ec_start_epoch ex_config) (ec_epoch_count ex_config) dir 10 =
    Inr [\<lparr>st_start_epoch = 5, st_epoch_count = 1, st_output = shard_path dir 5 5\<rparr>]"
  by (simp add: ex_config_def build_shard_tasks_def)

theorem shards_extraction_witness:
  "\<exists>reports progress files. extract_shards_to_dir ex_node ex_tx ex_rlp ex_snap ex_view ex_orders (\<lambda>_. Inr ex_dbs) None ex_config
     ''out'' 10 3 [2, 0, 1] = Some (Inr (reports, progress), files)"
proof (rule ex_extracted_data)
  fix data
  assume encoded: "encoded ex_node ex_tx ex_rlp ex_snap ex_view ex_orders None ex_dbs ex_config =
      Some (Inr (data, report_of ex_config ex_extracted data))"
  have "ex_config\<lparr>ec_start_epoch := 5, ec_epoch_count := 1\<rparr> = ex_config" by (simp add: ex_config_def)
  then have ok: "encoded ex_node ex_tx ex_rlp ex_snap ex_view ex_orders (once_set None (cp_cip112_transition_height (ec_chain ex_config)))
      ex_dbs (ex_config\<lparr>ec_start_epoch := 5, ec_epoch_count := 1\<rparr>) \<noteq> Some (Inl e)" for e
    using encoded by (simp add: encoded_once_set)
  from shards_extraction [of "\<lambda>_. Inr ex_dbs" ex_config ex_dbs, OF refl ex_columns ex_events_column(2) ex_range(2) _ _ ex_range(1),
      of 10 3 "''out''" ex_node ex_tx ex_rlp ex_snap ex_view ex_orders None "[2, 0, 1]"]
  show ?thesis
    using ok
    apply (auto simp: ex_shard_tasks split: sum.splits)
    subgoal for r files by (cases r) auto
    done
qed

end
