(* ===== verification/Reward_Patch.thy ===== *)
theory Reward_Patch
  imports Packet_Decode Extract_Types
begin

text \<open>
  \<open>crates/cfxpack/src/bin/patch_pos_reward.rs\<close>: the tool that looks for PoS rewards in a container and
  adds one that is missing.

  A \<open>&str\<close> is the list of its UTF-8 bytes, each as a \<open>char\<close>; the strings the tool looks for are
  ASCII, so searching the bytes is searching the characters. The parsers of hashes, addresses and
  decimal numbers (crate \<open>cfx_types\<close>) are the record \<open>text_lib\<close>. Files are a map from paths to
  contents; what the tool prints to the console is left out, but for the blocks that \<open>scan\<close> prints.
\<close>

record text_lib =
  tx_parse_h256 :: "string \<Rightarrow> h256 option"
  tx_parse_address :: "string \<Rightarrow> address option"
  tx_from_dec_str :: "string \<Rightarrow> u256 option"

definition POS_REF_HEIGHT :: u64 where
  "POS_REF_HEIGHT = 37400000"

subsection \<open>Strings\<close>

text \<open>\<open>str::find\<close>: where the first match starts.\<close>

fun find_str :: "string \<Rightarrow> string \<Rightarrow> nat option" where
  "find_str pat [] = (if pat = [] then Some 0 else None)"
| "find_str pat (c # cs) =
     (if prefix pat (c # cs) then Some 0 else map_option Suc (find_str pat cs))"

definition contains_str :: "string \<Rightarrow> string \<Rightarrow> bool" where
  "contains_str line pat \<longleftrightarrow> find_str pat line \<noteq> None"

definition strip_prefix :: "string \<Rightarrow> string \<Rightarrow> string option" where
  "strip_prefix pre s = (if prefix pre s then Some (drop (length pre) s) else None)"

text \<open>The characters with the Unicode property \<open>White_Space\<close>, in UTF-8.\<close>

definition white_space :: "string list" where
  "white_space =
     [[CHR 0x09], [CHR 0x0A], [CHR 0x0B], [CHR 0x0C], [CHR 0x0D], [CHR 0x20],
      [CHR 0xC2, CHR 0x85], [CHR 0xC2, CHR 0xA0], [CHR 0xE1, CHR 0x9A, CHR 0x80]] @
     map (\<lambda>c. [CHR 0xE2, CHR 0x80, c])
       [CHR 0x80, CHR 0x81, CHR 0x82, CHR 0x83, CHR 0x84, CHR 0x85, CHR 0x86, CHR 0x87, CHR 0x88, CHR 0x89, CHR 0x8A,
        CHR 0xA8, CHR 0xA9, CHR 0xAF] @
     [[CHR 0xE2, CHR 0x81, CHR 0x9F], [CHR 0xE3, CHR 0x80, CHR 0x80]]"

text \<open>Dropping one of some non-empty strings from the front, as long as there is one.\<close>

function trim_front :: "string list \<Rightarrow> string \<Rightarrow> string" where
  "trim_front ws s =
     (case find (\<lambda>w. w \<noteq> [] \<and> prefix w s) ws of
        None \<Rightarrow> s
      | Some w \<Rightarrow> trim_front ws (drop (length w) s))"
  by auto
termination
  by (relation "measure (\<lambda>(ws, s). length s)") (force simp: find_Some_iff dest!: prefix_length_le intro!: diff_less)+

declare trim_front.simps [simp del]

definition trim :: "string \<Rightarrow> string" where
  "trim s = rev (trim_front (map rev white_space) (rev (trim_front white_space s)))"

text \<open>\<open>str::lines\<close>: the line end is \<open>\n\<close> or \<open>\r\n\<close>.\<close>

definition strip_cr :: "string \<Rightarrow> string" where
  "strip_cr line = (if line \<noteq> [] \<and> last line = CHR 13 then butlast line else line)"

function lines_of :: "string \<Rightarrow> string list" where
  "lines_of s =
     (if s = [] then []
      else case dropWhile (\<lambda>c. c \<noteq> CHR 10) s of
             [] \<Rightarrow> [s]
           | c # rest \<Rightarrow> strip_cr (takeWhile (\<lambda>c. c \<noteq> CHR 10) s) # lines_of rest)"
  by auto
termination
proof (relation "measure length", simp, clarsimp)
  fix s rest :: string and c
  assume "dropWhile (\<lambda>c. c \<noteq> CHR 10) s = c # rest"
  then show "length rest < length s" using length_dropWhile_le [of "\<lambda>c. c \<noteq> CHR 10" s] by simp
qed

declare lines_of.simps [simp del]

text \<open>\<open>String::from_utf8\<close> accepts well-formed UTF-8.\<close>

definition continuation :: "u8 \<Rightarrow> bool" where
  "continuation b \<longleftrightarrow> 0x80 \<le> b \<and> b \<le> 0xBF"

fun valid_utf8 :: "bytes \<Rightarrow> bool" where
  "valid_utf8 [] \<longleftrightarrow> True"
| "valid_utf8 (a # bs) \<longleftrightarrow>
     (if a \<le> 0x7F then valid_utf8 bs
      else case bs of
        [] \<Rightarrow> False
      | b # cs \<Rightarrow>
          if 0xC2 \<le> a \<and> a \<le> 0xDF then continuation b \<and> valid_utf8 cs
          else case cs of
            [] \<Rightarrow> False
          | c # ds \<Rightarrow>
              if 0xE0 \<le> a \<and> a \<le> 0xEF
              then continuation b \<and> (a = 0xE0 \<longrightarrow> 0xA0 \<le> b) \<and> (a = 0xED \<longrightarrow> b \<le> 0x9F) \<and> continuation c \<and> valid_utf8 ds
              else case ds of
                [] \<Rightarrow> False
              | d # es \<Rightarrow> 0xF0 \<le> a \<and> a \<le> 0xF4 \<and> continuation b \<and> (a = 0xF0 \<longrightarrow> 0x90 \<le> b) \<and> (a = 0xF4 \<longrightarrow> b \<le> 0x8F) \<and>
                  continuation c \<and> continuation d \<and> valid_utf8 es)"

definition read_to_string :: "(string \<Rightarrow> bytes option) \<Rightarrow> string \<Rightarrow> string option" where
  "read_to_string fs p =
     (case fs p of
        None \<Rightarrow> None
      | Some bs \<Rightarrow> if valid_utf8 bs then Some (map (\<lambda>b. char_of (unat b)) bs) else None)"

subsection \<open>The reward in the JSON file\<close>

definition extract_json_string :: "string \<Rightarrow> string \<Rightarrow> string option" where
  "extract_json_string line key =
     (let pattern = [CHR 0x22] @ key @ [CHR 0x22, CHR '':'']
      in case find_str pattern line of
           None \<Rightarrow> None
         | Some pos \<Rightarrow>
             (let rest = drop (pos + length pattern) line;
                  rest = dropWhile (\<lambda>c. c = CHR 0x22) (trim rest)
              in map_option (\<lambda>e. take e rest) (find_str [CHR 0x22] rest)))"

definition without_0x :: "string \<Rightarrow> string" where
  "without_0x s = (case strip_prefix ''0x'' s of None \<Rightarrow> s | Some t \<Rightarrow> t)"

definition quoted :: "string \<Rightarrow> string" where
  "quoted key = [CHR 0x22] @ key @ [CHR 0x22]"

definition reward_of_line :: "text_lib \<Rightarrow> string \<Rightarrow> pos_reward_account pack_result" where
  "reward_of_line L line =
     rbind (ok_or (extract_json_string line ''address'') (Bail ''missing address'')) (\<lambda>addr_str.
     rbind (ok_or (extract_json_string line ''pos_identifier'') (Bail ''missing pos_identifier'')) (\<lambda>id_str.
     rbind (ok_or (extract_json_string line ''reward'') (Bail ''missing reward'')) (\<lambda>reward_str.
     rbind (ok_or (tx_parse_address L (without_0x addr_str)) (Bail ''parse address'')) (\<lambda>address.
     rbind (ok_or (tx_parse_h256 L (without_0x id_str)) (Bail ''parse pos_identifier'')) (\<lambda>pos_identifier.
     rbind (ok_or (tx_from_dec_str L reward_str) (Bail ''parse reward'')) (\<lambda>reward.
       Inr \<lparr>pra_address = address, pra_pos_identifier = pos_identifier, pra_reward = reward\<rparr>))))))"

text \<open>One turn of the loop over the lines.\<close>

definition reward_line :: "text_lib \<Rightarrow> string \<Rightarrow> pos_reward_account list \<times> h256 \<Rightarrow>
    (pos_reward_account list \<times> h256) pack_result" where
  "reward_line L line = (\<lambda>(account_rewards, exec_hash).
     let line = trim line
     in rbind (if contains_str line (quoted ''execution_epoch_hash'')
               then case extract_json_string line ''execution_epoch_hash'' of
                      None \<Rightarrow> Inr exec_hash
                    | Some hash_str \<Rightarrow> ok_or (tx_parse_h256 L (without_0x hash_str)) (Bail ''parse execution_epoch_hash'')
               else Inr exec_hash) (\<lambda>exec_hash.
        if contains_str line (quoted ''address'') \<and> contains_str line (quoted ''pos_identifier'') \<and>
          contains_str line (quoted ''reward'')
        then rbind (reward_of_line L line) (\<lambda>account. Inr (account_rewards @ [account], exec_hash))
        else Inr (account_rewards, exec_hash)))"

fun reward_lines :: "text_lib \<Rightarrow> string list \<Rightarrow> pos_reward_account list \<times> h256 \<Rightarrow>
    (pos_reward_account list \<times> h256) pack_result" where
  "reward_lines L [] acc = Inr acc"
| "reward_lines L (line # ls) acc = rbind (reward_line L line acc) (reward_lines L ls)"

definition parse_reward_json :: "text_lib \<Rightarrow> string \<Rightarrow> pos_reward_entry pack_result" where
  "parse_reward_json L json =
     rbind (reward_lines L (lines_of json) ([], H256_zero)) (\<lambda>(account_rewards, exec_hash).
       Inr \<lparr>pre_account_rewards = account_rewards, pre_execution_epoch_hash = exec_hash\<rparr>)"

subsection \<open>Injecting the reward\<close>

text \<open>The reward goes to the first pivot of the epoch; \<open>None\<close> if the packet has none.\<close>

fun push_reward :: "pos_reward_entry \<Rightarrow> u64 \<Rightarrow> 't block list \<Rightarrow> 't block list option" where
  "push_reward entry to_epoch [] = None"
| "push_reward entry to_epoch (b # bs) =
     (if b_epoch b = to_epoch \<and> b_flags b AND FLAG_PIVOT \<noteq> 0
      then Some (b\<lparr>b_pos_rewards := b_pos_rewards b @ [entry\<lparr>pre_execution_epoch_hash := b_hash b\<rparr>]\<rparr> # bs)
      else map_option ((#) b) (push_reward entry to_epoch bs))"

definition with_reward :: "pos_reward_entry \<Rightarrow> u64 \<Rightarrow> 't packet \<Rightarrow> 't packet" where
  "with_reward entry to_epoch packet =
     (case push_reward entry to_epoch (p_blocks packet) of
        None \<Rightarrow> packet
      | Some bs \<Rightarrow> packet\<lparr>p_blocks := bs\<rparr>)"

text \<open>\<open>out[pos..pos + 8].copy_from_slice(&bs)\<close>, with the panic of the slice.\<close>

definition store_at :: "bytes \<Rightarrow> nat \<Rightarrow> bytes \<Rightarrow> bytes pack_result" where
  "store_at out pos bs =
     (if pos + length bs \<le> length out then Inr (copy_into out pos bs)
      else Inl (Pack_Panic ''range end index out of range''))"

text \<open>One turn of the loop over the directory: the output with the packet of entry \<open>i\<close>.\<close>

definition inject_group ::
  "('t, 'acc, 'auth) tx_lib \<Rightarrow> ('r, 'acc, 'auth) rlp_lib \<Rightarrow> snap_lib \<Rightarrow> pos_reward_entry \<Rightarrow> u64 \<Rightarrow> bytes \<Rightarrow> nat \<Rightarrow>
   u64 \<times> u64 \<times> nat \<times> nat \<Rightarrow> bytes \<times> bool \<Rightarrow> (bytes \<times> bool) pack_result" where
  "inject_group T R S reward_entry to_epoch data i = (\<lambda>(start, count, offset, len) (out, modified).
     rbind (slice_of data offset (usize_add offset len)) (\<lambda>packet_data.
     rbind (with_message (''decode group starting at epoch '' @ dec_digits (unat start))
              (decode_packet_ext T R S packet_data POS_REF_HEIGHT)) (\<lambda>packet.
     let modified = (modified \<or> push_reward reward_entry to_epoch (p_blocks packet) \<noteq> None);
         packet = with_reward reward_entry to_epoch packet
     in rbind (with_message (''re-encode group starting at epoch '' @ dec_digits (unat start)) (encode_packet T R S packet))
          (\<lambda>new_packet_data.
        let new_offset = length out;
            new_length = length new_packet_data;
            out = out @ new_packet_data;
            dir_entry_offset = 24 + i * 32
        in rbind (store_at out (dir_entry_offset + 16) (to_le_bytes 8 (of_nat new_offset :: u64))) (\<lambda>out.
           rbind (store_at out (dir_entry_offset + 24) (to_le_bytes 8 (of_nat new_length :: u64))) (\<lambda>out.
             Inr (out, modified)))))))"

fun inject_groups ::
  "('t, 'acc, 'auth) tx_lib \<Rightarrow> ('r, 'acc, 'auth) rlp_lib \<Rightarrow> snap_lib \<Rightarrow> pos_reward_entry \<Rightarrow> u64 \<Rightarrow> bytes \<Rightarrow> nat \<Rightarrow>
   (u64 \<times> u64 \<times> nat \<times> nat) list \<Rightarrow> bytes \<times> bool \<Rightarrow> (bytes \<times> bool) pack_result" where
  "inject_groups T R S reward_entry to_epoch data i [] acc = Inr acc"
| "inject_groups T R S reward_entry to_epoch data i (e # es) acc =
     rbind (inject_group T R S reward_entry to_epoch data i e acc)
       (inject_groups T R S reward_entry to_epoch data (Suc i) es)"

text \<open>The check of the file that was written: every packet of it is decoded.\<close>

definition check_groups ::
  "('t, 'acc, 'auth) tx_lib \<Rightarrow> ('r, 'acc, 'auth) rlp_lib \<Rightarrow> snap_lib \<Rightarrow> bytes \<Rightarrow> 't packet list pack_result" where
  "check_groups T R S data =
     rbind (parse_directory data) (traverse (\<lambda>(start, count, offset, len).
       rbind (slice_of data offset (usize_add offset len)) (\<lambda>p.
         with_message (''verify group starting at epoch '' @ dec_digits (unat start)) (decode_packet_ext T R S p POS_REF_HEIGHT))))"

text \<open>\<open>args\<close> are the arguments behind the command: the container, the JSON file and the epoch.\<close>

definition arg_at :: "string list \<Rightarrow> nat \<Rightarrow> string option" where
  "arg_at args i = (if i < length args then Some (args ! i) else None)"

definition injected ::
  "('t, 'acc, 'auth) tx_lib \<Rightarrow> ('r, 'acc, 'auth) rlp_lib \<Rightarrow> snap_lib \<Rightarrow> text_lib \<Rightarrow> (string \<Rightarrow> bytes option) \<Rightarrow> string list \<Rightarrow>
   (string \<times> bytes \<times> bool) pack_result" where
  "injected T R S L fs args =
     rbind (ok_or (arg_at args 0) (Bail ''missing cfxpack path'')) (\<lambda>cfxpack_path.
     rbind (ok_or (arg_at args 1) (Bail ''missing json path'')) (\<lambda>json_path.
     rbind (ok_or (arg_at args 2) (Bail ''missing to_epoch'')) (\<lambda>to_epoch_str.
     rbind (ok_or (parse_u64 to_epoch_str) (Bail ''parse to_epoch'')) (\<lambda>to_epoch.
     rbind (ok_or (read_to_string fs json_path) (Bail ''read JSON file'')) (\<lambda>json_str.
     rbind (parse_reward_json L json_str) (\<lambda>reward_entry.
     rbind (ok_or (fs cfxpack_path) (Bail ''read cfxpack file'')) (\<lambda>data.
     rbind (parse_directory data) (\<lambda>entries.
     let header_and_dir_len = (case entries of [] \<Rightarrow> length data | (_, _, offset, _) # _ \<Rightarrow> offset)
     in rbind (slice_of data 0 header_and_dir_len) (\<lambda>head.
        rbind (inject_groups T R S reward_entry to_epoch data 0 entries (head, False)) (\<lambda>(out, modified).
          Inr (cfxpack_path, out, modified)))))))))))"

definition inject ::
  "('t, 'acc, 'auth) tx_lib \<Rightarrow> ('r, 'acc, 'auth) rlp_lib \<Rightarrow> snap_lib \<Rightarrow> text_lib \<Rightarrow> (string \<Rightarrow> bytes option) \<Rightarrow> string list \<Rightarrow>
   (string \<Rightarrow> bytes option) \<times> unit pack_result" where
  "inject T R S L fs args =
     (case injected T R S L fs args of
        Inl e \<Rightarrow> (fs, Inl e)
      | Inr (cfxpack_path, out, modified) \<Rightarrow>
          if modified
          then (fs(cfxpack_path @ ''.patched'' \<mapsto> out), rbind (check_groups T R S out) (\<lambda>_. Inr ()))
          else (fs, Inr ()))"

subsection \<open>Scanning a container\<close>

definition is_listed :: "h256 option \<Rightarrow> 't block \<Rightarrow> bool" where
  "is_listed filter_hash b \<longleftrightarrow>
     (case filter_hash of
        None \<Rightarrow> b_pos_rewards b \<noteq> [] \<or> b_unlock_events b \<noteq> []
      | Some h \<Rightarrow> b_hash b = h)"

text \<open>The blocks that are printed, up to an error.\<close>

fun scan_groups ::
  "('t, 'acc, 'auth) tx_lib \<Rightarrow> ('r, 'acc, 'auth) rlp_lib \<Rightarrow> snap_lib \<Rightarrow> h256 option \<Rightarrow> bytes \<Rightarrow> (u64 \<times> u64 \<times> nat \<times> nat) list \<Rightarrow>
   't block list \<times> unit pack_result" where
  "scan_groups T R S filter_hash data [] = ([], Inr ())"
| "scan_groups T R S filter_hash data ((start, count, offset, len) # es) =
     (case rbind (slice_of data offset (usize_add offset len)) (\<lambda>p.
             with_message (''decode group starting at epoch '' @ dec_digits (unat start)) (decode_packet_ext T R S p POS_REF_HEIGHT)) of
        Inl e \<Rightarrow> ([], Inl e)
      | Inr packet \<Rightarrow>
          (let (printed, r) = scan_groups T R S filter_hash data es
           in (filter (is_listed filter_hash) (p_blocks packet) @ printed, r)))"

definition scan_rewards ::
  "('t, 'acc, 'auth) tx_lib \<Rightarrow> ('r, 'acc, 'auth) rlp_lib \<Rightarrow> snap_lib \<Rightarrow> text_lib \<Rightarrow> (string \<Rightarrow> bytes option) \<Rightarrow> string list \<Rightarrow>
   't block list \<times> unit pack_result" where
  "scan_rewards T R S L fs args =
     (case rbind (ok_or (arg_at args 0) (Bail ''missing file path'')) (\<lambda>path.
           rbind (case arg_at args 1 of
                    None \<Rightarrow> Inr None
                  | Some s \<Rightarrow> (case tx_parse_h256 L (without_0x s) of
                      None \<Rightarrow> Inl (Pack_Panic ''parse filter hash'')
                    | Some h \<Rightarrow> Inr (Some h))) (\<lambda>filter_hash.
           rbind (ok_or (fs path) (Bail ''read cfxpack file'')) (\<lambda>data.
           rbind (parse_directory data) (\<lambda>entries. Inr (filter_hash, data, entries))))) of
        Inl e \<Rightarrow> ([], Inl e)
      | Inr (filter_hash, data, entries) \<Rightarrow> scan_groups T R S filter_hash data entries)"

end
