(* ===== verification/Reward_Patch_Correct.thy ===== *)
theory Reward_Patch_Correct
  imports Reward_Patch Container_Correct Packet_Plain Packet_Decoded
begin

text \<open>
  The tool rewrites the directory in place while it appends the new packets. The file it builds is the
  one that the writer makes of the new packets.
\<close>

subsection \<open>The container\<close>

definition container_header :: "u64 \<Rightarrow> nat \<Rightarrow> bytes" where
  "container_header sh n = MAGIC @ to_le_bytes 4 FORMAT_VERSION @ to_le_bytes 4 (of_nat n :: u32)
     @ to_le_bytes 4 (ucast sh :: u32) @ to_le_bytes 4 (0 :: u32)"

lemma length_container_header [simp]: "length (container_header sh n) = 24"
  by (simp add: container_header_def)

lemma container_bytes_eq:
  assumes "length ps < 2 ^ 32"
  shows "container_bytes sh (builder_of ps) = container_header sh (length ps) @
     write_directory (of_nat (24 + 32 * length ps)) (map entry_of ps) @ concat (map po_bytes ps)"
proof -
  have "(ucast (of_nat (length ps) :: u32) :: u64) = of_nat (length ps)"
    using assms by (simp add: word_unat_eq_iff unsigned_of_nat unsigned_ucast_eq take_bit_nat_eq_self)
  then show ?thesis
    by (simp add: container_bytes_def Let_def container_header_def CONTAINER_HEADER_LEN_def DIR_ENTRY_LEN_def)
qed

lemma store_at_middle:
  "length X = length Y \<Longrightarrow> n = length A \<Longrightarrow> store_at (A @ X @ B) n Y = Inr (A @ Y @ B)"
  by (simp add: store_at_def copy_into_def)

text \<open>The packet of a group with the reward, and whether it took it.\<close>

definition reencoded ::
  "('t, 'acc, 'auth) tx_lib \<Rightarrow> ('r, 'acc, 'auth) rlp_lib \<Rightarrow> snap_lib \<Rightarrow> pos_reward_entry \<Rightarrow> u64 \<Rightarrow> packet_out \<Rightarrow>
   (bytes \<times> bool) pack_result" where
  "reencoded T R S entry to_epoch p =
     rbind (with_message (''decode group starting at epoch '' @ dec_digits (unat (po_start_epoch p)))
              (decode_packet_ext T R S (po_bytes p) POS_REF_HEIGHT)) (\<lambda>packet.
     rbind (with_message (''re-encode group starting at epoch '' @ dec_digits (unat (po_start_epoch p)))
              (encode_packet T R S (with_reward entry to_epoch packet))) (\<lambda>d.
       Inr (d, push_reward entry to_epoch (p_blocks packet) \<noteq> None)))"

definition with_bytes :: "packet_out list \<Rightarrow> bytes list \<Rightarrow> packet_out list" where
  "with_bytes ps ds = map2 (\<lambda>p d. p\<lparr>po_bytes := d\<rparr>) ps ds"

lemma with_bytes_simps [simp]:
  "with_bytes [] [] = []"
  "with_bytes (p # ps) (d # ds) = p\<lparr>po_bytes := d\<rparr> # with_bytes ps ds"
  "length ps = length ds \<Longrightarrow> length (with_bytes ps ds) = length ds"
  "length ps = length ds \<Longrightarrow> map po_bytes (with_bytes ps ds) = ds"
proof -
  show "length ps = length ds \<Longrightarrow> map po_bytes (with_bytes ps ds) = ds"
    unfolding with_bytes_def by (induction ps ds rule: list_induct2) auto
qed (simp_all add: with_bytes_def)

lemma inject_group_step:
  assumes slice: "slice_of data offset (usize_add offset len) = Inr (po_bytes p)"
    and A: "length A = 24 + 32 * i"
  shows "inject_group T R S entry ep data i (po_start_epoch p, count, offset, len)
      (A @ (to_le_bytes 8 s @ to_le_bytes 8 c @ to_le_bytes 8 old_off @ to_le_bytes 8 old_len @ D) @ pay, m) =
    rbind (reencoded T R S entry ep p) (\<lambda>(d, found).
      Inr (A @ (to_le_bytes 8 s @ to_le_bytes 8 c @
          to_le_bytes 8 (of_nat (length A + 32 + length D + length pay) :: u64) @ to_le_bytes 8 (of_nat (length d) :: u64) @ D) @
        pay @ d, m \<or> found))"
proof -
  let ?off = "to_le_bytes 8 (of_nat (length A + 32 + length D + length pay) :: u64)"
  have first: "store_at (A @ to_le_bytes 8 s @ to_le_bytes 8 c @ to_le_bytes 8 old_off @ to_le_bytes 8 old_len @ D @ pay @ d) (24 + i * 32 + 16) ?off =
      Inr (A @ to_le_bytes 8 s @ to_le_bytes 8 c @ ?off @ to_le_bytes 8 old_len @ D @ pay @ d)" for d
    using store_at_middle [of "to_le_bytes 8 old_off" ?off "24 + i * 32 + 16" "A @ to_le_bytes 8 s @ to_le_bytes 8 c"
        "to_le_bytes 8 old_len @ D @ pay @ d"] A by simp
  have second: "store_at (A @ to_le_bytes 8 s @ to_le_bytes 8 c @ ?off @ to_le_bytes 8 old_len @ D @ pay @ d) (24 + i * 32 + 24) (to_le_bytes 8 (of_nat (length d) :: u64)) =
      Inr (A @ to_le_bytes 8 s @ to_le_bytes 8 c @ ?off @ to_le_bytes 8 (of_nat (length d) :: u64) @ D @ pay @ d)" for d
    using store_at_middle [of "to_le_bytes 8 old_len" "to_le_bytes 8 (of_nat (length d) :: u64)" "24 + i * 32 + 24"
        "A @ to_le_bytes 8 s @ to_le_bytes 8 c @ ?off" "D @ pay @ d"] A by simp
  have len: "length (A @ to_le_bytes 8 s @ to_le_bytes 8 c @ to_le_bytes 8 old_off @ to_le_bytes 8 old_len @ D @ pay) =
      length A + 32 + length D + length pay" by simp
  show ?thesis
    unfolding inject_group_def reencoded_def prod.case slice Let_def append_assoc len
    using first second by (simp add: rbind_def split: sum.split)
qed

lemma inject_groups_written:
  assumes "length data < 2 ^ 64"
  shows "data = pre @ concat (map po_bytes ps) \<Longrightarrow> length A = 24 + 32 * i \<Longrightarrow>
    inject_groups T R S entry ep data i (layout (length pre) (map entry_of ps))
      (A @ write_directory off (map entry_of ps) @ pay, m) =
    rbind (traverse (reencoded T R S entry ep) ps) (\<lambda>rs.
      Inr (A @ write_directory (of_nat (length A + 32 * length ps + length pay))
                 (map entry_of (with_bytes ps (map fst rs))) @ pay @ concat (map fst rs),
           m \<or> list_ex snd rs))"
proof (induction ps arbitrary: pre A i off pay m)
  case (Cons p ps)
  let ?e = "entry_of p" and ?D = "write_directory (off + de_length (entry_of p)) (map entry_of ps)"
  let ?o = "of_nat (length A + 32 * length (p # ps) + length pay) :: u64"
  have len: "unat (de_length ?e) = length (po_bytes p)" "length pre + length (po_bytes p) < 2 ^ 64"
    using Cons.prems(1) assms by (simp_all add: entry_of_def unsigned_of_nat take_bit_nat_eq_self)
  have slice: "slice_of data (length pre) (usize_add (length pre) (length (po_bytes p))) = Inr (po_bytes p)"
    using Cons.prems(1) len(2) slice_of_middle [of pre "length pre" _ "po_bytes p"] by simp
  have step: "inject_group T R S entry ep data i (de_start_epoch ?e, de_epoch_count ?e, length pre, length (po_bytes p))
      (A @ write_directory off (map entry_of (p # ps)) @ pay, m) =
    rbind (reencoded T R S entry ep p) (\<lambda>(d, found).
      Inr ((A @ to_le_bytes 8 (de_start_epoch ?e) @ to_le_bytes 8 (de_epoch_count ?e) @ to_le_bytes 8 ?o @
        to_le_bytes 8 (of_nat (length d) :: u64)) @ ?D @ pay @ d, m \<or> found))"
    using inject_group_step [OF slice Cons.prems(2), where count = "de_epoch_count ?e" and s = "de_start_epoch ?e"
        and c = "de_epoch_count ?e" and D = ?D and pay = pay
        and T = T and R = R and S = S and entry = entry and ep = ep and m = m and old_off = off and old_len = "de_length ?e"]
    by (simp add: entry_of_def add.assoc)
  have rest: "inject_groups T R S entry ep data (Suc i) (layout (length pre + length (po_bytes p)) (map entry_of ps))
      ((A @ to_le_bytes 8 (de_start_epoch ?e) @ to_le_bytes 8 (de_epoch_count ?e) @ to_le_bytes 8 ?o @
        to_le_bytes 8 (of_nat (length d) :: u64)) @ ?D @ pay @ d, m') =
    rbind (traverse (reencoded T R S entry ep) ps) (\<lambda>rs.
      Inr (A @ (to_le_bytes 8 (de_start_epoch ?e) @ to_le_bytes 8 (de_epoch_count ?e) @ to_le_bytes 8 ?o @
        to_le_bytes 8 (of_nat (length d) :: u64) @ write_directory (?o + of_nat (length d)) (map entry_of (with_bytes ps (map fst rs)))) @
        pay @ d @ concat (map fst rs), m' \<or> list_ex snd rs))" for d m'
  proof -
    have "(of_nat (length (A @ to_le_bytes 8 (de_start_epoch ?e) @ to_le_bytes 8 (de_epoch_count ?e) @ to_le_bytes 8 ?o @
        to_le_bytes 8 (of_nat (length d) :: u64)) + 32 * length ps + length (pay @ d)) :: u64) = ?o + of_nat (length d)"
      by simp
    with Cons.IH [of "pre @ po_bytes p"
      "A @ to_le_bytes 8 (de_start_epoch ?e) @ to_le_bytes 8 (de_epoch_count ?e) @ to_le_bytes 8 ?o @ to_le_bytes 8 (of_nat (length d) :: u64)"
      "Suc i" "off + de_length ?e" "pay @ d" m'] Cons.prems
    show ?thesis by (simp add: add.assoc)
  qed
  show ?case
  proof (cases "reencoded T R S entry ep p")
    case (Inl e)
    then show ?thesis unfolding list.map layout.simps len(1) inject_groups.simps step [unfolded list.map] by (simp add: rbind_def)
  next
    case (Inr r)
    obtain d found where r: "r = (d, found)" by (cases r)
    have new: "write_directory ?o (map entry_of (with_bytes (p # ps) (map fst (r # rs)))) =
        to_le_bytes 8 (de_start_epoch ?e) @ to_le_bytes 8 (de_epoch_count ?e) @ to_le_bytes 8 ?o @
        to_le_bytes 8 (of_nat (length d) :: u64) @ write_directory (?o + of_nat (length d)) (map entry_of (with_bytes ps (map fst rs)))" for rs :: "(bytes \<times> bool) list"
      by (simp add: r entry_of_def)
    have tr: "traverse (reencoded T R S entry ep) (p # ps) = rbind (traverse (reencoded T R S entry ep) ps) (\<lambda>rs. Inr (r # rs))"
      by (simp add: Inr)
    have "inject_groups T R S entry ep data i (layout (length pre) (map entry_of (p # ps)))
        (A @ write_directory off (map entry_of (p # ps)) @ pay, m) =
      inject_groups T R S entry ep data (Suc i) (layout (length pre + length (po_bytes p)) (map entry_of ps))
        ((A @ to_le_bytes 8 (de_start_epoch ?e) @ to_le_bytes 8 (de_epoch_count ?e) @ to_le_bytes 8 ?o @
          to_le_bytes 8 (of_nat (length d) :: u64)) @ ?D @ pay @ d, m \<or> found)"
      using step by (simp add: len(1) Inr r)
    with new show ?thesis unfolding tr rest by (simp add: rbind_def r split: sum.split)
  qed
qed (simp add: with_bytes_def)

lemma injected_container:
  assumes "length ps < 2 ^ 32" "24 + 32 * length ps + packets_size ps < 2 ^ 64"
    and "arg_at args 0 = Some path" "arg_at args 1 = Some json" "arg_at args 2 = Some number" "parse_u64 number = Some ep"
    and "read_to_string fs json = Some json_str" "parse_reward_json L json_str = Inr entry"
    and "fs path = Some (container_bytes sh (builder_of ps))"
  shows "injected T R S L fs args = rbind (traverse (reencoded T R S entry ep) ps) (\<lambda>rs.
    Inr (path, container_bytes sh (builder_of (with_bytes ps (map fst rs))), list_ex snd rs))"
proof -
  let ?n = "24 + 32 * length ps" and ?es = "map entry_of ps"
  let ?data = "container_bytes sh (builder_of ps)"
  let ?hdr = "container_header sh (length ps)"
  let ?pre = "?hdr @ write_directory (of_nat ?n) ?es"
  note data = container_bytes_eq [OF assms(1)]
  have pre: "?data = ?pre @ concat (map po_bytes ps)" "length ?pre = ?n" by (simp_all add: data)
  have len: "length ?data = ?n + packets_size ps" by (simp add: data length_concat comp_def)
  with assms(2) have small: "length ?data < 2 ^ 64" by simp
  have head: "(case layout ?n ?es of [] \<Rightarrow> length ?data | (_, _, offset, _) # _ \<Rightarrow> offset) = ?n"
    using len by (cases ps) auto
  have slice: "slice_of ?data 0 ?n = Inr ?pre"
    using pre by (metis append_Nil list.size(3) plus_nat.add_0 slice_of_middle)
  have start: "?pre = ?hdr @ write_directory (of_nat ?n) ?es @ []" by simp
  have groups: "inject_groups T R S entry ep ?data 0 (layout ?n ?es) (?pre, False) =
      rbind (traverse (reencoded T R S entry ep) ps) (\<lambda>rs.
        Inr (?hdr @ write_directory (of_nat ?n) (map entry_of (with_bytes ps (map fst rs))) @ concat (map fst rs),
             list_ex snd rs))"
    using inject_groups_written [OF small pre(1), of ?hdr 0 T R S entry ep "of_nat ?n" "[]" False]
    unfolding pre(2) start by simp
  have same: "?hdr @ write_directory (of_nat ?n) (map entry_of (with_bytes ps (map fst rs))) @ concat (map fst rs) =
      container_bytes sh (builder_of (with_bytes ps (map fst rs)))"
    if "traverse (reencoded T R S entry ep) ps = Inr rs" for rs
  proof -
    from that have "length ps = length (map fst rs)" by (simp add: traverse_Inr_iff list_all2_lengthD)
    then show ?thesis using assms(1) container_bytes_eq [of "with_bytes ps (map fst rs)" sh] by simp
  qed
  show ?thesis
    unfolding injected_def
    using assms(3-9) container_directory(1) [OF assms(1,2), of sh] slice groups same
    by (auto simp: head Let_def rbind_def split: sum.split)
qed

lemma traverse_layout:
  assumes "length data < 2 ^ 64"
  shows "data = pre @ concat (map po_bytes ps) \<Longrightarrow>
    traverse (\<lambda>(s, c, offset, len). rbind (slice_of data offset (usize_add offset len)) (f s)) (layout (length pre) (map entry_of ps)) =
    traverse (\<lambda>p. f (po_start_epoch p) (po_bytes p)) ps"
proof (induction ps arbitrary: pre)
  case (Cons p ps)
  have len: "unat (de_length (entry_of p)) = length (po_bytes p)" "length pre + length (po_bytes p) < 2 ^ 64"
    using Cons.prems assms by (simp_all add: entry_of_def unsigned_of_nat take_bit_nat_eq_self)
  have slice: "slice_of data (length pre) (usize_add (length pre) (length (po_bytes p))) = Inr (po_bytes p)"
    using Cons.prems len(2) slice_of_middle [of pre "length pre" _ "po_bytes p"] by simp
  have "traverse (\<lambda>(s, c, offset, len). rbind (slice_of data offset (usize_add offset len)) (f s))
      (layout (length pre + length (po_bytes p)) (map entry_of ps)) = traverse (\<lambda>p. f (po_start_epoch p) (po_bytes p)) ps"
    using Cons.IH [of "pre @ po_bytes p"] Cons.prems by simp
  then show ?case by (simp add: len(1) slice) (simp add: entry_of_def)
qed simp

lemma check_container:
  assumes "length qs < 2 ^ 32" "24 + 32 * length qs + packets_size qs < 2 ^ 64"
  shows "check_groups T R S (container_bytes sh (builder_of qs)) =
    traverse (\<lambda>q. with_message (''verify group starting at epoch '' @ dec_digits (unat (po_start_epoch q)))
      (decode_packet_ext T R S (po_bytes q) POS_REF_HEIGHT)) qs"
proof -
  let ?data = "container_bytes sh (builder_of qs)"
  have data: "?data = (container_header sh (length qs) @ write_directory (of_nat (24 + 32 * length qs)) (map entry_of qs)) @
      concat (map po_bytes qs)" using container_bytes_eq [OF assms(1)] by simp
  then have "length ?data < 2 ^ 64" using assms(2) by (simp add: length_concat comp_def)
  from traverse_layout [OF this data, of "\<lambda>start p. with_message (''verify group starting at epoch '' @ dec_digits (unat start))
      (decode_packet_ext T R S p POS_REF_HEIGHT)"]
  show ?thesis by (simp add: check_groups_def container_directory(1) [OF assms])
qed

subsection \<open>The packets\<close>

text \<open>
  A decoded packet keeps its references when it is encoded again: a block has one for every
  transaction, and the encoder takes them as they are.
\<close>

lemma tx_refs_given:
  "length (b_transaction_refs b) = length (b_transactions b) \<Longrightarrow>
   tx_refs T b i txs s = (map (\<lambda>k. b_transaction_refs b ! (i + k)) [0..<length txs], s)"
proof (induction txs arbitrary: i)
  case (Cons tx txs)
  have "[0..<length (tx # txs)] = 0 # map Suc [0..<length txs]" by (simp add: map_Suc_upt upt_conv_Cons del: upt_Suc)
  with Cons show ?case by (simp add: Let_def comp_def del: upt_Suc)
qed simp

lemma get_ref_map: "get_ref prev i j = Some tx \<Longrightarrow> get_ref (map (map f) prev) i j = Some (f tx)"
  by (auto simp: get_ref_def split: if_splits)

lemma resolve_held:
  assumes "refs_hold prev txs refs"
  shows "those_options (map2 (resolve T (map (map (canonical_tx T)) prev)) txs refs) = Some (map (canonical_tx T) txs)"
proof -
  have "map2 (resolve T (map (map (canonical_tx T)) prev)) txs refs = map Some (map (canonical_tx T) txs)"
    using assms unfolding refs_hold_def
  proof (induction txs refs rule: list_all2_induct)
    case (Cons tx txs r refs)
    have "resolve T (map (map (canonical_tx T)) prev) tx r = Some (canonical_tx T tx)"
    proof (cases r)
      case (Some ij)
      obtain i j where "r = Some (i, j)" using Some by (cases ij) simp
      with Cons(1) show ?thesis by (simp add: resolve_def get_ref_map)
    qed (simp add: resolve_def)
    with Cons show ?case by simp
  qed simp
  then show ?thesis by (simp add: comp_def)
qed

definition refs_complete :: "'t list list \<Rightarrow> 't block list \<Rightarrow> bool" where
  "refs_complete prev bs \<longleftrightarrow>
     (\<forall>k < length bs. refs_hold (prev @ map b_transactions (take k bs)) (b_transactions (bs ! k)) (b_transaction_refs (bs ! k)))"

lemma refs_complete_Cons [simp]:
  "refs_complete prev (b # bs) \<longleftrightarrow>
     refs_hold prev (b_transactions b) (b_transaction_refs b) \<and> refs_complete (prev @ [b_transactions b]) bs"
  unfolding refs_complete_def by (auto simp: less_Suc_eq_0_disj)

lemma refs_hold_small:
  assumes "refs_hold prev txs refs" "length prev < 2 ^ 64" "\<forall>xs \<in> set prev. length xs < 2 ^ 64"
  shows "refs_small refs"
  unfolding refs_small_def
proof (intro allI impI)
  fix i j assume "Some (i, j) \<in> set refs"
  then obtain k where k: "k < length refs" "refs ! k = Some (i, j)" by (auto simp: in_set_conv_nth)
  with assms(1) have "get_ref prev i j = Some (txs ! k)"
    by (simp add: refs_hold_def list_all2_conv_all_nth)
  then have "i < length prev" "j < length (prev ! i)" by (auto simp: get_ref_def split: if_splits)
  with assms(2,3) show "i < 2 ^ 64 \<and> j < 2 ^ 64" by (meson less_trans nth_mem)
qed

lemma expected_given:
  "refs_complete prev bs \<Longrightarrow> length prev + length bs < 2 ^ 64 \<Longrightarrow> \<forall>xs \<in> set prev. length xs < 2 ^ 64 \<Longrightarrow>
   \<forall>b \<in> set bs. length (b_transactions b) < 2 ^ 64 \<Longrightarrow>
   refs_fit T bs s \<and> expected_blocks T bs s (map (map (canonical_tx T)) prev) =
     Some (map (\<lambda>b. (map (canonical_tx T) (b_transactions b), b_transaction_refs b)) bs)"
proof (induction bs arbitrary: prev)
  case (Cons b bs)
  then have hold: "refs_hold prev (b_transactions b) (b_transaction_refs b)" by simp
  then have len: "length (b_transaction_refs b) = length (b_transactions b)"
    by (simp add: refs_hold_def list_all2_lengthD)
  have refs: "tx_refs T b 0 (b_transactions b) s = (b_transaction_refs b, s)"
    unfolding tx_refs_given [OF len] len [symmetric] by (simp add: map_nth)
  have "refs_small (b_transaction_refs b)"
    using refs_hold_small [OF hold] Cons.prems(2,3) by simp
  moreover have "refs_fit T bs s \<and> expected_blocks T bs s (map (map (canonical_tx T)) (prev @ [b_transactions b])) =
     Some (map (\<lambda>b. (map (canonical_tx T) (b_transactions b), b_transaction_refs b)) bs)"
    using Cons.prems by (intro Cons.IH) auto
  ultimately show ?case by (simp add: refs resolve_held [OF hold])
qed simp

text \<open>What the reward changes.\<close>

definition rewarded_block :: "'t block \<Rightarrow> 't block \<Rightarrow> bool" where
  "rewarded_block b c \<longleftrightarrow> (\<exists>rewards. c = b\<lparr>b_pos_rewards := rewards\<rparr>)"

lemma rewarded_block_refl [simp]: "rewarded_block b b"
  unfolding rewarded_block_def by (intro exI [of _ "b_pos_rewards b"]) simp

lemma rewarded_block_with [simp]: "rewarded_block b (b\<lparr>b_pos_rewards := rewards\<rparr>)"
  unfolding rewarded_block_def by blast

lemma push_reward_blocks: "push_reward entry ep bs = Some cs \<Longrightarrow> list_all2 rewarded_block bs cs"
proof (induction bs arbitrary: cs)
  case (Cons b bs)
  have "list_all2 rewarded_block bs bs" by (simp add: list_all2_same)
  with Cons show ?case by (auto split: if_splits)
qed simp

lemma push_reward_None:
  "push_reward entry ep bs = None \<longleftrightarrow> (\<forall>b \<in> set bs. \<not> (b_epoch b = ep \<and> b_flags b AND FLAG_PIVOT \<noteq> 0))"
  by (induction bs) auto

lemma with_reward_blocks: "list_all2 rewarded_block (p_blocks pk) (p_blocks (with_reward entry ep pk))"
proof (cases "push_reward entry ep (p_blocks pk)")
  case None
  then show ?thesis
    by (simp add: with_reward_def list_all2_same)
qed (simp add: with_reward_def push_reward_blocks)

lemma with_reward_fields:
  "with_reward entry ep pk = pk\<lparr>p_blocks := p_blocks (with_reward entry ep pk)\<rparr>"
  by (simp add: with_reward_def split: option.split)

lemma decoded_min_pos_height: "decode_packet_ext T R S data pe = Inr pk \<Longrightarrow> p_min_pos_height pk < 2 ^ 32"
proof -
  have "(ucast (v :: u32) :: u64) < 2 ^ 32" for v
  proof -
    have "unat (ucast v :: u64) \<le> unat v" by (simp add: unsigned_ucast_eq)
    also have "unat v < 2 ^ 32" using unsigned_less [of v, where ?'a = nat] by simp
    finally show ?thesis by (simp add: word_less_nat_alt)
  qed
  then show "decode_packet_ext T R S data pe = Inr pk \<Longrightarrow> ?thesis"
    by (auto simp: decode_packet_ext_def rbind_Inr_iff Let_def)
qed

text \<open>
  What the format needs of a decoded packet to take it back: the decoder checks neither that the table
  of the nonces names every sender once, nor that a PoS view does not wrap around below the minimum.
\<close>

definition repackable :: "('t, 'acc, 'auth) tx_lib \<Rightarrow> 't packet \<Rightarrow> bool" where
  "repackable T pk \<longleftrightarrow> distinct (map sn_sender_index (p_sender_base_nonces pk)) \<and>
     (\<forall>e \<in> set (p_sender_base_nonces pk). sn_sender_index e < 2 ^ 64) \<and>
     (\<forall>b \<in> set (p_blocks pk). \<forall>v. b_pos_view b = Some v \<longrightarrow> p_min_pos_height pk \<le> v) \<and>
     txs_fit T pk (p_blocks pk)"

lemma rewarded_block_fields:
  assumes "rewarded_block b c"
  shows "b_transactions c = b_transactions b" "b_transaction_refs c = b_transaction_refs b"
    "b_pos_view c = b_pos_view b" "b_height c = b_height b"
  using assms by (auto simp: rewarded_block_def)

lemma rewarded_maps:
  assumes "list_all2 rewarded_block bs cs"
  shows "map b_transactions cs = map b_transactions bs" "map b_transaction_refs cs = map b_transaction_refs bs"
  using assms by (induction bs cs rule: list_all2_induct) (auto simp: rewarded_block_fields)

lemma refs_complete_rewarded:
  "list_all2 rewarded_block bs cs \<Longrightarrow> refs_complete prev cs \<longleftrightarrow> refs_complete prev bs"
proof (induction bs cs arbitrary: prev rule: list_all2_induct)
  case (Cons b bs c cs)
  then show ?case by (simp add: rewarded_block_fields)
qed simp

lemma redecoded_packet:
  assumes dec: "decode_packet_ext T R S data pe = Inr pk" and fit: "repackable T pk"
    and enc: "encode_packet T R S (with_reward entry ep pk) = Inr d" and size: "length d < 2 ^ 64"
    and libs: "rlp_law R" "snap_law S"
  shows "\<exists>bs. decode_packet_ext T R S d pe = Inr (pk\<lparr>p_blocks := bs\<rparr>) \<and>
    list_all2 (returned T) (p_blocks (with_reward entry ep pk)) bs \<and>
    map b_transaction_refs bs = map b_transaction_refs (p_blocks pk)"
proof -
  let ?pk = "with_reward entry ep pk"
  let ?bs = "p_blocks pk" and ?cs = "p_blocks (with_reward entry ep pk)"
  note rewarded = with_reward_blocks [of pk entry ep]
  note maps = rewarded_maps [OF rewarded]
  have fields: "p_addresses ?pk = p_addresses pk" "p_gas_prices ?pk = p_gas_prices pk"
    "p_sender_base_nonces ?pk = p_sender_base_nonces pk" "p_min_pos_height ?pk = p_min_pos_height pk"
    by (simp_all add: with_reward_def split: option.split)
  note facts = decode_packet_facts [OF dec]
  have nonces: "\<forall>e \<in> set (p_sender_base_nonces ?pk). sn_sender_index e < 2 ^ 64"
    using fit by (simp add: fields repackable_def)
  have count: "length ?bs < 2 ^ 64"
  proof -
    obtain rs offs bitmap seg where "length rs = length ?cs" "packet_layout ?pk d (choose_prefix_size rs) rs bitmap seg offs"
      by (rule encoded_packet [OF enc libs(2) size nonces]) (rule that)
    then show ?thesis using list_all2_lengthD [OF rewarded] by (simp add: packet_layout_def)
  qed
  have "refs_complete [] ?bs"
    using facts by (simp add: refs_complete_def decoded_block_ok_def Let_def)
  then have complete: "refs_complete [] ?cs"
    by (simp add: refs_complete_rewarded [OF rewarded])
  have fits: "txs_fit T ?pk ?cs"
  proof -
    have enc: "tx_encodable T ?pk = tx_encodable T pk"
      unfolding tx_encodable_def base_nonce_for_def fields by (rule refl)
    have "b_transactions ` set ?cs = b_transactions ` set ?bs"
      using arg_cong [OF maps(1), of set] by simp
    then show ?thesis using fit unfolding repackable_def txs_fit_def enc by (metis (no_types, lifting) image_iff)
  qed
  from expected_given [OF complete] count fits list_all2_lengthD [OF rewarded]
  have ex: "refs_fit T ?cs Map.empty"
    "expected_blocks T ?cs Map.empty [] = Some (map (\<lambda>b. (map (canonical_tx T) (b_transactions b), b_transaction_refs b)) ?cs)"
    by (auto simp: txs_fit_def)
  have pos: "\<forall>c \<in> set ?cs. pos_view_ok (p_min_pos_height ?pk) pe c"
  proof
    fix c
    assume "c \<in> set ?cs"
    then obtain k where k: "k < length ?cs" "c = ?cs ! k" by (auto simp: in_set_conv_nth)
    with rewarded have same: "b_pos_view c = b_pos_view (?bs ! k)" "b_height c = b_height (?bs ! k)" "k < length ?bs"
      by (auto simp: list_all2_conv_all_nth rewarded_block_fields)
    from facts same(3) have "b_pos_view (?bs ! k) \<noteq> None \<longleftrightarrow> pe \<le> b_height (?bs ! k)"
      by (simp add: decoded_block_ok_def Let_def record_facts_def)
    moreover have "p_min_pos_height pk \<le> v" if "b_pos_view (?bs ! k) = Some v" for v
      using fit that nth_mem [OF same(3)] unfolding repackable_def by blast
    ultimately show "pos_view_ok (p_min_pos_height ?pk) pe c"
      by (auto simp: pos_view_ok_def fields same(1,2))
  qed
  have "packet_ok T pe ?pk"
    using fit fits ex(1) pos nonces decoded_min_pos_height [OF dec] by (simp add: packet_ok_def fields repackable_def)
  from resolved_round_trip [OF enc size libs this ex(2)]
  obtain bs where "decode_packet_ext T R S d pe = Inr (?pk\<lparr>p_blocks := bs\<rparr>)" "list_all2 (returned T) ?cs bs"
    "map b_transaction_refs bs = map b_transaction_refs ?cs" by (auto simp: comp_def)
  moreover have "?pk\<lparr>p_blocks := bs\<rparr> = pk\<lparr>p_blocks := bs\<rparr>" by (simp add: with_reward_def split: option.split)
  ultimately show ?thesis using maps(2) by auto
qed

end
