(* ===== verification/Reward_Dump.thy ===== *)
theory Reward_Dump
  imports Reward_Patch Extract_Db
begin

text \<open>
  \<open>crates/replay-data-extractor/src/bin/dump_pos_reward.rs\<close>: the tool that prints a PoS reward of the
  database as the JSON that \<open>patch_pos_reward\<close> reads, and the list of all rewards.

  The conversion of an RLP item to bytes is added to \<open>rlp_view\<close>; \<open>hex::encode\<close> and the decimal form of
  a \<open>U256\<close> are the record \<open>show_lib\<close>. Opening the database is left out. What is printed is a string,
  which stays when the tool fails behind it.
\<close>

record 'r bytes_view = "'r rlp_view" +
  rv_bytes :: "'r \<Rightarrow> bytes pack_result"

record show_lib =
  sh_hex :: "bytes \<Rightarrow> string"
  sh_u256 :: "u256 \<Rightarrow> string"

definition println :: "string \<Rightarrow> string" where
  "println line = line @ [CHR 10]"

definition be_u256 :: "bytes \<Rightarrow> u256 pack_result" where
  "be_u256 bs = (if length bs \<le> 32 then Inr (from_big_endian bs) else Inl (Pack_Panic ''slice longer than 32 bytes''))"

text \<open>The line of one account.\<close>

definition account_line :: "show_lib \<Rightarrow> bytes \<Rightarrow> bytes \<Rightarrow> u256 \<Rightarrow> string \<Rightarrow> string" where
  "account_line X addr_bytes id_bytes reward comma =
     ''    {'' @ quoted ''address'' @ '': '' @ quoted (''0x'' @ sh_hex X addr_bytes) @ '', '' @
     quoted ''pos_identifier'' @ '': '' @ quoted (''0x'' @ sh_hex X id_bytes) @ '', '' @
     quoted ''reward'' @ '': '' @ quoted (sh_u256 X reward) @ ''}'' @ comma"

definition dump_account :: "'r bytes_view \<Rightarrow> show_lib \<Rightarrow> 'r \<Rightarrow> nat \<Rightarrow> nat \<Rightarrow> string pack_result" where
  "dump_account V X rewards_rlp count j =
     rbind (rv_at V rewards_rlp j) (\<lambda>a.
     rbind (with_message ''address'' (rbind (rv_at V a 0) (rv_bytes V))) (\<lambda>addr_bytes.
     rbind (with_message ''identifier'' (rbind (rv_at V a 1) (rv_bytes V))) (\<lambda>id_bytes.
     rbind (with_message ''reward'' (rbind (rv_at V a 2) (rv_bytes V))) (\<lambda>reward_bytes.
     rbind (be_u256 reward_bytes) (\<lambda>reward.
       Inr (println (account_line X addr_bytes id_bytes reward (if j + 1 < count then '','' else ''''))))))))"

fun dump_accounts :: "'r bytes_view \<Rightarrow> show_lib \<Rightarrow> 'r \<Rightarrow> nat \<Rightarrow> nat list \<Rightarrow> string \<Rightarrow> string \<times> unit pack_result" where
  "dump_accounts V X rewards_rlp count [] out = (out, Inr ())"
| "dump_accounts V X rewards_rlp count (j # js) out =
     (case dump_account V X rewards_rlp count j of
        Inl e \<Rightarrow> (out, Inl e)
      | Inr line \<Rightarrow> dump_accounts V X rewards_rlp count js (out @ line))"

definition dump_head :: "show_lib \<Rightarrow> u64 \<Rightarrow> bytes \<Rightarrow> string" where
  "dump_head X pos_epoch exec_hash_bytes =
     println ''{'' @
     println (''  '' @ quoted ''pos_epoch'' @ '': '' @ dec_digits (unat pos_epoch) @ '','') @
     println (''  '' @ quoted ''execution_epoch_hash'' @ '': '' @ quoted (''0x'' @ sh_hex X exec_hash_bytes) @ '','') @
     println (''  '' @ quoted ''account_rewards'' @ '': ['')"

definition get_reward :: "'i rocks \<Rightarrow> 'r bytes_view \<Rightarrow> show_lib \<Rightarrow> u64 \<Rightarrow> string \<times> unit pack_result" where
  "get_reward pow V X pos_epoch =
     (case rbind (ensure (rk_cf_handle pow ''col7'') (Bail ''missing col7'')) (\<lambda>_.
           rbind (with_message ''get col7'' (rk_get_cf pow ''col7'' (u64_to_be pos_epoch))) (\<lambda>found.
           rbind (ok_or found (Bail (''no entry for PoS epoch '' @ dec_digits (unat pos_epoch)))) (\<lambda>val.
           let rlp = rv_new V val
           in rbind (with_message ''decode exec hash'' (rbind (rv_at V rlp 1) (rv_bytes V))) (\<lambda>exec_hash_bytes.
              rbind (with_message ''decode account_rewards'' (rv_at V rlp 0)) (\<lambda>rewards_rlp.
              rbind (rv_item_count V rewards_rlp) (\<lambda>count.
                Inr (exec_hash_bytes, rewards_rlp, count))))))) of
        Inl e \<Rightarrow> ([], Inl e)
      | Inr (exec_hash_bytes, rewards_rlp, count) \<Rightarrow>
          (case dump_accounts V X rewards_rlp count [0..<count] (dump_head X pos_epoch exec_hash_bytes) of
             (out, Inl e) \<Rightarrow> (out, Inl e)
           | (out, Inr _) \<Rightarrow> (out @ println ''  ]'' @ println ''}'', Inr ())))"

text \<open>The list of all rewards: an entry whose key or value does not decode is skipped.\<close>

definition reward_row :: "'r bytes_view \<Rightarrow> show_lib \<Rightarrow> bytes \<Rightarrow> bytes \<Rightarrow> string option" where
  "reward_row V X key val =
     (if length key = 8
      then case rbind (rv_at V (rv_new V val) 1) (rv_bytes V) of
             Inl e \<Rightarrow> None
           | Inr exec_hash_bytes \<Rightarrow>
               Some (println (dec_digits (unat (u64_of_be key)) @ '' 0x'' @ sh_hex X exec_hash_bytes))
      else None)"


partial_function (option) scan_all_from ::
  "'i rocks \<Rightarrow> 'r bytes_view \<Rightarrow> show_lib \<Rightarrow> 'i \<Rightarrow> string \<Rightarrow> (string \<times> unit pack_result) option" where
  "scan_all_from pow V X it out =
     (case with_message ''iter col7'' (rk_valid pow it) of
        Inl e \<Rightarrow> Some (out, Inl e)
      | Inr valid \<Rightarrow>
          if valid then
            (let out = out @ (case reward_row V X (rk_key pow it) (rk_value pow it) of None \<Rightarrow> [] | Some row \<Rightarrow> row)
             in case with_message ''iter next col7'' (rk_next pow it) of
                  Inl e \<Rightarrow> Some (out, Inl e)
                | Inr it \<Rightarrow> scan_all_from pow V X it out)
          else Some (out, Inr ()))"

definition scan_all :: "'i rocks \<Rightarrow> 'r bytes_view \<Rightarrow> show_lib \<Rightarrow> (string \<times> unit pack_result) option" where
  "scan_all pow V X =
     (if \<not> rk_cf_handle pow ''col7'' then Some ([], Inl (Bail ''missing col7''))
      else case with_message ''seek col7'' (rk_seek_start pow (rk_iter pow ''col7'')) of
             Inl e \<Rightarrow> Some ([], Inl e)
           | Inr it \<Rightarrow> scan_all_from pow V X it [])"

end
