(* ===== verification/Reward_Dump_Correct.thy ===== *)
theory Reward_Dump_Correct
  imports Reward_Dump Container_Correct
begin

text \<open>
  What \<open>dump_pos_reward\<close> prints is read back by \<open>patch_pos_reward\<close>, for hexadecimal and decimal forms
  that the parsers of \<open>cfx_types\<close> take back.
\<close>

definition text_law :: "text_lib \<Rightarrow> show_lib \<Rightarrow> bool" where
  "text_law L X \<longleftrightarrow>
     (\<forall>bs. set (sh_hex X bs) \<subseteq> set ''0123456789abcdef'') \<and>
     (\<forall>v. sh_u256 X v \<noteq> [] \<and> set (sh_u256 X v) \<subseteq> set ''0123456789'') \<and>
     (\<forall>h. tx_parse_h256 L (sh_hex X (as_bytes h)) = Some h) \<and>
     (\<forall>a. tx_parse_address L (sh_hex X (address_bytes a)) = Some a) \<and>
     (\<forall>v. tx_from_dec_str L (sh_u256 X v) = Some v)"

lemma text_lawD:
  assumes "text_law L X"
  shows "c \<notin> set ''0123456789abcdef'' \<Longrightarrow> c \<notin> set (sh_hex X bs)"
    and "c \<notin> set ''0123456789'' \<Longrightarrow> c \<notin> set (sh_u256 X v)"
    and "tx_parse_h256 L (sh_hex X (as_bytes h)) = Some h"
    and "tx_parse_address L (sh_hex X (address_bytes a)) = Some a"
    and "tx_from_dec_str L (sh_u256 X v) = Some v" "sh_u256 X v \<noteq> []"
  using assms unfolding text_law_def by blast+

subsection \<open>Searching and trimming\<close>

lemma find_str_skip:
  "c \<notin> set s \<Longrightarrow> find_str (c # pat) (s @ rest) = map_option (\<lambda>n. length s + n) (find_str (c # pat) rest)"
proof (induction s)
  case (Cons x s)
  then show ?case by (cases "find_str (c # pat) rest") auto
qed (cases "find_str (c # pat) rest"; simp)

lemma not_prefix_skip [simp]: "c \<notin> set s \<Longrightarrow> c \<noteq> d \<Longrightarrow> \<not> prefix (c # pat) (s @ d # rest)"
  by (cases s) auto

lemma trim_front_space: "trim_front white_space (CHR '' '' # s) = trim_front white_space s"
proof -
  have ws: "\<forall>w \<in> set white_space. hd w = CHR '' '' \<longrightarrow> w = [CHR '' '']" "[CHR '' ''] \<in> set white_space"
    by (simp_all add: white_space_def)
  let ?P = "\<lambda>w. w \<noteq> [] \<and> prefix w (CHR '' '' # s)"
  have "find ?P white_space = Some [CHR '' '']"
  proof (cases "find ?P white_space")
    case None
    with ws(2) show ?thesis by (auto simp: find_None_iff)
  next
    case (Some w)
    then have "?P w" "w \<in> set white_space" by (auto simp: find_Some_iff)
    with ws(1) Some show ?thesis by (cases w) auto
  qed
  then show ?thesis by (subst trim_front.simps) simp
qed

lemma trim_front_stops:
  assumes "\<forall>w \<in> set ws. w \<noteq> [] \<longrightarrow> hd w \<noteq> c"
  shows "trim_front ws (c # s) = c # s"
proof -
  have "find (\<lambda>w. w \<noteq> [] \<and> prefix w (c # s)) ws = None"
    using assms by (auto simp: find_None_iff neq_Nil_conv)
  then show ?thesis by (subst trim_front.simps) simp
qed

definition ink :: "char list" where
  "ink = [CHR ''{'', CHR ''}'', CHR ''['', CHR '']'', CHR '','', CHR 0x22]"

lemma trim_front_ink:
  "c \<in> set ink \<Longrightarrow> trim_front white_space (c # s) = c # s"
  "c \<in> set ink \<Longrightarrow> trim_front (map rev white_space) (c # s) = c # s"
proof -
  have "\<forall>c \<in> set ink. \<forall>w \<in> set white_space. hd w \<noteq> c \<and> last w \<noteq> c \<and> w \<noteq> []"
    by (simp add: white_space_def ink_def)
  then show "c \<in> set ink \<Longrightarrow> trim_front white_space (c # s) = c # s"
    "c \<in> set ink \<Longrightarrow> trim_front (map rev white_space) (c # s) = c # s"
    by (intro trim_front_stops; fastforce simp: hd_rev)+
qed

lemma trim_ends:
  assumes "trim_front white_space s = t @ [d]" "d \<in> set ink"
  shows "trim s = t @ [d]"
  using assms by (simp add: trim_def trim_front_ink)

lemma lines_println:
  assumes "CHR 10 \<notin> set l" "l = [] \<or> last l \<noteq> CHR 13"
  shows "lines_of (println l @ rest) = l # lines_of rest"
proof -
  have "dropWhile (\<lambda>c. c \<noteq> CHR 10) (l @ CHR 10 # rest) = CHR 10 # rest"
    "takeWhile (\<lambda>c. c \<noteq> CHR 10) (l @ CHR 10 # rest) = l"
    using assms(1) by (auto simp: dropWhile_append takeWhile_append)
  then show ?thesis using assms(2) unfolding println_def
    by (subst lines_of.simps) (auto simp: strip_cr_def)
qed

subsection \<open>The lines\<close>

lemmas search = quoted_def contains_str_def find_str_skip

lemma reward_line_plain:
  assumes "trim line = t" "\<not> contains_str t (quoted ''execution_epoch_hash'')" "\<not> contains_str t (quoted ''address'')"
  shows "reward_line L line acc = Inr acc"
  using assms by (simp add: reward_line_def Let_def split: prod.split)

lemma digits_free: "CHR 0x22 \<notin> set (dec_digits n)" "CHR 0x0A \<notin> set (dec_digits n)"
proof -
  have "digit_val CHR 0x22 = None" "digit_val CHR 0x0A = None" by (simp_all add: digit_val_def)
  then have "\<forall>d < 10. digit_of d \<noteq> CHR 0x22 \<and> digit_of d \<noteq> CHR 0x0A"
    using digit_val_of by (metis option.distinct(1))
  then show "CHR 0x22 \<notin> set (dec_digits n)" "CHR 0x0A \<notin> set (dec_digits n)"
    using set_dec_digits [of n] by fastforce+
qed

lemma brace_lines:
  "reward_line L ''{'' acc = Inr acc" "reward_line L ''  ]'' acc = Inr acc" "reward_line L ''}'' acc = Inr acc"
proof -
  have trims: "trim ''{'' = [] @ ''{''" "trim ''  ]'' = [] @ '']''" "trim ''}'' = [] @ ''}''"
    by (rule trim_ends; simp add: trim_front_space trim_front_ink ink_def)+
  show "reward_line L ''{'' acc = Inr acc" "reward_line L ''  ]'' acc = Inr acc" "reward_line L ''}'' acc = Inr acc"
    by (rule reward_line_plain [OF trims(1)] reward_line_plain [OF trims(2)] reward_line_plain [OF trims(3)]; simp add: search)+
qed

lemma epoch_line:
  "reward_line L (''  '' @ quoted ''pos_epoch'' @ '': '' @ dec_digits n @ '','') acc = Inr acc"
proof (rule reward_line_plain)
  show "trim (''  '' @ quoted ''pos_epoch'' @ '': '' @ dec_digits n @ '','') = (quoted ''pos_epoch'' @ '': '' @ dec_digits n) @ '',''"
    by (rule trim_ends; simp add: quoted_def trim_front_space trim_front_ink ink_def)
qed (simp_all add: search digits_free)

lemma rewards_line: "reward_line L (''  '' @ quoted ''account_rewards'' @ '': ['') acc = Inr acc"
proof (rule reward_line_plain)
  show "trim (''  '' @ quoted ''account_rewards'' @ '': ['') = (quoted ''account_rewards'' @ '': '') @ ''[''"
    by (rule trim_ends; simp add: quoted_def trim_front_space trim_front_ink ink_def)
qed (simp_all add: search)

text \<open>The value of a key in a line, for a value without quotes.\<close>

lemma json_value:
  assumes line: "line = pre @ quoted key @ '': '' @ quoted v @ rest"
    and find: "find_str ([CHR 0x22] @ key @ [CHR 0x22, CHR '':'']) line = Some (length pre)"
    and v: "CHR 0x22 \<notin> set v" "v \<noteq> []" and rest: "rest = t @ [d]" "d \<in> set ink"
  shows "extract_json_string line key = Some v"
proof -
  let ?pos = "length pre + length ([CHR 0x22] @ key @ [CHR 0x22, CHR '':''])"
  have drop: "drop ?pos line = CHR '' '' # CHR 0x22 # v @ CHR 0x22 # rest"
  proof -
    define A where "A = pre @ [CHR 0x22] @ key @ [CHR 0x22, CHR '':'']"
    have "line = A @ CHR '' '' # CHR 0x22 # v @ CHR 0x22 # rest" "?pos = length A"
      by (simp_all add: line quoted_def A_def)
    then show ?thesis by simp
  qed
  have "trim (drop ?pos line) = (CHR 0x22 # v @ CHR 0x22 # t) @ [d]"
    unfolding drop using rest by (intro trim_ends) (simp_all add: trim_front_space trim_front_ink ink_def)
  also have "\<dots> = CHR 0x22 # v @ CHR 0x22 # rest" using rest(1) by simp
  finally have trimmed: "trim (drop ?pos line) = CHR 0x22 # v @ CHR 0x22 # rest" .
  have "hd v \<noteq> CHR 0x22" using v by (cases v) auto
  with v(2) have "dropWhile (\<lambda>c. c = CHR 0x22) (CHR 0x22 # v @ CHR 0x22 # rest) = v @ CHR 0x22 # rest"
    by (cases v) auto
  moreover have "find_str [CHR 0x22] (v @ CHR 0x22 # rest) = Some (length v)"
    using find_str_skip [OF v(1), of "[]" "CHR 0x22 # rest"] by simp
  ultimately show ?thesis
    unfolding extract_json_string_def Let_def find option.case by (simp only: trimmed option.map) simp
qed

lemma hash_line:
  assumes "text_law L X"
  shows "reward_line L (''  '' @ quoted ''execution_epoch_hash'' @ '': '' @ quoted (''0x'' @ sh_hex X (as_bytes h)) @ '','') (as, h0)
    = Inr (as, h)"
proof -
  note law = text_lawD [OF assms]
  let ?t = "quoted ''execution_epoch_hash'' @ '': '' @ quoted (''0x'' @ sh_hex X (as_bytes h)) @ '',''"
  have trimmed: "trim (''  '' @ ?t) = ?t"
  proof -
    have "trim (''  '' @ ?t) = (quoted ''execution_epoch_hash'' @ '': '' @ quoted (''0x'' @ sh_hex X (as_bytes h))) @ '',''"
      by (rule trim_ends; simp add: quoted_def trim_front_space trim_front_ink ink_def)
    then show ?thesis by simp
  qed
  have v: "extract_json_string ?t ''execution_epoch_hash'' = Some (''0x'' @ sh_hex X (as_bytes h))"
    by (rule json_value [where pre = "[]" and rest = "'',''" and t = "[]" and d = "CHR '',''"])
      (simp_all add: quoted_def law(1) ink_def)
  have "contains_str ?t (quoted ''execution_epoch_hash'')" "\<not> contains_str ?t (quoted ''address'')"
    by (simp_all add: search law(1))
  then show ?thesis
    unfolding reward_line_def prod.case trimmed Let_def v by (simp add: without_0x_def strip_prefix_def law(3))
qed

lemma account_line_parsed:
  assumes law: "text_law L X" and comma: "comma = [] \<or> comma = '',''"
  shows "reward_line L (account_line X (address_bytes a) (as_bytes i) v comma) (as, h) =
    Inr (as @ [\<lparr>pra_address = a, pra_pos_identifier = i, pra_reward = v\<rparr>], h)"
proof -
  note free = text_lawD [OF law]
  let ?a = "''0x'' @ sh_hex X (address_bytes a)" and ?i = "''0x'' @ sh_hex X (as_bytes i)" and ?v = "sh_u256 X v"
  define t where "t = ''{'' @ quoted ''address'' @ '': '' @ quoted ?a @ '', '' @
     quoted ''pos_identifier'' @ '': '' @ quoted ?i @ '', '' @ quoted ''reward'' @ '': '' @ quoted ?v @ ''}'' @ comma"
  define tail_r where "tail_r = ''}'' @ comma"
  define tail_i where "tail_i = '', '' @ quoted ''reward'' @ '': '' @ quoted ?v @ tail_r"
  define tail_a where "tail_a = '', '' @ quoted ''pos_identifier'' @ '': '' @ quoted ?i @ tail_i"
  have t: "t = ''{'' @ quoted ''address'' @ '': '' @ quoted ?a @ tail_a"
    "t = (''{'' @ quoted ''address'' @ '': '' @ quoted ?a @ '', '') @ quoted ''pos_identifier'' @ '': '' @ quoted ?i @ tail_i"
    "t = (''{'' @ quoted ''address'' @ '': '' @ quoted ?a @ '', '' @ quoted ''pos_identifier'' @ '': '' @ quoted ?i @ '', '') @
      quoted ''reward'' @ '': '' @ quoted ?v @ tail_r"
    by (simp_all add: t_def tail_a_def tail_i_def tail_r_def)
  obtain r' d where r': "tail_r = r' @ [d]" "d \<in> set ink"
    using comma by (auto simp: tail_r_def ink_def)
  have "account_line X (address_bytes a) (as_bytes i) v comma = ''    '' @ t"
    by (simp add: account_line_def t_def)
  moreover have "trim (''    '' @ t) = t"
  proof -
    have "t = (''{'' @ quoted ''address'' @ '': '' @ quoted ?a @ '', '' @ quoted ''pos_identifier'' @ '': '' @ quoted ?i @ '', '' @
      quoted ''reward'' @ '': '' @ quoted ?v @ r') @ [d]" using t(3) r'(1) by simp
    then show ?thesis
      using trim_ends [of "''    '' @ t", OF _ r'(2)] by (simp add: trim_front_space trim_front_ink ink_def)
  qed
  moreover have "\<not> contains_str t (quoted ''execution_epoch_hash'')"
    using comma by (auto simp: t_def search free)
  moreover have "contains_str t (quoted ''address'')" "contains_str t (quoted ''pos_identifier'')" "contains_str t (quoted ''reward'')"
    by (simp_all add: t_def search free)
  moreover have "reward_of_line L t = Inr \<lparr>pra_address = a, pra_pos_identifier = i, pra_reward = v\<rparr>"
  proof -
    have "extract_json_string t ''address'' = Some ?a"
      using r' by (intro json_value [OF t(1)]) (simp_all add: t(1) quoted_def free tail_a_def tail_i_def)
    moreover have "extract_json_string t ''pos_identifier'' = Some ?i"
      using r' by (intro json_value [OF t(2)]) (simp_all add: t(2) quoted_def find_str_skip free tail_i_def)
    moreover have "extract_json_string t ''reward'' = Some ?v"
      using r' by (intro json_value [OF t(3)]) (simp_all add: t(3) quoted_def find_str_skip free)
    ultimately show ?thesis
      by (simp add: reward_of_line_def without_0x_def strip_prefix_def free)
  qed
  ultimately show ?thesis by (simp add: reward_line_def Let_def)
qed

subsection \<open>The whole text\<close>

definition line_ok :: "string \<Rightarrow> bool" where
  "line_ok l \<longleftrightarrow> CHR 10 \<notin> set l \<and> (l = [] \<or> last l \<noteq> CHR 13)"

lemma lines_concat: "\<forall>l \<in> set ls. line_ok l \<Longrightarrow> lines_of (concat (map println ls)) = ls"
proof (induction ls)
  case Nil
  then show ?case by (subst lines_of.simps) simp
next
  case (Cons l ls)
  then show ?case using lines_println [of l "concat (map println ls)"] by (simp add: line_ok_def)
qed

lemma reward_lines_append:
  "reward_lines L (xs @ ys) acc = rbind (reward_lines L xs acc) (reward_lines L ys)"
  by (induction xs arbitrary: acc) (auto simp: rbind_def split: sum.split)

lemma reward_lines_accounts:
  "list_all2 (\<lambda>l account. \<forall>as h. reward_line L l (as, h) = Inr (as @ [account], h)) ls accounts \<Longrightarrow>
   reward_lines L ls (as, h) = Inr (as @ accounts, h)"
  by (induction ls accounts arbitrary: as rule: list_all2_induct) auto

text \<open>A value of the column that holds the reward \<open>entry\<close>.\<close>

definition account_stored :: "'r bytes_view \<Rightarrow> 'r \<Rightarrow> nat \<Rightarrow> pos_reward_account \<Rightarrow> bool" where
  "account_stored V rewards_rlp j account \<longleftrightarrow> (\<exists>a bs. rv_at V rewards_rlp j = Inr a \<and>
     rbind (rv_at V a 0) (rv_bytes V) = Inr (address_bytes (pra_address account)) \<and>
     rbind (rv_at V a 1) (rv_bytes V) = Inr (as_bytes (pra_pos_identifier account)) \<and>
     rbind (rv_at V a 2) (rv_bytes V) = Inr bs \<and> length bs \<le> 32 \<and> from_big_endian bs = pra_reward account)"

definition reward_stored :: "'r bytes_view \<Rightarrow> bytes \<Rightarrow> pos_reward_entry \<Rightarrow> bool" where
  "reward_stored V val entry \<longleftrightarrow> (\<exists>rewards_rlp.
     rbind (rv_at V (rv_new V val) 1) (rv_bytes V) = Inr (as_bytes (pre_execution_epoch_hash entry)) \<and>
     rv_at V (rv_new V val) 0 = Inr rewards_rlp \<and> rv_item_count V rewards_rlp = Inr (length (pre_account_rewards entry)) \<and>
     (\<forall>j < length (pre_account_rewards entry). account_stored V rewards_rlp j (pre_account_rewards entry ! j)))"

definition line_of :: "show_lib \<Rightarrow> nat \<Rightarrow> nat \<Rightarrow> pos_reward_account \<Rightarrow> string" where
  "line_of X count j account = account_line X (address_bytes (pra_address account)) (as_bytes (pra_pos_identifier account))
     (pra_reward account) (if j + 1 < count then '','' else [])"

lemma dump_account_stored:
  "account_stored V rewards_rlp j account \<Longrightarrow> dump_account V X rewards_rlp count j = Inr (println (line_of X count j account))"
  by (auto simp: account_stored_def dump_account_def be_u256_def line_of_def)

lemma dump_accounts_stored:
  "\<forall>j \<in> set js. account_stored V rewards_rlp j (accounts ! j) \<Longrightarrow>
   dump_accounts V X rewards_rlp count js out =
     (out @ concat (map (\<lambda>j. println (line_of X count j (accounts ! j))) js), Inr ())"
proof (induction js arbitrary: out)
  case (Cons j js)
  then have "dump_account V X rewards_rlp count j = Inr (println (line_of X count j (accounts ! j)))"
    by (intro dump_account_stored) simp
  with Cons show ?case by simp
qed simp

lemma dumped_text_parses:
  assumes law: "text_law L X" and stored: "reward_stored V val entry"
    and pow: "rk_cf_handle pow ''col7''" "rk_get_cf pow ''col7'' (u64_to_be pos_epoch) = Inr (Some val)"
  shows "\<exists>out. get_reward pow V X pos_epoch = (out, Inr ()) \<and> parse_reward_json L out = Inr entry"
proof -
  note free = text_lawD [OF law]
  let ?as = "pre_account_rewards entry" and ?h = "pre_execution_epoch_hash entry"
  let ?n = "length (pre_account_rewards entry)"
  define heads where "heads = [''{'', ''  '' @ quoted ''pos_epoch'' @ '': '' @ dec_digits (unat pos_epoch) @ '','',
    ''  '' @ quoted ''execution_epoch_hash'' @ '': '' @ quoted (''0x'' @ sh_hex X (as_bytes ?h)) @ '','',
    ''  '' @ quoted ''account_rewards'' @ '': ['']"
  define rows where "rows = map (\<lambda>j. line_of X ?n j (?as ! j)) [0..<?n]"
  define ends where "ends = [''  ]'', ''}'']"
  define out where "out = concat (map println (heads @ rows @ ends))"
  from stored obtain rewards_rlp where r: "rbind (rv_at V (rv_new V val) 1) (rv_bytes V) = Inr (as_bytes ?h)"
    "rv_at V (rv_new V val) 0 = Inr rewards_rlp" "rv_item_count V rewards_rlp = Inr ?n"
    "\<forall>j \<in> set [0..<?n]. account_stored V rewards_rlp j (?as ! j)"
    by (auto simp: reward_stored_def)
  have printed: "get_reward pow V X pos_epoch = (out, Inr ())"
    using dump_accounts_stored [OF r(4), of X ?n "dump_head X pos_epoch (as_bytes ?h)"] pow r(1-3)
    by (simp add: get_reward_def Let_def out_def heads_def rows_def ends_def dump_head_def comp_def)
  have "line_ok l" if "l \<in> set (heads @ rows @ ends)" for l
    using that by (auto simp: heads_def rows_def ends_def line_ok_def line_of_def account_line_def quoted_def digits_free free split: if_splits)
  then have lines: "lines_of out = heads @ rows @ ends" unfolding out_def by (intro lines_concat) blast
  have "reward_lines L heads ([], H256_zero) = Inr ([], ?h)"
    unfolding heads_def by (simp add: brace_lines epoch_line hash_line [OF law] rewards_line del: append.simps)
  moreover have "reward_lines L rows ([], ?h) = Inr ([] @ ?as, ?h)"
    by (rule reward_lines_accounts)
      (auto simp: rows_def list_all2_conv_all_nth line_of_def account_line_parsed [OF law])
  moreover have "reward_lines L ends acc = Inr acc" for acc
    unfolding ends_def by (simp add: brace_lines)
  ultimately have "parse_reward_json L out = Inr entry"
    by (simp add: parse_reward_json_def lines reward_lines_append)
  with printed show ?thesis by blast
qed

end
