(* ===== verification/Reward_Theorems.thy ===== *)
theory Reward_Theorems
  imports Reward_Patch_Correct Reward_Dump_Correct Packet_Example
begin

text \<open>
  The properties of the two tools for PoS rewards, \<open>patch_pos_reward\<close> and \<open>dump_pos_reward\<close>, with instances at
  a container of one packet and a column of one reward.
\<close>

subsection \<open>Injecting a reward\<close>

lemma reencoded_all:
  assumes "list_all2 (\<lambda>p pk. decode_packet_ext T R S (po_bytes p) POS_REF_HEIGHT = Inr pk) ps pks"
    and "list_all2 (\<lambda>pk d. encode_packet T R S (with_reward entry ep pk) = Inr d) pks ds"
  shows "traverse (reencoded T R S entry ep) ps = Inr (zip ds (map (\<lambda>pk. push_reward entry ep (p_blocks pk) \<noteq> None) pks))"
  using assms
proof (induction ps pks arbitrary: ds rule: list_all2_induct)
  case (Cons p ps pk pks)
  then obtain d ds' where "ds = d # ds'" "encode_packet T R S (with_reward entry ep pk) = Inr d"
    "list_all2 (\<lambda>pk d. encode_packet T R S (with_reward entry ep pk) = Inr d) pks ds'" by (auto simp: list_all2_Cons1)
  with Cons show ?case by (simp add: reencoded_def)
qed simp

text \<open>
  C39: the tool that injects a reward writes the container of the same groups, with the reward added to
  the pivot of its epoch, or writes nothing when no packet has that pivot. In the written file every
  group is read back: its packet has the blocks of the old one and the reward, and a transaction is the
  one that the decoder rebuilds.
\<close>

theorem reward_injected:
  fixes T R S L fs
  assumes "length ps < 2 ^ 32" "24 + 32 * length ps + packets_size ps < 2 ^ 64" "rlp_law R" "snap_law S"
    and "parse_u64 number = Some ep" "read_to_string fs json = Some json_str" "parse_reward_json L json_str = Inr entry"
    and "fs path = Some (container_bytes sh (builder_of ps))"
    and "list_all2 (\<lambda>p pk. decode_packet_ext T R S (po_bytes p) POS_REF_HEIGHT = Inr pk) ps pks" "\<forall>pk \<in> set pks. repackable T pk"
    and "list_all2 (\<lambda>pk d. encode_packet T R S (with_reward entry ep pk) = Inr d) pks ds"
    and "24 + 32 * length ps + sum_list (map length ds) < 2 ^ 64"
  shows "inject T R S L fs [path, json, number] =
      ((if \<exists>pk \<in> set pks. \<exists>b \<in> set (p_blocks pk). b_epoch b = ep \<and> b_flags b AND FLAG_PIVOT \<noteq> 0
        then fs(path @ ''.patched'' \<mapsto> container_bytes sh (builder_of (with_bytes ps ds))) else fs), Inr ()) \<and>
    file_packets (container_bytes sh (builder_of (with_bytes ps ds))) =
      Inr (map2 (\<lambda>p d. (po_start_epoch p, po_epoch_count p, d)) ps ds) \<and>
    list_all2 (\<lambda>pk d. \<exists>bs. decode_packet_ext T R S d POS_REF_HEIGHT = Inr (pk\<lparr>p_blocks := bs\<rparr>) \<and>
      list_all2 (returned T) (p_blocks (with_reward entry ep pk)) bs) pks ds"
proof -
  let ?qs = "with_bytes ps ds" and ?rs = "zip ds (map (\<lambda>pk. push_reward entry ep (p_blocks pk) \<noteq> None) pks)"
  let ?new = "container_bytes sh (builder_of (with_bytes ps ds))"
  have len: "length ps = length ds" "length pks = length ds"
    using list_all2_lengthD [OF assms(9)] list_all2_lengthD [OF assms(11)] by simp_all
  have total: "packets_size ?qs = sum_list (map length ds)"
    using arg_cong [OF with_bytes_simps(4) [OF len(1)], of "\<lambda>xs. sum_list (map length xs)"]
    by (simp only: map_map comp_def)
  have size: "length ?qs < 2 ^ 32" "24 + 32 * length ?qs + packets_size ?qs < 2 ^ 64"
    using assms(1,12) len(1) total by simp_all
  have back_again: "list_all2 (\<lambda>pk d. \<exists>bs. decode_packet_ext T R S d POS_REF_HEIGHT = Inr (pk\<lparr>p_blocks := bs\<rparr>) \<and>
      list_all2 (returned T) (p_blocks (with_reward entry ep pk)) bs) pks ds"
  proof (rule list_all2_all_nthI [OF len(2)])
    fix i
    assume i: "i < length pks"
    have "length (ds ! i) \<le> sum_list (map length ds)" using i len(2) by (intro member_le_sum_list) simp_all
    then have "length (ds ! i) < 2 ^ 64" using assms(12) by simp
    with i len assms(9,10,11) show "\<exists>bs. decode_packet_ext T R S (ds ! i) POS_REF_HEIGHT = Inr ((pks ! i)\<lparr>p_blocks := bs\<rparr>) \<and>
        list_all2 (returned T) (p_blocks (with_reward entry ep (pks ! i))) bs"
      using redecoded_packet [of T R S "po_bytes (ps ! i)" POS_REF_HEIGHT "pks ! i" entry ep "ds ! i", OF _ _ _ _ assms(3,4)]
      by (simp add: list_all2_conv_all_nth) blast
  qed
  have "\<exists>dks. check_groups T R S ?new = Inr dks"
  proof -
    let ?f = "\<lambda>q. with_message (''verify group starting at epoch '' @ dec_digits (unat (po_start_epoch q)))
        (decode_packet_ext T R S (po_bytes q) POS_REF_HEIGHT)"
    have "?f q = Inr (projr (?f q))" if "q \<in> set ?qs" for q
    proof -
      from that have "po_bytes q \<in> set (map po_bytes ?qs)" by simp
      then have "po_bytes q \<in> set ds" using len(1) by simp
      then obtain i where "i < length ds" "po_bytes q = ds ! i" by (auto simp: in_set_conv_nth)
      then obtain dk where "decode_packet_ext T R S (po_bytes q) POS_REF_HEIGHT = Inr dk"
        using back_again by (auto simp: list_all2_conv_all_nth)
      then show ?thesis by simp
    qed
    from traverse_map_Inr [of ?qs ?f "\<lambda>q. projr (?f q)", OF this] show ?thesis
      unfolding check_container [OF size] by blast
  qed
  then have check: "rbind (check_groups T R S ?new) (\<lambda>_. Inr ()) = Inr ()" by (auto simp: rbind_def)
  have found: "list_ex snd ?rs \<longleftrightarrow> (\<exists>pk \<in> set pks. \<exists>b \<in> set (p_blocks pk). b_epoch b = ep \<and> b_flags b AND FLAG_PIVOT \<noteq> 0)"
  proof -
    have "list_ex snd ?rs \<longleftrightarrow> list_ex id (map snd ?rs)" by (simp add: list_ex_iff)
    also have "map snd ?rs = map (\<lambda>pk. push_reward entry ep (p_blocks pk) \<noteq> None) pks" using len(2) by simp
    finally show ?thesis by (auto simp: list_ex_iff push_reward_None simp del: not_None_eq)
  qed
  have "injected T R S L fs [path, json, number] = Inr (path, ?new, list_ex snd ?rs)"
    using injected_container [OF assms(1,2), of "[path, json, number]" path json number ep fs json_str L entry sh T R S]
      reencoded_all [OF assms(9,11)] assms(5-8) len by (simp add: arg_at_def)
  then have "inject T R S L fs [path, json, number] =
      ((if \<exists>pk \<in> set pks. \<exists>b \<in> set (p_blocks pk). b_epoch b = ep \<and> b_flags b AND FLAG_PIVOT \<noteq> 0
        then fs(path @ ''.patched'' \<mapsto> ?new) else fs), Inr ())"
    unfolding inject_def found using check by auto
  moreover have "map packet_view ?qs = map2 (\<lambda>p d. (po_start_epoch p, po_epoch_count p, d)) ps ds"
    using len(1) by (simp add: with_bytes_def comp_def case_prod_beta)
  ultimately show ?thesis using container_round_trip [OF size, of sh] back_again by simp
qed

subsection \<open>A container of one packet\<close>

definition ex_text :: text_lib where
  "ex_text = \<lparr>tx_parse_h256 = (\<lambda>s. if s = ''00'' then Some H256_zero else None),
     tx_parse_address = (\<lambda>s. if s = ''00'' then Some Address_zero else None),
     tx_from_dec_str = (\<lambda>s. map_option of_nat (parse_digits 0 s))\<rparr>"

definition ex_json :: string where
  "ex_json = ''{'' @ quoted ''account_rewards'' @ '': ['' @ [CHR 10] @ ''  {'' @
     quoted ''address'' @ '': '' @ quoted ''0x00'' @ '', '' @ quoted ''pos_identifier'' @ '': '' @ quoted ''00'' @ '', '' @
     quoted ''reward'' @ '': '' @ quoted ''42'' @ ''}]}''"

definition ex_entry :: pos_reward_entry where
  "ex_entry = \<lparr>pre_account_rewards = [\<lparr>pra_address = Address_zero, pra_pos_identifier = H256_zero, pra_reward = 42\<rparr>],
     pre_execution_epoch_hash = H256_zero\<rparr>"

definition ex_json_bytes :: bytes where
  "ex_json_bytes = map (\<lambda>c. of_nat (of_char c)) ex_json"

lemma ex_json_text: "valid_utf8 ex_json_bytes" "map (\<lambda>b. char_of (unat b)) ex_json_bytes = ex_json"
  by code_simp+

lemma ex_json_entry: "parse_reward_json ex_text ex_json = Inr ex_entry"
  by code_simp

definition ex_one :: "u8 packet" where
  "ex_one = ex_packet [ex_block 0 2 []]"

lemma ex_one_valid: "validate_input ex_one = Inr ()"
  by code_simp

text \<open>Its packet is decoded to a block without payload, which takes the reward.\<close>

definition ex_kept :: "u8 \<Rightarrow> h256 \<Rightarrow> u8 block" where
  "ex_kept flags root = (ex_block 0 2 [])\<lparr>b_flags := flags, b_deferred_state_root := root,
     b_deferred_receipts_root := root, b_deferred_logs_bloom_hash := root\<rparr>"

lemma ex_one_decoded:
  obtains data flags root where "encode_packet ex_tx ex_rlp ex_snap ex_one = Inr data" "length data < 100000"
    "decode_packet_ext ex_tx ex_rlp ex_snap data POS_REF_HEIGHT = Inr (ex_packet [ex_kept flags root])" "bit flags 1" "flags AND 128 = 0"
proof -
  from ex_packet_encodes [of "[ex_block 0 2 []]"] ex_one_valid
  obtain data where data: "encode_packet ex_tx ex_rlp ex_snap ex_one = Inr data" "length data < 100000"
    unfolding ex_one_def by fastforce
  have plain: "plain_packet ex_tx ex_one"
    by (simp add: plain_packet_def ex_one_def plain_block_def)
  have fits: "txs_fit ex_tx ex_one (p_blocks ex_one)" by (simp add: txs_fit_def ex_one_def)
  have pos: "\<forall>b \<in> set (p_blocks ex_one). pos_view_ok (p_min_pos_height ex_one) POS_REF_HEIGHT b"
    by (simp add: ex_one_def) (simp add: pos_view_ok_def ex_block_def POS_REF_HEIGHT_def)
  have "length data < 2 ^ 64" using data(2) by simp
  from plain_round_trip [OF data(1) this ex_rlp_law ex_snap_law plain _ _ _ pos fits]
  obtain bs where "decode_packet_ext ex_tx ex_rlp ex_snap data POS_REF_HEIGHT = Inr (ex_one\<lparr>p_blocks := bs\<rparr>)"
    "list_all2 (returned ex_tx) (p_blocks ex_one) bs"
    using ex_nonces by (auto simp: ex_one_def)
  then obtain c where c: "decode_packet_ext ex_tx ex_rlp ex_snap data POS_REF_HEIGHT = Inr (ex_packet [c])"
    "returned ex_tx (ex_block 0 2 []) c"
    by (auto simp: ex_one_def list_all2_Cons1 ex_packet_def)
  from c(2) obtain flags refs where cc: "c = (ex_kept flags (stored_root H256_zero))\<lparr>b_transaction_refs := refs\<rparr>"
    and flags: "flags_without_tx flags = flags_without_tx 2"
    unfolding returned_def ex_kept_def by (simp add: ex_block_def) blast
  from decode_packet_facts [OF c(1)] have "refs_hold [] (b_transactions c) (b_transaction_refs c)"
    by (simp add: decoded_block_ok_def Let_def)
  then have "c = ex_kept flags (stored_root H256_zero)"
    by (simp add: cc refs_hold_def) (simp add: ex_kept_def ex_block_def)
  moreover have "bit flags 1"
    using arg_cong [OF flags, of "\<lambda>f. bit f 1"] by (simp add: bit_flags_without_tx)
  moreover have "flags AND 128 = 0"
  proof -
    have "\<not> bit flags 7"
      using arg_cong [OF flags, of "\<lambda>f. bit f 7"] by (simp add: bit_flags_without_tx)
    then show ?thesis using bit_iff_and_push_bit_not_eq_0 [of flags 7] by simp
  qed
  ultimately show thesis using data c(1) that by blast
qed

definition ex_rewarded :: "u8 \<Rightarrow> h256 \<Rightarrow> u8 packet" where
  "ex_rewarded flags root =
     ex_packet [(ex_kept flags root)\<lparr>b_pos_rewards := [ex_entry\<lparr>pre_execution_epoch_hash := ex_hash 100\<rparr>]\<rparr>]"

lemma ex_with_reward:
  assumes "bit flags 1"
  shows "with_reward ex_entry 5 (ex_packet [ex_kept flags root]) = ex_rewarded flags root"
  using assms flag_bits(3) [of flags]
  by (simp add: with_reward_def ex_rewarded_def) (simp add: ex_kept_def ex_block_def ex_packet_def)

lemma ex_rewarded_encodes:
  assumes "bit flags 1" "flags AND 128 = 0"
  shows "\<exists>d. encode_packet ex_tx ex_rlp ex_snap (ex_rewarded flags root) = Inr d \<and> length d < 100000"
proof -
  let ?p = "ex_rewarded flags root"
  have valid: "validate_input ?p = Inr ()"
    using assms by (simp add: validate_input_def validate_groups.simps ex_rewarded_def is_pivot_def flag_bits ex_kept_def ex_block_def PACKET_EPOCHS_def check_block_def)
  have encodable: "packet_encodable ex_tx ?p" and head: "head_bound ?p = 668"
    using valid
    by (simp_all add: packet_encodable_def head_bound_def table_bytes_def block_encodable_def ex_rewarded_def ex_packet_def ex_kept_def ex_block_def)
  have payloads: "length payloads = 1 \<and> (\<forall>p \<in> set payloads. length p < 1000)" if "packet_payloads ex_tx ex_rlp ?p = Inr payloads" for payloads
    using that
    by (auto simp: ex_rewarded_def ex_packet_def ex_kept_def ex_block_def encode_tx_payload_def ex_rlp_def encode_pos_reward_def
      ex_entry_def length_quote_bytes u256_to_be_def)
  then have small: "length p < 2 ^ 32" if "packet_payloads ex_tx ex_rlp ?p = Inr payloads" "p \<in> set payloads" for payloads p
    using that by fastforce
  obtain ps d where d: "packet_payloads ex_tx ex_rlp ?p = Inr ps" "encode_packet ex_tx ex_rlp ex_snap ?p = Inr d"
    "length d \<le> head_bound ?p + segment_bound ps"
    using encode_packet_total [OF encodable ex_snap_total, of ex_rlp] small by auto
  from payloads [OF d(1)] obtain q where "ps = [q]" "length q < 1000" by (auto simp: length_Suc_conv)
  then have "segment_bound ps < 3000" by (simp add: segment_bound_def)
  with d head show ?thesis by auto
qed

theorem reward_injected_witness:
  "\<exists>data d. encode_packet ex_tx ex_rlp ex_snap ex_one = Inr data \<and>
     (let out = \<lparr>po_group_index = 0, po_start_epoch = 5, po_epoch_count = 1, po_block_count = 1, po_transaction_count = 0,
            po_bytes = data\<rparr>;
          fs = [''a.cfxpack'' \<mapsto> container_bytes 1 (builder_of [out]), ''r.json'' \<mapsto> ex_json_bytes]
      in inject ex_tx ex_rlp ex_snap ex_text fs [''a.cfxpack'', ''r.json'', ''5''] =
         (fs(''a.cfxpack.patched'' \<mapsto> container_bytes 1 (builder_of [out\<lparr>po_bytes := d\<rparr>])), Inr ()))"
proof -
  obtain data flags root where data: "encode_packet ex_tx ex_rlp ex_snap ex_one = Inr data" "length data < 100000"
    "decode_packet_ext ex_tx ex_rlp ex_snap data POS_REF_HEIGHT = Inr (ex_packet [ex_kept flags root])" "bit flags 1" "flags AND 128 = 0"
    by (rule ex_one_decoded)
  from ex_rewarded_encodes [OF data(4,5)] obtain d where
    d: "encode_packet ex_tx ex_rlp ex_snap (ex_rewarded flags root) = Inr d" "length d < 100000" by blast
  let ?out = "\<lparr>po_group_index = 0, po_start_epoch = 5, po_epoch_count = 1, po_block_count = 1, po_transaction_count = 0,
      po_bytes = data\<rparr>"
  let ?fs = "[''a.cfxpack'' \<mapsto> container_bytes 1 (builder_of [?out]), ''r.json'' \<mapsto> ex_json_bytes]"
  have five: "parse_u64 ''5'' = Some 5" by code_simp
  have pack: "repackable ex_tx (ex_packet [ex_kept flags root])"
    using ex_nonces by (simp add: repackable_def txs_fit_def) (simp add: ex_kept_def ex_block_def)
  have pivot: "\<exists>pk \<in> set [ex_packet [ex_kept flags root]]. \<exists>b \<in> set (p_blocks pk). b_epoch b = 5 \<and> b_flags b AND FLAG_PIVOT \<noteq> 0"
    using data(4) by (simp add: flag_bits) (simp add: ex_kept_def ex_block_def)
  have "inject ex_tx ex_rlp ex_snap ex_text ?fs [''a.cfxpack'', ''r.json'', ''5''] =
      (?fs(''a.cfxpack.patched'' \<mapsto> container_bytes 1 (builder_of [?out\<lparr>po_bytes := d\<rparr>])), Inr ())"
    using reward_injected [of "[?out]" ex_rlp ex_snap "''5''" 5 ?fs "''r.json''" ex_json ex_text ex_entry "''a.cfxpack''" 1
        ex_tx "[ex_packet [ex_kept flags root]]" "[d]"] pivot data d five pack
    by (simp add: ex_rlp_law ex_snap_law ex_with_reward ex_json_entry read_to_string_def ex_json_text)
  with data(1) show ?thesis by (simp add: Let_def) blast
qed

subsection \<open>From one tool to the other\<close>

text \<open>
  C40: what the tool prints of a reward in the database is read back as that reward by the tool that
  injects it: all its accounts in order, and its epoch hash.
\<close>

theorem dumped_reward_parses:
  assumes "text_law L X" "reward_stored V val entry" "rk_cf_handle pow ''col7''"
    and "rk_get_cf pow ''col7'' (u64_to_be pos_epoch) = Inr (Some val)"
  shows "\<exists>out. get_reward pow V X pos_epoch = (out, Inr ()) \<and> parse_reward_json L out = Inr entry"
  by (rule dumped_text_parses [OF assms])

definition hex_digits :: string where
  "hex_digits = ''0123456789abcdef''"

definition ex_hex :: "bytes \<Rightarrow> string" where
  "ex_hex bs = concat (map (\<lambda>b. [hex_digits ! (unat b div 16), hex_digits ! (unat b mod 16)]) bs)"

definition hex_val :: "char \<Rightarrow> nat" where
  "hex_val c = length (takeWhile (\<lambda>d. d \<noteq> c) hex_digits)"

fun ex_unhex :: "string \<Rightarrow> bytes" where
  "ex_unhex (a # b # cs) = of_nat (16 * hex_val a + hex_val b) # ex_unhex cs"
| "ex_unhex _ = []"

lemma hex_val_digit: "n < 16 \<Longrightarrow> hex_val (hex_digits ! n) = n"
proof -
  have "\<forall>n \<in> set [0..<16]. hex_val (hex_digits ! n) = n" by code_simp
  then show "n < 16 \<Longrightarrow> hex_val (hex_digits ! n) = n" by simp
qed

lemma hex_range: "unat (b :: u8) div 16 < 16" "unat b mod 16 < 16"
proof -
  have "unat b < 16 * 16" using unsigned_less [of b, where ?'a = nat] by simp
  then show "unat b div 16 < 16" by (intro less_mult_imp_div_less) simp
qed simp

lemma ex_unhex_hex: "ex_unhex (ex_hex bs) = bs"
proof (induction bs)
  case (Cons b bs)
  with hex_range [of b] show ?case by (simp add: ex_hex_def hex_val_digit)
qed (simp add: ex_hex_def)

lemma ex_hex_chars: "set (ex_hex bs) \<subseteq> set hex_digits"
proof -
  have "hex_digits ! n \<in> set hex_digits" if "n < 16" for n
    by (rule nth_mem) (use that in \<open>simp add: hex_digits_def\<close>)
  with hex_range show ?thesis by (auto simp: ex_hex_def)
qed

definition ex_parsers :: text_lib where
  "ex_parsers = \<lparr>tx_parse_h256 = (\<lambda>s. Some (H256 (ex_unhex s))), tx_parse_address = (\<lambda>s. Some (Address (ex_unhex s))),
     tx_from_dec_str = (\<lambda>s. map_option of_nat (parse_digits 0 s))\<rparr>"

definition ex_show :: show_lib where
  "ex_show = \<lparr>sh_hex = ex_hex, sh_u256 = (\<lambda>v. dec_digits (unat v))\<rparr>"

lemma ex_text_law: "text_law ex_parsers ex_show"
proof -
  have "digit_of ` {..<10} \<subseteq> set ''0123456789''"
  proof -
    have "\<forall>n \<in> set [0..<10]. digit_of n \<in> set ''0123456789''" by code_simp
    then show ?thesis by auto
  qed
  then have "set (dec_digits n) \<subseteq> set ''0123456789''" for n using set_dec_digits [of n] by (rule order_trans [rotated])
  moreover have "set (ex_hex bs) \<subseteq> set ''0123456789abcdef''" for bs using ex_hex_chars [of bs] by (simp only: hex_digits_def)
  ultimately show ?thesis
    by (simp add: text_law_def ex_parsers_def ex_show_def ex_unhex_hex parse_dec_digits)
qed

datatype ex_item = Leaf bytes | Node "ex_item list"

definition ex_items :: "ex_item bytes_view" where
  "ex_items = \<lparr>rv_new = (\<lambda>bs. Node [Node [Node [Leaf (replicate 20 0), Leaf (replicate 32 0), Leaf bs]], Leaf (replicate 32 0)]),
     rv_at = (\<lambda>r i. case r of Node xs \<Rightarrow> if i < length xs then Inr (xs ! i) else Inl (Bail ''index'') | _ \<Rightarrow> Inl (Bail ''leaf'')),
     rv_item_count = (\<lambda>r. case r of Node xs \<Rightarrow> Inr (length xs) | _ \<Rightarrow> Inl (Bail ''leaf'')),
     rv_h256 = (\<lambda>_. Inl (Bail ''unused'')), rv_address = (\<lambda>_. Inl (Bail ''unused'')), rv_u64 = (\<lambda>_. Inl (Bail ''unused'')),
     rv_u256 = (\<lambda>_. Inl (Bail ''unused'')), rv_h256_list = (\<lambda>_. Inl (Bail ''unused'')),
     rv_bytes = (\<lambda>r. case r of Leaf bs \<Rightarrow> Inr bs | _ \<Rightarrow> Inl (Bail ''list''))\<rparr>"

definition ex_column7 :: "unit rocks" where
  "ex_column7 = \<lparr>rk_cf_handle = (\<lambda>cf. cf = ''col7''), rk_get_cf = (\<lambda>cf key. Inr (if key = u64_to_be 9 then Some [42] else None)),
     rk_iter = (\<lambda>_. ()), rk_seek_start = Inr, rk_seek_key = (\<lambda>_. Inr), rk_valid = (\<lambda>_. Inr False), rk_key = (\<lambda>_. []),
     rk_value = (\<lambda>_. []), rk_next = Inr\<rparr>"

lemma ex_reward_stored: "reward_stored ex_items [42] ex_entry"
proof -
  have "as_bytes H256_zero = replicate 32 0" "address_bytes Address_zero = replicate 20 0"
    by (simp_all add: H256_zero.rep_eq Address_zero.rep_eq)
  then show ?thesis
    by (simp add: reward_stored_def account_stored_def ex_items_def ex_entry_def from_big_endian_def be_nat_def)
qed

theorem dumped_reward_parses_witness:
  "\<exists>out. get_reward ex_column7 ex_items ex_show 9 = (out, Inr ()) \<and> parse_reward_json ex_parsers out = Inr ex_entry"
  using dumped_reward_parses [OF ex_text_law ex_reward_stored, of ex_column7 9] by (simp add: ex_column7_def)

end
