(* ===== verification/Trace_Runner.thy ===== *)
theory Trace_Runner
  imports Mpt_Store Pack_Container
begin

text \<open>
  \<open>crates/minimal-mpt/src/bin/trace_standalone.rs\<close>: the program that runs a fixed sequence of
  operations and scenarios on the state and prints what they return, to be compared with the
  output of another implementation.

  What is printed are the lines of the two output streams, in order; they stay when the program
  panics behind them. Whether the environment variable \<open>CFX_TRACE_DUMP_KEYS\<close> is set is the
  argument \<open>dump\<close>. \<open>dec_digits\<close> of \<open>Pack_Container\<close> prints integers.
\<close>

datatype line = Stdout string | Stderr string

type_synonym 'a traced = "line list \<times> 'a result"

definition ret :: "'a \<Rightarrow> 'a traced" where
  "ret a = ([], Inr a)"

definition emit :: "line \<Rightarrow> 'a traced \<Rightarrow> 'a traced" where
  "emit l rest = (l # fst rest, snd rest)"

definition tbind :: "'a traced \<Rightarrow> ('a \<Rightarrow> 'b traced) \<Rightarrow> 'b traced" where
  "tbind t f = (case snd t of Inl e \<Rightarrow> (fst t, Inl e) | Inr a \<Rightarrow> (fst t @ fst (f a), snd (f a)))"

text \<open>\<open>unwrap\<close> of a result: of a call that leaves a state, and of one that does not.\<close>

definition panic_of :: "failure \<Rightarrow> failure" where
  "panic_of e = (case e of Err _ \<Rightarrow> Panic ''called unwrap on an Err value'' | Panic m \<Rightarrow> Panic m)"

definition unwrap :: "'a result \<Rightarrow> ('a \<Rightarrow> 'b traced) \<Rightarrow> 'b traced" where
  "unwrap r f = (case r of Inl e \<Rightarrow> ([], Inl (panic_of e)) | Inr a \<Rightarrow> f a)"

definition unwrap_call :: "'a result \<times> 's \<Rightarrow> ('a \<Rightarrow> 's \<Rightarrow> 'b traced) \<Rightarrow> 'b traced" where
  "unwrap_call r f = unwrap (fst r) (\<lambda>a. f a (snd r))"

subsection \<open>Keys, values and formats\<close>

definition trace_id :: "u32 \<Rightarrow> u8" where
  "trace_id step = ucast ((step * 37 + 11) mod 64)"

definition account_key :: "u8 \<Rightarrow> storage_key_with_space" where
  "account_key i = \<lparr>sk_key = Account (replicate 20 i),
                     sk_space = (if i mod 3 = 0 then Ethereum else Native)\<rparr>"

definition short_account :: "bytes \<Rightarrow> storage_key_with_space" where
  "short_account bs = \<lparr>sk_key = Account bs, sk_space = Native\<rparr>"

definition slot_of :: "u8 \<Rightarrow> bytes \<Rightarrow> space \<Rightarrow> storage_key_with_space" where
  "slot_of address_byte skey sp =
     \<lparr>sk_key = Storage (replicate 20 address_byte) skey, sk_space = sp\<rparr>"

definition value_for :: "u32 \<Rightarrow> u8 \<Rightarrow> bytes" where
  "value_for step b = map (\<lambda>i. b + ucast step + of_nat i) [0..<1 + unat step mod 47]"

definition hex_digit :: "nat \<Rightarrow> char" where
  "hex_digit n = ''0123456789abcdef'' ! n"

definition hex :: "bytes \<Rightarrow> string" where
  "hex bs = concat (map (\<lambda>b. [hex_digit (unat b div 16), hex_digit (unat b mod 16)]) bs)"

definition hex_of :: "h256 \<Rightarrow> string" where
  "hex_of h = hex (as_bytes h)"

text \<open>\<open>value.map(|v| hex(&v)).unwrap_or_else(|| "-")\<close>, as every read is printed.\<close>

definition hex_or_dash :: "bytes option \<Rightarrow> string" where
  "hex_or_dash v = (case v of None \<Rightarrow> ''-'' | Some v \<Rightarrow> hex v)"

fun join_strings :: "string \<Rightarrow> string list \<Rightarrow> string" where
  "join_strings sep [] = ''''"
| "join_strings sep [s] = s"
| "join_strings sep (s # ss) = s @ sep @ join_strings sep ss"

text \<open>\<open>Vec::sort\<close> of pairs: the order of the keys, and of the values for one key.\<close>

definition sort_pairs :: "(bytes \<times> bytes) list \<Rightarrow> (bytes \<times> bytes) list" where
  "sort_pairs kvs = sort_key fst (sort_key snd kvs)"

definition format_prefix_result :: "(bytes \<times> bytes) list option \<Rightarrow> string" where
  "format_prefix_result values =
     (case values of
        None \<Rightarrow> ''-''
      | Some values \<Rightarrow>
          join_strings '','' (map (\<lambda>(key, value). hex key @ ''='' @ hex value) (sort_pairs values)))"

definition format_root :: "commit_root \<Rightarrow> string" where
  "format_root root =
     join_strings '':'' [hex_of (cr_snapshot_root root), hex_of (cr_intermediate_delta_root root),
       hex_of (cr_delta_root root), hex_of (cr_state_root_hash root)]"

text \<open>\<open>println!\<close> of the words of a line, which are separated by single spaces.\<close>

definition say :: "string list \<Rightarrow> 'a traced \<Rightarrow> 'a traced" where
  "say words rest = emit (Stdout (join_strings '' '' words)) rest"

definition show_u32 :: "u32 \<Rightarrow> string" where
  "show_u32 n = dec_digits (unat n)"

definition show_u8 :: "u8 \<Rightarrow> string" where
  "show_u8 n = dec_digits (unat n)"

subsection \<open>The long run\<close>

fun dump_raw_keys :: "(bytes \<Rightarrow> h256) \<Rightarrow> u32 list \<Rightarrow> unit traced" where
  "dump_raw_keys kc [] = ret ()"
| "dump_raw_keys kc (step # steps) =
     (let id = trace_id step
      in unwrap (fst (to_delta_mpt_key_bytes kc (account_key id) (genesis kc) None)) (\<lambda>raw.
           emit (Stderr (join_strings '' '' [''RAW'', show_u32 step, show_u8 id, hex raw]))
             (dump_raw_keys kc steps)))"

definition dump_step_10_raw_keys :: "(bytes \<Rightarrow> h256) \<Rightarrow> unit traced" where
  "dump_step_10_raw_keys kc = dump_raw_keys kc (map of_nat [1..<8])"

definition trace_step :: "(bytes \<Rightarrow> h256) \<Rightarrow> bool \<Rightarrow> u32 \<Rightarrow> state \<Rightarrow> state traced" where
  "trace_step kc dump step s =
     (let id = trace_id step; key = account_key id; arm = unat step mod 11
      in if arm = 0 then
           unwrap_call (state_set kc key [] s) (\<lambda>_ s.
             say [''D'', show_u32 step, show_u8 id] (ret s))
         else if arm \<le> 7 then
           (let value = value_for step id
            in unwrap_call (state_set kc key value s) (\<lambda>_ s.
                 say [''S'', show_u32 step, show_u8 id, hex value] (ret s)))
         else if arm = 8 \<or> arm = 9 then
           unwrap_call (state_get kc key s) (\<lambda>value s.
             say [''G'', show_u32 step, show_u8 id, hex_or_dash value] (ret s))
         else
           unwrap_call (state_commit kc s) (\<lambda>root s.
             tbind (if step = 10 \<and> dump then dump_step_10_raw_keys kc else ret ()) (\<lambda>_.
               say [''C'', show_u32 step, hex_of (cr_delta_root root), hex_of (cr_state_root_hash root)]
                 (ret s))))"

fun trace_steps :: "(bytes \<Rightarrow> h256) \<Rightarrow> bool \<Rightarrow> u32 list \<Rightarrow> state \<Rightarrow> state traced" where
  "trace_steps kc dump [] s = ret s"
| "trace_steps kc dump (step # steps) s =
     tbind (trace_step kc dump step s) (trace_steps kc dump steps)"

text \<open>Loops that write: the entries in order, on the state and on the manager.\<close>

fun set_each :: "(bytes \<Rightarrow> h256) \<Rightarrow> (storage_key_with_space \<times> bytes) list \<Rightarrow> state \<Rightarrow> state traced" where
  "set_each kc [] s = ret s"
| "set_each kc ((key, value) # kvs) s = unwrap_call (state_set kc key value s) (\<lambda>_ s. set_each kc kvs s)"

fun manager_set_each ::
  "(bytes \<Rightarrow> h256) \<Rightarrow> (storage_key_with_space \<times> bytes) list \<Rightarrow> 'st state_manager \<Rightarrow> 'st state_manager traced" where
  "manager_set_each kc [] m = ret m"
| "manager_set_each kc ((key, value) # kvs) m =
     unwrap_call (manager_set kc key value m) (\<lambda>_ m. manager_set_each kc kvs m)"

subsection \<open>Scenarios on a state\<close>

definition trace_storage_prefix_delta_bug :: "(bytes \<Rightarrow> h256) \<Rightarrow> unit traced" where
  "trace_storage_prefix_delta_bug kc =
     (let s = state_new kc;
          pre = [0xab, 0xcd];
          full_storage_key = pre @ replicate 30 0x11;
          key = slot_of 7 full_storage_key Native;
          prefix_key = slot_of 7 pre Native;
          value = [0x42, 0x24]
      in unwrap_call (state_set kc key value s) (\<lambda>_ s.
         say [''PSET'', hex value] (
         unwrap (get_all_by_prefix kc prefix_key s) (\<lambda>read.
         say [''PGET'', format_prefix_result read] (
         unwrap_call (delete_all_by_prefix kc prefix_key s) (\<lambda>deleted s.
         say [''PDEL'', format_prefix_result deleted] (
         unwrap_call (state_get kc key s) (\<lambda>after s.
         say [''PPOST'', hex_or_dash after] (ret ())))))))))"

definition trace_storage_prefix_snapshot_hit :: "(bytes \<Rightarrow> h256) \<Rightarrow> unit traced" where
  "trace_storage_prefix_snapshot_hit kc =
     (let pre = [0xab, 0xcd];
          full_storage_key = pre @ replicate 30 0x22;
          key = slot_of 8 full_storage_key Native;
          prefix_key = slot_of 8 pre Native;
          value = [0x55, 0x66]
      in unwrap (to_key_bytes key) (\<lambda>raw.
         unwrap (state_from_snapshot kc (bt_insert raw value [])) (\<lambda>s.
         unwrap (get_all_by_prefix kc prefix_key s) (\<lambda>read.
         say [''SNPGET'', format_prefix_result read] (
         unwrap_call (delete_all_by_prefix kc prefix_key s) (\<lambda>deleted s.
         say [''SNPDEL'', format_prefix_result deleted] (
         unwrap_call (state_get kc key s) (\<lambda>after s.
         say [''SNPPOST'', hex_or_dash after] (ret ())))))))))"

definition order_entries :: "(storage_key_with_space \<times> bytes) list" where
  "order_entries = map (\<lambda>idx. (account_key (of_nat idx), [of_nat idx, of_nat idx * 3])) [0..<24]"

definition trace_set_order :: "(bytes \<Rightarrow> h256) \<Rightarrow> unit traced" where
  "trace_set_order kc =
     tbind (set_each kc order_entries (state_new kc)) (\<lambda>forward.
     tbind (set_each kc (rev order_entries) (state_new kc)) (\<lambda>reverse.
     unwrap_call (state_commit kc forward) (\<lambda>a _.
     unwrap_call (state_commit kc reverse) (\<lambda>b _.
     say [''ORDER'', hex_of (cr_delta_root a), hex_of (cr_delta_root b),
          (if cr_delta_root a = cr_delta_root b then ''true'' else ''false'')] (ret ())))))"

definition trace_short_account_prefix_delete_all :: "(bytes \<Rightarrow> h256) \<Rightarrow> unit traced" where
  "trace_short_account_prefix_delete_all kc =
     tbind (set_each kc (map (\<lambda>id. (short_account [0x31, id], [id, id + 1])) (map of_nat [0..<8])) (state_new kc)) (\<lambda>s.
     tbind (set_each kc (map (\<lambda>id. (short_account [0x42, id], [id + 10])) (map of_nat [0..<5])) s) (\<lambda>s.
     unwrap_call (delete_all_by_prefix kc (short_account [0x31]) s) (\<lambda>deleted s.
     say [''APDEL'', format_prefix_result deleted] (
     unwrap_call (delete_all_by_prefix kc (short_account [0x31]) s) (\<lambda>deleted_again s.
     say [''APDEL2'', format_prefix_result deleted_again] (
     unwrap_call (state_get kc (short_account [0x42, 3]) s) (\<lambda>kept s.
     say [''APKEEP'', hex_or_dash kept] (ret ()))))))))"

definition trace_set_delete :: "(bytes \<Rightarrow> h256) \<Rightarrow> unit traced" where
  "trace_set_delete kc =
     (let s = state_new kc; key = account_key 0x5a
      in unwrap_call (state_set kc key [0x99] s) (\<lambda>_ s.
         unwrap_call (state_get kc key s) (\<lambda>before s.
         unwrap_call (state_set kc key [] s) (\<lambda>_ s.
         unwrap_call (state_get kc key s) (\<lambda>after s.
         unwrap_call (state_commit kc s) (\<lambda>root s.
         say [''SETDEL'', hex_or_dash before, hex_or_dash after, hex_of (cr_delta_root root)] (ret ())))))))"

definition trace_address_prefix_filter :: "(bytes \<Rightarrow> h256) \<Rightarrow> unit traced" where
  "trace_address_prefix_filter kc =
     (let s = state_new kc;
          keep = short_account [0x52, 0x01];
          gone = short_account [0x51, 0x01];
          pre = \<lparr>sk_key = AddressPrefix [0x51], sk_space = Native\<rparr>
      in unwrap_call (state_set kc keep [0x10] s) (\<lambda>_ s.
         unwrap_call (state_set kc gone [0x20] s) (\<lambda>_ s.
         unwrap_call (delete_all_by_prefix kc pre s) (\<lambda>deleted s.
         say [''ADDRDEL'', format_prefix_result deleted] (
         unwrap_call (state_get kc keep s) (\<lambda>kept s.
         unwrap_call (state_get kc gone s) (\<lambda>left s.
         say [''ADDRPOST'', hex_or_dash kept, hex_or_dash left] (ret ()))))))))"

subsection \<open>Scenarios on a manager that rotates every second commit\<close>

definition new_manager :: "(bytes \<Rightarrow> h256) \<Rightarrow> memory_store state_manager result" where
  "new_manager kc = state_manager_with_epoch_count kc memory_load_latest memory_store_new 2"

definition commit_manager ::
  "(bytes \<Rightarrow> h256) \<Rightarrow> memory_store state_manager \<Rightarrow> commit_root result \<times> memory_store state_manager" where
  "commit_manager kc = state_manager_commit kc memory_save_latest"

text \<open>A commit whose root is printed, and one whose root is dropped.\<close>

definition say_commit ::
  "(bytes \<Rightarrow> h256) \<Rightarrow> string \<Rightarrow> memory_store state_manager \<Rightarrow> memory_store state_manager traced" where
  "say_commit kc label m = unwrap_call (commit_manager kc m) (\<lambda>root m. say [label, format_root root] (ret m))"

text \<open>A line with the values of some keys.\<close>

fun read_each ::
  "(bytes \<Rightarrow> h256) \<Rightarrow> storage_key_with_space list \<Rightarrow> 'st state_manager \<Rightarrow> (string list \<times> 'st state_manager) traced" where
  "read_each kc [] m = ret ([], m)"
| "read_each kc (key # keys) m =
     unwrap_call (manager_get kc key m) (\<lambda>v m.
       tbind (read_each kc keys m) (\<lambda>(words, m). ret (hex_or_dash v # words, m)))"

definition say_reads ::
  "(bytes \<Rightarrow> h256) \<Rightarrow> string \<Rightarrow> storage_key_with_space list \<Rightarrow> 'st state_manager \<Rightarrow> 'st state_manager traced" where
  "say_reads kc label keys m = tbind (read_each kc keys m) (\<lambda>(words, m). say (label # words) (ret m))"

definition trace_snapshot_rollover :: "(bytes \<Rightarrow> h256) \<Rightarrow> unit traced" where
  "trace_snapshot_rollover kc =
     (let key_a = account_key 0x21; key_b = account_key 0x22;
          key_c = account_key 0x23; key_d = account_key 0x20
      in unwrap (new_manager kc) (\<lambda>m.
         unwrap_call (manager_set kc key_a [0xa1] m) (\<lambda>_ m.
         tbind (say_commit kc ''ROLL1'' m) (\<lambda>m.
         tbind (say_commit kc ''ROLL2'' m) (\<lambda>m.
         tbind (say_commit kc ''ROLL3'' m) (\<lambda>m.
         tbind (say_reads kc ''ROLL3GET'' [key_a] m) (\<lambda>m.
         unwrap_call (manager_set kc key_b [0xb2] m) (\<lambda>_ m.
         tbind (say_commit kc ''ROLL4'' m) (\<lambda>m.
         tbind (say_commit kc ''ROLL5'' m) (\<lambda>m.
         tbind (say_reads kc ''ROLL5GET'' [key_a, key_b] m) (\<lambda>m.
         unwrap_call (manager_set kc key_a [] m) (\<lambda>_ m.
         unwrap_call (manager_set kc key_c [0xc3] m) (\<lambda>_ m.
         unwrap_call (manager_set kc key_d [0xd4] m) (\<lambda>_ m.
         tbind (say_commit kc ''ROLL6'' m) (\<lambda>m.
         tbind (say_commit kc ''ROLL7'' m) (\<lambda>m.
         tbind (say_reads kc ''ROLL7GET'' [key_a, key_b, key_c, key_d] m) (\<lambda>m.
         tbind (say_commit kc ''ROLL8'' m) (\<lambda>m.
         tbind (say_commit kc ''ROLL9'' m) (\<lambda>m.
         tbind (say_reads kc ''ROLL9GET'' [key_a, key_b, key_c, key_d] m) (\<lambda>m.
         ret ()))))))))))))))))))))"

definition trace_intermediate_prefix_bug :: "(bytes \<Rightarrow> h256) \<Rightarrow> unit traced" where
  "trace_intermediate_prefix_bug kc =
     (let pre = [0xab, 0xcd];
          full_storage_key = pre @ replicate 30 0x33;
          key = slot_of 9 full_storage_key Native;
          prefix_key = slot_of 9 pre Native
      in unwrap (new_manager kc) (\<lambda>m.
         unwrap_call (manager_set kc key [0x77] m) (\<lambda>_ m.
         unwrap_call (commit_manager kc m) (\<lambda>_ m.
         unwrap_call (commit_manager kc m) (\<lambda>_ m.
         unwrap (manager_get_all_by_prefix kc prefix_key m) (\<lambda>read.
         say [''IPGET'', format_prefix_result read] (
         unwrap_call (manager_delete_all_by_prefix kc prefix_key m) (\<lambda>deleted m.
         say [''IPDEL'', format_prefix_result deleted] (
         tbind (say_reads kc ''IPPOST'' [key] m) (\<lambda>m. ret ()))))))))))"

definition trace_intermediate_account_prefix :: "(bytes \<Rightarrow> h256) \<Rightarrow> unit traced" where
  "trace_intermediate_account_prefix kc =
     (let pre = short_account [0x61]
      in unwrap (new_manager kc) (\<lambda>m.
         tbind (manager_set_each kc (map (\<lambda>id. (short_account [0x61, id], [id + 1])) (map of_nat [0..<4])) m) (\<lambda>m.
         unwrap_call (manager_set kc (short_account [0x62, 0]) [0x99] m) (\<lambda>_ m.
         unwrap_call (commit_manager kc m) (\<lambda>_ m.
         unwrap_call (commit_manager kc m) (\<lambda>_ m.
         unwrap (manager_get_all_by_prefix kc pre m) (\<lambda>read.
         say [''IAPGET'', format_prefix_result read] (
         unwrap_call (manager_delete_all_by_prefix kc pre m) (\<lambda>deleted m.
         say [''IAPDEL'', format_prefix_result deleted] (
         tbind (say_reads kc ''IAPPOST'' [short_account [0x61, 2], short_account [0x62, 0]] m) (\<lambda>m.
         ret ())))))))))))"

definition trace_intermediate_address_prefix_filter :: "(bytes \<Rightarrow> h256) \<Rightarrow> unit traced" where
  "trace_intermediate_address_prefix_filter kc =
     (let keep = short_account [0x52, 0x02];
          gone = short_account [0x51, 0x02];
          pre = \<lparr>sk_key = AddressPrefix [0x51], sk_space = Native\<rparr>
      in unwrap (new_manager kc) (\<lambda>m.
         unwrap_call (manager_set kc keep [0x30] m) (\<lambda>_ m.
         unwrap_call (manager_set kc gone [0x40] m) (\<lambda>_ m.
         unwrap_call (commit_manager kc m) (\<lambda>_ m.
         unwrap_call (commit_manager kc m) (\<lambda>_ m.
         unwrap_call (manager_delete_all_by_prefix kc pre m) (\<lambda>deleted m.
         say [''IADDRDEL'', format_prefix_result deleted] (
         tbind (say_reads kc ''IADDRPOST'' [keep, gone] m) (\<lambda>m. ret ())))))))))"

subsection \<open>The program\<close>

definition trace_main :: "(bytes \<Rightarrow> h256) \<Rightarrow> bool \<Rightarrow> unit traced" where
  "trace_main kc dump =
     tbind (trace_steps kc dump (map of_nat [0..<800]) (state_new kc)) (\<lambda>s.
     unwrap_call (state_commit kc s) (\<lambda>root _.
     say [''F'', hex_of (cr_delta_root root), hex_of (cr_state_root_hash root)] (
     tbind (trace_storage_prefix_delta_bug kc) (\<lambda>_.
     tbind (trace_storage_prefix_snapshot_hit kc) (\<lambda>_.
     tbind (trace_set_order kc) (\<lambda>_.
     tbind (trace_short_account_prefix_delete_all kc) (\<lambda>_.
     tbind (trace_set_delete kc) (\<lambda>_.
     tbind (trace_snapshot_rollover kc) (\<lambda>_.
     tbind (trace_intermediate_prefix_bug kc) (\<lambda>_.
     tbind (trace_intermediate_account_prefix kc) (\<lambda>_.
     tbind (trace_address_prefix_filter kc) (\<lambda>_.
     trace_intermediate_address_prefix_filter kc))))))))))))"

end
