(* ===== verification/Partial_Prefix.thy ===== *)
theory Partial_Prefix
  imports State_Prefix Trace_Runner
begin

text \<open>
  Prefixes that are not at the boundary of a hashed field, and states whose keys are not hashed.
\<close>

section \<open>Beginnings of slot keys\<close>

text \<open>
  Prefix operations whose prefix is the beginning of a slot key: the delta key of such a prefix
  carries the hash of the beginning, not of the whole slot key, so that it is no prefix of the
  entries it is meant to select. What the operations do then: they see the snapshot alone.
\<close>

definition slot_prefix :: "bytes \<Rightarrow> bytes \<Rightarrow> space \<Rightarrow> storage_key_with_space" where
  "slot_prefix a q sp = \<lparr>sk_key = Storage a q, sk_space = sp\<rparr>"

text \<open>No entry of the layer has a slot key that continues \<open>q\<close> and hashes to the padding of \<open>q\<close>.\<close>

definition pads_apart ::
  "(bytes \<Rightarrow> h256) \<Rightarrow> delta_mpt_key_padding \<Rightarrow> bytes \<Rightarrow> bytes \<Rightarrow> space \<Rightarrow> (bytes \<rightharpoonup> mpt_value) \<Rightarrow> bool" where
  "pads_apart kc p a q sp m \<longleftrightarrow>
     (\<forall>r. m (canonical_key (slot_prefix a (q @ r) sp)) \<noteq> None \<longrightarrow> slot_padding kc p (q @ r) \<noteq> slot_padding kc p q)"

lemma pads_apart_empty [simp]: "pads_apart kc p a q sp Map.empty" "pads_apart kc p a q sp (layer_map [])"
  by (simp_all add: pads_apart_def)

lemma slot_prefix_plain: "length a = 20 \<Longrightarrow> q \<noteq> [] \<Longrightarrow> plain_key (slot_prefix a q sp)"
  by (simp add: slot_prefix_def plain_key_def)

lemma slot_prefix_canonical:
  "length a = 20 \<Longrightarrow> canonical_key (slot_prefix a q sp) = a @ space_mark sp @ STORAGE_PREFIX @ q"
  using raw_key_full(2) [of "slot_prefix a q sp" a] by (simp add: slot_prefix_def)

lemma slot_suffix:
  "prefix (space_mark sp @ STORAGE_PREFIX @ slot_padding kc p q @ q) (space_mark sp' @ delta_suffix kc p key) \<Longrightarrow>
   sp' = sp \<and> (\<exists>b r. key = Storage b (q @ r) \<and> slot_padding kc p (q @ r) = slot_padding kc p q)"
  by (cases key; cases sp; cases sp')
    (auto simp: space_mark_def key_prefixes same_length_prefix_append prefix_def dest: arg_cong [where f = length])

text \<open>An entry below the delta key of a partial slot key is one with the same padding.\<close>

lemma slot_prefix_raw:
  assumes a: "length a = 20" and k: "plain_key k"
    and pre: "prefix (raw_of kc p (slot_prefix a q sp)) (raw_of kc p k)"
  shows "\<exists>r. k = slot_prefix a (q @ r) sp \<and> slot_padding kc p (q @ r) = slot_padding kc p q"
proof -
  have raw: "raw_of kc p (slot_prefix a q sp)
      = account_key_uncached kc a p @ space_mark sp @ STORAGE_PREFIX @ slot_padding kc p q @ q"
    using raw_key_full(1) [of "slot_prefix a q sp" a kc p] a by (simp add: slot_prefix_def)
  have long: "20 \<le> length (raw_of kc p k)"
    using prefix_length_le [OF pre] a by (simp add: raw length_account_key)
  show ?thesis
    using k
  proof (cases k rule: plain_key_cases)
    case (full b)
    from pre have eq: "account_key_uncached kc a p = account_key_uncached kc b p"
      and suffix: "prefix (space_mark sp @ STORAGE_PREFIX @ slot_padding kc p q @ q)
         (space_mark (sk_space k) @ delta_suffix kc p (sk_key k))"
      using a full(2)
      by (simp_all add: raw raw_key_full(1) [OF full(1,2)] same_length_prefix_append length_account_key)
    from account_key_inj [OF eq] have "b = a" by simp
    with slot_suffix [OF suffix] full(1) show ?thesis
      by (cases k) (auto simp: slot_prefix_def)
  next
    case (short b)
    with long show ?thesis by (simp add: raw_of_def short_key(1))
  next
    case empty
    with long show ?thesis by (simp add: raw_of_def short_key(2))
  qed
qed

lemma slot_prefix_scan:
  assumes lo: "layer_ok kc p m" and a: "length a = 20"
    and apart: "pads_apart kc p a q sp (layer_map m)"
  shows "scan_prefix m (raw_of kc p (slot_prefix a q sp)) = []"
proof -
  have "\<not> prefix (raw_of kc p (slot_prefix a q sp)) (fst kv)" if kv: "kv \<in> set m" for kv
  proof
    assume pre: "prefix (raw_of kc p (slot_prefix a q sp)) (fst kv)"
    obtain k where k: "plain_key k" "fst kv = raw_of kc p k"
      using lo kv unfolding layer_ok_def by blast
    then obtain r where r: "k = slot_prefix a (q @ r) sp" "slot_padding kc p (q @ r) = slot_padding kc p q"
      using slot_prefix_raw [OF a k(1) pre [unfolded k(2)]] by blast
    have "layer_map m (canonical_key k) = Some (snd kv)"
      unfolding layer_map_iff [OF lo] using k kv by (metis prod.collapse)
    with r apart show False by (auto simp: pads_apart_def)
  qed
  then show ?thesis
    using lo by (simp add: scan_prefix_filter layer_ok_def filter_empty_conv)
qed

lemma slot_prefix_encodes:
  assumes "length a = 20"
  shows "to_key_bytes (slot_prefix a q sp) = Inr (canonical_key (slot_prefix a q sp))"
    "fst (to_delta_mpt_key_bytes kc (slot_prefix a q sp) p None) = Inr (raw_of kc p (slot_prefix a q sp))"
  using assms to_key_bytes_shape [of "slot_prefix a q sp" a] delta_key_shape [of "slot_prefix a q sp" a kc p]
  by (simp_all add: slot_prefix_def canonical_key_def raw_of_def delta_key_def)

text \<open>The entries of the snapshot below a canonical prefix.\<close>

definition snapshot_pairs :: "bytes \<Rightarrow> state \<Rightarrow> (bytes \<times> bytes) list" where
  "snapshot_pairs cp s = selected cp (st_to_canonical_map (s_snapshot s))"

lemma slot_prefix_filter [simp]: "address_prefix_filter (slot_prefix a q sp) = None"
  by (simp add: slot_prefix_def address_prefix_filter_def)

lemma slot_prefix_read:
  assumes inv: "state_inv kc s" and a: "length a = 20"
    and apart: "pads_apart kc (s_delta_padding s) a q sp (layer_map (s_delta s))"
      "pads_apart kc (s_intermediate_padding s) a q sp (layer_map (s_intermediate s))"
  shows "read_prefix kc (slot_prefix a q sp) s = Inr (snapshot_pairs (canonical_key (slot_prefix a q sp)) s)"
proof -
  have lo: "layer_ok kc (s_delta_padding s) (s_delta s)"
    "layer_ok kc (s_intermediate_padding s) (s_intermediate s)" and st: "st_inv kc (s_snapshot s)"
    using inv by (auto simp: state_inv_defs)
  have d: "distinct (map fst (selected (canonical_key (slot_prefix a q sp)) (st_to_canonical_map (s_snapshot s))))"
    by (intro distinct_selected bt_wf_distinct snap.map_wf [OF st])
  show ?thesis
    using read_snapshot_loop [OF d, of "{}" "[]"]
    by (simp add: read_prefix_def slot_prefix_encodes [OF a] Let_def slot_prefix_scan [OF lo(1) a apart(1)]
        slot_prefix_scan [OF lo(2) a apart(2)] snap.scan_law [OF st] snapshot_pairs_def unseen_def
        flip: selected_def)
qed

lemma slot_prefix_delete:
  assumes inv: "state_inv kc s" and a: "length a = 20"
    and apart: "pads_apart kc (s_delta_padding s) a q sp (layer_map (s_delta s))"
      "pads_apart kc (s_intermediate_padding s) a q sp (layer_map (s_intermediate s))"
  shows "\<exists>s'. delete_prefix kc (slot_prefix a q sp) s
        = (Inr (snapshot_pairs (canonical_key (slot_prefix a q sp)) s), s')
     \<and> state_inv kc s' \<and> same_below s s'
     \<and> state_view s' = (\<lambda>ck. if prefix (canonical_key (slot_prefix a q sp)) ck
            \<and> snapshot_get_owned (s_snapshot s) ck \<noteq> None then None else state_view s ck)"
proof -
  let ?cp = "canonical_key (slot_prefix a q sp)"
  have lo: "layer_ok kc (s_delta_padding s) (s_delta s)"
    "layer_ok kc (s_intermediate_padding s) (s_intermediate s)" and st: "st_inv kc (s_snapshot s)"
    and keys: "canonical_keys (st_to_canonical_map (s_snapshot s))"
    using inv by (auto simp: state_inv_defs)
  let ?b = "selected ?cp (st_to_canonical_map (s_snapshot s))"
  have "\<forall>kv \<in> set ?b. \<exists>k. from_key_bytes (fst kv) = Inr k \<and> plain_key k"
  proof
    fix kv assume kv: "kv \<in> set ?b"
    then obtain k where k: "plain_key k" "fst kv = canonical_key k"
      using keys by (auto simp: canonical_keys_def in_selected)
    have "20 \<le> length (fst kv)"
      using kv a by (auto simp: in_selected slot_prefix_canonical [OF a] dest: prefix_length_le)
    with k show "\<exists>k. from_key_bytes (fst kv) = Inr k \<and> plain_key k"
      using snapshot_key_decodes [of k] by auto
  qed
  moreover have "distinct (map fst ?b)"
    by (intro distinct_selected bt_wf_distinct snap.map_wf [OF st])
  ultimately obtain seen' s' where s': "delete_snapshot kc ?b ({}, []) s = (Inr (seen', [] @ unseen {} ?b), s')"
    "state_inv kc s'" "same_below s s'"
    "layer_map (s_delta s') = tombstoned (fst ` set ?b) (layer_map (s_delta s))"
    using delete_snapshot_loop [OF _ _ inv] by metis
  have run: "delete_prefix kc (slot_prefix a q sp) s = (Inr (snapshot_pairs ?cp s), s')"
    using s'(1) snap.scan_law [OF st, of ?cp]
    by (simp add: delete_prefix_def slot_prefix_encodes [OF a] Let_def slot_prefix_scan [OF lo(1) a apart(1)]
        slot_prefix_scan [OF lo(2) a apart(2)] snapshot_pairs_def unseen_def flip: selected_def)
  have "ck \<in> fst ` set ?b \<longleftrightarrow> prefix ?cp ck \<and> snapshot_get_owned (s_snapshot s) ck \<noteq> None" for ck
    using bt_get_None_iff [of "st_to_canonical_map (s_snapshot s)" ck]
    by (force simp: in_selected snap.map_lookup [OF st] image_iff)
  then have "state_view s' = (\<lambda>ck. if prefix ?cp ck \<and> snapshot_get_owned (s_snapshot s) ck \<noteq> None
      then None else state_view s ck)"
    using s'(3,4) by (auto simp: state_view_def tombstoned_def same_below_def fun_eq_iff)
  with run s'(2,3) show ?thesis by blast
qed

subsection \<open>Equal paddings\<close>

text \<open>
  Where the hash does not tell a slot key from its beginning, the entry is selected. Here for a state
  that has one entry, in its delta or in its intermediate.
\<close>

lemma slot_raw_prefix:
  assumes "length a = 20" "slot_padding kc p (q @ r) = slot_padding kc p q"
  shows "prefix (raw_of kc p (slot_prefix a q sp)) (raw_of kc p (slot_prefix a (q @ r) sp))"
  using raw_key_full(1) [of "slot_prefix a q sp" a kc p] raw_key_full(1) [of "slot_prefix a (q @ r) sp" a kc p] assms
  by (simp add: slot_prefix_def)

lemma lone_scan:
  assumes "layer_ok kc p m" "m = [(raw_of kc p k, MptSome v)]" "plain_key k" "v \<noteq> []"
    and "prefix (raw_of kc p pk) (raw_of kc p k)"
  shows "scan_prefix m (raw_of kc p pk) = m" "rekeyed m = [(canonical_key k, MptSome v)]"
    "unfiltered None [(canonical_key k, MptSome v)] = [(canonical_key k, MptSome v)]"
    "visible_entries [(canonical_key k, MptSome v)] = [(canonical_key k, v)]"
  using assms canonical_of_raw_key [OF assms(3), of kc p]
  by (simp_all add: scan_prefix_filter layer_ok_def rekeyed_def unfiltered_def filtered_out_def visible_entries_def map_filter_simps)

lemma empty_snapshot_scan:
  assumes "st_inv kc (s_snapshot s)" "st_to_canonical_map (s_snapshot s) = []"
  shows "st_scan_prefix (s_snapshot s) cp = []" "snapshot_get_owned (s_snapshot s) ck = None"
  using snap.scan_law [OF assms(1), of cp] fun_cong [OF snap.map_lookup [OF assms(1)], of ck] by (simp_all add: assms(2))

lemma lone_delta_prefix:
  assumes inv: "state_inv kc s" and a: "length a = 20" and q: "q @ r \<noteq> []" and v: "v \<noteq> []"
    and pads: "slot_padding kc (s_delta_padding s) (q @ r) = slot_padding kc (s_delta_padding s) q"
    and layers: "s_delta s = [(raw_of kc (s_delta_padding s) (slot_prefix a (q @ r) sp), MptSome v)]"
      "s_intermediate s = []" "st_to_canonical_map (s_snapshot s) = []"
  shows "read_prefix kc (slot_prefix a q sp) s = Inr [(canonical_key (slot_prefix a (q @ r) sp), v)]"
    "\<exists>s'. delete_prefix kc (slot_prefix a q sp) s = (Inr [(canonical_key (slot_prefix a (q @ r) sp), v)], s')
      \<and> state_inv kc s' \<and> state_view s' = Map.empty"
proof -
  let ?k = "slot_prefix a (q @ r) sp"
  have lo: "layer_ok kc (s_delta_padding s) (s_delta s)" and st: "st_inv kc (s_snapshot s)"
    using inv by (auto simp: state_inv_defs)
  note lone = lone_scan [OF lo layers(1) slot_prefix_plain [OF a q] v slot_raw_prefix [OF a pads]]
  note empty = empty_snapshot_scan [OF st layers(3)]
  have acc: "read_delta None (s_delta s) ({}, []) = Inr ({canonical_key ?k}, [(canonical_key ?k, v)])"
    using read_delta_loop [OF encoded_scan [OF lo], of None "raw_of kc (s_delta_padding s) (slot_prefix a q sp)" "{}" "[]"]
    by (simp only: lone) (simp add: lone)
  show "read_prefix kc (slot_prefix a q sp) s = Inr [(canonical_key ?k, v)]"
    by (simp add: read_prefix_def slot_prefix_encodes [OF a] Let_def lone(1) acc layers(2) empty scan_prefix_filter)
  have wf: "bt_wf (s_delta s)" using lo by (simp add: layer_ok_def)
  obtain s1 where s1: "remove_delta (map fst (s_delta s)) s = (s_delta s, s1)" "state_inv kc s1" "same_below s s1"
    "\<forall>raw. bt_get (s_delta s1) raw = (if raw \<in> fst ` set (s_delta s) then None else bt_get (s_delta s) raw)"
    using remove_delta_loop [OF inv wf] by blast
  have "bt_get (s_delta s1) raw = None" for raw using s1(4) by (simp add: bt_get_None_iff)
  then have gone: "s_delta s1 = []" by (cases "s_delta s1") (auto simp: bt_get_None_iff)
  have below: "s_intermediate s1 = []" "s_snapshot s1 = s_snapshot s"
    using s1(3) layers(2) by (simp_all add: same_below_def)
  have "delete_prefix kc (slot_prefix a q sp) s = (Inr [(canonical_key ?k, v)], s1)"
    using s1(1) by (simp add: delete_prefix_def slot_prefix_encodes [OF a] Let_def lone(1) acc below empty scan_prefix_filter)
  moreover have "state_view s1 = Map.empty" by (simp add: state_view_def gone below empty fun_eq_iff)
  ultimately show "\<exists>s'. delete_prefix kc (slot_prefix a q sp) s = (Inr [(canonical_key ?k, v)], s')
      \<and> state_inv kc s' \<and> state_view s' = Map.empty" using s1(2) by blast
qed

lemma lone_intermediate_prefix:
  assumes inv: "state_inv kc s" and a: "length a = 20" and q: "q @ r \<noteq> []" and v: "v \<noteq> []"
    and pads: "slot_padding kc (s_intermediate_padding s) (q @ r) = slot_padding kc (s_intermediate_padding s) q"
    and layers: "s_intermediate s = [(raw_of kc (s_intermediate_padding s) (slot_prefix a (q @ r) sp), MptSome v)]"
      "s_delta s = []" "st_to_canonical_map (s_snapshot s) = []"
  shows "read_prefix kc (slot_prefix a q sp) s = Inr [(canonical_key (slot_prefix a (q @ r) sp), v)]"
    "\<exists>s'. delete_prefix kc (slot_prefix a q sp) s = (Inr [(canonical_key (slot_prefix a (q @ r) sp), v)], s')
      \<and> state_inv kc s' \<and> state_view s' = Map.empty"
proof -
  let ?k = "slot_prefix a (q @ r) sp"
  have lo: "layer_ok kc (s_intermediate_padding s) (s_intermediate s)" and st: "st_inv kc (s_snapshot s)"
    using inv by (auto simp: state_inv_defs)
  note lone = lone_scan [OF lo layers(1) slot_prefix_plain [OF a q] v slot_raw_prefix [OF a pads]]
  note empty = empty_snapshot_scan [OF st layers(3)]
  have d: "distinct (map fst (rekeyed (s_intermediate s)))" by (simp add: lone(2))
  have acc: "read_intermediate None (s_intermediate s) ({}, []) = Inr ({canonical_key ?k}, [(canonical_key ?k, v)])"
    using read_intermediate_loop [OF encoded_scan [OF lo], of "raw_of kc (s_intermediate_padding s) (slot_prefix a q sp)" None "{}" "[]"] d
    by (simp only: lone) (simp add: lone unseen_def)
  show "read_prefix kc (slot_prefix a q sp) s = Inr [(canonical_key ?k, v)]"
    by (simp add: read_prefix_def slot_prefix_encodes [OF a] Let_def lone(1) acc layers(2) empty scan_prefix_filter)
  obtain s1 where s1: "delete_intermediate kc None (s_intermediate s) ({}, []) s = (Inr ({canonical_key ?k}, [(canonical_key ?k, v)]), s1)"
    "state_inv kc s1" "same_below s s1" "layer_map (s_delta s1) = tombstoned {canonical_key ?k} (layer_map [])"
    using delete_intermediate_loop [OF decodable_layer [OF lo] d inv, of None "{}" "[]"]
    by (auto simp: lone unseen_def layers(2))
  have "delete_prefix kc (slot_prefix a q sp) s = (Inr [(canonical_key ?k, v)], s1)"
    using s1(1) by (simp add: delete_prefix_def slot_prefix_encodes [OF a] Let_def lone(1) layers(2) empty scan_prefix_filter)
  moreover have "layer_map (s_intermediate s1) = [canonical_key ?k \<mapsto> MptSome v]" "s_snapshot s1 = s_snapshot s"
    using s1(3) lone(2) by (simp_all add: same_below_def layer_map_def fun_eq_iff)
  then have "state_view s1 = Map.empty" by (auto simp: state_view_def s1(4) tombstoned_def empty fun_eq_iff)
  ultimately show "\<exists>s'. delete_prefix kc (slot_prefix a q sp) s = (Inr [(canonical_key ?k, v)], s')
      \<and> state_inv kc s' \<and> state_view s' = Map.empty" using s1(2) by blast
qed

section \<open>Short accounts\<close>

text \<open>
  States that hold short accounts only: their keys are not hashed in any layer, so that a prefix
  of a short account selects exactly the accounts that continue it. The state then is the ordered
  map \<open>m\<close>

of its visible entries, and every operation is the operation of that map.
\<close>

definition short_layer :: "(bytes, mpt_value) btree \<Rightarrow> bool" where
  "short_layer m \<longleftrightarrow> (\<forall>kv \<in> set m. length (fst kv) < 20)"

definition short_state :: "(bytes \<Rightarrow> h256) \<Rightarrow> state \<Rightarrow> (bytes, bytes) btree \<Rightarrow> bool" where
  "short_state kc s m \<longleftrightarrow>
     state_inv kc s \<and> short_layer (s_delta s) \<and> short_layer (s_intermediate s)
     \<and> st_to_canonical_map (s_snapshot s) = [] \<and> bt_wf m \<and> state_view s = bt_get m"

lemma short_layer_Nil [simp]: "short_layer []"
  by (simp add: short_layer_def)

lemma short_layer_filter [simp]: "short_layer m \<Longrightarrow> short_layer (filter P m)"
  by (simp add: short_layer_def)

lemma short_layer_insert: "length b < 20 \<Longrightarrow> short_layer m \<Longrightarrow> short_layer (bt_insert b v m)"
  using set_bt_insert_subset [of b v m] by (fastforce simp: short_layer_def)

lemma short_layer_get: "short_layer m \<Longrightarrow> bt_get m b = Some v \<Longrightarrow> length b < 20"
  by (fastforce simp: short_layer_def dest: bt_get_SomeD)

lemma rekeyed_short: "short_layer m \<Longrightarrow> rekeyed m = m"
  by (induction m) (auto simp: short_layer_def rekeyed_def canonical_of_def short_raw)

lemma layer_map_short: "short_layer m \<Longrightarrow> layer_map m = bt_get m"
  by (simp add: layer_map_def rekeyed_short bt_get_def fun_eq_iff)

text \<open>A layer is short when its canonical keys are.\<close>

lemma short_layerI:
  assumes lo: "layer_ok kc p m" and short: "\<And>ck. layer_map m ck \<noteq> None \<Longrightarrow> length ck < 20"
  shows "short_layer m"
  unfolding short_layer_def
proof
  fix kv assume kv: "kv \<in> set m"
  then obtain k where k: "plain_key k" "fst kv = raw_of kc p k"
    using lo unfolding layer_ok_def by blast
  have "layer_map m (canonical_key k) = Some (snd kv)"
    unfolding layer_map_iff [OF lo] using k kv by (metis prod.collapse)
  with short have len: "length (canonical_key k) < 20" by auto
  show "length (fst kv) < 20"
    using k(1)
  proof (cases k rule: plain_key_cases)
    case (full a)
    with len show ?thesis by (simp add: raw_key_full(2))
  next
    case (short a)
    then show ?thesis by (simp add: k(2) raw_of_def short_key(1))
  next
    case empty
    then show ?thesis by (simp add: k(2) raw_of_def short_key(2))
  qed
qed

lemma short_keys:
  assumes "length b < 20"
  shows "plain_key (short_account b)" "canonical_key (short_account b) = b"
    "raw_of kc p (short_account b) = b" "to_key_bytes (short_account b) = Inr b"
    "fst (to_delta_mpt_key_bytes kc (short_account b) p None) = Inr b"
    "address_prefix_filter (short_account b) = None"
  using assms
  by (simp_all add: short_account_def plain_key_def canonical_key_def raw_of_def delta_key_def
      to_key_bytes_def to_delta_mpt_key_bytes_def key_sizes address_prefix_filter_def)

subsection \<open>Reads, writes and commits\<close>

lemma short_new: "short_state kc (with_snapshot_epoch_count kc n) []" "short_state kc (state_new kc) []"
proof -
  have "state_view (state_new kc) = Map.empty"
    by (simp add: state_view_def state_new_def snapshot_get_owned_def snapshot_get_def st_default_def
        it_default_def fun_eq_iff)
  then show "short_state kc (with_snapshot_epoch_count kc n) []" "short_state kc (state_new kc) []"
    using with_snapshot_epoch_count_inv [of kc n]
    by (simp_all add: short_state_def state_new_inv with_snapshot_epoch_count_def)
      (simp_all add: state_new_def fun_eq_iff)
qed

lemma short_set:
  assumes s: "short_state kc s m" and b: "length b < 20"
  shows "fst (state_set kc (short_account b) v s) = Inr ()"
    "short_state kc (snd (state_set kc (short_account b) v s)) (if v = [] then bt_remove b m else bt_insert b v m)"
proof -
  have inv: "state_inv kc s" using s by (simp add: short_state_def)
  obtain c where c: "state_set kc (short_account b) v s = (Inr (),
      s\<lparr>s_delta_account_cache := c,
        s_delta_inc := it_insert b (stored_value v) (s_delta_inc s),
        s_delta := bt_insert b (stored_value v) (s_delta s)\<rparr>)"
    using state_set_eq [OF inv short_keys(1) [OF b], of v] by (auto simp: short_keys(3) [OF b])
  then show "fst (state_set kc (short_account b) v s) = Inr ()" by simp
  show "short_state kc (snd (state_set kc (short_account b) v s)) (if v = [] then bt_remove b m else bt_insert b v m)"
    using state_set_view [OF inv short_keys(1) [OF b], of v] s short_layer_insert [OF b]
    by (auto simp: short_state_def short_keys(2) [OF b] c fun_eq_iff)
qed

lemma short_get:
  assumes s: "short_state kc s m" and b: "length b < 20"
  shows "fst (state_get kc (short_account b) s) = Inr (bt_get m b)"
    "short_state kc (snd (state_get kc (short_account b) s)) m"
  using state_get_correct [OF _ short_keys(1) [OF b], of kc s] s
  by (auto simp: short_state_def short_keys(2) [OF b] same_core_def state_view_def fun_eq_iff)

subsection \<open>Prefix operations\<close>

text \<open>The result of a prefix operation on the ordered map.\<close>

definition below :: "bytes \<Rightarrow> (bytes, bytes) btree \<Rightarrow> (bytes \<times> bytes) list option" where
  "below q m = (let kvs = filter (\<lambda>kv. prefix q (fst kv)) m in if kvs = [] then None else Some kvs)"

lemma bt_get_filter: "bt_get (filter (\<lambda>kv. P (fst kv)) m) k = (if P k then bt_get m k else None)"
  by (induction m) (auto simp: bt_get_def)

lemma sort_pairs_unique:
  assumes "distinct (map fst xs)" "set xs = set ys" "bt_wf ys"
  shows "sort_pairs xs = ys"
proof -
  have "map fst (sort_pairs xs) = map fst ys"
  proof (rule sorted_distinct_set_unique)
    show "sorted (map fst (sort_pairs xs))" by (simp add: sort_pairs_def)
    show "distinct (map fst (sort_pairs xs))" using assms(1) by (simp add: sort_pairs_def distinct_map)
  qed (use assms in \<open>auto simp: sort_pairs_def bt_wf_def strict_sorted_iff\<close>)
  moreover have "set (sort_pairs xs) = set ys" by (simp add: sort_pairs_def assms(2))
  moreover have "inj_on fst (set ys)" using bt_wf_distinct [OF assms(3)] by (simp add: distinct_map)
  ultimately show ?thesis by (simp add: map_inj_on)
qed

lemma format_below:
  assumes "state_inv kc s" "state_view s = bt_get m" "bt_wf m"
  shows "format_prefix_result (if prefix_pairs q s \<noteq> [] then Some (prefix_pairs q s) else None)
       = format_prefix_result (below q m)"
proof -
  let ?m = "filter (\<lambda>kv. prefix q (fst kv)) m"
  have set: "set (prefix_pairs q s) = set ?m"
  proof (rule set_eqI)
    fix kv :: "bytes \<times> bytes"
    obtain ck v where kv: "kv = (ck, v)" by (cases kv)
    show "kv \<in> set (prefix_pairs q s) \<longleftrightarrow> kv \<in> set ?m"
      unfolding kv prefix_pairs_view(1) [OF assms(1)] assms(2) bt_get_iff [OF assms(3)] by auto
  qed
  have eq: "sort_pairs (prefix_pairs q s) = ?m" "sort_pairs ?m = ?m"
    using assms(3) bt_wf_filter [of m] bt_wf_distinct [of ?m]
    by (auto intro!: sort_pairs_unique simp: prefix_pairs_view(2) [OF assms(1)] set)
  have "prefix_pairs q s = [] \<longleftrightarrow> ?m = []" using set by (metis set_empty)
  then show ?thesis by (simp add: below_def Let_def format_prefix_result_def eq)
qed

lemma short_scan:
  assumes "layer_ok kc p m" "short_layer m"
  shows "rekeyed (scan_prefix m q) = selected q (rekeyed m)"
  using assms by (simp add: layer_ok_def scan_prefix_filter rekeyed_short selected_def)

lemma short_selected:
  "short_layer m \<Longrightarrow> layer_ok kc p m \<Longrightarrow> unfiltered None (rekeyed (scan_prefix m q)) = selected q (rekeyed m)"
  by (simp add: unfiltered_def filtered_out_def short_scan)

lemma short_read:
  assumes s: "short_state kc s m" and q: "length q < 20"
  shows "read_prefix kc (short_account q) s = Inr (prefix_pairs q s)"
proof -
  have inv: "state_inv kc s" using s by (simp add: short_state_def)
  have lo: "layer_ok kc (s_delta_padding s) (s_delta s)"
    "layer_ok kc (s_intermediate_padding s) (s_intermediate s)" and st: "st_inv kc (s_snapshot s)"
    using inv by (auto simp: state_inv_defs)
  have short: "short_layer (s_delta s)" "short_layer (s_intermediate s)" "st_to_canonical_map (s_snapshot s) = []"
    using s by (simp_all add: short_state_def)
  show ?thesis
    by (simp add: read_prefix_def short_keys [OF q] Let_def
        read_delta_loop [OF encoded_scan [OF lo(1)]] short_selected [OF short(1) lo(1)]
        read_intermediate_loop [OF encoded_scan [OF lo(2)] rekeyed_scan_distinct [OF lo(2)]]
        short_selected [OF short(2) lo(2)] snap.scan_law [OF st] short(3) prefix_pairs_def selected_def [of q "[]"])
qed

lemma short_get_all:
  assumes s: "short_state kc s m" and q: "length q < 20"
  shows "\<exists>r. get_all_by_prefix kc (short_account q) s = Inr r \<and> format_prefix_result r = format_prefix_result (below q m)"
  using format_below [of kc s m q] s
  unfolding get_all_by_prefix_def short_read [OF s q] rbind_simps short_state_def by blast

lemma short_removed:
  assumes lo: "layer_ok kc p m" and short: "short_layer m" and lo': "layer_ok kc p m'"
    and get: "\<forall>raw. bt_get m' raw = (if raw \<in> fst ` set (scan_prefix m q) then None else bt_get m raw)"
  shows "layer_map m' ck = (if prefix q ck then None else layer_map m ck)"
proof -
  have wf: "bt_wf m" using lo by (simp add: layer_ok_def)
  have get': "bt_get m' raw = (if prefix q raw then None else bt_get m raw)" for raw
    using get by (auto simp: scan_prefix_filter [OF wf] bt_get_None_iff image_iff)
  have "short_layer m'"
    unfolding short_layer_def
  proof
    fix kv assume "kv \<in> set m'"
    then have "bt_get m' (fst kv) \<noteq> None" by (simp add: bt_get_None_iff)
    then have "bt_get m (fst kv) \<noteq> None" using get' by (auto split: if_splits)
    then show "length (fst kv) < 20" using short by (auto simp: bt_get_None_iff short_layer_def)
  qed
  with get' short show ?thesis by (simp add: layer_map_short)
qed

text \<open>With an empty snapshot, a prefix delete changes the delta for the two upper layers alone.\<close>

lemma short_delete_prefix:
  assumes s: "short_state kc s m" and q: "length q < 20"
  shows "\<exists>s'. delete_prefix kc (short_account q) s = (Inr (prefix_pairs q s), s')
     \<and> short_state kc s' (filter (\<lambda>kv. \<not> prefix q (fst kv)) m)"
proof -
  have inv: "state_inv kc s" and wf: "bt_wf m" and view: "state_view s = bt_get m"
    and short: "short_layer (s_delta s)" "short_layer (s_intermediate s)"
    and empty: "st_to_canonical_map (s_snapshot s) = []"
    using s by (simp_all add: short_state_def)
  have lo: "layer_ok kc (s_delta_padding s) (s_delta s)"
    "layer_ok kc (s_intermediate_padding s) (s_intermediate s)" and st: "st_inv kc (s_snapshot s)"
    using inv by (auto simp: state_inv_defs)
  let ?dk = "scan_prefix (s_delta s) q" and ?ik = "scan_prefix (s_intermediate s) q"
  have "bt_wf ?dk" "set ?dk \<subseteq> set (s_delta s)"
    using lo(1) by (auto simp: layer_ok_def scan_prefix_filter)
  then obtain s1 where s1: "remove_delta (map fst ?dk) s = (?dk, s1)" "state_inv kc s1" "same_below s s1"
    "\<forall>raw. bt_get (s_delta s1) raw = (if raw \<in> fst ` set ?dk then None else bt_get (s_delta s) raw)"
    using remove_delta_loop [OF inv] by blast
  have lo1: "layer_ok kc (s_delta_padding s) (s_delta s1)"
    using s1(2,3) by (auto simp: state_inv_defs same_below_def)
  note left = short_removed [OF lo(1) short(1) lo1 s1(4)]
  define D where "D = selected q (rekeyed (s_delta s))"
  define I where "I = selected q (rekeyed (s_intermediate s))"
  have acc: "read_delta None ?dk ({}, []) = Inr (fst ` set D, visible_entries D)"
    by (simp add: read_delta_loop [OF encoded_scan [OF lo(1)]] short_selected [OF short(1) lo(1)] D_def)
  have "decodable ?ik" using decodable_layer [OF lo(2)] lo(2)
    by (auto simp: decodable_def layer_ok_def scan_prefix_filter)
  from delete_intermediate_loop [OF this rekeyed_scan_distinct [OF lo(2)] s1(2),
      of None "fst ` set D" "visible_entries D"]
  obtain s2 where s2: "delete_intermediate kc None ?ik (fst ` set D, visible_entries D) s1
      = (Inr (fst ` set D \<union> fst ` set I, visible_entries D @ visible_entries (unseen (fst ` set D) I)), s2)"
    "state_inv kc s2" "same_below s1 s2"
    "layer_map (s_delta s2) = tombstoned (fst ` set (visible_entries I)) (layer_map (s_delta s1))"
    unfolding short_selected [OF short(2) lo(2)] I_def [symmetric] by blast
  have below: "s_intermediate s1 = s_intermediate s" "s_snapshot s1 = s_snapshot s"
    and sb: "same_below s s2"
    using s1(3) same_below_trans [OF s1(3) s2(3)] by (simp_all add: same_below_def)
  have scan: "st_scan_prefix (s_snapshot s) q = []" by (simp add: snap.scan_law [OF st] empty)
  have pairs: "prefix_pairs q s = visible_entries D @ visible_entries (unseen (fst ` set D) I)"
    by (simp add: prefix_pairs_def D_def I_def Let_def empty selected_def [of q "[]"])
  have run: "delete_prefix kc (short_account q) s = (Inr (prefix_pairs q s), s2)"
    unfolding delete_prefix_def short_keys [OF q] sum.case Let_def s1(1) prod.case below acc s2(1) scan pairs
    by simp
  have delta: "layer_map (s_delta s2) ck
      = (if ck \<in> fst ` set (visible_entries I) then Some Tombstone
         else if prefix q ck then None else layer_map (s_delta s) ck)" for ck
    by (simp add: s2(4) tombstoned_def left)
  have visible: "ck \<in> fst ` set (visible_entries I)
      \<longleftrightarrow> prefix q ck \<and> (\<exists>v w. layer_map (s_intermediate s) ck = Some v \<and> visible_value v = Some w)" for ck
    unfolding visible_keys I_def in_selected rekeyed_iff [OF lo(2)] fst_conv by blast
  have none: "snapshot_get_owned (s_snapshot s) ck = None" for ck
    using snap.map_lookup [OF st, symmetric] by (simp add: empty)
  have "state_view s2 = bt_get (filter (\<lambda>kv. \<not> prefix q (fst kv)) m)"
  proof
    fix ck
    have "state_view s2 ck = (if prefix q ck then None else state_view s ck)"
      using sb unfolding state_view_def delta visible
      by (cases "layer_map (s_intermediate s) ck") (auto simp: same_below_def none layered_def split: option.split)
    also have "\<dots> = bt_get (filter (\<lambda>kv. \<not> prefix q (fst kv)) m) ck"
      by (simp add: view bt_get_filter [of "\<lambda>k. \<not> prefix q k"])
    finally show "state_view s2 ck = bt_get (filter (\<lambda>kv. \<not> prefix q (fst kv)) m) ck" .
  qed
  moreover have "short_layer (s_delta s2)"
  proof (rule short_layerI)
    show "layer_ok kc (s_delta_padding s) (s_delta s2)"
      using s2(2) sb by (auto simp: state_inv_defs same_below_def)
    show "length ck < 20" if "layer_map (s_delta s2) ck \<noteq> None" for ck
      using that short unfolding delta visible
      by (auto simp: layer_map_short split: if_splits dest: short_layer_get)
  qed
  ultimately show ?thesis
    using run s2(2) sb short(2) empty bt_wf_filter [OF wf] by (auto simp: short_state_def same_below_def)
qed

lemma short_delete_all:
  assumes s: "short_state kc s m" and q: "length q < 20"
  shows "\<exists>r s'. delete_all_by_prefix kc (short_account q) s = (Inr r, s')
     \<and> format_prefix_result r = format_prefix_result (below q m)
     \<and> short_state kc s' (filter (\<lambda>kv. \<not> prefix q (fst kv)) m)"
proof -
  obtain s' where s': "delete_prefix kc (short_account q) s = (Inr (prefix_pairs q s), s')"
    "short_state kc s' (filter (\<lambda>kv. \<not> prefix q (fst kv)) m)"
    using short_delete_prefix [OF assms] by blast
  show ?thesis
    using format_below [of kc s m q] s s'(2)
    unfolding delete_all_by_prefix_def s'(1) apfst_conv rbind_simps short_state_def by blast
qed

text \<open>
  A delete by address prefix reports the accounts below the prefix, but empties the delta; what
  is left to read is what the intermediate has outside the prefix.
\<close>

lemma short_delete_address:
  assumes s: "short_state kc s m"
  shows "\<exists>r s'. delete_all_by_prefix kc \<lparr>sk_key = AddressPrefix q, sk_space = Native\<rparr> s = (Inr r, s')
     \<and> format_prefix_result r = format_prefix_result (below q m)
     \<and> state_inv kc s' \<and> state_view s' = (\<lambda>ck. if prefix q ck then None else view_below s ck)"
proof -
  let ?pk = "\<lparr>sk_key = AddressPrefix q, sk_space = Native\<rparr>"
  have pk: "aligned_prefix ?pk" "canonical_key ?pk = q" "address_prefix_filter ?pk = Some q"
    by (simp_all add: aligned_prefix_def canonical_key_def to_key_bytes_def address_prefix_filter_def)
  have inv: "state_inv kc s" and view: "state_view s = bt_get m" "bt_wf m"
    and empty: "st_to_canonical_map (s_snapshot s) = []"
    using s by (simp_all add: short_state_def)
  have "st_inv kc (s_snapshot s)" using inv by (simp add: state_inv_defs)
  then have "snapshot_get_owned (s_snapshot s) ck = None" for ck
    using fun_cong [OF snap.map_lookup, of kc "s_snapshot s" ck] by (simp add: empty)
  moreover have "\<not> short_stored (canonical_key ?pk) s" by (simp add: short_stored_def empty)
  ultimately obtain s' where
    s': "delete_prefix kc ?pk s = (Inr (prefix_pairs q s), s')" "state_inv kc s'"
    "state_view s' = (\<lambda>ck. if prefix q ck then None else view_below s ck)"
    using delete_prefix_correct [OF inv pk(1)] unfolding pk by (auto simp: fun_eq_iff)
  show ?thesis
    using format_below [OF inv view] s'(2,3)
    unfolding delete_all_by_prefix_def s'(1) apfst_conv rbind_simps by blast
qed

end
