(* ===== verification/Trace_Correct.thy ===== *)
theory Trace_Correct
  imports Partial_Prefix
begin

text \<open>
  What the operations of the state do in a program that unwraps every result, as rules that
  rewrite a scenario step by step, and the lines that each scenario prints.
\<close>

subsection \<open>Lines and results\<close>

named_theorems trace_simps

lemma ret_simps [simp]: "fst (ret a) = []" "snd (ret a) = Inr a"
  by (simp_all add: ret_def)

lemma say_simps [simp]:
  "fst (say ws r) = Stdout (join_strings '' '' ws) # fst r" "snd (say ws r) = snd r"
  by (simp_all add: say_def emit_def)

lemma emit_simps [simp]: "fst (emit l r) = l # fst r" "snd (emit l r) = snd r"
  by (simp_all add: emit_def)

lemma unwrap_Inr [simp]: "unwrap (Inr a) f = f a"
  by (simp add: unwrap_def)

lemma unwrap_call_Inr [trace_simps]: "fst r = Inr a \<Longrightarrow> unwrap_call r f = f a (snd r)"
  by (simp add: unwrap_call_def)

text \<open>The lines that print no root: all but those of commits, and what the keys are encoded to.\<close>

definition root_labels :: "string list" where
  "root_labels = [''C'', ''F'', ''ORDER'', ''SETDEL'', ''ROLL1'', ''ROLL2'', ''ROLL3'', ''ROLL4'', ''ROLL5'',
     ''ROLL6'', ''ROLL7'', ''ROLL8'', ''ROLL9'']"

fun read_line :: "line \<Rightarrow> bool" where
  "read_line (Stdout l) \<longleftrightarrow> takeWhile (\<lambda>c. c \<noteq> CHR '' '') l \<notin> set root_labels"
| "read_line (Stderr l) \<longleftrightarrow> False"

definition reads :: "'a traced \<Rightarrow> line list" where
  "reads t = filter read_line (fst t)"

lemma reads_simps [simp]:
  "reads (ret a) = []"
  "reads (say ws r) = (if read_line (Stdout (join_strings '' '' ws)) then [Stdout (join_strings '' '' ws)] else []) @ reads r"
  "reads ([], e) = []"
  by (simp_all add: reads_def)

lemma reads_tbind [trace_simps]:
  "snd t = Inr a \<Longrightarrow> reads (tbind t f) = reads t @ reads (f a)"
  "snd t = Inr a \<Longrightarrow> snd (tbind t f) = snd (f a)"
  by (simp_all add: tbind_def reads_def)

lemma reads_silent: "fst t = [] \<Longrightarrow> reads t = []"
  by (simp add: reads_def)

lemma read_line_label:
  "CHR '' '' \<notin> set w \<Longrightarrow>
   read_line (Stdout (join_strings '' '' (w # ws))) \<longleftrightarrow> w \<notin> set root_labels"
proof -
  assume "CHR '' '' \<notin> set w"
  then have w: "takeWhile (\<lambda>c. c \<noteq> CHR '' '') w = w"
    "takeWhile (\<lambda>c. c \<noteq> CHR '' '') (w @ CHR '' '' # r) = w" for r
    by (auto simp: takeWhile_tail takeWhile_append2 takeWhile_eq_all_conv)
  show ?thesis by (cases ws) (simp_all add: w)
qed

lemma reads_say_label:
  "CHR '' '' \<notin> set w \<Longrightarrow>
   reads (say (w # ws) r) = (if w \<in> set root_labels then [] else [Stdout (join_strings '' '' (w # ws))]) @ reads r"
  unfolding reads_simps(2) read_line_label by simp

subsection \<open>The operations\<close>

lemma set_ok [trace_simps]:
  assumes "state_inv kc s" "plain_key k"
  shows "fst (state_set kc k v s) = Inr ()" "state_inv kc (snd (state_set kc k v s))"
    "state_view (snd (state_set kc k v s))
       = (state_view s)(canonical_key k := (if v = [] then None else Some v))"
  using state_set_view [OF assms, of v] by auto

lemma get_ok [trace_simps]:
  assumes "state_inv kc s" "plain_key k"
  shows "fst (state_get kc k s) = Inr (state_view s (canonical_key k))"
    "state_inv kc (snd (state_get kc k s))" "state_view (snd (state_get kc k s)) = state_view s"
  using state_get_correct [OF assms]
  by (auto simp: same_core_def state_view_def fun_eq_iff)

lemma commit_ok [trace_simps]:
  assumes "state_inv kc s"
  shows "fst (state_commit kc s) = Inr (committed_root kc s)"
    "state_inv kc (snd (state_commit kc s))" "state_view (snd (state_commit kc s)) = state_view s"
  using state_commit_correct [OF assms] by auto

lemma new_ok [simp]: "state_inv kc (state_new kc)" "state_view (state_new kc) = Map.empty"
proof -
  show "state_inv kc (state_new kc)" by (rule state_new_inv)
  show "state_view (state_new kc) = Map.empty"
    by (simp add: state_view_def state_new_def snapshot_get_owned_def snapshot_get_def st_default_def
        it_default_def fun_eq_iff)
qed

lemma account_key_plain [simp]: "plain_key (account_key i)"
  by (simp add: account_key_def plain_key_def)

lemma short_account_plain [simp]: "length bs < 20 \<Longrightarrow> plain_key (short_account bs)"
  by (simp add: short_account_def plain_key_def)

lemma slot_plain [simp]: "skey \<noteq> [] \<Longrightarrow> plain_key (slot_of b skey sp)"
  by (simp add: slot_of_def plain_key_def)

lemma canonical_account [simp]:
  "canonical_key (account_key i) = canonical_key (account_key j) \<longleftrightarrow> i = j"
proof
  have "canonical_key (account_key i) \<noteq> []"
    "hd (canonical_key (account_key i)) = i" for i
    by (simp_all add: account_key_def canonical_key_def to_key_bytes_def checked_address_def key_sizes
        add_space_to_snapshot_key_def splice_at_def hd_append)
  then show "canonical_key (account_key i) = canonical_key (account_key j) \<Longrightarrow> i = j" by metis
qed simp

subsection \<open>The long run\<close>

text \<open>The same run on a map from the numbers of the accounts to their values.\<close>

definition plain_step :: "u32 \<Rightarrow> (u8 \<rightharpoonup> bytes) \<Rightarrow> line list \<times> (u8 \<rightharpoonup> bytes)" where
  "plain_step step m =
     (let i = trace_id step; arm = unat step mod 11
      in if arm = 0 then ([Stdout (join_strings '' '' [''D'', show_u32 step, show_u8 i])], m(i := None))
         else if arm \<le> 7 then
           ([Stdout (join_strings '' '' [''S'', show_u32 step, show_u8 i, hex (value_for step i)])],
            m(i \<mapsto> value_for step i))
         else if arm = 8 \<or> arm = 9 then
           ([Stdout (join_strings '' '' [''G'', show_u32 step, show_u8 i, hex_or_dash (m i)])], m)
         else ([], m))"

fun plain_steps :: "u32 list \<Rightarrow> (u8 \<rightharpoonup> bytes) \<Rightarrow> line list" where
  "plain_steps [] m = []"
| "plain_steps (step # steps) m = fst (plain_step step m) @ plain_steps steps (snd (plain_step step m))"

lemma value_for_not_Nil [simp]: "value_for step i \<noteq> []"
  by (simp add: value_for_def)

lemma dump_raw_keys_ok: "reads (dump_raw_keys kc steps) = [] \<and> snd (dump_raw_keys kc steps) = Inr ()"
proof (induction steps)
  case (Cons step steps)
  have "fst (to_delta_mpt_key_bytes kc (account_key i) p None) = Inr (raw_of kc p (account_key i))" for i p
    using plain_key_encodes(2) [of "account_key i" kc p] by (simp add: delta_key_def)
  with Cons show ?case by (simp add: Let_def reads_def)
qed simp

lemma trace_step_ok:
  assumes inv: "state_inv kc s" and view: "\<And>i. state_view s (canonical_key (account_key i)) = m i"
  shows "reads (trace_step kc dump step s) = fst (plain_step step m)
     \<and> (\<exists>s'. snd (trace_step kc dump step s) = Inr s' \<and> state_inv kc s'
          \<and> (\<forall>i. state_view s' (canonical_key (account_key i)) = snd (plain_step step m) i))"
  using inv view
  by (auto simp: trace_step_def plain_step_def Let_def trace_simps read_line_label root_labels_def
      dump_step_10_raw_keys_def dump_raw_keys_ok)

lemma trace_steps_ok:
  assumes "state_inv kc s" "\<And>i. state_view s (canonical_key (account_key i)) = m i"
  shows "reads (trace_steps kc dump steps s) = plain_steps steps m
     \<and> (\<exists>s'. snd (trace_steps kc dump steps s) = Inr s' \<and> state_inv kc s')"
  using assms
proof (induction steps arbitrary: s m)
  case (Cons step steps)
  obtain s' where s': "snd (trace_step kc dump step s) = Inr s'" "state_inv kc s'"
    "\<And>i. state_view s' (canonical_key (account_key i)) = snd (plain_step step m) i"
    and r: "reads (trace_step kc dump step s) = fst (plain_step step m)"
    using trace_step_ok [OF Cons.prems] by blast
  show ?case using Cons.IH [OF s'(2,3)] r by (simp add: trace_simps s'(1))
qed auto

subsection \<open>Scenarios with the beginning of a slot key\<close>

lemma slot_of_prefix: "slot_of b skey sp = slot_prefix (replicate 20 b) skey sp"
  by (simp add: slot_of_def slot_prefix_def)

lemma slot_canonical:
  "canonical_key (slot_of b skey Native) = replicate 20 b @ STORAGE_PREFIX @ skey"
  by (simp add: slot_of_prefix slot_prefix_canonical space_mark_def)

text \<open>The layers of a state that has one slot in its delta, or in its intermediate.\<close>

lemma set_layers:
  "s_snapshot (snd (state_set kc k v s)) = s_snapshot s"
  "s_intermediate (snd (state_set kc k v s)) = s_intermediate s"
  "s_delta_padding (snd (state_set kc k v s)) = s_delta_padding s"
  "s_intermediate_padding (snd (state_set kc k v s)) = s_intermediate_padding s"
  "s_height (snd (state_set kc k v s)) = s_height s"
  "s_snapshot_epoch_count (snd (state_set kc k v s)) = s_snapshot_epoch_count s"
  by (auto simp: state_set_def Let_def split: prod.split sum.split)

lemma set_delta:
  assumes "state_inv kc s" "plain_key k"
  shows "s_delta (snd (state_set kc k v s)) = bt_insert (raw_of kc (s_delta_padding s) k) (stored_value v) (s_delta s)"
  using state_set_eq [OF assms, of v] by auto

lemma set_delta_map:
  "state_inv kc s \<Longrightarrow> plain_key k \<Longrightarrow>
   layer_map (s_delta (snd (state_set kc k v s))) = (layer_map (s_delta s))(canonical_key k \<mapsto> stored_value v)"
  using state_set_correct [of kc s k v] by auto

lemma new_layers [simp]:
  "s_delta (state_new kc) = []" "s_intermediate (state_new kc) = []" "s_snapshot (state_new kc) = st_default"
  "s_delta_padding (state_new kc) = genesis kc" "s_intermediate_padding (state_new kc) = genesis kc"
  "s_height (state_new kc) = 0"
  by (simp_all add: state_new_def)

lemma slot_pads_apart:
  assumes "slot_padding kc p (q @ t) \<noteq> slot_padding kc p q"
  shows "pads_apart kc p (replicate 20 b) q Native [canonical_key (slot_of b (q @ t) Native) \<mapsto> v]"
  using assms by (auto simp: pads_apart_def slot_of_prefix slot_prefix_canonical)

lemma get_all_of_prefix:
  "read_prefix kc pk s = Inr kvs \<Longrightarrow> get_all_by_prefix kc pk s = Inr (if kvs = [] then None else Some kvs)"
  by (simp add: get_all_by_prefix_def)

lemma delete_all_of_prefix:
  "delete_prefix kc pk s = (Inr kvs, s') \<Longrightarrow>
   delete_all_by_prefix kc pk s = (Inr (if kvs = [] then None else Some kvs), s')"
  by (simp add: delete_all_by_prefix_def)

lemma format_nothing [simp]: "format_prefix_result None = ''-''"
  by (simp add: format_prefix_result_def)

lemma delta_bug_ok:
  assumes "slot_padding kc (genesis kc) ([0xab, 0xcd] @ replicate 30 0x11) \<noteq> slot_padding kc (genesis kc) [0xab, 0xcd]"
  shows "reads (trace_storage_prefix_delta_bug kc)
      = map Stdout [''PSET 4224'', ''PGET -'', ''PDEL -'', ''PPOST 4224'']
    \<and> snd (trace_storage_prefix_delta_bug kc) = Inr ()"
proof -
  define key where "key = slot_of 7 ([0xab, 0xcd] @ replicate 30 0x11) Native"
  define pk where "pk = slot_of 7 [0xab, 0xcd] Native"
  have key: "plain_key key" by (simp add: key_def)
  define s where "s = snd (state_set kc key [0x42, 0x24] (state_new kc))"
  have set: "fst (state_set kc key [0x42, 0x24] (state_new kc)) = Inr ()" and inv: "state_inv kc s"
    and view: "state_view s = [canonical_key key \<mapsto> [0x42, 0x24]]"
    by (simp_all add: s_def set_ok key)
  have apart: "pads_apart kc (s_delta_padding s) (replicate 20 7) [0xab, 0xcd] Native (layer_map (s_delta s))"
    "pads_apart kc (s_intermediate_padding s) (replicate 20 7) [0xab, 0xcd] Native (layer_map (s_intermediate s))"
    using slot_pads_apart [OF assms, of 7]
    by (simp_all add: s_def set_layers set_delta_map key key_def layer_map_def rekeyed_def pads_apart_def)
  have none: "snapshot_pairs cp s = []" "snapshot_get_owned (s_snapshot s) ck = None" for cp ck
    by (simp add: snapshot_pairs_def s_def set_layers selected_def)
      (simp add: s_def set_layers snapshot_get_owned_def snapshot_get_def st_default_def it_default_def)
  have get: "get_all_by_prefix kc pk s = Inr None"
    using slot_prefix_read [OF inv _ apart] by (simp add: get_all_of_prefix pk_def slot_of_prefix none)
  obtain s' where del: "delete_all_by_prefix kc pk s = (Inr None, s')" "state_inv kc s'" "state_view s' = state_view s"
    using slot_prefix_delete [OF inv _ apart]
    by (auto simp: delete_all_of_prefix pk_def slot_of_prefix none)
  show ?thesis
    unfolding trace_storage_prefix_delta_bug_def Let_def key_def [symmetric] pk_def [symmetric]
    by (simp add: unwrap_call_Inr set s_def [symmetric] get del get_ok key view read_line_label root_labels_def hex_or_dash_def,
        simp add: hex_def hex_digit_def)
qed

text \<open>The same scenario where the two paddings are equal: the entry is found and deleted.\<close>

lemma delta_bug_equal:
  assumes "slot_padding kc (genesis kc) ([0xab, 0xcd] @ replicate 30 0x11) = slot_padding kc (genesis kc) [0xab, 0xcd]"
  shows "reads (trace_storage_prefix_delta_bug kc)
      = map Stdout [''PSET 4224'',
          ''PGET '' @ hex (canonical_key (slot_of 7 ([0xab, 0xcd] @ replicate 30 0x11) Native)) @ ''=4224'',
          ''PDEL '' @ hex (canonical_key (slot_of 7 ([0xab, 0xcd] @ replicate 30 0x11) Native)) @ ''=4224'', ''PPOST -'']
    \<and> snd (trace_storage_prefix_delta_bug kc) = Inr ()"
proof -
  define key where "key = slot_of 7 ([0xab, 0xcd] @ replicate 30 0x11) Native"
  define pk where "pk = slot_of 7 [0xab, 0xcd] Native"
  have key: "plain_key key" by (simp add: key_def)
  define s where "s = snd (state_set kc key [0x42, 0x24] (state_new kc))"
  have set: "fst (state_set kc key [0x42, 0x24] (state_new kc)) = Inr ()" and inv: "state_inv kc s"
    and view: "state_view s = [canonical_key key \<mapsto> [0x42, 0x24]]"
    by (simp_all add: s_def set_ok key)
  have layers: "s_delta s = [(raw_of kc (s_delta_padding s) key, MptSome [0x42, 0x24])]" "s_intermediate s = []"
    "st_to_canonical_map (s_snapshot s) = []" "s_delta_padding s = genesis kc"
    using set_delta [of kc "state_new kc" key "[0x42, 0x24]"] key by (simp_all add: s_def set_layers stored_value_def new_ok)
  have key_eq: "key = slot_prefix (replicate 20 7) ([0xab, 0xcd] @ replicate 30 0x11) Native"
    by (simp add: key_def slot_of_prefix)
  note lone = lone_delta_prefix [OF inv _ _ _ _ layers(1) [unfolded key_eq] layers(2,3), unfolded layers(4), OF _ _ _ assms,
      folded key_eq, simplified]
  have get: "get_all_by_prefix kc pk s = Inr (Some [(canonical_key key, [0x42, 0x24])])"
    using lone(1) by (simp add: get_all_of_prefix pk_def slot_of_prefix)
  obtain s' where del: "delete_all_by_prefix kc pk s = (Inr (Some [(canonical_key key, [0x42, 0x24])]), s')" "state_inv kc s'"
    "state_view s' = Map.empty"
    using lone(2) by (auto simp: delete_all_of_prefix pk_def slot_of_prefix)
  have format: "format_prefix_result (Some [(canonical_key key, [0x42, 0x24])]) = hex (canonical_key key) @ ''=4224''"
    by (simp add: format_prefix_result_def sort_pairs_def, simp add: hex_def hex_digit_def)
  have "hex [0x42, 0x24] = ''4224''" by (simp add: hex_def hex_digit_def)
  then show ?thesis
    unfolding trace_storage_prefix_delta_bug_def Let_def key_def [symmetric] pk_def [symmetric]
    by (simp add: unwrap_call_Inr set s_def [symmetric] get del get_ok key view read_line_label root_labels_def hex_or_dash_def
        format)
qed

text \<open>A state that was made from a snapshot.\<close>

lemma from_snapshot_layers:
  assumes "bt_wf m" "state_from_snapshot kc m = Inr s"
  shows "s_delta s = []" "s_intermediate s = []" "st_to_canonical_map (s_snapshot s) = m"
proof -
  have l: "st_inv kc (st_from_snapshot m)" "st_to_canonical_map (st_from_snapshot m) = m"
    using snap.load_law [OF assms(1)] by auto
  obtain s' where "st_root_with_policy kc SkipSingleton (st_from_snapshot m)
      = Some (the (trie_root kc (live_values m)), s')" "st_to_canonical_map s' = m"
    using snap.root_law [OF l(1), of SkipSingleton] l(2) by auto
  with assms(2) show "s_delta s = []" "s_intermediate s = []" "st_to_canonical_map (s_snapshot s) = m"
    by (auto simp: state_from_snapshot_def)
qed

lemma snapshot_hit_ok:
  "reads (trace_storage_prefix_snapshot_hit kc)
      = map Stdout [''SNPGET '' @ hex (canonical_key (slot_of 8 ([0xab, 0xcd] @ replicate 30 0x22) Native)) @ ''=5566'',
          ''SNPDEL '' @ hex (canonical_key (slot_of 8 ([0xab, 0xcd] @ replicate 30 0x22) Native)) @ ''=5566'',
          ''SNPPOST -'']
    \<and> snd (trace_storage_prefix_snapshot_hit kc) = Inr ()"
proof -
  define key where "key = slot_of 8 ([0xab, 0xcd] @ replicate 30 0x22) Native"
  define pk where "pk = slot_of 8 [0xab, 0xcd] Native"
  have key: "plain_key key" "to_key_bytes key = Inr (canonical_key key)"
    using plain_key_encodes(1) [of key] by (simp_all add: key_def)
  define m :: "(bytes, bytes) btree" where "m = bt_insert (canonical_key key) [0x55, 0x66] []"
  have m: "m = [(canonical_key key, [0x55, 0x66])]" and wf: "bt_wf m" "canonical_keys m"
    using key(1) by (auto simp: m_def canonical_keys_def bt_wf_Cons)
  obtain s where s: "state_from_snapshot kc m = Inr s" "state_inv kc s" "state_view s = bt_get m"
    using state_from_snapshot_correct [OF wf] by blast
  note layers = from_snapshot_layers [OF wf(1) s(1)]
  have apart: "pads_apart kc (s_delta_padding s) (replicate 20 8) [0xab, 0xcd] Native (layer_map (s_delta s))"
    "pads_apart kc (s_intermediate_padding s) (replicate 20 8) [0xab, 0xcd] Native (layer_map (s_intermediate s))"
    by (simp_all add: layers pads_apart_def)
  have pre: "prefix (canonical_key pk) (canonical_key key)"
    by (simp add: pk_def key_def slot_canonical)
  have pairs: "snapshot_pairs (canonical_key pk) s = m"
    using pre by (simp add: snapshot_pairs_def layers(3) selected_def) (simp add: m)
  have st: "st_inv kc (s_snapshot s)" using s(2) by (simp add: state_inv_defs)
  have owned: "snapshot_get_owned (s_snapshot s) = bt_get m"
    using snap.map_lookup [OF st] by (simp add: layers(3))
  have get: "get_all_by_prefix kc pk s = Inr (Some m)"
    using slot_prefix_read [OF s(2) _ apart] pairs by (simp add: get_all_of_prefix pk_def slot_of_prefix m)
  obtain s' where del: "delete_all_by_prefix kc pk s = (Inr (Some m), s')" "state_inv kc s'"
    "state_view s' (canonical_key key) = None"
    using slot_prefix_delete [OF s(2) _ apart] pairs pre
    by (auto simp: delete_all_of_prefix pk_def slot_of_prefix m owned)
  have format: "format_prefix_result (Some m) = hex (canonical_key key) @ ''=5566''"
    by (simp add: format_prefix_result_def m sort_pairs_def, simp add: hex_def hex_digit_def)
  show ?thesis
    unfolding trace_storage_prefix_snapshot_hit_def Let_def key_def [symmetric] pk_def [symmetric]
    by (simp add: unwrap_call_Inr key(2) s(1) [unfolded m] get del get_ok key(1) read_line_label root_labels_def
        hex_or_dash_def format)
qed

subsection \<open>The order of writes\<close>

lemma set_each_ok:
  assumes "state_inv kc s" "\<forall>kv \<in> set kvs. plain_key (fst kv)"
  shows "fst (set_each kc kvs s) = [] \<and> (\<exists>s'. snd (set_each kc kvs s) = Inr s' \<and> state_inv kc s'
     \<and> s_delta s' = bt_extend (s_delta s) (map (\<lambda>(k, v). (raw_of kc (s_delta_padding s) k, stored_value v)) kvs))"
  using assms
proof (induction kvs arbitrary: s)
  case (Cons kv kvs)
  obtain k v where kv: "kv = (k, v)" by (cases kv)
  have k: "plain_key k" using Cons.prems(2) by (simp add: kv)
  let ?s = "snd (state_set kc k v s)"
  have "state_inv kc ?s" using Cons.prems(1) k by (rule set_ok)
  from Cons.IH [OF this] Cons.prems(2) show ?case
    by (simp add: kv unwrap_call_Inr set_ok(1) [OF Cons.prems(1) k] set_layers set_delta [OF Cons.prems(1) k] bt_extend_def)
qed (simp add: bt_extend_def)

lemma bt_extend_perm:
  assumes "bt_wf m" "distinct (map fst kvs)"
  shows "bt_extend m (rev kvs) = bt_extend m kvs"
proof (rule bt_get_ext)
  have "map_of (rev kvs) = map_of kvs"
    using assms(2) by (simp add: map_of_inject_set rev_map [symmetric])
  then show "bt_get (bt_extend m (rev kvs)) k = bt_get (bt_extend m kvs) k" for k
    using assms(2) by (simp add: bt_get_extend rev_map [symmetric])
qed (use assms(1) in auto)

text \<open>The delta of the 24 accounts, in key order.\<close>

definition order_delta :: "(bytes \<Rightarrow> h256) \<Rightarrow> (bytes, mpt_value) btree" where
  "order_delta kc = bt_collect (map (\<lambda>(k, v). (raw_of kc (genesis kc) k, stored_value v)) order_entries)"

lemma order_keys_distinct:
  "distinct (map fst (map (\<lambda>(k, v). (raw_of kc p k, stored_value v)) order_entries))"
proof -
  have inj: "raw_of kc p (account_key i) = raw_of kc p (account_key j) \<longleftrightarrow> i = j" for i j
    using raw_key_eq_iff [of "account_key i" "account_key j" kc p] by simp
  have "i = j" if "i < 24" "j < 24" "(of_nat i :: u8) = of_nat j" for i j
    using that by (simp add: word_of_nat_eq_iff take_bit_nat_eq_self)
  with inj show ?thesis
    by (auto simp: order_entries_def comp_def distinct_map inj_on_def)
qed

lemma set_order_ok:
  "let r = hex_of (the (trie_root kc (order_delta kc)))
   in trace_set_order kc = ([Stdout (''ORDER '' @ r @ '' '' @ r @ '' true'')], Inr ())"
proof -
  have plain: "\<forall>kv \<in> set order_entries. plain_key (fst kv)" "\<forall>kv \<in> set (rev order_entries). plain_key (fst kv)"
    by (auto simp: order_entries_def)
  obtain f where f: "fst (set_each kc order_entries (state_new kc)) = []"
    "snd (set_each kc order_entries (state_new kc)) = Inr f" "state_inv kc f" "s_delta f = order_delta kc"
    using set_each_ok [OF new_ok(1) plain(1)] by (auto simp: order_delta_def bt_collect_def)
  obtain r where r: "fst (set_each kc (rev order_entries) (state_new kc)) = []"
    "snd (set_each kc (rev order_entries) (state_new kc)) = Inr r" "state_inv kc r" "s_delta r = order_delta kc"
    using set_each_ok [OF new_ok(1) plain(2), of kc] bt_extend_perm [OF bt_wf_Nil order_keys_distinct, of kc "genesis kc"]
    by (auto simp: order_delta_def bt_collect_def rev_map)
  show ?thesis
    by (simp add: trace_set_order_def tbind_def f r unwrap_call_Inr commit_ok(1) [OF f(3)] commit_ok(1) [OF r(3)]
        committed_root_def commit_root_new_def Let_def prod_eq_iff)
qed

subsection \<open>Scenarios with short accounts\<close>

lemma set_each_short:
  assumes "short_state kc s m" "\<forall>kv \<in> set kvs. length (fst kv) < 20 \<and> snd kv \<noteq> []"
  shows "fst (set_each kc (map (apfst short_account) kvs) s) = []
     \<and> (\<exists>s'. snd (set_each kc (map (apfst short_account) kvs) s) = Inr s' \<and> short_state kc s' (bt_extend m kvs)
          \<and> s_intermediate s' = s_intermediate s \<and> s_height s' = s_height s
          \<and> s_snapshot_epoch_count s' = s_snapshot_epoch_count s)"
  using assms
proof (induction kvs arbitrary: s m)
  case (Cons kv kvs)
  obtain b v where kv: "kv = (b, v)" by (cases kv)
  have b: "length b < 20" "v \<noteq> []" using Cons.prems(2) by (simp_all add: kv)
  from short_set(2) [OF Cons.prems(1) b(1), of v] b(2)
  have "short_state kc (snd (state_set kc (short_account b) v s)) (bt_insert b v m)" by simp
  from Cons.IH [OF this] Cons.prems(2) show ?case
    by (simp add: kv unwrap_call_Inr short_set(1) [OF Cons.prems(1) b(1)] set_layers bt_extend_def)
qed (simp add: bt_extend_def)

lemma short_account_prefix_ok:
  "reads (trace_short_account_prefix_delete_all kc)
      = map Stdout [''APDEL 3100=0001,3101=0102,3102=0203,3103=0304,3104=0405,3105=0506,3106=0607,3107=0708'',
          ''APDEL2 -'', ''APKEEP 0d'']
    \<and> snd (trace_short_account_prefix_delete_all kc) = Inr ()"
proof -
  let ?e1 = "map (\<lambda>i. ([0x31, i], [i, i + 1])) (map of_nat [0..<8]) :: (bytes \<times> bytes) list"
  let ?e2 = "map (\<lambda>i. ([0x42, i], [i + 10])) (map of_nat [0..<5]) :: (bytes \<times> bytes) list"
  obtain s1 where s1: "fst (set_each kc (map (apfst short_account) ?e1) (state_new kc)) = []"
    "snd (set_each kc (map (apfst short_account) ?e1) (state_new kc)) = Inr s1" "short_state kc s1 (bt_extend [] ?e1)"
    using set_each_short [OF short_new(2), of ?e1 kc] by auto
  obtain s2 where s2: "fst (set_each kc (map (apfst short_account) ?e2) s1) = []"
    "snd (set_each kc (map (apfst short_account) ?e2) s1) = Inr s2"
    "short_state kc s2 (bt_extend (bt_extend [] ?e1) ?e2)"
    using set_each_short [OF s1(3), of ?e2] by auto
  define m where "m = bt_extend (bt_extend [] ?e1) ?e2"
  have m: "m = [([0x31, 0], [0, 1]), ([0x31, 1], [1, 2]), ([0x31, 2], [2, 3]), ([0x31, 3], [3, 4]),
      ([0x31, 4], [4, 5]), ([0x31, 5], [5, 6]), ([0x31, 6], [6, 7]), ([0x31, 7], [7, 8]),
      ([0x42, 0], [10]), ([0x42, 1], [11]), ([0x42, 2], [12]), ([0x42, 3], [13]), ([0x42, 4], [14])]"
    by (simp add: m_def bt_extend_def upt_conv_Cons)
  have s2m: "short_state kc s2 m" using s2(3) by (simp add: m_def)
  obtain d s3 where d: "delete_all_by_prefix kc (short_account [0x31]) s2 = (Inr d, s3)"
    "format_prefix_result d = format_prefix_result (below [0x31] m)"
    "short_state kc s3 (filter (\<lambda>kv. \<not> prefix [0x31] (fst kv)) m)"
    using short_delete_all [OF s2m, of "[0x31]"] by auto
  obtain e s4 where e: "delete_all_by_prefix kc (short_account [0x31]) s3 = (Inr e, s4)"
    "format_prefix_result e = format_prefix_result (below [0x31] (filter (\<lambda>kv. \<not> prefix [0x31] (fst kv)) m))"
    "short_state kc s4 (filter (\<lambda>kv. \<not> prefix [0x31] (fst kv)) (filter (\<lambda>kv. \<not> prefix [0x31] (fst kv)) m))"
    using short_delete_all [OF d(3), of "[0x31]"] by auto
  have get: "fst (state_get kc (short_account [0x42, 3]) s4) = Inr (Some [13])"
    using short_get(1) [OF e(3), of "[0x42, 3]"] by (simp add: m)
  have lines: "format_prefix_result d = ''3100=0001,3101=0102,3102=0203,3103=0304,3104=0405,3105=0506,3106=0607,3107=0708''"
    "format_prefix_result e = ''-''"
    unfolding d(2) e(2) by (simp_all add: m below_def format_prefix_result_def sort_pairs_def hex_def hex_digit_def)
  show ?thesis
    using s1(1,2) s2(1,2)
    by (simp add: trace_short_account_prefix_delete_all_def reads_tbind reads_silent comp_def unwrap_call_Inr
        d(1) e(1) get lines read_line_label root_labels_def hex_or_dash_def)
      (simp add: hex_def hex_digit_def)
qed

lemma address_prefix_ok:
  "reads (trace_address_prefix_filter kc) = map Stdout [''ADDRDEL 5101=20'', ''ADDRPOST - -'']
    \<and> snd (trace_address_prefix_filter kc) = Inr ()"
proof -
  define s1 where "s1 = snd (state_set kc (short_account [0x52, 1]) [0x10] (state_new kc))"
  define s2 where "s2 = snd (state_set kc (short_account [0x51, 1]) [0x20] s1)"
  have s1: "fst (state_set kc (short_account [0x52, 1]) [0x10] (state_new kc)) = Inr ()"
    "short_state kc s1 [([0x52, 1], [0x10])]"
    using short_set [OF short_new(2) [of kc], of "[0x52, 1]" "[0x10]"] by (simp_all add: s1_def)
  have s2: "fst (state_set kc (short_account [0x51, 1]) [0x20] s1) = Inr ()"
    "short_state kc s2 [([0x51, 1], [0x20]), ([0x52, 1], [0x10])]"
    using short_set [OF s1(2), of "[0x51, 1]" "[0x20]"] by (simp_all add: s2_def)
  have none: "view_below s2 ck = None" for ck
    by (simp add: view_below_def s2_def s1_def set_layers snapshot_get_owned_def snapshot_get_def st_default_def
        it_default_def layer_map_def rekeyed_def)
  obtain d s3 where d: "delete_all_by_prefix kc \<lparr>sk_key = AddressPrefix [0x51], sk_space = Native\<rparr> s2 = (Inr d, s3)"
    "format_prefix_result d = format_prefix_result (below [0x51] [([0x51, 1], [0x20]), ([0x52, 1], [0x10])])"
    "state_inv kc s3" "state_view s3 = Map.empty"
    using short_delete_address [OF s2(2), of "[0x51]"] by (auto simp: none fun_eq_iff)
  have line: "format_prefix_result d = ''5101=20''"
    unfolding d(2) by (simp add: below_def format_prefix_result_def sort_pairs_def hex_def hex_digit_def)
  show ?thesis
    unfolding trace_address_prefix_filter_def Let_def
    by (simp add: unwrap_call_Inr s1(1) s2(1) s1_def [symmetric] s2_def [symmetric] d(1,3,4) line get_ok read_line_label
        root_labels_def hex_or_dash_def)
qed

lemma set_delete_ok: "reads (trace_set_delete kc) = [] \<and> snd (trace_set_delete kc) = Inr ()"
  by (simp add: trace_set_delete_def Let_def trace_simps read_line_label root_labels_def)

subsection \<open>Scenarios on a manager\<close>

lemma manager_calls [trace_simps]:
  "fst (manager_set kc k v m) = fst (state_set kc k v (sm_state m))"
  "sm_state (snd (manager_set kc k v m)) = snd (state_set kc k v (sm_state m))"
  "fst (manager_get kc k m) = fst (state_get kc k (sm_state m))"
  "sm_state (snd (manager_get kc k m)) = snd (state_get kc k (sm_state m))"
  "manager_get_all_by_prefix kc k m = get_all_by_prefix kc k (sm_state m)"
  "fst (manager_delete_all_by_prefix kc k m) = fst (delete_all_by_prefix kc k (sm_state m))"
  "sm_state (snd (manager_delete_all_by_prefix kc k m)) = snd (delete_all_by_prefix kc k (sm_state m))"
  by (simp_all add: manager_set_def manager_get_def manager_get_all_by_prefix_def manager_delete_all_by_prefix_def)

lemma commit_manager_ok [trace_simps]:
  assumes "state_inv kc (sm_state m)"
  shows "fst (commit_manager kc m) = Inr (committed_root kc (sm_state m))"
    "sm_state (snd (commit_manager kc m)) = snd (state_commit kc (sm_state m))"
  using state_commit_correct [OF assms]
  by (auto simp: commit_manager_def state_manager_commit_def memory_save_latest_def)

definition first_manager :: "(bytes \<Rightarrow> h256) \<Rightarrow> memory_store state_manager" where
  "first_manager kc = \<lparr>sm_state = with_snapshot_epoch_count kc 2, sm_store = None\<rparr>"

lemma new_manager_ok [simp]:
  "new_manager kc = Inr (first_manager kc)" "sm_state (first_manager kc) = with_snapshot_epoch_count kc 2"
  by (simp_all add: new_manager_def state_manager_with_epoch_count_def state_manager_new_def memory_load_latest_def
      memory_store_new_def first_manager_def with_snapshot_epoch_count_def)

lemma epoch_count_ok [simp]:
  "state_inv kc (with_snapshot_epoch_count kc n)" "state_view (with_snapshot_epoch_count kc n) = Map.empty"
  by (rule with_snapshot_epoch_count_inv)+

lemma say_commit_ok [trace_simps]:
  assumes "state_inv kc (sm_state m)"
  shows "snd (say_commit kc label m) = Inr (snd (commit_manager kc m))"
    "CHR '' '' \<notin> set label \<Longrightarrow> label \<in> set root_labels \<Longrightarrow> reads (say_commit kc label m) = []"
  by (simp_all add: say_commit_def trace_simps assms reads_say_label del: reads_simps(2))

fun read_all :: "(bytes \<Rightarrow> h256) \<Rightarrow> storage_key_with_space list \<Rightarrow> 'st state_manager \<Rightarrow> 'st state_manager" where
  "read_all kc [] m = m"
| "read_all kc (k # ks) m = read_all kc ks (snd (manager_get kc k m))"

lemma read_all_ok [trace_simps]:
  "state_inv kc (sm_state m) \<Longrightarrow> \<forall>k \<in> set ks. plain_key k \<Longrightarrow> state_inv kc (sm_state (read_all kc ks m))"
  "state_inv kc (sm_state m) \<Longrightarrow> \<forall>k \<in> set ks. plain_key k \<Longrightarrow> state_view (sm_state (read_all kc ks m)) = state_view (sm_state m)"
  by (induction ks arbitrary: m) (simp_all add: trace_simps)

lemma read_each_ok:
  "state_inv kc (sm_state m) \<Longrightarrow> \<forall>k \<in> set ks. plain_key k \<Longrightarrow>
   read_each kc ks m = ([], Inr (map (\<lambda>k. hex_or_dash (state_view (sm_state m) (canonical_key k))) ks, read_all kc ks m))"
proof (induction ks arbitrary: m)
  case (Cons k ks)
  then show ?case
    using Cons.IH [of "snd (manager_get kc k m)"] by (simp add: trace_simps tbind_def prod_eq_iff)
qed (simp add: ret_def)

lemma say_reads_ok [trace_simps]:
  assumes "state_inv kc (sm_state m)" "\<forall>k \<in> set ks. plain_key k"
  shows "snd (say_reads kc label ks m) = Inr (read_all kc ks m)"
    "CHR '' '' \<notin> set label \<Longrightarrow> label \<notin> set root_labels \<Longrightarrow> reads (say_reads kc label ks m)
       = [Stdout (join_strings '' '' (label # map (\<lambda>k. hex_or_dash (state_view (sm_state m) (canonical_key k))) ks))]"
  by (simp_all add: say_reads_def read_each_ok [OF assms] reads_tbind reads_say_label del: reads_simps(2) join_strings.simps)

text \<open>Scenarios one step at a time: each step is told the map that the manager stands for.\<close>

definition stands_for :: "(bytes \<Rightarrow> h256) \<Rightarrow> 'st state_manager \<Rightarrow> (bytes \<rightharpoonup> bytes) \<Rightarrow> bool" where
  "stands_for kc m v \<longleftrightarrow> state_inv kc (sm_state m) \<and> state_view (sm_state m) = v"

definition prints :: "unit traced \<Rightarrow> line list \<Rightarrow> bool" where
  "prints t ls \<longleftrightarrow> reads t = ls \<and> snd t = Inr ()"

lemma ret_step: "prints (ret ()) []"
  by (simp add: prints_def)

lemma set_step:
  assumes "stands_for kc m v" "plain_key k"
    and "\<And>m'. stands_for kc m' (v(canonical_key k := (if w = [] then None else Some w))) \<Longrightarrow> prints (f () m') ls"
  shows "prints (unwrap_call (manager_set kc k w m) f) ls"
  using assms(1,2) by (simp add: trace_simps stands_for_def) (rule assms(3), simp add: trace_simps stands_for_def)

lemma commit_step:
  assumes "stands_for kc m v" "CHR '' '' \<notin> set label \<and> label \<in> set root_labels"
    and "\<And>m'. stands_for kc m' v \<Longrightarrow> prints (f m') ls"
  shows "prints (tbind (say_commit kc label m) f) ls"
proof -
  have "stands_for kc (snd (commit_manager kc m)) v"
    using assms(1) by (simp add: trace_simps stands_for_def)
  then show ?thesis
    using assms(1,2) assms(3) by (simp add: trace_simps stands_for_def prints_def)
qed

lemma reads_step:
  assumes "stands_for kc m v"
    and "(\<forall>k \<in> set ks. plain_key k) \<and> CHR '' '' \<notin> set label \<and> label \<notin> set root_labels
      \<and> l = Stdout (join_strings '' '' (label # map (\<lambda>k. hex_or_dash (v (canonical_key k))) ks))"
    and "\<And>m'. stands_for kc m' v \<Longrightarrow> prints (f m') ls"
  shows "prints (tbind (say_reads kc label ks m) f) (l # ls)"
proof -
  have "stands_for kc (read_all kc ks m) v"
    using assms(1,2) by (simp add: trace_simps stands_for_def)
  then show ?thesis
    using assms(1,2) assms(3) by (simp add: trace_simps stands_for_def prints_def del: join_strings.simps)
qed

lemma first_step: "(stands_for kc (first_manager kc) Map.empty \<Longrightarrow> prints (f (first_manager kc)) ls) \<Longrightarrow> prints (unwrap (new_manager kc) f) ls"
  by (simp add: stands_for_def)

lemma rollover_ok:
  "reads (trace_snapshot_rollover kc)
      = map Stdout [''ROLL3GET a1'', ''ROLL5GET a1 b2'', ''ROLL7GET - b2 c3 d4'', ''ROLL9GET - b2 c3 d4'']
    \<and> snd (trace_snapshot_rollover kc) = Inr ()"
  unfolding trace_snapshot_rollover_def Let_def list.map prints_def [symmetric]
  by (rule first_step)
    (rule ret_step | rule set_step commit_step reads_step, assumption,
      simp add: root_labels_def hex_or_dash_def hex_def hex_digit_def)+

text \<open>Two commits from the first period on: what was written is the intermediate.\<close>

lemma first_rotation:
  assumes inv: "state_inv kc s" and h: "s_height s = 0" and n: "s_snapshot_epoch_count s = 2"
    and i: "s_intermediate s = []" and b: "st_to_canonical_map (s_snapshot s) = []"
  defines "s2 \<equiv> snd (state_commit kc (snd (state_commit kc s)))"
  shows "s_delta s2 = []" "s_intermediate s2 = s_delta s" "s_intermediate_padding s2 = s_delta_padding s"
    "st_to_canonical_map (s_snapshot s2) = []"
proof -
  have "\<not> commit_due s" by (simp add: commit_due_def h n)
  then obtain s1 where s1: "state_commit kc s = (Inr (committed_root kc s), s1)" "state_inv kc s1"
    "s_height s1 = 1" "s_snapshot_epoch_count s1 = 2" "s_delta s1 = s_delta s" "s_intermediate s1 = []"
    "s_snapshot s1 = s_snapshot s" "s_delta_padding s1 = s_delta_padding s"
    using state_commit_correct [OF inv] h n i by auto
  have "commit_due s1" by (simp add: commit_due_def s1)
  then obtain s2' where "state_commit kc s1 = (Inr (committed_root kc s1), s2')"
    "rotated kc (the (trie_root kc (s_delta s1))) s1 s2'"
    using state_commit_correct [OF s1(2)] by auto
  then have "rotated kc (the (trie_root kc (s_delta s1))) s1 s2" by (simp add: s2_def s1(1))
  then show "s_delta s2 = []" "s_intermediate s2 = s_delta s" "s_intermediate_padding s2 = s_delta_padding s"
    "st_to_canonical_map (s_snapshot s2) = []"
    by (simp_all add: rotated_def s1 b rekeyed_def map_updates_def)
qed

lemma epoch_count_layers [simp]:
  "s_delta (with_snapshot_epoch_count kc n) = []" "s_intermediate (with_snapshot_epoch_count kc n) = []"
  "s_snapshot (with_snapshot_epoch_count kc n) = st_default"
  "s_delta_padding (with_snapshot_epoch_count kc n) = genesis kc"
  "s_height (with_snapshot_epoch_count kc n) = 0" "s_snapshot_epoch_count (with_snapshot_epoch_count kc n) = max n 1"
  by (simp_all add: with_snapshot_epoch_count_def)

lemma intermediate_bug_ok:
  assumes "slot_padding kc (genesis kc) ([0xab, 0xcd] @ replicate 30 0x33) \<noteq> slot_padding kc (genesis kc) [0xab, 0xcd]"
  shows "reads (trace_intermediate_prefix_bug kc) = map Stdout [''IPGET -'', ''IPDEL -'', ''IPPOST 77'']
    \<and> snd (trace_intermediate_prefix_bug kc) = Inr ()"
proof -
  define key where "key = slot_of 9 ([0xab, 0xcd] @ replicate 30 0x33) Native"
  define pk where "pk = slot_of 9 [0xab, 0xcd] Native"
  have key: "plain_key key" by (simp add: key_def)
  define s where "s = snd (state_set kc key [0x77] (with_snapshot_epoch_count kc 2))"
  have set: "fst (state_set kc key [0x77] (with_snapshot_epoch_count kc 2)) = Inr ()" and inv: "state_inv kc s"
    and view: "state_view s = [canonical_key key \<mapsto> [0x77]]"
    by (simp_all add: s_def set_ok key)
  define s2 where "s2 = snd (state_commit kc (snd (state_commit kc s)))"
  have inv2: "state_inv kc s2" "state_view s2 = [canonical_key key \<mapsto> [0x77]]"
    by (simp_all add: s2_def commit_ok inv view)
  note rot = first_rotation [OF inv, folded s2_def]
  have layers: "s_delta s2 = []" "s_intermediate s2 = s_delta s" "s_intermediate_padding s2 = genesis kc"
    "st_to_canonical_map (s_snapshot s2) = []"
    by (simp_all add: rot s_def set_layers)
  have apart: "pads_apart kc (s_delta_padding s2) (replicate 20 9) [0xab, 0xcd] Native (layer_map (s_delta s2))"
    "pads_apart kc (s_intermediate_padding s2) (replicate 20 9) [0xab, 0xcd] Native (layer_map (s_intermediate s2))"
    using slot_pads_apart [OF assms, of 9]
    by (simp_all add: layers s_def set_delta_map key key_def layer_map_def rekeyed_def pads_apart_def)
  have st: "st_inv kc (s_snapshot s2)" using inv2(1) by (simp add: state_inv_defs)
  have none: "snapshot_pairs cp s2 = []" "snapshot_get_owned (s_snapshot s2) ck = None" for cp ck
    using snap.map_lookup [OF st, symmetric] by (simp_all add: snapshot_pairs_def layers(4) selected_def)
  have get: "get_all_by_prefix kc pk s2 = Inr None"
    using slot_prefix_read [OF inv2(1) _ apart] by (simp add: get_all_of_prefix pk_def slot_of_prefix none)
  obtain s' where del: "delete_all_by_prefix kc pk s2 = (Inr None, s')" "state_inv kc s'" "state_view s' = state_view s2"
    using slot_prefix_delete [OF inv2(1) _ apart]
    by (auto simp: delete_all_of_prefix pk_def slot_of_prefix none)
  show ?thesis
    unfolding trace_intermediate_prefix_bug_def Let_def key_def [symmetric] pk_def [symmetric]
    by (simp add: trace_simps set inv key s_def [symmetric] s2_def [symmetric] get del inv2 root_labels_def hex_or_dash_def)
      (simp add: hex_def hex_digit_def)
qed

lemma intermediate_bug_equal:
  assumes "slot_padding kc (genesis kc) ([0xab, 0xcd] @ replicate 30 0x33) = slot_padding kc (genesis kc) [0xab, 0xcd]"
  shows "reads (trace_intermediate_prefix_bug kc) = map Stdout
      [''IPGET '' @ hex (canonical_key (slot_of 9 ([0xab, 0xcd] @ replicate 30 0x33) Native)) @ ''=77'',
       ''IPDEL '' @ hex (canonical_key (slot_of 9 ([0xab, 0xcd] @ replicate 30 0x33) Native)) @ ''=77'', ''IPPOST -'']
    \<and> snd (trace_intermediate_prefix_bug kc) = Inr ()"
proof -
  define key where "key = slot_of 9 ([0xab, 0xcd] @ replicate 30 0x33) Native"
  define pk where "pk = slot_of 9 [0xab, 0xcd] Native"
  have key: "plain_key key" by (simp add: key_def)
  define s where "s = snd (state_set kc key [0x77] (with_snapshot_epoch_count kc 2))"
  have set: "fst (state_set kc key [0x77] (with_snapshot_epoch_count kc 2)) = Inr ()" and inv: "state_inv kc s"
    and view: "state_view s = [canonical_key key \<mapsto> [0x77]]"
    by (simp_all add: s_def set_ok key)
  define s2 where "s2 = snd (state_commit kc (snd (state_commit kc s)))"
  have inv2: "state_inv kc s2" "state_view s2 = [canonical_key key \<mapsto> [0x77]]"
    by (simp_all add: s2_def commit_ok inv view)
  note rot = first_rotation [OF inv, folded s2_def]
  have "s_delta s = [(raw_of kc (genesis kc) key, MptSome [0x77])]"
    using set_delta [of kc "with_snapshot_epoch_count kc 2" key "[0x77]"] key by (simp add: s_def stored_value_def new_ok)
  then have layers: "s_intermediate s2 = [(raw_of kc (s_intermediate_padding s2) key, MptSome [0x77])]" "s_delta s2 = []"
    "st_to_canonical_map (s_snapshot s2) = []" "s_intermediate_padding s2 = genesis kc"
    by (simp_all add: rot s_def set_layers)
  have key_eq: "key = slot_prefix (replicate 20 9) ([0xab, 0xcd] @ replicate 30 0x33) Native"
    by (simp add: key_def slot_of_prefix)
  note lone = lone_intermediate_prefix [OF inv2(1) _ _ _ _ layers(1) [unfolded key_eq] layers(2,3), unfolded layers(4), OF _ _ _ assms,
      folded key_eq, simplified]
  have get: "get_all_by_prefix kc pk s2 = Inr (Some [(canonical_key key, [0x77])])"
    using lone(1) by (simp add: get_all_of_prefix pk_def slot_of_prefix)
  obtain s' where del: "delete_all_by_prefix kc pk s2 = (Inr (Some [(canonical_key key, [0x77])]), s')" "state_inv kc s'"
    "state_view s' = Map.empty"
    using lone(2) by (auto simp: delete_all_of_prefix pk_def slot_of_prefix)
  have format: "format_prefix_result (Some [(canonical_key key, [0x77])]) = hex (canonical_key key) @ ''=77''"
    by (simp add: format_prefix_result_def sort_pairs_def, simp add: hex_def hex_digit_def)
  show ?thesis
    unfolding trace_intermediate_prefix_bug_def Let_def key_def [symmetric] pk_def [symmetric]
    by (simp add: trace_simps set inv key s_def [symmetric] s2_def [symmetric] get del inv2 root_labels_def hex_or_dash_def format)
qed

text \<open>A short state that goes through the first rotation.\<close>

lemma short_rotation:
  assumes s: "short_state kc s m" and h: "s_height s = 0" "s_snapshot_epoch_count s = 2" "s_intermediate s = []"
  defines "s2 \<equiv> snd (state_commit kc (snd (state_commit kc s)))"
  shows "short_state kc s2 m" "s_delta s2 = []"
proof -
  have inv: "state_inv kc s" and b: "st_to_canonical_map (s_snapshot s) = []" using s by (simp_all add: short_state_def)
  note rot = first_rotation [OF inv h b, folded s2_def]
  have "state_inv kc s2" "state_view s2 = state_view s" by (simp_all add: s2_def commit_ok inv)
  with s rot show "short_state kc s2 m" "s_delta s2 = []" by (simp_all add: short_state_def)
qed

lemma manager_set_each_ok:
  "fst (manager_set_each kc kvs m) = fst (set_each kc kvs (sm_state m))
   \<and> map_sum id sm_state (snd (manager_set_each kc kvs m)) = snd (set_each kc kvs (sm_state m))"
proof (induction kvs arbitrary: m)
  case (Cons kv kvs)
  show ?case
  proof (cases kv)
    case (Pair k v)
    show ?thesis
      using Cons.IH [of "snd (manager_set kc k v m)"]
      by (cases "fst (state_set kc k v (sm_state m))")
        (simp_all add: Pair unwrap_call_def unwrap_def manager_calls)
  qed
qed simp

lemma short_stateD:
  "short_state kc s m \<Longrightarrow> state_inv kc s" "short_state kc s m \<Longrightarrow> state_view s = bt_get m"
  by (simp_all add: short_state_def)

lemma canonical_short [simp]: "length b < 20 \<Longrightarrow> canonical_key (short_account b) = b"
  by (rule short_keys(2))

lemma intermediate_account_ok:
  "reads (trace_intermediate_account_prefix kc)
      = map Stdout [''IAPGET 6100=01,6101=02,6102=03,6103=04'', ''IAPDEL 6100=01,6101=02,6102=03,6103=04'', ''IAPPOST - 99'']
    \<and> snd (trace_intermediate_account_prefix kc) = Inr ()"
proof -
  let ?e = "map (\<lambda>i. ([0x61, i], [i + 1])) (map of_nat [0..<4]) :: (bytes \<times> bytes) list"
  let ?kvs = "map (apfst short_account) ?e"
  let ?s0 = "with_snapshot_epoch_count kc 2"
  obtain s1 where s1: "fst (set_each kc ?kvs ?s0) = []" "snd (set_each kc ?kvs ?s0) = Inr s1"
    "short_state kc s1 (bt_extend [] ?e)" "s_intermediate s1 = []" "s_height s1 = 0" "s_snapshot_epoch_count s1 = 2"
    using set_each_short [OF short_new(1), of ?e kc 2] by (auto simp: max_def word_le_nat_alt)
  obtain m1 where m1: "fst (manager_set_each kc ?kvs (first_manager kc)) = []"
    "snd (manager_set_each kc ?kvs (first_manager kc)) = Inr m1" "sm_state m1 = s1"
    using manager_set_each_ok [of kc ?kvs "first_manager kc"] s1(1,2)
    by (cases "snd (manager_set_each kc ?kvs (first_manager kc))") auto
  define m where "m = bt_insert [0x62, 0] [0x99] (bt_extend [] ?e)"
  have m: "m = [([0x61, 0], [1]), ([0x61, 1], [2]), ([0x61, 2], [3]), ([0x61, 3], [4]), ([0x62, 0], [0x99])]"
    by (simp add: m_def bt_extend_def upt_conv_Cons)
  define s2 where "s2 = snd (state_set kc (short_account [0x62, 0]) [0x99] s1)"
  have s2: "fst (state_set kc (short_account [0x62, 0]) [0x99] s1) = Inr ()" "short_state kc s2 m"
    using short_set [OF s1(3), of "[0x62, 0]" "[0x99]"] by (simp_all add: s2_def m_def)
  note inv = short_stateD(1) [OF s2(2)]
  define s4 where "s4 = snd (state_commit kc (snd (state_commit kc s2)))"
  have s4: "short_state kc s4 m"
    using short_rotation(1) [OF s2(2)] by (simp add: s4_def s2_def set_layers s1)
  obtain g where g: "get_all_by_prefix kc (short_account [0x61]) s4 = Inr g"
    "format_prefix_result g = format_prefix_result (below [0x61] m)"
    using short_get_all [OF s4, of "[0x61]"] by auto
  obtain d s5 where d: "delete_all_by_prefix kc (short_account [0x61]) s4 = (Inr d, s5)"
    "format_prefix_result d = format_prefix_result (below [0x61] m)"
    "short_state kc s5 (filter (\<lambda>kv. \<not> prefix [0x61] (fst kv)) m)"
    using short_delete_all [OF s4, of "[0x61]"] by auto
  have lines: "format_prefix_result g = ''6100=01,6101=02,6102=03,6103=04''"
    "format_prefix_result d = ''6100=01,6101=02,6102=03,6103=04''"
    unfolding g(2) d(2) by (simp_all add: m below_def format_prefix_result_def sort_pairs_def hex_def hex_digit_def)
  show ?thesis
    using m1 unfolding trace_intermediate_account_prefix_def Let_def
    by (simp add: reads_silent trace_simps comp_def s2(1) s2_def [symmetric]
        inv s4_def [symmetric] g(1) d(1) lines short_stateD [OF d(3)] root_labels_def hex_or_dash_def m)
      (simp add: hex_def hex_digit_def)
qed

lemma intermediate_address_ok:
  "reads (trace_intermediate_address_prefix_filter kc) = map Stdout [''IADDRDEL 5102=40'', ''IADDRPOST 30 -'']
    \<and> snd (trace_intermediate_address_prefix_filter kc) = Inr ()"
proof -
  let ?s0 = "with_snapshot_epoch_count kc 2"
  let ?m = "[([0x51, 2], [0x40]), ([0x52, 2], [0x30])] :: (bytes, bytes) btree"
  define s1 where "s1 = snd (state_set kc (short_account [0x52, 2]) [0x30] ?s0)"
  define s2 where "s2 = snd (state_set kc (short_account [0x51, 2]) [0x40] s1)"
  have s1: "fst (state_set kc (short_account [0x52, 2]) [0x30] ?s0) = Inr ()" "short_state kc s1 [([0x52, 2], [0x30])]"
    using short_set [OF short_new(1) [of kc], of "[0x52, 2]" "[0x30]" 2] by (simp_all add: s1_def)
  have s2: "fst (state_set kc (short_account [0x51, 2]) [0x40] s1) = Inr ()" "short_state kc s2 ?m"
    using short_set [OF s1(2), of "[0x51, 2]" "[0x40]"] by (simp_all add: s2_def)
  note inv = short_stateD(1) [OF s2(2)]
  define s4 where "s4 = snd (state_commit kc (snd (state_commit kc s2)))"
  have s4: "short_state kc s4 ?m" "s_delta s4 = []"
    using short_rotation [OF s2(2)] by (simp_all add: s4_def s2_def s1_def set_layers max_def word_le_nat_alt)
  have below: "view_below s4 = bt_get ?m"
    using short_stateD(2) [OF s4(1)] by (simp add: view_below_def state_view_def s4(2) layer_map_def rekeyed_def fun_eq_iff)
  obtain d s5 where d: "delete_all_by_prefix kc \<lparr>sk_key = AddressPrefix [0x51], sk_space = Native\<rparr> s4 = (Inr d, s5)"
    "format_prefix_result d = format_prefix_result (below [0x51] ?m)"
    "state_inv kc s5" "state_view s5 = (\<lambda>ck. if prefix [0x51] ck then None else bt_get ?m ck)"
    using short_delete_address [OF s4(1), of "[0x51]", unfolded below] by blast
  have line: "format_prefix_result d = ''5102=40''"
    unfolding d(2) by (simp add: below_def format_prefix_result_def sort_pairs_def hex_def hex_digit_def)
  show ?thesis
    unfolding trace_intermediate_address_prefix_filter_def Let_def
    by (simp add: trace_simps s1(1) s2(1) s1_def [symmetric] s2_def [symmetric]
        inv s4_def [symmetric] d(1,3,4) line root_labels_def hex_or_dash_def)
      (simp add: hex_def hex_digit_def)
qed

subsection \<open>The program\<close>

text \<open>The lines of the scenarios that print no root.\<close>

definition slot_entry :: "u8 \<Rightarrow> u8 \<Rightarrow> string \<Rightarrow> string" where
  "slot_entry b x v = hex (replicate 20 b @ STORAGE_PREFIX @ [0xab, 0xcd] @ replicate 30 x) @ v"

definition scenario_reads :: "bool \<Rightarrow> bool \<Rightarrow> line list" where
  "scenario_reads delta_hit intermediate_hit = map Stdout
     ((if delta_hit then [''PSET 4224'', ''PGET '' @ slot_entry 7 0x11 ''=4224'', ''PDEL '' @ slot_entry 7 0x11 ''=4224'', ''PPOST -'']
       else [''PSET 4224'', ''PGET -'', ''PDEL -'', ''PPOST 4224'']) @
      [''SNPGET '' @ slot_entry 8 0x22 ''=5566'', ''SNPDEL '' @ slot_entry 8 0x22 ''=5566'', ''SNPPOST -'',
       ''APDEL 3100=0001,3101=0102,3102=0203,3103=0304,3104=0405,3105=0506,3106=0607,3107=0708'',
       ''APDEL2 -'', ''APKEEP 0d'',
       ''ROLL3GET a1'', ''ROLL5GET a1 b2'', ''ROLL7GET - b2 c3 d4'', ''ROLL9GET - b2 c3 d4''] @
      (if intermediate_hit then [''IPGET '' @ slot_entry 9 0x33 ''=77'', ''IPDEL '' @ slot_entry 9 0x33 ''=77'', ''IPPOST -'']
       else [''IPGET -'', ''IPDEL -'', ''IPPOST 77'']) @
      [''IAPGET 6100=01,6101=02,6102=03,6103=04'', ''IAPDEL 6100=01,6101=02,6102=03,6103=04'', ''IAPPOST - 99'',
       ''ADDRDEL 5101=20'', ''ADDRPOST - -'', ''IADDRDEL 5102=40'', ''IADDRPOST 30 -''])"

text \<open>The hash gives the slot key \<open>ab cd x x ..\<close> and its beginning \<open>ab cd\<close> the same 28 bytes of padding.\<close>

definition same_padding :: "(bytes \<Rightarrow> h256) \<Rightarrow> u8 \<Rightarrow> bool" where
  "same_padding kc x \<longleftrightarrow> slot_padding kc (genesis kc) ([0xab, 0xcd] @ replicate 30 x) = slot_padding kc (genesis kc) [0xab, 0xcd]"

lemma delta_bug_reads:
  "reads (trace_storage_prefix_delta_bug kc) = map Stdout
     (if same_padding kc 0x11 then [''PSET 4224'', ''PGET '' @ slot_entry 7 0x11 ''=4224'', ''PDEL '' @ slot_entry 7 0x11 ''=4224'', ''PPOST -'']
      else [''PSET 4224'', ''PGET -'', ''PDEL -'', ''PPOST 4224''])
   \<and> snd (trace_storage_prefix_delta_bug kc) = Inr ()"
  using delta_bug_ok [of kc] delta_bug_equal [of kc] unfolding same_padding_def slot_entry_def slot_canonical
  by (cases "slot_padding kc (genesis kc) ([0xab, 0xcd] @ replicate 30 0x11) = slot_padding kc (genesis kc) [0xab, 0xcd]")
    (simp_all only: if_True if_False simp_thms append_assoc)

lemma intermediate_bug_reads:
  "reads (trace_intermediate_prefix_bug kc) = map Stdout
     (if same_padding kc 0x33 then [''IPGET '' @ slot_entry 9 0x33 ''=77'', ''IPDEL '' @ slot_entry 9 0x33 ''=77'', ''IPPOST -'']
      else [''IPGET -'', ''IPDEL -'', ''IPPOST 77''])
   \<and> snd (trace_intermediate_prefix_bug kc) = Inr ()"
  using intermediate_bug_ok [of kc] intermediate_bug_equal [of kc] unfolding same_padding_def slot_entry_def slot_canonical
  by (cases "slot_padding kc (genesis kc) ([0xab, 0xcd] @ replicate 30 0x33) = slot_padding kc (genesis kc) [0xab, 0xcd]")
    (simp_all only: if_True if_False simp_thms append_assoc)

lemma order_silent: "reads (trace_set_order kc) = [] \<and> snd (trace_set_order kc) = Inr ()"
  using set_order_ok [of kc] by (simp add: Let_def reads_def root_labels_def)

lemma main_ok:
  "reads (trace_main kc dump) = plain_steps (map of_nat [0..<800]) Map.empty @ scenario_reads (same_padding kc 0x11) (same_padding kc 0x33)
     \<and> snd (trace_main kc dump) = Inr ()"
proof -
  obtain s where s: "reads (trace_steps kc dump (map of_nat [0..<800]) (state_new kc)) = plain_steps (map of_nat [0..<800]) Map.empty"
    "snd (trace_steps kc dump (map of_nat [0..<800]) (state_new kc)) = Inr s" "state_inv kc s"
    using trace_steps_ok [OF new_ok(1), of kc Map.empty dump "map of_nat [0..<800]"] by auto
  note scenarios = delta_bug_reads [of kc] snapshot_hit_ok [of kc, unfolded slot_canonical] order_silent [of kc] short_account_prefix_ok [of kc]
    set_delete_ok [of kc] rollover_ok [of kc] intermediate_bug_reads [of kc] intermediate_account_ok [of kc]
    address_prefix_ok [of kc] intermediate_address_ok [of kc]
  have entry: "hex (replicate 20 8 @ STORAGE_PREFIX @ [0xab, 0xcd] @ replicate 30 0x22) @ ''=5566'' = slot_entry 8 0x22 ''=5566''"
    by (simp add: slot_entry_def)
  show ?thesis
    unfolding trace_main_def scenario_reads_def
    by (simp add: reads_tbind s unwrap_call_Inr commit_ok(1) reads_say_label root_labels_def scenarios [unfolded entry]
        del: reads_simps(2) upt_conv_Cons)
qed

end
