(* ===== verification/Trace_Theorems.thy ===== *)
theory Trace_Theorems
  imports Trace_Correct
begin

text \<open>
  The properties of prefix operations whose prefix cuts a slot key, and of the trace program,
  each with an instance. \<open>tail_hash\<close> is a hash function for the instances only: the last 32
  bytes, padded with zeros, so that slot keys with different ends have different paddings.
\<close>

definition tail_hash :: "bytes \<Rightarrow> h256" where
  "tail_hash bs = H256 (drop (length bs) (replicate 32 0 @ bs))"

lemma tail_padding:
  assumes "q \<noteq> []"
  shows "last (slot_padding tail_hash p q) = last q"
proof -
  have "slot_padding tail_hash p q
      = drop (4 + length (as_bytes p @ q)) (replicate 32 0 @ as_bytes p @ q)"
    unfolding slot_padding_def storage_key_padding_def tail_hash_def
    by (simp add: STORAGE_PREFIX_def del: drop_append)
  also have "last \<dots> = last (replicate 32 0 @ as_bytes p @ q)" by (rule last_drop) simp
  finally show ?thesis using assms by simp
qed

text \<open>The paddings of a slot key that ends in another byte than the prefix.\<close>

lemma tail_paddings_differ:
  assumes "b \<noteq> (0xcd :: u8)"
  shows "slot_padding tail_hash p ([0xab, 0xcd] @ replicate 30 b) \<noteq> slot_padding tail_hash p [0xab, 0xcd]"
proof -
  have "last (slot_padding tail_hash p ([0xab, 0xcd] @ replicate 30 b)) = b"
    "last (slot_padding tail_hash p [0xab, 0xcd]) = 0xcd" by (simp_all add: tail_padding)
  then show ?thesis using assms by metis
qed

text \<open>
  C31: a prefix that cuts a slot key sees the snapshot alone, unless a stored slot key below it
  hashes to its padding: the read and the delete return the entries of the snapshot, also those
  that an upper layer has deleted or overwritten, and the delete hides the keys that are in the
  snapshot and leaves every other entry below the prefix readable.
\<close>

theorem slot_prefix_sees_snapshot_only:
  assumes "state_inv kc s" "length a = 20"
    and "pads_apart kc (s_delta_padding s) a q sp (layer_map (s_delta s))"
    and "pads_apart kc (s_intermediate_padding s) a q sp (layer_map (s_intermediate s))"
  shows "read_prefix kc (slot_prefix a q sp) s
        = Inr (filter (\<lambda>kv. prefix (canonical_key (slot_prefix a q sp)) (fst kv)) (st_to_canonical_map (s_snapshot s)))
     \<and> (\<exists>s'. delete_prefix kc (slot_prefix a q sp) s = (read_prefix kc (slot_prefix a q sp) s, s')
          \<and> state_inv kc s' \<and> same_below s s'
          \<and> state_view s' = (\<lambda>ck. if prefix (canonical_key (slot_prefix a q sp)) ck
                 \<and> snapshot_get_owned (s_snapshot s) ck \<noteq> None then None else state_view s ck))"
  using slot_prefix_delete [OF assms] unfolding slot_prefix_read [OF assms] snapshot_pairs_def selected_def by simp

theorem slot_prefix_sees_snapshot_only_witness:
  "let a = replicate 20 7; pk = slot_prefix a [0xab, 0xcd] Native;
       s = snd (state_set tail_hash (slot_prefix a ([0xab, 0xcd] @ replicate 30 0x11) Native) [0x42] (state_new tail_hash))
   in read_prefix tail_hash pk s = Inr []
      \<and> (\<exists>s'. delete_prefix tail_hash pk s = (Inr [], s') \<and> state_view s' = state_view s)"
proof -
  let ?key = "slot_of 7 ([0xab, 0xcd] @ replicate 30 0x11) Native"
  let ?s = "snd (state_set tail_hash ?key [0x42] (state_new tail_hash))"
  have key: "plain_key ?key" by simp
  have inv: "state_inv tail_hash ?s" by (rule set_ok(2) [OF new_ok(1) key])
  have empty: "layer_map [] = Map.empty" by (simp add: fun_eq_iff)
  have "pads_apart tail_hash (s_delta_padding ?s) (replicate 20 7) [0xab, 0xcd] Native (layer_map (s_delta ?s))"
    unfolding set_delta_map [OF new_ok(1) key]
    using slot_pads_apart [OF tail_paddings_differ, of "0x11" "genesis tail_hash" 7]
    by (simp add: set_layers empty)
  moreover have "pads_apart tail_hash (s_intermediate_padding ?s) (replicate 20 7) [0xab, 0xcd] Native (layer_map (s_intermediate ?s))"
    by (simp add: set_layers pads_apart_def layer_map_def rekeyed_def)
  moreover have "st_to_canonical_map (s_snapshot ?s) = []" "snapshot_get_owned (s_snapshot ?s) ck = None" for ck
    by (simp add: set_layers) (simp add: set_layers snapshot_get_owned_def snapshot_get_def st_default_def it_default_def)
  ultimately show ?thesis
    using slot_prefix_sees_snapshot_only [OF inv, of "replicate 20 7" "[0xab, 0xcd]" Native]
    by (auto simp: Let_def slot_of_prefix)
qed



text \<open>
  The scenario that writes 24 accounts in both orders always prints one root twice: the root of
  their delta.
\<close>

theorem order_of_writes_irrelevant:
  "let r = hex_of (the (trie_root kc (order_delta kc)))
   in trace_set_order kc = ([Stdout (''ORDER '' @ r @ '' '' @ r @ '' true'')], Inr ())"
  by (rule set_order_ok)

end
