(* ===== verification/Spec2Isabelle.thy ===== *)
theory Spec2Isabelle
  imports Mpt_Theorems Lmdb_Theorems Pack_Theorems Extract_Theorems Pool_Theorems Reward_Theorems Trace_Theorems
begin

text \<open>
  A model of \<open>cfx-minimal-execution\<close>, in three parts: the crate \<open>minimal-mpt\<close>
  (\<open>src/crates/minimal-mpt\<close>), the three-layer authenticated state that the replay commits to
  after every epoch; the crate \<open>cfxpack\<close> (\<open>src/crates/cfxpack\<close>), the format of the packets of
  blocks the replay reads; and \<open>src/crates/replay-data-extractor\<close>, which reads the databases of a
  node and writes packet files.

  \<^bold>\<open>The state.\<close> A state has three layers: a snapshot keyed by canonical bytes, an
  intermediate and a delta keyed by bytes that depend on a padding (\<open>key_codec.rs\<close>). Reads
  look at the delta, the intermediate and the snapshot in this order; a tombstone hides the
  layers below. Every commit hashes the three Merkle roots; at a multiple of the epoch count
  the layers rotate (\<open>state/rotation.rs\<close>): the intermediate is merged into the snapshot, the
  delta becomes the intermediate. The roots come from a path-compressed 16-ary trie
  (\<open>trie.rs\<close>), cached between commits by routing prefix (\<open>incremental.rs\<close>).

  \<^bold>\<open>The packets.\<close> A packet is a header, tables of addresses, difficulties, gas prices and nonces,
  one record per block and a segment of transaction payloads. A record is written into a prefix of
  fixed size and an overflow (\<open>packet/encode.rs\<close>); numbers are LEB128 or compact integers
  (\<open>codec.rs\<close>); a repeated transaction is a reference to its first place. The decoder
  (\<open>decode/mod.rs\<close>, \<open>decode/tx.rs\<close>) and the verifier (\<open>verify.rs\<close>) read it back. Packets of
  consecutive epochs are put into container files with a directory (\<open>container.rs\<close>); worker
  threads produce them in any order and one thread writes them in order (\<open>extract/pack.rs\<close>). The
  flag patcher (\<open>extract/flagpatch.rs\<close>) sets one bit in the records of finished files, its threads
  sharing a cursor over the blocks.

  \<^bold>\<open>The extraction.\<close> \<open>Extractor::extract\<close> (\<open>extract/mod.rs\<close>) reads the epochs of a range from
  the columns of two databases (\<open>extract/db.rs\<close>), collects their blocks with flags and references,
  builds the tables (\<open>extract/tables.rs\<close>), lowers the blocks to the packet's form, attaches the PoS
  rewards and unlock events, and hands the packet to the encoder and the verifier. \<open>validate.rs\<close>
  checks that a packet can be replayed. Two tools dump a PoS reward as JSON and inject it into a
  container that lacks it.

  \<^bold>\<open>The theories of the state.\<close>
  \<^item> \<open>Mpt_Prelude\<close>, \<open>Btree_Map\<close>: machine types, results, prefixes; \<open>BTreeMap\<close> as strictly
    ascending association lists and the interface \<open>kv_map\<close> of a map.
  \<^item> \<open>Mpt_Types\<close> (\<open>types.rs\<close>), \<open>Mpt_Trie\<close> (\<open>trie.rs\<close>), \<open>Mpt_Incremental\<close>
    (\<open>incremental.rs\<close>), \<open>Mpt_Snapshot\<close> (\<open>snapshot.rs\<close>, in-memory backend), \<open>Mpt_Key_Codec\<close>
    (\<open>key_codec.rs\<close>), \<open>Mpt_State\<close> (\<open>state/\<close>), \<open>Mpt_Store\<close> (\<open>store.rs\<close>, persistence and
    \<open>StateManager\<close>): one definition per operation, under its name where Isabelle has it free,
    with the prefixes \<open>it_\<close>, \<open>st_\<close>, \<open>s_\<close>, \<open>p_\<close> for the operations and fields of
    \<open>IncrementalTrie\<close>, \<open>SnapshotTrie\<close>, \<open>State\<close>, \<open>PersistedState\<close>.
  \<^item> \<open>Trie_Spec\<close>: the reference hash of the subtree at a prefix; \<open>Trie_Correct\<close>,
    \<open>Nibbles\<close>, \<open>Incremental_Correct\<close>: the stateless walk, the cached walk and the cold rebuild
    compute it; \<open>Merkle_Map\<close>: the interface of a map with a root.
  \<^item> \<open>Trie_Theorems\<close>, \<open>Trie_Binding\<close>: the specification's hashes, and that roots bind.
  \<^item> \<open>Key_Codec_Correct\<close>, \<open>State_Correct\<close>, \<open>State_Commit\<close>, \<open>State_Prefix\<close>: the codec's laws,
    the invariant \<open>state_inv\<close>, the map \<open>state_view\<close> that the layers stand for, commits and
    prefix operations. \<open>Mpt_Theorems\<close>: the properties of the crate.
  \<^item> \<open>Partial_Prefix\<close>: prefixes that cut a slot key, and states of short accounts.
    \<open>Trace_Runner\<close> (\<open>bin/trace_standalone.rs\<close>): the program that prints what a long run and ten
    scenarios return; \<open>Trace_Correct\<close>: the lines of each; \<open>Trace_Theorems\<close>: the properties.
  \<^item> \<open>Mpt_Lmdb\<close>: the backend of \<open>snapshot.rs\<close> behind the feature \<open>snapshot-lmdb\<close>, over a record
    \<open>lmdb_lib\<close> of the calls of LMDB; \<open>Lmdb_Correct\<close>: under \<open>lmdb_law\<close> (what LMDB documents) it
    refines the in-memory backend; \<open>Lmdb_Theorems\<close>: its properties.

  \<^bold>\<open>The theories of the packets.\<close>
  \<^item> \<open>Pack_Prelude\<close>: errors and panics as values, slices, \<open>usize\<close> arithmetic, integers as bytes,
    and the interface \<open>wire_field\<close> of a field that is written and read back; \<open>Pack_Codec\<close>
    (\<open>codec.rs\<close>) and \<open>Pack_Codec_Correct\<close>, which interprets it for every encoding.
  \<^item> \<open>Packet_Types\<close> (\<open>packet/mod.rs\<close>), \<open>Packet_Encode\<close> (\<open>packet/encode.rs\<close>), \<open>Packet_Decode\<close>
    (\<open>decode/mod.rs\<close>, \<open>decode/tx.rs\<close>), \<open>Packet_Verify\<close> (\<open>verify.rs\<close>): one definition per function and
    one per loop body. The fields of a Rust record carry a prefix: \<open>p_\<close> of \<open>Packet\<close>, \<open>b_\<close> of \<open>Block\<close>.
  \<^item> \<open>Packet_Records\<close>, \<open>Packet_Body\<close>, \<open>Packet_Layout\<close>, \<open>Packet_Segment\<close>, \<open>Packet_Tx\<close>,
    \<open>Packet_Payload\<close>: what is read back from a record, the prefix area, the sections, the
    transaction segment, an item and a payload. \<open>Packet_Roundtrip\<close> puts them together,
    \<open>Packet_Plain\<close> gives the case without references of the caller, \<open>Packet_Agreement\<close> the verifier,
    \<open>Packet_Total\<close> that the encoder returns, \<open>Packet_Decoded\<close> what holds of any decoded packet,
    and \<open>Packet_Reflag\<close> how the encoding depends on the flag of one block.
  \<^item> \<open>Pack_Container\<close> (\<open>container.rs\<close>), \<open>Pack_Writer\<close> (\<open>extract/pack.rs\<close>), \<open>Shard_Plan\<close>
    (\<open>extract/shards.rs\<close>), \<open>Flag_Patch\<close> (\<open>extract/flagpatch.rs\<close>), with \<open>Container_Correct\<close>,
    \<open>Writer_Correct\<close> and \<open>Flag_Patch_Correct\<close>. \<open>Packet_Example\<close> has concrete libraries and packets,
    \<open>Pack_Theorems\<close> the properties.

  \<^bold>\<open>The theories of the extraction.\<close>
  \<^item> \<open>Extract_Types\<close>: configuration, block of the node, the records \<open>node_lib\<close> and \<open>rlp_view\<close> of
    the crates that decode headers and bodies. \<open>Extract_Tables\<close> (\<open>tables.rs\<close>), \<open>Extract_Db\<close>
    (\<open>db.rs\<close>), \<open>Extract_Core\<close> (\<open>mod.rs\<close>), \<open>Replay_Validate\<close> (\<open>validate.rs\<close>): the
    operations; a database is a record \<open>rocks\<close> of its reads and iterators.
  \<^item> \<open>Extract_Tables_Correct\<close>: the tables without hash maps; \<open>Extract_Db_Correct\<close>: the scans over
    a \<open>column\<close>, an iterator that walks through the entries in the order of their keys;
    \<open>Extract_Core_Correct\<close>, \<open>Extract_Packet\<close>: the blocks and the tables of an extracted packet;
    \<open>Extract_Encode\<close>: it is encoded, read back and verified; \<open>Extract_Source\<close>: its blocks and their PoS
    data stated over the databases alone; \<open>Replay_Packet\<close>: the replay check of an encoded packet. \<open>Extract_Example\<close> has concrete databases, \<open>Extract_Theorems\<close> the properties.
  \<^item> \<open>Extract_Pool\<close>: a pool of worker threads that take tasks from a channel, and the extractions that
    run one (\<open>run_packed\<close>, \<open>run_shards\<close>); \<open>Pool_Correct\<close>: under every schedule each task is run once and
    the workers end; \<open>Pool_Extract\<close>: what the writer, the joins and the progress logger make of it;
    \<open>Pool_Theorems\<close>: the two extractions end to end.
  \<^item> \<open>Reward_Patch\<close> (\<open>cfxpack/src/bin/patch_pos_reward.rs\<close>) and \<open>Reward_Dump\<close>
    (\<open>replay-data-extractor/src/bin/dump_pos_reward.rs\<close>): the tools for PoS rewards; \<open>Reward_Patch_Correct\<close>:
    rewriting a container in place gives the container that the writer makes of the new packets;
    \<open>Reward_Dump_Correct\<close>: a dumped reward is parsed back; \<open>Reward_Theorems\<close>: their properties.

  \<^bold>\<open>Conventions.\<close> Keccak-256 is not in the repository: it is the parameter \<open>kc\<close> of every
  definition that hashes, and no theorem assumes anything of it, but for one about prefixes that cut a
  slot key, which takes the paddings of the slot keys named there to differ. Nor are the crates \<open>rlp\<close>, \<open>snap\<close> and
  \<open>primitives\<close>: they are the records \<open>rlp_lib\<close>, \<open>snap_lib\<close> and \<open>tx_lib\<close>, of which the theorems assume
  that a stream is read back (\<open>rlp_law\<close>) and that compression is undone (\<open>snap_law\<close>) and succeeds
  below \<open>2^32\<close> bytes (\<open>snap_total\<close>); nothing is assumed of \<open>tx_lib\<close>: what comes back is the
  transaction \<open>canonical_tx\<close> that the decoder signs. A hash is the type \<open>h256\<close> of the byte lists of
  length 32. A Rust \<open>Err\<close> is \<open>Inl (Err e)\<close> or \<open>Inl (Bail m)\<close>; a panic is \<open>Inl (Panic m)\<close> or
  \<open>Inl (Pack_Panic m)\<close>, or \<open>None\<close> in the walks that return no \<open>Result\<close>; that the walks never panic is
  part of their theorems. Sums that can overflow wrap as in a release build. A method that changes the
  state, or a cache behind a \<open>RefCell\<close>, returns the state it leaves, on its error paths too.
  Threads are steps of a shared state under a schedule, an argument of the definitions; channels
  are the lists of what arrives. The walks end because every child is at a deeper prefix of a finite
  set of keys, so no fuel is used, but for the walk over LMDB, whose fuel \<open>walk_fuel\<close> is the longest key
  plus one and is proved to be enough; \<open>scan_scope\<close> extends a schedule by as many rounds of all threads as
  the scan can need (\<open>length sites + 2 * jobs\<close>), and \<open>pool_run\<close> by \<open>2 * length tasks + workers\<close>
  rounds of all workers; both are proved to be enough. The loop of the
  patcher's monitor is a \<open>partial_function\<close> because it may not end.

  The iteration orders of Rust's hash maps are a parameter \<open>orders\<close>; theorems assume that they
  are permutations (\<open>lawful_orders\<close>). The scans over a database are \<open>partial_function\<close>s, as an
  iterator may not end; of a \<open>column\<close> they are proved to end.

  \<^bold>\<open>What is not modelled.\<close> Timing and progress output, \<open>bincode\<close> (a parameter), I/O failures other than
  those of the databases and of files that cannot be read in the patcher, opening the databases and
  reading their configuration (a parameter of the entry points), the command lines, the benchmark, tests
  and fuzz targets.
\<close>

end
